(* ===== verification/Prelude.thy ===== *)
theory Prelude
  imports Main "HOL-Library.Word" "HOL-Library.Multiset"
begin

unbundle bit_operations_syntax

text \<open>
  Shared vocabulary of the development: the C integer types of
  \<^verbatim>\<open>src/src/include/common/types.h\<close>, the way a halted kernel is represented
  (\<^verbatim>\<open>Assert\<close> and \<^verbatim>\<open>Panic\<close> of \<^verbatim>\<open>src/src/common/secure.c\<close> never
  return), and the generic lemmas on words, bits and lists that the component theories share.
\<close>

section \<open>Machine types\<close>

type_synonym u8 = "8 word"
type_synonym u16 = "16 word"
type_synonym u32 = "32 word"
type_synonym addr = "32 word"

abbreviation (input) NULL :: addr where "NULL \<equiv> 0"

section \<open>A halted kernel\<close>

text \<open>
  \<^verbatim>\<open>Assert(c)\<close> calls \<^verbatim>\<open>panic_spin\<close> and \<^verbatim>\<open>Panic(...)\<close> prints its
  message; both end in an endless \<^verbatim>\<open>hlt\<close> loop. Code that reaches one of them produces
  \<open>Inl\<close> of the reason; everything after it is not executed.
\<close>

datatype kpanic = Assert_failed string | Panic string

type_synonym 'a kres = "kpanic + 'a"

definition kassert :: "bool \<Rightarrow> string \<Rightarrow> 'a kres \<Rightarrow> 'a kres" where
  "kassert c what k = (if c then k else Inl (Assert_failed what))"

definition kbind :: "'a kres \<Rightarrow> ('a \<Rightarrow> 'b kres) \<Rightarrow> 'b kres" where
  "kbind m f = (case m of Inl e \<Rightarrow> Inl e | Inr x \<Rightarrow> f x)"

lemma kassert_simps [simp]:
  "kassert True w k = k"
  "kassert False w k = Inl (Assert_failed w)"
  by (simp_all add: kassert_def)

lemma kbind_simps [simp]:
  "kbind (Inl e) f = Inl e"
  "kbind (Inr x) f = f x"
  by (simp_all add: kbind_def)

lemma kbind_Inr_right [simp]: "kbind m Inr = m" "kbind m (\<lambda>x. Inr x) = m"
  by (cases m; simp)+

lemma kassert_Inr_iff [simp]: "kassert c w k = Inr x \<longleftrightarrow> c \<and> k = Inr x"
  by (simp add: kassert_def)

lemma kbind_Inr_iff: "kbind m f = Inr y \<longleftrightarrow> (\<exists>x. m = Inr x \<and> f x = Inr y)"
  by (cases m) auto

text \<open>Sequencing of code that may also wait for ever, \<open>None\<close>.\<close>

definition obind :: "'a kres option \<Rightarrow> ('a \<Rightarrow> 'b kres option) \<Rightarrow> 'b kres option" where
  "obind m f = (case m of None \<Rightarrow> None | Some (Inl e) \<Rightarrow> Some (Inl e) | Some (Inr x) \<Rightarrow> f x)"

lemma obind_simps [simp]:
  "obind None f = None" "obind (Some (Inl e)) f = Some (Inl e)" "obind (Some (Inr x)) f = f x"
  by (simp_all add: obind_def)

section \<open>Words read as naturals\<close>

lemma unat_u32_less: "unat (w :: u32) < 4294967296"
  using unsigned_less [of w, where ?'a = nat] by simp

lemma unat_of_nat_small: "n < 4294967296 \<Longrightarrow> unat (of_nat n :: u32) = n"
  by (simp add: of_nat_inverse)

lemma unat_of_nat_le: "n \<le> unat (w :: u32) \<Longrightarrow> unat (of_nat n :: u32) = n"
  using unat_u32_less [of w] by (simp add: unat_of_nat_small)

lemma unat_of_nat_less: "n < unat (w :: u32) \<Longrightarrow> unat (of_nat n :: u32) = n"
  by (rule unat_of_nat_le [of n w]) simp

lemma unat_add_of_nat: "unat (w :: u32) + n < 4294967296 \<Longrightarrow> unat (w + of_nat n) = unat w + n"
  by (simp add: unat_word_ariths unat_of_nat_small)

lemma unat_succ32: "unat (w :: u32) + 1 < 4294967296 \<Longrightarrow> unat (w + 1) = unat w + 1"
  by (simp add: unat_word_ariths)

lemma unat_pred32: "(w :: u32) \<noteq> 0 \<Longrightarrow> unat (w - 1) = unat w - 1"
  by (simp add: unat_minus_one)

section \<open>A list without one element\<close>

lemma mset_without_nth:
  "i < length xs \<Longrightarrow> mset xs = add_mset (xs ! i) (mset (take i xs @ drop (Suc i) xs))"
  by (metis id_take_nth_drop mset.simps(2) mset_append union_mset_add_mset_right)

section \<open>Searching a range\<close>

lemma find_append: "List.find P (xs @ ys) = (case List.find P xs of None \<Rightarrow> List.find P ys | r \<Rightarrow> r)"
  by (induction xs) auto

lemma find_map: "List.find P (map f xs) = map_option f (List.find (P \<circ> f) xs)"
  by (induction xs) auto

lemma find_cong: "(\<And>x. x \<in> set xs \<Longrightarrow> P x = Q x) \<Longrightarrow> List.find P xs = List.find Q xs"
  by (induction xs) auto

lemma and_exp_eq_0_iff: "(w :: 'a::len word) AND 2 ^ j = 0 \<longleftrightarrow> \<not> bit w j"
  by (simp add: bit_iff_and_push_bit_not_eq_0 [of w j] del: bit_0)

lemma find_upt_Some:
  "List.find P [i..<n] = Some k \<longleftrightarrow> i \<le> k \<and> k < n \<and> P k \<and> (\<forall>m. i \<le> m \<and> m < k \<longrightarrow> \<not> P m)"
proof -
  have "List.find P [i..<n] = Some k \<longleftrightarrow>
    (\<exists>d < n - i. P (i + d) \<and> k = i + d \<and> (\<forall>e<d. \<not> P (i + e)))"
    by (auto simp: find_Some_iff)
  also have "\<dots> \<longleftrightarrow> i \<le> k \<and> k < n \<and> P k \<and> (\<forall>m. i \<le> m \<and> m < k \<longrightarrow> \<not> P m)"
    apply safe
       apply simp_all
    apply (metis add_diff_inverse_nat add_less_cancel_left not_less)
    apply (rule exI [of _ "k - i"], auto)
    done
  finally show ?thesis .
qed

lemma find_upt_None: "List.find P [i..<n] = None \<longleftrightarrow> (\<forall>m. i \<le> m \<and> m < n \<longrightarrow> \<not> P m)"
  by (auto simp: find_None_iff)

end
