(* ===== verification/Id_Alloc_Spec.thy ===== *)
theory Id_Alloc_Spec
  imports Prelude
begin

text \<open>
  What the users of a bitmap or an id pool rely on (\<^verbatim>\<open>src/src/task/thread.c\<close> for thread
  ids and kernel stack slots, \<^verbatim>\<open>src/src/task/process.c\<close> for process ids and user
  stack slots): an allocation returns a number that nobody holds, it only fails when every number
  below the capacity is held, and freeing a number gives back that number and no other.
\<close>

text \<open>\<open>n\<close> allocations in a row, as a kernel that creates \<open>n\<close> threads does them.\<close>

fun alloc_many :: "('s \<Rightarrow> (u32 \<times> 's) option) \<Rightarrow> nat \<Rightarrow> 's \<Rightarrow> (u32 list \<times> 's) option" where
  "alloc_many alloc 0 s = Some ([], s)"
| "alloc_many alloc (Suc n) s =
     (case alloc s of
        None \<Rightarrow> None
      | Some (i, s') \<Rightarrow> map_option (\<lambda>(is, s''). (i # is, s'')) (alloc_many alloc n s'))"

locale id_allocator =
  fixes alloc :: "'s \<Rightarrow> (u32 \<times> 's) option"
    and free :: "'s \<Rightarrow> u32 \<Rightarrow> 's"
    and used :: "'s \<Rightarrow> nat set"
    and capacity :: "'s \<Rightarrow> nat"
    and invar :: "'s \<Rightarrow> bool"
  assumes alloc_None: "invar s \<Longrightarrow> alloc s = None \<longleftrightarrow> {..<capacity s} \<subseteq> used s"
    and alloc_fresh: "invar s \<Longrightarrow> alloc s = Some (i, s') \<Longrightarrow> unat i < capacity s \<and> unat i \<notin> used s"
    and alloc_used: "invar s \<Longrightarrow> alloc s = Some (i, s') \<Longrightarrow> used s' = insert (unat i) (used s)"
    and alloc_invar: "invar s \<Longrightarrow> alloc s = Some (i, s') \<Longrightarrow> invar s' \<and> capacity s' = capacity s"
    and free_used: "invar s \<Longrightarrow> used (free s i) = used s - {unat i}"
    and free_invar: "invar s \<Longrightarrow> invar (free s i) \<and> capacity (free s i) = capacity s"
begin

lemma alloc_many_fresh:
  assumes "invar s" "alloc_many alloc n s = Some (is, s')"
  shows "length is = n \<and> distinct is \<and> unat ` set is \<inter> used s = {} \<and>
         unat ` set is \<subseteq> {..<capacity s} \<and>
         used s' = used s \<union> unat ` set is \<and> invar s' \<and> capacity s' = capacity s"
  using assms
proof (induction n arbitrary: s "is")
  case (Suc n)
  from Suc.prems(2) obtain i s1 js where
    a: "alloc s = Some (i, s1)" and r: "alloc_many alloc n s1 = Some (js, s')" and "is": "is = i # js"
    by (auto split: option.splits)
  note i = alloc_invar [OF Suc.prems(1) a] alloc_used [OF Suc.prems(1) a]
    alloc_fresh [OF Suc.prems(1) a]
  from Suc.IH [OF _ r] i show ?case
    by (auto simp: "is")
qed simp

lemma alloc_many_total:
  assumes "invar s" "n \<le> card ({..<capacity s} - used s)"
  shows "alloc_many alloc n s \<noteq> None"
  using assms
proof (induction n arbitrary: s)
  case (Suc n)
  have "{..<capacity s} - used s \<noteq> {}"
    using Suc.prems(2) by (metis card.empty not_less_eq_eq zero_le)
  then obtain i s1 where a: "alloc s = Some (i, s1)"
    using alloc_None [OF Suc.prems(1)] by (cases "alloc s") auto
  note i = alloc_invar [OF Suc.prems(1) a] alloc_used [OF Suc.prems(1) a]
    alloc_fresh [OF Suc.prems(1) a]
  have "{..<capacity s} - used s = insert (unat i) ({..<capacity s1} - used s1)"
    using i by auto
  moreover have "unat i \<notin> {..<capacity s1} - used s1" using i by simp
  ultimately have "card ({..<capacity s} - used s) = Suc (card ({..<capacity s1} - used s1))"
    by (metis card_insert_disjoint finite_Diff finite_lessThan)
  with Suc.prems(2) Suc.IH [of s1] i(1) show ?case by (auto simp: a)
qed simp

lemma free_then_alloc:
  assumes "invar s" "unat i < capacity s"
  shows "alloc (free s i) \<noteq> None"
  using assms free_invar [of s i] free_used [of s i] alloc_None [of "free s i"] by auto

end

end
