(* ===== verification/Bitmap.thy ===== *)
theory Bitmap
  imports Prelude Id_Alloc_Spec
begin

text \<open>
  The bitmap of \<^verbatim>\<open>src/src/utils/bit_map.c\<close>, which hands out thread ids, process ids,
  kernel stack slots and user stack slots. The array a \<^verbatim>\<open>bitmap_t\<close> points to is
  owned by it and is modelled by its contents; every index computation is done in 32-bit words,
  as \<^verbatim>\<open>size_t\<close> is \<^verbatim>\<open>uint32_t\<close> here.
\<close>

section \<open>Data and operations\<close>

record bitmap_t =
  bitarray :: "u32 list"
  alloc_array :: bool
  arraysize :: u32
  totalbits :: u32

text \<open>
  \<open>kmalloc\<close> is the allocator's answer to a request of so many bytes: the (uninitialised)
  contents of the new array, or \<open>None\<close> for a null pointer. The other pointer argument,
  \<open>array\<close>, is \<open>None\<close> when the caller passes \<^verbatim>\<open>NULL\<close>.
\<close>

definition bitmap_init ::
  "(u32 \<Rightarrow> u32 list option) \<Rightarrow> bitmap_t \<Rightarrow> u32 list option \<Rightarrow> u32 \<Rightarrow> bool \<times> bitmap_t"
where
  "bitmap_init kmalloc this array tbits =
     (let this = this\<lparr>arraysize := (tbits + 31) div 32, totalbits := tbits\<rparr>;
          (array, this) =
            (case array of
               None \<Rightarrow> (kmalloc (arraysize this * 4), this\<lparr>alloc_array := True\<rparr>)
             | Some a \<Rightarrow> (Some a, this\<lparr>alloc_array := False\<rparr>))
      in if array = None \<or> tbits = 0 then (False, this)
         else (True, this\<lparr>bitarray := replicate (unat (arraysize this)) 0 @
                                     drop (unat (arraysize this)) (the array)\<rparr>))"

definition bitmap_create ::
  "(u32 \<Rightarrow> u32 list option) \<Rightarrow> bitmap_t \<Rightarrow> u32 list option \<Rightarrow> u32 \<Rightarrow> bitmap_t kres"
where
  "bitmap_create kmalloc ret array tbits =
     (let (success, ret) = bitmap_init kmalloc ret array tbits
      in kassert success ''success'' (Inr ret))"

definition bitmap_clear :: "bitmap_t \<Rightarrow> bitmap_t" where
  "bitmap_clear this =
     this\<lparr>bitarray := replicate (unat (arraysize this)) 0 @
                      drop (unat (arraysize this)) (bitarray this)\<rparr>"

definition bitmap_set_bit :: "bitmap_t \<Rightarrow> u32 \<Rightarrow> bitmap_t" where
  "bitmap_set_bit this index =
     (if totalbits this \<le> index then this
      else let array_index = unat (index div 32); bit_index = unat (index mod 32)
           in this\<lparr>bitarray := (bitarray this)
                [array_index := (bitarray this ! array_index) OR push_bit bit_index 1]\<rparr>)"

definition bitmap_clear_bit :: "bitmap_t \<Rightarrow> u32 \<Rightarrow> bitmap_t" where
  "bitmap_clear_bit this index =
     (if totalbits this \<le> index then this
      else let array_index = unat (index div 32); bit_index = unat (index mod 32)
           in this\<lparr>bitarray := (bitarray this)
                [array_index := (bitarray this ! array_index) AND NOT (push_bit bit_index 1)]\<rparr>)"

definition bitmap_test_bit :: "bitmap_t \<Rightarrow> u32 \<Rightarrow> bool" where
  "bitmap_test_bit this index =
     (if totalbits this \<le> index then False
      else let array_index = unat (index div 32); bit_index = unat (index mod 32)
           in (bitarray this ! array_index) AND push_bit bit_index 1 \<noteq> 0)"

text \<open>The inner loop: the first clear bit of one word among the bits \<open>j .. lim - 1\<close>.\<close>

function scan_word :: "u32 \<Rightarrow> nat \<Rightarrow> nat \<Rightarrow> nat option" where
  "scan_word w lim j =
     (if j < lim then (if w AND push_bit j 1 = 0 then Some j else scan_word w lim (Suc j))
      else None)"
  by pat_completeness auto
termination
  by (relation "measure (\<lambda>(w, lim, j). lim - j)") auto

text \<open>The outer loop over the words \<open>i .. n - 1\<close>; a word of all ones is skipped.\<close>

function scan_words :: "u32 list \<Rightarrow> nat \<Rightarrow> nat \<Rightarrow> (nat \<times> nat) option" where
  "scan_words ws n i =
     (if i < n then
        (if ws ! i \<noteq> 0xffffffff then
           (case scan_word (ws ! i) 32 0 of
              Some j \<Rightarrow> Some (i, j)
            | None \<Rightarrow> scan_words ws n (Suc i))
         else scan_words ws n (Suc i))
      else None)"
  by pat_completeness auto
termination
  by (relation "measure (\<lambda>(ws, n, i). n - i)") auto

declare scan_word.simps [simp del] scan_words.simps [simp del]

text \<open>
  The full words first, then the \<^verbatim>\<open>totalbits % 32\<close> bits of the last word. The result
  is \<open>None\<close> for \<^verbatim>\<open>false\<close> and \<open>Some bit\<close> for \<^verbatim>\<open>true\<close> with
  \<^verbatim>\<open>*bit\<close> written.
\<close>

definition bitmap_find_first_free :: "bitmap_t \<Rightarrow> u32 option" where
  "bitmap_find_first_free this =
     (case scan_words (bitarray this) (unat (arraysize this - 1)) 0 of
        Some (i, j) \<Rightarrow> Some (of_nat i * 32 + of_nat j)
      | None \<Rightarrow>
          (case scan_word (bitarray this ! unat (arraysize this - 1))
                  (unat (totalbits this mod 32)) 0 of
             Some j \<Rightarrow> Some ((arraysize this - 1) * 32 + of_nat j)
           | None \<Rightarrow> None))"

definition bitmap_alloc_first_free :: "bitmap_t \<Rightarrow> (u32 \<times> bitmap_t) option" where
  "bitmap_alloc_first_free this =
     (case bitmap_find_first_free this of
        None \<Rightarrow> None
      | Some b \<Rightarrow> Some (b, bitmap_set_bit this b))"

definition bitmap_destroy :: "(u32 list \<Rightarrow> 's \<Rightarrow> 's) \<Rightarrow> bitmap_t \<Rightarrow> 's \<Rightarrow> 's" where
  "bitmap_destroy kfree this s = (if alloc_array this then kfree (bitarray this) s else s)"

section \<open>Well-formedness and abstraction\<close>

definition wf_bitmap :: "bitmap_t \<Rightarrow> bool" where
  "wf_bitmap b \<longleftrightarrow>
     0 < totalbits b \<and> unat (totalbits b) + 31 < 2 ^ 32 \<and>
     arraysize b = (totalbits b + 31) div 32 \<and>
     unat (arraysize b) \<le> length (bitarray b)"

definition set_bits :: "bitmap_t \<Rightarrow> nat set" where
  "set_bits b = {i. i < unat (totalbits b) \<and> bit (bitarray b ! (i div 32)) (i mod 32)}"

text \<open>The bits \<^verbatim>\<open>bitmap_find_first_free\<close> looks at: the first \<open>scan_limit\<close> of them.\<close>

definition scan_limit :: "bitmap_t \<Rightarrow> nat" where
  "scan_limit b = 32 * (unat (arraysize b) - 1) + unat (totalbits b) mod 32"

section \<open>The scan is a first-fit search\<close>

lemma scan_word_eq_find: "scan_word w lim j = List.find (\<lambda>k. \<not> bit w k) [j..<lim]"
proof (induction w lim j rule: scan_word.induct)
  case (1 w lim j)
  then show ?case
    by (simp add: scan_word.simps [of w lim j] and_exp_eq_0_iff upt_conv_Cons)
qed

lemma full_word_find: "List.find (\<lambda>k. \<not> bit (0xffffffff :: u32) k) [0..<32] = None"
  by code_simp

lemma find_word_block:
  "List.find (\<lambda>k. \<not> bit (ws ! (k div 32)) (k mod 32)) [32 * i..<32 * Suc i] =
   map_option (\<lambda>j. 32 * i + j) (List.find (\<lambda>k. \<not> bit (ws ! i) k) [0..<32])"
proof -
  have "[32 * i..<32 * Suc i] = map (\<lambda>j. 32 * i + j) [0..<32]"
    by (rule nth_equalityI) simp_all
  then show ?thesis
    by (simp only: find_map comp_def) (auto intro!: arg_cong [where f = "map_option _"] find_cong)
qed

lemma scan_words_eq_find:
  "map_option (\<lambda>(k, j). 32 * k + j) (scan_words ws n i) =
   List.find (\<lambda>k. \<not> bit (ws ! (k div 32)) (k mod 32)) [32 * i..<32 * n]"
proof (induction ws n i rule: scan_words.induct)
  case (1 ws n i)
  let ?P = "\<lambda>k. \<not> bit (ws ! (k div 32)) (k mod 32)"
  show ?case
  proof (cases "i < n")
    case True
    have split: "[32 * i..<32 * n] = [32 * i..<32 * Suc i] @ [32 * Suc i..<32 * n]"
      using upt_add_eq_append [of "32 * i" "32 * Suc i" "32 * n - 32 * Suc i"] True by simp
    show ?thesis
      using True "1.IH" full_word_find
      by (cases "ws ! i = 0xffffffff"; cases "scan_word (ws ! i) 32 0")
         (auto simp: scan_words.simps [of ws n i] split find_append find_word_block
            scan_word_eq_find simp del: upt_Suc mult_Suc_right)
  qed (simp add: scan_words.simps [of ws n i])
qed

lemma last_word_arith: "32 * ((n + 31) div 32 - 1) + n mod 32 \<le> (n :: nat)"
proof -
  have "(n + 31) div 32 = n div 32 + (n mod 32 + 31) div 32"
    using div_mult_self3 [of 32 "n div 32" "n mod 32 + 31"] by (simp add: ac_simps)
  moreover have "(n mod 32 + 31) div 32 \<le> 1"
    using mod_less_divisor [of 32 n] by simp
  ultimately have "32 * ((n + 31) div 32 - 1) \<le> 32 * (n div 32)" by linarith
  moreover have "32 * (n div 32) + n mod 32 = n" by simp
  ultimately show ?thesis by linarith
qed

lemma wf_bitmap_arith:
  assumes "wf_bitmap b"
  shows "unat (arraysize b) = (unat (totalbits b) + 31) div 32"
    and "unat (arraysize b - 1) = unat (arraysize b) - 1"
    and "arraysize b \<noteq> 0" and "0 < unat (totalbits b)"
    and "scan_limit b \<le> unat (totalbits b)"
proof -
  from assms have T: "0 < unat (totalbits b)" "unat (totalbits b) + 31 < 2 ^ 32"
    by (auto simp: wf_bitmap_def word_greater_zero_iff unat_gt_0)
  then show "0 < unat (totalbits b)" by simp
  have a: "unat (totalbits b + 31) = unat (totalbits b) + 31"
    using T by (simp add: unat_word_ariths)
  with assms show ar: "unat (arraysize b) = (unat (totalbits b) + 31) div 32"
    by (simp add: wf_bitmap_def unat_div)
  then have pos: "0 < unat (arraysize b)" using T by simp
  then show nz: "arraysize b \<noteq> 0" by auto
  then show "unat (arraysize b - 1) = unat (arraysize b) - 1"
    by (rule unat_minus_one)
  show "scan_limit b \<le> unat (totalbits b)"
    unfolding scan_limit_def ar by (rule last_word_arith)
qed

lemma bitmap_index:
  "i < unat (totalbits b) \<Longrightarrow> wf_bitmap b \<Longrightarrow> i div 32 < length (bitarray b)"
  using wf_bitmap_arith(1) [of b] by (auto simp: wf_bitmap_def)

lemma bitmap_find_first_free_eq_find:
  assumes wf: "wf_bitmap b"
  shows "bitmap_find_first_free b =
         map_option of_nat (List.find (\<lambda>k. k \<notin> set_bits b) [0..<scan_limit b])"
proof -
  let ?n = "unat (arraysize b) - 1" and ?r = "unat (totalbits b) mod 32"
  let ?ws = "bitarray b"
  let ?P = "\<lambda>k. \<not> bit (?ws ! (k div 32)) (k mod 32)"
  note ar = wf_bitmap_arith [OF wf]
  have "List.find (\<lambda>k. k \<notin> set_bits b) [0..<scan_limit b] = List.find ?P [0..<32 * ?n + ?r]"
    unfolding scan_limit_def [symmetric]
    by (rule find_cong) (use ar(5) in \<open>auto simp: set_bits_def\<close>)
  also have "[0..<32 * ?n + ?r] = [0..<32 * ?n] @ map (\<lambda>j. 32 * ?n + j) [0..<?r]"
    using upt_add_eq_append [of 0 "32 * ?n" ?r] map_add_upt [of "32 * ?n" ?r]
    by (simp add: add.commute)
  also have "List.find ?P \<dots> =
     (case List.find ?P [0..<32 * ?n] of
        None \<Rightarrow> map_option (\<lambda>j. 32 * ?n + j) (List.find (?P \<circ> (\<lambda>j. 32 * ?n + j)) [0..<?r])
      | r \<Rightarrow> r)"
    by (simp only: find_append find_map)
  also have "List.find (?P \<circ> (\<lambda>j. 32 * ?n + j)) [0..<?r] = List.find (\<lambda>k. \<not> bit (?ws ! ?n) k) [0..<?r]"
    by (rule find_cong) auto
  also have "List.find ?P [0..<32 * ?n] = map_option (\<lambda>(k, j). 32 * k + j) (scan_words ?ws ?n 0)"
    by (simp add: scan_words_eq_find)
  finally have eq: "List.find (\<lambda>k. k \<notin> set_bits b) [0..<scan_limit b] =
     (case map_option (\<lambda>(k, j). 32 * k + j) (scan_words ?ws ?n 0) of
        None \<Rightarrow> map_option (\<lambda>j. 32 * ?n + j) (scan_word (?ws ! ?n) ?r 0)
      | r \<Rightarrow> r)"
    by (simp only: scan_word_eq_find)
  note n = ar(2)
  have w: "arraysize b - 1 = of_nat ?n"
    unfolding n [symmetric] by simp
  show ?thesis
    unfolding eq bitmap_find_first_free_def n
    by (cases "scan_words ?ws ?n 0"; cases "scan_word (?ws ! ?n) ?r 0")
       (auto simp: w unat_mod)
qed

lemma wf_bitmap_set_bit [simp]: "wf_bitmap (bitmap_set_bit b i) = wf_bitmap b"
  by (simp add: wf_bitmap_def bitmap_set_bit_def Let_def)

lemma wf_bitmap_clear_bit [simp]: "wf_bitmap (bitmap_clear_bit b i) = wf_bitmap b"
  by (simp add: wf_bitmap_def bitmap_clear_bit_def Let_def)

lemma scan_limit_set_bit [simp]: "scan_limit (bitmap_set_bit b i) = scan_limit b"
  by (simp add: scan_limit_def bitmap_set_bit_def Let_def)

lemma scan_limit_clear_bit [simp]: "scan_limit (bitmap_clear_bit b i) = scan_limit b"
  by (simp add: scan_limit_def bitmap_clear_bit_def Let_def)

lemma set_bits_set_bit:
  assumes wf: "wf_bitmap b"
  shows "set_bits (bitmap_set_bit b i) =
         set_bits b \<union> (if unat i < unat (totalbits b) then {unat i} else {})"
proof (cases "totalbits b \<le> i")
  case True
  then show ?thesis by (simp add: bitmap_set_bit_def word_le_nat_alt)
next
  case False
  then have lt: "unat i < unat (totalbits b)" by (simp add: word_le_nat_alt)
  have "k div 32 = unat i div 32 \<Longrightarrow> k mod 32 = unat i mod 32 \<Longrightarrow> k = unat i" for k
    by (metis div_mult_mod_eq)
  then show ?thesis
    using False lt bitmap_index [OF lt wf] 
    by (auto simp: set_bits_def bitmap_set_bit_def Let_def nth_list_update unat_div unat_mod bit_simps)
qed

lemma set_bits_clear_bit:
  assumes wf: "wf_bitmap b"
  shows "set_bits (bitmap_clear_bit b i) = set_bits b - {unat i}"
proof (cases "totalbits b \<le> i")
  case True
  then show ?thesis by (auto simp: bitmap_clear_bit_def word_le_nat_alt set_bits_def)
next
  case False
  then have lt: "unat i < unat (totalbits b)" by (simp add: word_le_nat_alt)
  have "k div 32 = unat i div 32 \<Longrightarrow> k mod 32 = unat i mod 32 \<Longrightarrow> k = unat i" for k
    by (metis div_mult_mod_eq)
  then show ?thesis
    using False lt bitmap_index [OF lt wf] 
    by (auto simp: set_bits_def bitmap_clear_bit_def Let_def nth_list_update unat_div unat_mod bit_simps)
qed


lemma bitmap_find_first_free_None:
  "wf_bitmap b \<Longrightarrow> bitmap_find_first_free b = None \<longleftrightarrow> {..<scan_limit b} \<subseteq> set_bits b"
  by (auto simp: bitmap_find_first_free_eq_find find_upt_None)

lemma bitmap_find_first_free_Some:
  assumes wf: "wf_bitmap b" and f: "bitmap_find_first_free b = Some i"
  shows "unat i < scan_limit b \<and> unat i < unat (totalbits b) \<and> unat i \<notin> set_bits b \<and>
         (\<forall>k < unat i. k \<in> set_bits b)"
proof -
  from f obtain k where k: "List.find (\<lambda>k. k \<notin> set_bits b) [0..<scan_limit b] = Some k" "i = of_nat k"
    by (auto simp: bitmap_find_first_free_eq_find [OF wf])
  then have "k < scan_limit b" "k \<notin> set_bits b" "\<forall>m<k. m \<in> set_bits b"
    by (auto simp: find_upt_Some)
  moreover from this wf_bitmap_arith(5) [OF wf] have "k < unat (totalbits b)" by simp
  moreover from this have "unat (of_nat k :: u32) = k"
    by (simp add: unat_of_nat_le [of _ "totalbits b"])
  ultimately show ?thesis by (simp add: k(2))
qed

interpretation bm: id_allocator bitmap_alloc_first_free bitmap_clear_bit set_bits scan_limit wf_bitmap
proof (unfold_locales, goal_cases)
  case (1 s)
  then show ?case
    by (auto simp: bitmap_alloc_first_free_def bitmap_find_first_free_None split: option.splits
             simp flip: bitmap_find_first_free_None)
next
  case (2 s i s')
  then show ?case
    by (auto simp: bitmap_alloc_first_free_def dest!: bitmap_find_first_free_Some split: option.splits)
next
  case (3 s i s')
  then show ?case
    by (auto simp: bitmap_alloc_first_free_def set_bits_set_bit
             dest: bitmap_find_first_free_Some split: option.splits if_splits)
next
  case (4 s i s')
  then show ?case
    by (auto simp: bitmap_alloc_first_free_def split: option.splits)
qed (simp_all add: set_bits_clear_bit)

section \<open>Properties\<close>

text \<open>C15: on a well-formed bitmap, the word-wise scan with its two loops, the skipping of full words
and the separate treatment of the last word returns exactly the least clear bit below the scan
limit, and \<^verbatim>\<open>false\<close> when there is none.\<close>

theorem bitmap_first_fit:
  assumes "wf_bitmap b"
  shows "bitmap_find_first_free b =
    map_option of_nat (List.find (\<lambda>i. i \<notin> set_bits b) [0..<scan_limit b])"
  using bitmap_find_first_free_eq_find [OF assms] .

theorem bitmap_first_fit_witness:
  "bitmap_find_first_free \<lparr>bitarray = [11], alloc_array = False, arraysize = 1, totalbits = 8\<rparr> = Some 2"
proof -
  let ?b = "\<lparr>bitarray = [11], alloc_array = False, arraysize = 1, totalbits = 8\<rparr>"
  have "wf_bitmap ?b" by (simp add: wf_bitmap_def)
  from bitmap_first_fit [OF this] show ?thesis
    by (simp add: scan_limit_def set_bits_def upt_rec numeral_2_eq_2 [symmetric] bit_numeral_rec)
qed

text \<open>when the number of bits is a multiple of 32, the last 32 bits are never handed out: the
allocation fails as soon as all bits below \<open>totalbits - 32\<close> are set, whatever the last word
holds. A map of 32 bits can therefore never serve a request.\<close>

lemma bitmap_last_word_lost:
  assumes "wf_bitmap b" "32 dvd unat (totalbits b)"
  shows "bitmap_alloc_first_free b = None \<longleftrightarrow> {..<unat (totalbits b) - 32} \<subseteq> set_bits b"
proof -
  have "scan_limit b = unat (totalbits b) - 32"
    using assms wf_bitmap_arith [OF assms(1)] by (auto simp: scan_limit_def)
  then show ?thesis using bm.alloc_None [OF assms(1)] by simp
qed

end
