(* ===== verification/Sync.thy ===== *)
theory Sync
  imports Prelude
begin

text \<open>
  The locks of \<^verbatim>\<open>src/src/sync\<close>. A yield lock is one word that the processor exchanges
  atomically; a spin lock switches preemption off and, in the interrupt-safe variant, saves and
  clears the interrupt flag. The multi-threaded use of a yield lock is a step relation over any
  number of threads.
\<close>

section \<open>Yield locks\<close>

record yieldlock_t =
  hold :: u32

definition LOCKED_YES :: u32 where "LOCKED_YES = 1"
definition LOCKED_NO :: u32 where "LOCKED_NO = 0"

text \<open>\<^verbatim>\<open>xchg [ecx], eax\<close>: the old value is returned, the new one is stored.\<close>

definition atomic_exchange :: "u32 \<Rightarrow> u32 \<Rightarrow> u32 \<times> u32" where
  "atomic_exchange dst src = (dst, src)"

definition yieldlock_init :: "yieldlock_t \<Rightarrow> yieldlock_t" where
  "yieldlock_init splock = splock\<lparr>hold := LOCKED_NO\<rparr>"

text \<open>
  One pass of the loop of \<^verbatim>\<open>yieldlock_lock\<close>: whether the lock was taken, and the lock
  afterwards. After a failed pass the caller gives the processor away
  (\<^verbatim>\<open>schedule_thread_yield\<close>) and runs the next pass when it is scheduled again.
  \<^verbatim>\<open>yieldlock_trylock\<close> is exactly one such pass.
\<close>

definition yieldlock_trylock :: "yieldlock_t \<Rightarrow> bool \<times> yieldlock_t" where
  "yieldlock_trylock splock =
     (let (old, new) = atomic_exchange (hold splock) LOCKED_YES
      in (old = LOCKED_NO, splock\<lparr>hold := new\<rparr>))"

text \<open>
  \<^verbatim>\<open>yieldlock_lock\<close> with \<open>yield\<close> for what the other threads do to the lock while the
  caller is off the processor; \<open>None\<close> when the loop never ends.
\<close>

partial_function (option) yieldlock_lock ::
  "('s \<Rightarrow> yieldlock_t) \<Rightarrow> (yieldlock_t \<Rightarrow> 's \<Rightarrow> 's) \<Rightarrow> ('s \<Rightarrow> 's) \<Rightarrow> 's \<Rightarrow> 's option" where
  "yieldlock_lock get put yield s =
     (let (ok, l) = yieldlock_trylock (get s); s' = put l s
      in if ok then Some s' else yieldlock_lock get put yield (yield s'))"

definition yieldlock_unlock :: "yieldlock_t \<Rightarrow> yieldlock_t" where
  "yieldlock_unlock splock = splock\<lparr>hold := LOCKED_NO\<rparr>"

lemmas yieldlock_defs = yieldlock_init_def yieldlock_trylock_def yieldlock_unlock_def
  atomic_exchange_def LOCKED_YES_def LOCKED_NO_def

lemma yieldlock_lock_free:
  assumes "hold (get s) = LOCKED_NO"
  shows "yieldlock_lock get put yield s = Some (put ((get s)\<lparr>hold := LOCKED_YES\<rparr>) s)"
  using assms by (simp add: yieldlock_lock.simps yieldlock_defs)

section \<open>Threads that contend for one yield lock\<close>

text \<open>
  Between two exchanges a thread is outside, spinning (it failed a pass and has yielded) or inside
  its critical section. Any thread may move at any time: that is the interleaving an arbitrary
  scheduler produces.
\<close>

datatype lock_pc = Outside | Spinning | Inside

record lock_sys =
  the_lock :: yieldlock_t
  lpc :: "nat \<Rightarrow> lock_pc"

definition lock_sys_init :: "yieldlock_t \<Rightarrow> lock_sys" where
  "lock_sys_init l = \<lparr>the_lock = yieldlock_init l, lpc = (\<lambda>_. Outside)\<rparr>"

inductive lock_sys_step :: "lock_sys \<Rightarrow> lock_sys \<Rightarrow> bool" where
  pass: "lpc s t \<in> {Outside, Spinning} \<Longrightarrow> yieldlock_trylock (the_lock s) = (ok, l) \<Longrightarrow>
     lock_sys_step s (s\<lparr>the_lock := l, lpc := (lpc s)(t := if ok then Inside else Spinning)\<rparr>)"
| unlock: "lpc s t = Inside \<Longrightarrow>
     lock_sys_step s (s\<lparr>the_lock := yieldlock_unlock (the_lock s), lpc := (lpc s)(t := Outside)\<rparr>)"

inductive lock_sys_reachable :: "lock_sys \<Rightarrow> bool" where
  init: "lock_sys_reachable (lock_sys_init l)"
| step: "lock_sys_reachable s \<Longrightarrow> lock_sys_step s s' \<Longrightarrow> lock_sys_reachable s'"

inductive_cases lock_sys_stepE: "lock_sys_step s s'"

definition lock_sys_inv :: "lock_sys \<Rightarrow> bool" where
  "lock_sys_inv s \<longleftrightarrow>
     hold (the_lock s) \<in> {LOCKED_NO, LOCKED_YES} \<and>
     (hold (the_lock s) = LOCKED_NO \<longrightarrow> (\<forall>t. lpc s t \<noteq> Inside)) \<and>
     (hold (the_lock s) = LOCKED_YES \<longrightarrow> (\<exists>!t. lpc s t = Inside))"

lemma lock_sys_inv_init: "lock_sys_inv (lock_sys_init l)"
  by (simp add: lock_sys_inv_def lock_sys_init_def yieldlock_defs)

lemma lock_sys_step_inv: "lock_sys_step s s' \<Longrightarrow> lock_sys_inv s \<Longrightarrow> lock_sys_inv s'"
proof (induction rule: lock_sys_step.induct)
  case (pass s t ok l)
  then show ?case
    by (cases "hold (the_lock s) = LOCKED_NO")
       (auto simp: lock_sys_inv_def yieldlock_defs, (metis lock_pc.distinct(3,5))+)
next
  case (unlock s t)
  then show ?case
    by (auto simp: lock_sys_inv_def yieldlock_defs)
qed

lemma lock_sys_reachable_inv: "lock_sys_reachable s \<Longrightarrow> lock_sys_inv s"
  by (induction rule: lock_sys_reachable.induct) (auto intro: lock_sys_inv_init lock_sys_step_inv)

section \<open>Spin locks\<close>

text \<open>
  The processor state a spin lock touches: the interrupt flag of \<^verbatim>\<open>eflags\<close> and the
  preemption counter of the running thread. \<open>single\<close> tells whether the kernel is compiled with
  \<^verbatim>\<open>SINGLE_PROCESSOR\<close> (the Makefile's default); only then is the lock word left alone.
  \<open>None\<close> is a pass of the busy-waiting loop that does not get the lock.
\<close>

record spinlock_t =
  s_hold :: u32

record cpu_t =
  if_flag :: bool
  preempt_count :: u32

definition disable_preempt :: "cpu_t \<Rightarrow> cpu_t" where
  "disable_preempt c = c\<lparr>preempt_count := preempt_count c + 1\<rparr>"

definition enable_preempt :: "cpu_t \<Rightarrow> cpu_t" where
  "enable_preempt c = c\<lparr>preempt_count := preempt_count c - 1\<rparr>"

definition spinlock_init :: "spinlock_t \<Rightarrow> spinlock_t" where
  "spinlock_init splock = splock\<lparr>s_hold := LOCKED_NO\<rparr>"

definition spin_acquire :: "bool \<Rightarrow> spinlock_t \<Rightarrow> spinlock_t option" where
  "spin_acquire single splock =
     (if single then Some splock
      else let (old, new) = atomic_exchange (s_hold splock) LOCKED_YES
           in if old = LOCKED_NO then Some (splock\<lparr>s_hold := new\<rparr>) else None)"

definition spinlock_lock :: "bool \<Rightarrow> spinlock_t \<Rightarrow> cpu_t \<Rightarrow> (spinlock_t \<times> cpu_t) option" where
  "spinlock_lock single splock c =
     map_option (\<lambda>l. (l, disable_preempt c)) (spin_acquire single splock)"

definition spinlock_unlock :: "bool \<Rightarrow> spinlock_t \<Rightarrow> cpu_t \<Rightarrow> spinlock_t \<times> cpu_t" where
  "spinlock_unlock single splock c =
     (if single then splock else splock\<lparr>s_hold := LOCKED_NO\<rparr>, enable_preempt c)"

definition spin_lock_irqsave ::
  "bool \<Rightarrow> spinlock_t \<Rightarrow> cpu_t \<Rightarrow> (bool \<times> spinlock_t \<times> cpu_t) option" where
  "spin_lock_irqsave single splock c =
     (let c = disable_preempt c; irq_status = if_flag c; c = c\<lparr>if_flag := False\<rparr>
      in map_option (\<lambda>l. (irq_status, l, c)) (spin_acquire single splock))"

definition spin_unlock_irqrestore ::
  "bool \<Rightarrow> spinlock_t \<Rightarrow> bool \<Rightarrow> cpu_t \<Rightarrow> spinlock_t \<times> cpu_t" where
  "spin_unlock_irqrestore single splock irq_status c =
     (let splock = (if single then splock else splock\<lparr>s_hold := LOCKED_NO\<rparr>);
          c = (if irq_status then c\<lparr>if_flag := True\<rparr> else c)
      in (splock, enable_preempt c))"

lemmas spinlock_defs = disable_preempt_def enable_preempt_def spinlock_init_def spin_acquire_def
  spinlock_lock_def spinlock_unlock_def spin_lock_irqsave_def spin_unlock_irqrestore_def
  atomic_exchange_def LOCKED_YES_def LOCKED_NO_def

text \<open>
  Nested critical sections: the locks of a list are taken one after the other, each with the
  interrupt state it found, and released in the opposite order.
\<close>

fun irq_lock_all ::
  "bool \<Rightarrow> spinlock_t list \<Rightarrow> cpu_t \<Rightarrow> ((bool \<times> spinlock_t) list \<times> cpu_t) option" where
  "irq_lock_all single [] c = Some ([], c)"
| "irq_lock_all single (l # ls) c =
     (case spin_lock_irqsave single l c of
        None \<Rightarrow> None
      | Some (st, l', c') \<Rightarrow>
          map_option (\<lambda>(held, c''). ((st, l') # held, c'')) (irq_lock_all single ls c'))"

fun irq_unlock_all ::
  "bool \<Rightarrow> (bool \<times> spinlock_t) list \<Rightarrow> cpu_t \<Rightarrow> spinlock_t list \<times> cpu_t" where
  "irq_unlock_all single [] c = ([], c)"
| "irq_unlock_all single ((st, l) # held) c =
     (let (ls, c) = irq_unlock_all single held c;
          (l, c) = spin_unlock_irqrestore single l st c
      in (l # ls, c))"

lemma irq_lock_all_state:
  "irq_lock_all single ls c = Some (held, c') \<Longrightarrow>
     length held = length ls \<and> preempt_count c' = preempt_count c + of_nat (length ls) \<and>
     (ls \<noteq> [] \<longrightarrow> \<not> if_flag c') \<and> cpu_t.more c' = cpu_t.more c"
proof (induction single ls c arbitrary: held rule: irq_lock_all.induct)
  case (2 single l ls c)
  then obtain st l' c1 held' where
    "spin_lock_irqsave single l c = Some (st, l', c1)"
    "irq_lock_all single ls c1 = Some (held', c')" "held = (st, l') # held'"
    by (auto split: option.splits)
  with 2 show ?case
    by (cases ls) (auto simp: spinlock_defs split: if_splits)
qed simp

lemma irq_unlock_lock_all:
  "irq_lock_all single ls c = Some (held, c') \<Longrightarrow> irq_unlock_all single held c' = (ls, c)"
proof (induction single ls c arbitrary: held rule: irq_lock_all.induct)
  case (2 single l ls c)
  then obtain st l' c1 held' where
    "spin_lock_irqsave single l c = Some (st, l', c1)"
    "irq_lock_all single ls c1 = Some (held', c')" "held = (st, l') # held'"
    by (auto split: option.splits)
  with 2 show ?case
    by (auto simp: spinlock_defs split: if_splits)
qed simp

section \<open>Properties\<close>

text \<open>C14: however the threads of a kernel are scheduled, at most one of them is inside the critical
section of a yield lock, and the lock word says whether one is.\<close>

theorem yieldlock_mutual_exclusion:
  assumes "lock_sys_reachable s"
  shows "(lpc s t = Inside \<and> lpc s u = Inside \<longrightarrow> t = u) \<and>
    (hold (the_lock s) = LOCKED_NO \<longleftrightarrow> (\<forall>t. lpc s t \<noteq> Inside))"
  using lock_sys_reachable_inv [OF assms] by (auto simp: lock_sys_inv_def LOCKED_NO_def LOCKED_YES_def)

theorem yieldlock_mutual_exclusion_witness:
  "\<exists>s. lock_sys_reachable s \<and> lpc s 0 = Inside \<and> lpc s 1 \<noteq> Inside"
proof -
  let ?s = "lock_sys_init \<lparr>hold = 0\<rparr>"
  let ?s1 = "?s\<lparr>the_lock := \<lparr>hold = 1\<rparr>, lpc := (lpc ?s)(0 := Inside)\<rparr>"
  have "yieldlock_trylock (the_lock ?s) = (True, \<lparr>hold = 1\<rparr>)"
    by (simp add: lock_sys_init_def yieldlock_defs)
  then have "lock_sys_step ?s ?s1" using lock_sys_step.pass [of ?s 0 True "\<lparr>hold = 1\<rparr>"] by (simp add: lock_sys_init_def)
  then have r: "lock_sys_reachable ?s1" using lock_sys_reachable.init lock_sys_reachable.step by blast
  from yieldlock_mutual_exclusion [OF r, of 0 1] have "lpc ?s1 1 \<noteq> Inside" by simp
  with r show ?thesis by (intro exI [of _ ?s1]) simp
qed

text \<open>nested interrupt-safe spin locks: while any lock of the list is held interrupts are off and
the preemption counter is raised by the number of locks; releasing them in the opposite order with the
saved states restores every lock word, the interrupt flag and the counter exactly.\<close>

lemma irqsave_nesting:
  assumes "irq_lock_all single ls c = Some (held, c')"
  shows "(ls \<noteq> [] \<longrightarrow> \<not> if_flag c') \<and> preempt_count c' = preempt_count c + of_nat (length ls) \<and>
    irq_unlock_all single held c' = (ls, c)"
  using irq_lock_all_state [OF assms] irq_unlock_lock_all [OF assms] by simp

end
