(* ===== verification/Id_Pool.thy ===== *)
theory Id_Pool
  imports Bitmap Sync
begin

text \<open>
  The id pools of \<^verbatim>\<open>src/src/utils/id_pool.c\<close>: a bitmap and a yield lock around its
  allocation. Thread ids and process ids come from here.
\<close>

record id_pool_t =
  pool_size :: u32
  max_size :: u32
  expand_size :: u32
  id_map :: bitmap_t
  lock :: yieldlock_t

definition id_pool_init ::
  "(u32 \<Rightarrow> u32 list option) \<Rightarrow> id_pool_t \<Rightarrow> u32 \<Rightarrow> u32 \<Rightarrow> id_pool_t kres" where
  "id_pool_init kmalloc this sz max_sz =
     (let this = this\<lparr>pool_size := sz, expand_size := sz, max_size := max_sz\<rparr>;
          (right, m) = bitmap_init kmalloc (id_map this) None (pool_size this)
      in kassert right ''right''
           (Inr (this\<lparr>id_map := m, lock := yieldlock_init (lock this)\<rparr>)))"

definition id_pool_set_id :: "id_pool_t \<Rightarrow> u32 \<Rightarrow> id_pool_t" where
  "id_pool_set_id this i = this\<lparr>id_map := bitmap_set_bit (id_map this) i\<rparr>"

definition id_pool_free_id :: "id_pool_t \<Rightarrow> u32 \<Rightarrow> id_pool_t" where
  "id_pool_free_id this i = this\<lparr>id_map := bitmap_clear_bit (id_map this) i\<rparr>"

definition id_pool_destroy :: "(u32 list \<Rightarrow> 's \<Rightarrow> 's) \<Rightarrow> id_pool_t \<Rightarrow> 's \<Rightarrow> 's" where
  "id_pool_destroy kfree this = bitmap_destroy kfree (id_map this)"

text \<open>
  The allocation under the pool's lock, with \<open>yield\<close> for the other threads that run while the
  caller waits. The outer option is \<open>None\<close> when the lock is never released.
\<close>

definition id_pool_allocate_id ::
  "(id_pool_t \<Rightarrow> id_pool_t) \<Rightarrow> id_pool_t \<Rightarrow> (u32 option \<times> id_pool_t) option" where
  "id_pool_allocate_id yield this =
     (case yieldlock_lock lock (\<lambda>l p. p\<lparr>lock := l\<rparr>) yield this of
        None \<Rightarrow> None
      | Some this \<Rightarrow>
          (case bitmap_alloc_first_free (id_map this) of
             None \<Rightarrow> Some (None, this\<lparr>lock := yieldlock_unlock (lock this)\<rparr>)
           | Some (i, m) \<Rightarrow>
               let this = this\<lparr>id_map := m\<rparr>
               in Some (Some i, this\<lparr>lock := yieldlock_unlock (lock this)\<rparr>)))"

text \<open>A pool at rest: its bitmap is well formed and its lock is free.\<close>

definition wf_pool :: "id_pool_t \<Rightarrow> bool" where
  "wf_pool p \<longleftrightarrow> wf_bitmap (id_map p) \<and> hold (lock p) = LOCKED_NO"

definition pool_ids :: "id_pool_t \<Rightarrow> nat set" where
  "pool_ids p = set_bits (id_map p)"

definition pool_capacity :: "id_pool_t \<Rightarrow> nat" where
  "pool_capacity p = scan_limit (id_map p)"

lemmas pool_defs = wf_pool_def pool_ids_def pool_capacity_def

text \<open>Between two lock operations of other threads the call is one atomic step on the bitmap.\<close>

definition id_pool_alloc :: "id_pool_t \<Rightarrow> (u32 \<times> id_pool_t) option" where
  "id_pool_alloc p = (case bitmap_alloc_first_free (id_map p) of
     None \<Rightarrow> None | Some (i, m) \<Rightarrow> Some (i, p\<lparr>id_map := m\<rparr>))"

lemma id_pool_allocate_id_eq:
  assumes "wf_pool p"
  shows "id_pool_allocate_id yield p =
    Some (case id_pool_alloc p of None \<Rightarrow> (None, p) | Some (i, p') \<Rightarrow> (Some i, p'))"
proof -
  have l: "yieldlock_lock lock (\<lambda>l p. p\<lparr>lock := l\<rparr>) yield p =
      Some (p\<lparr>lock := (lock p)\<lparr>hold := LOCKED_YES\<rparr>\<rparr>)"
    using assms by (simp add: yieldlock_lock_free wf_pool_def)
  have u: "(lock p)\<lparr>hold := LOCKED_NO\<rparr> = lock p"
    using assms by (simp add: wf_pool_def)
  then have "p\<lparr>lock := (lock p)\<lparr>hold := LOCKED_NO\<rparr>\<rparr> = p" by simp
  then show ?thesis
    by (auto simp: id_pool_allocate_id_def l id_pool_alloc_def yieldlock_unlock_def u Let_def
             split: option.splits)
qed

interpretation ip: id_allocator id_pool_alloc id_pool_free_id pool_ids pool_capacity wf_pool
proof (unfold_locales, goal_cases)
  case (1 s)
  then show ?case
    using bm.alloc_None [of "id_map s"] by (auto simp: id_pool_alloc_def pool_defs split: option.splits)
next
  case (2 s i s')
  then show ?case
    using bm.alloc_fresh [of "id_map s"] by (auto simp: id_pool_alloc_def pool_defs split: option.splits)
next
  case (3 s i s')
  then show ?case
    using bm.alloc_used [of "id_map s"] by (auto simp: id_pool_alloc_def pool_defs split: option.splits)
next
  case (4 s i s')
  then show ?case
    using bm.alloc_invar [of "id_map s"] by (auto simp: id_pool_alloc_def pool_defs split: option.splits)
next
  case (5 s i)
  then show ?case
    using bm.free_used [of "id_map s"] by (simp add: id_pool_free_id_def pool_defs)
next
  case (6 s i)
  then show ?case
    using bm.free_invar [of "id_map s"] by (simp add: id_pool_free_id_def pool_defs)
qed

section \<open>Properties\<close>

text \<open>The allocation of a client that sees only whether it got an id.\<close>

definition pool_request :: "(id_pool_t \<Rightarrow> id_pool_t) \<Rightarrow> id_pool_t \<Rightarrow> (u32 \<times> id_pool_t) option" where
  "pool_request yield p =
     (case id_pool_allocate_id yield p of Some (Some i, p') \<Rightarrow> Some (i, p') | _ \<Rightarrow> None)"

lemma pool_request_eq: "wf_pool p \<Longrightarrow> pool_request yield p = id_pool_alloc p"
  by (simp add: pool_request_def id_pool_allocate_id_eq split: option.splits)

lemma pool_requests_eq: "wf_pool p \<Longrightarrow> alloc_many (pool_request yield) n p = alloc_many id_pool_alloc n p"
proof (induction n arbitrary: p)
  case (Suc n)
  then show ?case
    using ip.alloc_invar by (auto simp: pool_request_eq split: option.splits)
qed simp

text \<open>Creating \<open>n\<close> threads or processes in a row, while at least \<open>n\<close> ids below the pool's
capacity are free, succeeds and gives \<open>n\<close> pairwise different ids that nobody holds and that are
below the capacity; afterwards exactly the old ids and the new ones are held, and the pool is at rest
again.\<close>

lemma id_pool_fresh_ids:
  assumes "wf_pool p" "n \<le> card ({..<pool_capacity p} - pool_ids p)"
  shows "\<exists>is p'. alloc_many (pool_request yield) n p = Some (is, p') \<and> length is = n \<and> distinct is \<and>
    unat ` set is \<subseteq> {..<pool_capacity p} - pool_ids p \<and>
    pool_ids p' = pool_ids p \<union> unat ` set is \<and> wf_pool p'"
proof -
  from ip.alloc_many_total [OF assms] obtain "is" p' where
    a: "alloc_many id_pool_alloc n p = Some (is, p')" by auto
  from ip.alloc_many_fresh [OF assms(1) a] a show ?thesis
    by (auto simp: pool_requests_eq [OF assms(1)])
qed

definition sample_pool :: "id_pool_t" where
  "sample_pool = \<lparr>pool_size = 40, max_size = 40, expand_size = 40,
     id_map = \<lparr>bitarray = [0, 0], alloc_array = True, arraysize = 2, totalbits = 40\<rparr>, lock = \<lparr>hold = 0\<rparr>\<rparr>"

end
