(* ===== verification/Ordered_Array.thy ===== *)
theory Ordered_Array
  imports Prelude
begin

text \<open>
  The fixed-capacity array ordered by a comparison function of
  \<^verbatim>\<open>src/src/utils/ordered_array.c\<close>; the kernel heap keeps its holes in one, ordered by size.
  The function pointer \<^verbatim>\<open>compare\<close> of the struct is the argument \<open>compare\<close> of
  \<open>ordered_array_insert\<close>, because the function the heap installs reads block headers, which
  change while the array does not. Slots past \<open>oa_size\<close> hold stale values, as in the code.
\<close>

record 'a ordered_array_t =
  oa_array :: "'a list"
  oa_size :: u32
  oa_max_size :: u32

definition ordered_array_create :: "'a list \<Rightarrow> u32 \<Rightarrow> 'a ordered_array_t" where
  "ordered_array_create arr max_sz = \<lparr>oa_array = arr, oa_size = 0, oa_max_size = max_sz\<rparr>"

text \<open>The search loop: the first index from \<open>i\<close> on whose element compares greater than \<open>item\<close>.\<close>

function insert_pos :: "('a \<Rightarrow> 'a \<Rightarrow> int) \<Rightarrow> 'a list \<Rightarrow> nat \<Rightarrow> 'a \<Rightarrow> nat \<Rightarrow> nat" where
  "insert_pos compare arr n item i =
     (if i < n \<and> compare (arr ! i) item \<le> 0 then insert_pos compare arr n item (Suc i) else i)"
  by pat_completeness auto
termination
  by (relation "measure (\<lambda>(compare, arr, n, item, i). n - i)") auto

text \<open>The loop that moves \<open>arr[i .. j-1]\<close> one slot up, from the right.\<close>

fun shift_up :: "'a list \<Rightarrow> nat \<Rightarrow> nat \<Rightarrow> 'a list" where
  "shift_up arr i 0 = arr"
| "shift_up arr i (Suc j) = (if i < Suc j then shift_up (arr[Suc j := arr ! j]) i j else arr)"

definition ordered_array_insert ::
  "('a \<Rightarrow> 'a \<Rightarrow> int) \<Rightarrow> 'a ordered_array_t \<Rightarrow> 'a \<Rightarrow> bool \<times> 'a ordered_array_t" where
  "ordered_array_insert compare this item =
     (if oa_max_size this \<le> oa_size this then (False, this)
      else
        let n = unat (oa_size this);
            i = insert_pos compare (oa_array this) n item 0;
            arr = shift_up (oa_array this) i n
        in (True, this\<lparr>oa_array := arr[i := item], oa_size := oa_size this + 1\<rparr>))"

text \<open>\<open>None\<close> is the returned \<^verbatim>\<open>NULL\<close>.\<close>

definition ordered_array_get :: "'a ordered_array_t \<Rightarrow> u32 \<Rightarrow> 'a option" where
  "ordered_array_get this index =
     (if oa_size this \<le> index then None else Some (oa_array this ! unat index))"

text \<open>The loop that moves \<open>arr[i+1 .. n-1]\<close> one slot down, from the left.\<close>

function shift_down :: "'a list \<Rightarrow> nat \<Rightarrow> nat \<Rightarrow> 'a list" where
  "shift_down arr i m = (if i < m then shift_down (arr[i := arr ! Suc i]) (Suc i) m else arr)"
  by pat_completeness auto
termination
  by (relation "measure (\<lambda>(arr, i, m). m - i)") auto

declare insert_pos.simps [simp del] shift_down.simps [simp del]

definition ordered_array_remove :: "'a ordered_array_t \<Rightarrow> u32 \<Rightarrow> 'a ordered_array_t" where
  "ordered_array_remove this index =
     (if oa_size this \<le> index then this
      else this\<lparr>oa_array := shift_down (oa_array this) (unat index) (unat (oa_size this - 1)),
                oa_size := oa_size this - 1\<rparr>)"

text \<open>The first index from \<open>i\<close> on that holds \<open>item\<close>, or \<open>n\<close>.\<close>

function find_index :: "'a list \<Rightarrow> nat \<Rightarrow> 'a \<Rightarrow> nat \<Rightarrow> nat" where
  "find_index arr n item i =
     (if i < n then (if arr ! i = item then i else find_index arr n item (Suc i)) else n)"
  by pat_completeness auto
termination
  by (relation "measure (\<lambda>(arr, n, item, i). n - i)") auto

declare find_index.simps [simp del]

definition ordered_array_find_element :: "'a ordered_array_t \<Rightarrow> 'a \<Rightarrow> u32" where
  "ordered_array_find_element this item =
     of_nat (find_index (oa_array this) (unat (oa_size this)) item 0)"

text \<open>The returned flag is 1 when the element was there.\<close>

definition ordered_array_remove_element ::
  "'a ordered_array_t \<Rightarrow> 'a \<Rightarrow> bool \<times> 'a ordered_array_t" where
  "ordered_array_remove_element this item =
     (let index = find_index (oa_array this) (unat (oa_size this)) item 0
      in if index = unat (oa_size this) then (False, this)
         else (True, this\<lparr>oa_array := shift_down (oa_array this) index (unat (oa_size this - 1)),
                          oa_size := oa_size this - 1\<rparr>))"

section \<open>The live elements\<close>

definition elems :: "'a ordered_array_t \<Rightarrow> 'a list" where
  "elems a = take (unat (oa_size a)) (oa_array a)"

definition wf_oa :: "'a ordered_array_t \<Rightarrow> bool" where
  "wf_oa a \<longleftrightarrow> oa_size a \<le> oa_max_size a \<and> unat (oa_max_size a) \<le> length (oa_array a)"

text \<open>\<open>insert_after\<close>: the list-level reference, a stable insertion behind equal elements.\<close>

fun insert_after :: "('a \<Rightarrow> 'a \<Rightarrow> int) \<Rightarrow> 'a \<Rightarrow> 'a list \<Rightarrow> 'a list" where
  "insert_after compare x [] = [x]"
| "insert_after compare x (y # ys) =
     (if compare y x \<le> 0 then y # insert_after compare x ys else x # y # ys)"

lemma insert_pos_bounds:
  "i \<le> n \<Longrightarrow> i \<le> insert_pos c arr n x i \<and> insert_pos c arr n x i \<le> n"
proof (induction c arr n x i rule: insert_pos.induct)
  case (1 c arr n x i)
  then show ?case by (auto simp: insert_pos.simps [of c arr n x i])
qed

lemma insert_pos_split:
  assumes "i \<le> n" "n \<le> length arr"
  shows "insert_after c x (take (n - i) (drop i arr)) =
         take (insert_pos c arr n x i - i) (drop i arr) @ x # take (n - insert_pos c arr n x i) (drop (insert_pos c arr n x i) arr)"
  using assms
proof (induction c arr n x i rule: insert_pos.induct)
  case (1 c arr n x i)
  show ?case
  proof (cases "i < n")
    case True
    then have d: "drop i arr = arr ! i # drop (Suc i) arr" "n - i = Suc (n - Suc i)"
      using "1.prems" by (auto simp: Cons_nth_drop_Suc)
    show ?thesis
    proof (cases "c (arr ! i) x \<le> 0")
      case c: True
      have b: "Suc i \<le> insert_pos c arr n x (Suc i)" using True by (simp add: insert_pos_bounds)
      then obtain k where k: "insert_pos c arr n x (Suc i) - i = Suc (insert_pos c arr n x (Suc i) - Suc i)"
        by (metis Suc_diff_Suc Suc_le_lessD)
      show ?thesis using True c "1.IH" "1.prems" k
        by (simp add: insert_pos.simps [of c arr n x i] d)
    next
      case False
      then show ?thesis using True by (simp add: insert_pos.simps [of c arr n x i] d)
    qed
  next
    case False
    with "1.prems" have "i = n" by simp
    then show ?thesis by (simp add: insert_pos.simps [of c arr n x n])
  qed
qed

lemma length_shift_up [simp]: "length (shift_up arr i j) = length arr"
  by (induction arr i j rule: shift_up.induct) auto

lemma nth_shift_up:
  "j < length arr \<Longrightarrow> i \<le> j \<Longrightarrow> k < length arr \<Longrightarrow>
   shift_up arr i j ! k = (if i < k \<and> k \<le> j then arr ! (k - 1) else arr ! k)"
proof (induction arr i j rule: shift_up.induct)
  case (2 arr i j)
  then show ?case
    by (cases "k = Suc j") (auto simp: nth_list_update)
qed simp

lemma length_shift_down [simp]: "length (shift_down arr i m) = length arr"
proof (induction arr i m rule: shift_down.induct)
  case (1 arr i m) then show ?case by (simp add: shift_down.simps [of arr i m])
qed

lemma nth_shift_down:
  "m < length arr \<Longrightarrow> k < length arr \<Longrightarrow>
   shift_down arr i m ! k = (if i \<le> k \<and> k < m then arr ! Suc k else arr ! k)"
proof (induction arr i m rule: shift_down.induct)
  case (1 arr i m)
  then show ?case
    by (cases "k = i") (auto simp: shift_down.simps [of arr i m] nth_list_update)
qed

lemma find_index_eq:
  "i \<le> n \<Longrightarrow> n \<le> length arr \<Longrightarrow> find_index arr n x i = i + length (takeWhile (\<lambda>y. y \<noteq> x) (take (n - i) (drop i arr)))"
proof (induction arr n x i rule: find_index.induct)
  case (1 arr n x i)
  show ?case
  proof (cases "i < n")
    case True
    then have d: "drop i arr = arr ! i # drop (Suc i) arr" "n - i = Suc (n - Suc i)"
      using "1.prems" by (auto simp: Cons_nth_drop_Suc)
    with 1 True show ?thesis by (simp add: find_index.simps [of arr n x i])
  next
    case False
    with "1.prems" have "i = n" by simp
    then show ?thesis by (simp add: find_index.simps [of arr n x n])
  qed
qed

lemma insert_shifted:
  assumes "i \<le> n" "n < length arr"
  shows "take (Suc n) ((shift_up arr i n)[i := x]) = take i arr @ x # take (n - i) (drop i arr)"
proof (rule nth_equalityI)
  fix k
  assume "k < length (take (Suc n) ((shift_up arr i n)[i := x]))"
  then have k: "k \<le> n" by simp
  consider "k < i" | "k = i" | m where "k = Suc (i + m)" "i + m < n"
    using k by (metis add_Suc_right less_iff_Suc_add not_less_iff_gr_or_eq Suc_le_eq)
  then show "take (Suc n) ((shift_up arr i n)[i := x]) ! k =
        (take i arr @ x # take (n - i) (drop i arr)) ! k"
    by cases (use assms in \<open>auto simp: nth_shift_up nth_append\<close>)
qed (use assms in simp)

lemma wf_oa_room:
  assumes "wf_oa a" "\<not> oa_max_size a \<le> oa_size a"
  shows "unat (oa_size a) < length (oa_array a)" "unat (oa_size a + 1) = Suc (unat (oa_size a))"
proof -
  have "unat (oa_size a) < unat (oa_max_size a)" using assms(2) by (simp add: word_le_nat_alt)
  with assms(1) unat_u32_less [of "oa_max_size a"]
  show "unat (oa_size a) < length (oa_array a)" "unat (oa_size a + 1) = Suc (unat (oa_size a))"
    by (simp_all add: wf_oa_def unat_succ32)
qed

lemma ordered_array_insert_elems:
  assumes wf: "wf_oa a" and room: "oa_size a < oa_max_size a"
  shows "\<exists>a'. ordered_array_insert c a x = (True, a') \<and> wf_oa a' \<and> elems a' = insert_after c x (elems a)
     \<and> oa_max_size a' = oa_max_size a"
proof -
  let ?n = "unat (oa_size a)" and ?arr = "oa_array a"
  let ?i = "insert_pos c ?arr ?n x 0"
  from room have nf: "\<not> oa_max_size a \<le> oa_size a" by simp
  note r = wf_oa_room [OF wf nf]
  have i: "?i \<le> ?n" using insert_pos_bounds [of 0 ?n] by simp
  have "take (Suc ?n) ((shift_up ?arr ?i ?n)[?i := x]) = take ?i ?arr @ x # take (?n - ?i) (drop ?i ?arr)"
    by (rule insert_shifted) (use i r in auto)
  then have "take (Suc ?n) ((shift_up ?arr ?i ?n)[?i := x]) = insert_after c x (take ?n ?arr)"
    using insert_pos_split [of 0 ?n ?arr c x] r by simp
  moreover have "oa_size a + 1 \<le> oa_max_size a"
    using room r by (simp add: word_le_nat_alt word_less_nat_alt)
  ultimately show ?thesis
    using nf wf r by (simp add: ordered_array_insert_def elems_def wf_oa_def Let_def)
qed

lemma take_shift_down:
  assumes "n \<le> length arr" "i < n"
  shows "take (n - 1) (shift_down arr i (n - 1)) = take i arr @ drop (Suc i) (take n arr)"
  by (rule nth_equalityI) (use assms in \<open>auto simp: nth_shift_down nth_append\<close>)

lemma wf_oa_length: "wf_oa a \<Longrightarrow> unat (oa_size a) \<le> length (oa_array a)"
  by (auto simp: wf_oa_def word_le_nat_alt)

lemma wf_oa_shrink:
  assumes "wf_oa a" "oa_size a \<noteq> 0" "length arr = length (oa_array a)"
  shows "wf_oa (a\<lparr>oa_array := arr, oa_size := oa_size a - 1\<rparr>)"
  using assms by (auto simp: wf_oa_def word_le_nat_alt unat_pred32)

lemma ordered_array_remove_elems:
  assumes wf: "wf_oa a" and i: "index < oa_size a"
  shows "elems (ordered_array_remove a index) = take (unat index) (elems a) @ drop (Suc (unat index)) (elems a)"
    and "wf_oa (ordered_array_remove a index)"
proof -
  have ne: "oa_size a \<noteq> 0" and lt: "unat index < unat (oa_size a)"
    using i by (auto simp: word_less_nat_alt)
  show "elems (ordered_array_remove a index) = take (unat index) (elems a) @ drop (Suc (unat index)) (elems a)"
    using i take_shift_down [OF wf_oa_length [OF wf] lt] lt
    by (simp add: ordered_array_remove_def elems_def unat_pred32 ne min_def not_le [symmetric])
  show "wf_oa (ordered_array_remove a index)"
    using wf i by (simp add: ordered_array_remove_def wf_oa_shrink ne not_le [symmetric])
qed

lemma takeWhile_neq_length: "x \<in> set xs \<Longrightarrow> length (takeWhile (\<lambda>y. y \<noteq> x) xs) < length xs"
  by (induction xs) auto

lemma remove1_takeWhile:
  "x \<in> set xs \<Longrightarrow> remove1 x xs = take (length (takeWhile (\<lambda>y. y \<noteq> x) xs)) xs @
     drop (Suc (length (takeWhile (\<lambda>y. y \<noteq> x) xs))) xs"
  by (induction xs) auto

lemma ordered_array_remove_element_elems:
  assumes wf: "wf_oa a"
  shows "\<exists>a'. ordered_array_remove_element a x = (x \<in> set (elems a), a') \<and> wf_oa a' \<and>
     elems a' = remove1 x (elems a) \<and> oa_max_size a' = oa_max_size a"
proof -
  let ?n = "unat (oa_size a)" and ?w = "length (takeWhile (\<lambda>y. y \<noteq> x) (elems a))"
  have f: "find_index (oa_array a) ?n x 0 = ?w"
    using find_index_eq [of 0 ?n "oa_array a" x] wf_oa_length [OF wf] by (simp add: elems_def)
  have len: "length (elems a) = ?n" using wf_oa_length [OF wf] by (simp add: elems_def)
  show ?thesis
  proof (cases "x \<in> set (elems a)")
    case True
    then have lt: "?w < ?n" using len takeWhile_neq_length by metis
    then have ne: "oa_size a \<noteq> 0" by auto
    show ?thesis
      using True lt remove1_takeWhile [OF True] take_shift_down [OF wf_oa_length [OF wf] lt]
      by (simp add: ordered_array_remove_element_def f Let_def wf_oa_shrink [OF wf ne] elems_def unat_pred32 [OF ne])
  next
    case False
    then have "?w = ?n" using len by (metis (mono_tags, lifting) takeWhile_eq_all_conv)
    with False wf show ?thesis
      by (simp add: ordered_array_remove_element_def f Let_def remove1_idem)
  qed
qed

lemma ordered_array_find_element_eq:
  assumes wf: "wf_oa a"
  shows "unat (ordered_array_find_element a x) = length (takeWhile (\<lambda>y. y \<noteq> x) (elems a))"
proof -
  have "length (takeWhile (\<lambda>y. y \<noteq> x) (elems a)) \<le> unat (oa_size a)"
    using wf_oa_length [OF wf] length_takeWhile_le [of _ "elems a"] by (metis elems_def length_take min.cobounded2 min_def order_trans)
  then show ?thesis
    using find_index_eq [of 0 "unat (oa_size a)" "oa_array a" x] wf_oa_length [OF wf]
    by (simp add: ordered_array_find_element_def unat_of_nat_le elems_def)
qed

lemma mset_insert_after: "mset (insert_after c x xs) = add_mset x (mset xs)"
  by (induction xs) auto

lemma set_insert_after [simp]: "set (insert_after c x xs) = insert x (set xs)"
  by (induction xs) auto

lemma length_insert_after [simp]: "length (insert_after c x xs) = Suc (length xs)"
  by (induction xs) auto

text \<open>A comparison function that orders by a numeric key, as the heap's does.\<close>

lemma sorted_insert_after:
  assumes "\<And>a b. (c a b \<le> 0) = (key a \<le> (key b :: nat))"
  shows "sorted (map key xs) \<Longrightarrow> sorted (map key (insert_after c x xs))"
  by (induction xs) (auto simp: assms)

section \<open>Properties\<close>

text \<open>inserting into an ordered array that is not full keeps it sorted by the comparison key, adds
exactly the new element to its contents and keeps every capacity bound; on a full array nothing changes
and the insertion is refused.\<close>

lemma ordered_array_insert_sorted:
  assumes "wf_oa a" "\<And>x y. (compare x y \<le> 0) = (key x \<le> (key y :: nat))" "sorted (map key (elems a))"
  shows "\<exists>ok a'. ordered_array_insert compare a item = (ok, a') \<and> wf_oa a' \<and> sorted (map key (elems a')) \<and>
    (ok \<longleftrightarrow> oa_size a < oa_max_size a) \<and>
    mset (elems a') = (if ok then add_mset item (mset (elems a)) else mset (elems a))"
proof (cases "oa_size a < oa_max_size a")
  case True
  with ordered_array_insert_elems [OF assms(1) this, of compare item] assms(2,3)
    sorted_insert_after [of compare key "elems a" item]
  show ?thesis by (auto simp: mset_insert_after)
next
  case False
  then have "oa_max_size a \<le> oa_size a" by simp
  then have "ordered_array_insert compare a item = (False, a)" by (simp add: ordered_array_insert_def)
  with False assms(1,3) show ?thesis by auto
qed

text \<open>removing an element by value reports whether it was there, and removes exactly its first
occurrence, keeping the order of the rest.\<close>

lemma ordered_array_remove_element_exact:
  assumes "wf_oa a"
  shows "\<exists>a'. ordered_array_remove_element a x = (x \<in> set (elems a), a') \<and> wf_oa a' \<and>
     elems a' = remove1 x (elems a) \<and> oa_max_size a' = oa_max_size a"
  using assms by (rule ordered_array_remove_element_elems)

end
