(* ===== verification/Kheap.thy ===== *)
theory Kheap
  imports Ordered_Array
begin

text \<open>
  The kernel heap of \<^verbatim>\<open>src/src/mem/kheap.c\<close>: a region of virtual memory tiled by blocks,
  each with a header in front of its payload and a footer behind it, and an index of the holes
  ordered by size. Block headers and footers live in two typed stores over 32-bit addresses (the
  tiling invariant below shows that the headers and footers of all blocks occupy disjoint bytes
  outside every payload, so the two stores never describe the same byte). The index array, which
  the code keeps in the first pages of the heap, is an \<open>ordered_array_t\<close>. The yield lock
  \<^verbatim>\<open>kheap_lock\<close> that \<^verbatim>\<open>kmalloc\<close> and \<^verbatim>\<open>kfree\<close> hold is not part of the
  heap's state: an operation is one critical section.
\<close>

section \<open>Data\<close>

record kheap_block_header_t =
  magic :: u32
  is_hole :: u8
  blk_size :: u32

record kheap_block_footer_t =
  ft_magic :: u32
  ft_header :: addr

record kheap_mem =
  headers :: "addr \<Rightarrow> kheap_block_header_t"
  footers :: "addr \<Rightarrow> kheap_block_footer_t"

record kheap_t =
  kh_index :: "addr ordered_array_t"
  start_address :: addr
  end_address :: addr
  kh_max_size :: u32
  kh_size :: u32
  supervisor :: u8
  readonly :: u8

definition KHEAP_START :: addr where "KHEAP_START = 0xC0C00000"
definition KHEAP_MIN_SIZE :: u32 where "KHEAP_MIN_SIZE = 0x10000"
definition KHEAP_MAX :: u32 where "KHEAP_MAX = 0xE0000000"
definition KHEAP_INDEX_NUM :: u32 where "KHEAP_INDEX_NUM = 0x1000"
definition KHEAP_MAGIC :: u32 where "KHEAP_MAGIC = 0x123060AB"
definition BLOCK_HEADER_SIZE :: u32 where "BLOCK_HEADER_SIZE = 9"
definition BLOCK_FOOTER_SIZE :: u32 where "BLOCK_FOOTER_SIZE = 8"
definition BLOCK_META_SIZE :: u32 where "BLOCK_META_SIZE = BLOCK_HEADER_SIZE + BLOCK_FOOTER_SIZE"
definition IS_HOLE :: u8 where "IS_HOLE = 1"
definition NOT_HOLE :: u8 where "NOT_HOLE = 0"
definition PAGE_SIZE :: u32 where "PAGE_SIZE = 4096"

lemmas kheap_consts = KHEAP_MAGIC_def BLOCK_HEADER_SIZE_def BLOCK_FOOTER_SIZE_def
  BLOCK_META_SIZE_def IS_HOLE_def NOT_HOLE_def PAGE_SIZE_def

section \<open>Operations\<close>

definition align_to_page :: "u32 \<Rightarrow> u32" where
  "align_to_page sz = (sz + 0xfff) AND 0xfffff000"

definition kheap_block_comparator :: "kheap_mem \<Rightarrow> addr \<Rightarrow> addr \<Rightarrow> int" where
  "kheap_block_comparator m a b =
     (let size_a = blk_size (headers m a); size_b = blk_size (headers m b)
      in if size_a < size_b then -1 else if size_b < size_a then 1 else 0)"

definition make_block :: "kheap_mem \<Rightarrow> addr \<Rightarrow> u32 \<Rightarrow> u8 \<Rightarrow> kheap_mem" where
  "make_block m start sz hole =
     (let fin = start + sz + BLOCK_META_SIZE;
          m = m\<lparr>headers := (headers m)(start := \<lparr>magic = KHEAP_MAGIC, is_hole = hole, blk_size = sz\<rparr>)\<rparr>
      in m\<lparr>footers := (footers m)(fin - BLOCK_FOOTER_SIZE := \<lparr>ft_magic = KHEAP_MAGIC, ft_header = start\<rparr>)\<rparr>)"

text \<open>The comparator of the index reads the block headers of the current memory.\<close>

definition index_insert :: "kheap_mem \<Rightarrow> addr ordered_array_t \<Rightarrow> addr \<Rightarrow> addr ordered_array_t" where
  "index_insert m idx a = snd (ordered_array_insert (kheap_block_comparator m) idx a)"

definition index_get :: "addr ordered_array_t \<Rightarrow> nat \<Rightarrow> addr" where
  "index_get idx i = (case ordered_array_get idx (of_nat i) of None \<Rightarrow> NULL | Some a \<Rightarrow> a)"

definition create_kheap ::
  "addr list \<Rightarrow> kheap_mem \<Rightarrow> addr \<Rightarrow> addr \<Rightarrow> u32 \<Rightarrow> u8 \<Rightarrow> u8 \<Rightarrow> (kheap_t \<times> kheap_mem) kres"
where
  "create_kheap arr m start fin max_sz superv ronly =
     kassert (start AND 0xFFF = 0) ''(start & 0xFFF) == 0''
     (kassert (fin AND 0xFFF = 0) ''(end & 0xFFF) == 0''
       (let idx = ordered_array_create arr KHEAP_INDEX_NUM;
            start = start + KHEAP_INDEX_NUM * 4
        in kassert (start < fin) ''start < end''
             (let m = make_block m start (fin - start - BLOCK_META_SIZE) IS_HOLE
              in Inr (\<lparr>kh_index = index_insert m idx start, start_address = start,
                       end_address = fin, kh_max_size = max_sz, kh_size = fin - start,
                       supervisor = superv, readonly = ronly\<rparr>, m))))"

definition init_kheap :: "addr list \<Rightarrow> kheap_mem \<Rightarrow> (kheap_t \<times> kheap_mem) kres" where
  "init_kheap arr m = create_kheap arr m KHEAP_START (KHEAP_START + KHEAP_MIN_SIZE) KHEAP_MAX 0 0"

text \<open>
  The loop over the page-aligned addresses of one hole. It ends after at most two rounds: once the
  gap in front of the address is larger than a block's metadata the address is taken.
\<close>

function find_aligned :: "addr \<Rightarrow> addr \<Rightarrow> u32 \<Rightarrow> addr \<Rightarrow> addr option" where
  "find_aligned start fin sz next_page_align =
     (if next_page_align + sz \<le> fin then
        (if next_page_align - start = 0 \<or> next_page_align - start > BLOCK_META_SIZE
         then Some next_page_align
         else find_aligned start fin sz (next_page_align + PAGE_SIZE))
      else None)"
  by pat_completeness auto
termination
proof (relation "measure (\<lambda>(start, fin, sz, n). if n - start = 0 \<or> n - start > BLOCK_META_SIZE then 0 else 1)",
       goal_cases)
  case (2 start fin sz n)
  let ?d = "n - start"
  from 2 have d: "?d \<noteq> 0" "unat ?d \<le> 17"
    by (auto simp: kheap_consts word_less_nat_alt)
  have eq: "n + PAGE_SIZE - start = ?d + 4096" by (simp add: kheap_consts)
  have "unat (?d + 4096) = unat ?d + 4096"
    using d by (simp add: unat_word_ariths)
  then have "n + PAGE_SIZE - start > BLOCK_META_SIZE"
    unfolding eq by (simp add: word_less_nat_alt kheap_consts)
  with 2 show ?case by simp
qed simp

declare find_aligned.simps [simp del]

text \<open>The test of one hole: the payload address an allocation of \<open>sz\<close> bytes would get in it.\<close>

definition hole_fits :: "kheap_mem \<Rightarrow> u32 \<Rightarrow> bool \<Rightarrow> addr \<Rightarrow> addr option" where
  "hole_fits m sz align header =
     (let start = header + BLOCK_HEADER_SIZE
      in if align then
           (let fin = start + blk_size (headers m header)
            in find_aligned start fin sz (align_to_page start))
         else if sz \<le> blk_size (headers m header) then Some start else None)"

function find_hole_from ::
  "addr ordered_array_t \<Rightarrow> kheap_mem \<Rightarrow> u32 \<Rightarrow> bool \<Rightarrow> nat \<Rightarrow> (nat \<times> addr) option" where
  "find_hole_from idx m sz align i =
     (if i < unat (oa_size idx) then
        (case hole_fits m sz align (index_get idx i) of
           Some alloc_pos \<Rightarrow> Some (i, alloc_pos)
         | None \<Rightarrow> find_hole_from idx m sz align (Suc i))
      else None)"
  by pat_completeness auto
termination
  by (relation "measure (\<lambda>(idx, m, sz, align, i). unat (oa_size idx) - i)") auto

declare find_hole_from.simps [simp del]

definition kheap_find_hole :: "kheap_t \<Rightarrow> kheap_mem \<Rightarrow> u32 \<Rightarrow> bool \<Rightarrow> (nat \<times> addr) option" where
  "kheap_find_hole this m sz align = find_hole_from (kh_index this) m sz align 0"

definition kheap_expand :: "kheap_t \<Rightarrow> u32 \<Rightarrow> (u32 \<times> kheap_t) kres" where
  "kheap_expand this sz =
     (let sz = align_to_page sz; new_end_addr = end_address this + sz
      in kassert (new_end_addr \<le> kh_max_size this) ''new_end_addr <= this->max_size''
           (Inr (sz, this\<lparr>end_address := new_end_addr, kh_size := kh_size this + sz\<rparr>)))"

text \<open>
  The allocation in the hole that was found at index \<open>i\<close>, in two parts: the hole that is cut off
  in front of an aligned address, and the block that is carved out of the rest.
\<close>

definition alloc_front ::
  "kheap_mem \<Rightarrow> addr ordered_array_t \<Rightarrow> bool \<Rightarrow> addr \<Rightarrow> u32 \<Rightarrow> addr \<Rightarrow>
     (kheap_mem \<times> addr ordered_array_t \<times> u32 \<times> addr) kres" where
  "alloc_front m idx align header block_size alloc_pos =
     (let alloc_block_header = alloc_pos - BLOCK_HEADER_SIZE
      in if align \<and> header < alloc_block_header then
           (let cut_block_size = alloc_block_header - header
            in kassert (BLOCK_META_SIZE < cut_block_size) ''cut_block_size > BLOCK_META_SIZE''
                 (let m = make_block m header (cut_block_size - BLOCK_META_SIZE) IS_HOLE
                  in Inr (m, index_insert m idx header, block_size - cut_block_size,
                          alloc_block_header)))
         else Inr (m, idx, block_size, header))"

definition alloc_carve ::
  "kheap_mem \<Rightarrow> addr ordered_array_t \<Rightarrow> u32 \<Rightarrow> addr \<Rightarrow> u32 \<Rightarrow> (kheap_mem \<times> addr ordered_array_t) kres" where
  "alloc_carve m idx block_size header sz =
     kassert (sz \<le> block_size) ''block_size >= size''
       (let remain_size = block_size - sz;
            (sz, remain_size) = (if remain_size \<le> BLOCK_META_SIZE
                                 then (sz + remain_size, 0) else (sz, remain_size));
            m = make_block m header sz NOT_HOLE
        in if remain_size \<noteq> 0 then
             kassert (BLOCK_META_SIZE < remain_size) ''remain_size > BLOCK_META_SIZE''
               (let remain_header = header + sz + BLOCK_META_SIZE;
                    m = make_block m remain_header (remain_size - BLOCK_META_SIZE) IS_HOLE
                in Inr (m, index_insert m idx remain_header))
           else Inr (m, idx))"

definition alloc_in_hole ::
  "kheap_t \<Rightarrow> kheap_mem \<Rightarrow> u32 \<Rightarrow> bool \<Rightarrow> nat \<Rightarrow> addr \<Rightarrow> (addr \<times> kheap_t \<times> kheap_mem) kres" where
  "alloc_in_hole this m sz align i alloc_pos =
     (let header = index_get (kh_index this) i
      in kassert (magic (headers m header) = KHEAP_MAGIC) ''header->magic == KHEAP_MAGIC''
        (let block_size = blk_size (headers m header);
             idx = ordered_array_remove (kh_index this) (of_nat i)
         in kbind (alloc_front m idx align header block_size alloc_pos)
              (\<lambda>(m, idx, block_size, header).
                 kbind (alloc_carve m idx block_size header sz)
                   (\<lambda>(m, idx). Inr (alloc_pos, this\<lparr>kh_index := idx\<rparr>, m)))))"

text \<open>
  What \<^verbatim>\<open>alloc\<close> does before it calls itself again when no hole is large enough: the heap
  is extended by whole pages, which either enlarge the last block, if it is a hole, or become a
  block of their own.
\<close>

definition alloc_grow :: "kheap_t \<Rightarrow> kheap_mem \<Rightarrow> u32 \<Rightarrow> (kheap_t \<times> kheap_mem) kres" where
  "alloc_grow this m sz =
     (let old_end_address = end_address this
      in kbind (kheap_expand this (sz + BLOCK_META_SIZE)) (\<lambda>(extension_size, this).
        let last_header = ft_header (footers m (old_end_address - BLOCK_FOOTER_SIZE))
        in if is_hole (headers m last_header) \<noteq> 0 then
             (let m = make_block m last_header (blk_size (headers m last_header) + extension_size) IS_HOLE;
                  (removed, idx) = ordered_array_remove_element (kh_index this) last_header
              in kassert removed ''remove'' (Inr (this\<lparr>kh_index := index_insert m idx last_header\<rparr>, m)))
           else
             (let m = make_block m old_end_address (extension_size - BLOCK_META_SIZE) NOT_HOLE
              in Inr (this\<lparr>kh_index := index_insert m (kh_index this) old_end_address\<rparr>, m))))"

text \<open>\<^verbatim>\<open>alloc\<close>; \<open>None\<close> when the recursion never ends.\<close>

partial_function (option) alloc ::
  "kheap_t \<Rightarrow> kheap_mem \<Rightarrow> u32 \<Rightarrow> bool \<Rightarrow> (addr \<times> kheap_t \<times> kheap_mem) kres option" where
  "alloc this m sz align =
     (case kheap_find_hole this m sz align of
        Some (i, alloc_pos) \<Rightarrow> Some (alloc_in_hole this m sz align i alloc_pos)
      | None \<Rightarrow>
          (case alloc_grow this m sz of
             Inl e \<Rightarrow> Some (Inl e)
           | Inr (this, m) \<Rightarrow> alloc this m sz align))"

text \<open>
  \<^verbatim>\<open>free\<close>: the block becomes a hole, is merged with the hole behind it
  (\<open>free_merge_next\<close>), then with the hole in front of it (\<open>free_merge_prev\<close>, which returns the header
  of the merged hole), and goes into the index.
\<close>

definition free_merge_next ::
  "kheap_t \<Rightarrow> kheap_mem \<Rightarrow> addr \<Rightarrow> addr \<Rightarrow> (kheap_mem \<times> addr ordered_array_t) kres" where
  "free_merge_next this m header footer =
     (let next_header = footer + BLOCK_FOOTER_SIZE
      in if next_header < end_address this \<and> magic (headers m next_header) = KHEAP_MAGIC \<and>
            is_hole (headers m next_header) = 1 then
           (let m' = make_block m header
                      (blk_size (headers m header) + blk_size (headers m next_header) + BLOCK_META_SIZE)
                      IS_HOLE;
                (removed, idx) = ordered_array_remove_element (kh_index this) next_header
            in kassert removed ''remove'' (Inr (m', idx)))
         else Inr (m, kh_index this))"

definition free_merge_prev ::
  "kheap_t \<Rightarrow> kheap_mem \<Rightarrow> addr ordered_array_t \<Rightarrow> addr \<Rightarrow> (kheap_mem \<times> addr ordered_array_t \<times> addr) kres"
where
  "free_merge_prev this m idx header =
     (let last_footer = header - BLOCK_FOOTER_SIZE;
          last_header = ft_header (footers m last_footer)
      in if start_address this \<le> last_footer \<and> ft_magic (footers m last_footer) = KHEAP_MAGIC \<and>
            is_hole (headers m last_header) = 1 then
           (let m' = make_block m last_header
                      (blk_size (headers m last_header) + blk_size (headers m header) + BLOCK_META_SIZE)
                      IS_HOLE;
                (removed, idx) = ordered_array_remove_element idx last_header
            in kassert removed ''remove'' (Inr (m', idx, last_header)))
         else Inr (m, idx, header))"

definition kheap_free :: "kheap_t \<Rightarrow> kheap_mem \<Rightarrow> addr \<Rightarrow> (kheap_t \<times> kheap_mem) kres" where
  "kheap_free this m a =
     (if a = NULL then Inr (this, m)
      else
        let header = a - BLOCK_HEADER_SIZE;
            footer = a + blk_size (headers m header)
        in kassert (magic (headers m header) = KHEAP_MAGIC) ''header->magic == KHEAP_MAGIC''
          (kassert (ft_magic (footers m footer) = KHEAP_MAGIC) ''footer->magic == KHEAP_MAGIC''
            (let m = m\<lparr>headers := (headers m)(header := (headers m header)\<lparr>is_hole := 1\<rparr>)\<rparr>
             in kbind (free_merge_next this m header footer) (\<lambda>(m, idx).
                  kbind (free_merge_prev this m idx header) (\<lambda>(m, idx, new_header).
                    Inr (this\<lparr>kh_index := index_insert m idx new_header\<rparr>, m))))))"

definition kmalloc_impl ::
  "kheap_t \<Rightarrow> kheap_mem \<Rightarrow> u32 \<Rightarrow> bool \<Rightarrow> (addr \<times> kheap_t \<times> kheap_mem) kres option" where
  "kmalloc_impl kheap m sz align =
     (if sz = 0 then Some (Inr (NULL, kheap, m))
      else map_option
             (\<lambda>r. kbind r (\<lambda>(p, kheap, m).
                if p = NULL then Inl (Panic ''kheap wrong, can't alloc mem'') else Inr (p, kheap, m)))
             (alloc kheap m sz align))"

definition kmalloc :: "kheap_t \<Rightarrow> kheap_mem \<Rightarrow> u32 \<Rightarrow> (addr \<times> kheap_t \<times> kheap_mem) kres option" where
  "kmalloc kheap m sz = kmalloc_impl kheap m sz False"

definition kmalloc_align :: "kheap_t \<Rightarrow> kheap_mem \<Rightarrow> u32 \<Rightarrow> (addr \<times> kheap_t \<times> kheap_mem) kres option" where
  "kmalloc_align kheap m sz = kmalloc_impl kheap m sz True"

definition kfree :: "kheap_t \<Rightarrow> kheap_mem \<Rightarrow> addr \<Rightarrow> (kheap_t \<times> kheap_mem) kres" where
  "kfree kheap m p = (if p = NULL then Inr (kheap, m) else kheap_free kheap m p)"

end
