(* ===== verification/Heap_Spec.thy ===== *)
theory Heap_Spec
  imports Prelude
begin

text \<open>
  The contract of a heap for the code that calls \<^verbatim>\<open>kmalloc\<close> and \<^verbatim>\<open>kfree\<close>. An
  abstract heap is the multiset of its live blocks, each the address and the size of a payload. A
  heap state has a budget: \<open>bytes\<close> that it can still grow by and \<open>slots\<close> of its hole index
  that are free. A request within the budget is served by a new block that is disjoint from all
  live blocks; freeing a live block removes exactly this block.

  \<open>run_script\<close> runs a client program: a list of requests, in which a \<open>Free k\<close> gives the
  \<open>k\<close>-th of the addresses back that the client still holds.
\<close>

datatype heap_op = Malloc nat | Free nat

fun run_script ::
  "('h \<Rightarrow> u32 \<Rightarrow> (addr \<times> 'h) kres option) \<Rightarrow> ('h \<Rightarrow> addr \<Rightarrow> 'h kres) \<Rightarrow> 'h \<Rightarrow> addr list \<Rightarrow>
     heap_op list \<Rightarrow> (addr list \<times> 'h) kres option" where
  "run_script malloc free h ps [] = Some (Inr (ps, h))"
| "run_script malloc free h ps (Malloc sz # ops) =
     (case malloc h (of_nat sz) of
        None \<Rightarrow> None
      | Some (Inl e) \<Rightarrow> Some (Inl e)
      | Some (Inr (p, h')) \<Rightarrow> run_script malloc free h' (p # ps) ops)"
| "run_script malloc free h ps (Free k # ops) =
     (if k < length ps then
        (case free h (ps ! k) of
           Inl e \<Rightarrow> Some (Inl e)
         | Inr h' \<Rightarrow> run_script malloc free h' (take k ps @ drop (Suc k) ps) ops)
      else run_script malloc free h ps ops)"

fun script_ok :: "nat \<Rightarrow> nat \<Rightarrow> heap_op list \<Rightarrow> bool" where
  "script_ok bytes slots [] \<longleftrightarrow> True"
| "script_ok bytes slots (Malloc sz # ops) \<longleftrightarrow>
     0 < sz \<and> sz + 4112 \<le> bytes \<and> 0 < slots \<and> script_ok (bytes - (sz + 4112)) (slots - 1) ops"
| "script_ok bytes slots (Free k # ops) \<longleftrightarrow> 0 < slots \<and> script_ok bytes (slots - 1) ops"

lemma script_ok_mono:
  "\<lbrakk>script_ok b s ops; b \<le> b'; s \<le> s'\<rbrakk> \<Longrightarrow> script_ok b' s' ops"
proof (induction b s ops arbitrary: b' s' rule: script_ok.induct)
  case (2 b s sz ops)
  then show ?case using "2.IH" [of "b' - (sz + 4112)" "s' - 1"] by auto
next
  case (3 b s k ops)
  then show ?case using "3.IH" [of b' "s' - 1"] by auto
qed simp

locale heap_allocator =
  fixes malloc :: "'h \<Rightarrow> u32 \<Rightarrow> (addr \<times> 'h) kres option"
    and free :: "'h \<Rightarrow> addr \<Rightarrow> 'h kres"
    and repr :: "'h \<Rightarrow> (nat \<times> nat) multiset \<Rightarrow> bool"
    and bytes :: "'h \<Rightarrow> nat"
    and slots :: "'h \<Rightarrow> nat"
  assumes malloc_ok: "\<lbrakk>repr h L; 0 < sz; sz + 4112 \<le> bytes h; 0 < slots h\<rbrakk> \<Longrightarrow>
      \<exists>p s h'. malloc h (of_nat sz) = Some (Inr (of_nat p, h')) \<and> sz \<le> s \<and>
        repr h' (add_mset (p, s) L) \<and> bytes h \<le> bytes h' + (sz + 4112) \<and> slots h \<le> slots h' + 1"
    and free_ok: "\<lbrakk>repr h (add_mset (p, s) L); 0 < slots h\<rbrakk> \<Longrightarrow>
      \<exists>h'. free h (of_nat p) = Inr h' \<and> repr h' L \<and> bytes h \<le> bytes h' \<and> slots h \<le> slots h' + 1"
    and repr_bounds: "\<lbrakk>repr h L; (p, s) \<in># L\<rbrakk> \<Longrightarrow> 0 < p \<and> p + s < 4294967296"
    and repr_disjoint: "repr h (add_mset (p, s) (add_mset (q, t) L)) \<Longrightarrow> p + s < q \<or> q + t < p"
begin

text \<open>A request never returns memory that overlaps a live block, nor \<^verbatim>\<open>NULL\<close>.\<close>

lemma malloc_fresh:
  assumes "repr h L" "0 < sz" "sz + 4112 \<le> bytes h" "0 < slots h"
  obtains p h' where "malloc h (of_nat sz) = Some (Inr (p, h'))" "p \<noteq> 0"
    "\<And>q t. (q, t) \<in># L \<Longrightarrow> unat p + sz < q \<or> q + t < unat p"
proof -
  obtain p s h' where m: "malloc h (of_nat sz) = Some (Inr (of_nat p, h'))" "sz \<le> s" "repr h' (add_mset (p, s) L)"
    using malloc_ok [OF assms] by blast
  have b: "0 < p" "p + s < 4294967296" using repr_bounds [OF m(3)] by auto
  then have u: "unat (of_nat p :: addr) = p" by (simp add: unat_of_nat_small)
  have "p + sz < q \<or> q + t < p" if "(q, t) \<in># L" for q t
  proof -
    from that obtain L' where "L = add_mset (q, t) L'" by (metis multi_member_split)
    with m(2,3) repr_disjoint [of h' p s q t L'] show ?thesis by auto
  qed
  moreover have "(of_nat p :: addr) \<noteq> 0" using u b by (metis unat_eq_0 less_numeral_extra(3))
  ultimately show ?thesis using that m(1) u by metis
qed

lemma malloc_free:
  assumes "repr h L" "0 < sz" "sz + 4112 \<le> bytes h" "1 < slots h"
  shows "\<exists>p h1 h2. malloc h (of_nat sz) = Some (Inr (p, h1)) \<and> free h1 p = Inr h2 \<and> repr h2 L"
proof -
  from malloc_ok [OF assms(1-3)] assms(4) obtain p s h1 where
    "malloc h (of_nat sz) = Some (Inr (of_nat p, h1))" "repr h1 (add_mset (p, s) L)" "slots h \<le> slots h1 + 1"
    by auto
  moreover from this(2,3) assms(4) obtain h2 where "free h1 (of_nat p) = Inr h2" "repr h2 L"
    using free_ok [of h1 p s L] by auto
  ultimately show ?thesis by blast
qed

text \<open>Every client program within the budget runs to its end and holds exactly the live blocks.\<close>

lemma run_script_ok:
  assumes "repr h (mset bl + L)" "map fst bl = map unat ps" "script_ok (bytes h) (slots h) ops"
  shows "\<exists>ps' h' bl'. run_script malloc free h ps ops = Some (Inr (ps', h')) \<and>
     repr h' (mset bl' + L) \<and> map fst bl' = map unat ps'"
  using assms
proof (induction ops arbitrary: h ps bl)
  case (Cons op ops)
  show ?case
  proof (cases op)
    case (Malloc sz)
    with malloc_ok [OF Cons.prems(1), of sz] Cons.prems(3) obtain p s h' where
      m: "malloc h (of_nat sz) = Some (Inr (of_nat p, h'))" "repr h' (add_mset (p, s) (mset bl + L))"
      "bytes h - (sz + 4112) \<le> bytes h'" "slots h - 1 \<le> slots h'"
      by auto
    have "unat (of_nat p :: addr) = p" using repr_bounds [OF m(2), of p s] by (simp add: unat_of_nat_small)
    moreover have "script_ok (bytes h') (slots h') ops"
      using Cons.prems(3) Malloc m(3,4) script_ok_mono by auto
    ultimately have "\<exists>ps' h'' bl'. run_script malloc free h' (of_nat p # ps) ops = Some (Inr (ps', h'')) \<and>
        repr h'' (mset bl' + L) \<and> map fst bl' = map unat ps'"
      using m(2) Cons.prems(2) by (intro Cons.IH [of h' "(p, s) # bl"]) auto
    then show ?thesis using Malloc m(1) by simp
  next
    case (Free k)
    show ?thesis
    proof (cases "k < length ps")
      case True
      then have k: "k < length bl" using Cons.prems(2) by (metis length_map)
      then have r: "repr h (add_mset (fst (bl ! k), snd (bl ! k)) (mset (take k bl @ drop (Suc k) bl) + L))"
        using Cons.prems(1) mset_without_nth [of k bl] by simp
      have a: "fst (bl ! k) = unat (ps ! k)" using True k Cons.prems(2) by (metis nth_map)
      then obtain h' where f: "free h (ps ! k) = Inr h'" "repr h' (mset (take k bl @ drop (Suc k) bl) + L)"
        "bytes h \<le> bytes h'" "slots h - 1 \<le> slots h'"
        using free_ok [OF r] Cons.prems(3) Free by auto
      have "script_ok (bytes h') (slots h') ops"
        using Cons.prems(3) Free f(3,4) script_ok_mono by auto
      moreover have "map fst (take k bl @ drop (Suc k) bl) = map unat (take k ps @ drop (Suc k) ps)"
        using Cons.prems(2) by (simp flip: take_map drop_map)
      ultimately show ?thesis
        using Cons.IH [OF f(2)] True Free f(1) by simp
    next
      case False
      have "script_ok (bytes h) (slots h) ops"
        using Cons.prems(3) Free script_ok_mono [of "bytes h" "slots h - 1" ops "bytes h" "slots h"] by auto
      then show ?thesis using False Free Cons.IH [OF Cons.prems(1,2)] by simp
    qed
  qed
qed auto

end

end
