(* ===== verification/Kheap_Inv.thy ===== *)
theory Kheap_Inv
  imports Kheap Heap_Spec
begin

text \<open>
  Correctness of the kernel heap: the tiling invariant, what a plain and a page-aligned allocation
  and a release do to it, and the interpretation of the allocator contract \<open>heap_allocator\<close> on
  \<open>kmalloc\<close> and \<open>kfree\<close>. Positions and sizes of the abstract heap are naturals; the lemmas
  carry the bounds under which the code's 32-bit arithmetic agrees with them.
\<close>

section \<open>Tilings\<close>

text \<open>
  The abstract heap is the list of its blocks from the start address on: payload size and hole
  flag. \<open>tiled m a bs\<close> says that memory holds exactly these blocks from address \<open>a\<close> on.
\<close>

type_synonym block = "nat \<times> bool"

fun tiled :: "kheap_mem \<Rightarrow> nat \<Rightarrow> block list \<Rightarrow> bool" where
  "tiled m a [] \<longleftrightarrow> True"
| "tiled m a ((s, h) # bs) \<longleftrightarrow>
     headers m (of_nat a) = \<lparr>magic = KHEAP_MAGIC, is_hole = of_bool h, blk_size = of_nat s\<rparr> \<and>
     footers m (of_nat (a + 9 + s)) = \<lparr>ft_magic = KHEAP_MAGIC, ft_header = of_nat a\<rparr> \<and>
     tiled m (a + s + 17) bs"

fun extent :: "block list \<Rightarrow> nat" where
  "extent [] = 0"
| "extent ((s, h) # bs) = s + 17 + extent bs"

text \<open>The addresses of the holes, and the address and size of every allocated block.\<close>

fun holes :: "nat \<Rightarrow> block list \<Rightarrow> nat list" where
  "holes a [] = []"
| "holes a ((s, h) # bs) = (if h then [a] else []) @ holes (a + s + 17) bs"

fun live :: "nat \<Rightarrow> block list \<Rightarrow> (nat \<times> nat) list" where
  "live a [] = []"
| "live a ((s, h) # bs) = (if h then [] else [(a + 9, s)]) @ live (a + s + 17) bs"

fun no_adj :: "block list \<Rightarrow> bool" where
  "no_adj (b # c # bs) \<longleftrightarrow> \<not> (snd b \<and> snd c) \<and> no_adj (c # bs)"
| "no_adj bs \<longleftrightarrow> True"

lemma extent_append [simp]: "extent (xs @ ys) = extent xs + extent ys"
  by (induction xs rule: extent.induct) auto

lemma tiled_append [simp]:
  "tiled m a (xs @ ys) \<longleftrightarrow> tiled m a xs \<and> tiled m (a + extent xs) ys"
  by (induction m a xs rule: tiled.induct) (auto simp: algebra_simps)

lemma holes_append [simp]: "holes a (xs @ ys) = holes a xs @ holes (a + extent xs) ys"
  by (induction a xs rule: holes.induct) (auto simp: algebra_simps)

lemma live_append [simp]: "live a (xs @ ys) = live a xs @ live (a + extent xs) ys"
  by (induction a xs rule: live.induct) (auto simp: algebra_simps)

lemma no_adj_append [simp]:
  "no_adj (xs @ ys) \<longleftrightarrow> no_adj xs \<and> no_adj ys \<and>
     (xs = [] \<or> ys = [] \<or> \<not> (snd (last xs) \<and> snd (hd ys)))"
proof (induction xs)
  case (Cons x xs)
  then show ?case by (cases xs; cases ys) auto
qed (cases ys; simp)

lemma holes_bounds: "x \<in> set (holes a bs) \<Longrightarrow> a \<le> x \<and> x + 17 \<le> a + extent bs"
  by (induction a bs rule: holes.induct) (fastforce split: if_splits)+

lemma live_bounds: "(p, s) \<in> set (live a bs) \<Longrightarrow> a + 9 \<le> p \<and> p + s + 8 \<le> a + extent bs"
  by (induction a bs rule: live.induct) (fastforce split: if_splits)+

lemma distinct_holes: "distinct (holes a bs)"
  by (induction a bs rule: holes.induct) (auto dest: holes_bounds)

text \<open>The block of a hole address, the block of a live payload.\<close>

lemma holes_split:
  assumes "x \<in> set (holes a bs)"
  obtains pre s post where "bs = pre @ (s, True) # post" "x = a + extent pre"
proof -
  have "\<exists>pre s post. bs = pre @ (s, True) # post \<and> x = a + extent pre"
    using assms
  proof (induction a bs rule: holes.induct)
    case (2 a s h bs)
    show ?case
    proof (cases "h \<and> x = a")
      case True
      then show ?thesis by (intro exI [of _ "[]"]) auto
    next
      case False
      with 2 obtain pre s' post where "bs = pre @ (s', True) # post" "x = a + s + 17 + extent pre"
        by (auto split: if_splits)
      then show ?thesis by (intro exI [of _ "(s, h) # pre"]) auto
    qed
  qed simp
  with that show ?thesis by blast
qed

lemma live_split:
  assumes "(p, s) \<in> set (live a bs)"
  obtains pre post where "bs = pre @ (s, False) # post" "p = a + extent pre + 9"
proof -
  have "\<exists>pre post. bs = pre @ (s, False) # post \<and> p = a + extent pre + 9"
    using assms
  proof (induction a bs rule: live.induct)
    case (2 a s' h bs)
    show ?case
    proof (cases "\<not> h \<and> p = a + 9 \<and> s' = s")
      case True
      then show ?thesis by (rule_tac x = "[]" in exI) auto
    next
      case False
      with 2 obtain pre post where "bs = pre @ (s, False) # post" "p = a + s' + 17 + extent pre + 9"
        by (auto split: if_splits)
      then show ?thesis by (rule_tac x = "(s', h) # pre" in exI) auto
    qed
  qed simp
  with that show ?thesis by blast
qed

lemma of_nat_addr_eq: "\<lbrakk>x < 4294967296; y < 4294967296\<rbrakk> \<Longrightarrow> ((of_nat x :: addr) = of_nat y) = (x = y)"
  by (metis unat_of_nat_small)

section \<open>One block written\<close>

lemma make_block_eq:
  "make_block m (of_nat x) (of_nat s) h =
     \<lparr>headers = (headers m)(of_nat x := \<lparr>magic = KHEAP_MAGIC, is_hole = h, blk_size = of_nat s\<rparr>),
      footers = (footers m)(of_nat (x + 9 + s) := \<lparr>ft_magic = KHEAP_MAGIC, ft_header = of_nat x\<rparr>)\<rparr>"
  by (simp add: make_block_def Let_def kheap_consts algebra_simps)

lemma tiled_make_block_other:
  assumes "a + extent bs \<le> x \<or> x + s + 17 \<le> a"
    and "a + extent bs \<le> 4294967295" "x + s + 17 \<le> 4294967295"
  shows "tiled (make_block m (of_nat x) (of_nat s) h) a bs = tiled m a bs"
  using assms
proof (induction m a bs rule: tiled.induct)
  case (2 m a s' h' bs)
  have "of_nat a \<noteq> (of_nat x :: addr)" "of_nat (a + 9 + s') \<noteq> (of_nat (x + 9 + s) :: addr)"
    using "2.prems" by (auto simp: of_nat_addr_eq simp del: of_nat_add)
  with 2 show ?case by (auto simp: make_block_eq simp del: of_nat_add)
qed simp

lemma tiled_make_block:
  "tiled (make_block m (of_nat x) (of_nat s) (of_bool h)) x [(s, h)]"
  by (simp add: make_block_eq)

section \<open>The index\<close>

text \<open>\<open>idx_ok m idx N\<close>: the index holds the addresses \<open>N\<close>, ordered by the sizes of their blocks.\<close>

abbreviation blk_nat :: "kheap_mem \<Rightarrow> addr \<Rightarrow> nat" where
  "blk_nat m h \<equiv> unat (blk_size (headers m h))"

definition idx_ok :: "kheap_mem \<Rightarrow> addr ordered_array_t \<Rightarrow> nat multiset \<Rightarrow> bool" where
  "idx_ok m idx N \<longleftrightarrow> wf_oa idx \<and> mset (elems idx) = image_mset of_nat N \<and>
     sorted (map (blk_nat m) (elems idx))"

definition hdr_eq :: "kheap_mem \<Rightarrow> kheap_mem \<Rightarrow> nat multiset \<Rightarrow> bool" where
  "hdr_eq m m' N \<longleftrightarrow> (\<forall>y\<in>#N. headers m' (of_nat y) = headers m (of_nat y))"

lemma length_elems: "wf_oa idx \<Longrightarrow> length (elems idx) = unat (oa_size idx)"
  using wf_oa_length [of idx] by (simp add: elems_def)

lemma idx_ok_size: "idx_ok m idx N \<Longrightarrow> unat (oa_size idx) = size N"
  unfolding idx_ok_def by (metis length_elems size_image_mset size_mset)

lemma idx_ok_set: "idx_ok m idx N \<Longrightarrow> set (elems idx) = of_nat ` set_mset N"
  unfolding idx_ok_def by (metis set_image_mset set_mset_mset)

lemma sorted_hdr_eq:
  assumes "hdr_eq m m' N" "set xs \<subseteq> of_nat ` set_mset N"
  shows "map (blk_nat m') xs = map (blk_nat m) xs"
  using assms by (force simp: hdr_eq_def)

lemma kheap_block_comparator_le: "(kheap_block_comparator m a b \<le> 0) = (blk_nat m a \<le> blk_nat m b)"
  by (auto simp: kheap_block_comparator_def Let_def word_less_nat_alt)

lemma idx_ok_mem: "\<lbrakk>idx_ok m idx N; hdr_eq m m' N\<rbrakk> \<Longrightarrow> idx_ok m' idx N"
  using sorted_hdr_eq [of m m' N "elems idx"] idx_ok_set [of m idx N]
  unfolding idx_ok_def by (metis order_refl)

lemma idx_ok_insert:
  assumes ok: "idx_ok m idx N" and h: "hdr_eq m m' N" and room: "size N < unat (oa_max_size idx)"
  shows "idx_ok m' (index_insert m' idx (of_nat x)) (add_mset x N)"
    and "oa_max_size (index_insert m' idx (of_nat x)) = oa_max_size idx"
proof -
  note ok' = idx_ok_mem [OF ok h]
  have "wf_oa idx" "oa_size idx < oa_max_size idx"
    using ok room idx_ok_size [OF ok] by (simp_all add: idx_ok_def word_less_nat_alt)
  from ordered_array_insert_elems [OF this, of "kheap_block_comparator m'" "of_nat x"]
  show "idx_ok m' (index_insert m' idx (of_nat x)) (add_mset x N)"
    and "oa_max_size (index_insert m' idx (of_nat x)) = oa_max_size idx"
    using ok' sorted_insert_after [of "kheap_block_comparator m'" "blk_nat m'" "elems idx" "of_nat x", OF kheap_block_comparator_le]
    by (auto simp: index_insert_def idx_ok_def mset_insert_after)
qed

lemma sorted_map_remove1: "sorted (map f xs) \<Longrightarrow> sorted (map f (remove1 x xs))"
proof (induction xs)
  case (Cons y xs)
  then show ?case using set_remove1_subset [of x xs] by auto
qed simp

lemma idx_ok_remove_element:
  assumes ok: "idx_ok m idx (add_mset x N)" and h: "hdr_eq m m' N"
  shows "\<exists>idx'. ordered_array_remove_element idx (of_nat x) = (True, idx') \<and> idx_ok m' idx' N \<and>
           oa_max_size idx' = oa_max_size idx"
proof -
  have wf: "wf_oa idx" using ok by (simp add: idx_ok_def)
  obtain idx' where r: "ordered_array_remove_element idx (of_nat x) = (of_nat x \<in> set (elems idx), idx')"
    "wf_oa idx'" "elems idx' = remove1 (of_nat x) (elems idx)" "oa_max_size idx' = oa_max_size idx"
    using ordered_array_remove_element_elems [OF wf, of "of_nat x"] by auto
  have "mset (elems idx') = image_mset of_nat N" using ok r(3) by (simp add: idx_ok_def)
  moreover have "sorted (map (blk_nat m) (elems idx'))"
    using ok r(3) by (simp add: idx_ok_def sorted_map_remove1)
  ultimately have "idx_ok m idx' N" using r by (simp add: idx_ok_def)
  then show ?thesis using r idx_ok_set [OF ok] idx_ok_mem [OF _ h] by simp
qed

lemma sorted_map_drop_nth: "sorted (map f xs) \<Longrightarrow> sorted (map f (take i xs @ drop (Suc i) xs))"
proof (induction xs arbitrary: i)
  case (Cons y xs)
  then show ?case by (cases i) (auto dest: in_set_takeD in_set_dropD)
qed simp

lemma idx_ok_remove:
  assumes ok: "idx_ok m idx (add_mset x N)" and i: "i < size (add_mset x N)" "elems idx ! i = of_nat x"
  shows "idx_ok m (ordered_array_remove idx (of_nat i)) N"
    and "oa_max_size (ordered_array_remove idx (of_nat i)) = oa_max_size idx"
proof -
  have wf: "wf_oa idx" and lt: "i < unat (oa_size idx)"
    using ok i idx_ok_size [OF ok] by (simp_all add: idx_ok_def)
  then have u: "unat (of_nat i :: u32) = i" "of_nat i < oa_size idx"
    by (simp_all add: unat_of_nat_less word_less_nat_alt)
  note r = ordered_array_remove_elems [OF wf u(2), unfolded u]
  have "mset (elems idx) = add_mset (of_nat x) (mset (take i (elems idx) @ drop (Suc i) (elems idx)))"
    using mset_without_nth [of i "elems idx"] lt i(2) length_elems [OF wf] by simp
  then have "mset (elems (ordered_array_remove idx (of_nat i))) = image_mset of_nat N"
    using ok r(1) by (simp add: idx_ok_def)
  then show "idx_ok m (ordered_array_remove idx (of_nat i)) N"
    using ok r by (simp add: idx_ok_def sorted_map_drop_nth del: map_append)
  show "oa_max_size (ordered_array_remove idx (of_nat i)) = oa_max_size idx"
    by (simp add: ordered_array_remove_def)
qed

lemma index_get_elems: "\<lbrakk>wf_oa idx; i < unat (oa_size idx)\<rbrakk> \<Longrightarrow> index_get idx i = elems idx ! i"
  by (simp add: index_get_def ordered_array_get_def elems_def unat_of_nat_less word_le_nat_alt)

section \<open>Allocation in a hole\<close>

lemma hdr_eq_make_block:
  assumes "x < 4294967296" "\<And>y. y \<in># N \<Longrightarrow> y < 4294967296 \<and> y \<noteq> x"
  shows "hdr_eq m (make_block m (of_nat x) (of_nat s) h) N"
  using assms by (auto simp: hdr_eq_def make_block_eq of_nat_addr_eq)

lemma hdr_eq_trans: "\<lbrakk>hdr_eq m m' N; hdr_eq m' m'' N\<rbrakk> \<Longrightarrow> hdr_eq m m'' N"
  by (simp add: hdr_eq_def)

lemma hdr_eq_refl [simp]: "hdr_eq m m N"
  by (simp add: hdr_eq_def)

definition carve :: "nat \<Rightarrow> nat \<Rightarrow> block list" where
  "carve s sz = (if s - sz \<le> 17 then [(s, False)] else [(sz, False), (s - sz - 17, True)])"

lemma extent_carve: "sz \<le> s \<Longrightarrow> extent (carve s sz) = s + 17"
  by (auto simp: carve_def)

lemma of_nat_u32_le: "\<lbrakk>x < 4294967296; y < 4294967296\<rbrakk> \<Longrightarrow> ((of_nat x :: u32) \<le> of_nat y) = (x \<le> y)"
  by (simp add: word_le_nat_alt unat_of_nat_small)

lemma of_nat_u32_less: "\<lbrakk>x < 4294967296; y < 4294967296\<rbrakk> \<Longrightarrow> ((of_nat x :: u32) < of_nat y) = (x < y)"
  by (simp add: word_less_nat_alt unat_of_nat_small)

lemma of_nat_u32_diff: "y \<le> x \<Longrightarrow> (of_nat x :: u32) - of_nat y = of_nat (x - y)"
  by simp

lemma kheap_consts_nat:
  "BLOCK_META_SIZE = of_nat 17" "BLOCK_HEADER_SIZE = of_nat 9" "BLOCK_FOOTER_SIZE = of_nat 8"
  "IS_HOLE = of_bool True" "NOT_HOLE = of_bool False" "PAGE_SIZE = of_nat 4096"
  by (simp_all add: kheap_consts)

lemma alloc_carve_eq:
  assumes "sz \<le> s" "x + s + 17 \<le> 4294967295"
  shows "alloc_carve m idx (of_nat s) (of_nat x) (of_nat sz) =
    (if s - sz \<le> 17 then Inr (make_block m (of_nat x) (of_nat s) (of_bool False), idx)
     else let m' = make_block (make_block m (of_nat x) (of_nat sz) (of_bool False))
                     (of_nat (x + sz + 17)) (of_nat (s - sz - 17)) (of_bool True)
          in Inr (m', index_insert m' idx (of_nat (x + sz + 17))))"
proof -
  have d: "(of_nat s :: u32) - of_nat sz = of_nat (s - sz)" using assms by simp
  have l: "(of_nat sz :: u32) \<le> of_nat s" "(of_nat (s - sz) \<le> (of_nat 17 :: u32)) = (s - sz \<le> 17)"
    "(of_nat 17 < (of_nat (s - sz) :: u32)) = (17 < s - sz)"
    using assms by (subst of_nat_u32_le of_nat_u32_less; simp)+
  have e: "(of_nat sz :: u32) + of_nat (s - sz) = of_nat s" using assms by (simp flip: of_nat_add)
  have n: "s - sz > 17 \<Longrightarrow> (of_nat (s - sz) :: u32) \<noteq> 0"
    using assms of_nat_addr_eq [of "s - sz" 0] by simp
  have r: "s - sz > 17 \<Longrightarrow> (of_nat (s - sz) :: u32) - of_nat 17 = of_nat (s - sz - 17)" by (simp only: of_nat_u32_diff)
  show ?thesis
    unfolding alloc_carve_def kheap_consts_nat d l Let_def
    using assms n r by (simp add: l e del: of_nat_numeral of_nat_diff of_bool_eq)
qed

lemma holes_mset_bounds:
  "y \<in># mset (holes a pre) + mset (holes b post) \<Longrightarrow>
     (a \<le> y \<and> y + 17 \<le> a + extent pre) \<or> (b \<le> y \<and> y + 17 \<le> b + extent post)"
  by (auto dest: holes_bounds)

lemma tiled_make_blockI:
  assumes "tiled m a bs" "a + extent bs \<le> x \<or> x + s + 17 \<le> a"
    and "a + extent bs \<le> 4294967295" "x + s + 17 \<le> 4294967295"
  shows "tiled (make_block m (of_nat x) (of_nat s) h) a bs"
  using assms tiled_make_block_other by blast

lemma tiled_two:
  "\<lbrakk>tiled m x [(s, h)]; tiled m (x + s + 17) [(s', h')]\<rbrakk> \<Longrightarrow> tiled m x [(s, h), (s', h')]"
  by simp

lemma tiled_around:
  "\<lbrakk>tiled m a pre; x = a + extent pre; tiled m x mid; tiled m (x + extent mid) post\<rbrakk> \<Longrightarrow>
     tiled m a (pre @ mid @ post)"
  by simp

lemma alloc_carve_spec:
  assumes t: "tiled m a pre" "tiled m (x + s + 17) post" and x: "x = a + extent pre"
    and b: "x + s + 17 + extent post \<le> 4294967295"
    and ok: "idx_ok m idx (mset (holes a pre) + mset (holes (x + s + 17) post))"
    and room: "size (mset (holes a pre) + mset (holes (x + s + 17) post)) < unat (oa_max_size idx)"
    and sz: "sz \<le> s"
  shows "\<exists>m' idx'. alloc_carve m idx (of_nat s) (of_nat x) (of_nat sz) = Inr (m', idx') \<and>
     tiled m' a (pre @ carve s sz @ post) \<and>
     idx_ok m' idx' (mset (holes a (pre @ carve s sz @ post))) \<and> oa_max_size idx' = oa_max_size idx"
proof (cases "s - sz \<le> 17")
  case True
  let ?m = "make_block m (of_nat x) (of_nat s) (of_bool False)"
  have "hdr_eq m ?m (mset (holes a pre) + mset (holes (x + s + 17) post))"
    using x b by (intro hdr_eq_make_block) (auto dest!: holes_bounds)
  with ok have "idx_ok ?m idx (mset (holes a pre) + mset (holes (x + s + 17) post))" by (rule idx_ok_mem)
  moreover have "tiled ?m a pre" using x b by (intro tiled_make_blockI [OF t(1)]) auto
  moreover have "tiled ?m (x + s + 17) post" using x b by (intro tiled_make_blockI [OF t(2)]) auto
  moreover note tiled_make_block [of m x s False]
  ultimately have "tiled ?m a (pre @ carve s sz @ post)" "idx_ok ?m idx (mset (holes a (pre @ carve s sz @ post)))"
    using True x by (simp_all add: carve_def)
  then show ?thesis
    using True b sz alloc_carve_eq [of sz s x m idx] by auto
next
  case False
  let ?m1 = "make_block m (of_nat x) (of_nat sz) (of_bool False)" and ?y = "x + sz + 17"
  let ?r = "s - sz - 17"
  let ?m = "make_block ?m1 (of_nat ?y) (of_nat ?r) (of_bool True)"
  let ?idx = "index_insert ?m idx (of_nat ?y)"
  let ?N = "mset (holes a pre) + mset (holes (x + s + 17) post)"
  have r: "?y + ?r + 17 = x + s + 17" using False by simp
  have h1: "hdr_eq m ?m1 ?N"
    using x b False by (intro hdr_eq_make_block) (auto dest!: holes_bounds)
  have h2: "hdr_eq ?m1 ?m ?N"
    using x b False by (intro hdr_eq_make_block) (auto dest!: holes_bounds)
  note i = idx_ok_insert [OF ok hdr_eq_trans [OF h1 h2] room, of ?y]
  have t1: "tiled ?m1 a pre" using x b False by (intro tiled_make_blockI [OF t(1)]) auto
  have t2: "tiled ?m1 (x + s + 17) post" using x b False by (intro tiled_make_blockI [OF t(2)]) auto
  have "tiled ?m a pre" using x b r by (intro tiled_make_blockI [OF t1]) auto
  moreover have "tiled ?m (x + s + 17) post" using x b r by (intro tiled_make_blockI [OF t2]) auto
  moreover have "tiled ?m x [(sz, False)]"
    using b r by (intro tiled_make_blockI tiled_make_block) auto
  then have "tiled ?m x (carve s sz)"
    unfolding carve_def if_not_P [OF False] by (rule tiled_two) (rule tiled_make_block)
  ultimately have "tiled ?m a (pre @ carve s sz @ post)"
    by (intro tiled_around [OF _ x]) (simp_all only: extent_carve [OF sz] add.assoc)
  moreover have "mset (holes a (pre @ carve s sz @ post)) = add_mset ?y ?N"
    using False x r by (simp add: carve_def algebra_simps)
  ultimately show ?thesis
    using False b sz i alloc_carve_eq [of sz s x m idx] by (auto simp: Let_def simp del: of_nat_add)
qed

definition front_gap :: "nat \<Rightarrow> block list" where
  "front_gap g = (if g = 0 then [] else [(g - 17, True)])"

lemma extent_front_gap: "g = 0 \<or> 17 < g \<Longrightarrow> extent (front_gap g) = g"
  by (auto simp: front_gap_def)

lemma alloc_front_eq:
  assumes "g = 0 \<or> 17 < g \<and> align" "g \<le> s" "x + s + 17 \<le> 4294967295"
  shows "alloc_front m idx align (of_nat x) (of_nat s) (of_nat (x + g + 9)) =
    (if g = 0 then Inr (m, idx, of_nat s, of_nat x)
     else let m' = make_block m (of_nat x) (of_nat (g - 17)) (of_bool True)
          in Inr (m', index_insert m' idx (of_nat x), of_nat (s - g), of_nat (x + g)))"
proof -
  have h: "(of_nat (x + g + 9) :: addr) - of_nat 9 = of_nat (x + g)" by simp
  have l: "((of_nat x :: addr) < of_nat (x + g)) = (0 < g)"
    using assms by (subst of_nat_u32_less) auto
  have d: "(of_nat (x + g) :: addr) - of_nat x = of_nat g" by simp
  have c: "17 < g \<Longrightarrow> (of_nat 17 :: u32) < of_nat g" using assms by (subst of_nat_u32_less) auto
  have s: "(of_nat s :: u32) - of_nat g = of_nat (s - g)" "17 < g \<Longrightarrow> (of_nat g :: u32) - of_nat 17 = of_nat (g - 17)"
    using assms by simp_all
  show ?thesis
    unfolding alloc_front_def kheap_consts_nat h l d s Let_def
    using assms c s(2) by (auto simp del: of_nat_numeral of_nat_diff of_bool_eq of_nat_add)
qed

lemma alloc_front_spec:
  assumes t: "tiled m a pre" "tiled m (x + s + 17) post" and x: "x = a + extent pre"
    and b: "x + s + 17 + extent post \<le> 4294967295"
    and ok: "idx_ok m idx (mset (holes a pre) + mset (holes (x + s + 17) post))"
    and room: "size (mset (holes a pre) + mset (holes (x + s + 17) post)) < unat (oa_max_size idx)"
    and g: "g = 0 \<or> 17 < g \<and> align" "g \<le> s"
  shows "\<exists>m' idx'. alloc_front m idx align (of_nat x) (of_nat s) (of_nat (x + g + 9)) =
       Inr (m', idx', of_nat (s - g), of_nat (x + g)) \<and>
     tiled m' a (pre @ front_gap g) \<and> tiled m' (x + s + 17) post \<and>
     idx_ok m' idx' (mset (holes a (pre @ front_gap g)) + mset (holes (x + s + 17) post)) \<and>
     oa_max_size idx' = oa_max_size idx"
proof (cases "g = 0")
  case True
  then show ?thesis using t ok b alloc_front_eq [OF g, of x m idx] by (auto simp: front_gap_def)
next
  case False
  then have g17: "17 < g" "align" using g by auto
  let ?m = "make_block m (of_nat x) (of_nat (g - 17)) (of_bool True)"
  let ?N = "mset (holes a pre) + mset (holes (x + s + 17) post)"
  have h: "hdr_eq m ?m ?N"
    using x b by (intro hdr_eq_make_block) (auto dest!: holes_bounds)
  note i = idx_ok_insert [OF ok h room, of x]
  have "tiled ?m a pre" using x b g g17 by (intro tiled_make_blockI [OF t(1)]) auto
  moreover have "tiled ?m (x + s + 17) post" using x b g g17 by (intro tiled_make_blockI [OF t(2)]) auto
  moreover note tiled_make_block [of m x "g - 17" True]
  ultimately have "tiled ?m a (pre @ front_gap g)" "tiled ?m (x + s + 17) post"
    using False by (simp_all only: front_gap_def tiled_append x [symmetric] if_False simp_thms)
  moreover have "mset (holes a (pre @ front_gap g)) + mset (holes (x + s + 17) post) = add_mset x ?N"
    using False x by (simp add: front_gap_def)
  ultimately show ?thesis
    using False b i alloc_front_eq [OF g, of x m idx] by (auto simp: Let_def simp del: of_nat_add)
qed

section \<open>The invariant\<close>

text \<open>
  A heap with the blocks \<open>bs\<close>: they tile the heap from its start to its end address, no two holes
  touch, and the index holds exactly the holes. \<open>pick\<close> is the state in which one block, at the
  position after \<open>pre\<close>, is in the index although its flag may say that it is allocated, as
  \<^verbatim>\<open>alloc\<close> leaves it when it extends a heap whose last block is allocated.
\<close>

definition kheap_inv :: "kheap_t \<Rightarrow> kheap_mem \<Rightarrow> block list \<Rightarrow> bool" where
  "kheap_inv this m bs \<longleftrightarrow>
     8 \<le> unat (start_address this) \<and>
     unat (end_address this) = unat (start_address this) + extent bs \<and>
     bs \<noteq> [] \<and> tiled m (unat (start_address this)) bs \<and> no_adj bs \<and>
     idx_ok m (kh_index this) (mset (holes (unat (start_address this)) bs))"

definition pick :: "kheap_t \<Rightarrow> kheap_mem \<Rightarrow> block list \<Rightarrow> nat \<Rightarrow> bool \<Rightarrow> block list \<Rightarrow> bool" where
  "pick this m pre s h post \<longleftrightarrow>
     8 \<le> unat (start_address this) \<and>
     unat (end_address this) = unat (start_address this) + extent (pre @ (s, h) # post) \<and>
     tiled m (unat (start_address this)) (pre @ (s, h) # post) \<and> no_adj (pre @ (s, True) # post) \<and>
     idx_ok m (kh_index this) (mset (holes (unat (start_address this)) (pre @ (s, True) # post)))"

lemma kheap_inv_pick: "kheap_inv this m (pre @ (s, True) # post) \<Longrightarrow> pick this m pre s True post"
  by (simp add: kheap_inv_def pick_def)

lemma no_adj_carve:
  assumes "no_adj (pre @ (s, True) # post)"
  shows "no_adj (pre @ front_gap g @ carve r sz @ post)"
  using assms by (cases post) (auto simp: front_gap_def carve_def)

definition same_bounds :: "kheap_t \<Rightarrow> kheap_t \<Rightarrow> bool" where
  "same_bounds this this' \<longleftrightarrow> start_address this' = start_address this \<and>
     end_address this' = end_address this \<and> kh_max_size this' = kh_max_size this \<and>
     oa_max_size (kh_index this') = oa_max_size (kh_index this)"


lemma alloc_in_hole_spec:
  assumes p: "pick this m pre s h post" and x: "x = unat (start_address this) + extent pre"
    and i: "i < unat (oa_size (kh_index this))" "elems (kh_index this) ! i = of_nat x"
    and g: "g = 0 \<or> 17 < g \<and> align" "g + sz \<le> s"
    and room: "g = 0 \<or> oa_size (kh_index this) < oa_max_size (kh_index this)"
  shows "\<exists>this' m'. alloc_in_hole this m (of_nat sz) align i (of_nat (x + g + 9)) =
       Inr (of_nat (x + g + 9), this', m') \<and>
     kheap_inv this' m' (pre @ front_gap g @ carve (s - g) sz @ post) \<and> same_bounds this this'"
proof -
  let ?a = "unat (start_address this)" and ?idx = "kh_index this"
  let ?N = "mset (holes ?a pre) + mset (holes (x + s + 17) post)"
  have t: "tiled m ?a pre" "tiled m (x + s + 17) post"
    and hd: "headers m (of_nat x) = \<lparr>magic = KHEAP_MAGIC, is_hole = of_bool h, blk_size = of_nat s\<rparr>"
    and ok: "idx_ok m ?idx (add_mset x ?N)"
    using p x by (auto simp: pick_def)
  have b: "x + s + 17 + extent post \<le> 4294967295"
    using p x unat_u32_less [of "end_address this"] by (auto simp: pick_def)
  have wf: "wf_oa ?idx" using ok by (simp add: idx_ok_def)
  have sN: "size (add_mset x ?N) = unat (oa_size ?idx)" using idx_ok_size [OF ok] by simp
  note r = idx_ok_remove [OF ok i(1) [folded sN] i(2)]
  have full: "unat (oa_size ?idx) \<le> unat (oa_max_size ?idx)" using wf by (simp add: wf_oa_def word_le_nat_alt)
  obtain m1 idx1 where f: "alloc_front m (ordered_array_remove ?idx (of_nat i)) align (of_nat x) (of_nat s) (of_nat (x + g + 9)) =
       Inr (m1, idx1, of_nat (s - g), of_nat (x + g))"
    "tiled m1 ?a (pre @ front_gap g)" "tiled m1 (x + s + 17) post"
    "idx_ok m1 idx1 (mset (holes ?a (pre @ front_gap g)) + mset (holes (x + s + 17) post))"
    "oa_max_size idx1 = oa_max_size ?idx"
    using alloc_front_spec [OF t x b r(1) _ g(1)] full sN g(2) r(2) by force
  have y: "x + g = ?a + extent (pre @ front_gap g)" "x + s + 17 = x + g + (s - g) + 17"
    using x g by (auto simp: front_gap_def)
  have sz1: "size (mset (holes ?a (pre @ front_gap g)) + mset (holes (x + s + 17) post)) =
      unat (oa_size ?idx) - (if g = 0 then 1 else 0)"
    using sN by (auto simp: front_gap_def)
  have rm: "size (mset (holes ?a (pre @ front_gap g)) + mset (holes (x + s + 17) post)) < unat (oa_max_size idx1)"
    unfolding sz1 f(5) using full i(1) room by (auto simp: word_less_nat_alt)
  obtain m2 idx2 where c: "alloc_carve m1 idx1 (of_nat (s - g)) (of_nat (x + g)) (of_nat sz) = Inr (m2, idx2)"
    "tiled m2 ?a ((pre @ front_gap g) @ carve (s - g) sz @ post)"
    "idx_ok m2 idx2 (mset (holes ?a ((pre @ front_gap g) @ carve (s - g) sz @ post)))"
    "oa_max_size idx2 = oa_max_size idx1"
    using alloc_carve_spec [OF f(2) f(3) [unfolded y(2)] y(1) _ f(4) [unfolded y(2)] rm [unfolded y(2)]] b g(2) y(2)
    by (metis add_le_imp_le_diff add.commute)
  let ?heap = "this\<lparr>kh_index := idx2\<rparr>"
  have e: "alloc_in_hole this m (of_nat sz) align i (of_nat (x + g + 9)) = Inr (of_nat (x + g + 9), ?heap, m2)"
    using f(1) c(1) index_get_elems [OF wf i(1)] i(2) hd by (simp add: alloc_in_hole_def Let_def del: of_nat_add of_nat_diff)
  have "extent (pre @ front_gap g @ carve (s - g) sz @ post) = extent (pre @ (s, h) # post)"
    using g by (auto simp: extent_carve extent_front_gap)
  moreover have "no_adj (pre @ front_gap g @ carve (s - g) sz @ post)"
    using p by (auto simp: pick_def simp del: no_adj_append intro: no_adj_carve)
  moreover have "carve (s - g) sz \<noteq> []" by (simp add: carve_def)
  ultimately have "kheap_inv ?heap m2 (pre @ front_gap g @ carve (s - g) sz @ post)"
    using p c(2,3) unfolding pick_def kheap_inv_def by simp
  moreover have "same_bounds this ?heap" using c(4) f(5) by (simp add: same_bounds_def)
  ultimately show ?thesis using e by blast
qed

section \<open>The search for a hole\<close>

lemma find_hole_from_eq:
  "find_hole_from idx m sz align i =
     map_option (\<lambda>k. (k, the (hole_fits m sz align (index_get idx k))))
       (List.find (\<lambda>k. hole_fits m sz align (index_get idx k) \<noteq> None) [i..<unat (oa_size idx)])"
proof (induction idx m sz align i rule: find_hole_from.induct)
  case (1 idx m sz align i)
  show ?case
  proof (cases "i < unat (oa_size idx)")
    case True
    then show ?thesis
      using 1 by (cases "hole_fits m sz align (index_get idx i)")
        (simp_all add: find_hole_from.simps [of idx m sz align i] upt_conv_Cons)
  next
    case False
    then show ?thesis by (simp add: find_hole_from.simps [of idx m sz align i])
  qed
qed

lemma kheap_find_hole_Some:
  assumes "kheap_find_hole this m sz align = Some (j, p)"
  shows "j < unat (oa_size (kh_index this))"
    and "hole_fits m sz align (index_get (kh_index this) j) = Some p"
    and "\<And>k. k < j \<Longrightarrow> hole_fits m sz align (index_get (kh_index this) k) = None"
  using assms by (auto simp: kheap_find_hole_def find_hole_from_eq find_upt_Some)

lemma kheap_find_hole_None:
  "kheap_find_hole this m sz align = None \<longleftrightarrow>
     (\<forall>k < unat (oa_size (kh_index this)). hole_fits m sz align (index_get (kh_index this) k) = None)"
  by (auto simp: kheap_find_hole_def find_hole_from_eq find_upt_None)

lemma align_mask: "(w :: u32) AND 0xfffff000 = push_bit 12 (drop_bit 12 w)"
proof -
  have "(0xfffff000 :: u32) = NOT (mask 12)" by (simp add: mask_eq_exp_minus_1)
  moreover have "w AND NOT (mask 12) = push_bit 12 (drop_bit 12 w)"
    by (rule bit_word_eqI) (auto simp: bit_simps)
  ultimately show ?thesis by simp
qed

lemma align_to_page_of_nat:
  assumes "n + 4095 < 4294967296"
  shows "align_to_page (of_nat n) = of_nat ((n + 4095) div 4096 * 4096)"
proof -
  have e: "(of_nat n :: u32) + 0xfff = of_nat (n + 4095)" by simp
  have "unat ((of_nat (n + 4095) :: u32) div 4096) = (n + 4095) div 4096"
    using assms unat_of_nat_small [of "n + 4095"] by (simp add: unat_div del: of_nat_add)
  then have d: "(of_nat (n + 4095) :: u32) div 4096 = of_nat ((n + 4095) div 4096)"
    by (metis of_nat_unat ucast_id)
  show ?thesis
    unfolding align_to_page_def align_mask e
    by (simp add: push_bit_eq_mult drop_bit_eq_div d del: of_nat_add)
qed

lemma tiled_blk_size:
  "\<lbrakk>tiled m a bs; map fst bs = map fst (pre @ (s, b) # post)\<rbrakk> \<Longrightarrow>
     blk_size (headers m (of_nat (a + extent pre))) = of_nat s"
proof (induction pre arbitrary: a bs)
  case Nil
  then show ?case by (cases bs) auto
next
  case (Cons c pre)
  obtain s1 h1 s2 h2 bs' where c: "c = (s1, h1)" "bs = (s2, h2) # bs'"
    using Cons.prems by (cases c; cases bs) auto
  with Cons.prems Cons.IH [of "a + s1 + 17" bs'] show ?case by (simp add: algebra_simps)
qed

lemma indexed_block:
  assumes t: "tiled m (unat (start_address this)) (pre @ (s, h) # post)"
    and ok: "idx_ok m (kh_index this) (mset (holes (unat (start_address this)) (pre @ (s, True) # post)))"
    and i: "i < unat (oa_size (kh_index this))"
  obtains pre' s' post' where "pre @ (s, True) # post = pre' @ (s', True) # post'"
    "index_get (kh_index this) i = of_nat (unat (start_address this) + extent pre')"
    "blk_size (headers m (index_get (kh_index this) i)) = of_nat s'"
proof -
  let ?a = "unat (start_address this)" and ?bs = "pre @ (s, True) # post"
  have wf: "wf_oa (kh_index this)" using ok by (simp add: idx_ok_def)
  have "index_get (kh_index this) i \<in> set (elems (kh_index this))"
    using i by (simp add: index_get_elems [OF wf] length_elems [OF wf])
  then obtain x where x: "x \<in> set (holes ?a ?bs)" "index_get (kh_index this) i = of_nat x"
    by (auto simp: idx_ok_set [OF ok] simp del: holes_append)
  from holes_split [OF x(1)] obtain pre' s' post' where
    p: "?bs = pre' @ (s', True) # post'" "x = ?a + extent pre'" by blast
  have "map fst (pre @ (s, h) # post) = map fst (pre' @ (s', True) # post')"
    using arg_cong [OF p(1), of "map fst"] by simp
  from tiled_blk_size [OF t this] p x(2) that show ?thesis by metis
qed

lemma hole_fits_plain:
  "hole_fits m sz False header =
     (if sz \<le> blk_size (headers m header) then Some (header + of_nat 9) else None)"
  by (simp add: hole_fits_def kheap_consts)

lemma block_sizes_bound:
  assumes "unat (end_address this) = unat (start_address this) + extent (pre @ (s, h) # post)"
  shows "s < 4294967296" "unat (start_address this) + extent pre + s + 17 \<le> 4294967295"
  using assms unat_u32_less [of "end_address this"] by auto

lemma of_nat_unat_u32: "of_nat (unat (w :: u32)) = w" by simp

text \<open>The index and the holes of a well-formed heap correspond.\<close>

lemma inv_indexed_block:
  assumes inv: "kheap_inv this m bs" and i: "i < unat (oa_size (kh_index this))"
  obtains pre s post where "bs = pre @ (s, True) # post"
    "index_get (kh_index this) i = of_nat (unat (start_address this) + extent pre)"
    "elems (kh_index this) ! i = of_nat (unat (start_address this) + extent pre)"
    "blk_size (headers m (of_nat (unat (start_address this) + extent pre))) = of_nat s"
    "unat (start_address this) + extent pre + s + 17 + extent post = unat (end_address this)"
proof -
  let ?a = "unat (start_address this)" and ?idx = "kh_index this"
  have ok: "idx_ok m ?idx (mset (holes ?a bs))" and wf: "wf_oa ?idx" and t: "tiled m ?a bs"
    and e: "unat (end_address this) = ?a + extent bs"
    using inv by (auto simp: kheap_inv_def idx_ok_def)
  have "index_get ?idx i \<in> set (elems ?idx)"
    using i by (simp add: index_get_elems [OF wf] length_elems [OF wf])
  then obtain x where x: "x \<in> set (holes ?a bs)" "index_get ?idx i = of_nat x"
    by (auto simp: idx_ok_set [OF ok])
  from holes_split [OF x(1)] obtain pre s post where p: "bs = pre @ (s, True) # post" "x = ?a + extent pre" .
  have "blk_size (headers m (of_nat (?a + extent pre))) = of_nat s"
    by (rule tiled_blk_size [OF t, where b = True]) (simp add: p(1))
  moreover have "?a + extent pre + s + 17 + extent post = unat (end_address this)" using e p(1) by simp
  moreover have "elems ?idx ! i = of_nat (?a + extent pre)" using x(2) p(2) index_get_elems [OF wf i] by metis
  ultimately show ?thesis using that p x(2) by metis
qed

lemma hole_indexed:
  assumes inv: "kheap_inv this m bs" and bs: "bs = pre @ (s, True) # post"
  obtains k where "k < unat (oa_size (kh_index this))"
    "index_get (kh_index this) k = of_nat (unat (start_address this) + extent pre)"
    "blk_size (headers m (of_nat (unat (start_address this) + extent pre))) = of_nat s"
proof -
  let ?a = "unat (start_address this)" and ?idx = "kh_index this"
  have ok: "idx_ok m ?idx (mset (holes ?a bs))" and wf: "wf_oa ?idx" and t: "tiled m ?a bs"
    using inv by (auto simp: kheap_inv_def idx_ok_def)
  have "of_nat (?a + extent pre) \<in> set (elems ?idx)"
    unfolding idx_ok_set [OF ok] using bs by (simp del: of_nat_add)
  then obtain k where "k < unat (oa_size ?idx)" "elems ?idx ! k = of_nat (?a + extent pre)"
    by (metis in_set_conv_nth length_elems wf)
  moreover have "blk_size (headers m (of_nat (?a + extent pre))) = of_nat s"
    by (rule tiled_blk_size [OF t]) (simp add: bs)
  ultimately show ?thesis using that index_get_elems [OF wf] by metis
qed

text \<open>A plain search in a well-formed heap: the first hole of the index that is large enough.\<close>

lemma kheap_find_hole_inv:
  assumes inv: "kheap_inv this m bs" and f: "kheap_find_hole this m (of_nat sz) False = Some (i, p)"
    and sz: "sz < 4294967296"
  obtains pre s post where "bs = pre @ (s, True) # post" "sz \<le> s"
    "p = of_nat (unat (start_address this) + extent pre + 0 + 9)"
    "i < unat (oa_size (kh_index this))"
    "elems (kh_index this) ! i = of_nat (unat (start_address this) + extent pre)"
proof -
  note f' = kheap_find_hole_Some [OF f]
  obtain pre s post where b: "bs = pre @ (s, True) # post"
    "index_get (kh_index this) i = of_nat (unat (start_address this) + extent pre)"
    "elems (kh_index this) ! i = of_nat (unat (start_address this) + extent pre)"
    "blk_size (headers m (of_nat (unat (start_address this) + extent pre))) = of_nat s"
    "unat (start_address this) + extent pre + s + 17 + extent post = unat (end_address this)"
    by (rule inv_indexed_block [OF inv f'(1)])
  have "s < 4294967296" using b(5) unat_u32_less [of "end_address this"] by simp
  then have "sz \<le> s" "p = of_nat (unat (start_address this) + extent pre + 0 + 9)"
    using f'(2) b(2,4) sz by (auto simp: hole_fits_plain of_nat_u32_le split: if_splits)
  then show ?thesis using that b f'(1) by metis
qed

section \<open>Growth\<close>

definition grow_size :: "nat \<Rightarrow> nat" where
  "grow_size sz = (sz + 17 + 4095) div 4096 * 4096"

lemma grow_size_bounds: "sz + 17 \<le> grow_size sz" "grow_size sz \<le> sz + 4112" "0 < grow_size sz"
  by (auto simp: grow_size_def)

lemma kheap_expand_eq:
  assumes "unat (end_address this) + grow_size sz \<le> unat (kh_max_size this)" "sz + 4112 < 4294967296"
  shows "kheap_expand this (of_nat sz + BLOCK_META_SIZE) =
    Inr (of_nat (grow_size sz), this\<lparr>end_address := of_nat (unat (end_address this) + grow_size sz),
           kh_size := kh_size this + of_nat (grow_size sz)\<rparr>)"
proof -
  have "align_to_page (of_nat sz + BLOCK_META_SIZE) = of_nat (grow_size sz)"
    using align_to_page_of_nat [of "sz + 17"] assms(2) by (simp add: kheap_consts_nat grow_size_def)
  moreover have "end_address this + of_nat (grow_size sz) = of_nat (unat (end_address this) + grow_size sz)"
    by simp
  moreover have "of_nat (unat (end_address this) + grow_size sz) \<le> kh_max_size this"
    using assms(1) by (simp add: word_le_nat_alt unat_of_nat_le del: of_nat_add)
  ultimately show ?thesis by (simp add: kheap_expand_def Let_def del: of_nat_add)
qed

definition grown :: "block list \<Rightarrow> nat \<Rightarrow> block list \<Rightarrow> nat \<Rightarrow> bool \<Rightarrow> bool" where
  "grown bs sz pre s h \<longleftrightarrow>
     (\<exists>s0. bs = pre @ [(s0, True)] \<and> s = s0 + grow_size sz \<and> h) \<or>
     pre = bs \<and> s = grow_size sz - 17 \<and> \<not> h"

text \<open>The last block of a heap, read through the footer in front of the end address.\<close>

lemma last_block_read:
  assumes "kheap_inv this m (pre @ [(s, h)])" and x: "x = unat (start_address this) + extent pre"
  shows "ft_header (footers m (end_address this - BLOCK_FOOTER_SIZE)) = of_nat x"
    and "headers m (of_nat x) = \<lparr>magic = KHEAP_MAGIC, is_hole = of_bool h, blk_size = of_nat s\<rparr>"
    and "unat (end_address this) = x + s + 17"
proof -
  show e: "unat (end_address this) = x + s + 17" using assms by (simp add: kheap_inv_def)
  then have "end_address this = of_nat (x + s + 17)" by (metis of_nat_unat_u32)
  then have "end_address this - BLOCK_FOOTER_SIZE = of_nat (x + 9 + s)" by (simp add: kheap_consts)
  then show "ft_header (footers m (end_address this - BLOCK_FOOTER_SIZE)) = of_nat x"
    using assms by (simp add: kheap_inv_def)
  show "headers m (of_nat x) = \<lparr>magic = KHEAP_MAGIC, is_hole = of_bool h, blk_size = of_nat s\<rparr>"
    using assms by (simp add: kheap_inv_def)
qed

definition grown_bounds :: "kheap_t \<Rightarrow> nat \<Rightarrow> kheap_t \<Rightarrow> bool" where
  "grown_bounds this e this' \<longleftrightarrow> start_address this' = start_address this \<and>
     unat (end_address this') = unat (end_address this) + e \<and> kh_max_size this' = kh_max_size this \<and>
     oa_max_size (kh_index this') = oa_max_size (kh_index this)"

lemma alloc_grow_hole:
  assumes inv: "kheap_inv this m (pre @ [(s, True)])"
    and mx: "unat (end_address this) + grow_size sz \<le> unat (kh_max_size this)" "sz + 4112 < 4294967296"
  shows "\<exists>this' m'. alloc_grow this m (of_nat sz) = Inr (this', m') \<and>
     pick this' m' pre (s + grow_size sz) True [] \<and> grown_bounds this (grow_size sz) this'"
proof -
  let ?a = "unat (start_address this)"
  define x where x: "x = ?a + extent pre"
  note l = last_block_read [OF inv x]
  have b: "x + s + 17 + grow_size sz \<le> 4294967295"
    using l(3) mx unat_u32_less [of "kh_max_size this"] by simp
  let ?s = "s + grow_size sz"
  let ?m = "make_block m (of_nat x) (of_nat ?s) (of_bool True)"
  let ?N = "mset (holes ?a pre)"
  have ok: "idx_ok m (kh_index this) (add_mset x ?N)" using inv x by (simp add: kheap_inv_def)
  have h: "hdr_eq m ?m ?N"
    using x b by (intro hdr_eq_make_block) (auto dest!: holes_bounds)
  obtain idx where r: "ordered_array_remove_element (kh_index this) (of_nat x) = (True, idx)"
    "idx_ok ?m idx ?N" "oa_max_size idx = oa_max_size (kh_index this)"
    using idx_ok_remove_element [OF ok h] by blast
  have "size ?N < unat (oa_max_size idx)"
    using idx_ok_size [OF ok] ok r(3) by (simp add: idx_ok_def wf_oa_def word_le_nat_alt)
  note i = idx_ok_insert [OF r(2) hdr_eq_refl this, of x]
  have "tiled ?m ?a pre"
    using inv x b by (intro tiled_make_blockI) (auto simp: kheap_inv_def)
  with tiled_make_block [of m x ?s True] have t: "tiled ?m ?a (pre @ [(?s, True)])"
    by (simp only: tiled_append x [symmetric] simp_thms)
  have s: "(of_nat s :: u32) + of_nat (grow_size sz) = of_nat ?s" by simp
  have u: "unat (of_nat (unat (end_address this) + grow_size sz) :: u32) = unat (end_address this) + grow_size sz"
    using b l(3) by (simp add: unat_of_nat_small del: of_nat_add)
  let ?heap = "this\<lparr>end_address := of_nat (unat (end_address this) + grow_size sz),
     kh_size := kh_size this + of_nat (grow_size sz), kh_index := index_insert ?m idx (of_nat x)\<rparr>"
  have "alloc_grow this m (of_nat sz) = Inr (?heap, ?m)"
    using r(1) by (simp add: alloc_grow_def kheap_expand_eq [OF mx] Let_def l(1,2) s kheap_consts_nat(4) del: of_nat_add)
  moreover have "pick ?heap ?m pre ?s True []"
    using t i inv u l(3) x by (auto simp: pick_def kheap_inv_def simp del: of_nat_add tiled_append)
  moreover have "grown_bounds this (grow_size sz) ?heap"
    using i(2) r(3) u by (simp add: grown_bounds_def del: of_nat_add)
  ultimately show ?thesis by blast
qed

lemma alloc_grow_block:
  assumes inv: "kheap_inv this m bs" and l: "bs = pre @ [(s, False)]"
    and mx: "unat (end_address this) + grow_size sz \<le> unat (kh_max_size this)" "sz + 4112 < 4294967296"
    and room: "oa_size (kh_index this) < oa_max_size (kh_index this)"
  shows "\<exists>this' m'. alloc_grow this m (of_nat sz) = Inr (this', m') \<and>
     pick this' m' bs (grow_size sz - 17) False [] \<and> grown_bounds this (grow_size sz) this'"
proof -
  let ?a = "unat (start_address this)"
  note l' = last_block_read [OF inv [unfolded l] refl]
  define x where x: "x = unat (end_address this)"
  have xe: "x = ?a + extent bs" using inv x by (simp add: kheap_inv_def)
  have xe2: "end_address this = of_nat x" unfolding x by simp
  let ?s = "grow_size sz - 17"
  have g: "?s + 17 = grow_size sz" using grow_size_bounds(1) [of sz] by simp
  have b: "x + ?s + 17 \<le> 4294967295"
    using g x mx unat_u32_less [of "kh_max_size this"] by linarith
  let ?m = "make_block m (of_nat x) (of_nat ?s) (of_bool False)"
  let ?N = "mset (holes ?a bs)"
  have ok: "idx_ok m (kh_index this) ?N" and t0: "tiled m ?a bs" using inv by (simp_all add: kheap_inv_def)
  have h: "hdr_eq m ?m ?N"
    using xe b by (intro hdr_eq_make_block) (auto dest!: holes_bounds)
  have "size ?N < unat (oa_max_size (kh_index this))"
    using idx_ok_size [OF ok] room by (simp add: word_less_nat_alt)
  note i = idx_ok_insert [OF ok h this, of x]
  have "tiled ?m ?a bs" using xe b by (intro tiled_make_blockI [OF t0]) auto
  with tiled_make_block [of m x ?s False] have t: "tiled ?m ?a (bs @ [(?s, False)])"
    by (simp only: tiled_append xe [symmetric] simp_thms)
  have s: "(of_nat (grow_size sz) :: u32) - BLOCK_META_SIZE = of_nat ?s"
    using g by (simp add: kheap_consts_nat)
  have u: "unat (of_nat (x + grow_size sz) :: u32) = x + grow_size sz"
    using b g by (simp add: unat_of_nat_small del: of_nat_add)
  let ?heap = "this\<lparr>end_address := of_nat (x + grow_size sz),
     kh_size := kh_size this + of_nat (grow_size sz), kh_index := index_insert ?m (kh_index this) (of_nat x)\<rparr>"
  have ke: "kheap_expand this (of_nat sz + BLOCK_META_SIZE) = Inr (of_nat (grow_size sz),
      this\<lparr>end_address := of_nat (x + grow_size sz), kh_size := kh_size this + of_nat (grow_size sz)\<rparr>)"
    using kheap_expand_eq [OF mx] by (simp only: x)
  have lf: "ft_header (footers m (of_nat x - BLOCK_FOOTER_SIZE)) = of_nat (?a + extent pre)"
    using l'(1) by (simp only: xe2)
  have "alloc_grow this m (of_nat sz) = Inr (?heap, ?m)"
    by (simp add: alloc_grow_def ke Let_def lf l'(2) s xe2 kheap_consts_nat(5) del: of_nat_add)
  moreover have "no_adj (bs @ [(?s, True)])" using inv l by (auto simp: kheap_inv_def)
  then have "pick ?heap ?m bs ?s False []"
    using t i inv u xe g by (auto simp: pick_def kheap_inv_def simp del: of_nat_add tiled_append no_adj_append of_nat_diff)
  moreover have "grown_bounds this (grow_size sz) ?heap"
    using i(2) u x by (simp add: grown_bounds_def del: of_nat_add)
  ultimately show ?thesis by blast
qed

lemma alloc_grow_spec:
  assumes inv: "kheap_inv this m bs"
    and mx: "unat (end_address this) + grow_size sz \<le> unat (kh_max_size this)" "sz + 4112 < 4294967296"
    and room: "oa_size (kh_index this) < oa_max_size (kh_index this)"
  shows "\<exists>this' m' pre s h. alloc_grow this m (of_nat sz) = Inr (this', m') \<and> grown bs sz pre s h \<and>
     pick this' m' pre s h [] \<and> grown_bounds this (grow_size sz) this'"
proof -
  have "bs \<noteq> []" using inv by (simp add: kheap_inv_def)
  then obtain pre s h where bs: "bs = pre @ [(s, h)]" by (cases bs rule: rev_cases) auto
  show ?thesis
  proof (cases h)
    case True
    with inv bs have "kheap_inv this m (pre @ [(s, True)])" by simp
    from alloc_grow_hole [OF this mx] True bs show ?thesis unfolding grown_def by (metis (full_types))
  next
    case False
    with alloc_grow_block [OF inv _ mx room, of pre s] bs show ?thesis unfolding grown_def by blast
  qed
qed

text \<open>When no hole of the heap is large enough, the search after the growth finds the new space.\<close>

lemma no_fit_sizes:
  assumes inv: "kheap_inv this m bs" and none: "kheap_find_hole this m (of_nat sz) False = None"
    and bs: "bs = pre @ (s, True) # post" and sz: "sz < 4294967296"
  shows "s < sz"
proof -
  obtain k where "k < unat (oa_size (kh_index this))"
    "index_get (kh_index this) k = of_nat (unat (start_address this) + extent pre)"
    "blk_size (headers m (of_nat (unat (start_address this) + extent pre))) = of_nat s"
    by (rule hole_indexed [OF inv bs])
  then have "\<not> (of_nat sz :: u32) \<le> of_nat s"
    using none by (auto simp: kheap_find_hole_None hole_fits_plain split: if_splits)
  moreover have "s < 4294967296"
    using inv bs block_sizes_bound(1) [of this pre s True post] by (simp add: kheap_inv_def)
  ultimately show ?thesis using sz by (simp add: of_nat_u32_le)
qed

lemma grown_prefix: "\<lbrakk>grown bs sz pre s h; pre = u @ v\<rbrakk> \<Longrightarrow> \<exists>w. bs = u @ v @ w"
  by (auto simp: grown_def)

lemma find_after_grow:
  assumes inv: "kheap_inv this m bs" and none: "kheap_find_hole this m (of_nat sz) False = None"
    and g: "grown bs sz pre s h" and p: "pick this' m' pre s h []" and sz: "sz < 4294967296"
  shows "\<exists>i < unat (oa_size (kh_index this')).
     kheap_find_hole this' m' (of_nat sz) False = Some (i, of_nat (unat (start_address this') + extent pre + 0 + 9)) \<and>
     elems (kh_index this') ! i = of_nat (unat (start_address this') + extent pre)"
proof -
  let ?a = "unat (start_address this')" and ?idx = "kh_index this'"
  have ok: "idx_ok m' ?idx (mset (holes ?a (pre @ [(s, True)])))" and wf: "wf_oa ?idx"
    and t: "tiled m' ?a (pre @ [(s, h)])" and e: "unat (end_address this') = ?a + extent (pre @ [(s, h)])"
    using p by (auto simp: pick_def idx_ok_def)
  have s: "sz \<le> s" "s < 4294967296"
    using g grow_size_bounds(1) [of sz] block_sizes_bound(1) [of this' pre s h "[]"] e by (auto simp: grown_def)
  have "of_nat (?a + extent pre) \<in> set (elems ?idx)"
    unfolding idx_ok_set [OF ok] by (simp del: of_nat_add)
  then obtain k where k: "k < unat (oa_size ?idx)" "elems ?idx ! k = of_nat (?a + extent pre)"
    by (metis in_set_conv_nth length_elems wf)
  have "blk_size (headers m' (of_nat (?a + extent pre))) = of_nat s"
    by (rule tiled_blk_size [OF t, where b = h and post = "[]"]) simp
  then have "kheap_find_hole this' m' (of_nat sz) False \<noteq> None"
    using k s sz by (auto simp: kheap_find_hole_None hole_fits_plain index_get_elems [OF wf] of_nat_u32_le simp del: of_nat_add)
  then obtain i q where f: "kheap_find_hole this' m' (of_nat sz) False = Some (i, q)" by auto
  note f' = kheap_find_hole_Some [OF f]
  from indexed_block [OF t ok f'(1)] obtain pre' s' post' where
    b: "pre @ [(s, True)] = pre' @ (s', True) # post'" "index_get ?idx i = of_nat (?a + extent pre')"
    "blk_size (headers m' (index_get ?idx i)) = of_nat s'" by metis
  have "extent (pre @ [(s, h)]) = extent (pre' @ (s', True) # post')" by (subst b(1) [symmetric]) simp
  then have "s' < 4294967296" using e block_sizes_bound(1) [of this' pre' s' True post'] by simp
  then have q: "sz \<le> s'" "q = of_nat (?a + extent pre' + 0 + 9)"
    using f'(2) b(2,3) sz by (auto simp: hole_fits_plain of_nat_u32_le split: if_splits)
  have "post' = []"
  proof (rule ccontr)
    assume "post' \<noteq> []"
    then have "pre = pre' @ (s', True) # butlast post'"
      using arg_cong [OF b(1), of butlast] by (simp add: butlast_append)
    from grown_prefix [OF g this] obtain w where "bs = pre' @ (s', True) # (butlast post' @ w)" by auto
    from no_fit_sizes [OF inv none this sz] q(1) show False by simp
  qed
  with b(1) have "pre' = pre" by simp
  then have "elems ?idx ! i = of_nat (?a + extent pre)" "q = of_nat (?a + extent pre + 0 + 9)"
    using q(2) b(2) index_get_elems [OF wf f'(1)] by (simp_all only:)
  with f f'(1) show ?thesis by blast
qed

section \<open>A plain allocation\<close>

lemma live_carve:
  assumes "sz \<le> s" "x = a + extent pre" "w = x + s + 17"
  shows "mset (live a (pre @ carve s sz @ post)) =
    add_mset (x + 9, if s - sz \<le> 17 then s else sz) (mset (live a pre) + mset (live w post))"
proof -
  have e: "extent (pre @ carve s sz) = extent pre + s + 17" using assms by (simp add: extent_carve)
  have "live a ((pre @ carve s sz) @ post) = live a pre @ live x (carve s sz) @ live w post"
    unfolding live_append e using assms(2,3) by (simp add: add.assoc)
  then show ?thesis using assms(1) by (simp add: carve_def)
qed

lemma live_bs:
  assumes "x = a + extent pre" "w = x + s + 17"
  shows "mset (live a (pre @ (s, True) # post)) = mset (live a pre) + mset (live w post)"
  using assms by simp

lemma grown_live:
  assumes "grown bs sz pre s h"
  shows "mset (live a bs) = mset (live a pre)" and "sz \<le> s"
  using assms grow_size_bounds(1) [of sz] by (auto simp: grown_def)

text \<open>A hole that is large enough: the block is carved out of it and the bounds stay.\<close>

lemma alloc_plain_found:
  assumes inv: "kheap_inv this m bs" and sz: "sz < 4294967296"
    and f: "kheap_find_hole this m (of_nat sz) False = Some (i, q)"
  shows "\<exists>this' m' pre s post. bs = pre @ (s, True) # post \<and> sz \<le> s \<and>
     elems (kh_index this) ! i = of_nat (unat (start_address this) + extent pre) \<and>
     alloc this m (of_nat sz) False =
       Some (Inr (of_nat (unat (start_address this) + extent pre + 9), this', m')) \<and>
     kheap_inv this' m' (pre @ carve s sz @ post) \<and> same_bounds this this'"
proof -
  from kheap_find_hole_inv [OF inv f sz] obtain pre s post where
    b: "bs = pre @ (s, True) # post" "sz \<le> s" "q = of_nat (unat (start_address this) + extent pre + 0 + 9)"
    "i < unat (oa_size (kh_index this))" "elems (kh_index this) ! i = of_nat (unat (start_address this) + extent pre)"
    by metis
  from alloc_in_hole_spec [OF kheap_inv_pick [OF inv [unfolded b(1)]] refl b(4,5), of 0 False sz] b(2)
  obtain this' m' where "alloc_in_hole this m (of_nat sz) False i q = Inr (q, this', m')"
     "kheap_inv this' m' (pre @ carve s sz @ post)" "same_bounds this this'"
    unfolding b(3) by (auto simp: front_gap_def)
  moreover from this(1) have "alloc this m (of_nat sz) False = Some (Inr (q, this', m'))"
    using f by (simp add: alloc.simps [of this])
  ultimately show ?thesis using b(1,2,3,5) by (metis add_0_right)
qed

lemma alloc_plain_grow:
  assumes inv: "kheap_inv this m bs" and sz: "sz + 4112 < 4294967296"
    and none: "kheap_find_hole this m (of_nat sz) False = None"
    and mx: "unat (end_address this) + grow_size sz \<le> unat (kh_max_size this)"
    and room: "oa_size (kh_index this) < oa_max_size (kh_index this)"
  shows "\<exists>this' m' pre s h. grown bs sz pre s h \<and>
     alloc this m (of_nat sz) False =
       Some (Inr (of_nat (unat (start_address this) + extent pre + 9), this', m')) \<and>
     kheap_inv this' m' (pre @ carve s sz) \<and> grown_bounds this (grow_size sz) this'"
proof -
  from alloc_grow_spec [OF inv mx sz room] obtain this1 m1 pre s h where
    g: "alloc_grow this m (of_nat sz) = Inr (this1, m1)" "grown bs sz pre s h" "pick this1 m1 pre s h []"
    "grown_bounds this (grow_size sz) this1" by metis
  from find_after_grow [OF inv none g(2,3)] sz obtain i where
    i: "i < unat (oa_size (kh_index this1))"
    "kheap_find_hole this1 m1 (of_nat sz) False = Some (i, of_nat (unat (start_address this1) + extent pre + 0 + 9))"
    "elems (kh_index this1) ! i = of_nat (unat (start_address this1) + extent pre)"
    by auto
  from alloc_in_hole_spec [OF g(3) refl i(1,3), of 0 False sz] grown_live(2) [OF g(2)]
  obtain this' m' where a: "alloc_in_hole this1 m1 (of_nat sz) False i (of_nat (unat (start_address this1) + extent pre + 0 + 9)) =
       Inr (of_nat (unat (start_address this1) + extent pre + 0 + 9), this', m')"
     "kheap_inv this' m' (pre @ carve s sz)" "same_bounds this1 this'"
    by (auto simp: front_gap_def)
  have "alloc this m (of_nat sz) False = Some (Inr (of_nat (unat (start_address this1) + extent pre + 0 + 9), this', m'))"
    using none g(1) i(2) a(1) by (simp add: alloc.simps [of this] alloc.simps [of this1] del: of_nat_add)
  moreover have "grown_bounds this (grow_size sz) this'" "start_address this1 = start_address this"
    using a(3) g(4) by (simp_all add: grown_bounds_def same_bounds_def)
  ultimately show ?thesis using a(2) g(2) by (metis add_0_right)
qed

definition can_grow :: "kheap_t \<Rightarrow> nat \<Rightarrow> bool" where
  "can_grow this sz \<longleftrightarrow> sz + 4112 < 4294967296 \<and>
     unat (end_address this) + grow_size sz \<le> unat (kh_max_size this) \<and>
     oa_size (kh_index this) < oa_max_size (kh_index this)"

lemma alloc_plain:
  assumes inv: "kheap_inv this m bs" and gr: "can_grow this sz"
  shows "\<exists>this' m' bs' p s. alloc this m (of_nat sz) False = Some (Inr (of_nat p, this', m')) \<and>
     kheap_inv this' m' bs' \<and> start_address this' = start_address this \<and> sz \<le> s \<and>
     mset (live (unat (start_address this)) bs') = add_mset (p, s) (mset (live (unat (start_address this)) bs))"
proof (cases "kheap_find_hole this m (of_nat sz) False")
  case None
  from gr have s: "sz + 4112 < 4294967296"
    and mx: "unat (end_address this) + grow_size sz \<le> unat (kh_max_size this)"
    and room: "oa_size (kh_index this) < oa_max_size (kh_index this)"
    by (auto simp: can_grow_def)
  from alloc_plain_grow [OF inv s None mx room] obtain this' m' pre s h where
    r: "grown bs sz pre s h" "alloc this m (of_nat sz) False =
       Some (Inr (of_nat (unat (start_address this) + extent pre + 9), this', m'))"
     "kheap_inv this' m' (pre @ carve s sz)" "grown_bounds this (grow_size sz) this'" by metis
  have "start_address this' = start_address this" "sz \<le> s"
    using r(1,4) by (simp_all add: grown_bounds_def grown_live)
  with r(2,3) live_carve [of sz s _ "unat (start_address this)" pre _ "[]", OF _ refl refl] grown_live [OF r(1)] show ?thesis
    by (intro exI [of _ this'] exI [of _ m'] exI [of _ "pre @ carve s sz"]
        exI [of _ "unat (start_address this) + extent pre + 9"] exI [of _ "if s - sz \<le> 17 then s else sz"]) simp
next
  case (Some r)
  obtain i q where r: "r = (i, q)" by (cases r)
  have "sz < 4294967296" using gr by (simp add: can_grow_def)
  from alloc_plain_found [OF inv this Some [unfolded r]] obtain this' m' pre s post where
    r: "bs = pre @ (s, True) # post" "sz \<le> s" "alloc this m (of_nat sz) False =
       Some (Inr (of_nat (unat (start_address this) + extent pre + 9), this', m'))"
     "kheap_inv this' m' (pre @ carve s sz @ post)" "same_bounds this this'" by metis
  with live_carve [OF r(2) refl refl] live_bs [OF refl refl] show ?thesis
    by (intro exI [of _ this'] exI [of _ m'] exI [of _ "pre @ carve s sz @ post"]
        exI [of _ "unat (start_address this) + extent pre + 9"] exI [of _ "if s - sz \<le> 17 then s else sz"])
       (simp add: same_bounds_def)
qed

section \<open>Freeing a block\<close>

fun absorb_next :: "nat \<Rightarrow> block list \<Rightarrow> nat \<times> block list" where
  "absorb_next s ((s', True) # post) = (s + s' + 17, post)"
| "absorb_next s post = (s, post)"

definition absorb_prev :: "block list \<Rightarrow> nat \<Rightarrow> block list \<times> nat" where
  "absorb_prev pre s =
     (if pre \<noteq> [] \<and> snd (last pre) then (butlast pre, fst (last pre) + s + 17) else (pre, s))"

lemma make_block_flag:
  assumes "tiled m x [(s, h)]"
  shows "m\<lparr>headers := (headers m)(of_nat x := (headers m (of_nat x))\<lparr>is_hole := 1\<rparr>)\<rparr> =
    make_block m (of_nat x) (of_nat s) (of_bool True)"
  using assms by (auto simp: make_block_eq fun_upd_idem)

lemma free_merge_next_spec:
  assumes t: "tiled m a (pre @ (s, True) # post)" and x: "x = a + extent pre"
    and e: "unat (end_address this) = x + s + 17 + extent post"
    and ok: "idx_ok m (kh_index this) (mset (holes a pre) + mset (holes (x + s + 17) post))"
    and ab: "absorb_next s post = (s', post')"
  shows "\<exists>m' idx'. free_merge_next this m (of_nat x) (of_nat (x + s + 9)) = Inr (m', idx') \<and>
    tiled m' a (pre @ (s', True) # post') \<and>
    idx_ok m' idx' (mset (holes a pre) + mset (holes (x + s' + 17) post')) \<and>
    oa_max_size idx' = oa_max_size (kh_index this)"
proof -
  have b: "x + s + 17 + extent post \<le> 4294967295" using e unat_u32_less [of "end_address this"] by simp
  have n: "(of_nat (x + s + 9) :: addr) + BLOCK_FOOTER_SIZE = of_nat (x + s + 17)" by (simp add: kheap_consts)
  have lt: "(of_nat (x + s + 17) < end_address this) = (post \<noteq> [])"
    using e b by (cases post) (auto simp: word_less_nat_alt unat_of_nat_small simp del: of_nat_add)
  show ?thesis
  proof (cases "\<exists>s2 post2. post = (s2, True) # post2")
    case True
    then obtain s2 where p: "post = (s2, True) # post'" and s': "s' = s + s2 + 17" using ab by auto
    let ?m = "make_block m (of_nat x) (of_nat s') (of_bool True)"
    let ?N = "mset (holes a pre) + mset (holes (x + s' + 17) post')"
    have h: "hdr_eq m ?m ?N"
      using x b p s' by (intro hdr_eq_make_block) (auto dest!: holes_bounds)
    have "idx_ok m (kh_index this) (add_mset (x + s + 17) ?N)"
      using ok p s' by (simp add: algebra_simps)
    from idx_ok_remove_element [OF this h] obtain idx' where
      r: "ordered_array_remove_element (kh_index this) (of_nat (x + s + 17)) = (True, idx')"
      "idx_ok ?m idx' ?N" "oa_max_size idx' = oa_max_size (kh_index this)" by blast
    have t': "tiled m a pre" "tiled m (x + s' + 17) post'"
      and hd: "headers m (of_nat x) = \<lparr>magic = KHEAP_MAGIC, is_hole = 1, blk_size = of_nat s\<rparr>"
        "headers m (of_nat (x + s + 17)) = \<lparr>magic = KHEAP_MAGIC, is_hole = 1, blk_size = of_nat s2\<rparr>"
      using t x p s' by (simp_all add: algebra_simps)
    have "tiled ?m a pre" using x b p s' by (intro tiled_make_blockI [OF t'(1)]) auto
    moreover have "tiled ?m (x + s' + 17) post'" using x b p s' by (intro tiled_make_blockI [OF t'(2)]) auto
    moreover note tiled_make_block [of m x s' True]
    ultimately have "tiled ?m a (pre @ [(s', True)] @ post')"
      by (intro tiled_around [OF _ x]) (simp_all only: extent.simps add_0_right add.assoc)
    moreover have "(of_nat s :: u32) + of_nat s2 + of_nat 17 = of_nat s'" using s' by simp
    ultimately show ?thesis
      using r lt p hd by (simp add: free_merge_next_def n Let_def kheap_consts_nat(1,4) del: of_nat_add of_nat_numeral)
  next
    case False
    then have ab': "s' = s" "post' = post" using ab by (cases "(s, post)" rule: absorb_next.cases; auto)+
    have "post \<noteq> [] \<Longrightarrow> is_hole (headers m (of_nat (x + s + 17))) \<noteq> 1"
      using t x False by (cases post) (auto simp: algebra_simps)
    then show ?thesis using t ok ab' lt by (auto simp: free_merge_next_def n Let_def simp del: of_nat_add)
  qed
qed

lemma free_merge_prev_spec:
  assumes t: "tiled m a (pre @ (s, True) # post)" and x: "x = a + extent pre"
    and a: "a = unat (start_address this)" "8 \<le> a"
    and b: "x + s + 17 + extent post \<le> 4294967295"
    and ok: "idx_ok m idx (mset (holes a pre) + mset (holes (x + s + 17) post))"
    and ab: "absorb_prev pre s = (pre', s')"
  shows "\<exists>m' idx'. free_merge_prev this m idx (of_nat x) = Inr (m', idx', of_nat (a + extent pre')) \<and>
    tiled m' a (pre' @ (s', True) # post) \<and>
    idx_ok m' idx' (mset (holes a pre') + mset (holes (x + s + 17) post)) \<and>
    oa_max_size idx' = oa_max_size idx"
proof -
  have f: "(of_nat x :: addr) - BLOCK_FOOTER_SIZE = of_nat (x - 8)" using a x by (simp add: kheap_consts)
  have le: "(start_address this \<le> of_nat (x - 8)) = (pre \<noteq> [])"
    using a x b by (cases pre) (auto simp: word_le_nat_alt unat_of_nat_small simp del: of_nat_diff)
  show ?thesis
  proof (cases "pre = []")
    case True
    then have "free_merge_prev this m idx (of_nat x) = Inr (m, idx, of_nat x)"
      using le by (simp add: free_merge_prev_def f Let_def del: of_nat_diff)
    moreover have "pre' = pre" "s' = s" using ab True by (auto simp: absorb_prev_def)
    ultimately show ?thesis using t ok x by blast
  next
    case False
    then obtain p2 s2 h2 where p: "pre = p2 @ [(s2, h2)]" by (cases pre rule: rev_cases) auto
    define y where y: "y = a + extent p2"
    have xy: "x = y + s2 + 17" "x - 8 = y + 9 + s2" using x y p by simp_all
    have rd: "footers m (of_nat (x - 8)) = \<lparr>ft_magic = KHEAP_MAGIC, ft_header = of_nat y\<rparr>"
      "headers m (of_nat y) = \<lparr>magic = KHEAP_MAGIC, is_hole = of_bool h2, blk_size = of_nat s2\<rparr>"
      "blk_size (headers m (of_nat x)) = of_nat s"
      "tiled m a p2" "tiled m (x + s + 17) post"
      unfolding xy(2) using t p y x by (auto simp: algebra_simps)
    show ?thesis
    proof (cases h2)
      case True
      then have ab': "pre' = p2" "s' = s2 + s + 17" using ab p by (auto simp: absorb_prev_def)
      let ?m = "make_block m (of_nat y) (of_nat s') (of_bool True)"
      let ?N = "mset (holes a p2) + mset (holes (x + s + 17) post)"
      have h: "hdr_eq m ?m ?N"
        using y xy b by (intro hdr_eq_make_block) (auto dest!: holes_bounds)
      have "idx_ok m idx (add_mset y ?N)" using ok p True y by simp
      from idx_ok_remove_element [OF this h] obtain idx' where
        r: "ordered_array_remove_element idx (of_nat y) = (True, idx')"
        "idx_ok ?m idx' ?N" "oa_max_size idx' = oa_max_size idx" by blast
      have e: "x + s + 17 = y + s' + 17" using xy ab' by simp
      have "tiled ?m a p2" using y b e by (intro tiled_make_blockI [OF rd(4)]) auto
      moreover have "tiled ?m (y + s' + 17) post"
        unfolding e [symmetric] using b e by (intro tiled_make_blockI [OF rd(5)]) auto
      moreover note tiled_make_block [of m y s' True]
      ultimately have "tiled ?m a (p2 @ [(s', True)] @ post)"
        by (intro tiled_around [OF _ y]) (simp_all only: extent.simps add_0_right add.assoc)
      moreover have "(of_nat s2 :: u32) + of_nat s + of_nat 17 = of_nat s'" using ab' by simp
      ultimately show ?thesis
        using r rd(1-3) True ab' le False y
        by (simp add: free_merge_prev_def f Let_def kheap_consts_nat(1,4) del: of_nat_add of_nat_diff of_nat_numeral)
    next
      case False
      then have "pre' = pre" "s' = s" using ab p by (auto simp: absorb_prev_def)
      moreover have "free_merge_prev this m idx (of_nat x) = Inr (m, idx, of_nat x)"
        using rd(1,2) False by (simp add: free_merge_prev_def f Let_def del: of_nat_diff)
      ultimately show ?thesis using t ok x by blast
    qed
  qed
qed

lemma absorb_next_facts:
  assumes "absorb_next s post = (s', post')" "no_adj post"
  shows "s' + 17 + extent post' = s + 17 + extent post" "post' = [] \<or> \<not> snd (hd post')" "no_adj post'"
    "live (x + s' + 17) post' = live (x + s + 17) post"
    "length (holes (x + s' + 17) post') \<le> length (holes (x + s + 17) post)"
  using assms by (cases "(s, post)" rule: absorb_next.cases; cases post'; force simp: algebra_simps)+

lemma absorb_prev_facts:
  assumes "absorb_prev pre s = (pre', s')" "no_adj pre"
  shows "extent pre' + s' + 17 = extent pre + s + 17" "pre' = [] \<or> \<not> snd (last pre')" "no_adj pre'"
    "live a pre' = live a pre" "length (holes a pre') \<le> length (holes a pre)"
  using assms by (cases pre rule: rev_cases; cases pre' rule: rev_cases; force simp: absorb_prev_def split: if_splits)+

definition freed :: "block list \<Rightarrow> nat \<Rightarrow> block list \<Rightarrow> block list" where
  "freed pre s post =
     (let (s1, post') = absorb_next s post; (pre', s2) = absorb_prev pre s1
      in pre' @ (s2, True) # post')"

lemma kheap_free_spec:
  assumes inv: "kheap_inv this m (pre @ (s, False) # post)"
    and room: "oa_size (kh_index this) < oa_max_size (kh_index this)"
    and x: "x = unat (start_address this) + extent pre"
  shows "\<exists>this' m'. kheap_free this m (of_nat (x + 9)) = Inr (this', m') \<and>
     kheap_inv this' m' (freed pre s post) \<and> same_bounds this this'"
proof -
  let ?a = "unat (start_address this)"
  obtain s1 post' where an: "absorb_next s post = (s1, post')" by (cases "absorb_next s post")
  obtain pre' s2 where ap: "absorb_prev pre s1 = (pre', s2)" by (cases "absorb_prev pre s1")
  have a8: "8 \<le> ?a" and e: "unat (end_address this) = x + s + 17 + extent post"
    and t: "tiled m ?a pre" "tiled m x [(s, False)]" "tiled m (x + s + 17) post"
    and na: "no_adj pre" "no_adj post"
    and ok: "idx_ok m (kh_index this) (mset (holes ?a pre) + mset (holes (x + s + 17) post))"
    using inv x by (auto simp: kheap_inv_def algebra_simps) (cases post; simp)
  have b: "x + s + 17 + extent post \<le> 4294967295" using e unat_u32_less [of "end_address this"] by simp
  let ?m = "make_block m (of_nat x) (of_nat s) (of_bool True)"
  have "hdr_eq m ?m (mset (holes ?a pre) + mset (holes (x + s + 17) post))"
    using x b by (intro hdr_eq_make_block) (auto dest!: holes_bounds)
  note ok0 = idx_ok_mem [OF ok this]
  have "tiled ?m ?a pre" using x b by (intro tiled_make_blockI [OF t(1)]) auto
  moreover have "tiled ?m (x + s + 17) post" using b by (intro tiled_make_blockI [OF t(3)]) auto
  moreover note tiled_make_block [of m x s True]
  ultimately have "tiled ?m ?a (pre @ [(s, True)] @ post)"
    by (intro tiled_around [OF _ x]) (simp_all only: extent.simps add_0_right add.assoc)
  then have t0: "tiled ?m ?a (pre @ (s, True) # post)" by simp
  obtain m1 idx1 where 1: "free_merge_next this ?m (of_nat x) (of_nat (x + s + 9)) = Inr (m1, idx1)"
    "tiled m1 ?a (pre @ (s1, True) # post')"
    "idx_ok m1 idx1 (mset (holes ?a pre) + mset (holes (x + s1 + 17) post'))"
    "oa_max_size idx1 = oa_max_size (kh_index this)"
    using free_merge_next_spec [OF t0 x e ok0 an] by blast
  note f1 = absorb_next_facts [OF an na(2)] and f2 = absorb_prev_facts [OF ap na(1)]
  have b1: "x + s1 + 17 + extent post' \<le> 4294967295" using b f1(1) by simp
  obtain m2 idx2 where 2: "free_merge_prev this m1 idx1 (of_nat x) = Inr (m2, idx2, of_nat (?a + extent pre'))"
    "tiled m2 ?a (pre' @ (s2, True) # post')"
    "idx_ok m2 idx2 (mset (holes ?a pre') + mset (holes (x + s1 + 17) post'))"
    "oa_max_size idx2 = oa_max_size idx1"
    using free_merge_prev_spec [OF 1(2) x refl a8 b1 1(3) ap] by blast
  have "size (mset (holes ?a pre') + mset (holes (x + s1 + 17) post')) < unat (oa_max_size idx2)"
    using idx_ok_size [OF ok] room 1(4) 2(4) f1(5) [of x] f2(5) [of ?a] by (simp add: word_less_nat_alt)
  note i = idx_ok_insert [OF 2(3) hdr_eq_refl this, of "?a + extent pre'"]
  let ?idx = "index_insert m2 idx2 (of_nat (?a + extent pre'))"
  have w: "x + s1 + 17 = ?a + extent pre' + s2 + 17" using x f2(1) by simp
  have "kheap_free this m (of_nat (x + 9)) = Inr (this\<lparr>kh_index := ?idx\<rparr>, m2)"
  proof -
    have n: "of_nat (x + 9) \<noteq> (0 :: addr)" using b of_nat_addr_eq [of "x + 9" 0] by simp
    have h: "(of_nat (x + 9) :: addr) - BLOCK_HEADER_SIZE = of_nat x" by (simp add: kheap_consts)
    have rd: "magic (headers m (of_nat x)) = KHEAP_MAGIC" "blk_size (headers m (of_nat x)) = of_nat s"
      "ft_magic (footers m (of_nat (x + s + 9))) = KHEAP_MAGIC"
      using t(2) by (simp_all add: algebra_simps)
    have f: "(of_nat (x + 9) :: addr) + of_nat s = of_nat (x + s + 9)" by simp
    show ?thesis
      using n 1(1) 2(1) by (simp add: kheap_free_def h Let_def rd f make_block_flag [OF t(2)] del: of_nat_add)
  qed
  moreover have "no_adj (pre' @ (s2, True) # post')"
    using f1(2,3) f2(2,3) by (cases post') auto
  then have "kheap_inv (this\<lparr>kh_index := ?idx\<rparr>) m2 (pre' @ (s2, True) # post')"
    using 2(2) i(1) [unfolded w] a8 e x f1(1) f2(1) by (auto simp: kheap_inv_def simp del: tiled_append no_adj_append of_nat_add)
  then have "kheap_inv (this\<lparr>kh_index := ?idx\<rparr>) m2 (freed pre s post)"
    by (simp add: freed_def an ap)
  moreover have "same_bounds this (this\<lparr>kh_index := ?idx\<rparr>)"
    using i(2) 1(4) 2(4) by (simp add: same_bounds_def)
  ultimately show ?thesis by blast
qed


lemma freed_live:
  assumes "no_adj (pre @ (s, False) # post)"
  shows "mset (live a (pre @ (s, False) # post)) = add_mset (a + extent pre + 9, s) (mset (live a (freed pre s post)))"
proof -
  obtain s1 post' where an: "absorb_next s post = (s1, post')" by (cases "absorb_next s post")
  obtain pre' s2 where ap: "absorb_prev pre s1 = (pre', s2)" by (cases "absorb_prev pre s1")
  have na: "no_adj pre" "no_adj post" using assms by (cases post; simp)+
  note f1 = absorb_next_facts [OF an na(2)] and f2 = absorb_prev_facts [OF ap na(1)]
  have "live (a + extent pre' + s2 + 17) post' = live (a + extent pre + s1 + 17) post'" using f2(1) by (simp add: add.assoc)
  then show ?thesis using f1(4) [of "a + extent pre"] f2(4) [of a] by (simp add: freed_def an ap)
qed

section \<open>A page-aligned allocation\<close>

lemma find_aligned_eq:
  assumes "y \<le> n" "n + 4096 + sz < 4294967296" "e < 4294967296"
  shows "find_aligned (of_nat y) (of_nat e) (of_nat sz) (of_nat n) =
    (if n = y \<or> 17 < n - y then (if n + sz \<le> e then Some (of_nat n) else None)
     else if n + 4096 + sz \<le> e then Some (of_nat (n + 4096)) else None)"
proof -
  have le: "((of_nat k :: u32) + of_nat sz \<le> of_nat e) = (k + sz \<le> e)" if "k \<le> n + 4096" for k
    using that assms of_nat_u32_le [of "k + sz" e] by simp
  have d: "(of_nat k :: u32) - of_nat y = of_nat (k - y)" if "y \<le> k" for k using that by simp
  have z: "((of_nat k :: u32) = 0) = (k = 0)" "(BLOCK_META_SIZE < (of_nat k :: u32)) = (17 < k)" if "k \<le> n + 4096" for k
    using that assms of_nat_addr_eq [of k 0] of_nat_u32_less [of 17 k] by (simp_all add: kheap_consts_nat)
  have p: "(of_nat n :: u32) + PAGE_SIZE = of_nat (n + 4096)" by (simp add: kheap_consts_nat)
  have "find_aligned (of_nat y) (of_nat e) (of_nat sz) (of_nat (n + 4096)) =
      (if n + 4096 + sz \<le> e then Some (of_nat (n + 4096)) else None)" if "17 \<ge> n - y"
    using assms that le [of "n + 4096"] z [of "n + 4096 - y"]
    by (subst find_aligned.simps, subst d) (auto simp del: of_nat_add of_nat_diff)
  then show ?thesis
    using assms le [of n] z [of "n - y"] d [of n] le [of "n + 4096"]
    by (subst find_aligned.simps, subst p) (auto simp del: of_nat_add of_nat_diff)
qed

text \<open>The payload address an aligned request of \<open>sz\<close> bytes takes in a hole whose payload starts at \<open>y\<close>.\<close>

definition aligned_pos :: "nat \<Rightarrow> nat" where
  "aligned_pos y = (let n = (y + 4095) div 4096 * 4096 in if n = y \<or> 17 < n - y then n else n + 4096)"

lemma page_up: "(y :: nat) \<le> (y + 4095) div 4096 * 4096" "(y + 4095) div 4096 * 4096 \<le> y + 4095"
  using div_mult_mod_eq [of "y + 4095" 4096] mod_less_divisor [of 4096 "y + 4095"] by linarith+

lemma aligned_pos_facts:
  "y \<le> aligned_pos y" "4096 dvd aligned_pos y" "aligned_pos y - y = 0 \<or> 17 < aligned_pos y - y"
  "aligned_pos y \<le> y + 4113"
  using page_up [of y] by (auto simp: aligned_pos_def Let_def)

lemma hole_fits_aligned:
  assumes "x + s + 17 \<le> 4294967295" "x + s + 8209 + sz < 4294967296" "blk_size (headers m (of_nat x)) = of_nat s"
  shows "hole_fits m (of_nat sz) True (of_nat x) =
    (if aligned_pos (x + 9) + sz \<le> x + 9 + s then Some (of_nat (aligned_pos (x + 9))) else None)"
proof -
  let ?n = "(x + 9 + 4095) div 4096 * 4096"
  have st: "(of_nat x :: addr) + BLOCK_HEADER_SIZE = of_nat (x + 9)" by (simp add: kheap_consts)
  have al: "align_to_page (of_nat (x + 9)) = of_nat ?n"
    by (rule align_to_page_of_nat) (use assms in simp)
  have fin: "(of_nat (x + 9) :: addr) + of_nat s = of_nat (x + 9 + s)" by simp
  have "find_aligned (of_nat (x + 9)) (of_nat (x + 9 + s)) (of_nat sz) (of_nat ?n) =
    (if ?n = x + 9 \<or> 17 < ?n - (x + 9) then (if ?n + sz \<le> x + 9 + s then Some (of_nat ?n) else None)
     else if ?n + 4096 + sz \<le> x + 9 + s then Some (of_nat (?n + 4096)) else None)"
    by (rule find_aligned_eq) (use assms page_up [of "x + 9"] in linarith)+
  then show ?thesis
    unfolding hole_fits_def st Let_def al assms(3) fin by (simp add: aligned_pos_def Let_def)
qed

lemma alloc_aligned:
  assumes inv: "kheap_inv this m bs" and bs: "bs = pre0 @ (s0, True) # post0" and fit: "sz + 4113 \<le> s0"
    and nw: "unat (end_address this) + 8192 + sz < 4294967296"
    and room: "oa_size (kh_index this) < oa_max_size (kh_index this)"
  shows "\<exists>this' m' pre s post q. bs = pre @ (s, True) # post \<and>
     alloc this m (of_nat sz) True = Some (Inr (of_nat q, this', m')) \<and>
     q = aligned_pos (unat (start_address this) + extent pre + 9) \<and>
     q + sz \<le> unat (start_address this) + extent pre + 9 + s \<and>
     kheap_inv this' m' (pre @ front_gap (q - (unat (start_address this) + extent pre + 9)) @
       carve (s - (q - (unat (start_address this) + extent pre + 9))) sz @ post) \<and> same_bounds this this'"
proof -
  let ?a = "unat (start_address this)"
  have hf: "hole_fits m (of_nat sz) True (of_nat x) =
      (if aligned_pos (x + 9) + sz \<le> x + 9 + s then Some (of_nat (aligned_pos (x + 9))) else None)"
    if "x + s + 17 \<le> unat (end_address this)" "blk_size (headers m (of_nat x)) = of_nat s" for x s
    using that nw by (intro hole_fits_aligned) auto
  obtain k where k: "k < unat (oa_size (kh_index this))"
    "index_get (kh_index this) k = of_nat (?a + extent pre0)"
    "blk_size (headers m (of_nat (?a + extent pre0))) = of_nat s0"
    by (rule hole_indexed [OF inv bs])
  have "?a + extent pre0 + s0 + 17 \<le> unat (end_address this)" using inv bs by (simp add: kheap_inv_def)
  then have "hole_fits m (of_nat sz) True (index_get (kh_index this) k) \<noteq> None"
    using k(2,3) hf fit aligned_pos_facts(4) [of "?a + extent pre0 + 9"] by (simp add: hf del: of_nat_add)
  then obtain i p where f: "kheap_find_hole this m (of_nat sz) True = Some (i, p)"
    using k(1) kheap_find_hole_None by (cases "kheap_find_hole this m (of_nat sz) True") auto
  note f' = kheap_find_hole_Some [OF f]
  obtain pre s post where b: "bs = pre @ (s, True) # post"
    "index_get (kh_index this) i = of_nat (?a + extent pre)" "elems (kh_index this) ! i = of_nat (?a + extent pre)"
    "blk_size (headers m (of_nat (?a + extent pre))) = of_nat s"
    "?a + extent pre + s + 17 + extent post = unat (end_address this)"
    by (rule inv_indexed_block [OF inv f'(1)])
  define q where q: "q = aligned_pos (?a + extent pre + 9)"
  define g where g: "g = q - (?a + extent pre + 9)"
  note af = aligned_pos_facts [of "?a + extent pre + 9", folded q]
  have qs: "q + sz \<le> ?a + extent pre + 9 + s" "p = of_nat q"
    using f'(2) hf [of "?a + extent pre" s] b(2,4,5) by (auto simp: q split: if_splits simp del: of_nat_add)
  have gq: "?a + extent pre + g + 9 = q" "g = 0 \<or> 17 < g \<and> True" "g + sz \<le> s"
    using g af qs(1) by auto
  from alloc_in_hole_spec [OF kheap_inv_pick [OF inv [unfolded b(1)]] refl f'(1) b(3) gq(2,3) disjI2 [OF room], unfolded gq(1)]
  obtain this' m' where "alloc_in_hole this m (of_nat sz) True i p = Inr (p, this', m')"
     "kheap_inv this' m' (pre @ front_gap g @ carve (s - g) sz @ post)" "same_bounds this this'"
    using qs(2) by auto
  moreover from this(1) have "alloc this m (of_nat sz) True = Some (Inr (of_nat q, this', m'))"
    using f qs(2) by (simp add: alloc.simps [of this])
  ultimately show ?thesis using b(1) qs(1) q g by metis
qed

section \<open>The allocator contract\<close>

definition kheap_repr :: "kheap_t \<times> kheap_mem \<Rightarrow> (nat \<times> nat) multiset \<Rightarrow> bool" where
  "kheap_repr h L \<longleftrightarrow>
     (\<exists>bs. kheap_inv (fst h) (snd h) bs \<and> L = mset (live (unat (start_address (fst h))) bs))"

definition kheap_bytes :: "kheap_t \<times> kheap_mem \<Rightarrow> nat" where
  "kheap_bytes h = unat (kh_max_size (fst h)) - unat (end_address (fst h))"

definition kheap_slots :: "kheap_t \<times> kheap_mem \<Rightarrow> nat" where
  "kheap_slots h = unat (oa_max_size (kh_index (fst h))) - unat (oa_size (kh_index (fst h)))"

lemma inv_index_size:
  "kheap_inv this m bs \<Longrightarrow> unat (oa_size (kh_index this)) = length (holes (unat (start_address this)) bs)"
  using idx_ok_size by (fastforce simp: kheap_inv_def)

lemma holes_length: "length (holes a bs) = length (filter snd bs)"
  by (induction a bs rule: holes.induct) auto

lemma alloc_plain_budget:
  assumes inv: "kheap_inv this m bs" and gr: "can_grow this sz"
    and al: "alloc this m (of_nat sz) False = Some (Inr (p, this', m'))"
  shows "kheap_bytes (this, m) \<le> kheap_bytes (this', m') + grow_size sz"
    and "kheap_slots (this, m) \<le> kheap_slots (this', m') + 1"
proof -
  have s: "sz + 4112 < 4294967296" "sz < 4294967296"
    and mx: "unat (end_address this) + grow_size sz \<le> unat (kh_max_size this)"
    and room: "oa_size (kh_index this) < oa_max_size (kh_index this)"
    using gr by (auto simp: can_grow_def)
  have c: "length (filter snd (carve s sz)) \<le> 1" for s by (simp add: carve_def)
  have "kheap_bytes (this, m) \<le> kheap_bytes (this', m') + grow_size sz \<and>
        kheap_slots (this, m) \<le> kheap_slots (this', m') + 1"
  proof (cases "kheap_find_hole this m (of_nat sz) False")
    case None
    from alloc_plain_grow [OF inv s(1) None mx room] obtain pre s h where
      r: "grown bs sz pre s h" "kheap_inv this' m' (pre @ carve s sz)" "grown_bounds this (grow_size sz) this'"
      using al by auto
    have "length (filter snd pre) \<le> length (filter snd bs)" using r(1) by (auto simp: grown_def)
    then show ?thesis
      using r(3) c [of s] inv_index_size [OF r(2)] inv_index_size [OF inv]
      by (auto simp: kheap_bytes_def kheap_slots_def grown_bounds_def holes_length)
  next
    case (Some q)
    then obtain i where "kheap_find_hole this m (of_nat sz) False = Some (i, snd q)" by (cases q) auto
    from alloc_plain_found [OF inv s(2) this] obtain pre s post where
      r: "bs = pre @ (s, True) # post" "kheap_inv this' m' (pre @ carve s sz @ post)" "same_bounds this this'"
      using al by auto
    then show ?thesis
      using c [of s] inv_index_size [OF r(2)] inv_index_size [OF inv]
      by (auto simp: kheap_bytes_def kheap_slots_def same_bounds_def holes_length)
  qed
  then show "kheap_bytes (this, m) \<le> kheap_bytes (this', m') + grow_size sz"
    and "kheap_slots (this, m) \<le> kheap_slots (this', m') + 1" by auto
qed

lemma live_order:
  "mset (live a bs) = add_mset (p, s) (add_mset (q, t) L) \<Longrightarrow> p + s < q \<or> q + t < p"
proof (induction a bs arbitrary: L rule: live.induct)
  case (2 a s' h bs)
  show ?case
  proof (cases h)
    case False
    let ?b = "(a + 9, s')"
    have l: "add_mset ?b (mset (live (a + s' + 17) bs)) = add_mset (p, s) (add_mset (q, t) L)"
      using "2.prems" False by simp
    consider "(p, s) = ?b" | "(q, t) = ?b" | L' where "L = add_mset ?b L'"
      using l by (metis add_mset_add_single insert_DiffM insert_noteq_member union_iff)
    then show ?thesis
    proof cases
      case 1
      with l have "(q, t) \<in># mset (live (a + s' + 17) bs)" by simp
      with 1 live_bounds [of q t "a + s' + 17" bs] show ?thesis by auto
    next
      case 2
      with l have "(p, s) \<in># mset (live (a + s' + 17) bs)" by (auto simp: add_mset_commute)
      with 2 live_bounds [of p s "a + s' + 17" bs] show ?thesis by auto
    next
      case 3
      with l have "mset (live (a + s' + 17) bs) = add_mset (p, s) (add_mset (q, t) L')"
        by (simp add: add_mset_commute)
      with "2.IH" show ?thesis by blast
    qed
  next
    case True
    with 2 show ?thesis by simp
  qed
qed simp

lemma kmalloc_ok:
  assumes r: "kheap_repr h L" and sz: "0 < sz" "sz + 4112 \<le> kheap_bytes h" and sl: "0 < kheap_slots h"
  shows "\<exists>p s h'. case_prod kmalloc h (of_nat sz) = Some (Inr (of_nat p, h')) \<and> sz \<le> s \<and>
     kheap_repr h' (add_mset (p, s) L) \<and> kheap_bytes h \<le> kheap_bytes h' + (sz + 4112) \<and>
     kheap_slots h \<le> kheap_slots h' + 1"
proof -
  obtain this m where h: "h = (this, m)" by (cases h)
  obtain bs where inv: "kheap_inv this m bs" and L: "L = mset (live (unat (start_address this)) bs)"
    using r h by (auto simp: kheap_repr_def)
  have gr: "can_grow this sz"
    using sz sl h grow_size_bounds(2) [of sz] unat_u32_less [of "kh_max_size this"]
    by (auto simp: can_grow_def kheap_bytes_def kheap_slots_def word_less_nat_alt)
  from alloc_plain [OF inv gr] obtain this' m' bs' p s where
    a: "alloc this m (of_nat sz) False = Some (Inr (of_nat p, this', m'))" "kheap_inv this' m' bs'"
      "start_address this' = start_address this" "sz \<le> s"
      "mset (live (unat (start_address this)) bs') = add_mset (p, s) L"
    unfolding L by blast
  have "(p, s) \<in> set (live (unat (start_address this')) bs')" using a(3,5) by (metis set_mset_mset union_single_eq_member)
  from live_bounds [OF this] have pb: "0 < p" "p < 4294967296"
    using a(2) unat_u32_less [of "end_address this'"] by (auto simp: kheap_inv_def)
  have nz: "(of_nat p :: addr) \<noteq> 0" "(of_nat sz :: u32) \<noteq> 0"
    using pb sz(1) gr of_nat_addr_eq [of p 0] of_nat_addr_eq [of sz 0] by (auto simp: can_grow_def)
  then have "kmalloc this m (of_nat sz) = Some (Inr (of_nat p, this', m'))"
    using a(1) by (simp add: kmalloc_def kmalloc_impl_def)
  moreover have "kheap_repr (this', m') (add_mset (p, s) L)"
    using a(2,3,5) by (auto simp: kheap_repr_def)
  moreover have "kheap_bytes h \<le> kheap_bytes (this', m') + (sz + 4112)" "kheap_slots h \<le> kheap_slots (this', m') + 1"
    using alloc_plain_budget [OF inv gr a(1)] grow_size_bounds(2) [of sz] h by simp_all
  ultimately show ?thesis using a(4) h by auto
qed

lemma kfree_ok:
  assumes r: "kheap_repr h (add_mset (p, s) L)" and sl: "0 < kheap_slots h"
  shows "\<exists>h'. case_prod kfree h (of_nat p) = Inr h' \<and> kheap_repr h' L \<and>
     kheap_bytes h \<le> kheap_bytes h' \<and> kheap_slots h \<le> kheap_slots h' + 1"
proof -
  obtain this m where h: "h = (this, m)" by (cases h)
  let ?a = "unat (start_address this)"
  obtain bs where inv: "kheap_inv this m bs" and L: "add_mset (p, s) L = mset (live ?a bs)"
    using r h by (auto simp: kheap_repr_def)
  have "(p, s) \<in> set (live ?a bs)" using L by (metis set_mset_mset union_single_eq_member)
  then obtain pre post where bs: "bs = pre @ (s, False) # post" and p: "p = ?a + extent pre + 9" by (rule live_split)
  have room: "oa_size (kh_index this) < oa_max_size (kh_index this)"
    using sl h by (simp add: kheap_slots_def word_less_nat_alt)
  from kheap_free_spec [OF inv [unfolded bs] room refl] obtain this' m' where
    f: "kheap_free this m (of_nat p) = Inr (this', m')" "kheap_inv this' m' (freed pre s post)" "same_bounds this this'"
    unfolding p by blast
  have na: "no_adj (pre @ (s, False) # post)" using inv bs by (simp only: kheap_inv_def)
  have "L = mset (live (unat (start_address this')) (freed pre s post))"
    using L freed_live [OF na, of ?a] f(3) by (simp add: bs p same_bounds_def)
  then have "kheap_repr (this', m') L" using f(2) by (auto simp: kheap_repr_def)
  moreover have "case_prod kfree h (of_nat p) = Inr (this', m')"
    using f(1) h by (auto simp: kfree_def kheap_free_def)
  moreover have "length (filter snd (freed pre s post)) \<le> length (filter snd bs) + 1"
  proof -
    obtain s1 post' where an: "absorb_next s post = (s1, post')" by (cases "absorb_next s post")
    obtain pre' s2 where ap: "absorb_prev pre s1 = (pre', s2)" by (cases "absorb_prev pre s1")
    have "no_adj pre" "no_adj post" using na by (cases post; simp)+
    then show ?thesis
      using absorb_next_facts(5) [OF an, of 0] absorb_prev_facts(5) [OF ap, of 0] bs by (simp add: freed_def an ap holes_length)
  qed
  then have "kheap_slots h \<le> kheap_slots (this', m') + 1" "kheap_bytes h \<le> kheap_bytes (this', m')"
    using f(3) inv_index_size [OF f(2)] inv_index_size [OF inv] h
    by (auto simp: kheap_slots_def kheap_bytes_def same_bounds_def holes_length)
  ultimately show ?thesis by blast
qed

interpretation kh: heap_allocator "case_prod kmalloc" "case_prod kfree" kheap_repr kheap_bytes kheap_slots
proof unfold_locales
  fix h L p s assume "kheap_repr h L" "(p, s) \<in># L"
  then obtain bs where "kheap_inv (fst h) (snd h) bs" "(p, s) \<in> set (live (unat (start_address (fst h))) bs)"
    by (auto simp: kheap_repr_def)
  then show "0 < p \<and> p + s < 4294967296"
    using live_bounds [of p s _ bs] unat_u32_less [of "end_address (fst h)"] by (fastforce simp: kheap_inv_def)
next
  fix h p s q t L assume "kheap_repr h (add_mset (p, s) (add_mset (q, t) L))"
  then show "p + s < q \<or> q + t < p" unfolding kheap_repr_def by (metis live_order)
qed (use kmalloc_ok kfree_ok in auto)

section \<open>The initial heap\<close>

lemma create_kheap_inv:
  assumes al: "start AND 0xFFF = 0" "fin AND 0xFFF = 0"
    and sz: "unat start + 16384 + 17 \<le> unat fin" and arr: "4096 \<le> length arr"
  shows "\<exists>this m'. create_kheap arr m start fin mx sv ro = Inr (this, m') \<and>
     kheap_inv this m' [(unat fin - unat start - 16384 - 17, True)] \<and>
     unat (start_address this) = unat start + 16384 \<and> end_address this = fin \<and> kh_max_size this = mx \<and>
     oa_max_size (kh_index this) = 4096 \<and> oa_size (kh_index this) = 1"
proof -
  let ?x = "unat start + 16384" and ?s = "unat fin - unat start - 16384 - 17"
  have b: "?x + ?s + 17 = unat fin" using sz by simp
  have fl: "unat fin < 4294967296" by (rule unat_u32_less)
  have st: "start + KHEAP_INDEX_NUM * 4 = of_nat ?x" by (simp add: KHEAP_INDEX_NUM_def)
  have lt: "(of_nat ?x :: u32) < fin"
    using sz fl by (simp add: word_less_nat_alt unat_of_nat_small del: of_nat_add)
  have "fin = of_nat (?x + ?s + 17)" unfolding b by simp
  then have "fin = of_nat ?x + of_nat ?s + of_nat 17" by (simp only: of_nat_add)
  moreover have "w = u + v + k \<Longrightarrow> w - u - k = v" for w u v k :: u32 by simp
  ultimately have d: "fin - of_nat ?x - BLOCK_META_SIZE = of_nat ?s" unfolding kheap_consts_nat by blast
  let ?m = "make_block m (of_nat ?x) (of_nat ?s) (of_bool True)"
  let ?idx = "ordered_array_create arr KHEAP_INDEX_NUM"
  have "idx_ok m ?idx {#}" using arr by (simp add: idx_ok_def ordered_array_create_def wf_oa_def elems_def KHEAP_INDEX_NUM_def)
  moreover have "hdr_eq m ?m {#}" by (simp add: hdr_eq_def)
  moreover have "size {#} < unat (oa_max_size ?idx)" by (simp add: ordered_array_create_def KHEAP_INDEX_NUM_def)
  ultimately have i: "idx_ok ?m (index_insert ?m ?idx (of_nat ?x)) {#?x#}"
    "oa_max_size (index_insert ?m ?idx (of_nat ?x)) = oa_max_size ?idx" by (rule idx_ok_insert)+
  have u: "unat (of_nat ?x :: u32) = ?x" using sz fl by (simp add: unat_of_nat_small del: of_nat_add)
  have z: "oa_size (index_insert ?m ?idx (of_nat ?x)) = 1"
    using idx_ok_size [OF i(1)] by (metis One_nat_def size_single unat_1 unsigned_word_eqI)
  let ?heap = "\<lparr>kh_index = index_insert ?m ?idx (of_nat ?x), start_address = of_nat ?x,
     end_address = fin, kh_max_size = mx, kh_size = fin - of_nat ?x, supervisor = sv, readonly = ro\<rparr>"
  have "create_kheap arr m start fin mx sv ro = Inr (?heap, ?m)"
    using al lt by (simp add: create_kheap_def st Let_def d kheap_consts_nat(4) del: of_nat_add of_nat_diff)
  moreover have "kheap_inv ?heap ?m [(?s, True)]"
    using i(1) u b tiled_make_block [of m ?x ?s True] by (simp add: kheap_inv_def del: of_nat_add of_nat_diff tiled.simps)
  ultimately show ?thesis using i(2) u z by (auto simp: ordered_array_create_def KHEAP_INDEX_NUM_def)
qed

lemma init_kheap_state:
  assumes "4096 \<le> length arr"
  shows "\<exists>this m'. init_kheap arr m = Inr (this, m') \<and> kheap_inv this m' [(49135, True)] \<and>
    unat (start_address this) = 0xC0C04000 \<and> unat (end_address this) = 0xC0C10000 \<and>
    unat (kh_max_size this) = 0xE0000000 \<and> oa_max_size (kh_index this) = 4096 \<and> oa_size (kh_index this) = 1"
proof -
  have "\<exists>this m'. init_kheap arr m = Inr (this, m') \<and>
      kheap_inv this m' [(unat (KHEAP_START + KHEAP_MIN_SIZE) - unat KHEAP_START - 16384 - 17, True)] \<and>
     unat (start_address this) = unat KHEAP_START + 16384 \<and> end_address this = KHEAP_START + KHEAP_MIN_SIZE \<and>
     kh_max_size this = KHEAP_MAX \<and> oa_max_size (kh_index this) = 4096 \<and> oa_size (kh_index this) = 1"
    unfolding init_kheap_def
    by (rule create_kheap_inv) (use assms in \<open>simp_all add: KHEAP_START_def KHEAP_MIN_SIZE_def\<close>)
  then show ?thesis
    by (force simp: KHEAP_START_def KHEAP_MIN_SIZE_def KHEAP_MAX_def)
qed

text \<open>The hole the search returns is a smallest one among those that are large enough.\<close>

lemma smallest_hole:
  assumes inv: "kheap_inv this m bs" and f: "kheap_find_hole this m (of_nat sz) False = Some (i, q)"
    and sz: "sz < 4294967296" and bs: "bs = pre @ (s, True) # post"
    and e: "elems (kh_index this) ! i = of_nat (unat (start_address this) + extent pre)"
    and s': "(s', True) \<in> set bs" "sz \<le> s'"
  shows "s \<le> s'"
proof -
  let ?a = "unat (start_address this)" and ?idx = "kh_index this"
  note f' = kheap_find_hole_Some [OF f]
  have ok: "idx_ok m ?idx (mset (holes ?a bs))" and wf: "wf_oa ?idx" and t: "tiled m ?a bs"
    and en: "unat (end_address this) = ?a + extent bs"
    using inv by (auto simp: kheap_inv_def idx_ok_def)
  obtain pre' post' where bs': "bs = pre' @ (s', True) # post'" using s'(1) by (metis in_set_conv_decomp)
  obtain k where k: "k < unat (oa_size ?idx)" "index_get ?idx k = of_nat (?a + extent pre')"
    "blk_size (headers m (of_nat (?a + extent pre'))) = of_nat s'"
    by (rule hole_indexed [OF inv bs'])
  have b: "s < 4294967296" "s' < 4294967296"
    using en bs bs' block_sizes_bound(1) [of this pre s True post] block_sizes_bound(1) [of this pre' s' True post'] by simp_all
  have "\<not> k < i" using f'(3) [of k] k(2,3) sz b s'(2) by (auto simp: hole_fits_plain of_nat_u32_le)
  moreover have "sorted (map (blk_nat m) (elems ?idx))" using ok by (simp add: idx_ok_def)
  ultimately have "blk_nat m (elems ?idx ! i) \<le> blk_nat m (elems ?idx ! k)"
    using k(1) sorted_nth_mono [of "map (blk_nat m) (elems ?idx)" i k] length_elems [OF wf] by simp
  moreover have "blk_size (headers m (of_nat (?a + extent pre))) = of_nat s"
    by (rule tiled_blk_size [OF t]) (simp add: bs)
  ultimately show ?thesis
    using e k index_get_elems [OF wf k(1)] b by (simp add: unat_of_nat_small)
qed

section \<open>Properties\<close>

definition blank_mem :: kheap_mem where
  "blank_mem = \<lparr>headers = (\<lambda>_. \<lparr>magic = 0, is_hole = 0, blk_size = 0\<rparr>),
     footers = (\<lambda>_. \<lparr>ft_magic = 0, ft_header = 0\<rparr>)\<rparr>"

lemma sample_heap:
  "\<exists>this m. kheap_inv this m [(49135, True)] \<and> can_grow this 100 \<and> unat (end_address this) = 0xC0C10000 \<and>
     kheap_repr (this, m) {#} \<and> kheap_bytes (this, m) = 524222464 \<and> kheap_slots (this, m) = 4095 \<and>
     init_kheap (replicate 4096 0) blank_mem = Inr (this, m)"
  using init_kheap_state [of "replicate 4096 0" blank_mem]
  by (force simp: kheap_repr_def kheap_bytes_def kheap_slots_def can_grow_def grow_size_def word_less_nat_alt)

text \<open>\<^verbatim>\<open>init_kheap\<close> passes its assertions and establishes the heap invariant: one hole of
49135 bytes tiles the heap behind the index pages, no block is live, and the index has 4095 free slots.\<close>

lemma init_kheap_establishes:
  assumes "4096 \<le> length arr"
  shows "\<exists>this m'. init_kheap arr m = Inr (this, m') \<and> kheap_inv this m' [(49135, True)] \<and>
    kheap_repr (this, m') {#} \<and> kheap_bytes (this, m') = 524222464 \<and> kheap_slots (this, m') = 4095"
  using init_kheap_state [OF assms, of m]
  by (force simp: kheap_repr_def kheap_bytes_def kheap_slots_def)

text \<open>C1: every client program, a list of requests and releases of addresses it holds, that stays
within the heap's budget of bytes and index slots runs to its end without an assertion failing and
without the recursion of \<^verbatim>\<open>alloc\<close> diverging; at the end the live blocks are exactly those the
client still holds, and they are pairwise disjoint.\<close>

theorem kheap_client_program:
  assumes "kheap_repr h {#}" "script_ok (kheap_bytes h) (kheap_slots h) ops"
  shows "\<exists>ps h' bl. run_script (case_prod kmalloc) (case_prod kfree) h [] ops = Some (Inr (ps, h')) \<and>
     kheap_repr h' (mset bl) \<and> map fst bl = map unat ps \<and>
     (\<forall>i j. i < j \<and> j < length bl \<longrightarrow>
        fst (bl ! i) + snd (bl ! i) < fst (bl ! j) \<or> fst (bl ! j) + snd (bl ! j) < fst (bl ! i))"
proof -
  from kh.run_script_ok [of h "[]" "{#}" "[]" ops] assms obtain ps h' bl where
    r: "run_script (case_prod kmalloc) (case_prod kfree) h [] ops = Some (Inr (ps, h'))"
      "kheap_repr h' (mset bl)" "map fst bl = map unat ps" by auto
  have "fst (bl ! i) + snd (bl ! i) < fst (bl ! j) \<or> fst (bl ! j) + snd (bl ! j) < fst (bl ! i)"
    if "i < j" "j < length bl" for i j
  proof -
    have "mset bl = add_mset (bl ! j) (mset (take j bl @ drop (Suc j) bl))"
      by (rule mset_without_nth [OF that(2)])
    moreover have "bl ! i \<in># mset (take j bl @ drop (Suc j) bl)"
      using that nth_mem [of i "take j bl"] by simp
    then obtain L where "mset (take j bl @ drop (Suc j) bl) = add_mset (bl ! i) L" by (metis multi_member_split)
    ultimately have "mset bl = add_mset (bl ! i) (add_mset (bl ! j) L)" by (simp add: add_mset_commute)
    with kh.repr_disjoint [of h' "fst (bl ! i)" "snd (bl ! i)" "fst (bl ! j)" "snd (bl ! j)" L] r(2)
    show ?thesis by simp
  qed
  with r show ?thesis by blast
qed

theorem kheap_client_program_witness:
  "\<exists>this m. init_kheap (replicate 4096 0) blank_mem = Inr (this, m) \<and>
     (\<exists>p q this' m'. run_script (case_prod kmalloc) (case_prod kfree) (this, m) []
        [Malloc 100, Malloc 200, Free 1, Malloc 60000] = Some (Inr ([p, q], this', m')) \<and> p \<noteq> q)"
proof -
  let ?ops = "[Malloc 100, Malloc 200, Free 1, Malloc 60000]"
  obtain this m where s: "kheap_repr (this, m) {#}" "kheap_bytes (this, m) = 524222464" "kheap_slots (this, m) = 4095"
     "init_kheap (replicate 4096 0) blank_mem = Inr (this, m)" using sample_heap by blast
  have "script_ok (kheap_bytes (this, m)) (kheap_slots (this, m)) ?ops" by (simp add: s(2,3))
  from kheap_client_program [OF s(1) this] obtain ps h' bl where
    r: "run_script (case_prod kmalloc) (case_prod kfree) (this, m) [] ?ops = Some (Inr (ps, h'))"
    "map fst bl = map unat ps" "\<forall>i j. i < j \<and> j < length bl \<longrightarrow>
        fst (bl ! i) + snd (bl ! i) < fst (bl ! j) \<or> fst (bl ! j) + snd (bl ! j) < fst (bl ! i)" by blast
  from r(1) obtain p q where ps: "ps = [p, q]" by (auto split: option.splits sum.splits)
  obtain s t where "bl = [(unat p, s), (unat q, t)]" using r(2) ps by auto
  with r(3) [rule_format, of 0 1] have "p \<noteq> q" by auto
  with r(1) ps s(4) show ?thesis by (cases h') auto
qed


text \<open>C2: a plain allocation of \<open>sz\<close> bytes returns, in any well-formed heap that can still grow, the
payload of a new block of at least \<open>sz\<close> bytes: the invariant holds afterwards, and the live blocks
are the old ones, none moved or resized, plus the new one.\<close>

theorem kmalloc_adds_block:
  assumes "kheap_inv this m bs" "0 < sz" "can_grow this sz"
  shows "\<exists>this' m' bs' p s. alloc this m (of_nat sz) False = Some (Inr (of_nat p, this', m')) \<and>
     kheap_inv this' m' bs' \<and> sz \<le> s \<and>
     mset (live (unat (start_address this')) bs') = add_mset (p, s) (mset (live (unat (start_address this)) bs))"
  using alloc_plain [OF assms(1,3)] by metis

theorem kmalloc_adds_block_witness:
  "\<exists>this m this' m' bs' p s. init_kheap (replicate 4096 0) blank_mem = Inr (this, m) \<and>
     alloc this m 100 False = Some (Inr (of_nat p, this', m')) \<and> kheap_inv this' m' bs' \<and> 100 \<le> s \<and>
     mset (live (unat (start_address this')) bs') = {#(p, s)#}"
proof -
  obtain this m where "kheap_inv this m [(49135, True)]" "can_grow this 100"
    "init_kheap (replicate 4096 0) blank_mem = Inr (this, m)"
    using sample_heap by blast
  with kmalloc_adds_block [of this m _ 100] show ?thesis by fastforce
qed

text \<open>best fit: as long as some hole is large enough, an allocation takes a smallest such hole,
leaves the bounds of the heap alone, and keeps the rest of the hole as a hole only when it is larger
than a block's metadata.\<close>

lemma kmalloc_best_fit:
  assumes "kheap_inv this m bs" "0 < sz" "sz < 4294967296" "(s0, True) \<in> set bs" "sz \<le> s0"
  shows "\<exists>this' m' pre s post. bs = pre @ (s, True) # post \<and> sz \<le> s \<and>
     (\<forall>s'. (s', True) \<in> set bs \<and> sz \<le> s' \<longrightarrow> s \<le> s') \<and>
     alloc this m (of_nat sz) False =
       Some (Inr (of_nat (unat (start_address this) + extent pre + 9), this', m')) \<and>
     kheap_inv this' m' (pre @ carve s sz @ post) \<and> same_bounds this this'"
proof -
  from assms(4) obtain pre0 post0 where "bs = pre0 @ (s0, True) # post0" by (metis in_set_conv_decomp)
  with no_fit_sizes [OF assms(1) _ this assms(3)] assms(5) obtain i q where
    f: "kheap_find_hole this m (of_nat sz) False = Some (i, q)" by fastforce
  from alloc_plain_found [OF assms(1,3) f] obtain this' m' pre s post where
    r: "bs = pre @ (s, True) # post" "sz \<le> s"
     "elems (kh_index this) ! i = of_nat (unat (start_address this) + extent pre)"
     "alloc this m (of_nat sz) False =
       Some (Inr (of_nat (unat (start_address this) + extent pre + 9), this', m'))"
     "kheap_inv this' m' (pre @ carve s sz @ post)" "same_bounds this this'" by metis
  have "s \<le> s'" if "(s', True) \<in> set bs" "sz \<le> s'" for s'
    using smallest_hole [OF assms(1) f assms(3) r(1,3)] that by blast
  with r show ?thesis by blast
qed

text \<open>a page-aligned allocation, when some hole has room for it, returns an address that is a
multiple of the page size inside a hole of the heap, keeps what lies in front of it and what is left
behind it as blocks of the heap, and preserves the invariant.\<close>

lemma kmalloc_align_page:
  assumes "kheap_inv this m bs" "(s0, True) \<in> set bs" "sz + 4113 \<le> s0" "0 < sz"
    and "unat (end_address this) + 8192 + sz < 4294967296"
    and "oa_size (kh_index this) < oa_max_size (kh_index this)"
  shows "\<exists>this' m' pre s post q. bs = pre @ (s, True) # post \<and>
     alloc this m (of_nat sz) True = Some (Inr (of_nat q, this', m')) \<and> 4096 dvd q \<and>
     unat (start_address this) + extent pre + 9 \<le> q \<and>
     q + sz \<le> unat (start_address this) + extent pre + 9 + s \<and>
     kheap_inv this' m' (pre @ front_gap (q - (unat (start_address this) + extent pre + 9)) @
       carve (s - (q - (unat (start_address this) + extent pre + 9))) sz @ post) \<and> same_bounds this this'"
proof -
  from assms(2) obtain pre0 post0 where bs: "bs = pre0 @ (s0, True) # post0" by (metis in_set_conv_decomp)
  from alloc_aligned [OF assms(1) bs assms(3,5,6)] aligned_pos_facts show ?thesis by metis
qed

text \<open>C3: freeing a live block passes the magic-number assertions, removes exactly this block from the
live blocks, and merges the new hole with a hole on either side, so that no two holes ever touch.\<close>

theorem kheap_free_coalesces:
  assumes "kheap_inv this m (pre @ (s, False) # post)"
    and "oa_size (kh_index this) < oa_max_size (kh_index this)"
  shows "\<exists>this' m'. kheap_free this m (of_nat (unat (start_address this) + extent pre + 9)) = Inr (this', m') \<and>
     kheap_inv this' m' (freed pre s post) \<and> no_adj (freed pre s post) \<and> same_bounds this this' \<and>
     mset (live a (pre @ (s, False) # post)) = add_mset (a + extent pre + 9, s) (mset (live a (freed pre s post)))"
proof -
  have "no_adj (pre @ (s, False) # post)" using assms(1) by (simp only: kheap_inv_def)
  from freed_live [OF this] kheap_free_spec [OF assms refl] show ?thesis
    by (auto simp: kheap_inv_def simp del: no_adj_append live_append)
qed

theorem kheap_free_coalesces_witness:
  "\<exists>this m this1 m1 this2 m2. init_kheap (replicate 4096 0) blank_mem = Inr (this, m) \<and>
     alloc this m 1000 False = Some (Inr (of_nat (unat (start_address this) + 9), this1, m1)) \<and>
     kheap_free this1 m1 (of_nat (unat (start_address this) + 9)) = Inr (this2, m2) \<and>
     kheap_inv this2 m2 [(49135, True)]"
proof -
  obtain this m where i: "kheap_inv this m [(49135, True)]" "init_kheap (replicate 4096 0) blank_mem = Inr (this, m)"
    "can_grow this 100" using sample_heap by blast
  obtain j q where "kheap_find_hole this m (of_nat 1000) False = Some (j, q)"
    using no_fit_sizes [OF i(1), of 1000 "[]" 49135 "[]"] by fastforce
  from alloc_plain_found [OF i(1) _ this] obtain this1 m1 pre s post where
    r: "[(49135, True)] = pre @ (s, True) # post"
     "alloc this m (of_nat 1000) False =
       Some (Inr (of_nat (unat (start_address this) + extent pre + 9), this1, m1))"
     "kheap_inv this1 m1 (pre @ carve s 1000 @ post)" "same_bounds this this1" by auto
  from r(1) have "pre = []" "s = 49135" "post = []" by (auto simp: Cons_eq_append_conv)
  then have 1: "kheap_inv this1 m1 ([] @ (1000, False) # [(48118, True)])"
    "alloc this m 1000 False = Some (Inr (of_nat (unat (start_address this) + 9), this1, m1))"
    using r by (simp_all add: carve_def)
  have "unat (oa_size (kh_index this1)) = 1" using inv_index_size [OF 1(1)] by simp
  moreover have "unat (oa_size (kh_index this)) = 1" using inv_index_size [OF i(1)] by simp
  ultimately have "oa_size (kh_index this1) < oa_max_size (kh_index this1)"
    using i(3) r(4) by (simp add: can_grow_def same_bounds_def word_less_nat_alt)
  from kheap_free_coalesces [OF 1(1) this] r(4) i(2) 1(2) show ?thesis
    by (auto simp: same_bounds_def freed_def absorb_prev_def)
qed

end
