(* ===== verification/Node_Seq_Spec.thy ===== *)
theory Node_Seq_Spec
  imports Prelude
begin

text \<open>
  What the users of the linked lists rely on. The scheduler, the keyboard driver and the condition
  variables append a node at the tail, take the node at the head, push a node to the head and
  unlink a node from the middle; the hash table moves whole chains. The interface is stated over
  an unspecified store \<open>'h\<close> and header \<open>'l\<close>: \<open>repr h l xs\<close> says that the header stands
  for the node sequence \<open>xs\<close>, and \<open>frame A h h'\<close> that only nodes of \<open>A\<close> were relinked.
\<close>

text \<open>Appending the nodes of a list one by one, and taking all nodes off the head.\<close>

fun append_all :: "('h \<Rightarrow> 'l \<Rightarrow> addr \<Rightarrow> ('h \<times> 'l) kres) \<Rightarrow> 'h \<Rightarrow> 'l \<Rightarrow> addr list \<Rightarrow> ('h \<times> 'l) kres" where
  "append_all app h l [] = Inr (h, l)"
| "append_all app h l (n # ns) =
     kbind (app h l n) (\<lambda>(h, l). append_all app h l ns)"

fun take_heads ::
  "('l \<Rightarrow> addr) \<Rightarrow> ('h \<Rightarrow> 'l \<Rightarrow> addr \<Rightarrow> ('h \<times> 'l) kres) \<Rightarrow> nat \<Rightarrow> 'h \<Rightarrow> 'l \<Rightarrow> (addr list \<times> 'h \<times> 'l) kres" where
  "take_heads hd_of remove 0 h l = Inr ([], h, l)"
| "take_heads hd_of remove (Suc n) h l =
     kbind (remove h l (hd_of l)) (\<lambda>(h', l').
       kbind (take_heads hd_of remove n h' l') (\<lambda>(ns, h'', l''). Inr (hd_of l # ns, h'', l'')))"

locale node_seq =
  fixes repr :: "'h \<Rightarrow> 'l \<Rightarrow> addr list \<Rightarrow> bool"
    and frame :: "addr set \<Rightarrow> 'h \<Rightarrow> 'h \<Rightarrow> bool"
    and hd_of :: "'l \<Rightarrow> addr"
    and app :: "'h \<Rightarrow> 'l \<Rightarrow> addr \<Rightarrow> ('h \<times> 'l) kres"
    and remove :: "'h \<Rightarrow> 'l \<Rightarrow> addr \<Rightarrow> ('h \<times> 'l) kres"
  assumes repr_distinct: "repr h l xs \<Longrightarrow> distinct xs \<and> NULL \<notin> set xs"
    and repr_head: "repr h l (x # xs) \<Longrightarrow> hd_of l = x"
    and repr_frame: "repr h l xs \<Longrightarrow> frame A h h' \<Longrightarrow> A \<inter> set xs = {} \<Longrightarrow> repr h' l xs"
    and frame_refl: "frame A h h"
    and frame_trans: "frame A h h' \<Longrightarrow> frame B h' h'' \<Longrightarrow> frame (A \<union> B) h h''"
    and frame_mono: "frame A h h' \<Longrightarrow> A \<subseteq> B \<Longrightarrow> frame B h h'"
    and append_repr: "repr h l xs \<Longrightarrow> n \<noteq> NULL \<Longrightarrow> n \<notin> set xs \<Longrightarrow> length xs + 1 < 2 ^ 32 \<Longrightarrow>
      \<exists>h' l'. app h l n = Inr (h', l') \<and> repr h' l' (xs @ [n]) \<and> frame (insert n (set xs)) h h'"
    and remove_repr: "repr h l (as @ n # bs) \<Longrightarrow>
      \<exists>h' l'. remove h l n = Inr (h', l') \<and> repr h' l' (as @ bs) \<and>
              frame (set (as @ n # bs)) h h'"
begin

lemma append_all_repr:
  assumes "repr h l xs" "distinct ns" "NULL \<notin> set ns" "set xs \<inter> set ns = {}"
    and "length xs + length ns < 2 ^ 32"
  shows "\<exists>h' l'. append_all app h l ns = Inr (h', l') \<and> repr h' l' (xs @ ns) \<and>
                 frame (set (xs @ ns)) h h'"
  using assms
proof (induction ns arbitrary: h l xs)
  case Nil
  then show ?case by (simp add: frame_refl)
next
  case (Cons n ns)
  from Cons.prems append_repr [of h l xs n] obtain h1 l1 where
    1: "app h l n = Inr (h1, l1)" "repr h1 l1 (xs @ [n])" "frame (insert n (set xs)) h h1"
    by auto
  from Cons.IH [OF 1(2)] Cons.prems obtain h2 l2 where
    2: "append_all app h1 l1 ns = Inr (h2, l2)" "repr h2 l2 (xs @ n # ns)"
      "frame (set (xs @ n # ns)) h1 h2"
    by auto
  have "frame (set (xs @ n # ns)) h h2"
    using frame_trans [OF 1(3) 2(3)] by (rule frame_mono) auto
  with 1 2 show ?case by simp
qed

lemma take_heads_repr:
  assumes "repr h l (xs @ ys)"
  shows "\<exists>h' l'. take_heads hd_of remove (length xs) h l = Inr (xs, h', l') \<and> repr h' l' ys \<and>
                 frame (set (xs @ ys)) h h'"
  using assms
proof (induction xs arbitrary: h l)
  case Nil
  then show ?case by (simp add: frame_refl)
next
  case (Cons x xs)
  from Cons.prems have x: "hd_of l = x" by (simp add: repr_head)
  from remove_repr [of h l "[]" x "xs @ ys"] Cons.prems obtain h1 l1 where
    1: "remove h l x = Inr (h1, l1)" "repr h1 l1 (xs @ ys)" "frame (set (x # xs @ ys)) h h1"
    by auto
  from Cons.IH [OF 1(2)] obtain h2 l2 where
    2: "take_heads hd_of remove (length xs) h1 l1 = Inr (xs, h2, l2)" "repr h2 l2 ys"
      "frame (set (xs @ ys)) h1 h2"
    by auto
  have "frame (set ((x # xs) @ ys)) h h2"
    using frame_trans [OF 1(3) 2(3)] by (rule frame_mono) auto
  with 1 2 x show ?case by simp
qed

text \<open>First in, first out: what was appended to an empty list comes off its head in order.\<close>

lemma fifo:
  assumes "repr h l []" "distinct ns" "NULL \<notin> set ns" "length ns < 2 ^ 32"
  shows "\<exists>h' l' h'' l''. append_all app h l ns = Inr (h', l') \<and>
    take_heads hd_of remove (length ns) h' l' = Inr (ns, h'', l'') \<and> repr h'' l'' []"
proof -
  from append_all_repr [OF assms(1-3)] assms(4) obtain h' l' where
    "append_all app h l ns = Inr (h', l')" "repr h' l' (ns @ [])" by auto
  with take_heads_repr [of h' l' ns "[]"] show ?thesis by auto
qed

end

end
