(* ===== verification/Linked_List.thy ===== *)
theory Linked_List
  imports Prelude Node_Seq_Spec
begin

text \<open>
  The doubly linked lists of \<^verbatim>\<open>src/src/utils/linked_list.c\<close>, which hold the scheduler's
  queues and the buckets of the hash table. The nodes live in an explicit store from addresses to
  node structs, so that the sharing of nodes between a list header, its neighbours and other
  queues is the code's. The representation predicate \<open>dll\<close> says which sequence of
  node addresses a header stands for; every operation refines an operation on that sequence.
\<close>

section \<open>Data and operations\<close>

record linked_list_node_t =
  ptr :: addr
  prev :: addr
  nxt :: addr

record linked_list_t =
  head :: addr
  tail :: addr
  list_size :: u32

type_synonym node_heap = "addr \<Rightarrow> linked_list_node_t"

text \<open>The assignments \<^verbatim>\<open>a->next = v\<close>, \<^verbatim>\<open>a->prev = v\<close> and \<^verbatim>\<open>a->ptr = v\<close>.\<close>

definition set_nxt :: "addr \<Rightarrow> addr \<Rightarrow> node_heap \<Rightarrow> node_heap" where
  "set_nxt a v h = h(a := (h a)\<lparr>nxt := v\<rparr>)"

definition set_prev :: "addr \<Rightarrow> addr \<Rightarrow> node_heap \<Rightarrow> node_heap" where
  "set_prev a v h = h(a := (h a)\<lparr>prev := v\<rparr>)"

definition set_ptr :: "addr \<Rightarrow> addr \<Rightarrow> node_heap \<Rightarrow> node_heap" where
  "set_ptr a v h = h(a := (h a)\<lparr>ptr := v\<rparr>)"

definition linked_list_init :: "linked_list_t \<Rightarrow> linked_list_t" where
  "linked_list_init l = l\<lparr>head := NULL, tail := NULL, list_size := 0\<rparr>"

definition linked_list_create :: "linked_list_t" where
  "linked_list_create = linked_list_init \<lparr>head = NULL, tail = NULL, list_size = 0\<rparr>"

definition linked_list_append ::
  "node_heap \<Rightarrow> linked_list_t \<Rightarrow> addr \<Rightarrow> (node_heap \<times> linked_list_t) kres" where
  "linked_list_append h this new_node =
     kassert (new_node \<noteq> NULL) ''new_node != NULL''
       (let h = set_nxt new_node NULL h
        in if list_size this = 0 then
             Inr (set_prev new_node NULL h,
                  this\<lparr>head := new_node, tail := new_node, list_size := list_size this + 1\<rparr>)
           else
             Inr (set_prev new_node (tail this) (set_nxt (tail this) new_node h),
                  this\<lparr>tail := new_node, list_size := list_size this + 1\<rparr>))"

definition linked_list_insert ::
  "node_heap \<Rightarrow> linked_list_t \<Rightarrow> addr \<Rightarrow> addr \<Rightarrow> node_heap \<times> linked_list_t" where
  "linked_list_insert h this node new_node =
     (let h = set_prev new_node node h;
          (next_node, h, this) =
            (if node \<noteq> NULL then (nxt (h node), set_nxt node new_node h, this)
             else (head this, h, this\<lparr>head := new_node\<rparr>));
          h = set_nxt new_node next_node h;
          (h, this) =
            (if next_node \<noteq> NULL then (set_prev next_node new_node h, this)
             else (h, this\<lparr>tail := new_node\<rparr>))
      in (h, this\<lparr>list_size := list_size this + 1\<rparr>))"

definition linked_list_insert_to_head ::
  "node_heap \<Rightarrow> linked_list_t \<Rightarrow> addr \<Rightarrow> node_heap \<times> linked_list_t" where
  "linked_list_insert_to_head h this new_node = linked_list_insert h this NULL new_node"

definition linked_list_remove ::
  "node_heap \<Rightarrow> linked_list_t \<Rightarrow> addr \<Rightarrow> (node_heap \<times> linked_list_t) kres" where
  "linked_list_remove h this node =
     kassert (node \<noteq> NULL) ''node != NULL''
       (if list_size this = 0 then Inr (h, this)
        else
          let prev_node = prev (h node); next_node = nxt (h node);
              (h, this) =
                (if prev_node \<noteq> NULL then (set_nxt prev_node next_node h, this)
                 else (h, this\<lparr>head := next_node\<rparr>));
              (h, this) =
                (if next_node \<noteq> NULL then (set_prev next_node prev_node h, this)
                 else (h, this\<lparr>tail := prev_node\<rparr>));
              h = set_nxt node NULL h;
              h = set_prev node NULL h
          in Inr (h, this\<lparr>list_size := list_size this - 1\<rparr>))"

text \<open>The result is the pair of the new \<^verbatim>\<open>dst\<close> and \<^verbatim>\<open>src\<close>.\<close>

definition linked_list_move :: "linked_list_t \<Rightarrow> linked_list_t \<Rightarrow> linked_list_t \<times> linked_list_t" where
  "linked_list_move dst src =
     (dst\<lparr>head := head src, tail := tail src, list_size := list_size src\<rparr>, linked_list_init src)"

text \<open>\<open>node\<close> is the address that \<^verbatim>\<open>kmalloc(sizeof(linked_list_node_t))\<close> returns.\<close>

definition linked_list_append_ele ::
  "node_heap \<Rightarrow> linked_list_t \<Rightarrow> addr \<Rightarrow> addr \<Rightarrow> (node_heap \<times> linked_list_t) kres" where
  "linked_list_append_ele h this node p = linked_list_append (set_ptr node p h) this node"

text \<open>The walk along the \<^verbatim>\<open>next\<close> pointers; \<open>None\<close> when it never ends.\<close>

partial_function (option) list_find :: "node_heap \<Rightarrow> (addr \<Rightarrow> bool) \<Rightarrow> addr \<Rightarrow> addr option" where
  "list_find h P node =
     (if node = NULL then Some NULL
      else if P (ptr (h node)) then Some node
      else list_find h P (nxt (h node)))"

definition linked_list_remove_ele ::
  "node_heap \<Rightarrow> linked_list_t \<Rightarrow> addr \<Rightarrow> (node_heap \<times> linked_list_t) kres option" where
  "linked_list_remove_ele h this p =
     (case list_find h (\<lambda>q. q = p) (head this) of
        None \<Rightarrow> None
      | Some node \<Rightarrow> Some (if node = NULL then Inr (h, this) else linked_list_remove h this node))"

section \<open>The sequence a list stands for\<close>

fun hd_or :: "'a \<Rightarrow> 'a list \<Rightarrow> 'a" where
  "hd_or d [] = d"
| "hd_or d (x # xs) = x"

fun last_or :: "'a \<Rightarrow> 'a list \<Rightarrow> 'a" where
  "last_or d [] = d"
| "last_or d (x # xs) = last_or x xs"

lemma hd_or_append [simp]: "hd_or d (xs @ ys) = hd_or (hd_or d ys) xs"
  by (cases xs) auto

lemma last_or_append [simp]: "last_or d (xs @ ys) = last_or (last_or d xs) ys"
  by (induction xs arbitrary: d) auto

text \<open>\<open>chain h p xs n\<close>: the nodes \<open>xs\<close> are linked both ways, between \<open>p\<close> and \<open>n\<close>.\<close>

fun chain :: "node_heap \<Rightarrow> addr \<Rightarrow> addr list \<Rightarrow> addr \<Rightarrow> bool" where
  "chain h p [] n = True"
| "chain h p (x # xs) n = (x \<noteq> NULL \<and> prev (h x) = p \<and> nxt (h x) = hd_or n xs \<and> chain h x xs n)"

definition dll :: "node_heap \<Rightarrow> linked_list_t \<Rightarrow> addr list \<Rightarrow> bool" where
  "dll h l xs \<longleftrightarrow>
     distinct xs \<and> chain h NULL xs NULL \<and> head l = hd_or NULL xs \<and> tail l = last_or NULL xs \<and>
     unat (list_size l) = length xs"

lemma chain_append:
  "chain h p (xs @ ys) n \<longleftrightarrow> chain h p xs (hd_or n ys) \<and> chain h (last_or p xs) ys n"
  by (induction xs arbitrary: p) auto

lemma chain_cong: "(\<And>x. x \<in> set xs \<Longrightarrow> h' x = h x) \<Longrightarrow> chain h' p xs n = chain h p xs n"
  by (induction xs arbitrary: p) auto

lemma chain_upd [simp]: "a \<notin> set xs \<Longrightarrow> chain (h(a := v)) p xs n = chain h p xs n"
  by (rule chain_cong) auto

lemma chain_nonnull: "chain h p xs n \<Longrightarrow> NULL \<notin> set xs"
  by (induction xs arbitrary: p) auto

lemma dll_cong: "(\<And>x. x \<in> set xs \<Longrightarrow> h' x = h x) \<Longrightarrow> dll h' l xs = dll h l xs"
  unfolding dll_def by (simp cong: chain_cong)

lemma dll_empty [simp]: "dll h (linked_list_init l) []"
  by (simp add: dll_def linked_list_init_def)

lemma dll_Nil_size: "dll h l xs \<Longrightarrow> list_size l = 0 \<longleftrightarrow> xs = []"
  by (auto simp: dll_def unat_eq_0)

lemmas heap_upd_defs = set_nxt_def set_prev_def set_ptr_def

section \<open>Refinement of the sequence operations\<close>

text \<open>What an operation leaves alone: nodes outside the list, and every node's element.\<close>

definition nodes_frame :: "addr set \<Rightarrow> node_heap \<Rightarrow> node_heap \<Rightarrow> bool" where
  "nodes_frame A h h' \<longleftrightarrow> (\<forall>a. a \<notin> A \<longrightarrow> h' a = h a) \<and> (\<forall>a. ptr (h' a) = ptr (h a))"

lemma linked_list_append_dll:
  assumes l: "dll h l xs" and n: "n \<noteq> NULL" "n \<notin> set xs" and room: "length xs + 1 < 2 ^ 32"
  shows "\<exists>h' l'. linked_list_append h l n = Inr (h', l') \<and> dll h' l' (xs @ [n]) \<and>
                 nodes_frame (insert n (set xs)) h h'"
proof -
  note defs = linked_list_append_def dll_def heap_upd_defs chain_append unat_succ32 nodes_frame_def
  show ?thesis
  proof (cases xs rule: rev_cases)
    case Nil
    with l have "list_size l = 0" by (simp add: dll_Nil_size)
    with Nil l n room show ?thesis by (simp add: defs)
  next
    case (snoc ys y)
    with l have "list_size l \<noteq> 0" by (simp add: dll_Nil_size)
    with snoc l n room show ?thesis by (auto simp: defs)
  qed
qed

lemma linked_list_remove_dll:
  assumes l: "dll h l (as @ n # bs)"
  shows "\<exists>h' l'. linked_list_remove h l n = Inr (h', l') \<and> dll h' l' (as @ bs) \<and>
    nodes_frame (set (as @ n # bs)) h h' \<and> nxt (h' n) = NULL \<and> prev (h' n) = NULL"
proof -
  have nz: "list_size l \<noteq> 0" using l by (auto simp: dll_def)
  from l have n: "prev (h n) = last_or NULL as" "nxt (h n) = hd_or NULL bs" "n \<noteq> NULL"
    by (auto simp: dll_def chain_append)
  note defs = linked_list_remove_def dll_def heap_upd_defs chain_append unat_pred32 n nz Let_def nodes_frame_def
  consider (only) "as = []" "bs = []" | (first) b cs where "as = []" "bs = b # cs"
    | (final) a as' where "as = as' @ [a]" "bs = []"
    | (mid) a as' b cs where "as = as' @ [a]" "bs = b # cs"
    by (cases as rule: rev_cases; cases bs) auto
  then show ?thesis
  proof cases
    case only with l show ?thesis by (simp add: defs)
  next
    case first with l show ?thesis by (auto simp: defs)
  next
    case final with l show ?thesis by (auto simp: defs)
  next
    case mid with l show ?thesis by (auto simp: defs)
  qed
qed

lemma linked_list_insert_dll:
  assumes l: "dll h l (as @ bs)" and n: "n \<noteq> NULL" "n \<notin> set (as @ bs)"
    and room: "length (as @ bs) + 1 < 2 ^ 32"
  shows "\<exists>h' l'. linked_list_insert h l (last_or NULL as) n = (h', l') \<and>
    dll h' l' (as @ n # bs) \<and> nodes_frame (set (as @ n # bs)) h h'"
proof -
  note defs = linked_list_insert_def dll_def heap_upd_defs chain_append unat_succ32 Let_def nodes_frame_def
  consider (only) "as = []" "bs = []" | (first) b cs where "as = []" "bs = b # cs"
    | (final) a as' where "as = as' @ [a]" "bs = []"
    | (mid) a as' b cs where "as = as' @ [a]" "bs = b # cs"
    by (cases as rule: rev_cases; cases bs) auto
  then show ?thesis
  proof cases
    case only with l n room show ?thesis by (simp add: defs)
  next
    case first with l n room show ?thesis by (auto simp: defs)
  next
    case final with l n room show ?thesis by (auto simp: defs)
  next
    case mid with l n room show ?thesis by (auto simp: defs)
  qed
qed

interpretation dl: node_seq dll nodes_frame head linked_list_append linked_list_remove
proof (unfold_locales, goal_cases)
  case (1 h l xs) then show ?case by (auto simp: dll_def dest: chain_nonnull)
next
  case (2 h l x xs) then show ?case by (simp add: dll_def)
next
  case (3 h l xs A h')
  then show ?case using dll_cong [of xs h' h l] by (auto simp: nodes_frame_def)
next
  case (4 A h) show ?case by (simp add: nodes_frame_def)
next
  case (5 A h h' B h'') then show ?case by (auto simp: nodes_frame_def)
next
  case (6 A h h' B) then show ?case by (auto simp: nodes_frame_def)
next
  case (7 h l xs n) then show ?case by (rule linked_list_append_dll)
next
  case (8 h l as n bs)
  from linked_list_remove_dll [OF this] show ?case by blast
qed

lemma list_find_chain:
  "chain h p xs NULL \<Longrightarrow>
   list_find h P (hd_or NULL xs) = Some (hd_or NULL (dropWhile (\<lambda>a. \<not> P (ptr (h a))) xs))"
proof (induction xs arbitrary: p)
  case Nil
  show ?case by (subst list_find.simps) simp
next
  case (Cons x xs)
  then show ?case by (subst list_find.simps) auto
qed

lemma linked_list_remove_ele_dll:
  assumes l: "dll h l xs"
  shows "\<exists>h' l'. linked_list_remove_ele h l p = Some (Inr (h', l')) \<and>
     dll h' l' (case List.extract (\<lambda>a. ptr (h a) = p) xs of None \<Rightarrow> xs | Some (as, _, bs) \<Rightarrow> as @ bs) \<and>
     nodes_frame (set xs) h h'"
proof -
  let ?Q = "\<lambda>a. ptr (h a) \<noteq> p"
  have f: "list_find h (\<lambda>q. q = p) (head l) = Some (hd_or NULL (dropWhile ?Q xs))"
    using l list_find_chain [of h NULL xs "\<lambda>q. q = p"] by (simp add: dll_def)
  show ?thesis
  proof (cases "dropWhile ?Q xs")
    case Nil
    then have "\<forall>x\<in>set xs. ptr (h x) \<noteq> p" by (simp add: dropWhile_eq_Nil_conv)
    then have "List.extract (\<lambda>a. ptr (h a) = p) xs = None" by (simp add: extract_None_iff)
    moreover from f Nil have "list_find h (\<lambda>q. q = p) (head l) = Some NULL" by simp
    ultimately show ?thesis using l by (simp add: linked_list_remove_ele_def nodes_frame_def)
  next
    case (Cons n bs)
    have xs: "xs = takeWhile ?Q xs @ n # bs" using Cons by (metis takeWhile_dropWhile_id)
    have "List.extract (\<lambda>a. ptr (h a) = p) xs = Some (takeWhile ?Q xs, n, bs)"
      by (simp add: extract_def Cons comp_def)
    moreover from l xs have "n \<noteq> NULL" using dl.repr_distinct [OF l] by (metis in_set_conv_decomp)
    moreover from linked_list_remove_dll [of h l "takeWhile ?Q xs" n bs] l xs obtain h' l' where
      "linked_list_remove h l n = Inr (h', l')" "dll h' l' (takeWhile ?Q xs @ bs)"
      "nodes_frame (set xs) h h'"
      by auto
    ultimately show ?thesis using f Cons by (simp add: linked_list_remove_ele_def)
  qed
qed

lemma linked_list_move_dll:
  assumes "dll h src xs" "linked_list_move dst src = (dst', src')"
  shows "dll h dst' xs \<and> dll h src' []"
  using assms by (auto simp: linked_list_move_def dll_def linked_list_init_def)

section \<open>Properties\<close>

text \<open>C13: a list used as a queue is first in, first out: appending any distinct non-null nodes to an
empty list and then removing the head as often gives the nodes back in the order they were appended,
and leaves the list empty.\<close>

theorem linked_list_fifo:
  assumes "dll h l []" "distinct ns" "NULL \<notin> set ns" "length ns < 2 ^ 32"
  shows "\<exists>h' l' h'' l''. append_all linked_list_append h l ns = Inr (h', l') \<and>
    take_heads head linked_list_remove (length ns) h' l' = Inr (ns, h'', l'') \<and> dll h'' l'' []"
  using assms by (rule dl.fifo)

definition blank_heap :: node_heap where
  "blank_heap = (\<lambda>_. \<lparr>ptr = 0, prev = 0, nxt = 0\<rparr>)"

theorem linked_list_fifo_witness:
  "\<exists>h' l' h'' l''. append_all linked_list_append blank_heap linked_list_create [16, 32, 48] = Inr (h', l') \<and>
    take_heads head linked_list_remove 3 h' l' = Inr ([16, 32, 48], h'', l'') \<and> dll h'' l'' []"
proof -
  have "dll blank_heap linked_list_create []" by (simp add: linked_list_create_def)
  from linked_list_fifo [OF this, of "[16, 32, 48]"] show ?thesis by (simp add: numeral_3_eq_3)
qed

text \<open>removing a node from any position of a well-formed list, with its four cases of missing
neighbours, stands for removing it from the sequence: the list stays well formed, the removed node is
unlinked on both sides, and no node outside the list and no element pointer changes.\<close>

lemma linked_list_remove_refines:
  assumes "dll h l (as @ n # bs)"
  shows "\<exists>h' l'. linked_list_remove h l n = Inr (h', l') \<and> dll h' l' (as @ bs) \<and>
    nodes_frame (set (as @ n # bs)) h h' \<and> nxt (h' n) = NULL \<and> prev (h' n) = NULL"
  using assms by (rule linked_list_remove_dll)

definition pair_heap :: node_heap where
  "pair_heap = blank_heap(16 := \<lparr>ptr = 1, prev = 0, nxt = 32\<rparr>, 32 := \<lparr>ptr = 2, prev = 16, nxt = 0\<rparr>)"

text \<open>inserting a node behind any node of a well-formed list, or at its head, stands for inserting
it at that position of the sequence; no node outside the list and no element pointer changes.\<close>

lemma linked_list_insert_refines:
  assumes "dll h l (as @ bs)" "n \<noteq> NULL" "n \<notin> set (as @ bs)" "length (as @ bs) + 1 < 2 ^ 32"
  shows "\<exists>h' l'. linked_list_insert h l (last_or NULL as) n = (h', l') \<and>
    dll h' l' (as @ n # bs) \<and> nodes_frame (set (as @ n # bs)) h h'"
  using assms by (rule linked_list_insert_dll)

text \<open>\<^verbatim>\<open>linked_list_remove_ele\<close> always ends on a well-formed list and removes exactly the
first node that carries the element; when no node carries it, the list is unchanged.\<close>

lemma linked_list_remove_ele_first:
  assumes "dll h l xs"
  shows "\<exists>h' l'. linked_list_remove_ele h l p = Some (Inr (h', l')) \<and>
     dll h' l' (case List.extract (\<lambda>a. ptr (h a) = p) xs of None \<Rightarrow> xs | Some (as, _, bs) \<Rightarrow> as @ bs) \<and>
     nodes_frame (set xs) h h'"
  using assms by (rule linked_list_remove_ele_dll)

end
