(* ===== verification/Ptr_Map_Spec.thy ===== *)
theory Ptr_Map_Spec
  imports Prelude
begin

text \<open>
  What the process and thread tables rely on (\<^verbatim>\<open>src/src/task/process.c\<close>,
  \<^verbatim>\<open>src/src/task/scheduler.c\<close>): a finite map from ids to pointers in which a lookup returns the
  pointer that was put last under the id, or null. A put needs memory; \<open>good a s\<close> says that the
  memory \<open>a\<close> the allocator hands out is not in use by the map in state \<open>s\<close>.
\<close>

definition value_of :: "addr option \<Rightarrow> addr" where
  "value_of r = (case r of None \<Rightarrow> NULL | Some v \<Rightarrow> v)"

lemma value_of_simps [simp]: "value_of None = NULL" "value_of (Some v) = v"
  by (simp_all add: value_of_def)

datatype 'a map_op = Put 'a u32 addr | Del u32

fun run_map ::
  "('a \<Rightarrow> 's \<Rightarrow> u32 \<Rightarrow> addr \<Rightarrow> (addr \<times> 's) option) \<Rightarrow> ('s \<Rightarrow> u32 \<Rightarrow> (addr \<times> 's) option) \<Rightarrow>
     's \<Rightarrow> 'a map_op list \<Rightarrow> 's option" where
  "run_map put del s [] = Some s"
| "run_map put del s (Put a k v # ops) =
     (case put a s k v of None \<Rightarrow> None | Some (_, s') \<Rightarrow> run_map put del s' ops)"
| "run_map put del s (Del k # ops) =
     (case del s k of None \<Rightarrow> None | Some (_, s') \<Rightarrow> run_map put del s' ops)"

text \<open>The same operations on a map, and the memory being good at each put of the run.\<close>

fun map_after :: "(u32 \<Rightarrow> addr option) \<Rightarrow> 'a map_op list \<Rightarrow> u32 \<Rightarrow> addr option" where
  "map_after M [] = M"
| "map_after M (Put a k v # ops) = map_after (M(k \<mapsto> v)) ops"
| "map_after M (Del k # ops) = map_after (M(k := None)) ops"

fun supplied ::
  "('a \<Rightarrow> 's \<Rightarrow> u32 \<Rightarrow> addr \<Rightarrow> (addr \<times> 's) option) \<Rightarrow> ('s \<Rightarrow> u32 \<Rightarrow> (addr \<times> 's) option) \<Rightarrow>
     ('a \<Rightarrow> 's \<Rightarrow> bool) \<Rightarrow> 's \<Rightarrow> 'a map_op list \<Rightarrow> bool" where
  "supplied put del good s [] \<longleftrightarrow> True"
| "supplied put del good s (Put a k v # ops) \<longleftrightarrow>
     good a s \<and> (case put a s k v of None \<Rightarrow> True | Some (_, s') \<Rightarrow> supplied put del good s' ops)"
| "supplied put del good s (Del k # ops) \<longleftrightarrow>
     (case del s k of None \<Rightarrow> True | Some (_, s') \<Rightarrow> supplied put del good s' ops)"

locale ptr_map =
  fixes repr :: "'s \<Rightarrow> (u32 \<Rightarrow> addr option) \<Rightarrow> bool"
    and get :: "'s \<Rightarrow> u32 \<Rightarrow> addr option"
    and put :: "'a \<Rightarrow> 's \<Rightarrow> u32 \<Rightarrow> addr \<Rightarrow> (addr \<times> 's) option"
    and del :: "'s \<Rightarrow> u32 \<Rightarrow> (addr \<times> 's) option"
    and good :: "'a \<Rightarrow> 's \<Rightarrow> bool"
  assumes get_repr: "repr s M \<Longrightarrow> get s k = Some (value_of (M k))"
    and put_repr: "repr s M \<Longrightarrow> good a s \<Longrightarrow>
      \<exists>s'. put a s k v = Some (value_of (M k), s') \<and> repr s' (M(k \<mapsto> v))"
    and del_repr: "repr s M \<Longrightarrow> \<exists>s'. del s k = Some (value_of (M k), s') \<and> repr s' (M(k := None))"
begin

lemma run_map_repr:
  assumes "repr s M" "supplied put del good s ops"
  shows "\<exists>s'. run_map put del s ops = Some s' \<and> repr s' (map_after M ops)"
  using assms
proof (induction ops arbitrary: s M)
  case (Cons op ops)
  show ?case
  proof (cases op)
    case (Put a k v)
    with Cons.prems put_repr [OF Cons.prems(1), of a k v] obtain s' where
      "put a s k v = Some (value_of (M k), s')" "repr s' (M(k \<mapsto> v))" by auto
    with Cons Put show ?thesis by auto
  next
    case (Del k)
    with del_repr [OF Cons.prems(1), of k] obtain s' where
      "del s k = Some (value_of (M k), s')" "repr s' (M(k := None))" by auto
    with Cons Del show ?thesis by auto
  qed
qed simp

lemma get_after_run:
  assumes "repr s M" "supplied put del good s ops"
  shows "\<exists>s'. run_map put del s ops = Some s' \<and> get s' k = Some (value_of (map_after M ops k))"
  using run_map_repr [OF assms] get_repr by blast

end

end
