(* ===== verification/Hash_Table.thy ===== *)
theory Hash_Table
  imports Linked_List Ptr_Map_Spec
begin

text \<open>
  The chained hash table of \<^verbatim>\<open>src/src/utils/hash_table.c\<close>, in which the kernel keeps its
  processes, the threads of a process and their exit codes. The nodes are in the node store of the
  linked lists and the key-value structs in a store of their own. The addresses that the calls of
  \<^verbatim>\<open>kmalloc\<close> return are arguments of the operations, and the addresses an operation passes to
  \<^verbatim>\<open>kfree\<close> are part of its result, in order.
\<close>

section \<open>Data and operations\<close>

record hash_table_kv_t =
  key :: u32
  v_ptr :: addr

type_synonym kv_store = "addr \<Rightarrow> hash_table_kv_t"

record hash_table_t =
  buckets_ptr :: addr
  buckets :: "linked_list_t list"
  buckets_num :: u32
  ht_size :: u32

record ht_mem =
  nodes :: node_heap
  kvs :: kv_store

definition INITIAL_BUCKETS_NUM :: u32 where "INITIAL_BUCKETS_NUM = 16"

text \<open>\<open>a_buckets\<close> is the address of the new array; its uninitialised headers are \<open>raw\<close>.\<close>

definition hash_table_init :: "addr \<Rightarrow> linked_list_t list \<Rightarrow> hash_table_t \<Rightarrow> hash_table_t" where
  "hash_table_init a_buckets raw this =
     this\<lparr>ht_size := 0, buckets_num := INITIAL_BUCKETS_NUM, buckets_ptr := a_buckets,
          buckets := map linked_list_init (take (unat INITIAL_BUCKETS_NUM) raw)\<rparr>"

definition hash_table_create :: "addr \<Rightarrow> linked_list_t list \<Rightarrow> hash_table_t" where
  "hash_table_create a_buckets raw =
     hash_table_init a_buckets raw \<lparr>buckets_ptr = NULL, buckets = [], buckets_num = 0, ht_size = 0\<rparr>"

definition bucket_index :: "hash_table_t \<Rightarrow> u32 \<Rightarrow> nat" where
  "bucket_index this k = unat (k mod buckets_num this)"

text \<open>The walk along one chain; \<open>None\<close> when it never ends.\<close>

definition hash_table_bucket_lookup :: "ht_mem \<Rightarrow> linked_list_t \<Rightarrow> u32 \<Rightarrow> addr option" where
  "hash_table_bucket_lookup m bucket k = list_find (nodes m) (\<lambda>p. key (kvs m p) = k) (head bucket)"

definition hash_table_get :: "ht_mem \<Rightarrow> hash_table_t \<Rightarrow> u32 \<Rightarrow> addr option" where
  "hash_table_get m this k =
     map_option (\<lambda>kv_node. if kv_node \<noteq> NULL then v_ptr (kvs m (ptr (nodes m kv_node))) else NULL)
       (hash_table_bucket_lookup m (buckets this ! bucket_index this k) k)"

text \<open>The inner loop of the expansion: every node of one old chain goes to the end of its new chain.\<close>

partial_function (option) move_nodes ::
  "kv_store \<Rightarrow> u32 \<Rightarrow> node_heap \<Rightarrow> linked_list_t \<Rightarrow> linked_list_t list \<Rightarrow> addr \<Rightarrow>
     (node_heap \<times> linked_list_t list) kres option" where
  "move_nodes kv new_num h bucket new_buckets kv_node =
     (if kv_node = NULL then Some (Inr (h, new_buckets))
      else
        (let crt_node = kv_node; p = ptr (h kv_node); kv_node = nxt (h crt_node)
         in case linked_list_remove h bucket crt_node of
              Inl e \<Rightarrow> Some (Inl e)
            | Inr (h, bucket) \<Rightarrow>
                (let j = unat (key (kv p) mod new_num)
                 in case linked_list_append h (new_buckets ! j) crt_node of
                      Inl e \<Rightarrow> Some (Inl e)
                    | Inr (h, b) \<Rightarrow> move_nodes kv new_num h bucket (new_buckets[j := b]) kv_node)))"

text \<open>The outer loop over the old chains.\<close>

fun move_buckets ::
  "kv_store \<Rightarrow> u32 \<Rightarrow> node_heap \<Rightarrow> linked_list_t list \<Rightarrow> linked_list_t list \<Rightarrow>
     (node_heap \<times> linked_list_t list) kres option" where
  "move_buckets kv new_num h [] new_buckets = Some (Inr (h, new_buckets))"
| "move_buckets kv new_num h (b # bs) new_buckets =
     (case move_nodes kv new_num h b new_buckets (head b) of
        None \<Rightarrow> None
      | Some (Inl e) \<Rightarrow> Some (Inl e)
      | Some (Inr (h, new_buckets)) \<Rightarrow> move_buckets kv new_num h bs new_buckets)"

definition hash_table_expand ::
  "addr \<Rightarrow> linked_list_t list \<Rightarrow> ht_mem \<Rightarrow> hash_table_t \<Rightarrow> (addr list \<times> ht_mem \<times> hash_table_t) kres option"
where
  "hash_table_expand a_buckets raw m this =
     (let new_num = buckets_num this * 2;
          new_buckets = map linked_list_init (take (unat new_num) raw)
      in map_option (\<lambda>r. kbind r (\<lambda>(h, new_buckets).
             Inr ([buckets_ptr this], m\<lparr>nodes := h\<rparr>,
                  this\<lparr>buckets_ptr := a_buckets, buckets := new_buckets, buckets_num := new_num\<rparr>)))
           (move_buckets (kvs m) new_num (nodes m) (buckets this) new_buckets))"

text \<open>\<^verbatim>\<open>this->size > this->buckets_num * 0.75\<close>, in double precision.\<close>

definition exceeds_load :: "u32 \<Rightarrow> u32 \<Rightarrow> bool" where
  "exceeds_load sz num \<longleftrightarrow> 4 * sint sz > 3 * sint num"

text \<open>
  The result of a put: the old value or null, the freed addresses, the memory and the table.
  \<open>a_kv\<close>, \<open>a_node\<close> and \<open>a_buckets\<close> are what the three calls of \<^verbatim>\<open>kmalloc\<close> return.
\<close>

definition hash_table_put ::
  "addr \<Rightarrow> addr \<Rightarrow> addr \<Rightarrow> linked_list_t list \<Rightarrow> ht_mem \<Rightarrow> hash_table_t \<Rightarrow> u32 \<Rightarrow> addr \<Rightarrow>
     (addr \<times> addr list \<times> ht_mem \<times> hash_table_t) kres option"
where
  "hash_table_put a_kv a_node a_buckets raw m this k v =
     (let i = bucket_index this k; bucket = buckets this ! i
      in case hash_table_bucket_lookup m bucket k of
           None \<Rightarrow> None
         | Some kv_node \<Rightarrow>
             if kv_node \<noteq> NULL then
               (let kv = ptr (nodes m kv_node); old_value_ptr = v_ptr (kvs m kv)
                in Some (Inr (old_value_ptr, [], m\<lparr>kvs := (kvs m)(kv := (kvs m kv)\<lparr>v_ptr := v\<rparr>)\<rparr>, this)))
             else
               (let m = m\<lparr>kvs := (kvs m)(a_kv := \<lparr>key = k, v_ptr = v\<rparr>)\<rparr>
                in case linked_list_append_ele (nodes m) bucket a_node a_kv of
                     Inl e \<Rightarrow> Some (Inl e)
                   | Inr (h, bucket) \<Rightarrow>
                       (let m = m\<lparr>nodes := h\<rparr>;
                            this = this\<lparr>buckets := (buckets this)[i := bucket], ht_size := ht_size this + 1\<rparr>
                        in if exceeds_load (ht_size this) (buckets_num this) then
                             map_option (\<lambda>r. kbind r (\<lambda>(fr, m, this). Inr (NULL, fr, m, this)))
                               (hash_table_expand a_buckets raw m this)
                           else Some (Inr (NULL, [], m, this)))))"

definition hash_table_remove ::
  "ht_mem \<Rightarrow> hash_table_t \<Rightarrow> u32 \<Rightarrow> (addr \<times> addr list \<times> ht_mem \<times> hash_table_t) kres option"
where
  "hash_table_remove m this k =
     (let i = bucket_index this k; bucket = buckets this ! i
      in case hash_table_bucket_lookup m bucket k of
           None \<Rightarrow> None
         | Some kv_node \<Rightarrow>
             if kv_node \<noteq> NULL then
               Some (kbind (linked_list_remove (nodes m) bucket kv_node) (\<lambda>(h, bucket).
                 let m = m\<lparr>nodes := h\<rparr>; kv = ptr (nodes m kv_node); value = v_ptr (kvs m kv)
                 in Inr (value, [kv, kv_node], m,
                         this\<lparr>buckets := (buckets this)[i := bucket], ht_size := ht_size this - 1\<rparr>)))
             else Some (Inr (NULL, [], m, this)))"

text \<open>The loops of \<^verbatim>\<open>hash_table_destroy\<close>: all key-value structs and nodes are freed.\<close>

partial_function (option) destroy_nodes ::
  "node_heap \<Rightarrow> linked_list_t \<Rightarrow> addr \<Rightarrow> addr list \<Rightarrow> (addr list \<times> node_heap \<times> linked_list_t) kres option" where
  "destroy_nodes h bucket kv_node fr =
     (if kv_node = NULL then Some (Inr (fr, h, bucket))
      else
        (let kv = ptr (h kv_node); crt_node = kv_node; kv_node = nxt (h crt_node)
         in case linked_list_remove h bucket crt_node of
              Inl e \<Rightarrow> Some (Inl e)
            | Inr (h, bucket) \<Rightarrow> destroy_nodes h bucket kv_node (fr @ [kv, crt_node])))"

fun destroy_buckets ::
  "node_heap \<Rightarrow> linked_list_t list \<Rightarrow> addr list \<Rightarrow> (addr list \<times> node_heap \<times> linked_list_t list) kres option" where
  "destroy_buckets h [] fr = Some (Inr (fr, h, []))"
| "destroy_buckets h (b # bs) fr =
     (case destroy_nodes h b (head b) fr of
        None \<Rightarrow> None
      | Some (Inl e) \<Rightarrow> Some (Inl e)
      | Some (Inr (fr, h, b)) \<Rightarrow>
          map_option (\<lambda>r. kbind r (\<lambda>(fr, h, bs). Inr (fr, h, b # bs))) (destroy_buckets h bs fr))"

definition hash_table_destroy ::
  "ht_mem \<Rightarrow> hash_table_t \<Rightarrow> (addr list \<times> ht_mem \<times> hash_table_t) kres option" where
  "hash_table_destroy m this =
     map_option (\<lambda>r. kbind r (\<lambda>(fr, h, bs).
         Inr (fr @ [buckets_ptr this], m\<lparr>nodes := h\<rparr>, this\<lparr>buckets := bs, ht_size := 0\<rparr>)))
       (destroy_buckets (nodes m) (buckets this) [])"

fun first_nonempty :: "linked_list_t list \<Rightarrow> addr" where
  "first_nonempty [] = NULL"
| "first_nonempty (b # bs) = (if head b \<noteq> NULL then head b else first_nonempty bs)"

definition hash_table_get_first :: "ht_mem \<Rightarrow> hash_table_t \<Rightarrow> addr" where
  "hash_table_get_first m this =
     (if ht_size this = 0 then NULL
      else let n = first_nonempty (buckets this)
           in if n \<noteq> NULL then v_ptr (kvs m (ptr (nodes m n))) else NULL)"

section \<open>Chains of a table\<close>

lemma disjoint_chains:
  "\<lbrakk>distinct (concat bss); i < length bss; j < length bss; i \<noteq> j\<rbrakk> \<Longrightarrow> set (bss ! i) \<inter> set (bss ! j) = {}"
proof (induction bss arbitrary: i j)
  case (Cons b bss)
  have *: "set b \<inter> set (bss ! k) = {}" if "k < length bss" for k
    using Cons.prems(1) that nth_mem by fastforce
  show ?case
    using Cons * [of "j - 1"] * [of "i - 1"] by (cases i; cases j) auto
qed simp

lemma mset_concat_update:
  "i < length bss \<Longrightarrow> mset (concat (bss[i := ys])) + mset (bss ! i) = mset (concat bss) + mset ys"
  by (induction bss arbitrary: i) (auto split: nat.splits)

lemma mset_concat_snoc:
  "i < length bss \<Longrightarrow> mset (concat (bss[i := bss ! i @ [x]])) = add_mset x (mset (concat bss))"
  using mset_concat_update [of i bss "bss ! i @ [x]"] by simp

lemma set_chain_subset: "i < length bss \<Longrightarrow> set (bss ! i) \<subseteq> set (concat bss)"
  using nth_mem by fastforce

text \<open>
  \<open>ht_chains h bks bss num kf\<close>: the headers \<open>bks\<close> stand for the node sequences \<open>bss\<close>, one for
  each of \<open>num\<close> buckets, and every node hangs in the bucket of its key \<open>kf\<close>.
\<close>

definition ht_chains ::
  "node_heap \<Rightarrow> linked_list_t list \<Rightarrow> addr list list \<Rightarrow> u32 \<Rightarrow> (addr \<Rightarrow> u32) \<Rightarrow> bool" where
  "ht_chains h bks bss num kf \<longleftrightarrow>
     num \<noteq> 0 \<and> length bks = unat num \<and> length bss = unat num \<and> distinct (concat bss) \<and>
     (\<forall>i < unat num. dll h (bks ! i) (bss ! i) \<and> (\<forall>n\<in>set (bss ! i). unat (kf n mod num) = i))"

lemma chains_frame:
  assumes "ht_chains h bks bss num kf" "nodes_frame A h h'" "A \<inter> set (concat bss) = {}"
  shows "ht_chains h' bks bss num kf"
proof -
  have "dll h' (bks ! i) (bss ! i)" if "i < unat num" for i
    using assms that set_chain_subset [of i bss]
    by (intro dl.repr_frame [of h _ _ A h']) (auto simp: ht_chains_def)
  with assms(1) show ?thesis by (simp add: ht_chains_def)
qed

lemma mod_less_unat: "num \<noteq> 0 \<Longrightarrow> unat ((k :: u32) mod num) < unat num"
  by (simp add: unat_mod unat_gt_0)

lemma chains_append:
  assumes c: "ht_chains h bks bss num kf" and x: "x \<noteq> NULL" "x \<notin> set (concat bss)"
    and len: "length (concat bss) + 1 < 4294967296" and j: "j = unat (kf x mod num)"
  shows "\<exists>h' b. linked_list_append h (bks ! j) x = Inr (h', b) \<and>
    ht_chains h' (bks[j := b]) (bss[j := bss ! j @ [x]]) num kf \<and>
    nodes_frame (insert x (set (concat bss))) h h'"
proof -
  have jl: "j < unat num" using c j by (simp add: ht_chains_def mod_less_unat)
  then have l: "dll h (bks ! j) (bss ! j)" "length bss = unat num" "length bks = unat num"
    using c by (auto simp: ht_chains_def)
  have sub: "set (bss ! j) \<subseteq> set (concat bss)" using jl l(2) set_chain_subset [of j bss] by (simp del: set_concat)
  have "length (bss ! j) \<le> length (concat bss)"
    using jl l(2) by (metis elem_le_sum_list length_concat length_map nth_map)
  then obtain h' b where r: "linked_list_append h (bks ! j) x = Inr (h', b)" "dll h' b (bss ! j @ [x])"
    "nodes_frame (insert x (set (bss ! j))) h h'"
    using dl.append_repr [OF l(1) x(1)] x(2) sub len by fastforce
  have "dll h' (bks ! i) (bss ! i)" if "i < unat num" "i \<noteq> j" for i
  proof (rule dl.repr_frame [OF _ r(3)])
    show "dll h (bks ! i) (bss ! i)" using c that by (simp add: ht_chains_def)
    have "set (bss ! i) \<inter> set (bss ! j) = {}" using c that jl l by (intro disjoint_chains) (auto simp: ht_chains_def)
    moreover have "x \<notin> set (bss ! i)" using x(2) set_chain_subset [of i bss] that l by auto
    ultimately show "insert x (set (bss ! j)) \<inter> set (bss ! i) = {}" by auto
  qed
  moreover have "distinct (concat (bss[j := bss ! j @ [x]]))"
    using mset_eq_imp_distinct_iff [of "concat (bss[j := bss ! j @ [x]])" "x # concat bss"]
      mset_concat_snoc [of j bss x] jl l(2) x(2) c by (simp add: ht_chains_def)
  ultimately have "ht_chains h' (bks[j := b]) (bss[j := bss ! j @ [x]]) num kf"
    using c r(2) jl l j by (auto simp: ht_chains_def nth_list_update)
  moreover have "nodes_frame (insert x (set (concat bss))) h h'"
    using r(3) sub by (intro dl.frame_mono [OF r(3)]) auto
  ultimately show ?thesis using r(1) by blast
qed

lemma move_nodes_chains:
  assumes "dll h b rs" "ht_chains h bks bss num kf" "set rs \<inter> set (concat bss) = {}"
    and "length rs + length (concat bss) < 4294967296"
    and "\<And>n. n \<in> set rs \<Longrightarrow> kf n = key (kv (ptr (h n)))"
  shows "\<exists>h' bks' bss'. move_nodes kv num h b bks (hd_or NULL rs) = Some (Inr (h', bks')) \<and>
    ht_chains h' bks' bss' num kf \<and> mset (concat bss') = mset rs + mset (concat bss) \<and>
    nodes_frame (set rs \<union> set (concat bss)) h h'"
  using assms
proof (induction rs arbitrary: h b bks bss)
  case Nil
  then show ?case by (subst move_nodes.simps) (auto intro!: exI [of _ bss] simp: dl.frame_refl)
next
  case (Cons x rs)
  have x: "x \<noteq> NULL" "nxt (h x) = hd_or NULL rs" "x \<notin> set rs" "x \<notin> set (concat bss)"
    using Cons.prems(1,3) by (auto simp: dll_def)
  obtain h1 b1 where r: "linked_list_remove h b x = Inr (h1, b1)" "dll h1 b1 rs" "nodes_frame (set (x # rs)) h h1"
    using dl.remove_repr [of h b "[]" x rs] Cons.prems(1) by auto
  have c1: "ht_chains h1 bks bss num kf" using chains_frame [OF Cons.prems(2) r(3) Cons.prems(3)] .
  let ?j = "unat (kf x mod num)"
  obtain h2 b2 where a: "linked_list_append h1 (bks ! ?j) x = Inr (h2, b2)"
    "ht_chains h2 (bks[?j := b2]) (bss[?j := bss ! ?j @ [x]]) num kf"
    "nodes_frame (insert x (set (concat bss))) h1 h2"
    using chains_append [OF c1 x(1,4) _ refl] Cons.prems(4) by auto
  let ?bss = "bss[?j := bss ! ?j @ [x]]"
  have jl: "?j < length bss" using Cons.prems(2) by (simp add: ht_chains_def mod_less_unat)
  note ms = mset_concat_snoc [OF jl, of x]
  have st: "set (concat ?bss) = insert x (set (concat bss))" using arg_cong [OF ms, of set_mset] by (simp del: set_concat)
  have ln: "length (concat ?bss) = Suc (length (concat bss))" using arg_cong [OF ms, of size] by (simp del: length_concat)
  have d2: "dll h2 b1 rs" using r(2) a(3) x(3) Cons.prems(3) by (intro dl.repr_frame [of h1 _ _ _ h2]) auto
  have pk: "kf n = key (kv (ptr (h2 n)))" if "n \<in> set rs" for n
    using Cons.prems(5) [of n] r(3) a(3) that by (simp add: nodes_frame_def)
  have "\<exists>h' bks' bss'. move_nodes kv num h2 b1 (bks[?j := b2]) (hd_or NULL rs) = Some (Inr (h', bks')) \<and>
      ht_chains h' bks' bss' num kf \<and> mset (concat bss') = mset rs + mset (concat ?bss) \<and>
      nodes_frame (set rs \<union> set (concat ?bss)) h2 h'"
    by (rule Cons.IH [OF d2 a(2)]) (use Cons.prems(3,4) x st ln pk in auto)
  then obtain h' bks' bss' where i: "move_nodes kv num h2 b1 (bks[?j := b2]) (hd_or NULL rs) = Some (Inr (h', bks'))"
    "ht_chains h' bks' bss' num kf" "mset (concat bss') = mset rs + mset (concat ?bss)"
    "nodes_frame (set rs \<union> set (concat ?bss)) h2 h'" by metis
  have "move_nodes kv num h b bks x = Some (Inr (h', bks'))"
    using x(1,2) r(1) a(1) i(1) Cons.prems(5) [of x] by (subst move_nodes.simps) (simp add: Let_def)
  moreover have "nodes_frame (set (x # rs) \<union> set (concat bss)) h h'"
    using dl.frame_trans [OF dl.frame_trans [OF r(3) a(3)] i(4)] by (rule dl.frame_mono) (auto simp: st simp del: set_concat)
  ultimately show ?case using i(2,3) ms by auto
qed

lemma list_all2_dll_frame:
  assumes "list_all2 (dll h) bs rss" "nodes_frame A h h'" "A \<inter> set (concat rss) = {}"
  shows "list_all2 (dll h') bs rss"
  using assms by (induction bs rss rule: list_all2_induct) (auto intro: dl.repr_frame)

lemma move_buckets_chains:
  assumes "list_all2 (dll h) bs rss" "ht_chains h bks bss num kf" "distinct (concat rss)"
    and "set (concat rss) \<inter> set (concat bss) = {}" "length (concat rss) + length (concat bss) < 4294967296"
    and "\<And>n. n \<in> set (concat rss) \<Longrightarrow> kf n = key (kv (ptr (h n)))"
  shows "\<exists>h' bks' bss'. move_buckets kv num h bs bks = Some (Inr (h', bks')) \<and>
    ht_chains h' bks' bss' num kf \<and> mset (concat bss') = mset (concat rss) + mset (concat bss) \<and>
    nodes_frame (set (concat rss) \<union> set (concat bss)) h h'"
  using assms
proof (induction rss arbitrary: h bs bks bss rule: list.induct)
  case Nil
  have "bs = []" using Nil.prems(1) by simp
  with Nil dl.frame_refl show ?case by (intro exI [of _ h] exI [of _ bks] exI [of _ bss]) simp
next
  case (Cons rs rss)
  then obtain b bs' where b: "bs = b # bs'" "dll h b rs" "list_all2 (dll h) bs' rss"
    by (auto simp: list_all2_Cons2)
  have "\<exists>h' bks' bss'. move_nodes kv num h b bks (hd_or NULL rs) = Some (Inr (h', bks')) \<and>
    ht_chains h' bks' bss' num kf \<and> mset (concat bss') = mset rs + mset (concat bss) \<and>
    nodes_frame (set rs \<union> set (concat bss)) h h'"
    by (rule move_nodes_chains [OF b(2) Cons.prems(2)]) (use Cons.prems in auto)
  then obtain h1 bks1 bss1 where 1: "move_nodes kv num h b bks (hd_or NULL rs) = Some (Inr (h1, bks1))"
    "ht_chains h1 bks1 bss1 num kf" "mset (concat bss1) = mset rs + mset (concat bss)"
    "nodes_frame (set rs \<union> set (concat bss)) h h1" by metis
  have st: "set (concat bss1) = set rs \<union> set (concat bss)"
    using arg_cong [OF 1(3), of set_mset] by (simp del: set_concat)
  have ln: "length (concat bss1) = length rs + length (concat bss)"
    using arg_cong [OF 1(3), of size] by (simp del: length_concat)
  have dj: "(set rs \<union> set (concat bss)) \<inter> set (concat rss) = {}" using Cons.prems(3,4) by auto
  have "\<exists>h' bks' bss'. move_buckets kv num h1 bs' bks1 = Some (Inr (h', bks')) \<and>
    ht_chains h' bks' bss' num kf \<and> mset (concat bss') = mset (concat rss) + mset (concat bss1) \<and>
    nodes_frame (set (concat rss) \<union> set (concat bss1)) h1 h'"
  proof (rule Cons.IH [OF list_all2_dll_frame [OF b(3) 1(4) dj] 1(2)])
    show "set (concat rss) \<inter> set (concat bss1) = {}" using dj st by auto
    show "length (concat rss) + length (concat bss1) < 4294967296" using Cons.prems(5) ln by (simp del: length_concat)
    show "kf n = key (kv (ptr (h1 n)))" if "n \<in> set (concat rss)" for n
      using Cons.prems(6) [of n] that 1(4) by (simp add: nodes_frame_def)
  qed (use Cons.prems(3) in simp)
  then obtain h2 bks2 bss2 where 2: "move_buckets kv num h1 bs' bks1 = Some (Inr (h2, bks2))"
    "ht_chains h2 bks2 bss2 num kf" "mset (concat bss2) = mset (concat rss) + mset (concat bss1)"
    "nodes_frame (set (concat rss) \<union> set (concat bss1)) h1 h2" by metis
  have "head b = hd_or NULL rs" using b(2) by (simp add: dll_def)
  then have "move_buckets kv num h bs bks = Some (Inr (h2, bks2))" using 1(1) 2(1) b(1) by simp
  moreover have "nodes_frame (set (concat (rs # rss)) \<union> set (concat bss)) h h2"
    using dl.frame_trans [OF 1(4) 2(4)] by (rule dl.frame_mono) (use st in auto)
  ultimately show ?case using 2(2,3) 1(3) by (auto simp: ac_simps)
qed

section \<open>The table as a map\<close>

definition node_kv :: "ht_mem \<Rightarrow> addr \<Rightarrow> addr" where
  "node_kv m n = ptr (nodes m n)"

definition node_key :: "ht_mem \<Rightarrow> addr \<Rightarrow> u32" where
  "node_key m n = key (kvs m (node_kv m n))"

definition node_val :: "ht_mem \<Rightarrow> addr \<Rightarrow> addr" where
  "node_val m n = v_ptr (kvs m (node_kv m n))"

lemmas node_defs = node_kv_def node_key_def node_val_def

text \<open>
  \<open>ht_rep m t ns M\<close>: the table stands for the map \<open>M\<close>, with the nodes \<open>ns\<close>. No two nodes share
  a key or a key-value struct.
\<close>

definition ht_rep :: "ht_mem \<Rightarrow> hash_table_t \<Rightarrow> addr list \<Rightarrow> (u32 \<Rightarrow> addr option) \<Rightarrow> bool" where
  "ht_rep m t ns M \<longleftrightarrow>
     (\<exists>bss. ht_chains (nodes m) (buckets t) bss (buckets_num t) (node_key m) \<and> mset ns = mset (concat bss)) \<and>
     distinct (map (node_kv m) ns) \<and> distinct (map (node_key m) ns) \<and>
     unat (ht_size t) = length ns \<and> M = map_of (map (\<lambda>n. (node_key m n, node_val m n)) ns)"

lemma ht_map_Some:
  "distinct (map (node_key m) ns) \<Longrightarrow>
     (map_of (map (\<lambda>n. (node_key m n, node_val m n)) ns) k = Some v) =
     (\<exists>n\<in>set ns. node_key m n = k \<and> node_val m n = v)"
  by (subst map_of_eq_Some_iff) (auto simp: comp_def)

text \<open>A lookup in the right bucket finds the node of the key, wherever it hangs in the table.\<close>

lemma bucket_lookup_cases:
  assumes c: "ht_chains (nodes m) (buckets t) bss (buckets_num t) (node_key m)"
    and ms: "mset ns = mset (concat bss)" and i: "i = bucket_index t k"
  obtains (found) as n bs where "hash_table_bucket_lookup m (buckets t ! i) k = Some n"
      "bss ! i = as @ n # bs" "n \<in> set ns" "node_key m n = k" "n \<noteq> NULL"
    | (absent) "hash_table_bucket_lookup m (buckets t ! i) k = Some NULL" "\<And>n. n \<in> set ns \<Longrightarrow> node_key m n \<noteq> k"
proof -
  let ?b = "buckets t ! i" and ?xs = "bss ! i"
  let ?Q = "\<lambda>a. node_key m a \<noteq> k"
  have il: "i < unat (buckets_num t)" using c i by (simp add: ht_chains_def bucket_index_def mod_less_unat)
  have d: "dll (nodes m) ?b ?xs" and lb: "length bss = unat (buckets_num t)" using c il by (auto simp: ht_chains_def)
  have st: "set ns = set (concat bss)" using ms by (metis set_mset_mset)
  have f: "hash_table_bucket_lookup m ?b k = Some (hd_or NULL (dropWhile ?Q ?xs))"
    using d list_find_chain [of "nodes m" NULL ?xs "\<lambda>p. key (kvs m p) = k"]
    by (simp add: hash_table_bucket_lookup_def dll_def node_defs)
  show ?thesis
  proof (cases "dropWhile ?Q ?xs")
    case Nil
    have "node_key m n \<noteq> k" if "n \<in> set ns" for n
    proof
      assume e: "node_key m n = k"
      obtain j where j: "j < length bss" "n \<in> set (bss ! j)" using \<open>n \<in> set ns\<close> st by (metis (no_types) UN_E in_set_conv_nth set_concat)
      then have "j = i" using c lb e i by (auto simp: ht_chains_def bucket_index_def)
      with j Nil e show False by (auto simp: dropWhile_eq_Nil_conv)
    qed
    with f Nil absent show ?thesis by simp
  next
    case (Cons n bs)
    then have xs: "?xs = takeWhile ?Q ?xs @ n # bs" and k: "node_key m n = k" by (auto simp: dropWhile_eq_Cons_conv)
    have "n \<in> set ?xs" by (subst xs) simp
    then have n: "n \<in> set ns" "n \<noteq> NULL"
      using set_chain_subset [of i bss] il lb st dl.repr_distinct [OF d] by auto
    have "hash_table_bucket_lookup m ?b k = Some n" using f Cons by simp
    from found [OF this xs n(1) k n(2)] show ?thesis .
  qed
qed

lemma ht_repE:
  assumes "ht_rep m t ns M"
  obtains bss where "ht_chains (nodes m) (buckets t) bss (buckets_num t) (node_key m)" "mset ns = mset (concat bss)"
  using assms by (auto simp: ht_rep_def)

lemma ht_rep_None: "ht_rep m t ns M \<Longrightarrow> (M k = None) = (\<forall>n\<in>set ns. node_key m n \<noteq> k)"
  by (force simp: ht_rep_def map_of_eq_None_iff)

lemma ht_rep_Some: "\<lbrakk>ht_rep m t ns M; n \<in> set ns; node_key m n = k\<rbrakk> \<Longrightarrow> M k = Some (node_val m n)"
  using ht_map_Some [of m ns k "node_val m n"] by (auto simp: ht_rep_def)

lemma hash_table_get_rep:
  assumes r: "ht_rep m t ns M"
  shows "hash_table_get m t k = Some (value_of (M k))"
proof -
  obtain bss where c: "ht_chains (nodes m) (buckets t) bss (buckets_num t) (node_key m)" "mset ns = mset (concat bss)"
    using r by (rule ht_repE)
  show ?thesis
  proof (cases rule: bucket_lookup_cases [OF c refl, of k])
    case (1 as n bs)
    with ht_rep_Some [OF r, of n k] show ?thesis by (simp add: hash_table_get_def node_defs)
  next
    case 2
    with ht_rep_None [OF r, of k] show ?thesis by (simp add: hash_table_get_def)
  qed
qed

lemma ht_chains_cong:
  assumes "\<And>n. n \<in> set (concat bss) \<Longrightarrow> h' n = h n \<and> kf' n = kf n"
  shows "ht_chains h' bks bss num kf' = ht_chains h bks bss num kf"
proof -
  have sub: "n \<in> set (concat bss)" if "length bss = unat num" "i < unat num" "n \<in> set (bss ! i)" for i n
    using that set_chain_subset [of i bss] by auto
  have "dll h' (bks ! i) (bss ! i) = dll h (bks ! i) (bss ! i)" if "length bss = unat num" "i < unat num" for i
    using dll_cong [of "bss ! i" h' h] assms sub that by blast
  then show ?thesis unfolding ht_chains_def using assms sub by (metis (no_types, lifting))
qed

lemma ht_chains_init:
  assumes "num \<noteq> 0" "unat num \<le> length raw"
  shows "ht_chains h (map linked_list_init (take (unat num) raw)) (replicate (unat num) []) num kf"
  using assms by (auto simp: ht_chains_def)

lemma hash_table_expand_rep:
  assumes r: "ht_rep m t ns M" and num: "unat (buckets_num t) * 2 < 4294967296"
    and raw: "unat (buckets_num t) * 2 \<le> length raw" and len: "length ns < 4294967296"
  shows "\<exists>m' t'. hash_table_expand a_buckets raw m t = Some (Inr ([buckets_ptr t], m', t')) \<and>
    ht_rep m' t' ns M \<and> map (node_kv m') ns = map (node_kv m) ns \<and>
    buckets_ptr t' = a_buckets \<and> unat (buckets_num t') = unat (buckets_num t) * 2"
proof -
  obtain bss where c: "ht_chains (nodes m) (buckets t) bss (buckets_num t) (node_key m)" "mset ns = mset (concat bss)"
    using r by (rule ht_repE)
  let ?num = "buckets_num t * 2"
  have u: "unat ?num = unat (buckets_num t) * 2" using num by (simp add: unat_word_ariths)
  have nz: "?num \<noteq> 0" using c(1) u by (auto simp: ht_chains_def unat_eq_0 simp flip: unat_eq_0)
  let ?new = "map linked_list_init (take (unat ?num) raw)"
  have ln: "length ns = length (concat bss)" using c(2) by (metis size_mset)
  have "\<exists>h' bks' bss'. move_buckets (kvs m) ?num (nodes m) (buckets t) ?new = Some (Inr (h', bks')) \<and>
    ht_chains h' bks' bss' ?num (node_key m) \<and> mset (concat bss') = mset (concat bss) + mset (concat (replicate (unat ?num) [])) \<and>
    nodes_frame (set (concat bss) \<union> set (concat (replicate (unat ?num) []))) (nodes m) h'"
  proof (rule move_buckets_chains)
    show "list_all2 (dll (nodes m)) (buckets t) bss"
      using c(1) by (simp add: ht_chains_def list_all2_conv_all_nth)
    show "ht_chains (nodes m) ?new (replicate (unat ?num) []) ?num (node_key m)"
      by (rule ht_chains_init) (use nz raw u in auto)
  qed (use c(1) len ln in \<open>auto simp: ht_chains_def node_defs simp del: length_concat\<close>)
  then obtain h' bks' bss' where m: "move_buckets (kvs m) ?num (nodes m) (buckets t) ?new = Some (Inr (h', bks'))"
    "ht_chains h' bks' bss' ?num (node_key m)" "mset (concat bss') = mset ns"
    "nodes_frame (set (concat bss)) (nodes m) h'" using c(2) by auto
  let ?m = "m\<lparr>nodes := h'\<rparr>" and ?t = "t\<lparr>buckets_ptr := a_buckets, buckets := bks', buckets_num := ?num\<rparr>"
  have f: "node_kv ?m = node_kv m" "node_key ?m = node_key m" "node_val ?m = node_val m"
    using m(4) by (auto simp: node_defs nodes_frame_def)
  have "ht_rep ?m ?t ns M" using r m(2,3) f unfolding ht_rep_def by (auto intro!: exI [of _ bss'])
  moreover have "hash_table_expand a_buckets raw m t = Some (Inr ([buckets_ptr t], ?m, ?t))"
    using m(1) by (simp add: hash_table_expand_def Let_def)
  ultimately show ?thesis using f u by auto
qed


lemma option_eq_Some: "(\<And>w. (a = Some w) = (b = Some w)) \<Longrightarrow> a = b"
  by (cases a; cases b) auto

lemma put_existing_rep:
  assumes r: "ht_rep m t ns M" and n: "n \<in> set ns" "node_key m n = k"
    and m': "m' = m\<lparr>kvs := (kvs m)(node_kv m n := (kvs m (node_kv m n))\<lparr>v_ptr := v\<rparr>)\<rparr>"
  shows "ht_rep m' t ns (M(k \<mapsto> v))" "map (node_kv m') ns = map (node_kv m) ns"
proof -
  have d: "distinct (map (node_kv m) ns)" "distinct (map (node_key m) ns)" using r by (auto simp: ht_rep_def)
  have f: "node_kv m' = node_kv m" "node_key m' = node_key m" by (auto simp: m' node_defs)
  have v: "node_val m' x = (if x = n then v else node_val m x)" if "x \<in> set ns" for x
    using that n(1) d(1) by (auto simp: m' node_val_def node_kv_def distinct_map inj_on_def)
  have inj: "node_key m x = k \<longleftrightarrow> x = n" if "x \<in> set ns" for x
    using that n d(2) by (auto simp: distinct_map inj_on_def)
  have M: "M = map_of (map (\<lambda>n. (node_key m n, node_val m n)) ns)" using r by (simp add: ht_rep_def)
  have e: "map_of (map (\<lambda>n. (node_key m' n, node_val m' n)) ns) q = (M(k \<mapsto> v)) q" for q
  proof (cases "q = k")
    case True
    then show ?thesis using ht_map_Some [of m' ns k v] d(2) f(2) v [OF n(1)] n by auto
  next
    case False
    have "(\<exists>x\<in>set ns. node_key m' x = q \<and> node_val m' x = w) = (\<exists>x\<in>set ns. node_key m x = q \<and> node_val m x = w)" for w
      using False v inj f(2) by auto
    then have "(map_of (map (\<lambda>n. (node_key m' n, node_val m' n)) ns) q = Some w) = (M q = Some w)" for w
      using ht_map_Some [of m' ns q w] ht_map_Some [of m ns q w] d(2) unfolding M f(2) by simp
    then have "map_of (map (\<lambda>n. (node_key m' n, node_val m' n)) ns) q = M q" by (rule option_eq_Some)
    with False show ?thesis by simp
  qed
  then have "map_of (map (\<lambda>n. (node_key m' n, node_val m' n)) ns) = M(k \<mapsto> v)" by (rule ext)
  moreover have "nodes m' = nodes m" by (simp add: m')
  ultimately show "ht_rep m' t ns (M(k \<mapsto> v))" "map (node_kv m') ns = map (node_kv m) ns"
    using r f by (simp_all add: ht_rep_def)
qed

lemma put_new_rep:
  assumes r: "ht_rep m t ns M" and k: "M k = None" and i: "i = bucket_index t k"
    and fresh: "a_node \<noteq> NULL" "a_node \<notin> set ns" "a_kv \<notin> set (map (node_kv m) ns)"
    and len: "length ns + 1 < 4294967296"
    and m1: "m1 = m\<lparr>kvs := (kvs m)(a_kv := \<lparr>key = k, v_ptr = v\<rparr>)\<rparr>"
  shows "\<exists>h b. linked_list_append_ele (nodes m1) (buckets t ! i) a_node a_kv = Inr (h, b) \<and>
    ht_rep (m1\<lparr>nodes := h\<rparr>) (t\<lparr>buckets := (buckets t)[i := b], ht_size := ht_size t + 1\<rparr>) (a_node # ns) (M(k \<mapsto> v)) \<and>
    map (node_kv (m1\<lparr>nodes := h\<rparr>)) (a_node # ns) = a_kv # map (node_kv m) ns"
proof -
  obtain bss where c: "ht_chains (nodes m) (buckets t) bss (buckets_num t) (node_key m)" "mset ns = mset (concat bss)"
    using r by (rule ht_repE)
  have st: "set ns = set (concat bss)" using c(2) by (metis set_mset_mset)
  have ln: "length ns = length (concat bss)" using c(2) by (metis size_mset)
  let ?h = "set_ptr a_node a_kv (nodes m)" and ?m = "m1\<lparr>nodes := set_ptr a_node a_kv (nodes m)\<rparr>"
  have old: "node_kv ?m n = node_kv m n" "node_key ?m n = node_key m n" "node_val ?m n = node_val m n" "?h n = nodes m n"
    if "n \<in> set ns" for n
    using that fresh by (auto simp: node_defs m1 set_ptr_def)
  have new: "node_kv ?m a_node = a_kv" "node_key ?m a_node = k" "node_val ?m a_node = v"
    by (simp_all add: node_defs m1 set_ptr_def)
  have c1: "ht_chains ?h (buckets t) bss (buckets_num t) (node_key ?m)"
    using ht_chains_cong [of bss ?h "nodes m" "node_key ?m" "node_key m"] c(1) old st by auto
  have ij: "i = unat (node_key ?m a_node mod buckets_num t)" using i new by (simp add: bucket_index_def)
  obtain h b where a: "linked_list_append ?h (buckets t ! i) a_node = Inr (h, b)"
    "ht_chains h ((buckets t)[i := b]) (bss[i := bss ! i @ [a_node]]) (buckets_num t) (node_key ?m)"
    "nodes_frame (insert a_node (set (concat bss))) ?h h"
    using chains_append [OF c1 fresh(1) _ _ ij] fresh(2) st ln len by auto
  have il: "i < length bss" using c(1) i by (simp add: ht_chains_def bucket_index_def mod_less_unat)
  let ?m2 = "m1\<lparr>nodes := h\<rparr>"
  have f: "node_kv ?m2 = node_kv ?m" "node_key ?m2 = node_key ?m" "node_val ?m2 = node_val ?m"
    using a(3) by (auto simp: node_defs nodes_frame_def)
  have ks: "map (node_kv ?m2) (a_node # ns) = a_kv # map (node_kv m) ns"
    "map (node_key ?m2) (a_node # ns) = k # map (node_key m) ns"
    "map (\<lambda>n. (node_key ?m2 n, node_val ?m2 n)) (a_node # ns) = (k, v) # map (\<lambda>n. (node_key m n, node_val m n)) ns"
    using f new old by auto
  have nk: "k \<notin> set (map (node_key m) ns)" using ht_rep_None [OF r, of k] k by auto
  have sz: "unat (ht_size t + 1) = Suc (length ns)" using r len by (simp add: ht_rep_def unat_succ32)
  have "mset (a_node # ns) = mset (concat (bss[i := bss ! i @ [a_node]]))"
    using mset_concat_snoc [OF il, of a_node] c(2) by simp
  then have "ht_rep ?m2 (t\<lparr>buckets := (buckets t)[i := b], ht_size := ht_size t + 1\<rparr>) (a_node # ns) (M(k \<mapsto> v))"
    unfolding ht_rep_def ks using r a(2) f(2) sz nk fresh(3)
    by (auto simp: ht_rep_def intro!: exI [of _ "bss[i := bss ! i @ [a_node]]"])
  then show ?thesis using a(1) ks(1) by (auto simp: linked_list_append_ele_def m1)
qed

text \<open>A put: the map is updated, the old value returned. The hypotheses say that the allocator returns
unused memory and that the table is smaller than the address space.\<close>

lemma hash_table_put_rep:
  assumes r: "ht_rep m t ns M"
    and fresh: "a_node \<noteq> NULL" "a_node \<notin> set ns" "a_kv \<notin> set (map (node_kv m) ns)"
    and len: "length ns + 1 < 4294967296" and num: "unat (buckets_num t) * 2 < 4294967296"
    and raw: "unat (buckets_num t) * 2 \<le> length raw"
  shows "\<exists>fr m' t' ns'. hash_table_put a_kv a_node a_buckets raw m t k v = Some (Inr (value_of (M k), fr, m', t')) \<and>
    ht_rep m' t' ns' (M(k \<mapsto> v)) \<and> ns' = (if M k = None then a_node # ns else ns) \<and>
    map (node_kv m') ns' = (if M k = None then a_kv # map (node_kv m) ns else map (node_kv m) ns) \<and>
    (fr = [] \<and> buckets_ptr t' = buckets_ptr t \<or> fr = [buckets_ptr t] \<and> buckets_ptr t' = a_buckets)"
proof -
  obtain bss where c: "ht_chains (nodes m) (buckets t) bss (buckets_num t) (node_key m)" "mset ns = mset (concat bss)"
    using r by (rule ht_repE)
  show ?thesis
  proof (cases rule: bucket_lookup_cases [OF c refl, of k])
    case (1 as n bs)
    have "M k = Some (node_val m n)" using ht_rep_Some [OF r 1(3,4)] .
    then show ?thesis
      using 1 put_existing_rep [OF r 1(3,4) refl, of v]
      by (simp add: hash_table_put_def Let_def node_val_def node_kv_def)
  next
    case 2
    have k: "M k = None" using ht_rep_None [OF r] 2(2) by blast
    let ?m1 = "m\<lparr>kvs := (kvs m)(a_kv := \<lparr>key = k, v_ptr = v\<rparr>)\<rparr>" and ?i = "bucket_index t k"
    obtain h b where a: "linked_list_append_ele (nodes ?m1) (buckets t ! ?i) a_node a_kv = Inr (h, b)"
      "ht_rep (?m1\<lparr>nodes := h\<rparr>) (t\<lparr>buckets := (buckets t)[?i := b], ht_size := ht_size t + 1\<rparr>) (a_node # ns) (M(k \<mapsto> v))"
      "map (node_kv (?m1\<lparr>nodes := h\<rparr>)) (a_node # ns) = a_kv # map (node_kv m) ns"
      using put_new_rep [OF r k refl fresh len refl, of v] by (elim exE conjE) (rule that)
    let ?t = "t\<lparr>buckets := (buckets t)[?i := b], ht_size := ht_size t + 1\<rparr>" and ?m = "?m1\<lparr>nodes := h\<rparr>"
    have p: "hash_table_put a_kv a_node a_buckets raw m t k v =
      (if exceeds_load (ht_size ?t) (buckets_num ?t)
       then map_option (\<lambda>r. kbind r (\<lambda>(fr, m, this). Inr (NULL, fr, m, this))) (hash_table_expand a_buckets raw ?m ?t)
       else Some (Inr (NULL, [], ?m, ?t)))"
      using 2(1) a(1) by (simp add: hash_table_put_def Let_def)
    show ?thesis
    proof (cases "exceeds_load (ht_size ?t) (buckets_num ?t)")
      case True
      obtain m' t' where e: "hash_table_expand a_buckets raw ?m ?t = Some (Inr ([buckets_ptr ?t], m', t'))"
        "ht_rep m' t' (a_node # ns) (M(k \<mapsto> v))" "map (node_kv m') (a_node # ns) = map (node_kv ?m) (a_node # ns)"
        "buckets_ptr t' = a_buckets"
        using hash_table_expand_rep [OF a(2), of raw a_buckets] num raw len by auto
      then show ?thesis using p True k a(3) by auto
    next
      case False
      then show ?thesis using p k a(2,3) by auto
    qed
  qed
qed

lemma chains_remove:
  assumes c: "ht_chains h bks bss num kf" and i: "i < unat num" and s: "bss ! i = as @ n # bs"
  shows "\<exists>h' b. linked_list_remove h (bks ! i) n = Inr (h', b) \<and>
    ht_chains h' (bks[i := b]) (bss[i := as @ bs]) num kf \<and>
    mset (concat bss) = add_mset n (mset (concat (bss[i := as @ bs]))) \<and> nodes_frame (set (concat bss)) h h'"
proof -
  have l: "dll h (bks ! i) (as @ n # bs)" "length bss = unat num" "length bks = unat num"
    using c i s by (auto simp: ht_chains_def)
  obtain h' b where r: "linked_list_remove h (bks ! i) n = Inr (h', b)" "dll h' b (as @ bs)"
    "nodes_frame (set (bss ! i)) h h'"
    using dl.remove_repr [OF l(1)] s by auto
  have ms: "mset (concat bss) = add_mset n (mset (concat (bss[i := as @ bs])))"
    using mset_concat_update [of i bss "as @ bs"] i l(2) s by simp
  have "dll h' (bks ! j) (bss ! j)" if "j < unat num" "j \<noteq> i" for j
  proof (rule dl.repr_frame [OF _ r(3)])
    show "dll h (bks ! j) (bss ! j)" using c that by (simp add: ht_chains_def)
    show "set (bss ! i) \<inter> set (bss ! j) = {}"
      using c that i l by (intro disjoint_chains) (auto simp: ht_chains_def)
  qed
  moreover have "distinct (n # concat (bss[i := as @ bs]))"
    using mset_eq_imp_distinct_iff [of "concat bss" "n # concat (bss[i := as @ bs])"] ms c by (simp add: ht_chains_def)
  ultimately have "ht_chains h' (bks[i := b]) (bss[i := as @ bs]) num kf"
    using c r(2) i l s by (auto simp: ht_chains_def nth_list_update)
  moreover have "nodes_frame (set (concat bss)) h h'"
    using set_chain_subset [of i bss] i l by (intro dl.frame_mono [OF r(3)]) auto
  ultimately show ?thesis using r(1) ms by blast
qed

lemma map_of_remove_key:
  "map_of (filter (\<lambda>p. fst p \<noteq> k) ps) = (map_of ps)(k := None)"
  by (induction ps) auto

lemma hash_table_remove_rep:
  assumes r: "ht_rep m t ns M"
  shows "\<exists>fr m' t' ns'. hash_table_remove m t k = Some (Inr (value_of (M k), fr, m', t')) \<and>
    ht_rep m' t' ns' (M(k := None)) \<and> mset (map (node_kv m') ns') + mset ns' + mset fr = mset (map (node_kv m) ns) + mset ns \<and>
    length fr = (if M k = None then 0 else 2) \<and> buckets_ptr t' = buckets_ptr t"
proof -
  obtain bss where c: "ht_chains (nodes m) (buckets t) bss (buckets_num t) (node_key m)" "mset ns = mset (concat bss)"
    using r by (rule ht_repE)
  let ?i = "bucket_index t k"
  have il: "?i < unat (buckets_num t)" using c(1) by (simp add: ht_chains_def bucket_index_def mod_less_unat)
  show ?thesis
  proof (cases rule: bucket_lookup_cases [OF c refl, of k])
    case (1 as n bs)
    obtain h b where a: "linked_list_remove (nodes m) (buckets t ! ?i) n = Inr (h, b)"
      "ht_chains h ((buckets t)[?i := b]) (bss[?i := as @ bs]) (buckets_num t) (node_key m)"
      "mset (concat bss) = add_mset n (mset (concat (bss[?i := as @ bs])))" "nodes_frame (set (concat bss)) (nodes m) h"
      using chains_remove [OF c(1) il 1(2)] by blast
    let ?m = "m\<lparr>nodes := h\<rparr>" and ?t = "t\<lparr>buckets := (buckets t)[?i := b], ht_size := ht_size t - 1\<rparr>"
    let ?ns = "remove1 n ns"
    have f: "node_kv ?m = node_kv m" "node_key ?m = node_key m" "node_val ?m = node_val m"
      using a(4) by (auto simp: node_defs nodes_frame_def)
    have d: "distinct (map (node_kv m) ns)" "distinct (map (node_key m) ns)" using r by (auto simp: ht_rep_def)
    have ns: "mset ns = add_mset n (mset ?ns)" using 1(3) by simp
    have fl: "?ns = filter (\<lambda>x. node_key m x \<noteq> k) ns"
    proof -
      have dn: "distinct ns" using d(1) by (simp add: distinct_map)
      have "remove1 n ns = filter (\<lambda>x. x \<noteq> n) ns" using dn by (simp add: distinct_remove1_removeAll removeAll_filter_not_eq eq_commute)
      also have "\<dots> = filter (\<lambda>x. node_key m x \<noteq> k) ns"
        using d(2) 1(3,4) by (intro filter_cong) (auto simp: distinct_map inj_on_def)
      finally show ?thesis .
    qed
    have M: "map_of (map (\<lambda>n. (node_key m n, node_val m n)) ?ns) = M(k := None)"
      using map_of_remove_key [of k "map (\<lambda>n. (node_key m n, node_val m n)) ns"] r
      by (simp add: fl ht_rep_def filter_map comp_def)
    have sz: "unat (ht_size t - 1) = length ?ns"
      using r 1(3) by (cases "ht_size t = 0") (auto simp: ht_rep_def unat_pred32 length_remove1)
    have "mset ?ns = mset (concat (bss[?i := as @ bs]))" using ns c(2) a(3) by simp
    then have "ht_rep ?m ?t ?ns (M(k := None))"
      unfolding ht_rep_def f M using a(2) d sz by (auto simp: fl distinct_map inj_on_def intro!: exI [of _ "bss[?i := as @ bs]"])
    moreover have "mset (map (node_kv m) ns) = add_mset (node_kv m n) (mset (map (node_kv m) ?ns))"
      using ns by (metis image_mset_add_mset mset_map)
    then have "mset (map (node_kv ?m) ?ns) + mset ?ns + mset [node_kv m n, n] = mset (map (node_kv m) ns) + mset ns"
      unfolding f ns by simp
    moreover have "hash_table_remove m t k = Some (Inr (value_of (M k), [node_kv m n, n], ?m, ?t))"
      using 1(1,5) a(1) ht_rep_Some [OF r 1(3,4)] f(1) [THEN fun_cong, of n]
      by (simp add: hash_table_remove_def Let_def node_val_def node_kv_def)
    ultimately show ?thesis using ht_rep_Some [OF r 1(3,4)]
      by (intro exI [of _ "[node_kv m n, n]"] exI [of _ ?m] exI [of _ ?t] exI [of _ ?ns]) simp
  next
    case 2
    have "M k = None" using ht_rep_None [OF r] 2(2) by blast
    moreover have "M(k := None) = M" using calculation by auto
    ultimately show ?thesis using 2(1) r by (auto simp: hash_table_remove_def Let_def)
  qed
qed

section \<open>Creation and destruction\<close>

lemma hash_table_create_rep:
  assumes "16 \<le> length raw"
  shows "ht_rep m (hash_table_create a_buckets raw) [] Map.empty"
  using ht_chains_init [of "INITIAL_BUCKETS_NUM" raw "nodes m" "node_key m"] assms
  by (auto simp: ht_rep_def hash_table_create_def hash_table_init_def INITIAL_BUCKETS_NUM_def
      intro!: exI [of _ "replicate 16 []"])

definition freed_of :: "node_heap \<Rightarrow> addr list \<Rightarrow> addr list" where
  "freed_of h ns = concat (map (\<lambda>n. [ptr (h n), n]) ns)"

lemma freed_of_frame: "nodes_frame A h h' \<Longrightarrow> freed_of h' ns = freed_of h ns"
  by (simp add: freed_of_def nodes_frame_def)

lemma mset_freed_of: "mset (freed_of h ns) = mset (map (\<lambda>n. ptr (h n)) ns) + mset ns"
  by (induction ns) (auto simp: freed_of_def)

lemma destroy_nodes_dll:
  "dll h b rs \<Longrightarrow> \<exists>h' b'. destroy_nodes h b (hd_or NULL rs) fr = Some (Inr (fr @ freed_of h rs, h', b')) \<and>
     nodes_frame (set rs) h h' \<and> dll h' b' []"
proof (induction rs arbitrary: h b fr)
  case Nil
  then show ?case by (subst destroy_nodes.simps) (simp add: freed_of_def dl.frame_refl)
next
  case (Cons x rs)
  have x: "x \<noteq> NULL" "nxt (h x) = hd_or NULL rs" using Cons.prems by (auto simp: dll_def)
  obtain h1 b1 where r: "linked_list_remove h b x = Inr (h1, b1)" "dll h1 b1 rs" "nodes_frame (set (x # rs)) h h1"
    using dl.remove_repr [of h b "[]" x rs] Cons.prems by auto
  obtain h' b' where i: "destroy_nodes h1 b1 (hd_or NULL rs) (fr @ [ptr (h x), x]) =
      Some (Inr ((fr @ [ptr (h x), x]) @ freed_of h1 rs, h', b'))"
    "nodes_frame (set rs) h1 h'" "dll h' b' []" using Cons.IH [OF r(2)] by blast
  have "destroy_nodes h b x fr = Some (Inr (fr @ freed_of h (x # rs), h', b'))"
    using x r(1) i(1) freed_of_frame [OF r(3), of rs]
    by (subst destroy_nodes.simps) (simp add: Let_def freed_of_def)
  moreover have "nodes_frame (set (x # rs)) h h'" using dl.frame_trans [OF r(3) i(2)] by (rule dl.frame_mono) auto
  ultimately show ?case using i(3) by auto
qed

lemma destroy_buckets_dll:
  assumes "list_all2 (dll h) bs rss" "distinct (concat rss)"
  shows "\<exists>h' bs'. destroy_buckets h bs fr = Some (Inr (fr @ freed_of h (concat rss), h', bs'))"
  using assms
proof (induction rss arbitrary: h bs fr rule: list.induct)
  case (Cons rs rss)
  then obtain b bs' where b: "bs = b # bs'" "dll h b rs" "list_all2 (dll h) bs' rss"
    by (auto simp: list_all2_Cons2)
  obtain h1 b1 where 1: "destroy_nodes h b (hd_or NULL rs) fr = Some (Inr (fr @ freed_of h rs, h1, b1))"
    "nodes_frame (set rs) h h1" using destroy_nodes_dll [OF b(2)] by blast
  have "list_all2 (dll h1) bs' rss" using list_all2_dll_frame [OF b(3) 1(2)] Cons.prems(2) by auto
  then obtain h2 bs2 where 2: "destroy_buckets h1 bs' (fr @ freed_of h rs) =
      Some (Inr ((fr @ freed_of h rs) @ freed_of h1 (concat rss), h2, bs2))"
    using Cons.IH Cons.prems(2) by (metis concat.simps(2) distinct_append)
  have "head b = hd_or NULL rs" using b(2) by (simp add: dll_def)
  then show ?case using b(1) 1 2 freed_of_frame [OF 1(2), of "concat rss"] by (simp add: freed_of_def)
qed (simp add: freed_of_def)

lemma hash_table_destroy_rep:
  assumes r: "ht_rep m t ns M"
  shows "\<exists>fr m' t'. hash_table_destroy m t = Some (Inr (fr, m', t')) \<and>
    mset fr = mset (map (node_kv m) ns) + mset ns + {#buckets_ptr t#} \<and> ht_size t' = 0"
proof -
  obtain bss where c: "ht_chains (nodes m) (buckets t) bss (buckets_num t) (node_key m)" "mset ns = mset (concat bss)"
    using r by (rule ht_repE)
  have "list_all2 (dll (nodes m)) (buckets t) bss" "distinct (concat bss)"
    using c(1) by (simp_all add: ht_chains_def list_all2_conv_all_nth)
  from destroy_buckets_dll [OF this, of "[]"] obtain h' bs' where
    d: "destroy_buckets (nodes m) (buckets t) [] = Some (Inr (freed_of (nodes m) (concat bss), h', bs'))" by auto
  have "mset (map (node_kv m) ns) = mset (map (\<lambda>n. ptr (nodes m n)) (concat bss))"
    using c(2) by (metis (no_types, lifting) mset_map node_kv_def ext)
  then show ?thesis using d c(2) by (auto simp: hash_table_destroy_def mset_freed_of simp del: map_concat mset_concat)
qed

section \<open>The map contract\<close>

type_synonym ht_supply = "addr \<times> addr \<times> addr \<times> linked_list_t list"

definition ht_put :: "ht_supply \<Rightarrow> ht_mem \<times> hash_table_t \<Rightarrow> u32 \<Rightarrow> addr \<Rightarrow> (addr \<times> ht_mem \<times> hash_table_t) option" where
  "ht_put a s k v = (case a of (a_kv, a_node, a_buckets, raw) \<Rightarrow>
     (case hash_table_put a_kv a_node a_buckets raw (fst s) (snd s) k v of
        Some (Inr (old, fr, m, t)) \<Rightarrow> Some (old, m, t) | _ \<Rightarrow> None))"

definition ht_del :: "ht_mem \<times> hash_table_t \<Rightarrow> u32 \<Rightarrow> (addr \<times> ht_mem \<times> hash_table_t) option" where
  "ht_del s k = (case hash_table_remove (fst s) (snd s) k of
     Some (Inr (old, fr, m, t)) \<Rightarrow> Some (old, m, t) | _ \<Rightarrow> None)"

definition ht_repr :: "ht_mem \<times> hash_table_t \<Rightarrow> (u32 \<Rightarrow> addr option) \<Rightarrow> bool" where
  "ht_repr s M \<longleftrightarrow> (\<exists>ns. ht_rep (fst s) (snd s) ns M)"

text \<open>Memory an allocator may hand to a put: not in use by the table, and an array of the right size;
the table has not filled the address space.\<close>

definition ht_good :: "ht_supply \<Rightarrow> ht_mem \<times> hash_table_t \<Rightarrow> bool" where
  "ht_good a s \<longleftrightarrow> (case a of (a_kv, a_node, a_buckets, raw) \<Rightarrow>
     a_node \<noteq> NULL \<and> unat (buckets_num (snd s)) * 2 < 4294967296 \<and>
     unat (buckets_num (snd s)) * 2 \<le> length raw \<and>
     (\<forall>ns M. ht_rep (fst s) (snd s) ns M \<longrightarrow>
        a_node \<notin> set ns \<and> a_kv \<notin> set (map (node_kv (fst s)) ns) \<and> length ns + 1 < 4294967296))"

interpretation ht: ptr_map ht_repr "\<lambda>s. hash_table_get (fst s) (snd s)" ht_put ht_del ht_good
proof (unfold_locales, goal_cases)
  case (1 s M k)
  then show ?case by (auto simp: ht_repr_def hash_table_get_rep)
next
  case (2 s M a k v)
  obtain a_kv a_node a_buckets raw where a: "a = (a_kv, a_node, a_buckets, raw)" by (cases a)
  obtain ns where r: "ht_rep (fst s) (snd s) ns M" using 2(1) by (auto simp: ht_repr_def)
  have "\<exists>fr m' t' ns'. hash_table_put a_kv a_node a_buckets raw (fst s) (snd s) k v = Some (Inr (value_of (M k), fr, m', t')) \<and>
    ht_rep m' t' ns' (M(k \<mapsto> v))"
    using hash_table_put_rep [OF r, of a_node a_kv raw a_buckets k v] 2(2) r unfolding ht_good_def a by fastforce
  then show ?case by (auto simp: ht_put_def a ht_repr_def)
next
  case (3 s M k)
  then obtain ns where "ht_rep (fst s) (snd s) ns M" by (auto simp: ht_repr_def)
  from hash_table_remove_rep [OF this, of k] show ?case by (auto simp: ht_del_def ht_repr_def)
qed

section \<open>Properties\<close>

text \<open>C16: whatever sequence of insertions and removals runs on a newly created table, with expansions
in between, every operation terminates without an assertion failing, and a later lookup of any key
returns the value that was inserted last under it and not removed since, or null.\<close>

theorem hash_table_is_map:
  assumes "16 \<le> length raw" "supplied ht_put ht_del ht_good (m, hash_table_create a_buckets raw) ops"
  shows "\<exists>s. run_map ht_put ht_del (m, hash_table_create a_buckets raw) ops = Some s \<and>
    hash_table_get (fst s) (snd s) k = Some (value_of (map_after Map.empty ops k))"
proof -
  have "ht_repr (m, hash_table_create a_buckets raw) Map.empty"
    using hash_table_create_rep [OF assms(1)] by (auto simp: ht_repr_def)
  from ht.get_after_run [OF this assms(2)] show ?thesis by simp
qed

definition blank_ht_mem :: ht_mem where
  "blank_ht_mem = \<lparr>nodes = blank_heap, kvs = (\<lambda>_. \<lparr>key = 0, v_ptr = 0\<rparr>)\<rparr>"

definition raw_buckets :: "nat \<Rightarrow> linked_list_t list" where
  "raw_buckets n = replicate n \<lparr>head = 0xDEAD, tail = 0xBEEF, list_size = 77\<rparr>"

lemma sample_supply:
  "ht_good (96, 64, 4096, raw_buckets 32) (blank_ht_mem, hash_table_create 2048 (raw_buckets 16))"
  by (auto simp: ht_good_def ht_rep_def raw_buckets_def hash_table_create_def hash_table_init_def INITIAL_BUCKETS_NUM_def)

theorem hash_table_is_map_witness:
  "\<exists>s. run_map ht_put ht_del (blank_ht_mem, hash_table_create 2048 (raw_buckets 16))
      [Put (96, 64, 4096, raw_buckets 32) 7 0x1234] = Some s \<and> hash_table_get (fst s) (snd s) 7 = Some 0x1234"
proof -
  have "supplied ht_put ht_del ht_good (blank_ht_mem, hash_table_create 2048 (raw_buckets 16))
      [Put (96, 64, 4096, raw_buckets 32) 7 0x1234]"
    using sample_supply by (simp split: option.splits)
  from hash_table_is_map [OF _ this, of 7] show ?thesis by (simp add: raw_buckets_def)
qed

text \<open>an insertion into any well-formed table updates the map it stands for at this key only and
returns the old value, also when the insertion pushes the load over three quarters and every node is
moved to a table of twice the size; only the old bucket array is freed then.\<close>

lemma hash_table_put_updates:
  assumes "ht_rep m t ns M"
    and "a_node \<noteq> NULL" "a_node \<notin> set ns" "a_kv \<notin> set (map (node_kv m) ns)"
    and "length ns + 1 < 4294967296" "unat (buckets_num t) * 2 < 4294967296"
    and "unat (buckets_num t) * 2 \<le> length raw"
  shows "\<exists>fr m' t' ns'. hash_table_put a_kv a_node a_buckets raw m t k v = Some (Inr (value_of (M k), fr, m', t')) \<and>
    ht_rep m' t' ns' (M(k \<mapsto> v)) \<and> set ns' = (if M k = None then insert a_node (set ns) else set ns) \<and>
    (fr = [] \<and> buckets_ptr t' = buckets_ptr t \<or> fr = [buckets_ptr t] \<and> buckets_ptr t' = a_buckets)"
  using hash_table_put_rep [OF assms, of a_buckets k v] by fastforce

text \<open>destroying a table gives back to the heap every node, every key-value struct and the bucket
array, each exactly once.\<close>

lemma hash_table_destroy_frees_all:
  assumes "ht_rep m t ns M"
  shows "\<exists>fr m' t'. hash_table_destroy m t = Some (Inr (fr, m', t')) \<and>
    mset fr = mset (map (node_kv m) ns) + mset ns + {#buckets_ptr t#}"
  using hash_table_destroy_rep [OF assms] by blast

end
