(* ===== verification/Keyboard_Read.thy ===== *)
theory Keyboard_Read
  imports Prelude
begin

text \<open>
  The scancode decoder of \<^verbatim>\<open>src/src/driver/keyboard_read.c\<close>: a state machine that turns the bytes
  of the keyboard controller into status words with a character, a raw key code and flags. The three
  static variables are the record \<open>kh_state\<close>; the two big \<^verbatim>\<open>switch\<close> statements are tables for
  the cases that only compute a code, and explicit branches for those that change the state.
\<close>

section \<open>Constants and status words\<close>

definition KH_LSHIFT_KEY :: u16 where "KH_LSHIFT_KEY = 0x8000"
definition KH_RSHIFT_KEY :: u16 where "KH_RSHIFT_KEY = 0x4000"
definition KH_LCONTROL_KEY :: u16 where "KH_LCONTROL_KEY = 0x2000"
definition KH_RCONTROL_KEY :: u16 where "KH_RCONTROL_KEY = 0x1000"
definition KH_LALT_KEY :: u16 where "KH_LALT_KEY = 0x0800"
definition KH_RALT_KEY :: u16 where "KH_RALT_KEY = 0x0400"
definition KH_CAPS_LOCK :: u16 where "KH_CAPS_LOCK = 0x0200"
definition KH_NUM_LOCK :: u16 where "KH_NUM_LOCK = 0x0100"
definition KH_PRSCR_UP_SCAN :: u16 where "KH_PRSCR_UP_SCAN = 0x0008"
definition KH_PRSCR_DOWN_SCAN :: u16 where "KH_PRSCR_DOWN_SCAN = 0x0004"
definition KH_PAUSE_SCAN :: u16 where "KH_PAUSE_SCAN = 0x0002"
definition KH_EXTENDED_SCAN :: u16 where "KH_EXTENDED_SCAN = 0x0001"
definition KH_RESULT_HASRAW :: u32 where "KH_RESULT_HASRAW = 0x08"
definition KH_RESULT_HASDATA :: u32 where "KH_RESULT_HASDATA = 0x04"
definition KH_RESULT_NUMPAD :: u32 where "KH_RESULT_NUMPAD = 0x02"
definition KH_RESULT_MAKE :: u32 where "KH_RESULT_MAKE = 0x01"

text \<open>The upper code plane of \<^verbatim>\<open>enum kh_extended_e\<close>, in its order.\<close>

definition KHE_UNDEFINED :: u8 where "KHE_UNDEFINED = 0x80"
definition KHE_ARROW_UP :: u8 where "KHE_ARROW_UP = 0x81"
definition KHE_ARROW_LEFT :: u8 where "KHE_ARROW_LEFT = 0x82"
definition KHE_ARROW_DOWN :: u8 where "KHE_ARROW_DOWN = 0x83"
definition KHE_ARROW_RIGHT :: u8 where "KHE_ARROW_RIGHT = 0x84"
definition KHE_LALT :: u8 where "KHE_LALT = 0x85"
definition KHE_RALT :: u8 where "KHE_RALT = 0x86"
definition KHE_LCTL :: u8 where "KHE_LCTL = 0x87"
definition KHE_RCTL :: u8 where "KHE_RCTL = 0x88"
definition KHE_LSHIFT :: u8 where "KHE_LSHIFT = 0x89"
definition KHE_RSHIFT :: u8 where "KHE_RSHIFT = 0x8A"
definition KHE_CAPSLOCK :: u8 where "KHE_CAPSLOCK = 0x8B"
definition KHE_NUMLOCK :: u8 where "KHE_NUMLOCK = 0x8C"
definition KHE_F :: "nat \<Rightarrow> u8" where "KHE_F n = 0x8C + of_nat n"
definition KHE_PAUSE :: u8 where "KHE_PAUSE = 0x99"
definition KHE_PRINT_SCREEN :: u8 where "KHE_PRINT_SCREEN = 0x9A"

definition KH_GETRAW :: "u32 \<Rightarrow> u8" where "KH_GETRAW k = ucast (drop_bit 8 k)"
definition KH_GETCHAR :: "u32 \<Rightarrow> u8" where "KH_GETCHAR k = ucast k"
definition KH_HASRAW :: "u32 \<Rightarrow> bool" where "KH_HASRAW k \<longleftrightarrow> drop_bit 16 k AND KH_RESULT_HASRAW \<noteq> 0"
definition KH_HASDATA :: "u32 \<Rightarrow> bool" where "KH_HASDATA k \<longleftrightarrow> drop_bit 16 k AND KH_RESULT_HASDATA \<noteq> 0"
definition KH_NUMPAD :: "u32 \<Rightarrow> bool" where "KH_NUMPAD k \<longleftrightarrow> drop_bit 16 k AND KH_RESULT_NUMPAD \<noteq> 0"
definition KH_ISMAKE :: "u32 \<Rightarrow> bool" where "KH_ISMAKE k \<longleftrightarrow> drop_bit 16 k AND KH_RESULT_MAKE \<noteq> 0"

record kh_state =
  key_state :: u16
  key_internal_state :: u16
  key_sequence :: u32

definition shift_down_p :: "u16 \<Rightarrow> bool" where
  "shift_down_p ks \<longleftrightarrow> ks AND (KH_LSHIFT_KEY OR KH_RSHIFT_KEY) \<noteq> 0"

definition ctl_down_p :: "u16 \<Rightarrow> bool" where
  "ctl_down_p ks \<longleftrightarrow> ks AND (KH_LCONTROL_KEY OR KH_RCONTROL_KEY) \<noteq> 0"

definition caps_p :: "u16 \<Rightarrow> bool" where
  "caps_p ks \<longleftrightarrow> ks AND KH_CAPS_LOCK \<noteq> 0"

text \<open>The macros: the pair of the code and the raw code.\<close>

definition KHS_SHIFT :: "u16 \<Rightarrow> u8 \<Rightarrow> u8 \<Rightarrow> u8 \<times> u8" where
  "KHS_SHIFT ks s u = (if shift_down_p ks then s else u, u)"

definition KHS_SHIFTCTL :: "u16 \<Rightarrow> u8 \<Rightarrow> u8 \<Rightarrow> u8 \<Rightarrow> u8 \<times> u8" where
  "KHS_SHIFTCTL ks cc s u = (if ctl_down_p ks then cc else if shift_down_p ks then s else u, u)"

definition KHS_SHIFTCAPSCTL :: "u16 \<Rightarrow> u8 \<Rightarrow> u8 \<Rightarrow> u8 \<Rightarrow> u8 \<times> u8" where
  "KHS_SHIFTCAPSCTL ks cc s u =
     (if ctl_down_p ks then cc
      else if (shift_down_p ks \<or> caps_p ks) \<and> \<not> (shift_down_p ks \<and> caps_p ks) then s else u, u)"

text \<open>What a case of the switch does to the two codes: \<^verbatim>\<open>rcode = code = c\<close> or one of the macros.\<close>

datatype key_entry = Same u8 | Shift u8 u8 | ShiftCtl u8 u8 u8 | ShiftCapsCtl u8 u8 u8

fun key_codes :: "u16 \<Rightarrow> key_entry \<Rightarrow> u8 \<times> u8" where
  "key_codes ks (Same c) = (c, c)"
| "key_codes ks (Shift s u) = KHS_SHIFT ks s u"
| "key_codes ks (ShiftCtl cc s u) = KHS_SHIFTCTL ks cc s u"
| "key_codes ks (ShiftCapsCtl cc s u) = KHS_SHIFTCAPSCTL ks cc s u"

definition ch :: "char \<Rightarrow> u8" where "ch c = of_char c"

section \<open>Simple scancodes\<close>

text \<open>The cases of the first \<^verbatim>\<open>switch\<close> that only compute a code, in the order of the source.\<close>

definition simple_keys1 :: "(u32 \<times> key_entry) list" where
  "simple_keys1 =
    [(0x01, Same 0x1B),
     (0x02, Shift (ch CHR ''!'') (ch CHR ''1'')),
     (0x03, ShiftCtl 0x00 (ch CHR ''@'') (ch CHR ''2'')),
     (0x04, Shift (ch CHR ''#'') (ch CHR ''3'')),
     (0x05, Shift (ch CHR ''$'') (ch CHR ''4'')),
     (0x06, Shift (ch CHR ''%'') (ch CHR ''5'')),
     (0x07, ShiftCtl 0x1E (ch CHR ''^'') (ch CHR ''6'')),
     (0x08, Shift (ch CHR ''&'') (ch CHR ''7'')),
     (0x09, Shift (ch CHR ''*'') (ch CHR ''8'')),
     (0x0A, Shift (ch CHR ''('') (ch CHR ''9'')),
     (0x0B, Shift (ch CHR '')'') (ch CHR ''0'')),
     (0x0C, ShiftCtl 0x1F (ch CHR ''_'') (ch CHR ''-'')),
     (0x0D, Shift (ch CHR ''+'') (ch CHR ''='')),
     (0x0E, Same 8),
     (0x0F, Same 9),
     (0x10, ShiftCapsCtl 0x11 (ch CHR ''Q'') (ch CHR ''q'')),
     (0x11, ShiftCapsCtl 0x17 (ch CHR ''W'') (ch CHR ''w'')),
     (0x12, ShiftCapsCtl 0x05 (ch CHR ''E'') (ch CHR ''e'')),
     (0x13, ShiftCapsCtl 0x12 (ch CHR ''R'') (ch CHR ''r'')),
     (0x14, ShiftCapsCtl 0x14 (ch CHR ''T'') (ch CHR ''t'')),
     (0x15, ShiftCapsCtl 0x19 (ch CHR ''Y'') (ch CHR ''y'')),
     (0x16, ShiftCapsCtl 0x15 (ch CHR ''U'') (ch CHR ''u'')),
     (0x17, ShiftCapsCtl 0x09 (ch CHR ''I'') (ch CHR ''i'')),
     (0x18, ShiftCapsCtl 0x0F (ch CHR ''O'') (ch CHR ''o'')),
     (0x19, ShiftCapsCtl 0x10 (ch CHR ''P'') (ch CHR ''p'')),
     (0x1A, ShiftCapsCtl 0x1B (ch CHR ''{'') (ch CHR ''['')),
     (0x1B, ShiftCapsCtl 0x1D (ch CHR ''}'') (ch CHR '']'')),
     (0x1C, Same 10)]"

definition simple_keys2 :: "(u32 \<times> key_entry) list" where
  "simple_keys2 =
    [(0x1E, ShiftCapsCtl 0x01 (ch CHR ''A'') (ch CHR ''a'')),
     (0x1F, ShiftCapsCtl 0x13 (ch CHR ''S'') (ch CHR ''s'')),
     (0x20, ShiftCapsCtl 0x04 (ch CHR ''D'') (ch CHR ''d'')),
     (0x21, ShiftCapsCtl 0x06 (ch CHR ''F'') (ch CHR ''f'')),
     (0x22, ShiftCapsCtl 0x07 (ch CHR ''G'') (ch CHR ''g'')),
     (0x23, ShiftCapsCtl 0x08 (ch CHR ''H'') (ch CHR ''h'')),
     (0x24, ShiftCapsCtl 0x0A (ch CHR ''J'') (ch CHR ''j'')),
     (0x25, ShiftCapsCtl 0x0B (ch CHR ''K'') (ch CHR ''k'')),
     (0x26, ShiftCapsCtl 0x0C (ch CHR ''L'') (ch CHR ''l'')),
     (0x27, Shift (ch CHR '':'') (ch CHR '';'')),
     (0x28, Shift (ch CHR 0x22) (ch CHR 0x27)),
     (0x29, Shift (ch CHR ''~'') (ch CHR 0x60)),
     (0x2B, ShiftCtl 0x1C (ch CHR ''|'') (ch CHR 0x5C)),
     (0x2C, ShiftCapsCtl 0x1A (ch CHR ''Z'') (ch CHR ''z'')),
     (0x2D, ShiftCapsCtl 0x18 (ch CHR ''X'') (ch CHR ''x'')),
     (0x2E, ShiftCapsCtl 0x03 (ch CHR ''C'') (ch CHR ''c'')),
     (0x2F, ShiftCapsCtl 0x16 (ch CHR ''V'') (ch CHR ''v'')),
     (0x30, ShiftCapsCtl 0x02 (ch CHR ''B'') (ch CHR ''b'')),
     (0x31, ShiftCapsCtl 0x0E (ch CHR ''N'') (ch CHR ''n'')),
     (0x32, ShiftCapsCtl 0x0D (ch CHR ''M'') (ch CHR ''m'')),
     (0x33, Shift (ch CHR ''<'') (ch CHR '','')),
     (0x34, Shift (ch CHR ''>'') (ch CHR ''.'')),
     (0x35, Shift (ch CHR ''?'') (ch CHR ''/''))]"

definition simple_keys3 :: "(u32 \<times> key_entry) list" where
  "simple_keys3 =
    [(0x39, Same (ch CHR '' '')),
     (0x3B, Same (KHE_F 1)), (0x3C, Same (KHE_F 2)), (0x3D, Same (KHE_F 3)), (0x3E, Same (KHE_F 4)),
     (0x3F, Same (KHE_F 5)), (0x40, Same (KHE_F 6)), (0x41, Same (KHE_F 7)), (0x42, Same (KHE_F 8)),
     (0x43, Same (KHE_F 9)), (0x44, Same (KHE_F 10)),
     (0x57, Same (KHE_F 11)), (0x58, Same (KHE_F 12))]"

text \<open>The keys of the numeric pad, which also set \<^verbatim>\<open>KH_RESULT_NUMPAD\<close>.\<close>

definition numpad_keys :: "(u32 \<times> u8) list" where
  "numpad_keys =
    [(0x37, ch CHR ''*''), (0x47, ch CHR ''7''), (0x48, ch CHR ''8''), (0x49, ch CHR ''9''),
     (0x4A, ch CHR ''-''), (0x4B, ch CHR ''4''), (0x4C, ch CHR ''5''), (0x4D, ch CHR ''6''),
     (0x4E, ch CHR ''+''), (0x4F, ch CHR ''1''), (0x50, ch CHR ''2''), (0x51, ch CHR ''3''),
     (0x52, ch CHR ''0''), (0x53, ch CHR ''.'')]"

definition simple_lookup :: "u32 \<Rightarrow> key_entry option" where
  "simple_lookup k = map_of (simple_keys1 @ simple_keys2 @ simple_keys3) k"

definition set_key :: "u16 \<Rightarrow> bool \<Rightarrow> kh_state \<Rightarrow> kh_state" where
  "set_key msk pressed s =
     s\<lparr>key_state := if pressed then key_state s OR msk else key_state s AND NOT msk\<rparr>"

definition toggle_key :: "u16 \<Rightarrow> bool \<Rightarrow> kh_state \<Rightarrow> kh_state" where
  "toggle_key msk pressed s =
     (if pressed then
        s\<lparr>key_state := if key_state s AND msk \<noteq> 0 then key_state s AND NOT msk else key_state s OR msk\<rparr>
      else s)"

definition end_pause :: "kh_state \<Rightarrow> kh_state" where
  "end_pause s = s\<lparr>key_internal_state := key_internal_state s AND NOT KH_PAUSE_SCAN, key_sequence := 0\<rparr>"

definition in_scan :: "u16 \<Rightarrow> kh_state \<Rightarrow> bool" where
  "in_scan msk s \<longleftrightarrow> key_internal_state s AND msk \<noteq> 0"

text \<open>The common tail of both functions.\<close>

definition finish :: "u32 \<Rightarrow> u8 \<Rightarrow> u8 \<Rightarrow> u32" where
  "finish res code rcode =
     (let (res, code) =
            (if rcode \<noteq> KHE_UNDEFINED \<and> code \<noteq> KHE_UNDEFINED
             then (res OR push_bit 16 KH_RESULT_HASDATA, code) else (res, 0))
      in res OR ucast code OR push_bit 8 (ucast rcode) OR push_bit 16 KH_RESULT_HASRAW)"

definition process_simple_scan :: "kh_state \<Rightarrow> u32 \<Rightarrow> bool \<Rightarrow> u32 \<times> kh_state" where
  "process_simple_scan s scancode pressed =
     (let k = scancode AND 0x7F; ks = key_state s;
          modifier = (\<lambda>rcode s. (finish 0 0x80 rcode, s))
      in case simple_lookup k of
           Some e \<Rightarrow> (let (code, rcode) = key_codes ks e in (finish 0 code rcode, s))
         | None \<Rightarrow>
        (case map_of numpad_keys k of
           Some c \<Rightarrow> (finish (push_bit 16 KH_RESULT_NUMPAD) c c, s)
         | None \<Rightarrow>
           if k = 0x1D then
             (if in_scan KH_PAUSE_SCAN s \<and> key_sequence s = 0 then (0, s\<lparr>key_sequence := key_sequence s + 1\<rparr>)
              else modifier KHE_LCTL (set_key KH_LCONTROL_KEY pressed (end_pause s)))
           else if k = 0x2A then modifier KHE_LSHIFT (set_key KH_LSHIFT_KEY pressed s)
           else if k = 0x36 then modifier KHE_RSHIFT (set_key KH_RSHIFT_KEY pressed s)
           else if k = 0x38 then modifier KHE_LALT (set_key KH_LALT_KEY pressed s)
           else if k = 0x3A then modifier KHE_CAPSLOCK (toggle_key KH_CAPS_LOCK pressed s)
           else if k = 0x45 then
             (if in_scan KH_PAUSE_SCAN s \<and> key_sequence s = 1 then (0, s\<lparr>key_sequence := key_sequence s + 1\<rparr>)
              else modifier KHE_NUMLOCK (toggle_key KH_NUM_LOCK pressed (end_pause s)))
           else if k = 0x61 then
             (if \<not> in_scan KH_PAUSE_SCAN s then
                (0, s\<lparr>key_internal_state := key_internal_state s OR KH_PAUSE_SCAN, key_sequence := 0\<rparr>)
              else if in_scan KH_PAUSE_SCAN s \<and> key_sequence s = 2 then
                (0, s\<lparr>key_sequence := key_sequence s + 1\<rparr>)
              else (finish 0 KHE_UNDEFINED KHE_UNDEFINED, end_pause s))
           else (finish 0 KHE_UNDEFINED KHE_UNDEFINED, s)))"

section \<open>Extended scancodes\<close>

definition extended_keys :: "(u32 \<times> u8) list" where
  "extended_keys =
    [(0x48, KHE_ARROW_UP), (0x4B, KHE_ARROW_LEFT), (0x4D, KHE_ARROW_RIGHT), (0x50, KHE_ARROW_DOWN), (0x53, 0x7F)]"

definition end_extended :: "kh_state \<Rightarrow> kh_state" where
  "end_extended s = s\<lparr>key_internal_state := key_internal_state s AND NOT KH_EXTENDED_SCAN\<rparr>"

definition end_scan :: "u16 \<Rightarrow> kh_state \<Rightarrow> kh_state" where
  "end_scan msk s = s\<lparr>key_internal_state := key_internal_state s AND NOT msk\<rparr>"

definition process_extended_scan :: "kh_state \<Rightarrow> u32 \<Rightarrow> bool \<Rightarrow> u32 \<times> kh_state" where
  "process_extended_scan s keypress pressed =
     (let k = keypress AND 0x7F; done = (\<lambda>res code rcode s. (finish res code rcode, end_extended s));
          numpad = push_bit 16 KH_RESULT_NUMPAD
      in if k = 0x1C then done numpad 10 10 s
         else if k = 0x1D then done 0 0x80 KHE_RCTL (set_key KH_RCONTROL_KEY pressed s)
         else if k = 0x2A then
           (if in_scan KH_PRSCR_UP_SCAN s then
              done 0 KHE_PRINT_SCREEN KHE_PRINT_SCREEN (end_scan KH_PRSCR_UP_SCAN s)
            else (0, end_extended (s\<lparr>key_internal_state := key_internal_state s OR KH_PRSCR_DOWN_SCAN\<rparr>)))
         else if k = 0x35 then done numpad (ch CHR ''/'') (ch CHR ''/'') s
         else if k = 0x37 then
           (if in_scan KH_PRSCR_DOWN_SCAN s then
              done 0 KHE_PRINT_SCREEN KHE_PRINT_SCREEN (end_scan KH_PRSCR_DOWN_SCAN s)
            else (0, end_extended (s\<lparr>key_internal_state := key_internal_state s OR KH_PRSCR_UP_SCAN\<rparr>)))
         else if k = 0x38 then done 0 0x80 KHE_RALT (set_key KH_RALT_KEY pressed s)
         else case map_of extended_keys k of
                Some c \<Rightarrow> done 0 c c s
              | None \<Rightarrow> done 0 KHE_UNDEFINED KHE_UNDEFINED s)"

section \<open>The entry point\<close>

definition process_scancode :: "kh_state \<Rightarrow> u32 \<Rightarrow> u32 \<times> kh_state" where
  "process_scancode s keypress =
     (let pressed = (keypress AND 0x80 = 0); keycode = keypress AND 0x7F;
          tail = (\<lambda>(res, s).
             let res = (if pressed then res OR push_bit 16 KH_RESULT_MAKE else res)
             in (res OR push_bit 16 (ucast (key_state s AND 0xFF00)), s));
          deflt = (\<lambda>s. tail (process_simple_scan
                     (end_scan (KH_PRSCR_UP_SCAN OR KH_PRSCR_DOWN_SCAN) s) keycode pressed))
      in if in_scan KH_EXTENDED_SCAN s then tail (process_extended_scan s keycode pressed)
         else if keypress AND 0xFF = 0x9D then
           (if in_scan KH_PAUSE_SCAN s \<and> key_sequence s = 3 then (0, s\<lparr>key_sequence := key_sequence s + 1\<rparr>)
            else deflt (end_pause s))
         else if keypress AND 0xFF = 0xC5 then
           (if in_scan KH_PAUSE_SCAN s \<and> key_sequence s = 4 then
              tail (ucast KHE_PAUSE OR push_bit 8 (ucast KHE_PAUSE) OR push_bit 16 KH_RESULT_HASDATA,
                    end_scan KH_PAUSE_SCAN s)
            else deflt (end_pause s))
         else if keypress AND 0xFF = 0xE0 then
           (push_bit 16 (ucast (key_state s)), s\<lparr>key_internal_state := key_internal_state s OR KH_EXTENDED_SCAN\<rparr>)
         else deflt s)"

section \<open>Fields of a status word\<close>

lemmas kh_result_consts = KH_RESULT_HASRAW_def KH_RESULT_HASDATA_def KH_RESULT_NUMPAD_def KH_RESULT_MAKE_def

lemma KH_HASDATA_bit: "KH_HASDATA k \<longleftrightarrow> bit k 18"
  using and_exp_eq_0_iff [of "drop_bit 16 k" 2] by (simp add: KH_HASDATA_def kh_result_consts bit_simps)

lemma KH_ISMAKE_bit: "KH_ISMAKE k \<longleftrightarrow> bit k 16"
  using and_exp_eq_0_iff [of "drop_bit 16 k" 0] by (simp add: KH_ISMAKE_def kh_result_consts bit_simps)

lemma u8_bit: "bit (w :: u8) n \<Longrightarrow> n < 8"
  using bit_imp_le_length by fastforce

lemma KH_GETCHAR_high [simp]:
  "KH_GETCHAR (x OR push_bit 16 y) = KH_GETCHAR x" "KH_GETRAW (x OR push_bit 16 y) = KH_GETRAW x"
  by (rule bit_word_eqI; auto simp: KH_GETCHAR_def KH_GETRAW_def bit_simps)+

lemma KH_GETCHAR_finish:
  "KH_GETCHAR (finish 0 code rcode) = (if rcode \<noteq> KHE_UNDEFINED \<and> code \<noteq> KHE_UNDEFINED then code else 0)"
  by (rule bit_word_eqI) (auto simp: finish_def KH_GETCHAR_def bit_simps Let_def)

lemma KH_GETRAW_finish: "KH_GETRAW (finish 0 code rcode) = rcode"
  by (rule bit_word_eqI) (auto simp: finish_def KH_GETRAW_def bit_simps Let_def dest: u8_bit)

lemma KH_HASDATA_finish: "KH_HASDATA (finish 0 code rcode) \<longleftrightarrow> rcode \<noteq> KHE_UNDEFINED \<and> code \<noteq> KHE_UNDEFINED"
  by (auto simp: finish_def KH_HASDATA_bit bit_simps Let_def kh_result_consts dest: u8_bit)

section \<open>Letters\<close>

definition letter_keys :: "(u32 \<times> char) list" where
  "letter_keys = zip [0x10, 0x11, 0x12, 0x13, 0x14, 0x15, 0x16, 0x17, 0x18, 0x19] ''qwertyuiop'' @
     zip [0x1E, 0x1F, 0x20, 0x21, 0x22, 0x23, 0x24, 0x25, 0x26] ''asdfghjkl'' @
     zip [0x2C, 0x2D, 0x2E, 0x2F, 0x30, 0x31, 0x32] ''zxcvbnm''"

lemma small_code:
  assumes "(k :: u32) < 0x80"
  shows "k AND 0x7F = k" "k AND 0xFF = k" "k AND 0x80 = 0"
proof -
  have "unat (take_bit 7 k) = unat k" "unat (take_bit 8 k) = unat k"
    using assms by (simp_all add: unsigned_take_bit_eq take_bit_nat_eq_self_iff word_less_nat_alt)
  then have "take_bit 7 k = k" "take_bit 8 k = k" using unsigned_word_eqI [where ?'a = nat] by blast+
  then show "k AND 0x7F = k" "k AND 0xFF = k" by (simp_all add: take_bit_eq_mask mask_eq_exp_minus_1)
  have "\<not> bit k 7" using \<open>take_bit 7 k = k\<close> by (metis bit_take_bit_iff less_irrefl)
  then show "k AND 0x80 = 0" using and_exp_eq_0_iff [of k 7] by simp
qed

lemma key_state_end_scan [simp]: "key_state (end_scan msk s) = key_state s"
  by (simp add: end_scan_def)

text \<open>A simple key that is in the tables decodes to its entry, whatever the state.\<close>

lemma process_scancode_simple:
  assumes "\<not> in_scan KH_EXTENDED_SCAN s" "k < 0x80"
    and "simple_lookup k = Some e" "key_codes (key_state s) e = (code, rcode)"
  shows "process_scancode s k =
      (finish 0 code rcode OR push_bit 16 (KH_RESULT_MAKE OR ucast (key_state s AND 0xFF00)),
       end_scan (KH_PRSCR_UP_SCAN OR KH_PRSCR_DOWN_SCAN) s)"
proof -
  have k: "k \<noteq> 0x9D" "k \<noteq> 0xC5" "k \<noteq> 0xE0" using assms(2) by auto
  show ?thesis using assms k small_code [OF assms(2)]
    by (simp add: process_scancode_def process_simple_scan_def Let_def or.assoc push_bit_or)
qed

lemma letter_entries:
  "list_all (\<lambda>(k, c). k < 0x80 \<and> 0x60 < ch c \<and> ch c < 0x7B \<and>
     simple_lookup k = Some (ShiftCapsCtl (ch c AND 0x1F) (ch c - 32) (ch c))) letter_keys"
  by (simp add: letter_keys_def simple_lookup_def simple_keys1_def simple_keys2_def ch_def)

section \<open>Modifiers and sequences\<close>

lemma in_scan_bit:
  "in_scan KH_EXTENDED_SCAN s \<longleftrightarrow> bit (key_internal_state s) 0"
  "in_scan KH_PAUSE_SCAN s \<longleftrightarrow> bit (key_internal_state s) 1"
  "in_scan KH_PRSCR_DOWN_SCAN s \<longleftrightarrow> bit (key_internal_state s) 2"
  "in_scan KH_PRSCR_UP_SCAN s \<longleftrightarrow> bit (key_internal_state s) 3"
  using and_exp_eq_0_iff [of "key_internal_state s" 0] and_exp_eq_0_iff [of "key_internal_state s" 1]
    and_exp_eq_0_iff [of "key_internal_state s" 2] and_exp_eq_0_iff [of "key_internal_state s" 3]
  by (simp_all add: in_scan_def KH_EXTENDED_SCAN_def KH_PAUSE_SCAN_def KH_PRSCR_DOWN_SCAN_def KH_PRSCR_UP_SCAN_def)

lemma bit_scan [simp]:
  "bit KH_EXTENDED_SCAN n \<longleftrightarrow> n = 0" "bit KH_PAUSE_SCAN n \<longleftrightarrow> n = 1"
  "bit KH_PRSCR_DOWN_SCAN n \<longleftrightarrow> n = 2" "bit KH_PRSCR_UP_SCAN n \<longleftrightarrow> n = 3"
  using bit_exp_iff [of 0 n, where ?'a = "16 word"] bit_exp_iff [of 1 n, where ?'a = "16 word"]
    bit_exp_iff [of 2 n, where ?'a = "16 word"] bit_exp_iff [of 3 n, where ?'a = "16 word"]
  by (auto simp: KH_EXTENDED_SCAN_def KH_PAUSE_SCAN_def KH_PRSCR_DOWN_SCAN_def KH_PRSCR_UP_SCAN_def)

lemmas kh_scan_consts = KH_EXTENDED_SCAN_def KH_PAUSE_SCAN_def KH_PRSCR_DOWN_SCAN_def KH_PRSCR_UP_SCAN_def

lemma special_codes:
  "simple_lookup 0x1D = None" "simple_lookup 0x2A = None" "simple_lookup 0x36 = None" "simple_lookup 0x38 = None"
  "simple_lookup 0x3A = None" "simple_lookup 0x45 = None" "simple_lookup 0x61 = None"
  by (simp_all add: simple_lookup_def simple_keys1_def simple_keys2_def simple_keys3_def)

lemma special_numpad:
  "map_of numpad_keys 0x1D = None" "map_of numpad_keys 0x2A = None" "map_of numpad_keys 0x36 = None"
  "map_of numpad_keys 0x38 = None" "map_of numpad_keys 0x3A = None" "map_of numpad_keys 0x45 = None"
  "map_of numpad_keys 0x61 = None"
  by (simp_all add: numpad_keys_def)

lemmas scan_eval = process_scancode_def process_simple_scan_def process_extended_scan_def Let_def
  special_codes special_numpad

fun process_all :: "kh_state \<Rightarrow> u32 list \<Rightarrow> u32 list \<times> kh_state" where
  "process_all s [] = ([], s)"
| "process_all s (k # ks) =
     (let (r, s) = process_scancode s k; (rs, s) = process_all s ks in (r # rs, s))"

definition no_prscr :: "u16 \<Rightarrow> u16" where
  "no_prscr w = w AND NOT (KH_PRSCR_UP_SCAN OR KH_PRSCR_DOWN_SCAN)"

lemma bit_no_prscr: "bit (no_prscr w) n \<longleftrightarrow> n < 16 \<and> bit w n \<and> n \<noteq> 2 \<and> n \<noteq> 3"
  by (auto simp: no_prscr_def bit_simps dest: bit_imp_le_length)

lemma pause_step1:
  assumes "\<not> in_scan KH_EXTENDED_SCAN s" "\<not> in_scan KH_PAUSE_SCAN s"
  shows "process_scancode s 0xE1 =
    (push_bit 16 (ucast (key_state s AND 0xFF00)),
     s\<lparr>key_internal_state := no_prscr (key_internal_state s) OR KH_PAUSE_SCAN, key_sequence := 0\<rparr>)"
  using assms by (simp add: scan_eval in_scan_bit end_scan_def bit_simps no_prscr_def)


lemma pause_step2:
  assumes "\<not> in_scan KH_EXTENDED_SCAN s" "in_scan KH_PAUSE_SCAN s"
  shows "key_sequence s = 0 \<Longrightarrow> process_scancode s 0x1D =
    (push_bit 16 KH_RESULT_MAKE OR push_bit 16 (ucast (key_state s AND 0xFF00)),
     s\<lparr>key_internal_state := no_prscr (key_internal_state s), key_sequence := 1\<rparr>)"
  and "key_sequence s = 1 \<Longrightarrow> process_scancode s 0x45 =
    (push_bit 16 KH_RESULT_MAKE OR push_bit 16 (ucast (key_state s AND 0xFF00)),
     s\<lparr>key_internal_state := no_prscr (key_internal_state s), key_sequence := 2\<rparr>)"
  and "key_sequence s = 2 \<Longrightarrow> process_scancode s 0xE1 =
    (push_bit 16 (ucast (key_state s AND 0xFF00)),
     s\<lparr>key_internal_state := no_prscr (key_internal_state s), key_sequence := 3\<rparr>)"
  and "key_sequence s = 3 \<Longrightarrow> process_scancode s 0x9D = (0, s\<lparr>key_sequence := 4\<rparr>)"
  and "key_sequence s = 4 \<Longrightarrow> process_scancode s 0xC5 =
    (ucast KHE_PAUSE OR push_bit 8 (ucast KHE_PAUSE) OR push_bit 16 KH_RESULT_HASDATA OR
       push_bit 16 (ucast (key_state s AND 0xFF00)),
     end_scan KH_PAUSE_SCAN s)"
  using assms by (simp_all add: scan_eval in_scan_bit end_scan_def bit_simps no_prscr_def or.assoc)

lemma status_no_data [simp]:
  "\<not> KH_HASDATA (push_bit 16 (ucast (ks AND 0xFF00 :: u16)))"
  "\<not> KH_HASDATA (push_bit 16 KH_RESULT_MAKE OR push_bit 16 (ucast (ks AND 0xFF00 :: u16)))"
  "\<not> KH_HASDATA 0"
  by (auto simp: KH_HASDATA_bit bit_simps kh_result_consts bit_numeral_rec)

text \<open>The six bytes of the Pause key, received when no sequence is under way, produce exactly one
  status word with data, the last, and it carries \<^verbatim>\<open>KHE_PAUSE\<close>; the modifiers are unchanged and the
  decoder is ready for the next key.\<close>

lemma pause_sequence:
  assumes "\<not> in_scan KH_EXTENDED_SCAN s" "\<not> in_scan KH_PAUSE_SCAN s"
  shows "\<exists>r1 r2 r3 r4 r5 r6 s'. process_all s [0xE1, 0x1D, 0x45, 0xE1, 0x9D, 0xC5] = ([r1, r2, r3, r4, r5, r6], s') \<and>
    \<not> KH_HASDATA r1 \<and> \<not> KH_HASDATA r2 \<and> \<not> KH_HASDATA r3 \<and> \<not> KH_HASDATA r4 \<and> \<not> KH_HASDATA r5 \<and>
    KH_HASDATA r6 \<and> KH_GETCHAR r6 = KHE_PAUSE \<and> KH_GETRAW r6 = KHE_PAUSE \<and>
    key_state s' = key_state s \<and> \<not> in_scan KH_PAUSE_SCAN s' \<and> \<not> in_scan KH_EXTENDED_SCAN s'"
proof -
  let ?st = "push_bit 16 (ucast (key_state s AND 0xFF00)) :: u32"
  let ?w1 = "no_prscr (key_internal_state s) OR KH_PAUSE_SCAN"
  let ?s1 = "s\<lparr>key_internal_state := ?w1, key_sequence := 0\<rparr>"
  let ?s2 = "s\<lparr>key_internal_state := no_prscr ?w1, key_sequence := 1\<rparr>"
  let ?s3 = "s\<lparr>key_internal_state := no_prscr (no_prscr ?w1), key_sequence := 2\<rparr>"
  let ?s4 = "s\<lparr>key_internal_state := no_prscr (no_prscr (no_prscr ?w1)), key_sequence := 3\<rparr>"
  let ?s5 = "s\<lparr>key_internal_state := no_prscr (no_prscr (no_prscr ?w1)), key_sequence := 4\<rparr>"
  have sc: "\<not> in_scan KH_EXTENDED_SCAN ?s1" "in_scan KH_PAUSE_SCAN ?s1" "\<not> in_scan KH_EXTENDED_SCAN ?s2"
    "in_scan KH_PAUSE_SCAN ?s2" "\<not> in_scan KH_EXTENDED_SCAN ?s3" "in_scan KH_PAUSE_SCAN ?s3"
    "\<not> in_scan KH_EXTENDED_SCAN ?s4" "in_scan KH_PAUSE_SCAN ?s4" "\<not> in_scan KH_EXTENDED_SCAN ?s5" "in_scan KH_PAUSE_SCAN ?s5"
    using assms(1) by (simp_all add: in_scan_bit bit_or_iff bit_no_prscr)
  have "process_all s [0xE1, 0x1D, 0x45, 0xE1, 0x9D, 0xC5] =
    ([?st, push_bit 16 KH_RESULT_MAKE OR ?st, push_bit 16 KH_RESULT_MAKE OR ?st, ?st, 0,
      ucast KHE_PAUSE OR push_bit 8 (ucast KHE_PAUSE) OR push_bit 16 KH_RESULT_HASDATA OR ?st], end_scan KH_PAUSE_SCAN ?s5)"
    using pause_step1 [OF assms] pause_step2(1) [OF sc(1,2)] pause_step2(2) [OF sc(3,4)] pause_step2(3) [OF sc(5,6)]
      pause_step2(4) [OF sc(7,8)] pause_step2(5) [OF sc(9,10)] by simp
  moreover have "KH_GETCHAR (ucast KHE_PAUSE OR push_bit 8 (ucast KHE_PAUSE) OR push_bit 16 KH_RESULT_HASDATA OR ?st) = KHE_PAUSE"
    "KH_GETRAW (ucast KHE_PAUSE OR push_bit 8 (ucast KHE_PAUSE) OR push_bit 16 KH_RESULT_HASDATA OR ?st) = KHE_PAUSE"
    by (rule bit_word_eqI; auto simp: KH_GETCHAR_def KH_GETRAW_def bit_simps dest: u8_bit)+
  moreover have "KH_HASDATA (ucast KHE_PAUSE OR push_bit 8 (ucast KHE_PAUSE) OR push_bit 16 KH_RESULT_HASDATA OR ?st)"
    by (simp add: KH_HASDATA_bit bit_simps kh_result_consts)
  moreover have "\<not> in_scan KH_PAUSE_SCAN (end_scan KH_PAUSE_SCAN ?s5)" "\<not> in_scan KH_EXTENDED_SCAN (end_scan KH_PAUSE_SCAN ?s5)"
    using sc(9) by (simp_all add: in_scan_bit end_scan_def bit_simps)
  ultimately show ?thesis by simp
qed

lemma letter_shift: "KH_ISMAKE (x OR push_bit 16 (KH_RESULT_MAKE OR y))" "KH_HASDATA x \<Longrightarrow> KH_HASDATA (x OR push_bit 16 y)"
  by (simp_all add: KH_ISMAKE_bit KH_HASDATA_bit bit_simps kh_result_consts)

lemma letter_decoded:
  assumes "\<not> in_scan KH_EXTENDED_SCAN s" "(k, c) \<in> set letter_keys" and "process_scancode s k = (r, s')"
  shows "KH_HASDATA r \<and> KH_ISMAKE r \<and> KH_GETRAW r = ch c \<and> key_state s' = key_state s \<and>
    KH_GETCHAR r = (if ctl_down_p (key_state s) then ch c AND 0x1F
                    else if shift_down_p (key_state s) \<noteq> caps_p (key_state s) then ch c - 32 else ch c)"
proof -
  let ?ch = "if ctl_down_p (key_state s) then ch c AND 0x1F
     else if shift_down_p (key_state s) \<noteq> caps_p (key_state s) then ch c - 32 else ch c"
  have e: "k < 0x80" "0x60 < ch c" "ch c < 0x7B" "simple_lookup k = Some (ShiftCapsCtl (ch c AND 0x1F) (ch c - 32) (ch c))"
    using letter_entries assms(2) by (auto simp: list_all_iff)
  have k: "key_codes (key_state s) (ShiftCapsCtl (ch c AND 0x1F) (ch c - 32) (ch c)) = (?ch, ch c)"
    by (auto simp: KHS_SHIFTCAPSCTL_def)
  note eq = process_scancode_simple [OF assms(1) e(1,4) k, unfolded assms(3)]
  have u: "ch c \<noteq> KHE_UNDEFINED" "ch c - 32 \<noteq> KHE_UNDEFINED" "ch c AND 0x1F \<noteq> KHE_UNDEFINED"
  proof -
    show "ch c \<noteq> KHE_UNDEFINED" using e(3) by (auto simp: KHE_UNDEFINED_def)
    show "ch c - 32 \<noteq> KHE_UNDEFINED" using e(2,3) by (auto simp: KHE_UNDEFINED_def diff_eq_eq)
    show "ch c AND 0x1F \<noteq> KHE_UNDEFINED"
    proof
      assume "ch c AND 0x1F = KHE_UNDEFINED"
      then have "bit (ch c AND 0x1F) 7 = bit KHE_UNDEFINED 7" by simp
      then show False by (simp add: KHE_UNDEFINED_def bit_simps bit_numeral_rec)
    qed
  qed
  define hi where "hi = KH_RESULT_MAKE OR ucast (key_state s AND 0xFF00)"
  have r: "r = finish 0 ?ch (ch c) OR push_bit 16 hi" and s': "key_state s' = key_state s"
    using eq by (auto simp: hi_def)
  have "?ch \<noteq> KHE_UNDEFINED" using u by simp
  then have "KH_HASDATA (finish 0 ?ch (ch c))" "KH_GETCHAR (finish 0 ?ch (ch c)) = ?ch"
    using u(1) by (simp_all only: KH_GETCHAR_finish KH_HASDATA_finish simp_thms if_True)
  then have "KH_HASDATA r" "KH_GETCHAR r = ?ch"
    unfolding r by (simp_all only: letter_shift(2) KH_GETCHAR_high)
  moreover have "KH_ISMAKE r" "KH_GETRAW r = ch c"
    unfolding r by (simp_all only: letter_shift(1) hi_def KH_GETCHAR_high KH_GETRAW_finish)
  ultimately show ?thesis using s' by blast
qed

text \<open>Pressing a letter key when no extended sequence is under way gives a make status word with
  data whose raw code is the lower-case letter and whose character is the control code while Control
  is held, the upper-case letter when exactly one of Shift and Caps Lock is on, and the lower-case
  letter otherwise; the modifier state is unchanged. This holds for all 26 letters.\<close>

lemma letter_key_decodes:
  assumes "\<not> in_scan KH_EXTENDED_SCAN s" "(k, c) \<in> set letter_keys" and "process_scancode s k = (r, s')"
  shows "KH_HASDATA r \<and> KH_ISMAKE r \<and> KH_GETRAW r = ch c \<and> key_state s' = key_state s \<and>
    KH_GETCHAR r = (if ctl_down_p (key_state s) then ch c AND 0x1F
                    else if shift_down_p (key_state s) \<noteq> caps_p (key_state s) then ch c - 32 else ch c)"
  using assms by (rule letter_decoded)

end
