(* ===== verification/Round_Robin_Spec.thy ===== *)
theory Round_Robin_Spec
  imports Prelude
begin

text \<open>
  What the kernel expects of its scheduler, over an unspecified state: a switch turns the running
  thread and the ready sequence into the next ones as a round robin with an idle thread does. The
  service guarantee follows: a ready thread runs after as many switches as its position says.
\<close>

definition rr_queue :: "addr \<Rightarrow> bool \<Rightarrow> addr \<Rightarrow> addr list \<Rightarrow> addr list" where
  "rr_queue main runs c R = (if R = [] then [main] else R) @ (if runs \<and> c \<noteq> main then [c] else [])"

lemma rr_queue_Cons: "rr_queue main runs c R = hd (rr_queue main runs c R) # tl (rr_queue main runs c R)"
  by (simp add: rr_queue_def)

fun switches :: "('s \<Rightarrow> 's kres) \<Rightarrow> nat \<Rightarrow> 's \<Rightarrow> 's kres" where
  "switches sw 0 s = Inr s"
| "switches sw (Suc n) s = kbind (sw s) (switches sw n)"

text \<open>\<open>rep s c R\<close>: thread \<open>c\<close> is running, and runnable, and \<open>R\<close> is the ready sequence.\<close>

locale round_robin =
  fixes rep :: "'s \<Rightarrow> addr \<Rightarrow> addr list \<Rightarrow> bool" and main :: addr and sw :: "'s \<Rightarrow> 's kres"
  assumes switch_rep: "rep s c R \<Longrightarrow>
    \<exists>s'. sw s = Inr s' \<and> rep s' (hd (rr_queue main True c R)) (tl (rr_queue main True c R))"
begin

lemma served:
  "rep s c (xs @ t # ys) \<Longrightarrow>
    \<exists>s' zs. switches sw (Suc (length xs)) s = Inr s' \<and> rep s' t (ys @ zs) \<and> set zs \<subseteq> set (c # xs)"
proof (induction xs arbitrary: s c ys)
  case Nil
  from switch_rep [OF Nil] show ?case by (fastforce simp: rr_queue_def)
next
  case (Cons x xs)
  from switch_rep [OF Cons.prems] obtain s1 where
    s1: "sw s = Inr s1" "rep s1 x (xs @ t # ys @ (if c \<noteq> main then [c] else []))" by (auto simp: rr_queue_def)
  from Cons.IH [OF s1(2)] obtain s' zs where
    "switches sw (Suc (length xs)) s1 = Inr s'" "rep s' t ((ys @ (if c \<noteq> main then [c] else [])) @ zs)" "set zs \<subseteq> set (x # xs)"
    by blast
  then show ?case using s1(1)
    by (intro exI [of _ s'] exI [of _ "(if c \<noteq> main then [c] else []) @ zs"]) (auto split: if_splits)
qed

text \<open>The scheduler never gets stuck: any number of switches succeeds.\<close>

lemma never_stuck: "rep s c R \<Longrightarrow> \<exists>s' c' R'. switches sw n s = Inr s' \<and> rep s' c' R'"
proof (induction n arbitrary: s c R)
  case (Suc n)
  from switch_rep [OF Suc.prems] obtain s1 where "sw s = Inr s1" "rep s1 (hd (rr_queue main True c R)) (tl (rr_queue main True c R))"
    by blast
  with Suc.IH [OF this(2)] show ?case by simp
qed auto

end

end
