(* ===== verification/Scheduler.thy ===== *)
theory Scheduler
  imports Linked_List Sync Round_Robin_Spec
begin

text \<open>
  The scheduler of \<^verbatim>\<open>src/src/task/scheduler.c\<close>, the timer interrupt of
  \<^verbatim>\<open>src/src/interrupt/time.c\<close> and the condition variable of \<^verbatim>\<open>src/src/sync/cond_var.c\<close>.
  Threads are the control blocks in \<open>tcbs\<close>, each with the list node embedded in it; the queues are
  the linked lists of the kernel over one node store. A switch is modelled up to the point where the
  processor continues in the next thread.
\<close>

section \<open>Threads and queues\<close>

datatype task_status =
  TASK_RUNNING | TASK_READY | TASK_BLOCKED | TASK_WAITING | TASK_HANGING | TASK_DEAD

text \<open>The values of the pointer \<^verbatim>\<open>crt_queue\<close>: null or one of the queues of the kernel.\<close>

datatype queue_ref = No_queue | Ready_tasks | Dead_tasks | Wait_tasks | Dead_cv

record tcb_t =
  kernel_esp :: u32
  kernel_stack :: u32
  kernel_stack_alloc :: u32
  thread_id :: u32
  status :: task_status
  priority :: u8
  ticks :: u32
  user_stack :: u32
  user_stack_index :: u32
  need_reschedule :: bool
  process :: addr
  preempt_count :: u32
  crt_queue :: queue_ref
  crt_node_ptr :: addr

definition KERNEL_STACK_SIZE :: u32 where "KERNEL_STACK_SIZE = 8192"

text \<open>
  \<open>queues\<close> holds \<^verbatim>\<open>ready_tasks\<close>, \<^verbatim>\<open>dead_tasks\<close>, the keyboard's
  \<^verbatim>\<open>wait_tasks\<close> and the waiting queue of \<^verbatim>\<open>dead_cv\<close>; \<open>current_dir\<close> is the process whose
  page directory is loaded, \<open>tss_esp\<close> the kernel stack pointer of the task state segment.
\<close>

record sched =
  nodes :: node_heap
  tcbs :: "addr \<Rightarrow> tcb_t"
  queues :: "queue_ref \<Rightarrow> linked_list_t"
  dead_processes :: linked_list_t
  crt_thread_node :: addr
  main_thread_node :: addr
  main_thread_in_ready_queue :: bool
  multi_task_enabled :: bool
  interrupts :: bool
  dead_resource_lock :: yieldlock_t
  current_dir :: addr
  tss_esp :: u32
  tick :: u32

definition upd_tcb :: "addr \<Rightarrow> (tcb_t \<Rightarrow> tcb_t) \<Rightarrow> sched \<Rightarrow> sched" where
  "upd_tcb t f s = s\<lparr>tcbs := (tcbs s)(t := f (tcbs s t))\<rparr>"

definition set_queue :: "queue_ref \<Rightarrow> node_heap \<times> linked_list_t \<Rightarrow> sched \<Rightarrow> sched" where
  "set_queue q hl s = s\<lparr>nodes := fst hl, queues := (queues s)(q := snd hl)\<rparr>"

definition queue_append :: "queue_ref \<Rightarrow> addr \<Rightarrow> sched \<Rightarrow> sched kres" where
  "queue_append q n s =
     kbind (linked_list_append (nodes s) (queues s q) n) (\<lambda>hl. Inr (set_queue q hl s))"

definition queue_remove :: "queue_ref \<Rightarrow> addr \<Rightarrow> sched \<Rightarrow> sched kres" where
  "queue_remove q n s =
     kbind (linked_list_remove (nodes s) (queues s q) n) (\<lambda>hl. Inr (set_queue q hl s))"

definition interrupt_disable :: "sched \<Rightarrow> bool \<times> sched" where
  "interrupt_disable s = (interrupts s, s\<lparr>interrupts := False\<rparr>)"

definition interrupt_restore :: "bool \<Rightarrow> sched \<Rightarrow> sched" where
  "interrupt_restore was s = s\<lparr>interrupts := was\<rparr>"

section \<open>Who is running\<close>

definition get_crt_thread_node :: "sched \<Rightarrow> addr kres" where
  "get_crt_thread_node s = kassert (crt_thread_node s \<noteq> NULL) ''crt_thread_node != NULL'' (Inr (crt_thread_node s))"

definition get_crt_thread :: "sched \<Rightarrow> addr kres" where
  "get_crt_thread s =
     kassert (crt_thread_node s \<noteq> NULL) ''crt_thread_node != NULL''
       (kassert (ptr (nodes s (crt_thread_node s)) \<noteq> NULL) ''crt_thread_node->ptr != NULL''
         (Inr (ptr (nodes s (crt_thread_node s)))))"

definition get_crt_process :: "sched \<Rightarrow> addr kres" where
  "get_crt_process s =
     kbind (get_crt_thread s) (\<lambda>t.
       kassert (process (tcbs s t) \<noteq> NULL) ''crt_thread->process !=NULL'' (Inr (process (tcbs s t))))"

section \<open>Queue operations\<close>

definition make_ready :: "tcb_t \<Rightarrow> tcb_t" where
  "make_ready t = t\<lparr>status := if status t \<noteq> TASK_DEAD then TASK_READY else status t, crt_queue := Ready_tasks\<rparr>"

definition add_thread_node_to_schedule :: "addr \<Rightarrow> sched \<Rightarrow> sched kres" where
  "add_thread_node_to_schedule n s =
     (let (was, s) = interrupt_disable s; s = upd_tcb (ptr (nodes s n)) make_ready s
      in kbind (queue_append Ready_tasks n s) (\<lambda>s. Inr (interrupt_restore was s)))"

definition add_thread_node_to_schedule_head :: "addr \<Rightarrow> sched \<Rightarrow> sched" where
  "add_thread_node_to_schedule_head n s =
     (let (was, s) = interrupt_disable s; s = upd_tcb (ptr (nodes s n)) make_ready s;
          s = set_queue Ready_tasks (linked_list_insert_to_head (nodes s) (queues s Ready_tasks) n) s
      in interrupt_restore was s)"

definition remove_thread_from_current_queue :: "addr \<Rightarrow> sched \<Rightarrow> sched kres" where
  "remove_thread_from_current_queue t s =
     (if t = NULL \<or> crt_queue (tcbs s t) = No_queue \<or> crt_node_ptr (tcbs s t) = NULL
      then Inl (Panic '' this thread didn't have queue'')
      else
        let (was, s) = interrupt_disable s
        in kbind (queue_remove (crt_queue (tcbs s t)) (crt_node_ptr (tcbs s t)) s) (\<lambda>s.
             Inr (interrupt_restore was (upd_tcb t (\<lambda>t. t\<lparr>crt_queue := No_queue\<rparr>) s))))"

section \<open>The switch\<close>

definition process_switch :: "addr \<Rightarrow> sched \<Rightarrow> sched" where
  "process_switch p s = s\<lparr>current_dir := p\<rparr>"

text \<open>The first part of \<^verbatim>\<open>do_context_switch\<close>: the idle thread joins an empty ready queue.\<close>

definition ensure_ready :: "sched \<Rightarrow> sched kres" where
  "ensure_ready s =
     (if list_size (queues s Ready_tasks) = 0 then
        let s = upd_tcb (ptr (nodes s (main_thread_node s))) (\<lambda>t. t\<lparr>crt_queue := Ready_tasks\<rparr>) s
        in kbind (queue_append Ready_tasks (main_thread_node s) s)
             (\<lambda>s. Inr (s\<lparr>main_thread_in_ready_queue := True\<rparr>))
      else Inr s)"

text \<open>The second: a thread that is still running goes to the tail.\<close>

definition requeue_old :: "addr \<Rightarrow> sched \<Rightarrow> sched kres" where
  "requeue_old old s =
     kbind (get_crt_thread_node s) (\<lambda>old_node.
       kbind
         (if status (tcbs s old) = TASK_RUNNING \<and> old_node \<noteq> main_thread_node s then
            queue_append Ready_tasks old_node
              (upd_tcb old (\<lambda>t. t\<lparr>status := TASK_READY, crt_queue := Ready_tasks\<rparr>) s)
          else Inr s)
         (\<lambda>s. Inr (upd_tcb old (\<lambda>t. t\<lparr>ticks := 0, need_reschedule := False\<rparr>) s)))"

text \<open>The third: the head of the queue becomes the running thread.\<close>

definition run_head :: "addr \<Rightarrow> sched \<Rightarrow> sched kres" where
  "run_head old s =
     (let next_node = head (queues s Ready_tasks); nt = ptr (nodes s next_node);
          s = s\<lparr>tss_esp := kernel_stack (tcbs s nt) + KERNEL_STACK_SIZE\<rparr>;
          s = upd_tcb nt (\<lambda>t. t\<lparr>status := TASK_RUNNING\<rparr>) s;
          s = (if next_node = main_thread_node s then s\<lparr>main_thread_in_ready_queue := False\<rparr> else s);
          s = (if process (tcbs s nt) \<noteq> process (tcbs s old) then process_switch (process (tcbs s nt)) s else s)
      in kbind (remove_thread_from_current_queue nt s) (\<lambda>s. Inr (s\<lparr>crt_thread_node := next_node\<rparr>)))"

definition do_context_switch :: "sched \<Rightarrow> sched kres" where
  "do_context_switch s =
     kbind (ensure_ready s) (\<lambda>s.
       kbind (get_crt_thread s) (\<lambda>old.
         kbind (requeue_old old s) (run_head old)))"

text \<open>\<^verbatim>\<open>schedule\<close>, at the end of an interrupt; \<^verbatim>\<open>preempt_count\<close> is signed.\<close>

definition schedule :: "sched \<Rightarrow> sched kres" where
  "schedule s =
     (if \<not> multi_task_enabled s then Inr s
      else
        let s = s\<lparr>interrupts := False\<rparr>
        in kbind (get_crt_thread s) (\<lambda>t.
             if sint (preempt_count (tcbs s t)) > 0 then Inr s
             else
               let need_switch = (if list_size (queues s Ready_tasks) > 0 then need_reschedule (tcbs s t) else False)
               in if need_switch then do_context_switch s else Inr s))"

text \<open>
  \<^verbatim>\<open>schedule_thread_yield\<close> up to the switch; the saved flag is the local variable that the
  thread restores with \<open>interrupt_restore\<close> when it runs again.
\<close>

definition schedule_thread_yield :: "sched \<Rightarrow> (bool \<times> sched) kres" where
  "schedule_thread_yield s =
     (let (was, s) = interrupt_disable s in kbind (do_context_switch s) (\<lambda>s. Inr (was, s)))"

definition schedule_mark_thread_block :: "sched \<Rightarrow> sched" where
  "schedule_mark_thread_block s =
     upd_tcb (ptr (nodes s (crt_thread_node s))) (\<lambda>t. t\<lparr>status := TASK_WAITING\<rparr>) s"

definition disable_preempt :: "sched \<Rightarrow> sched kres" where
  "disable_preempt s = kbind (get_crt_thread s) (\<lambda>t. Inr (upd_tcb t (\<lambda>t. t\<lparr>preempt_count := preempt_count t + 1\<rparr>) s))"

definition enable_preempt :: "sched \<Rightarrow> sched kres" where
  "enable_preempt s = kbind (get_crt_thread s) (\<lambda>t. Inr (upd_tcb t (\<lambda>t. t\<lparr>preempt_count := preempt_count t - 1\<rparr>) s))"

section \<open>The timer\<close>

definition timer_callback :: "sched \<Rightarrow> sched kres" where
  "timer_callback s =
     (let s = s\<lparr>tick := tick s + 1\<rparr>
      in if multi_task_enabled s then
           kbind (get_crt_thread s) (\<lambda>t.
             let s = upd_tcb t (\<lambda>t. t\<lparr>ticks := ticks t + 1\<rparr>) s
             in Inr (if ticks (tcbs s t) \<ge> ucast (priority (tcbs s t))
                     then upd_tcb t (\<lambda>t. t\<lparr>need_reschedule := True\<rparr>) s else s))
         else Inr s)"

section \<open>Condition variable and dead threads\<close>

definition cond_var_notify :: "queue_ref \<Rightarrow> sched \<Rightarrow> sched kres" where
  "cond_var_notify cv s =
     (let (was, s) = interrupt_disable s
      in kbind
           (if list_size (queues s cv) \<noteq> 0 then
              let n = head (queues s cv)
              in kbind (queue_remove cv n s) (add_thread_node_to_schedule n)
            else Inr s)
           (\<lambda>s. Inr (interrupt_restore was s)))"

text \<open>
  One pass of the loop of \<^verbatim>\<open>cond_var_wait\<close>, entered with the lock held: \<open>True\<close> when the
  predicate holds and the loop ends with the lock still held; otherwise the thread is queued and blocked,
  the lock released and the processor given away. The next pass starts by taking the lock again.
\<close>

definition cond_var_wait_pass :: "queue_ref \<Rightarrow> (sched \<Rightarrow> bool) option \<Rightarrow> sched \<Rightarrow> (bool \<times> sched) kres" where
  "cond_var_wait_pass cv predicator s =
     (case predicator of
        Some p \<Rightarrow>
          if \<not> p s then
            kbind (get_crt_thread_node s) (\<lambda>n.
              let (was, s) = interrupt_disable s
              in kbind (queue_append cv n s) (\<lambda>s.
                   let s = interrupt_restore was (schedule_mark_thread_block s);
                       s = s\<lparr>dead_resource_lock := yieldlock_unlock (dead_resource_lock s)\<rparr>
                   in kbind (schedule_thread_yield s) (\<lambda>(_, s). Inr (False, s))))
          else Inr (True, s)
      | None \<Rightarrow> Inr (True, s))"

definition has_dead_resource :: "sched \<Rightarrow> bool" where
  "has_dead_resource s \<longleftrightarrow> list_size (dead_processes s) > 0 \<or> list_size (queues s Dead_tasks) > 0"

text \<open>
  The critical sections behind \<^verbatim>\<open>dead_resource_lock\<close>. \<open>None\<close>: the lock is held, and the
  thread yields before it tries again.
\<close>

definition with_dead_lock :: "(sched \<Rightarrow> sched kres) \<Rightarrow> sched \<Rightarrow> sched kres option" where
  "with_dead_lock body s =
     (let (ok, l) = yieldlock_trylock (dead_resource_lock s); s = s\<lparr>dead_resource_lock := l\<rparr>
      in if ok then
           Some (kbind (body s) (\<lambda>s. Inr (s\<lparr>dead_resource_lock := yieldlock_unlock (dead_resource_lock s)\<rparr>)))
         else None)"

definition add_dead_tasks :: "addr \<Rightarrow> sched \<Rightarrow> sched kres option" where
  "add_dead_tasks n =
     with_dead_lock (\<lambda>s.
       kbind (queue_append Dead_tasks n (upd_tcb (ptr (nodes s n)) (\<lambda>t. t\<lparr>crt_queue := Dead_tasks\<rparr>) s))
         (cond_var_notify Dead_cv))"

text \<open>\<open>node\<close> is the node that \<^verbatim>\<open>linked_list_append_ele\<close> allocates.\<close>

definition add_dead_process :: "addr \<Rightarrow> addr \<Rightarrow> sched \<Rightarrow> sched kres option" where
  "add_dead_process node p =
     with_dead_lock (\<lambda>s.
       kbind (linked_list_append_ele (nodes s) (dead_processes s) node p) (\<lambda>(h, l).
         cond_var_notify Dead_cv (s\<lparr>nodes := h, dead_processes := l\<rparr>)))"

definition schedule_thread_exit :: "sched \<Rightarrow> sched kres option" where
  "schedule_thread_exit s =
     (case get_crt_thread_node s of
        Inl e \<Rightarrow> Some (Inl e)
      | Inr n \<Rightarrow>
          map_option (\<lambda>r. kbind r (\<lambda>s'.
              do_context_switch (upd_tcb (ptr (nodes s n)) (\<lambda>t. t\<lparr>status := TASK_DEAD\<rparr>) s')))
            (add_dead_tasks n (s\<lparr>interrupts := False\<rparr>)))"

section \<open>The sequences the queues stand for\<close>

text \<open>
  \<open>T\<close> is the set of nodes of all threads, \<open>Q q\<close> the node sequence of queue \<open>q\<close>, \<open>P\<close> that of
  the dead processes. A thread is in at most one queue.
\<close>

definition queues_rep :: "addr set \<Rightarrow> sched \<Rightarrow> (queue_ref \<Rightarrow> addr list) \<Rightarrow> addr list \<Rightarrow> bool" where
  "queues_rep T s Q P \<longleftrightarrow>
     finite T \<and> card T < 2 ^ 31 \<and> Q No_queue = [] \<and>
     (\<forall>q. q \<noteq> No_queue \<longrightarrow> dll (nodes s) (queues s q) (Q q) \<and> set (Q q) \<subseteq> T) \<and>
     (\<forall>q q'. q \<noteq> q' \<longrightarrow> set (Q q) \<inter> set (Q q') = {}) \<and>
     dll (nodes s) (dead_processes s) P \<and> set P \<inter> T = {}"

definition thread_ok :: "sched \<Rightarrow> addr \<Rightarrow> bool" where
  "thread_ok s n \<longleftrightarrow> n \<noteq> NULL \<and> ptr (nodes s n) \<noteq> NULL \<and> crt_node_ptr (tcbs s (ptr (nodes s n))) = n"

abbreviation tcb_of :: "sched \<Rightarrow> addr \<Rightarrow> tcb_t" where
  "tcb_of s n \<equiv> tcbs s (ptr (nodes s n))"

lemma thread_ok_inj: "\<lbrakk>thread_ok s n; thread_ok s k; ptr (nodes s n) = ptr (nodes s k)\<rbrakk> \<Longrightarrow> n = k"
  by (metis thread_ok_def)

lemma queue_length:
  assumes "queues_rep T s Q P"
  shows "length (Q q) \<le> card T"
proof (cases "q = No_queue")
  case False
  then have "distinct (Q q)" "set (Q q) \<subseteq> T" "finite T"
    using assms dl.repr_distinct by (auto simp: queues_rep_def)
  then show ?thesis by (metis card_mono distinct_card)
qed (use assms in \<open>simp add: queues_rep_def\<close>)

lemma queues_rep_change:
  assumes rep: "queues_rep T s Q P" and q: "q \<noteq> No_queue" and T: "set xs \<subseteq> T"
    and l: "dll h' l' xs" and fr: "nodes_frame A (nodes s) h'" "A \<subseteq> T"
    and new: "\<And>q'. q' \<noteq> q \<Longrightarrow> set (Q q') \<inter> A = {}" "set xs \<subseteq> A"
  shows "queues_rep T (set_queue q (h', l') s) (Q(q := xs)) P"
proof -
  have o: "dll h' (queues s q') (Q q')" if "q' \<noteq> q" "q' \<noteq> No_queue" for q'
    using rep that dl.repr_frame [OF _ fr(1)] new(1) by (auto simp: queues_rep_def Int_commute)
  have p: "dll h' (dead_processes s) P"
  proof (rule dl.repr_frame [OF _ fr(1)])
    show "dll (nodes s) (dead_processes s) P" using rep by (simp add: queues_rep_def)
    show "A \<inter> set P = {}" using rep fr(2) unfolding queues_rep_def by blast
  qed
  have d: "set ((Q(q := xs)) q1) \<inter> set ((Q(q := xs)) q2) = {}" if "q1 \<noteq> q2" for q1 q2
  proof -
    have "set (Q q1) \<inter> set (Q q2) = {}" using rep that by (simp add: queues_rep_def)
    moreover have "set (Q q') \<inter> set xs = {}" if "q' \<noteq> q" for q' using new(1) [OF that] new(2) by blast
    ultimately show ?thesis using that by (cases "q1 = q"; cases "q2 = q") (simp_all add: Int_commute)
  qed
  show ?thesis using rep q T l o p d unfolding queues_rep_def set_queue_def by auto
qed

lemma queue_append_rep:
  assumes rep: "queues_rep T s Q P" and q: "q \<noteq> No_queue" and n: "n \<in> T" "n \<noteq> NULL" "\<And>q. n \<notin> set (Q q)"
  shows "\<exists>h l. queue_append q n s = Inr (set_queue q (h, l) s) \<and>
    queues_rep T (set_queue q (h, l) s) (Q(q := Q q @ [n])) P \<and> (\<forall>a. ptr (h a) = ptr (nodes s a))"
proof -
  have l: "dll (nodes s) (queues s q) (Q q)" "set (Q q) \<subseteq> T" using rep q by (auto simp: queues_rep_def)
  have "length (Q q) + 1 < 2 ^ 32" using queue_length [OF rep, of q] rep by (simp add: queues_rep_def)
  from dl.append_repr [OF l(1) n(2,3) this] obtain h' l' where
    a: "linked_list_append (nodes s) (queues s q) n = Inr (h', l')" "dll h' l' (Q q @ [n])"
    "nodes_frame (insert n (set (Q q))) (nodes s) h'" by blast
  have "queues_rep T (set_queue q (h', l') s) (Q(q := Q q @ [n])) P"
    by (rule queues_rep_change [OF rep q _ a(2,3)]) (use n l rep in \<open>auto simp: queues_rep_def\<close>)
  then show ?thesis using a by (auto simp: queue_append_def nodes_frame_def)
qed

lemma queue_remove_rep:
  assumes rep: "queues_rep T s Q P" and q: "Q q = as @ n # bs"
  shows "\<exists>h l. queue_remove q n s = Inr (set_queue q (h, l) s) \<and>
    queues_rep T (set_queue q (h, l) s) (Q(q := as @ bs)) P \<and> (\<forall>a. ptr (h a) = ptr (nodes s a))"
proof -
  have qn: "q \<noteq> No_queue" using rep q by (auto simp: queues_rep_def)
  then have l: "dll (nodes s) (queues s q) (as @ n # bs)" "set (as @ n # bs) \<subseteq> T"
    using rep q by (metis queues_rep_def)+
  from dl.remove_repr [OF l(1)] obtain h' l' where
    a: "linked_list_remove (nodes s) (queues s q) n = Inr (h', l')" "dll h' l' (as @ bs)"
    "nodes_frame (set (as @ n # bs)) (nodes s) h'" by blast
  have dj: "set (Q q') \<inter> set (as @ n # bs) = {}" if "q' \<noteq> q" for q'
    using rep that q by (metis queues_rep_def)
  have "queues_rep T (set_queue q (h', l') s) (Q(q := as @ bs)) P"
    by (rule queues_rep_change [OF rep qn _ a(2,3)])
       (use l dj in auto)
  then show ?thesis using a by (auto simp: queue_remove_def nodes_frame_def)
qed


section \<open>The invariant\<close>

definition sched_base :: "addr set \<Rightarrow> sched \<Rightarrow> (queue_ref \<Rightarrow> addr list) \<Rightarrow> addr list \<Rightarrow> bool" where
  "sched_base T s Q P \<longleftrightarrow>
     queues_rep T s Q P \<and> (\<forall>n\<in>T. thread_ok s n) \<and> main_thread_node s \<in> T \<and> crt_thread_node s \<in> T \<and>
     (\<forall>q. q \<noteq> Ready_tasks \<longrightarrow> main_thread_node s \<notin> set (Q q)) \<and>
     (\<forall>n\<in>set (Q Ready_tasks). crt_queue (tcb_of s n) = Ready_tasks \<and>
        (n \<noteq> main_thread_node s \<longrightarrow> status (tcb_of s n) = TASK_READY))"

text \<open>
  Between the operations the running thread is not in the ready queue, and while it has the status of
  a running thread it is in no queue at all.
\<close>

definition sched_ok :: "addr set \<Rightarrow> sched \<Rightarrow> (queue_ref \<Rightarrow> addr list) \<Rightarrow> addr list \<Rightarrow> bool" where
  "sched_ok T s Q P \<longleftrightarrow>
     sched_base T s Q P \<and> crt_thread_node s \<notin> set (Q Ready_tasks) \<and>
     (status (tcb_of s (crt_thread_node s)) = TASK_RUNNING \<longrightarrow> (\<forall>q. crt_thread_node s \<notin> set (Q q)))"

text \<open>What a switch leaves alone in the threads.\<close>

definition sched_frame :: "sched \<Rightarrow> sched \<Rightarrow> bool" where
  "sched_frame s s' \<longleftrightarrow>
     (\<forall>a. ptr (nodes s' a) = ptr (nodes s a)) \<and> main_thread_node s' = main_thread_node s \<and>
     (\<forall>t. process (tcbs s' t) = process (tcbs s t) \<and> kernel_stack (tcbs s' t) = kernel_stack (tcbs s t) \<and>
          crt_node_ptr (tcbs s' t) = crt_node_ptr (tcbs s t) \<and> preempt_count (tcbs s' t) = preempt_count (tcbs s t))"

lemma sched_frame_refl [simp]: "sched_frame s s"
  by (simp add: sched_frame_def)

lemma sched_frame_trans: "\<lbrakk>sched_frame s s'; sched_frame s' s''\<rbrakk> \<Longrightarrow> sched_frame s s''"
  by (simp add: sched_frame_def)

lemma thread_ok_frame: "sched_frame s s' \<Longrightarrow> thread_ok s' n = thread_ok s n"
  by (simp add: sched_frame_def thread_ok_def)

lemma upd_tcb_simps [simp]:
  "nodes (upd_tcb t f s) = nodes s" "queues (upd_tcb t f s) = queues s" "dead_processes (upd_tcb t f s) = dead_processes s"
  "crt_thread_node (upd_tcb t f s) = crt_thread_node s" "main_thread_node (upd_tcb t f s) = main_thread_node s"
  "current_dir (upd_tcb t f s) = current_dir s" "interrupts (upd_tcb t f s) = interrupts s"
  "tcbs (upd_tcb t f s) = (tcbs s)(t := f (tcbs s t))"
  "dead_resource_lock (upd_tcb t f s) = dead_resource_lock s" "multi_task_enabled (upd_tcb t f s) = multi_task_enabled s"
  "tss_esp (upd_tcb t f s) = tss_esp s"
  by (simp_all add: upd_tcb_def)

lemma set_queue_simps [simp]:
  "tcbs (set_queue q hl s) = tcbs s" "nodes (set_queue q hl s) = fst hl"
  "crt_thread_node (set_queue q hl s) = crt_thread_node s" "main_thread_node (set_queue q hl s) = main_thread_node s"
  "current_dir (set_queue q hl s) = current_dir s" "interrupts (set_queue q hl s) = interrupts s"
  "dead_resource_lock (set_queue q hl s) = dead_resource_lock s" "multi_task_enabled (set_queue q hl s) = multi_task_enabled s"
  "tss_esp (set_queue q hl s) = tss_esp s"
  by (simp_all add: set_queue_def)

text \<open>The representation depends only on the nodes and the headers.\<close>

lemma queues_rep_cong:
  "\<lbrakk>nodes s' = nodes s; queues s' = queues s; dead_processes s' = dead_processes s\<rbrakk> \<Longrightarrow>
    queues_rep T s' Q P = queues_rep T s Q P"
  by (simp add: queues_rep_def)

lemma queues_rep_upd [simp]:
  "queues_rep T (upd_tcb t f s) Q P = queues_rep T s Q P" "queues_rep T (interrupt_restore b s) Q P = queues_rep T s Q P"
  by (rule queues_rep_cong; simp add: interrupt_restore_def)+

lemma interrupt_restore_simps [simp]:
  "nodes (interrupt_restore b s) = nodes s" "tcbs (interrupt_restore b s) = tcbs s" "queues (interrupt_restore b s) = queues s"
  "crt_thread_node (interrupt_restore b s) = crt_thread_node s" "main_thread_node (interrupt_restore b s) = main_thread_node s"
  "current_dir (interrupt_restore b s) = current_dir s" "interrupts (interrupt_restore b s) = b"
  "dead_resource_lock (interrupt_restore b s) = dead_resource_lock s" "dead_processes (interrupt_restore b s) = dead_processes s"
  "tss_esp (interrupt_restore b s) = tss_esp s"
  by (simp_all add: interrupt_restore_def)

lemma ready_size: "queues_rep T s Q P \<Longrightarrow> q \<noteq> No_queue \<Longrightarrow> list_size (queues s q) = 0 \<longleftrightarrow> Q q = []"
  using dll_Nil_size by (auto simp: queues_rep_def)

lemma ready_head: "queues_rep T s Q P \<Longrightarrow> q \<noteq> No_queue \<Longrightarrow> Q q = n # ns \<Longrightarrow> head (queues s q) = n"
  using dl.repr_head [of "nodes s" "queues s q" n ns] by (auto simp: queues_rep_def)

section \<open>A switch is one step of a round robin\<close>

lemma ensure_ready_base:
  assumes "sched_base T s Q P"
  shows "\<exists>s'. ensure_ready s = Inr s' \<and> sched_base T s' (Q(Ready_tasks := rr_queue (main_thread_node s) False 0 (Q Ready_tasks))) P \<and>
    sched_frame s s' \<and> crt_thread_node s' = crt_thread_node s \<and> current_dir s' = current_dir s \<and>
    (\<forall>t. status (tcbs s' t) = status (tcbs s t)) \<and> interrupts s' = interrupts s"
proof (cases "Q Ready_tasks = []")
  case True
  let ?m = "main_thread_node s" and ?f = "\<lambda>t. t\<lparr>crt_queue := Ready_tasks\<rparr>"
  let ?s = "upd_tcb (ptr (nodes s ?m)) ?f s"
  have rep: "queues_rep T ?s Q P" and m: "?m \<in> T" "?m \<noteq> NULL" "\<And>q. ?m \<notin> set (Q q)"
    using assms True by (auto simp: sched_base_def thread_ok_def) (metis empty_iff list.set(1))
  from queue_append_rep [OF rep _ m, of Ready_tasks] obtain h l where
    a: "queue_append Ready_tasks ?m ?s = Inr (set_queue Ready_tasks (h, l) ?s)"
      "queues_rep T (set_queue Ready_tasks (h, l) ?s) (Q(Ready_tasks := [?m])) P" "\<forall>a. ptr (h a) = ptr (nodes s a)"
    using True by auto
  let ?s' = "(set_queue Ready_tasks (h, l) ?s)\<lparr>main_thread_in_ready_queue := True\<rparr>"
  have e: "ensure_ready s = Inr ?s'"
    using a(1) True assms ready_size [of T s Q P Ready_tasks] by (simp add: ensure_ready_def sched_base_def Let_def)
  have f: "sched_frame s ?s'" using a(3) by (simp add: sched_frame_def)
  have "queues_rep T ?s' (Q(Ready_tasks := [?m])) P" using a(2) by (simp add: queues_rep_def)
  then have "sched_base T ?s' (Q(Ready_tasks := [?m])) P"
    using assms a(3) thread_ok_frame [OF f] by (auto simp: sched_base_def)
  then show ?thesis using e f True by (intro exI [of _ ?s']) (simp add: rr_queue_def)
next
  case False
  have "ensure_ready s = Inr s" using assms False ready_size [of T s Q P Ready_tasks] by (simp add: ensure_ready_def sched_base_def)
  then show ?thesis using assms False by (simp add: rr_queue_def fun_upd_idem)
qed

text \<open>Changing the control block of one thread, with no effect on the links.\<close>

lemma sched_base_upd:
  assumes base: "sched_base T s Q P" and n: "n \<in> T"
    and f: "\<And>t. process (f t) = process t" "\<And>t. kernel_stack (f t) = kernel_stack t" "\<And>t. crt_node_ptr (f t) = crt_node_ptr t"
      "\<And>t. preempt_count (f t) = preempt_count t"
    and r: "n \<in> set (Q Ready_tasks) \<Longrightarrow> crt_queue (f (tcb_of s n)) = Ready_tasks \<and> (n \<noteq> main_thread_node s \<longrightarrow> status (f (tcb_of s n)) = TASK_READY)"
  shows "sched_base T (upd_tcb (ptr (nodes s n)) f s) Q P" "sched_frame s (upd_tcb (ptr (nodes s n)) f s)"
proof -
  show fr: "sched_frame s (upd_tcb (ptr (nodes s n)) f s)" using f by (auto simp: sched_frame_def)
  have "set (Q Ready_tasks) \<subseteq> T" using base by (simp add: sched_base_def queues_rep_def)
  then have "ptr (nodes s k) = ptr (nodes s n) \<Longrightarrow> k = n" if "k \<in> set (Q Ready_tasks)" for k
    using that base n thread_ok_inj [of s k n] by (auto simp: sched_base_def)
  then show "sched_base T (upd_tcb (ptr (nodes s n)) f s) Q P"
    using base thread_ok_frame [OF fr] r by (auto simp: sched_base_def)
qed

lemma requeue_old_base:
  assumes base: "sched_base T s Q P" and old: "old = tcb_of s (crt_thread_node s)"
    and free: "status old = TASK_RUNNING \<and> crt_thread_node s \<noteq> main_thread_node s \<Longrightarrow> \<forall>q. crt_thread_node s \<notin> set (Q q)"
  shows "\<exists>s'. requeue_old (ptr (nodes s (crt_thread_node s))) s = Inr s' \<and>
    sched_base T s' (Q(Ready_tasks := Q Ready_tasks @
      (if status old = TASK_RUNNING \<and> crt_thread_node s \<noteq> main_thread_node s then [crt_thread_node s] else []))) P \<and>
    sched_frame s s' \<and> crt_thread_node s' = crt_thread_node s \<and> current_dir s' = current_dir s \<and> interrupts s' = interrupts s"
proof -
  let ?c = "crt_thread_node s" and ?g = "\<lambda>t. t\<lparr>ticks := 0, need_reschedule := False\<rparr>"
  let ?f = "\<lambda>t. t\<lparr>status := TASK_READY, crt_queue := Ready_tasks\<rparr>"
  have c: "?c \<in> T" "?c \<noteq> NULL" "thread_ok s ?c" using base by (auto simp: sched_base_def thread_ok_def)
  show ?thesis
  proof (cases "status old = TASK_RUNNING \<and> ?c \<noteq> main_thread_node s")
    case True
    let ?s = "upd_tcb (ptr (nodes s ?c)) ?f s"
    have b: "sched_base T ?s Q P" "sched_frame s ?s" by (rule sched_base_upd [OF base c(1)]; simp)+
    have rep: "queues_rep T ?s Q P" using b(1) by (simp add: sched_base_def)
    from queue_append_rep [OF rep _ c(1,2), of Ready_tasks] free True obtain h l where
      a: "queue_append Ready_tasks ?c ?s = Inr (set_queue Ready_tasks (h, l) ?s)"
      "queues_rep T (set_queue Ready_tasks (h, l) ?s) (Q(Ready_tasks := Q Ready_tasks @ [?c])) P" "\<forall>a. ptr (h a) = ptr (nodes s a)"
      by auto
    let ?s1 = "set_queue Ready_tasks (h, l) ?s"
    have fr: "sched_frame ?s ?s1" using a(3) by (simp add: sched_frame_def)
    have b1: "sched_base T ?s1 (Q(Ready_tasks := Q Ready_tasks @ [?c])) P"
      using b(1) a thread_ok_frame [OF fr] True by (auto simp: sched_base_def)
    have b2: "sched_base T (upd_tcb (ptr (nodes ?s1 ?c)) ?g ?s1) (Q(Ready_tasks := Q Ready_tasks @ [?c])) P"
      "sched_frame ?s1 (upd_tcb (ptr (nodes ?s1 ?c)) ?g ?s1)"
      by (rule sched_base_upd [OF b1 c(1)]; auto simp: a(3))+
    have "requeue_old (ptr (nodes s ?c)) s = Inr (upd_tcb (ptr (nodes ?s1 ?c)) ?g ?s1)"
      using True old c a by (simp add: requeue_old_def get_crt_thread_node_def)
    then show ?thesis using b2 sched_frame_trans [OF sched_frame_trans [OF b(2) fr] b2(2)] True
      by (intro exI [of _ "upd_tcb (ptr (nodes ?s1 ?c)) ?g ?s1"]) simp
  next
    case False
    have b: "sched_base T (upd_tcb (ptr (nodes s ?c)) ?g s) Q P" "sched_frame s (upd_tcb (ptr (nodes s ?c)) ?g s)"
      by (rule sched_base_upd [OF base c(1)]; use base in \<open>simp add: sched_base_def\<close>)+
    have "requeue_old (ptr (nodes s ?c)) s = Inr (upd_tcb (ptr (nodes s ?c)) ?g s)"
      using False old c by (auto simp: requeue_old_def get_crt_thread_node_def)
    then show ?thesis using b False
      by (intro exI [of _ "upd_tcb (ptr (nodes s ?c)) ?g s"]) (auto simp: fun_upd_idem)
  qed
qed

lemma run_head_base:
  assumes base: "sched_base T s Q P" and q: "Q Ready_tasks = n # ns"
  shows "\<exists>s'. run_head old s = Inr s' \<and> sched_base T s' (Q(Ready_tasks := ns)) P \<and> sched_frame s s' \<and>
    crt_thread_node s' = n \<and> status (tcb_of s' n) = TASK_RUNNING \<and> interrupts s' = interrupts s \<and>
    tss_esp s' = kernel_stack (tcb_of s n) + KERNEL_STACK_SIZE \<and>
    current_dir s' = (if process (tcb_of s n) \<noteq> process (tcbs s old) then process (tcb_of s n) else current_dir s)"
proof -
  let ?t = "ptr (nodes s n)"
  have rep: "queues_rep T s Q P" using base by (simp add: sched_base_def)
  have hd: "head (queues s Ready_tasks) = n" using ready_head [OF rep] q by simp
  have sub: "set (n # ns) \<subseteq> T" using rep q by (metis queues_rep_def queue_ref.distinct(1))
  then have n1: "n \<in> T" "thread_ok s n" "crt_queue (tcbs s ?t) = Ready_tasks"
    using base q by (auto simp: sched_base_def)
  then have n: "n \<in> T" "thread_ok s n" "crt_queue (tcbs s ?t) = Ready_tasks" "?t \<noteq> NULL" "crt_node_ptr (tcbs s ?t) = n" "n \<noteq> NULL"
    by (auto simp: thread_ok_def)
  let ?b = "upd_tcb ?t (\<lambda>t. t\<lparr>status := TASK_RUNNING\<rparr>) (s\<lparr>tss_esp := kernel_stack (tcbs s ?t) + KERNEL_STACK_SIZE\<rparr>)"
  define s0 where "s0 = (let s' = (if n = main_thread_node s then ?b\<lparr>main_thread_in_ready_queue := False\<rparr> else ?b)
    in if process (tcb_of s n) \<noteq> process (tcbs s old) then process_switch (process (tcb_of s n)) s' else s')"
  define s1 where "s1 = s0\<lparr>interrupts := False\<rparr>"
  have p: "process (((tcbs s)(t := (tcbs s t)\<lparr>status := TASK_RUNNING\<rparr>)) x) = process (tcbs s x)" for t x by simp
  have run: "run_head old s = kbind (remove_thread_from_current_queue ?t s0) (\<lambda>s. Inr (s\<lparr>crt_thread_node := n\<rparr>))"
    by (cases "n = main_thread_node s"; cases "process (tcb_of s n) = process (tcbs s old)")
       (simp_all add: run_head_def Let_def hd s0_def process_switch_def p del: fun_upd_apply)
  have s1: "nodes s1 = nodes s" "queues s1 = queues s" "dead_processes s1 = dead_processes s" "tss_esp s1 = kernel_stack (tcbs s ?t) + KERNEL_STACK_SIZE"
    "tcbs s1 = (tcbs s)(?t := (tcbs s ?t)\<lparr>status := TASK_RUNNING\<rparr>)" "main_thread_node s1 = main_thread_node s"
    "crt_thread_node s1 = crt_thread_node s"
    "current_dir s1 = (if process (tcb_of s n) \<noteq> process (tcbs s old) then process (tcb_of s n) else current_dir s)"
    by (simp_all add: s1_def s0_def Let_def process_switch_def)
  have "queues_rep T s1 Q P" using rep queues_rep_cong [OF s1(1-3)] by simp
  from queue_remove_rep [OF this, of Ready_tasks "[]" n ns] q obtain h l where
    a: "queue_remove Ready_tasks n s1 = Inr (set_queue Ready_tasks (h, l) s1)"
      "queues_rep T (set_queue Ready_tasks (h, l) s1) (Q(Ready_tasks := ns)) P" "\<forall>a. ptr (h a) = ptr (nodes s a)"
    using s1(1) by auto
  define s2 where "s2 = (interrupt_restore (interrupts s) (upd_tcb ?t (\<lambda>t. t\<lparr>crt_queue := No_queue\<rparr>) (set_queue Ready_tasks (h, l) s1)))
    \<lparr>crt_thread_node := n\<rparr>"
  have "crt_queue (tcbs s0 ?t) = Ready_tasks" "crt_node_ptr (tcbs s0 ?t) = n" "interrupts s0 = interrupts s" "tcbs s1 = tcbs s0"
    using n by (auto simp: s0_def s1_def Let_def process_switch_def)
  then have "run_head old s = Inr s2"
    using a(1) n by (simp add: run remove_thread_from_current_queue_def interrupt_disable_def s2_def flip: s1_def)
  moreover have fr: "sched_frame s s2" using a(3) by (auto simp: s2_def sched_frame_def s1)
  moreover have "sched_base T s2 (Q(Ready_tasks := ns)) P"
  proof -
    have "dll (nodes s) (queues s Ready_tasks) (n # ns)" using rep q by (metis queues_rep_def queue_ref.distinct(1))
    then have dn: "n \<notin> set ns" using dl.repr_distinct by fastforce
    have "queues_rep T s2 (Q(Ready_tasks := ns)) P" using a(2) by (simp add: s2_def queues_rep_def)
    moreover have ne: "ptr (nodes s k) \<noteq> ?t" if "k \<in> set ns" for k
      using thread_ok_inj [of s k n] that dn base n(2) sub by (auto simp: sched_base_def)
    ultimately show ?thesis using base q n(1) a(3) thread_ok_frame [OF fr] s1
      by (auto simp: sched_base_def s2_def)
  qed
  ultimately show ?thesis using a(3) s1 by (intro exI [of _ s2]) (auto simp: s2_def)
qed

lemma queues_repD:
  assumes "queues_rep T s Q P"
  shows "q \<noteq> No_queue \<Longrightarrow> dll (nodes s) (queues s q) (Q q)" "set (Q q) \<subseteq> T"
    "q \<noteq> q' \<Longrightarrow> set (Q q) \<inter> set (Q q') = {}"
  using assms unfolding queues_rep_def by (metis, metis empty_set empty_subsetI, blast)

lemma do_context_switch_ok:
  assumes ok: "sched_ok T s Q P" and runs: "runs = (status (tcb_of s (crt_thread_node s)) = TASK_RUNNING)"
    and R2: "R2 = rr_queue (main_thread_node s) runs (crt_thread_node s) (Q Ready_tasks)"
  shows "\<exists>s'. do_context_switch s = Inr s' \<and> sched_ok T s' (Q(Ready_tasks := tl R2)) P \<and>
    crt_thread_node s' = hd R2 \<and> status (tcb_of s' (hd R2)) = TASK_RUNNING \<and> sched_frame s s' \<and>
    tss_esp s' = kernel_stack (tcb_of s (hd R2)) + KERNEL_STACK_SIZE \<and> interrupts s' = interrupts s \<and>
    (current_dir s = process (tcb_of s (crt_thread_node s)) \<longrightarrow> current_dir s' = process (tcb_of s (hd R2)))"
proof -
  let ?c = "crt_thread_node s" and ?R1 = "rr_queue (main_thread_node s) False 0 (Q Ready_tasks)"
  have base: "sched_base T s Q P" using ok by (simp add: sched_ok_def)
  have c: "?c \<noteq> NULL" "ptr (nodes s ?c) \<noteq> NULL" using base by (auto simp: sched_base_def thread_ok_def)
  from ensure_ready_base [OF base] obtain s1 where
    s1: "ensure_ready s = Inr s1" "sched_base T s1 (Q(Ready_tasks := ?R1)) P" "sched_frame s s1" "crt_thread_node s1 = ?c"
      "current_dir s1 = current_dir s" "\<forall>t. status (tcbs s1 t) = status (tcbs s t)" "interrupts s1 = interrupts s" by blast
  note f1 = s1(3) [unfolded sched_frame_def]
  have "\<forall>q. ?c \<notin> set ((Q(Ready_tasks := ?R1)) q)" if "runs" "?c \<noteq> main_thread_node s"
    using ok runs that by (auto simp: sched_ok_def rr_queue_def)
  then have free: "\<forall>q. crt_thread_node s1 \<notin> set ((Q(Ready_tasks := ?R1)) q)"
    if "status (tcb_of s1 (crt_thread_node s1)) = TASK_RUNNING \<and> crt_thread_node s1 \<noteq> main_thread_node s1"
    using that s1 f1 runs by simp
  have R2': "R2 = ?R1 @ (if runs \<and> ?c \<noteq> main_thread_node s then [?c] else [])" by (simp add: R2 rr_queue_def)
  have q1: "(Q(Ready_tasks := ?R1))(Ready_tasks := (Q(Ready_tasks := ?R1)) Ready_tasks @
      (if status (tcb_of s1 (crt_thread_node s1)) = TASK_RUNNING \<and> crt_thread_node s1 \<noteq> main_thread_node s1
       then [crt_thread_node s1] else [])) = Q(Ready_tasks := R2)"
    using s1 f1 runs R2' by simp
  from requeue_old_base [OF s1(2) refl free, unfolded q1] obtain s2 where
    s2: "requeue_old (ptr (nodes s ?c)) s1 = Inr s2" "sched_base T s2 (Q(Ready_tasks := R2)) P" "sched_frame s1 s2"
      "current_dir s2 = current_dir s" "interrupts s2 = interrupts s"
    using s1(4,5,7) f1 by auto
  have f2: "sched_frame s s2" by (rule sched_frame_trans [OF s1(3) s2(3)])
  have cons: "R2 = hd R2 # tl R2" unfolding R2 by (rule rr_queue_Cons)
  then have q2: "(Q(Ready_tasks := R2)) Ready_tasks = hd R2 # tl R2" by simp
  have e2: "\<And>t. process (tcbs s2 t) = process (tcbs s t)" "\<And>t. kernel_stack (tcbs s2 t) = kernel_stack (tcbs s t)"
    "\<And>a. ptr (nodes s2 a) = ptr (nodes s a)" using f2 by (auto simp: sched_frame_def)
  from run_head_base [OF s2(2) q2, of "ptr (nodes s ?c)", unfolded fun_upd_upd e2 s2(4,5)] obtain s' where
    s': "run_head (ptr (nodes s ?c)) s2 = Inr s'" "sched_base T s' (Q(Ready_tasks := tl R2)) P" "sched_frame s2 s'"
      "crt_thread_node s' = hd R2" "status (tcb_of s' (hd R2)) = TASK_RUNNING" "interrupts s' = interrupts s"
      "tss_esp s' = kernel_stack (tcb_of s (hd R2)) + KERNEL_STACK_SIZE"
      "current_dir s' = (if process (tcb_of s (hd R2)) \<noteq> process (tcb_of s ?c) then process (tcb_of s (hd R2)) else current_dir s)"
    by blast
  have rep: "queues_rep T s2 (Q(Ready_tasks := R2)) P" using s2(2) by (simp add: sched_base_def)
  have "dll (nodes s2) (queues s2 Ready_tasks) R2" using queues_repD(1) [OF rep, of Ready_tasks] by simp
  then have "distinct R2" by (rule dl.repr_distinct [THEN conjunct1])
  then have "hd R2 \<notin> set (tl R2)" by (metis cons distinct.simps(2))
  moreover have "hd R2 \<notin> set (Q q)" if "q \<noteq> Ready_tasks" for q
  proof -
    have "set ((Q(Ready_tasks := R2)) q) \<inter> set ((Q(Ready_tasks := R2)) Ready_tasks) = {}"
      using queues_repD(3) [OF rep that] .
    then show ?thesis using that cons by (metis disjoint_iff fun_upd_apply list.set_intros(1))
  qed
  ultimately have "sched_ok T s' (Q(Ready_tasks := tl R2)) P" using s' by (auto simp: sched_ok_def)
  moreover have "do_context_switch s = Inr s'"
    using s1(1,4) s2(1) s'(1) c f1 by (simp add: do_context_switch_def get_crt_thread_def)
  ultimately show ?thesis using s' sched_frame_trans [OF f2 s'(3)] by auto
qed

text \<open>The interface of the round robin, for a fixed set of threads and fixed other queues.\<close>

definition sched_rep :: "addr set \<Rightarrow> (queue_ref \<Rightarrow> addr list) \<Rightarrow> addr list \<Rightarrow> addr \<Rightarrow> sched \<Rightarrow> addr \<Rightarrow> addr list \<Rightarrow> bool" where
  "sched_rep T Q P main s c R \<longleftrightarrow>
     sched_ok T s (Q(Ready_tasks := R)) P \<and> crt_thread_node s = c \<and> main_thread_node s = main \<and>
     status (tcb_of s c) = TASK_RUNNING"

interpretation sched: round_robin "sched_rep T Q P main" main do_context_switch
proof (unfold_locales, goal_cases)
  case (1 s c R)
  then have ok: "sched_ok T s (Q(Ready_tasks := R)) P" "crt_thread_node s = c" "main_thread_node s = main" "status (tcb_of s c) = TASK_RUNNING"
    by (auto simp: sched_rep_def)
  from do_context_switch_ok [OF ok(1) refl refl] ok show ?case
    by (auto simp: sched_rep_def sched_frame_def)
qed

section \<open>Waking, blocking and exiting\<close>

text \<open>What the queue operations keep besides the invariant.\<close>

definition sched_same :: "addr set \<Rightarrow> sched \<Rightarrow> sched \<Rightarrow> bool" where
  "sched_same A s s' \<longleftrightarrow> sched_frame s s' \<and> crt_thread_node s' = crt_thread_node s \<and> interrupts s' = interrupts s \<and>
     current_dir s' = current_dir s \<and> dead_resource_lock s' = dead_resource_lock s \<and>
     multi_task_enabled s' = multi_task_enabled s \<and> (\<forall>t. t \<notin> A \<longrightarrow> tcbs s' t = tcbs s t)"

lemma sched_same_refl [simp]: "sched_same A s s"
  by (simp add: sched_same_def)

lemma sched_same_trans: "\<lbrakk>sched_same A s s'; sched_same A s' s''\<rbrakk> \<Longrightarrow> sched_same A s s''"
  by (auto simp: sched_same_def intro: sched_frame_trans)

lemma sched_base_flags [simp]:
  "sched_base T (s\<lparr>interrupts := b\<rparr>) Q P = sched_base T s Q P" "sched_base T (s\<lparr>dead_resource_lock := l\<rparr>) Q P = sched_base T s Q P"
  "sched_base T (interrupt_restore b s) Q P = sched_base T s Q P"
  by (simp_all add: sched_base_def thread_ok_def queues_rep_def interrupt_restore_def)

lemma sched_base_queue:
  assumes base: "sched_base T s Q P" and rep: "queues_rep T (set_queue q (h, l) s) (Q(q := xs)) P"
    and h: "\<forall>a. ptr (h a) = ptr (nodes s a)"
    and m: "q \<noteq> Ready_tasks \<Longrightarrow> main_thread_node s \<notin> set xs"
    and r: "\<And>n. \<lbrakk>q = Ready_tasks; n \<in> set xs\<rbrakk> \<Longrightarrow> crt_queue (tcb_of s n) = Ready_tasks \<and>
      (n \<noteq> main_thread_node s \<longrightarrow> status (tcb_of s n) = TASK_READY)"
  shows "sched_base T (set_queue q (h, l) s) (Q(q := xs)) P" "sched_same {} s (set_queue q (h, l) s)"
proof -
  show fr: "sched_same {} s (set_queue q (h, l) s)" using h by (simp add: sched_same_def sched_frame_def)
  then have "sched_frame s (set_queue q (h, l) s)" by (simp add: sched_same_def)
  from thread_ok_frame [OF this] show "sched_base T (set_queue q (h, l) s) (Q(q := xs)) P"
    using base rep h m r by (auto simp: sched_base_def)
qed

lemma add_thread_base:
  assumes base: "sched_base T s Q P" and n: "n \<in> T" "\<And>q. n \<notin> set (Q q)" "status (tcb_of s n) \<noteq> TASK_DEAD"
  shows "\<exists>s'. add_thread_node_to_schedule n s = Inr s' \<and> sched_base T s' (Q(Ready_tasks := Q Ready_tasks @ [n])) P \<and>
    sched_same {ptr (nodes s n)} s s' \<and> status (tcb_of s' n) = TASK_READY"
proof -
  let ?s = "upd_tcb (ptr (nodes s n)) make_ready (s\<lparr>interrupts := False\<rparr>)"
  have b: "sched_base T ?s Q P"
    using sched_base_upd(1) [of T "s\<lparr>interrupts := False\<rparr>" Q P n make_ready] base n by (simp add: make_ready_def)
  have rep: "queues_rep T ?s Q P" and nn: "n \<noteq> NULL" using b n(1) by (auto simp: sched_base_def thread_ok_def)
  from queue_append_rep [OF rep _ n(1) nn n(2), of Ready_tasks] obtain h l where
    a: "queue_append Ready_tasks n ?s = Inr (set_queue Ready_tasks (h, l) ?s)"
      "queues_rep T (set_queue Ready_tasks (h, l) ?s) (Q(Ready_tasks := Q Ready_tasks @ [n])) P" "\<forall>a. ptr (h a) = ptr (nodes ?s a)"
    by auto
  let ?s1 = "set_queue Ready_tasks (h, l) ?s"
  have "sched_base T ?s1 (Q(Ready_tasks := Q Ready_tasks @ [n])) P"
    by (rule sched_base_queue [OF b a(2,3)]) (use b n(3) in \<open>auto simp: sched_base_def make_ready_def\<close>)
  moreover have "add_thread_node_to_schedule n s = Inr (interrupt_restore (interrupts s) ?s1)"
    using a(1) by (simp add: add_thread_node_to_schedule_def interrupt_disable_def)
  ultimately show ?thesis using a(3) n(3)
    by (intro exI [of _ "interrupt_restore (interrupts s) ?s1"])
       (auto simp: sched_same_def sched_frame_def make_ready_def interrupt_restore_def)
qed

lemma cond_var_notify_base:
  assumes base: "sched_base T s Q P" and cv: "cv \<noteq> Ready_tasks" "cv \<noteq> No_queue"
    and w: "\<And>n. n \<in> set (Q cv) \<Longrightarrow> status (tcb_of s n) = TASK_WAITING"
  shows "\<exists>s'. cond_var_notify cv s = Inr s' \<and>
    sched_base T s' (Q(cv := tl (Q cv), Ready_tasks := Q Ready_tasks @ take 1 (Q cv))) P \<and>
    sched_same (ptr ` nodes s ` set (take 1 (Q cv))) s s' \<and> (\<forall>n\<in>set (take 1 (Q cv)). status (tcb_of s' n) = TASK_READY)"
proof (cases "Q cv")
  case Nil
  have rep: "queues_rep T (s\<lparr>interrupts := False\<rparr>) Q P" using base by (simp add: sched_base_def queues_rep_def)
  have "cond_var_notify cv s = Inr (interrupt_restore (interrupts s) (s\<lparr>interrupts := False\<rparr>))"
    using ready_size [OF rep cv(2)] Nil by (simp add: cond_var_notify_def interrupt_disable_def)
  moreover have "interrupt_restore (interrupts s) (s\<lparr>interrupts := False\<rparr>) = s" by (simp add: interrupt_restore_def)
  ultimately show ?thesis using base Nil by (intro exI [of _ s]) (simp add: fun_upd_idem)
next
  case (Cons n ns)
  let ?s = "s\<lparr>interrupts := False\<rparr>"
  have b: "sched_base T ?s Q P" and rep: "queues_rep T ?s Q P" using base by (auto simp: sched_base_def queues_rep_def thread_ok_def)
  have hd: "head (queues ?s cv) = n" "list_size (queues ?s cv) \<noteq> 0"
    using ready_head [OF rep cv(2) Cons] ready_size [OF rep cv(2)] Cons by simp_all
  from queue_remove_rep [OF rep, of cv "[]" n ns] Cons obtain h l where
    a: "queue_remove cv n ?s = Inr (set_queue cv (h, l) ?s)" "queues_rep T (set_queue cv (h, l) ?s) (Q(cv := ns)) P"
      "\<forall>a. ptr (h a) = ptr (nodes ?s a)" by auto
  let ?s1 = "set_queue cv (h, l) ?s"
  have "main_thread_node ?s \<notin> set ns" using b cv Cons by (auto simp: sched_base_def)
  then have b1: "sched_base T ?s1 (Q(cv := ns)) P" "sched_same {} ?s ?s1"
    by - (rule sched_base_queue [OF b a(2,3)]; use cv in simp)+
  have "set (Q cv) \<subseteq> T" "distinct (Q cv)" using queues_repD [OF rep] dl.repr_distinct cv(2) by blast+
  moreover have "n \<notin> set (Q q)" if "q \<noteq> cv" for q using queues_repD(3) [OF rep that] Cons by auto
  ultimately have n: "n \<in> T" "\<And>q. n \<notin> set ((Q(cv := ns)) q)" using Cons by auto
  have "status (tcb_of ?s1 n) \<noteq> TASK_DEAD" using w [of n] Cons a(3) by simp
  moreover have p: "ptr (nodes ?s1 n) = ptr (nodes s n)" using a(3) by simp
  ultimately obtain s2 where
    s2: "add_thread_node_to_schedule n ?s1 = Inr s2" "sched_base T s2 ((Q(cv := ns))(Ready_tasks := (Q(cv := ns)) Ready_tasks @ [n])) P"
      "sched_same {ptr (nodes s n)} ?s1 s2" "status (tcb_of s2 n) = TASK_READY"
    using add_thread_base [where Q = "Q(cv := ns)", OF b1(1) n] unfolding p by blast
  have "cond_var_notify cv s = Inr (interrupt_restore (interrupts s) s2)"
    using hd a(1) s2(1) by (simp add: cond_var_notify_def interrupt_disable_def Let_def)
  moreover have "sched_same {ptr (nodes s n)} s (interrupt_restore (interrupts s) s2)"
    using b1(2) s2(3) by (auto simp: sched_same_def sched_frame_def interrupt_restore_def)
  ultimately show ?thesis using s2(2,4) cv Cons by (intro exI [of _ "interrupt_restore (interrupts s) s2"]) auto
qed

lemma block_crt_base:
  assumes ok: "sched_ok T s Q P" and c: "crt_thread_node s \<noteq> main_thread_node s" "status (tcb_of s (crt_thread_node s)) = TASK_RUNNING"
    and q: "q \<noteq> Ready_tasks" "q \<noteq> No_queue"
  shows "\<exists>h l. queue_append q (crt_thread_node s) s = Inr (set_queue q (h, l) s) \<and>
    sched_base T (set_queue q (h, l) s) (Q(q := Q q @ [crt_thread_node s])) P \<and> sched_same {} s (set_queue q (h, l) s)"
proof -
  let ?c = "crt_thread_node s"
  have base: "sched_base T s Q P" and rep: "queues_rep T s Q P" and cT: "?c \<in> T" "?c \<noteq> NULL" "\<And>q. ?c \<notin> set (Q q)"
    using ok c(2) by (auto simp: sched_ok_def sched_base_def thread_ok_def)
  from queue_append_rep [OF rep q(2) cT] obtain h l where
    a: "queue_append q ?c s = Inr (set_queue q (h, l) s)" "queues_rep T (set_queue q (h, l) s) (Q(q := Q q @ [?c])) P"
      "\<forall>a. ptr (h a) = ptr (nodes s a)" by blast
  have m: "main_thread_node s \<notin> set (Q q @ [?c])" using base q(1) c(1) by (auto simp: sched_base_def)
  have "sched_base T (set_queue q (h, l) s) (Q(q := Q q @ [?c])) P" "sched_same {} s (set_queue q (h, l) s)"
    by (rule sched_base_queue [OF base a(2,3)]; use m q(1) in simp)+
  then show ?thesis using a(1) by blast
qed

text \<open>The switch away from a thread that is blocked or dead.\<close>

lemma switch_away:
  assumes base: "sched_base T s Q P" and c: "crt_thread_node s \<notin> set (Q Ready_tasks)"
    and st: "status (tcb_of s (crt_thread_node s)) \<noteq> TASK_RUNNING"
    and R2: "R2 = rr_queue (main_thread_node s) False (crt_thread_node s) (Q Ready_tasks)"
  shows "\<exists>s'. do_context_switch s = Inr s' \<and> sched_ok T s' (Q(Ready_tasks := tl R2)) P \<and>
    crt_thread_node s' = hd R2 \<and> status (tcb_of s' (hd R2)) = TASK_RUNNING \<and> interrupts s' = interrupts s"
proof -
  have "sched_ok T s Q P" using base c st by (simp add: sched_ok_def)
  moreover have "False = (status (tcb_of s (crt_thread_node s)) = TASK_RUNNING)" using st by simp
  ultimately show ?thesis using do_context_switch_ok [where Q = Q and runs = False and s = s] R2 by blast
qed

lemma cond_var_wait_blocks_lemma:
  assumes ok: "sched_ok T s Q P" and c: "crt_thread_node s \<noteq> main_thread_node s" "status (tcb_of s (crt_thread_node s)) = TASK_RUNNING"
    and cv: "cv \<noteq> Ready_tasks" "cv \<noteq> No_queue" and p: "\<not> p s"
    and R2: "R2 = rr_queue (main_thread_node s) False (crt_thread_node s) (Q Ready_tasks)"
  shows "\<exists>s'. cond_var_wait_pass cv (Some p) s = Inr (False, s') \<and>
    sched_ok T s' (Q(cv := Q cv @ [crt_thread_node s], Ready_tasks := tl R2)) P \<and>
    crt_thread_node s' = hd R2 \<and> status (tcb_of s' (hd R2)) = TASK_RUNNING"
proof -
  let ?c = "crt_thread_node s" and ?s0 = "s\<lparr>interrupts := False\<rparr>" and ?f = "\<lambda>t. t\<lparr>status := TASK_WAITING\<rparr>"
  have ok0: "sched_ok T ?s0 Q P" using ok by (simp add: sched_ok_def)
  have cn: "?c \<noteq> NULL" "?c \<in> T" "?c \<notin> set (Q Ready_tasks)" using ok by (auto simp: sched_ok_def sched_base_def thread_ok_def)
  from block_crt_base [OF ok0 _ _ cv] c obtain h l where
    a: "queue_append cv ?c ?s0 = Inr (set_queue cv (h, l) ?s0)"
      "sched_base T (set_queue cv (h, l) ?s0) (Q(cv := Q cv @ [?c])) P" "sched_same {} ?s0 (set_queue cv (h, l) ?s0)" by auto
  let ?s1 = "set_queue cv (h, l) ?s0"
  have n: "ptr (nodes ?s1 x) = ptr (nodes s x)" for x using a(3) by (simp add: sched_same_def sched_frame_def)
  have b1: "sched_base T (upd_tcb (ptr (nodes ?s1 ?c)) ?f ?s1) (Q(cv := Q cv @ [?c])) P"
    by (rule sched_base_upd [OF a(2) cn(2)]) (use cn cv in auto)
  define s2 where "s2 = (interrupt_restore (interrupts s) (schedule_mark_thread_block ?s1))
    \<lparr>dead_resource_lock := yieldlock_unlock (dead_resource_lock s), interrupts := False\<rparr>"
  have b2: "sched_base T s2 (Q(cv := Q cv @ [?c])) P"
    using b1 by (simp add: s2_def schedule_mark_thread_block_def)
  have s2: "crt_thread_node s2 = ?c" "main_thread_node s2 = main_thread_node s" "status (tcb_of s2 ?c) = TASK_WAITING"
    by (simp_all add: s2_def schedule_mark_thread_block_def)
  have "\<exists>s'. do_context_switch s2 = Inr s' \<and> sched_ok T s' ((Q(cv := Q cv @ [?c]))(Ready_tasks := tl R2)) P \<and>
    crt_thread_node s' = hd R2 \<and> status (tcb_of s' (hd R2)) = TASK_RUNNING \<and> interrupts s' = interrupts s2"
    by (rule switch_away [OF b2]) (use s2 cn cv R2 in auto)
  then obtain s' where s': "do_context_switch s2 = Inr s'" "sched_ok T s' ((Q(cv := Q cv @ [?c]))(Ready_tasks := tl R2)) P"
    "crt_thread_node s' = hd R2" "status (tcb_of s' (hd R2)) = TASK_RUNNING" by blast
  have "cond_var_wait_pass cv (Some p) s = Inr (False, s')"
    using a(1) p cn s'(1) by (simp add: cond_var_wait_pass_def get_crt_thread_node_def interrupt_disable_def
        schedule_thread_yield_def Let_def s2_def schedule_mark_thread_block_def interrupt_restore_def)
  then show ?thesis using s' by blast
qed

lemma queue_ops_dead_lock:
  "queue_append q n s = Inr s' \<Longrightarrow> dead_resource_lock s' = dead_resource_lock s"
  "queue_remove q n s = Inr s' \<Longrightarrow> dead_resource_lock s' = dead_resource_lock s"
  by (auto simp: queue_append_def queue_remove_def set_queue_def kbind_Inr_iff split: if_splits)

lemma do_context_switch_dead_lock:
  assumes "do_context_switch s = Inr s'"
  shows "dead_resource_lock s' = dead_resource_lock s"
proof -
  from assms obtain s1 old s2 where
    s: "ensure_ready s = Inr s1" "requeue_old old s1 = Inr s2" "run_head old s2 = Inr s'"
    by (auto simp: do_context_switch_def kbind_Inr_iff)
  have "dead_resource_lock s1 = dead_resource_lock s"
    using s(1) by (auto simp: ensure_ready_def Let_def kbind_Inr_iff dest!: queue_ops_dead_lock split: if_splits)
  moreover have "dead_resource_lock s2 = dead_resource_lock s1"
    using s(2) by (auto simp: requeue_old_def kbind_Inr_iff dest!: queue_ops_dead_lock split: if_splits)
  moreover have "dead_resource_lock s' = dead_resource_lock s2"
    using s(3) by (auto simp: run_head_def Let_def remove_thread_from_current_queue_def process_switch_def interrupt_disable_def interrupt_restore_def
        kbind_Inr_iff dest!: queue_ops_dead_lock split: if_splits)
  ultimately show ?thesis by simp
qed

lemma schedule_thread_exit_lemma:
  assumes ok: "sched_ok T s Q P" and c: "crt_thread_node s \<noteq> main_thread_node s" "status (tcb_of s (crt_thread_node s)) = TASK_RUNNING"
    and lock: "hold (dead_resource_lock s) = LOCKED_NO"
    and w: "\<And>n. n \<in> set (Q Dead_cv) \<Longrightarrow> status (tcb_of s n) = TASK_WAITING"
    and R2: "R2 = rr_queue (main_thread_node s) False (crt_thread_node s) (Q Ready_tasks @ take 1 (Q Dead_cv))"
  shows "\<exists>s'. schedule_thread_exit s = Some (Inr s') \<and>
    sched_ok T s' (Q(Dead_tasks := Q Dead_tasks @ [crt_thread_node s], Dead_cv := tl (Q Dead_cv), Ready_tasks := tl R2)) P \<and>
    crt_thread_node s' = hd R2 \<and> status (tcb_of s' (hd R2)) = TASK_RUNNING \<and> dead_resource_lock s' = dead_resource_lock s"
proof -
  let ?c = "crt_thread_node s"
  let ?s0 = "(upd_tcb (ptr (nodes s ?c)) (\<lambda>t. t\<lparr>crt_queue := Dead_tasks\<rparr>) (s\<lparr>interrupts := False, dead_resource_lock := (dead_resource_lock s)\<lparr>hold := LOCKED_YES\<rparr>\<rparr>))"
  have cn: "?c \<noteq> NULL" "?c \<in> T" "\<And>q. ?c \<notin> set (Q q)" using ok c by (auto simp: sched_ok_def sched_base_def thread_ok_def)
  have b0: "sched_base T ?s0 Q P"
    using sched_base_upd(1) [of T "s\<lparr>interrupts := False, dead_resource_lock := (dead_resource_lock s)\<lparr>hold := LOCKED_YES\<rparr>\<rparr>" Q P ?c "\<lambda>t. t\<lparr>crt_queue := Dead_tasks\<rparr>"]
      ok cn by (simp add: sched_ok_def)
  then have ok0: "sched_ok T ?s0 Q P" using cn(3) by (simp add: sched_ok_def)
  from block_crt_base [OF ok0, of Dead_tasks] c obtain h l where
    a: "queue_append Dead_tasks ?c ?s0 = Inr (set_queue Dead_tasks (h, l) ?s0)"
      "sched_base T (set_queue Dead_tasks (h, l) ?s0) (Q(Dead_tasks := Q Dead_tasks @ [?c])) P"
      "sched_same {} ?s0 (set_queue Dead_tasks (h, l) ?s0)" by auto
  let ?s1 = "set_queue Dead_tasks (h, l) ?s0" and ?Q1 = "Q(Dead_tasks := Q Dead_tasks @ [?c])"
  have n: "ptr (nodes ?s1 x) = ptr (nodes s x)" for x using a(3) by (simp add: sched_same_def sched_frame_def)
  have "status (tcb_of ?s1 x) = TASK_WAITING" if "x \<in> set (?Q1 Dead_cv)" for x
    unfolding n using w [of x] that by auto
  note nt = cond_var_notify_base [where cv = Dead_cv and Q = ?Q1, OF a(2) _ _ this]
  have q1: "?Q1 Dead_cv = Q Dead_cv" "?Q1 Ready_tasks = Q Ready_tasks" by simp_all
  obtain s2 where
    s2: "cond_var_notify Dead_cv ?s1 = Inr s2"
      "sched_base T s2 (?Q1(Dead_cv := tl (Q Dead_cv), Ready_tasks := Q Ready_tasks @ take 1 (Q Dead_cv))) P"
      "sched_same (ptr ` nodes ?s1 ` set (take 1 (Q Dead_cv))) ?s1 s2"
    using nt [unfolded q1] by blast
  let ?Q2 = "?Q1(Dead_cv := tl (Q Dead_cv), Ready_tasks := Q Ready_tasks @ take 1 (Q Dead_cv))"
  let ?s3 = "upd_tcb (ptr (nodes s ?c)) (\<lambda>t. t\<lparr>status := TASK_DEAD\<rparr>) (s2\<lparr>dead_resource_lock := yieldlock_unlock (dead_resource_lock s2)\<rparr>)"
  have n2: "ptr (nodes s2 x) = ptr (nodes s x)" "main_thread_node s2 = main_thread_node s" "crt_thread_node s2 = ?c" for x
    using s2(3) n by (auto simp: sched_same_def sched_frame_def)
  have nr: "?c \<notin> set (?Q2 Ready_tasks)" using cn(3) by (auto dest: in_set_takeD)
  have b3: "sched_base T ?s3 ?Q2 P"
    using sched_base_upd(1) [of T "s2\<lparr>dead_resource_lock := yieldlock_unlock (dead_resource_lock s2)\<rparr>" ?Q2 P ?c "\<lambda>t. t\<lparr>status := TASK_DEAD\<rparr>"]
      s2(2) cn(2) nr by (simp add: n2)
  have "\<exists>s'. do_context_switch ?s3 = Inr s' \<and> sched_ok T s' (?Q2(Ready_tasks := tl R2)) P \<and>
    crt_thread_node s' = hd R2 \<and> status (tcb_of s' (hd R2)) = TASK_RUNNING \<and> interrupts s' = interrupts ?s3"
    by (rule switch_away [OF b3]) (use nr R2 in \<open>auto simp: n2\<close>)
  then obtain s' where s': "do_context_switch ?s3 = Inr s'" "sched_ok T s' (?Q2(Ready_tasks := tl R2)) P"
    "crt_thread_node s' = hd R2" "status (tcb_of s' (hd R2)) = TASK_RUNNING" by blast
  have "add_dead_tasks ?c (s\<lparr>interrupts := False\<rparr>) = Some (Inr (s2\<lparr>dead_resource_lock := yieldlock_unlock (dead_resource_lock s2)\<rparr>))"
    using lock a(1) s2(1) by (simp add: add_dead_tasks_def with_dead_lock_def yieldlock_trylock_def atomic_exchange_def)
  then have "schedule_thread_exit s = Some (Inr s')"
    using cn(1) s'(1) by (simp add: schedule_thread_exit_def get_crt_thread_node_def)
  moreover have "dead_resource_lock s' = dead_resource_lock s"
    using do_context_switch_dead_lock [OF s'(1)] s2(3) a(3) lock
    by (cases "dead_resource_lock s") (simp add: sched_same_def yieldlock_unlock_def)
  ultimately show ?thesis using s' by auto
qed

section \<open>Time slices\<close>

lemma timer_ticks:
  assumes "multi_task_enabled s" "crt_thread_node s \<noteq> NULL" "ptr (nodes s (crt_thread_node s)) \<noteq> NULL"
    and "ticks (tcb_of s (crt_thread_node s)) = of_nat k" "k + n < 2 ^ 32"
  shows "\<exists>s'. switches timer_callback n s = Inr s' \<and> crt_thread_node s' = crt_thread_node s \<and> nodes s' = nodes s \<and>
    queues s' = queues s \<and> multi_task_enabled s' \<and>
    ticks (tcb_of s' (crt_thread_node s)) = of_nat (k + n) \<and>
    (need_reschedule (tcb_of s' (crt_thread_node s)) \<longleftrightarrow> need_reschedule (tcb_of s (crt_thread_node s)) \<or>
       0 < n \<and> unat (priority (tcb_of s (crt_thread_node s))) \<le> k + n)"
  using assms
proof (induction n arbitrary: k s)
  case (Suc n)
  let ?c = "crt_thread_node s" let ?t = "ptr (nodes s ?c)" let ?p = "priority (tcbs s ?t)"
  let ?f = "\<lambda>t. t\<lparr>ticks := of_nat (Suc k), need_reschedule := need_reschedule t \<or> unat ?p \<le> Suc k\<rparr>"
  let ?s1 = "upd_tcb ?t ?f (s\<lparr>tick := tick s + 1\<rparr>)"
  have "(ucast ?p \<le> (of_nat (Suc k) :: u32)) = (unat ?p \<le> Suc k)"
  proof -
    have "unat (ucast ?p :: u32) = unat ?p" by (simp add: unsigned_ucast_eq take_bit_nat_eq_self_iff)
        (use unsigned_less [of ?p, where ?'a = nat] in simp)
    moreover have "unat (of_nat (Suc k) :: u32) = Suc k" using Suc.prems(5) by (intro unat_of_nat_small) simp
    ultimately show ?thesis by (simp add: word_le_nat_alt del: of_nat_Suc)
  qed
  then have t: "timer_callback s = Inr ?s1"
    using Suc.prems(1-4) by (simp add: timer_callback_def Let_def get_crt_thread_def upd_tcb_def add.commute)
  have "\<exists>s'. switches timer_callback n ?s1 = Inr s' \<and> crt_thread_node s' = ?c \<and> nodes s' = nodes s \<and>
    queues s' = queues s \<and> multi_task_enabled s' \<and> ticks (tcb_of s' ?c) = of_nat (Suc k + n) \<and>
    (need_reschedule (tcb_of s' ?c) \<longleftrightarrow> (need_reschedule (tcbs s ?t) \<or> unat ?p \<le> Suc k) \<or> 0 < n \<and> unat ?p \<le> Suc k + n)"
    using Suc.IH [of ?s1 "Suc k"] Suc.prems by simp
  then show ?case using t by auto
qed simp

section \<open>Properties\<close>

text \<open>A small system for the witnesses: the idle thread, the running thread 32 and the ready thread 48.\<close>

definition demo_tcb :: "addr \<Rightarrow> tcb_t" where
  "demo_tcb t = \<lparr>kernel_esp = 0, kernel_stack = 0xE0001000, kernel_stack_alloc = 0xE0000000, thread_id = 1,
     status = if t = 40 then TASK_RUNNING else TASK_READY, priority = 10, ticks = 0, user_stack = 0, user_stack_index = 0,
     need_reschedule = False, process = 0x500, preempt_count = 0,
     crt_queue = if t = 56 then Ready_tasks else No_queue, crt_node_ptr = t - 8\<rparr>"

definition demo_sched :: sched where
  "demo_sched = \<lparr>nodes = (\<lambda>a. \<lparr>ptr = a + 8, prev = NULL, nxt = NULL\<rparr>), tcbs = demo_tcb,
     queues = (\<lambda>q. if q = Ready_tasks then \<lparr>head = 48, tail = 48, list_size = 1\<rparr> else \<lparr>head = NULL, tail = NULL, list_size = 0\<rparr>),
     dead_processes = \<lparr>head = NULL, tail = NULL, list_size = 0\<rparr>, crt_thread_node = 32, main_thread_node = 16,
     main_thread_in_ready_queue = False, multi_task_enabled = True, interrupts = True,
     dead_resource_lock = \<lparr>hold = LOCKED_NO\<rparr>, current_dir = 0x500, tss_esp = 0, tick = 0\<rparr>"

definition demo_queues :: "queue_ref \<Rightarrow> addr list" where
  "demo_queues q = (if q = Ready_tasks then [48] else [])"

lemma demo_ok: "sched_ok {16, 32, 48} demo_sched demo_queues []"
  by (auto simp: sched_ok_def sched_base_def queues_rep_def demo_sched_def demo_queues_def demo_tcb_def thread_ok_def dll_def)

text \<open>C29: In a consistent scheduler state whose running thread may go on, a thread that stands at
  position k of the ready queue is running after exactly k + 1 context switches, none of which
  panics; the threads behind it are still ready, in the same order.\<close>

theorem ready_thread_served:
  assumes "sched_ok T s (Q(Ready_tasks := xs @ t # ys)) P" "status (tcb_of s (crt_thread_node s)) = TASK_RUNNING"
  shows "\<exists>s' zs. switches do_context_switch (Suc (length xs)) s = Inr s' \<and> crt_thread_node s' = t \<and>
    status (tcb_of s' t) = TASK_RUNNING \<and> sched_ok T s' (Q(Ready_tasks := ys @ zs)) P"
proof -
  have "sched_rep T Q P (main_thread_node s) s (crt_thread_node s) (xs @ t # ys)" using assms by (simp add: sched_rep_def)
  from sched.served [OF this] show ?thesis unfolding sched_rep_def by blast
qed

theorem ready_thread_served_witness:
  "\<exists>s'. switches do_context_switch 1 demo_sched = Inr s' \<and> crt_thread_node s' = 48"
proof -
  have e: "demo_queues(Ready_tasks := [] @ 48 # []) = demo_queues" by (auto simp: demo_queues_def)
  have "status (tcb_of demo_sched (crt_thread_node demo_sched)) = TASK_RUNNING" by (simp add: demo_sched_def demo_tcb_def)
  from ready_thread_served [of "{16, 32, 48}" demo_sched demo_queues "[]" 48 "[]" "[]", unfolded e, OF demo_ok this]
  show ?thesis by auto
qed

text \<open>C28: A context switch in a consistent state succeeds, keeps the state consistent, runs the head of
  the ready queue (the idle thread when nothing else is ready, the old thread queued at the tail only if
  it is still runnable and not idle), loads the page directory of the new thread's process and points the
  task state segment at the top of its kernel stack.\<close>

theorem context_switch_correct:
  assumes "sched_ok T s Q P" "current_dir s = process (tcb_of s (crt_thread_node s))"
    and "R2 = rr_queue (main_thread_node s) (status (tcb_of s (crt_thread_node s)) = TASK_RUNNING) (crt_thread_node s) (Q Ready_tasks)"
  shows "\<exists>s'. do_context_switch s = Inr s' \<and> sched_ok T s' (Q(Ready_tasks := tl R2)) P \<and>
    crt_thread_node s' = hd R2 \<and> status (tcb_of s' (hd R2)) = TASK_RUNNING \<and>
    tss_esp s' = kernel_stack (tcb_of s' (hd R2)) + KERNEL_STACK_SIZE \<and> current_dir s' = process (tcb_of s' (hd R2))"
proof -
  from do_context_switch_ok [OF assms(1) refl assms(3)] obtain s' where
    s': "do_context_switch s = Inr s'" "sched_ok T s' (Q(Ready_tasks := tl R2)) P" "crt_thread_node s' = hd R2"
      "status (tcb_of s' (hd R2)) = TASK_RUNNING" "sched_frame s s'" "tss_esp s' = kernel_stack (tcb_of s (hd R2)) + KERNEL_STACK_SIZE"
      "current_dir s' = process (tcb_of s (hd R2))" using assms(2) by blast
  then show ?thesis by (auto simp: sched_frame_def)
qed

theorem context_switch_correct_witness:
  "\<exists>s'. do_context_switch demo_sched = Inr s' \<and> crt_thread_node s' = 48 \<and> tss_esp s' = 0xE0003000 + 0 * kernel_esp (tcb_of s' 48)"
proof -
  have c: "current_dir demo_sched = process (tcb_of demo_sched (crt_thread_node demo_sched))"
    by (simp add: demo_sched_def demo_tcb_def)
  have r: "rr_queue (main_thread_node demo_sched) (status (tcb_of demo_sched (crt_thread_node demo_sched)) = TASK_RUNNING)
      (crt_thread_node demo_sched) (demo_queues Ready_tasks) = [48, 32]"
    by (simp add: demo_sched_def demo_tcb_def demo_queues_def rr_queue_def)
  from do_context_switch_ok [OF demo_ok refl refl] r have "\<exists>s'. do_context_switch demo_sched = Inr s' \<and> tss_esp s' = 0xE0003000"
    by (auto simp: demo_sched_def demo_tcb_def KERNEL_STACK_SIZE_def)
  with context_switch_correct [OF demo_ok c refl, unfolded r] show ?thesis by auto
qed

text \<open>A thread that waits on a condition variable whose predicate is false does not panic: it joins
  the tail of the waiting queue and leaves the processor to the next ready thread; the state stays
  consistent, so the waiting thread is in no ready queue and cannot be picked before a notification.\<close>

lemma cond_var_wait_blocks:
  assumes "sched_ok T s Q P" "crt_thread_node s \<noteq> main_thread_node s" "status (tcb_of s (crt_thread_node s)) = TASK_RUNNING"
    and "cv \<noteq> Ready_tasks" "cv \<noteq> No_queue" "\<not> p s"
    and "R2 = rr_queue (main_thread_node s) False (crt_thread_node s) (Q Ready_tasks)"
  shows "\<exists>s'. cond_var_wait_pass cv (Some p) s = Inr (False, s') \<and>
    sched_ok T s' (Q(cv := Q cv @ [crt_thread_node s], Ready_tasks := tl R2)) P \<and>
    crt_thread_node s' = hd R2 \<and> status (tcb_of s' (hd R2)) = TASK_RUNNING"
  using assms by (rule cond_var_wait_blocks_lemma)

text \<open>A thread that exits when the lock of the dead resources is free is queued for the clean-up
  thread, which is made ready if it waits, and the next ready thread runs; nothing panics and the state
  stays consistent, so the dead thread is never scheduled again.\<close>

lemma thread_exit_handed_over:
  assumes "sched_ok T s Q P" "crt_thread_node s \<noteq> main_thread_node s" "status (tcb_of s (crt_thread_node s)) = TASK_RUNNING"
    and "hold (dead_resource_lock s) = LOCKED_NO"
    and "\<And>n. n \<in> set (Q Dead_cv) \<Longrightarrow> status (tcb_of s n) = TASK_WAITING"
    and "R2 = rr_queue (main_thread_node s) False (crt_thread_node s) (Q Ready_tasks @ take 1 (Q Dead_cv))"
  shows "\<exists>s'. schedule_thread_exit s = Some (Inr s') \<and>
    sched_ok T s' (Q(Dead_tasks := Q Dead_tasks @ [crt_thread_node s], Dead_cv := tl (Q Dead_cv), Ready_tasks := tl R2)) P \<and>
    crt_thread_node s' = hd R2 \<and> status (tcb_of s' (hd R2)) = TASK_RUNNING \<and> dead_resource_lock s' = dead_resource_lock s"
  using assms by (rule schedule_thread_exit_lemma)

text \<open>A thread whose slice starts is marked for rescheduling by the timer exactly when it has used
  as many ticks as its priority says (at least one), and a switch is made at the end of that interrupt
  precisely when another thread is ready and preemption is not disabled.\<close>

lemma time_slice_ends:
  assumes "multi_task_enabled s" "crt_thread_node s \<noteq> NULL" "ptr (nodes s (crt_thread_node s)) \<noteq> NULL"
    and "ticks (tcb_of s (crt_thread_node s)) = 0" "\<not> need_reschedule (tcb_of s (crt_thread_node s))" "0 < n" "n < 2 ^ 32"
    and "switches timer_callback n s = Inr s'"
  shows "schedule s' =
    (if unat (priority (tcb_of s (crt_thread_node s))) \<le> n \<and> list_size (queues s Ready_tasks) \<noteq> 0 \<and>
        \<not> 0 < sint (preempt_count (tcb_of s' (crt_thread_node s)))
     then do_context_switch (s'\<lparr>interrupts := False\<rparr>) else Inr (s'\<lparr>interrupts := False\<rparr>))"
  using timer_ticks [of s 0 n] assms
  by (auto simp: schedule_def get_crt_thread_def word_gt_0 Let_def)

end
