(* ===== verification/Bounded_Queue_Spec.thy ===== *)
theory Bounded_Queue_Spec
  imports Prelude
begin

text \<open>
  The contract of a bounded first-in first-out buffer: \<open>rep q xs\<close> says that \<open>q\<close> holds the elements
  \<open>xs\<close>, oldest first. A request on a full buffer is refused and changes nothing.
\<close>

datatype 'a queue_op = Put 'a | Get

text \<open>What a client sees: whether an element was accepted, and the element it gets, if any.\<close>

datatype 'a queue_ret = Accepted bool | Got "'a option"

fun queue_spec :: "nat \<Rightarrow> 'a list \<Rightarrow> 'a queue_op list \<Rightarrow> 'a queue_ret list \<times> 'a list" where
  "queue_spec cap xs [] = ([], xs)"
| "queue_spec cap xs (Put x # ops) =
     (let (rs, ys) = queue_spec cap (if length xs < cap then xs @ [x] else xs) ops in (Accepted (length xs < cap) # rs, ys))"
| "queue_spec cap xs (Get # ops) =
     (let (rs, ys) = queue_spec cap (tl xs) ops in (Got (if xs = [] then None else Some (hd xs)) # rs, ys))"

fun queue_run ::
  "('a \<Rightarrow> 'q \<Rightarrow> bool \<times> 'q) \<Rightarrow> ('q \<Rightarrow> ('a \<times> 'q) option) \<Rightarrow> 'q \<Rightarrow> 'a queue_op list \<Rightarrow> 'a queue_ret list \<times> 'q" where
  "queue_run enq deq q [] = ([], q)"
| "queue_run enq deq q (Put x # ops) =
     (let (ok, q) = enq x q; (rs, q) = queue_run enq deq q ops in (Accepted ok # rs, q))"
| "queue_run enq deq q (Get # ops) =
     (case deq q of
        None \<Rightarrow> let (rs, q) = queue_run enq deq q ops in (Got None # rs, q)
      | Some (x, q) \<Rightarrow> let (rs, q) = queue_run enq deq q ops in (Got (Some x) # rs, q))"

locale bounded_queue =
  fixes enq :: "'a \<Rightarrow> 'q \<Rightarrow> bool \<times> 'q" and deq :: "'q \<Rightarrow> ('a \<times> 'q) option"
    and rep :: "'q \<Rightarrow> 'a list \<Rightarrow> bool" and cap :: nat
  assumes enq_room: "\<lbrakk>rep q xs; length xs < cap\<rbrakk> \<Longrightarrow> \<exists>q'. enq x q = (True, q') \<and> rep q' (xs @ [x])"
    and enq_full: "\<lbrakk>rep q xs; \<not> length xs < cap\<rbrakk> \<Longrightarrow> enq x q = (False, q)"
    and deq_Nil: "rep q [] \<Longrightarrow> deq q = None"
    and deq_Cons: "rep q (x # xs) \<Longrightarrow> \<exists>q'. deq q = Some (x, q') \<and> rep q' xs"
begin

lemma run_refines:
  "rep q xs \<Longrightarrow> \<exists>q'. queue_run enq deq q ops = (fst (queue_spec cap xs ops), q') \<and> rep q' (snd (queue_spec cap xs ops))"
proof (induction ops arbitrary: q xs)
  case (Cons a ops)
  show ?case
  proof (cases a)
    case (Put x)
    then show ?thesis
      using Cons.IH enq_room [OF Cons.prems, of x] enq_full [OF Cons.prems, of x] Cons.prems
      by (cases "length xs < cap") (fastforce simp: split_beta Let_def)+
  next
    case Get
    then show ?thesis
      using Cons.IH Cons.prems deq_Nil deq_Cons by (cases xs) (fastforce simp: split_beta Let_def)+
  qed
qed simp

end

end
