(* ===== verification/Keyboard.thy ===== *)
theory Keyboard
  imports Keyboard_Read Scheduler Bounded_Queue_Spec
begin

text \<open>
  The keyboard driver, \<^verbatim>\<open>src/src/driver/kerboard.c\<close>: the ring buffer of key events, the interrupt
  handler that fills it and wakes the waiting readers, and the three ways to read it. The decoder is that of
  \<open>Keyboard_Read\<close>, the waiting queue the one \<open>Wait_tasks\<close> of the scheduler. The kernel is built for a single
  processor, where a spin lock only counts the preemption counter and, in the interrupt-safe variant, clears the
  interrupt flag.
\<close>

section \<open>The event buffer\<close>

definition KEYBOARD_BUF_SIZE :: nat where "KEYBOARD_BUF_SIZE = 1024"

record keyboard_event_t =
  key :: u8
  character :: u8
  is_make :: bool

text \<open>The three counters are ints that stay between 0 and 1024.\<close>

record buffer_queue_t =
  buffer :: "keyboard_event_t list"
  q_head :: nat
  q_tail :: nat
  q_size :: nat

definition next_queue :: "nat \<Rightarrow> nat" where
  "next_queue index = (index + 1) mod KEYBOARD_BUF_SIZE"

text \<open>\<open>False\<close> is the result -1.\<close>

definition enqueue :: "keyboard_event_t \<Rightarrow> buffer_queue_t \<Rightarrow> bool \<times> buffer_queue_t" where
  "enqueue event q =
     (if q_size q = KEYBOARD_BUF_SIZE then (False, q)
      else (True, q\<lparr>buffer := (buffer q)[q_tail q := event], q_size := q_size q + 1, q_tail := next_queue (q_tail q)\<rparr>))"

definition dequeue :: "buffer_queue_t \<Rightarrow> (keyboard_event_t \<times> buffer_queue_t) option" where
  "dequeue q =
     (if q_size q = 0 then None
      else Some (buffer q ! q_head q, q\<lparr>q_size := q_size q - 1, q_head := next_queue (q_head q)\<rparr>))"

section \<open>The driver\<close>

record kbd =
  keyboard_queue :: buffer_queue_t
  key_down :: "u8 \<Rightarrow> bool"
  decoder :: kh_state
  k_sched :: sched

text \<open>
  \<^verbatim>\<open>spin_lock_irqsave\<close> and \<^verbatim>\<open>spin_unlock_irqrestore\<close> of \<^verbatim>\<open>src/src/sync/spinlock.c\<close> for one processor,
  on the running thread's counter and the interrupt flag.
\<close>

definition lock_irqsave :: "sched \<Rightarrow> (bool \<times> sched) kres" where
  "lock_irqsave s = kbind (disable_preempt s) (\<lambda>s. Inr (interrupt_disable s))"

definition unlock_irqrestore :: "bool \<Rightarrow> sched \<Rightarrow> sched kres" where
  "unlock_irqrestore irq_status s = enable_preempt (if irq_status then s\<lparr>interrupts := True\<rparr> else s)"

definition empty_event :: keyboard_event_t where
  "empty_event = \<lparr>key = 0, character = 0, is_make = False\<rparr>"

definition init_keyboard :: "kbd \<Rightarrow> kbd" where
  "init_keyboard k =
     (let s = k_sched k
      in k\<lparr>keyboard_queue := \<lparr>buffer = replicate KEYBOARD_BUF_SIZE empty_event, q_head = 0, q_tail = 0, q_size = 0\<rparr>,
           k_sched := s\<lparr>queues := (queues s)(Wait_tasks := linked_list_init (queues s Wait_tasks))\<rparr>\<rparr>)"

text \<open>The loop over the local list \<^verbatim>\<open>get_wait_tasks\<close>; \<open>None\<close> when it never ends.\<close>

partial_function (option) wake_all :: "linked_list_t \<Rightarrow> addr \<Rightarrow> sched \<Rightarrow> sched kres option" where
  "wake_all l node s =
     (if node = NULL then Some (Inr s)
      else
        let next_node = nxt (nodes s node)
        in case linked_list_remove (nodes s) l node of
             Inl e \<Rightarrow> Some (Inl e)
           | Inr (h, l) \<Rightarrow> wake_all l next_node (add_thread_node_to_schedule_head node (s\<lparr>nodes := h\<rparr>)))"

definition key_event :: "u32 \<Rightarrow> keyboard_event_t" where
  "key_event augchar = \<lparr>key = KH_GETRAW augchar, character = KH_GETCHAR augchar, is_make = KH_ISMAKE augchar\<rparr>"

text \<open>The part of the handler that runs when the decoder has produced an event.\<close>

definition deliver_event :: "keyboard_event_t \<Rightarrow> kbd \<Rightarrow> kbd kres option" where
  "deliver_event event k =
     (case disable_preempt (k_sched k) of
        Inl e \<Rightarrow> Some (Inl e)
      | Inr s \<Rightarrow>
          let k = k\<lparr>key_down := (key_down k)(key event := is_make event), keyboard_queue := snd (enqueue event (keyboard_queue k))\<rparr>;
              (get_wait_tasks, wait_tasks) = linked_list_move (queues s Wait_tasks) (queues s Wait_tasks);
              s = s\<lparr>queues := (queues s)(Wait_tasks := wait_tasks)\<rparr>
          in case enable_preempt s of
               Inl e \<Rightarrow> Some (Inl e)
             | Inr s \<Rightarrow> map_option (\<lambda>r. kbind r (\<lambda>s. Inr (k\<lparr>k_sched := s\<rparr>))) (wake_all get_wait_tasks (head get_wait_tasks) s))"

text \<open>\<open>scancode\<close> is the byte read from port 0x60.\<close>

definition keyboard_interrupt_handler :: "u8 \<Rightarrow> kbd \<Rightarrow> kbd kres option" where
  "keyboard_interrupt_handler scancode k =
     (let (augchar, d) = process_scancode (decoder k) (ucast scancode); k = k\<lparr>decoder := d\<rparr>
      in map_option (\<lambda>r. kbind r (\<lambda>k.
             kbind (get_crt_thread (k_sched k)) (\<lambda>t.
               Inr (k\<lparr>k_sched := upd_tcb t (\<lambda>t. t\<lparr>need_reschedule := True\<rparr>) (k_sched k)\<rparr>))))
           (if KH_HASDATA augchar then deliver_event (key_event augchar) k else Some (Inr k)))"

text \<open>\<open>None\<close> is the result -1: no key was pressed.\<close>

function read_keyboard_char_impl :: "buffer_queue_t \<Rightarrow> u8 option \<times> buffer_queue_t" where
  "read_keyboard_char_impl q =
     (case dequeue q of
        None \<Rightarrow> (None, q)
      | Some (event, q) \<Rightarrow> if is_make event then (Some (character event), q) else read_keyboard_char_impl q)"
  by pat_completeness auto
termination
  by (relation "measure q_size") (auto simp: dequeue_def split: if_splits)

declare read_keyboard_char_impl.simps [simp del]

text \<open>
  One pass of the loop of \<^verbatim>\<open>read_keyboard_char_wait\<close>, from taking the lock: either a character, with the lock
  released again, or \<open>None\<close>: the thread is queued and blocked and the processor given away, and when the thread
  runs again the next pass starts.
\<close>

definition read_wait_pass :: "kbd \<Rightarrow> (u8 option \<times> kbd) kres" where
  "read_wait_pass k =
     kbind (lock_irqsave (k_sched k)) (\<lambda>(init_status, s).
       let (c, q) = read_keyboard_char_impl (keyboard_queue k); k = k\<lparr>keyboard_queue := q\<rparr>
       in case c of
            Some c \<Rightarrow> kbind (unlock_irqrestore init_status s) (\<lambda>s. Inr (Some c, k\<lparr>k_sched := s\<rparr>))
          | None \<Rightarrow>
              kbind (get_crt_thread_node s) (\<lambda>node.
              kbind (queue_append Wait_tasks node (upd_tcb (ptr (nodes s node)) (\<lambda>t. t\<lparr>crt_queue := Wait_tasks\<rparr>) s)) (\<lambda>s.
              kbind (unlock_irqrestore init_status (schedule_mark_thread_block s)) (\<lambda>s.
              kbind (schedule_thread_yield s) (\<lambda>(_, s). Inr (None, k\<lparr>k_sched := s\<rparr>))))))"

definition read_keyboard_char_right_now :: "kbd \<Rightarrow> (keyboard_event_t option \<times> kbd) kres" where
  "read_keyboard_char_right_now k =
     kbind (lock_irqsave (k_sched k)) (\<lambda>(init_status, s).
       case dequeue (keyboard_queue k) of
         Some (event, q) \<Rightarrow> kbind (unlock_irqrestore init_status s) (\<lambda>s. Inr (Some event, k\<lparr>keyboard_queue := q, k_sched := s\<rparr>))
       | None \<Rightarrow> kbind (unlock_irqrestore init_status s) (\<lambda>s. Inr (None, k\<lparr>k_sched := s\<rparr>)))"

definition get_key_state :: "u32 \<Rightarrow> kbd \<Rightarrow> (bool \<times> kbd) kres" where
  "get_key_state k_code k =
     (if k_code \<ge> 256 then Inr (False, k)
      else
        kbind (lock_irqsave (k_sched k)) (\<lambda>(st, s).
          let make = key_down k (ucast k_code)
          in kbind (unlock_irqrestore st s) (\<lambda>s. Inr (make, k\<lparr>k_sched := s\<rparr>))))"

section \<open>The ring buffer is a bounded queue\<close>

definition ring :: "buffer_queue_t \<Rightarrow> keyboard_event_t list \<Rightarrow> bool" where
  "ring q xs \<longleftrightarrow>
     length (buffer q) = KEYBOARD_BUF_SIZE \<and> q_head q < KEYBOARD_BUF_SIZE \<and> q_size q = length xs \<and>
     length xs \<le> KEYBOARD_BUF_SIZE \<and> q_tail q = (q_head q + length xs) mod KEYBOARD_BUF_SIZE \<and>
     (\<forall>i<length xs. buffer q ! ((q_head q + i) mod KEYBOARD_BUF_SIZE) = xs ! i)"

text \<open>Two positions less than one turn apart are different cells.\<close>

lemma ring_cells:
  assumes "i < j" "j < i + n"
  shows "(h + i) mod n \<noteq> (h + j) mod (n :: nat)"
proof
  assume "(h + i) mod n = (h + j) mod n"
  then have "n dvd (h + j) - (h + i)" using assms(1) by (metis add_le_cancel_left less_imp_le mod_eq_dvd_iff_nat)
  then have "n dvd j - i" by simp
  then show False using assms by (auto dest: dvd_imp_le)
qed

interpretation ring: bounded_queue enqueue dequeue ring KEYBOARD_BUF_SIZE
proof (unfold_locales, goal_cases)
  case (1 q xs x)
  note q = 1(1) [unfolded ring_def]
  let ?n = KEYBOARD_BUF_SIZE
  let ?q = "q\<lparr>buffer := (buffer q)[q_tail q := x], q_size := q_size q + 1, q_tail := next_queue (q_tail q)\<rparr>"
  have "(buffer q)[q_tail q := x] ! ((q_head q + i) mod ?n) = (xs @ [x]) ! i" if i: "i < length (xs @ [x])" for i
  proof (cases "i = length xs")
    case True
    have "q_tail q < length (buffer q)" using q by (simp add: KEYBOARD_BUF_SIZE_def)
    then show ?thesis using True q by simp
  next
    case False
    then have "i < length xs" using i by simp
    then show ?thesis using q ring_cells [of i "length xs" ?n "q_head q"] 1(2) by (simp add: nth_append)
  qed
  then have "ring ?q (xs @ [x])" using q 1(2) by (auto simp: ring_def next_queue_def mod_Suc_eq)
  then show ?case using q 1(2) by (auto simp: enqueue_def)
next
  case (2 q xs x)
  then show ?case by (simp add: ring_def enqueue_def)
next
  case (3 q)
  then show ?case by (simp add: ring_def dequeue_def)
next
  case (4 q x xs)
  note q = this [unfolded ring_def]
  let ?n = KEYBOARD_BUF_SIZE
  let ?q = "q\<lparr>q_size := q_size q - 1, q_head := next_queue (q_head q)\<rparr>"
  have "buffer q ! ((next_queue (q_head q) + i) mod ?n) = xs ! i" if "i < length xs" for i
  proof -
    have "(next_queue (q_head q) + i) mod ?n = (q_head q + Suc i) mod ?n" by (simp add: next_queue_def mod_simps)
    then show ?thesis using q that by (metis Suc_less_eq length_Cons nth_Cons_Suc)
  qed
  then have "ring ?q xs" using q by (auto simp: ring_def next_queue_def mod_simps KEYBOARD_BUF_SIZE_def)
  moreover have "buffer q ! q_head q = x" using q by (metis add_0_right length_greater_0_conv list.discI mod_less nth_Cons_0)
  ultimately show ?case using q by (auto simp: dequeue_def)
qed

lemma init_keyboard_ring: "ring (keyboard_queue (init_keyboard k)) []"
  by (simp add: init_keyboard_def ring_def Let_def KEYBOARD_BUF_SIZE_def)

text \<open>C31: From the initial state, every sequence of events stored and read behaves like a first-in first-out list of
  at most 1024 events: reads return the accepted events in order, and exactly the events that find the buffer full
  are refused.\<close>

theorem keyboard_queue_fifo:
  "\<exists>q'. queue_run enqueue dequeue (keyboard_queue (init_keyboard k)) ops = (fst (queue_spec KEYBOARD_BUF_SIZE [] ops), q') \<and>
    ring q' (snd (queue_spec KEYBOARD_BUF_SIZE [] ops))"
  by (rule ring.run_refines [OF init_keyboard_ring])

text \<open>Reading takes the events up to the first key pressed.\<close>

lemma read_keyboard_char_impl_ring:
  "ring q xs \<Longrightarrow> \<exists>q'. read_keyboard_char_impl q =
    (map_option character (List.find is_make xs), q') \<and> ring q' (tl (dropWhile (\<lambda>e. \<not> is_make e) xs))"
proof (induction xs arbitrary: q)
  case Nil
  then show ?case using ring.deq_Nil [OF Nil] by (auto simp: read_keyboard_char_impl.simps [of q])
next
  case (Cons x xs)
  from ring.deq_Cons [OF Cons.prems] obtain q1 where "dequeue q = Some (x, q1)" "ring q1 xs" by blast
  with Cons.IH [OF this(2)] show ?case by (auto simp: read_keyboard_char_impl.simps [of q])
qed

section \<open>Waking the readers\<close>

lemma sched_base_preempt [simp]: "sched_base T (upd_tcb t (\<lambda>t. t\<lparr>preempt_count := f t\<rparr>) s) Q P = sched_base T s Q P"
  by (auto simp: sched_base_def thread_ok_def queues_rep_def)

lemma sched_base_nodes:
  assumes base: "sched_base T s Q P" and fr: "nodes_frame A (nodes s) h" and A: "\<And>q. A \<inter> set (Q q) = {}" "A \<inter> set P = {}"
  shows "sched_base T (s\<lparr>nodes := h\<rparr>) Q P"
proof -
  have "queues_rep T (s\<lparr>nodes := h\<rparr>) Q P"
    using base A dl.repr_frame [OF _ fr] by (auto simp: sched_base_def queues_rep_def)
  then show ?thesis using base fr by (auto simp: sched_base_def thread_ok_def nodes_frame_def)
qed

lemma add_head_base:
  assumes base: "sched_base T s Q P" and n: "n \<in> T" "\<And>q. n \<notin> set (Q q)" "status (tcb_of s n) \<noteq> TASK_DEAD"
  shows "sched_base T (add_thread_node_to_schedule_head n s) (Q(Ready_tasks := n # Q Ready_tasks)) P"
    "sched_same {ptr (nodes s n)} s (add_thread_node_to_schedule_head n s)"
    "nodes_frame (insert n (set (Q Ready_tasks))) (nodes s) (nodes (add_thread_node_to_schedule_head n s))"
proof -
  let ?s = "upd_tcb (ptr (nodes s n)) make_ready (s\<lparr>interrupts := False\<rparr>)"
  have b: "sched_base T ?s Q P"
    using sched_base_upd(1) [of T "s\<lparr>interrupts := False\<rparr>" Q P n make_ready] base n by (simp add: make_ready_def)
  have rep: "queues_rep T ?s Q P" and nn: "n \<noteq> NULL" using b n(1) by (auto simp: sched_base_def thread_ok_def)
  have l: "dll (nodes s) (queues s Ready_tasks) ([] @ Q Ready_tasks)" "set (Q Ready_tasks) \<subseteq> T"
    using queues_repD [OF rep, of Ready_tasks] by auto
  have "length ([] @ Q Ready_tasks) + 1 < 2 ^ 32" using queue_length [OF rep, of Ready_tasks] rep by (simp add: queues_rep_def)
  from linked_list_insert_dll [OF l(1) nn _ this] n(2) obtain h l' where
    i: "linked_list_insert_to_head (nodes s) (queues s Ready_tasks) n = (h, l')" "dll h l' (n # Q Ready_tasks)"
      "nodes_frame (insert n (set (Q Ready_tasks))) (nodes s) h" by (auto simp: linked_list_insert_to_head_def)
  have r: "queues_rep T (set_queue Ready_tasks (h, l') ?s) (Q(Ready_tasks := n # Q Ready_tasks)) P"
  proof (rule queues_rep_change [OF rep _ _ i(2), where A = "insert n (set (Q Ready_tasks))"])
    show "nodes_frame (insert n (set (Q Ready_tasks))) (nodes ?s) h" using i(3) by simp
    show "set (Q q') \<inter> insert n (set (Q Ready_tasks)) = {}" if "q' \<noteq> Ready_tasks" for q'
      using queues_repD(3) [OF rep that] n(2) by auto
  qed (use n l in auto)
  have p: "\<forall>a. ptr (h a) = ptr (nodes ?s a)" using i(3) by (simp add: nodes_frame_def)
  have e: "add_thread_node_to_schedule_head n s = interrupt_restore (interrupts s) (set_queue Ready_tasks (h, l') ?s)"
    using i(1) by (simp add: add_thread_node_to_schedule_head_def interrupt_disable_def)
  have "sched_base T (set_queue Ready_tasks (h, l') ?s) (Q(Ready_tasks := n # Q Ready_tasks)) P"
    by (rule sched_base_queue [OF b r p]) (use b n(3) in \<open>auto simp: sched_base_def make_ready_def\<close>)
  then show "sched_base T (add_thread_node_to_schedule_head n s) (Q(Ready_tasks := n # Q Ready_tasks)) P" by (simp add: e)
  show "sched_same {ptr (nodes s n)} s (add_thread_node_to_schedule_head n s)"
    using p by (auto simp: e sched_same_def sched_frame_def make_ready_def interrupt_restore_def)
  show "nodes_frame (insert n (set (Q Ready_tasks))) (nodes s) (nodes (add_thread_node_to_schedule_head n s))" using i(3) by (simp add: e)
qed

lemma wake_all_base:
  assumes "sched_base T s Q P" "dll (nodes s) l ws" "set ws \<subseteq> T" "\<And>q. set ws \<inter> set (Q q) = {}" "set ws \<inter> set P = {}"
    and "\<And>n. n \<in> set ws \<Longrightarrow> status (tcb_of s n) \<noteq> TASK_DEAD"
  shows "\<exists>s'. wake_all l (hd_or NULL ws) s = Some (Inr s') \<and>
    sched_base T s' (Q(Ready_tasks := rev ws @ Q Ready_tasks)) P \<and> sched_same (ptr ` nodes s ` set ws) s s'"
  using assms
proof (induction ws arbitrary: s l Q)
  case Nil
  then show ?case by (intro exI [of _ s]) (simp add: wake_all.simps)
next
  case (Cons n ws)
  from linked_list_remove_dll [of "nodes s" l "[]" n ws] Cons.prems(2) obtain h l1 where
    r: "linked_list_remove (nodes s) l n = Inr (h, l1)" "dll h l1 ws" "nodes_frame (set (n # ws)) (nodes s) h" by auto
  have d: "n \<noteq> NULL" "n \<notin> set ws" using dl.repr_distinct [OF Cons.prems(2)] by auto
  have nx: "nxt (nodes s n) = hd_or NULL ws" using Cons.prems(2) by (simp add: dll_def)
  let ?s1 = "s\<lparr>nodes := h\<rparr>" let ?s2 = "add_thread_node_to_schedule_head n ?s1"
  have p: "ptr (h a) = ptr (nodes s a)" for a using r(3) by (simp add: nodes_frame_def)
  have b1: "sched_base T ?s1 Q P" by (rule sched_base_nodes [OF Cons.prems(1) r(3) Cons.prems(4,5)])
  have n: "n \<in> T" "\<And>q. n \<notin> set (Q q)" "status (tcb_of ?s1 n) \<noteq> TASK_DEAD" using Cons.prems(3,4,6) p by auto
  note a = add_head_base [OF b1 n]
  have "insert n (set (Q Ready_tasks)) \<inter> set ws = {}" using d(2) Cons.prems(4) [of Ready_tasks] by auto
  then have l2: "dll (nodes ?s2) l1 ws" using dl.repr_frame [OF r(2)] a(3) by simp
  have p2: "ptr (nodes ?s2 m) = ptr (nodes s m)" for m using a(2) p by (simp add: sched_same_def sched_frame_def)
  have st: "status (tcb_of ?s2 m) \<noteq> TASK_DEAD" if m: "m \<in> set ws" for m
  proof -
    have "thread_ok s m" "thread_ok s n" using Cons.prems(1,3) m by (auto simp: sched_base_def)
    then have "ptr (nodes s m) \<noteq> ptr (nodes s n)" using thread_ok_inj d(2) m by blast
    then have "tcbs ?s2 (ptr (nodes s m)) = tcbs s (ptr (nodes s m))" using a(2) p by (simp add: sched_same_def)
    then show ?thesis using Cons.prems(6) [of m] m p2 by simp
  qed
  let ?Q = "Q(Ready_tasks := n # Q Ready_tasks)"
  have dj: "set ws \<inter> set (?Q q) = {}" for q
    using d(2) Cons.prems(4) [of q] by (cases "q = Ready_tasks") auto
  have "\<exists>s'. wake_all l1 (hd_or NULL ws) ?s2 = Some (Inr s') \<and>
      sched_base T s' (?Q(Ready_tasks := rev ws @ ?Q Ready_tasks)) P \<and> sched_same (ptr ` nodes ?s2 ` set ws) ?s2 s'"
    by (rule Cons.IH [OF a(1) l2]) (use Cons.prems(3,5) dj st in auto)
  then obtain s' where
    s': "wake_all l1 (hd_or NULL ws) ?s2 = Some (Inr s')" "sched_base T s' (Q(Ready_tasks := rev (n # ws) @ Q Ready_tasks)) P"
      "sched_same (ptr ` nodes ?s2 ` set ws) ?s2 s'" by auto
  have "wake_all l n s = Some (Inr s')" using d(1) r(1) nx s'(1) by (simp add: wake_all.simps [of l n])
  moreover have "sched_same (ptr ` nodes s ` set (n # ws)) s s'"
  proof -
    have "sched_same (ptr ` nodes s ` set (n # ws)) s ?s2" using a(2) p by (auto simp: sched_same_def sched_frame_def)
    moreover have "ptr ` nodes ?s2 ` set ws = ptr ` nodes s ` set ws" using p2 by (simp add: image_image)
    then have "sched_same (ptr ` nodes s ` set (n # ws)) ?s2 s'" using s'(3) by (auto simp: sched_same_def)
    ultimately show ?thesis by (rule sched_same_trans)
  qed
  ultimately show ?case using s'(2) by (intro exI [of _ s']) (simp add: fun_upd_def)
qed

text \<open>Taking and releasing the spin lock leaves the counter of the running thread as it was.\<close>

lemma preempt_pair:
  assumes "crt_thread_node s \<noteq> NULL" "ptr (nodes s (crt_thread_node s)) \<noteq> NULL"
  shows "\<exists>s1. disable_preempt s = Inr s1 \<and> queues s1 = queues s \<and>
    (\<forall>qs. enable_preempt (s1\<lparr>queues := qs\<rparr>) = Inr (s\<lparr>queues := qs\<rparr>))"
  using assms by (simp add: disable_preempt_def enable_preempt_def get_crt_thread_def upd_tcb_def)

lemma deliver_event_base:
  assumes ok: "sched_ok T (k_sched k) Q P" and run: "status (tcb_of (k_sched k) (crt_thread_node (k_sched k))) = TASK_RUNNING"
    and w: "\<And>n. n \<in> set (Q Wait_tasks) \<Longrightarrow> status (tcb_of (k_sched k) n) = TASK_WAITING"
  shows "\<exists>s'. deliver_event ev k = Some (Inr (k\<lparr>key_down := (key_down k)(key ev := is_make ev),
      keyboard_queue := snd (enqueue ev (keyboard_queue k)), k_sched := s'\<rparr>)) \<and>
    sched_ok T s' (Q(Wait_tasks := [], Ready_tasks := rev (Q Wait_tasks) @ Q Ready_tasks)) P \<and>
    crt_thread_node s' = crt_thread_node (k_sched k) \<and> main_thread_node s' = main_thread_node (k_sched k) \<and>
    status (tcb_of s' (crt_thread_node s')) = TASK_RUNNING"
proof -
  let ?s = "k_sched k" let ?c = "crt_thread_node ?s" and ?W = "Q Wait_tasks"
  have base: "sched_base T ?s Q P" and cq: "\<And>q. ?c \<notin> set (Q q)" using ok run by (auto simp: sched_ok_def)
  have rep: "queues_rep T ?s Q P" and cT: "?c \<in> T" and tok: "\<And>n. n \<in> T \<Longrightarrow> thread_ok ?s n" using base by (auto simp: sched_base_def)
  have cn: "?c \<noteq> NULL" "ptr (nodes ?s ?c) \<noteq> NULL" using tok [OF cT] by (auto simp: thread_ok_def)
  obtain g l where mv: "linked_list_move (queues ?s Wait_tasks) (queues ?s Wait_tasks) = (g, l)" by fastforce
  have W: "dll (nodes ?s) g ?W" "dll (nodes ?s) l []"
    using linked_list_move_dll [OF _ mv] queues_repD(1) [OF rep, of Wait_tasks] by blast+
  let ?s1 = "?s\<lparr>queues := (queues ?s)(Wait_tasks := l)\<rparr>" and ?Q = "Q(Wait_tasks := [])"
  have r1: "queues_rep T ?s1 ?Q P" using rep W(2) by (auto simp: queues_rep_def)
  then have b1: "sched_base T ?s1 ?Q P" using base by (auto simp: sched_base_def thread_ok_def)
  have dj: "set ?W \<inter> set (?Q q) = {}" for q using queues_repD(3) [OF rep, of Wait_tasks q] by (cases "q = Wait_tasks") auto
  have WT: "set ?W \<subseteq> T" by (rule queues_repD(2) [OF rep])
  moreover have "set P \<inter> T = {}" using rep by (simp add: queues_rep_def)
  ultimately have WP: "set ?W \<inter> set P = {}" by blast
  have "\<exists>s'. wake_all g (hd_or NULL ?W) ?s1 = Some (Inr s') \<and>
      sched_base T s' (?Q(Ready_tasks := rev ?W @ ?Q Ready_tasks)) P \<and> sched_same (ptr ` nodes ?s1 ` set ?W) ?s1 s'"
    by (rule wake_all_base [OF b1]) (use W(1) WT WP dj w in auto)
  then obtain s' where s': "wake_all g (hd_or NULL ?W) ?s1 = Some (Inr s')"
    "sched_base T s' (?Q(Ready_tasks := rev ?W @ Q Ready_tasks)) P" "sched_same (ptr ` nodes ?s1 ` set ?W) ?s1 s'" by auto
  have hd: "head g = hd_or NULL ?W" using W(1) by (simp add: dll_def)
  have "ptr (nodes ?s ?c) \<notin> ptr ` nodes ?s ` set ?W"
    using thread_ok_inj [OF tok [OF cT] tok] cq [of Wait_tasks] WT by auto
  then have run': "status (tcb_of s' (crt_thread_node s')) = TASK_RUNNING" "crt_thread_node s' = ?c" "main_thread_node s' = main_thread_node ?s"
    using s'(3) run by (auto simp: sched_same_def sched_frame_def)
  from preempt_pair [OF cn] obtain s1 where
    p: "disable_preempt ?s = Inr s1" "queues s1 = queues ?s" "\<forall>qs. enable_preempt (s1\<lparr>queues := qs\<rparr>) = Inr (?s\<lparr>queues := qs\<rparr>)" by blast
  have "deliver_event ev k = Some (Inr (k\<lparr>key_down := (key_down k)(key ev := is_make ev),
      keyboard_queue := snd (enqueue ev (keyboard_queue k)), k_sched := s'\<rparr>))"
    using p mv hd s'(1) by (simp add: deliver_event_def)
  moreover have "sched_ok T s' (?Q(Ready_tasks := rev ?W @ Q Ready_tasks)) P"
    using s'(2) run' cq by (simp add: sched_ok_def)
  ultimately show ?thesis using run' by (intro exI [of _ s']) simp
qed

lemma sched_ok_reschedule:
  "sched_ok T s Q P \<Longrightarrow> sched_ok T (upd_tcb t (\<lambda>t. t\<lparr>need_reschedule := b\<rparr>) s) Q P"
  by (auto simp: sched_ok_def sched_base_def thread_ok_def queues_rep_def)

text \<open>C30: A letter key pressed while the buffer has room and holds no unread key press wakes every thread that waits for
  the keyboard, in front of the ready queue and the latest first; the interrupted thread is asked to reschedule, the
  scheduler stays consistent, and the next read returns the character of the key under the current modifiers.\<close>

theorem key_press_reaches_reader:
  assumes "sched_ok T (k_sched k) Q P" "status (tcb_of (k_sched k) (crt_thread_node (k_sched k))) = TASK_RUNNING"
    and "\<forall>n\<in>set (Q Wait_tasks). status (tcb_of (k_sched k) n) = TASK_WAITING"
    and "ring (keyboard_queue k) xs" "length xs < KEYBOARD_BUF_SIZE" "\<forall>e\<in>set xs. \<not> is_make e"
    and "\<not> in_scan KH_EXTENDED_SCAN (decoder k)" "(ucast scancode, c) \<in> set letter_keys"
  shows "\<exists>k'. keyboard_interrupt_handler scancode k = Some (Inr k') \<and>
    sched_ok T (k_sched k') (Q(Wait_tasks := [], Ready_tasks := rev (Q Wait_tasks) @ Q Ready_tasks)) P \<and>
    need_reschedule (tcb_of (k_sched k') (crt_thread_node (k_sched k'))) \<and> key_down k' (ch c) \<and>
    fst (read_keyboard_char_impl (keyboard_queue k')) =
      Some (if ctl_down_p (key_state (decoder k)) then ch c AND 0x1F
            else if shift_down_p (key_state (decoder k)) \<noteq> caps_p (key_state (decoder k)) then ch c - 32 else ch c)"
proof -
  obtain r d where r: "process_scancode (decoder k) (ucast scancode) = (r, d)" by fastforce
  note dec = letter_decoded [OF assms(7,8) r]
  let ?ev = "key_event r" and ?k = "k\<lparr>decoder := d\<rparr>"
  from deliver_event_base [where k = ?k and ev = ?ev and T = T and Q = Q and P = P] assms(1-3) obtain s' where
    s': "deliver_event ?ev ?k = Some (Inr (?k\<lparr>key_down := (key_down k)(key ?ev := is_make ?ev),
        keyboard_queue := snd (enqueue ?ev (keyboard_queue k)), k_sched := s'\<rparr>))"
      "sched_ok T s' (Q(Wait_tasks := [], Ready_tasks := rev (Q Wait_tasks) @ Q Ready_tasks)) P"
      "status (tcb_of s' (crt_thread_node s')) = TASK_RUNNING" by auto
  have cn: "crt_thread_node s' \<noteq> NULL" "ptr (nodes s' (crt_thread_node s')) \<noteq> NULL"
    using s'(2) by (auto simp: sched_ok_def sched_base_def thread_ok_def)
  let ?s = "upd_tcb (ptr (nodes s' (crt_thread_node s'))) (\<lambda>t. t\<lparr>need_reschedule := True\<rparr>) s'"
  let ?k' = "?k\<lparr>key_down := (key_down k)(key ?ev := is_make ?ev), keyboard_queue := snd (enqueue ?ev (keyboard_queue k)), k_sched := ?s\<rparr>"
  have h: "keyboard_interrupt_handler scancode k = Some (Inr ?k')"
    using r s'(1) dec cn by (simp add: keyboard_interrupt_handler_def get_crt_thread_def)
  from ring.enq_room [OF assms(4,5), of ?ev] have "ring (snd (enqueue ?ev (keyboard_queue k))) (xs @ [?ev])" by auto
  from read_keyboard_char_impl_ring [OF this] have
    "fst (read_keyboard_char_impl (snd (enqueue ?ev (keyboard_queue k)))) = map_option character (List.find is_make (xs @ [?ev]))" by auto
  moreover have "List.find is_make xs = None" using assms(6) by (simp add: find_None_iff)
  ultimately have "fst (read_keyboard_char_impl (snd (enqueue ?ev (keyboard_queue k)))) = Some (KH_GETCHAR r)"
    using dec by (simp add: find_append key_event_def)
  then show ?thesis using h dec sched_ok_reschedule [OF s'(2)] by (intro exI [of _ ?k']) (simp add: key_event_def)
qed

text \<open>A read that finds no key press in the buffer blocks: the thread joins the tail of the keyboard's waiting queue
  with the lock released, the next ready thread runs and the scheduler stays consistent; the releases that stood in
  the buffer are gone.\<close>

lemma read_wait_blocks:
  assumes ok: "sched_ok T (k_sched k) Q P" and c: "c = crt_thread_node (k_sched k)" "c \<noteq> main_thread_node (k_sched k)"
    and run: "status (tcb_of (k_sched k) c) = TASK_RUNNING"
    and q: "ring (keyboard_queue k) xs" "\<forall>e\<in>set xs. \<not> is_make e"
    and R2: "R2 = rr_queue (main_thread_node (k_sched k)) False c (Q Ready_tasks)"
  shows "\<exists>k'. read_wait_pass k = Inr (None, k') \<and>
    sched_ok T (k_sched k') (Q(Wait_tasks := Q Wait_tasks @ [c], Ready_tasks := tl R2)) P \<and>
    crt_thread_node (k_sched k') = hd R2 \<and> ring (keyboard_queue k') []"
proof -
  let ?s = "k_sched k" let ?t = "ptr (nodes ?s c)"
  have base: "sched_base T ?s Q P" and cq: "\<And>q. c \<notin> set (Q q)" using ok run c by (auto simp: sched_ok_def)
  have cT: "c \<in> T" and cn: "c \<noteq> NULL" "?t \<noteq> NULL" using base c(1) by (auto simp: sched_base_def thread_ok_def)
  let ?f = "\<lambda>t. t\<lparr>crt_queue := Wait_tasks\<rparr>" and ?inc = "\<lambda>t. t\<lparr>preempt_count := preempt_count t + 1\<rparr>" and ?dec = "\<lambda>t. t\<lparr>preempt_count := preempt_count t - 1\<rparr>"
  let ?s1 = "(upd_tcb ?t ?inc ?s)\<lparr>interrupts := False\<rparr>" let ?s2 = "upd_tcb ?t ?f ?s1"
  have b1: "sched_base T ?s1 Q P" using base by simp
  have b2: "sched_base T ?s2 Q P" using sched_base_upd(1) [OF b1 cT, of ?f] cq by simp
  then have ok2: "sched_ok T ?s2 Q P" using cq c(1) by (simp add: sched_ok_def)
  have "\<exists>h l. queue_append Wait_tasks (crt_thread_node ?s2) ?s2 = Inr (set_queue Wait_tasks (h, l) ?s2) \<and>
      sched_base T (set_queue Wait_tasks (h, l) ?s2) (Q(Wait_tasks := Q Wait_tasks @ [crt_thread_node ?s2])) P \<and>
      sched_same {} ?s2 (set_queue Wait_tasks (h, l) ?s2)"
    by (rule block_crt_base [OF ok2]) (use c run in auto)
  then obtain h l where a: "queue_append Wait_tasks c ?s2 = Inr (set_queue Wait_tasks (h, l) ?s2)"
      "sched_base T (set_queue Wait_tasks (h, l) ?s2) (Q(Wait_tasks := Q Wait_tasks @ [c])) P"
      "sched_same {} ?s2 (set_queue Wait_tasks (h, l) ?s2)"
    using c(1) by auto
  let ?s3 = "set_queue Wait_tasks (h, l) ?s2" and ?Q = "Q(Wait_tasks := Q Wait_tasks @ [c])"
  have p: "ptr (h x) = ptr (nodes ?s x)" for x using a(3) by (simp add: sched_same_def sched_frame_def)
  have b4: "sched_base T (upd_tcb ?t (\<lambda>t. t\<lparr>status := TASK_WAITING\<rparr>) ?s3) ?Q P"
    using sched_base_upd(1) [OF a(2) cT, of "\<lambda>t. t\<lparr>status := TASK_WAITING\<rparr>"] cq p by simp
  let ?s5 = "upd_tcb ?t ?dec ((upd_tcb ?t (\<lambda>t. t\<lparr>status := TASK_WAITING\<rparr>) ?s3)\<lparr>interrupts := interrupts ?s\<rparr>)"
  have b5: "sched_base T (?s5\<lparr>interrupts := False\<rparr>) ?Q P" using b4 by simp
  have "\<exists>s'. do_context_switch (?s5\<lparr>interrupts := False\<rparr>) = Inr s' \<and> sched_ok T s' (?Q(Ready_tasks := tl R2)) P \<and>
    crt_thread_node s' = hd R2 \<and> status (tcb_of s' (hd R2)) = TASK_RUNNING \<and> interrupts s' = interrupts (?s5\<lparr>interrupts := False\<rparr>)"
    by (rule switch_away [OF b5]) (use p c(1) cq R2 in auto)
  then obtain s' where s': "do_context_switch (?s5\<lparr>interrupts := False\<rparr>) = Inr s'" "sched_ok T s' (?Q(Ready_tasks := tl R2)) P"
    "crt_thread_node s' = hd R2" by blast
  from read_keyboard_char_impl_ring [OF q(1)] q(2) obtain q' where
    rd: "read_keyboard_char_impl (keyboard_queue k) = (None, q')" "ring q' []" by (auto simp: find_None_iff [THEN iffD2] dropWhile_eq_Nil_conv [THEN iffD2])
  have l: "lock_irqsave ?s = Inr (interrupts ?s, ?s1)"
    using c(1) cn by (simp add: lock_irqsave_def disable_preempt_def get_crt_thread_def interrupt_disable_def)
  have u: "unlock_irqrestore (interrupts ?s) (schedule_mark_thread_block ?s3) = Inr ?s5"
    using c(1) cn p by (cases "interrupts ?s")
      (simp_all add: unlock_irqrestore_def enable_preempt_def get_crt_thread_def schedule_mark_thread_block_def upd_tcb_def set_queue_def)
  have "read_wait_pass k = Inr (None, k\<lparr>keyboard_queue := q', k_sched := s'\<rparr>)"
    using l rd(1) a(1) u s'(1) c(1) cn
    by (simp add: read_wait_pass_def get_crt_thread_node_def schedule_thread_yield_def interrupt_disable_def)
  then show ?thesis using s' rd(2) by (intro exI [of _ "k\<lparr>keyboard_queue := q', k_sched := s'\<rparr>"]) simp
qed

section \<open>A small system\<close>

text \<open>Thread 32 runs, 48 is ready and 64 waits for the keyboard.\<close>

definition demo_kbd :: kbd where
  "demo_kbd = init_keyboard \<lparr>keyboard_queue = \<lparr>buffer = [], q_head = 0, q_tail = 0, q_size = 0\<rparr>, key_down = (\<lambda>_. False),
     decoder = \<lparr>key_state = 0x8000, key_internal_state = 0, key_sequence = 0\<rparr>, k_sched = demo_sched\<rparr>"

definition demo_waiting :: kbd where
  "demo_waiting = demo_kbd\<lparr>k_sched := demo_sched\<lparr>
     tcbs := demo_tcb(72 := (demo_tcb 72)\<lparr>status := TASK_WAITING, crt_queue := Wait_tasks\<rparr>),
     queues := (queues demo_sched)(Wait_tasks := \<lparr>head = 64, tail = 64, list_size = 1\<rparr>)\<rparr>\<rparr>"

lemma demo_kbd_ok:
  "sched_ok {16, 32, 48, 64} (k_sched demo_waiting) (demo_queues(Wait_tasks := [64])) []"
  "ring (keyboard_queue demo_waiting) []" "sched_ok {16, 32, 48} (k_sched demo_kbd) demo_queues []" "ring (keyboard_queue demo_kbd) []"
proof -
  show "sched_ok {16, 32, 48, 64} (k_sched demo_waiting) (demo_queues(Wait_tasks := [64])) []"
    by (auto simp: demo_waiting_def sched_ok_def sched_base_def queues_rep_def demo_sched_def demo_queues_def demo_tcb_def thread_ok_def dll_def)
  show "ring (keyboard_queue demo_waiting) []" "ring (keyboard_queue demo_kbd) []"
    using init_keyboard_ring by (simp_all add: demo_waiting_def demo_kbd_def)
  show "sched_ok {16, 32, 48} (k_sched demo_kbd) demo_queues []"
    by (auto simp: demo_kbd_def init_keyboard_def Let_def linked_list_init_def sched_ok_def sched_base_def queues_rep_def demo_sched_def demo_queues_def demo_tcb_def thread_ok_def dll_def)
qed

theorem key_press_reaches_reader_witness:
  "\<exists>k'. keyboard_interrupt_handler 0x1E demo_waiting = Some (Inr k') \<and> fst (read_keyboard_char_impl (keyboard_queue k')) = Some 65 \<and>
    sched_ok {16, 32, 48, 64} (k_sched k') (demo_queues(Wait_tasks := [], Ready_tasks := [64, 48])) []"
proof -
  have "\<not> in_scan KH_EXTENDED_SCAN (decoder demo_waiting)" "(ucast (0x1E :: u8), CHR ''a'') \<in> set letter_keys"
    "status (tcb_of (k_sched demo_waiting) (crt_thread_node (k_sched demo_waiting))) = TASK_RUNNING"
    "status (tcb_of (k_sched demo_waiting) 64) = TASK_WAITING"
    by (simp_all add: in_scan_def letter_keys_def demo_waiting_def demo_kbd_def init_keyboard_def demo_sched_def demo_tcb_def)
  moreover have "key_state (decoder demo_waiting) = 0x8000" by (simp add: demo_waiting_def demo_kbd_def init_keyboard_def)
  moreover have "demo_queues Ready_tasks = [48]" by (simp add: demo_queues_def)
  ultimately show ?thesis
    using key_press_reaches_reader [OF demo_kbd_ok(1) _ _ demo_kbd_ok(2), of "0x1E" "CHR ''a''"]
    by (auto simp: KEYBOARD_BUF_SIZE_def ctl_down_p_def shift_down_p_def caps_p_def KH_LSHIFT_KEY_def KH_RSHIFT_KEY_def KH_CAPS_LOCK_def
        KH_LCONTROL_KEY_def KH_RCONTROL_KEY_def ch_def)
qed

end
