(* ===== verification/Disk_Codec.thy ===== *)
theory Disk_Codec
  imports Prelude
begin

text \<open>
  Bytes on a disk: ranges of a disk image, little-endian integers, and the contract \<open>codec\<close> of a structure that
  is stored as a fixed number of bytes. What is stored is read back, and a store elsewhere does not disturb it.
\<close>

type_synonym disk = "nat \<Rightarrow> u8"

section \<open>Ranges of bytes\<close>

definition bytes_at :: "disk \<Rightarrow> nat \<Rightarrow> nat \<Rightarrow> u8 list" where
  "bytes_at d p n = map d [p..<p + n]"

definition put_bytes :: "nat \<Rightarrow> u8 list \<Rightarrow> disk \<Rightarrow> disk" where
  "put_bytes p bs d = (\<lambda>i. if p \<le> i \<and> i < p + length bs then bs ! (i - p) else d i)"

lemma length_bytes_at [simp]: "length (bytes_at d p n) = n"
  by (simp add: bytes_at_def)

lemma nth_bytes_at: "i < n \<Longrightarrow> bytes_at d p n ! i = d (p + i)"
  by (simp add: bytes_at_def)

lemma bytes_at_add: "bytes_at d p (m + n) = bytes_at d p m @ bytes_at d (p + m) n"
  using upt_add_eq_append [of p "p + m" n] by (simp add: bytes_at_def add.assoc)

lemma bytes_at_cong: "(\<And>i. p \<le> i \<Longrightarrow> i < p + n \<Longrightarrow> d i = d' i) \<Longrightarrow> bytes_at d p n = bytes_at d' p n"
  by (simp add: bytes_at_def)

lemma take_drop_bytes_at: "k + m \<le> n \<Longrightarrow> take m (drop k (bytes_at d p n)) = bytes_at d (p + k) m"
  by (rule nth_equalityI) (simp_all add: nth_bytes_at add.assoc)

lemma bytes_at_put_same: "length bs = n \<Longrightarrow> bytes_at (put_bytes p bs d) p n = bs"
  by (rule nth_equalityI) (simp_all add: nth_bytes_at put_bytes_def)

lemma put_bytes_outside [simp]: "i < p \<or> p + length bs \<le> i \<Longrightarrow> put_bytes p bs d i = d i"
  by (auto simp: put_bytes_def)

lemma bytes_at_put_other: "q + n \<le> p \<or> p + length bs \<le> q \<Longrightarrow> bytes_at (put_bytes p bs d) q n = bytes_at d q n"
  by (rule bytes_at_cong) auto

text \<open>Pieces between increasing boundaries join to the whole range.\<close>

lemma concat_pieces:
  assumes "a \<le> b" "\<And>i. a \<le> i \<Longrightarrow> i < b \<Longrightarrow> B i \<le> B (Suc i)"
  shows "concat (map (\<lambda>i. bytes_at d (B i) (B (Suc i) - B i)) [a..<b]) = bytes_at d (B a) (B b - B a) \<and> B a \<le> B b"
  using assms
proof (induction b rule: dec_induct)
  case (step n)
  then have "B a \<le> B n" "B n \<le> B (Suc n)" by auto
  moreover from this have "B a \<le> B (Suc n)" by (rule le_trans)
  ultimately show ?case using step bytes_at_add [of d "B a" "B n - B a" "B (Suc n) - B n"] by simp
qed (simp add: bytes_at_def)

lemma concat_blocks: "concat (map (\<lambda>i. bytes_at d (p + k * i) k) [0..<n]) = bytes_at d p (k * n)"
proof -
  have "concat (map (\<lambda>i. bytes_at d (p + k * i) k) [0..<n]) = concat (map (\<lambda>i. bytes_at d (p + k * i) (p + k * Suc i - (p + k * i))) [0..<n])"
    by simp
  also have "\<dots> = bytes_at d (p + k * 0) (p + k * n - (p + k * 0))" by (rule concat_pieces [THEN conjunct1]) simp_all
  finally show ?thesis by simp
qed

section \<open>Little-endian integers\<close>

definition enc32 :: "u32 \<Rightarrow> u8 list" where
  "enc32 w = [ucast w, ucast (drop_bit 8 w), ucast (drop_bit 16 w), ucast (drop_bit 24 w)]"

definition dec32 :: "u8 list \<Rightarrow> u32" where
  "dec32 bs = ucast (bs ! 0) OR push_bit 8 (ucast (bs ! 1)) OR push_bit 16 (ucast (bs ! 2)) OR push_bit 24 (ucast (bs ! 3))"

definition enc16 :: "u16 \<Rightarrow> u8 list" where
  "enc16 w = [ucast w, ucast (drop_bit 8 w)]"

definition dec16 :: "u8 list \<Rightarrow> u16" where
  "dec16 bs = ucast (bs ! 0) OR push_bit 8 (ucast (bs ! 1))"

section \<open>Stored structures\<close>

locale codec =
  fixes enc :: "'a \<Rightarrow> u8 list" and dec :: "u8 list \<Rightarrow> 'a" and width :: nat and valid :: "'a \<Rightarrow> bool"
  assumes enc_length: "valid x \<Longrightarrow> length (enc x) = width"
    and dec_enc: "valid x \<Longrightarrow> dec (enc x) = x"
begin

lemma load_store: "valid x \<Longrightarrow> dec (bytes_at (put_bytes p (enc x) d) p width) = x"
  by (simp add: bytes_at_put_same enc_length dec_enc)

lemma load_store_other:
  "\<lbrakk>valid x; q + n \<le> p \<or> p + width \<le> q\<rbrakk> \<Longrightarrow> bytes_at (put_bytes p (enc x) d) q n = bytes_at d q n"
  by (simp add: bytes_at_put_other enc_length)

end

interpretation c32: codec enc32 dec32 4 "\<lambda>_. True"
proof (unfold_locales, goal_cases)
  case (2 w)
  show ?case
  proof (rule bit_word_eqI)
    fix n assume "n < LENGTH(32)"
    then show "bit (dec32 (enc32 w)) n = bit w n"
      by (cases "n < 8"; cases "n < 16"; cases "n < 24") (auto simp: dec32_def enc32_def bit_simps dest: bit_imp_le_length)
  qed
qed (simp add: enc32_def)

interpretation c16: codec enc16 dec16 2 "\<lambda>_. True"
proof (unfold_locales, goal_cases)
  case (2 w)
  show ?case
  proof (rule bit_word_eqI)
    fix n assume "n < LENGTH(16)"
    then show "bit (dec16 (enc16 w)) n = bit w n"
      by (cases "n < 8") (auto simp: dec16_def enc16_def bit_simps dest: bit_imp_le_length)
  qed
qed (simp add: enc16_def)

end
