(* ===== verification/Hard_Disk.thy ===== *)
theory Hard_Disk
  imports Disk_Codec
begin

text \<open>
  Reading the disks, \<^verbatim>\<open>src/src/driver/hard_disk.c\<close>. \<open>ds\<close> holds the contents of the two drives, the slave at
  \<open>True\<close>. The transfer routine \<^verbatim>\<open>read_disk\<close> of \<^verbatim>\<open>src/src/driver/disk_io.asm\<close> addresses sectors by 28 bits. The
  bytes a call writes to the caller's buffer are its result; a copy that would leave the sector buffer is an
  error. The spin lock makes the transfer of a sector one step.
\<close>

definition SECTOR_SIZE :: u32 where "SECTOR_SIZE = 512"
definition FS_BLOCK_SIZE :: u32 where "FS_BLOCK_SIZE = 4096"

type_synonym disks = "bool \<Rightarrow> disk"

definition read_disk :: "disks \<Rightarrow> u32 \<Rightarrow> bool \<Rightarrow> u8 list" where
  "read_disk ds start_sector is_slave = bytes_at (ds is_slave) (512 * unat (take_bit 28 start_sector)) 512"

definition read_sector :: "disks \<Rightarrow> u32 \<Rightarrow> bool \<Rightarrow> u8 list" where
  "read_sector ds sector is_slave = read_disk ds sector is_slave"

definition read_block :: "disks \<Rightarrow> u32 \<Rightarrow> bool \<Rightarrow> u8 list" where
  "read_block ds block_num is_slave =
     (let sector_start = block_num * 8
      in concat (map (\<lambda>i. read_sector ds (sector_start + of_nat i) is_slave) [0..<8]))"

text \<open>\<^verbatim>\<open>memcpy\<close> out of a local buffer.\<close>

definition copy_out :: "u8 list \<Rightarrow> nat \<Rightarrow> nat \<Rightarrow> u8 list kres" where
  "copy_out buf off n =
     (if off + n \<le> length buf then Inr (take n (drop off buf)) else Inl (Panic ''copy beyond the buffer''))"

fun concat_res :: "('a \<Rightarrow> 'b list kres) \<Rightarrow> 'a list \<Rightarrow> 'b list kres" where
  "concat_res f [] = Inr []"
| "concat_res f (x # xs) = kbind (f x) (\<lambda>ys. kbind (concat_res f xs) (\<lambda>zs. Inr (ys @ zs)))"

definition copy_sector :: "disks \<Rightarrow> u32 \<Rightarrow> u32 \<Rightarrow> bool \<Rightarrow> nat \<Rightarrow> u8 list kres" where
  "copy_sector ds start stop is_slave n =
     (let i = of_nat n; sector_buffer = read_sector ds i is_slave;
          copy_start_addr = max (i * SECTOR_SIZE) start; copy_end_addr = min ((i + 1) * SECTOR_SIZE) stop;
          copy_size = copy_end_addr - copy_start_addr
      in copy_out sector_buffer (unat (copy_start_addr - i * SECTOR_SIZE)) (unat copy_size))"

definition read_hard_disk :: "disks \<Rightarrow> u32 \<Rightarrow> u32 \<Rightarrow> bool \<Rightarrow> u8 list kres" where
  "read_hard_disk ds start len is_slave =
     (let stop = start + len; start_sector = start div SECTOR_SIZE; end_sector = (stop + SECTOR_SIZE - 1) div SECTOR_SIZE
      in concat_res (copy_sector ds start stop is_slave) [unat start_sector..<unat end_sector])"

section \<open>Exact reads\<close>

lemma concat_res_Inr: "(\<And>x. x \<in> set xs \<Longrightarrow> f x = Inr (g x)) \<Longrightarrow> concat_res f xs = Inr (concat (map g xs))"
  by (induction xs) simp_all

lemma read_sector_bytes:
  assumes "n < 2 ^ 28"
  shows "read_sector ds (of_nat n) sl = bytes_at (ds sl) (512 * n) 512"
proof -
  have "unat (take_bit 28 (of_nat n :: u32)) = n"
    using assms by (simp add: unsigned_take_bit_eq unsigned_of_nat take_bit_nat_eq_self_iff)
  then show ?thesis by (simp add: read_sector_def read_disk_def)
qed

lemma read_block_bytes:
  assumes "unat b < 2 ^ 20"
  shows "read_block ds b sl = bytes_at (ds sl) (4096 * unat b) 4096"
proof -
  have "read_sector ds (b * 8 + of_nat i) sl = bytes_at (ds sl) (4096 * unat b + 512 * i) 512" if "i < 8" for i
  proof -
    have e: "b * 8 + of_nat i = of_nat (unat b * 8 + i)" by simp
    have "unat b * 8 + i < 2 ^ 28" using assms that by simp
    then show ?thesis using read_sector_bytes [of "unat b * 8 + i" ds sl] unfolding e by (simp add: algebra_simps)
  qed
  then have "read_block ds b sl = concat (map (\<lambda>i. bytes_at (ds sl) (4096 * unat b + 512 * i) 512) [0..<8])"
    unfolding read_block_def Let_def by (intro arg_cong [where f = concat] map_cong) auto
  then show ?thesis by (simp only: concat_blocks) simp
qed

text \<open>A range that stays below 4 GB is read byte for byte, whatever its alignment.\<close>

lemma read_hard_disk_bytes:
  assumes "unat start + unat n + 512 \<le> 2 ^ 32"
  shows "read_hard_disk ds start n sl = Inr (bytes_at (ds sl) (unat start) (unat n))"
proof -
  let ?a = "unat start" and ?e = "unat start + unat n" let ?s0 = "?a div 512" and ?s1 = "(?e + 511) div 512"
  define B where "B i = max ?a (min (512 * i) ?e)" for i
  have stop: "unat (start + n) = ?e" using assms by (simp add: unat_word_ariths)
  have e: "start + n + SECTOR_SIZE - 1 = start + n + 511" by (simp add: SECTOR_SIZE_def)
  have u: "unat (start + n + 511) = ?e + 511" using assms stop by (simp add: unat_word_ariths)
  have se: "unat ((start + n + SECTOR_SIZE - 1) div SECTOR_SIZE) = ?s1" "unat (start div SECTOR_SIZE) = ?s0"
    unfolding e unat_div u by (simp_all add: SECTOR_SIZE_def)
  have cs: "copy_sector ds start (start + n) sl i = Inr (bytes_at (ds sl) (B i) (B (Suc i) - B i))" if "i \<in> set [?s0..<?s1]" for i
  proof -
    have i: "?s0 \<le> i" "i < ?s1" using that by auto
    have lo: "?a < 512 * Suc i" using i(1) div_less_iff_less_mult [of 512 ?a "Suc i"] by simp
    have hi: "512 * i < ?e"
    proof -
      have "512 * ?s1 \<le> ?e + 511" by simp
      then show ?thesis using i(2) by linarith
    qed
    have i23: "512 * i + 512 < 2 ^ 32" using hi assms by simp
    have u1: "unat (of_nat i * SECTOR_SIZE) = 512 * i" "unat ((of_nat i + 1) * SECTOR_SIZE) = 512 * i + 512"
    proof -
      have "of_nat i * SECTOR_SIZE = of_nat (512 * i)" "(of_nat i + 1) * SECTOR_SIZE = of_nat (512 * i + 512)"
        by (simp_all add: SECTOR_SIZE_def algebra_simps)
      moreover have "unat (of_nat (512 * i) :: u32) = 512 * i" "unat (of_nat (512 * i + 512) :: u32) = 512 * i + 512"
        using i23 by (intro unat_of_nat_small; simp)+
      ultimately show "unat (of_nat i * SECTOR_SIZE) = 512 * i" "unat ((of_nat i + 1) * SECTOR_SIZE) = 512 * i + 512"
        by (simp_all only:)
    qed
    let ?cs = "max (of_nat i * SECTOR_SIZE) start" and ?ce = "min ((of_nat i + 1) * SECTOR_SIZE) (start + n)"
    have cs: "unat ?cs = max (512 * i) ?a" "unat ?ce = min (512 * i + 512) ?e"
      using u1 stop by (auto simp: max_def min_def word_le_nat_alt)
    have ord: "max (512 * i) ?a \<le> min (512 * i + 512) ?e" using lo hi by auto
    have "unat (?ce - ?cs) = min (512 * i + 512) ?e - max (512 * i) ?a" "unat (?cs - of_nat i * SECTOR_SIZE) = max (512 * i) ?a - 512 * i"
      using cs u1 ord by (simp_all add: unat_sub word_le_nat_alt)
    moreover have "B i = max (512 * i) ?a" "B (Suc i) = min (512 * i + 512) ?e" using lo hi by (auto simp: B_def)
    moreover have "i < 2 ^ 28" "min (512 * i + 512) ?e - 512 * i \<le> 512" using i23 by simp_all
    ultimately show ?thesis using read_sector_bytes [of i ds sl] ord
      by (simp add: copy_sector_def Let_def copy_out_def take_drop_bytes_at)
  qed
  have "read_hard_disk ds start n sl = concat_res (copy_sector ds start (start + n) sl) [?s0..<?s1]"
    by (simp add: read_hard_disk_def Let_def se)
  also have "\<dots> = Inr (concat (map (\<lambda>i. bytes_at (ds sl) (B i) (B (Suc i) - B i)) [?s0..<?s1]))"
    by (rule concat_res_Inr [OF cs])
  also have "concat (map (\<lambda>i. bytes_at (ds sl) (B i) (B (Suc i) - B i)) [?s0..<?s1]) = bytes_at (ds sl) (B ?s0) (B ?s1 - B ?s0)"
    by (rule concat_pieces [THEN conjunct1]) (auto simp: B_def intro: div_le_mono)
  also have "B ?s0 = ?a" by (auto simp: B_def)
  also have "B ?s1 = ?e"
  proof -
    have "(?e + 511) mod 512 < 512" by simp
    then have "?e \<le> 512 * ?s1" using div_mult_mod_eq [of "?e + 511" 512] by linarith
    then show ?thesis by (auto simp: B_def)
  qed
  finally show ?thesis by simp
qed

end
