(* ===== verification/Ext2_Fs.thy ===== *)
theory Ext2_Fs
  imports Hard_Disk
begin

text \<open>
  The file system the kernel mounts, \<^verbatim>\<open>src/src/fs/ext2_fs.c\<close>, and the layer above it, \<^verbatim>\<open>src/src/fs/vfs.c\<close>,
  which has only this one file system. File names are byte strings without the terminating zero; a buffer the code
  fills is the list of the bytes written to it. The result -1 is \<open>None\<close>.
\<close>

section \<open>Structures on the disk\<close>

definition FS_FILE :: u16 where "FS_FILE = 1"
definition FS_DIR :: u16 where "FS_DIR = 2"

record superblock_t =
  magic :: u32
  total_blocks :: u32
  inode_bitmap_blk :: u32
  data_bitmap_blk :: u32
  inode_table_blk :: u32
  data_blocks_start :: u32

record inode_t =
  itype :: u16
  isize :: u32
  blocks :: "u32 list"

record dirent_t =
  inode_num :: u32
  dname :: "u8 list"

text \<open>All three are packed: 24, 62 and 32 bytes.\<close>

definition enc_superblock :: "superblock_t \<Rightarrow> u8 list" where
  "enc_superblock sb =
     enc32 (magic sb) @ enc32 (total_blocks sb) @ enc32 (inode_bitmap_blk sb) @ enc32 (data_bitmap_blk sb) @
     enc32 (inode_table_blk sb) @ enc32 (data_blocks_start sb)"

definition dec_superblock :: "u8 list \<Rightarrow> superblock_t" where
  "dec_superblock bs =
     \<lparr>magic = dec32 (take 4 bs), total_blocks = dec32 (take 4 (drop 4 bs)), inode_bitmap_blk = dec32 (take 4 (drop 8 bs)),
      data_bitmap_blk = dec32 (take 4 (drop 12 bs)), inode_table_blk = dec32 (take 4 (drop 16 bs)),
      data_blocks_start = dec32 (take 4 (drop 20 bs))\<rparr>"

definition enc_inode :: "inode_t \<Rightarrow> u8 list" where
  "enc_inode i = enc16 (itype i) @ enc32 (isize i) @ concat (map enc32 (blocks i))"

definition dec_inode :: "u8 list \<Rightarrow> inode_t" where
  "dec_inode bs =
     \<lparr>itype = dec16 (take 2 bs), isize = dec32 (take 4 (drop 2 bs)),
      blocks = map (\<lambda>i. dec32 (take 4 (drop (4 * i) (drop 6 bs)))) [0..<14]\<rparr>"

definition enc_dirent :: "dirent_t \<Rightarrow> u8 list" where
  "enc_dirent e = enc32 (inode_num e) @ dname e"

definition dec_dirent :: "u8 list \<Rightarrow> dirent_t" where
  "dec_dirent bs = \<lparr>inode_num = dec32 (take 4 bs), dname = take 28 (drop 4 bs)\<rparr>"

section \<open>The file system\<close>

record ext2 =
  current_superblock :: superblock_t
  current_dir_inode :: u32

definition ext2_read_inode :: "disks \<Rightarrow> ext2 \<Rightarrow> u32 \<Rightarrow> inode_t kres" where
  "ext2_read_inode ds fs inum =
     (let offset = inode_table_blk (current_superblock fs) * FS_BLOCK_SIZE + inum * 62
      in kbind (read_hard_disk ds offset 62 True) (\<lambda>bs. Inr (dec_inode bs)))"

text \<open>
  The string at \<^verbatim>\<open>entries[j].name\<close>. It ends at the first zero byte; without one in the 28 bytes of the field it
  runs on into the next entry, as \<^verbatim>\<open>strcmp\<close> does.
\<close>

definition entry_num :: "u8 list \<Rightarrow> nat \<Rightarrow> u32" where
  "entry_num block_buf j = dec32 (take 4 (drop (32 * j) block_buf))"

definition entry_name :: "u8 list \<Rightarrow> nat \<Rightarrow> u8 list" where
  "entry_name block_buf j = takeWhile (\<lambda>b. b \<noteq> 0) (drop (32 * j + 4) block_buf)"

definition find_in_block :: "u8 list \<Rightarrow> u8 list \<Rightarrow> u32 option" where
  "find_in_block block_buf filename =
     map_option (entry_num block_buf)
       (List.find (\<lambda>j. entry_num block_buf j \<noteq> 0 \<and> entry_name block_buf j = filename) [0..<128])"

fun search_blocks :: "disks \<Rightarrow> u8 list \<Rightarrow> u32 list \<Rightarrow> u32 option" where
  "search_blocks ds filename [] = None"
| "search_blocks ds filename (b # bs) =
     (if b = 0 then search_blocks ds filename bs
      else case find_in_block (read_block ds b True) filename of
             Some n \<Rightarrow> Some n
           | None \<Rightarrow> search_blocks ds filename bs)"

definition ext2_find_file_in_dir :: "disks \<Rightarrow> ext2 \<Rightarrow> u32 \<Rightarrow> u8 list \<Rightarrow> u32 option kres" where
  "ext2_find_file_in_dir ds fs dir_inode_num filename =
     kbind (ext2_read_inode ds fs dir_inode_num) (\<lambda>dir_inode.
       if itype dir_inode \<noteq> FS_DIR then Inr None
       else Inr (search_blocks ds filename (take 12 (blocks dir_inode))))"

definition ext2_fs_stat_file :: "disks \<Rightarrow> ext2 \<Rightarrow> u8 list \<Rightarrow> u32 option kres" where
  "ext2_fs_stat_file ds fs filename =
     kbind (ext2_find_file_in_dir ds fs (current_dir_inode fs) filename) (\<lambda>r.
       case r of
         Some n \<Rightarrow> kbind (ext2_read_inode ds fs n) (\<lambda>i. Inr (Some (isize i)))
       | None \<Rightarrow> Inr None)"

text \<open>The lines printed for one block: name and size of every entry in use.\<close>

definition list_block :: "disks \<Rightarrow> ext2 \<Rightarrow> u32 \<Rightarrow> (u8 list \<times> u32) list kres" where
  "list_block ds fs b =
     (let block_buf = read_block ds b True
      in concat_res (\<lambda>j. if entry_num block_buf j \<noteq> 0
                          then kbind (ext2_read_inode ds fs (entry_num block_buf j)) (\<lambda>i. Inr [(entry_name block_buf j, isize i)])
                          else Inr []) [0..<128])"

definition ext2_fs_list_dir :: "disks \<Rightarrow> ext2 \<Rightarrow> (u8 list \<times> u32) list kres" where
  "ext2_fs_list_dir ds fs =
     kbind (ext2_read_inode ds fs (current_dir_inode fs)) (\<lambda>dir_inode.
       concat_res (\<lambda>b. if b = 0 then Inr [] else list_block ds fs b) (take 12 (blocks dir_inode)))"

text \<open>The loop of \<^verbatim>\<open>ext2_fs_read_data\<close>; the result are the bytes it still writes.\<close>

function read_blocks :: "disks \<Rightarrow> u32 list \<Rightarrow> u32 \<Rightarrow> u32 \<Rightarrow> u32 \<Rightarrow> u32 \<Rightarrow> u8 list kres" where
  "read_blocks ds blks len bytes_read start_blk_idx offset_in_blk =
     (if bytes_read < len \<and> start_blk_idx < 12 then
        let blk = blks ! unat start_blk_idx
        in if blk = 0 then Inr []
           else
             let block_buf = read_block ds blk True; room = 4096 - offset_in_blk;
                 to_read = (if room > len - bytes_read then len - bytes_read else room)
             in kbind (copy_out block_buf (unat offset_in_blk) (unat to_read)) (\<lambda>bs.
                  kbind (read_blocks ds blks len (bytes_read + to_read) (start_blk_idx + 1) 0) (\<lambda>cs. Inr (bs @ cs)))
      else Inr [])"
  by pat_completeness auto
termination
proof (relation "measure (\<lambda>(ds, blks, len, br, idx, off). 12 - unat idx)", goal_cases)
  case (2 ds blks len br idx off)
  then have "unat idx < 12" by (simp add: word_less_nat_alt)
  moreover from this have "unat (idx + 1) = unat idx + 1" by (intro unat_succ32) simp
  ultimately show ?case by simp
qed simp

declare read_blocks.simps [simp del]

definition ext2_fs_read_data :: "disks \<Rightarrow> ext2 \<Rightarrow> u8 list \<Rightarrow> u32 \<Rightarrow> u32 \<Rightarrow> u8 list option kres" where
  "ext2_fs_read_data ds fs filename start len =
     kbind (ext2_find_file_in_dir ds fs (current_dir_inode fs) filename) (\<lambda>r.
       case r of
         None \<Rightarrow> Inr None
       | Some n \<Rightarrow>
           kbind (ext2_read_inode ds fs n) (\<lambda>file_inode.
             if start \<ge> isize file_inode then Inr (Some [])
             else
               let len = (if start + len > isize file_inode then isize file_inode - start else len)
               in kbind (read_blocks ds (blocks file_inode) len 0 (start div 4096) (start mod 4096)) (\<lambda>bs. Inr (Some bs))))"

definition ext2_fs_write_data :: "u8 list \<Rightarrow> u8 list \<Rightarrow> u32 \<Rightarrow> u32 \<Rightarrow> u8 list option" where
  "ext2_fs_write_data filename buffer start len = None"

text \<open>A wrong magic number is only reported: the second component says whether it was right.\<close>

definition init_ext2_fs :: "disks \<Rightarrow> (ext2 \<times> bool) kres" where
  "init_ext2_fs ds =
     kbind (read_hard_disk ds 0 24 True) (\<lambda>bs.
       let sb = dec_superblock bs
       in Inr (\<lparr>current_superblock = sb, current_dir_inode = 1\<rparr>, magic sb = 0x8899AABB))"

section \<open>The layer above\<close>

definition init_file_system :: "disks \<Rightarrow> (ext2 \<times> bool) kres" where
  "init_file_system ds = init_ext2_fs ds"

definition stat_file :: "disks \<Rightarrow> ext2 \<Rightarrow> u8 list \<Rightarrow> u32 option kres" where
  "stat_file ds fs filename = ext2_fs_stat_file ds fs filename"

definition list_dir :: "disks \<Rightarrow> ext2 \<Rightarrow> (u8 list \<times> u32) list kres" where
  "list_dir ds fs = ext2_fs_list_dir ds fs"

definition read_file :: "disks \<Rightarrow> ext2 \<Rightarrow> u8 list \<Rightarrow> u32 \<Rightarrow> u32 \<Rightarrow> u8 list option kres" where
  "read_file ds fs filename start len = ext2_fs_read_data ds fs filename start len"

definition write_file :: "u8 list \<Rightarrow> u8 list \<Rightarrow> u32 \<Rightarrow> u32 \<Rightarrow> u8 list option kres" where
  "write_file filename buffer start len = Inl (Panic ''write file not complete'')"

section \<open>Codecs\<close>

interpretation csb: codec enc_superblock dec_superblock 24 "\<lambda>_. True"
  by unfold_locales (simp_all add: enc_superblock_def dec_superblock_def c32.enc_length c32.dec_enc)

lemma concat_enc32: "length (concat (map enc32 xs)) = 4 * length xs"
  by (induction xs) (simp_all add: c32.enc_length)

lemma enc32_nth:
  "i < length xs \<Longrightarrow> take 4 (drop (4 * i) (concat (map enc32 xs))) = enc32 (xs ! i)"
  by (induction xs arbitrary: i) (auto simp: c32.enc_length nth_Cons split: nat.splits)

interpretation cin: codec enc_inode dec_inode 62 "\<lambda>i. length (blocks i) = 14"
proof (unfold_locales, goal_cases)
  case (2 i)
  have "map (\<lambda>k. dec32 (take 4 (drop (4 * k) (concat (map enc32 (blocks i)))))) [0..<14] = map (\<lambda>k. blocks i ! k) [0..<14]"
    by (rule map_cong) (use 2 in \<open>auto simp: enc32_nth c32.dec_enc\<close>)
  also have "\<dots> = blocks i" using 2 by (metis map_nth)
  finally show ?case by (simp add: enc_inode_def dec_inode_def c16.enc_length c32.enc_length c16.dec_enc c32.dec_enc)
qed (simp add: enc_inode_def c16.enc_length c32.enc_length concat_enc32)

interpretation cde: codec enc_dirent dec_dirent 32 "\<lambda>e. length (dname e) = 28"
  by unfold_locales (simp_all add: enc_dirent_def dec_dirent_def c32.enc_length c32.dec_enc)

section \<open>Reading a file\<close>

definition block_bytes :: "disk \<Rightarrow> u32 \<Rightarrow> u8 list" where
  "block_bytes d b = bytes_at d (4096 * unat b) 4096"

text \<open>The bytes of the direct blocks from block \<open>k\<close> on, up to the first block that is missing.\<close>

definition data_from :: "disk \<Rightarrow> u32 list \<Rightarrow> nat \<Rightarrow> u8 list" where
  "data_from d blks k = concat (map (block_bytes d) (takeWhile (\<lambda>b. b \<noteq> 0) (drop k (take 12 blks))))"

lemma data_from_step:
  "\<lbrakk>k < 12; 12 \<le> length blks\<rbrakk> \<Longrightarrow> data_from d blks k = (if blks ! k = 0 then [] else block_bytes d (blks ! k) @ data_from d blks (Suc k))"
  by (simp add: data_from_def Cons_nth_drop_Suc [symmetric])

lemma read_blocks_eq:
  assumes "12 \<le> length blks" "\<forall>b\<in>set blks. unat b < 2 ^ 20" "unat off \<le> 4096" "br \<le> len"
  shows "read_blocks ds blks len br idx off = Inr (take (unat (len - br)) (drop (unat off) (data_from (ds True) blks (unat idx))))"
  using assms
proof (induction ds blks len br idx off rule: read_blocks.induct)
  case (1 ds blks len br idx off)
  show ?case
  proof (cases "br < len \<and> idx < 12")
    case False
    then have "len = br \<or> \<not> idx < 12" using "1.prems"(4) by (auto simp: le_less)
    then have "len = br \<or> 12 \<le> unat idx" by (auto simp: word_less_nat_alt not_less)
    then have "len - br = 0 \<or> data_from (ds True) blks (unat idx) = []" by (auto simp: data_from_def)
    then show ?thesis using False by (auto simp: read_blocks.simps [of ds blks len])
  next
    case True
    then have i: "unat idx < 12" by (simp add: word_less_nat_alt)
    then have i1: "unat (idx + 1) = Suc (unat idx)" by (subst unat_succ32) simp_all
    let ?blk = "blks ! unat idx" and ?n = "unat (len - br)"
    note step = data_from_step [OF i "1.prems"(1), of "ds True"]
    show ?thesis
    proof (cases "?blk = 0")
      case True
      then show ?thesis using step \<open>br < len \<and> idx < 12\<close> by (simp add: read_blocks.simps [of ds blks len])
    next
      case nz: False
      let ?room = "4096 - off"
      define tr where "tr = (if ?room > len - br then len - br else ?room)"
      have "unat (4096 :: u32) = 4096" by simp
      then have room: "unat ?room = 4096 - unat off" using "1.prems"(3) by (subst unat_sub) (simp_all add: word_le_nat_alt)
      have tr: "unat tr = min ?n (4096 - unat off)" using room by (auto simp: tr_def word_less_nat_alt)
      have n: "?n = unat len - unat br" using "1.prems"(4) by (simp add: unat_sub)
      have brl: "unat br < unat len" "unat tr \<le> unat len - unat br" using True tr n by (auto simp: word_less_nat_alt)
      then have "unat br + unat tr < 4294967296" using unat_u32_less [of len] by linarith
      then have "unat (br + tr) = unat br + unat tr" by (simp add: unat_word_ariths)
      then have le: "br + tr \<le> len" "unat (len - (br + tr)) = ?n - unat tr"
        using n brl by (simp_all add: word_le_nat_alt unat_sub)
      have blk: "read_block ds ?blk True = block_bytes (ds True) ?blk" "length (block_bytes (ds True) ?blk) = 4096"
        using read_block_bytes [of ?blk ds True] "1.prems"(1,2) i by (simp_all add: block_bytes_def)
      let ?B = "block_bytes (ds True) ?blk" and ?R = "data_from (ds True) blks (Suc (unat idx))"
      have IH: "read_blocks ds blks len (br + tr) (idx + 1) 0 = Inr (take (?n - unat tr) ?R)"
        using "1.IH" [OF True refl nz refl refl tr_def "1.prems"(1,2) _ le(1)] le(2) i1 by simp
      have out: "copy_out ?B (unat off) (unat tr) = Inr (take (unat tr) (drop (unat off) ?B))"
        using tr blk(2) "1.prems"(3) by (simp add: copy_out_def)
      have "read_blocks ds blks len br idx off = Inr (take (unat tr) (drop (unat off) ?B) @ take (?n - unat tr) ?R)"
        using True nz blk(1) out IH by (subst read_blocks.simps) (simp add: Let_def tr_def)
      moreover have "take ?n (drop (unat off) (?B @ ?R)) = take (unat tr) (drop (unat off) ?B) @ take (?n - unat tr) ?R"
        using tr blk(2) "1.prems"(3) by (cases "?n \<le> 4096 - unat off") (simp_all add: min_def)
      ultimately show ?thesis using step nz by simp
    qed
  qed
qed

end
