(* ===== verification/Fs_Tools.thy ===== *)
theory Fs_Tools
  imports Ext2_Fs
begin

text \<open>
  The host tools that make the disk image: \<^verbatim>\<open>src/user/fs/mkfs.c\<close>, which formats it, and
  \<^verbatim>\<open>src/user/fs/fs_inject.c\<close>, which stores a file in it. A seek followed by a read or write is a range of the
  image. The messages of the tools are left out; an early return leaves the image as it is at that point.
\<close>

section \<open>Formatting\<close>

definition mkfs_superblock :: superblock_t where
  "mkfs_superblock =
     \<lparr>magic = 0x8899AABB, total_blocks = 25600, inode_bitmap_blk = 1, data_bitmap_blk = 2, inode_table_blk = 3,
      data_blocks_start = 103\<rparr>"

definition blk_pos :: "u32 \<Rightarrow> nat" where "blk_pos b = unat (b * FS_BLOCK_SIZE)"

definition inode_pos :: "superblock_t \<Rightarrow> u32 \<Rightarrow> nat" where
  "inode_pos sb n = unat (inode_table_blk sb * FS_BLOCK_SIZE + n * 62)"

definition root_inode :: inode_t where
  "root_inode = \<lparr>itype = FS_DIR, isize = FS_BLOCK_SIZE, blocks = data_blocks_start mkfs_superblock # replicate 13 0\<rparr>"

text \<open>A string literal in the 28 bytes of the name field.\<close>

definition name_field :: "u8 list \<Rightarrow> u8 list" where
  "name_field s = s @ replicate (28 - length s) 0"

definition mkfs :: "disk \<Rightarrow> disk" where
  "mkfs d =
     (let sb = mkfs_superblock;
          d = put_bytes 0 (enc_superblock sb) d;
          d = put_bytes (blk_pos (inode_bitmap_blk sb)) (3 # replicate 4095 0) d;
          d = put_bytes (blk_pos (data_bitmap_blk sb)) (1 # replicate 4095 0) d;
          d = put_bytes (inode_pos sb 1) (enc_inode root_inode) d;
          d = put_bytes (blk_pos (data_blocks_start sb)) (replicate 4096 0) d;
          d = put_bytes (blk_pos (data_blocks_start sb)) (enc_dirent \<lparr>inode_num = 1, dname = name_field [46]\<rparr>) d
      in put_bytes (blk_pos (data_blocks_start sb) + 32) (enc_dirent \<lparr>inode_num = 1, dname = name_field [46, 46]\<rparr>) d)"

section \<open>Allocation in the bitmaps\<close>

definition bm_test :: "u8 list \<Rightarrow> nat \<Rightarrow> bool" where "bm_test bm i = bit (bm ! (i div 8)) (i mod 8)"

definition bm_set :: "u8 list \<Rightarrow> nat \<Rightarrow> u8 list" where
  "bm_set bm i = bm[i div 8 := bm ! (i div 8) OR push_bit (i mod 8) 1]"

text \<open>The loop of \<^verbatim>\<open>find_free_blocks\<close>, with \<open>k\<close> positions left.\<close>

fun free_scan :: "u32 \<Rightarrow> nat \<Rightarrow> u8 list \<Rightarrow> nat \<Rightarrow> nat \<Rightarrow> u32 list \<Rightarrow> u32 list \<times> u8 list" where
  "free_scan base needed bm i 0 allocated = (allocated, bm)"
| "free_scan base needed bm i (Suc k) allocated =
     (if length allocated < needed then
        if \<not> bm_test bm i then free_scan base needed (bm_set bm i) (Suc i) k (allocated @ [base + of_nat i])
        else free_scan base needed bm (Suc i) k allocated
      else (allocated, bm))"

definition find_free_blocks :: "superblock_t \<Rightarrow> u8 list \<Rightarrow> nat \<Rightarrow> u32 list option \<times> u8 list" where
  "find_free_blocks sb data_bitmap blocks_needed =
     (let (allocated, bm) = free_scan (data_blocks_start sb) blocks_needed data_bitmap 0 (4096 * 8) []
      in (if length allocated < blocks_needed then None else Some allocated, bm))"

fun inode_scan :: "u8 list \<Rightarrow> nat \<Rightarrow> nat \<Rightarrow> (nat \<times> u8 list) option" where
  "inode_scan bm i 0 = None"
| "inode_scan bm i (Suc k) = (if \<not> bm_test bm i then Some (i, bm_set bm i) else inode_scan bm (Suc i) k)"

definition get_free_inode_num :: "u8 list \<Rightarrow> (nat \<times> u8 list) option" where
  "get_free_inode_num inode_bitmap = inode_scan inode_bitmap 0 (4096 * 8)"

section \<open>Storing a file\<close>

definition write_inode_to_disk :: "u32 \<Rightarrow> inode_t \<Rightarrow> disk \<Rightarrow> disk" where
  "write_inode_to_disk n new_inode d =
     (let sb = dec_superblock (bytes_at d 0 24) in put_bytes (inode_pos sb n) (enc_inode new_inode) d)"

text \<open>\<^verbatim>\<open>strncpy\<close> of at most 27 bytes, and the terminating zero.\<close>

definition copied_name :: "u8 list \<Rightarrow> u8 list" where
  "copied_name s = take 27 s @ replicate (27 - length s) 0 @ [0]"

definition add_dirent_to_root :: "u8 list \<Rightarrow> u32 \<Rightarrow> disk \<Rightarrow> disk" where
  "add_dirent_to_root s n d =
     (let sb = dec_superblock (bytes_at d 0 24);
          root = dec_inode (bytes_at d (inode_pos sb 1) 62);
          base = blk_pos (blocks root ! 0)
      in case List.find (\<lambda>i. inode_num (dec_dirent (bytes_at d (base + i * 32) 32)) = 0) [0..<128] of
           None \<Rightarrow> d
         | Some i \<Rightarrow> put_bytes (base + i * 32) (enc_dirent \<lparr>inode_num = n, dname = copied_name s\<rparr>) d)"

definition write_size :: "nat \<Rightarrow> nat \<Rightarrow> nat \<Rightarrow> nat" where
  "write_size file_size blocks_needed i =
     (if i = blocks_needed - 1 \<and> file_size mod 4096 \<noteq> 0 then file_size mod 4096 else 4096)"

definition write_blocks :: "u8 list \<Rightarrow> u32 list \<Rightarrow> nat \<Rightarrow> disk \<Rightarrow> disk" where
  "write_blocks buffer allocated blocks_needed d =
     fold (\<lambda>i d. put_bytes (blk_pos (allocated ! i)) (take (write_size (length buffer) blocks_needed i) (drop (i * 4096) buffer)) d)
       [0..<blocks_needed] d"

text \<open>\<open>buffer\<close> is the content of the host file; its length fits 32 bits.\<close>

definition inject_file :: "u8 list \<Rightarrow> u8 list \<Rightarrow> disk \<Rightarrow> disk" where
  "inject_file buffer internal_name d =
     (let file_size = of_nat (length buffer) :: u32;
          blocks_needed = unat ((file_size + FS_BLOCK_SIZE - 1) div FS_BLOCK_SIZE)
      in if blocks_needed > 12 then d
         else
           let sb = dec_superblock (bytes_at d 0 24);
               data_bitmap = bytes_at d (blk_pos (data_bitmap_blk sb)) 4096;
               inode_bitmap = bytes_at d (blk_pos (inode_bitmap_blk sb)) 4096
           in case (find_free_blocks sb data_bitmap blocks_needed, get_free_inode_num inode_bitmap) of
                ((Some allocated, data_bitmap), Some (n, inode_bitmap)) \<Rightarrow>
                  let d = put_bytes (blk_pos (data_bitmap_blk sb)) data_bitmap d;
                      d = put_bytes (blk_pos (inode_bitmap_blk sb)) inode_bitmap d;
                      d = write_blocks buffer allocated blocks_needed d;
                      new_inode = \<lparr>itype = FS_FILE, isize = file_size, blocks = allocated @ replicate (14 - blocks_needed) 0\<rparr>;
                      d = write_inode_to_disk (of_nat n) new_inode d
                  in add_dirent_to_root internal_name (of_nat n) d
              | _ \<Rightarrow> d)"

definition print_files_in_root :: "disk \<Rightarrow> (u8 list \<times> u32) list" where
  "print_files_in_root d =
     (let sb = dec_superblock (bytes_at d 0 24);
          root = dec_inode (bytes_at d (inode_pos sb 1) 62);
          block = bytes_at d (blk_pos (blocks root ! 0)) 4096
      in map (\<lambda>i. (entry_name block i, entry_num block i)) (filter (\<lambda>i. entry_num block i \<noteq> 0) [0..<128]))"

end
