(* ===== verification/Fs_Image.thy ===== *)
theory Fs_Image
  imports Fs_Tools
begin

text \<open>
  What a disk image means to the kernel: the invariant \<open>fs_ok\<close> of an image made by the tools, the kernel's view of
  such an image, and the round trip from the host tool that stores a file to the kernel that reads it.
\<close>

section \<open>The layout of an image\<close>

definition used_inode :: "disk \<Rightarrow> nat \<Rightarrow> bool" where "used_inode d n = bit (d (4096 + n div 8)) (n mod 8)"
definition used_block :: "disk \<Rightarrow> nat \<Rightarrow> bool" where "used_block d n = bit (d (8192 + n div 8)) (n mod 8)"
definition inode_at :: "disk \<Rightarrow> nat \<Rightarrow> inode_t" where "inode_at d n = dec_inode (bytes_at d (12288 + 62 * n) 62)"
definition dir_num :: "disk \<Rightarrow> nat \<Rightarrow> u32" where "dir_num d j = dec32 (bytes_at d (421888 + 32 * j) 4)"
definition dir_field :: "disk \<Rightarrow> nat \<Rightarrow> u8 list" where "dir_field d j = bytes_at d (421888 + 32 * j + 4) 28"
definition dir_name :: "disk \<Rightarrow> nat \<Rightarrow> u8 list" where "dir_name d j = takeWhile (\<lambda>b. b \<noteq> 0) (dir_field d j)"

text \<open>The inode table has room for 6606 inodes before the data blocks.\<close>

definition INODES :: nat where "INODES = 6606"

definition dir_lookup :: "disk \<Rightarrow> u8 list \<Rightarrow> u32 option" where
  "dir_lookup d s = map_option (dir_num d) (List.find (\<lambda>j. dir_num d j \<noteq> 0 \<and> dir_name d j = s) [0..<128])"

text \<open>Every entry of the directory names an inode in use, and the blocks of a file are in use.\<close>

definition entry_ok :: "disk \<Rightarrow> nat \<Rightarrow> bool" where
  "entry_ok d j \<longleftrightarrow>
     (let n = unat (dir_num d j)
      in n < INODES \<and> used_inode d n \<and> 0 \<in> set (dir_field d j) \<and>
         (n \<noteq> 1 \<longrightarrow> (\<forall>b\<in>set (blocks (inode_at d n)). b \<noteq> 0 \<longrightarrow>
            103 < unat b \<and> unat b < 103 + 32768 \<and> used_block d (unat b - 103))))"

definition fs_ok :: "disk \<Rightarrow> bool" where
  "fs_ok d \<longleftrightarrow>
     dec_superblock (bytes_at d 0 24) = mkfs_superblock \<and> inode_at d 1 = root_inode \<and>
     used_inode d 0 \<and> used_inode d 1 \<and> used_block d 0 \<and> (\<forall>j<128. dir_num d j \<noteq> 0 \<longrightarrow> entry_ok d j)"

section \<open>The kernel's view\<close>

abbreviation mounted :: ext2 where
  "mounted \<equiv> \<lparr>current_superblock = mkfs_superblock, current_dir_inode = 1\<rparr>"

lemma inode_pos_eq:
  assumes "unat n < INODES"
  shows "inode_pos mkfs_superblock n = 12288 + 62 * unat n"
proof -
  have e: "inode_table_blk mkfs_superblock * FS_BLOCK_SIZE + n * 62 = of_nat (12288 + 62 * unat n)"
    by (simp add: mkfs_superblock_def FS_BLOCK_SIZE_def mult.commute)
  show ?thesis unfolding inode_pos_def e by (rule unat_of_nat_small) (use assms in \<open>simp add: INODES_def\<close>)
qed

lemma blk_pos_eq: "unat b < 1048576 \<Longrightarrow> blk_pos b = 4096 * unat b"
  by (simp add: blk_pos_def FS_BLOCK_SIZE_def unat_word_ariths mult.commute)

lemma ext2_read_inode_at:
  assumes "unat n < INODES"
  shows "ext2_read_inode ds mounted n = Inr (inode_at (ds True) (unat n))"
proof -
  let ?o = "inode_table_blk mkfs_superblock * FS_BLOCK_SIZE + n * 62"
  have o: "unat ?o = 12288 + 62 * unat n" using inode_pos_eq [OF assms] by (simp add: inode_pos_def)
  have "read_hard_disk ds ?o 62 True = Inr (bytes_at (ds True) (unat ?o) (unat (62 :: u32)))"
    by (rule read_hard_disk_bytes) (use assms in \<open>simp add: o INODES_def\<close>)
  then show ?thesis by (simp add: ext2_read_inode_def o inode_at_def)
qed

lemma entry_root:
  assumes "j < 128"
  shows "entry_num (bytes_at d 421888 4096) j = dir_num d j"
    "0 \<in> set (dir_field d j) \<Longrightarrow> entry_name (bytes_at d 421888 4096) j = dir_name d j"
proof -
  show "entry_num (bytes_at d 421888 4096) j = dir_num d j"
    using assms by (simp add: entry_num_def dir_num_def take_drop_bytes_at)
  assume z: "0 \<in> set (dir_field d j)"
  have "drop (32 * j + 4) (bytes_at d 421888 4096) = dir_field d j @ drop (32 * j + 32) (bytes_at d 421888 4096)"
  proof -
    have "drop (32 * j + 4) (bytes_at d 421888 4096) =
        take 28 (drop (32 * j + 4) (bytes_at d 421888 4096)) @ drop 28 (drop (32 * j + 4) (bytes_at d 421888 4096))"
      by (simp only: append_take_drop_id)
    then show ?thesis using assms by (simp add: take_drop_bytes_at dir_field_def add.assoc add.commute [of 32])
  qed
  then show "entry_name (bytes_at d 421888 4096) j = dir_name d j"
    using takeWhile_append1 [OF z, of "\<lambda>b. b \<noteq> 0"] by (simp add: entry_name_def dir_name_def)
qed

lemma find_cong_set: "(\<And>x. x \<in> set xs \<Longrightarrow> P x = Q x) \<Longrightarrow> List.find P xs = List.find Q xs"
  by (induction xs) auto

lemma ext2_find_root:
  assumes ok: "fs_ok (ds True)"
  shows "ext2_find_file_in_dir ds mounted 1 s = Inr (dir_lookup (ds True) s)"
proof -
  let ?d = "ds True" and ?b = "bytes_at (ds True) 421888 4096"
  have r: "ext2_read_inode ds mounted 1 = Inr root_inode" "itype root_inode = FS_DIR"
    "take 12 (blocks root_inode) = 103 # replicate 11 0"
    using ext2_read_inode_at [of 1 ds] ok by (simp_all add: INODES_def fs_ok_def root_inode_def mkfs_superblock_def)
  have b: "read_block ds 103 True = ?b" using read_block_bytes [of 103 ds True] by simp
  have "List.find (\<lambda>j. entry_num ?b j \<noteq> 0 \<and> entry_name ?b j = s) [0..<128] = List.find (\<lambda>j. dir_num ?d j \<noteq> 0 \<and> dir_name ?d j = s) [0..<128]"
    by (rule find_cong_set) (use ok entry_root in \<open>auto simp: fs_ok_def entry_ok_def Let_def\<close>)
  moreover have "map_option (entry_num ?b) (List.find P [0..<128]) = map_option (dir_num ?d) (List.find P [0..<128])" for P
  proof (cases "List.find P [0..<128]")
    case (Some j)
    then have "j < 128" by (auto simp: find_Some_iff)
    then show ?thesis using Some entry_root(1) by simp
  qed simp
  ultimately have f: "find_in_block ?b s = dir_lookup ?d s" by (simp add: find_in_block_def dir_lookup_def)
  have z: "search_blocks ds s (replicate k 0) = None" for k by (induction k) simp_all
  show ?thesis using r b f z [of 11] by (simp add: ext2_find_file_in_dir_def del: replicate.simps split: option.split)
qed

text \<open>The content of the file with inode \<open>n\<close>.\<close>

definition content_of :: "disk \<Rightarrow> nat \<Rightarrow> u8 list" where
  "content_of d n = take (unat (isize (inode_at d n))) (data_from d (blocks (inode_at d n)) 0)"

text \<open>What a program loader does: ask for the size, then read the whole file.\<close>

definition whole_file :: "disks \<Rightarrow> ext2 \<Rightarrow> u8 list \<Rightarrow> u8 list option kres" where
  "whole_file ds fs s =
     kbind (stat_file ds fs s) (\<lambda>r. case r of None \<Rightarrow> Inr None | Some n \<Rightarrow> read_file ds fs s 0 n)"

lemma blocks_inode_at [simp]: "length (blocks (inode_at d n)) = 14"
  by (simp add: inode_at_def dec_inode_def)

lemma dir_lookup_ok:
  assumes "fs_ok d" "dir_lookup d s = Some n"
  shows "n \<noteq> 0 \<and> (\<exists>j<128. dir_num d j = n \<and> dir_name d j = s \<and> entry_ok d j)"
  using assms by (auto simp: dir_lookup_def find_Some_iff fs_ok_def)

lemma file_blocks_small:
  assumes "fs_ok d" "dir_lookup d s = Some n" "b \<in> set (blocks (inode_at d (unat n)))"
  shows "unat b < 2 ^ 20"
proof -
  from dir_lookup_ok [OF assms(1,2)] obtain j where j: "dir_num d j = n" "entry_ok d j" by blast
  show ?thesis
  proof (cases "n = 1")
    case True
    then show ?thesis using assms(1,3) by (auto simp: fs_ok_def root_inode_def mkfs_superblock_def)
  next
    case False
    then have "unat n \<noteq> 1" by (metis unat_1 unsigned_word_eqI)
    then have "b \<noteq> 0 \<longrightarrow> unat b < 103 + 32768" using j assms(3) by (auto simp: entry_ok_def Let_def)
    then show ?thesis by (cases "b = 0") auto
  qed
qed

lemma ext2_read_data_eq:
  assumes ok: "fs_ok (ds True)" and n: "dir_lookup (ds True) s = Some n" and len: "unat start + unat len < 2 ^ 32"
  shows "read_file ds mounted s start len =
    Inr (Some (take (min (unat len) (unat (isize (inode_at (ds True) (unat n))) - unat start))
      (drop (unat start mod 4096) (data_from (ds True) (blocks (inode_at (ds True) (unat n))) (unat start div 4096)))))"
proof -
  let ?i = "inode_at (ds True) (unat n)"
  have inum: "unat n < INODES" using dir_lookup_ok [OF ok n] by (auto simp: entry_ok_def Let_def)
  have small: "\<forall>b\<in>set (blocks ?i). unat b < 2 ^ 20" using file_blocks_small [OF ok n] by blast
  let ?l = "if start + len > isize ?i then isize ?i - start else len"
  have s: "unat (start + len) = unat start + unat len" using len by (simp add: unat_word_ariths)
  have d: "unat (start mod 4096) = unat start mod 4096" "unat (start div 4096) = unat start div 4096" by (simp_all add: unat_mod unat_div)
  have rd: "read_blocks ds (blocks ?i) ?l 0 (start div 4096) (start mod 4096) =
      Inr (take (unat (?l - 0)) (drop (unat (start mod 4096)) (data_from (ds True) (blocks ?i) (unat (start div 4096)))))"
    by (rule read_blocks_eq) (use small d in auto)
  have l: "unat ?l = min (unat len) (unat (isize ?i) - unat start)" if "\<not> isize ?i \<le> start"
    using that s by (auto simp: word_less_nat_alt word_le_nat_alt unat_sub)
  show ?thesis
  proof (cases "isize ?i \<le> start")
    case True
    then show ?thesis using ext2_find_root [where ds = ds, OF ok] n ext2_read_inode_at [OF inum, of ds]
      by (simp add: read_file_def ext2_fs_read_data_def word_le_nat_alt)
  next
    case False
    then show ?thesis using ext2_find_root [where ds = ds, OF ok] n ext2_read_inode_at [OF inum, of ds] rd l d
      by (simp add: read_file_def ext2_fs_read_data_def Let_def)
  qed
qed

lemma whole_file_eq:
  assumes ok: "fs_ok (ds True)"
  shows "whole_file ds mounted s = Inr (map_option (\<lambda>n. content_of (ds True) (unat n)) (dir_lookup (ds True) s))"
proof (cases "dir_lookup (ds True) s")
  case None
  then show ?thesis using ext2_find_root [where ds = ds, OF ok] by (simp add: whole_file_def stat_file_def ext2_fs_stat_file_def)
next
  case (Some n)
  have inum: "unat n < INODES" using dir_lookup_ok [OF ok Some] by (auto simp: entry_ok_def Let_def)
  have "stat_file ds mounted s = Inr (Some (isize (inode_at (ds True) (unat n))))"
    using ext2_find_root [where ds = ds, OF ok] Some ext2_read_inode_at [OF inum, of ds] by (simp add: stat_file_def ext2_fs_stat_file_def)
  then show ?thesis using ext2_read_data_eq [where ds = ds, OF ok Some, of 0 "isize (inode_at (ds True) (unat n))"] Some unat_u32_less by (simp add: whole_file_def content_of_def)
qed

section \<open>Allocation\<close>

lemma bm_test_set:
  assumes "i div 8 < length bm"
  shows "bm_test (bm_set bm i) m \<longleftrightarrow> m = i \<or> bm_test bm m"
proof (cases "m div 8 = i div 8")
  case True
  have "m = i \<longleftrightarrow> m mod 8 = i mod 8" using True by (metis div_mult_mod_eq)
  moreover have "m mod 8 < 8" by simp
  ultimately show ?thesis using True assms by (auto simp: bm_test_def bm_set_def bit_simps)
next
  case False
  then show ?thesis by (auto simp: bm_test_def bm_set_def)
qed

lemma length_bm_set [simp]: "length (bm_set bm i) = length bm"
  by (simp add: bm_set_def)

lemma free_scan_spec:
  assumes "i + k \<le> 8 * length bm"
  shows "\<exists>bm'. free_scan base needed bm i k acc =
      (acc @ map (\<lambda>m. base + of_nat m) (take (needed - length acc) (filter (\<lambda>m. \<not> bm_test bm m) [i..<i + k])), bm') \<and>
    length bm' = length bm \<and>
    (\<forall>m. bm_test bm' m \<longleftrightarrow> bm_test bm m \<or> m \<in> set (take (needed - length acc) (filter (\<lambda>m. \<not> bm_test bm m) [i..<i + k])))"
  using assms
proof (induction k arbitrary: bm i acc)
  case (Suc k)
  have up: "[i..<i + Suc k] = i # [Suc i..<Suc i + k]" by (simp add: upt_rec)
  show ?case
  proof (cases "length acc < needed \<and> \<not> bm_test bm i")
    case True
    have l: "i div 8 < length bm" using Suc.prems by simp
    have f: "filter (\<lambda>m. \<not> bm_test (bm_set bm i) m) [Suc i..<Suc i + k] = filter (\<lambda>m. \<not> bm_test bm m) [Suc i..<Suc i + k]"
      by (rule filter_cong) (use bm_test_set [OF l] in auto)
    have n: "needed - length acc = Suc (needed - length (acc @ [base + of_nat i]))" using True by (simp add: Suc_diff_Suc)
    show ?thesis
      using Suc.IH [of "Suc i" "bm_set bm i" "acc @ [base + of_nat i]", unfolded f] Suc.prems True
      unfolding up n by (auto simp: bm_test_set [OF l])
  next
    case False
    then show ?thesis using Suc.IH [of "Suc i" bm acc] Suc.prems unfolding up
      by (cases "length acc < needed") auto
  qed
qed auto

lemma inode_scan_spec:
  "inode_scan bm i k = map_option (\<lambda>n. (n, bm_set bm n)) (List.find (\<lambda>n. \<not> bm_test bm n) [i..<i + k])"
proof (induction k arbitrary: i)
  case (Suc k)
  have up: "[i..<i + Suc k] = i # [Suc i..<Suc i + k]" by (simp add: upt_rec)
  show ?case using Suc.IH [of "Suc i"] by (simp only: inode_scan.simps up List.find.simps) auto
qed simp

lemma used_bitmap:
  "m < 32768 \<Longrightarrow> used_block d m = bm_test (bytes_at d 8192 4096) m"
  "m < 32768 \<Longrightarrow> used_inode d m = bm_test (bytes_at d 4096 4096) m"
  by (simp_all add: used_block_def used_inode_def bm_test_def nth_bytes_at div_less_iff_less_mult)

definition free_blocks :: "disk \<Rightarrow> nat list" where
  "free_blocks d = filter (\<lambda>m. \<not> used_block d m) [0..<32768]"

lemma find_free_blocks_eq:
  assumes "needed \<le> length (free_blocks d)"
  shows "\<exists>bm. find_free_blocks mkfs_superblock (bytes_at d 8192 4096) needed =
      (Some (map (\<lambda>m. 103 + of_nat m) (take needed (free_blocks d))), bm) \<and> length bm = 4096 \<and>
    (\<forall>m<32768. bm_test bm m \<longleftrightarrow> used_block d m \<or> m \<in> set (take needed (free_blocks d)))"
proof -
  have f: "filter (\<lambda>m. \<not> bm_test (bytes_at d 8192 4096) m) [0..<0 + 32768] = free_blocks d"
    unfolding free_blocks_def by (rule filter_cong) (auto simp: used_bitmap)
  have b: "data_blocks_start mkfs_superblock = 103" by (simp add: mkfs_superblock_def)
  obtain bm where bm: "free_scan 103 needed (bytes_at d 8192 4096) 0 32768 [] = (map (\<lambda>m. 103 + of_nat m) (take needed (free_blocks d)), bm)"
    "length bm = 4096" "\<forall>m. bm_test bm m \<longleftrightarrow> bm_test (bytes_at d 8192 4096) m \<or> m \<in> set (take needed (free_blocks d))"
    using free_scan_spec [of 0 32768 "bytes_at d 8192 4096" 103 needed "[]", unfolded f] by auto
  have "find_free_blocks mkfs_superblock (bytes_at d 8192 4096) needed = (Some (map (\<lambda>m. 103 + of_nat m) (take needed (free_blocks d))), bm)"
    using bm(1) assms by (simp add: find_free_blocks_def b)
  then show ?thesis using bm(2,3) by (auto simp: used_bitmap)
qed

lemma get_free_inode_eq:
  assumes "k < INODES" "\<not> used_inode d k"
  shows "\<exists>n bm. get_free_inode_num (bytes_at d 4096 4096) = Some (n, bm) \<and> n < INODES \<and> \<not> used_inode d n \<and>
    length bm = 4096 \<and> (\<forall>m<32768. bm_test bm m \<longleftrightarrow> used_inode d m \<or> m = n)"
proof -
  let ?bm = "bytes_at d 4096 4096" and ?P = "\<lambda>n. \<not> bm_test (bytes_at d 4096 4096) n"
  have k: "k < 32768" "?P k" using assms by (auto simp: INODES_def used_bitmap)
  then have "List.find ?P [0..<32768] \<noteq> None" by (auto simp: find_None_iff)
  then obtain n where n: "List.find ?P [0..<32768] = Some n" by blast
  then have n1: "n < 32768" "?P n" "\<forall>m<n. \<not> ?P m" by (auto simp: find_Some_iff)
  then have "n \<le> k" using k(2) by (metis not_le_imp_less)
  moreover have "get_free_inode_num ?bm = Some (n, bm_set ?bm n)" using n by (simp add: get_free_inode_num_def inode_scan_spec)
  moreover have "bm_test (bm_set ?bm n) m \<longleftrightarrow> used_inode d m \<or> m = n" if "m < 32768" for m
    using that n1(1) bm_test_set [of n ?bm m] by (auto simp: used_bitmap div_less_iff_less_mult)
  ultimately show ?thesis using n1 assms(1) by (auto simp: used_bitmap)
qed

section \<open>Writing the data\<close>

definition chunk :: "u8 list \<Rightarrow> nat \<Rightarrow> u8 list" where "chunk buf i = take 4096 (drop (4096 * i) buf)"

lemma write_blocks_chunks:
  assumes "needed = (length buf + 4095) div 4096"
  shows "write_blocks buf allocated needed d = fold (\<lambda>i. put_bytes (blk_pos (allocated ! i)) (chunk buf i)) [0..<needed] d"
proof -
  have "take (write_size (length buf) needed i) (drop (i * 4096) buf) = chunk buf i" if "i < needed" for i
  proof (cases "i = needed - 1 \<and> length buf mod 4096 \<noteq> 0")
    case True
    define q r where "q = length buf div 4096" and "r = length buf mod 4096"
    have qr: "length buf = 4096 * q + r" "r \<noteq> 0" "r < 4096" using True by (simp_all add: q_def r_def)
    have "(length buf + 4095) div 4096 = q + 1" by (rule div_nat_eqI) (use qr in simp_all)
    then have "i = q" using True assms by simp
    then have "length (drop (i * 4096) buf) = length buf mod 4096" unfolding length_drop using qr(1) r_def by linarith
    then show ?thesis using True by (simp add: write_size_def chunk_def mult.commute)
  next
    case False
    then have "write_size (length buf) needed i = 4096" unfolding write_size_def by (rule if_not_P)
    then show ?thesis by (simp add: chunk_def mult.commute)
  qed
  then show ?thesis unfolding write_blocks_def by (intro fold_cong) auto
qed

lemma fold_put:
  assumes "\<And>i. i < n \<Longrightarrow> length (C i) \<le> 4096" "\<And>i j. \<lbrakk>i < n; j < n; i \<noteq> j\<rbrakk> \<Longrightarrow> P i + 4096 \<le> P j \<or> P j + 4096 \<le> P i"
  shows "(\<forall>x. (\<forall>i<n. x < P i \<or> P i + 4096 \<le> x) \<longrightarrow> fold (\<lambda>i. put_bytes (P i) (C i)) [0..<n] d x = d x) \<and>
    (\<forall>i<n. bytes_at (fold (\<lambda>i. put_bytes (P i) (C i)) [0..<n] d) (P i) (length (C i)) = C i)"
  using assms
proof (induction n)
  case (Suc n)
  let ?d = "fold (\<lambda>i. put_bytes (P i) (C i)) [0..<n] d"
  have IH: "\<forall>x. (\<forall>i<n. x < P i \<or> P i + 4096 \<le> x) \<longrightarrow> ?d x = d x" "\<forall>i<n. bytes_at ?d (P i) (length (C i)) = C i"
    using Suc by auto
  have "bytes_at (put_bytes (P n) (C n) ?d) (P i) (length (C i)) = C i" if "i < Suc n" for i
  proof (cases "i = n")
    case True
    then show ?thesis by (simp add: bytes_at_put_same)
  next
    case False
    then have "P i + length (C i) \<le> P n \<or> P n + length (C n) \<le> P i"
      using Suc.prems(1) [of i] Suc.prems(1) [of n] Suc.prems(2) [of i n] that by auto
    then show ?thesis using IH(2) that False by (simp add: bytes_at_put_other)
  qed
  moreover have "put_bytes (P n) (C n) ?d x = d x" if "\<forall>i<Suc n. x < P i \<or> P i + 4096 \<le> x" for x
  proof -
    have "x < P n \<or> P n + length (C n) \<le> x" using that Suc.prems(1) [of n] by (metis le_trans lessI add_le_cancel_left)
    then show ?thesis using IH(1) that by simp
  qed
  ultimately show ?case by simp
qed simp

lemma concat_chunks:
  assumes "\<And>i. i < n \<Longrightarrow> take (length (chunk buf i)) (B i) = chunk buf i" "\<And>i. i < n \<Longrightarrow> length (B i) = 4096" "length buf \<le> 4096 * n"
  shows "take (length buf) (concat (map B [0..<n])) = buf"
  using assms
proof (induction n arbitrary: buf B)
  case (Suc n)
  have up: "map B [0..<Suc n] = B 0 # map (\<lambda>i. B (Suc i)) [0..<n]" by (simp add: upt_conv_Cons map_Suc_upt [symmetric] del: upt_Suc)
  have B0: "take (length (take 4096 buf)) (B 0) = take 4096 buf" "length (B 0) = 4096" using Suc.prems(1,2) [of 0] by (simp_all add: chunk_def)
  show ?case
  proof (cases "length buf \<le> 4096")
    case True
    then show ?thesis using B0 unfolding up by simp
  next
    case False
    have "take (length (drop 4096 buf)) (concat (map (\<lambda>i. B (Suc i)) [0..<n])) = drop 4096 buf"
      by (rule Suc.IH) (use Suc.prems(1,2) [of "Suc _"] Suc.prems(3) in \<open>auto simp: chunk_def add.commute\<close>)
    moreover have "B 0 = take 4096 buf" using B0 False by simp
    ultimately show ?thesis using False unfolding up by simp
  qed
qed simp

section \<open>The image after a file is stored\<close>

definition file_inode :: "u8 list \<Rightarrow> nat list \<Rightarrow> inode_t" where
  "file_inode buf ms =
     \<lparr>itype = FS_FILE, isize = of_nat (length buf), blocks = map (\<lambda>m. 103 + of_nat m) ms @ replicate (14 - length ms) 0\<rparr>"

definition store_data :: "u8 list \<Rightarrow> nat list \<Rightarrow> disk \<Rightarrow> disk" where
  "store_data buf ms = fold (\<lambda>i. put_bytes (4096 * (103 + ms ! i)) (chunk buf i)) [0..<length ms]"

definition stored :: "u8 list \<Rightarrow> nat list \<Rightarrow> nat \<Rightarrow> nat \<Rightarrow> u8 list \<Rightarrow> u8 list \<Rightarrow> u8 list \<Rightarrow> disk \<Rightarrow> disk" where
  "stored buf ms n j s dbm ibm d =
     put_bytes (421888 + 32 * j) (enc_dirent \<lparr>inode_num = of_nat n, dname = copied_name s\<rparr>)
       (put_bytes (12288 + 62 * n) (enc_inode (file_inode buf ms))
         (store_data buf ms (put_bytes 4096 ibm (put_bytes 8192 dbm d))))"

text \<open>The places a file is stored in are free ones, in the proper regions.\<close>

definition places_ok :: "nat list \<Rightarrow> nat \<Rightarrow> nat \<Rightarrow> u8 list \<Rightarrow> u8 list \<Rightarrow> bool" where
  "places_ok ms n j dbm ibm \<longleftrightarrow>
     n < INODES \<and> j < 128 \<and> length ms \<le> 12 \<and> distinct ms \<and> (\<forall>m\<in>set ms. 0 < m \<and> m < 32768) \<and>
     length dbm = 4096 \<and> length ibm = 4096"

lemma file_inode_valid: "length ms \<le> 12 \<Longrightarrow> length (blocks (file_inode buf ms)) = 14"
  by (simp add: file_inode_def)

lemma enc_lengths:
  "length ms \<le> 12 \<Longrightarrow> length (enc_inode (file_inode buf ms)) = 62"
  "length (enc_dirent \<lparr>inode_num = k, dname = copied_name s\<rparr>) = 32"
proof -
  show "length ms \<le> 12 \<Longrightarrow> length (enc_inode (file_inode buf ms)) = 62" by (rule cin.enc_length [OF file_inode_valid])
  have "length (copied_name s) = 28" by (simp add: copied_name_def)
  then show "length (enc_dirent \<lparr>inode_num = k, dname = copied_name s\<rparr>) = 32" by (simp add: cde.enc_length)
qed

lemma block_order: "a < b \<Longrightarrow> 4096 * (103 + a) + 4096 \<le> 4096 * (103 + (b :: nat))"
  using mult_le_mono2 [of "103 + Suc a" "103 + b" 4096] by simp

lemma store_data_facts:
  assumes "places_ok ms n j dbm ibm"
  shows "(\<And>i. i < length ms \<Longrightarrow> x < 4096 * (103 + ms ! i) \<or> 4096 * (103 + ms ! i) + 4096 \<le> x) \<Longrightarrow> store_data buf ms d x = d x"
    "i < length ms \<Longrightarrow> bytes_at (store_data buf ms d) (4096 * (103 + ms ! i)) (length (chunk buf i)) = chunk buf i"
    "x < 425984 \<Longrightarrow> store_data buf ms d x = d x"
proof -
  let ?P = "\<lambda>i. 4096 * (103 + ms ! i)"
  have c: "length (chunk buf i) \<le> 4096" for i by (simp add: chunk_def)
  have dj: "?P i + 4096 \<le> ?P k \<or> ?P k + 4096 \<le> ?P i" if "i < length ms" "k < length ms" "i \<noteq> k" for i k
  proof -
    have "ms ! i \<noteq> ms ! k" using assms that by (simp add: places_ok_def nth_eq_iff_index_eq)
    then consider "ms ! i < ms ! k" | "ms ! k < ms ! i" by linarith
    then show ?thesis using block_order by cases blast+
  qed
  note f = fold_put [of "length ms" "chunk buf" ?P d, OF c dj, folded store_data_def]
  show 1: "store_data buf ms d x = d x" if "\<And>i. i < length ms \<Longrightarrow> x < ?P i \<or> ?P i + 4096 \<le> x" for x
    using f that by blast
  show "i < length ms \<Longrightarrow> bytes_at (store_data buf ms d) (?P i) (length (chunk buf i)) = chunk buf i" using f by blast
  show "store_data buf ms d x = d x" if "x < 425984"
  proof (rule 1)
    fix i assume "i < length ms"
    then have "0 < ms ! i" using assms by (simp add: places_ok_def)
    then show "x < ?P i \<or> ?P i + 4096 \<le> x" using that block_order [of 0 "ms ! i"] by simp
  qed
qed

lemma stored_frame:
  assumes ok: "places_ok ms n j dbm ibm"
    and x: "x < 4096 \<or> 12288 \<le> x" "x < 12288 + 62 * n \<or> 12288 + 62 * n + 62 \<le> x" "x < 421888 + 32 * j \<or> 421888 + 32 * j + 32 \<le> x"
      "\<And>i. i < length ms \<Longrightarrow> x < 4096 * (103 + ms ! i) \<or> 4096 * (103 + ms ! i) + 4096 \<le> x"
  shows "stored buf ms n j s dbm ibm d x = d x"
proof -
  have l: "length ms \<le> 12" "length dbm = 4096" "length ibm = 4096" using ok by (auto simp: places_ok_def)
  have "stored buf ms n j s dbm ibm d x = store_data buf ms (put_bytes 4096 ibm (put_bytes 8192 dbm d)) x"
    using x(2,3) l by (simp add: stored_def enc_lengths)
  also have "\<dots> = put_bytes 4096 ibm (put_bytes 8192 dbm d) x" by (rule store_data_facts(1) [OF ok x(4)])
  also have "\<dots> = d x" using x(1) l by auto
  finally show ?thesis .
qed

lemma stored_views:
  assumes ok: "places_ok ms n j dbm ibm"
  shows "bytes_at (stored buf ms n j s dbm ibm d) 8192 4096 = dbm" "bytes_at (stored buf ms n j s dbm ibm d) 4096 4096 = ibm"
    "inode_at (stored buf ms n j s dbm ibm d) n = file_inode buf ms"
    "bytes_at (stored buf ms n j s dbm ibm d) (421888 + 32 * j) 32 = enc_dirent \<lparr>inode_num = of_nat n, dname = copied_name s\<rparr>"
    "i < length ms \<Longrightarrow> bytes_at (stored buf ms n j s dbm ibm d) (4096 * (103 + ms ! i)) (length (chunk buf i)) = chunk buf i"
proof -
  let ?E = "enc_dirent \<lparr>inode_num = of_nat n, dname = copied_name s\<rparr>" and ?I = "enc_inode (file_inode buf ms)"
  let ?b = "put_bytes 4096 ibm (put_bytes 8192 dbm d)" let ?s = "store_data buf ms ?b"
  let ?d = "stored buf ms n j s dbm ibm d"
  have l: "length ms \<le> 12" "length dbm = 4096" "length ibm = 4096" "j < 128" "n < INODES" using ok by (auto simp: places_ok_def)
  have low: "bytes_at ?d p 4096 = bytes_at ?b p 4096" if "p + 4096 \<le> 12288" for p
    unfolding stored_def using that l
    by (intro bytes_at_cong) (simp add: enc_lengths store_data_facts(3) [OF ok])
  show "bytes_at ?d 8192 4096 = dbm" unfolding low [of 8192, simplified] using l by (simp add: bytes_at_put_other bytes_at_put_same)
  show "bytes_at ?d 4096 4096 = ibm" unfolding low [of 4096, simplified] using l by (simp add: bytes_at_put_same)
  have "bytes_at ?d (12288 + 62 * n) 62 = ?I"
    using l unfolding stored_def by (simp add: bytes_at_put_other bytes_at_put_same enc_lengths INODES_def)
  then show "inode_at ?d n = file_inode buf ms" by (simp add: inode_at_def cin.dec_enc file_inode_valid l)
  show "bytes_at ?d (421888 + 32 * j) 32 = ?E" unfolding stored_def by (simp add: bytes_at_put_same enc_lengths)
  assume i: "i < length ms"
  then have "0 < ms ! i" using ok by (simp add: places_ok_def)
  then have p: "425984 \<le> 4096 * (103 + ms ! i)" using block_order [of 0 "ms ! i"] by simp
  have "bytes_at ?d (4096 * (103 + ms ! i)) (length (chunk buf i)) = bytes_at ?s (4096 * (103 + ms ! i)) (length (chunk buf i))"
    using p l unfolding stored_def by (simp add: bytes_at_put_other enc_lengths INODES_def)
  then show "bytes_at ?d (4096 * (103 + ms ! i)) (length (chunk buf i)) = chunk buf i" using store_data_facts(2) [OF ok i] by simp
qed

lemma block_word: "m < 32768 \<Longrightarrow> unat (103 + of_nat m :: u32) = 103 + m"
  by (subst unat_add_of_nat) simp_all

lemma stored_other:
  assumes ok: "places_ok ms n j dbm ibm"
  shows "bytes_at (stored buf ms n j s dbm ibm d) 0 24 = bytes_at d 0 24"
    "\<lbrakk>k < INODES; k \<noteq> n\<rbrakk> \<Longrightarrow> inode_at (stored buf ms n j s dbm ibm d) k = inode_at d k"
    "\<lbrakk>i < 128; i \<noteq> j\<rbrakk> \<Longrightarrow> dir_num (stored buf ms n j s dbm ibm d) i = dir_num d i"
    "\<lbrakk>i < 128; i \<noteq> j\<rbrakk> \<Longrightarrow> dir_field (stored buf ms n j s dbm ibm d) i = dir_field d i"
    "\<lbrakk>103 < unat b; unat b < 103 + 32768; unat b - 103 \<notin> set ms\<rbrakk> \<Longrightarrow> block_bytes (stored buf ms n j s dbm ibm d) b = block_bytes d b"
proof -
  let ?d = "stored buf ms n j s dbm ibm d"
  have l: "j < 128" "n < INODES" using ok by (auto simp: places_ok_def)
  have far: "425984 \<le> 4096 * (103 + ms ! i)" if "i < length ms" for i
    using ok that block_order [of 0 "ms ! i"] by (simp add: places_ok_def)
  have fr: "bytes_at ?d p k = bytes_at d p k"
    if "p + k \<le> 4096 \<or> 12288 \<le> p" "p + k \<le> 12288 + 62 * n \<or> 12288 + 62 * n + 62 \<le> p" "p + k \<le> 421888 + 32 * j \<or> 421888 + 32 * j + 32 \<le> p"
      "\<And>i. i < length ms \<Longrightarrow> p + k \<le> 4096 * (103 + ms ! i) \<or> 4096 * (103 + ms ! i) + 4096 \<le> p" for p k
  proof (rule bytes_at_cong)
    fix x assume x: "p \<le> x" "x < p + k"
    show "?d x = d x"
    proof (rule stored_frame [OF ok])
      fix i assume "i < length ms"
      from that(4) [OF this] show "x < 4096 * (103 + ms ! i) \<or> 4096 * (103 + ms ! i) + 4096 \<le> x" using x by linarith
    qed (use that(1-3) x in linarith)+
  qed
  have near: "4096 \<le> 4096 * ms ! i" if "i < length ms" for i using ok that by (simp add: places_ok_def Suc_le_eq)
  show "bytes_at ?d 0 24 = bytes_at d 0 24" by (rule fr) (use near l in \<open>auto simp: INODES_def dest: near\<close>)
  show "k < INODES \<Longrightarrow> k \<noteq> n \<Longrightarrow> inode_at ?d k = inode_at d k"
    unfolding inode_at_def by (intro arg_cong [where f = dec_inode] fr) (use l in \<open>auto simp: INODES_def dest: near\<close>)
  show "i < 128 \<Longrightarrow> i \<noteq> j \<Longrightarrow> dir_num ?d i = dir_num d i"
    unfolding dir_num_def by (intro arg_cong [where f = dec32] fr) (use l in \<open>auto simp: INODES_def dest: near\<close>)
  show "i < 128 \<Longrightarrow> i \<noteq> j \<Longrightarrow> dir_field ?d i = dir_field d i"
    unfolding dir_field_def by (intro fr) (use l in \<open>auto simp: INODES_def dest: near\<close>)
  assume b: "103 < unat b" "unat b < 103 + 32768" "unat b - 103 \<notin> set ms"
  obtain m where m: "unat b = 103 + m" "0 < m" using b(1) by (metis add.commute le_add_diff_inverse2 less_imp_le zero_less_diff add_diff_cancel_left')
  have "4096 * (103 + m) + 4096 \<le> 4096 * (103 + ms ! i) \<or> 4096 * (103 + ms ! i) + 4096 \<le> 4096 * (103 + m)" if "i < length ms" for i
  proof -
    have "ms ! i \<noteq> m" using b(3) m(1) that by auto
    then consider "ms ! i < m" | "m < ms ! i" by linarith
    then show ?thesis using block_order by cases blast+
  qed
  moreover have "425984 \<le> 4096 * (103 + m)" using m(2) block_order [of 0 m] by simp
  ultimately show "block_bytes ?d b = block_bytes d b"
    unfolding block_bytes_def m(1) by (intro fr) (use l in \<open>auto simp: INODES_def\<close>)
qed

lemma stored_entry:
  assumes ok: "places_ok ms n j dbm ibm"
  shows "dir_num (stored buf ms n j s dbm ibm d) j = of_nat n" "dir_field (stored buf ms n j s dbm ibm d) j = copied_name s"
proof -
  let ?d = "stored buf ms n j s dbm ibm d" and ?e = "\<lparr>inode_num = of_nat n, dname = copied_name s\<rparr>"
  have v: "length (dname ?e) = 28" by (simp add: copied_name_def)
  have b: "bytes_at ?d (421888 + 32 * j) 32 = enc_dirent ?e" by (rule stored_views(4) [OF ok])
  have "dir_num ?d j = dec32 (take 4 (enc_dirent ?e))" "dir_field ?d j = take 28 (drop 4 (enc_dirent ?e))"
    unfolding b [symmetric] using take_drop_bytes_at [of 0 4 32 ?d] take_drop_bytes_at [of 4 28 32 ?d] by (simp_all add: dir_num_def dir_field_def)
  then show "dir_num ?d j = of_nat n" "dir_field ?d j = copied_name s"
    using v by (simp_all add: enc_dirent_def c32.enc_length c32.dec_enc)
qed

lemma copied_name_string: "\<lbrakk>0 \<notin> set s; length s \<le> 27\<rbrakk> \<Longrightarrow> takeWhile (\<lambda>b. b \<noteq> 0) (copied_name s) = s"
proof -
  assume s: "0 \<notin> set s" "length s \<le> 27"
  have "takeWhile (\<lambda>b. b \<noteq> 0) (s @ t) = s" if "hd t = 0" "t \<noteq> []" for t
    using that s(1) by (subst takeWhile_append2) (auto simp: takeWhile_eq_Nil_iff)
  moreover have "hd (replicate (27 - length s) 0 @ [0]) = (0 :: u8)" by (cases "27 - length s") simp_all
  ultimately show ?thesis using s(2) by (simp add: copied_name_def)
qed

lemma stored_content:
  assumes ok: "places_ok ms n j dbm ibm" and len: "length buf \<le> 4096 * length ms"
  shows "content_of (stored buf ms n j s dbm ibm d) n = buf"
proof -
  let ?d = "stored buf ms n j s dbm ibm d" and ?w = "\<lambda>m. 103 + of_nat m :: u32"
  have l: "length ms \<le> 12" "\<forall>m\<in>set ms. m < 32768" using ok by (auto simp: places_ok_def)
  have nz: "?w m \<noteq> 0" if "m \<in> set ms" for m
  proof
    assume "?w m = 0"
    then have "unat (?w m) = 0" by simp
    then show False using block_word [of m] l(2) that by simp
  qed
  have "takeWhile (\<lambda>b. b \<noteq> 0) (map ?w ms @ replicate k 0) = map ?w ms" for k
    using nz by (subst takeWhile_append2) (auto simp: takeWhile_eq_Nil_iff)
  moreover have "take 12 (map ?w ms @ replicate (14 - length ms) 0) = map ?w ms @ replicate (12 - length ms) 0" using l(1) by simp
  ultimately have df: "data_from ?d (blocks (file_inode buf ms)) 0 = concat (map (block_bytes ?d) (map ?w ms))"
    by (simp add: data_from_def file_inode_def)
  let ?B = "\<lambda>i. block_bytes ?d (?w (ms ! i))"
  have "concat (map (block_bytes ?d) (map ?w ms)) = concat (map ?B [0..<length ms])"
  proof -
    have "map (block_bytes ?d) (map ?w ms) = map (\<lambda>m. block_bytes ?d (?w m)) (map ((!) ms) [0..<length ms])" by (simp only: map_nth map_map comp_def)
    then show ?thesis by (simp only: map_map comp_def)
  qed
  moreover have "take (length buf) (concat (map ?B [0..<length ms])) = buf"
  proof (rule concat_chunks [OF _ _ len])
    fix i assume i: "i < length ms"
    then have u: "unat (?w (ms ! i)) = 103 + ms ! i" using l(2) by (simp add: block_word)
    have c: "length (chunk buf i) \<le> 4096" by (simp add: chunk_def)
    show "length (?B i) = 4096" by (simp add: block_bytes_def)
    have "take (length (chunk buf i)) (?B i) = bytes_at ?d (4096 * (103 + ms ! i)) (length (chunk buf i))"
      using take_drop_bytes_at [of 0 "length (chunk buf i)" 4096] c by (simp add: block_bytes_def u)
    then show "take (length (chunk buf i)) (?B i) = chunk buf i" using stored_views(5) [OF ok i] by simp
  qed
  moreover have "unat (isize (file_inode buf ms)) = length buf"
    using len l(1) by (simp add: file_inode_def unat_of_nat_small)
  ultimately show ?thesis using stored_views(3) [OF ok] df by (simp add: content_of_def)
qed

lemma blocks_needed_eq:
  assumes "length buf \<le> 49152"
  shows "unat ((of_nat (length buf) + FS_BLOCK_SIZE - 1) div FS_BLOCK_SIZE) = (length buf + 4095) div 4096" "(length buf + 4095) div 4096 \<le> 12"
    "length buf \<le> 4096 * ((length buf + 4095) div 4096)"
proof -
  have e: "of_nat (length buf) + FS_BLOCK_SIZE - 1 = (of_nat (length buf + 4095) :: u32)" by (simp add: FS_BLOCK_SIZE_def)
  have "unat (of_nat (length buf + 4095) :: u32) = length buf + 4095" using assms by (intro unat_of_nat_small) simp
  then show "unat ((of_nat (length buf) + FS_BLOCK_SIZE - 1) div FS_BLOCK_SIZE) = (length buf + 4095) div 4096"
    unfolding e unat_div by (simp add: FS_BLOCK_SIZE_def)
  have "(length buf + 4095) div 4096 \<le> 53247 div 4096" using assms by (intro div_le_mono) simp
  then show "(length buf + 4095) div 4096 \<le> 12" by simp
  have "(length buf + 4095) mod 4096 < 4096" by simp
  then show "length buf \<le> 4096 * ((length buf + 4095) div 4096)" using div_mult_mod_eq [of "length buf + 4095" 4096] by linarith
qed

lemma free_blocks_places:
  assumes "fs_ok d"
  shows "distinct (take k (free_blocks d))" "m \<in> set (take k (free_blocks d)) \<Longrightarrow> 0 < m \<and> m < 32768 \<and> \<not> used_block d m"
proof -
  show "distinct (take k (free_blocks d))" by (simp add: free_blocks_def)
  assume "m \<in> set (take k (free_blocks d))"
  then have "m \<in> set (free_blocks d)" by (rule in_set_takeD)
  then show "0 < m \<and> m < 32768 \<and> \<not> used_block d m" using assms by (auto simp: free_blocks_def fs_ok_def intro!: gr0I)
qed

lemma write_blocks_store:
  assumes "\<forall>m\<in>set ms. m < 32768" "length ms = (length buf + 4095) div 4096"
  shows "write_blocks buf (map (\<lambda>m. 103 + of_nat m) ms) (length ms) d = store_data buf ms d"
proof -
  have "blk_pos (map (\<lambda>m. 103 + of_nat m) ms ! i) = 4096 * (103 + ms ! i)" if "i < length ms" for i
  proof -
    have "ms ! i < 32768" using that assms(1) by simp
    then show ?thesis using that block_word [of "ms ! i"] by (simp add: blk_pos_eq)
  qed
  then show ?thesis unfolding write_blocks_chunks [OF assms(2)] store_data_def by (intro fold_cong) auto
qed

text \<open>The directory entry goes to the first free slot.\<close>

lemma add_dirent_slot:
  assumes "dec_superblock (bytes_at d 0 24) = mkfs_superblock" "inode_at d 1 = root_inode" "i < 128" "dir_num d i = 0"
  shows "\<exists>j<128. dir_num d j = 0 \<and> add_dirent_to_root s k d = put_bytes (421888 + 32 * j) (enc_dirent \<lparr>inode_num = k, dname = copied_name s\<rparr>) d"
proof -
  let ?P = "\<lambda>i. inode_num (dec_dirent (bytes_at d (421888 + i * 32) 32)) = 0"
  have p: "?P j = (dir_num d j = 0)" for j
    using take_drop_bytes_at [of 0 4 32 d] by (simp add: dec_dirent_def dir_num_def mult.commute)
  have "List.find ?P [0..<128] \<noteq> None" using assms(3,4) p by (auto simp: find_None_iff)
  then obtain j where j: "List.find ?P [0..<128] = Some j" by blast
  then have "j < 128" "?P j" by (auto simp: find_Some_iff)
  moreover have "inode_pos mkfs_superblock 1 = 12350" using inode_pos_eq [of 1] by (simp add: INODES_def)
  then have "dec_inode (bytes_at d (inode_pos mkfs_superblock 1) 62) = root_inode" using assms(2) by (simp add: inode_at_def)
  moreover have "blk_pos (blocks root_inode ! 0) = 421888" by (simp add: root_inode_def mkfs_superblock_def blk_pos_eq)
  ultimately show ?thesis using j assms(1) p by (intro exI [of _ j]) (simp add: add_dirent_to_root_def Let_def mult.commute)
qed

lemma inject_file_stored:
  assumes ok: "fs_ok d" and len: "length buf \<le> 49152" and ms: "ms = take ((length buf + 4095) div 4096) (free_blocks d)"
    and room: "(length buf + 4095) div 4096 \<le> length (free_blocks d)" and k: "k < INODES" "\<not> used_inode d k" and slot: "i < 128" "dir_num d i = 0"
  shows "\<exists>n j dbm ibm. inject_file buf s d = stored buf ms n j s dbm ibm d \<and> places_ok ms n j dbm ibm \<and> \<not> used_inode d n \<and>
    dir_num d j = 0 \<and> (\<forall>m<32768. bm_test dbm m \<longleftrightarrow> used_block d m \<or> m \<in> set ms) \<and> (\<forall>m<32768. bm_test ibm m \<longleftrightarrow> used_inode d m \<or> m = n)"
proof -
  let ?nd = "(length buf + 4095) div 4096" and ?w = "\<lambda>m. 103 + of_nat m :: u32"
  note nd = blocks_needed_eq [OF len]
  have sb: "dec_superblock (bytes_at d 0 24) = mkfs_superblock" using ok by (simp add: fs_ok_def)
  have pos: "blk_pos (data_bitmap_blk mkfs_superblock) = 8192" "blk_pos (inode_bitmap_blk mkfs_superblock) = 4096"
    by (simp_all add: mkfs_superblock_def blk_pos_eq)
  from find_free_blocks_eq [OF room] ms obtain dbm where
    f: "find_free_blocks mkfs_superblock (bytes_at d 8192 4096) ?nd = (Some (map ?w ms), dbm)" "length dbm = 4096"
      "\<forall>m<32768. bm_test dbm m \<longleftrightarrow> used_block d m \<or> m \<in> set ms" by blast
  from get_free_inode_eq [OF k] obtain n ibm where
    g: "get_free_inode_num (bytes_at d 4096 4096) = Some (n, ibm)" "n < INODES" "\<not> used_inode d n" "length ibm = 4096"
      "\<forall>m<32768. bm_test ibm m \<longleftrightarrow> used_inode d m \<or> m = n" by blast
  have lm: "length ms = ?nd" "\<forall>m\<in>set ms. m < 32768" using room ms free_blocks_places(2) [OF ok] by auto
  have pl: "places_ok ms n j dbm ibm" if "j < 128" for j
    using that f(2) g(2,4) free_blocks_places [OF ok] nd(2) lm ms by (auto simp: places_ok_def)
  let ?d2 = "put_bytes 4096 ibm (put_bytes 8192 dbm d)" let ?d3 = "store_data buf ms ?d2"
  let ?d4 = "put_bytes (12288 + 62 * n) (enc_inode (file_inode buf ms)) ?d3"
  have x3: "?d3 x = d x" if "x < 4096 \<or> 12288 \<le> x" "x < 425984" for x
    using store_data_facts(3) [OF pl [OF slot(1)] that(2)] that(1) f(2) g(4) by auto
  have x4: "?d4 x = d x" if "x < 4096 \<or> 12288 \<le> x" "x < 425984" "x < 12288 + 62 * n \<or> 12288 + 62 * n + 62 \<le> x" for x
    using x3 [OF that(1,2)] that(3) nd(2) lm(1) by (simp add: enc_lengths)
  have n1: "n \<noteq> 1" using ok g(3) by (auto simp: fs_ok_def)
  have nl: "12288 + 62 * n + 62 \<le> 421888" using g(2) by (simp add: INODES_def)
  have b3: "bytes_at ?d3 0 24 = bytes_at d 0 24" "bytes_at ?d4 0 24 = bytes_at d 0 24"
    by (rule bytes_at_cong; use x3 x4 in simp)+
  have i4: "inode_at ?d4 1 = root_inode"
  proof -
    have "bytes_at ?d4 12350 62 = bytes_at d 12350 62"
      by (rule bytes_at_cong) (rule x4; use n1 in auto)
    then show ?thesis using ok by (simp add: inode_at_def fs_ok_def)
  qed
  have e4: "dir_num ?d4 j = dir_num d j" if "j < 128" for j
    unfolding dir_num_def by (intro arg_cong [where f = dec32] bytes_at_cong) (rule x4; use nl that in auto)
  from add_dirent_slot [OF _ i4 slot(1), of s "of_nat n"] b3(2) sb e4 [OF slot(1)] slot(2) obtain j where
    j: "j < 128" "dir_num ?d4 j = 0" "add_dirent_to_root s (of_nat n) ?d4 = put_bytes (421888 + 32 * j) (enc_dirent \<lparr>inode_num = of_nat n, dname = copied_name s\<rparr>) ?d4"
    by auto
  have "unat (of_nat n :: u32) = n" using g(2) by (intro unat_of_nat_small) (simp add: INODES_def)
  then have "write_inode_to_disk (of_nat n) (file_inode buf ms) ?d3 = ?d4"
    using b3(1) sb inode_pos_eq [of "of_nat n"] g(2) by (simp add: write_inode_to_disk_def)
  then have "inject_file buf s d = stored buf ms n j s dbm ibm d"
    using nd(1,2) sb f(1) g(1) pos lm write_blocks_store [OF lm(2,1)] j(3)
    unfolding inject_file_def file_inode_def by (simp add: stored_def file_inode_def)
  then show ?thesis using pl [OF j(1)] g(3,5) f(3) j(1,2) e4 by auto
qed

section \<open>The invariant is kept\<close>

definition fresh_places :: "nat list \<Rightarrow> nat \<Rightarrow> nat \<Rightarrow> u8 list \<Rightarrow> u8 list \<Rightarrow> disk \<Rightarrow> bool" where
  "fresh_places ms n j dbm ibm d \<longleftrightarrow>
     places_ok ms n j dbm ibm \<and> \<not> used_inode d n \<and> dir_num d j = 0 \<and> (\<forall>m\<in>set ms. \<not> used_block d m) \<and>
     (\<forall>m<32768. bm_test dbm m \<longleftrightarrow> used_block d m \<or> m \<in> set ms) \<and> (\<forall>m<32768. bm_test ibm m \<longleftrightarrow> used_inode d m \<or> m = n)"

lemma stored_used:
  assumes "fresh_places ms n j dbm ibm d" "m < 32768"
  shows "used_block (stored buf ms n j s dbm ibm d) m \<longleftrightarrow> used_block d m \<or> m \<in> set ms"
    "used_inode (stored buf ms n j s dbm ibm d) m \<longleftrightarrow> used_inode d m \<or> m = n"
  using assms by (simp_all add: used_bitmap fresh_places_def stored_views)

lemma fresh_inode:
  assumes "fs_ok d" "fresh_places ms n j dbm ibm d"
  shows "n \<noteq> 0" "n \<noteq> 1" "n < INODES" "unat (of_nat n :: u32) = n"
proof -
  have u: "used_inode d 0" "used_inode d 1" "\<not> used_inode d n" using assms by (auto simp: fs_ok_def fresh_places_def)
  then show "n \<noteq> 0" "n \<noteq> 1" by metis+
  show "n < INODES" using assms by (auto simp: fresh_places_def places_ok_def)
  then show "unat (of_nat n :: u32) = n" by (intro unat_of_nat_small) (simp add: INODES_def)
qed

lemma stored_entry_ok:
  assumes ok: "fs_ok d" and fr: "fresh_places ms n j dbm ibm d" and i: "i < 128" "dir_num (stored buf ms n j s dbm ibm d) i \<noteq> 0"
  shows "entry_ok (stored buf ms n j s dbm ibm d) i"
proof (cases "i = j")
  case True
  let ?d = "stored buf ms n j s dbm ibm d"
  have pl: "places_ok ms n j dbm ibm" using fr by (simp add: fresh_places_def)
  note n = fresh_inode [OF ok fr]
  have num: "unat (dir_num ?d i) = n" using True stored_entry(1) [OF pl] n(4) by simp
  have z: "0 \<in> set (dir_field ?d i)" using True stored_entry(2) [OF pl] by (simp add: copied_name_def)
  have n32: "n < 32768" using n(3) by (simp add: INODES_def)
  have u: "used_inode ?d n" using stored_used(2) [OF fr n32, of buf s] by blast
  have b: "103 < unat b \<and> unat b < 103 + 32768 \<and> used_block ?d (unat b - 103)"
    if b: "b \<in> set (blocks (inode_at ?d n))" "b \<noteq> 0" for b
  proof -
    have "b \<in> (\<lambda>m. 103 + of_nat m) ` set ms" using b unfolding stored_views(3) [OF pl] by (auto simp: file_inode_def)
    then obtain m where m: "m \<in> set ms" "b = 103 + of_nat m" by auto
    then have mm: "0 < m" "m < 32768" using pl by (auto simp: places_ok_def)
    have "used_block ?d m" using stored_used(1) [OF fr mm(2), of buf s] m(1) by blast
    then show ?thesis using mm block_word [OF mm(2)] m(2) by simp
  qed
  show ?thesis unfolding entry_ok_def Let_def num using n(3) u z b by blast
next
  case False
  let ?d = "stored buf ms n j s dbm ibm d"
  have pl: "places_ok ms n j dbm ibm" using fr by (simp add: fresh_places_def)
  note o = stored_other(3,4) [OF pl i(1) False, of buf s d]
  let ?n = "unat (dir_num d i)"
  have e: "entry_ok d i" using ok i o by (simp add: fs_ok_def)
  then have n: "?n < INODES" "used_inode d ?n" by (auto simp: entry_ok_def Let_def)
  then have "?n \<noteq> n" using fr by (auto simp: fresh_places_def)
  then have ino: "inode_at ?d ?n = inode_at d ?n" using stored_other(2) [OF pl n(1)] by blast
  have "?n < 32768" using n(1) by (simp add: INODES_def)
  then have u: "used_inode ?d ?n" using stored_used(2) [OF fr] n(2) by blast
  have b: "used_block ?d m" if "used_block d m" "m < 32768" for m using stored_used(1) [OF fr that(2)] that(1) by blast
  have "used_block ?d (unat b - 103)" if "103 < unat b" "unat b < 103 + 32768" "used_block d (unat b - 103)" for b :: u32
    by (rule b [OF that(3)]) (use that(1,2) in linarith)
  then show ?thesis using e u unfolding entry_ok_def Let_def o ino by blast
qed

lemma stored_fs_ok:
  assumes ok: "fs_ok d" and fr: "fresh_places ms n j dbm ibm d"
  shows "fs_ok (stored buf ms n j s dbm ibm d)"
proof -
  let ?d = "stored buf ms n j s dbm ibm d"
  have pl: "places_ok ms n j dbm ibm" using fr by (simp add: fresh_places_def)
  note n = fresh_inode [OF ok fr]
  have sb: "dec_superblock (bytes_at ?d 0 24) = mkfs_superblock" unfolding stored_other(1) [OF pl] using ok by (simp add: fs_ok_def)
  have root: "inode_at ?d 1 = root_inode"
    using stored_other(2) [OF pl, of 1 buf s d] n(2) ok by (simp add: fs_ok_def INODES_def)
  have "used_inode ?d 0" "used_inode ?d 1" "used_block ?d 0"
    using stored_used [OF fr, of 0 buf s] stored_used(2) [OF fr, of 1 buf s] ok by (auto simp: fs_ok_def)
  then show ?thesis using sb root stored_entry_ok [OF ok fr] by (auto simp: fs_ok_def)
qed

lemma find_only: "\<lbrakk>j \<in> set xs; \<And>x. x \<in> set xs \<Longrightarrow> P x \<longleftrightarrow> x = j\<rbrakk> \<Longrightarrow> List.find P xs = Some j"
  by (induction xs) auto

lemma stored_lookup:
  assumes ok: "fs_ok d" and fr: "fresh_places ms n j dbm ibm d" and s: "0 \<notin> set s" "length s \<le> 27" "dir_lookup d s = None"
  shows "dir_lookup (stored buf ms n j s dbm ibm d) s = Some (of_nat n)"
    "t \<noteq> s \<Longrightarrow> dir_lookup (stored buf ms n j s dbm ibm d) t = dir_lookup d t"
proof -
  let ?d = "stored buf ms n j s dbm ibm d"
  have pl: "places_ok ms n j dbm ibm" and j: "j < 128" "dir_num d j = 0" using fr by (auto simp: fresh_places_def places_ok_def)
  note n = fresh_inode [OF ok fr]
  have nz: "(of_nat n :: u32) \<noteq> 0" using n(1,4) by (metis unat_0)
  have ej: "dir_num ?d j = of_nat n" "dir_name ?d j = s"
    using stored_entry [OF pl] copied_name_string [OF s(1,2)] by (simp_all add: dir_name_def)
  have eo: "dir_num ?d i = dir_num d i" "dir_name ?d i = dir_name d i" if "i < 128" "i \<noteq> j" for i
    using stored_other(3,4) [OF pl that] by (simp_all add: dir_name_def)
  have none: "dir_num d i = 0 \<or> dir_name d i \<noteq> s" if "i < 128" for i
    using s(3) that by (auto simp: dir_lookup_def find_None_iff)
  have "List.find (\<lambda>i. dir_num ?d i \<noteq> 0 \<and> dir_name ?d i = s) [0..<128] = Some j"
  proof (rule find_only)
    fix i assume "i \<in> set [0..<128]"
    then show "(dir_num ?d i \<noteq> 0 \<and> dir_name ?d i = s) = (i = j)" using eo [of i] none [of i] ej nz by (cases "i = j") auto
  qed (use j in simp)
  then show "dir_lookup ?d s = Some (of_nat n)" using ej by (simp add: dir_lookup_def)
  assume t: "t \<noteq> s"
  have f: "List.find (\<lambda>i. dir_num ?d i \<noteq> 0 \<and> dir_name ?d i = t) [0..<128] = List.find (\<lambda>i. dir_num d i \<noteq> 0 \<and> dir_name d i = t) [0..<128]"
  proof (rule find_cong_set)
    fix i assume "i \<in> set [0..<128]"
    then show "(dir_num ?d i \<noteq> 0 \<and> dir_name ?d i = t) = (dir_num d i \<noteq> 0 \<and> dir_name d i = t)"
      using eo [of i] ej j t by (cases "i = j") auto
  qed
  show "dir_lookup ?d t = dir_lookup d t"
  proof (cases "List.find (\<lambda>i. dir_num d i \<noteq> 0 \<and> dir_name d i = t) [0..<128]")
    case None
    then show ?thesis by (simp add: dir_lookup_def f)
  next
    case (Some i)
    then have "i < 128" "dir_num d i \<noteq> 0" by (auto simp: find_Some_iff)
    then show ?thesis using Some eo(1) [of i] j by (auto simp: dir_lookup_def f)
  qed
qed

lemma stored_content_other:
  assumes ok: "fs_ok d" and fr: "fresh_places ms n j dbm ibm d" and k: "dir_lookup d t = Some k" "k \<noteq> 1"
  shows "content_of (stored buf ms n j s dbm ibm d) (unat k) = content_of d (unat k)"
proof -
  let ?d = "stored buf ms n j s dbm ibm d"
  have pl: "places_ok ms n j dbm ibm" using fr by (simp add: fresh_places_def)
  from dir_lookup_ok [OF ok k(1)] obtain i where i: "dir_num d i = k" "entry_ok d i" by blast
  have k1: "unat k \<noteq> 1" using k(2) by (metis unat_1 unsigned_word_eqI)
  have e: "unat k < INODES" "used_inode d (unat k)"
    "\<And>b. \<lbrakk>b \<in> set (blocks (inode_at d (unat k))); b \<noteq> 0\<rbrakk> \<Longrightarrow> 103 < unat b \<and> unat b < 103 + 32768 \<and> used_block d (unat b - 103)"
    using i k1 by (auto simp: entry_ok_def Let_def)
  have "unat k \<noteq> n" using e(2) fr by (auto simp: fresh_places_def)
  then have ino: "inode_at ?d (unat k) = inode_at d (unat k)" using stored_other(2) [OF pl e(1)] by blast
  have "block_bytes ?d b = block_bytes d b" if "b \<in> set (takeWhile (\<lambda>b. b \<noteq> 0) (drop 0 (take 12 (blocks (inode_at d (unat k))))))" for b
  proof -
    have b: "b \<in> set (blocks (inode_at d (unat k)))" "b \<noteq> 0" using that by (auto dest: set_takeWhileD in_set_takeD)
    note u = e(3) [OF b]
    have "unat b - 103 \<notin> set ms" using u fr by (auto simp: fresh_places_def)
    then show ?thesis using u stored_other(5) [OF pl] by blast
  qed
  then have "data_from ?d (blocks (inode_at d (unat k))) 0 = data_from d (blocks (inode_at d (unat k))) 0"
    unfolding data_from_def by (intro arg_cong [where f = concat] map_cong) auto
  then show ?thesis by (simp add: content_of_def ino)
qed

section \<open>A formatted image\<close>

lemma mkfs_eq:
  "mkfs d = put_bytes 421920 (enc_dirent \<lparr>inode_num = 1, dname = name_field [46, 46]\<rparr>)
    (put_bytes 421888 (enc_dirent \<lparr>inode_num = 1, dname = name_field [46]\<rparr>) (put_bytes 421888 (replicate 4096 0)
    (put_bytes 12350 (enc_inode root_inode) (put_bytes 8192 (1 # replicate 4095 0) (put_bytes 4096 (3 # replicate 4095 0)
    (put_bytes 0 (enc_superblock mkfs_superblock) d))))))"
proof -
  have "inode_pos mkfs_superblock 1 = 12350" using inode_pos_eq [of 1] by (simp add: INODES_def)
  moreover have "blk_pos (inode_bitmap_blk mkfs_superblock) = 4096" "blk_pos (data_bitmap_blk mkfs_superblock) = 8192"
    "blk_pos (data_blocks_start mkfs_superblock) = 421888" by (simp_all add: mkfs_superblock_def blk_pos_eq)
  ultimately show ?thesis by (simp add: mkfs_def Let_def)
qed

lemma mkfs_lengths:
  "length (enc_dirent \<lparr>inode_num = 1, dname = name_field [46, 46]\<rparr>) = 32"
  "length (enc_dirent \<lparr>inode_num = 1, dname = name_field [46]\<rparr>) = 32"
  "length (enc_inode root_inode) = 62" "length (enc_superblock mkfs_superblock) = 24"
proof -
  have "length (dname \<lparr>inode_num = 1, dname = name_field [46, 46]\<rparr>) = 28" "length (dname \<lparr>inode_num = 1, dname = name_field [46]\<rparr>) = 28"
    "length (blocks root_inode) = 14" by (simp_all add: name_field_def root_inode_def)
  then show "length (enc_dirent \<lparr>inode_num = 1, dname = name_field [46, 46]\<rparr>) = 32"
    "length (enc_dirent \<lparr>inode_num = 1, dname = name_field [46]\<rparr>) = 32" "length (enc_inode root_inode) = 62"
    by (simp_all only: cde.enc_length cin.enc_length)
  show "length (enc_superblock mkfs_superblock) = 24" by (rule csb.enc_length) simp
qed

lemma mkfs_views:
  "bytes_at (mkfs d) 0 24 = enc_superblock mkfs_superblock" "bytes_at (mkfs d) 4096 4096 = 3 # replicate 4095 0"
  "bytes_at (mkfs d) 8192 4096 = 1 # replicate 4095 0" "inode_at (mkfs d) 1 = root_inode"
  "bytes_at (mkfs d) 421888 32 = enc_dirent \<lparr>inode_num = 1, dname = name_field [46]\<rparr>"
  "bytes_at (mkfs d) 421920 32 = enc_dirent \<lparr>inode_num = 1, dname = name_field [46, 46]\<rparr>"
proof -
  have v: "length (blocks root_inode) = 14" by (simp add: root_inode_def)
  show "bytes_at (mkfs d) 0 24 = enc_superblock mkfs_superblock" "bytes_at (mkfs d) 4096 4096 = 3 # replicate 4095 0"
    "bytes_at (mkfs d) 8192 4096 = 1 # replicate 4095 0"
    "bytes_at (mkfs d) 421888 32 = enc_dirent \<lparr>inode_num = 1, dname = name_field [46]\<rparr>"
    "bytes_at (mkfs d) 421920 32 = enc_dirent \<lparr>inode_num = 1, dname = name_field [46, 46]\<rparr>"
    unfolding mkfs_eq by (simp_all add: bytes_at_put_other bytes_at_put_same mkfs_lengths)
  have "bytes_at (mkfs d) 12350 62 = enc_inode root_inode"
    unfolding mkfs_eq by (simp add: bytes_at_put_other bytes_at_put_same mkfs_lengths)
  then show "inode_at (mkfs d) 1 = root_inode" by (simp add: inode_at_def cin.dec_enc [OF v])
qed

lemma mkfs_dir:
  "dir_num (mkfs d) 0 = 1" "dir_num (mkfs d) 1 = 1" "dir_field (mkfs d) 0 = name_field [46]" "dir_field (mkfs d) 1 = name_field [46, 46]"
  "\<lbrakk>2 \<le> j; j < 128\<rbrakk> \<Longrightarrow> dir_num (mkfs d) j = 0"
proof -
  let ?d = "mkfs d"
  have "dir_num ?d 0 = dec32 (take 4 (bytes_at ?d 421888 32))" "dir_num ?d 1 = dec32 (take 4 (bytes_at ?d 421920 32))"
    "dir_field ?d 0 = take 28 (drop 4 (bytes_at ?d 421888 32))" "dir_field ?d 1 = take 28 (drop 4 (bytes_at ?d 421920 32))"
    using take_drop_bytes_at [of 0 4 32 ?d] take_drop_bytes_at [of 4 28 32 ?d] by (simp_all add: dir_num_def dir_field_def)
  then show "dir_num ?d 0 = 1" "dir_num ?d 1 = 1" "dir_field ?d 0 = name_field [46]" "dir_field ?d 1 = name_field [46, 46]"
    unfolding mkfs_views by (simp_all add: enc_dirent_def c32.enc_length c32.dec_enc name_field_def)
  assume j: "2 \<le> j" "j < 128"
  have z: "put_bytes 421888 (replicate 4096 0) e x = 0" if "421888 \<le> x" "x < 425984" for e x
    using that by (simp add: put_bytes_def)
  have "?d x = 0" if "421952 \<le> x" "x < 425984" for x
    unfolding mkfs_eq using that z by (simp add: mkfs_lengths)
  then show "dir_num ?d j = 0" using j by (simp add: dir_num_def dec32_def nth_bytes_at)
qed

lemma mkfs_used:
  assumes "m < 32768"
  shows "used_block (mkfs d) m \<longleftrightarrow> m = 0" "used_inode (mkfs d) m \<longleftrightarrow> m < 2"
proof -
  have z: "(x # replicate 4095 0 :: u8 list) ! (m div 8) = (if m < 8 then x else 0)" for x
    using assms by (cases "m div 8") (auto simp: div_eq_0_iff div_less_iff_less_mult)
  have b: "bit (1 :: u8) k \<longleftrightarrow> k = 0" "bit (3 :: u8) k \<longleftrightarrow> k < 2" for k
    using bit_mask_iff [of 2 k, where ?'a = u8] by (auto simp: bit_1_iff mask_eq_exp_minus_1 dest: bit_imp_le_length)
  show "used_block (mkfs d) m \<longleftrightarrow> m = 0" using assms by (auto simp: used_bitmap mkfs_views bm_test_def z b)
  have "used_inode (mkfs d) m \<longleftrightarrow> bit (if m < 8 then 3 else 0 :: u8) (m mod 8)"
    unfolding used_bitmap(2) [OF assms] mkfs_views bm_test_def z ..
  then show "used_inode (mkfs d) m \<longleftrightarrow> m < 2" using b(2) [of m] by (cases "m < 8") simp_all
qed

lemma mkfs_fs_ok: "fs_ok (mkfs d)"
proof -
  have "entry_ok (mkfs d) j" if "j < 128" "dir_num (mkfs d) j \<noteq> 0" for j
  proof -
    have "\<not> 2 \<le> j" using that mkfs_dir(5) by blast
    then have "j = 0 \<or> j = 1" by linarith
    then show ?thesis using mkfs_dir(1-4) [of d] by (auto simp: entry_ok_def Let_def INODES_def mkfs_used name_field_def)
  qed
  then show ?thesis using mkfs_views [of d] mkfs_used [of 0 d] mkfs_used(2) [of 1 d] by (simp add: fs_ok_def csb.dec_enc)
qed

text \<open>What the host tool does, in terms of the directory.\<close>

lemma inject_file_ok:
  assumes "fs_ok d" "length buf \<le> 49152" "(length buf + 4095) div 4096 \<le> length (free_blocks d)"
    and "\<exists>k<INODES. \<not> used_inode d k" "\<exists>i<128. dir_num d i = 0" "0 \<notin> set s" "length s \<le> 27" "dir_lookup d s = None"
    and d': "d' = inject_file buf s d"
  shows "\<exists>n j ms. fs_ok d' \<and> dir_lookup d' s = Some (of_nat n) \<and> (of_nat n :: u32) \<noteq> 1 \<and> content_of d' (unat (of_nat n :: u32)) = buf \<and>
    (\<forall>t. t \<noteq> s \<longrightarrow> dir_lookup d' t = dir_lookup d t) \<and>
    (\<forall>t k. dir_lookup d t = Some k \<longrightarrow> k \<noteq> 1 \<longrightarrow> content_of d' (unat k) = content_of d (unat k)) \<and> length ms \<le> 12 \<and>
    (\<forall>m<32768. used_block d' m \<longleftrightarrow> used_block d m \<or> m \<in> set ms) \<and> (\<forall>m<32768. used_inode d' m \<longleftrightarrow> used_inode d m \<or> m = n) \<and>
    (\<forall>i<128. i \<noteq> j \<longrightarrow> dir_num d' i = dir_num d i)"
proof -
  let ?ms = "take ((length buf + 4095) div 4096) (free_blocks d)"
  from assms(4,5) obtain k i where "k < INODES" "\<not> used_inode d k" "i < 128" "dir_num d i = 0" by blast
  from inject_file_stored [OF assms(1,2) refl assms(3) this, of s] obtain n j dbm ibm where
    i: "inject_file buf s d = stored buf ?ms n j s dbm ibm d" "places_ok ?ms n j dbm ibm" "\<not> used_inode d n" "dir_num d j = 0"
      "\<forall>m<32768. bm_test dbm m \<longleftrightarrow> used_block d m \<or> m \<in> set ?ms" "\<forall>m<32768. bm_test ibm m \<longleftrightarrow> used_inode d m \<or> m = n" by blast
  have fr: "fresh_places ?ms n j dbm ibm d"
    using i(2-6) free_blocks_places(2) [OF assms(1)] unfolding fresh_places_def by blast
  have e: "d' = stored buf ?ms n j s dbm ibm d" using d' i(1) by simp
  note lk = stored_lookup [OF assms(1) fr assms(6-8), where buf = buf] and n = fresh_inode [OF assms(1) fr]
  have "length ?ms = (length buf + 4095) div 4096" using assms(3) by simp
  then have len: "length buf \<le> 4096 * length ?ms" using blocks_needed_eq(3) [OF assms(2)] by simp
  have "content_of d' (unat (of_nat n :: u32)) = buf" unfolding n(4) e by (rule stored_content [OF i(2) len])
  moreover have "(of_nat n :: u32) \<noteq> 1" using n(2,4) by (metis unat_1)
  moreover have "length ?ms \<le> 12" using i(2) by (simp add: places_ok_def)
  moreover have "\<forall>t k. dir_lookup d t = Some k \<longrightarrow> k \<noteq> 1 \<longrightarrow> content_of d' (unat k) = content_of d (unat k)"
    unfolding e using stored_content_other [OF assms(1) fr] by blast
  ultimately show ?thesis
    using stored_fs_ok [OF assms(1) fr] lk stored_used [OF fr] stored_other(3) [OF i(2)] unfolding e
    by (intro exI [of _ n] exI [of _ j] exI [of _ ?ms] conjI allI impI) simp_all
qed

section \<open>Properties\<close>

text \<open>C21: A file that the host tool stores in a consistent image with room for it, under a new name of at most 27
  bytes, is what the kernel reads back under that name, byte for byte; the image stays consistent, and every other
  file reads as before.\<close>

theorem injected_file_reads_back:
  assumes "fs_ok d" "length buf \<le> 49152" "(length buf + 4095) div 4096 \<le> length (free_blocks d)"
    and "\<exists>k<INODES. \<not> used_inode d k" "\<exists>i<128. dir_num d i = 0" "0 \<notin> set s" "length s \<le> 27" "dir_lookup d s = None"
    and "ds True = inject_file buf s d"
  shows "fs_ok (ds True) \<and> whole_file ds mounted s = Inr (Some buf) \<and>
    (\<forall>t. t \<noteq> s \<longrightarrow> dir_lookup d t \<noteq> Some 1 \<longrightarrow> whole_file ds mounted t = whole_file (ds(True := d)) mounted t)"
proof -
  from inject_file_ok [OF assms(1-8) refl] obtain n where
    r: "fs_ok (ds True)" "dir_lookup (ds True) s = Some (of_nat n)" "content_of (ds True) (unat (of_nat n :: u32)) = buf"
      "\<forall>t. t \<noteq> s \<longrightarrow> dir_lookup (ds True) t = dir_lookup d t"
      "\<forall>t k. dir_lookup d t = Some k \<longrightarrow> k \<noteq> 1 \<longrightarrow> content_of (ds True) (unat k) = content_of d (unat k)"
    unfolding assms(9) by blast
  have "whole_file ds mounted t = whole_file (ds(True := d)) mounted t" if t: "t \<noteq> s" "dir_lookup d t \<noteq> Some 1" for t
    using whole_file_eq [where ds = "ds(True := d)", of t] assms(1) whole_file_eq [where ds = ds, OF r(1), of t] r(4,5) t
    by (cases "dir_lookup d t") auto
  then show ?thesis using whole_file_eq [where ds = ds, OF r(1), of s] r(1-3) by simp
qed

theorem injected_file_reads_back_witness:
  "whole_file (\<lambda>_. inject_file [7, 8, 9] [104, 105] (mkfs (\<lambda>_. 0))) mounted [104, 105] = Inr (Some [7, 8, 9])"
proof -
  let ?d = "mkfs (\<lambda>_. 0)"
  have "1 \<in> set (free_blocks ?d)" by (simp add: free_blocks_def mkfs_used)
  then have room: "(length [7, 8, 9 :: u8] + 4095) div 4096 \<le> length (free_blocks ?d)" by (cases "free_blocks ?d") auto
  have ino: "\<exists>k<INODES. \<not> used_inode ?d k" by (rule exI [of _ 2]) (simp add: mkfs_used INODES_def)
  have slot: "\<exists>i<128. dir_num ?d i = 0" by (rule exI [of _ 2]) (simp add: mkfs_dir)
  have "\<not> (dir_num ?d j \<noteq> 0 \<and> dir_name ?d j = [104, 105])" if "j < 128" for j
  proof (cases "2 \<le> j")
    case True
    then show ?thesis using that mkfs_dir(5) by simp
  next
    case False
    then have "j = 0 \<or> j = 1" by linarith
    then show ?thesis using mkfs_dir(3,4) [of "\<lambda>_. 0"] by (auto simp: dir_name_def name_field_def)
  qed
  then have new: "dir_lookup ?d [104, 105] = None" by (simp add: dir_lookup_def find_None_iff)
  show ?thesis
    using injected_file_reads_back [OF mkfs_fs_ok _ room ino slot _ _ new, of "\<lambda>_. inject_file [7, 8, 9] [104, 105] ?d"] by simp
qed

text \<open>A freshly formatted image is consistent; the kernel finds its magic number and layout when it mounts it, and no
  file is there but the two names of the directory itself.\<close>

lemma mkfs_mounts:
  assumes "ds True = mkfs d" "s \<noteq> [46]" "s \<noteq> [46, 46]"
  shows "fs_ok (ds True) \<and> init_file_system ds = Inr (mounted, True) \<and> whole_file ds mounted s = Inr None"
proof -
  have ok: "fs_ok (ds True)" using mkfs_fs_ok assms(1) by simp
  have "read_hard_disk ds 0 24 True = Inr (bytes_at (ds True) (unat (0 :: u32)) (unat (24 :: u32)))" by (rule read_hard_disk_bytes) simp
  then have "read_hard_disk ds 0 24 True = Inr (enc_superblock mkfs_superblock)" using mkfs_views(1) assms(1) by simp
  then have "init_file_system ds = Inr (mounted, True)"
    by (simp add: init_file_system_def init_ext2_fs_def csb.dec_enc Let_def) (simp add: mkfs_superblock_def)
  moreover have "\<not> (dir_num (mkfs d) j \<noteq> 0 \<and> dir_name (mkfs d) j = s)" if "j < 128" for j
  proof (cases "2 \<le> j")
    case True
    then show ?thesis using that mkfs_dir(5) by simp
  next
    case False
    then have "j = 0 \<or> j = 1" by linarith
    then show ?thesis using mkfs_dir(3,4) [of d] assms(2,3) by (auto simp: dir_name_def name_field_def)
  qed
  then have "dir_lookup (ds True) s = None" by (simp add: dir_lookup_def find_None_iff assms(1))
  ultimately show ?thesis using ok whole_file_eq [where ds = ds, OF ok, of s] by simp
qed

text \<open>Reading any range of a file of a consistent image gives the bytes of its direct blocks from the start of the
  range, as many as were asked for and the recorded size of the file allows, block boundaries notwithstanding; a
  range that begins at or behind the end is empty.\<close>

lemma read_file_range:
  assumes "fs_ok (ds True)" "dir_lookup (ds True) s = Some n" "unat start + unat len < 2 ^ 32"
  shows "read_file ds mounted s start len =
    Inr (Some (take (min (unat len) (unat (isize (inode_at (ds True) (unat n))) - unat start))
      (drop (unat start mod 4096) (data_from (ds True) (blocks (inode_at (ds True) (unat n))) (unat start div 4096)))))"
  using assms by (rule ext2_read_data_eq)

end
