(* ===== verification/Disk_Image.thy ===== *)
theory Disk_Image
  imports Fs_Image
begin

text \<open>
  Building the image of a whole directory, \<^verbatim>\<open>src/user/fs/write_disk_image.c\<close>. The directory of the host is the list of its entries as
  \<^verbatim>\<open>readdir\<close> delivers them, each with the contents of the file.
\<close>

section \<open>The tool\<close>

definition is_dot :: "u8 list \<Rightarrow> bool" where
  "is_dot name \<longleftrightarrow> name = [46] \<or> name = [46, 46]"

text \<open>The result is the image and what \<^verbatim>\<open>print_files_in_root\<close> lists at the end.\<close>

definition write_disk_image :: "(u8 list \<times> u8 list) list \<Rightarrow> disk \<Rightarrow> disk \<times> (u8 list \<times> u32) list" where
  "write_disk_image dir img =
     (let files = filter (\<lambda>(name, _). \<not> is_dot name) dir;
          img = fold (\<lambda>(name, content) d. inject_file content name d) files img
      in (img, print_files_in_root img))"

section \<open>Room in the image\<close>

text \<open>After \<open>k\<close> files.\<close>

definition roomy :: "nat \<Rightarrow> disk \<Rightarrow> bool" where
  "roomy k d \<longleftrightarrow> card {m. m < 32768 \<and> used_block d m} \<le> 1 + 12 * k \<and> card {m. m < 32768 \<and> used_inode d m} \<le> 2 + k \<and>
     card {i. i < 128 \<and> dir_num d i \<noteq> 0} \<le> 2 + k"

definition stores :: "disk \<Rightarrow> u8 list \<times> u8 list \<Rightarrow> bool" where
  "stores d f \<longleftrightarrow> (\<exists>k. dir_lookup d (fst f) = Some k \<and> k \<noteq> 1 \<and> content_of d (unat k) = snd f)"

definition small_file :: "u8 list \<times> u8 list \<Rightarrow> bool" where
  "small_file f \<longleftrightarrow> 0 \<notin> set (fst f) \<and> length (fst f) \<le> 27 \<and> length (snd f) \<le> 49152"

lemma free_in_set:
  assumes "card {x. x < n \<and> P x} < n"
  shows "\<exists>x<n. \<not> P x"
proof (rule ccontr)
  assume "\<not> (\<exists>x<n. \<not> P x)"
  then have "{x. x < n \<and> P x} = {..<n}" by auto
  then show False using assms by simp
qed

lemma roomyD:
  assumes "roomy k d" "k < 126"
  shows "12 \<le> length (free_blocks d)" "\<exists>n<INODES. \<not> used_inode d n" "\<exists>i<128. dir_num d i = 0"
proof -
  have "length (free_blocks d) = card {m. m < 32768 \<and> \<not> used_block d m}"
    unfolding free_blocks_def by (subst length_filter_conv_card) (auto intro: arg_cong [where f = card])
  also have "{m. m < 32768 \<and> \<not> used_block d m} = {..<32768} - {m. m < 32768 \<and> used_block d m}" by auto
  also have "card \<dots> = 32768 - card {m. m < 32768 \<and> used_block d m}" by (subst card_Diff_subset) auto
  finally have "length (free_blocks d) = 32768 - card {m. m < 32768 \<and> used_block d m}" .
  moreover have "card {m. m < 32768 \<and> used_block d m} \<le> 1 + 12 * k" using assms(1) by (simp add: roomy_def)
  ultimately show "12 \<le> length (free_blocks d)" using assms(2) by linarith
  have "card {m. m < INODES \<and> used_inode d m} \<le> card {m. m < 32768 \<and> used_inode d m}" by (rule card_mono) (auto simp: INODES_def)
  then have "card {m. m < INODES \<and> used_inode d m} < INODES" using assms by (simp add: roomy_def INODES_def)
  then show "\<exists>n<INODES. \<not> used_inode d n" by (rule free_in_set)
  have "card {i. i < 128 \<and> dir_num d i \<noteq> 0} < 128" using assms by (simp add: roomy_def)
  from free_in_set [OF this] show "\<exists>i<128. dir_num d i = 0" by simp
qed

lemma card_insert_le_plus: "\<lbrakk>A \<subseteq> B \<union> set xs; finite B\<rbrakk> \<Longrightarrow> card A \<le> card B + length xs"
  using card_mono [of "B \<union> set xs" A] card_Un_le [of B "set xs"] card_length [of xs] by (meson List.finite_set finite_UnI le_trans add_left_mono)

lemma inject_step:
  assumes ok: "fs_ok d" "roomy k d" "k < 126" and f: "small_file (s, buf)" "dir_lookup d s = None" and st: "\<forall>f\<in>F. stores d f"
  shows "fs_ok (inject_file buf s d) \<and> roomy (Suc k) (inject_file buf s d) \<and> stores (inject_file buf s d) (s, buf) \<and>
    (\<forall>f\<in>F. stores (inject_file buf s d) f) \<and> (\<forall>t. t \<noteq> s \<longrightarrow> dir_lookup (inject_file buf s d) t = dir_lookup d t)"
proof -
  let ?d = "inject_file buf s d"
  note r = roomyD [OF ok(2,3)]
  have len: "length buf \<le> 49152" "0 \<notin> set s" "length s \<le> 27" using f(1) by (simp_all add: small_file_def)
  then have "(length buf + 4095) div 4096 \<le> (49152 + 4095) div 4096" by (intro div_le_mono) simp
  then have "(length buf + 4095) div 4096 \<le> 12" by simp
  then have "(length buf + 4095) div 4096 \<le> length (free_blocks d)" using r(1) by simp
  from inject_file_ok [OF ok(1) len(1) this r(2,3) len(2,3) f(2) refl] obtain n j ms where
    i: "fs_ok ?d" "dir_lookup ?d s = Some (of_nat n)" "(of_nat n :: u32) \<noteq> 1" "content_of ?d (unat (of_nat n :: u32)) = buf"
      "\<forall>t. t \<noteq> s \<longrightarrow> dir_lookup ?d t = dir_lookup d t"
      "\<forall>t k. dir_lookup d t = Some k \<longrightarrow> k \<noteq> 1 \<longrightarrow> content_of ?d (unat k) = content_of d (unat k)" "length ms \<le> 12"
      "\<forall>m<32768. used_block ?d m \<longleftrightarrow> used_block d m \<or> m \<in> set ms" "\<forall>m<32768. used_inode ?d m \<longleftrightarrow> used_inode d m \<or> m = n"
      "\<forall>i<128. i \<noteq> j \<longrightarrow> dir_num ?d i = dir_num d i" by blast
  have "roomy (Suc k) ?d"
  proof -
    have "card {m. m < 32768 \<and> used_block ?d m} \<le> card {m. m < 32768 \<and> used_block d m} + length ms"
      by (rule card_insert_le_plus) (use i(8) in auto)
    moreover have "card {m. m < 32768 \<and> used_inode ?d m} \<le> card {m. m < 32768 \<and> used_inode d m} + length [n]"
      by (rule card_insert_le_plus) (use i(9) in auto)
    moreover have "card {m. m < 128 \<and> dir_num ?d m \<noteq> 0} \<le> card {m. m < 128 \<and> dir_num d m \<noteq> 0} + length [j]"
      by (rule card_insert_le_plus) (use i(10) in auto)
    ultimately show ?thesis using ok(2) i(7) by (simp add: roomy_def)
  qed
  moreover have "stores ?d g" if "g \<in> F" for g
  proof -
    have "stores d g" using st that by blast
    then obtain k where k: "dir_lookup d (fst g) = Some k" "k \<noteq> 1" "content_of d (unat k) = snd g" unfolding stores_def by (elim exE conjE)
    moreover have "fst g \<noteq> s" using k(1) f(2) by auto
    ultimately show ?thesis using i(5,6) by (auto simp: stores_def)
  qed
  ultimately show ?thesis using i(1-5) by (auto simp: stores_def)
qed

lemma inject_all:
  assumes "fs_ok d" "roomy k d" "k + length fs \<le> 126" "\<forall>f\<in>set fs. small_file f \<and> dir_lookup d (fst f) = None" "distinct (map fst fs)"
    and "\<forall>f\<in>F. stores d f"
  shows "fs_ok (fold (\<lambda>(name, content) d. inject_file content name d) fs d) \<and>
    (\<forall>f\<in>set fs \<union> F. stores (fold (\<lambda>(name, content) d. inject_file content name d) fs d) f)"
  using assms
proof (induction fs arbitrary: d k F)
  case (Cons f fs)
  obtain s buf where f: "f = (s, buf)" by (cases f)
  let ?d = "inject_file buf s d"
  have k: "k < 126" "Suc k + length fs \<le> 126" using Cons.prems(3) by simp_all
  note step = inject_step [OF Cons.prems(1,2) k(1), of s buf F]
  have st: "fs_ok ?d" "roomy (Suc k) ?d" "\<forall>g\<in>insert f F. stores ?d g" "\<forall>t. t \<noteq> s \<longrightarrow> dir_lookup ?d t = dir_lookup d t"
    using step Cons.prems(4,6) f by auto
  have "\<forall>g\<in>set fs. small_file g \<and> dir_lookup ?d (fst g) = None"
  proof
    fix g assume g: "g \<in> set fs"
    then have "fst g \<noteq> s" using Cons.prems(5) f by auto
    then show "small_file g \<and> dir_lookup ?d (fst g) = None" using st(4) Cons.prems(4) g by simp
  qed
  from Cons.IH [OF st(1,2) k(2) this _ st(3)] Cons.prems(5) show ?case by (simp add: f)
qed simp

section \<open>The image of a directory\<close>

lemma mkfs_roomy: "roomy 0 (mkfs d)"
proof -
  have "{m. m < 32768 \<and> used_block (mkfs d) m} = {0}"
  proof (rule set_eqI)
    fix m show "m \<in> {m. m < 32768 \<and> used_block (mkfs d) m} \<longleftrightarrow> m \<in> {0}" using mkfs_used(1) [of m d] by (cases "m < 32768") auto
  qed
  moreover have "{m. m < 32768 \<and> used_inode (mkfs d) m} = {0, 1}"
  proof (rule set_eqI)
    fix m show "m \<in> {m. m < 32768 \<and> used_inode (mkfs d) m} \<longleftrightarrow> m \<in> {0, 1}" using mkfs_used(2) [of m d] by (cases "m < 32768") auto
  qed
  moreover have "{i. i < 128 \<and> dir_num (mkfs d) i \<noteq> 0} \<subseteq> {0, 1}"
  proof
    fix i assume "i \<in> {i. i < 128 \<and> dir_num (mkfs d) i \<noteq> 0}"
    then have "\<not> 2 \<le> i" using mkfs_dir(5) [of i d] by auto
    then show "i \<in> {0, 1}" by auto
  qed
  then have "card {i. i < 128 \<and> dir_num (mkfs d) i \<noteq> 0} \<le> card {0 :: nat, 1}" by (rule card_mono [rotated]) simp
  ultimately show ?thesis by (simp add: roomy_def)
qed

lemma mkfs_lookup:
  assumes "\<not> is_dot s"
  shows "dir_lookup (mkfs d) s = None"
proof -
  have "dir_num (mkfs d) j = 0 \<or> dir_name (mkfs d) j \<noteq> s" if "j < 128" for j
  proof (cases "2 \<le> j")
    case True
    then show ?thesis using that mkfs_dir(5) by blast
  next
    case False
    then have "j = 0 \<or> j = 1" by linarith
    then show ?thesis using mkfs_dir(3,4) [of d] assms by (auto simp: dir_name_def name_field_def is_dot_def)
  qed
  then show ?thesis by (auto simp: dir_lookup_def find_None_iff)
qed

text \<open>C22: The image that the host tools build is what the kernel serves: after formatting and writing a directory of up to 126 files with
  different names of at most 27 bytes and at most 48 KB each, the file system is consistent and every file of the directory reads back byte for byte.\<close>

theorem disk_image_serves_directory:
  assumes "distinct (map fst dir)" "\<forall>(name, content)\<in>set dir. 0 \<notin> set name \<and> length name \<le> 27 \<and> length content \<le> 49152"
    and "length (filter (\<lambda>(name, _). \<not> is_dot name) dir) \<le> 126" "ds True = fst (write_disk_image dir (mkfs d))"
  shows "fs_ok (ds True) \<and> (\<forall>(name, content)\<in>set dir. \<not> is_dot name \<longrightarrow> whole_file ds mounted name = Inr (Some content))"
proof -
  let ?fs = "filter (\<lambda>(name, _). \<not> is_dot name) dir"
  have e: "ds True = fold (\<lambda>(name, content) d. inject_file content name d) ?fs (mkfs d)"
    using assms(4) by (simp add: write_disk_image_def Let_def)
  have k: "0 + length ?fs \<le> 126" using assms(3) by simp
  have v: "\<forall>f\<in>set ?fs. small_file f \<and> dir_lookup (mkfs d) (fst f) = None"
    using assms(2) mkfs_lookup by (auto simp: small_file_def)
  have dist: "distinct (map fst ?fs)" using assms(1) by (rule distinct_map_filter)
  have "fs_ok (ds True) \<and> (\<forall>f\<in>set ?fs \<union> {}. stores (ds True) f)"
    unfolding e by (rule inject_all [OF mkfs_fs_ok mkfs_roomy k v dist]) simp
  then have ok: "fs_ok (ds True)" and st: "\<And>f. f \<in> set ?fs \<Longrightarrow> stores (ds True) f" by blast+
  have "whole_file ds mounted name = Inr (Some content)" if "(name, content) \<in> set dir" "\<not> is_dot name" for name content
  proof -
    have "stores (ds True) (name, content)" by (rule st) (use that in auto)
    then show ?thesis using whole_file_eq [where ds = ds, OF ok, of name] by (auto simp: stores_def)
  qed
  then show ?thesis using ok by blast
qed

theorem disk_image_serves_directory_witness:
  "whole_file (\<lambda>_. fst (write_disk_image [([46], []), ([97], [1, 2]), ([98], replicate 5000 7)] (mkfs (\<lambda>_. 0)))) mounted [98] =
     Inr (Some (replicate 5000 7))"
proof -
  let ?dir = "[([46], []), ([97], [1, 2]), ([98], replicate 5000 7)] :: (u8 list \<times> u8 list) list"
  let ?ds = "\<lambda>_ :: bool. fst (write_disk_image ?dir (mkfs (\<lambda>_. 0)))"
  have "fs_ok (?ds True) \<and> (\<forall>(name, content)\<in>set ?dir. \<not> is_dot name \<longrightarrow> whole_file ?ds mounted name = Inr (Some content))"
    by (rule disk_image_serves_directory [where d = "\<lambda>_. 0" and dir = ?dir]) (simp_all add: is_dot_def)
  then show ?thesis by (auto simp: is_dot_def)
qed

end
