(* ===== verification/Stdlib.thy ===== *)
theory Stdlib
  imports Prelude
begin

text \<open>
  The string and memory routines of \<^verbatim>\<open>src/src/common/stdlib.c\<close> and their user-space copies in
  \<^verbatim>\<open>src/user/src/user_sys/stdlib.c\<close>, over a byte-addressed memory, so that overlapping and
  wrapping arguments mean what they mean in the code. A loop that runs until it meets a zero byte is a
  \<open>partial_function (option)\<close>: \<open>None\<close> when the memory holds none. Local character arrays are
  lists of bytes.
\<close>

type_synonym byte_mem = "addr \<Rightarrow> u8"

section \<open>Memory\<close>

fun memset_loop :: "byte_mem \<Rightarrow> addr \<Rightarrow> u8 \<Rightarrow> nat \<Rightarrow> nat \<Rightarrow> byte_mem" where
  "memset_loop m dest val i 0 = m"
| "memset_loop m dest val i (Suc n) = memset_loop (m(dest + of_nat i := val)) dest val (Suc i) n"

definition memset :: "byte_mem \<Rightarrow> addr \<Rightarrow> u8 \<Rightarrow> u32 \<Rightarrow> byte_mem kres" where
  "memset m dest val len =
     kassert (dest \<noteq> NULL) ''dest != NULL'' (Inr (memset_loop m dest val 0 (unat len)))"

fun memcpy_loop :: "byte_mem \<Rightarrow> addr \<Rightarrow> addr \<Rightarrow> nat \<Rightarrow> nat \<Rightarrow> byte_mem" where
  "memcpy_loop m dest src i 0 = m"
| "memcpy_loop m dest src i (Suc n) =
     memcpy_loop (m(dest + of_nat i := m (src + of_nat i))) dest src (Suc i) n"

definition memcpy :: "byte_mem \<Rightarrow> addr \<Rightarrow> addr \<Rightarrow> u32 \<Rightarrow> byte_mem kres" where
  "memcpy m dest src len =
     kassert (dest \<noteq> NULL \<and> src \<noteq> NULL) ''dest != NULL && src != NULL''
       (Inr (memcpy_loop m dest src 0 (unat len)))"

section \<open>Strings\<close>

partial_function (option) strcpy_loop :: "byte_mem \<Rightarrow> addr \<Rightarrow> addr \<Rightarrow> u32 \<Rightarrow> (u32 \<times> byte_mem) option" where
  "strcpy_loop m dest src i =
     (if m (src + i) \<noteq> 0 then strcpy_loop (m(dest + i := m (src + i))) dest src (i + 1)
      else Some (i, m(dest + i := 0)))"

definition strcpy_with_len :: "byte_mem \<Rightarrow> addr \<Rightarrow> addr \<Rightarrow> (u32 \<times> byte_mem) kres option" where
  "strcpy_with_len m dest src =
     (if dest \<noteq> NULL \<and> src \<noteq> NULL then map_option Inr (strcpy_loop m dest src 0)
      else Some (Inl (Assert_failed ''dest != NULL && src != NULL'')))"

text \<open>\<^verbatim>\<open>char\<close> is signed on the target: the comparison of two characters is signed.\<close>

partial_function (option) strcmp_loop :: "byte_mem \<Rightarrow> addr \<Rightarrow> addr \<Rightarrow> u32 \<Rightarrow> int option" where
  "strcmp_loop m src1 src2 i =
     (if m (src1 + i) \<noteq> 0 then
        (if m (src2 + i) = 0 then Some 1
         else if m (src1 + i) \<noteq> m (src2 + i) then
           Some (if sint (m (src1 + i)) > sint (m (src2 + i)) then 1 else -1)
         else strcmp_loop m src1 src2 (i + 1))
      else Some (if m (src2 + i) = 0 then 0 else -1))"

definition strcmp :: "byte_mem \<Rightarrow> addr \<Rightarrow> addr \<Rightarrow> int kres option" where
  "strcmp m src1 src2 =
     (if src1 \<noteq> NULL \<and> src2 \<noteq> NULL then map_option Inr (strcmp_loop m src1 src2 0)
      else Some (Inl (Assert_failed ''src1 != NULL && src2 != NULL'')))"

partial_function (option) strlen_loop :: "byte_mem \<Rightarrow> addr \<Rightarrow> u32 \<Rightarrow> u32 option" where
  "strlen_loop m src num = (if m (src + num) \<noteq> 0 then strlen_loop m src (num + 1) else Some num)"

definition strlen :: "byte_mem \<Rightarrow> addr \<Rightarrow> u32 kres option" where
  "strlen m src =
     (if src \<noteq> NULL then map_option Inr (strlen_loop m src 0)
      else Some (Inl (Assert_failed ''src != NULL'')))"

section \<open>Numbers\<close>

text \<open>
  The digit loops fill the local \<^verbatim>\<open>char buf[20]\<close> from index 18 downwards; the result is the
  buffer and the index below the last digit.
\<close>

function dec_loop :: "u8 list \<Rightarrow> u32 \<Rightarrow> u32 \<Rightarrow> u8 list \<times> u32" where
  "dec_loop buf i num =
     (if num \<noteq> 0 then dec_loop (buf[unat i := 48 + ucast (num mod 10)]) (i - 1) (num div 10)
      else (buf, i))"
  by pat_completeness auto
termination
  by (relation "measure (\<lambda>(buf, i, num). unat num)") (auto simp: unat_div unat_gt_0)

definition hex_char :: "u32 \<Rightarrow> u8" where
  "hex_char remain = (if remain \<le> 9 then 48 + ucast remain else 97 + (ucast remain - 10))"

function hex_loop :: "u8 list \<Rightarrow> u32 \<Rightarrow> u32 \<Rightarrow> u8 list \<times> u32" where
  "hex_loop buf i num =
     (if num > 0 then hex_loop (buf[unat i := hex_char (num mod 16)]) (i - 1) (num div 16)
      else (buf, i))"
  by pat_completeness auto
termination
  by (relation "measure (\<lambda>(buf, i, num). unat num)") (auto simp: unat_div unat_gt_0 word_gt_0)

declare dec_loop.simps [simp del] hex_loop.simps [simp del]

text \<open>
  \<^verbatim>\<open>strcpy_with_len\<close> with a local array as its source: \<open>bs\<close> is the array from the source
  pointer on.
\<close>

fun copy_from :: "byte_mem \<Rightarrow> addr \<Rightarrow> u8 list \<Rightarrow> nat \<Rightarrow> byte_mem" where
  "copy_from m dest [] i = m"
| "copy_from m dest (c # cs) i =
     (if c \<noteq> 0 then copy_from (m(dest + of_nat i := c)) dest cs (Suc i)
      else m(dest + of_nat i := 0))"

definition blank_buf :: "u8 list \<Rightarrow> u8 list" where
  "blank_buf raw = (take 20 raw)[19 := 0]"

text \<open>\<open>raw\<close> is the uninitialised contents of the local array.\<close>

definition int2str :: "u8 list \<Rightarrow> byte_mem \<Rightarrow> addr \<Rightarrow> u32 \<Rightarrow> (u32 \<times> byte_mem) kres" where
  "int2str raw m dst num =
     kassert (dst \<noteq> NULL) ''dst != NULL''
       (let (start, m, unum) =
              (if sint num < 0 then (1, m(dst := 45), - num) else (0, m, num))
        in if unum = 0 then Inr (start + 1, m(dst + start := 48, dst + (start + 1) := 0))
           else let (buf, i) = dec_loop (blank_buf raw) 18 unum
                in Inr (start + 18 - i, copy_from m (dst + start) (drop (unat (i + 1)) buf) 0))"

definition uint2str :: "u8 list \<Rightarrow> byte_mem \<Rightarrow> addr \<Rightarrow> u32 \<Rightarrow> (u32 \<times> byte_mem) kres" where
  "uint2str raw m dst num =
     kassert (dst \<noteq> NULL) ''dst != NULL''
       (let start = 0
        in if num = 0 then Inr (start + 1, m(dst + start := 48, dst + (start + 1) := 0))
           else let (buf, i) = dec_loop (blank_buf raw) 18 num
                in Inr (start + 18 - i, copy_from m (dst + start) (drop (unat (i + 1)) buf) 0))"

definition int2hex :: "u8 list \<Rightarrow> byte_mem \<Rightarrow> addr \<Rightarrow> u32 \<Rightarrow> (u32 \<times> byte_mem) kres" where
  "int2hex raw m dst num =
     kassert (dst \<noteq> NULL) ''dst != NULL''
       (let m = m(dst := 48, dst + 1 := 120); start = 2
        in if num = 0 then Inr (start + 1, m(dst + start := 48, dst + (start + 1) := 0))
           else let (buf, i) = hex_loop (blank_buf raw) 18 num
                in Inr (start + 18 - i, copy_from m (dst + start) (drop (unat (i + 1)) buf) 0))"

section \<open>Formatted output\<close>

text \<open>
  \<^verbatim>\<open>sprintf\<close>: \<open>args\<close> are the 32-bit words that follow the format pointer on the stack,
  \<open>buf\<close> the address of the local buffer of 20 bytes, \<open>w\<close> the write index and \<open>a\<close> the number of
  arguments consumed. One directive, with \<open>fa\<close> the address of the character behind the percent sign:
\<close>

definition copy_out ::
  "byte_mem \<Rightarrow> addr \<Rightarrow> addr \<Rightarrow> u32 \<Rightarrow> nat \<Rightarrow> (byte_mem \<times> u32 \<times> nat) kres option" where
  "copy_out m src dst w a =
     map_option (\<lambda>r. kbind r (\<lambda>(len, m). Inr (m, w + len, a))) (strcpy_with_len m (dst + w) src)"

definition copy_number ::
  "(u32 \<times> byte_mem) kres \<Rightarrow> addr \<Rightarrow> addr \<Rightarrow> u32 \<Rightarrow> nat \<Rightarrow> (byte_mem \<times> u32 \<times> nat) kres option" where
  "copy_number r buf dst w a =
     (case r of Inl e \<Rightarrow> Some (Inl e) | Inr (len, m) \<Rightarrow> copy_out m buf dst w a)"

definition sprintf_directive ::
  "u8 list \<Rightarrow> (nat \<Rightarrow> u32) \<Rightarrow> addr \<Rightarrow> addr \<Rightarrow> byte_mem \<Rightarrow> u32 \<Rightarrow> nat \<Rightarrow> addr \<Rightarrow>
     (byte_mem \<times> u32 \<times> nat) kres option" where
  "sprintf_directive raw args buf dst m w a fa =
     (let c = m fa in
      if c = 100 then copy_number (int2str raw m buf (args a)) buf dst w (a + 1)
      else if c = 117 then copy_number (uint2str raw m buf (args a)) buf dst w (a + 1)
      else if c = 120 \<or> c = 88 then copy_number (int2hex raw m buf (args a)) buf dst w (a + 1)
      else if c = 115 then
        (if args a = NULL then
           Some (kassert (dst + w \<noteq> NULL) ''dest != NULL && src != NULL''
             (Inr (copy_from m (dst + w) [40, 110, 117, 108, 108, 41, 0] 0, w + 6, a + 1)))
         else copy_out m (args a) dst w (a + 1))
      else if c = 99 then Some (Inr (m(dst + w := ucast (args a)), w + 1, a + 1))
      else if c = 37 then Some (Inr (m(dst + w := 37), w + 1, a))
      else let m = m(dst + w := 37) in Some (Inr (m(dst + (w + 1) := m fa), w + 2, a)))"

partial_function (option) sprintf_loop ::
  "u8 list \<Rightarrow> (nat \<Rightarrow> u32) \<Rightarrow> addr \<Rightarrow> addr \<Rightarrow> addr \<Rightarrow> byte_mem \<Rightarrow> u32 \<Rightarrow> u32 \<Rightarrow> nat \<Rightarrow> byte_mem kres option" where
  "sprintf_loop raw args buf dst format m i w a =
     (if m (format + i) = 0 then Some (Inr (m(dst + w := 0)))
      else
        (case memset m buf 0 20 of
           Inl e \<Rightarrow> Some (Inl e)
         | Inr m \<Rightarrow>
             if m (format + i) = 37 then
               (if m (format + (i + 1)) = 0 then Some (Inr (m(dst + w := 0)))
                else
                  (case sprintf_directive raw args buf dst m w a (format + (i + 1)) of
                     None \<Rightarrow> None
                   | Some (Inl e) \<Rightarrow> Some (Inl e)
                   | Some (Inr (m, w, a)) \<Rightarrow> sprintf_loop raw args buf dst format m (i + 2) w a))
             else sprintf_loop raw args buf dst format (m(dst + w := m (format + i))) (i + 1) (w + 1) a))"

definition sprintf :: "u8 list \<Rightarrow> (nat \<Rightarrow> u32) \<Rightarrow> addr \<Rightarrow> byte_mem \<Rightarrow> addr \<Rightarrow> addr \<Rightarrow> byte_mem kres option" where
  "sprintf raw args buf m dst format = sprintf_loop raw args buf dst format m 0 0 0"

section \<open>The user-space copies\<close>

text \<open>
  The user library has no \<^verbatim>\<open>Assert\<close>: it returns early on null pointers. In
  \<^verbatim>\<open>strcpy_with_len\<close> and \<^verbatim>\<open>strcmp\<close> the early return needs both pointers to be null.
\<close>

definition user_memset :: "byte_mem \<Rightarrow> addr \<Rightarrow> u8 \<Rightarrow> u32 \<Rightarrow> byte_mem" where
  "user_memset m dest val len = (if dest = NULL then m else memset_loop m dest val 0 (unat len))"

definition user_memcpy :: "byte_mem \<Rightarrow> addr \<Rightarrow> addr \<Rightarrow> u32 \<Rightarrow> byte_mem" where
  "user_memcpy m dest src len =
     (if dest = NULL \<or> src = NULL then m else memcpy_loop m dest src 0 (unat len))"

definition user_strcpy_with_len :: "byte_mem \<Rightarrow> addr \<Rightarrow> addr \<Rightarrow> (u32 \<times> byte_mem) option" where
  "user_strcpy_with_len m dest src =
     (if dest = NULL \<and> src = NULL then Some (0, m) else strcpy_loop m dest src 0)"

definition user_strcmp :: "byte_mem \<Rightarrow> addr \<Rightarrow> addr \<Rightarrow> int option" where
  "user_strcmp m src1 src2 =
     (if src1 = NULL \<and> src2 = NULL then Some 0 else strcmp_loop m src1 src2 0)"

definition user_strlen :: "byte_mem \<Rightarrow> addr \<Rightarrow> u32 option" where
  "user_strlen m src = (if src = NULL then Some 0 else strlen_loop m src 0)"

definition user_int2str :: "u8 list \<Rightarrow> byte_mem \<Rightarrow> addr \<Rightarrow> u32 \<Rightarrow> u32 \<times> byte_mem" where
  "user_int2str raw m dst num =
     (if dst = NULL then (0, m)
      else
        let (start, m, unum) =
              (if sint num < 0 then (1, m(dst := 45), - num) else (0, m, num))
        in if unum = 0 then (start + 1, m(dst + start := 48, dst + (start + 1) := 0))
           else let (buf, i) = dec_loop (blank_buf raw) 18 unum
                in (start + 18 - i, copy_from m (dst + start) (drop (unat (i + 1)) buf) 0))"

definition user_uint2str :: "u8 list \<Rightarrow> byte_mem \<Rightarrow> addr \<Rightarrow> u32 \<Rightarrow> u32 \<times> byte_mem" where
  "user_uint2str raw m dst num =
     (if dst = NULL then (0, m)
      else
        let start = 0
        in if num = 0 then (start + 1, m(dst + start := 48, dst + (start + 1) := 0))
           else let (buf, i) = dec_loop (blank_buf raw) 18 num
                in (start + 18 - i, copy_from m (dst + start) (drop (unat (i + 1)) buf) 0))"

definition user_int2hex :: "u8 list \<Rightarrow> byte_mem \<Rightarrow> addr \<Rightarrow> u32 \<Rightarrow> u32 \<times> byte_mem" where
  "user_int2hex raw m dst num =
     (if dst = NULL then (0, m)
      else
        let m = m(dst := 48, dst + 1 := 120); start = 2
        in if num = 0 then (start + 1, m(dst + start := 48, dst + (start + 1) := 0))
           else let (buf, i) = hex_loop (blank_buf raw) 18 num
                in (start + 18 - i, copy_from m (dst + start) (drop (unat (i + 1)) buf) 0))"

section \<open>Writing a string\<close>

fun store_bytes :: "byte_mem \<Rightarrow> addr \<Rightarrow> u8 list \<Rightarrow> byte_mem" where
  "store_bytes m a [] = m"
| "store_bytes m a (b # bs) = store_bytes (m(a := b)) (a + 1) bs"

lemma copy_from_eq:
  "0 \<in> set bs \<Longrightarrow> copy_from m dest bs i = store_bytes m (dest + of_nat i) (takeWhile (\<lambda>b. b \<noteq> 0) bs @ [0])"
  by (induction m dest bs i rule: copy_from.induct) (auto simp: algebra_simps)

lemma store_bytes_append: "store_bytes m a (xs @ ys) = store_bytes (store_bytes m a xs) (a + of_nat (length xs)) ys"
  by (induction xs arbitrary: m a) (auto simp: algebra_simps)

section \<open>Digits\<close>

text \<open>The digits of a number, most significant first; none for zero.\<close>

function digits :: "nat \<Rightarrow> nat \<Rightarrow> nat list" where
  "digits b n = (if b < 2 \<or> n = 0 then [] else digits b (n div b) @ [n mod b])"
  by pat_completeness auto
termination by (relation "measure snd") auto

declare digits.simps [simp del]

definition digits_value :: "nat \<Rightarrow> nat list \<Rightarrow> nat" where
  "digits_value b ds = foldl (\<lambda>a d. a * b + d) 0 ds"

lemma digits_value_digits: "2 \<le> b \<Longrightarrow> digits_value b (digits b n) = n"
proof (induction b n rule: digits.induct)
  case (1 b n)
  then show ?case by (auto simp: digits.simps [of b n] digits_value_def)
qed

lemma digits_less: "\<lbrakk>2 \<le> b; d \<in> set (digits b n)\<rbrakk> \<Longrightarrow> d < b"
proof (induction b n rule: digits.induct)
  case (1 b n)
  then show ?case by (auto simp: digits.simps [of b n] split: if_splits)
qed

lemma length_digits: "\<lbrakk>2 \<le> b; n < b ^ k\<rbrakk> \<Longrightarrow> length (digits b n) \<le> k"
proof (induction k arbitrary: n)
  case (Suc k)
  then have "n div b < b ^ k" by (simp add: less_mult_imp_div_less mult.commute)
  with Suc show ?case by (auto simp: digits.simps [of b n])
qed (simp add: digits.simps)

lemma digits_nonzero: "\<lbrakk>2 \<le> b; n \<noteq> 0\<rbrakk> \<Longrightarrow> digits b n \<noteq> [] \<and> hd (digits b n) \<noteq> 0"
proof (induction b n rule: digits.induct)
  case (1 b n)
  show ?case
  proof (cases "n div b = 0")
    case True
    then show ?thesis using "1.prems" by (auto simp: digits.simps [of b n] digits.simps [of b 0] div_eq_0_iff)
  next
    case False
    with 1 show ?thesis by (auto simp: digits.simps [of b n])
  qed
qed

section \<open>The digit loops\<close>

definition dec_char :: "nat \<Rightarrow> u8" where "dec_char d = 48 + of_nat d"

definition hex_digit :: "nat \<Rightarrow> u8" where "hex_digit d = (if d \<le> 9 then 48 + of_nat d else 87 + of_nat d)"

lemma drop_update_at: "k < length xs \<Longrightarrow> drop k (xs[k := c]) = c # drop (Suc k) xs"
  by (simp add: drop_update_cancel Cons_nth_drop_Suc [symmetric] del: Cons_nth_drop_Suc)

text \<open>Both loops are instances of one loop over a base and a digit conversion.\<close>

function digit_loop :: "u32 \<Rightarrow> (u32 \<Rightarrow> u8) \<Rightarrow> u8 list \<Rightarrow> u32 \<Rightarrow> u32 \<Rightarrow> u8 list \<times> u32" where
  "digit_loop b ch buf i num =
     (if num \<noteq> 0 \<and> 2 \<le> b then digit_loop b ch (buf[unat i := ch (num mod b)]) (i - 1) (num div b)
      else (buf, i))"
  by pat_completeness auto
termination
  by (relation "measure (\<lambda>(b, ch, buf, i, num). unat num)")
     (auto simp: unat_div unat_gt_0 word_le_nat_alt div_less_dividend)

declare digit_loop.simps [simp del]

lemma dec_loop_eq: "dec_loop buf i num = digit_loop 10 (\<lambda>r. 48 + ucast r) buf i num"
proof (induction buf i num rule: dec_loop.induct)
  case (1 buf i num)
  then show ?case by (subst dec_loop.simps, subst digit_loop.simps) simp
qed

lemma hex_loop_eq: "hex_loop buf i num = digit_loop 16 hex_char buf i num"
proof (induction buf i num rule: hex_loop.induct)
  case (1 buf i num)
  then show ?case by (subst hex_loop.simps, subst digit_loop.simps) (simp add: word_gt_0)
qed

lemma digit_loop_digits:
  assumes "2 \<le> b" "unat i < length buf" "length (digits (unat b) (unat num)) \<le> unat i"
  shows "\<exists>buf'. digit_loop b ch buf i num = (buf', i - of_nat (length (digits (unat b) (unat num)))) \<and>
    drop (Suc (unat i - length (digits (unat b) (unat num)))) buf' =
      map (\<lambda>d. ch (of_nat d)) (digits (unat b) (unat num)) @ drop (Suc (unat i)) buf"
  using assms
proof (induction b ch buf i num rule: digit_loop.induct)
  case (1 b ch buf i num)
  have b2: "2 \<le> unat b" using "1.prems"(1) by (simp add: word_le_nat_alt)
  show ?case
  proof (cases "num = 0")
    case True
    then show ?thesis by (simp add: digit_loop.simps [of b] digits.simps)
  next
    case False
    let ?c = "ch (num mod b)" and ?q = "num div b" and ?D = "digits (unat b) (unat (num div b))"
    have d: "digits (unat b) (unat num) = ?D @ [unat num mod unat b]"
      using False b2 by (simp add: digits.simps [of "unat b" "unat num"] unat_div unat_eq_0)
    have "i \<noteq> 0" using "1.prems"(3) d by auto
    then have i0: "i \<noteq> 0" "unat (i - 1) = unat i - 1" "0 < unat i"
      using unat_pred32 [of i] by (auto simp: unat_gt_0)
    have len: "length ?D \<le> unat (i - 1)" using "1.prems"(3) d i0 by simp
    have "unat (i - 1) < length (buf[unat i := ?c])" using "1.prems"(2) i0 by simp
    from "1.IH" [OF _ "1.prems"(1) this len] False "1.prems"(1) obtain buf' where
      r: "digit_loop b ch (buf[unat i := ?c]) (i - 1) ?q = (buf', i - 1 - of_nat (length ?D))"
      "drop (Suc (unat (i - 1) - length ?D)) buf' =
        map (\<lambda>d. ch (of_nat d)) ?D @ drop (Suc (unat (i - 1))) (buf[unat i := ?c])" by auto
    have "drop (Suc (unat i - 1)) (buf[unat i := ?c]) = ?c # drop (Suc (unat i)) buf"
      using drop_update_at [of "unat i" buf ?c] "1.prems"(2) i0 by simp
    moreover have "num mod b = of_nat (unat num mod unat b)"
      by (simp flip: unat_mod)
    ultimately show ?thesis
      using r i0 False len "1.prems"(1) by (simp add: digit_loop.simps [of b] d algebra_simps)
  qed
qed

lemma digit_text:
  assumes raw: "20 \<le> length raw" and b: "2 \<le> b" and len: "length (digits (unat b) (unat num)) \<le> 18"
    and nz: "\<And>d. d < unat b \<Longrightarrow> ch (of_nat d) \<noteq> 0"
    and l: "digit_loop b ch (blank_buf raw) 18 num = (buf, i)"
  shows "copy_from m dest (drop (unat (i + 1)) buf) 0 =
      store_bytes m dest (map (\<lambda>d. ch (of_nat d)) (digits (unat b) (unat num)) @ [0]) \<and>
    start + 18 - i = start + of_nat (length (digits (unat b) (unat num)))"
proof -
  let ?D = "digits (unat b) (unat num)"
  have bl: "length (blank_buf raw) = 20" "drop 19 (blank_buf raw) = [0]"
    using raw by (auto simp: blank_buf_def drop_update_at)
  have u18: "unat (18 :: u32) = 18" "Suc 18 = 19" by simp_all
  from digit_loop_digits [of b 18 "blank_buf raw" num ch, unfolded u18] b len bl l
  have r: "i = 18 - of_nat (length ?D)" "drop (Suc (18 - length ?D)) buf = map (\<lambda>d. ch (of_nat d)) ?D @ [0]"
    by auto
  have "i + 1 = of_nat (19 - length ?D)" using r(1) len by simp
  then have u: "unat (i + 1) = Suc (18 - length ?D)"
    using len by (simp add: unat_of_nat_small del: of_nat_diff)
  have "2 \<le> unat b" using b by (simp add: word_le_nat_alt)
  then have z: "\<And>x. x \<in> set (map (\<lambda>d. ch (of_nat d)) ?D) \<Longrightarrow> x \<noteq> 0" using digits_less nz by auto
  have "takeWhile (\<lambda>x. x \<noteq> 0) (map (\<lambda>d. ch (of_nat d)) ?D @ [0]) = map (\<lambda>d. ch (of_nat d)) ?D"
    using z by (subst takeWhile_append2) auto
  then have "copy_from m dest (drop (unat (i + 1)) buf) 0 = store_bytes m dest (map (\<lambda>d. ch (of_nat d)) ?D @ [0])"
    by (simp add: u r(2) copy_from_eq)
  moreover have "start + 18 - i = start + of_nat (length ?D)" using r(1) by simp
  ultimately show ?thesis ..
qed

lemma u32_digits: "length (digits 10 (unat (num :: u32))) \<le> 10" "length (digits 16 (unat num)) \<le> 8"
  using unat_u32_less [of num] by (intro length_digits; simp)+

text \<open>The text of a number, as the routines write it, and its reading.\<close>

definition dec_text :: "nat \<Rightarrow> u8 list" where
  "dec_text n = (if n = 0 then [48] else map dec_char (digits 10 n))"

definition hex_text :: "nat \<Rightarrow> u8 list" where
  "hex_text n = [48, 120] @ (if n = 0 then [48] else map hex_digit (digits 16 n))"

definition int_text :: "u32 \<Rightarrow> u8 list" where
  "int_text w = (if sint w < 0 then 45 # dec_text (unat (- w)) else dec_text (unat w))"

lemma unat_u8_of_nat: "unat (of_nat n :: u8) = n mod 256"
  by (simp add: unsigned_of_nat take_bit_eq_mod)

lemma u8_nonzero: "\<lbrakk>0 < n; n < 256\<rbrakk> \<Longrightarrow> (of_nat n :: u8) \<noteq> 0"
  using unat_u8_of_nat [of n] by auto

lemma ucast_u8_of_nat: "d < 256 \<Longrightarrow> ucast (of_nat d :: u32) = (of_nat d :: u8)"
  by (rule unsigned_word_eqI [where ?'a = nat])
     (simp add: unat_u8_of_nat unsigned_ucast_eq take_bit_eq_mod unat_of_nat_small)

lemma dec_digits_map:
  "map (\<lambda>d. 48 + ucast (of_nat d :: u32)) (digits 10 n) = map dec_char (digits 10 n)"
proof (rule map_cong [OF refl])
  fix d assume "d \<in> set (digits 10 n)"
  then have "d < 256" using digits_less [of 10 d n] by simp
  then show "48 + ucast (of_nat d :: u32) = dec_char d" by (simp add: dec_char_def ucast_u8_of_nat)
qed

lemma hex_digits_map: "map (\<lambda>d. hex_char (of_nat d)) (digits 16 n) = map hex_digit (digits 16 n)"
proof (rule map_cong [OF refl])
  fix d assume "d \<in> set (digits 16 n)"
  then have d: "d < 16" using digits_less by simp
  then have "((of_nat d :: u32) \<le> 9) = (d \<le> 9)" by (simp add: word_le_nat_alt unat_of_nat_small)
  then show "hex_char (of_nat d) = hex_digit d"
    using d by (simp add: hex_char_def hex_digit_def ucast_u8_of_nat)
qed

lemma dec_nonzero: "d < 10 \<Longrightarrow> 48 + ucast (of_nat d :: u32) \<noteq> (0 :: u8)"
  using u8_nonzero [of "48 + d"] by (simp add: ucast_u8_of_nat)

lemma hex_nonzero:
  assumes "d < 16"
  shows "hex_char (of_nat d) \<noteq> 0"
proof -
  have "((of_nat d :: u32) \<le> 9) = (d \<le> 9)" using assms by (simp add: word_le_nat_alt unat_of_nat_small)
  then show ?thesis
    using assms u8_nonzero [of "48 + d"] u8_nonzero [of "87 + d"] by (simp add: hex_char_def ucast_u8_of_nat)
qed

lemma dec_part:
  assumes "20 \<le> length raw" "dec_loop (blank_buf raw) 18 num = (buf, i)"
  shows "copy_from m dest (drop (unat (i + 1)) buf) 0 = store_bytes m dest (map dec_char (digits 10 (unat num)) @ [0]) \<and>
    start + 18 - i = start + of_nat (length (digits 10 (unat num)))"
  using digit_text [of raw 10 num "\<lambda>r. 48 + ucast r" buf i m dest start] assms u32_digits(1) [of num] dec_nonzero
  by (simp_all add: dec_loop_eq dec_digits_map)

lemma hex_part:
  assumes "20 \<le> length raw" "hex_loop (blank_buf raw) 18 num = (buf, i)"
  shows "copy_from m dest (drop (unat (i + 1)) buf) 0 = store_bytes m dest (map hex_digit (digits 16 (unat num)) @ [0]) \<and>
    start + 18 - i = start + of_nat (length (digits 16 (unat num)))"
  using digit_text [of raw 16 num hex_char buf i m dest start] assms u32_digits(2) [of num] hex_nonzero
  by (simp_all add: hex_loop_eq hex_digits_map)

lemma uint2str_text:
  assumes "20 \<le> length raw" "dst \<noteq> NULL"
  shows "uint2str raw m dst num =
    Inr (of_nat (length (dec_text (unat num))), store_bytes m dst (dec_text (unat num) @ [0]))"
proof (cases "num = 0")
  case False
  obtain buf i where l: "dec_loop (blank_buf raw) 18 num = (buf, i)" by fastforce
  show ?thesis
    using False assms(2) dec_part [OF assms(1) l, of m dst 0]
    by (simp add: uint2str_def dec_text_def l unat_eq_0)
qed (simp add: uint2str_def dec_text_def assms)

lemma int2str_text:
  assumes "20 \<le> length raw" "dst \<noteq> NULL"
  shows "int2str raw m dst num =
    Inr (of_nat (length (int_text num)), store_bytes m dst (int_text num @ [0]))"
proof (cases "num = 0")
  case False
  obtain buf i where l: "dec_loop (blank_buf raw) 18 num = (buf, i)" by fastforce
  obtain buf' i' where l': "dec_loop (blank_buf raw) 18 (- num) = (buf', i')" by fastforce
  show ?thesis
    using False assms(2) dec_part [OF assms(1) l, of m dst 0] dec_part [OF assms(1) l', of "m(dst := 45)" "dst + 1" 1]
    by (simp add: int2str_def dec_text_def int_text_def l l' unat_eq_0 Let_def)
qed (simp add: int2str_def dec_text_def int_text_def assms)

lemma int2hex_text:
  assumes "20 \<le> length raw" "dst \<noteq> NULL"
  shows "int2hex raw m dst num =
    Inr (of_nat (length (hex_text (unat num))), store_bytes m dst (hex_text (unat num) @ [0]))"
proof (cases "num = 0")
  case False
  obtain buf i where l: "hex_loop (blank_buf raw) 18 num = (buf, i)" by fastforce
  show ?thesis
    using False assms(2) hex_part [OF assms(1) l, of "m(dst := 48, dst + 1 := 120)" "dst + 2" 2]
    by (simp add: int2hex_def hex_text_def l unat_eq_0 Let_def add.assoc)
qed (simp add: int2hex_def hex_text_def assms add.assoc)

section \<open>Reading the texts back\<close>

definition dec_value :: "u8 list \<Rightarrow> nat" where
  "dec_value bs = digits_value 10 (map (\<lambda>c. unat c - 48) bs)"

definition int_value :: "u8 list \<Rightarrow> int" where
  "int_value bs = (if bs \<noteq> [] \<and> hd bs = 45 then - int (dec_value (tl bs)) else int (dec_value bs))"

definition hex_value :: "u8 list \<Rightarrow> nat" where
  "hex_value bs = digits_value 16 (map (\<lambda>c. if c < 97 then unat c - 48 else unat c - 87) (drop 2 bs))"

lemma unat_dec_char: "d < 10 \<Longrightarrow> unat (dec_char d) = 48 + d"
  using unat_u8_of_nat [of "48 + d"] by (simp add: dec_char_def)

lemma dec_value_text: "dec_value (dec_text n) = n"
proof -
  have "map (\<lambda>c. unat c - 48) (map dec_char (digits 10 n)) = digits 10 n"
    using digits_less [of 10 _ n] by (auto simp: unat_dec_char intro!: map_idI)
  then show ?thesis using digits_value_digits [of 10 n]
    by (auto simp: dec_value_def dec_text_def digits_value_def)
qed

lemma hex_value_text: "hex_value (hex_text n) = n"
proof -
  have u: "unat (hex_digit d) = (if d \<le> 9 then 48 + d else 87 + d)" if "d < 16" for d
    using that unat_u8_of_nat [of "48 + d"] unat_u8_of_nat [of "87 + d"] by (simp add: hex_digit_def)
  have "(\<lambda>c. if c < 97 then unat c - 48 else unat c - 87) (hex_digit d) = d" if "d < 16" for d
    using u [OF that] that by (simp add: word_less_nat_alt)
  then have "map (\<lambda>c. if c < 97 then unat c - 48 else unat c - 87) (map hex_digit (digits 16 n)) = digits 16 n"
    using digits_less [of 16 _ n] by (auto intro!: map_idI)
  then show ?thesis using digits_value_digits [of 16 n]
    by (auto simp: hex_value_def hex_text_def digits_value_def)
qed

lemma sint_neg: "sint (w :: u32) < 0 \<Longrightarrow> sint w = - int (unat (- w))"
proof -
  assume n: "sint w < 0"
  have "uint (- w) = uint (word_of_int (- sint w) :: u32)" by simp
  also have "\<dots> = take_bit 32 (- sint w)" by (simp add: uint_word_of_int take_bit_eq_mod del: of_int_minus of_int_sint)
  also have "\<dots> = - sint w" using n sint_ge [of w] by (simp add: take_bit_int_eq_self_iff)
  finally show ?thesis by (metis uint_nat verit_minus_simplify(4))
qed

lemma int_value_text: "int_value (int_text w) = sint w"
proof (cases "sint w < 0")
  case True
  then show ?thesis using sint_neg by (simp add: int_value_def int_text_def dec_value_text)
next
  case False
  have "hd (dec_text n) \<noteq> 45" for n
  proof (cases "n = 0")
    case False
    have "digits 10 n \<noteq> []" using digits_nonzero [of 10 n] False by simp
    then have "hd (digits 10 n) < 10" using digits_less [of 10 _ n] by simp
    from unat_dec_char [OF this] \<open>digits 10 n \<noteq> []\<close> False show ?thesis by (auto simp: dec_text_def hd_map)
  qed (simp add: dec_text_def)
  moreover have "uint w = sint w"
    using False sint_lt [of w] uint_sint [of w] by (simp add: take_bit_int_eq_self_iff)
  ultimately show ?thesis using False by (simp add: int_value_def int_text_def dec_value_text)
qed

section \<open>Strings in memory\<close>

fun cstr :: "byte_mem \<Rightarrow> addr \<Rightarrow> u8 list \<Rightarrow> bool" where
  "cstr m a [] \<longleftrightarrow> m a = 0"
| "cstr m a (b # bs) \<longleftrightarrow> b \<noteq> 0 \<and> m a = b \<and> cstr m (a + 1) bs"

definition region :: "addr \<Rightarrow> nat \<Rightarrow> addr set" where
  "region a n = (\<lambda>k. a + of_nat k) ` {..<n}"

lemma region_0 [simp]: "region a 0 = {}"
  by (simp add: region_def)

lemma region_Suc: "region a (Suc n) = insert a (region (a + 1) n)"
  by (auto simp: region_def image_iff lessThan_Suc_eq_insert_0 algebra_simps)

lemma cstr_cong: "(\<And>x. x \<in> region a (Suc (length bs)) \<Longrightarrow> m' x = m x) \<Longrightarrow> cstr m' a bs = cstr m a bs"
proof (induction bs arbitrary: a)
  case (Cons b bs)
  have "cstr m' (a + 1) bs = cstr m (a + 1) bs"
    by (rule Cons.IH) (use Cons.prems in \<open>auto simp: region_Suc [of a]\<close>)
  moreover have "m' a = m a" using Cons.prems [of a] by (simp add: region_Suc)
  ultimately show ?case by simp
qed (simp add: region_Suc)

lemma cstr_upd: "d \<notin> region a (Suc (length bs)) \<Longrightarrow> cstr (m(d := v)) a bs = cstr m a bs"
  by (rule cstr_cong) auto

lemma strlen_loop_cstr: "cstr m (src + i) bs \<Longrightarrow> strlen_loop m src i = Some (i + of_nat (length bs))"
proof (induction bs arbitrary: i)
  case Nil
  then show ?case by (subst strlen_loop.simps) simp
next
  case (Cons b bs)
  then show ?case using Cons.IH [of "i + 1"] by (subst strlen_loop.simps) (simp add: algebra_simps)
qed

lemma strcpy_loop_cstr:
  assumes "cstr m (src + i) bs" "region (dest + i) (Suc (length bs)) \<inter> region (src + i) (Suc (length bs)) = {}"
  shows "strcpy_loop m dest src i = Some (i + of_nat (length bs), store_bytes m (dest + i) (bs @ [0]))"
  using assms
proof (induction bs arbitrary: m i)
  case Nil
  then show ?case by (subst strcpy_loop.simps) simp
next
  case (Cons b bs)
  have "cstr (m(dest + i := b)) (src + (i + 1)) bs"
    using Cons.prems by (subst cstr_upd) (auto simp: region_Suc algebra_simps)
  moreover have "region (dest + (i + 1)) (Suc (length bs)) \<inter> region (src + (i + 1)) (Suc (length bs)) = {}"
    using Cons.prems(2) unfolding region_Suc [of "dest + i" "length (b # bs)"] region_Suc [of "src + i" "length (b # bs)"]
    by (auto simp: algebra_simps)
  ultimately have "strcpy_loop (m(dest + i := b)) dest src (i + 1) =
      Some (i + 1 + of_nat (length bs), store_bytes (m(dest + i := b)) (dest + (i + 1)) (bs @ [0]))"
    by (rule Cons.IH)
  then show ?case using Cons.prems(1) by (subst strcpy_loop.simps) (simp add: ac_simps)
qed

text \<open>The order of \<^verbatim>\<open>strcmp\<close> on strings: by the first difference, characters as signed bytes.\<close>

fun str_order :: "u8 list \<Rightarrow> u8 list \<Rightarrow> int" where
  "str_order [] [] = 0"
| "str_order [] (y # ys) = -1"
| "str_order (x # xs) [] = 1"
| "str_order (x # xs) (y # ys) =
     (if x \<noteq> y then (if sint x > sint y then 1 else -1) else str_order xs ys)"

lemma strcmp_loop_cstr:
  "\<lbrakk>cstr m (a + i) xs; cstr m (b + i) ys\<rbrakk> \<Longrightarrow> strcmp_loop m a b i = Some (str_order xs ys)"
proof (induction xs ys arbitrary: i rule: str_order.induct)
  case (4 x xs y ys)
  then show ?case using "4.IH" [of "i + 1"] by (subst strcmp_loop.simps) (auto simp: algebra_simps)
qed (subst strcmp_loop.simps, simp)+

lemma str_order_eq_0: "str_order xs ys = 0 \<longleftrightarrow> xs = ys"
  by (induction xs ys rule: str_order.induct) auto

lemma str_order_antisym: "str_order ys xs = - str_order xs ys"
proof (induction xs ys rule: str_order.induct)
  case (4 x xs y ys)
  have "x \<noteq> y \<Longrightarrow> sint x \<noteq> sint y" using signed_word_eqI [of x y, where ?'a = int] by blast
  with 4 show ?case by auto
qed simp_all

lemma memcpy_loop_eq:
  assumes "region (dest + of_nat i) n \<inter> region (src + of_nat i) n = {}"
  shows "memcpy_loop m dest src i n = store_bytes m (dest + of_nat i) (map (\<lambda>k. m (src + of_nat (i + k))) [0..<n])"
  using assms
proof (induction m dest src i n rule: memcpy_loop.induct)
  case (2 m dest src i n)
  let ?m = "m(dest + of_nat i := m (src + of_nat i))"
  have dj: "region (dest + of_nat (Suc i)) n \<inter> region (src + of_nat (Suc i)) n = {}"
    using "2.prems" by (auto simp: region_Suc algebra_simps)
  have "?m (src + of_nat (Suc i + k)) = m (src + of_nat (Suc i + k))" if "k < n" for k
  proof -
    have "src + of_nat (Suc i + k) \<in> region (src + of_nat i) (Suc n)"
      using that by (auto simp: region_def algebra_simps intro!: image_eqI [of _ _ "Suc k"])
    moreover have "dest + of_nat i \<in> region (dest + of_nat i) (Suc n)" by (simp add: region_Suc)
    ultimately show ?thesis using "2.prems" by (metis disjoint_iff fun_upd_other)
  qed
  then have "map (\<lambda>k. ?m (src + of_nat (Suc i + k))) [0..<n] = map (\<lambda>k. m (src + of_nat (Suc i + k))) [0..<n]"
    by simp
  moreover have "map (\<lambda>k. m (src + of_nat (i + k))) [0..<Suc n] =
      m (src + of_nat i) # map (\<lambda>k. m (src + of_nat (Suc i + k))) [0..<n]"
    by (simp add: upt_conv_Cons map_Suc_upt [symmetric] ac_simps del: upt_Suc)
  ultimately show ?case
    using "2.IH" [OF dj] by (simp only: memcpy_loop.simps store_bytes.simps of_nat_Suc ac_simps)
qed simp

lemma store_bytes_outside: "x \<notin> region a (length bs) \<Longrightarrow> store_bytes m a bs x = m x"
  by (induction bs arbitrary: m a) (auto simp: region_Suc)

lemma store_bytes_cstr:
  assumes "\<forall>b\<in>set bs. b \<noteq> 0" "length bs < 4294967296"
  shows "cstr (store_bytes m a (bs @ [0])) a bs"
  using assms
proof (induction bs arbitrary: m a)
  case (Cons b bs)
  have "a \<notin> region (a + 1) (length (bs @ [0]))"
  proof
    assume "a \<in> region (a + 1) (length (bs @ [0]))"
    then obtain k where k: "k < Suc (length bs)" "(of_nat (Suc k) :: addr) = 0"
      by (auto simp: region_def algebra_simps)
    then show False using Cons.prems(2) unat_of_nat_small [of "Suc k"] by simp
  qed
  then show ?case using Cons by (simp add: store_bytes_outside)
qed simp

section \<open>Formatted output against its meaning\<close>

text \<open>
  What a format string stands for: \<open>args\<close> are the argument words, \<open>strs k\<close> the text at the
  \<open>k\<close>-th argument when that is a string.
\<close>

definition null_text :: "u8 list" where "null_text = [40, 110, 117, 108, 108, 41]"

fun render :: "(nat \<Rightarrow> u32) \<Rightarrow> (nat \<Rightarrow> u8 list) \<Rightarrow> nat \<Rightarrow> u8 list \<Rightarrow> u8 list" where
  "render args strs a [] = []"
| "render args strs a [c] = (if c = 37 then [] else [c])"
| "render args strs a (c # d # cs) =
     (if c \<noteq> 37 then c # render args strs a (d # cs)
      else if d = 100 then int_text (args a) @ render args strs (a + 1) cs
      else if d = 117 then dec_text (unat (args a)) @ render args strs (a + 1) cs
      else if d = 120 \<or> d = 88 then hex_text (unat (args a)) @ render args strs (a + 1) cs
      else if d = 115 then (if args a = NULL then null_text else strs a) @ render args strs (a + 1) cs
      else if d = 99 then ucast (args a) # render args strs (a + 1) cs
      else if d = 37 then 37 # render args strs a cs
      else 37 # d # render args strs a cs)"

text \<open>The arguments a format reads as strings.\<close>

fun string_args :: "nat \<Rightarrow> u8 list \<Rightarrow> nat list" where
  "string_args a (c # d # cs) =
     (if c \<noteq> 37 then string_args a (d # cs)
      else if d = 115 then a # string_args (a + 1) cs
      else if d \<in> {100, 117, 120, 88, 99} then string_args (a + 1) cs
      else string_args a cs)"
| "string_args a cs = []"

lemma store_bytes_cong: "m x = m' x \<Longrightarrow> store_bytes m a bs x = store_bytes m' a bs x"
proof (induction bs arbitrary: m m' a)
  case (Cons b bs)
  have "(m(a := b)) x = (m'(a := b)) x" using Cons.prems by simp
  then show ?case unfolding store_bytes.simps by (rule Cons.IH)
qed simp

lemma store_bytes_chain:
  "ys \<noteq> [] \<Longrightarrow> store_bytes (store_bytes m a (xs @ [z])) (a + of_nat (length xs)) ys = store_bytes m a (xs @ ys)"
  by (cases ys) (simp_all add: store_bytes_append)

lemma memset_loop_outside: "x \<notin> region (dest + of_nat i) n \<Longrightarrow> memset_loop m dest v i n x = m x"
proof (induction m dest v i n rule: memset_loop.induct)
  case (2 m dest v i n)
  then have "x \<noteq> dest + of_nat i" "x \<notin> region (dest + of_nat (Suc i)) n" by (auto simp: region_Suc ac_simps)
  from "2.IH" [OF this(2)] this(1) show ?case by (simp only: memset_loop.simps fun_upd_def if_False)
qed simp

lemma region_append: "region a (j + k) = region a j \<union> region (a + of_nat j) k"
  by (induction j arbitrary: a) (auto simp: region_Suc algebra_simps)

lemma region_mono: "j \<le> k \<Longrightarrow> region a j \<subseteq> region a k"
  using region_append [of a j "k - j"] by auto

lemma int_text_length: "length (int_text w) \<le> 11" "length (dec_text (unat w)) \<le> 10" "length (hex_text (unat w)) \<le> 10"
proof -
  show d: "length (dec_text (unat w)) \<le> 10" for w :: u32 using u32_digits(1) [of w] by (simp add: dec_text_def)
  show "length (int_text w) \<le> 11" using d [of w] d [of "- w"] by (simp add: int_text_def)
  show "length (hex_text (unat w)) \<le> 10" using u32_digits(2) [of w] by (simp add: hex_text_def)
qed

lemma dec_text_nonzero: "b \<in> set (dec_text n) \<Longrightarrow> b \<noteq> 0"
proof -
  assume "b \<in> set (dec_text n)"
  then consider "b = 48" | d where "d < 10" "b = dec_char d"
    using digits_less [of 10 _ n] by (auto simp: dec_text_def split: if_splits)
  then show "b \<noteq> 0" by cases (auto simp: unat_dec_char simp flip: unat_eq_0)
qed

lemma int_text_nonzero: "b \<in> set (int_text w) \<Longrightarrow> b \<noteq> 0"
  using dec_text_nonzero by (fastforce simp: int_text_def split: if_splits)

lemma hex_text_nonzero: "b \<in> set (hex_text n) \<Longrightarrow> b \<noteq> 0"
proof -
  assume "b \<in> set (hex_text n)"
  then consider "b = 48" | "b = 120" | d where "d < 16" "b = hex_digit d"
    using digits_less [of 16 _ n] by (auto simp: hex_text_def split: if_splits)
  then show "b \<noteq> 0" using u8_nonzero [of "48 + d" for d] u8_nonzero [of "87 + d" for d] 
    by cases (auto simp: hex_digit_def)
qed


text \<open>One directive that goes through the scratch buffer.\<close>

lemma copy_number_step:
  assumes "r = Inr (l, store_bytes m buf (tx @ [0]))" "\<forall>b\<in>set tx. b \<noteq> 0" "length tx < 20"
    and "region (dst + w) (Suc (length tx)) \<inter> region buf 20 = {}" "buf \<noteq> NULL" "dst + w \<noteq> NULL"
  shows "\<exists>m'. copy_number r buf dst w a = Some (Inr (m', w + of_nat (length tx), a)) \<and>
    (\<forall>x. x \<notin> region buf 20 \<longrightarrow> m' x = store_bytes m (dst + w) (tx @ [0]) x)"
proof -
  let ?m = "store_bytes m buf (tx @ [0])"
  have sub: "region buf (Suc (length tx)) \<subseteq> region buf 20" using assms(3) by (intro region_mono) simp
  have "cstr ?m buf tx" using assms(2,3) by (intro store_bytes_cstr) auto
  then have "strcpy_loop ?m (dst + w) buf 0 = Some (of_nat (length tx), store_bytes ?m (dst + w) (tx @ [0]))"
    using strcpy_loop_cstr [of ?m buf 0 tx "dst + w"] assms(4) sub by auto
  moreover have "store_bytes ?m (dst + w) (tx @ [0]) x = store_bytes m (dst + w) (tx @ [0]) x"
    if "x \<notin> region buf 20" for x
  proof -
    have "x \<notin> region buf (length (tx @ [0]))" using that sub by auto
    then have "?m x = m x" by (rule store_bytes_outside)
    then show ?thesis by (rule store_bytes_cong)
  qed
  ultimately show ?thesis using assms(1,5,6) by (simp add: copy_number_def copy_out_def strcpy_with_len_def)
qed


lemma store_text_step:
  assumes "zs = [] \<or> zs = [0]"
  shows "store_bytes (store_bytes m a (xs @ zs)) (a + of_nat (length xs)) (ys @ [0]) = store_bytes m a (xs @ ys @ [0])"
  using assms store_bytes_chain [of "ys @ [0]" m a xs 0] by (auto simp: store_bytes_append)

lemma sprintf_directive_step:
  assumes raw: "20 \<le> length raw" and buf: "buf \<noteq> NULL" "dst + w \<noteq> NULL"
    and d: "m fa = d" "fa \<in> F"
    and str: "\<lbrakk>d = 115; args a \<noteq> NULL\<rbrakk> \<Longrightarrow> cstr m (args a) (strs a) \<and> region (args a) (Suc (length (strs a))) \<subseteq> F"
    and out: "render args strs a [37, d] = tx" "a' = (if d \<in> {100, 117, 120, 88, 115, 99} then a + 1 else a)"
    and sep: "region (dst + w) (Suc (length tx)) \<inter> region buf 20 = {}" "region (dst + w) (Suc (length tx)) \<inter> F = {}"
  shows "\<exists>m' zs. sprintf_directive raw args buf dst m w a fa = Some (Inr (m', w + of_nat (length tx), a')) \<and>
    (zs = [] \<or> zs = [0]) \<and> (\<forall>x. x \<notin> region buf 20 \<longrightarrow> m' x = store_bytes m (dst + w) (tx @ zs) x)"
proof -
  consider (i) "d = 100" | (u) "d = 117" | (x) "d = 120 \<or> d = 88" | (n) "d = 115" "args a = NULL"
    | (s) "d = 115" "args a \<noteq> NULL" | (c) "d = 99" | (o) "d \<notin> {100, 117, 120, 88, 115, 99}" by auto
  then show ?thesis
  proof cases
    case i
    have t: "tx = int_text (args a)" using i out by auto
    have "\<exists>m'. copy_number (int2str raw m buf (args a)) buf dst w a' = Some (Inr (m', w + of_nat (length tx), a')) \<and>
      (\<forall>x. x \<notin> region buf 20 \<longrightarrow> m' x = store_bytes m (dst + w) (tx @ [0]) x)"
      unfolding t
      by (rule copy_number_step [OF int2str_text [OF raw buf(1)]])
         (use t sep buf int_text_nonzero int_text_length(1) [of "args a"] in auto)
    then show ?thesis using i d out by (auto simp: sprintf_directive_def)
  next
    case u
    have t: "tx = dec_text (unat (args a))" using u out by auto
    have "\<exists>m'. copy_number (uint2str raw m buf (args a)) buf dst w a' = Some (Inr (m', w + of_nat (length tx), a')) \<and>
      (\<forall>x. x \<notin> region buf 20 \<longrightarrow> m' x = store_bytes m (dst + w) (tx @ [0]) x)"
      unfolding t
      by (rule copy_number_step [OF uint2str_text [OF raw buf(1)]])
         (use t sep buf dec_text_nonzero int_text_length(2) [of "args a"] in auto)
    then show ?thesis using u d out by (auto simp: sprintf_directive_def)
  next
    case x
    have t: "tx = hex_text (unat (args a))" using x out by auto
    have "\<exists>m'. copy_number (int2hex raw m buf (args a)) buf dst w a' = Some (Inr (m', w + of_nat (length tx), a')) \<and>
      (\<forall>x. x \<notin> region buf 20 \<longrightarrow> m' x = store_bytes m (dst + w) (tx @ [0]) x)"
      unfolding t
      by (rule copy_number_step [OF int2hex_text [OF raw buf(1)]])
         (use t sep buf hex_text_nonzero int_text_length(3) [of "args a"] in auto)
    then show ?thesis using x d out by (auto simp: sprintf_directive_def)
  next
    case n
    have t: "tx = null_text" using n out by simp
    have "copy_from m (dst + w) [40, 110, 117, 108, 108, 41, 0] 0 = store_bytes m (dst + w) (tx @ [0])"
      unfolding t null_text_def by (subst copy_from_eq) simp_all
    then have "sprintf_directive raw args buf dst m w a fa = Some (Inr (store_bytes m (dst + w) (tx @ [0]), w + of_nat (length tx), a'))"
      using n d(1) out(2) buf by (simp add: sprintf_directive_def t null_text_def)
    then show ?thesis by blast
  next
    case s
    have t: "tx = strs a" using s out by simp
    have "strcpy_loop m (dst + w) (args a) 0 = Some (of_nat (length tx), store_bytes m (dst + w) (tx @ [0]))"
      using strcpy_loop_cstr [of m "args a" 0 tx "dst + w"] str [OF s] sep(2) t by auto
    then have "sprintf_directive raw args buf dst m w a fa = Some (Inr (store_bytes m (dst + w) (tx @ [0]), w + of_nat (length tx), a'))"
      using s d(1) out(2) buf by (simp add: sprintf_directive_def copy_out_def strcpy_with_len_def)
    then show ?thesis by blast
  next
    case c
    then show ?thesis using d out
      by (intro exI [of _ "store_bytes m (dst + w) tx"] exI [of _ "[]"]) (auto simp: sprintf_directive_def)
  next
    case o
    show ?thesis
    proof (cases "d = 37")
      case True
      then show ?thesis using d out
        by (intro exI [of _ "store_bytes m (dst + w) tx"] exI [of _ "[]"]) (auto simp: sprintf_directive_def)
    next
      case False
      have t: "tx = [37, d]" using o False out by auto
      have "dst + w \<noteq> fa" using sep(2) d(2) by (auto simp: region_Suc)
      then show ?thesis using o d out t False
        by (intro exI [of _ "store_bytes m (dst + w) tx"] exI [of _ "[]"]) (auto simp: sprintf_directive_def algebra_simps)
    qed
  qed
qed


text \<open>
  What the loop needs of memory: the format and the string arguments stand in \<open>F\<close>, and the output
  still to be written fits into \<open>Out\<close>.
\<close>

definition fmt_ok ::
  "addr set \<Rightarrow> addr set \<Rightarrow> (nat \<Rightarrow> u32) \<Rightarrow> (nat \<Rightarrow> u8 list) \<Rightarrow> addr \<Rightarrow> addr \<Rightarrow> byte_mem \<Rightarrow> u32 \<Rightarrow> u32 \<Rightarrow> nat \<Rightarrow> u8 list \<Rightarrow> bool" where
  "fmt_ok F Out args strs dst format m i w a fmt \<longleftrightarrow>
     cstr m (format + i) fmt \<and> region (format + i) (Suc (length fmt)) \<subseteq> F \<and>
     (\<forall>k\<in>set (string_args a fmt). args k \<noteq> NULL \<longrightarrow>
        cstr m (args k) (strs k) \<and> region (args k) (Suc (length (strs k))) \<subseteq> F) \<and>
     region (dst + w) (Suc (length (render args strs a fmt))) \<subseteq> Out"

lemma cstr_append: "cstr m a (xs @ ys) \<Longrightarrow> cstr m (a + of_nat (length xs)) ys"
proof (induction xs arbitrary: a)
  case (Cons x xs)
  then show ?case using Cons.IH [of "a + 1"] by (simp add: ac_simps)
qed simp

lemma fmt_ok_step:
  assumes "fmt_ok F Out args strs dst format m i w a (pre @ fmt)" "\<And>x. x \<in> F \<Longrightarrow> m' x = m x"
    and "set (string_args a' fmt) \<subseteq> set (string_args a (pre @ fmt))"
    and "render args strs a (pre @ fmt) = tx @ render args strs a' fmt"
  shows "fmt_ok F Out args strs dst format m' (i + of_nat (length pre)) (w + of_nat (length tx)) a' fmt"
proof -
  note ok = assms(1) [unfolded fmt_ok_def]
  have F: "region (format + (i + of_nat (length pre))) (Suc (length fmt)) \<subseteq> F"
    using ok region_append [of "format + i" "length pre" "Suc (length fmt)"] by (auto simp: ac_simps)
  have "cstr m (format + (i + of_nat (length pre))) fmt" using ok cstr_append [of m "format + i" pre fmt] by (simp add: ac_simps)
  then have "cstr m' (format + (i + of_nat (length pre))) fmt"
    using F assms(2) by (subst cstr_cong [where m = m]) auto
  moreover have "args k \<noteq> NULL \<longrightarrow> cstr m' (args k) (strs k) \<and> region (args k) (Suc (length (strs k))) \<subseteq> F"
    if "k \<in> set (string_args a' fmt)" for k
  proof (intro impI)
    assume "args k \<noteq> NULL"
    then have "cstr m (args k) (strs k)" "region (args k) (Suc (length (strs k))) \<subseteq> F" using ok that assms(3) by blast+
    then show "cstr m' (args k) (strs k) \<and> region (args k) (Suc (length (strs k))) \<subseteq> F"
      using assms(2) by (subst cstr_cong [where m = m]) auto
  qed
  moreover have "region (dst + (w + of_nat (length tx))) (Suc (length (render args strs a' fmt))) \<subseteq> Out"
    using ok assms(4) region_append [of "dst + w" "length tx" "Suc (length (render args strs a' fmt))"]
    by (auto simp: ac_simps)
  ultimately show ?thesis using F by (simp add: fmt_ok_def)
qed


text \<open>One turn of the loop on a plain character and on a directive.\<close>

lemma memset_buf:
  assumes "F \<inter> region buf 20 = {}"
  shows "x \<notin> region buf 20 \<Longrightarrow> memset_loop m buf v 0 20 x = m x" "x \<in> F \<Longrightarrow> memset_loop m buf v 0 20 x = m x"
  using memset_loop_outside [of x buf 0 20 m v] assms by auto

lemma sprintf_plain_step:
  assumes buf: "buf \<noteq> NULL" and sep: "F \<inter> region buf 20 = {}" "F \<inter> Out = {}"
    and ok: "fmt_ok F Out args strs dst format m i w a (c # cs)" and c: "c \<noteq> 37"
  shows "\<exists>m1. sprintf_loop raw args buf dst format m i w a = sprintf_loop raw args buf dst format m1 (i + 1) (w + 1) a \<and>
    fmt_ok F Out args strs dst format m1 (i + 1) (w + 1) a cs \<and>
    (\<forall>x. x \<notin> region buf 20 \<longrightarrow> m1 x = store_bytes m (dst + w) [c] x)"
proof -
  let ?m = "memset_loop m buf 0 0 20" and ?m1 = "(memset_loop m buf 0 0 20)(dst + w := c)"
  note okd = ok [unfolded fmt_ok_def] and ms = memset_buf [OF sep(1), of _ m 0]
  have out: "dst + w \<in> Out" using okd by (auto simp: region_Suc)
  have r: "render args strs a (c # cs) = [c] @ render args strs a cs" and
    sa: "string_args a (c # cs) = string_args a cs" using c by (cases cs; simp)+
  have "fmt_ok F Out args strs dst format ?m1 (i + of_nat (length [c])) (w + of_nat (length [c])) a cs"
    by (rule fmt_ok_step [where m = m and a = a and tx = "[c]"]) (use ok r sa ms out sep(2) in auto)
  moreover have "m (format + i) = c" "c \<noteq> 0" "?m (format + i) = c" using okd ms(2) [of "format + i"] by (auto simp: region_Suc)
  then have "sprintf_loop raw args buf dst format m i w a = sprintf_loop raw args buf dst format ?m1 (i + 1) (w + 1) a"
    using buf c by (subst sprintf_loop.simps) (simp add: memset_def)
  moreover have "?m1 x = store_bytes m (dst + w) [c] x" if "x \<notin> region buf 20" for x using ms(1) [OF that] by simp
  ultimately show ?thesis by (intro exI [of _ ?m1]) simp
qed

lemma sprintf_percent_step:
  assumes raw: "20 \<le> length raw" and buf: "buf \<noteq> NULL" "NULL \<notin> Out"
    and sep: "F \<inter> region buf 20 = {}" "F \<inter> Out = {}" "Out \<inter> region buf 20 = {}"
    and ok: "fmt_ok F Out args strs dst format m i w a ([37, d] @ ds)"
  shows "\<exists>m1 zs tx a'. sprintf_loop raw args buf dst format m i w a =
      sprintf_loop raw args buf dst format m1 (i + 2) (w + of_nat (length tx)) a' \<and>
    fmt_ok F Out args strs dst format m1 (i + 2) (w + of_nat (length tx)) a' ds \<and>
    render args strs a ([37, d] @ ds) = tx @ render args strs a' ds \<and> (zs = [] \<or> zs = [0]) \<and>
    (\<forall>x. x \<notin> region buf 20 \<longrightarrow> m1 x = store_bytes m (dst + w) (tx @ zs) x)"
proof -
  let ?m = "memset_loop m buf 0 0 20"
  note okd = ok [unfolded fmt_ok_def] and ms = memset_buf [OF sep(1), of _ m 0]
  have p: "m (format + i) = 37" "format + i \<in> F" and d: "m (format + (i + 1)) = d" "d \<noteq> 0" "format + (i + 1) \<in> F"
    using okd by (auto simp: ac_simps region_Suc)
  have out: "dst + w \<noteq> NULL" using okd buf(2) by (auto simp: region_Suc)
  define tx where "tx = render args strs a [37, d]"
  define a' where "a' = (if d \<in> {100, 117, 120, 88, 115, 99} then a + 1 else a)"
  have r: "render args strs a ([37, d] @ ds) = tx @ render args strs a' ds" by (auto simp: tx_def a'_def)
  have sa: "set (string_args a' ds) \<subseteq> set (string_args a ([37, d] @ ds))" by (auto simp: a'_def)
  have reg: "region (dst + w) (Suc (length tx)) \<subseteq> Out"
    using okd r region_mono [of "Suc (length tx)" "Suc (length (render args strs a ([37, d] @ ds)))" "dst + w"] by auto
  have str: "cstr ?m (args a) (strs a) \<and> region (args a) (Suc (length (strs a))) \<subseteq> F" if "d = 115" "args a \<noteq> NULL"
  proof -
    have "a \<in> set (string_args a ([37, d] @ ds))" using that(1) by simp
    then have "cstr m (args a) (strs a)" "region (args a) (Suc (length (strs a))) \<subseteq> F" using okd that(2) by blast+
    then show ?thesis using ms(2) by (subst cstr_cong [where m = m]) auto
  qed
  have md: "?m (format + (i + 1)) = d" using ms(2) d by simp
  have s: "region (dst + w) (Suc (length tx)) \<inter> region buf 20 = {}" "region (dst + w) (Suc (length tx)) \<inter> F = {}"
    using reg sep by blast+
  from sprintf_directive_step [OF raw buf(1) out md d(3) str tx_def [symmetric] a'_def s]
  obtain m1 zs where m1: "sprintf_directive raw args buf dst ?m w a (format + (i + 1)) = Some (Inr (m1, w + of_nat (length tx), a'))"
    "zs = [] \<or> zs = [0]" "\<forall>x. x \<notin> region buf 20 \<longrightarrow> m1 x = store_bytes ?m (dst + w) (tx @ zs) x" by blast
  have m1': "m1 x = store_bytes m (dst + w) (tx @ zs) x" if "x \<notin> region buf 20" for x
    using m1(3) that store_bytes_cong [of ?m x m, OF ms(1) [OF that]] by simp
  have "m1 x = m x" if "x \<in> F" for x
  proof -
    have "region (dst + w) (length (tx @ zs)) \<subseteq> Out"
      using m1(2) reg by (intro subset_trans [OF region_mono reg]) auto
    then have "x \<notin> region (dst + w) (length (tx @ zs))" using that sep(2) by blast
    moreover have "x \<notin> region buf 20" using that sep(1) by blast
    ultimately show ?thesis using m1' store_bytes_outside by simp
  qed
  then have "fmt_ok F Out args strs dst format m1 (i + of_nat (length [37, d])) (w + of_nat (length tx)) a' ds"
    using fmt_ok_step [OF ok _ sa r] by blast
  moreover have "sprintf_loop raw args buf dst format m i w a =
      sprintf_loop raw args buf dst format m1 (i + 2) (w + of_nat (length tx)) a'"
    using m1(1) p ms(2) [of "format + i"] md d buf by (subst sprintf_loop.simps) (simp add: memset_def)
  ultimately show ?thesis using m1' m1(2) r by auto
qed

lemma sprintf_loop_render:
  assumes raw: "20 \<le> length raw" and buf: "buf \<noteq> NULL" "NULL \<notin> Out"
    and sep: "F \<inter> region buf 20 = {}" "F \<inter> Out = {}" "Out \<inter> region buf 20 = {}"
    and ok: "fmt_ok F Out args strs dst format m i w a fmt"
  shows "\<exists>m'. sprintf_loop raw args buf dst format m i w a = Some (Inr m') \<and>
    (\<forall>x. x \<notin> region buf 20 \<longrightarrow> m' x = store_bytes m (dst + w) (render args strs a fmt @ [0]) x)"
  using ok
proof (induction "length fmt" arbitrary: m i w a fmt rule: less_induct)
  case less
  have step: ?case
    if fmt: "length fmt' < length fmt" "sprintf_loop raw args buf dst format m i w a =
        sprintf_loop raw args buf dst format m1 i' (w + of_nat (length tx)) a'"
      "fmt_ok F Out args strs dst format m1 i' (w + of_nat (length tx)) a' fmt'"
      "render args strs a fmt = tx @ render args strs a' fmt'" "zs = [] \<or> zs = [0]"
      "\<forall>x. x \<notin> region buf 20 \<longrightarrow> m1 x = store_bytes m (dst + w) (tx @ zs) x" for fmt' m1 i' tx a' zs
  proof -
    obtain m' where m': "sprintf_loop raw args buf dst format m1 i' (w + of_nat (length tx)) a' = Some (Inr m')"
      "\<forall>x. x \<notin> region buf 20 \<longrightarrow> m' x = store_bytes m1 (dst + (w + of_nat (length tx))) (render args strs a' fmt' @ [0]) x"
      using less.hyps [OF fmt(1,3)] by blast
    have "m' x = store_bytes m (dst + w) (render args strs a fmt @ [0]) x" if x: "x \<notin> region buf 20" for x
    proof -
      have "m1 x = store_bytes m (dst + w) (tx @ zs) x" using fmt(6) x by blast
      note c = store_bytes_cong [of m1 x "store_bytes m (dst + w) (tx @ zs)", OF this]
      have "m' x = store_bytes m1 (dst + w + of_nat (length tx)) (render args strs a' fmt' @ [0]) x"
        using m'(2) x by (simp add: add.assoc)
      also have "\<dots> = store_bytes (store_bytes m (dst + w) (tx @ zs)) (dst + w + of_nat (length tx)) (render args strs a' fmt' @ [0]) x"
        by (rule c)
      finally have "m' x = \<dots>" .
      then show ?thesis using store_text_step [OF fmt(5)] fmt(4) by simp
    qed
    then show ?thesis using m'(1) fmt(2) by auto
  qed
  show ?case
  proof (cases "fmt = [] \<or> fmt = [37]")
    case True
    then show ?thesis
    proof
      assume "fmt = []"
      then show ?thesis using less.prems by (subst sprintf_loop.simps) (simp add: fmt_ok_def)
    next
      assume f: "fmt = [37]"
      note okd = less.prems [unfolded fmt_ok_def f] and ms = memset_buf [OF sep(1), of _ m 0]
      have "m (format + i) = 37" "m (format + (i + 1)) = 0" "format + i \<in> F" "format + (i + 1) \<in> F"
        using okd by (auto simp: region_Suc ac_simps)
      then have "sprintf_loop raw args buf dst format m i w a = Some (Inr ((memset_loop m buf 0 0 20)(dst + w := 0)))"
        using buf(1) ms(2) by (subst sprintf_loop.simps) (simp add: memset_def)
      then show ?thesis using f ms(1) by simp
    qed
  next
    case False
    then consider c cs where "fmt = c # cs" "c \<noteq> 37" | d ds where "fmt = [37, d] @ ds"
      by (cases fmt rule: remdups_adj.cases) auto
    then show ?thesis
    proof cases
      case 1
      have r: "render args strs a fmt = [c] @ render args strs a cs" using 1 by (cases cs) auto
      from sprintf_plain_step [OF buf(1) sep(1,2) less.prems [unfolded 1(1)] 1(2), of raw] obtain m1 where
        m1: "sprintf_loop raw args buf dst format m i w a = sprintf_loop raw args buf dst format m1 (i + 1) (w + 1) a"
        "fmt_ok F Out args strs dst format m1 (i + 1) (w + 1) a cs"
        "\<forall>x. x \<notin> region buf 20 \<longrightarrow> m1 x = store_bytes m (dst + w) [c] x" by blast
      show ?thesis by (rule step [of cs m1 "i + 1" "[c]" a "[]"]) (use 1(1) r m1 in simp_all)
    next
      case 2
      from sprintf_percent_step [OF raw buf sep less.prems [unfolded 2]] obtain m1 zs tx a' where
        "sprintf_loop raw args buf dst format m i w a = sprintf_loop raw args buf dst format m1 (i + 2) (w + of_nat (length tx)) a'"
        "fmt_ok F Out args strs dst format m1 (i + 2) (w + of_nat (length tx)) a' ds"
        "render args strs a ([37, d] @ ds) = tx @ render args strs a' ds" "zs = [] \<or> zs = [0]"
        "\<forall>x. x \<notin> region buf 20 \<longrightarrow> m1 x = store_bytes m (dst + w) (tx @ zs) x" by blast
      then show ?thesis by (intro step [of ds m1 "i + 2" tx a' zs]) (simp_all only: 2, simp)
    qed
  qed
qed

text \<open>C39: \<^verbatim>\<open>sprintf\<close> terminates, and apart from its scratch buffer it changes memory exactly by
  writing the rendered format and a terminating zero at the destination: decimal, unsigned,
  hexadecimal, string (with a null pointer as \<^verbatim>\<open>(null)\<close>), character and percent directives, unknown
  directives copied literally. The format and the string arguments must not overlap the output or the
  scratch buffer.\<close>

theorem sprintf_renders:
  assumes "20 \<le> length raw" "buf \<noteq> NULL" "NULL \<notin> Out"
    and "F \<inter> region buf 20 = {}" "F \<inter> Out = {}" "Out \<inter> region buf 20 = {}"
    and "cstr m format fmt" "region format (Suc (length fmt)) \<subseteq> F"
    and "\<forall>k\<in>set (string_args 0 fmt). args k \<noteq> NULL \<longrightarrow>
      cstr m (args k) (strs k) \<and> region (args k) (Suc (length (strs k))) \<subseteq> F"
    and "region dst (Suc (length (render args strs 0 fmt))) \<subseteq> Out"
  shows "\<exists>m'. sprintf raw args buf m dst format = Some (Inr m') \<and>
    (\<forall>x. x \<notin> region buf 20 \<longrightarrow> m' x = store_bytes m dst (render args strs 0 fmt @ [0]) x)"
  using sprintf_loop_render [of raw buf Out F args strs dst format m 0 0 0 fmt] assms
  by (simp add: sprintf_def fmt_ok_def)

theorem sprintf_renders_witness:
  "\<exists>m'. sprintf (replicate 20 7) (\<lambda>k. if k = 0 then - 12 else NULL) 0x3000
      ((\<lambda>_. 0)(0x1000 := 37, 0x1001 := 100, 0x1002 := 33)) 0x2000 0x1000 = Some (Inr m') \<and>
    (\<forall>x. x \<notin> region 0x3000 20 \<longrightarrow> m' x =
       store_bytes ((\<lambda>_. 0)(0x1000 := 37, 0x1001 := 100, 0x1002 := 33)) 0x2000
         (int_text (- 12) @ [33, 0]) x)"
proof -
  let ?args = "\<lambda>k :: nat. if k = 0 then - 12 else NULL :: u32"
  let ?m = "(\<lambda>_. 0)(0x1000 := 37, 0x1001 := 100, 0x1002 := 33) :: byte_mem"
  have r: "render ?args (\<lambda>_. []) 0 [37, 100, 33] = int_text (- 12) @ [33]" by simp
  have l: "length (int_text (- 12) @ [33]) \<le> 12" using int_text_length(1) [of "- 12"] by simp
  have reg: "region a n = set (map (\<lambda>k. a + of_nat k) [0..<n])" for a n by (auto simp: region_def)
  have n: "[0..<20] = [0, 1, 2, 3, 4, 5, 6, 7, 8, 9, 10, 11, 12, 13, 14, 15, 16, 17, 18, 19 :: nat]"
    "[0..<13] = [0, 1, 2, 3, 4, 5, 6, 7, 8, 9, 10, 11, 12 :: nat]" "[0..<4] = [0, 1, 2, 3 :: nat]"
    by (simp_all add: upt_rec)
  have "region 0x2000 (Suc (length (render ?args (\<lambda>_. []) 0 [37, 100, 33]))) \<subseteq> region 0x2000 13"
    unfolding r using l by (intro region_mono) simp
  then show ?thesis
    using sprintf_renders [where raw = "replicate 20 7" and buf = "0x3000" and Out = "region 0x2000 13" and
        F = "region 0x1000 4" and m = ?m and format = "0x1000" and fmt = "[37, 100, 33]" and args = ?args and
        strs = "\<lambda>_. []" and dst = "0x2000"]
    by (simp add: reg n)
qed

section \<open>Numbers and strings: what callers see\<close>

lemma region_zero: "region (0x2000 :: addr) (Suc 1) = {0x2000, 0x2001}" "region (0x1000 :: addr) (Suc 1) = {0x1000, 0x1001}"
  by (auto simp: region_Suc numeral_2_eq_2)

text \<open>\<^verbatim>\<open>int2str\<close>, \<^verbatim>\<open>uint2str\<close> and \<^verbatim>\<open>int2hex\<close> write a zero-terminated text of the
  returned length whose reading (signed decimal, unsigned decimal, hexadecimal after 0x) is the number
  given, for every 32-bit value including the most negative one; the text has at most 11 characters, so
  the 20-byte buffer of \<^verbatim>\<open>sprintf\<close> holds it, and nothing outside it changes.\<close>

lemma numbers_read_back:
  assumes "20 \<le> length raw" "dst \<noteq> NULL"
  shows "(\<exists>bs m'. int2str raw m dst num = Inr (of_nat (length bs), m') \<and> cstr m' dst bs \<and> int_value bs = sint num \<and>
      length bs \<le> 11 \<and> (\<forall>x. x \<notin> region dst (Suc (length bs)) \<longrightarrow> m' x = m x))
  \<and> (\<exists>bs m'. uint2str raw m dst num = Inr (of_nat (length bs), m') \<and> cstr m' dst bs \<and> dec_value bs = unat num \<and>
      length bs \<le> 10 \<and> (\<forall>x. x \<notin> region dst (Suc (length bs)) \<longrightarrow> m' x = m x))
  \<and> (\<exists>bs m'. int2hex raw m dst num = Inr (of_nat (length bs), m') \<and> cstr m' dst bs \<and> hex_value bs = unat num \<and>
      length bs \<le> 10 \<and> (\<forall>x. x \<notin> region dst (Suc (length bs)) \<longrightarrow> m' x = m x))"
proof (intro conjI)
  have st: "cstr (store_bytes m dst (bs @ [0])) dst bs \<and>
    (\<forall>x. x \<notin> region dst (Suc (length bs)) \<longrightarrow> store_bytes m dst (bs @ [0]) x = m x)"
    if "\<And>b. b \<in> set bs \<Longrightarrow> b \<noteq> 0" "length bs \<le> 11" for bs
    using that store_bytes_cstr [of bs m dst] store_bytes_outside [of _ dst "bs @ [0]" m] by auto
  show "\<exists>bs m'. int2str raw m dst num = Inr (of_nat (length bs), m') \<and> cstr m' dst bs \<and> int_value bs = sint num \<and>
      length bs \<le> 11 \<and> (\<forall>x. x \<notin> region dst (Suc (length bs)) \<longrightarrow> m' x = m x)"
    using st [of "int_text num", OF int_text_nonzero int_text_length(1)] int_text_length(1) [of num]
    by (intro exI [of _ "int_text num"] exI [of _ "store_bytes m dst (int_text num @ [0])"])
       (simp add: int2str_text [OF assms] int_value_text)
  have l: "length (dec_text (unat num)) \<le> 11" "length (hex_text (unat num)) \<le> 11"
    using int_text_length(2,3) [of num] by simp_all
  show "\<exists>bs m'. uint2str raw m dst num = Inr (of_nat (length bs), m') \<and> cstr m' dst bs \<and> dec_value bs = unat num \<and>
      length bs \<le> 10 \<and> (\<forall>x. x \<notin> region dst (Suc (length bs)) \<longrightarrow> m' x = m x)"
    using st [of "dec_text (unat num)", OF dec_text_nonzero l(1)] int_text_length(2) [of num]
    by (intro exI [of _ "dec_text (unat num)"] exI [of _ "store_bytes m dst (dec_text (unat num) @ [0])"])
       (simp add: uint2str_text [OF assms] dec_value_text)
  show "\<exists>bs m'. int2hex raw m dst num = Inr (of_nat (length bs), m') \<and> cstr m' dst bs \<and> hex_value bs = unat num \<and>
      length bs \<le> 10 \<and> (\<forall>x. x \<notin> region dst (Suc (length bs)) \<longrightarrow> m' x = m x)"
    using st [of "hex_text (unat num)", OF hex_text_nonzero l(2)] int_text_length(3) [of num]
    by (intro exI [of _ "hex_text (unat num)"] exI [of _ "store_bytes m dst (hex_text (unat num) @ [0])"])
       (simp add: int2hex_text [OF assms] hex_value_text)
qed

text \<open>\<^verbatim>\<open>strcpy_with_len\<close> of a string to a region that does not overlap it returns its
  length, leaves a copy at the destination and the source as it was, and changes nothing else; the
  user-space version does the same.\<close>

lemma strcpy_copies:
  assumes "dest \<noteq> NULL" "src \<noteq> NULL" "cstr m src bs" "length bs < 4294967296"
    and "region dest (Suc (length bs)) \<inter> region src (Suc (length bs)) = {}"
  shows "\<exists>m'. strcpy_with_len m dest src = Some (Inr (of_nat (length bs), m')) \<and>
    user_strcpy_with_len m dest src = Some (of_nat (length bs), m') \<and>
    cstr m' dest bs \<and> cstr m' src bs \<and> (\<forall>x. x \<notin> region dest (Suc (length bs)) \<longrightarrow> m' x = m x)"
proof -
  let ?m = "store_bytes m dest (bs @ [0])"
  have nz: "cstr m a xs \<Longrightarrow> \<forall>b\<in>set xs. b \<noteq> 0" for a xs by (induction xs arbitrary: a) auto
  have o: "?m x = m x" if "x \<notin> region dest (Suc (length bs))" for x
    using that store_bytes_outside [of x dest "bs @ [0]" m] by simp
  have "cstr ?m src bs" using assms(3,5) o by (subst cstr_cong [where m = m]) auto
  moreover have "cstr ?m dest bs" using nz [OF assms(3)] assms(4) by (rule store_bytes_cstr)
  moreover have "strcpy_loop m dest src 0 = Some (of_nat (length bs), ?m)"
    using strcpy_loop_cstr [of m src 0 bs dest] assms(3,5) by simp
  ultimately show ?thesis using assms(1,2) o by (intro exI [of _ ?m]) (simp add: strcpy_with_len_def user_strcpy_with_len_def)
qed

text \<open>C40: On two strings in memory \<^verbatim>\<open>strcmp\<close> terminates with the order of the strings by their
  first difference, signed characters: zero exactly when they are equal, and the opposite sign when the
  arguments are exchanged; \<^verbatim>\<open>strlen\<close> returns the length; the user-space versions agree.\<close>

theorem strcmp_orders:
  assumes "a \<noteq> NULL" "b \<noteq> NULL" "cstr m a xs" "cstr m b ys"
  shows "\<exists>r. strcmp m a b = Some (Inr r) \<and> r = str_order xs ys \<and> (r = 0 \<longleftrightarrow> xs = ys) \<and>
    strcmp m b a = Some (Inr (- r)) \<and> user_strcmp m a b = Some r \<and>
    strlen m a = Some (Inr (of_nat (length xs))) \<and> user_strlen m a = Some (of_nat (length xs))"
  using strcmp_loop_cstr [of m a 0 xs b ys] strcmp_loop_cstr [of m b 0 ys a xs] strlen_loop_cstr [of m a 0 xs] assms
    str_order_eq_0 [of xs ys] str_order_antisym [of ys xs]
  by (simp add: strcmp_def user_strcmp_def strlen_def user_strlen_def)

theorem strcmp_orders_witness:
  "strcmp ((\<lambda>_. 0)(0x1000 := 65, 0x2000 := 66)) 0x2000 0x1000 = Some (Inr 1)"
  using strcmp_orders [of "0x2000" "0x1000" "(\<lambda>_. 0)(0x1000 := 65, 0x2000 := 66)" "[66]" "[65]"] by auto

end
