(* ===== verification/Simple_Fs.thy ===== *)
theory Simple_Fs
  imports Hard_Disk Stdlib
begin

text \<open>
  The older file system, \<^verbatim>\<open>src/src/fs/simple_fs.c\<close>: a number of files, their descriptions and their contents one after the other
  from sector 2057 on. The kernel no longer mounts it, but it is compiled in. File names are byte strings without the terminating zero;
  the array of descriptions is the list of its bytes, the result -1 is \<open>None\<close>, and printing is the list of lines.
\<close>

section \<open>State and operations\<close>

text \<open>One description has 72 bytes: 64 of the name, the size and the position.\<close>

record simple_file_meta_t =
  filename :: "u8 list"
  file_size :: u32
  file_offset :: u32

record simple_fs =
  partition_offset :: u32
  file_nums :: u32
  file_metas :: "u8 list"

text \<open>\<^verbatim>\<open>file_metas + i\<close>; the name ends at its first zero byte, as \<^verbatim>\<open>strcmp\<close> and \<^verbatim>\<open>%s\<close> read it.\<close>

definition meta_at :: "simple_fs \<Rightarrow> nat \<Rightarrow> simple_file_meta_t" where
  "meta_at fs i =
     (let bs = drop (72 * i) (file_metas fs)
      in \<lparr>filename = takeWhile (\<lambda>b. b \<noteq> 0) bs, file_size = dec32 (take 4 (drop 64 bs)), file_offset = dec32 (take 4 (drop 68 bs))\<rparr>)"

definition simple_fs_stat_file :: "simple_fs \<Rightarrow> u8 list \<Rightarrow> u32 option" where
  "simple_fs_stat_file fs name =
     map_option (\<lambda>i. file_size (meta_at fs i)) (List.find (\<lambda>i. filename (meta_at fs i) = name) [0..<unat (file_nums fs)])"

text \<open>The loop \<^verbatim>\<open>while ((size /= 10) > 0) length++\<close>.\<close>

function size_length :: "u32 \<Rightarrow> u32 \<Rightarrow> u32" where
  "size_length sz len = (let sz = sz div 10 in if sz > 0 then size_length sz (len + 1) else len)"
  by pat_completeness auto
termination
proof (relation "measure (\<lambda>(sz, len). unat sz)", goal_cases)
  case (2 sz len x)
  then have "0 < unat sz div 10" by (simp add: unat_div word_less_nat_alt)
  then show ?case using 2 by (simp add: unat_div)
qed simp

text \<open>\<^verbatim>\<open>"root  "\<close>, the padding and \<^verbatim>\<open>"%d  %s\n"\<close>.\<close>

definition list_line :: "u32 \<Rightarrow> simple_file_meta_t \<Rightarrow> u8 list" where
  "list_line max_length meta =
     [114, 111, 111, 116, 32, 32] @ replicate (unat (max_length - size_length (file_size meta) 1)) 32 @
     int_text (file_size meta) @ [32, 32] @ filename meta @ [10]"

definition simple_fs_list_dir :: "simple_fs \<Rightarrow> u8 list list" where
  "simple_fs_list_dir fs =
     (let metas = map (meta_at fs) [0..<unat (file_nums fs)];
          max_length = fold (\<lambda>meta m. max m (size_length (file_size meta) 1)) metas 0
      in map (list_line max_length) metas)"

text \<open>The loop has no exit: the last file of the name counts. The length is cut to the size of the file whatever \<open>start\<close> is.\<close>

definition simple_fs_read_data :: "disks \<Rightarrow> simple_fs \<Rightarrow> u8 list \<Rightarrow> u32 \<Rightarrow> u32 \<Rightarrow> u8 list option kres" where
  "simple_fs_read_data ds fs name start len =
     (case fold (\<lambda>i m. if filename (meta_at fs i) = name then Some i else m) [0..<unat (file_nums fs)] None of
        None \<Rightarrow> Inr None
      | Some i \<Rightarrow>
          let meta = meta_at fs i; offset = partition_offset fs + file_offset meta + start; size = file_size meta;
              len = (if len > size then size else len)
          in kbind (read_hard_disk ds offset len True) (\<lambda>bs. Inr (Some bs)))"

definition simple_fs_write_data :: "u8 list \<Rightarrow> u32 \<Rightarrow> u32 \<Rightarrow> unit option" where
  "simple_fs_write_data name start len = None"

text \<open>The second part of the result are the lines printed: name, position and size of every file.\<close>

definition init_simple_fs :: "disks \<Rightarrow> (simple_fs \<times> (u8 list \<times> u32 \<times> u32) list) kres" where
  "init_simple_fs ds =
     (let offset = 2057 * SECTOR_SIZE
      in kbind (read_hard_disk ds (0 + offset) 4 True) (\<lambda>bs.
         let n = dec32 bs
         in kassert (n > 0) ''file_nums > 0''
              (if n > 1024 then Inl (Panic ''too many files, use dir!!!'')
               else
                 kbind (read_hard_disk ds (4 + offset) (n * 72) True) (\<lambda>metas.
                   let fs = \<lparr>partition_offset = offset, file_nums = n, file_metas = metas\<rparr>
                   in Inr (fs, map (\<lambda>i. (filename (meta_at fs i), file_offset (meta_at fs i), file_size (meta_at fs i))) [0..<unat n])))))"

section \<open>A disk with files\<close>

text \<open>How a description is stored.\<close>

definition enc_meta :: "simple_file_meta_t \<Rightarrow> u8 list" where
  "enc_meta e = filename e @ replicate (64 - length (filename e)) 0 @ enc32 (file_size e) @ enc32 (file_offset e)"

definition valid_meta :: "simple_file_meta_t \<Rightarrow> bool" where
  "valid_meta e \<longleftrightarrow> length (filename e) < 64 \<and> 0 \<notin> set (filename e)"

text \<open>The disk \<open>d\<close> holds the files \<open>es\<close>.\<close>

definition holds_files :: "disk \<Rightarrow> simple_file_meta_t list \<Rightarrow> bool" where
  "holds_files d es \<longleftrightarrow>
     0 < length es \<and> length es \<le> 1024 \<and> (\<forall>e\<in>set es. valid_meta e) \<and> distinct (map filename es) \<and>
     bytes_at d 1053184 4 = enc32 (of_nat (length es)) \<and> bytes_at d 1053188 (72 * length es) = concat (map enc_meta es)"

lemma enc_meta_length: "valid_meta e \<Longrightarrow> length (enc_meta e) = 72"
  by (simp add: enc_meta_def valid_meta_def c32.enc_length)

lemma meta_at_stored:
  assumes "\<forall>e\<in>set es. valid_meta e" "i < length es"
  shows "meta_at (fs\<lparr>file_metas := concat (map enc_meta es)\<rparr>) i = es ! i"
proof -
  let ?e = "es ! i"
  have v: "valid_meta ?e" using assms by simp
  have "length (concat (map enc_meta (take i es))) = 72 * i"
    using assms by (induction i) (auto simp: take_Suc_conv_app_nth enc_meta_length)
  moreover have "es = take i es @ ?e # drop (Suc i) es" using assms(2) by (simp add: id_take_nth_drop)
  then have "concat (map enc_meta es) = concat (map enc_meta (take i es)) @ enc_meta ?e @ concat (map enc_meta (drop (Suc i) es))"
    by (metis concat.simps(2) concat_append list.map(2) map_append)
  ultimately have d: "drop (72 * i) (concat (map enc_meta es)) = enc_meta ?e @ concat (map enc_meta (drop (Suc i) es))" by simp
  have "64 - length (filename ?e) = Suc (63 - length (filename ?e))" using v unfolding valid_meta_def by linarith
  then have "\<exists>z. replicate (64 - length (filename ?e)) 0 = 0 # (z :: u8 list)" by (metis replicate_Suc)
  then obtain z where z: "replicate (64 - length (filename ?e)) 0 = 0 # (z :: u8 list)" by blast
  have "takeWhile (\<lambda>b. b \<noteq> 0) (enc_meta ?e @ rest) = filename ?e" for rest
  proof -
    have "\<forall>b\<in>set (filename ?e). b \<noteq> 0" using v by (auto simp: valid_meta_def)
    then show ?thesis unfolding enc_meta_def z by (simp add: takeWhile_append2)
  qed
  moreover have "take 4 (drop 64 (enc_meta ?e @ rest)) = enc32 (file_size ?e)" "take 4 (drop 68 (enc_meta ?e @ rest)) = enc32 (file_offset ?e)" for rest
    using v by (simp_all add: enc_meta_def valid_meta_def enc32_def)
  ultimately show ?thesis by (simp add: meta_at_def d c32.dec_enc)
qed

lemma find_distinct:
  "\<lbrakk>distinct (map g xs); x \<in> set xs\<rbrakk> \<Longrightarrow> List.find (\<lambda>y. g y = g x) xs = Some x"
  by (induction xs) auto

lemma fold_last_distinct:
  "\<lbrakk>distinct (map g xs); x \<in> set xs\<rbrakk> \<Longrightarrow> fold (\<lambda>y m. if g y = g x then Some y else m) xs None = Some x"
proof (induction xs rule: rev_induct)
  case (snoc y xs)
  then show ?case by (cases "y = x") auto
qed simp

text \<open>The mounted file system.\<close>

definition mounted :: "simple_file_meta_t list \<Rightarrow> simple_fs" where
  "mounted es = \<lparr>partition_offset = 1053184, file_nums = of_nat (length es), file_metas = concat (map enc_meta es)\<rparr>"

lemma meta_at_mounted: "\<lbrakk>holds_files d es; i < length es\<rbrakk> \<Longrightarrow> meta_at (mounted es) i = es ! i"
  using meta_at_stored [of es i "mounted es"] by (simp add: holds_files_def mounted_def)

lemma init_simple_fs_mounts:
  assumes "holds_files (ds True) es"
  shows "\<exists>out. init_simple_fs ds = Inr (mounted es, out)"
proof -
  let ?n = "of_nat (length es) :: u32"
  have h: "0 < length es" "length es \<le> 1024" "bytes_at (ds True) 1053184 4 = enc32 ?n"
    "bytes_at (ds True) 1053188 (72 * length es) = concat (map enc_meta es)" using assms by (simp_all add: holds_files_def)
  have n: "unat ?n = length es" using h(2) by (intro unat_of_nat_small) simp
  have m: "unat (?n * 72) = 72 * length es" using n h(2) by (simp add: unat_word_ariths)
  have r1: "read_hard_disk ds 1053184 4 True = Inr (enc32 ?n)" using read_hard_disk_bytes [of 1053184 4 ds True] h(3) by simp
  have r2: "read_hard_disk ds 1053188 (?n * 72) True = Inr (concat (map enc_meta es))"
    using read_hard_disk_bytes [of 1053188 "?n * 72" ds True] h(2,4) m by simp
  have "?n > 0" "\<not> ?n > 1024" using n h(1,2) by (simp_all add: word_less_nat_alt)
  then show ?thesis using r1 r2 by (simp add: init_simple_fs_def SECTOR_SIZE_def Let_def c32.dec_enc mounted_def)
qed

lemma mounted_names:
  assumes "holds_files d es"
  shows "unat (file_nums (mounted es)) = length es" "distinct (map (\<lambda>i. filename (meta_at (mounted es) i)) [0..<length es])"
proof -
  show "unat (file_nums (mounted es)) = length es"
    using assms unat_of_nat_small [of "length es"] by (simp add: holds_files_def mounted_def)
  have "map (\<lambda>i. filename (meta_at (mounted es) i)) [0..<length es] = map filename es"
    by (rule nth_equalityI) (simp_all add: meta_at_mounted [OF assms])
  then show "distinct (map (\<lambda>i. filename (meta_at (mounted es) i)) [0..<length es])" using assms by (simp add: holds_files_def)
qed

text \<open>C23: A disk that holds a list of files is mounted, and every file is found under its name with its size. A read delivers bytes of the
  disk from the given position of the file on, at most as many as the size of the file: a read from the start delivers
  the file, and a read that starts inside delivers as many bytes as it asks for, up to the whole size, and so runs on behind its end. A name that is not there is refused.\<close>

theorem simple_fs_serves_files:
  assumes h: "holds_files (ds True) es"
  shows "\<exists>fs out. init_simple_fs ds = Inr (fs, out) \<and>
    (\<forall>e\<in>set es. simple_fs_stat_file fs (filename e) = Some (file_size e)) \<and>
    (\<forall>e\<in>set es. \<forall>start len. 1053184 + unat (file_offset e) + unat start + unat (file_size e) + 512 \<le> 2 ^ 32 \<longrightarrow>
       simple_fs_read_data ds fs (filename e) start len =
         Inr (Some (bytes_at (ds True) (1053184 + unat (file_offset e) + unat start) (min (unat len) (unat (file_size e)))))) \<and>
    (\<forall>name start len. name \<notin> filename ` set es \<longrightarrow> simple_fs_stat_file fs name = None \<and> simple_fs_read_data ds fs name start len = Inr None)"
proof -
  from init_simple_fs_mounts [where ds = ds, OF h] obtain out where i: "init_simple_fs ds = Inr (mounted es, out)" by blast
  note nm = mounted_names [OF h] and at = meta_at_mounted [OF h]
  have st: "simple_fs_stat_file (mounted es) (filename e) = Some (file_size e)" if e: "e \<in> set es" for e
  proof -
    obtain j where j: "j < length es" "es ! j = e" using e by (auto simp: in_set_conv_nth)
    have "List.find (\<lambda>i. filename (meta_at (mounted es) i) = filename (meta_at (mounted es) j)) [0..<length es] = Some j"
      by (rule find_distinct [OF nm(2)]) (use j(1) in simp)
    then show ?thesis unfolding simple_fs_stat_file_def nm(1) using at [OF j(1)] j(2) by simp
  qed
  have rd: "simple_fs_read_data ds (mounted es) (filename e) start len =
      Inr (Some (bytes_at (ds True) (1053184 + unat (file_offset e) + unat start) (min (unat len) (unat (file_size e)))))"
    if e: "e \<in> set es" and b: "1053184 + unat (file_offset e) + unat start + unat (file_size e) + 512 \<le> 2 ^ 32" for e start len
  proof -
    obtain j where j: "j < length es" "es ! j = e" using e by (auto simp: in_set_conv_nth)
    have f: "fold (\<lambda>i m. if filename (meta_at (mounted es) i) = filename (meta_at (mounted es) j) then Some i else m) [0..<length es] None = Some j"
      by (rule fold_last_distinct [OF nm(2)]) (use j(1) in simp)
    let ?off = "partition_offset (mounted es) + file_offset e + start" and ?len = "if len > file_size e then file_size e else len"
    have o: "unat ?off = 1053184 + unat (file_offset e) + unat start" using b by (simp add: mounted_def unat_word_ariths)
    have l: "unat ?len = min (unat len) (unat (file_size e))" by (auto simp: word_less_nat_alt)
    have "read_hard_disk ds ?off ?len True = Inr (bytes_at (ds True) (unat ?off) (unat ?len))"
      by (rule read_hard_disk_bytes) (use b o l in linarith)
    then show ?thesis unfolding simple_fs_read_data_def nm(1) using f at [OF j(1)] j(2) o l by (simp add: Let_def)
  qed
  have no: "simple_fs_stat_file (mounted es) name = None \<and> simple_fs_read_data ds (mounted es) name start len = Inr None"
    if n: "name \<notin> filename ` set es" for name start len
  proof -
    have q: "filename (meta_at (mounted es) i) \<noteq> name" if "i < length es" for i using n at [OF that] that by auto
    have "List.find (\<lambda>i. filename (meta_at (mounted es) i) = name) [0..<length es] = None" by (auto simp: find_None_iff q)
    moreover have "fold (\<lambda>i m. if filename (meta_at (mounted es) i) = name then Some i else m) xs None = None" if "set xs \<subseteq> {..<length es}" for xs
      using that by (induction xs) (auto simp: q)
    moreover have "set [0..<length es] \<subseteq> {..<length es}" by auto
    ultimately show ?thesis unfolding simple_fs_stat_file_def simple_fs_read_data_def nm(1) by simp
  qed
  show ?thesis using i st rd no by blast
qed

text \<open>One file with the name \<^verbatim>\<open>a\<close> and the contents 1, 2, 3, followed by a 9.\<close>

definition demo_file :: simple_file_meta_t where
  "demo_file = \<lparr>filename = [97], file_size = 3, file_offset = 76\<rparr>"

definition demo_files_disk :: disk where
  "demo_files_disk = put_bytes 1053184 (enc32 1 @ enc_meta demo_file @ [1, 2, 3, 9]) (\<lambda>_. 0)"

lemma demo_holds_files: "holds_files demo_files_disk [demo_file]" "bytes_at demo_files_disk 1053260 4 = [1, 2, 3, 9]"
proof -
  let ?bs = "enc32 1 @ enc_meta demo_file @ [1, 2, 3, 9 :: u8]"
  have v: "valid_meta demo_file" by (simp add: valid_meta_def demo_file_def)
  have l: "length ?bs = 80" using enc_meta_length [OF v] by (simp add: c32.enc_length)
  have w: "bytes_at demo_files_disk 1053184 80 = ?bs" unfolding demo_files_disk_def by (rule bytes_at_put_same [OF l])
  have sub: "bytes_at demo_files_disk (1053184 + k) m = take m (drop k ?bs)" if "k + m \<le> 80" for k m
    using take_drop_bytes_at [OF that, of demo_files_disk 1053184] w by simp
  have "bytes_at demo_files_disk 1053184 4 = enc32 1" "bytes_at demo_files_disk 1053188 72 = enc_meta demo_file"
    using sub [of 0 4] sub [of 4 72] enc_meta_length [OF v] by (simp_all add: enc32_def)
  then show "holds_files demo_files_disk [demo_file]" using v by (simp add: holds_files_def)
  show "bytes_at demo_files_disk 1053260 4 = [1, 2, 3, 9]" using sub [of 76 4] enc_meta_length [OF v] by (simp add: enc32_def)
qed

theorem simple_fs_serves_files_witness:
  "\<exists>fs out. init_simple_fs (\<lambda>_. demo_files_disk) = Inr (fs, out) \<and> simple_fs_stat_file fs [97] = Some 3 \<and>
     simple_fs_read_data (\<lambda>_. demo_files_disk) fs [97] 0 10 = Inr (Some [1, 2, 3]) \<and>
     simple_fs_read_data (\<lambda>_. demo_files_disk) fs [97] 1 10 = Inr (Some [2, 3, 9]) \<and>
     simple_fs_stat_file fs [98] = None"
proof -
  have b: "bytes_at demo_files_disk 1053260 3 = [1, 2, 3]" "bytes_at demo_files_disk 1053261 3 = [2, 3, 9]"
    using take_drop_bytes_at [of 0 3 4 demo_files_disk 1053260] take_drop_bytes_at [of 1 3 4 demo_files_disk 1053260]
    by (simp_all add: demo_holds_files)
  from simple_fs_serves_files [where ds = "\<lambda>_. demo_files_disk", OF demo_holds_files(1)] obtain fs out where
    r: "init_simple_fs (\<lambda>_. demo_files_disk) = Inr (fs, out)"
      "simple_fs_stat_file fs (filename demo_file) = Some (file_size demo_file)"
      "\<forall>start len. 1053184 + unat (file_offset demo_file) + unat start + unat (file_size demo_file) + 512 \<le> 2 ^ 32 \<longrightarrow>
         simple_fs_read_data (\<lambda>_. demo_files_disk) fs (filename demo_file) start len =
           Inr (Some (bytes_at demo_files_disk (1053184 + unat (file_offset demo_file) + unat start) (min (unat len) (unat (file_size demo_file)))))"
      "\<forall>name start len. name \<notin> {filename demo_file} \<longrightarrow> simple_fs_stat_file fs name = None" by auto
  show ?thesis using r(1,2) r(3) [rule_format, of 0 10] r(3) [rule_format, of 1 10] r(4) [rule_format, of "[98]"] b
    by (intro exI [of _ fs] exI [of _ out]) (simp add: demo_file_def)
qed

section \<open>The listing\<close>

text \<open>The loop computes the number of decimal digits.\<close>

lemma size_length_digits: "len + of_nat (length (dec_text (unat sz))) = size_length sz (len + 1)"
proof (induction sz "len + 1" arbitrary: len rule: size_length.induct)
  case (1 sz)
  have u: "unat (sz div 10) = unat sz div 10" by (simp add: unat_div)
  show ?case
  proof (cases "sz div 10 > 0")
    case True
    then have p: "0 < unat sz div 10" using u by (simp add: word_less_nat_alt)
    then have nz: "unat sz \<noteq> 0" "\<not> unat sz < 10" by auto
    have "length (dec_text (unat sz)) = Suc (length (dec_text (unat sz div 10)))"
      using p nz by (simp add: dec_text_def digits.simps [of 10 "unat sz"])
    then show ?thesis using 1 [OF refl, of "len + 1"] True u by (simp add: size_length.simps [of sz] algebra_simps)
  next
    case False
    then have "unat sz div 10 = 0" using u by (simp add: word_gt_0 unat_eq_zero)
    then have "length (dec_text (unat sz)) = 1" by (simp add: dec_text_def digits.simps [of 10 "unat sz"] digits.simps [of 10 0])
    then show ?thesis using False by (simp add: size_length.simps [of sz])
  qed
qed

end
