(* ===== verification/Byte_Words.thy ===== *)
theory Byte_Words
  imports Stdlib Disk_Codec
begin

text \<open>
  Words in a byte-addressed memory, little-endian as the processor stores them: what the code reads and
  writes through pointers to integers and packed structs that lie in raw memory.
\<close>

definition mem_bytes :: "byte_mem \<Rightarrow> addr \<Rightarrow> nat \<Rightarrow> u8 list" where
  "mem_bytes m a n = map (\<lambda>k. m (a + of_nat k)) [0..<n]"

definition load32 :: "byte_mem \<Rightarrow> addr \<Rightarrow> u32" where "load32 m a = dec32 (mem_bytes m a 4)"
definition load16 :: "byte_mem \<Rightarrow> addr \<Rightarrow> u16" where "load16 m a = dec16 (mem_bytes m a 2)"
definition store32 :: "byte_mem \<Rightarrow> addr \<Rightarrow> u32 \<Rightarrow> byte_mem" where "store32 m a w = store_bytes m a (enc32 w)"

lemma regionI: "k < n \<Longrightarrow> a + of_nat k \<in> region a n"
  by (auto simp: region_def)

lemma region_offset: "j + k \<le> n \<Longrightarrow> region (a + of_nat j) k \<subseteq> region a n"
  using region_append [of a j k] region_mono [of "j + k" n a] by auto

lemma region_offset_word: "unat j + k \<le> n \<Longrightarrow> region (a + j) k \<subseteq> region a n"
  using region_offset [of "unat j" k n a] by simp

lemma region_iff:
  assumes "unat a + n \<le> 4294967296"
  shows "x \<in> region a n \<longleftrightarrow> unat a \<le> unat x \<and> unat x < unat a + n"
proof
  assume "x \<in> region a n"
  then obtain k where "k < n" "x = a + of_nat k" by (auto simp: region_def)
  then show "unat a \<le> unat x \<and> unat x < unat a + n" using assms by (simp add: unat_add_of_nat)
next
  assume x: "unat a \<le> unat x \<and> unat x < unat a + n"
  then have "x = a + of_nat (unat x - unat a)" by (simp add: of_nat_diff)
  then show "x \<in> region a n" using x regionI [of "unat x - unat a" n a] by auto
qed

lemma mem_bytes_cong: "(\<And>x. x \<in> region a n \<Longrightarrow> m' x = m x) \<Longrightarrow> mem_bytes m' a n = mem_bytes m a n"
  by (simp add: mem_bytes_def regionI)

lemma not_in_own_tail:
  assumes "n < 4294967296"
  shows "a \<notin> region (a + 1) n"
proof
  assume "a \<in> region (a + 1) n"
  then obtain k where "k < n" "(of_nat (Suc k) :: addr) = 0" by (auto simp: region_def algebra_simps)
  then show False using assms unat_of_nat_small [of "Suc k"] by simp
qed

lemma store_bytes_nth:
  "\<lbrakk>k < length bs; length bs \<le> 4294967296\<rbrakk> \<Longrightarrow> store_bytes m a bs (a + of_nat k) = bs ! k"
proof (induction bs arbitrary: m a k)
  case (Cons b bs)
  show ?case
  proof (cases k)
    case 0
    then show ?thesis using Cons.prems not_in_own_tail [of "length bs" a] by (simp add: store_bytes_outside)
  next
    case (Suc j)
    then show ?thesis using Cons.IH [of j "m(a := b)" "a + 1"] Cons.prems by (simp add: algebra_simps fun_upd_def)
  qed
qed simp

lemma mem_bytes_store: "length bs \<le> 4294967296 \<Longrightarrow> mem_bytes (store_bytes m a bs) a (length bs) = bs"
  by (rule nth_equalityI) (simp_all add: mem_bytes_def store_bytes_nth)

lemma load32_store32 [simp]: "load32 (store32 m a w) a = w"
  using mem_bytes_store [of "enc32 w" m a] by (simp add: load32_def store32_def c32.enc_length c32.dec_enc)

lemma store32_outside: "x \<notin> region a 4 \<Longrightarrow> store32 m a w x = m x"
  by (simp add: store32_def store_bytes_outside c32.enc_length)

lemma load32_cong: "(\<And>x. x \<in> region a 4 \<Longrightarrow> m' x = m x) \<Longrightarrow> load32 m' a = load32 m a"
  by (simp add: load32_def mem_bytes_cong [of a 4 m' m])

lemma load16_cong: "(\<And>x. x \<in> region a 2 \<Longrightarrow> m' x = m x) \<Longrightarrow> load16 m' a = load16 m a"
  by (simp add: load16_def mem_bytes_cong [of a 2 m' m])

text \<open>\<^verbatim>\<open>memset\<close> as a store of equal bytes.\<close>

lemma memset_loop_eq: "memset_loop m dest v i n = store_bytes m (dest + of_nat i) (replicate n v)"
  by (induction m dest v i n rule: memset_loop.induct) (simp_all add: ac_simps fun_upd_def)

end
