(* ===== verification/Elf.thy ===== *)
theory Elf
  imports Byte_Words
begin

text \<open>
  The program loader, \<^verbatim>\<open>src/src/elf/elf.c\<close>. The file lies in memory at \<open>content\<close>, and the
  segments are written into the same memory; the headers are read again wherever the code reads them,
  so that a segment that overwrites the file has the effect it has in the code.
\<close>

section \<open>Headers\<close>

record elf32_ehdr_t =
  e_ident :: "u8 list"
  e_type :: u16
  e_machine :: u16
  e_version :: u32
  e_entry :: u32
  e_phoff :: u32
  e_shoff :: u32
  e_flags :: u32
  e_ehsize :: u16
  e_phentsize :: u16
  e_phnum :: u16
  e_shentsize :: u16
  e_shnum :: u16
  e_shstrndx :: u16

record elf32_phdr_t =
  p_type :: u32
  p_offset :: u32
  p_vaddr :: u32
  p_paddr :: u32
  p_filesz :: u32
  p_memsz :: u32
  p_flags :: u32
  p_align :: u32

definition PT_LOAD :: u32 where "PT_LOAD = 1"

definition elf_header :: "byte_mem \<Rightarrow> addr \<Rightarrow> elf32_ehdr_t" where
  "elf_header m a =
     \<lparr>e_ident = mem_bytes m a 16, e_type = load16 m (a + 16), e_machine = load16 m (a + 18),
      e_version = load32 m (a + 20), e_entry = load32 m (a + 24), e_phoff = load32 m (a + 28),
      e_shoff = load32 m (a + 32), e_flags = load32 m (a + 36), e_ehsize = load16 m (a + 40),
      e_phentsize = load16 m (a + 42), e_phnum = load16 m (a + 44), e_shentsize = load16 m (a + 46),
      e_shnum = load16 m (a + 48), e_shstrndx = load16 m (a + 50)\<rparr>"

definition program_header :: "byte_mem \<Rightarrow> addr \<Rightarrow> elf32_phdr_t" where
  "program_header m a =
     \<lparr>p_type = load32 m a, p_offset = load32 m (a + 4), p_vaddr = load32 m (a + 8), p_paddr = load32 m (a + 12),
      p_filesz = load32 m (a + 16), p_memsz = load32 m (a + 20), p_flags = load32 m (a + 24),
      p_align = load32 m (a + 28)\<rparr>"

section \<open>Loading\<close>

definition load_segment :: "addr \<Rightarrow> addr \<Rightarrow> byte_mem \<Rightarrow> byte_mem kres" where
  "load_segment content pa m =
     (let ph = program_header m pa
      in if p_type ph = PT_LOAD \<and> p_memsz ph > 0 then
           kbind (if p_filesz ph > 0 then memcpy m (p_vaddr ph) (content + p_offset ph) (p_filesz ph) else Inr m)
             (\<lambda>m. let ph = program_header m pa
                  in if p_memsz ph > p_filesz ph
                     then memset m (p_vaddr ph + p_filesz ph) 0 (p_memsz ph - p_filesz ph) else Inr m)
         else Inr m)"

function load_segments :: "addr \<Rightarrow> addr \<Rightarrow> nat \<Rightarrow> byte_mem \<Rightarrow> byte_mem kres" where
  "load_segments content pa i m =
     (if i < unat (e_phnum (elf_header m content)) then
        (case load_segment content pa m of
           Inl e \<Rightarrow> Inl e
         | Inr m \<Rightarrow> load_segments content (pa + ucast (e_phentsize (elf_header m content))) (Suc i) m)
      else Inr m)"
  by pat_completeness auto
termination
proof (relation "measure (\<lambda>(content, pa, i, m). 65536 - i)", goal_cases)
  case (2 content pa i m m')
  moreover have "unat (e_phnum (elf_header m content)) < 65536" using unsigned_less [of "e_phnum (elf_header m content)"] by simp
  ultimately show ?case by simp
qed simp

declare load_segments.simps [simp del]

text \<open>\<open>None\<close> is the result -1; otherwise the result is 0 and \<^verbatim>\<open>*entry_addr\<close> is the entry point.\<close>

definition load_elf :: "addr \<Rightarrow> byte_mem \<Rightarrow> (u32 option \<times> byte_mem) kres" where
  "load_elf content m =
     (let ident = e_ident (elf_header m content)
      in if ident ! 0 \<noteq> 0x7F then Inr (None, m)
         else if ident ! 1 \<noteq> 69 then Inr (None, m)
         else if ident ! 2 \<noteq> 76 then Inr (None, m)
         else if ident ! 3 \<noteq> 70 then Inr (None, m)
         else kbind (load_segments content (content + e_phoff (elf_header m content)) 0 m)
                (\<lambda>m. Inr (Some (e_entry (elf_header m content)), m)))"

section \<open>What a loaded image is\<close>

definition phdr_at :: "byte_mem \<Rightarrow> addr \<Rightarrow> nat \<Rightarrow> elf32_phdr_t" where
  "phdr_at m content i =
     (let eh = elf_header m content in program_header m (content + e_phoff eh + of_nat i * ucast (e_phentsize eh)))"

definition is_loaded :: "elf32_phdr_t \<Rightarrow> bool" where
  "is_loaded ph \<longleftrightarrow> p_type ph = PT_LOAD \<and> p_memsz ph > 0"

definition segment :: "byte_mem \<Rightarrow> addr \<Rightarrow> nat \<Rightarrow> addr set" where
  "segment m content i =
     (let ph = phdr_at m content i in if is_loaded ph then region (p_vaddr ph) (unat (p_memsz ph)) else {})"

definition elf_magic :: "byte_mem \<Rightarrow> addr \<Rightarrow> bool" where
  "elf_magic m content \<longleftrightarrow> mem_bytes m content 4 = [0x7F, 69, 76, 70]"

text \<open>
  A file of \<open>n\<close> bytes whose headers and segment data lie inside the file, whose segments do not overlap
  each other, the file or the end of the address space.
\<close>

definition segment_fits :: "byte_mem \<Rightarrow> addr \<Rightarrow> nat \<Rightarrow> elf32_phdr_t \<Rightarrow> bool" where
  "segment_fits m content n ph \<longleftrightarrow>
     p_filesz ph \<le> p_memsz ph \<and> unat (p_offset ph) + unat (p_filesz ph) \<le> n \<and> p_vaddr ph \<noteq> 0 \<and>
     unat (p_vaddr ph) + unat (p_memsz ph) < 4294967296 \<and>
     region (p_vaddr ph) (unat (p_memsz ph)) \<inter> region content n = {}"

definition elf_file :: "byte_mem \<Rightarrow> addr \<Rightarrow> nat \<Rightarrow> bool" where
  "elf_file m content n \<longleftrightarrow>
     (let eh = elf_header m content; num = unat (e_phnum eh)
      in elf_magic m content \<and> content \<noteq> 0 \<and> unat content + n < 4294967296 \<and> 52 \<le> n \<and>
         (\<forall>i<num. unat (e_phoff eh) + i * unat (e_phentsize eh) + 32 \<le> n) \<and>
         (\<forall>i<num. is_loaded (phdr_at m content i) \<longrightarrow> segment_fits m content n (phdr_at m content i)) \<and>
         (\<forall>i<num. \<forall>j<i. segment m content i \<inter> segment m content j = {}))"

definition segment_byte :: "byte_mem \<Rightarrow> addr \<Rightarrow> elf32_phdr_t \<Rightarrow> nat \<Rightarrow> u8" where
  "segment_byte m content ph k = (if k < unat (p_filesz ph) then m (content + p_offset ph + of_nat k) else 0)"

definition loaded_upto :: "byte_mem \<Rightarrow> addr \<Rightarrow> nat \<Rightarrow> byte_mem \<Rightarrow> bool" where
  "loaded_upto m0 content i m \<longleftrightarrow>
     (\<forall>x. (\<forall>j<i. x \<notin> segment m0 content j) \<longrightarrow> m x = m0 x) \<and>
     (\<forall>j<i. let ph = phdr_at m0 content j in is_loaded ph \<longrightarrow>
        (\<forall>k < unat (p_memsz ph). m (p_vaddr ph + of_nat k) = segment_byte m0 content ph k))"

lemma program_header_cong:
  assumes "\<And>x. x \<in> region a 32 \<Longrightarrow> m' x = m x"
  shows "program_header m' a = program_header m a"
proof -
  have "load32 m' (a + of_nat k) = load32 m (a + of_nat k)" if "k + 4 \<le> 32" for k
    using region_offset [OF that, of a] assms by (intro load32_cong) auto
  from this [of 0] this [of 4] this [of 8] this [of 12] this [of 16] this [of 20] this [of 24] this [of 28]
  show ?thesis by (simp add: program_header_def)
qed

lemma elf_header_cong:
  assumes "\<And>x. x \<in> region a 52 \<Longrightarrow> m' x = m x"
  shows "elf_header m' a = elf_header m a"
proof -
  have w: "load32 m' (a + of_nat k) = load32 m (a + of_nat k)" if "k + 4 \<le> 52" for k
    using region_offset [OF that, of a] assms by (intro load32_cong) auto
  have h: "load16 m' (a + of_nat k) = load16 m (a + of_nat k)" if "k + 2 \<le> 52" for k
    using region_offset [OF that, of a] assms by (intro load16_cong) auto
  have "mem_bytes m' a 16 = mem_bytes m a 16" using region_mono [of 16 52 a] assms by (intro mem_bytes_cong) auto
  with w [of 20] w [of 24] w [of 28] w [of 32] w [of 36] h [of 16] h [of 18] h [of 40] h [of 42] h [of 44] h [of 46] h [of 48] h [of 50]
  show ?thesis by (simp add: elf_header_def)
qed

lemma load_segment_ok:
  assumes ph: "program_header m pa = ph" "is_loaded ph" and fit: "segment_fits m0 content n ph"
    and pa: "region pa 32 \<subseteq> region content n" and c: "content \<noteq> 0" "unat content + n < 4294967296"
  shows "load_segment content pa m = Inr (store_bytes m (p_vaddr ph)
     (mem_bytes m (content + p_offset ph) (unat (p_filesz ph)) @ replicate (unat (p_memsz ph) - unat (p_filesz ph)) 0))"
proof -
  let ?f = "unat (p_filesz ph)" and ?v = "p_vaddr ph" and ?src = "content + p_offset ph" and ?z = "unat (p_memsz ph)"
  note fit = fit [unfolded segment_fits_def]
  have fz: "?f \<le> ?z" using fit by (simp add: word_le_nat_alt)
  have sub: "region ?src ?f \<subseteq> region content n" using fit by (intro region_offset_word) simp
  have dj: "region ?v ?f \<inter> region ?src ?f = {}" using sub fit region_mono [OF fz, of ?v] by blast
  have srcnz: "?src \<noteq> 0" if "p_filesz ph > 0"
  proof -
    have "unat ?src = unat content + unat (p_offset ph)"
      using fit c(2) that by (intro unat_add_lem [THEN iffD1]) (simp add: word_less_nat_alt)
    then show ?thesis using c(1) by (metis add_is_0 unat_eq_zero)
  qed
  define m1 where "m1 = store_bytes m ?v (mem_bytes m ?src ?f)"
  have cp: "(if p_filesz ph > 0 then memcpy m ?v ?src (p_filesz ph) else Inr m) = Inr m1"
    using memcpy_loop_eq [of ?v 0 ?f ?src m] dj fit srcnz by (auto simp: memcpy_def m1_def mem_bytes_def word_gt_0)
  have same: "program_header m1 pa = ph"
  proof -
    have "region pa 32 \<inter> region ?v ?f = {}" using pa fit region_mono [OF fz, of ?v] by blast
    then have "program_header m1 pa = program_header m pa"
      by (intro program_header_cong) (auto simp: m1_def intro!: store_bytes_outside simp: mem_bytes_def)
    then show ?thesis using ph(1) by simp
  qed
  have vnz: "?v + p_filesz ph \<noteq> 0"
  proof -
    have "unat (?v + p_filesz ph) = unat ?v + ?f" using fit fz by (intro unat_add_lem [THEN iffD1]) simp
    then show ?thesis using fit by (metis add_is_0 unat_eq_zero)
  qed
  have un: "unat (p_memsz ph - p_filesz ph) = ?z - ?f" using fit by (intro unat_sub) simp
  have "(if p_memsz ph > p_filesz ph then memset m1 (?v + p_filesz ph) 0 (p_memsz ph - p_filesz ph) else Inr m1) =
      Inr (store_bytes m1 (?v + of_nat ?f) (replicate (?z - ?f) 0))"
    using vnz un fz by (auto simp: memset_def memset_loop_eq word_less_nat_alt)
  moreover have "store_bytes m1 (?v + of_nat ?f) (replicate (?z - ?f) 0) =
      store_bytes m ?v (mem_bytes m ?src ?f @ replicate (?z - ?f) 0)"
    by (simp add: store_bytes_append m1_def mem_bytes_def)
  ultimately show ?thesis
    using ph cp same by (simp add: load_segment_def is_loaded_def Let_def split: if_splits)
qed


lemma elf_file_phdr:
  assumes ok: "elf_file m0 content n" and i: "i < unat (e_phnum (elf_header m0 content))"
  shows "region (content + e_phoff (elf_header m0 content) + of_nat i * ucast (e_phentsize (elf_header m0 content))) 32
     \<subseteq> region content n"
proof -
  let ?eh = "elf_header m0 content"
  have "unat (e_phoff ?eh) + i * unat (e_phentsize ?eh) + 32 \<le> n" using ok i by (simp add: elf_file_def Let_def)
  from region_offset [OF this, of content] show ?thesis by (simp add: add.assoc)
qed

lemma elf_file_fits:
  "\<lbrakk>elf_file m0 content n; i < unat (e_phnum (elf_header m0 content)); is_loaded (phdr_at m0 content i)\<rbrakk> \<Longrightarrow>
     segment_fits m0 content n (phdr_at m0 content i)"
  by (simp add: elf_file_def Let_def)

lemma elf_file_disjoint:
  "\<lbrakk>elf_file m0 content n; i < unat (e_phnum (elf_header m0 content)); j < i\<rbrakk> \<Longrightarrow>
     segment m0 content i \<inter> segment m0 content j = {}"
  by (simp add: elf_file_def Let_def)

lemma segment_outside_file:
  assumes "elf_file m0 content n" "i < unat (e_phnum (elf_header m0 content))"
  shows "segment m0 content i \<inter> region content n = {}"
  using elf_file_fits [OF assms] by (simp add: segment_def segment_fits_def Let_def)

lemma loaded_upto_agree:
  assumes ok: "elf_file m0 content n" and l: "loaded_upto m0 content i m"
    and i: "i \<le> unat (e_phnum (elf_header m0 content))" and x: "x \<in> region content n"
  shows "m x = m0 x"
proof -
  have "x \<notin> segment m0 content j" if "j < i" for j
    using segment_outside_file [OF ok, of j] i x that by auto
  then show ?thesis using l by (auto simp: loaded_upto_def)
qed

lemma load_segment_skip: "\<not> is_loaded (program_header m pa) \<Longrightarrow> load_segment content pa m = Inr m"
  by (simp only: load_segment_def is_loaded_def Let_def if_False)

lemma load_segment_step:
  assumes ok: "elf_file m0 content n" and l: "loaded_upto m0 content i m"
    and i: "i < unat (e_phnum (elf_header m0 content))"
    and pa: "pa = content + e_phoff (elf_header m0 content) + of_nat i * ucast (e_phentsize (elf_header m0 content))"
  shows "\<exists>m'. load_segment content pa m = Inr m' \<and> loaded_upto m0 content (Suc i) m'"
proof -
  let ?ph = "phdr_at m0 content i"
  have sub: "region pa 32 \<subseteq> region content n" using elf_file_phdr [OF ok i] pa by simp
  have agree: "m x = m0 x" if "x \<in> region content n" for x
    using loaded_upto_agree [OF ok l] i that by simp
  have h: "program_header m pa = ?ph"
    using sub agree by (simp add: phdr_at_def Let_def pa [symmetric], intro program_header_cong) auto
  show ?thesis
  proof (cases "is_loaded ?ph")
    case False
    then have "load_segment content pa m = Inr m" using h by (simp add: load_segment_skip)
    moreover have "segment m0 content i = {}" using False by (simp add: segment_def Let_def)
    ultimately show ?thesis using l False by (auto simp: loaded_upto_def less_Suc_eq Let_def)
  next
    case True
    have fit: "segment_fits m0 content n ?ph" using elf_file_fits [OF ok i True] .
    let ?f = "unat (p_filesz ?ph)" and ?z = "unat (p_memsz ?ph)"
    let ?bs = "mem_bytes m (content + p_offset ?ph) ?f @ replicate (?z - ?f) 0"
    have fz: "?f \<le> ?z" using fit by (simp add: segment_fits_def word_le_nat_alt)
    have len: "length ?bs = ?z" using fz by (simp add: mem_bytes_def)
    define m' where "m' = store_bytes m (p_vaddr ?ph) ?bs"
    have run: "load_segment content pa m = Inr m'"
      using load_segment_ok [OF h True fit sub] ok by (simp add: m'_def elf_file_def Let_def)
    have seg: "segment m0 content i = region (p_vaddr ?ph) ?z" using True by (simp add: segment_def Let_def)
    have out: "m' x = m x" if "x \<notin> segment m0 content i" for x
      using that seg len by (simp add: m'_def store_bytes_outside)
    have "m' (p_vaddr ?ph + of_nat k) = segment_byte m0 content ?ph k" if k: "k < ?z" for k
    proof -
      have "m' (p_vaddr ?ph + of_nat k) = ?bs ! k"
        unfolding m'_def by (rule store_bytes_nth) (use k len unat_u32_less [of "p_memsz ?ph"] in simp_all)
      moreover have "m (content + p_offset ?ph + of_nat k) = m0 (content + p_offset ?ph + of_nat k)" if "k < ?f"
      proof (rule agree)
        have "region (content + p_offset ?ph) ?f \<subseteq> region content n"
          using fit by (intro region_offset_word) (simp add: segment_fits_def)
        then show "content + p_offset ?ph + of_nat k \<in> region content n" using regionI [OF that] by blast
      qed
      ultimately show ?thesis using k fz by (simp add: segment_byte_def nth_append mem_bytes_def)
    qed
    moreover have "m' (p_vaddr (phdr_at m0 content j) + of_nat k) = segment_byte m0 content (phdr_at m0 content j) k"
      if j: "j < i" "is_loaded (phdr_at m0 content j)" "k < unat (p_memsz (phdr_at m0 content j))" for j k
    proof -
      have "p_vaddr (phdr_at m0 content j) + of_nat k \<in> segment m0 content j"
        using j by (simp add: segment_def Let_def regionI)
      then have "p_vaddr (phdr_at m0 content j) + of_nat k \<notin> segment m0 content i"
        using elf_file_disjoint [OF ok i j(1)] by blast
      then show ?thesis using out l j by (simp add: loaded_upto_def Let_def)
    qed
    ultimately have "loaded_upto m0 content (Suc i) m'"
      using l out by (auto simp: loaded_upto_def less_Suc_eq Let_def)
    with run show ?thesis by blast
  qed
qed

lemma load_segments_ok:
  assumes ok: "elf_file m0 content n" and l: "loaded_upto m0 content i m"
    and i: "i \<le> unat (e_phnum (elf_header m0 content))"
  shows "\<exists>m'. load_segments content (content + e_phoff (elf_header m0 content) + of_nat i * ucast (e_phentsize (elf_header m0 content))) i m
     = Inr m' \<and> loaded_upto m0 content (unat (e_phnum (elf_header m0 content))) m'"
  using l i
proof (induction "unat (e_phnum (elf_header m0 content)) - i" arbitrary: i m)
  let ?eh = "elf_header m0 content"
  have same: "elf_header m content = ?eh" if "loaded_upto m0 content i m" "i \<le> unat (e_phnum ?eh)" for i m
  proof (rule elf_header_cong)
    fix x assume "x \<in> region content 52"
    moreover have "region content 52 \<subseteq> region content n" using ok by (intro region_mono) (simp add: elf_file_def Let_def)
    ultimately show "m x = m0 x" using loaded_upto_agree [OF ok that] by blast
  qed
  {
    case 0
    then show ?case using same [OF "0.prems"] by (subst load_segments.simps) simp
  next
    case (Suc d)
    let ?pa = "content + e_phoff ?eh + of_nat i * ucast (e_phentsize ?eh)"
    have i: "i < unat (e_phnum ?eh)" using Suc.hyps(2) by simp
    from load_segment_step [OF ok Suc.prems(1) i refl] obtain m1 where
      m1: "load_segment content ?pa m = Inr m1" "loaded_upto m0 content (Suc i) m1" by blast
    have "load_segments content ?pa i m = load_segments content (?pa + ucast (e_phentsize ?eh)) (Suc i) m1"
      using i m1(1) same [OF Suc.prems] same [OF m1(2)] by (subst load_segments.simps) simp
    moreover have "?pa + ucast (e_phentsize ?eh) = content + e_phoff ?eh + of_nat (Suc i) * ucast (e_phentsize ?eh)"
      by (simp add: algebra_simps)
    ultimately show ?case using Suc.hyps(1) [OF _ m1(2)] Suc.hyps(2) i by simp
  }
qed

section \<open>The loader is correct\<close>

lemma elf_magic_iff:
  "elf_magic m content \<longleftrightarrow> m content = 0x7F \<and> m (content + 1) = 69 \<and> m (content + 2) = 76 \<and> m (content + 3) = 70"
  by (simp add: elf_magic_def mem_bytes_def upt_rec)

lemma elf_ident_nth: "k < 4 \<Longrightarrow> e_ident (elf_header m content) ! k = m (content + of_nat k)"
  by (simp add: elf_header_def mem_bytes_def)

lemma load_elf_ok:
  assumes ok: "elf_file m content n"
  shows "\<exists>m'. load_elf content m = Inr (Some (e_entry (elf_header m content)), m') \<and>
    loaded_upto m content (unat (e_phnum (elf_header m content))) m'"
proof -
  have "loaded_upto m content 0 m" by (simp add: loaded_upto_def)
  from load_segments_ok [OF ok this] obtain m' where
    r: "load_segments content (content + e_phoff (elf_header m content)) 0 m = Inr m'"
      "loaded_upto m content (unat (e_phnum (elf_header m content))) m'" by auto
  have "elf_magic m content" using ok by (simp add: elf_file_def Let_def)
  moreover have "elf_header m' content = elf_header m content"
  proof (rule elf_header_cong)
    fix x assume "x \<in> region content 52"
    moreover have "region content 52 \<subseteq> region content n" using ok by (intro region_mono) (simp add: elf_file_def Let_def)
    ultimately show "m' x = m x" using loaded_upto_agree [OF ok r(2)] by blast
  qed
  ultimately show ?thesis
    using r elf_ident_nth [of 0] elf_ident_nth [of 1] elf_ident_nth [of 2] elf_ident_nth [of 3]
    by (auto simp: load_elf_def elf_magic_iff Let_def)
qed

text \<open>Only the bytes of the file matter.\<close>

lemma elf_file_cong:
  assumes ok: "elf_file m content n" and eq: "\<forall>x\<in>region content n. m' x = m x"
  shows "elf_file m' content n" "elf_header m' content = elf_header m content"
    "i < unat (e_phnum (elf_header m content)) \<Longrightarrow> phdr_at m' content i = phdr_at m content i"
    "i < unat (e_phnum (elf_header m content)) \<Longrightarrow> segment m' content i = segment m content i"
    "\<lbrakk>i < unat (e_phnum (elf_header m content)); is_loaded (phdr_at m content i)\<rbrakk> \<Longrightarrow>
       segment_byte m' content (phdr_at m content i) k = segment_byte m content (phdr_at m content i) k"
proof -
  let ?num = "unat (e_phnum (elf_header m content))"
  have n: "52 \<le> n" using ok by (simp add: elf_file_def Let_def)
  show h: "elf_header m' content = elf_header m content"
    by (rule elf_header_cong) (use eq region_mono [OF n, of content] in blast)
  show p: "phdr_at m' content i = phdr_at m content i" if "i < ?num" for i
    unfolding phdr_at_def Let_def h by (rule program_header_cong) (use eq elf_file_phdr [OF ok that] in blast)
  show s: "segment m' content i = segment m content i" if "i < ?num" for i using p [OF that] by (simp add: segment_def)
  show "segment_byte m' content (phdr_at m content i) k = segment_byte m content (phdr_at m content i) k"
    if "i < ?num" "is_loaded (phdr_at m content i)" for i k
  proof (cases "k < unat (p_filesz (phdr_at m content i))")
    case True
    have "region (content + p_offset (phdr_at m content i)) (unat (p_filesz (phdr_at m content i))) \<subseteq> region content n"
      using elf_file_fits [OF ok that] by (intro region_offset_word) (simp add: segment_fits_def)
    then show ?thesis using eq regionI [OF True] by (auto simp: segment_byte_def)
  qed (simp add: segment_byte_def)
  have "mem_bytes m' content 4 = mem_bytes m content 4"
    by (rule mem_bytes_cong) (use eq n region_mono [of 4 n content] in auto)
  then show "elf_file m' content n" using ok p s by (simp add: elf_file_def Let_def h elf_magic_def segment_fits_def)
qed

text \<open>C24: The program loader places a program image. A file without the ELF magic number is refused with
memory unchanged. For a well-formed file it succeeds and returns the entry point of the file header; then
every loadable segment holds the bytes of the file up to its file size and zeros from there to its memory
size, and no byte outside the segments has changed.\<close>

theorem load_elf_places_segments:
  "(\<not> elf_magic m content \<longrightarrow> load_elf content m = Inr (None, m)) \<and>
   (elf_file m content n \<longrightarrow>
      (\<exists>m'. load_elf content m = Inr (Some (e_entry (elf_header m content)), m') \<and>
         loaded_upto m content (unat (e_phnum (elf_header m content))) m'))"
proof -
  have "load_elf content m = Inr (None, m)" if "\<not> elf_magic m content"
    using that elf_ident_nth [of 0] elf_ident_nth [of 1] elf_ident_nth [of 2] elf_ident_nth [of 3]
    by (auto simp: load_elf_def elf_magic_iff Let_def)
  then show ?thesis using load_elf_ok by blast
qed

text \<open>A file of 88 bytes with one segment of two bytes of data and four bytes in memory.\<close>

definition demo_elf_bytes :: "u8 list" where
  "demo_elf_bytes =
     [0x7F, 69, 76, 70] @ replicate 12 0 @ [2, 0, 3, 0, 1, 0, 0, 0] @ [2, 0, 0x80, 0] @ [52, 0, 0, 0] @
     replicate 8 0 @ [52, 0, 32, 0, 1, 0] @ replicate 6 0 @
     [1, 0, 0, 0] @ [84, 0, 0, 0] @ [0, 0, 0x80, 0] @ replicate 4 0 @ [2, 0, 0, 0] @ [4, 0, 0, 0] @ replicate 8 0 @
     [11, 12, 0, 0]"

definition demo_elf :: byte_mem where
  "demo_elf x = (if 0xD0000000 \<le> x \<and> x < 0xD0000058 then demo_elf_bytes ! unat (x - 0xD0000000) else 7)"

lemma demo_elf_header:
  "e_phnum (elf_header demo_elf 0xD0000000) = 1" "e_phoff (elf_header demo_elf 0xD0000000) = 52"
  "e_phentsize (elf_header demo_elf 0xD0000000) = 32" "e_entry (elf_header demo_elf 0xD0000000) = 0x800002"
  "elf_magic demo_elf 0xD0000000"
  by (simp_all add: elf_header_def load16_def load32_def mem_bytes_def dec16_def dec32_def upt_rec demo_elf_def
      demo_elf_bytes_def elf_magic_def nth_append nth_Cons')

lemma demo_phdr:
  "phdr_at demo_elf 0xD0000000 0 = \<lparr>p_type = 1, p_offset = 84, p_vaddr = 0x800000, p_paddr = 0, p_filesz = 2,
     p_memsz = 4, p_flags = 0, p_align = 0\<rparr>"
  by (simp add: phdr_at_def Let_def demo_elf_header program_header_def load32_def mem_bytes_def dec32_def upt_rec
      demo_elf_def demo_elf_bytes_def nth_append nth_Cons')

lemma demo_elf_file: "elf_file demo_elf 0xD0000000 88"
proof -
  have "region 0x800000 4 \<inter> region 0xD0000000 88 = {}"
    by (auto simp: region_iff)
  then show ?thesis
    by (simp add: elf_file_def Let_def demo_elf_header demo_phdr segment_fits_def)
qed

theorem load_elf_places_segments_witness:
  "elf_file demo_elf 0xD0000000 88 \<and>
   (\<exists>m'. load_elf 0xD0000000 demo_elf = Inr (Some 0x800002, m') \<and> m' 0x800001 = 12 \<and> m' 0x800003 = 0)"
proof -
  from load_elf_places_segments [of demo_elf "0xD0000000" 88] demo_elf_file obtain m' where
    r: "load_elf 0xD0000000 demo_elf = Inr (Some 0x800002, m')" "loaded_upto demo_elf 0xD0000000 1 m'"
    by (auto simp: demo_elf_header)
  have l: "is_loaded (phdr_at demo_elf 0xD0000000 0)" by (simp add: is_loaded_def demo_phdr PT_LOAD_def)
  have "m' (0x800000 + of_nat k) = segment_byte demo_elf 0xD0000000 (phdr_at demo_elf 0xD0000000 0) k" if "k < 4" for k
    using r(2) that l by (simp add: loaded_upto_def Let_def demo_phdr)
  from this [of 1] this [of 3] have "m' 0x800001 = 12" "m' 0x800003 = 0"
    by (simp_all add: segment_byte_def demo_phdr demo_elf_def demo_elf_bytes_def nth_append nth_Cons')
  with r(1) demo_elf_file show ?thesis by blast
qed

end
