(* ===== verification/Ref_Count_Spec.thy ===== *)
theory Ref_Count_Spec
  imports Prelude
begin

text \<open>
  What copy on write relies on: physical frames with reference counts. An allocation hands out a
  frame nobody uses, with one reference; sharing adds a reference, dropping takes one away; a frame
  without references can be handed out again.
\<close>

fun repeat_op :: "nat \<Rightarrow> ('s \<Rightarrow> 's kres) \<Rightarrow> 's \<Rightarrow> 's kres" where
  "repeat_op 0 f s = Inr s"
| "repeat_op (Suc n) f s = kbind (f s) (repeat_op n f)"

locale ref_pool =
  fixes alloc :: "'s \<Rightarrow> nat option \<times> 's" and share :: "nat \<Rightarrow> 's \<Rightarrow> 's kres" and drop_ref :: "nat \<Rightarrow> 's \<Rightarrow> 's kres"
    and ref :: "'s \<Rightarrow> nat \<Rightarrow> nat" and cap :: nat and maxref :: nat and invar :: "'s \<Rightarrow> bool"
  assumes alloc_Some: "\<lbrakk>invar s; alloc s = (Some f, s')\<rbrakk> \<Longrightarrow>
      f < cap \<and> ref s f = 0 \<and> ref s' = (ref s)(f := 1) \<and> invar s'"
    and alloc_None: "invar s \<Longrightarrow> fst (alloc s) = None \<longleftrightarrow> (\<forall>f<cap. ref s f \<noteq> 0)"
    and share_ref: "\<lbrakk>invar s; f < cap; ref s f < maxref\<rbrakk> \<Longrightarrow>
      \<exists>s'. share f s = Inr s' \<and> ref s' = (ref s)(f := ref s f + 1) \<and> invar s'"
    and drop_ref: "\<lbrakk>invar s; f < cap; 0 < ref s f\<rbrakk> \<Longrightarrow>
      \<exists>s'. drop_ref f s = Inr s' \<and> ref s' = (ref s)(f := ref s f - 1) \<and> invar s'"
begin

lemma share_many:
  "\<lbrakk>invar s; f < cap; ref s f + n \<le> maxref\<rbrakk> \<Longrightarrow>
    \<exists>s'. repeat_op n (share f) s = Inr s' \<and> ref s' = (ref s)(f := ref s f + n) \<and> invar s'"
proof (induction n arbitrary: s)
  case (Suc n)
  from share_ref [of s f] Suc.prems obtain s1 where
    s1: "share f s = Inr s1" "ref s1 = (ref s)(f := ref s f + 1)" "invar s1" by auto
  have "ref s1 f + n \<le> maxref" using s1(2) Suc.prems(3) by simp
  from Suc.IH [OF s1(3) Suc.prems(2) this] obtain s' where
    "repeat_op n (share f) s1 = Inr s'" "ref s' = (ref s1)(f := ref s1 f + n)" "invar s'" by blast
  then show ?case using s1 by (intro exI [of _ s']) (simp add: fun_eq_iff)
qed simp

lemma drop_many:
  "\<lbrakk>invar s; f < cap; n \<le> ref s f\<rbrakk> \<Longrightarrow>
    \<exists>s'. repeat_op n (drop_ref f) s = Inr s' \<and> ref s' = (ref s)(f := ref s f - n) \<and> invar s'"
proof (induction n arbitrary: s)
  case (Suc n)
  from drop_ref [of s f] Suc.prems obtain s1 where
    s1: "drop_ref f s = Inr s1" "ref s1 = (ref s)(f := ref s f - 1)" "invar s1" by auto
  have "n \<le> ref s1 f" using s1(2) Suc.prems(3) by simp
  from Suc.IH [OF s1(3) Suc.prems(2) this] obtain s' where
    "repeat_op n (drop_ref f) s1 = Inr s'" "ref s' = (ref s1)(f := ref s1 f - n)" "invar s'" by blast
  then show ?case using s1 by (intro exI [of _ s']) (simp add: fun_eq_iff)
qed simp

text \<open>The life of a frame: allocated, shared by \<open>n\<close> more users, dropped by all of them.\<close>

lemma life_cycle:
  assumes "invar s" "alloc s = (Some f, s1)" "n < maxref"
  shows "\<exists>s2 s3. repeat_op n (share f) s1 = Inr s2 \<and> repeat_op (Suc n) (drop_ref f) s2 = Inr s3 \<and>
    ref s2 f = Suc n \<and> ref s3 = ref s \<and> invar s3"
proof -
  note a = alloc_Some [OF assms(1,2)]
  from share_many [of s1 f n] a assms(3) obtain s2 where
    s2: "repeat_op n (share f) s1 = Inr s2" "ref s2 = (ref s1)(f := Suc n)" "invar s2" by auto
  from drop_many [of s2 f "Suc n"] a s2 obtain s3 where
    s3: "repeat_op (Suc n) (drop_ref f) s2 = Inr s3" "ref s3 = (ref s2)(f := 0)" "invar s3" by auto
  have "ref s3 = ref s" using a s2(2) s3(2) by (auto simp: fun_eq_iff)
  then show ?thesis using s2 s3 by auto
qed

end

end
