(* ===== verification/Page.thy ===== *)
theory Page
  imports Ref_Count_Spec
begin

text \<open>
  Virtual memory, \<^verbatim>\<open>src/src/mem/page.c\<close>: the reference counts of the physical frames and
  the two-level page tables, which the kernel edits through the window at \<^verbatim>\<open>PAGE_TABLES_VIRTUAL\<close>
  that the directory's entry for itself opens. Physical memory is a function from frame number and
  word index to words; every access of the code to a virtual address goes through the table walk of
  the processor, so that the window is derived and not assumed. An access to an unmapped address is
  the error \<open>Panic ''page fault''\<close>. The locks make each call one step, and the
  flushes of the translation cache have no counterpart: the walk always reads the tables in memory.
\<close>

section \<open>Frames and tables\<close>

definition PAGE_SIZE :: u32 where "PAGE_SIZE = 4096"
definition PAGE_DIR_VIRTUAL :: u32 where "PAGE_DIR_VIRTUAL = 0xC0701000"
definition PAGE_TABLES_VIRTUAL :: u32 where "PAGE_TABLES_VIRTUAL = 0xC0400000"
definition PHY_FRAMES :: nat where "PHY_FRAMES = 8192"
definition COPIED_PAGE_DIR_VADDR :: u32 where "COPIED_PAGE_DIR_VADDR = 0xFFFFD000"
definition COPIED_PAGE_TABLE_VADDR :: u32 where "COPIED_PAGE_TABLE_VADDR = 0xFFFFE000"
definition COPIED_PAGE_VADDR :: u32 where "COPIED_PAGE_VADDR = 0xFFFFF000"

text \<open>\<open>cr3\<close> is the frame of the current page directory.\<close>

record vm =
  phys :: "nat \<Rightarrow> nat \<Rightarrow> u32"
  cr3 :: nat
  phy_frames_array :: "u16 list"
  last_allocated_index :: nat

text \<open>The bit fields of \<^verbatim>\<open>pte_t\<close>; \<open>set_entry\<close> is the assignment of all four by the code.\<close>

definition pte_present :: "u32 \<Rightarrow> bool" where "pte_present e = bit e 0"
definition pte_rw :: "u32 \<Rightarrow> bool" where "pte_rw e = bit e 1"
definition pte_user :: "u32 \<Rightarrow> bool" where "pte_user e = bit e 2"
definition pte_frame :: "u32 \<Rightarrow> nat" where "pte_frame e = unat (drop_bit 12 e)"

definition set_entry :: "u32 \<Rightarrow> bool \<Rightarrow> nat \<Rightarrow> u32" where
  "set_entry e user f = (e AND 0xFF8) OR 3 OR (if user then 4 else 0) OR push_bit 12 (of_nat f)"

definition set_rw :: "u32 \<Rightarrow> u32" where "set_rw e = e OR 2"
definition clear_rw :: "u32 \<Rightarrow> u32" where "clear_rw e = e AND NOT 2"
definition set_frame :: "u32 \<Rightarrow> nat \<Rightarrow> u32" where "set_frame e f = (e AND 0xFFF) OR push_bit 12 (of_nat f)"

section \<open>The processor's view\<close>

definition dir_index :: "u32 \<Rightarrow> nat" where "dir_index a = unat a div 4194304"
definition table_index :: "u32 \<Rightarrow> nat" where "table_index a = unat a div 4096 mod 1024"
definition word_index :: "u32 \<Rightarrow> nat" where "word_index a = unat a div 4 mod 1024"

definition walk :: "vm \<Rightarrow> u32 \<Rightarrow> nat option" where
  "walk s a =
     (let pde = phys s (cr3 s) (dir_index a)
      in if pte_present pde then
           let pte = phys s (pte_frame pde) (table_index a)
           in if pte_present pte then Some (pte_frame pte) else None
         else None)"

definition page_fault :: kpanic where "page_fault = Panic ''page fault''"

definition vread :: "vm \<Rightarrow> u32 \<Rightarrow> u32 kres" where
  "vread s a = (case walk s a of None \<Rightarrow> Inl page_fault | Some f \<Rightarrow> Inr (phys s f (word_index a)))"

definition set_phys :: "nat \<Rightarrow> nat \<Rightarrow> u32 \<Rightarrow> vm \<Rightarrow> vm" where
  "set_phys f i v s = s\<lparr>phys := (phys s)(f := (phys s f)(i := v))\<rparr>"

definition vwrite :: "u32 \<Rightarrow> u32 \<Rightarrow> vm \<Rightarrow> vm kres" where
  "vwrite a v s = (case walk s a of None \<Rightarrow> Inl page_fault | Some f \<Rightarrow> Inr (set_phys f (word_index a) v s))"

text \<open>\<^verbatim>\<open>(pde_t*)PAGE_DIR_VIRTUAL + i\<close> and \<^verbatim>\<open>(pte_t*)PAGE_TABLES_VIRTUAL + k\<close>.\<close>

definition pde_addr :: "nat \<Rightarrow> u32" where "pde_addr i = PAGE_DIR_VIRTUAL + of_nat (4 * i)"
definition pte_addr :: "nat \<Rightarrow> u32" where "pte_addr k = PAGE_TABLES_VIRTUAL + of_nat (4 * k)"

section \<open>Physical frames\<close>

text \<open>The loop over all frames, from the last one handed out; \<open>None\<close> for the result -1.\<close>

fun frame_scan :: "u16 list \<Rightarrow> nat \<Rightarrow> nat \<Rightarrow> nat \<Rightarrow> nat option" where
  "frame_scan arr start i 0 = None"
| "frame_scan arr start i (Suc n) =
     (let current_index = (start + i) mod PHY_FRAMES
      in if arr ! current_index = 0 then Some current_index else frame_scan arr start (Suc i) n)"

definition alloc_phy_frame :: "vm \<Rightarrow> nat option \<times> vm" where
  "alloc_phy_frame s =
     (case frame_scan (phy_frames_array s) (last_allocated_index s) 0 PHY_FRAMES of
        None \<Rightarrow> (None, s)
      | Some f \<Rightarrow> (Some f, s\<lparr>phy_frames_array := (phy_frames_array s)[f := 1], last_allocated_index := f\<rparr>))"

definition release_phy_frame :: "nat \<Rightarrow> vm \<Rightarrow> vm kres" where
  "release_phy_frame f s =
     kassert (f < PHY_FRAMES) ''frame < (PHYSICAL_MEM_SIZE / PAGE_SIZE)''
       (kassert (phy_frames_array s ! f > 0) ''phy_frames_array[frame] > 0''
         (Inr (s\<lparr>phy_frames_array := (phy_frames_array s)[f := phy_frames_array s ! f - 1]\<rparr>)))"

definition get_phy_frame_ref :: "nat \<Rightarrow> vm \<Rightarrow> nat kres" where
  "get_phy_frame_ref f s =
     kassert (f < PHY_FRAMES) ''frame < (PHYSICAL_MEM_SIZE / PAGE_SIZE)'' (Inr (unat (phy_frames_array s ! f)))"

definition inc_cow_ref :: "nat \<Rightarrow> vm \<Rightarrow> vm kres" where
  "inc_cow_ref f s =
     kassert (f < PHY_FRAMES) ''frame < (PHYSICAL_MEM_SIZE / PAGE_SIZE)''
       (Inr (s\<lparr>phy_frames_array := (phy_frames_array s)[f := phy_frames_array s ! f + 1]\<rparr>))"

section \<open>Mapping a page\<close>

fun clear_words :: "u32 \<Rightarrow> nat \<Rightarrow> nat \<Rightarrow> vm \<Rightarrow> vm kres" where
  "clear_words a i 0 s = Inr s"
| "clear_words a i (Suc n) s = kbind (vwrite (a + of_nat (4 * i)) 0 s) (clear_words a (Suc i) n)"

definition page_base :: "u32 \<Rightarrow> u32" where "page_base a = a div PAGE_SIZE * PAGE_SIZE"

definition clear_page :: "u32 \<Rightarrow> vm \<Rightarrow> vm kres" where
  "clear_page a s = clear_words (page_base a) 0 1024 s"

definition new_frame :: "string \<Rightarrow> vm \<Rightarrow> (nat \<times> vm) kres" where
  "new_frame msg s = (case alloc_phy_frame s of (None, s) \<Rightarrow> Inl (Panic msg) | (Some f, s) \<Rightarrow> Inr (f, s))"

text \<open>The first half of \<^verbatim>\<open>map_page_with_frame_impl\<close>: a page table for the directory entry.\<close>

definition ensure_table :: "u32 \<Rightarrow> vm \<Rightarrow> vm kres" where
  "ensure_table vaddr s =
     kbind (vread s (pde_addr (dir_index vaddr))) (\<lambda>pde.
       if \<not> pte_present pde then
         kbind (new_frame ''couldn't alloc frame for page table'' s) (\<lambda>(f, s).
           kbind (vwrite (pde_addr (dir_index vaddr)) (set_entry pde (vaddr < 0xC0000000) f) s) (\<lambda>s.
             clear_page (PAGE_TABLES_VIRTUAL + of_nat (dir_index vaddr) * PAGE_SIZE) s))
       else Inr s)"

text \<open>\<open>frame\<close> is the argument \<^verbatim>\<open>int32_t frame\<close>; anything not positive asks for a new frame.\<close>

definition map_page_with_frame_impl :: "u32 \<Rightarrow> int \<Rightarrow> vm \<Rightarrow> vm kres" where
  "map_page_with_frame_impl vaddr frame s =
     kbind (ensure_table vaddr s) (\<lambda>s.
       let k = unat vaddr div 4096; is_user_page = vaddr < 0xC0000000
       in kbind (vread s (pte_addr k)) (\<lambda>pte.
            if frame > 0 then
              kassert (\<not> pte_present pte) ''pte->present == 0''
                (vwrite (pte_addr k) (set_entry pte is_user_page (nat frame)) s)
            else if \<not> pte_present pte then
              kbind (new_frame ''couldn't alloc frame for page'' s) (\<lambda>(f, s).
                kbind (vwrite (pte_addr k) (set_entry pte is_user_page f) s) (clear_page vaddr))
            else Inr s))"

definition map_page_with_frame :: "u32 \<Rightarrow> int \<Rightarrow> vm \<Rightarrow> vm kres" where
  "map_page_with_frame vaddr frame s = map_page_with_frame_impl vaddr frame s"

definition map_page :: "u32 \<Rightarrow> vm \<Rightarrow> vm kres" where
  "map_page vaddr s = map_page_with_frame vaddr (- 1) s"

section \<open>Releasing pages\<close>

definition release_page :: "u32 \<Rightarrow> bool \<Rightarrow> vm \<Rightarrow> vm kres" where
  "release_page vaddr frame_free s =
     (let k = unat vaddr div 4096
      in kbind (vread s (pte_addr k)) (\<lambda>pte.
           if \<not> pte_present pte then Inr s
           else kbind (if frame_free then release_phy_frame (pte_frame pte) s else Inr s) (vwrite (pte_addr k) 0)))"

fun kfold :: "('a \<Rightarrow> 's \<Rightarrow> 's kres) \<Rightarrow> 'a list \<Rightarrow> 's \<Rightarrow> 's kres" where
  "kfold f [] s = Inr s"
| "kfold f (x # xs) s = kbind (f x s) (kfold f xs)"

definition release_pages :: "u32 \<Rightarrow> u32 \<Rightarrow> bool \<Rightarrow> vm \<Rightarrow> vm kres" where
  "release_pages vaddr page_count frame_free s =
     (let vaddr = page_base vaddr; pte_start = vaddr div 4096; pte_end = pte_start + page_count;
          pde_start = vaddr div 4194304; pde_end = (pte_end - 1) div 1024 + 1
      in kfold (\<lambda>i s.
           kbind (vread s (pde_addr i)) (\<lambda>pde.
             if \<not> pte_present pde then Inr s
             else kfold (\<lambda>j. release_page (of_nat j * PAGE_SIZE) frame_free)
                    [max (i * 1024) (unat pte_start)..<min (i * 1024 + 1024) (unat pte_end)] s))
           [unat pde_start..<unat pde_end] s)"

definition release_page_tables :: "nat \<Rightarrow> nat \<Rightarrow> vm \<Rightarrow> vm kres" where
  "release_page_tables pde_index_start num s =
     kfold (\<lambda>i s.
       kbind (vread s (pde_addr i)) (\<lambda>pde.
         if \<not> pte_present pde then Inr s
         else kbind (release_phy_frame (pte_frame pde) s) (vwrite (pde_addr i) 0)))
       [pde_index_start..<pde_index_start + num] s"

section \<open>Copy on write\<close>

text \<open>\<^verbatim>\<open>memcpy\<close> of one page, word by word.\<close>

fun copy_words :: "u32 \<Rightarrow> u32 \<Rightarrow> nat \<Rightarrow> nat \<Rightarrow> vm \<Rightarrow> vm kres" where
  "copy_words dst src i 0 s = Inr s"
| "copy_words dst src i (Suc n) s =
     kbind (vread s (src + of_nat (4 * i))) (\<lambda>v.
       kbind (vwrite (dst + of_nat (4 * i)) v s) (copy_words dst src (Suc i) n))"

text \<open>The branch of \<^verbatim>\<open>handle_cow_fault\<close> for a frame that others still use.\<close>

definition cow_copy :: "u32 \<Rightarrow> nat \<Rightarrow> vm \<Rightarrow> vm kres" where
  "cow_copy vaddr frame s =
     (let k = unat vaddr div 4096
      in kbind (new_frame ''couldn't alloc frame for addr in cow'' s) (\<lambda>(cow_frame, s).
         kbind (map_page_with_frame_impl COPIED_PAGE_VADDR (int cow_frame) s) (\<lambda>s.
         kbind (copy_words COPIED_PAGE_VADDR (page_base vaddr) 0 1024 s) (\<lambda>s.
         kbind (vread s (pte_addr k)) (\<lambda>pte.
         kbind (vwrite (pte_addr k) (set_rw (set_frame pte cow_frame)) s) (\<lambda>s.
         kbind (release_pages COPIED_PAGE_VADDR 1 False s)
           (release_phy_frame frame)))))))"

definition handle_cow_fault :: "u32 \<Rightarrow> vm \<Rightarrow> vm kres" where
  "handle_cow_fault vaddr s =
     (let k = unat vaddr div 4096
      in kbind (vread s (pde_addr (dir_index vaddr))) (\<lambda>pde.
         kassert (pte_present pde) ''pde->present''
           (kbind (vread s (pte_addr k)) (\<lambda>pte.
            kassert (pte_present pte) ''pte->present''
              (let frame = pte_frame pte
               in kbind (get_phy_frame_ref frame s) (\<lambda>ref.
                  kassert (ref \<ge> 1) ''get_phy_frame_ref(frame) >= 1''
                    (if ref = 1 then vwrite (pte_addr k) (set_rw pte) s
                     else cow_copy vaddr frame s)))))))"

text \<open>
  The body of the loop of \<^verbatim>\<open>clone_crt_page_dir\<close> over the entries of one page table: both copies
  of a present entry become read-only, and its frame gets one more reference.
\<close>

definition share_entry :: "nat \<Rightarrow> nat \<Rightarrow> vm \<Rightarrow> vm kres" where
  "share_entry i j s =
     kbind (vread s (COPIED_PAGE_TABLE_VADDR + of_nat (4 * j))) (\<lambda>new_pte.
       if \<not> pte_present new_pte then Inr s
       else
         kbind (vread s (pte_addr (i * 1024 + j))) (\<lambda>crt_pte.
         kbind (vwrite (pte_addr (i * 1024 + j)) (clear_rw crt_pte) s) (\<lambda>s.
         kbind (vwrite (COPIED_PAGE_TABLE_VADDR + of_nat (4 * j)) (clear_rw new_pte) s)
           (inc_cow_ref (pte_frame new_pte)))))"

definition clone_table :: "nat \<Rightarrow> vm \<Rightarrow> vm kres" where
  "clone_table i s =
     kbind (vread s (pde_addr i)) (\<lambda>crt_pde.
       if \<not> pte_present crt_pde then Inr s
       else
         kbind (new_frame ''couldn't alloc frame for copied page dir'' s) (\<lambda>(new_pt_frame, s).
         kbind (map_page_with_frame_impl COPIED_PAGE_TABLE_VADDR (int new_pt_frame) s) (\<lambda>s.
         kbind (copy_words COPIED_PAGE_TABLE_VADDR (PAGE_TABLES_VIRTUAL + of_nat i * PAGE_SIZE) 0 1024 s) (\<lambda>s.
         kbind (kfold (share_entry i) [0..<1024] s) (\<lambda>s.
         kbind (vread s (COPIED_PAGE_DIR_VADDR + of_nat (4 * i))) (\<lambda>new_pde.
         kbind (vwrite (COPIED_PAGE_DIR_VADDR + of_nat (4 * i)) (set_entry new_pde True new_pt_frame) s)
           (release_pages COPIED_PAGE_TABLE_VADDR 1 False)))))))"

definition copy_dir_entry :: "nat \<Rightarrow> nat \<Rightarrow> vm \<Rightarrow> vm kres" where
  "copy_dir_entry new_pd_frame i s =
     (if i = 769 then
        kbind (vread s (COPIED_PAGE_DIR_VADDR + of_nat (4 * i))) (\<lambda>e.
          vwrite (COPIED_PAGE_DIR_VADDR + of_nat (4 * i)) (set_entry e False new_pd_frame) s)
      else
        kbind (vread s (pde_addr i)) (\<lambda>e. vwrite (COPIED_PAGE_DIR_VADDR + of_nat (4 * i)) e s))"

text \<open>The result is the frame of the new directory.\<close>

definition clone_crt_page_dir :: "vm \<Rightarrow> (nat \<times> vm) kres" where
  "clone_crt_page_dir s =
     kbind (new_frame ''couldn't alloc frame for copied page dir'' s) (\<lambda>(new_pd_frame, s).
     kbind (map_page_with_frame COPIED_PAGE_DIR_VADDR (int new_pd_frame) s) (\<lambda>s.
     kbind (clear_page COPIED_PAGE_DIR_VADDR s) (\<lambda>s.
     kbind (vread s (pde_addr 0)) (\<lambda>e.
     kbind (vwrite COPIED_PAGE_DIR_VADDR e s) (\<lambda>s.
     kbind (kfold (copy_dir_entry new_pd_frame) [768..<1024] s) (\<lambda>s.
     kbind (kfold clone_table [1..<768] s) (\<lambda>s.
     kbind (release_pages COPIED_PAGE_DIR_VADDR 1 False s) (\<lambda>s.
       Inr (new_pd_frame, s)))))))))"

definition switch_page_dir :: "nat \<Rightarrow> vm \<Rightarrow> vm" where
  "switch_page_dir dir s = s\<lparr>cr3 := dir\<rparr>"

section \<open>Start-up\<close>

definition unmap_low_identity :: "vm \<Rightarrow> vm kres" where
  "unmap_low_identity s = vwrite (pde_addr 0) 0 s"

definition preallocate_table :: "nat \<Rightarrow> vm \<Rightarrow> vm kres" where
  "preallocate_table i s =
     (if i = 769 then Inr s
      else
        kbind (vread s (pde_addr i)) (\<lambda>pde.
          if \<not> pte_present pde then
            kbind (new_frame ''couldn't alloc frame for page table'' s) (\<lambda>(f, s).
              kbind (vwrite (pde_addr i) (set_entry pde False f) s)
                (clear_page (PAGE_TABLES_VIRTUAL + of_nat i * PAGE_SIZE)))
          else Inr s))"

text \<open>The frame array after the first part of \<^verbatim>\<open>init_page\<close>: 3 MB are taken, and the last frame.\<close>

definition init_frames :: "u16 list" where
  "init_frames = (map (\<lambda>i. if i < 768 then 1 else 0) [0..<PHY_FRAMES])[PHY_FRAMES - 1 := 1]"

definition init_page :: "vm \<Rightarrow> vm kres" where
  "init_page s =
     kbind (unmap_low_identity (s\<lparr>phy_frames_array := init_frames\<rparr>)) (\<lambda>s.
     kbind (release_pages 0xFFF00000 256 False s)
       (kfold preallocate_table [768..<1024]))"

section \<open>The page fault handler\<close>

definition USER_STACK_TOP :: u32 where "USER_STACK_TOP = 0xBFC00000"
definition USER_STACK_SIZE :: u32 where "USER_STACK_SIZE = 65536"
definition KERNEL_STACK_AREA_START :: u32 where "KERNEL_STACK_AREA_START = 0xE0000000"
definition KERNEL_STACK_AREA_END :: u32 where "KERNEL_STACK_AREA_END = 0xF0000000"
definition KERNEL_STACK_GUARD_SIZE :: u32 where "KERNEL_STACK_GUARD_SIZE = PAGE_SIZE"
definition KERNEL_STACK_SLOT_SIZE :: u32 where "KERNEL_STACK_SLOT_SIZE = KERNEL_STACK_GUARD_SIZE + 8192"

text \<open>
  The walk over the threads of the current process: \<open>stacks\<close> are their stack indexes in the order of
  the thread table. \<open>Some g\<close>: the address lies in a user stack, and \<open>g\<close> says whether in its guard page.
\<close>

fun user_stack_hit :: "u32 \<Rightarrow> u32 list \<Rightarrow> bool option" where
  "user_stack_hit addr [] = None"
| "user_stack_hit addr (ix # ixs) =
     (if sint ix < 0 then user_stack_hit addr ixs
      else
        let stack_top = USER_STACK_TOP - ix * USER_STACK_SIZE; stack_bottom = stack_top - USER_STACK_SIZE;
            guard_end = stack_bottom + PAGE_SIZE
        in if addr \<ge> stack_bottom \<and> addr < stack_top then Some (addr < guard_end)
           else user_stack_hit addr ixs)"

definition is_current_user_stack_addr :: "bool \<Rightarrow> u32 list \<Rightarrow> u32 \<Rightarrow> bool option" where
  "is_current_user_stack_addr multi_task stacks addr = (if \<not> multi_task then None else user_stack_hit addr stacks)"

definition is_kernel_stack_area_addr :: "u32 \<Rightarrow> bool" where
  "is_kernel_stack_area_addr addr \<longleftrightarrow> addr \<ge> KERNEL_STACK_AREA_START \<and> addr < KERNEL_STACK_AREA_END"

definition is_kernel_stack_guard_addr :: "u32 \<Rightarrow> bool" where
  "is_kernel_stack_guard_addr addr \<longleftrightarrow>
     is_kernel_stack_area_addr addr \<and>
     (addr - KERNEL_STACK_AREA_START) mod KERNEL_STACK_SLOT_SIZE < KERNEL_STACK_GUARD_SIZE"

definition pagefault_handler :: "bool \<Rightarrow> u32 list \<Rightarrow> u32 \<Rightarrow> u32 \<Rightarrow> vm \<Rightarrow> vm kres" where
  "pagefault_handler multi_task stacks err_code fa s =
     (let present = bit err_code 0; rw = bit err_code 1; user_mode = bit err_code 2
      in if fa < 0x1000 then Inl (Panic ''Segmentation Fault! Null pointer dereference'')
         else if \<not> present then
           (if user_mode \<and> is_current_user_stack_addr multi_task stacks fa = Some True then
              Inl (Panic ''User stack overflow'')
            else if \<not> user_mode \<and> is_kernel_stack_area_addr fa then
              (if is_kernel_stack_guard_addr fa then Inl (Panic ''Kernel stack overflow'')
               else Inl (Panic ''Invalid kernel stack area access''))
            else map_page (page_base fa) s)
         else if rw then
           (if user_mode \<and> fa \<ge> 0xC0000000 then Inl (Panic ''System halted due to Privilege Violation.'')
            else handle_cow_fault fa s)
         else Inl (Panic ''System halted due to illegal memory access.''))"

section \<open>Entries\<close>

lemma set_entry_fields:
  "pte_present (set_entry e u f)" "pte_rw (set_entry e u f)" "pte_user (set_entry e u f) = u"
  "f < 1048576 \<Longrightarrow> pte_frame (set_entry e u f) = f"
proof -
  show "pte_present (set_entry e u f)" "pte_rw (set_entry e u f)" "pte_user (set_entry e u f) = u"
    by (simp_all add: pte_present_def pte_rw_def pte_user_def set_entry_def bit_simps bit_numeral_rec del: bit_0)
  assume f: "f < 1048576"
  then have tb: "take_bit 20 f = f" "take_bit 32 f = f" by (simp_all add: take_bit_nat_eq_self_iff)
  have "drop_bit 12 (set_entry e u f) = of_nat f"
  proof (rule bit_word_eqI)
    fix n assume n: "n < LENGTH(32)"
    have b: "\<not> bit (of_nat f :: u32) n" if "20 \<le> n"
    proof -
      have "take_bit 20 (of_nat f :: u32) = of_nat f" using f
        by (intro unsigned_word_eqI [where ?'a = nat]) (simp add: unsigned_take_bit_eq unsigned_of_nat tb)
      then show ?thesis using that by (metis bit_take_bit_iff not_le)
    qed
    have c: "\<not> bit (0xFF8 :: u32) (12 + n)" "\<not> bit (3 :: u32) (12 + n)" "\<not> bit (4 :: u32) (12 + n)"
      by (simp_all add: bit_numeral_rec bit_1_iff)
    show "bit (drop_bit 12 (set_entry e u f)) n = bit (of_nat f :: u32) n"
      using n b c by (cases "n < 20") (auto simp: set_entry_def bit_simps)
  qed
  then show "pte_frame (set_entry e u f) = f"
    using f by (simp add: pte_frame_def unat_of_nat_small)
qed

lemma entry_updates:
  "pte_present (set_rw e) = pte_present e" "pte_rw (set_rw e)" "pte_frame (set_rw e) = pte_frame e" "pte_user (set_rw e) = pte_user e"
  "pte_present (clear_rw e) = pte_present e" "\<not> pte_rw (clear_rw e)" "pte_frame (clear_rw e) = pte_frame e" "pte_user (clear_rw e) = pte_user e"
  "pte_present (set_frame e f) = pte_present e" "f < 1048576 \<Longrightarrow> pte_frame (set_frame e f) = f"
proof -
  have c: "bit (0xFFF :: u32) n \<longleftrightarrow> n < 12" for n
    using bit_mask_iff [of 12 n, where ?'a = u32] by (auto simp: mask_eq_exp_minus_1 dest: bit_imp_le_length)
  have two: "bit (2 :: u32) n \<longleftrightarrow> n = 1" for n using bit_exp_iff [of 1 n, where ?'a = u32] by (auto dest: bit_imp_le_length)
  show "pte_present (set_rw e) = pte_present e" "pte_rw (set_rw e)" "pte_user (set_rw e) = pte_user e"
    "pte_present (clear_rw e) = pte_present e" "\<not> pte_rw (clear_rw e)" "pte_user (clear_rw e) = pte_user e"
    "pte_present (set_frame e f) = pte_present e"
    by (simp_all add: pte_present_def pte_rw_def pte_user_def set_rw_def clear_rw_def set_frame_def bit_simps two c del: bit_0)
  have "drop_bit 12 (set_rw e) = drop_bit 12 e" "drop_bit 12 (clear_rw e) = drop_bit 12 e"
    by (rule bit_word_eqI; auto simp only: set_rw_def clear_rw_def bit_drop_bit_eq bit_or_iff bit_and_iff bit_not_iff_eq two comp_apply;
        auto dest: bit_imp_le_length)+
  then show "pte_frame (set_rw e) = pte_frame e" "pte_frame (clear_rw e) = pte_frame e" by (simp_all add: pte_frame_def)
  assume f: "f < 1048576"
  have "drop_bit 12 (set_frame e f) = drop_bit 12 (set_entry 0 False f)"
    by (rule bit_word_eqI) (auto simp: set_frame_def set_entry_def bit_simps c bit_numeral_rec)
  then show "pte_frame (set_frame e f) = f" using set_entry_fields(4) [OF f, of 0 False] by (simp add: pte_frame_def)
qed

lemma pde_index:
  assumes "i < 1024"
  shows "dir_index (pde_addr i) = 769" "table_index (pde_addr i) = 769" "word_index (pde_addr i) = i"
proof -
  have u: "unat (pde_addr i) = 3228569600 + 4 * i"
    using assms unat_add_of_nat [of PAGE_DIR_VIRTUAL "4 * i"] by (simp add: pde_addr_def PAGE_DIR_VIRTUAL_def)
  show "dir_index (pde_addr i) = 769"
    unfolding dir_index_def u by (rule div_nat_eqI) (use assms in simp_all)
  have "(3228569600 + 4 * i) div 4096 = 788225" by (rule div_nat_eqI) (use assms in simp_all)
  then show "table_index (pde_addr i) = 769" by (simp add: table_index_def u)
  have "(3228569600 + 4 * i) div 4 = i + 1024 * 788225" by simp
  then show "word_index (pde_addr i) = i" using assms by (simp only: word_index_def u mod_mult_self2 mod_less)
qed

lemma pte_index:
  assumes "k < 1048576"
  shows "dir_index (pte_addr k) = 769" "table_index (pte_addr k) = k div 1024" "word_index (pte_addr k) = k mod 1024"
proof -
  have u: "unat (pte_addr k) = 3225419776 + 4 * k"
    using assms unat_add_of_nat [of PAGE_TABLES_VIRTUAL "4 * k"] by (simp add: pte_addr_def PAGE_TABLES_VIRTUAL_def)
  show "dir_index (pte_addr k) = 769"
    unfolding dir_index_def u by (rule div_nat_eqI) (use assms in simp_all)
  have "3225419776 + 4 * k = 4 * (k + 1024 * 787456)" by simp
  then have "(3225419776 + 4 * k) div 4096 = (4 * (k + 1024 * 787456)) div (4 * 1024)" by simp
  also have "\<dots> = k div 1024 + 787456"
    unfolding div_mult_mult1 [OF zero_neq_numeral [symmetric], of _ "k + 1024 * 787456"] by simp
  also have "\<dots> = k div 1024 + 1024 * 769" by simp
  finally have d: "(3225419776 + 4 * k) div 4096 = k div 1024 + 1024 * 769" .
  have "k div 1024 < 1024" using assms by (simp add: less_mult_imp_div_less)
  then show "table_index (pte_addr k) = k div 1024" by (simp only: table_index_def u d mod_mult_self2 mod_less)
  have "(3225419776 + 4 * k) div 4 = k + 1024 * 787456" by simp
  then show "word_index (pte_addr k) = k mod 1024" by (simp only: word_index_def u mod_mult_self2)
qed

section \<open>The window onto the tables\<close>

abbreviation pde :: "vm \<Rightarrow> nat \<Rightarrow> u32" where "pde s i \<equiv> phys s (cr3 s) i"
abbreviation table_of :: "vm \<Rightarrow> nat \<Rightarrow> nat" where "table_of s i \<equiv> pte_frame (pde s i)"
abbreviation pte :: "vm \<Rightarrow> nat \<Rightarrow> u32" where "pte s k \<equiv> phys s (table_of s (k div 1024)) (k mod 1024)"

text \<open>The directory is its own page table for the window.\<close>

definition rec_ok :: "vm \<Rightarrow> bool" where
  "rec_ok s \<longleftrightarrow> pte_present (pde s 769) \<and> table_of s 769 = cr3 s"

lemma set_phys_simps [simp]:
  "cr3 (set_phys f i v s) = cr3 s" "phy_frames_array (set_phys f i v s) = phy_frames_array s"
  "last_allocated_index (set_phys f i v s) = last_allocated_index s"
  "phys (set_phys f i v s) = (phys s)(f := (phys s f)(i := v))"
  by (simp_all add: set_phys_def)

lemma walk_pde: "\<lbrakk>rec_ok s; i < 1024\<rbrakk> \<Longrightarrow> walk s (pde_addr i) = Some (cr3 s)"
  by (simp add: walk_def pde_index rec_ok_def)

lemma window_pde:
  assumes "rec_ok s" "i < 1024"
  shows "vread s (pde_addr i) = Inr (pde s i)" "vwrite (pde_addr i) v s = Inr (set_phys (cr3 s) i v s)"
  using walk_pde [OF assms] assms(2) by (simp_all add: vread_def vwrite_def pde_index)

lemma window_pte:
  assumes "rec_ok s" "k < 1048576" "pte_present (pde s (k div 1024))"
  shows "vread s (pte_addr k) = Inr (pte s k)"
    "vwrite (pte_addr k) v s = Inr (set_phys (table_of s (k div 1024)) (k mod 1024) v s)"
proof -
  have "walk s (pte_addr k) = Some (table_of s (k div 1024))" using assms by (simp add: walk_def pte_index rec_ok_def)
  then show "vread s (pte_addr k) = Inr (pte s k)"
    "vwrite (pte_addr k) v s = Inr (set_phys (table_of s (k div 1024)) (k mod 1024) v s)"
    using assms(2) by (simp_all add: vread_def vwrite_def pte_index)
qed

section \<open>Whole pages\<close>

definition page_aligned :: "u32 \<Rightarrow> bool" where "page_aligned a \<longleftrightarrow> unat a mod 4096 = 0"

lemma page_offset:
  assumes "page_aligned a" "i < 1024"
  shows "dir_index (a + of_nat (4 * i)) = dir_index a" "table_index (a + of_nat (4 * i)) = table_index a"
    "word_index (a + of_nat (4 * i)) = i"
proof -
  obtain q where q: "unat a = 4096 * q" using assms(1) by (auto simp: page_aligned_def)
  have q20: "q < 1048576" using unat_u32_less [of a] q by simp
  have u: "unat (a + of_nat (4 * i)) = 4096 * q + 4 * i"
    using unat_add_of_nat [of a "4 * i"] q q20 assms(2) by simp
  have d: "(4096 * q + 4 * i) div 4096 = q" using assms(2) by simp
  moreover have "4096 * q div 4096 = q" by simp
  ultimately show "table_index (a + of_nat (4 * i)) = table_index a" by (simp only: table_index_def u q)
  have "(4096 * q + 4 * i) div 4194304 = (4096 * q + 4 * i) div 4096 div 1024" by (simp flip: div_mult2_eq)
  moreover have "4096 * q div 4194304 = 4096 * q div 4096 div 1024" by (simp flip: div_mult2_eq)
  ultimately show "dir_index (a + of_nat (4 * i)) = dir_index a" by (simp only: dir_index_def u q d)
  have "(4096 * q + 4 * i) div 4 = i + 1024 * q" by simp
  then show "word_index (a + of_nat (4 * i)) = i" using assms(2) by (simp only: word_index_def u mod_mult_self2 mod_less)
qed

lemma walk_offset: "\<lbrakk>page_aligned a; i < 1024\<rbrakk> \<Longrightarrow> walk s (a + of_nat (4 * i)) = walk s a"
  by (simp only: walk_def page_offset)

text \<open>Writing into a frame that is neither the directory nor the table of the address.\<close>

lemma walk_phys:
  assumes "phys s' (cr3 s') (dir_index a) = pde s (dir_index a)"
    and "pte_present (pde s (dir_index a)) \<Longrightarrow> phys s' (table_of s (dir_index a)) (table_index a) = phys s (table_of s (dir_index a)) (table_index a)"
  shows "walk s' a = walk s a"
  using assms by (simp add: walk_def Let_def)

definition put_frame :: "nat \<Rightarrow> (nat \<Rightarrow> u32) \<Rightarrow> vm \<Rightarrow> vm" where
  "put_frame f c s = s\<lparr>phys := (phys s)(f := c)\<rparr>"

lemma put_frame_simps [simp]:
  "cr3 (put_frame f c s) = cr3 s" "phy_frames_array (put_frame f c s) = phy_frames_array s"
  "last_allocated_index (put_frame f c s) = last_allocated_index s" "phys (put_frame f c s) = (phys s)(f := c)"
  "put_frame f d (put_frame f c s) = put_frame f d s" "set_phys f i v (put_frame f c s) = put_frame f (c(i := v)) s"
  by (simp_all add: put_frame_def set_phys_def)

lemma set_phys_put: "set_phys f i v s = put_frame f ((phys s f)(i := v)) s"
  by (simp add: set_phys_def put_frame_def)

lemma clear_words_eq:
  assumes "page_aligned a" "walk s a = Some f" "f \<noteq> cr3 s" "f \<noteq> table_of s (dir_index a)" "i + n \<le> 1024"
  shows "clear_words a i n s = Inr (put_frame f (\<lambda>j. if i \<le> j \<and> j < i + n then 0 else phys s f j) s)"
  using assms
proof (induction n arbitrary: i s)
  case 0
  have "(\<lambda>j. if i \<le> j \<and> j < i + 0 then X j else phys s h j) = phys s h" for X h
    by (rule ext) auto
  then show ?case by (simp only: clear_words.simps copy_words.simps put_frame_def fun_upd_triv) simp
next
  case (Suc n)
  have i: "i < 1024" using Suc.prems(5) by simp
  let ?s = "set_phys f i 0 s"
  have w: "vwrite (a + of_nat (4 * i)) 0 s = Inr ?s"
    using Suc.prems(2) walk_offset [OF Suc.prems(1) i, of s] page_offset(3) [OF Suc.prems(1) i] by (simp add: vwrite_def)
  have "walk ?s a = Some f" using Suc.prems(2-4) walk_phys [of ?s a s] by simp
  then have "clear_words a (Suc i) n ?s =
      Inr (put_frame f (\<lambda>j. if Suc i \<le> j \<and> j < Suc i + n then 0 else phys ?s f j) ?s)"
    using Suc.prems by (intro Suc.IH) simp_all
  moreover have "(\<lambda>j. if Suc i \<le> j \<and> j < Suc i + n then 0 else phys ?s f j) =
      (\<lambda>j. if i \<le> j \<and> j < i + Suc n then 0 else phys s f j)" by (auto simp: fun_eq_iff)
  moreover have "put_frame f c ?s = put_frame f c s" for c by (simp add: set_phys_put)
  ultimately show ?case using w by (simp only: clear_words.simps kbind_simps)
qed

lemma copy_words_eq:
  assumes "page_aligned dst" "page_aligned src" "walk s dst = Some g" "walk s src = Some f" "g \<noteq> cr3 s"
    and "g \<noteq> table_of s (dir_index dst)" "g \<noteq> table_of s (dir_index src)" "f \<noteq> g" "i + n \<le> 1024"
  shows "copy_words dst src i n s = Inr (put_frame g (\<lambda>j. if i \<le> j \<and> j < i + n then phys s f j else phys s g j) s)"
  using assms
proof (induction n arbitrary: i s)
  case 0
  have "(\<lambda>j. if i \<le> j \<and> j < i + 0 then X j else phys s h j) = phys s h" for X h
    by (rule ext) auto
  then show ?case by (simp only: clear_words.simps copy_words.simps put_frame_def fun_upd_triv) simp
next
  case (Suc n)
  have i: "i < 1024" using Suc.prems(9) by simp
  let ?s = "set_phys g i (phys s f i) s"
  have r: "vread s (src + of_nat (4 * i)) = Inr (phys s f i)"
    using Suc.prems(4) walk_offset [OF Suc.prems(2) i, of s] page_offset(3) [OF Suc.prems(2) i] by (simp add: vread_def)
  have w: "vwrite (dst + of_nat (4 * i)) (phys s f i) s = Inr ?s"
    using Suc.prems(3) walk_offset [OF Suc.prems(1) i, of s] page_offset(3) [OF Suc.prems(1) i] by (simp add: vwrite_def)
  have "walk ?s dst = Some g" "walk ?s src = Some f"
    using Suc.prems(3-7) walk_phys [of ?s dst s] walk_phys [of ?s src s] by simp_all
  then have "copy_words dst src (Suc i) n ?s =
      Inr (put_frame g (\<lambda>j. if Suc i \<le> j \<and> j < Suc i + n then phys ?s f j else phys ?s g j) ?s)"
    using Suc.prems by (intro Suc.IH) simp_all
  moreover have "(\<lambda>j. if Suc i \<le> j \<and> j < Suc i + n then phys ?s f j else phys ?s g j) =
      (\<lambda>j. if i \<le> j \<and> j < i + Suc n then phys s f j else phys s g j)" using Suc.prems(8) by (auto simp: fun_eq_iff)
  moreover have "put_frame g c ?s = put_frame g c s" for c by (simp add: set_phys_put)
  ultimately show ?case using r w by (simp only: copy_words.simps kbind_simps)
qed

section \<open>The frame pool\<close>

definition frames_ok :: "vm \<Rightarrow> bool" where
  "frames_ok s \<longleftrightarrow> length (phy_frames_array s) = PHY_FRAMES \<and> last_allocated_index s < PHY_FRAMES"

definition frame_ref :: "vm \<Rightarrow> nat \<Rightarrow> nat" where
  "frame_ref s f = (if f < PHY_FRAMES then unat (phy_frames_array s ! f) else 0)"

lemma frame_scan_Some: "frame_scan arr st i n = Some f \<Longrightarrow> f < PHY_FRAMES \<and> arr ! f = 0"
  by (induction arr st i n rule: frame_scan.induct) (auto simp: Let_def PHY_FRAMES_def split: if_splits)

lemma frame_scan_None: "frame_scan arr st i n = None \<longleftrightarrow> (\<forall>k. i \<le> k \<and> k < i + n \<longrightarrow> arr ! ((st + k) mod PHY_FRAMES) \<noteq> 0)"
proof (induction arr st i n rule: frame_scan.induct)
  case (2 arr st i n)
  have "(\<forall>k. i \<le> k \<and> k < i + Suc n \<longrightarrow> P k) \<longleftrightarrow> P i \<and> (\<forall>k. Suc i \<le> k \<and> k < Suc i + n \<longrightarrow> P k)" for P
    by (metis Suc_leD Suc_leI add_Suc add_Suc_right le_add1 le_imp_less_Suc le_neq_implies_less order_refl)
  then show ?case using 2 by (simp add: Let_def)
qed auto

text \<open>One full turn visits every frame.\<close>

lemma frame_scan_full:
  assumes "st < PHY_FRAMES"
  shows "frame_scan arr st 0 PHY_FRAMES = None \<longleftrightarrow> (\<forall>f<PHY_FRAMES. arr ! f \<noteq> 0)"
proof -
  have "\<exists>k. k < PHY_FRAMES \<and> (st + k) mod PHY_FRAMES = f" if "f < PHY_FRAMES" for f
  proof (cases "st \<le> f")
    case True
    then show ?thesis using that by (intro exI [of _ "f - st"]) simp
  next
    case False
    then show ?thesis using that assms by (intro exI [of _ "PHY_FRAMES + f - st"]) simp
  qed
  moreover have "(st + k) mod PHY_FRAMES < PHY_FRAMES" for k by (simp add: PHY_FRAMES_def)
  ultimately show ?thesis unfolding frame_scan_None by (metis add_0 le0)
qed

lemma frame_ref_upd:
  assumes "frames_ok s" "f < PHY_FRAMES"
  shows "frame_ref (s\<lparr>phy_frames_array := (phy_frames_array s)[f := v]\<rparr>) = (frame_ref s)(f := unat v)"
    "frame_ref (s\<lparr>phy_frames_array := (phy_frames_array s)[f := v], last_allocated_index := g\<rparr>) = (frame_ref s)(f := unat v)"
  using assms by (auto simp: frame_ref_def frames_ok_def fun_eq_iff nth_list_update)

lemma alloc_phy_frame_Some:
  assumes "frames_ok s" "alloc_phy_frame s = (Some f, s')"
  shows "f < PHY_FRAMES \<and> frame_ref s f = 0 \<and> frame_ref s' = (frame_ref s)(f := 1) \<and> frames_ok s' \<and>
    phys s' = phys s \<and> cr3 s' = cr3 s"
proof -
  have f: "frame_scan (phy_frames_array s) (last_allocated_index s) 0 PHY_FRAMES = Some f"
    and s': "s' = s\<lparr>phy_frames_array := (phy_frames_array s)[f := 1], last_allocated_index := f\<rparr>"
    using assms(2) by (auto simp: alloc_phy_frame_def split: option.splits)
  from frame_scan_Some [OF f] show ?thesis
    using assms(1) frame_ref_upd(2) [OF assms(1), where f = f and v = 1 and g = f] by (auto simp: s' frame_ref_def frames_ok_def)
qed

lemma unat_u16_arith:
  "unat (w :: u16) < 65535 \<Longrightarrow> unat (w + 1) = unat w + 1" "w \<noteq> 0 \<Longrightarrow> unat (w - 1) = unat w - 1"
  by (simp_all add: unat_word_ariths unat_minus_one)

interpretation fp: ref_pool alloc_phy_frame inc_cow_ref release_phy_frame frame_ref PHY_FRAMES 65535 frames_ok
proof (unfold_locales, goal_cases)
  case (1 s f s')
  then show ?case using alloc_phy_frame_Some by blast
next
  case (2 s)
  then have "fst (alloc_phy_frame s) = None \<longleftrightarrow> (\<forall>f<PHY_FRAMES. phy_frames_array s ! f \<noteq> 0)"
    using frame_scan_full [of "last_allocated_index s" "phy_frames_array s"]
    by (auto simp: alloc_phy_frame_def frames_ok_def split: option.splits)
  then show ?case by (simp add: frame_ref_def unat_gt_0)
next
  case (3 s f)
  then have "unat (phy_frames_array s ! f + 1) = frame_ref s f + 1"
    using unat_u16_arith(1) by (simp add: frame_ref_def)
  with 3 show ?case using frame_ref_upd(1) [of s f] by (auto simp: inc_cow_ref_def frames_ok_def)
next
  case (4 s f)
  then have "phy_frames_array s ! f \<noteq> 0" by (auto simp: frame_ref_def)
  moreover from this have "unat (phy_frames_array s ! f - 1) = frame_ref s f - 1"
    using unat_u16_arith(2) 4 by (simp add: frame_ref_def)
  ultimately show ?case using 4 frame_ref_upd(1) [of s f] by (auto simp: release_phy_frame_def frames_ok_def word_gt_0)
qed

section \<open>The invariant of the address space\<close>

text \<open>
  The directory maps itself; its tables are allocated frames, pairwise different. Frame 0 is never free,
  so a frame number given to \<^verbatim>\<open>map_page_with_frame_impl\<close> is positive.
\<close>

definition vm_ok :: "vm \<Rightarrow> bool" where
  "vm_ok s \<longleftrightarrow>
     rec_ok s \<and> frames_ok s \<and> frame_ref s 0 \<noteq> 0 \<and>
     (\<forall>i<1024. pte_present (pde s i) \<longrightarrow> frame_ref s (table_of s i) \<noteq> 0) \<and>
     (\<forall>i<1024. \<forall>j<1024. i \<noteq> j \<longrightarrow> pte_present (pde s i) \<longrightarrow> pte_present (pde s j) \<longrightarrow> table_of s i \<noteq> table_of s j)"

lemma vm_okD:
  assumes "vm_ok s"
  shows "rec_ok s" "frames_ok s" "frame_ref s 0 \<noteq> 0"
    "\<lbrakk>i < 1024; pte_present (pde s i)\<rbrakk> \<Longrightarrow> frame_ref s (table_of s i) \<noteq> 0"
    "\<lbrakk>i < 1024; j < 1024; i \<noteq> j; pte_present (pde s i); pte_present (pde s j)\<rbrakk> \<Longrightarrow> table_of s i \<noteq> table_of s j"
    "frame_ref s (cr3 s) \<noteq> 0" "\<lbrakk>i < 1024; i \<noteq> 769; pte_present (pde s i)\<rbrakk> \<Longrightarrow> table_of s i \<noteq> cr3 s"
proof -
  have l: "(769 :: nat) < 1024" by simp
  show r: "rec_ok s" "frames_ok s" "frame_ref s 0 \<noteq> 0"
    "\<lbrakk>i < 1024; pte_present (pde s i)\<rbrakk> \<Longrightarrow> frame_ref s (table_of s i) \<noteq> 0"
    "\<lbrakk>i < 1024; j < 1024; i \<noteq> j; pte_present (pde s i); pte_present (pde s j)\<rbrakk> \<Longrightarrow> table_of s i \<noteq> table_of s j" for i j
    using assms by (auto simp: vm_ok_def)
  show "frame_ref s (cr3 s) \<noteq> 0" using r(1) r(4) [OF l] by (simp add: rec_ok_def)
  show "\<lbrakk>i < 1024; i \<noteq> 769; pte_present (pde s i)\<rbrakk> \<Longrightarrow> table_of s i \<noteq> cr3 s"
    using r(1) r(5) [OF _ l, of i] by (simp add: rec_ok_def)
qed

lemma dir_index_less: "dir_index a < 1024"
  using unat_u32_less [of a] by (simp add: dir_index_def less_mult_imp_div_less)

lemma table_index_less: "table_index a < 1024"
  by (simp add: table_index_def)

lemma page_number:
  "unat a div 4096 < 1048576" "unat a div 4096 div 1024 = dir_index a" "unat a div 4096 mod 1024 = table_index a"
  using unat_u32_less [of a] by (simp_all add: dir_index_def table_index_def less_mult_imp_div_less flip: div_mult2_eq)

lemma free_frame:
  assumes "vm_ok s" "\<exists>f<PHY_FRAMES. frame_ref s f = 0"
  obtains f s' where "new_frame msg s = Inr (f, s')" "f < PHY_FRAMES" "frame_ref s f = 0" "frame_ref s' = (frame_ref s)(f := 1)"
    "frames_ok s'" "phys s' = phys s" "cr3 s' = cr3 s"
proof -
  have "fst (alloc_phy_frame s) \<noteq> None" using fp.alloc_None [OF vm_okD(2) [OF assms(1)]] assms(2) by blast
  then obtain f s' where a: "alloc_phy_frame s = (Some f, s')" by (cases "alloc_phy_frame s") auto
  from alloc_phy_frame_Some [OF vm_okD(2) [OF assms(1)] a] a that show ?thesis by (auto simp: new_frame_def)
qed

text \<open>A free frame is neither the directory nor a table.\<close>

lemma fresh_frame:
  assumes "vm_ok s" "frame_ref s f = 0"
  shows "f \<noteq> cr3 s" "f \<noteq> 0" "\<lbrakk>i < 1024; pte_present (pde s i)\<rbrakk> \<Longrightarrow> table_of s i \<noteq> f"
  using vm_okD(3,6) [OF assms(1)] vm_okD(4) [OF assms(1), of i] assms(2) by (metis, metis, metis)

text \<open>Writing an entry below a directory entry that is already there keeps the invariant.\<close>

lemma vm_ok_frame:
  assumes "vm_ok s" "cr3 s' = cr3 s" "phys s' (cr3 s) = phys s (cr3 s)" "frames_ok s'"
    and "\<And>f. frame_ref s f \<noteq> 0 \<Longrightarrow> frame_ref s' f \<noteq> 0"
  shows "vm_ok s'"
  using assms unfolding vm_ok_def rec_ok_def by simp


lemma page_base_props:
  "unat (page_base a) = unat a div 4096 * 4096" "page_aligned (page_base a)"
  "dir_index (page_base a) = dir_index a" "table_index (page_base a) = table_index a"
  "page_aligned a \<Longrightarrow> page_base a = a"
proof -
  have l: "unat a div 4096 * 4096 \<le> unat a" by simp
  then have "unat a div 4096 * 4096 < 4294967296" using unat_u32_less [of a] by linarith
  then show u: "unat (page_base a) = unat a div 4096 * 4096"
    by (simp add: page_base_def PAGE_SIZE_def unat_word_ariths unat_div)
  show "page_aligned (page_base a)" by (simp add: page_aligned_def u)
  have "unat a div 4096 * 4096 div 4194304 = unat a div 4096 * 4096 div 4096 div 1024" by (simp flip: div_mult2_eq)
  also have "\<dots> = unat a div 4194304" by (simp flip: div_mult2_eq)
  finally show "dir_index (page_base a) = dir_index a" by (simp only: dir_index_def u)
  show "table_index (page_base a) = table_index a" by (simp add: table_index_def u)
  assume "page_aligned a"
  then have "unat (page_base a) = unat a" unfolding u page_aligned_def by (metis add_0_right div_mult_mod_eq)
  then show "page_base a = a" by (rule unsigned_word_eqI)
qed

lemma walk_page_base: "walk s (page_base a) = walk s a"
  by (simp only: walk_def page_base_props)

lemma table_window:
  assumes "p < 1024"
  shows "PAGE_TABLES_VIRTUAL + of_nat p * PAGE_SIZE = pte_addr (p * 1024)" "page_aligned (pte_addr (p * 1024))"
    "dir_index (pte_addr (p * 1024)) = 769" "table_index (pte_addr (p * 1024)) = p"
proof -
  show "PAGE_TABLES_VIRTUAL + of_nat p * PAGE_SIZE = pte_addr (p * 1024)"
    by (simp add: pte_addr_def PAGE_SIZE_def)
  have "unat (pte_addr (p * 1024)) = 3225419776 + 4096 * p"
    using assms unat_add_of_nat [of PAGE_TABLES_VIRTUAL "4 * (p * 1024)"]
    by (simp add: pte_addr_def PAGE_TABLES_VIRTUAL_def)
  moreover have "(3225419776 + 4096 * p) mod 4096 = 0" by (simp add: mod_add_eq [symmetric])
  ultimately show "page_aligned (pte_addr (p * 1024))" by (simp add: page_aligned_def)
  show "dir_index (pte_addr (p * 1024)) = 769" "table_index (pte_addr (p * 1024)) = p"
    using assms pte_index [of "p * 1024"] by simp_all
qed

definition zero_page :: "(nat \<Rightarrow> u32) \<Rightarrow> nat \<Rightarrow> u32" where
  "zero_page c j = (if j < 1024 then 0 else c j)"

lemma clear_page_eq:
  assumes "walk s a = Some f" "f \<noteq> cr3 s" "f \<noteq> table_of s (dir_index a)"
  shows "clear_page a s = Inr (put_frame f (zero_page (phys s f)) s)"
proof -
  have "zero_page (phys s f) = (\<lambda>j. if 0 \<le> j \<and> j < 0 + 1024 then 0 else phys s f j)" by (simp add: zero_page_def fun_eq_iff)
  then show ?thesis
    using clear_words_eq [of "page_base a" s f 0 1024] assms page_base_props(2,3) walk_page_base [of s a] by (simp add: clear_page_def)
qed

lemma ensure_table_new:
  assumes ok: "vm_ok s" and p: "dir_index a = p" "p \<noteq> 769" "\<not> pte_present (pde s p)" and free: "\<exists>f<PHY_FRAMES. frame_ref s f = 0"
  shows "\<exists>f s'. ensure_table a s = Inr s' \<and> f < PHY_FRAMES \<and> frame_ref s f = 0 \<and> frame_ref s' = (frame_ref s)(f := 1) \<and>
    frames_ok s' \<and> cr3 s' = cr3 s \<and>
    phys s' = (phys s)(cr3 s := (phys s (cr3 s))(p := set_entry (pde s p) (a < 0xC0000000) f), f := zero_page (phys s f))"
proof -
  have pl: "p < 1024" using dir_index_less p(1) by blast
  from free_frame [OF ok free, of "''couldn't alloc frame for page table''"] obtain f s1 where
    f: "new_frame ''couldn't alloc frame for page table'' s = Inr (f, s1)" "f < PHY_FRAMES" "frame_ref s f = 0"
      "frame_ref s1 = (frame_ref s)(f := 1)" "frames_ok s1" "phys s1 = phys s" "cr3 s1 = cr3 s" by blast
  let ?e = "set_entry (pde s p) (a < 0xC0000000) f" and ?w = "pte_addr (p * 1024)"
  let ?s2 = "set_phys (cr3 s) p ?e s1"
  note fr = fresh_frame [OF ok f(3)]
  have rec: "rec_ok s" "rec_ok s1" "rec_ok ?s2" using vm_okD(1) [OF ok] f(6,7) p(2) by (simp_all add: rec_ok_def)
  have w: "vwrite (pde_addr p) ?e s1 = Inr ?s2" using window_pde(2) [OF rec(2) pl] f(7) by simp
  have f20: "f < 1048576" using f(2) by (simp add: PHY_FRAMES_def)
  have e: "pte_present ?e" "pte_frame ?e = f" using set_entry_fields f20 by blast+
  have "walk ?s2 ?w = Some f"
    using rec(3) e f(6,7) pl by (simp add: walk_def table_window rec_ok_def)
  moreover have "table_of ?s2 (dir_index ?w) = cr3 s" using rec(3) f(7) pl by (simp add: table_window rec_ok_def)
  ultimately have "clear_page ?w ?s2 = Inr (put_frame f (zero_page (phys s f)) ?s2)"
    using clear_page_eq [of ?s2 ?w f] fr(1) f(6,7) by simp
  then have "ensure_table a s = Inr (put_frame f (zero_page (phys s f)) ?s2)"
    using window_pde(1) [OF rec(1) pl] p w f(1) table_window(1) [OF pl] by (simp add: ensure_table_def)
  moreover have "frame_ref (put_frame f c ?s2) = frame_ref s1" "frames_ok (put_frame f c ?s2)" for c
    using f(5) by (simp_all add: frame_ref_def fun_eq_iff frames_ok_def)
  ultimately show ?thesis using f by (intro exI [of _ f] exI [of _ "put_frame f (zero_page (phys s f)) ?s2"]) simp
qed

section \<open>Mapping one page\<close>

definition free_frames :: "vm \<Rightarrow> nat set" where
  "free_frames s = {f. f < PHY_FRAMES \<and> frame_ref s f = 0}"

lemma finite_free_frames [simp]: "finite (free_frames s)"
  by (simp add: free_frames_def)

text \<open>What creating a page table for directory entry \<open>p\<close> does.\<close>

definition table_added :: "nat \<Rightarrow> vm \<Rightarrow> vm \<Rightarrow> bool" where
  "table_added p s s' \<longleftrightarrow>
     vm_ok s' \<and> cr3 s' = cr3 s \<and> pte_present (pde s' p) \<and>
     (\<forall>v. dir_index v \<noteq> 769 \<longrightarrow> walk s' v = walk s v) \<and>
     (\<forall>g. frame_ref s g \<noteq> 0 \<longrightarrow> frame_ref s' g = frame_ref s g \<and> (g \<noteq> cr3 s \<longrightarrow> phys s' g = phys s g)) \<and>
     card (free_frames s) \<le> card (free_frames s') + 1 \<and> (pte_present (pde s p) \<longrightarrow> s' = s) \<and>
     (\<not> pte_present (pde s p) \<longrightarrow> frame_ref s (table_of s' p) = 0) \<and> free_frames s' \<subseteq> free_frames s"

lemma card_free_upd:
  assumes "frame_ref s' = (frame_ref s)(f := 1)" "f < PHY_FRAMES" "frame_ref s f = 0"
  shows "card (free_frames s) = card (free_frames s') + 1" "free_frames s' \<subseteq> free_frames s"
proof -
  have "free_frames s = insert f (free_frames s')" "f \<notin> free_frames s'"
    using assms by (auto simp: free_frames_def)
  then show "card (free_frames s) = card (free_frames s') + 1" "free_frames s' \<subseteq> free_frames s" by auto
qed

lemma ensure_table_ok:
  assumes ok: "vm_ok s" and p: "dir_index a \<noteq> 769" and free: "free_frames s \<noteq> {}"
  shows "\<exists>s'. ensure_table a s = Inr s' \<and> table_added (dir_index a) s s'"
proof (cases "pte_present (pde s (dir_index a))")
  case True
  then have "ensure_table a s = Inr s" using window_pde(1) [OF vm_okD(1) [OF ok] dir_index_less] by (simp add: ensure_table_def)
  then show ?thesis using ok True by (simp add: table_added_def)
next
  case False
  let ?p = "dir_index a"
  from ensure_table_new [OF ok refl p False] free obtain f s' where
    s': "ensure_table a s = Inr s'" "f < PHY_FRAMES" "frame_ref s f = 0" "frame_ref s' = (frame_ref s)(f := 1)" "frames_ok s'" "cr3 s' = cr3 s"
      "phys s' = (phys s)(cr3 s := (phys s (cr3 s))(?p := set_entry (pde s ?p) (a < 0xC0000000) f), f := zero_page (phys s f))"
    by (auto simp: free_frames_def)
  have pl: "?p < 1024" by (rule dir_index_less)
  note fr = fresh_frame [OF ok s'(3)]
  have f20: "f < 1048576" using s'(2) by (simp add: PHY_FRAMES_def)
  have e: "pte_present (pde s' ?p)" "table_of s' ?p = f" using s'(6,7) fr(1) f20 by (simp_all add: set_entry_fields)
  have o: "pde s' i = pde s i" if "i \<noteq> ?p" for i using that s'(6,7) fr(1) by simp
  have "vm_ok s'"
  proof -
    have "rec_ok s'" using vm_okD(1) [OF ok] o [of 769] p s'(6) by (auto simp: rec_ok_def)
    moreover have "frame_ref s' (table_of s' i) \<noteq> 0" if "i < 1024" "pte_present (pde s' i)" for i
      using that e o [of i] vm_okD(4) [OF ok, of i] s'(4) by (cases "i = ?p") auto
    moreover have "table_of s' i \<noteq> table_of s' j" if "i < 1024" "j < 1024" "i \<noteq> j" "pte_present (pde s' i)" "pte_present (pde s' j)" for i j
      using that e o [of i] o [of j] fr(3) [of i] fr(3) [of j] vm_okD(5) [OF ok, of i j] by (cases "i = ?p"; cases "j = ?p") auto
    ultimately show ?thesis using s'(4,5) vm_okD(3) [OF ok] by (auto simp: vm_ok_def)
  qed
  moreover have "walk s' v = walk s v" if "dir_index v \<noteq> 769" for v
  proof (cases "dir_index v = ?p")
    case True
    have "phys s' f (table_index v) = 0" using s'(7) table_index_less [of v] fr(1) by (simp add: zero_page_def)
    then show ?thesis using True e False by (simp add: walk_def pte_present_def)
  next
    case np: False
    show ?thesis
    proof (rule walk_phys)
      show "pde s' (dir_index v) = pde s (dir_index v)" by (rule o [OF np])
      assume "pte_present (pde s (dir_index v))"
      then have "table_of s (dir_index v) \<noteq> f" "table_of s (dir_index v) \<noteq> cr3 s"
        using fr(3) [OF dir_index_less] vm_okD(7) [OF ok dir_index_less that] by blast+
      then show "phys s' (table_of s (dir_index v)) (table_index v) = phys s (table_of s (dir_index v)) (table_index v)" by (simp add: s'(7))
    qed
  qed
  moreover have "\<forall>g. frame_ref s g \<noteq> 0 \<longrightarrow> frame_ref s' g = frame_ref s g \<and> (g \<noteq> cr3 s \<longrightarrow> phys s' g = phys s g)"
    using s'(3,4,7) by auto
  ultimately show ?thesis
    using s'(1,3,6) e False card_free_upd [OF s'(4,2,3)] by (auto simp: table_added_def)
qed

text \<open>The new entry in a table that is there.\<close>

lemma map_new_page:
  assumes ok: "vm_ok s" and p: "dir_index a \<noteq> 769" "pte_present (pde s (dir_index a))" and w: "walk s a = None"
    and free: "free_frames s \<noteq> {}"
  shows "\<exists>f s' E. map_page a s = Inr s' \<and> f < PHY_FRAMES \<and> frame_ref s f = 0 \<and> frame_ref s' = (frame_ref s)(f := 1) \<and>
    frames_ok s' \<and> cr3 s' = cr3 s \<and> E = set_entry (phys s (table_of s (dir_index a)) (table_index a)) (a < 0xC0000000) f \<and>
    phys s' = (phys s)(table_of s (dir_index a) := (phys s (table_of s (dir_index a)))(table_index a := E), f := zero_page (phys s f))"
proof -
  let ?p = "dir_index a" and ?k = "unat a div 4096" and ?T = "table_of s (dir_index a)"
  have rec: "rec_ok s" by (rule vm_okD(1) [OF ok])
  have pl: "?p < 1024" by (rule dir_index_less)
  have np: "\<not> pte_present (phys s ?T (table_index a))" using w p(2) by (simp add: walk_def Let_def split: if_splits)
  have et: "ensure_table a s = Inr s" using window_pde(1) [OF rec pl] p(2) by (simp add: ensure_table_def)
  have pk: "pte_present (pde s (?k div 1024))" using p(2) by (simp only: page_number)
  have rd: "vread s (pte_addr ?k) = Inr (phys s ?T (table_index a))"
    using window_pte(1) [OF rec page_number(1) pk] by (simp only: page_number)
  from free_frame [OF ok, of "''couldn't alloc frame for page''"] free obtain f s1 where
    f: "new_frame ''couldn't alloc frame for page'' s = Inr (f, s1)" "f < PHY_FRAMES" "frame_ref s f = 0"
      "frame_ref s1 = (frame_ref s)(f := 1)" "frames_ok s1" "phys s1 = phys s" "cr3 s1 = cr3 s"
    by (auto simp: free_frames_def)
  let ?e = "set_entry (phys s ?T (table_index a)) (a < 0xC0000000) f"
  let ?s2 = "set_phys ?T (table_index a) ?e s1"
  have rec1: "rec_ok s1" "pte_present (pde s1 (?k div 1024))" using rec pk f(6,7) by (simp_all add: rec_ok_def)
  have wr: "vwrite (pte_addr ?k) ?e s1 = Inr ?s2"
    using window_pte(2) [OF rec1(1) page_number(1) rec1(2)] f(6,7) by (simp only: page_number)
  note fr = fresh_frame [OF ok f(3)]
  have T: "?T \<noteq> cr3 s" "?T \<noteq> f" using vm_okD(7) [OF ok pl p(1,2)] fr(3) [OF pl p(2)] by auto
  have f20: "f < 1048576" using f(2) by (simp add: PHY_FRAMES_def)
  have "walk ?s2 a = Some f" using p(2) T f(6,7) f20 by (simp add: walk_def set_entry_fields)
  then have "clear_page a ?s2 = Inr (put_frame f (zero_page (phys ?s2 f)) ?s2)"
    using fr(1) T f(6,7) by (intro clear_page_eq) simp_all
  moreover have "phys ?s2 f = phys s f" using T f(6) by simp
  ultimately have "map_page a s = Inr (put_frame f (zero_page (phys s f)) ?s2)"
    using et rd wr f(1) np by (simp add: map_page_def map_page_with_frame_def map_page_with_frame_impl_def Let_def)
  moreover have "frame_ref (put_frame f c ?s2) = frame_ref s1" "frames_ok (put_frame f c ?s2)" for c
    using f(5) by (simp_all add: frame_ref_def fun_eq_iff frames_ok_def)
  ultimately show ?thesis using f
    by (intro exI [of _ f] exI [of _ "put_frame f (zero_page (phys s f)) ?s2"] exI [of _ ?e]) simp
qed


definition same_page :: "u32 \<Rightarrow> u32 \<Rightarrow> bool" where
  "same_page a b \<longleftrightarrow> dir_index a = dir_index b \<and> table_index a = table_index b"

lemma new_entry_ok:
  assumes ok: "vm_ok s" and p: "dir_index a \<noteq> 769" "pte_present (pde s (dir_index a))"
    and s': "frame_ref s f = 0" "f < PHY_FRAMES" "frame_ref s' = (frame_ref s)(f := 1)" "frames_ok s'" "cr3 s' = cr3 s"
      "E = set_entry (phys s (table_of s (dir_index a)) (table_index a)) (a < 0xC0000000) f"
      "phys s' = (phys s)(table_of s (dir_index a) := (phys s (table_of s (dir_index a)))(table_index a := E), f := zero_page (phys s f))"
  shows "vm_ok s'" "walk s' a = Some f" "\<And>j. j < 1024 \<Longrightarrow> phys s' f j = 0"
    "\<And>v. \<lbrakk>dir_index v \<noteq> 769; \<not> same_page v a\<rbrakk> \<Longrightarrow> walk s' v = walk s v"
    "phys s' (table_of s' (dir_index a)) (table_index a) = E" "table_of s' (dir_index a) = table_of s (dir_index a)"
proof -
  let ?p = "dir_index a" and ?T = "table_of s (dir_index a)"
  have pl: "?p < 1024" by (rule dir_index_less)
  note fr = fresh_frame [OF ok s'(1)]
  have T: "?T \<noteq> cr3 s" "?T \<noteq> f" using vm_okD(7) [OF ok pl p(1,2)] fr(3) [OF pl p(2)] by auto
  have pd: "phys s' (cr3 s) = phys s (cr3 s)" using T fr(1) s'(7) by simp
  show "vm_ok s'" by (rule vm_ok_frame [OF ok s'(5) pd s'(4)]) (simp add: s'(3))
  have f20: "f < 1048576" using s'(2) by (simp add: PHY_FRAMES_def)
  have E: "pte_present E" "pte_frame E = f" using f20 by (simp_all add: s'(6) set_entry_fields)
  show e: "phys s' (table_of s' ?p) (table_index a) = E" "table_of s' ?p = ?T" using pd T s'(5,7) by simp_all
  show "walk s' a = Some f" using e pd p(2) E s'(5) by (simp add: walk_def)
  show "phys s' f j = 0" if "j < 1024" for j using that by (simp add: s'(7) zero_page_def)
  show "walk s' v = walk s v" if v: "dir_index v \<noteq> 769" "\<not> same_page v a" for v
  proof (rule walk_phys)
    show "pde s' (dir_index v) = pde s (dir_index v)" using pd s'(5) by simp
    assume pv: "pte_present (pde s (dir_index v))"
    have nf: "table_of s (dir_index v) \<noteq> f" using fr(3) [OF dir_index_less pv] .
    show "phys s' (table_of s (dir_index v)) (table_index v) = phys s (table_of s (dir_index v)) (table_index v)"
    proof (cases "dir_index v = ?p")
      case True
      then show ?thesis using v(2) nf by (simp add: s'(7) same_page_def)
    next
      case False
      then have "table_of s (dir_index v) \<noteq> ?T" using vm_okD(5) [OF ok dir_index_less pl False pv p(2)] by blast
      then show ?thesis using nf by (simp add: s'(7))
    qed
  qed
qed

lemma map_page_ok:
  assumes ok: "vm_ok s" and p: "dir_index a \<noteq> 769" and w: "walk s a = None" and free: "2 \<le> card (free_frames s)"
  shows "\<exists>s' f. map_page a s = Inr s' \<and> vm_ok s' \<and> cr3 s' = cr3 s \<and> walk s' a = Some f \<and> frame_ref s f = 0 \<and> frame_ref s' f = 1 \<and>
    (\<forall>j<1024. phys s' f j = 0) \<and> (\<forall>v. dir_index v \<noteq> 769 \<longrightarrow> \<not> same_page v a \<longrightarrow> walk s' v = walk s v) \<and>
    (\<exists>E. phys s' (table_of s' (dir_index a)) (table_index a) = E \<and> pte_rw E \<and> pte_user E = (a < 0xC0000000)) \<and>
    (\<forall>g. frame_ref s g \<noteq> 0 \<longrightarrow> frame_ref s' g = frame_ref s g \<and>
      (g \<noteq> cr3 s \<longrightarrow> g \<noteq> table_of s' (dir_index a) \<longrightarrow> phys s' g = phys s g))"
proof -
  have "free_frames s \<noteq> {}" using free by auto
  from ensure_table_ok [OF ok p this] obtain s1 where s1: "ensure_table a s = Inr s1" "table_added (dir_index a) s s1" by blast
  note t = s1(2) [unfolded table_added_def]
  have ok1: "vm_ok s1" and p1: "pte_present (pde s1 (dir_index a))" and w1: "walk s1 a = None" using t w p by auto
  have "card (free_frames s1) \<noteq> 0" using t free by linarith
  then have free1: "free_frames s1 \<noteq> {}" by auto
  have "ensure_table a s1 = Inr s1" using window_pde(1) [OF vm_okD(1) [OF ok1] dir_index_less] p1 by (simp add: ensure_table_def)
  then have via: "map_page a s = map_page a s1"
    using s1(1) by (simp add: map_page_def map_page_with_frame_def map_page_with_frame_impl_def)
  from map_new_page [OF ok1 p p1 w1 free1] obtain f s' E where
    m: "map_page a s1 = Inr s'" "f < PHY_FRAMES" "frame_ref s1 f = 0" "frame_ref s' = (frame_ref s1)(f := 1)" "frames_ok s'" "cr3 s' = cr3 s1"
      "E = set_entry (phys s1 (table_of s1 (dir_index a)) (table_index a)) (a < 0xC0000000) f"
      "phys s' = (phys s1)(table_of s1 (dir_index a) := (phys s1 (table_of s1 (dir_index a)))(table_index a := E), f := zero_page (phys s1 f))"
    by blast
  note n = new_entry_ok [OF ok1 p p1 m(3,2,4-8)]
  have f0: "frame_ref s f = 0" using t m(3) by (metis (lifting))
  have g: "frame_ref s' g = frame_ref s g \<and> (g \<noteq> cr3 s \<longrightarrow> g \<noteq> table_of s' (dir_index a) \<longrightarrow> phys s' g = phys s g)"
    if g0: "frame_ref s g \<noteq> 0" for g
  proof -
    have "g \<noteq> f" using g0 f0 by blast
    moreover have "frame_ref s1 g = frame_ref s g" "g \<noteq> cr3 s \<longrightarrow> phys s1 g = phys s g" using t g0 by blast+
    ultimately show ?thesis using n(6) by (simp add: m(4,8))
  qed
  have "walk s' v = walk s v" if "dir_index v \<noteq> 769" "\<not> same_page v a" for v using n(4) [OF that] t that(1) by simp
  moreover have "pte_rw E" "pte_user E = (a < 0xC0000000)" by (simp_all add: m(7) set_entry_fields)
  ultimately show ?thesis
    using via m(1,4,6) n f0 g t by (intro exI [of _ s'] exI [of _ f]) auto
qed

end
