(* ===== verification/Page_Cow.thy ===== *)
theory Page_Cow
  imports Page
begin

text \<open>
  Copy on write, \<^verbatim>\<open>handle_cow_fault\<close> of \<^verbatim>\<open>src/src/mem/page.c\<close>: the copy of a shared
  page through the kernel's scratch page, and what the page fault handler does on each kind of fault.
\<close>

section \<open>Releasing one page\<close>

lemma kfold_Nil: "kfold f [] = Inr"
  by (rule ext) simp

lemma release_one_page:
  assumes al: "page_aligned a" and rec: "rec_ok s" and p: "pte_present (pde s (dir_index a))"
  shows "release_pages a 1 ff s = release_page a ff s"
proof -
  let ?k = "unat a div 4096"
  have k: "?k < 1048576" by (rule page_number(1))
  have b: "page_base a = a" by (rule page_base_props(5) [OF al])
  have 1: "unat (a div 4096) = ?k" by (simp add: unat_div)
  then have 2: "unat (a div 4096 + 1) = ?k + 1" using k by (subst unat_succ32) simp_all
  have 3: "unat (a div 4194304) = dir_index a" by (simp add: unat_div dir_index_def)
  have d: "?k div 1024 = dir_index a" by (rule page_number(2))
  have "unat ((a div 4096 + 1 - 1) div 1024) = dir_index a" using 1 d by (simp add: unat_div)
  moreover from this have "unat ((a div 4096 + 1 - 1) div 1024 + 1) = dir_index a + 1"
    using dir_index_less [of a] by (subst unat_succ32) simp_all
  ultimately have 4: "unat ((a div 4096 + 1 - 1) div 1024 + 1) = Suc (dir_index a)" by simp
  have m: "dir_index a * 1024 \<le> ?k" "?k < dir_index a * 1024 + 1024"
    using d div_mult_mod_eq [of ?k 1024] mod_less_divisor [of 1024 ?k] by linarith+
  have r: "[max (dir_index a * 1024) ?k..<min (dir_index a * 1024 + 1024) (?k + 1)] = [?k]"
  proof -
    have "max (dir_index a * 1024) ?k = ?k" "min (dir_index a * 1024 + 1024) (?k + 1) = Suc ?k" using m by auto
    then show ?thesis by simp
  qed
  have "unat (of_nat ?k * PAGE_SIZE) = ?k * 4096"
    using k by (simp add: PAGE_SIZE_def unat_word_ariths unat_of_nat_small)
  then have "unat (of_nat ?k * PAGE_SIZE) = unat (page_base a)" by (simp add: page_base_props(1))
  then have a: "of_nat ?k * PAGE_SIZE = a" using b by (metis unsigned_word_eqI)
  have one: "[dir_index a..<Suc (dir_index a)] = [dir_index a]" by simp
  have "release_pages a 1 ff s = kbind (vread s (pde_addr (dir_index a))) (\<lambda>pde.
      if \<not> pte_present pde then Inr s else kfold (\<lambda>j. release_page (of_nat j * PAGE_SIZE) ff) [?k] s)"
    unfolding release_pages_def Let_def b 1 2 3 4 one kfold.simps kfold_Nil kbind_Inr_right r ..
  then show ?thesis
    using window_pde(1) [OF rec dir_index_less] p a by (simp add: kfold_Nil)
qed

lemma unmap_page:
  assumes rec: "rec_ok s" and al: "page_aligned a" and p: "pte_present (pde s (dir_index a))"
    and e: "pte_present (phys s (table_of s (dir_index a)) (table_index a))"
  shows "release_pages a 1 False s = Inr (set_phys (table_of s (dir_index a)) (table_index a) 0 s)"
proof -
  let ?k = "unat a div 4096"
  have pk: "pte_present (pde s (?k div 1024))" using p by (simp only: page_number)
  show ?thesis
    using release_one_page [OF al rec p] window_pte [OF rec page_number(1) pk] e
    by (simp add: release_page_def Let_def page_number)
qed

section \<open>Mapping a given frame\<close>

lemma map_frame:
  assumes rec: "rec_ok s" and p: "pte_present (pde s (dir_index a))"
    and e: "\<not> pte_present (phys s (table_of s (dir_index a)) (table_index a))" and f: "0 < f"
  shows "map_page_with_frame_impl a (int f) s =
    Inr (set_phys (table_of s (dir_index a)) (table_index a)
      (set_entry (phys s (table_of s (dir_index a)) (table_index a)) (a < 0xC0000000) f) s)"
proof -
  let ?k = "unat a div 4096"
  have pk: "pte_present (pde s (?k div 1024))" using p by (simp only: page_number)
  have "ensure_table a s = Inr s" using window_pde(1) [OF rec dir_index_less] p by (simp add: ensure_table_def)
  then show ?thesis using window_pte [OF rec page_number(1) pk] e f
    by (simp add: map_page_with_frame_impl_def Let_def page_number)
qed

lemma copied_page_index:
  "page_aligned COPIED_PAGE_VADDR" "dir_index COPIED_PAGE_VADDR = 1023" "table_index COPIED_PAGE_VADDR = 1023"
  "page_aligned COPIED_PAGE_TABLE_VADDR" "dir_index COPIED_PAGE_TABLE_VADDR = 1023" "table_index COPIED_PAGE_TABLE_VADDR = 1022"
  "page_aligned COPIED_PAGE_DIR_VADDR" "dir_index COPIED_PAGE_DIR_VADDR = 1023" "table_index COPIED_PAGE_DIR_VADDR = 1021"
  by (simp_all add: page_aligned_def dir_index_def table_index_def COPIED_PAGE_VADDR_def COPIED_PAGE_TABLE_VADDR_def COPIED_PAGE_DIR_VADDR_def)


text \<open>A page copied into a fresh frame through a scratch address \<open>C\<close>.\<close>

definition page_copy :: "(nat \<Rightarrow> u32) \<Rightarrow> (nat \<Rightarrow> u32) \<Rightarrow> nat \<Rightarrow> u32" where
  "page_copy src dst j = (if j < 1024 then src j else dst j)"

lemma map_and_copy:
  assumes rec: "rec_ok s" and C: "page_aligned C" "pte_present (pde s (dir_index C))" "\<not> C < 0xC0000000"
    and U: "U = table_of s (dir_index C)" "i = table_index C" "U \<noteq> cr3 s" "U \<noteq> g" "\<not> pte_present (phys s U i)"
    and g: "0 < g" "g < 1048576" "g \<noteq> cr3 s" "g \<noteq> table_of s (dir_index src)"
    and src: "page_aligned src" "walk s src = Some f" "table_of s (dir_index src) = U \<Longrightarrow> table_index src \<noteq> i" "f \<noteq> U" "f \<noteq> g"
  shows "map_page_with_frame_impl C (int g) s = Inr (set_phys U i (set_entry (phys s U i) False g) s)"
    "copy_words C src 0 1024 (set_phys U i (set_entry (phys s U i) False g) s) =
      Inr (put_frame g (page_copy (phys s f) (phys s g)) (set_phys U i (set_entry (phys s U i) False g) s))"
proof -
  let ?E = "set_entry (phys s U i) False g" and ?s2 = "set_phys U i (set_entry (phys s U i) False g) s"
  show "map_page_with_frame_impl C (int g) s = Inr ?s2" using map_frame [OF rec C(2)] U C(3) g(1) by simp
  have E: "pte_present ?E" "pte_frame ?E = g" using g(2) by (simp_all add: set_entry_fields)
  have pd: "pde ?s2 n = pde s n" for n using U(3) by simp
  have wC: "walk ?s2 C = Some g" using C(2) E U(1-3) by (simp add: walk_def)
  have wS: "walk ?s2 src = Some f" using src(2,3) pd by (subst walk_phys [where s = s]) auto
  have "copy_words C src 0 1024 ?s2 = Inr (put_frame g (\<lambda>j. if 0 \<le> j \<and> j < 0 + 1024 then phys ?s2 f j else phys ?s2 g j) ?s2)"
    by (rule copy_words_eq [OF C(1) src(1) wC wS]) (use g U src(5) pd in auto)
  moreover have "(\<lambda>j. if 0 \<le> j \<and> j < 0 + 1024 then phys ?s2 f j else phys ?s2 g j) = page_copy (phys s f) (phys s g)"
    using src(4) U(4) by (auto simp: fun_eq_iff page_copy_def)
  ultimately show "copy_words C src 0 1024 ?s2 = Inr (put_frame g (page_copy (phys s f) (phys s g)) ?s2)" by simp
qed

section \<open>A write to a shared page\<close>

text \<open>The kernel's scratch page is mapped nowhere between two copies.\<close>

definition scratch_ok :: "vm \<Rightarrow> bool" where
  "scratch_ok s \<longleftrightarrow> pte_present (pde s 1023) \<and> \<not> pte_present (phys s (table_of s 1023) 1023)"

definition cow_phys :: "nat \<Rightarrow> nat \<Rightarrow> u32 \<Rightarrow> nat \<Rightarrow> nat \<Rightarrow> nat \<Rightarrow> vm \<Rightarrow> vm" where
  "cow_phys T ti e g f U s = set_phys U 1023 0 (set_phys T ti (set_rw (set_frame e g))
     (put_frame g (page_copy (phys s f) (phys s g)) s))"

lemma cow_copy_eq:
  assumes ok: "vm_ok s" and sc: "scratch_ok s" and p: "dir_index a \<noteq> 769" "\<not> same_page a COPIED_PAGE_VADDR"
    and w: "pte_present (pde s (dir_index a))" "T = table_of s (dir_index a)" "e = phys s T (table_index a)" "pte_present e" "f = pte_frame e"
    and f: "f < PHY_FRAMES" "1 < frame_ref s f" "f \<noteq> cr3 s" "\<forall>i<1024. pte_present (pde s i) \<longrightarrow> table_of s i \<noteq> f"
    and free: "free_frames s \<noteq> {}"
  shows "\<exists>s' g. cow_copy a f s = Inr s' \<and> g < PHY_FRAMES \<and> frame_ref s g = 0 \<and> cr3 s' = cr3 s \<and> frames_ok s' \<and>
    frame_ref s' = (frame_ref s)(g := 1, f := frame_ref s f - 1) \<and>
    phys s' = phys (cow_phys T (table_index a) e g f (table_of s 1023) s)"
proof -
  let ?U = "table_of s 1023" and ?C = COPIED_PAGE_VADDR and ?k = "unat a div 4096"
  from free_frame [OF ok, of "''couldn't alloc frame for addr in cow''"] free obtain g s1 where
    g: "new_frame ''couldn't alloc frame for addr in cow'' s = Inr (g, s1)" "g < PHY_FRAMES" "frame_ref s g = 0"
      "frame_ref s1 = (frame_ref s)(g := 1)" "frames_ok s1" "phys s1 = phys s" "cr3 s1 = cr3 s"
    by (auto simp: free_frames_def)
  have rec: "rec_ok s1" using vm_okD(1) [OF ok] g by (simp add: rec_ok_def)
  note fr = fresh_frame [OF ok g(3)]
  have U: "pte_present (pde s 1023)" "?U \<noteq> cr3 s" "?U \<noteq> g" "?U \<noteq> f" "\<not> pte_present (phys s ?U 1023)"
    using sc vm_okD(7) [OF ok, of 1023] fr(3) [of 1023] f(4) by (auto simp: scratch_ok_def)
  have T: "T \<noteq> cr3 s" "T \<noteq> g"
    using w(1,2) vm_okD(7) [OF ok dir_index_less p(1) w(1)] fr(3) [OF dir_index_less w(1)] by auto
  have np: "T = ?U \<Longrightarrow> table_index a \<noteq> 1023"
    using p(2) w(1,2) U(1) vm_okD(5) [OF ok dir_index_less, of 1023 a] by (auto simp: same_page_def copied_page_index)
  have gf: "f \<noteq> g" using g(3) f(2) by auto
  have g20: "0 < g" "g < 1048576" using fr(2) g(2) by (auto simp: PHY_FRAMES_def)
  have neg: "\<not> ?C < 0xC0000000" by (simp add: COPIED_PAGE_VADDR_def)
  have wa: "walk s1 (page_base a) = Some f" unfolding walk_page_base using w g by (simp add: walk_def)
  let ?s2 = "set_phys ?U 1023 (set_entry (phys s ?U 1023) False g) s1"
  let ?s3 = "put_frame g (page_copy (phys s f) (phys s g)) ?s2"
  have mc: "map_page_with_frame_impl ?C (int g) s1 = Inr ?s2" "copy_words ?C (page_base a) 0 1024 ?s2 = Inr ?s3"
    using map_and_copy [OF rec copied_page_index(1) _ neg refl refl _ _ _ g20 _ _ page_base_props(2) wa] U T w np gf fr(1) g(6,7)
    by (simp_all add: copied_page_index page_base_props)
  have pd3: "pde ?s3 i = pde s i" for i using g(6,7) U(2) fr(1) by simp
  have rec3: "rec_ok ?s3" using vm_okD(1) [OF ok] pd3 g(7) by (simp add: rec_ok_def)
  have pk: "pte_present (pde ?s3 (?k div 1024))" using w(1) pd3 by (simp only: page_number)
  have e3: "phys ?s3 T (table_index a) = e" using T np w(3) g(6) by auto
  have r3: "vread ?s3 (pte_addr ?k) = Inr e"
    using window_pte(1) [OF rec3 page_number(1) pk] e3 w(2) pd3 by (simp only: page_number)
  let ?s4 = "set_phys T (table_index a) (set_rw (set_frame e g)) ?s3"
  have w3: "vwrite (pte_addr ?k) (set_rw (set_frame e g)) ?s3 = Inr ?s4"
    using window_pte(2) [OF rec3 page_number(1) pk] w(2) pd3 by (simp only: page_number)
  have pd4: "pde ?s4 i = pde s i" for i using pd3 T(1) g(7) by simp
  have rec4: "rec_ok ?s4" using vm_okD(1) [OF ok] pd4 g(7) by (simp add: rec_ok_def)
  have "phys ?s4 ?U 1023 = set_entry (phys s ?U 1023) False g" using np U(3) by auto
  then have "pte_present (phys ?s4 ?U 1023)" by (simp only: set_entry_fields)
  then have u: "release_pages ?C 1 False ?s4 = Inr (set_phys ?U 1023 0 ?s4)"
    using unmap_page [OF rec4 copied_page_index(1)] U(1) by (simp only: copied_page_index pd4)
  let ?s5 = "set_phys ?U 1023 0 ?s4"
  have "frame_ref ?s5 = frame_ref s1" by (simp add: frame_ref_def fun_eq_iff)
  then have ref5: "frame_ref ?s5 = (frame_ref s)(g := 1)" using g(4) by simp
  have fok5: "frames_ok ?s5" using g(5) by (simp add: frames_ok_def)
  have "0 < frame_ref ?s5 f" using ref5 f(2) by simp
  from fp.drop_ref [OF fok5 f(1) this] obtain s' where
    r: "release_phy_frame f ?s5 = Inr s'" "frame_ref s' = (frame_ref ?s5)(f := frame_ref ?s5 f - 1)" "frames_ok s'" by blast
  have s': "phys s' = phys ?s5" "cr3 s' = cr3 ?s5" using r(1) by (auto simp: release_phy_frame_def kassert_def split: if_splits)
  have "cow_copy a f s = Inr s'" using g(1) mc r3 w3 u r(1) by (simp add: cow_copy_def Let_def)
  moreover have "phys ?s5 = phys (cow_phys T (table_index a) e g f ?U s)"
    using U(3) T(2) np by (auto simp: cow_phys_def g(6) fun_eq_iff)
  ultimately show ?thesis using g(2,3,7) r(2,3) s' ref5 gf by (intro exI [of _ s'] exI [of _ g]) simp
qed

abbreviation entry_of :: "vm \<Rightarrow> u32 \<Rightarrow> u32" where
  "entry_of s a \<equiv> phys s (table_of s (dir_index a)) (table_index a)"

lemma walk_entry: "walk s a = Some f \<longleftrightarrow> pte_present (pde s (dir_index a)) \<and> pte_present (entry_of s a) \<and> f = pte_frame (entry_of s a)"
  by (auto simp: walk_def Let_def)

lemma walk_absent: "\<not> pte_present (entry_of s a) \<Longrightarrow> walk s a = None"
  by (simp add: walk_def Let_def)

lemma handle_cow_fault_eq:
  assumes rec: "rec_ok s" and w: "walk s a = Some f" and f: "f < PHY_FRAMES" "1 \<le> frame_ref s f"
  shows "handle_cow_fault a s =
    (if frame_ref s f = 1 then Inr (set_phys (table_of s (dir_index a)) (table_index a) (set_rw (entry_of s a)) s) else cow_copy a f s)"
proof -
  note e = w [unfolded walk_entry]
  have pk: "pte_present (pde s (unat a div 4096 div 1024))" using e by (simp only: page_number)
  have r: "vread s (pte_addr (unat a div 4096)) = Inr (entry_of s a)"
    "vwrite (pte_addr (unat a div 4096)) v s = Inr (set_phys (table_of s (dir_index a)) (table_index a) v s)" for v
    using window_pte [OF rec page_number(1) pk] by (simp_all only: page_number)
  have "get_phy_frame_ref f s = Inr (frame_ref s f)" using f by (simp add: get_phy_frame_ref_def frame_ref_def)
  then show ?thesis
    using window_pde(1) [OF rec dir_index_less] e r f(2) by (simp add: handle_cow_fault_def Let_def)
qed

definition table_frame :: "vm \<Rightarrow> nat \<Rightarrow> bool" where
  "table_frame s f \<longleftrightarrow> f = cr3 s \<or> (\<exists>i<1024. pte_present (pde s i) \<and> table_of s i = f)"

lemma cow_phys_facts:
  assumes ok: "vm_ok s" and sc: "scratch_ok s" and p: "dir_index a \<noteq> 769" "\<not> same_page a COPIED_PAGE_VADDR"
    and w: "walk s a = Some f" "\<not> table_frame s f" and g: "frame_ref s g = 0" "g < PHY_FRAMES" "g \<noteq> f"
    and s': "cr3 s' = cr3 s" "phys s' = phys (cow_phys (table_of s (dir_index a)) (table_index a) (entry_of s a) g f (table_of s 1023) s)"
  shows "phys s' (cr3 s) = phys s (cr3 s)" "walk s' a = Some g" "pte_rw (entry_of s' a)" "scratch_ok s'"
    "j < 1024 \<Longrightarrow> phys s' g j = phys s f j" "phys s' f = phys s f"
    "\<lbrakk>dir_index v \<noteq> 769; \<not> same_page v a\<rbrakk> \<Longrightarrow> walk s' v = walk s v"
proof -
  let ?T = "table_of s (dir_index a)" and ?U = "table_of s 1023" and ?ti = "table_index a"
  let ?e = "set_rw (set_frame (entry_of s a) g)"
  note e = w(1) [unfolded walk_entry]
  note fr = fresh_frame [OF ok g(1)]
  have U: "pte_present (pde s 1023)" "?U \<noteq> cr3 s" "?U \<noteq> g" "?U \<noteq> f" "\<not> pte_present (phys s ?U 1023)"
    using sc vm_okD(7) [OF ok, of 1023] fr(3) [of 1023] w(2) by (auto simp: scratch_ok_def table_frame_def)
  have T: "?T \<noteq> cr3 s" "?T \<noteq> g" "?T \<noteq> f"
    using e vm_okD(7) [OF ok dir_index_less p(1)] fr(3) [OF dir_index_less, of a] w(2) dir_index_less [of a] by (auto simp: table_frame_def)
  have np: "?T = ?U \<Longrightarrow> ?ti \<noteq> 1023"
    using p(2) e U(1) vm_okD(5) [OF ok dir_index_less, of 1023 a] by (auto simp: same_page_def copied_page_index)
  have g20: "g < 1048576" using g(2) by (simp add: PHY_FRAMES_def)
  have ph: "phys s' = (phys s)(g := page_copy (phys s f) (phys s g), ?T := (phys s ?T)(?ti := ?e), 
      ?U := (((phys s)(?T := (phys s ?T)(?ti := ?e))) ?U)(1023 := 0))"
    using T U unfolding s'(2) cow_phys_def by (auto simp: fun_eq_iff)
  show pd: "phys s' (cr3 s) = phys s (cr3 s)" using T U fr(1) by (simp add: ph)
  have es: "entry_of s' a = ?e" using pd s'(1) np by (auto simp: ph)
  show "walk s' a = Some g" unfolding walk_entry es using pd s'(1) e g20 by (simp add: entry_updates)
  show "pte_rw (entry_of s' a)" unfolding es by (simp add: entry_updates)
  show "scratch_ok s'" using pd s'(1) U(1) by (simp add: scratch_ok_def ph pte_present_def)
  show "j < 1024 \<Longrightarrow> phys s' g j = phys s f j" using T U by (simp add: ph page_copy_def)
  show "phys s' f = phys s f" using T U g(3) by (simp add: ph)
  assume v: "dir_index v \<noteq> 769" "\<not> same_page v a"
  show "walk s' v = walk s v"
  proof (cases "same_page v COPIED_PAGE_VADDR")
    case True
    then have "entry_of s' v = 0" using pd s'(1) by (simp add: same_page_def copied_page_index ph)
    moreover have "entry_of s v = phys s ?U 1023" using True by (simp add: same_page_def copied_page_index)
    ultimately have "\<not> pte_present (entry_of s' v)" "\<not> pte_present (entry_of s v)" using U(5) by (simp_all add: pte_present_def)
    from this [THEN walk_absent] show ?thesis by simp
  next
    case False
    show ?thesis
    proof (rule walk_phys)
      show "phys s' (cr3 s') (dir_index v) = pde s (dir_index v)" using pd s'(1) by simp
      assume pv: "pte_present (pde s (dir_index v))"
      have "table_of s (dir_index v) \<noteq> g" using fr(3) [OF dir_index_less pv] .
      moreover have "table_of s (dir_index v) = ?T \<Longrightarrow> table_index v \<noteq> ?ti"
        using v(2) vm_okD(5) [OF ok dir_index_less dir_index_less, of v a] pv e by (auto simp: same_page_def)
      moreover have "table_of s (dir_index v) = ?U \<Longrightarrow> table_index v \<noteq> 1023"
        using False vm_okD(5) [OF ok dir_index_less, of 1023 v] pv U(1) by (auto simp: same_page_def copied_page_index)
      ultimately show "phys s' (table_of s (dir_index v)) (table_index v) = entry_of s v" by (auto simp: ph)
    qed
  qed
qed

text \<open>C17: A write fault on a page whose frame others still use gives the writer a frame of its own with the
  same contents, writable, at the same address: the old frame keeps its contents and loses one reference, and no
  other address is translated differently, so the other users of the frame do not see the write that follows.\<close>

theorem cow_fault_isolates:
  assumes "vm_ok s" "scratch_ok s" "dir_index a \<noteq> 769" "\<not> same_page a COPIED_PAGE_VADDR"
    and "walk s a = Some f" "f < PHY_FRAMES" "1 < frame_ref s f" "\<not> table_frame s f" "free_frames s \<noteq> {}"
  shows "\<exists>s' g. handle_cow_fault a s = Inr s' \<and> vm_ok s' \<and> scratch_ok s' \<and> walk s' a = Some g \<and> pte_rw (entry_of s' a) \<and>
    frame_ref s g = 0 \<and> frame_ref s' = (frame_ref s)(g := 1, f := frame_ref s f - 1) \<and>
    (\<forall>j<1024. phys s' g j = phys s f j) \<and> phys s' f = phys s f \<and>
    (\<forall>v. dir_index v \<noteq> 769 \<longrightarrow> \<not> same_page v a \<longrightarrow> walk s' v = walk s v)"
proof -
  note e = assms(5) [unfolded walk_entry]
  have tf: "f \<noteq> cr3 s" "\<forall>i<1024. pte_present (pde s i) \<longrightarrow> table_of s i \<noteq> f" using assms(8) by (auto simp: table_frame_def)
  from cow_copy_eq [OF assms(1-4) _ refl refl _ _ assms(6,7) tf assms(9)] e obtain s' g where
    s': "cow_copy a f s = Inr s'" "g < PHY_FRAMES" "frame_ref s g = 0" "cr3 s' = cr3 s" "frames_ok s'"
      "frame_ref s' = (frame_ref s)(g := 1, f := frame_ref s f - 1)"
      "phys s' = phys (cow_phys (table_of s (dir_index a)) (table_index a) (entry_of s a) g f (table_of s 1023) s)" by blast
  have gf: "g \<noteq> f" using s'(3) assms(7) by auto
  note c = cow_phys_facts [OF assms(1-5,8) s'(3,2) gf s'(4,7)]
  have h: "handle_cow_fault a s = Inr s'"
    using handle_cow_fault_eq [OF vm_okD(1) [OF assms(1)] assms(5,6)] s'(1) assms(7) by simp
  have "vm_ok s'" by (rule vm_ok_frame [OF assms(1) s'(4) c(1) s'(5)]) (use assms(7) s'(6) in auto)
  with h c(2-) s'(3,6) show ?thesis by (intro exI [of _ s'] exI [of _ g]) blast
qed

section \<open>The page fault handler\<close>

text \<open>C18: Mapping an unmapped page gives it a zeroed frame of its own, writable, accessible to user mode exactly below
  3 GB; the invariant of the tables is kept, no other page moves, and every frame in use keeps its reference count
  and, tables apart, its contents.\<close>

theorem map_page_maps:
  assumes "vm_ok s" "dir_index a \<noteq> 769" "walk s a = None" "2 \<le> card (free_frames s)"
  shows "\<exists>s' f. map_page a s = Inr s' \<and> vm_ok s' \<and> walk s' a = Some f \<and> frame_ref s f = 0 \<and> frame_ref s' f = 1 \<and>
    (\<forall>j<1024. phys s' f j = 0) \<and> pte_rw (entry_of s' a) \<and> pte_user (entry_of s' a) = (a < 0xC0000000) \<and>
    (\<forall>v. dir_index v \<noteq> 769 \<longrightarrow> \<not> same_page v a \<longrightarrow> walk s' v = walk s v) \<and>
    (\<forall>g. frame_ref s g \<noteq> 0 \<longrightarrow> frame_ref s' g = frame_ref s g \<and>
      (g \<noteq> cr3 s \<longrightarrow> g \<noteq> table_of s' (dir_index a) \<longrightarrow> phys s' g = phys s g))"
  using map_page_ok [OF assms] by blast


text \<open>Demand paging: a first access of user mode to a page that is neither the null page nor a guard page maps that
  page, and the access finds a zeroed frame when it is repeated.\<close>

lemma pagefault_demand_maps:
  assumes "vm_ok s" "dir_index fa < 768" "walk s fa = None" "2 \<le> card (free_frames s)"
    and "\<not> bit err 0" "bit err 2" "0x1000 \<le> fa" "is_current_user_stack_addr multi_task stacks fa \<noteq> Some True"
  shows "\<exists>s' f. pagefault_handler multi_task stacks err fa s = Inr s' \<and> vm_ok s' \<and> walk s' fa = Some f \<and>
    vread s' fa = Inr 0 \<and> pte_rw (entry_of s' fa) \<and> pte_user (entry_of s' fa)"
proof -
  have h: "pagefault_handler multi_task stacks err fa s = map_page (page_base fa) s"
    using assms(5-8) by (auto simp: pagefault_handler_def Let_def)
  have d: "dir_index (page_base fa) \<noteq> 769" "walk s (page_base fa) = None" using assms(2,3) by (simp_all add: page_base_props walk_page_base)
  have "unat fa < 768 * 4194304" using assms(2) div_mult_mod_eq [of "unat fa" 4194304] mod_less_divisor [of 4194304 "unat fa"]
    by (simp add: dir_index_def div_less_iff_less_mult)
  moreover have "unat fa div 4096 * 4096 \<le> unat fa" by simp
  ultimately have "unat (page_base fa) < 3221225472" unfolding page_base_props by linarith
  then have u: "page_base fa < 0xC0000000" by (simp add: word_less_nat_alt)
  from map_page_ok [OF assms(1) d assms(4)] obtain s' f where
    m: "map_page (page_base fa) s = Inr s'" "vm_ok s'" "walk s' (page_base fa) = Some f" "\<forall>j<1024. phys s' f j = 0"
      "pte_rw (entry_of s' (page_base fa))" "pte_user (entry_of s' (page_base fa)) = (page_base fa < 0xC0000000)" by blast
  have "word_index fa < 1024" by (simp add: word_index_def)
  then show ?thesis using h m u by (intro exI [of _ s'] exI [of _ f]) (simp add: walk_page_base page_base_props vread_def)
qed

text \<open>A frame handed out and shared \<open>n\<close> more times is free again exactly after \<open>n + 1\<close> releases.\<close>

lemma frame_life_cycle:
  assumes "frames_ok s" "alloc_phy_frame s = (Some f, s1)" "n < 65535"
  shows "\<exists>s2 s3. repeat_op n (inc_cow_ref f) s1 = Inr s2 \<and> repeat_op (Suc n) (release_phy_frame f) s2 = Inr s3 \<and>
    get_phy_frame_ref f s2 = Inr (Suc n) \<and> frame_ref s3 = frame_ref s \<and> frame_ref s f = 0"
proof -
  have f: "f < PHY_FRAMES" "frame_ref s f = 0" using alloc_phy_frame_Some [OF assms(1,2)] by auto
  from fp.life_cycle [OF assms] obtain s2 s3 where
    "repeat_op n (inc_cow_ref f) s1 = Inr s2" "repeat_op (Suc n) (release_phy_frame f) s2 = Inr s3"
    "frame_ref s2 f = Suc n" "frame_ref s3 = frame_ref s" by blast
  then show ?thesis using f by (intro exI [of _ s2] exI [of _ s3]) (simp add: get_phy_frame_ref_def frame_ref_def)
qed

section \<open>A small address space\<close>

text \<open>
  The directory in frame 2, the table of the scratch pages in frame 3, one user table in frame 4 whose page 1 is
  frame 5, shared by two users and read-only.
\<close>

definition demo_vm :: vm where
  "demo_vm =
     \<lparr>phys = (\<lambda>f i. if f = 2 then (if i = 0 then 0x4007 else if i = 769 then 0x2003 else if i = 1023 then 0x3003 else 0)
                     else if f = 4 \<and> i = 1 then 0x5005 else if f = 5 then of_nat i else 0),
      cr3 = 2, phy_frames_array = map (\<lambda>i. if i = 5 then 2 else if i < 6 then 1 else 0) [0..<8192], last_allocated_index = 6\<rparr>"

lemma demo_vm_simps:
  "cr3 demo_vm = 2" "frame_ref demo_vm f = (if f = 5 then 2 else if f < 6 then 1 else 0)" "frames_ok demo_vm"
  "pte_present (phys demo_vm 2 i) \<longleftrightarrow> i = 0 \<or> i = 769 \<or> i = 1023"
  "pte_frame (phys demo_vm 2 0) = 4" "pte_frame (phys demo_vm 2 769) = 2" "pte_frame (phys demo_vm 2 1023) = 3"
  by (simp_all add: demo_vm_def frame_ref_def frames_ok_def PHY_FRAMES_def pte_present_def pte_frame_def)

lemma demo_vm_ok: "vm_ok demo_vm" "scratch_ok demo_vm"
proof -
  show "vm_ok demo_vm" by (auto simp: vm_ok_def rec_ok_def demo_vm_simps)
  show "scratch_ok demo_vm" unfolding scratch_ok_def demo_vm_simps by (simp add: demo_vm_def pte_present_def)
qed

lemma demo_walk:
  "walk demo_vm 0x1000 = Some 5" "walk demo_vm 0x2000 = None" "walk demo_vm 0x40000000 = None"
  by (simp_all add: walk_def dir_index_def table_index_def demo_vm_def pte_present_def pte_frame_def)

lemma demo_free: "2 \<le> card (free_frames demo_vm)" "free_frames demo_vm \<noteq> {}"
proof -
  have "{6, 7} \<subseteq> free_frames demo_vm" by (auto simp: free_frames_def demo_vm_simps PHY_FRAMES_def)
  from card_mono [OF finite_free_frames this] show "2 \<le> card (free_frames demo_vm)" by simp
  then show "free_frames demo_vm \<noteq> {}" by auto
qed

lemma demo_pages: "\<not> table_frame demo_vm 5" "\<not> same_page 0x1000 COPIED_PAGE_VADDR" "dir_index 0x1000 = 0"
proof -
  show "\<not> table_frame demo_vm 5" by (auto simp: table_frame_def demo_vm_simps intro!: gr0I)
  show "\<not> same_page 0x1000 COPIED_PAGE_VADDR" unfolding same_page_def copied_page_index by (simp add: dir_index_def)
  show "dir_index 0x1000 = 0" by (simp add: dir_index_def)
qed

theorem cow_fault_isolates_witness:
  "\<exists>s' g. handle_cow_fault 0x1000 demo_vm = Inr s' \<and> walk s' 0x1000 = Some g \<and> pte_rw (entry_of s' 0x1000) \<and>
    frame_ref s' 5 = 1 \<and> phys s' g 7 = 7 \<and> phys s' 5 7 = 7"
proof -
  from cow_fault_isolates [OF demo_vm_ok _ demo_pages(2) demo_walk(1) _ _ demo_pages(1) demo_free(2)] obtain s' g where
    "handle_cow_fault 0x1000 demo_vm = Inr s'" "walk s' 0x1000 = Some g" "pte_rw (entry_of s' 0x1000)"
    "frame_ref s' = (frame_ref demo_vm)(g := 1, 5 := frame_ref demo_vm 5 - 1)"
    "\<forall>j<1024. phys s' g j = phys demo_vm 5 j" "phys s' 5 = phys demo_vm 5"
    by (auto simp: demo_pages demo_vm_simps PHY_FRAMES_def)
  moreover have "phys demo_vm 5 7 = 7" by (simp add: demo_vm_def)
  ultimately show ?thesis by (intro exI [of _ s'] exI [of _ g]) (simp add: demo_vm_simps)
qed

theorem map_page_maps_witness:
  "\<exists>s' f. map_page 0x40000000 demo_vm = Inr s' \<and> walk s' 0x40000000 = Some f \<and> phys s' f 0 = 0 \<and> walk s' 0x1000 = Some 5"
proof -
  have d: "dir_index 0x40000000 = 256" by (simp add: dir_index_def)
  from map_page_maps [OF demo_vm_ok(1) _ demo_walk(3) demo_free(1)] d obtain s' f where
    m: "map_page 0x40000000 demo_vm = Inr s'" "walk s' 0x40000000 = Some f" "\<forall>j<1024. phys s' f j = 0"
      "\<forall>v. dir_index v \<noteq> 769 \<longrightarrow> \<not> same_page v 0x40000000 \<longrightarrow> walk s' v = walk demo_vm v" by auto
  moreover have "walk s' 0x1000 = walk demo_vm 0x1000" using m(4) d by (simp add: demo_pages same_page_def)
  ultimately show ?thesis using demo_walk(1) by (intro exI [of _ s'] exI [of _ f]) simp
qed


end
