(* ===== verification/Thread.thy ===== *)
theory Thread
  imports Scheduler Id_Pool Page_Cow Stdlib
begin

text \<open>
  Threads, \<^verbatim>\<open>src/src/task/thread.c\<close>: kernel stacks with guard pages, the creation of a thread with
  the frames its first run pops, the copy of the running thread for \<^verbatim>\<open>fork\<close>, and its destruction.
  The control blocks are those of the scheduler; the stacks are pages of the address space, written word by word.
  The code addresses \<^verbatim>\<open>kernel_thread\<close>, \<^verbatim>\<open>switch_to_user_mode\<close> and
  \<^verbatim>\<open>syscall_fork_exit\<close> and the address that \<^verbatim>\<open>kmalloc\<close> returns for a control block are arguments.
  \<open>None\<close> means that a lock is held by another thread. Names are modelled as the strings they are; the
  array they are copied into has 32 bytes.
\<close>

section \<open>State\<close>

record threads =
  t_vm :: vm
  t_sched :: sched
  thread_id_pool :: id_pool_t
  kernel_stack_slots :: bitmap_t
  kernel_stack_slots_lock :: yieldlock_t
  thread_name :: "addr \<Rightarrow> u8 list"

definition KERNEL_STACK_MAX_SLOTS :: u32 where
  "KERNEL_STACK_MAX_SLOTS = (KERNEL_STACK_AREA_END - KERNEL_STACK_AREA_START) div KERNEL_STACK_SLOT_SIZE"

definition SELECTOR_U_CODE :: u32 where "SELECTOR_U_CODE = push_bit 3 4 + 3"
definition SELECTOR_U_DATA :: u32 where "SELECTOR_U_DATA = push_bit 3 5 + 3"
definition EFLAGS_MBS :: u32 where "EFLAGS_MBS = push_bit 1 1"
definition EFLAGS_IF_1 :: u32 where "EFLAGS_IF_1 = push_bit 9 1"
definition EFLAGS_IOPL_0 :: u32 where "EFLAGS_IOPL_0 = push_bit 12 0"

text \<open>The sizes of \<^verbatim>\<open>switch_stack_t\<close> (ten words) and \<^verbatim>\<open>interrupt_stack_t\<close> (sixteen words).\<close>

definition SWITCH_STACK_SIZE :: u32 where "SWITCH_STACK_SIZE = 40"
definition INTERRUPT_STACK_SIZE :: u32 where "INTERRUPT_STACK_SIZE = 64"

text \<open>The address of the embedded member \<^verbatim>\<open>schedule_node\<close>.\<close>

definition schedule_node :: "addr \<Rightarrow> addr" where "schedule_node thread = thread + 84"

definition init_task_manager :: "(u32 \<Rightarrow> u32 list option) \<Rightarrow> bitmap_t \<Rightarrow> threads \<Rightarrow> threads kres" where
  "init_task_manager kmalloc raw s =
     kassert (KERNEL_STACK_SIZE mod PAGE_SIZE = 0) ''(KERNEL_STACK_SIZE % PAGE_SIZE) == 0''
       (kassert (KERNEL_STACK_SLOT_SIZE mod PAGE_SIZE = 0) ''(KERNEL_STACK_SLOT_SIZE % PAGE_SIZE) == 0''
         (kbind (id_pool_init kmalloc (thread_id_pool s) 2048 32768) (\<lambda>pool.
          kbind (bitmap_create kmalloc raw None KERNEL_STACK_MAX_SLOTS) (\<lambda>slots.
            Inr (s\<lparr>thread_id_pool := pool, kernel_stack_slots := slots,
                   kernel_stack_slots_lock := yieldlock_init (kernel_stack_slots_lock s)\<rparr>)))))"

section \<open>Kernel stacks\<close>

definition lock_slots :: "threads \<Rightarrow> threads option" where
  "lock_slots s = yieldlock_lock kernel_stack_slots_lock (\<lambda>l s. s\<lparr>kernel_stack_slots_lock := l\<rparr>) (\<lambda>s. s) s"

definition unlock_slots :: "threads \<Rightarrow> threads" where
  "unlock_slots s = s\<lparr>kernel_stack_slots_lock := yieldlock_unlock (kernel_stack_slots_lock s)\<rparr>"

definition map_stack :: "u32 \<Rightarrow> vm \<Rightarrow> vm kres" where
  "map_stack stack =
     kfold (\<lambda>i. map_page (stack + of_nat i * PAGE_SIZE)) [0..<unat (KERNEL_STACK_SIZE div PAGE_SIZE)]"

definition alloc_kernel_stack_slot :: "threads \<Rightarrow> (u32 \<times> threads) kres option" where
  "alloc_kernel_stack_slot s =
     (case lock_slots s of
        None \<Rightarrow> None
      | Some s \<Rightarrow>
          (case bitmap_alloc_first_free (kernel_stack_slots s) of
             None \<Rightarrow> Some (Inl (Panic ''No free kernel stack slots''))
           | Some (slot, b) \<Rightarrow>
               let s = unlock_slots (s\<lparr>kernel_stack_slots := b\<rparr>);
                   stack_alloc = KERNEL_STACK_AREA_START + slot * KERNEL_STACK_SLOT_SIZE;
                   stack = stack_alloc + KERNEL_STACK_GUARD_SIZE
               in Some (kbind (map_stack stack (t_vm s)) (\<lambda>v. Inr (stack_alloc, s\<lparr>t_vm := v\<rparr>)))))"

definition release_kernel_stack_slot :: "u32 \<Rightarrow> threads \<Rightarrow> threads kres option" where
  "release_kernel_stack_slot stack_alloc s =
     (if \<not> stack_alloc \<ge> KERNEL_STACK_AREA_START then Some (Inl (Assert_failed ''stack_alloc >= KERNEL_STACK_AREA_START''))
      else if \<not> stack_alloc < KERNEL_STACK_AREA_END then Some (Inl (Assert_failed ''stack_alloc < KERNEL_STACK_AREA_END''))
      else if (stack_alloc - KERNEL_STACK_AREA_START) mod KERNEL_STACK_SLOT_SIZE \<noteq> 0
        then Some (Inl (Assert_failed ''((stack_alloc - KERNEL_STACK_AREA_START) % KERNEL_STACK_SLOT_SIZE) == 0''))
      else
        let stack = stack_alloc + KERNEL_STACK_GUARD_SIZE;
            slot = (stack_alloc - KERNEL_STACK_AREA_START) div KERNEL_STACK_SLOT_SIZE
        in obind (Some (release_pages stack (KERNEL_STACK_SIZE div PAGE_SIZE) True (t_vm s))) (\<lambda>v.
             case lock_slots (s\<lparr>t_vm := v\<rparr>) of
               None \<Rightarrow> None
             | Some s \<Rightarrow>
                 Some (Inr (unlock_slots (s\<lparr>kernel_stack_slots := bitmap_clear_bit (kernel_stack_slots s) slot\<rparr>)))))"

section \<open>Creating a thread\<close>

text \<open>Assignments to the word-sized members of a struct at \<open>base\<close>, by word offset.\<close>

definition poke :: "u32 \<Rightarrow> (nat \<times> u32) list \<Rightarrow> vm \<Rightarrow> vm kres" where
  "poke base = kfold (\<lambda>(i, w). vwrite (base + of_nat (4 * i)) w)"

definition switch_frame :: "u32 \<Rightarrow> u32 \<Rightarrow> (nat \<times> u32) list" where
  "switch_frame entry func = [(0, 0), (1, 0), (2, 0), (3, 0), (4, 0), (5, 0), (6, 0), (7, entry), (9, func)]"

definition user_frame :: "u32 \<Rightarrow> (nat \<times> u32) list" where
  "user_frame func =
     [(0, SELECTOR_U_DATA), (1, 0), (2, 0), (3, 0), (4, 0), (5, 0), (6, 0), (7, 0), (8, 0), (11, func),
      (12, SELECTOR_U_CODE), (13, EFLAGS_IOPL_0 OR EFLAGS_MBS OR EFLAGS_IF_1), (15, SELECTOR_U_DATA)]"

definition zero_tcb :: tcb_t where
  "zero_tcb = \<lparr>kernel_esp = 0, kernel_stack = 0, kernel_stack_alloc = 0, thread_id = 0, status = TASK_RUNNING,
     priority = 0, ticks = 0, user_stack = 0, user_stack_index = 0, need_reschedule = False, process = NULL,
     preempt_count = 0, crt_queue = No_queue, crt_node_ptr = NULL\<rparr>"

text \<open>\<^verbatim>\<open>"thread-%u"\<close>.\<close>

definition default_name :: "u32 \<Rightarrow> u8 list" where
  "default_name i = [116, 104, 114, 101, 97, 100, 45] @ dec_text (unat i)"

definition put_tcb :: "addr \<Rightarrow> (tcb_t \<Rightarrow> tcb_t) \<Rightarrow> threads \<Rightarrow> threads" where
  "put_tcb thread f s = s\<lparr>t_sched := upd_tcb thread f (t_sched s)\<rparr>"

definition init_node :: "addr \<Rightarrow> threads \<Rightarrow> threads" where
  "init_node thread s =
     s\<lparr>t_sched := (t_sched s)\<lparr>nodes := (nodes (t_sched s))(schedule_node thread := \<lparr>ptr = thread, prev = NULL, nxt = NULL\<rparr>)\<rparr>\<rparr>"

text \<open>The second half of \<^verbatim>\<open>init_thread\<close>: the stack is cleared, and the frames of the first run are put on it.\<close>

definition init_stack :: "u32 \<Rightarrow> u32 \<Rightarrow> u32 \<Rightarrow> bool \<Rightarrow> u32 \<Rightarrow> u32 \<Rightarrow> vm \<Rightarrow> vm kres" where
  "init_stack kernel_thread switch_to_user_mode func is_user_thread stack esp v =
     kbind (clear_words stack 0 (unat (KERNEL_STACK_SIZE div 4)) v) (\<lambda>v.
     kbind (poke esp (switch_frame kernel_thread func) v) (\<lambda>v.
       if is_user_thread then
         kbind (poke esp [(7, switch_to_user_mode)] v) (poke (esp + SWITCH_STACK_SIZE) (user_frame func))
       else Inr v))"

text \<open>The result is the thread, or null when there is no id left.\<close>

definition init_thread ::
  "u32 \<Rightarrow> u32 \<Rightarrow> addr \<Rightarrow> addr \<Rightarrow> u8 list option \<Rightarrow> u32 \<Rightarrow> u32 \<Rightarrow> bool \<Rightarrow> threads \<Rightarrow> (addr \<times> threads) kres option"
where
  "init_thread kernel_thread switch_to_user_mode a_tcb thread nm func prio is_user_thread s =
     (let (thread, s) = (if thread = NULL then (a_tcb, put_tcb a_tcb (\<lambda>_. zero_tcb) s) else (thread, s))
      in case id_pool_allocate_id (\<lambda>p. p) (thread_id_pool s) of
           None \<Rightarrow> None
         | Some (None, pool) \<Rightarrow> Some (Inr (NULL, s\<lparr>thread_id_pool := pool\<rparr>))
         | Some (Some i, pool) \<Rightarrow>
             let s = s\<lparr>thread_id_pool := pool, thread_name := (thread_name s)(thread := case nm of Some n \<Rightarrow> n | None \<Rightarrow> default_name i)\<rparr>;
                 s = init_node thread (put_tcb thread (\<lambda>t. t\<lparr>thread_id := i, crt_node_ptr := schedule_node thread,
                       crt_queue := No_queue, status := TASK_READY, ticks := 0, priority := ucast prio,
                       user_stack_index := - 1, need_reschedule := False\<rparr>) s)
             in obind (alloc_kernel_stack_slot s) (\<lambda>(stack_alloc, s).
                  let stack = stack_alloc + KERNEL_STACK_GUARD_SIZE;
                      esp = stack + KERNEL_STACK_SIZE - (INTERRUPT_STACK_SIZE + SWITCH_STACK_SIZE);
                      s = put_tcb thread (\<lambda>t. t\<lparr>kernel_stack_alloc := stack_alloc, kernel_stack := stack, kernel_esp := esp\<rparr>) s
                  in Some (kbind (init_stack kernel_thread switch_to_user_mode func is_user_thread stack esp (t_vm s)) (\<lambda>v.
                       Inr (thread, s\<lparr>t_vm := v\<rparr>)))))"

text \<open>The result names the address passed to \<^verbatim>\<open>kfree\<close>.\<close>

definition destroy_thread :: "addr \<Rightarrow> threads \<Rightarrow> (addr \<times> threads) kres option" where
  "destroy_thread thread s =
     (let t = tcbs (t_sched s) thread; s = s\<lparr>thread_id_pool := id_pool_free_id (thread_id_pool s) (thread_id t)\<rparr>
      in obind (release_kernel_stack_slot (kernel_stack_alloc t) s) (\<lambda>s. Some (Inr (thread, s))))"

section \<open>Copying the running thread\<close>

definition fork_crt_thread :: "u32 \<Rightarrow> addr \<Rightarrow> threads \<Rightarrow> (addr \<times> threads) kres option" where
  "fork_crt_thread syscall_fork_exit a_tcb s =
     (case get_crt_thread (t_sched s) of
        Inl e \<Rightarrow> Some (Inl e)
      | Inr crt \<Rightarrow>
          if a_tcb = NULL then Some (Inl (Assert_failed ''new_thread != NULL''))
          else
            let crt_t = tcbs (t_sched s) crt;
                s = init_node a_tcb (put_tcb a_tcb (\<lambda>_. crt_t\<lparr>crt_node_ptr := schedule_node a_tcb, crt_queue := No_queue\<rparr>) s)
            in case id_pool_allocate_id (\<lambda>p. p) (thread_id_pool s) of
                 None \<Rightarrow> None
               | Some (None, pool) \<Rightarrow> Some (Inl (Assert_failed ''id_pool_allocate_id(&thread_id_pool, &id)''))
               | Some (Some i, pool) \<Rightarrow>
                   let s = s\<lparr>thread_id_pool := pool, thread_name := (thread_name s)(a_tcb := default_name i)\<rparr>;
                       s = put_tcb a_tcb (\<lambda>t. t\<lparr>thread_id := i, ticks := 0\<rparr>) s
                   in obind (alloc_kernel_stack_slot s) (\<lambda>(stack_alloc, s).
                        let stack = stack_alloc + KERNEL_STACK_GUARD_SIZE;
                            esp = stack + KERNEL_STACK_SIZE - (SWITCH_STACK_SIZE + INTERRUPT_STACK_SIZE)
                        in Some (kbind (copy_words stack (kernel_stack crt_t) 0 (unat (KERNEL_STACK_SIZE div 4)) (t_vm s)) (\<lambda>v.
                             kbind (poke esp [(7, syscall_fork_exit)] v) (\<lambda>v.
                               Inr (a_tcb, (put_tcb a_tcb (\<lambda>t. t\<lparr>kernel_stack_alloc := stack_alloc,
                                 kernel_stack := stack, kernel_esp := esp\<rparr>) s)\<lparr>t_vm := v\<rparr>))))))"

text \<open>The entry point of a kernel thread, \<^verbatim>\<open>kernel_thread\<close>: the thread ends when its function returns.\<close>

definition run_kernel_thread :: "(sched \<Rightarrow> sched kres option) \<Rightarrow> sched \<Rightarrow> sched kres option" where
  "run_kernel_thread func s = obind (func (s\<lparr>interrupts := True\<rparr>)) schedule_thread_exit"

section \<open>Data frames\<close>

definition table_frames :: "vm \<Rightarrow> nat set" where
  "table_frames s = {table_of s i |i. i < 1024 \<and> pte_present (pde s i)}"

lemma cr3_table: "rec_ok s \<Longrightarrow> cr3 s \<in> table_frames s"
  by (auto simp: rec_ok_def table_frames_def intro!: exI [of _ 769])

lemma table_frames_cong: "\<lbrakk>cr3 s' = cr3 s; phys s' (cr3 s) = phys s (cr3 s)\<rbrakk> \<Longrightarrow> table_frames s' = table_frames s"
  by (simp add: table_frames_def)

lemma free_not_table:
  assumes "vm_ok s" "frame_ref s f = 0"
  shows "f \<notin> table_frames s"
proof
  assume "f \<in> table_frames s"
  then obtain i where "i < 1024" "pte_present (pde s i)" "f = table_of s i" by (auto simp: table_frames_def)
  then show False using vm_okD(4) [OF assms(1), of i] assms(2) by simp
qed

text \<open>A write into a frame that holds no table changes no mapping.\<close>

lemma put_frame_data:
  assumes "vm_ok s" "f \<notin> table_frames s"
  shows "walk (put_frame f c s) a = walk s a" "vm_ok (put_frame f c s)" "frame_ref (put_frame f c s) = frame_ref s"
    "table_frames (put_frame f c s) = table_frames s"
proof -
  have n: "f \<noteq> cr3 s" using cr3_table [OF vm_okD(1) [OF assms(1)]] assms(2) by auto
  show r: "frame_ref (put_frame f c s) = frame_ref s" by (simp add: frame_ref_def fun_eq_iff)
  show "vm_ok (put_frame f c s)"
    using n r vm_okD(2) [OF assms(1)] by (intro vm_ok_frame [OF assms(1)]) (simp_all add: frames_ok_def)
  show "table_frames (put_frame f c s) = table_frames s" using n by (intro table_frames_cong) simp_all
  show "walk (put_frame f c s) a = walk s a"
  proof (rule walk_phys)
    assume "pte_present (pde s (dir_index a))"
    then have "table_of s (dir_index a) \<in> table_frames s" using dir_index_less by (auto simp: table_frames_def)
    then show "phys (put_frame f c s) (table_of s (dir_index a)) (table_index a) = phys s (table_of s (dir_index a)) (table_index a)"
      using assms(2) by auto
  qed (use n in simp)
qed

lemma poke_eq:
  assumes "vm_ok s" "g \<notin> table_frames s"
    and "\<And>i w. (i, w) \<in> set ws \<Longrightarrow> walk s (base + of_nat (4 * i)) = Some g \<and> word_index (base + of_nat (4 * i)) = wi + i"
  shows "poke base ws s = Inr (put_frame g (fold (\<lambda>(i, w) c. c(wi + i := w)) ws (phys s g)) s)"
  using assms
proof (induction ws arbitrary: s)
  case Nil
  then show ?case by (simp add: poke_def put_frame_def)
next
  case (Cons x ws)
  obtain i w where x: "x = (i, w)" by (cases x)
  let ?s = "put_frame g ((phys s g)(wi + i := w)) s"
  have "vwrite (base + of_nat (4 * i)) w s = Inr ?s"
    using Cons.prems(3) [of i w] x by (simp add: vwrite_def set_phys_put)
  moreover have "poke base ws ?s = Inr (put_frame g (fold (\<lambda>(i, w) c. c(wi + i := w)) ws (phys ?s g)) ?s)"
    using Cons.prems put_frame_data [OF Cons.prems(1,2)] by (intro Cons.IH) auto
  ultimately show ?case by (simp add: poke_def x fun_upd_def)
qed

lemma clear_words_add: "clear_words a i (m + n) s = kbind (clear_words a i m s) (clear_words a (i + m) n)"
proof (induction m arbitrary: i s)
  case (Suc m)
  show ?case by (cases "vwrite (a + of_nat (4 * i)) 0 s") (simp_all add: Suc)
qed simp

lemma clear_words_shift: "clear_words a (i + j) n s = clear_words (a + of_nat (4 * j)) i n s"
proof (induction n arbitrary: i s)
  case (Suc n)
  have "a + of_nat (4 * (i + j)) = a + of_nat (4 * j) + of_nat (4 * i)" by (simp add: algebra_simps)
  moreover have "clear_words a (Suc (i + j)) n = clear_words (a + of_nat (4 * j)) (Suc i) n"
    using Suc.IH [of "Suc i"] by (simp add: fun_eq_iff)
  ultimately show ?case by (simp only: clear_words.simps)
qed simp

lemma clear_one_page:
  assumes "vm_ok s" "page_aligned a" "walk s a = Some f" "f \<notin> table_frames s"
  shows "clear_words a 0 1024 s = Inr (put_frame f (zero_page (phys s f)) s)"
proof -
  have "pte_present (pde s (dir_index a))" using assms(3) by (simp add: walk_def Let_def split: if_splits)
  then have "f \<noteq> table_of s (dir_index a)" using assms(4) dir_index_less by (auto simp: table_frames_def)
  moreover have "f \<noteq> cr3 s" using cr3_table [OF vm_okD(1) [OF assms(1)]] assms(4) by auto
  moreover have "zero_page (phys s f) = (\<lambda>j. if 0 \<le> j \<and> j < 0 + 1024 then 0 else phys s f j)"
    by (simp add: zero_page_def fun_eq_iff)
  ultimately show ?thesis using clear_words_eq [OF assms(2,3), of 0 1024] by simp
qed

lemma clear_two_pages:
  assumes ok: "vm_ok s" and al: "page_aligned a" "page_aligned (a + 4096)"
    and w: "walk s a = Some f" "walk s (a + 4096) = Some g" and d: "f \<notin> table_frames s" "g \<notin> table_frames s" "f \<noteq> g"
  shows "clear_words a 0 2048 s = Inr (put_frame g (zero_page (phys s g)) (put_frame f (zero_page (phys s f)) s))"
proof -
  note p = put_frame_data [OF ok d(1)]
  have "clear_words a 0 2048 s = kbind (clear_words a 0 1024 s) (clear_words a 1024 1024)"
    using clear_words_add [of a 0 1024 1024 s] by simp
  also have "\<dots> = clear_words (a + 4096) 0 1024 (put_frame f (zero_page (phys s f)) s)"
    using clear_one_page [OF ok al(1) w(1) d(1)] clear_words_shift [of a 0 1024 1024] by simp
  also have "\<dots> = Inr (put_frame g (zero_page (phys s g)) (put_frame f (zero_page (phys s f)) s))"
    using clear_one_page [OF p(2) al(2), where f = g] p w(2) d(2,3) by simp
  finally show ?thesis .
qed

section \<open>Stack slots\<close>

definition slot_base :: "nat \<Rightarrow> u32" where "slot_base k = 0xE0000000 + of_nat (12288 * k)"

lemma slot_page:
  assumes "k < 21845" "j < 3"
  shows "unat (slot_base k + of_nat (4096 * j)) = 4096 * (917504 + 3 * k + j)"
    "page_aligned (slot_base k + of_nat (4096 * j))" "dir_index (slot_base k + of_nat (4096 * j)) \<noteq> 769"
    "896 \<le> dir_index (slot_base k + of_nat (4096 * j))" "dir_index (slot_base k + of_nat (4096 * j)) < 960"
proof -
  have "slot_base k + of_nat (4096 * j) = 0xE0000000 + of_nat (12288 * k + 4096 * j)" by (simp add: slot_base_def)
  then have "unat (slot_base k + of_nat (4096 * j)) = 3758096384 + (12288 * k + 4096 * j)"
    using assms unat_add_of_nat [of "0xE0000000" "12288 * k + 4096 * j"] by (simp del: of_nat_add of_nat_mult)
  then show u: "unat (slot_base k + of_nat (4096 * j)) = 4096 * (917504 + 3 * k + j)" by simp
  then show "page_aligned (slot_base k + of_nat (4096 * j))" by (simp add: page_aligned_def)
  have "dir_index (slot_base k + of_nat (4096 * j)) = (917504 + 3 * k + j) div 1024"
    using page_number(2) [of "slot_base k + of_nat (4096 * j)"] by (simp only: u nonzero_mult_div_cancel_left [OF zero_neq_numeral [symmetric]])
  moreover have "896 \<le> (917504 + 3 * k + j) div 1024" "(917504 + 3 * k + j) div 1024 < 960"
    using assms by (simp_all add: div_le_mono less_mult_imp_div_less less_eq_div_iff_mult_less_eq)
  ultimately show "896 \<le> dir_index (slot_base k + of_nat (4096 * j))" "dir_index (slot_base k + of_nat (4096 * j)) < 960"
    "dir_index (slot_base k + of_nat (4096 * j)) \<noteq> 769" by auto
qed

lemma same_page_iff: "same_page a b \<longleftrightarrow> unat a div 4096 = unat b div 4096"
  using page_number(2,3) [of a] page_number(2,3) [of b] unfolding same_page_def by (metis div_mod_decomp)

lemma slot_pages_differ:
  assumes "k < 21845" "j < 3" "k' < 21845" "j' < 3" "(k, j) \<noteq> (k', j')"
  shows "\<not> same_page (slot_base k + of_nat (4096 * j)) (slot_base k' + of_nat (4096 * j'))"
proof -
  have "(3 * n + i) div 3 = n" "(3 * n + i) mod 3 = i" if "i < 3" for n i :: nat using that by simp_all
  then have "3 * k + j \<noteq> 3 * k' + j'" using assms by metis
  then show ?thesis using slot_page(1) [OF assms(1,2)] slot_page(1) [OF assms(3,4)] by (simp add: same_page_iff)
qed

section \<open>Mapping a stack\<close>

text \<open>The page of \<open>a\<close> is mapped to the frame \<open>f\<close>, which was free, and nothing else has changed.\<close>

definition page_added :: "u32 \<Rightarrow> nat \<Rightarrow> vm \<Rightarrow> vm \<Rightarrow> bool" where
  "page_added a f s s' \<longleftrightarrow>
     vm_ok s' \<and> cr3 s' = cr3 s \<and> phys s' (cr3 s) = phys s (cr3 s) \<and> walk s' a = Some f \<and>
     f < PHY_FRAMES \<and> frame_ref s f = 0 \<and> frame_ref s' = (frame_ref s)(f := 1) \<and>
     (\<forall>v. dir_index v \<noteq> 769 \<longrightarrow> \<not> same_page v a \<longrightarrow> walk s' v = walk s v) \<and>
     (\<forall>h. frame_ref s h \<noteq> 0 \<longrightarrow> h \<notin> table_frames s \<longrightarrow> phys s' h = phys s h)"

lemma map_one:
  assumes ok: "vm_ok s" and p: "dir_index a \<noteq> 769" "pte_present (pde s (dir_index a))" and w: "walk s a = None"
    and free: "free_frames s \<noteq> {}"
  shows "\<exists>f s'. map_page a s = Inr s' \<and> page_added a f s s'"
proof -
  from map_new_page [OF ok p w free] obtain f s' E where m: "map_page a s = Inr s'" "f < PHY_FRAMES" "frame_ref s f = 0"
    "frame_ref s' = (frame_ref s)(f := 1)" "frames_ok s'" "cr3 s' = cr3 s"
    "E = set_entry (phys s (table_of s (dir_index a)) (table_index a)) (a < 0xC0000000) f"
    "phys s' = (phys s)(table_of s (dir_index a) := (phys s (table_of s (dir_index a)))(table_index a := E), f := zero_page (phys s f))"
    by blast
  note n = new_entry_ok [OF ok p m(3,2,4-8)]
  have T: "table_of s (dir_index a) \<in> table_frames s" "table_of s (dir_index a) \<noteq> cr3 s"
    using p dir_index_less vm_okD(7) [OF ok dir_index_less p] by (auto simp: table_frames_def)
  have "phys s' (cr3 s) = phys s (cr3 s)" using T(2) fresh_frame(1) [OF ok m(3)] m(8) by simp
  moreover have "phys s' h = phys s h" if "frame_ref s h \<noteq> 0" "h \<notin> table_frames s" for h
  proof -
    have "h \<noteq> f" "h \<noteq> table_of s (dir_index a)" using that m(3) T(1) by auto
    then show ?thesis unfolding m(8) by simp
  qed
  ultimately have "page_added a f s s'" using m(1-4,6) n(1,2,4) unfolding page_added_def by blast
  then show ?thesis using m(1) by blast
qed

definition stack_added :: "nat \<Rightarrow> nat \<Rightarrow> nat \<Rightarrow> vm \<Rightarrow> vm \<Rightarrow> bool" where
  "stack_added k f g s s' \<longleftrightarrow>
     vm_ok s' \<and> cr3 s' = cr3 s \<and> phys s' (cr3 s) = phys s (cr3 s) \<and>
     walk s' (slot_base k + 4096) = Some f \<and> walk s' (slot_base k + 8192) = Some g \<and> f \<noteq> g \<and> f < PHY_FRAMES \<and> g < PHY_FRAMES \<and>
     frame_ref s f = 0 \<and> frame_ref s g = 0 \<and> frame_ref s' = (frame_ref s)(f := 1, g := 1) \<and>
     (\<forall>v. dir_index v \<noteq> 769 \<longrightarrow> \<not> same_page v (slot_base k + 4096) \<longrightarrow> \<not> same_page v (slot_base k + 8192) \<longrightarrow> walk s' v = walk s v) \<and>
     (\<forall>h. frame_ref s h \<noteq> 0 \<longrightarrow> h \<notin> table_frames s \<longrightarrow> phys s' h = phys s h)"

lemma stack_page_list: "[0..<unat (KERNEL_STACK_SIZE div PAGE_SIZE)] = [0, 1]"
  by code_simp

lemma map_stack_ok:
  assumes ok: "vm_ok s" and k: "k < 21845"
    and pd: "\<And>i. 896 \<le> i \<Longrightarrow> i < 960 \<Longrightarrow> pte_present (pde s i)"
    and w: "walk s (slot_base k + 4096) = None" "walk s (slot_base k + 8192) = None"
    and free: "2 \<le> card (free_frames s)"
  shows "\<exists>f g s'. map_stack (slot_base k + 4096) s = Inr s' \<and> stack_added k f g s s'"
proof -
  let ?a = "slot_base k + 4096" and ?b = "slot_base k + 8192"
  have one: "dir_index ?a \<noteq> 769" "896 \<le> dir_index ?a" "dir_index ?a < 960" and two: "dir_index ?b \<noteq> 769" "896 \<le> dir_index ?b" "dir_index ?b < 960"
    using slot_page [OF k, of 1] slot_page [OF k, of 2] by simp_all
  have ab: "\<not> same_page ?b ?a" using slot_pages_differ [OF k _ k, of 2 1] by simp
  have "free_frames s \<noteq> {}" using free by auto
  from map_one [OF ok one(1) pd [OF one(2,3)] w(1) this] obtain f s1 where
    f0: "map_page ?a s = Inr s1" "page_added ?a f s s1" by blast
  note f = f0(2) [unfolded page_added_def]
  have "card (free_frames s1) \<noteq> 0" using free card_free_upd(1) [of s1 s f] f by linarith
  then have fr1: "free_frames s1 \<noteq> {}" by auto
  have w1: "walk s1 ?b = None" using f two(1) ab w(2) by simp
  have pd1: "pte_present (pde s1 (dir_index ?b))" using pd [OF two(2,3)] f by simp
  have ok1: "vm_ok s1" using f by simp
  from map_one [OF ok1 two(1) pd1 w1 fr1] obtain g s2 where
    g0: "map_page ?b s1 = Inr s2" "page_added ?b g s1 s2" by blast
  note g = g0(2) [unfolded page_added_def]
  have r: "frame_ref s1 = (frame_ref s)(f := 1)" "frame_ref s1 g = 0" using f g by blast+
  then have fg: "f \<noteq> g" "frame_ref s g = 0" by (auto split: if_splits)
  have "map_stack ?a s = Inr s2"
    using f0(1) g0(1) unfolding map_stack_def stack_page_list by (simp add: PAGE_SIZE_def add.assoc)
  moreover have "stack_added k f g s s2"
  proof -
    have "\<not> same_page ?a ?b" using ab by (auto simp: same_page_def)
    then have "walk s2 ?a = Some f" using f g one(1) by metis
    moreover have t: "table_frames s1 = table_frames s" using f by (intro table_frames_cong) simp_all
    moreover have "phys s2 h = phys s h" if "frame_ref s h \<noteq> 0" "h \<notin> table_frames s" for h
      using f g that t by (metis fun_upd_other)
    ultimately show ?thesis using f g fg unfolding stack_added_def by simp
  qed
  ultimately show ?thesis by blast
qed

section \<open>The invariant of the threads\<close>

text \<open>
  The pages tables of the stack area exist, every guard page is unmapped, and so are the stack pages of
  every slot that is free.
\<close>

definition threads_ok :: "threads \<Rightarrow> bool" where
  "threads_ok s \<longleftrightarrow>
     vm_ok (t_vm s) \<and> wf_pool (thread_id_pool s) \<and> wf_bitmap (kernel_stack_slots s) \<and>
     scan_limit (kernel_stack_slots s) \<le> 21845 \<and> hold (kernel_stack_slots_lock s) = LOCKED_NO \<and>
     (\<forall>i. 896 \<le> i \<and> i < 960 \<longrightarrow> pte_present (pde (t_vm s) i)) \<and>
     (\<forall>k<21845. walk (t_vm s) (slot_base k) = None \<and>
        (k \<notin> set_bits (kernel_stack_slots s) \<longrightarrow>
           walk (t_vm s) (slot_base k + 4096) = None \<and> walk (t_vm s) (slot_base k + 8192) = None))"

definition free_slot :: "threads \<Rightarrow> bool" where
  "free_slot s \<longleftrightarrow> \<not> {..<scan_limit (kernel_stack_slots s)} \<subseteq> set_bits (kernel_stack_slots s)"

lemma threads_okD:
  assumes "threads_ok s"
  shows "vm_ok (t_vm s)" "wf_pool (thread_id_pool s)" "wf_bitmap (kernel_stack_slots s)"
    "scan_limit (kernel_stack_slots s) \<le> 21845" "hold (kernel_stack_slots_lock s) = LOCKED_NO"
    "\<And>i. 896 \<le> i \<Longrightarrow> i < 960 \<Longrightarrow> pte_present (pde (t_vm s) i)"
    "\<And>k. k < 21845 \<Longrightarrow> walk (t_vm s) (slot_base k) = None"
    "\<And>k. \<lbrakk>k < 21845; k \<notin> set_bits (kernel_stack_slots s)\<rbrakk> \<Longrightarrow> walk (t_vm s) (slot_base k + 4096) = None"
    "\<And>k. \<lbrakk>k < 21845; k \<notin> set_bits (kernel_stack_slots s)\<rbrakk> \<Longrightarrow> walk (t_vm s) (slot_base k + 8192) = None"
  using assms by (auto simp: threads_ok_def)

lemma slots_lock_free:
  assumes "hold (kernel_stack_slots_lock s) = LOCKED_NO"
  shows "lock_slots s = Some (s\<lparr>kernel_stack_slots_lock := (kernel_stack_slots_lock s)\<lparr>hold := LOCKED_YES\<rparr>\<rparr>)"
    "unlock_slots (s\<lparr>kernel_stack_slots_lock := (kernel_stack_slots_lock s)\<lparr>hold := LOCKED_YES\<rparr>, kernel_stack_slots := b\<rparr>) =
       s\<lparr>kernel_stack_slots := b\<rparr>"
proof -
  show "lock_slots s = Some (s\<lparr>kernel_stack_slots_lock := (kernel_stack_slots_lock s)\<lparr>hold := LOCKED_YES\<rparr>\<rparr>)"
    using assms by (simp add: lock_slots_def yieldlock_lock_free)
  have "(kernel_stack_slots_lock s)\<lparr>hold := LOCKED_NO\<rparr> = kernel_stack_slots_lock s" using assms by simp
  then show "unlock_slots (s\<lparr>kernel_stack_slots_lock := (kernel_stack_slots_lock s)\<lparr>hold := LOCKED_YES\<rparr>, kernel_stack_slots := b\<rparr>) =
      s\<lparr>kernel_stack_slots := b\<rparr>"
    by (simp add: unlock_slots_def yieldlock_unlock_def)
qed

lemma slot_addr: "KERNEL_STACK_AREA_START + slot * KERNEL_STACK_SLOT_SIZE = slot_base (unat slot)"
  by (simp add: slot_base_def KERNEL_STACK_AREA_START_def KERNEL_STACK_SLOT_SIZE_def KERNEL_STACK_GUARD_SIZE_def PAGE_SIZE_def)

lemma stack_added_ok:
  assumes ok: "threads_ok s" and k: "k < 21845" and st: "stack_added k f g (t_vm s) v"
    and b: "wf_bitmap b" "scan_limit b \<le> 21845" "set_bits b = insert k (set_bits (kernel_stack_slots s))"
  shows "threads_ok (s\<lparr>kernel_stack_slots := b, t_vm := v\<rparr>)"
proof -
  note st = st [unfolded stack_added_def]
  have w: "walk v (slot_base i + of_nat (4096 * j)) = walk (t_vm s) (slot_base i + of_nat (4096 * j))"
    if "i < 21845" "j < 3" "i \<noteq> k \<or> j = 0" for i j
  proof -
    have "\<not> same_page (slot_base i + of_nat (4096 * j)) (slot_base k + of_nat (4096 * l))" if "l \<in> {1, 2}" for l
      using slot_pages_differ [OF \<open>i < 21845\<close> \<open>j < 3\<close> k, of l] that \<open>i \<noteq> k \<or> j = 0\<close> by auto
    from this [of 1] this [of 2] show ?thesis using st slot_page(3) [OF that(1,2)] by simp
  qed
  have "walk v (slot_base i) = None" if "i < 21845" for i
    using w [OF that, of 0] threads_okD(7) [OF ok that] by simp
  moreover have "walk v (slot_base i + 4096) = None \<and> walk v (slot_base i + 8192) = None"
    if "i < 21845" "i \<notin> set_bits b" for i
    using w [OF that(1), of 1] w [OF that(1), of 2] threads_okD(8,9) [OF ok that(1)] that(2) b(3) by simp
  moreover have "pte_present (pde v i)" if "896 \<le> i" "i < 960" for i
    using threads_okD(6) [OF ok that] st by simp
  ultimately show ?thesis using threads_okD(2,5) [OF ok] b st by (simp add: threads_ok_def)
qed

lemma alloc_kernel_stack_slot_ok:
  assumes ok: "threads_ok s" and fs: "free_slot s" and fr: "2 \<le> card (free_frames (t_vm s))"
  shows "\<exists>k f g b v. alloc_kernel_stack_slot s = Some (Inr (slot_base k, s\<lparr>kernel_stack_slots := b, t_vm := v\<rparr>)) \<and> k < 21845 \<and>
     k \<notin> set_bits (kernel_stack_slots s) \<and> set_bits b = insert k (set_bits (kernel_stack_slots s)) \<and>
     stack_added k f g (t_vm s) v \<and> threads_ok (s\<lparr>kernel_stack_slots := b, t_vm := v\<rparr>)"
proof -
  note wf = threads_okD(3) [OF ok]
  from fs obtain slot b where a: "bitmap_alloc_first_free (kernel_stack_slots s) = Some (slot, b)"
    using bm.alloc_None [OF wf] by (cases "bitmap_alloc_first_free (kernel_stack_slots s)") (auto simp: free_slot_def)
  let ?k = "unat slot"
  have k: "?k < 21845" "?k \<notin> set_bits (kernel_stack_slots s)"
    using bm.alloc_fresh [OF wf a] threads_okD(4) [OF ok] by auto
  from map_stack_ok [OF threads_okD(1) [OF ok] k(1) threads_okD(6) [OF ok] threads_okD(8,9) [OF ok k] fr] obtain f g v where
    v: "map_stack (slot_base ?k + 4096) (t_vm s) = Inr v" "stack_added ?k f g (t_vm s) v" by blast
  note b = bm.alloc_invar [OF wf a] bm.alloc_used [OF wf a]
  have "alloc_kernel_stack_slot s = Some (Inr (slot_base ?k, s\<lparr>kernel_stack_slots := b, t_vm := v\<rparr>))"
    using a v(1) slots_lock_free [OF threads_okD(5) [OF ok]] slot_addr [of slot]
    by (simp add: alloc_kernel_stack_slot_def Let_def KERNEL_STACK_GUARD_SIZE_def PAGE_SIZE_def)
  moreover have "threads_ok (s\<lparr>kernel_stack_slots := b, t_vm := v\<rparr>)"
    using stack_added_ok [OF ok k(1) v(2)] b threads_okD(4) [OF ok] by simp
  ultimately show ?thesis using k b v(2) by blast
qed

section \<open>A thread that can start\<close>

text \<open>The words the first switch to a thread and the first return to user mode pop from its stack.\<close>

definition starts_with :: "u32 \<Rightarrow> u32 \<Rightarrow> u32 \<Rightarrow> bool \<Rightarrow> u32 \<Rightarrow> vm \<Rightarrow> bool" where
  "starts_with kernel_thread switch_to_user_mode func u esp v \<longleftrightarrow>
     (if u then
        vread v (esp + 28) = Inr switch_to_user_mode \<and> vread v (esp + 40) = Inr SELECTOR_U_DATA \<and>
        vread v (esp + 84) = Inr func \<and> vread v (esp + 88) = Inr SELECTOR_U_CODE \<and> vread v (esp + 92) = Inr 0x202 \<and>
        vread v (esp + 100) = Inr SELECTOR_U_DATA
      else vread v (esp + 28) = Inr kernel_thread \<and> vread v (esp + 36) = Inr func)"

lemma stack_top_word:
  assumes "page_aligned b" "i < 26"
  shows "walk s (b + 3992 + of_nat (4 * i)) = walk s b" "word_index (b + 3992 + of_nat (4 * i)) = 998 + i"
proof -
  have e: "b + 3992 + of_nat (4 * i) = b + of_nat (4 * (998 + i))" by simp
  show "walk s (b + 3992 + of_nat (4 * i)) = walk s b" unfolding e by (rule walk_offset) (use assms in simp_all)
  show "word_index (b + 3992 + of_nat (4 * i)) = 998 + i" unfolding e by (rule page_offset) (use assms in simp_all)
qed

lemma poke_stack:
  assumes "vm_ok v" "g \<notin> table_frames v" "page_aligned b" "walk v b = Some g" "\<And>i w. (i, w) \<in> set ws \<Longrightarrow> j + i < 26"
  shows "poke (b + 3992 + of_nat (4 * j)) ws v = Inr (put_frame g (fold (\<lambda>(i, w) c. c(998 + j + i := w)) ws (phys v g)) v)"
proof (rule poke_eq [OF assms(1,2)])
  fix i w assume "(i, w) \<in> set ws"
  then have l: "j + i < 26" by (rule assms(5))
  have "b + 3992 + of_nat (4 * j) + of_nat (4 * i) = b + 3992 + of_nat (4 * (j + i))" by (simp add: algebra_simps)
  then show "walk v (b + 3992 + of_nat (4 * j) + of_nat (4 * i)) = Some g \<and>
      word_index (b + 3992 + of_nat (4 * j) + of_nat (4 * i)) = 998 + j + i"
    using stack_top_word [OF assms(3) l] assms(4) by (simp only: add.assoc)
qed

lemma init_stack_ok:
  assumes ok: "vm_ok v" and k: "k < 21845" and w: "walk v (slot_base k + 4096) = Some f" "walk v (slot_base k + 8192) = Some g"
    and d: "f \<noteq> g" "f \<notin> table_frames v" "g \<notin> table_frames v"
  shows "\<exists>Z C. init_stack kt um func u (slot_base k + 4096) (slot_base k + 8192 + 3992) v = Inr (put_frame g C (put_frame f Z v)) \<and>
     starts_with kt um func u (slot_base k + 8192 + 3992) (put_frame g C (put_frame f Z v))"
proof -
  let ?b = "slot_base k + 8192"
  define v1 where "v1 = put_frame f (zero_page (phys v f)) v"
  have al: "page_aligned (slot_base k + 4096)" "page_aligned (slot_base k + 4096 + 4096)" "page_aligned ?b"
    using slot_page(2) [OF k, of 1] slot_page(2) [OF k, of 2] by (simp_all add: add.assoc)
  note p1 = put_frame_data [OF ok d(2)]
  have ok1: "vm_ok v1" "g \<notin> table_frames v1" "walk v1 ?b = Some g" using p1 d w by (simp_all add: v1_def)
  have cl: "clear_words (slot_base k + 4096) 0 (unat (KERNEL_STACK_SIZE div 4)) v = Inr (put_frame g (zero_page (phys v g)) v1)"
    using clear_two_pages [OF ok al(1,2) w(1) _ d(2,3,1)] w(2) by (simp add: v1_def KERNEL_STACK_SIZE_def add.assoc)
  have pk: "poke (?b + 3992 + of_nat (4 * j)) ws (put_frame g c v1) =
      Inr (put_frame g (fold (\<lambda>(i, w) c. c(998 + j + i := w)) ws c) v1)"
    if "\<And>i w. (i, w) \<in> set ws \<Longrightarrow> j + i < 26" for ws j c
  proof -
    note p = put_frame_data [OF ok1(1,2), of c]
    have "walk (put_frame g c v1) ?b = Some g" "g \<notin> table_frames (put_frame g c v1)" using p ok1 by simp_all
    from poke_stack [OF p(2) this(2) al(3) this(1) that] show ?thesis by simp
  qed
  have rd: "vread (put_frame g c v1) (?b + 3992 + of_nat (4 * i)) = Inr (c (998 + i))" if "i < 26" for i c
    using stack_top_word [OF al(3) that] put_frame_data(1) [OF ok1(1,2)] ok1(3) by (simp add: vread_def)
  define C1 where "C1 = fold (\<lambda>(i, w) c. c(998 + i := w)) (switch_frame kt func) (zero_page (phys v g))"
  define C2 where "C2 = fold (\<lambda>(i, w) c. c(1008 + i := w)) (user_frame func) (C1(1005 := um))"
  have fr: "\<And>i w. (i, w) \<in> set (switch_frame kt func) \<Longrightarrow> 0 + i < 26" "\<And>i w. (i, w) \<in> set (user_frame func) \<Longrightarrow> 10 + i < 26"
    by (auto simp: switch_frame_def user_frame_def)
  have s1: "poke (?b + 3992) (switch_frame kt func) (put_frame g (zero_page (phys v g)) v1) = Inr (put_frame g C1 v1)"
    using pk [where j = 0, OF fr(1)] by (simp add: C1_def)
  have s2: "poke (?b + 3992) [(7, um)] (put_frame g C1 v1) = Inr (put_frame g (C1(1005 := um)) v1)"
    using pk [of "[(7, um)]" 0 C1] by simp
  have s3: "poke (?b + 3992 + SWITCH_STACK_SIZE) (user_frame func) (put_frame g (C1(1005 := um)) v1) = Inr (put_frame g C2 v1)"
    using pk [where j = 10 and c = "C1(1005 := um)", OF fr(2)] by (simp add: C2_def SWITCH_STACK_SIZE_def)
  have run: "init_stack kt um func u (slot_base k + 4096) (?b + 3992) v = Inr (put_frame g (if u then C2 else C1) v1)"
    using cl s1 s2 s3 by (simp add: init_stack_def)
  have c1: "C1 1005 = kt" "C1 1007 = func" by (simp_all add: C1_def switch_frame_def)
  have c2: "C2 1005 = um" "C2 1008 = SELECTOR_U_DATA" "C2 1019 = func" "C2 1020 = SELECTOR_U_CODE" "C2 1021 = 0x202" "C2 1023 = SELECTOR_U_DATA"
    by (simp_all add: C2_def user_frame_def EFLAGS_IOPL_0_def EFLAGS_MBS_def EFLAGS_IF_1_def)
  have "starts_with kt um func u (?b + 3992) (put_frame g (if u then C2 else C1) v1)"
    using c1 c2 rd [of 7 C1] rd [of 9 C1] rd [of 7 C2] rd [of 10 C2] rd [of 21 C2] rd [of 22 C2] rd [of 23 C2] rd [of 25 C2]
    by (simp add: starts_with_def)
  with run show ?thesis unfolding v1_def by blast
qed

text \<open>The invariant looks at the memory, the pool and the slots only.\<close>

lemma threads_ok_cong:
  assumes "threads_ok s" "wf_pool (thread_id_pool s')" "kernel_stack_slots s' = kernel_stack_slots s"
    and "kernel_stack_slots_lock s' = kernel_stack_slots_lock s" "vm_ok (t_vm s')" "cr3 (t_vm s') = cr3 (t_vm s)"
    and "phys (t_vm s') (cr3 (t_vm s)) = phys (t_vm s) (cr3 (t_vm s))" "\<And>a. walk (t_vm s') a = walk (t_vm s) a"
  shows "threads_ok s'"
  using assms by (simp add: threads_ok_def)

text \<open>Slot \<open>k\<close> got the frames \<open>f\<close> and \<open>g\<close>, and no other count has changed.\<close>

definition stack_owned :: "nat \<Rightarrow> nat \<Rightarrow> nat \<Rightarrow> vm \<Rightarrow> vm \<Rightarrow> bool" where
  "stack_owned k f g v0 v \<longleftrightarrow>
     walk v (slot_base k + 4096) = Some f \<and> walk v (slot_base k + 8192) = Some g \<and> f \<noteq> g \<and> f < PHY_FRAMES \<and> g < PHY_FRAMES \<and>
     f \<notin> table_frames v \<and> g \<notin> table_frames v \<and> frame_ref v0 f = 0 \<and> frame_ref v0 g = 0 \<and>
     frame_ref v = (frame_ref v0)(f := 1, g := 1)"

lemma init_thread_ok:
  assumes ok: "threads_ok s" and ids: "\<not> {..<pool_capacity (thread_id_pool s)} \<subseteq> pool_ids (thread_id_pool s)"
    and fs: "free_slot s" and fr: "2 \<le> card (free_frames (t_vm s))"
  shows "\<exists>s' k. init_thread kt um a NULL nm func prio u s = Some (Inr (a, s')) \<and> threads_ok s' \<and>
    (let t = tcbs (t_sched s') a
     in unat (thread_id t) \<notin> pool_ids (thread_id_pool s) \<and>
        pool_ids (thread_id_pool s') = insert (unat (thread_id t)) (pool_ids (thread_id_pool s)) \<and>
        k \<notin> set_bits (kernel_stack_slots s) \<and> set_bits (kernel_stack_slots s') = insert k (set_bits (kernel_stack_slots s)) \<and>
        status t = TASK_READY \<and> crt_queue t = No_queue \<and> crt_node_ptr t = schedule_node a \<and> ptr (nodes (t_sched s') (schedule_node a)) = a \<and>
        k < 21845 \<and> kernel_stack_alloc t = slot_base k \<and> kernel_stack t = slot_base k + 4096 \<and> kernel_esp t = kernel_stack t + 8088 \<and>
        starts_with kt um func u (kernel_esp t) (t_vm s') \<and> (\<exists>f g. stack_owned k f g (t_vm s) (t_vm s')) \<and>
        (\<forall>h. frame_ref (t_vm s) h \<noteq> 0 \<longrightarrow> h \<notin> table_frames (t_vm s) \<longrightarrow> phys (t_vm s') h = phys (t_vm s) h))"
proof -
  note wfp = threads_okD(2) [OF ok]
  from ids obtain i pool where al: "id_pool_alloc (thread_id_pool s) = Some (i, pool)"
    using ip.alloc_None [OF wfp] by (cases "id_pool_alloc (thread_id_pool s)") auto
  note i = ip.alloc_fresh [OF wfp al] ip.alloc_used [OF wfp al] ip.alloc_invar [OF wfp al]
  define s1 where "s1 = init_node a (put_tcb a (\<lambda>t. t\<lparr>thread_id := i, crt_node_ptr := schedule_node a,
      crt_queue := No_queue, status := TASK_READY, ticks := 0, priority := ucast prio, user_stack_index := - 1, need_reschedule := False\<rparr>)
      ((put_tcb a (\<lambda>_. zero_tcb) s)\<lparr>thread_id_pool := pool,
         thread_name := (thread_name s)(a := case nm of Some n \<Rightarrow> n | None \<Rightarrow> default_name i)\<rparr>))"
  have s1: "t_vm s1 = t_vm s" "thread_id_pool s1 = pool" "kernel_stack_slots s1 = kernel_stack_slots s"
    "kernel_stack_slots_lock s1 = kernel_stack_slots_lock s" "ptr (nodes (t_sched s1) (schedule_node a)) = a"
    "thread_id (tcbs (t_sched s1) a) = i" "status (tcbs (t_sched s1) a) = TASK_READY" "crt_queue (tcbs (t_sched s1) a) = No_queue"
    "crt_node_ptr (tcbs (t_sched s1) a) = schedule_node a"
    by (simp_all add: s1_def init_node_def put_tcb_def upd_tcb_def)
  have ok1: "threads_ok s1" using ok i s1(1-4) by (intro threads_ok_cong [OF ok]) (simp_all add: threads_okD(1))
  have fs1: "free_slot s1" using fs s1(3) by (simp add: free_slot_def)
  have fr1: "2 \<le> card (free_frames (t_vm s1))" using fr s1(1) by simp
  from alloc_kernel_stack_slot_ok [OF ok1 fs1 fr1] obtain k f g b v where
    k: "alloc_kernel_stack_slot s1 = Some (Inr (slot_base k, s1\<lparr>kernel_stack_slots := b, t_vm := v\<rparr>))" "k < 21845"
      "k \<notin> set_bits (kernel_stack_slots s)" "set_bits b = insert k (set_bits (kernel_stack_slots s))"
      "stack_added k f g (t_vm s) v" "threads_ok (s1\<lparr>kernel_stack_slots := b, t_vm := v\<rparr>)" using s1 by auto
  note st = k(5) [unfolded stack_added_def]
  have tf: "table_frames v = table_frames (t_vm s)" using st by (intro table_frames_cong) simp_all
  have fg: "f \<noteq> g" "f \<notin> table_frames v" "g \<notin> table_frames v" "frame_ref (t_vm s) f = 0" "frame_ref (t_vm s) g = 0"
    using st tf free_not_table [OF threads_okD(1) [OF ok]] by auto
  have okv: "vm_ok v" and wv: "walk v (slot_base k + 4096) = Some f" "walk v (slot_base k + 8192) = Some g" using st by auto
  from init_stack_ok [OF okv k(2) wv fg(1-3), of kt um func u] obtain Z C where
    r: "init_stack kt um func u (slot_base k + 4096) (slot_base k + 8192 + 3992) v = Inr (put_frame g C (put_frame f Z v))"
      "starts_with kt um func u (slot_base k + 8192 + 3992) (put_frame g C (put_frame f Z v))" by blast
  let ?v = "put_frame g C (put_frame f Z v)"
  define s2 where "s2 = (put_tcb a (\<lambda>t. t\<lparr>kernel_stack_alloc := slot_base k, kernel_stack := slot_base k + 4096,
      kernel_esp := slot_base k + 8192 + 3992\<rparr>) (s1\<lparr>kernel_stack_slots := b, t_vm := v\<rparr>))\<lparr>t_vm := ?v\<rparr>"
  have run: "init_thread kt um a NULL nm func prio u s = Some (Inr (a, s2))"
  proof -
    have "id_pool_allocate_id (\<lambda>p. p) (thread_id_pool (put_tcb a (\<lambda>_. zero_tcb) s)) = Some (Some i, pool)"
      using id_pool_allocate_id_eq [OF wfp] al by (simp add: put_tcb_def)
    moreover have "thread_name (put_tcb a (\<lambda>_. zero_tcb) s) = thread_name s" by (simp add: put_tcb_def)
    ultimately show ?thesis
      using k(1) r(1) unfolding s1_def s2_def
      by (simp add: init_thread_def Let_def put_tcb_def KERNEL_STACK_GUARD_SIZE_def PAGE_SIZE_def KERNEL_STACK_SIZE_def
          INTERRUPT_STACK_SIZE_def SWITCH_STACK_SIZE_def)
  qed
  note pf = put_frame_data [OF okv fg(2), of Z]
  have g2: "g \<notin> table_frames (put_frame f Z v)" using pf(4) fg(3) by simp
  note pg = put_frame_data [OF pf(2) g2, of C]
  have ok2: "threads_ok s2"
  proof (rule threads_ok_cong [OF k(6)])
    have "cr3 v \<notin> {f, g}" using cr3_table [OF vm_okD(1) [OF okv]] fg(2,3) by auto
    then show "phys (t_vm s2) (cr3 (t_vm (s1\<lparr>kernel_stack_slots := b, t_vm := v\<rparr>))) =
        phys (t_vm (s1\<lparr>kernel_stack_slots := b, t_vm := v\<rparr>)) (cr3 (t_vm (s1\<lparr>kernel_stack_slots := b, t_vm := v\<rparr>)))"
      by (simp add: s2_def)
  qed (use pf pg i s1(2) in \<open>simp_all add: s2_def put_tcb_def\<close>)
  have data: "phys ?v h = phys (t_vm s) h" if "frame_ref (t_vm s) h \<noteq> 0" "h \<notin> table_frames (t_vm s)" for h
    using that st fg by auto
  have own: "stack_owned k f g (t_vm s) ?v"
    using st fg pf pg g2 unfolding stack_owned_def by simp
  show ?thesis
    by (intro exI [of _ s2] exI [of _ k])
      (use run ok2 data own i k r(2) s1 in \<open>auto simp: s2_def put_tcb_def upd_tcb_def Let_def add.assoc\<close>)
qed

section \<open>Giving the stack back\<close>

definition page_removed :: "u32 \<Rightarrow> nat \<Rightarrow> vm \<Rightarrow> vm \<Rightarrow> bool" where
  "page_removed a f s s' \<longleftrightarrow>
     vm_ok s' \<and> cr3 s' = cr3 s \<and> phys s' (cr3 s) = phys s (cr3 s) \<and> walk s' a = None \<and>
     frame_ref s' = (frame_ref s)(f := frame_ref s f - 1) \<and>
     (\<forall>v. dir_index v \<noteq> 769 \<longrightarrow> \<not> same_page v a \<longrightarrow> walk s' v = walk s v)"

lemma release_mapped:
  assumes ok: "vm_ok s" and p: "dir_index a \<noteq> 769" and w: "walk s a = Some f"
    and f: "f < PHY_FRAMES" "frame_ref s f \<noteq> 0" "f \<notin> table_frames s" "f \<noteq> 0"
  shows "\<exists>s'. release_page a True s = Inr s' \<and> page_removed a f s s'"
proof -
  let ?p = "dir_index a" and ?k = "unat a div 4096" and ?T = "table_of s (dir_index a)"
  have rec: "rec_ok s" by (rule vm_okD(1) [OF ok])
  have e: "pte_present (pde s ?p)" "pte_present (phys s ?T (table_index a))" "pte_frame (phys s ?T (table_index a)) = f"
    using w by (auto simp: walk_def Let_def split: if_splits)
  have T: "?T \<noteq> cr3 s" using vm_okD(7) [OF ok dir_index_less p e(1)] .
  have pk: "pte_present (pde s (?k div 1024))" using e(1) by (simp only: page_number)
  have rd: "vread s (pte_addr ?k) = Inr (phys s ?T (table_index a))"
    using window_pte(1) [OF rec page_number(1) pk] by (simp only: page_number)
  have "0 < frame_ref s f" using f(2) by simp
  from fp.drop_ref [OF vm_okD(2) [OF ok] f(1) this] obtain s1 where
    s1: "release_phy_frame f s = Inr s1" "frame_ref s1 = (frame_ref s)(f := frame_ref s f - 1)" "frames_ok s1" by blast
  have s1p: "phys s1 = phys s" "cr3 s1 = cr3 s" using s1(1) by (auto simp: release_phy_frame_def)
  let ?s2 = "set_phys ?T (table_index a) 0 s1"
  have rec1: "rec_ok s1" "pte_present (pde s1 (?k div 1024))" using rec pk s1p by (simp_all add: rec_ok_def)
  have wr: "vwrite (pte_addr ?k) 0 s1 = Inr ?s2"
    using window_pte(2) [OF rec1(1) page_number(1) rec1(2)] s1p by (simp only: page_number)
  have run: "release_page a True s = Inr ?s2" using rd e(2,3) s1(1) wr by (simp add: release_page_def Let_def)
  have pd: "phys ?s2 (cr3 s) = phys s (cr3 s)" using T s1p by simp
  have ref: "frame_ref ?s2 = frame_ref s1" by (simp add: frame_ref_def fun_eq_iff)
  have "vm_ok ?s2"
  proof -
    have "frame_ref ?s2 (table_of s i) \<noteq> 0" if "i < 1024" "pte_present (pde s i)" for i
      using vm_okD(4) [OF ok that] that f(3) ref s1(2) by (auto simp: table_frames_def)
    moreover have "rec_ok ?s2" using rec pd s1p by (simp add: rec_ok_def)
    moreover have "frames_ok ?s2" using s1(3) by (simp add: frames_ok_def)
    moreover have "frame_ref ?s2 0 \<noteq> 0" using vm_okD(3) [OF ok] f(4) ref s1(2) by simp
    moreover have "pde ?s2 i = pde s i" for i using pd s1p by simp
    ultimately show ?thesis using vm_okD(5) [OF ok] unfolding vm_ok_def by (simp only: simp_thms) blast
  qed
  moreover have "walk ?s2 a = None" using pd T s1p e(1) by (simp add: walk_def Let_def pte_present_def)
  moreover have "walk ?s2 v = walk s v" if v: "dir_index v \<noteq> 769" "\<not> same_page v a" for v
  proof (rule walk_phys)
    show "phys ?s2 (cr3 ?s2) (dir_index v) = pde s (dir_index v)" using pd s1p by simp
    assume pv: "pte_present (pde s (dir_index v))"
    have "table_of s (dir_index v) \<noteq> ?T" if "dir_index v \<noteq> ?p" using vm_okD(5) [OF ok dir_index_less dir_index_less that pv e(1)] .
    then show "phys ?s2 (table_of s (dir_index v)) (table_index v) = phys s (table_of s (dir_index v)) (table_index v)"
      using v(2) s1p by (auto simp: same_page_def)
  qed
  ultimately have "page_removed a f s ?s2" using pd s1p ref s1(2) by (simp add: page_removed_def)
  with run show ?thesis by blast
qed

lemma release_two_pages:
  assumes al: "page_aligned a" and top: "unat a + 8192 \<le> 4294967296" and rec: "rec_ok s"
    and p: "pte_present (pde s (dir_index a))" "pte_present (pde s (dir_index (a + 4096)))"
    and s1: "release_page a True s = Inr s1" "cr3 s1 = cr3 s" "phys s1 (cr3 s) = phys s (cr3 s)"
  shows "release_pages a 2 True s = release_page (a + 4096) True s1"
proof -
  let ?k = "unat a div 4096"
  have q: "unat a = 4096 * ?k" using al by (auto simp: page_aligned_def)
  have k: "?k + 1 < 1048576" using top q by simp
  have b: "page_base a = a" by (rule page_base_props(5) [OF al])
  have 1: "unat (a div 4096) = ?k" by (simp add: unat_div)
  have 2: "unat (a div 4096 + 2) = ?k + 2" using unat_add_of_nat [of "a div 4096" 2] 1 k by simp
  have 3: "unat (a div 4194304) = dir_index a" by (simp add: unat_div dir_index_def)
  have u1: "unat (a + 4096) = 4096 * (?k + 1)" using unat_add_of_nat [of a 4096] q k by simp
  have d: "dir_index a = ?k div 1024" "dir_index (a + 4096) = (?k + 1) div 1024"
    using page_number(2) [of a] page_number(2) [of "a + 4096"] u1 by simp_all
  have e: "unat (a div 4096 + 2 - 1) = ?k + 1"
    using unat_add_of_nat [of "a div 4096" 1] 1 k by (simp add: add_diff_eq [symmetric])
  have 4: "unat ((a div 4096 + 2 - 1) div 1024 + 1) = dir_index (a + 4096) + 1"
  proof -
    have "unat ((a div 4096 + 2 - 1) div 1024) = dir_index (a + 4096)" using e d(2) by (simp only: unat_div) simp
    then show ?thesis using dir_index_less [of "a + 4096"] by (subst unat_succ32) simp_all
  qed
  have rp: "release_page (of_nat j * PAGE_SIZE) True = release_page (if j = ?k then a else a + 4096) True" if "j = ?k \<or> j = ?k + 1" for j
  proof -
    have "of_nat ?k * PAGE_SIZE = (of_nat (4096 * ?k) :: u32)" by (simp add: PAGE_SIZE_def)
    then have "of_nat ?k * PAGE_SIZE = a" unfolding q [symmetric] by simp
    then show ?thesis using that by (auto simp: algebra_simps PAGE_SIZE_def)
  qed
  have rec1: "rec_ok s1" using rec s1(2,3) by (simp add: rec_ok_def)
  have pd: "vread s (pde_addr (dir_index a)) = Inr (pde s (dir_index a))"
    "vread s1 (pde_addr (dir_index (a + 4096))) = Inr (pde s (dir_index (a + 4096)))"
    using window_pde(1) [OF rec dir_index_less] window_pde(1) [OF rec1 dir_index_less] s1(2,3) by simp_all
  let ?body = "\<lambda>i s. kbind (vread s (pde_addr i)) (\<lambda>pde. if \<not> pte_present pde then Inr s
      else kfold (\<lambda>j. release_page (of_nat j * PAGE_SIZE) True) [max (i * 1024) ?k..<min (i * 1024 + 1024) (?k + 2)] s)"
  have rel: "release_pages a 2 True s = kfold ?body [dir_index a..<dir_index (a + 4096) + 1] s"
    unfolding release_pages_def Let_def b 1 2 3 4 ..
  have m: "?k = ?k div 1024 * 1024 + ?k mod 1024" "?k mod 1024 < 1024" by simp_all
  show ?thesis
  proof (cases "dir_index (a + 4096) = dir_index a")
    case True
    have "?k + 1 < ?k div 1024 * 1024 + 1024"
      using d True m div_mult_mod_eq [of "?k + 1" 1024] mod_less_divisor [of 1024 "?k + 1"] by linarith
    then have "[max (dir_index a * 1024) ?k..<min (dir_index a * 1024 + 1024) (?k + 2)] = [?k, ?k + 1]"
      using m d(1) by (simp add: max_absorb2 min_absorb2 upt_conv_Cons)
    then show ?thesis using rel True pd(1) p(1) rp [of ?k] rp [of "?k + 1"] s1(1) by (simp add: kfold_Nil)
  next
    case False
    have "?k mod 1024 = 1023" and D: "dir_index (a + 4096) = dir_index a + 1"
      using False d m by (auto simp: div_Suc mod_Suc split: if_splits)
    then have k2: "?k = dir_index a * 1024 + 1023" using m d(1) by simp
    have "[max (dir_index a * 1024) ?k..<min (dir_index a * 1024 + 1024) (?k + 2)] = [?k]"
      "[max (dir_index (a + 4096) * 1024) ?k..<min (dir_index (a + 4096) * 1024 + 1024) (?k + 2)] = [?k + 1]"
      unfolding D k2 by (simp_all add: upt_conv_Cons)
    moreover have "[dir_index a..<dir_index (a + 4096) + 1] = [dir_index a, dir_index (a + 4096)]" using D by (simp add: upt_conv_Cons)
    ultimately show ?thesis using rel pd p rp [of ?k] rp [of "?k + 1"] s1(1) by (simp add: kfold_Nil)
  qed
qed

lemma destroy_thread_ok:
  assumes ok: "threads_ok s'" and vm0: "vm_ok v0" and k: "k < 21845" and own: "stack_owned k f g v0 (t_vm s')"
    and t: "kernel_stack_alloc (tcbs (t_sched s') a) = slot_base k"
  shows "\<exists>s''. destroy_thread a s' = Some (Inr (a, s'')) \<and> threads_ok s'' \<and> frame_ref (t_vm s'') = frame_ref v0 \<and>
    pool_ids (thread_id_pool s'') = pool_ids (thread_id_pool s') - {unat (thread_id (tcbs (t_sched s') a))} \<and>
    set_bits (kernel_stack_slots s'') = set_bits (kernel_stack_slots s') - {k}"
proof -
  let ?A = "slot_base k + 4096" and ?B = "slot_base k + 8192" and ?v = "t_vm s'"
  note own = own [unfolded stack_owned_def]
  have one: "dir_index ?A \<noteq> 769" "896 \<le> dir_index ?A" "dir_index ?A < 960" "page_aligned ?A" "unat ?A = 4096 * (917504 + 3 * k + 1)"
    and two: "dir_index ?B \<noteq> 769" "896 \<le> dir_index ?B" "dir_index ?B < 960" using slot_page [OF k, of 1] slot_page [OF k, of 2] by simp_all
  have fg0: "f \<noteq> 0" "g \<noteq> 0" "frame_ref ?v f = 1" "frame_ref ?v g = 1"
    using own vm_okD(3) [OF vm0] by (metis, metis, simp, simp)
  from release_mapped [OF threads_okD(1) [OF ok] one(1), of f] own fg0 obtain v1 where
    v1: "release_page ?A True ?v = Inr v1" "page_removed ?A f ?v v1" by auto
  note p1 = v1(2) [unfolded page_removed_def]
  have ab: "\<not> same_page ?B ?A" "\<not> same_page ?A ?B"
    using slot_pages_differ [OF k _ k, of 2 1] slot_pages_differ [OF k _ k, of 1 2] by simp_all
  have tf: "table_frames v1 = table_frames ?v" using p1 by (intro table_frames_cong) simp_all
  have "walk v1 ?B = Some g" "frame_ref v1 g \<noteq> 0" "g \<notin> table_frames v1" using p1 own ab(1) two(1) fg0 tf by simp_all
  from release_mapped [OF _ two(1) this(1) _ this(2,3) fg0(2)] p1 own obtain v2 where
    v2: "release_page ?B True v1 = Inr v2" "page_removed ?B g v1 v2" by auto
  note p2 = v2(2) [unfolded page_removed_def]
  have rel: "release_pages ?A 2 True ?v = Inr v2"
  proof -
    have "unat ?A + 8192 \<le> 4294967296" using one(5) k by simp
    moreover have "pte_present (pde ?v (dir_index ?A))" "pte_present (pde ?v (dir_index (?A + 4096)))"
      using threads_okD(6) [OF ok] one two by (simp_all add: add.assoc)
    ultimately show ?thesis using release_two_pages [OF one(4) _ vm_okD(1) [OF threads_okD(1) [OF ok]] _ _ v1(1)] p1 v2(1)
      by (simp add: add.assoc)
  qed
  have frs: "frame_ref v2 = frame_ref v0" using p1 p2 own fg0 by (auto simp: fun_eq_iff)
  let ?b = "bitmap_clear_bit (kernel_stack_slots s') (of_nat k)"
  let ?i = "thread_id (tcbs (t_sched s') a)"
  define s'' where "s'' = s'\<lparr>thread_id_pool := id_pool_free_id (thread_id_pool s') ?i, t_vm := v2, kernel_stack_slots := ?b\<rparr>"
  have uk: "unat (of_nat k :: u32) = k" using k by (simp add: unat_of_nat_small)
  have ub: "unat (slot_base k) = 3758096384 + 12288 * k" using slot_page(1) [OF k, of 0] by simp
  have guards: "slot_base k \<ge> KERNEL_STACK_AREA_START" "slot_base k < KERNEL_STACK_AREA_END"
    "(slot_base k - KERNEL_STACK_AREA_START) mod KERNEL_STACK_SLOT_SIZE = 0"
    "(slot_base k - KERNEL_STACK_AREA_START) div KERNEL_STACK_SLOT_SIZE = of_nat k"
  proof -
    show "slot_base k \<ge> KERNEL_STACK_AREA_START" "slot_base k < KERNEL_STACK_AREA_END"
      using ub k by (simp_all add: word_le_nat_alt word_less_nat_alt KERNEL_STACK_AREA_START_def KERNEL_STACK_AREA_END_def)
    have d: "slot_base k - KERNEL_STACK_AREA_START = of_nat (12288 * k)" "KERNEL_STACK_SLOT_SIZE = of_nat 12288"
      by (simp_all add: slot_base_def KERNEL_STACK_AREA_START_def KERNEL_STACK_SLOT_SIZE_def KERNEL_STACK_GUARD_SIZE_def PAGE_SIZE_def)
    have u: "unat (of_nat (12288 * k) :: u32) = 12288 * k" using k by (intro unat_of_nat_small) simp
    show "(slot_base k - KERNEL_STACK_AREA_START) mod KERNEL_STACK_SLOT_SIZE = 0"
      unfolding d by (rule unsigned_word_eqI [where ?'a = nat]) (simp add: unat_mod u del: of_nat_mult)
    show "(slot_base k - KERNEL_STACK_AREA_START) div KERNEL_STACK_SLOT_SIZE = of_nat k"
      unfolding d by (rule unsigned_word_eqI [where ?'a = nat]) (simp add: unat_div u uk del: of_nat_mult)
  qed
  have run: "destroy_thread a s' = Some (Inr (a, s''))"
    using t rel guards slots_lock_free [of "s'\<lparr>thread_id_pool := id_pool_free_id (thread_id_pool s') ?i, t_vm := v2\<rparr>"] threads_okD(5) [OF ok]
    by (simp add: destroy_thread_def release_kernel_stack_slot_def s''_def Let_def KERNEL_STACK_GUARD_SIZE_def PAGE_SIZE_def KERNEL_STACK_SIZE_def)
  have bits: "set_bits ?b = set_bits (kernel_stack_slots s') - {k}" using bm.free_used [OF threads_okD(3) [OF ok], of "of_nat k"] uk by simp
  have w: "walk v2 (slot_base i + of_nat (4096 * j)) =
      (if i = k \<and> j \<noteq> 0 then None else walk ?v (slot_base i + of_nat (4096 * j)))" if i: "i < 21845" "j < 3" for i j
  proof (cases "i = k \<and> j \<noteq> 0")
    case True
    then have "j = 1 \<or> j = 2" using i by auto
    then show ?thesis using True p1 p2 ab one(1) by auto
  next
    case False
    then have "\<not> same_page (slot_base i + of_nat (4096 * j)) (slot_base k + of_nat (4096 * l))" if "l \<in> {1, 2}" for l
      using slot_pages_differ [OF i k, of l] that by auto
    from this [of 1] this [of 2] have "walk v2 (slot_base i + of_nat (4096 * j)) = walk ?v (slot_base i + of_nat (4096 * j))"
      using p1 p2 slot_page(3) [OF i] by simp
    then show ?thesis using False by (simp only: if_False)
  qed
  have "threads_ok s''"
  proof -
    have "walk v2 (slot_base i) = None" if "i < 21845" for i using w [OF that, of 0] threads_okD(7) [OF ok that] by simp
    moreover have "walk v2 (slot_base i + 4096) = None \<and> walk v2 (slot_base i + 8192) = None"
      if "i < 21845" "i \<notin> set_bits ?b" for i
      using w [OF that(1), of 1] w [OF that(1), of 2] threads_okD(8,9) [OF ok that(1)] that(2) bits by (cases "i = k") simp_all
    moreover have "pte_present (pde v2 i)" if "896 \<le> i" "i < 960" for i using threads_okD(6) [OF ok that] p1 p2 by simp
    ultimately show ?thesis
      using threads_okD(2-5) [OF ok] p2 ip.free_invar [OF threads_okD(2) [OF ok]] bm.free_invar [OF threads_okD(3) [OF ok]]
      by (simp add: threads_ok_def s''_def)
  qed
  then show ?thesis
    using run frs bits ip.free_used [OF threads_okD(2) [OF ok], of ?i] by (intro exI [of _ s'']) (simp add: s''_def)
qed


section \<open>Properties\<close>

text \<open>C25: \<^verbatim>\<open>init_thread\<close> builds a thread that can start, and keeps the invariant of the threads (every guard
page of a kernel stack is unmapped, and so is the stack of every free slot). When an id, a stack slot and two
frames are free, it succeeds: the thread gets an id nobody has, a stack slot nobody has with an unmapped guard page
below the stack, and is ready in no queue with its own list node; the first switch to it finds the entry
point and the function on its stack, and for a user thread the return to user mode finds the function as
instruction pointer, the user segments and flags with interrupts enabled; no frame in use changes except page tables.\<close>

theorem init_thread_startable:
  assumes "threads_ok s" "\<not> {..<pool_capacity (thread_id_pool s)} \<subseteq> pool_ids (thread_id_pool s)" "free_slot s"
    and "2 \<le> card (free_frames (t_vm s))"
  shows "\<exists>s' k. init_thread kt um a NULL nm func prio u s = Some (Inr (a, s')) \<and> threads_ok s' \<and>
    (let t = tcbs (t_sched s') a
     in unat (thread_id t) \<notin> pool_ids (thread_id_pool s) \<and>
        k \<notin> set_bits (kernel_stack_slots s) \<and> set_bits (kernel_stack_slots s') = insert k (set_bits (kernel_stack_slots s)) \<and>
        status t = TASK_READY \<and> crt_queue t = No_queue \<and> crt_node_ptr t = schedule_node a \<and> ptr (nodes (t_sched s') (schedule_node a)) = a \<and>
        kernel_stack_alloc t = slot_base k \<and> walk (t_vm s') (kernel_stack_alloc t) = None \<and>
        kernel_stack t = slot_base k + 4096 \<and> kernel_esp t = kernel_stack t + 8088 \<and>
        starts_with kt um func u (kernel_esp t) (t_vm s') \<and>
        (\<forall>h. frame_ref (t_vm s) h \<noteq> 0 \<longrightarrow> h \<notin> table_frames (t_vm s) \<longrightarrow> phys (t_vm s') h = phys (t_vm s) h))"
proof -
  from init_thread_ok [OF assms, of kt um a nm func prio u] obtain s' k where
    r: "init_thread kt um a NULL nm func prio u s = Some (Inr (a, s'))" "threads_ok s'" "k < 21845"
      "kernel_stack_alloc (tcbs (t_sched s') a) = slot_base k" and rest: "unat (thread_id (tcbs (t_sched s') a)) \<notin> pool_ids (thread_id_pool s) \<and>
        k \<notin> set_bits (kernel_stack_slots s) \<and> set_bits (kernel_stack_slots s') = insert k (set_bits (kernel_stack_slots s)) \<and>
        status (tcbs (t_sched s') a) = TASK_READY \<and> crt_queue (tcbs (t_sched s') a) = No_queue \<and>
        crt_node_ptr (tcbs (t_sched s') a) = schedule_node a \<and> ptr (nodes (t_sched s') (schedule_node a)) = a \<and>
        kernel_stack (tcbs (t_sched s') a) = slot_base k + 4096 \<and> kernel_esp (tcbs (t_sched s') a) = kernel_stack (tcbs (t_sched s') a) + 8088 \<and>
        starts_with kt um func u (kernel_esp (tcbs (t_sched s') a)) (t_vm s') \<and>
        (\<forall>h. frame_ref (t_vm s) h \<noteq> 0 \<longrightarrow> h \<notin> table_frames (t_vm s) \<longrightarrow> phys (t_vm s') h = phys (t_vm s) h)"
    unfolding Let_def by blast
  have "walk (t_vm s') (kernel_stack_alloc (tcbs (t_sched s') a)) = None" using threads_okD(7) [OF r(2,3)] r(4) by simp
  then show ?thesis using r(1,2,4) rest unfolding Let_def by blast
qed

text \<open>C26: Creating a thread and destroying it gives everything back: the ids, the stack slots and the reference counts
of all frames are what they were, the address passed to \<^verbatim>\<open>kfree\<close> is that of the control block, and the
invariant of the threads holds again.\<close>

theorem thread_create_destroy:
  assumes "threads_ok s" "\<not> {..<pool_capacity (thread_id_pool s)} \<subseteq> pool_ids (thread_id_pool s)" "free_slot s"
    and "2 \<le> card (free_frames (t_vm s))"
  shows "\<exists>s' s''. init_thread kt um a NULL nm func prio u s = Some (Inr (a, s')) \<and>
    destroy_thread a s' = Some (Inr (a, s'')) \<and> threads_ok s'' \<and> pool_ids (thread_id_pool s'') = pool_ids (thread_id_pool s) \<and>
    set_bits (kernel_stack_slots s'') = set_bits (kernel_stack_slots s) \<and> frame_ref (t_vm s'') = frame_ref (t_vm s)"
proof -
  from init_thread_ok [OF assms, of kt um a nm func prio u] obtain s' k f g where
    r: "init_thread kt um a NULL nm func prio u s = Some (Inr (a, s'))" "threads_ok s'" "k < 21845"
      "kernel_stack_alloc (tcbs (t_sched s') a) = slot_base k" "stack_owned k f g (t_vm s) (t_vm s')"
      "unat (thread_id (tcbs (t_sched s') a)) \<notin> pool_ids (thread_id_pool s)"
      "pool_ids (thread_id_pool s') = insert (unat (thread_id (tcbs (t_sched s') a))) (pool_ids (thread_id_pool s))"
      "k \<notin> set_bits (kernel_stack_slots s)" "set_bits (kernel_stack_slots s') = insert k (set_bits (kernel_stack_slots s))"
    unfolding Let_def by blast
  from destroy_thread_ok [OF r(2) threads_okD(1) [OF assms(1)] r(3,5,4)] r show ?thesis by auto
qed

text \<open>A state with empty pools in which only the tables of the stack area are mapped.\<close>

definition demo_stack_vm :: vm where
  "demo_stack_vm =
     \<lparr>phys = (\<lambda>f i. if f = 2 then (if i = 769 then set_entry 0 False 2
                       else if 896 \<le> i \<and> i < 960 then set_entry 0 False (i - 796) else 0) else 0),
      cr3 = 2, phy_frames_array = map (\<lambda>i. if i < 200 then 1 else 0) [0..<8192], last_allocated_index = 300\<rparr>"

definition demo_bits :: bitmap_t where
  "demo_bits = \<lparr>bitarray = [0, 0], alloc_array = True, arraysize = 2, totalbits = 40\<rparr>"

definition demo_threads :: "sched \<Rightarrow> threads" where
  "demo_threads sc =
     \<lparr>t_vm = demo_stack_vm, t_sched = sc,
      thread_id_pool = \<lparr>pool_size = 40, max_size = 64, expand_size = 40, id_map = demo_bits, lock = \<lparr>hold = LOCKED_NO\<rparr>\<rparr>,
      kernel_stack_slots = demo_bits, kernel_stack_slots_lock = \<lparr>hold = LOCKED_NO\<rparr>, thread_name = (\<lambda>_. [])\<rparr>"

lemma demo_bits_facts: "wf_bitmap demo_bits" "scan_limit demo_bits = 40" "set_bits demo_bits = {}"
proof -
  show "wf_bitmap demo_bits" "scan_limit demo_bits = 40" by (simp_all add: wf_bitmap_def scan_limit_def demo_bits_def)
  have "[0 :: u32, 0] ! j = 0" if "j < 2" for j using that by (auto simp: less_Suc_eq numeral_2_eq_2)
  then show "set_bits demo_bits = {}" by (auto simp: set_bits_def demo_bits_def)
qed

lemma demo_stack_dir:
  "cr3 demo_stack_vm = 2" "frames_ok demo_stack_vm"
  "pte_present (phys demo_stack_vm 2 i) \<longleftrightarrow> i = 769 \<or> 896 \<le> i \<and> i < 960"
  "i = 769 \<or> 896 \<le> i \<and> i < 960 \<Longrightarrow> pte_frame (phys demo_stack_vm 2 i) = (if i = 769 then 2 else i - 796)"
  "frame_ref demo_stack_vm f = (if f < 200 then 1 else 0)"
proof -
  have "\<not> pte_present 0" by (simp add: pte_present_def)
  then show "cr3 demo_stack_vm = 2" "frames_ok demo_stack_vm"
    "pte_present (phys demo_stack_vm 2 i) \<longleftrightarrow> i = 769 \<or> 896 \<le> i \<and> i < 960"
    "i = 769 \<or> 896 \<le> i \<and> i < 960 \<Longrightarrow> pte_frame (phys demo_stack_vm 2 i) = (if i = 769 then 2 else i - 796)"
    "frame_ref demo_stack_vm f = (if f < 200 then 1 else 0)"
    by (auto simp: demo_stack_vm_def set_entry_fields frame_ref_def frames_ok_def PHY_FRAMES_def)
qed

lemma demo_stack_vm_ok: "vm_ok demo_stack_vm"
proof -
  have "table_of demo_stack_vm i \<noteq> table_of demo_stack_vm j"
    if "i \<noteq> j" "pte_present (pde demo_stack_vm i)" "pte_present (pde demo_stack_vm j)" for i j
    using that demo_stack_dir(4) [of i] demo_stack_dir(4) [of j] by (auto simp: demo_stack_dir(1,3))
  moreover have "frame_ref demo_stack_vm (table_of demo_stack_vm i) \<noteq> 0" if "pte_present (pde demo_stack_vm i)" for i
    using that demo_stack_dir(4) [of i] by (auto simp: demo_stack_dir(1,3,5))
  moreover have "rec_ok demo_stack_vm" using demo_stack_dir(4) [of 769] by (simp add: rec_ok_def demo_stack_dir)
  ultimately show ?thesis using demo_stack_dir(2,5) by (simp add: vm_ok_def)
qed

lemma demo_threads_ok:
  "threads_ok (demo_threads sc)" "free_slot (demo_threads sc)" "2 \<le> card (free_frames (t_vm (demo_threads sc)))"
  "\<not> {..<pool_capacity (thread_id_pool (demo_threads sc))} \<subseteq> pool_ids (thread_id_pool (demo_threads sc))"
proof -
  have "walk demo_stack_vm a = None" if "896 \<le> dir_index a" "dir_index a < 960" for a
  proof -
    have "pte_frame (pde demo_stack_vm (dir_index a)) = dir_index a - 796" using demo_stack_dir(4) [of "dir_index a"] that by (simp add: demo_stack_dir(1))
    moreover have "phys demo_stack_vm f i = 0" if "f \<noteq> 2" for f i using that by (simp add: demo_stack_vm_def)
    ultimately show ?thesis using that by (simp add: walk_def Let_def pte_present_def)
  qed
  then have w: "walk demo_stack_vm (slot_base k + of_nat (4096 * j)) = None" if "k < 21845" "j < 3" for k j
    using slot_page(4,5) [OF that] by blast
  show "threads_ok (demo_threads sc)"
    using w [of _ 0] w [of _ 1] w [of _ 2] demo_stack_vm_ok demo_bits_facts
    by (simp add: threads_ok_def demo_threads_def wf_pool_def demo_stack_dir)
  show "free_slot (demo_threads sc)" using demo_bits_facts by (auto simp: free_slot_def demo_threads_def lessThan_empty_iff)
  show "\<not> {..<pool_capacity (thread_id_pool (demo_threads sc))} \<subseteq> pool_ids (thread_id_pool (demo_threads sc))"
    using demo_bits_facts by (auto simp: pool_defs demo_threads_def lessThan_empty_iff)
  have "{300, 301} \<subseteq> free_frames demo_stack_vm" by (auto simp: free_frames_def demo_stack_dir PHY_FRAMES_def)
  from card_mono [OF finite_free_frames this] show "2 \<le> card (free_frames (t_vm (demo_threads sc)))" by (simp add: demo_threads_def)
qed

theorem init_thread_startable_witness:
  "\<exists>s' k. init_thread 0xC0100000 0xC0100040 0xC2000010 NULL None 0x08048000 10 True (demo_threads demo_sched) = Some (Inr (0xC2000010, s')) \<and>
     vread (t_vm s') (kernel_esp (tcbs (t_sched s') 0xC2000010) + 84) = Inr 0x08048000 \<and> walk (t_vm s') (slot_base k) = None"
proof -
  from init_thread_startable [OF demo_threads_ok(1,4,2,3), of "0xC0100000" "0xC0100040" "0xC2000010" None "0x08048000" 10 True demo_sched]
  show "\<exists>s' k. init_thread 0xC0100000 0xC0100040 0xC2000010 NULL None 0x08048000 10 True (demo_threads demo_sched) = Some (Inr (0xC2000010, s')) \<and>
     vread (t_vm s') (kernel_esp (tcbs (t_sched s') 0xC2000010) + 84) = Inr 0x08048000 \<and> walk (t_vm s') (slot_base k) = None"
    unfolding Let_def starts_with_def by auto
qed

theorem thread_create_destroy_witness:
  "\<exists>s' s''. init_thread 0xC0100000 0xC0100040 0xC2000010 NULL None 0xC0101000 10 False (demo_threads demo_sched) = Some (Inr (0xC2000010, s')) \<and>
     destroy_thread 0xC2000010 s' = Some (Inr (0xC2000010, s'')) \<and> set_bits (kernel_stack_slots s'') = {} \<and> frame_ref (t_vm s'') 300 = 0"
proof -
  have "kernel_stack_slots (demo_threads demo_sched) = demo_bits" "t_vm (demo_threads demo_sched) = demo_stack_vm" by (simp_all add: demo_threads_def)
  with thread_create_destroy [OF demo_threads_ok(1,4,2,3), of "0xC0100000" "0xC0100040" "0xC2000010" None "0xC0101000" 10 False demo_sched]
  show "\<exists>s' s''. init_thread 0xC0100000 0xC0100040 0xC2000010 NULL None 0xC0101000 10 False (demo_threads demo_sched) = Some (Inr (0xC2000010, s')) \<and>
     destroy_thread 0xC2000010 s' = Some (Inr (0xC2000010, s'')) \<and> set_bits (kernel_stack_slots s'') = {} \<and> frame_ref (t_vm s'') 300 = 0"
    using demo_bits_facts(3) demo_stack_dir(5) [of 300] by auto
qed

end
