(* ===== verification/User_Stack.thy ===== *)
theory User_Stack
  imports Byte_Words Thread
begin

text \<open>
  The stack of a new user program, \<^verbatim>\<open>prepare_user_stack\<close> of \<^verbatim>\<open>src/src/task/thread.c\<close>: the
  argument strings, the array of pointers to them with its closing null, and the frame with which \<^verbatim>\<open>main\<close>
  is entered. The memory is that of the current address space, byte by byte; \<open>argv\<close> is the address of the caller's array.
\<close>

section \<open>The function\<close>

text \<open>The first loop: the lengths of the arguments with their closing zeros.\<close>

fun argv_length :: "byte_mem \<Rightarrow> addr \<Rightarrow> nat \<Rightarrow> nat \<Rightarrow> u32 \<Rightarrow> u32 kres option" where
  "argv_length m argv i 0 acc = Some (Inr acc)"
| "argv_length m argv i (Suc n) acc =
     obind (strlen m (load32 m (argv + of_nat (4 * i)))) (\<lambda>len. argv_length m argv (Suc i) n (acc + (len + 1)))"

text \<open>The second: every string is copied, and its new address recorded.\<close>

fun copy_args :: "addr \<Rightarrow> nat \<Rightarrow> nat \<Rightarrow> addr \<Rightarrow> byte_mem \<Rightarrow> (addr list \<times> byte_mem) kres option" where
  "copy_args argv i 0 a m = Some (Inr ([], m))"
| "copy_args argv i (Suc n) a m =
     obind (strcpy_with_len m a (load32 m (argv + of_nat (4 * i)))) (\<lambda>(len, m).
     obind (copy_args argv (Suc i) n (a + (len + 1)) m) (\<lambda>(args, m). Some (Inr (a # args, m))))"

fun store_words :: "byte_mem \<Rightarrow> addr \<Rightarrow> u32 list \<Rightarrow> byte_mem" where
  "store_words m a [] = m"
| "store_words m a (w # ws) = store_words (store32 m a w) (a + 4) ws"

text \<open>
  \<open>esp\<close> is \<^verbatim>\<open>thread->kernel_esp\<close>, below which the interrupt frame of the thread keeps its user stack
  pointer as word 14. The result is the new stack pointer.
\<close>

definition prepare_user_stack ::
  "u32 \<Rightarrow> u32 \<Rightarrow> nat \<Rightarrow> addr \<Rightarrow> u32 \<Rightarrow> byte_mem \<Rightarrow> (u32 \<times> byte_mem) kres option" where
  "prepare_user_stack esp stack_top argc argv return_addr m =
     (let user_stack_top = stack_top
      in obind (argv_length m argv 0 argc 0) (\<lambda>total_argv_length.
           let stack_top = (stack_top - total_argv_length) div 4 * 4;
               final_stack_top = stack_top - of_nat (argc + 1) * 4 - 12;
               stack_guard_end = user_stack_top - USER_STACK_SIZE + PAGE_SIZE
           in if final_stack_top < stack_guard_end then Some (Inl (Panic ''prepare_user_stack: user stack overflow''))
              else
                obind (copy_args argv 0 argc stack_top m) (\<lambda>(args, m).
                  let stack_top = stack_top - of_nat (argc + 1) * 4; argv_start = stack_top;
                      m = store_words m argv_start (args @ [NULL]);
                      stack_top = stack_top - 4; m = store32 m stack_top argv_start;
                      stack_top = stack_top - 4; m = store32 m stack_top (of_nat argc);
                      stack_top = stack_top - 4; m = store32 m stack_top return_addr;
                      m = store32 m (esp + SWITCH_STACK_SIZE + 56) stack_top
                  in Some (Inr (stack_top, m)))))"

section \<open>Words next to each other\<close>

lemma store_words_outside: "x \<notin> region a (4 * length ws) \<Longrightarrow> store_words m a ws x = m x"
proof (induction ws arbitrary: m a)
  case (Cons w ws)
  have "region a (4 * length (w # ws)) = region a 4 \<union> region (a + 4) (4 * length ws)"
    using region_append [of a 4 "4 * length ws"] by simp
  with Cons show ?case by (simp add: store32_outside)
qed simp

lemma load32_store_words:
  "\<lbrakk>i < length ws; 4 * length ws \<le> 4294967296\<rbrakk> \<Longrightarrow> load32 (store_words m a ws) (a + of_nat (4 * i)) = ws ! i"
proof (induction ws arbitrary: m a i)
  case (Cons w ws)
  show ?case
  proof (cases i)
    case 0
    have "load32 (store_words (store32 m a w) (a + 4) ws) a = load32 (store32 m a w) a"
    proof (rule load32_cong, rule store_words_outside)
      fix x assume "x \<in> region a 4"
      then obtain j where j: "j < 4" "x = a + of_nat j" by (auto simp: region_def)
      show "x \<notin> region (a + 4) (4 * length ws)"
      proof
        assume "x \<in> region (a + 4) (4 * length ws)"
        then obtain l where "l < 4 * length ws" "(of_nat j :: addr) = of_nat (4 + l)" by (auto simp: region_def j(2) add.assoc)
        moreover from this have "4 + l < 4294967296" using Cons.prems(2) by simp
        ultimately show False using j(1) unat_of_nat_small [of "4 + l"] unat_of_nat_small [of j] by simp
      qed
    qed
    then show ?thesis using 0 by simp
  next
    case (Suc j)
    then show ?thesis using Cons.IH [of j "store32 m a w" "a + 4"] Cons.prems by (simp add: algebra_simps)
  qed
qed simp

section \<open>The strings\<close>

abbreviation strings_bytes :: "u8 list list \<Rightarrow> u8 list" where
  "strings_bytes ss \<equiv> concat (map (\<lambda>s. s @ [0]) ss)"

text \<open>Where the strings land.\<close>

fun places :: "addr \<Rightarrow> u8 list list \<Rightarrow> addr list" where
  "places a [] = []"
| "places a (s # ss) = a # places (a + of_nat (length s + 1)) ss"

lemma length_places [simp]: "length (places a ss) = length ss"
  by (induction ss arbitrary: a) simp_all

text \<open>The caller's arguments: \<open>ss\<close> are the strings of the array from index \<open>i\<close> on, outside the area \<open>R\<close>.\<close>

definition args_at :: "byte_mem \<Rightarrow> addr \<Rightarrow> nat \<Rightarrow> u8 list list \<Rightarrow> addr set \<Rightarrow> bool" where
  "args_at m argv i ss R \<longleftrightarrow>
     (\<forall>j<length ss. let a = argv + of_nat (4 * (i + j)); p = load32 m a
        in p \<noteq> 0 \<and> cstr m p (ss ! j) \<and> region p (Suc (length (ss ! j))) \<inter> R = {} \<and> region a 4 \<inter> R = {})"

lemma args_at_Cons:
  assumes "args_at m argv i (s # ss) R"
  shows "load32 m (argv + of_nat (4 * i)) \<noteq> 0" "cstr m (load32 m (argv + of_nat (4 * i))) s"
    "region (load32 m (argv + of_nat (4 * i))) (Suc (length s)) \<inter> R = {}" "args_at m argv (Suc i) ss R"
proof -
  have 0: "let a = argv + of_nat (4 * (i + 0)); p = load32 m a
        in p \<noteq> 0 \<and> cstr m p ((s # ss) ! 0) \<and> region p (Suc (length ((s # ss) ! 0))) \<inter> R = {} \<and> region a 4 \<inter> R = {}"
    using assms unfolding args_at_def by blast
  then show "load32 m (argv + of_nat (4 * i)) \<noteq> 0" "cstr m (load32 m (argv + of_nat (4 * i))) s"
    "region (load32 m (argv + of_nat (4 * i))) (Suc (length s)) \<inter> R = {}" by (simp_all add: Let_def)
  show "args_at m argv (Suc i) ss R"
    unfolding args_at_def
  proof (intro allI impI)
    fix j assume "j < length ss"
    then have "Suc j < length (s # ss)" by simp
    from assms [unfolded args_at_def, rule_format, OF this]
    show "let a = argv + of_nat (4 * (Suc i + j)); p = load32 m a
        in p \<noteq> 0 \<and> cstr m p (ss ! j) \<and> region p (Suc (length (ss ! j))) \<inter> R = {} \<and> region a 4 \<inter> R = {}"
      by (simp add: Let_def)
  qed
qed

lemma args_at_mono:
  assumes "args_at m argv i ss R" "R' \<subseteq> R" "\<And>x. x \<notin> R \<Longrightarrow> m' x = m x"
  shows "args_at m' argv i ss R'"
  unfolding args_at_def
proof (intro allI impI)
  fix j assume "j < length ss"
  note a = assms(1) [unfolded args_at_def, rule_format, OF this, unfolded Let_def]
  let ?a = "argv + of_nat (4 * (i + j))"
  have l: "load32 m' ?a = load32 m ?a" using a assms(3) by (intro load32_cong) blast
  moreover have "cstr m' (load32 m ?a) (ss ! j) = cstr m (load32 m ?a) (ss ! j)" using a assms(3) by (intro cstr_cong) blast
  ultimately show "let a = ?a; p = load32 m' a
        in p \<noteq> 0 \<and> cstr m' p (ss ! j) \<and> region p (Suc (length (ss ! j))) \<inter> R' = {} \<and> region a 4 \<inter> R' = {}"
    using a assms(2) unfolding Let_def by auto
qed

lemma argv_length_ok:
  "args_at m argv i ss R \<Longrightarrow> argv_length m argv i (length ss) acc = Some (Inr (acc + of_nat (length (strings_bytes ss))))"
proof (induction ss arbitrary: i acc)
  case (Cons s ss)
  note a = args_at_Cons [OF Cons.prems]
  have "strlen m (load32 m (argv + of_nat (4 * i))) = Some (Inr (of_nat (length s)))"
    using a(1) strlen_loop_cstr [of m _ 0 s] a(2) by (simp add: strlen_def)
  then show ?case using Cons.IH [OF a(4)] by (simp add: add.assoc)
qed simp

lemma copy_args_ok:
  assumes "args_at m argv i ss R" "region a (length (strings_bytes ss)) \<subseteq> R" "a \<noteq> 0" "unat a + length (strings_bytes ss) < 4294967296"
  shows "copy_args argv i (length ss) a m = Some (Inr (places a ss, store_bytes m a (strings_bytes ss)))"
  using assms
proof (induction ss arbitrary: m a i)
  case (Cons s ss)
  let ?p = "load32 m (argv + of_nat (4 * i))" and ?n = "Suc (length s)"
  note h = args_at_Cons [OF Cons.prems(1)]
  have len: "length (strings_bytes (s # ss)) = ?n + length (strings_bytes ss)" by simp
  have sub: "region a ?n \<subseteq> R" "region (a + of_nat ?n) (length (strings_bytes ss)) \<subseteq> R"
    using Cons.prems(2) region_append [of a ?n "length (strings_bytes ss)"] unfolding len by auto
  have "strcpy_loop m a ?p 0 = Some (of_nat (length s), store_bytes m a (s @ [0]))"
    using strcpy_loop_cstr [of m ?p 0 s a] h(2,3) sub(1) by fastforce
  then have cp: "strcpy_with_len m a ?p = Some (Inr (of_nat (length s), store_bytes m a (s @ [0])))"
    using Cons.prems(3) h(1) by (simp add: strcpy_with_len_def)
  let ?m = "store_bytes m a (s @ [0])" and ?a = "a + of_nat ?n"
  have u: "unat ?a = unat a + ?n" using Cons.prems(4) unfolding len by (intro unat_add_of_nat) simp
  have "args_at ?m argv (Suc i) ss R"
  proof (rule args_at_mono [OF h(4) subset_refl], rule store_bytes_outside)
    fix x assume "x \<notin> R"
    then show "x \<notin> region a (length (s @ [0]))" using sub(1) by auto
  qed
  moreover have "?a \<noteq> 0" using u by (metis Zero_not_Suc add_Suc_right unat_0)
  moreover have "unat ?a + length (strings_bytes ss) < 4294967296" using u Cons.prems(4) unfolding len by simp
  ultimately have "copy_args argv (Suc i) (length ss) ?a ?m = Some (Inr (places ?a ss, store_bytes ?m ?a (strings_bytes ss)))"
    using sub(2) by (intro Cons.IH)
  moreover have "store_bytes ?m ?a (strings_bytes ss) = store_bytes m a (strings_bytes (s # ss))"
    using store_bytes_append [of m a "s @ [0]" "strings_bytes ss"] by simp
  ultimately show ?case using cp by (simp add: add.commute)
qed simp

lemma stored_strings:
  assumes "\<forall>s\<in>set ss. \<forall>b\<in>set s. b \<noteq> 0" "length (strings_bytes ss) < 4294967296" "i < length ss"
  shows "cstr (store_bytes m a (strings_bytes ss)) (places a ss ! i) (ss ! i) \<and>
     region (places a ss ! i) (Suc (length (ss ! i))) \<subseteq> region a (length (strings_bytes ss))"
  using assms
proof (induction ss arbitrary: m a i)
  case (Cons s ss)
  let ?n = "Suc (length s)" and ?a = "a + of_nat (Suc (length s))" and ?m = "store_bytes m a (s @ [0])"
  have st: "store_bytes m a (strings_bytes (s # ss)) = store_bytes ?m ?a (strings_bytes ss)"
    using store_bytes_append [of m a "s @ [0]" "strings_bytes ss"] by simp
  have rg: "region a (length (strings_bytes (s # ss))) = region a ?n \<union> region ?a (length (strings_bytes ss))"
    using region_append [of a ?n "length (strings_bytes ss)"] by simp
  show ?case
  proof (cases i)
    case 0
    have "cstr (store_bytes ?m ?a (strings_bytes ss)) a s = cstr ?m a s"
    proof (rule cstr_cong, rule store_bytes_outside)
      fix x assume "x \<in> region a (Suc (length s))"
      then obtain j where j: "j < ?n" "x = a + of_nat j" by (auto simp: region_def)
      show "x \<notin> region ?a (length (strings_bytes ss))"
      proof
        assume "x \<in> region ?a (length (strings_bytes ss))"
        then obtain l where "l < length (strings_bytes ss)" "(of_nat j :: addr) = of_nat (?n + l)"
          by (auto simp: region_def j(2) algebra_simps simp del: length_concat)
        moreover from this have "?n + l < 4294967296" using Cons.prems(2) by simp
        ultimately show False using j(1) unat_of_nat_small [of "?n + l"] unat_of_nat_small [of j] by simp
      qed
    qed
    moreover have "cstr ?m a s" using Cons.prems(1,2) by (intro store_bytes_cstr) simp_all
    ultimately show ?thesis using 0 st rg by simp
  next
    case (Suc j)
    then show ?thesis using Cons.IH [of j ?m ?a] Cons.prems st rg by (simp add: add.commute le_supI2)
  qed
qed simp

section \<open>The frame of main\<close>

lemma load32_store32_other:
  assumes "region a 4 \<inter> region b 4 = {}"
  shows "load32 (store32 m b w) a = load32 m a"
  using assms by (intro load32_cong store32_outside) auto

lemma cstr_nonzero: "\<lbrakk>cstr m a bs; b \<in> set bs\<rbrakk> \<Longrightarrow> b \<noteq> 0"
  by (induction bs arbitrary: a) auto

text \<open>The addresses the function computes, as naturals.\<close>

lemma stack_layout:
  fixes ust :: u32
  assumes t: "65536 \<le> unat ust" and fit: "T + 4 * n + 19 \<le> 61440"
  defines "s1 \<equiv> (unat ust - T) div 4 * 4"
  shows "(ust - of_nat T) div 4 * 4 = of_nat s1" "s1 + T \<le> unat ust" "unat ust - 61440 + (4 * n + 16) \<le> s1" "s1 < 4294967296"
    "of_nat s1 - of_nat (n + 1) * 4 = (of_nat (s1 - 4 * (n + 1)) :: u32)" "ust - USER_STACK_SIZE + PAGE_SIZE = of_nat (unat ust - 61440)"
    "of_nat s1 - of_nat (n + 1) * 4 - 12 = (of_nat (s1 - 4 * (n + 1) - 12) :: u32)" "s1 mod 4 = 0"
proof -
  have tl: "unat ust < 4294967296" by (rule unat_u32_less)
  have m: "s1 + (unat ust - T) mod 4 = unat ust - T" "(unat ust - T) mod 4 < 4" unfolding s1_def by simp_all
  show b: "s1 + T \<le> unat ust" "unat ust - 61440 + (4 * n + 16) \<le> s1" "s1 < 4294967296" using m t fit tl by linarith+
  have "unat (ust - of_nat T) = unat ust - T"
    using t fit unat_of_nat_small [of T] by (subst unat_sub) (simp_all add: word_le_nat_alt)
  then have "unat ((ust - of_nat T) div 4 * 4) = s1"
    using b(3) by (simp add: unat_word_ariths unat_div s1_def)
  then show "(ust - of_nat T) div 4 * 4 = of_nat s1" by (metis of_nat_unat ucast_id)
  have "4 * n + 16 \<le> s1" using b(2) by linarith
  then show "of_nat s1 - of_nat (n + 1) * 4 = (of_nat (s1 - 4 * (n + 1)) :: u32)"
    "of_nat s1 - of_nat (n + 1) * 4 - 12 = (of_nat (s1 - 4 * (n + 1) - 12) :: u32)"
    by (simp_all add: of_nat_diff algebra_simps)
  have "ust - USER_STACK_SIZE + PAGE_SIZE = of_nat (unat ust) - of_nat 61440" by (simp add: USER_STACK_SIZE_def PAGE_SIZE_def)
  also have "\<dots> = of_nat (unat ust - 61440)" using t by (simp add: of_nat_diff del: of_nat_numeral)
  finally show "ust - USER_STACK_SIZE + PAGE_SIZE = of_nat (unat ust - 61440)" .
  show "s1 mod 4 = 0" by (simp add: s1_def)
qed

lemma region_of_nat:
  assumes "a + n \<le> 4294967296"
  shows "x \<in> region (of_nat a) n \<longleftrightarrow> a \<le> unat x \<and> unat x < a + n"
proof (cases "n = 0")
  case False
  then have "unat (of_nat a :: addr) = a" using assms by (intro unat_of_nat_small) simp
  then show ?thesis using assms by (subst region_iff) simp_all
qed simp

text \<open>The memory after all the stores of the frame, over a memory \<open>m1\<close> that holds the strings.\<close>

lemma frame_loads:
  fixes av :: nat and mo :: byte_mem and wa wb wc :: u32
  assumes av: "16 \<le> av" "av + 4 * length ws < 4294967296" and ws: "ws \<noteq> []"
    and fr: "region e 4 \<inter> region (of_nat (av - 12)) (4 * length ws + 12) = {}"
  defines "m2 \<equiv> store32 (store32 (store32 (store_words mo (of_nat av) ws) (of_nat (av - 4)) wa) (of_nat (av - 8)) wb) (of_nat (av - 12)) wc"
  shows "load32 (store32 m2 e wd) (of_nat (av - 12)) = wc" "load32 (store32 m2 e wd) (of_nat (av - 8)) = wb"
    "load32 (store32 m2 e wd) (of_nat (av - 4)) = wa" "\<And>i. i < length ws \<Longrightarrow> load32 (store32 m2 e wd) (of_nat (av + 4 * i)) = ws ! i"
    "load32 (store32 m2 e wd) e = wd" "\<And>x. x \<notin> region (of_nat (av - 12)) (4 * length ws + 12) \<union> region e 4 \<Longrightarrow> store32 m2 e wd x = mo x"
proof -
  let ?R = "region (of_nat (av - 12)) (4 * length ws + 12)"
  have in_R: "region (of_nat (av - 12 + k)) 4 \<subseteq> ?R" if "k + 4 \<le> 4 * length ws + 12" for k
    using region_offset [OF that, of "of_nat (av - 12)"] by simp
  have pos: "av - 8 = av - 12 + 4" "av - 4 = av - 12 + 8" "av + 4 * i = av - 12 + (12 + 4 * i)" for i using av by simp_all
  have e: "load32 (store32 m2 e wd) (of_nat (av - 12 + k)) = load32 m2 (of_nat (av - 12 + k))" if "k + 4 \<le> 4 * length ws + 12" for k
    using in_R [OF that] fr by (intro load32_store32_other) blast
  have dj: "region (of_nat a) 4 \<inter> region (of_nat b) 4 = {}" if "a + 4 \<le> b \<or> b + 4 \<le> a" "a + 4 \<le> 4294967296" "b + 4 \<le> 4294967296" for a b
    using that by (auto simp: region_of_nat)
  have l1: "1 \<le> length ws" using ws by (cases ws) auto
  have "load32 m2 (of_nat (av - 12)) = wc" by (simp add: m2_def)
  then show "load32 (store32 m2 e wd) (of_nat (av - 12)) = wc" using e [of 0] l1 by simp
  have d: "region (of_nat (av - 8)) 4 \<inter> region (of_nat (av - 12)) 4 = {}" "region (of_nat (av - 4)) 4 \<inter> region (of_nat (av - 12)) 4 = {}"
    "region (of_nat (av - 4)) 4 \<inter> region (of_nat (av - 8)) 4 = {}" by (rule dj; use av in linarith)+
  have "load32 m2 (of_nat (av - 8)) = wb" by (simp only: m2_def load32_store32_other [OF d(1)] load32_store32)
  then show "load32 (store32 m2 e wd) (of_nat (av - 8)) = wb" using e [of 4] l1 unfolding pos by simp
  have "load32 m2 (of_nat (av - 4)) = wa"
    by (simp only: m2_def load32_store32_other [OF d(2)] load32_store32_other [OF d(3)] load32_store32)
  then show "load32 (store32 m2 e wd) (of_nat (av - 4)) = wa" using e [of 8] l1 unfolding pos by simp
  show "load32 (store32 m2 e wd) (of_nat (av + 4 * i)) = ws ! i" if i: "i < length ws" for i
  proof -
    have d: "region (of_nat (av + 4 * i)) 4 \<inter> region (of_nat (av - 12)) 4 = {}" "region (of_nat (av + 4 * i)) 4 \<inter> region (of_nat (av - 8)) 4 = {}"
      "region (of_nat (av + 4 * i)) 4 \<inter> region (of_nat (av - 4)) 4 = {}" by (rule dj; use av i in linarith)+
    have "load32 m2 (of_nat (av + 4 * i)) = load32 (store_words mo (of_nat av) ws) (of_nat av + of_nat (4 * i))"
      unfolding m2_def load32_store32_other [OF d(1)] load32_store32_other [OF d(2)] load32_store32_other [OF d(3)] by (simp only: of_nat_add)
    also have "\<dots> = ws ! i" using i av by (intro load32_store_words) simp_all
    finally show ?thesis using e [of "12 + 4 * i"] i unfolding pos by simp
  qed
  show "load32 (store32 m2 e wd) e = wd" by simp
  show "store32 m2 e wd x = mo x" if x: "x \<notin> ?R \<union> region e 4" for x
  proof -
    have "region (of_nat av) (4 * length ws) \<subseteq> ?R" using region_offset [of 12 "4 * length ws" _ "of_nat (av - 12)"] av
      by (simp flip: of_nat_add add: add.commute)
    then have "x \<notin> region (of_nat av) (4 * length ws)" using x by blast
    moreover have "x \<notin> region (of_nat (av - 12)) 4" "x \<notin> region (of_nat (av - 8)) 4" "x \<notin> region (of_nat (av - 4)) 4"
      using in_R [of 0] in_R [of 4] in_R [of 8] l1 x by (auto simp: pos)
    ultimately show ?thesis using x by (simp add: m2_def store32_outside store_words_outside)
  qed
qed


text \<open>The writable part of a user stack with the given top.\<close>

definition stack_area :: "u32 \<Rightarrow> addr set" where
  "stack_area ust = region (of_nat (unat ust - 61440)) 61440"

text \<open>Where the parts of the stack lie: the strings from \<open>s1\<close> on, below them the pointers from \<open>av\<close> on, and three words more.\<close>

definition strings_pos :: "u32 \<Rightarrow> nat \<Rightarrow> nat" where "strings_pos ust T = (unat ust - T) div 4 * 4"

lemma stack_area_iff: "65536 \<le> unat ust \<Longrightarrow> x \<in> stack_area ust \<longleftrightarrow> unat ust - 61440 \<le> unat x \<and> unat x < unat ust"
  unfolding stack_area_def using unat_u32_less [of ust] by (subst region_of_nat) auto

lemma stack_parts:
  fixes ust :: u32
  assumes t: "65536 \<le> unat ust" and fit: "T + 4 * n + 19 \<le> 61440" and s1: "s1 = strings_pos ust T" and av: "av = s1 - 4 * (n + 1)"
  shows "16 \<le> av" "av + 4 * (n + 1) = s1" "unat ust - 61440 + 12 \<le> av" "s1 + T \<le> unat ust" "av mod 4 = 0"
    "region (of_nat s1) T \<subseteq> stack_area ust" "region (of_nat (av - 12)) (4 * (n + 1) + 12) \<subseteq> stack_area ust"
    "x \<in> region (of_nat s1) T \<Longrightarrow> x \<notin> region (of_nat (av - 12)) (4 * (n + 1) + 12)"
proof -
  note l = stack_layout [OF t fit, folded strings_pos_def, folded s1] and area = stack_area_iff [OF t] and tl = unat_u32_less [of ust]
  have "4 * (n + 1) = 4 * n + 4" by simp
  then show a: "16 \<le> av" "av + 4 * (n + 1) = s1" "unat ust - 61440 + 12 \<le> av" using l(3) t unfolding av by linarith+
  show l2: "s1 + T \<le> unat ust" by (rule l(2))
  show "av mod 4 = 0" using l(8) a(2) by (metis mod_mult_self2 mult.commute)
  have str: "x \<in> region (of_nat s1) T \<longleftrightarrow> s1 \<le> unat x \<and> unat x < s1 + T" for x :: addr using l2 tl by (subst region_of_nat) linarith+
  have frm: "x \<in> region (of_nat (av - 12)) (4 * (n + 1) + 12) \<longleftrightarrow> av - 12 \<le> unat x \<and> unat x < s1" for x :: addr
  proof -
    have e: "av - 12 + (4 * (n + 1) + 12) = s1" using a by simp
    have "x \<in> region (of_nat (av - 12)) (4 * (n + 1) + 12) \<longleftrightarrow> av - 12 \<le> unat x \<and> unat x < av - 12 + (4 * (n + 1) + 12)"
      using e l(4) by (intro region_of_nat) simp_all
    then show ?thesis unfolding e .
  qed
  show "region (of_nat s1) T \<subseteq> stack_area ust" using l(2,3) by (auto simp only: str area)
  show "region (of_nat (av - 12)) (4 * (n + 1) + 12) \<subseteq> stack_area ust"
  proof
    fix x :: addr
    assume "x \<in> region (of_nat (av - 12)) (4 * (n + 1) + 12)"
    then show "x \<in> stack_area ust" using l2 a(1,3) unfolding frm area by linarith
  qed
  show "x \<in> region (of_nat s1) T \<Longrightarrow> x \<notin> region (of_nat (av - 12)) (4 * (n + 1) + 12)" unfolding str frm by simp
qed

text \<open>The memory at the end, the words of the frame stored over the strings.\<close>

definition args_frame :: "addr \<Rightarrow> nat \<Rightarrow> nat \<Rightarrow> u32 \<Rightarrow> u8 list list \<Rightarrow> byte_mem \<Rightarrow> byte_mem" where
  "args_frame esp s1 av ra ss m =
     store32 (store32 (store32 (store32 (store_words (store_bytes m (of_nat s1) (strings_bytes ss)) (of_nat av) (places (of_nat s1) ss @ [NULL]))
       (of_nat (av - 4)) (of_nat av)) (of_nat (av - 8)) (of_nat (length ss))) (of_nat (av - 12)) ra) (esp + 96) (of_nat (av - 12))"

lemma prepare_user_stack_run:
  assumes t: "65536 \<le> unat ust" and fit: "length (strings_bytes ss) + 4 * length ss + 19 \<le> 61440"
    and a: "args_at m argv 0 ss (stack_area ust)" and s1: "s1 = strings_pos ust (length (strings_bytes ss))" and av: "av = s1 - 4 * (length ss + 1)"
  shows "prepare_user_stack esp ust (length ss) argv ra m = Some (Inr (of_nat (av - 12), args_frame esp s1 av ra ss m))"
proof -
  note l = stack_layout [OF t fit, folded strings_pos_def, folded s1, folded av] and p = stack_parts [OF t fit s1 av]
  have us: "unat (of_nat s1 :: u32) = s1" using l(4) by (rule unat_of_nat_small)
  have cp: "copy_args argv 0 (length ss) (of_nat s1) m = Some (Inr (places (of_nat s1) ss, store_bytes m (of_nat s1) (strings_bytes ss)))"
  proof (rule copy_args_ok [OF a p(6)])
    show "(of_nat s1 :: addr) \<noteq> 0" using us p(1,2) by (metis add_is_0 not_numeral_le_zero unat_0)
    show "unat (of_nat s1 :: addr) + length (strings_bytes ss) < 4294967296" using us p(4) unat_u32_less [of ust] by linarith
  qed
  have ge: "\<not> (of_nat (av - 12) :: u32) < of_nat (unat ust - 61440)"
    using p(1-3) l(4) unat_u32_less [of ust] by (simp add: word_less_nat_alt unat_of_nat_small del: of_nat_diff)
  have pos: "of_nat av - 4 = (of_nat (av - 4) :: u32)" "of_nat (av - 4) - 4 = (of_nat (av - 8) :: u32)" "of_nat (av - 8) - 4 = (of_nat (av - 12) :: u32)"
    "of_nat av - 12 = (of_nat (av - 12) :: u32)" "esp + SWITCH_STACK_SIZE + 56 = esp + 96" "0 + w = w" for w :: u32
    using p(1) by (simp_all add: of_nat_diff SWITCH_STACK_SIZE_def)
  show ?thesis unfolding prepare_user_stack_def args_frame_def Let_def
    by (simp only: argv_length_ok [OF a] cp ge l(1,5,6) pos obind_simps if_False prod.case)
qed

lemma args_frame_facts:
  fixes m :: byte_mem and ra :: u32
  assumes t: "65536 \<le> unat ust" and fit: "length (strings_bytes ss) + 4 * length ss + 19 \<le> 61440"
    and s1: "s1 = strings_pos ust (length (strings_bytes ss))" and av: "av = s1 - 4 * (length ss + 1)"
    and nz: "\<forall>s\<in>set ss. \<forall>b\<in>set s. b \<noteq> 0" and e: "region (esp + 96) 4 \<inter> stack_area ust = {}"
  defines "m' \<equiv> args_frame esp s1 av ra ss m"
  shows "load32 m' (of_nat (av - 12)) = ra" "load32 m' (of_nat (av - 8)) = of_nat (length ss)" "load32 m' (of_nat (av - 4)) = of_nat av"
    "load32 m' (esp + 96) = of_nat (av - 12)" "load32 m' (of_nat av + of_nat (4 * length ss)) = 0"
    "\<And>i. i < length ss \<Longrightarrow> cstr m' (load32 m' (of_nat av + of_nat (4 * i))) (ss ! i)"
    "\<And>x. x \<notin> stack_area ust \<union> region (esp + 96) 4 \<Longrightarrow> m' x = m x"
proof -
  note p = stack_parts [OF t fit s1 av]
  let ?ps = "places (of_nat s1) ss" and ?m1 = "store_bytes m (of_nat s1) (strings_bytes ss)"
  let ?F = "region (of_nat (av - 12)) (4 * (length ss + 1) + 12)"
  have len: "4 * length (?ps @ [NULL]) = 4 * (length ss + 1)" by simp
  have fr: "region (esp + 96) 4 \<inter> region (of_nat (av - 12)) (4 * length (?ps @ [NULL]) + 12) = {}" unfolding len using p(7) e by blast
  have avl: "av + 4 * length (?ps @ [NULL]) < 4294967296" unfolding len using p(2,4) unat_u32_less [of ust] by linarith
  have ne: "?ps @ [NULL] \<noteq> []" by simp
  note F = frame_loads [OF p(1) avl ne fr, where mo = ?m1 and wa = "of_nat av" and wb = "of_nat (length ss)" and wc = ra and wd = "of_nat (av - 12)",
      folded args_frame_def, folded m'_def, unfolded len]
  show "load32 m' (of_nat (av - 12)) = ra" "load32 m' (of_nat (av - 8)) = of_nat (length ss)" "load32 m' (of_nat (av - 4)) = of_nat av"
    "load32 m' (esp + 96) = of_nat (av - 12)" using F(1-3,5) by simp_all
  show "load32 m' (of_nat av + of_nat (4 * length ss)) = 0" using F(4) [of "length ss"] by (simp add: nth_append)
  show "cstr m' (load32 m' (of_nat av + of_nat (4 * i))) (ss ! i)" if i: "i < length ss" for i
  proof -
    have q: "load32 m' (of_nat (av + 4 * i)) = ?ps ! i" using F(4) [of i] i by (simp add: nth_append)
    have c: "cstr ?m1 (?ps ! i) (ss ! i)" "region (?ps ! i) (Suc (length (ss ! i))) \<subseteq> region (of_nat s1) (length (strings_bytes ss))"
      using stored_strings [OF nz _ i, of m "of_nat s1"] fit by auto
    have "cstr m' (?ps ! i) (ss ! i) = cstr ?m1 (?ps ! i) (ss ! i)"
    proof (rule cstr_cong, rule F(6))
      fix x assume "x \<in> region (?ps ! i) (Suc (length (ss ! i)))"
      then have x: "x \<in> region (of_nat s1) (length (strings_bytes ss))" using c(2) by blast
      then have "x \<notin> ?F" "x \<notin> region (esp + 96) 4" using p(6,8) e by blast+
      then show "x \<notin> ?F \<union> region (esp + 96) 4" by blast
    qed
    then show ?thesis using c(1) q by simp
  qed
  show "m' x = m x" if "x \<notin> stack_area ust \<union> region (esp + 96) 4" for x
  proof -
    have "x \<notin> ?F \<union> region (esp + 96) 4" "x \<notin> region (of_nat s1) (length (strings_bytes ss))" using that p(6,7) by blast+
    then show ?thesis using F(6) store_bytes_outside by metis
  qed
qed

text \<open>C27: \<^verbatim>\<open>prepare_user_stack\<close> hands a program its arguments. If the strings and the pointers fit into the user
stack above its guard page and the caller's copies lie outside that stack, the call succeeds; the returned stack pointer is
a multiple of four inside the stack; at it are the return address, the number of arguments and the
address of the argument array, whose entries point to copies of the strings, in order, followed by a null
pointer; the interrupt frame of the thread holds the stack pointer; and nothing outside the stack and that word has changed.\<close>

theorem prepare_user_stack_passes_args:
  assumes "65536 \<le> unat ust" "length (strings_bytes ss) + 4 * length ss + 19 \<le> 61440"
    and "args_at m argv 0 ss (stack_area ust)" "region (esp + 96) 4 \<inter> stack_area ust = {}"
  shows "\<exists>sp m'. prepare_user_stack esp ust (length ss) argv ra m = Some (Inr (sp, m')) \<and>
    unat sp mod 4 = 0 \<and> unat ust - 61440 \<le> unat sp \<and> unat sp < unat ust \<and>
    load32 m' sp = ra \<and> load32 m' (sp + 4) = of_nat (length ss) \<and>
    (\<forall>i<length ss. cstr m' (load32 m' (load32 m' (sp + 8) + of_nat (4 * i))) (ss ! i)) \<and>
    load32 m' (load32 m' (sp + 8) + of_nat (4 * length ss)) = 0 \<and> load32 m' (esp + 96) = sp \<and>
    (\<forall>x. x \<notin> stack_area ust \<union> region (esp + 96) 4 \<longrightarrow> m' x = m x)"
proof -
  define s1 where "s1 = strings_pos ust (length (strings_bytes ss))"
  define av where "av = s1 - 4 * (length ss + 1)"
  note p = stack_parts [OF assms(1,2) s1_def av_def]
  have nz: "\<forall>s\<in>set ss. \<forall>b\<in>set s. b \<noteq> 0"
    using assms(3) cstr_nonzero unfolding args_at_def Let_def by (metis in_set_conv_nth)
  note F = args_frame_facts [OF assms(1,2) s1_def av_def nz assms(4), where ra = ra and m = m]
  have sp: "of_nat (av - 12) + 4 = (of_nat (av - 8) :: u32)" "of_nat (av - 12) + 8 = (of_nat (av - 4) :: u32)"
    using p(1) by (simp_all add: of_nat_diff)
  have usp: "unat (of_nat (av - 12) :: u32) = av - 12" using p(2,4) unat_u32_less [of ust] by (intro unat_of_nat_small) linarith
  have bd: "(av - 12) mod 4 = 0" "unat ust - 61440 \<le> av - 12" "av - 12 < unat ust" using p(1-5) by presburger+
  show ?thesis
    using prepare_user_stack_run [OF assms(1-3) s1_def av_def, of esp ra] F sp usp bd
    by (intro exI [of _ "of_nat (av - 12)"] exI [of _ "args_frame esp s1 av ra ss m"]) (simp del: of_nat_diff of_nat_mult)
qed


text \<open>One argument, the string \<^verbatim>\<open>ls\<close>, in the data of the caller.\<close>

definition demo_args :: byte_mem where
  "demo_args = (\<lambda>_. 0)(0x08000000 := 0x10, 0x08000003 := 8, 0x08000010 := 108, 0x08000011 := 115)"

lemma demo_args_at: "args_at demo_args 0x08000000 0 [[108, 115]] (stack_area 0xBFC00000)"
proof -
  have l: "load32 demo_args 0x08000000 = 0x08000010"
    by (simp add: load32_def mem_bytes_def dec32_def upt_rec demo_args_def)
  have "cstr demo_args 0x08000010 [108, 115]" by (simp add: demo_args_def)
  moreover have "region 0x08000010 (Suc (Suc (Suc 0))) \<inter> stack_area 0xBFC00000 = {}" "region 0x08000000 4 \<inter> stack_area 0xBFC00000 = {}"
    by (auto simp: stack_area_def region_iff)
  ultimately show ?thesis using l by (simp add: args_at_def Let_def)
qed

theorem prepare_user_stack_passes_args_witness:
  "\<exists>sp m'. prepare_user_stack 0xE0002F98 0xBFC00000 1 0x08000000 0xC0101234 demo_args = Some (Inr (sp, m')) \<and>
     load32 m' sp = 0xC0101234 \<and> load32 m' (sp + 4) = 1 \<and> cstr m' (load32 m' (load32 m' (sp + 8))) [108, 115]"
proof -
  have "region (0xE0002F98 + 96) 4 \<inter> stack_area 0xBFC00000 = {}" by (auto simp: stack_area_def region_iff)
  from prepare_user_stack_passes_args [OF _ _ demo_args_at this, of "0xC0101234"] show ?thesis by fastforce
qed

end
