(* ===== verification/Page_Release.thy ===== *)
theory Page_Release
  imports Page_Cow
begin

text \<open>
  The end of an address space: \<^verbatim>\<open>release_user_space_pages\<close> of \<^verbatim>\<open>src/src/task/process.c\<close> over
  \<^verbatim>\<open>release_pages\<close> and \<^verbatim>\<open>release_page_tables\<close> of \<^verbatim>\<open>src/src/mem/page.c\<close>. Every user page and every
  user page table is given up exactly once.
\<close>

definition release_user_space_pages :: "vm \<Rightarrow> vm kres" where
  "release_user_space_pages v = kbind (release_pages (4 * 1024 * 1024) (767 * 1024) True v) (release_page_tables 1 767)"

section \<open>Uses of a frame\<close>

text \<open>Page number \<open>k\<close> is mapped to frame \<open>f\<close>.\<close>

definition maps :: "vm \<Rightarrow> nat \<Rightarrow> nat \<Rightarrow> bool" where
  "maps s k f \<longleftrightarrow> pte_present (pde s (k div 1024)) \<and> pte_present (pte s k) \<and> pte_frame (pte s k) = f"

definition uses :: "vm \<Rightarrow> nat set \<Rightarrow> nat \<Rightarrow> nat" where
  "uses s D f = card {k\<in>D. maps s k f}"

definition table_uses :: "vm \<Rightarrow> nat set \<Rightarrow> nat \<Rightarrow> nat" where
  "table_uses s I f = card {i\<in>I. pte_present (pde s i) \<and> table_of s i = f}"

text \<open>The user part: the page numbers from 4 MB to 3 GB and their directory entries.\<close>

abbreviation user_pages :: "nat set" where "user_pages \<equiv> {1024..<786432}"
abbreviation user_tables :: "nat set" where "user_tables \<equiv> {1..<768}"

text \<open>
  Every user page and every table of the directory has a reference of its own to its frame, and frame 0 has one
  that is never given up.
\<close>

definition frames_counted :: "vm \<Rightarrow> bool" where
  "frames_counted s \<longleftrightarrow> vm_ok s \<and>
     (\<forall>f. uses s user_pages f + table_uses s {..<1024} f + (if f = 0 then 1 else 0) \<le> frame_ref s f)"

lemma uses_insert:
  assumes "finite D" "k \<notin> D"
  shows "uses s (insert k D) f = uses s D f + (if maps s k f then 1 else 0)"
proof -
  have "{j \<in> insert k D. maps s j f} = (if maps s k f then insert k {j\<in>D. maps s j f} else {j\<in>D. maps s j f})" by auto
  then show ?thesis using assms by (simp add: uses_def)
qed

lemma table_uses_insert:
  assumes "finite I" "i \<notin> I"
  shows "table_uses s (insert i I) f = table_uses s I f + (if pte_present (pde s i) \<and> table_of s i = f then 1 else 0)"
proof -
  have "{j \<in> insert i I. pte_present (pde s j) \<and> table_of s j = f} =
    (if pte_present (pde s i) \<and> table_of s i = f then insert i {j\<in>I. pte_present (pde s j) \<and> table_of s j = f}
     else {j\<in>I. pte_present (pde s j) \<and> table_of s j = f})" by auto
  then show ?thesis using assms by (simp add: table_uses_def)
qed

lemma uses_mono: "\<lbrakk>D \<subseteq> D'; finite D'\<rbrakk> \<Longrightarrow> uses s D f \<le> uses s D' f"
  unfolding uses_def by (rule card_mono) auto

lemma table_uses_mono: "\<lbrakk>I \<subseteq> I'; finite I'\<rbrakk> \<Longrightarrow> table_uses s I f \<le> table_uses s I' f"
  unfolding table_uses_def by (rule card_mono) auto

lemma frame_ref_set_phys [simp]: "frame_ref (set_phys f i v s) = frame_ref s"
  by (simp add: frame_ref_def fun_eq_iff)

lemma drop_frame:
  assumes "frames_ok s" "0 < frame_ref s f"
  shows "\<exists>t. release_phy_frame f s = Inr t \<and> frame_ref t = (frame_ref s)(f := frame_ref s f - 1) \<and> frames_ok t \<and>
    phys t = phys s \<and> cr3 t = cr3 s"
proof -
  have f: "f < PHY_FRAMES" using assms(2) by (auto simp: frame_ref_def split: if_splits)
  from fp.drop_ref [OF assms(1) f assms(2)] obtain t where
    t: "release_phy_frame f s = Inr t" "frame_ref t = (frame_ref s)(f := frame_ref s f - 1)" "frames_ok t" by blast
  then have "phys t = phys s \<and> cr3 t = cr3 s" by (auto simp: release_phy_frame_def)
  with t show ?thesis by blast
qed

section \<open>Releasing pages\<close>

text \<open>\<open>t\<close> is \<open>s\<close> with the pages in \<open>D\<close> released.\<close>

definition table_frames_of :: "vm \<Rightarrow> nat set \<Rightarrow> nat set" where
  "table_frames_of s I = table_of s ` {i\<in>I. pte_present (pde s i)}"

definition released :: "nat set \<Rightarrow> vm \<Rightarrow> vm \<Rightarrow> bool" where
  "released D s t \<longleftrightarrow>
     cr3 t = cr3 s \<and> frames_ok t \<and> (\<forall>f. frame_ref t f = frame_ref s f - uses s D f) \<and>
     (\<forall>f. f \<notin> table_frames_of s user_tables \<longrightarrow> phys t f = phys s f) \<and>
     (\<forall>k\<in>user_pages. pte_present (pde s (k div 1024)) \<longrightarrow>
        phys t (table_of s (k div 1024)) (k mod 1024) = (if k \<in> D \<and> pte_present (pte s k) then 0 else pte s k))"

lemma user_page_table: "k \<in> user_pages \<Longrightarrow> k div 1024 \<in> user_tables \<and> k div 1024 < 1024 \<and> k div 1024 \<noteq> 769 \<and> k < 1048576"
  by (auto simp: less_eq_div_iff_mult_less_eq)

lemma released_dir:
  assumes ok: "vm_ok s" and r: "released D s t"
  shows "phys t (cr3 s) = phys s (cr3 s)" "pde t i = pde s i" "rec_ok t"
proof -
  have "table_of s i \<noteq> cr3 s" if "i \<in> user_tables" "pte_present (pde s i)" for i
    using vm_okD(7) [OF ok, of i] that by auto
  then have "cr3 s \<notin> table_frames_of s user_tables" unfolding table_frames_of_def by fastforce
  then show "phys t (cr3 s) = phys s (cr3 s)" using r by (simp add: released_def)
  then show "pde t i = pde s i" "rec_ok t" using r vm_okD(1) [OF ok] by (simp_all add: released_def rec_ok_def)
qed

lemma release_page_step:
  assumes ok: "frames_counted s" and r: "released D s t" and D: "finite D" "D \<subseteq> user_pages"
    and k: "k \<in> user_pages" "k \<notin> D" and p: "pte_present (pde s (k div 1024))"
  shows "\<exists>t'. release_page (of_nat k * PAGE_SIZE) True t = Inr t' \<and> released (insert k D) s t'"
proof -
  have vm: "vm_ok s" using ok by (simp add: frames_counted_def)
  note dir = released_dir [OF vm r] and kt = user_page_table [OF k(1)]
  have u: "unat (of_nat k * PAGE_SIZE) div 4096 = k"
    using kt by (simp add: PAGE_SIZE_def unat_word_ariths unat_of_nat_small)
  have pt: "pte_present (pde t (k div 1024))" using p dir by simp
  have cr: "cr3 t = cr3 s" using r by (simp add: released_def)
  have same: "phys t (table_of s (k div 1024)) (k mod 1024) = pte s k" using r k p unfolding released_def by simp
  then have same: "pte t k = pte s k" by (simp only: dir(2))
  note w = window_pte [OF dir(3) _ pt]
  show ?thesis
  proof (cases "pte_present (pte s k)")
    case False
    then have "\<not> maps s k f" for f by (simp add: maps_def)
    then have "released (insert k D) s t" using r False k(2) D(1) by (auto simp: released_def uses_insert)
    moreover have "release_page (of_nat k * PAGE_SIZE) True t = Inr t"
      using w(1) kt False same u by (simp add: release_page_def Let_def)
    ultimately show ?thesis by blast
  next
    case True
    let ?f = "pte_frame (pte s k)"
    have m: "maps s k f \<longleftrightarrow> f = ?f" for f using True p by (auto simp: maps_def)
    have "uses s (insert k D) ?f \<le> uses s user_pages ?f" using D k by (intro uses_mono) auto
    also have "\<dots> \<le> frame_ref s ?f" using ok unfolding frames_counted_def by (meson add_leD1)
    finally have le: "uses s D ?f + 1 \<le> frame_ref s ?f" using uses_insert [OF D(1) k(2)] m by simp
    have "0 < frame_ref t ?f" using r le by (simp add: released_def)
    moreover have "frames_ok t" using r by (simp add: released_def)
    ultimately obtain t1 where t1: "release_phy_frame ?f t = Inr t1" "frame_ref t1 = (frame_ref t)(?f := frame_ref t ?f - 1)"
      "frames_ok t1" "phys t1 = phys t" "cr3 t1 = cr3 t" using drop_frame by blast
    have "rec_ok t1" "pte_present (pde t1 (k div 1024))" using dir pt t1 by (simp_all add: rec_ok_def)
    from window_pte(2) [OF this(1) _ this(2)] kt
    have wr: "vwrite (pte_addr k) 0 t1 = Inr (set_phys (table_of t1 (k div 1024)) (k mod 1024) 0 t1)" by simp
    let ?t = "set_phys (table_of t1 (k div 1024)) (k mod 1024) 0 t1"
    have tab: "table_of t1 (k div 1024) = table_of s (k div 1024)" using t1 dir r by (simp add: released_def)
    have "release_page (of_nat k * PAGE_SIZE) True t = Inr ?t"
      using w(1) kt True same u t1(1) wr by (simp add: release_page_def Let_def)
    moreover have "released (insert k D) s ?t"
    proof -
      have fr: "frame_ref ?t f = frame_ref s f - uses s (insert k D) f" for f
        using t1(2) r m uses_insert [OF D(1) k(2)] by (simp add: released_def)
      have "table_of s (k div 1024) \<in> table_frames_of s user_tables" using p kt unfolding table_frames_of_def by blast
      then have ph: "phys ?t f = phys s f" if "f \<notin> table_frames_of s user_tables" for f
        using that r t1(4) tab by (auto simp: released_def set_phys_def)
      have "phys ?t (table_of s (j div 1024)) (j mod 1024) = (if j \<in> insert k D \<and> pte_present (pte s j) then 0 else pte s j)"
        if j: "j \<in> user_pages" "pte_present (pde s (j div 1024))" for j
      proof (cases "j = k")
        case False
        have "table_of s (j div 1024) \<noteq> table_of s (k div 1024) \<or> j mod 1024 \<noteq> k mod 1024"
          using vm_okD(5) [OF vm _ _ _ j(2) p] user_page_table [OF j(1)] kt False by (metis div_mult_mod_eq)
        then have "phys ?t (table_of s (j div 1024)) (j mod 1024) = phys t (table_of s (j div 1024)) (j mod 1024)"
          unfolding tab using t1(4) by (auto simp: set_phys_def)
        then show ?thesis using r j False unfolding released_def by simp
      qed (use True tab in \<open>simp add: set_phys_def\<close>)
      then show ?thesis using fr ph t1(3,5) cr unfolding released_def by (simp add: frames_ok_def)
    qed
    ultimately show ?thesis by blast
  qed
qed

lemma release_page_list:
  assumes ok: "frames_counted s" and p: "pte_present (pde s i)" and i: "i \<in> user_tables"
  shows "\<lbrakk>released D s t; finite D; D \<subseteq> user_pages; set ks \<subseteq> {i * 1024..<i * 1024 + 1024}; distinct ks; set ks \<inter> D = {}\<rbrakk> \<Longrightarrow>
    \<exists>t'. kfold (\<lambda>j. release_page (of_nat j * PAGE_SIZE) True) ks t = Inr t' \<and> released (D \<union> set ks) s t'"
proof (induction ks arbitrary: D t)
  case (Cons k ks)
  have kr: "i * 1024 \<le> k" "k < i * 1024 + 1024" using Cons.prems(4) by auto
  then have k: "k \<in> user_pages" "k div 1024 = i" using i by auto
  from release_page_step [OF ok Cons.prems(1-3) k(1)] Cons.prems(6) p k(2) obtain t1 where
    t1: "release_page (of_nat k * PAGE_SIZE) True t = Inr t1" "released (insert k D) s t1" by auto
  have "\<exists>t'. kfold (\<lambda>j. release_page (of_nat j * PAGE_SIZE) True) ks t1 = Inr t' \<and> released (insert k D \<union> set ks) s t'"
    by (rule Cons.IH [OF t1(2)]) (use Cons.prems k in auto)
  then show ?case using t1(1) by auto
qed simp

lemma released_skip:
  assumes "released D s t" "\<not> pte_present (pde s i)" "finite D"
  shows "released (D \<union> {i * 1024..<i * 1024 + 1024}) s t"
proof -
  have d: "k div 1024 = i" if "k \<in> {i * 1024..<i * 1024 + 1024}" for k using that by auto
  then have "\<not> maps s k f" if "k \<in> {i * 1024..<i * 1024 + 1024}" for k f
    using that assms(2) by (simp add: maps_def)
  then have "{k \<in> D \<union> {i * 1024..<i * 1024 + 1024}. maps s k f} = {k\<in>D. maps s k f}" for f by blast
  then have u: "uses s (D \<union> {i * 1024..<i * 1024 + 1024}) f = uses s D f" for f by (simp only: uses_def)
  have "k \<in> D \<union> {i * 1024..<i * 1024 + 1024} \<longleftrightarrow> k \<in> D" if "pte_present (pde s (k div 1024))" for k
    using that d assms(2) by blast
  with assms(1) show ?thesis unfolding released_def u by simp
qed

lemma release_tables_loop:
  assumes ok: "frames_counted s"
  shows "\<lbrakk>released {1024..<a * 1024} s t; 1 \<le> a; a + n = 768\<rbrakk> \<Longrightarrow>
    \<exists>t'. kfold (\<lambda>i s. kbind (vread s (pde_addr i)) (\<lambda>pde. if \<not> pte_present pde then Inr s
        else kfold (\<lambda>j. release_page (of_nat j * PAGE_SIZE) True) [max (i * 1024) 1024..<min (i * 1024 + 1024) 786432] s)) [a..<768] t = Inr t' \<and>
      released {1024..<786432} s t'"
proof (induction n arbitrary: a t)
  case (Suc n)
  have vm: "vm_ok s" using ok by (simp add: frames_counted_def)
  have a: "a < 768" "a \<in> user_tables" using Suc.prems by auto
  have upt: "[a..<768] = a # [Suc a..<768]" using a(1) by (rule upt_conv_Cons)
  have rng: "max (a * 1024) 1024 = a * 1024" "min (a * 1024 + 1024) 786432 = a * 1024 + 1024" using a by auto
  note dir = released_dir [OF vm Suc.prems(1)]
  have rd: "vread t (pde_addr a) = Inr (pde s a)" using window_pde(1) [OF dir(3), of a] a(1) dir(2) by simp
  have un: "{1024..<a * 1024} \<union> {a * 1024..<a * 1024 + 1024} = {1024..<Suc a * 1024}" using a by auto
  have fin: "finite {1024..<a * 1024}" by simp
  have "\<exists>t1. (if \<not> pte_present (pde s a) then Inr t
      else kfold (\<lambda>j. release_page (of_nat j * PAGE_SIZE) True) [a * 1024..<a * 1024 + 1024] t) = Inr t1 \<and>
      released {1024..<Suc a * 1024} s t1"
  proof (cases "pte_present (pde s a)")
    case True
    have "\<exists>t'. kfold (\<lambda>j. release_page (of_nat j * PAGE_SIZE) True) [a * 1024..<a * 1024 + 1024] t = Inr t' \<and>
        released ({1024..<a * 1024} \<union> set [a * 1024..<a * 1024 + 1024]) s t'"
      by (rule release_page_list [OF ok True a(2) Suc.prems(1)]) (use a in auto)
    then show ?thesis using True un by simp
  next
    case False
    then show ?thesis using released_skip [OF Suc.prems(1) False fin] un by simp
  qed
  then obtain t1 where t1: "(if \<not> pte_present (pde s a) then Inr t
      else kfold (\<lambda>j. release_page (of_nat j * PAGE_SIZE) True) [a * 1024..<a * 1024 + 1024] t) = Inr t1"
      "released {1024..<Suc a * 1024} s t1" by blast
  from Suc.IH [OF t1(2)] Suc.prems t1(1) rd show ?case unfolding upt kfold.simps rng by simp
next
  case 0
  then show ?case by simp
qed

lemma release_pages_user:
  assumes ok: "frames_counted s"
  shows "\<exists>t. release_pages (4 * 1024 * 1024) (767 * 1024) True s = Inr t \<and> released user_pages s t"
proof -
  have "released {1024..<1 * 1024} s s"
    using ok by (simp add: released_def uses_def frames_counted_def vm_ok_def)
  from release_tables_loop [OF ok this] obtain t where
    t: "kfold (\<lambda>i s. kbind (vread s (pde_addr i)) (\<lambda>pde. if \<not> pte_present pde then Inr s
        else kfold (\<lambda>j. release_page (of_nat j * PAGE_SIZE) True) [max (i * 1024) 1024..<min (i * 1024 + 1024) 786432] s)) [1..<768] s = Inr t"
      "released {1024..<786432} s t" by auto
  have b: "page_base (4 * 1024 * 1024) = 4 * 1024 * 1024" "unat ((4 * 1024 * 1024 :: u32) div 4096) = 1024"
    "unat ((4 * 1024 * 1024 :: u32) div 4096 + 767 * 1024) = 786432" "unat ((4 * 1024 * 1024 :: u32) div 4194304) = 1"
    "unat (((4 * 1024 * 1024 :: u32) div 4096 + 767 * 1024 - 1) div 1024 + 1) = 768"
    by (simp_all add: page_base_def PAGE_SIZE_def unat_div)
  show ?thesis using t unfolding release_pages_def Let_def b by blast
qed

section \<open>Releasing tables\<close>

text \<open>\<open>t\<close> is \<open>s\<close> with the tables of the entries in \<open>I\<close> released.\<close>

definition unlinked :: "nat set \<Rightarrow> vm \<Rightarrow> vm \<Rightarrow> bool" where
  "unlinked I s t \<longleftrightarrow>
     cr3 t = cr3 s \<and> frames_ok t \<and> (\<forall>f. frame_ref t f = frame_ref s f - table_uses s I f) \<and>
     (\<forall>f. f \<noteq> cr3 s \<longrightarrow> phys t f = phys s f) \<and>
     (\<forall>i. phys t (cr3 s) i = (if i \<in> I \<and> pte_present (pde s i) then 0 else pde s i))"

lemma release_table_step:
  assumes rec: "rec_ok s" and c: "\<And>f. table_uses s user_tables f \<le> frame_ref s f"
    and u: "unlinked I s t" and I: "I \<subseteq> user_tables" and i: "i \<in> user_tables" "i \<notin> I"
  shows "\<exists>t'. kbind (vread t (pde_addr i)) (\<lambda>pde. if \<not> pte_present pde then Inr t
      else kbind (release_phy_frame (pte_frame pde) t) (vwrite (pde_addr i) 0)) = Inr t' \<and> unlinked (insert i I) s t'"
proof -
  have fin: "finite I" using I finite_subset by blast
  have cr: "cr3 t = cr3 s" and same: "pde t i = pde s i" using u i(2) by (simp_all add: unlinked_def)
  have 769: "(769 :: nat) \<notin> I" using I by auto
  then have rt: "rec_ok t" using u rec by (simp add: unlinked_def rec_ok_def)
  have rd: "vread t (pde_addr i) = Inr (pde s i)" using window_pde(1) [OF rt, of i] i(1) same by simp
  show ?thesis
  proof (cases "pte_present (pde s i)")
    case False
    then have "unlinked (insert i I) s t" using u fin i(2) by (auto simp: unlinked_def table_uses_insert)
    then show ?thesis using rd False by simp
  next
    case True
    let ?f = "table_of s i"
    have "table_uses s (insert i I) ?f \<le> table_uses s user_tables ?f" using I i(1) by (intro table_uses_mono) auto
    then have "table_uses s I ?f + 1 \<le> frame_ref s ?f" using c [of ?f] table_uses_insert [OF fin i(2)] True by simp
    then have "0 < frame_ref t ?f" "frames_ok t" using u by (simp_all add: unlinked_def)
    from drop_frame [OF this(2,1)] obtain t1 where t1: "release_phy_frame ?f t = Inr t1"
      "frame_ref t1 = (frame_ref t)(?f := frame_ref t ?f - 1)" "frames_ok t1" "phys t1 = phys t" "cr3 t1 = cr3 t" by blast
    have "rec_ok t1" using rt t1 by (simp add: rec_ok_def)
    then have wr: "vwrite (pde_addr i) 0 t1 = Inr (set_phys (cr3 t1) i 0 t1)" using window_pde(2) [of t1 i] i(1) by simp
    have "unlinked (insert i I) s (set_phys (cr3 t1) i 0 t1)"
    proof -
      have "frame_ref (set_phys (cr3 t1) i 0 t1) f = frame_ref s f - table_uses s (insert i I) f" for f
        using u t1(2) True table_uses_insert [OF fin i(2)] by (auto simp: unlinked_def)
      moreover have "phys (set_phys (cr3 t1) i 0 t1) = (phys t)(cr3 s := (phys t (cr3 s))(i := 0))"
        using t1(4,5) cr by (simp add: set_phys_def)
      ultimately show ?thesis using u t1(3,5) cr True by (auto simp: unlinked_def frames_ok_def)
    qed
    then show ?thesis using rd True t1(1) wr by simp
  qed
qed

lemma release_page_tables_user:
  assumes rec: "rec_ok s" and ok: "frames_ok s" and c: "\<And>f. table_uses s user_tables f \<le> frame_ref s f"
  shows "\<exists>t. release_page_tables 1 767 s = Inr t \<and> unlinked user_tables s t"
proof -
  let ?step = "\<lambda>i s. kbind (vread s (pde_addr i)) (\<lambda>pde. if \<not> pte_present pde then Inr s
      else kbind (release_phy_frame (pte_frame pde) s) (vwrite (pde_addr i) 0))"
  have "\<exists>t'. kfold ?step is t = Inr t' \<and> unlinked (I \<union> set is) s t'"
    if "unlinked I s t" "I \<subseteq> user_tables" "set is \<subseteq> user_tables" "distinct is" "set is \<inter> I = {}" for "is" I t
    using that
  proof (induction "is" arbitrary: I t)
    case (Cons i "is")
    from release_table_step [OF rec c Cons.prems(1,2), of i] Cons.prems obtain t1 where
      t1: "?step i t = Inr t1" "unlinked (insert i I) s t1" by auto
    have "\<exists>t'. kfold ?step is t1 = Inr t' \<and> unlinked (insert i I \<union> set is) s t'"
      by (rule Cons.IH [OF t1(2)]) (use Cons.prems in auto)
    then show ?case using t1(1) by auto
  qed simp
  from this [of "{}" s "[1..<768]"] ok show ?thesis
    by (simp add: release_page_tables_def unlinked_def table_uses_def del: upt_rec_numeral)
qed

section \<open>The address space is gone\<close>

lemma released_table_uses: "\<lbrakk>vm_ok s; released D s t\<rbrakk> \<Longrightarrow> table_uses t I f = table_uses s I f"
  by (simp add: table_uses_def released_dir(2))

lemma table_uses_one: "\<lbrakk>finite I; i \<in> I; pte_present (pde s i)\<rbrakk> \<Longrightarrow> 1 \<le> table_uses s I (table_of s i)"
  unfolding table_uses_def One_nat_def Suc_le_eq card_gt_0_iff by auto

lemma table_uses_none: "f \<notin> table_frames_of s I \<Longrightarrow> table_uses s I f = 0"
proof -
  assume "f \<notin> table_frames_of s I"
  then have "{i\<in>I. pte_present (pde s i) \<and> table_of s i = f} = {}" unfolding table_frames_of_def by blast
  then show ?thesis unfolding table_uses_def by (metis card.empty)
qed

lemma user_dir_index: "0x400000 \<le> a \<Longrightarrow> a < 0xC0000000 \<Longrightarrow> dir_index a \<in> user_tables"
  by (auto simp: dir_index_def word_le_nat_alt word_less_nat_alt less_eq_div_iff_mult_less_eq less_mult_imp_div_less)

lemma user_space_released_lemma:
  assumes ok: "frames_counted s"
  shows "\<exists>t. release_user_space_pages s = Inr t \<and> cr3 t = cr3 s \<and> vm_ok t \<and>
    (\<forall>a. 0x400000 \<le> a \<and> a < 0xC0000000 \<longrightarrow> walk t a = None) \<and>
    (\<forall>a. dir_index a \<notin> user_tables \<and> dir_index a \<noteq> 769 \<longrightarrow> walk t a = walk s a) \<and>
    (\<forall>f. frame_ref t f = frame_ref s f - (uses s user_pages f + table_uses s user_tables f)) \<and>
    (\<forall>f. f \<notin> table_frames_of s user_tables \<longrightarrow> f \<noteq> cr3 s \<longrightarrow> phys t f = phys s f)"
proof -
  have vm: "vm_ok s" and cnt: "\<And>f. uses s user_pages f + table_uses s {..<1024} f + (if f = 0 then 1 else 0) \<le> frame_ref s f"
    using ok by (auto simp: frames_counted_def)
  from release_pages_user [OF ok] obtain u where
    u: "release_pages (4 * 1024 * 1024) (767 * 1024) True s = Inr u" "released user_pages s u" by blast
  note dir = released_dir [OF vm u(2)]
  have cr: "cr3 u = cr3 s" and fu: "frames_ok u" and refu: "\<And>f. frame_ref u f = frame_ref s f - uses s user_pages f"
    using u(2) by (simp_all add: released_def)
  have tu: "table_uses u I f = table_uses s I f" for I f using released_table_uses [OF vm u(2)] .
  have mono: "table_uses s user_tables f \<le> table_uses s {..<1024} f" for f by (rule table_uses_mono) auto
  have c: "table_uses u user_tables f \<le> frame_ref u f" for f using cnt [of f] mono [of f] tu refu by simp
  from release_page_tables_user [OF dir(3) fu c] obtain t where
    t: "release_page_tables 1 767 u = Inr t" "unlinked user_tables u t" by blast
  have crt: "cr3 t = cr3 s" and ft: "frames_ok t" using t(2) cr by (simp_all add: unlinked_def)
  have reft: "frame_ref t f = frame_ref s f - (uses s user_pages f + table_uses s user_tables f)" for f
    using t(2) refu tu by (simp add: unlinked_def)
  have pdt: "pde t i = (if i \<in> user_tables \<and> pte_present (pde s i) then 0 else pde s i)" for i
    using t(2) crt cr dir(2) by (simp add: unlinked_def)
  have np: "\<not> pte_present (pde t i)" if "i \<in> user_tables" for i using that pdt by (simp add: pte_present_def)
  have phy: "phys t f = phys s f" if "f \<notin> table_frames_of s user_tables" "f \<noteq> cr3 s" for f
    using that t(2) u(2) cr by (simp add: unlinked_def released_def)
  have ktab: "table_of s i \<notin> table_frames_of s user_tables \<and> (i \<noteq> 769 \<longrightarrow> table_of s i \<noteq> cr3 s)"
    if i: "i < 1024" "i \<notin> user_tables" "pte_present (pde s i)" for i
  proof -
    have "table_of s i \<noteq> table_of s j" if "j \<in> user_tables" "pte_present (pde s j)" for j
      using vm_okD(5) [OF vm i(1) _ _ i(3) that(2)] that(1) i(2) by auto
    then show ?thesis using vm_okD(7) [OF vm i(1) _ i(3)] unfolding table_frames_of_def by blast
  qed
  have kref: "frame_ref t (table_of s i) \<noteq> 0" if i: "i < 1024" "i \<notin> user_tables" "pte_present (pde s i)" for i
  proof -
    have "table_uses s user_tables (table_of s i) = 0"
      by (rule table_uses_none [OF conjunct1 [OF ktab [OF i]]])
    then show ?thesis using reft cnt [of "table_of s i"] table_uses_one [of "{..<1024}" i s] i by fastforce
  qed
  have vmt: "vm_ok t"
  proof -
    have "rec_ok t" using vm_okD(1) [OF vm] crt pdt [of 769] by (simp add: rec_ok_def)
    moreover have "frame_ref t 0 \<noteq> 0" using reft [of 0] cnt [of 0] mono [of 0] by simp
    moreover have "frame_ref t (table_of t i) \<noteq> 0" if "i < 1024" "pte_present (pde t i)" for i
      using that np [of i] kref [of i] pdt [of i] by (auto split: if_splits)
    moreover have "table_of t i \<noteq> table_of t j"
      if "i < 1024" "j < 1024" "i \<noteq> j" "pte_present (pde t i)" "pte_present (pde t j)" for i j
      using vm_okD(5) [OF vm that(1-3)] that(4,5) np [of i] np [of j] pdt [of i] pdt [of j] by (auto split: if_splits)
    ultimately show ?thesis using ft by (simp add: vm_ok_def)
  qed
  have wk: "walk t a = walk s a" if "dir_index a \<notin> user_tables" "dir_index a \<noteq> 769" for a
    using that ktab [OF dir_index_less that(1)] phy [of "table_of s (dir_index a)"] pdt [of "dir_index a"]
    by (auto simp: walk_def Let_def)
  have wu: "walk t a = None" if "0x400000 \<le> a" "a < 0xC0000000" for a
    using np [OF user_dir_index [OF that]] by (simp add: walk_def Let_def)
  have "release_user_space_pages s = Inr t" using u(1) t(1) by (simp add: release_user_space_pages_def)
  then show ?thesis using crt vmt wu wk reft phy by blast
qed

text \<open>C20: \<^verbatim>\<open>release_user_space_pages\<close> gives an address space up completely. When every user page and every page table
has a reference of its own to its frame, the call succeeds; afterwards no address from 4 MB to 3 GB is mapped, every
other address outside the window on the page tables translates as before, the count of every frame has gone down by exactly the
number of user pages and user page tables that used it, and the invariant of the address space still holds.\<close>

theorem user_space_released:
  assumes "frames_counted s"
  shows "\<exists>t. release_user_space_pages s = Inr t \<and> vm_ok t \<and>
    (\<forall>a. 0x400000 \<le> a \<and> a < 0xC0000000 \<longrightarrow> walk t a = None) \<and>
    (\<forall>a. dir_index a \<notin> {1..<768} \<and> dir_index a \<noteq> 769 \<longrightarrow> walk t a = walk s a) \<and>
    (\<forall>f. frame_ref t f = frame_ref s f - (uses s {1024..<786432} f + table_uses s {1..<768} f))"
  using user_space_released_lemma [OF assms] by blast

text \<open>A directory with one user page, at 32 MB, in frame 5, which another address space shares.\<close>

definition demo_user_vm :: vm where
  "demo_user_vm =
     \<lparr>phys = (\<lambda>f i. if f = 2 then (if i = 8 then 0x4007 else if i = 769 then 0x2003 else if i = 1023 then 0x3003 else 0)
                     else if f = 4 \<and> i = 0 then 0x5005 else 0),
      cr3 = 2, phy_frames_array = map (\<lambda>i. if i = 5 then 2 else if i < 6 then 1 else 0) [0..<8192], last_allocated_index = 6\<rparr>"

lemma demo_user_vm_simps:
  "cr3 demo_user_vm = 2" "frame_ref demo_user_vm f = (if f = 5 then 2 else if f < 6 then 1 else 0)" "frames_ok demo_user_vm"
  "pte_present (phys demo_user_vm 2 i) \<longleftrightarrow> i = 8 \<or> i = 769 \<or> i = 1023"
  "pte_frame (phys demo_user_vm 2 8) = 4" "pte_frame (phys demo_user_vm 2 769) = 2" "pte_frame (phys demo_user_vm 2 1023) = 3"
  "pte_present (phys demo_user_vm 4 j) \<longleftrightarrow> j = 0" "pte_frame (phys demo_user_vm 4 0) = 5"
  by (simp_all add: demo_user_vm_def frame_ref_def frames_ok_def PHY_FRAMES_def pte_present_def pte_frame_def)

lemma demo_user_uses:
  "uses demo_user_vm user_pages f = (if f = 5 then 1 else 0)"
  "table_uses demo_user_vm {..<1024} f = (if f \<in> {2, 3, 4} then 1 else 0)"
  "table_uses demo_user_vm user_tables f = (if f = 4 then 1 else 0)"
proof -
  have "maps demo_user_vm k f \<longleftrightarrow> k = 8192 \<and> f = 5" if "k \<in> user_pages" for k
  proof -
    have "k div 1024 = 8 \<and> k mod 1024 = 0 \<longleftrightarrow> k = 8192" using div_mult_mod_eq [of k 1024] by auto
    moreover have "k div 1024 < 768" using user_page_table [OF that] by simp
    ultimately show ?thesis by (auto simp: maps_def demo_user_vm_simps)
  qed
  then have "{k\<in>user_pages. maps demo_user_vm k f} = (if f = 5 then {8192} else {})" by auto
  then show "uses demo_user_vm user_pages f = (if f = 5 then 1 else 0)" unfolding uses_def by simp
  have "{i\<in>{..<1024}. pte_present (pde demo_user_vm i) \<and> table_of demo_user_vm i = f} =
      (if f = 4 then {8} else if f = 2 then {769} else if f = 3 then {1023} else {})"
    by (auto simp: demo_user_vm_simps)
  then show "table_uses demo_user_vm {..<1024} f = (if f \<in> {2, 3, 4} then 1 else 0)" unfolding table_uses_def by simp
  have "{i\<in>user_tables. pte_present (pde demo_user_vm i) \<and> table_of demo_user_vm i = f} = (if f = 4 then {8} else {})"
    by (auto simp: demo_user_vm_simps)
  then show "table_uses demo_user_vm user_tables f = (if f = 4 then 1 else 0)" unfolding table_uses_def by simp
qed

lemma demo_user_counted: "frames_counted demo_user_vm"
proof -
  have "vm_ok demo_user_vm" by (auto simp: vm_ok_def rec_ok_def demo_user_vm_simps)
  then show ?thesis by (simp add: frames_counted_def demo_user_uses demo_user_vm_simps)
qed

theorem user_space_released_witness:
  "\<exists>t. release_user_space_pages demo_user_vm = Inr t \<and> walk demo_user_vm 0x2000000 = Some 5 \<and> walk t 0x2000000 = None \<and>
     frame_ref t 5 = 1 \<and> frame_ref t 4 = 0"
proof -
  have "walk demo_user_vm 0x2000000 = Some 5" by (simp add: walk_def dir_index_def table_index_def demo_user_vm_simps)
  then show ?thesis using user_space_released [OF demo_user_counted]
    unfolding demo_user_uses demo_user_vm_simps by (force simp: demo_user_vm_simps)
qed

end
