(* ===== verification/Page_Clone.thy ===== *)
theory Page_Clone
  imports Page_Release
begin

text \<open>
  The address space of a child: \<^verbatim>\<open>clone_crt_page_dir\<close> of \<^verbatim>\<open>src/src/mem/page.c\<close>. The new directory shares the tables of
  the kernel, has its own copies of the tables of user pages, and both copies of a user entry become read-only with one more
  reference on the frame.
\<close>

section \<open>Scratch pages\<close>

lemma page_access:
  assumes "page_aligned C" "walk s C = Some g" "j < 1024"
  shows "vread s (C + of_nat (4 * j)) = Inr (phys s g j)" "vwrite (C + of_nat (4 * j)) v s = Inr (set_phys g j v s)"
  using walk_offset [OF assms(1,3), of s] page_offset(3) [OF assms(1,3)] assms(2) by (simp_all add: vread_def vwrite_def)

lemma share_frame:
  assumes "frames_ok s" "f < PHY_FRAMES" "frame_ref s f < 65535"
  shows "\<exists>t. inc_cow_ref f s = Inr t \<and> frame_ref t = (frame_ref s)(f := frame_ref s f + 1) \<and> frames_ok t \<and>
    phys t = phys s \<and> cr3 t = cr3 s"
proof -
  from fp.share_ref [OF assms] obtain t where
    t: "inc_cow_ref f s = Inr t" "frame_ref t = (frame_ref s)(f := frame_ref s f + 1)" "frames_ok t" by blast
  then have "phys t = phys s \<and> cr3 t = cr3 s" by (auto simp: inc_cow_ref_def)
  with t show ?thesis by blast
qed

section \<open>Sharing the entries of one table\<close>

definition shared_pte :: "u32 \<Rightarrow> u32" where
  "shared_pte e = (if pte_present e then clear_rw e else e)"

lemma shared_pte_fields:
  "pte_present (shared_pte e) = pte_present e" "pte_frame (shared_pte e) = pte_frame e" "pte_user (shared_pte e) = pte_user e"
  "pte_present e \<Longrightarrow> \<not> pte_rw (shared_pte e)"
  by (simp_all add: shared_pte_def entry_updates)

text \<open>The first \<open>n\<close> entries of the frames in \<open>F\<close>, which hold the same entries, have been shared.\<close>

definition share_upto :: "nat \<Rightarrow> (nat \<Rightarrow> u32) \<Rightarrow> nat \<Rightarrow> u32" where
  "share_upto n c j = (if j < n then shared_pte (c j) else c j)"

definition entry_uses :: "(nat \<Rightarrow> u32) \<Rightarrow> nat \<Rightarrow> nat \<Rightarrow> nat" where
  "entry_uses c n f = card {j. j < n \<and> pte_present (c j) \<and> pte_frame (c j) = f}"

lemma entry_uses_Suc:
  "entry_uses c (Suc n) f = entry_uses c n f + (if pte_present (c n) \<and> pte_frame (c n) = f then 1 else 0)"
proof -
  have "{j. j < Suc n \<and> pte_present (c j) \<and> pte_frame (c j) = f} =
    (if pte_present (c n) \<and> pte_frame (c n) = f then insert n {j. j < n \<and> pte_present (c j) \<and> pte_frame (c j) = f}
     else {j. j < n \<and> pte_present (c j) \<and> pte_frame (c j) = f})" by (auto simp: less_Suc_eq)
  then show ?thesis by (simp add: entry_uses_def)
qed

lemma entry_uses_mono: "m \<le> n \<Longrightarrow> entry_uses c m f \<le> entry_uses c n f"
  unfolding entry_uses_def by (rule card_mono) auto

lemma share_upto_Suc: "(share_upto n c)(n := shared_pte (c n)) = share_upto (Suc n) c"
  by (auto simp: share_upto_def fun_eq_iff less_Suc_eq)

lemma share_entries:
  assumes rec: "rec_ok s" and i: "i < 1024" "pte_present (pde s i)" "T = table_of s i"
    and C: "walk s COPIED_PAGE_TABLE_VADDR = Some g" "U = table_of s 1023"
    and d: "T \<noteq> cr3 s" "g \<noteq> cr3 s" "g \<noteq> T" "U \<noteq> T" "U \<noteq> g" "U \<noteq> cr3 s"
    and c: "\<And>j. j < 1024 \<Longrightarrow> phys s g j = phys s T j" and fok: "frames_ok s"
    and room: "\<And>f. 0 < entry_uses (phys s T) 1024 f \<Longrightarrow> f < PHY_FRAMES \<and> frame_ref s f + entry_uses (phys s T) 1024 f \<le> 65535"
  shows "n \<le> 1024 \<Longrightarrow> \<exists>t. kfold (share_entry i) [0..<n] s = Inr t \<and> cr3 t = cr3 s \<and> frames_ok t \<and>
    phys t = (phys s)(T := share_upto n (phys s T), g := share_upto n (phys s g)) \<and>
    (\<forall>f. frame_ref t f = frame_ref s f + entry_uses (phys s T) n f)"
proof (induction n)
  case 0
  have "share_upto 0 c = c" for c by (simp add: share_upto_def fun_eq_iff)
  then show ?case using fok by (simp add: entry_uses_def)
next
  case (Suc n)
  then have n: "n < 1024" by simp
  from Suc obtain t where t: "kfold (share_entry i) [0..<n] s = Inr t" "cr3 t = cr3 s" "frames_ok t"
    "phys t = (phys s)(T := share_upto n (phys s T), g := share_upto n (phys s g))"
    "\<And>f. frame_ref t f = frame_ref s f + entry_uses (phys s T) n f" using Suc_leD by blast
  have app: "kfold f (xs @ [x]) u = kbind (kfold f xs u) (f x)" for f :: "nat \<Rightarrow> vm \<Rightarrow> vm kres" and xs x u
    by (induction xs arbitrary: u) (auto simp: kfold_Nil kbind_def split: sum.splits)
  have step: "kfold (share_entry i) [0..<Suc n] s = share_entry i n t" using t(1) app by simp
  have pd: "phys t (cr3 t) = phys s (cr3 s)" using t(2,4) d by simp
  have rect: "rec_ok t" using rec pd t(2) by (simp add: rec_ok_def)
  have p: "(i * 1024 + n) div 1024 = i" "(i * 1024 + n) mod 1024 = n" "i * 1024 + n < 1048576" using n i(1) by auto
  have wC: "walk t COPIED_PAGE_TABLE_VADDR = Some g"
    using C walk_phys [of t COPIED_PAGE_TABLE_VADDR s] pd t(4) d by (simp add: copied_page_index)
  let ?e = "phys s T n"
  have e: "phys t g n = ?e" "phys t T n = ?e" using t(4) c [OF n] d by (simp_all add: share_upto_def)
  have rd: "vread t (COPIED_PAGE_TABLE_VADDR + of_nat (4 * n)) = Inr ?e"
    using page_access(1) [OF copied_page_index(4) wC n] e by simp
  show ?case
  proof (cases "pte_present ?e")
    case False
    then have sh: "shared_pte ?e = ?e" by (simp add: shared_pte_def)
    have "share_upto (Suc n) (phys s h) = share_upto n (phys s h)" if "phys s h n = ?e" for h
      using that sh by (auto simp: share_upto_def fun_eq_iff less_Suc_eq)
    then have "phys t = (phys s)(T := share_upto (Suc n) (phys s T), g := share_upto (Suc n) (phys s g))"
      using t(4) c [OF n] by simp
    moreover have "share_entry i n t = Inr t" unfolding share_entry_def using rd False by simp
    moreover have "\<forall>f. frame_ref t f = frame_ref s f + entry_uses (phys s T) (Suc n) f" using t(5) False by (simp add: entry_uses_Suc)
    ultimately show ?thesis using step t(2,3) by metis
  next
    case True
    let ?k = "i * 1024 + n"
    have pk: "pte_present (pde t (?k div 1024))" using i(2) pd p by simp
    have tab: "table_of t i = T" using pd i(3) by simp
    note wp = window_pte [OF rect p(3) pk, unfolded p tab]
    let ?t1 = "set_phys T n (clear_rw ?e) t"
    have wC1: "walk ?t1 COPIED_PAGE_TABLE_VADDR = Some g"
      using wC walk_phys [of ?t1 COPIED_PAGE_TABLE_VADDR t] pd t(2,4) d C(2) by (simp add: copied_page_index)
    let ?t2 = "set_phys g n (clear_rw ?e) ?t1"
    have w2: "vwrite (COPIED_PAGE_TABLE_VADDR + of_nat (4 * n)) (clear_rw ?e) ?t1 = Inr ?t2"
      by (rule page_access(2) [OF copied_page_index(4) wC1 n])
    let ?f = "pte_frame ?e"
    have "0 < entry_uses (phys s T) (Suc n) ?f" using True by (simp add: entry_uses_Suc)
    then have us: "0 < entry_uses (phys s T) 1024 ?f" "entry_uses (phys s T) n ?f + 1 \<le> entry_uses (phys s T) 1024 ?f"
      using entry_uses_mono [of "Suc n" 1024 "phys s T" ?f] n True by (simp_all add: entry_uses_Suc)
    have fok2: "frames_ok ?t2" using t(3) by (simp add: frames_ok_def)
    have "frame_ref ?t2 ?f < 65535" "?f < PHY_FRAMES" using room [OF us(1)] us(2) t(5) [of ?f] by auto
    from share_frame [OF fok2 this(2,1)] obtain u where
      u: "inc_cow_ref ?f ?t2 = Inr u" "frame_ref u = (frame_ref ?t2)(?f := frame_ref ?t2 ?f + 1)" "frames_ok u" "phys u = phys ?t2" "cr3 u = cr3 ?t2"
      by blast
    have "share_entry i n t = Inr u"
      unfolding share_entry_def using rd True wp e w2 u(1) by simp
    moreover have "phys u = (phys s)(T := share_upto (Suc n) (phys s T), g := share_upto (Suc n) (phys s g))"
    proof -
      have "(share_upto n (phys s T))(n := clear_rw ?e) = share_upto (Suc n) (phys s T)"
        "(share_upto n (phys s g))(n := clear_rw ?e) = share_upto (Suc n) (phys s g)"
        using share_upto_Suc [of n "phys s T"] share_upto_Suc [of n "phys s g"] True c [OF n] by (simp_all add: shared_pte_def)
      then show ?thesis using u(4) t(4) d by (auto simp: fun_eq_iff)
    qed
    moreover have "frame_ref u f = frame_ref s f + entry_uses (phys s T) (Suc n) f" for f
      using u(2) t(5) True by (simp add: entry_uses_Suc)
    ultimately show ?thesis using step u(3,5) t(2) by (intro exI [of _ u] conjI allI) (simp_all only: set_phys_simps)
  qed
qed

section \<open>The loop over the tables\<close>

abbreviation live :: "vm \<Rightarrow> nat set \<Rightarrow> nat set" where "live s I \<equiv> {i\<in>I. pte_present (pde s i)}"

text \<open>The entries of the new directory when the tables in \<open>I\<close> have been copied, the one for \<open>i\<close> to frame \<open>M i\<close>.\<close>

definition new_pde :: "nat \<Rightarrow> (nat \<Rightarrow> nat) \<Rightarrow> nat set \<Rightarrow> vm \<Rightarrow> nat \<Rightarrow> u32" where
  "new_pde D M I s j =
     (if j = 0 \<or> 768 \<le> j \<and> j \<noteq> 769 then pde s j
      else if j = 769 then set_entry 0 False D
      else if j \<in> live s I then set_entry 0 True (M j) else 0)"

definition cloning :: "nat \<Rightarrow> (nat \<Rightarrow> nat) \<Rightarrow> nat set \<Rightarrow> vm \<Rightarrow> vm \<Rightarrow> bool" where
  "cloning D M I s t \<longleftrightarrow>
     cr3 t = cr3 s \<and> frames_ok t \<and> D < PHY_FRAMES \<and> frame_ref s D = 0 \<and>
     (\<forall>i\<in>live s I. M i < PHY_FRAMES \<and> frame_ref s (M i) = 0 \<and> M i \<noteq> D) \<and> inj_on M (live s I) \<and>
     (\<forall>f. frame_ref t f = (if f = D \<or> f \<in> M ` live s I then 1 else frame_ref s f + uses s {k. k div 1024 \<in> I} f)) \<and>
     (\<forall>j<1024. phys t D j = new_pde D M I s j) \<and>
     (\<forall>i\<in>live s I. \<forall>j<1024. phys t (M i) j = shared_pte (phys s (table_of s i) j)) \<and>
     (\<forall>i\<in>live s I. \<forall>j<1024. phys t (table_of s i) j = shared_pte (phys s (table_of s i) j)) \<and>
     (\<forall>f. frame_ref s f \<noteq> 0 \<longrightarrow> f \<noteq> table_of s 1023 \<longrightarrow> f \<notin> table_of s ` live s I \<longrightarrow> phys t f = phys s f) \<and>
     (\<forall>j. j \<noteq> 1021 \<longrightarrow> j \<noteq> 1022 \<longrightarrow> phys t (table_of s 1023) j = phys s (table_of s 1023) j) \<and>
     \<not> pte_present (phys t (table_of s 1023) 1022)"

text \<open>The scratch entry through which the new directory is edited.\<close>

definition dir_open :: "nat \<Rightarrow> vm \<Rightarrow> vm \<Rightarrow> bool" where
  "dir_open D s t \<longleftrightarrow> pte_present (phys t (table_of s 1023) 1021) \<and> pte_frame (phys t (table_of s 1023) 1021) = D"

text \<open>
  Before a clone: the kernel's table of the scratch pages is there and the two pages are free, every user page
  has a frame in use whose counter has room, and there are frames for the new tables.
\<close>

definition clone_ready :: "vm \<Rightarrow> bool" where
  "clone_ready s \<longleftrightarrow>
     vm_ok s \<and> pte_present (pde s 1023) \<and> \<not> pte_present (phys s (table_of s 1023) 1021) \<and> \<not> pte_present (phys s (table_of s 1023) 1022) \<and>
     (\<forall>f. 0 < uses s user_pages f \<longrightarrow> 0 < frame_ref s f \<and> frame_ref s f + uses s user_pages f \<le> 65535) \<and>
     card (live s user_tables) < card (free_frames s)"

lemma clone_readyD:
  assumes "clone_ready s"
  shows "vm_ok s" "pte_present (pde s 1023)" "\<not> pte_present (phys s (table_of s 1023) 1021)" "\<not> pte_present (phys s (table_of s 1023) 1022)"
    "0 < uses s user_pages f \<Longrightarrow> f < PHY_FRAMES \<and> 0 < frame_ref s f \<and> frame_ref s f + uses s user_pages f \<le> 65535"
    "card (live s user_tables) < card (free_frames s)"
    "frame_ref s (table_of s 1023) \<noteq> 0" "table_of s 1023 \<noteq> cr3 s"
    "\<lbrakk>i \<in> live s user_tables\<rbrakk> \<Longrightarrow> frame_ref s (table_of s i) \<noteq> 0 \<and> table_of s i \<noteq> cr3 s \<and> table_of s i \<noteq> table_of s 1023"
proof -
  show r: "vm_ok s" "pte_present (pde s 1023)" "\<not> pte_present (phys s (table_of s 1023) 1021)" "\<not> pte_present (phys s (table_of s 1023) 1022)"
    "card (live s user_tables) < card (free_frames s)"
    using assms by (simp_all add: clone_ready_def)
  show "0 < uses s user_pages f \<Longrightarrow> f < PHY_FRAMES \<and> 0 < frame_ref s f \<and> frame_ref s f + uses s user_pages f \<le> 65535"
    using assms by (auto simp: clone_ready_def frame_ref_def split: if_splits)
  show "frame_ref s (table_of s 1023) \<noteq> 0" "table_of s 1023 \<noteq> cr3 s" using vm_okD(4,7) [OF r(1), of 1023] r(2) by simp_all
  assume "i \<in> live s user_tables"
  then show "frame_ref s (table_of s i) \<noteq> 0 \<and> table_of s i \<noteq> cr3 s \<and> table_of s i \<noteq> table_of s 1023"
    using vm_okD(4,7) [OF r(1), of i] vm_okD(5) [OF r(1), of i 1023] r(2) by simp
qed

lemma uses_table:
  assumes "i \<in> live s user_tables"
  shows "uses s {k. k div 1024 = i} f = entry_uses (phys s (table_of s i)) 1024 f"
proof -
  have "{k\<in>{k. k div 1024 = i}. maps s k f} =
      (\<lambda>j. i * 1024 + j) ` {j. j < 1024 \<and> pte_present (phys s (table_of s i) j) \<and> pte_frame (phys s (table_of s i) j) = f}" (is "?A = _ ` ?B")
  proof (rule set_eqI)
    fix k
    show "k \<in> ?A \<longleftrightarrow> k \<in> (\<lambda>j. i * 1024 + j) ` ?B"
    proof
      assume "k \<in> ?A"
      then have "k = i * 1024 + k mod 1024" "k mod 1024 \<in> ?B" using div_mult_mod_eq [of k 1024] by (auto simp: maps_def)
      then show "k \<in> (\<lambda>j. i * 1024 + j) ` ?B" by blast
    next
      assume "k \<in> (\<lambda>j. i * 1024 + j) ` ?B"
      then obtain j where "k = i * 1024 + j" "j \<in> ?B" by blast
      then show "k \<in> ?A" using assms by (simp add: maps_def)
    qed
  qed
  moreover have "inj_on (\<lambda>j. i * 1024 + j) ?B" by (simp add: inj_on_def)
  ultimately show ?thesis by (simp add: uses_def entry_uses_def card_image)
qed

lemma uses_dead:
  assumes "\<not> pte_present (pde s i)"
  shows "uses s {k. k div 1024 = i} f = 0"
proof -
  have "{k\<in>{k. k div 1024 = i}. maps s k f} = {}" using assms by (auto simp: maps_def)
  then show ?thesis by (simp only: uses_def card.empty)
qed

lemma uses_tables_insert:
  assumes "finite I" "i \<notin> I"
  shows "uses s {k. k div 1024 \<in> insert i I} f = uses s {k. k div 1024 \<in> I} f + uses s {k. k div 1024 = i} f"
proof -
  have fin: "finite {k. k div 1024 \<in> I}" if "finite I" for I :: "nat set"
  proof (rule finite_subset)
    show "{k. k div 1024 \<in> I} \<subseteq> (\<Union>i\<in>I. {i * 1024..<i * 1024 + 1024})"
    proof
      fix k assume "k \<in> {k. k div 1024 \<in> I}"
      moreover have "k div 1024 * 1024 \<le> k" "k < k div 1024 * 1024 + 1024"
        using div_mult_mod_eq [of k 1024] mod_less_divisor [of 1024 k] by linarith+
      ultimately show "k \<in> (\<Union>i\<in>I. {i * 1024..<i * 1024 + 1024})" by (intro UN_I [of "k div 1024"]) auto
    qed
  qed (use that in auto)
  have "{k\<in>{k. k div 1024 \<in> insert i I}. maps s k f} = {k\<in>{k. k div 1024 \<in> I}. maps s k f} \<union> {k\<in>{k. k div 1024 = i}. maps s k f}" by auto
  moreover have "finite {k\<in>{k. k div 1024 \<in> I}. maps s k f}" using fin [OF assms(1)] by simp
  moreover have "finite {k\<in>{k. k div 1024 = i}. maps s k f}" using fin [of "{i}"] by simp
  moreover have "{k\<in>{k. k div 1024 \<in> I}. maps s k f} \<inter> {k\<in>{k. k div 1024 = i}. maps s k f} = {}" using assms(2) by auto
  ultimately show ?thesis unfolding uses_def by (simp only: card_Un_disjoint)
qed

lemma user_pages_div: "{k. k div 1024 \<in> user_tables} = user_pages"
proof (rule set_eqI)
  fix k :: nat
  show "k \<in> {k. k div 1024 \<in> user_tables} \<longleftrightarrow> k \<in> user_pages"
    using div_mult_mod_eq [of k 1024] mod_less_divisor [of 1024 k] by (auto simp: less_eq_div_iff_mult_less_eq div_less_iff_less_mult)
qed

lemma cloning_base:
  assumes r: "clone_ready s" and I: "I \<subseteq> user_tables" and c: "cloning D M I s t"
  shows "phys t (cr3 t) = phys s (cr3 s)" "rec_ok t" "vm_ok t" "D \<noteq> cr3 s" "D \<noteq> 0" "D \<noteq> table_of s 1023"
    "\<lbrakk>i < 1024; pte_present (pde s i)\<rbrakk> \<Longrightarrow> table_of s i \<noteq> D"
proof -
  note d = clone_readyD [OF r]
  have D0: "frame_ref s D = 0" using c by (simp add: cloning_def)
  have l1023: "(1023 :: nat) < 1024" by simp
  note fr = fresh_frame [OF d(1) D0]
  show "D \<noteq> cr3 s" "D \<noteq> 0" by (rule fr(1), rule fr(2))
  show "\<lbrakk>i < 1024; pte_present (pde s i)\<rbrakk> \<Longrightarrow> table_of s i \<noteq> D" by (rule fr(3))
  show "D \<noteq> table_of s 1023" using fresh_frame(3) [OF d(1) D0, of 1023] d(2) by (metis (no_types) l1023)
  have "cr3 s \<notin> table_of s ` live s I"
  proof
    assume "cr3 s \<in> table_of s ` live s I"
    then obtain i where "i \<in> I" "pte_present (pde s i)" "cr3 s = table_of s i" by auto
    moreover from this have "i \<in> live s user_tables" using I by auto
    ultimately show False using d(9) by metis
  qed
  moreover have cr: "cr3 t = cr3 s" using c by (simp add: cloning_def)
  ultimately show pd: "phys t (cr3 t) = phys s (cr3 s)" using c d(8) vm_okD(6) [OF d(1)] by (simp add: cloning_def)
  show "rec_ok t" using vm_okD(1) [OF d(1)] pd cr by (simp add: rec_ok_def)
  show "vm_ok t"
  proof (rule vm_ok_frame [OF d(1) cr])
    show "phys t (cr3 s) = phys s (cr3 s)" using pd cr by simp
    show "frames_ok t" using c by (simp add: cloning_def)
    show "frame_ref t f \<noteq> 0" if "frame_ref s f \<noteq> 0" for f using c that by (simp add: cloning_def)
  qed
qed

lemma clone_table_eq:
  assumes r: "clone_ready s" and I: "I \<subseteq> user_tables" and c: "cloning D M I s t" and o: "dir_open D s t"
    and i: "i \<in> live s user_tables" "i \<notin> I" and U: "U = table_of s 1023" and T: "T = table_of s i"
    and g: "new_frame ''couldn't alloc frame for copied page dir'' t = Inr (g, t1)" "g < PHY_FRAMES" "frame_ref t g = 0"
      "frame_ref t1 = (frame_ref t)(g := 1)" "frames_ok t1" "phys t1 = phys t" "cr3 t1 = cr3 t"
    and room: "\<And>f. 0 < entry_uses (phys s T) 1024 f \<Longrightarrow> f < PHY_FRAMES \<and> f \<noteq> g \<and> frame_ref t f + entry_uses (phys s T) 1024 f \<le> 65535"
  shows "\<exists>t'. clone_table i t = Inr t' \<and> cr3 t' = cr3 s \<and> frames_ok t' \<and>
    phys t' = (phys t)(g := share_upto 1024 (page_copy (phys s T) (phys t g)), T := share_upto 1024 (phys s T),
      D := (phys t D)(i := set_entry 0 True g), U := (phys t U)(1022 := 0)) \<and>
    (\<forall>f. frame_ref t' f = (if f = g then 1 else frame_ref t f + entry_uses (phys s T) 1024 f))"
proof -
  note d = clone_readyD [OF r] and b = cloning_base [OF r I c]
  have cr: "cr3 t = cr3 s" using c by (simp add: cloning_def)
  have i1: "i < 1024" "i \<noteq> 769" "i \<noteq> 1023" "i \<noteq> 0" "i < 768" "pte_present (pde s i)" using i(1) by auto
  note fg = fresh_frame [OF b(3) g(3)]
  have pd: "pde t j = pde s j" for j using b(1) by simp
  have Tt: "phys t T = phys s T"
  proof -
    have "T \<notin> table_of s ` live s I"
    proof
      assume "T \<in> table_of s ` live s I"
      then obtain j where "j \<in> I" "pte_present (pde s j)" "T = table_of s j" by auto
      then have "j < 1024" "i \<noteq> j" "table_of s i = table_of s j" "pte_present (pde s j)" using i(2) I T by auto
      then show False using vm_okD(5) [OF d(1) i1(1) _ _ i1(6)] by blast
    qed
    then show ?thesis using c d(9) [OF i(1)] U T by (simp add: cloning_def)
  qed
  have gn: "g \<noteq> cr3 s" "0 < g" "g \<noteq> U" "g \<noteq> T" "g \<noteq> D" "g < 1048576"
  proof -
    show "g \<noteq> cr3 s" "0 < g" using fg(1,2) cr by auto
    show "g \<noteq> U" "g \<noteq> T" using fresh_frame(3) [OF b(3) g(3), of 1023] fresh_frame(3) [OF b(3) g(3), of i] d(2) i1 U T pd by auto
    have "frame_ref t D = 1" using c by (simp add: cloning_def)
    then show "g \<noteq> D" using g(3) by auto
    show "g < 1048576" using g(2) by (simp add: PHY_FRAMES_def)
  qed
  have TU: "T \<noteq> cr3 s" "T \<noteq> U" "U \<noteq> cr3 s" "D \<noteq> T" "D \<noteq> U" "D \<noteq> cr3 s"
    using d(9) [OF i(1)] d(8) b(4,6) b(7) [of i] i1 U T by auto
  have rec1: "rec_ok t1" using b(2) g(6,7) by (simp add: rec_ok_def)
  let ?C = COPIED_PAGE_TABLE_VADDR and ?src = "pte_addr (i * 1024)"
  have rd0: "vread t (pde_addr i) = Inr (pde s i)" using window_pde(1) [OF b(2) i1(1)] pd by simp
  have u0: "\<not> pte_present (phys t U 1022)" using c U by (simp add: cloning_def)
  have srcw: "walk t1 ?src = Some T"
    using rec1 i1 T pd g(6,7) by (simp add: walk_def table_window rec_ok_def)
  have src0: "PAGE_TABLES_VIRTUAL + of_nat i * PAGE_SIZE = ?src" by (rule table_window(1) [OF i1(1)])
  have rt: "table_of t1 769 = cr3 s" using rec1 cr g(7) by (simp add: rec_ok_def)
  let ?E = "set_entry (phys t U 1022) False g"
  let ?t2 = "set_phys U 1022 ?E t1"
  let ?t3 = "put_frame g (page_copy (phys s T) (phys t g)) ?t2"
  have Ceq: "table_of t1 (dir_index ?C) = U" "table_index ?C = 1022" "pte_present (pde t1 (dir_index ?C))" "\<not> ?C < 0xC0000000"
    using pd g(6,7) U d(2) by (simp_all add: copied_page_index) (simp add: COPIED_PAGE_TABLE_VADDR_def)
  have mc: "map_page_with_frame_impl ?C (int g) t1 = Inr ?t2" "copy_words ?C ?src 0 1024 ?t2 = Inr ?t3"
    using map_and_copy [OF rec1 copied_page_index(4) Ceq(3,4) Ceq(1,2) [symmetric] _ _ _ gn(2,6) _ _ table_window(2) [OF i1(1)] srcw]
      TU gn u0 table_window(3) [OF i1(1)] rt cr g(6,7) Tt by simp_all
  have pd3: "pde ?t3 j = pde s j" for j using pd g(6,7) TU gn cr by simp
  have rec3: "rec_ok ?t3" using vm_okD(1) [OF d(1)] pd3 g(7) cr by (simp add: rec_ok_def)
  have E: "pte_present ?E" "pte_frame ?E = g" using gn(6) by (simp_all add: set_entry_fields)
  have wC3: "walk ?t3 ?C = Some g" using pd3 [of 1023] E d(2) U gn(3) by (simp add: walk_def copied_page_index)
  have c3: "phys ?t3 g j = phys ?t3 T j" if "j < 1024" for j using that Tt TU gn g(6) by (simp add: page_copy_def)
  have fok3: "frames_ok ?t3" using g(5) by (simp add: frames_ok_def)
  have T3: "phys ?t3 T = phys s T" using TU gn Tt g(6) by simp
  have ref3: "frame_ref ?t3 = (frame_ref t)(g := 1)"
  proof -
    have "frame_ref ?t3 = frame_ref t1" by (simp add: frame_ref_def fun_eq_iff)
    then show ?thesis using g(4) by simp
  qed
  have room3: "f < PHY_FRAMES \<and> frame_ref ?t3 f + entry_uses (phys ?t3 T) 1024 f \<le> 65535" if "0 < entry_uses (phys ?t3 T) 1024 f" for f
    using room [of f] that unfolding T3 ref3 by auto
  have "\<exists>t4. kfold (share_entry i) [0..<1024] ?t3 = Inr t4 \<and> cr3 t4 = cr3 ?t3 \<and> frames_ok t4 \<and>
    phys t4 = (phys ?t3)(T := share_upto 1024 (phys ?t3 T), g := share_upto 1024 (phys ?t3 g)) \<and>
    (\<forall>f. frame_ref t4 f = frame_ref ?t3 f + entry_uses (phys ?t3 T) 1024 f)"
  proof (rule share_entries [OF rec3 i1(1) _ _ wC3 _ _ _ _ _ _ _ c3 fok3 room3 order_refl])
    show "pte_present (pde ?t3 i)" "T = table_of ?t3 i" "U = table_of ?t3 1023" using pd3 i1(6) T U by simp_all
  qed (use TU gn g(7) cr in simp_all)
  then obtain t4 where t4: "kfold (share_entry i) [0..<1024] ?t3 = Inr t4" "cr3 t4 = cr3 s" "frames_ok t4"
    "phys t4 = (phys ?t3)(T := share_upto 1024 (phys s T), g := share_upto 1024 (page_copy (phys s T) (phys t g)))"
    "\<And>f. frame_ref t4 f = frame_ref ?t3 f + entry_uses (phys s T) 1024 f" using T3 g(7) cr by auto
  have pd4: "pde t4 j = pde s j" for j using pd3 [of j] t4(2,4) TU gn g(7) cr by simp
  have wD: "walk t4 COPIED_PAGE_DIR_VADDR = Some D"
    using pd4 [of 1023] d(2) o U t4(4) TU gn g(6) by (simp add: walk_def copied_page_index dir_open_def)
  have D4: "phys t4 D = phys t D" using t4(4) TU gn g(6) by simp
  have "phys t4 D i = 0" using D4 c i i1 by (auto simp: cloning_def new_pde_def)
  then have rw: "vread t4 (COPIED_PAGE_DIR_VADDR + of_nat (4 * i)) = Inr 0"
    "vwrite (COPIED_PAGE_DIR_VADDR + of_nat (4 * i)) (set_entry 0 True g) t4 = Inr (set_phys D i (set_entry 0 True g) t4)"
    using page_access [OF copied_page_index(7) wD i1(1)] by simp_all
  let ?t5 = "set_phys D i (set_entry 0 True g) t4"
  have pd5: "pde ?t5 j = pde s j" for j using pd4 TU t4(2) by simp
  have rec5: "rec_ok ?t5" using vm_okD(1) [OF d(1)] pd5 t4(2) by (simp add: rec_ok_def)
  have "phys ?t5 U 1022 = ?E" using t4(4) TU gn by simp
  then have rel: "release_pages ?C 1 False ?t5 = Inr (set_phys U 1022 0 ?t5)"
    using unmap_page [OF rec5 copied_page_index(4)] d(2) U E(1) by (simp only: copied_page_index pd5)
  let ?t6 = "set_phys U 1022 0 ?t5"
  have "clone_table i t = Inr ?t6"
    unfolding clone_table_def src0 using rd0 i1(6) g(1) mc t4(1) rw rel by simp
  moreover have "phys ?t6 = (phys t)(g := share_upto 1024 (page_copy (phys s T) (phys t g)), T := share_upto 1024 (phys s T),
      D := (phys t D)(i := set_entry 0 True g), U := (phys t U)(1022 := 0))"
    using t4(4) TU gn g(6) by (auto simp: fun_eq_iff)
  moreover have "frame_ref ?t6 f = (if f = g then 1 else frame_ref t f + entry_uses (phys s T) 1024 f)" for f
  proof -
    have "entry_uses (phys s T) 1024 g = 0" using room [of g] by auto
    then show ?thesis using t4(5) [of f] ref3 by simp
  qed
  moreover have "frames_ok ?t6" using t4(3) by (simp add: frames_ok_def)
  ultimately show ?thesis using t4(2) by (intro exI [of _ ?t6] conjI allI) (simp_all only: set_phys_simps)
qed

lemma clone_step:
  assumes r: "clone_ready s" and I: "I \<subseteq> user_tables" and c: "cloning D M I s t" and o: "dir_open D s t"
    and i: "i \<in> user_tables" "i \<notin> I"
  shows "\<exists>t' g. clone_table i t = Inr t' \<and> cloning D (M(i := g)) (insert i I) s t' \<and> dir_open D s t'"
proof (cases "pte_present (pde s i)")
  case False
  note b = cloning_base [OF r I c]
  have "vread t (pde_addr i) = Inr (pde s i)" using window_pde(1) [OF b(2), of i] b(1) i(1) by simp
  then have ct: "clone_table i t = Inr t" using False by (simp add: clone_table_def)
  have l: "live s (insert i I) = live s I" using False by auto
  have "finite I" using I finite_subset by blast
  then have us: "uses s {k. k div 1024 \<in> insert i I} f = uses s {k. k div 1024 \<in> I} f" for f
    using uses_tables_insert [OF _ i(2)] uses_dead [OF False] by simp
  have M: "(M(i := M i)) = M" by simp
  have "new_pde D M (insert i I) s = new_pde D M I s" by (rule ext) (simp only: new_pde_def l)
  then have "cloning D (M(i := M i)) (insert i I) s t" using c unfolding cloning_def M l us by simp
  with ct o show ?thesis by blast
next
  case True
  note d = clone_readyD [OF r] and b = cloning_base [OF r I c]
  let ?T = "table_of s i" and ?U = "table_of s 1023"
  have il: "i \<in> live s user_tables" using i True by simp
  have finI: "finite I" using I finite_subset by blast
  have ref: "frame_ref t f = (if f = D \<or> f \<in> M ` live s I then 1 else frame_ref s f + uses s {k. k div 1024 \<in> I} f)" for f
    using c unfolding cloning_def by blast
  have sub: "uses s {k. k div 1024 \<in> J} f \<le> uses s user_pages f" if "J \<subseteq> user_tables" for J f
    by (rule uses_mono) (use that user_pages_div in blast, simp)
  have free: "\<exists>f<PHY_FRAMES. frame_ref t f = 0"
  proof -
    have lv: "live s I \<subset> live s user_tables" using il i(2) I by auto
    have fin: "finite (live s I)" "finite (live s user_tables)" using finI by simp_all
    have "card (insert D (M ` live s I)) \<le> Suc (card (live s I))"
      using card_image_le [OF fin(1), of M] fin(1) by (simp add: card_insert_if)
    also have "\<dots> \<le> card (live s user_tables)" using psubset_card_mono [OF fin(2) lv] by simp
    also have "\<dots> < card (free_frames s)" by (rule d(6))
    finally have "\<not> free_frames s \<subseteq> insert D (M ` live s I)"
      using card_mono [of "insert D (M ` live s I)" "free_frames s"] fin(1) by auto
    then obtain f where f: "f \<in> free_frames s" "f \<noteq> D" "f \<notin> M ` live s I" by blast
    have "uses s user_pages f = 0" using d(5) [of f] f(1) by (auto simp: free_frames_def)
    then have "uses s {k. k div 1024 \<in> I} f = 0" using sub [OF I, of f] by simp
    then show ?thesis using f ref [of f] by (auto simp: free_frames_def)
  qed
  from free_frame [OF b(3) free, of "''couldn't alloc frame for copied page dir''"] obtain g t1 where
    g: "new_frame ''couldn't alloc frame for copied page dir'' t = Inr (g, t1)" "g < PHY_FRAMES" "frame_ref t g = 0"
      "frame_ref t1 = (frame_ref t)(g := 1)" "frames_ok t1" "phys t1 = phys t" "cr3 t1 = cr3 t" by blast
  have g0: "frame_ref s g = 0" "g \<noteq> D" "g \<notin> M ` live s I" using g(3) ref [of g] by (auto split: if_splits)
  have eu: "entry_uses (phys s ?T) 1024 f = uses s {k. k div 1024 = i} f" for f using uses_table [OF il] by simp
  have us: "uses s {k. k div 1024 \<in> insert i I} f = uses s {k. k div 1024 \<in> I} f + entry_uses (phys s ?T) 1024 f" for f
    using uses_tables_insert [OF finI i(2)] eu by simp
  have "insert i I \<subseteq> user_tables" using i I by auto
  note sub' = sub [OF this, unfolded us]
  have room: "f < PHY_FRAMES \<and> f \<noteq> g \<and> frame_ref t f + entry_uses (phys s ?T) 1024 f \<le> 65535" if "0 < entry_uses (phys s ?T) 1024 f" for f
  proof -
    have "0 < uses s user_pages f" using sub' [of f] that by simp
    from d(5) [OF this] have f: "f < PHY_FRAMES" "0 < frame_ref s f" "frame_ref s f + uses s user_pages f \<le> 65535" by auto
    have "f \<noteq> D" "f \<notin> M ` live s I" using f(2) c by (auto simp: cloning_def)
    then have "frame_ref t f = frame_ref s f + uses s {k. k div 1024 \<in> I} f" using ref by simp
    then show ?thesis using f sub' [of f] g0(1) by auto
  qed
  from clone_table_eq [OF r I c o il i(2) refl refl g room] obtain t' where
    t': "clone_table i t = Inr t'" "cr3 t' = cr3 s" "frames_ok t'"
      "phys t' = (phys t)(g := share_upto 1024 (page_copy (phys s ?T) (phys t g)), ?T := share_upto 1024 (phys s ?T),
        D := (phys t D)(i := set_entry 0 True g), ?U := (phys t ?U)(1022 := 0))"
      "\<And>f. frame_ref t' f = (if f = g then 1 else frame_ref t f + entry_uses (phys s ?T) 1024 f)" by blast
  let ?M = "M(i := g)" and ?J = "insert i I"
  have lJ: "live s ?J = insert i (live s I)" using True by auto
  have MJ: "?M j = M j" if "j \<in> live s I" for j using that i(2) by auto
  have Mi: "?M ` live s ?J = insert g (M ` live s I)"
  proof -
    have "?M ` live s I = M ` live s I" using MJ by (rule image_cong [OF refl])
    then show ?thesis unfolding lJ by (simp only: image_insert fun_upd_same)
  qed
  have dist: "D \<noteq> ?T" "D \<noteq> ?U" "?T \<noteq> ?U" "g \<noteq> ?T" "g \<noteq> ?U"
    using b(6) b(7) [of i] d(7) d(9) [OF il] g0(1) i(1) True by auto
  have dM: "M j \<noteq> g" "M j \<noteq> D" "M j \<noteq> ?T" "M j \<noteq> ?U" if "j \<in> live s I" for j
  proof -
    have "frame_ref s (M j) = 0" "M j \<noteq> D" using c that by (auto simp: cloning_def)
    then show "M j \<noteq> D" "M j \<noteq> ?T" "M j \<noteq> ?U" using d(7) d(9) [OF il] by auto
    show "M j \<noteq> g" using g0(3) that by auto
  qed
  have dT: "table_of s j \<noteq> g" "table_of s j \<noteq> D" "table_of s j \<noteq> ?T" "table_of s j \<noteq> ?U" if "j \<in> live s I" for j
  proof -
    have j: "j \<in> live s user_tables" "j < 1024" "j \<noteq> i" "i < 1024" "pte_present (pde s j)" using that I i by auto
    show "table_of s j \<noteq> g" "table_of s j \<noteq> ?U" using d(9) [OF j(1)] g0(1) by auto
    show "table_of s j \<noteq> D" by (rule b(7) [OF j(2,5)])
    show "table_of s j \<noteq> ?T" by (rule vm_okD(5) [OF d(1) j(2,4,3,5) True])
  qed
  have sh: "share_upto 1024 x j = shared_pte (x j)" if "j < 1024" for x j using that by (simp add: share_upto_def)
  have "cloning D ?M ?J s t'"
    unfolding cloning_def
  proof (intro conjI)
    show "cr3 t' = cr3 s" "frames_ok t'" by (rule t')+
    show "D < PHY_FRAMES" "frame_ref s D = 0" using c by (simp_all add: cloning_def)
    show "\<forall>j\<in>live s ?J. ?M j < PHY_FRAMES \<and> frame_ref s (?M j) = 0 \<and> ?M j \<noteq> D"
      unfolding lJ using c g(2) g0 by (auto simp: cloning_def)
    have "inj_on M (live s I)" using c unfolding cloning_def by blast
    then show "inj_on ?M (live s ?J)" unfolding lJ using g0(3) i(2) by (auto simp: inj_on_def)
    show "\<forall>f. frame_ref t' f = (if f = D \<or> f \<in> ?M ` live s ?J then 1 else frame_ref s f + uses s {k. k div 1024 \<in> ?J} f)"
    proof
      fix f
      have "entry_uses (phys s ?T) 1024 f = 0" if "f = D \<or> f \<in> M ` live s I"
      proof (rule ccontr)
        assume "entry_uses (phys s ?T) 1024 f \<noteq> 0"
        then have "0 < uses s user_pages f" using sub' [of f] by simp
        then have "frame_ref s f \<noteq> 0" using d(5) by auto
        then show False using that c by (auto simp: cloning_def)
      qed
      then show "frame_ref t' f = (if f = D \<or> f \<in> ?M ` live s ?J then 1 else frame_ref s f + uses s {k. k div 1024 \<in> ?J} f)"
        unfolding t'(5) ref Mi us using g0 by auto
    qed
    show "\<forall>j<1024. phys t' D j = new_pde D ?M ?J s j"
    proof (intro allI impI)
      fix j :: nat assume j: "j < 1024"
      have "phys t' D j = (if j = i then set_entry 0 True g else phys t D j)" using t'(4) dist g0(2) by simp
      moreover have "phys t D j = new_pde D M I s j" using c j unfolding cloning_def by blast
      ultimately show "phys t' D j = new_pde D ?M ?J s j" unfolding new_pde_def lJ using i(1) by auto
    qed
    show "\<forall>j\<in>live s ?J. \<forall>n<1024. phys t' (?M j) n = shared_pte (phys s (table_of s j) n)"
    proof (intro ballI allI impI)
      fix j n :: nat assume j: "j \<in> live s ?J" and n: "n < 1024"
      show "phys t' (?M j) n = shared_pte (phys s (table_of s j) n)"
      proof (cases "j = i")
        case True
        then show ?thesis using t'(4) dist g0(2) n sh by (simp add: page_copy_def)
      next
        case False
        then have jI: "j \<in> live s I" using j lJ by auto
        have "phys t (M j) n = shared_pte (phys s (table_of s j) n)" using c jI n unfolding cloning_def by blast
        then show ?thesis using False t'(4) dM [OF jI] by simp
      qed
    qed
    show "\<forall>j\<in>live s ?J. \<forall>n<1024. phys t' (table_of s j) n = shared_pte (phys s (table_of s j) n)"
    proof (intro ballI allI impI)
      fix j n :: nat assume j: "j \<in> live s ?J" and n: "n < 1024"
      show "phys t' (table_of s j) n = shared_pte (phys s (table_of s j) n)"
      proof (cases "j = i")
        case True
        then show ?thesis using t'(4) dist n sh by simp
      next
        case False
        then have jI: "j \<in> live s I" using j lJ by auto
        have "phys t (table_of s j) n = shared_pte (phys s (table_of s j) n)" using c jI n unfolding cloning_def by blast
        then show ?thesis using t'(4) dT [OF jI] by simp
      qed
    qed
    show "\<forall>f. frame_ref s f \<noteq> 0 \<longrightarrow> f \<noteq> ?U \<longrightarrow> f \<notin> table_of s ` live s ?J \<longrightarrow> phys t' f = phys s f"
    proof (intro allI impI)
      fix f assume f: "frame_ref s f \<noteq> 0" "f \<noteq> ?U" "f \<notin> table_of s ` live s ?J"
      have "phys t f = phys s f" using c f lJ unfolding cloning_def by blast
      moreover have "f \<noteq> g" "f \<noteq> D" "f \<noteq> ?T" using f g0(1) c lJ by (auto simp: cloning_def)
      ultimately show "phys t' f = phys s f" using t'(4) f(2) by simp
    qed
    show "\<forall>j. j \<noteq> 1021 \<longrightarrow> j \<noteq> 1022 \<longrightarrow> phys t' ?U j = phys s ?U j" using c t'(4) by (simp add: cloning_def)
    show "\<not> pte_present (phys t' ?U 1022)" using t'(4) by (simp add: pte_present_def)
  qed
  moreover have "dir_open D s t'" using o t'(4) by (simp add: dir_open_def)
  ultimately show ?thesis using t'(1) by blast
qed

section \<open>The whole clone\<close>

lemma kfold_append: "kfold f (xs @ ys) s = kbind (kfold f xs s) (kfold f ys)"
  by (induction xs arbitrary: s) (auto simp: kfold_Nil kbind_def split: sum.splits)

lemma copy_dir_entries:
  assumes rec: "rec_ok t" and w: "walk t COPIED_PAGE_DIR_VADDR = Some D" and D: "D \<noteq> cr3 t" "D \<noteq> table_of t 1023" "phys t D 769 = 0"
  shows "m \<le> 256 \<Longrightarrow> kfold (copy_dir_entry D) [768..<768 + m] t =
    Inr (put_frame D (\<lambda>j. if 768 \<le> j \<and> j < 768 + m then (if j = 769 then set_entry 0 False D else pde t j) else phys t D j) t)"
proof (induction m)
  case 0
  have "(\<lambda>j. if 768 \<le> j \<and> j < 768 + 0 then X j else phys t D j) = phys t D" for X by (rule ext) auto
  then show ?case by (simp add: put_frame_def)
next
  case (Suc m)
  let ?c = "\<lambda>m j. if 768 \<le> j \<and> j < 768 + m then (if j = 769 then set_entry 0 False D else pde t j) else phys t D j"
  let ?i = "768 + m" and ?u = "put_frame D (?c m) t"
  have i: "?i < 1024" using Suc.prems by simp
  have IH: "kfold (copy_dir_entry D) [768..<?i] t = Inr ?u" using Suc by simp
  have pd: "pde ?u j = pde t j" for j using D(1) by simp
  have recu: "rec_ok ?u" using rec pd by (simp add: rec_ok_def)
  have wu: "walk ?u COPIED_PAGE_DIR_VADDR = Some D"
    using w walk_phys [of ?u COPIED_PAGE_DIR_VADDR t] pd D(2) by (simp add: copied_page_index)
  have "copy_dir_entry D i ?u = Inr (set_phys D i (if i = 769 then set_entry 0 False D else pde t i) ?u)" if e: "i = ?i" for i
  proof -
    have i': "i < 1024" using i e by simp
    note pa = page_access [OF copied_page_index(7) wu i']
    have "phys ?u D i = phys t D i" using e by simp
    then have "i = 769 \<Longrightarrow> phys ?u D i = 0" using D(3) by simp
    then show ?thesis unfolding copy_dir_entry_def pa window_pde(1) [OF recu i'] pd by (cases "i = 769") (simp_all only: if_True if_False kbind_simps simp_thms)
  qed
  then have "copy_dir_entry D ?i ?u = Inr (set_phys D ?i (if ?i = 769 then set_entry 0 False D else pde t ?i) ?u)" by blast
  moreover have "set_phys D ?i (if ?i = 769 then set_entry 0 False D else pde t ?i) ?u = put_frame D (?c (Suc m)) t"
    by (auto simp: set_phys_put fun_eq_iff less_Suc_eq intro!: arg_cong [where f = "\<lambda>c. put_frame D c t"])
  moreover have "[768..<768 + Suc m] = [768..<?i] @ [?i]" using upt_Suc_append [of 768 ?i] by (simp only: add_Suc_right le_add1)
  ultimately show ?case using IH by (simp only: kfold_append kfold.simps kfold_Nil kbind_Inr_right kbind_simps)
qed

lemma clone_start:
  assumes r: "clone_ready s"
  shows "\<exists>D t. clone_crt_page_dir s = kbind (kfold clone_table [1..<768] t) (\<lambda>s.
      kbind (release_pages COPIED_PAGE_DIR_VADDR 1 False s) (\<lambda>s. Inr (D, s))) \<and> cloning D M {} s t \<and> dir_open D s t"
proof -
  note d = clone_readyD [OF r]
  let ?U = "table_of s 1023" and ?C = COPIED_PAGE_DIR_VADDR
  have "free_frames s \<noteq> {}" using d(6) by auto
  then have "\<exists>f<PHY_FRAMES. frame_ref s f = 0" by (auto simp: free_frames_def)
  from free_frame [OF d(1) this, of "''couldn't alloc frame for copied page dir''"] obtain D s1 where
    D: "new_frame ''couldn't alloc frame for copied page dir'' s = Inr (D, s1)" "D < PHY_FRAMES" "frame_ref s D = 0"
      "frame_ref s1 = (frame_ref s)(D := 1)" "frames_ok s1" "phys s1 = phys s" "cr3 s1 = cr3 s" by blast
  note fr = fresh_frame [OF d(1) D(3)]
  have Dn: "D \<noteq> cr3 s" "0 < D" "D \<noteq> ?U" "D < 1048576" using fr(1,2) d(7) D(2,3) by (auto simp: PHY_FRAMES_def)
  have rec1: "rec_ok s1" using vm_okD(1) [OF d(1)] D(6,7) by (simp add: rec_ok_def)
  let ?E = "set_entry (phys s ?U 1021) False D"
  let ?s2 = "set_phys ?U 1021 ?E s1"
  have neg: "\<not> ?C < 0xC0000000" by (simp add: COPIED_PAGE_DIR_VADDR_def)
  have m: "map_page_with_frame ?C (int D) s1 = Inr ?s2"
    unfolding map_page_with_frame_def using map_frame [OF rec1, of ?C D] d(2,3) D(6,7) Dn(2) neg by (simp add: copied_page_index)
  have E: "pte_present ?E" "pte_frame ?E = D" using Dn(4) by (simp_all add: set_entry_fields)
  have pd2: "pde ?s2 j = pde s j" for j using D(6,7) d(8) by simp
  have w2: "walk ?s2 ?C = Some D" using pd2 [of 1023] d(2) E by (simp add: walk_def copied_page_index)
  let ?s3 = "put_frame D (zero_page (phys s D)) ?s2"
  have c3: "clear_page ?C ?s2 = Inr ?s3"
    using clear_page_eq [OF w2] Dn pd2 [of 1023] D(6,7) by (simp add: copied_page_index)
  have pd3: "pde ?s3 j = pde s j" for j using pd2 Dn D(7) by simp
  have rec3: "rec_ok ?s3" using vm_okD(1) [OF d(1)] pd3 D(7) by (simp add: rec_ok_def)
  have w3: "walk ?s3 ?C = Some D" using pd3 [of 1023] d(2) E Dn(3) by (simp add: walk_def copied_page_index)
  have rd: "vread ?s3 (pde_addr 0) = Inr (pde s 0)" using window_pde(1) [OF rec3, of 0] pd3 by simp
  let ?t = "put_frame D ((zero_page (phys s D))(0 := pde s 0)) ?s2"
  have wr: "vwrite ?C (pde s 0) ?s3 = Inr ?t" using page_access(2) [OF copied_page_index(7) w3, of 0 "pde s 0"] by simp
  have pd4: "pde ?t j = pde s j" for j using pd2 Dn D(7) by simp
  have rec4: "rec_ok ?t" using vm_okD(1) [OF d(1)] pd4 D(7) by (simp add: rec_ok_def)
  have w4: "walk ?t ?C = Some D" using pd4 [of 1023] d(2) E Dn(3) by (simp add: walk_def copied_page_index)
  let ?c = "\<lambda>j. if 768 \<le> j \<and> j < 1024 then (if j = 769 then set_entry 0 False D else pde s j) else ((zero_page (phys s D))(0 := pde s 0)) j"
  let ?t5 = "put_frame D ?c ?s2"
  have "kfold (copy_dir_entry D) [768..<768 + 256] ?t =
    Inr (put_frame D (\<lambda>j. if 768 \<le> j \<and> j < 768 + 256 then (if j = 769 then set_entry 0 False D else pde ?t j) else phys ?t D j) ?t)"
    by (rule copy_dir_entries [OF rec4 w4]) (use Dn D(7) pd4 [of 1023] in \<open>simp_all add: zero_page_def\<close>)
  have k: "kfold (copy_dir_entry D) [768..<1024] ?t = Inr ?t5"
  proof -
    have "phys ?t D = (zero_page (phys s D))(0 := pde s 0)" "put_frame D x ?t = put_frame D x ?s2" for x by simp_all
    then show ?thesis using \<open>kfold (copy_dir_entry D) [768..<768 + 256] ?t = _\<close> unfolding pd4 by (simp only: numeral_plus_numeral semiring_norm)
  qed
  have "clone_crt_page_dir s = kbind (kfold clone_table [1..<768] ?t5) (\<lambda>s. kbind (release_pages ?C 1 False s) (\<lambda>s. Inr (D, s)))"
    unfolding clone_crt_page_dir_def using D(1) m c3 rd wr k by (simp del: upt_rec_numeral)
  moreover have "cloning D M {} s ?t5"
  proof -
    have "frame_ref ?t5 = frame_ref s1" by (simp add: frame_ref_def fun_eq_iff)
    moreover have "uses s {} f = 0" for f by (simp add: uses_def)
    ultimately have "frame_ref ?t5 f = (if f = D then 1 else frame_ref s f + uses s {} f)" for f using D(4) by simp
    moreover have "frames_ok ?t5" using D(5) by (simp add: frames_ok_def)
    moreover have "phys ?t5 D j = new_pde D M {} s j" if "j < 1024" for j using that by (simp add: new_pde_def zero_page_def)
    moreover have "phys ?t5 f = phys s f" if "frame_ref s f \<noteq> 0" "f \<noteq> ?U" for f using that D(3,6) by auto
    ultimately show ?thesis using D Dn d(4) by (auto simp: cloning_def)
  qed
  moreover have "dir_open D s ?t5" using E Dn(3) by (simp add: dir_open_def)
  ultimately show ?thesis by blast
qed

lemma clone_tables:
  assumes r: "clone_ready s" and c: "cloning D M {} s t" and o: "dir_open D s t"
  shows "m \<le> 767 \<Longrightarrow> \<exists>u M. kfold clone_table [1..<1 + m] t = Inr u \<and> cloning D M {1..<1 + m} s u \<and> dir_open D s u"
proof (induction m)
  case 0
  then show ?case using c o by auto
next
  case (Suc m)
  then obtain u N where u: "kfold clone_table [1..<1 + m] t = Inr u" "cloning D N {1..<1 + m} s u" "dir_open D s u" by auto
  have "{1..<1 + m} \<subseteq> user_tables" "1 + m \<in> user_tables" "1 + m \<notin> {1..<1 + m}" using Suc.prems by auto
  from clone_step [OF r this(1) u(2,3) this(2,3)] obtain u' g where
    u': "clone_table (1 + m) u = Inr u'" "cloning D (N(1 + m := g)) (insert (1 + m) {1..<1 + m}) s u'" "dir_open D s u'" by blast
  have e: "[1..<1 + Suc m] = [1..<1 + m] @ [1 + m]" "insert (1 + m) {1..<1 + m} = {1..<1 + Suc m}" by auto
  show ?case unfolding e(1) kfold_append using u(1) u' unfolding e(2) by (auto simp: kfold_Nil kbind_Inr_right)
qed

text \<open>The new address space, and what is left of the old one.\<close>

lemma clone_result:
  assumes r: "clone_ready s"
  shows "\<exists>D t M. clone_crt_page_dir s = Inr (D, t) \<and> cloning D M user_tables s t \<and> \<not> pte_present (phys t (table_of s 1023) 1021)"
proof -
  note d = clone_readyD [OF r]
  let ?U = "table_of s 1023" and ?C = COPIED_PAGE_DIR_VADDR
  from clone_start [OF r, of "\<lambda>i. i"] obtain D t where
    t: "clone_crt_page_dir s = kbind (kfold clone_table [1..<768] t) (\<lambda>s. kbind (release_pages ?C 1 False s) (\<lambda>s. Inr (D, s)))"
      "cloning D (\<lambda>i. i) {} s t" "dir_open D s t" by blast
  have m: "(1 :: nat) + 767 = 768" by simp
  from clone_tables [OF r t(2,3) order_refl] obtain u M where
    u: "kfold clone_table [1..<768] t = Inr u" "cloning D M user_tables s u" "dir_open D s u" unfolding m by blast
  note b = cloning_base [OF r order_refl u(2)]
  have cr: "cr3 u = cr3 s" using u(2) by (simp add: cloning_def)
  have "pde u 1023 = pde s 1023" using b(1) by simp
  then have rel: "release_pages ?C 1 False u = Inr (set_phys ?U 1021 0 u)"
    using unmap_page [OF b(2) copied_page_index(7)] d(2) u(3) by (simp add: copied_page_index dir_open_def)
  let ?v = "set_phys ?U 1021 0 u"
  have nM: "M i \<noteq> ?U" if "i \<in> live s user_tables" for i using u(2) that d(7) by (auto simp: cloning_def)
  have nT: "table_of s i \<noteq> ?U" if "i \<in> live s user_tables" for i using d(9) [OF that] by simp
  have "cloning D M user_tables s ?v"
    using u(2) b(6) nM nT unfolding cloning_def by (simp add: frames_ok_def)
  moreover have "clone_crt_page_dir s = Inr (D, ?v)" using t(1) u(1) rel by (simp del: upt_rec_numeral)
  moreover have "\<not> pte_present (phys ?v ?U 1021)" by (simp add: pte_present_def)
  ultimately show ?thesis by blast
qed

lemma entry_view:
  assumes "pte_present (pde t (dir_index v)) = pte_present (pde s (dir_index v))"
    and "pte_present (pde s (dir_index v)) \<Longrightarrow> pte_present (entry_of t v) = pte_present (entry_of s v) \<and>
      (pte_present (entry_of s v) \<longrightarrow> pte_frame (entry_of t v) = pte_frame (entry_of s v))"
  shows "walk t v = walk s v"
  using assms by (auto simp: walk_def Let_def)

lemma new_pde_cases:
  "\<lbrakk>n \<notin> user_tables; n \<noteq> 769\<rbrakk> \<Longrightarrow> new_pde D M user_tables s n = pde s n"
  "new_pde D M user_tables s 769 = set_entry 0 False D"
  "n \<in> live s user_tables \<Longrightarrow> new_pde D M user_tables s n = set_entry 0 True (M n)"
  "\<lbrakk>n \<in> user_tables; \<not> pte_present (pde s n)\<rbrakk> \<Longrightarrow> new_pde D M user_tables s n = 0"
  by (auto simp: new_pde_def)

lemma new_pde_present:
  assumes "n \<noteq> 769"
  shows "pte_present (new_pde D M user_tables s n) = pte_present (pde s n)"
proof (cases "n \<in> user_tables")
  case True
  then show ?thesis using new_pde_cases(3,4) [of n s] by (cases "pte_present (pde s n)") (simp_all add: set_entry_fields, simp add: pte_present_def)
next
  case False
  then show ?thesis using new_pde_cases(1) assms by simp
qed

lemma clone_view:
  assumes r: "clone_ready s" and c: "cloning D M user_tables s t" and e: "\<not> pte_present (phys t (table_of s 1023) 1021)"
    and t': "phys t' = phys t" "cr3 t' = cr3 s \<or> cr3 t' = D" and v: "dir_index v \<noteq> 769"
  shows "walk t' v = walk s v" "\<lbrakk>dir_index v \<in> user_tables; walk s v = Some f\<rbrakk> \<Longrightarrow> \<not> pte_rw (entry_of t' v)"
proof -
  note d = clone_readyD [OF r] and b = cloning_base [OF r order_refl c]
  let ?i = "dir_index v" and ?j = "table_index v"
  have i: "?i < 1024" "?j < 1024" by (rule dir_index_less, rule table_index_less)
  have cr: "cr3 t = cr3 s" using c by (simp add: cloning_def)
  have par: "pde t' n = pde s n" if "cr3 t' = cr3 s" for n using that t'(1) b(1) cr by simp
  have D20: "D < 1048576" and M20: "\<And>n. n \<in> live s user_tables \<Longrightarrow> M n < 1048576" using c by (auto simp: cloning_def PHY_FRAMES_def)
  have chi: "pde t' n = new_pde D M user_tables s n" if "cr3 t' = D" "n < 1024" for n using that t'(1) c by (simp add: cloning_def)
  have pres: "pte_present (pde t' ?i) = pte_present (pde s ?i)"
  proof (cases "cr3 t' = cr3 s")
    case True
    then show ?thesis using par by simp
  next
    case False
    then show ?thesis using chi [OF _ i(1)] t'(2) new_pde_present [OF v] by simp
  qed
  have user: "entry_of t' v = shared_pte (entry_of s v)" if l: "?i \<in> live s user_tables"
  proof -
    have tab: "table_of t' ?i = table_of s ?i \<or> table_of t' ?i = M ?i"
    proof (cases "cr3 t' = cr3 s")
      case True
      then show ?thesis using par by simp
    next
      case False
      then have "pde t' ?i = new_pde D M user_tables s ?i" using chi t'(2) i(1) by blast
      also have "\<dots> = set_entry 0 True (M ?i)" by (rule new_pde_cases(3) [OF l])
      finally show ?thesis using set_entry_fields(4) [OF M20 [OF l]] by simp
    qed
    have "phys t (M ?i) ?j = shared_pte (entry_of s v)" "phys t (table_of s ?i) ?j = shared_pte (entry_of s v)"
      using c l i(2) unfolding cloning_def by blast+
    then show ?thesis using tab t'(1) by auto
  qed
  show "walk t' v = walk s v"
  proof (rule entry_view [OF pres])
    assume p: "pte_present (pde s ?i)"
    show "pte_present (entry_of t' v) = pte_present (entry_of s v) \<and> (pte_present (entry_of s v) \<longrightarrow> pte_frame (entry_of t' v) = pte_frame (entry_of s v))"
    proof (cases "?i \<in> user_tables")
      case True
      then show ?thesis using user p by (simp add: shared_pte_fields)
    next
      case False
      have "pde t' ?i = pde s ?i"
      proof (cases "cr3 t' = cr3 s")
        case True
        then show ?thesis by (rule par)
      next
        case n: False
        then show ?thesis using chi [OF _ i(1)] t'(2) new_pde_cases(1) [OF False v] by simp
      qed
      then have tab: "entry_of t' v = phys t (table_of s ?i) ?j" using t'(1) by simp
      show ?thesis
      proof (cases "?i = 1023")
        case True
        then have "phys t (table_of s 1023) ?j = phys s (table_of s 1023) ?j \<or> ?j = 1021 \<or> ?j = 1022"
          using c unfolding cloning_def by blast
        moreover have "\<not> pte_present (phys t (table_of s 1023) 1022)" using c unfolding cloning_def by blast
        ultimately show ?thesis unfolding tab using True d(3,4) e by auto
      next
        case n: False
        have "table_of s ?i \<noteq> table_of s 1023" using vm_okD(5) [OF d(1) i(1), of 1023] n p d(2) by simp
        moreover have "table_of s ?i \<notin> table_of s ` live s user_tables"
        proof
          assume "table_of s ?i \<in> table_of s ` live s user_tables"
          then obtain n where n: "n \<in> user_tables" "pte_present (pde s n)" "table_of s ?i = table_of s n" by blast
          then have "n < 1024" "?i \<noteq> n" using False by auto
          then show False using vm_okD(5) [OF d(1) i(1) _ _ p] n by blast
        qed
        moreover have "frame_ref s (table_of s ?i) \<noteq> 0" by (rule vm_okD(4) [OF d(1) i(1) p])
        ultimately have "phys t (table_of s ?i) = phys s (table_of s ?i)" using c unfolding cloning_def by blast
        then show ?thesis unfolding tab by simp
      qed
    qed
  qed
  assume "?i \<in> user_tables" "walk s v = Some f"
  then have "?i \<in> live s user_tables" "pte_present (entry_of s v)" by (auto simp: walk_entry)
  then show "\<not> pte_rw (entry_of t' v)" using user by (simp add: shared_pte_fields)
qed

lemma child_table:
  assumes c: "cloning D M user_tables s t" and n: "n < 1024" "pte_present (pde (switch_page_dir D t) n)"
  shows "table_of (switch_page_dir D t) n = (if n = 769 then D else if n \<in> user_tables then M n else table_of s n) \<and>
    (n \<noteq> 769 \<longrightarrow> pte_present (pde s n))"
proof -
  let ?c = "switch_page_dir D t"
  have D20: "D < 1048576" and M20: "\<And>n. n \<in> live s user_tables \<Longrightarrow> M n < 1048576" using c by (auto simp: cloning_def PHY_FRAMES_def)
  have pd: "pde ?c n = new_pde D M user_tables s n" if "n < 1024" for n using that c by (simp add: cloning_def switch_page_dir_def)
  show ?thesis
  proof (cases "n = 769")
    case True
    then show ?thesis using pd [OF n(1)] new_pde_cases(2) [of D M s] set_entry_fields(4) [OF D20] by simp
  next
    case False
    then have p: "pte_present (pde s n)" using n pd new_pde_present [OF False, of D M s] by simp
    show ?thesis
    proof (cases "n \<in> user_tables")
      case True
      then have l: "n \<in> live s user_tables" using p by simp
      then show ?thesis using False True p pd [OF n(1)] new_pde_cases(3) [OF l, of D M] set_entry_fields(4) [OF M20 [OF l]] by simp
    next
      case k: False
      then have "pde ?c n = pde s n" using pd [OF n(1)] new_pde_cases(1) [OF k False, of D M s] by simp
      then show ?thesis using False k p by (simp only: if_False simp_thms)
    qed
  qed
qed

lemma clone_child_ok:
  assumes r: "clone_ready s" and c: "cloning D M user_tables s t"
  shows "vm_ok (switch_page_dir D t)"
proof -
  note d = clone_readyD [OF r] and b = cloning_base [OF r order_refl c]
  let ?c = "switch_page_dir D t"
  have D20: "D < 1048576" and M20: "\<And>n. n \<in> live s user_tables \<Longrightarrow> M n < 1048576" using c by (auto simp: cloning_def PHY_FRAMES_def)
  have pd: "pde ?c n = new_pde D M user_tables s n" if "n < 1024" for n using that c by (simp add: cloning_def switch_page_dir_def)
  note tab = child_table [OF c]
  have rec: "rec_ok ?c" using pd [of 769] D20 by (simp add: rec_ok_def new_pde_def set_entry_fields switch_page_dir_def)
  have ref: "frame_ref ?c = frame_ref t" by (simp add: frame_ref_def switch_page_dir_def fun_eq_iff)
  have live: "n \<in> live s user_tables" if "n \<in> user_tables" "n < 1024" "pte_present (pde ?c n)" for n using tab [OF that(2,3)] that(1) by auto
  have old: "frame_ref s (table_of s n) \<noteq> 0" if "n < 1024" "n \<noteq> 769" "pte_present (pde ?c n)" for n
    using vm_okD(4) [OF d(1) that(1)] tab [OF that(1,3)] that(2) by simp
  have fresh: "frame_ref s D = 0" "\<And>n. n \<in> live s user_tables \<Longrightarrow> frame_ref s (M n) = 0 \<and> M n \<noteq> D \<and> frame_ref t (M n) = 1" "frame_ref t D = 1"
    using c by (auto simp: cloning_def)
  have up: "frame_ref t f \<noteq> 0" if "frame_ref s f \<noteq> 0" for f using c that by (simp add: cloning_def)
  have r1: "frame_ref ?c (table_of ?c n) \<noteq> 0" if n: "n < 1024" "pte_present (pde ?c n)" for n
  proof (cases "n = 769")
    case True
    then show ?thesis using tab [OF n] fresh(3) unfolding ref by simp
  next
    case False
    show ?thesis
    proof (cases "n \<in> user_tables")
      case True
      then show ?thesis using tab [OF n] False fresh(2) [OF live [OF True n]] unfolding ref by simp
    next
      case u: False
      then have "table_of ?c n = table_of s n" using tab [OF n] False by (simp only: if_False)
      then show ?thesis using up [OF old [OF n(1) False n(2)]] unfolding ref by simp
    qed
  qed
  have inj: "inj_on M (live s user_tables)" using c unfolding cloning_def by blast
  have r2: "table_of ?c m \<noteq> table_of ?c n" if mn: "m < 1024" "n < 1024" "m \<noteq> n" "pte_present (pde ?c m)" "pte_present (pde ?c n)" for m n
  proof -
    note tm = tab [OF mn(1,4)] and tn = tab [OF mn(2,5)]
    have oo: "table_of s m \<noteq> table_of s n" if "m \<noteq> 769" "n \<noteq> 769" using vm_okD(5) [OF d(1) mn(1-3)] tm tn that by simp
    have MM: "M m \<noteq> M n" if "m \<in> user_tables" "n \<in> user_tables"
      using inj live [OF that(1) mn(1,4)] live [OF that(2) mn(2,5)] mn(3) by (auto simp: inj_on_def)
    have om: "table_of s m \<noteq> M n \<and> table_of s m \<noteq> D" if "m \<noteq> 769" "n \<in> user_tables"
      using old [OF mn(1) that(1) mn(4)] fresh(1) fresh(2) [OF live [OF that(2) mn(2,5)]] by auto
    have on: "table_of s n \<noteq> M m \<and> table_of s n \<noteq> D" if "n \<noteq> 769" "m \<in> user_tables"
      using old [OF mn(2) that(1) mn(5)] fresh(1) fresh(2) [OF live [OF that(2) mn(1,4)]] by auto
    have Dm: "table_of s m \<noteq> D" if "m \<noteq> 769" using old [OF mn(1) that mn(4)] fresh(1) by auto
    have Dn: "table_of s n \<noteq> D" if "n \<noteq> 769" using old [OF mn(2) that mn(5)] fresh(1) by auto
    have Mm: "M m \<noteq> D" if "m \<in> user_tables" using fresh(2) [OF live [OF that mn(1,4)]] by blast
    have Mn: "M n \<noteq> D" if "n \<in> user_tables" using fresh(2) [OF live [OF that mn(2,5)]] by blast
    show ?thesis
    proof (cases "m = 769")
      case m: True
      then have n: "n \<noteq> 769" using mn(3) by simp
      show ?thesis using tm tn m n Mn Dn by (cases "n \<in> user_tables") auto
    next
      case m: False
      show ?thesis
      proof (cases "n = 769")
        case True
        then show ?thesis using tm tn m Mm Dm by (cases "m \<in> user_tables") auto
      next
        case n: False
        show ?thesis using tm tn m n MM om on oo by (cases "m \<in> user_tables"; cases "n \<in> user_tables") auto
      qed
    qed
  qed
  have "frames_ok ?c" using c by (simp add: cloning_def frames_ok_def switch_page_dir_def)
  moreover have "frame_ref ?c 0 \<noteq> 0" unfolding ref by (rule up [OF vm_okD(3) [OF d(1)]])
  ultimately show ?thesis unfolding vm_ok_def using rec r1 r2 by blast
qed

section \<open>What fork relies on\<close>

text \<open>C8: Cloning an address space succeeds when there are frames for the directory and the user page tables. The new directory is a
  valid address space of its own that translates every address outside the window on the page tables exactly as the old one did and
  still does; every user page is now read-only in both, the count of a frame has gone up by the number of user pages that map it, and
  the contents of no page change.\<close>

theorem clone_shares_user_space:
  assumes "clone_ready s"
  shows "\<exists>D t. clone_crt_page_dir s = Inr (D, t) \<and> frame_ref s D = 0 \<and> cr3 t = cr3 s \<and> vm_ok t \<and> vm_ok (switch_page_dir D t) \<and>
    (\<forall>v. dir_index v \<noteq> 769 \<longrightarrow> walk t v = walk s v \<and> walk (switch_page_dir D t) v = walk s v) \<and>
    (\<forall>v f. dir_index v \<in> {1..<768} \<longrightarrow> walk s v = Some f \<longrightarrow>
       \<not> pte_rw (entry_of t v) \<and> \<not> pte_rw (entry_of (switch_page_dir D t) v)) \<and>
    (\<forall>f. frame_ref s f \<noteq> 0 \<longrightarrow> frame_ref t f = frame_ref s f + uses s {1024..<786432} f \<and>
       (\<not> table_frame s f \<longrightarrow> phys t f = phys s f))"
proof -
  from clone_result [OF assms] obtain D t M where
    t: "clone_crt_page_dir s = Inr (D, t)" "cloning D M user_tables s t" "\<not> pte_present (phys t (table_of s 1023) 1021)" by blast
  note d = clone_readyD [OF assms] and b = cloning_base [OF assms order_refl t(2)]
  have cr: "cr3 t = cr3 s" "frame_ref s D = 0" using t(2) by (simp_all add: cloning_def)
  have sw: "phys (switch_page_dir D t) = phys t" "cr3 (switch_page_dir D t) = D" by (simp_all add: switch_page_dir_def)
  note par = clone_view [OF assms t(2,3) refl disjI1 [OF cr(1)]] and chi = clone_view [OF assms t(2,3) sw(1) disjI2 [OF sw(2)]]
  have views: "walk t v = walk s v \<and> walk (switch_page_dir D t) v = walk s v" if "dir_index v \<noteq> 769" for v
    using par(1) [OF that] chi(1) [OF that] by simp
  have ro: "\<not> pte_rw (entry_of t v) \<and> \<not> pte_rw (entry_of (switch_page_dir D t) v)" if "dir_index v \<in> {1..<768}" "walk s v = Some f" for v f
  proof -
    have "dir_index v \<noteq> 769" using that(1) by simp
    then show ?thesis using par(2) [OF _ that] chi(2) [OF _ that] by blast
  qed
  have refs: "frame_ref t f = frame_ref s f + uses s user_pages f" "\<not> table_frame s f \<Longrightarrow> phys t f = phys s f" if f: "frame_ref s f \<noteq> 0" for f
  proof -
    have "f \<noteq> D" "f \<notin> M ` live s user_tables" using f t(2) by (auto simp: cloning_def)
    then show "frame_ref t f = frame_ref s f + uses s user_pages f" using t(2) unfolding cloning_def user_pages_div by simp
    assume nt: "\<not> table_frame s f"
    have "table_frame s (table_of s 1023)" using d(2) unfolding table_frame_def by (intro disjI2 exI [of _ 1023]) simp
    moreover have "table_frame s (table_of s i)" if "i \<in> live s user_tables" for i
      using that unfolding table_frame_def by (intro disjI2 exI [of _ i]) simp
    ultimately have "f \<noteq> table_of s 1023" "f \<notin> table_of s ` live s user_tables" using nt by blast+
    then show "phys t f = phys s f" using f t(2) unfolding cloning_def by blast
  qed
  show ?thesis using t(1) cr b(3) clone_child_ok [OF assms t(2)] views ro refs by (intro exI [of _ D] exI [of _ t]) blast
qed

lemma user_page_used:
  assumes "0x400000 \<le> a" "a < 0xC0000000" "walk s a = Some f"
  shows "0 < uses s user_pages f" "dir_index a \<in> live s user_tables"
proof -
  note e = assms(3) [unfolded walk_entry]
  have i: "dir_index a \<in> user_tables" by (rule user_dir_index [OF assms(1,2)])
  then show "dir_index a \<in> live s user_tables" using e by simp
  have "unat a div 4096 \<in> user_pages" using i unfolding user_pages_div [symmetric] by (simp only: mem_Collect_eq page_number)
  moreover have "maps s (unat a div 4096) f" using e by (simp add: maps_def page_number)
  ultimately have "unat a div 4096 \<in> {k\<in>user_pages. maps s k f}" by blast
  then show "0 < uses s user_pages f" unfolding uses_def by (subst card_gt_0_iff) auto
qed

text \<open>What the copy means for the reference counts, for the frames of the child's tables and for its scratch page.\<close>

lemma cloning_fresh:
  assumes "cloning D M user_tables s t"
  shows "frame_ref s D = 0" "n \<in> live s user_tables \<Longrightarrow> frame_ref s (M n) = 0 \<and> M n \<noteq> D"
    "frame_ref s h \<noteq> 0 \<Longrightarrow> frame_ref t h = frame_ref s h + uses s user_pages h"
proof -
  show "frame_ref s D = 0" "n \<in> live s user_tables \<Longrightarrow> frame_ref s (M n) = 0 \<and> M n \<noteq> D" using assms by (auto simp: cloning_def)
  show "frame_ref s h \<noteq> 0 \<Longrightarrow> frame_ref t h = frame_ref s h + uses s user_pages h"
    using assms unfolding cloning_def user_pages_div by auto
qed

lemma child_fields:
  "phys (switch_page_dir D t) = phys t" "cr3 (switch_page_dir D t) = D" "frame_ref (switch_page_dir D t) = frame_ref t"
  by (simp_all add: switch_page_dir_def frame_ref_def fun_eq_iff)

lemma child_data_frame:
  assumes c: "cloning D M user_tables s t" and f: "frame_ref s f \<noteq> 0" "\<not> table_frame s f"
  shows "\<not> table_frame (switch_page_dir D t) f"
proof
  let ?c = "switch_page_dir D t"
  assume "table_frame ?c f"
  then consider "f = D" | n where "n < 1024" "pte_present (pde ?c n)" "table_of ?c n = f" unfolding table_frame_def child_fields(2) by blast
  then show False
  proof cases
    case 2
    note tb = child_table [OF c 2(1,2)]
    have l: "n \<noteq> 769 \<Longrightarrow> n \<in> user_tables \<Longrightarrow> n \<in> live s user_tables" using tb by simp
    have "n \<noteq> 769 \<Longrightarrow> n \<notin> user_tables \<Longrightarrow> table_frame s f" using tb 2 unfolding table_frame_def by (simp only: if_False) blast
    then show False using tb 2(3) f cloning_fresh(1) [OF c] cloning_fresh(2) [OF c l] by metis
  qed (use f(1) cloning_fresh(1) [OF c] in simp)
qed

lemma child_scratch:
  assumes c: "cloning D M user_tables s t" and s: "scratch_ok s"
  shows "pde (switch_page_dir D t) 1023 = pde s 1023" "scratch_ok (switch_page_dir D t)"
proof -
  let ?c = "switch_page_dir D t"
  have "pde ?c 1023 = new_pde D M user_tables s 1023" using c by (simp add: cloning_def switch_page_dir_def)
  then show p: "pde ?c 1023 = pde s 1023" using new_pde_cases(1) [of 1023 D M s] by simp
  have "phys t (table_of s 1023) 1023 = phys s (table_of s 1023) 1023" using c by (simp add: cloning_def)
  then show "scratch_ok ?c" unfolding scratch_ok_def p using s by (simp add: scratch_ok_def child_fields(1))
qed

lemma child_free_frames:
  assumes r: "clone_ready s" and c: "cloning D M user_tables s t"
    and free: "card {i\<in>{1..<768}. pte_present (pde s i)} + 1 < card (free_frames s)"
  shows "free_frames (switch_page_dir D t) \<noteq> {}"
proof -
  have "card (insert D (M ` live s user_tables)) \<le> Suc (card (live s user_tables))"
    using card_image_le [of "live s user_tables" M] by (simp add: card_insert_if)
  then have "\<not> free_frames s \<subseteq> insert D (M ` live s user_tables)"
    using card_mono [of "insert D (M ` live s user_tables)" "free_frames s"] free by auto
  then obtain h where h: "h \<in> free_frames s" "h \<noteq> D" "h \<notin> M ` live s user_tables" by blast
  have "uses s user_pages h = 0" using clone_readyD(5) [OF r, of h] h(1) by (auto simp: free_frames_def)
  then have "frame_ref t h = 0" using h c unfolding cloning_def user_pages_div by (simp add: free_frames_def)
  then show ?thesis using h(1) child_fields(3) by (auto simp: free_frames_def)
qed

text \<open>A state that has the frames of the parent as the copy left them, but for the last entry of the scratch table, shows the parent its own memory.\<close>

lemma parent_view:
  assumes r: "clone_ready s" "scratch_ok s" and c: "cloning D M user_tables s t" "\<not> pte_present (phys t (table_of s 1023) 1021)"
    and ph: "\<And>x. \<lbrakk>frame_ref s x \<noteq> 0; x \<noteq> table_of s 1023\<rbrakk> \<Longrightarrow> phys q x = phys t x"
    and phU: "\<And>n. phys q (table_of s 1023) n = (if n = 1023 then 0 else phys t (table_of s 1023) n)"
    and v: "dir_index v \<noteq> 769"
  shows "walk (switch_page_dir (cr3 s) q) v = walk s v"
proof -
  note d = clone_readyD [OF r(1)] and b = cloning_base [OF r(1) order_refl c(1)]
  let ?U = "table_of s 1023" and ?p = "switch_page_dir (cr3 s) q" and ?T = "table_of s (dir_index v)"
  have cr: "cr3 t = cr3 s" using c(1) by (simp add: cloning_def)
  have pdp: "pde ?p n = pde t n" for n using ph [of "cr3 s"] vm_okD(6) [OF d(1)] d(8) cr by (simp add: child_fields)
  have "walk ?p v = walk t v"
  proof (rule entry_view)
    assume p: "pte_present (pde t (dir_index v))"
    have pt: "pde t (dir_index v) = pde s (dir_index v)" using b(1) by simp
    have tv: "entry_of ?p v = phys q ?T (table_index v)" "entry_of t v = phys t ?T (table_index v)" using pdp pt by (simp_all add: child_fields)
    have T0: "frame_ref s ?T \<noteq> 0" using vm_okD(4) [OF d(1) dir_index_less] p pt by simp
    show "pte_present (entry_of ?p v) = pte_present (entry_of t v) \<and> (pte_present (entry_of t v) \<longrightarrow> pte_frame (entry_of ?p v) = pte_frame (entry_of t v))"
    proof (cases "?T = ?U \<and> table_index v = 1023")
      case True
      then have "entry_of ?p v = 0" "entry_of t v = phys s ?U 1023" unfolding tv using phU c(1) by (simp_all add: cloning_def)
      then show ?thesis using r(2) by (simp add: scratch_ok_def pte_present_def)
    next
      case False
      then have "phys q ?T (table_index v) = phys t ?T (table_index v)" using ph [OF T0] phU by (cases "?T = ?U") auto
      then show ?thesis unfolding tv by simp
    qed
  qed (simp add: pdp)
  then show ?thesis using clone_view(1) [OF r(1) c refl disjI1 [OF cr] v] by simp
qed

text \<open>The fault of the child on a page it shares takes the copying branch.\<close>

lemma child_cow:
  assumes r: "clone_ready s" "scratch_ok s" and free: "card {i\<in>{1..<768}. pte_present (pde s i)} + 1 < card (free_frames s)"
    and c: "cloning D M user_tables s t" "\<not> pte_present (phys t (table_of s 1023) 1021)"
    and a: "0x400000 \<le> a" "a < 0xC0000000" "walk s a = Some f" "\<not> table_frame s f"
  shows "\<exists>c' g. handle_cow_fault a (switch_page_dir D t) = Inr c' \<and> cr3 c' = D \<and> frame_ref s g = 0 \<and> g \<noteq> f \<and>
    walk c' a = Some g \<and> pte_rw (entry_of c' a) \<and> (\<forall>j<1024. phys c' g j = phys t f j) \<and> phys c' f = phys t f \<and>
    phys c' = phys (cow_phys (M (dir_index a)) (table_index a) (entry_of (switch_page_dir D t) a) g f (table_of s 1023) (switch_page_dir D t))"
proof -
  let ?c = "switch_page_dir D t" and ?i = "dir_index a"
  note sw = child_fields [of D t] and used = user_page_used [OF a(1-3)]
  have ok: "vm_ok ?c" by (rule clone_child_ok [OF r(1) c(1)])
  have i: "?i \<noteq> 769" "?i \<noteq> 1023" "?i < 1024" "?i \<in> user_tables" using used(2) by auto
  have f: "0 < frame_ref s f" "f < PHY_FRAMES" using clone_readyD(5) [OF r(1) used(1)] by auto
  have two: "1 < frame_ref ?c f" using cloning_fresh(3) [OF c(1), of f] f(1) used(1) unfolding sw by simp
  have ntf: "\<not> table_frame ?c f" using child_data_frame [OF c(1) _ a(4)] f(1) by simp
  have wa: "walk ?c a = Some f" using clone_view(1) [OF r(1) c sw(1) disjI2 [OF sw(2)] i(1)] a(3) by simp
  note e = wa [unfolded walk_entry] and sc = child_scratch [OF c(1) r(2)]
  have np: "\<not> same_page a COPIED_PAGE_VADDR" using i(2) by (simp add: same_page_def copied_page_index)
  have tf: "f \<noteq> cr3 ?c" "\<forall>n<1024. pte_present (pde ?c n) \<longrightarrow> table_of ?c n \<noteq> f" using ntf unfolding table_frame_def by blast+
  from cow_copy_eq [OF ok sc(2) i(1) np _ refl refl _ _ f(2) two tf child_free_frames [OF r(1) c(1) free]] e obtain c' g where
    c': "cow_copy a f ?c = Inr c'" "g < PHY_FRAMES" "frame_ref ?c g = 0" "cr3 c' = cr3 ?c"
      "phys c' = phys (cow_phys (table_of ?c ?i) (table_index a) (entry_of ?c a) g f (table_of ?c 1023) ?c)" by blast
  have gf: "g \<noteq> f" using c'(3) two by auto
  note w = cow_phys_facts [OF ok sc(2) i(1) np wa ntf c'(3,2) gf c'(4,5)]
  have h: "handle_cow_fault a ?c = Inr c'" using handle_cow_fault_eq [OF vm_okD(1) [OF ok] wa f(2)] c'(1) two by simp
  have T: "table_of ?c ?i = M ?i" using child_table [OF c(1) i(3)] e i by (simp only: if_False if_True)
  have g0: "frame_ref s g = 0" using c'(3) cloning_fresh(3) [OF c(1), of g] unfolding sw by (metis add_is_0)
  show ?thesis using h c'(4,5) g0 gf w(2,3,5,6) sw(1,2) T sc(1) by (intro exI [of _ c'] exI [of _ g]) simp
qed

text \<open>C9: Fork isolates the child from the parent: the first write of the child to a user page it shares gives it a writable frame of
  its own with the same contents, and back in the address space of the parent every address is translated as before the fork, with the
  contents of all its pages unchanged.\<close>

theorem fork_write_isolated:
  assumes r: "clone_ready s" "scratch_ok s" and free: "card {i\<in>{1..<768}. pte_present (pde s i)} + 1 < card (free_frames s)"
    and t: "clone_crt_page_dir s = Inr (D, t)"
    and a: "0x400000 \<le> a" "a < 0xC0000000" "walk s a = Some f" "\<not> table_frame s f"
  shows "\<exists>c g. handle_cow_fault a (switch_page_dir D t) = Inr c \<and> cr3 c = D \<and> walk c a = Some g \<and> g \<noteq> f \<and> pte_rw (entry_of c a) \<and>
    (\<forall>j<1024. phys c g j = phys s f j) \<and>
    (\<forall>v. dir_index v \<noteq> 769 \<longrightarrow> walk (switch_page_dir (cr3 s) c) v = walk s v) \<and>
    (\<forall>h. frame_ref s h \<noteq> 0 \<longrightarrow> \<not> table_frame s h \<longrightarrow> phys c h = phys s h)"
proof -
  let ?U = "table_of s 1023"
  from clone_result [OF r(1)] t obtain M where c: "cloning D M user_tables s t" "\<not> pte_present (phys t ?U 1021)" by auto
  from child_cow [OF r free c a] obtain c' g where c': "handle_cow_fault a (switch_page_dir D t) = Inr c'" "cr3 c' = D" "frame_ref s g = 0" "g \<noteq> f"
    "walk c' a = Some g" "pte_rw (entry_of c' a)" "\<forall>j<1024. phys c' g j = phys t f j" "phys c' f = phys t f"
    and pc: "phys c' = phys (cow_phys (M (dir_index a)) (table_index a) (entry_of (switch_page_dir D t) a) g f ?U (switch_page_dir D t))" by blast
  note d = clone_readyD [OF r(1)] and used = user_page_used [OF a(1-3)]
  have Mi: "frame_ref s (M (dir_index a)) = 0" using cloning_fresh(2) [OF c(1) used(2)] by simp
  have ph: "phys c' x = phys t x" if "frame_ref s x \<noteq> 0" "x \<noteq> ?U" for x
    using that Mi c'(3) unfolding pc cow_phys_def by (auto simp: child_fields(1))
  have phU: "phys c' ?U n = (if n = 1023 then 0 else phys t ?U n)" for n
    using d(7) Mi c'(3) unfolding pc cow_phys_def by (auto simp: child_fields(1))
  have keep: "phys c' x = phys s x" if x: "frame_ref s x \<noteq> 0" "\<not> table_frame s x" for x
  proof -
    have tU: "table_frame s ?U" using d(2) unfolding table_frame_def by (intro disjI2 exI [of _ 1023]) simp
    have "x \<notin> table_of s ` live s user_tables" using x(2) unfolding table_frame_def by auto
    then have "phys t x = phys s x" using x tU c(1) unfolding cloning_def by blast
    then show ?thesis using ph [OF x(1)] x(2) tU by metis
  qed
  have "0 < frame_ref s f" using d(5) [OF used(1)] by auto
  then have "\<forall>j<1024. phys c' g j = phys s f j" using keep [of f] a(4) c'(7,8) by simp
  then show ?thesis using c'(1,2,4-6) keep parent_view [OF r c ph phU] by (intro exI [of _ c'] exI [of _ g]) simp
qed

lemma demo_user_ready:
  "clone_ready demo_user_vm" "scratch_ok demo_user_vm" "card {i\<in>{1..<768}. pte_present (pde demo_user_vm i)} + 1 < card (free_frames demo_user_vm)"
  "walk demo_user_vm 0x2000000 = Some 5" "\<not> table_frame demo_user_vm 5"
proof -
  have l: "live demo_user_vm user_tables = {8}" by (auto simp: demo_user_vm_simps)
  have fr: "free_frames demo_user_vm = {6..<8192}" by (auto simp: free_frames_def demo_user_vm_simps PHY_FRAMES_def)
  show c: "card {i\<in>{1..<768}. pte_present (pde demo_user_vm i)} + 1 < card (free_frames demo_user_vm)" unfolding l fr by simp
  have z: "\<not> pte_present (phys demo_user_vm 3 j)" for j by (simp add: demo_user_vm_def pte_present_def)
  have "vm_ok demo_user_vm" using demo_user_counted by (simp add: frames_counted_def)
  moreover have "0 < uses demo_user_vm user_pages f \<longrightarrow> 0 < frame_ref demo_user_vm f \<and> frame_ref demo_user_vm f + uses demo_user_vm user_pages f \<le> 65535" for f
    unfolding demo_user_uses demo_user_vm_simps by simp
  ultimately show "clone_ready demo_user_vm"
    unfolding clone_ready_def demo_user_vm_simps using z c by (simp add: demo_user_vm_simps)
  show "scratch_ok demo_user_vm" using z by (simp add: scratch_ok_def demo_user_vm_simps)
  show "walk demo_user_vm 0x2000000 = Some 5" by (simp add: walk_def dir_index_def table_index_def demo_user_vm_simps)
  show "\<not> table_frame demo_user_vm 5" by (auto simp: table_frame_def demo_user_vm_simps)
qed

theorem clone_shares_user_space_witness:
  "\<exists>D t. clone_crt_page_dir demo_user_vm = Inr (D, t) \<and> walk t 0x2000000 = Some 5 \<and> walk (switch_page_dir D t) 0x2000000 = Some 5 \<and>
     \<not> pte_rw (entry_of t 0x2000000) \<and> frame_ref t 5 = 3"
proof -
  have d: "dir_index 0x2000000 = 8" by (simp add: dir_index_def)
  from clone_shares_user_space [OF demo_user_ready(1)] obtain D t where
    t: "clone_crt_page_dir demo_user_vm = Inr (D, t)"
      "\<forall>v. dir_index v \<noteq> 769 \<longrightarrow> walk t v = walk demo_user_vm v \<and> walk (switch_page_dir D t) v = walk demo_user_vm v"
      "\<forall>v f. dir_index v \<in> {1..<768} \<longrightarrow> walk demo_user_vm v = Some f \<longrightarrow> \<not> pte_rw (entry_of t v) \<and> \<not> pte_rw (entry_of (switch_page_dir D t) v)"
      "\<forall>f. frame_ref demo_user_vm f \<noteq> 0 \<longrightarrow> frame_ref t f = frame_ref demo_user_vm f + uses demo_user_vm {1024..<786432} f \<and>
         (\<not> table_frame demo_user_vm f \<longrightarrow> phys t f = phys demo_user_vm f)" by blast
  have "frame_ref demo_user_vm 5 \<noteq> 0" "frame_ref demo_user_vm 5 + uses demo_user_vm {1024..<786432} 5 = 3"
    unfolding demo_user_uses demo_user_vm_simps by simp_all
  then have "frame_ref t 5 = 3" using t(4) by metis
  moreover have "walk t 0x2000000 = Some 5 \<and> walk (switch_page_dir D t) 0x2000000 = Some 5" using t(2) d demo_user_ready(4) by simp
  moreover have "\<not> pte_rw (entry_of t 0x2000000)" using t(3) [rule_format, of "0x2000000" 5] d demo_user_ready(4) by simp
  ultimately show ?thesis using t(1) by blast
qed

theorem fork_write_isolated_witness:
  "\<exists>D t c g. clone_crt_page_dir demo_user_vm = Inr (D, t) \<and> handle_cow_fault 0x2000000 (switch_page_dir D t) = Inr c \<and>
     walk c 0x2000000 = Some g \<and> g \<noteq> 5 \<and> walk (switch_page_dir 2 c) 0x2000000 = Some 5 \<and> phys c 5 = phys demo_user_vm 5"
proof -
  from clone_result [OF demo_user_ready(1)] obtain D t where t: "clone_crt_page_dir demo_user_vm = Inr (D, t)" by blast
  have d: "dir_index 0x2000000 \<noteq> 769" "frame_ref demo_user_vm 5 \<noteq> 0" "cr3 demo_user_vm = 2"
    by (simp_all add: dir_index_def demo_user_vm_simps)
  have a: "(0x400000 :: u32) \<le> 0x2000000" "(0x2000000 :: u32) < 0xC0000000" by simp_all
  from fork_write_isolated [OF demo_user_ready(1-3) t a demo_user_ready(4,5)] obtain c g where
    c: "handle_cow_fault 0x2000000 (switch_page_dir D t) = Inr c" "walk c 0x2000000 = Some g" "g \<noteq> 5"
      "\<forall>v. dir_index v \<noteq> 769 \<longrightarrow> walk (switch_page_dir (cr3 demo_user_vm) c) v = walk demo_user_vm v"
      "\<forall>h. frame_ref demo_user_vm h \<noteq> 0 \<longrightarrow> \<not> table_frame demo_user_vm h \<longrightarrow> phys c h = phys demo_user_vm h" by blast
  have "walk (switch_page_dir 2 c) 0x2000000 = Some 5" using c(4) d(1) demo_user_ready(4) unfolding d(3) by simp
  moreover have "phys c 5 = phys demo_user_vm 5" using c(5) d(2) demo_user_ready(5) by blast
  ultimately show ?thesis using t c(1-3) by blast
qed

end
