(* ===== verification/Thread_Fork.thy ===== *)
theory Thread_Fork
  imports Thread
begin

text \<open>
  What \<^verbatim>\<open>fork_crt_thread\<close> of \<^verbatim>\<open>src/src/task/thread.c\<close> does: the new thread has an id and a stack slot of its own, and its
  kernel stack is a copy of that of the running thread, word by word, but for the address at which it starts.
\<close>

section \<open>Copying two pages\<close>

lemma copy_words_add: "copy_words dst src i (m + n) s = kbind (copy_words dst src i m s) (copy_words dst src (i + m) n)"
proof (induction m arbitrary: i s)
  case (Suc m)
  show ?case
  proof (cases "vread s (src + of_nat (4 * i))")
    case (Inr v)
    then show ?thesis by (cases "vwrite (dst + of_nat (4 * i)) v s") (simp_all add: Suc)
  qed simp
qed simp

lemma copy_words_shift: "copy_words dst src (i + j) n s = copy_words (dst + of_nat (4 * j)) (src + of_nat (4 * j)) i n s"
proof (induction n arbitrary: i s)
  case (Suc n)
  have e: "a + of_nat (4 * (i + j)) = a + of_nat (4 * j) + of_nat (4 * i)" for a :: u32 by (simp add: algebra_simps)
  have "copy_words dst src (Suc (i + j)) n = copy_words (dst + of_nat (4 * j)) (src + of_nat (4 * j)) (Suc i) n"
    using Suc.IH [of "Suc i"] by (simp add: fun_eq_iff)
  then show ?case unfolding copy_words.simps by (simp only: e)
qed simp

definition copied_page :: "vm \<Rightarrow> nat \<Rightarrow> nat \<Rightarrow> nat \<Rightarrow> u32" where
  "copied_page s p f = (\<lambda>j. if j < 1024 then phys s p j else phys s f j)"

lemma data_frame_not_table:
  assumes "vm_ok s" "f \<notin> table_frames s" "walk s a = Some h"
  shows "f \<noteq> cr3 s" "f \<noteq> table_of s (dir_index a)"
proof -
  show "f \<noteq> cr3 s" using cr3_table [OF vm_okD(1) [OF assms(1)]] assms(2) by auto
  have "pte_present (pde s (dir_index a))" using assms(3) by (simp add: walk_def Let_def split: if_splits)
  then show "f \<noteq> table_of s (dir_index a)" using assms(2) dir_index_less by (auto simp: table_frames_def)
qed

lemma copy_one_page:
  assumes ok: "vm_ok s" and al: "page_aligned dst" "page_aligned src" and w: "walk s dst = Some f" "walk s src = Some p"
    and f: "f \<notin> table_frames s" "p \<noteq> f"
  shows "copy_words dst src 0 1024 s = Inr (put_frame f (copied_page s p f) s)"
  using copy_words_eq [OF al w, of 0 1024] data_frame_not_table [OF ok f(1) w(1)] data_frame_not_table [OF ok f(1) w(2)] f(2)
  by (simp add: copied_page_def)

lemma copy_two_pages:
  assumes ok: "vm_ok s" and al: "page_aligned dst" "page_aligned (dst + 4096)" "page_aligned src" "page_aligned (src + 4096)"
    and w: "walk s dst = Some f" "walk s (dst + 4096) = Some g" "walk s src = Some p" "walk s (src + 4096) = Some q"
    and d: "f \<notin> table_frames s" "g \<notin> table_frames s" "f \<noteq> g" "p \<noteq> f" "q \<noteq> f" "q \<noteq> g"
  shows "copy_words dst src 0 2048 s = Inr (put_frame g (copied_page s q g) (put_frame f (copied_page s p f) s))"
proof -
  let ?s = "put_frame f (copied_page s p f) s"
  note pf = put_frame_data [OF ok d(1), of "copied_page s p f"]
  have "copy_words dst src 0 2048 s = kbind (copy_words dst src 0 1024 s) (copy_words dst src 1024 1024)"
    using copy_words_add [of dst src 0 1024 1024 s] by simp
  also have "\<dots> = copy_words (dst + 4096) (src + 4096) 0 1024 ?s"
    using copy_one_page [OF ok al(1,3) w(1,3) d(1,4)] copy_words_shift [of dst src 0 1024 1024] by simp
  also have "\<dots> = Inr (put_frame g (copied_page ?s q g) ?s)"
    by (rule copy_one_page [OF pf(2) al(2,4)]) (use pf w(2,4) d in simp_all)
  also have "copied_page ?s q g = copied_page s q g" using d(3,5) by (auto simp: copied_page_def)
  finally show ?thesis .
qed

section \<open>The copy of a thread\<close>

text \<open>The running thread's stack: two mapped pages whose frames hold no table.\<close>

definition stack_mapped :: "u32 \<Rightarrow> nat \<Rightarrow> nat \<Rightarrow> vm \<Rightarrow> bool" where
  "stack_mapped a p q v \<longleftrightarrow> page_aligned a \<and> page_aligned (a + 4096) \<and> dir_index a \<noteq> 769 \<and> dir_index (a + 4096) \<noteq> 769 \<and>
     walk v a = Some p \<and> walk v (a + 4096) = Some q \<and> frame_ref v p \<noteq> 0 \<and> frame_ref v q \<noteq> 0 \<and>
     p \<notin> table_frames v \<and> q \<notin> table_frames v"

text \<open>The stack at \<open>b\<close> is that at \<open>a\<close>, except for the word from which the new thread takes the address it starts at.\<close>

definition stack_copied :: "u32 \<Rightarrow> vm \<Rightarrow> u32 \<Rightarrow> u32 \<Rightarrow> vm \<Rightarrow> bool" where
  "stack_copied a v entry b v' \<longleftrightarrow>
     (\<forall>j<2048. vread v' (b + of_nat (4 * j)) = (if j = 2029 then Inr entry else vread v (a + of_nat (4 * j))))"

lemma stack_word:
  assumes "page_aligned a" "page_aligned (a + 4096)" "walk v a = Some p" "walk v (a + 4096) = Some q" "j < 2048"
  shows "vread v (a + of_nat (4 * j)) = Inr (if j < 1024 then phys v p j else phys v q (j - 1024))"
proof (cases "j < 1024")
  case True
  then show ?thesis using walk_offset [OF assms(1) True, of v] page_offset(3) [OF assms(1) True] assms(3) by (simp add: vread_def)
next
  case False
  then have l: "j - 1024 < 1024" and e: "a + of_nat (4 * j) = a + 4096 + of_nat (4 * (j - 1024))"
    using assms(5) by (simp_all add: of_nat_diff algebra_simps)
  show ?thesis using walk_offset [OF assms(2) l, of v] page_offset(3) [OF assms(2) l] assms(4) False unfolding e by (simp add: vread_def)
qed

lemma walk_same_page: "same_page a b \<Longrightarrow> walk v a = walk v b"
  unfolding same_page_def walk_def by (elim conjE) (simp only:)

lemma fork_stack_ok:
  assumes st: "stack_added k f g v0 v" and k: "k < 21845" and m: "stack_mapped a p q v0" and ok0: "vm_ok v0"
    and n: "walk v0 (slot_base k + 4096) = None" "walk v0 (slot_base k + 8192) = None"
  shows "\<exists>Z C. copy_words (slot_base k + 4096) a 0 2048 v = Inr (put_frame g Z (put_frame f C v)) \<and>
     poke (slot_base k + 8192 + 3992) [(7, entry)] (put_frame g Z (put_frame f C v)) = Inr (put_frame g (Z(1005 := entry)) (put_frame f C v)) \<and>
     stack_copied a v0 entry (slot_base k + 4096) (put_frame g (Z(1005 := entry)) (put_frame f C v))"
proof -
  note st = st [unfolded stack_added_def] and m = m [unfolded stack_mapped_def]
  let ?d = "slot_base k + 4096" and ?b = "slot_base k + 8192"
  have al: "page_aligned ?d" "page_aligned (?d + 4096)" "page_aligned ?b"
    using slot_page(2) [OF k, of 1] slot_page(2) [OF k, of 2] by (simp_all add: add.assoc)
  have np: "\<not> same_page x (slot_base k + 4096)" "\<not> same_page x (slot_base k + 8192)" if "walk v0 x \<noteq> None" for x
    using n that walk_same_page [of x "slot_base k + 4096" v0] walk_same_page [of x "slot_base k + 8192" v0] by auto
  have wa: "walk v a = Some p" "walk v (a + 4096) = Some q" using st m np by auto
  have tf: "table_frames v = table_frames v0" using st by (intro table_frames_cong) simp_all
  have fr: "f \<notin> table_frames v" "g \<notin> table_frames v" using st tf free_not_table [OF ok0] by auto
  have ne: "f \<noteq> g" "p \<noteq> f" "q \<noteq> f" "q \<noteq> g" "p \<noteq> g" using st m by auto
  have okv: "vm_ok v" and wd: "walk v ?d = Some f" "walk v (?d + 4096) = Some g" "walk v ?b = Some g" using st by (auto simp: add.assoc)
  define C where "C = copied_page v p f"
  define Z where "Z = copied_page v q g"
  let ?v = "put_frame g Z (put_frame f C v)"
  note pf = put_frame_data [OF okv fr(1), of C]
  have g2: "g \<notin> table_frames (put_frame f C v)" using pf(4) fr(2) by simp
  note pg = put_frame_data [OF pf(2) g2]
  have cp: "copy_words ?d a 0 2048 v = Inr ?v"
    unfolding C_def Z_def by (rule copy_two_pages [OF okv al(1,2) _ _ wd(1,2) wa fr ne(1-4)]) (use m in simp_all)
  have w: "walk (put_frame g X (put_frame f C v)) x = walk v x" for X x using pf(1) pg(1) by simp
  have "poke (?b + 3992 + of_nat (4 * 0)) [(7, entry)] ?v = Inr (put_frame g (fold (\<lambda>(i, w) c. c(998 + 0 + i := w)) [(7, entry)] (phys ?v g)) ?v)"
    by (rule poke_stack [OF pg(2) _ al(3)]) (use pg(4) g2 w wd(3) in auto)
  then have pk: "poke (?b + 3992) [(7, entry)] ?v = Inr (put_frame g (Z(1005 := entry)) (put_frame f C v))" by simp
  have "stack_copied a v0 entry ?d (put_frame g (Z(1005 := entry)) (put_frame f C v))"
    unfolding stack_copied_def
  proof (intro allI impI)
    fix j :: nat
    assume j: "j < 2048"
    have ph: "phys v p = phys v0 p" "phys v q = phys v0 q" using st m by auto
    have l: "vread (put_frame g (Z(1005 := entry)) (put_frame f C v)) (?d + of_nat (4 * j)) =
        Inr (if j < 1024 then C j else (Z(1005 := entry)) (j - 1024))"
      using stack_word [OF al(1,2), of "put_frame g (Z(1005 := entry)) (put_frame f C v)" f g j] w wd j ne(1) by simp
    have r: "vread v0 (a + of_nat (4 * j)) = Inr (if j < 1024 then phys v0 p j else phys v0 q (j - 1024))"
      using stack_word [of a v0 p q j] m j by simp
    show "vread (put_frame g (Z(1005 := entry)) (put_frame f C v)) (?d + of_nat (4 * j)) =
        (if j = 2029 then Inr entry else vread v0 (a + of_nat (4 * j)))"
      using j ph unfolding l r by (auto simp: C_def Z_def copied_page_def)
  qed
  then show ?thesis using cp pk by blast
qed

text \<open>The new control block and what else has changed in the scheduler's store.\<close>

definition forked_tcb :: "addr \<Rightarrow> u32 \<Rightarrow> nat \<Rightarrow> tcb_t \<Rightarrow> tcb_t" where
  "forked_tcb a i k t = t\<lparr>crt_node_ptr := schedule_node a, crt_queue := No_queue, thread_id := i, ticks := 0,
     kernel_stack_alloc := slot_base k, kernel_stack := slot_base k + 4096, kernel_esp := slot_base k + 4096 + 8088\<rparr>"

lemma fork_crt_thread_ok:
  assumes ok: "threads_ok s" and ids: "\<not> {..<pool_capacity (thread_id_pool s)} \<subseteq> pool_ids (thread_id_pool s)"
    and fs: "free_slot s" and fr: "2 \<le> card (free_frames (t_vm s))" and a: "a \<noteq> NULL"
    and c: "get_crt_thread (t_sched s) = Inr crt" and m: "stack_mapped (kernel_stack (tcbs (t_sched s) crt)) p q (t_vm s)"
  shows "\<exists>s' k i f g. fork_crt_thread entry a s = Some (Inr (a, s')) \<and> threads_ok s' \<and>
    unat i \<notin> pool_ids (thread_id_pool s) \<and> pool_ids (thread_id_pool s') = insert (unat i) (pool_ids (thread_id_pool s)) \<and>
    k < 21845 \<and> k \<notin> set_bits (kernel_stack_slots s) \<and> set_bits (kernel_stack_slots s') = insert k (set_bits (kernel_stack_slots s)) \<and>
    t_sched s' = (t_sched s)\<lparr>nodes := (nodes (t_sched s))(schedule_node a := \<lparr>ptr = a, prev = NULL, nxt = NULL\<rparr>),
      tcbs := (tcbs (t_sched s))(a := forked_tcb a i k (tcbs (t_sched s) crt))\<rparr> \<and>
    stack_copied (kernel_stack (tcbs (t_sched s) crt)) (t_vm s) entry (slot_base k + 4096) (t_vm s') \<and>
    cr3 (t_vm s') = cr3 (t_vm s) \<and> phys (t_vm s') (cr3 (t_vm s)) = phys (t_vm s) (cr3 (t_vm s)) \<and>
    frame_ref (t_vm s) f = 0 \<and> frame_ref (t_vm s) g = 0 \<and> frame_ref (t_vm s') = (frame_ref (t_vm s))(f := 1, g := 1) \<and>
    (\<forall>v. dir_index v \<noteq> 769 \<longrightarrow> \<not> same_page v (slot_base k + 4096) \<longrightarrow> \<not> same_page v (slot_base k + 8192) \<longrightarrow> walk (t_vm s') v = walk (t_vm s) v) \<and>
    (\<forall>h. frame_ref (t_vm s) h \<noteq> 0 \<longrightarrow> h \<notin> table_frames (t_vm s) \<longrightarrow> phys (t_vm s') h = phys (t_vm s) h)"
proof -
  note wfp = threads_okD(2) [OF ok] and vok = threads_okD(1) [OF ok]
  from ids obtain i pool where al: "id_pool_alloc (thread_id_pool s) = Some (i, pool)"
    using ip.alloc_None [OF wfp] by (cases "id_pool_alloc (thread_id_pool s)") auto
  note i = ip.alloc_fresh [OF wfp al] ip.alloc_used [OF wfp al] ip.alloc_invar [OF wfp al]
  let ?t = "tcbs (t_sched s) crt"
  define s1 where "s1 = put_tcb a (\<lambda>t. t\<lparr>thread_id := i, ticks := 0\<rparr>)
      ((init_node a (put_tcb a (\<lambda>_. ?t\<lparr>crt_node_ptr := schedule_node a, crt_queue := No_queue\<rparr>) s))\<lparr>thread_id_pool := pool,
        thread_name := (thread_name s)(a := default_name i)\<rparr>)"
  have s1: "t_vm s1 = t_vm s" "thread_id_pool s1 = pool" "kernel_stack_slots s1 = kernel_stack_slots s"
    "kernel_stack_slots_lock s1 = kernel_stack_slots_lock s" by (simp_all add: s1_def init_node_def put_tcb_def)
  have ok1: "threads_ok s1" using ok i s1 by (intro threads_ok_cong [OF ok]) (simp_all add: vok)
  have fs1: "free_slot s1" "2 \<le> card (free_frames (t_vm s1))" using fs fr s1(1,3) by (simp_all add: free_slot_def)
  from alloc_kernel_stack_slot_ok [OF ok1 fs1] obtain k f g b v where
    k: "alloc_kernel_stack_slot s1 = Some (Inr (slot_base k, s1\<lparr>kernel_stack_slots := b, t_vm := v\<rparr>))" "k < 21845"
      "k \<notin> set_bits (kernel_stack_slots s)" "set_bits b = insert k (set_bits (kernel_stack_slots s))"
      "stack_added k f g (t_vm s) v" "threads_ok (s1\<lparr>kernel_stack_slots := b, t_vm := v\<rparr>)" using s1 by auto
  note st = k(5) [unfolded stack_added_def]
  from fork_stack_ok [OF k(5,2) m vok threads_okD(8,9) [OF ok k(2,3)], of entry] obtain Z C where
    r: "copy_words (slot_base k + 4096) (kernel_stack ?t) 0 2048 v = Inr (put_frame g Z (put_frame f C v))"
      "poke (slot_base k + 8192 + 3992) [(7, entry)] (put_frame g Z (put_frame f C v)) = Inr (put_frame g (Z(1005 := entry)) (put_frame f C v))"
      "stack_copied (kernel_stack ?t) (t_vm s) entry (slot_base k + 4096) (put_frame g (Z(1005 := entry)) (put_frame f C v))" by blast
  let ?v = "put_frame g (Z(1005 := entry)) (put_frame f C v)"
  define s2 where "s2 = (put_tcb a (\<lambda>t. t\<lparr>kernel_stack_alloc := slot_base k, kernel_stack := slot_base k + 4096,
      kernel_esp := slot_base k + 8192 + 3992\<rparr>) (s1\<lparr>kernel_stack_slots := b, t_vm := v\<rparr>))\<lparr>t_vm := ?v\<rparr>"
  have run: "fork_crt_thread entry a s = Some (Inr (a, s2))"
  proof -
    let ?s = "init_node a (put_tcb a (\<lambda>_. ?t\<lparr>crt_node_ptr := schedule_node a, crt_queue := No_queue\<rparr>) s)"
    have e: "id_pool_allocate_id (\<lambda>p. p) (thread_id_pool ?s) = Some (Some i, pool)" "thread_name ?s = thread_name s"
      using id_pool_allocate_id_eq [OF wfp] al by (simp_all add: put_tcb_def init_node_def)
    have n: "slot_base k + 4096 + 8192 - 104 = slot_base k + 12184" "slot_base k + 8192 + 3992 = slot_base k + 12184" by simp_all
    show ?thesis
      using k(1) r(1,2) c a e unfolding s1_def s2_def fork_crt_thread_def
      by (simp add: Let_def KERNEL_STACK_GUARD_SIZE_def PAGE_SIZE_def KERNEL_STACK_SIZE_def INTERRUPT_STACK_SIZE_def SWITCH_STACK_SIZE_def n add.commute [of 12184])
  qed
  have tf: "table_frames v = table_frames (t_vm s)" using st by (intro table_frames_cong) simp_all
  have fg: "f \<noteq> g" "f \<notin> table_frames v" "g \<notin> table_frames v" "frame_ref (t_vm s) f = 0" "frame_ref (t_vm s) g = 0"
    using st tf free_not_table [OF vok] by auto
  have okv: "vm_ok v" using st by simp
  note pf = put_frame_data [OF okv fg(2), of C]
  have g2: "g \<notin> table_frames (put_frame f C v)" using pf(4) fg(3) by simp
  note pg = put_frame_data [OF pf(2) g2, of "Z(1005 := entry)"]
  have cr: "cr3 v \<noteq> f" "cr3 v \<noteq> g" using cr3_table [OF vm_okD(1) [OF okv]] fg(2,3) by auto
  have ok2: "threads_ok s2"
    by (rule threads_ok_cong [OF k(6)]) (use pf pg i s1(2) cr in \<open>simp_all add: s2_def put_tcb_def\<close>)
  have sc: "t_sched s2 = (t_sched s)\<lparr>nodes := (nodes (t_sched s))(schedule_node a := \<lparr>ptr = a, prev = NULL, nxt = NULL\<rparr>),
      tcbs := (tcbs (t_sched s))(a := forked_tcb a i k ?t)\<rparr>"
    by (simp add: s2_def s1_def put_tcb_def init_node_def upd_tcb_def forked_tcb_def add.assoc)
  have data: "phys ?v h = phys (t_vm s) h" if "frame_ref (t_vm s) h \<noteq> 0" "h \<notin> table_frames (t_vm s)" for h
    using that st fg by auto
  have v2: "t_vm s2 = ?v" "kernel_stack_slots s2 = b" "thread_id_pool s2 = pool" by (simp_all add: s2_def put_tcb_def s1(2))
  have ph: "cr3 ?v = cr3 (t_vm s)" "phys ?v (cr3 (t_vm s)) = phys (t_vm s) (cr3 (t_vm s))" using st cr by auto
  have w: "walk ?v x = walk v x" for x using pf(1) pg(1) by simp
  have ref: "frame_ref ?v = (frame_ref (t_vm s))(f := 1, g := 1)" using pf(3) pg(3) st by simp
  show ?thesis
    by (intro exI [of _ s2] exI [of _ k] exI [of _ i] exI [of _ f] exI [of _ g] conjI)
      (use run ok2 sc r(3) data ph ref fg(4,5) i k(2-4) st in \<open>simp_all add: v2 w\<close>)
qed

end
