(* ===== verification/Id_Map.thy ===== *)
theory Id_Map
  imports Hash_Table
begin

text \<open>
  The tables that a process keeps of its threads and children (\<^verbatim>\<open>src/src/include/task/process.h\<close>),
  as chains of keys and pointers. The operations are those of \<^verbatim>\<open>src/src/utils/hash_table.c\<close>, step by
  step, with the memory of the nodes left to the list type; the same operations over nodes in memory
  are in \<^verbatim>\<open>Hash_Table\<close>, and both satisfy the contract \<open>ptr_map\<close>.
\<close>

section \<open>Operations\<close>

type_synonym chain = "(u32 \<times> addr) list"

record id_table =
  it_size :: u32
  it_chains :: "chain list"

definition it_num :: "id_table \<Rightarrow> u32" where "it_num t = of_nat (length (it_chains t))"

definition it_index :: "id_table \<Rightarrow> u32 \<Rightarrow> nat" where "it_index t k = unat (k mod it_num t)"

definition it_init :: id_table where
  "it_init = \<lparr>it_size = 0, it_chains = replicate (unat INITIAL_BUCKETS_NUM) []\<rparr>"

definition it_get :: "id_table \<Rightarrow> u32 \<Rightarrow> addr" where
  "it_get t k = value_of (map_of (it_chains t ! it_index t k) k)"

text \<open>The assignment \<^verbatim>\<open>kv->v_ptr = v_ptr\<close> in the node the lookup finds, and the removal of that node.\<close>

fun chain_set :: "chain \<Rightarrow> u32 \<Rightarrow> addr \<Rightarrow> chain" where
  "chain_set [] k v = []"
| "chain_set ((k', v') # c) k v = (if k' = k then (k', v) # c else (k', v') # chain_set c k v)"

fun chain_del :: "chain \<Rightarrow> u32 \<Rightarrow> chain" where
  "chain_del [] k = []"
| "chain_del ((k', v') # c) k = (if k' = k then c else (k', v') # chain_del c k)"

definition chain_move :: "u32 \<Rightarrow> u32 \<times> addr \<Rightarrow> chain list \<Rightarrow> chain list" where
  "chain_move num e cs = (let j = unat (fst e mod num) in cs[j := cs ! j @ [e]])"

definition it_expand :: "id_table \<Rightarrow> id_table" where
  "it_expand t =
     (let new_num = it_num t * 2
      in t\<lparr>it_chains := fold (fold (chain_move new_num)) (it_chains t) (replicate (unat new_num) [])\<rparr>)"

definition it_put :: "id_table \<Rightarrow> u32 \<Rightarrow> addr \<Rightarrow> addr \<times> id_table" where
  "it_put t k v =
     (let i = it_index t k; c = it_chains t ! i
      in case map_of c k of
           Some old \<Rightarrow> (old, t\<lparr>it_chains := (it_chains t)[i := chain_set c k v]\<rparr>)
         | None \<Rightarrow>
             let t = t\<lparr>it_chains := (it_chains t)[i := c @ [(k, v)]], it_size := it_size t + 1\<rparr>
             in (NULL, if exceeds_load (it_size t) (it_num t) then it_expand t else t))"

definition it_remove :: "id_table \<Rightarrow> u32 \<Rightarrow> addr \<times> id_table" where
  "it_remove t k =
     (let i = it_index t k; c = it_chains t ! i
      in case map_of c k of
           Some v \<Rightarrow> (v, t\<lparr>it_chains := (it_chains t)[i := chain_del c k], it_size := it_size t - 1\<rparr>)
         | None \<Rightarrow> (NULL, t))"

fun first_entry :: "chain list \<Rightarrow> addr" where
  "first_entry [] = NULL"
| "first_entry ([] # cs) = first_entry cs"
| "first_entry ((e # c) # cs) = snd e"

definition it_get_first :: "id_table \<Rightarrow> addr" where
  "it_get_first t = (if it_size t = 0 then NULL else first_entry (it_chains t))"

definition it_destroy :: "id_table \<Rightarrow> id_table" where
  "it_destroy t = t\<lparr>it_size := 0, it_chains := map (\<lambda>_. []) (it_chains t)\<rparr>"

text \<open>The pointers of a table in the order the loops over its chains meet them.\<close>

definition it_values :: "id_table \<Rightarrow> addr list" where
  "it_values t = map snd (concat (it_chains t))"

section \<open>The map a table stands for\<close>

definition it_rep :: "id_table \<Rightarrow> (u32 \<Rightarrow> addr option) \<Rightarrow> bool" where
  "it_rep t M \<longleftrightarrow>
     0 < length (it_chains t) \<and> length (it_chains t) \<le> 2 ^ 22 \<and>
     (\<forall>i < length (it_chains t). \<forall>e\<in>set (it_chains t ! i). it_index t (fst e) = i) \<and>
     distinct (map fst (concat (it_chains t))) \<and> length (concat (it_chains t)) \<le> 2 ^ 20 \<and>
     it_size t = of_nat (length (concat (it_chains t))) \<and> M = map_of (concat (it_chains t))"

definition it_room :: "id_table \<Rightarrow> bool" where
  "it_room t \<longleftrightarrow> it_size t < 2 ^ 20"

lemma it_index_less: "0 < length (it_chains t) \<Longrightarrow> length (it_chains t) \<le> 2 ^ 22 \<Longrightarrow> it_index t k < length (it_chains t)"
  using mod_less_unat [of "it_num t" k]
  by (simp add: it_index_def it_num_def unat_of_nat_small unat_eq_zero [symmetric] del: unat_eq_zero)

lemma map_of_eq_SomeD: "distinct (map fst xs) \<Longrightarrow> (k, v) \<in> set xs \<longleftrightarrow> map_of xs k = Some v"
  by (auto dest: map_of_SomeD)

text \<open>A key is looked up in its own chain only, and is found there or nowhere.\<close>

lemma it_rep_chain:
  assumes "it_rep t M"
  shows "map_of (it_chains t ! it_index t k) k = M k" "it_index t k < length (it_chains t)"
proof -
  let ?c = "it_chains t ! it_index t k" and ?all = "concat (it_chains t)"
  show l: "it_index t k < length (it_chains t)" using assms it_index_less by (auto simp: it_rep_def)
  have d: "distinct (map fst ?all)" and M: "M = map_of ?all" using assms by (auto simp: it_rep_def)
  have "(k, v) \<in> set ?c \<longleftrightarrow> (k, v) \<in> set ?all" for v
  proof
    assume "(k, v) \<in> set ?all"
    then obtain i where "i < length (it_chains t)" "(k, v) \<in> set (it_chains t ! i)"
      by (auto simp: in_set_conv_nth [of _ "it_chains t"])
    moreover from this have "it_index t k = i" using assms unfolding it_rep_def by (metis fst_conv)
    ultimately show "(k, v) \<in> set ?c" by simp
  qed (use l in \<open>auto intro: nth_mem\<close>)
  moreover have "distinct (map fst ?c)"
  proof -
    have "?all = concat (take (it_index t k) (it_chains t)) @ ?c @ concat (drop (Suc (it_index t k)) (it_chains t))"
      using l by (metis concat.simps(2) concat_append id_take_nth_drop)
    then show ?thesis using d by (metis distinct_append map_append)
  qed
  ultimately have "map_of ?c k = Some v \<longleftrightarrow> map_of ?all k = Some v" for v
    using map_of_eq_SomeD [OF d] map_of_eq_SomeD [of ?c] by metis
  then show "map_of ?c k = M k" unfolding M by (metis option.exhaust)
qed

lemma it_get_rep: "it_rep t M \<Longrightarrow> it_get t k = value_of (M k)"
  by (simp add: it_get_def it_rep_chain)

text \<open>The pairs of a table, whatever their order, say what it stands for.\<close>

lemma it_repI:
  assumes "0 < length (it_chains t)" "length (it_chains t) \<le> 2 ^ 22"
    and "\<And>i e. \<lbrakk>i < length (it_chains t); e \<in> set (it_chains t ! i)\<rbrakk> \<Longrightarrow> it_index t (fst e) = i"
    and ms: "mset (concat (it_chains t)) = mset es" and d: "distinct (map fst es)" "length es \<le> 2 ^ 20"
    and "it_size t = of_nat (length es)" and M: "\<And>k v. M k = Some v \<longleftrightarrow> (k, v) \<in> set es"
  shows "it_rep t M"
proof -
  let ?all = "concat (it_chains t)"
  have "mset (map fst ?all) = mset (map fst es)" using ms by simp
  then have dd: "distinct (map fst ?all)" using d(1) mset_eq_imp_distinct_iff by blast
  have st: "set ?all = set es" using ms by (metis set_mset_mset)
  have "M k = map_of ?all k" for k
  proof (cases "M k")
    case (Some v)
    then have "(k, v) \<in> set ?all" using M st by simp
    then show ?thesis using Some dd by simp
  next
    case None
    then have "map_of ?all k \<noteq> Some v" for v using M [of k v] map_of_SomeD [of ?all k v] st by auto
    then show ?thesis using None by (metis option.exhaust)
  qed
  moreover have "length ?all = length es" using ms by (metis size_mset)
  ultimately show ?thesis using assms(1-3,7) d(2) dd by (auto simp: it_rep_def fun_eq_iff simp del: length_concat)
qed

lemma it_repE:
  assumes "it_rep t M"
  shows "M k = Some v \<longleftrightarrow> (k, v) \<in> set (concat (it_chains t))"
    "\<lbrakk>i < length (it_chains t); e \<in> set (it_chains t ! i)\<rbrakk> \<Longrightarrow> it_index t (fst e) = i"
    "distinct (map fst (concat (it_chains t)))" "length (concat (it_chains t)) \<le> 2 ^ 20"
    "0 < length (it_chains t)" "length (it_chains t) \<le> 2 ^ 22"
    "it_size t = of_nat (length (concat (it_chains t)))"
proof -
  show "M k = Some v \<longleftrightarrow> (k, v) \<in> set (concat (it_chains t))"
    using assms map_of_eq_SomeD unfolding it_rep_def by metis
qed (use assms in \<open>unfold it_rep_def, blast+\<close>)

lemma it_rep_size:
  assumes "it_rep t M"
  shows "unat (it_size t) = card (dom M)" "it_size t = 0 \<longleftrightarrow> M = Map.empty"
proof -
  let ?all = "concat (it_chains t)"
  have "unat (it_size t) = length ?all" using it_repE(4,7) [OF assms] by (simp add: unat_of_nat_small del: length_concat)
  also have "\<dots> = card (dom M)"
    using assms distinct_card [OF it_repE(3) [OF assms]] by (simp add: it_rep_def dom_map_of_conv_image_fst del: length_concat)
  finally show u: "unat (it_size t) = card (dom M)" .
  have "finite (dom M)" using assms by (auto simp: it_rep_def finite_dom_map_of)
  then show "it_size t = 0 \<longleftrightarrow> M = Map.empty" 
    using u card_0_eq [of "dom M"] unat_eq_zero [of "it_size t"] by simp
qed

section \<open>Put and remove\<close>

lemma chain_set_mset:
  "map_of c k = Some old \<Longrightarrow> mset (chain_set c k v) + {#(k, old)#} = mset c + {#(k, v)#}"
  by (induction c k v rule: chain_set.induct) (auto split: if_splits)

lemma chain_del_mset: "map_of c k = Some old \<Longrightarrow> add_mset (k, old) (mset (chain_del c k)) = mset c"
  by (induction c k rule: chain_del.induct) (auto split: if_splits)

lemma chain_keys:
  "x \<in> set (chain_set c k v) \<Longrightarrow> fst x = k \<or> x \<in> set c" "x \<in> set (chain_del c k) \<Longrightarrow> x \<in> set c"
  by (induction c k v rule: chain_set.induct) (auto split: if_splits)

lemma it_index_upd: "length cs = length (it_chains t) \<Longrightarrow> it_index (t\<lparr>it_chains := cs\<rparr>) = it_index t"
  "it_index (t\<lparr>it_size := n\<rparr>) = it_index t"
  by (simp_all add: it_index_def it_num_def fun_eq_iff)

lemma chain_moves:
  assumes "num \<noteq> 0" "length cs = unat num" "\<And>i e. \<lbrakk>i < length cs; e \<in> set (cs ! i)\<rbrakk> \<Longrightarrow> unat (fst e mod num) = i"
  shows "length (fold (chain_move num) es cs) = unat num \<and>
    mset (concat (fold (chain_move num) es cs)) = mset (concat cs) + mset es \<and>
    (\<forall>i < unat num. \<forall>e\<in>set (fold (chain_move num) es cs ! i). unat (fst e mod num) = i)"
  using assms
proof (induction es arbitrary: cs)
  case (Cons e es)
  let ?j = "unat (fst e mod num)"
  have j: "?j < length cs" using Cons.prems(1,2) mod_less_unat by simp
  have m: "mset (concat (chain_move num e cs)) = mset (concat cs) + {#e#}"
    using mset_concat_snoc [OF j, of e] by (simp add: chain_move_def Let_def del: mset_concat concat.simps)
  have l: "length (chain_move num e cs) = length cs" by (simp add: chain_move_def Let_def)
  have k: "unat (fst e' mod num) = i" if "i < length (chain_move num e cs)" "e' \<in> set (chain_move num e cs ! i)" for i e'
    using that Cons.prems(3) [of i e'] j unfolding l by (cases "i = ?j") (auto simp: chain_move_def Let_def)
  have "length (chain_move num e cs) = unat num" using l Cons.prems(2) by simp
  from Cons.IH [OF Cons.prems(1) this k] show ?case using m by simp
qed simp

lemma it_expand_rep:
  assumes r: "it_rep t M" and n: "length (it_chains t) \<le> 2 ^ 21"
  shows "it_rep (it_expand t) M"
proof -
  let ?num = "it_num t * 2" and ?e = "replicate (unat (it_num t * 2)) [] :: chain list"
  have "?num = of_nat (2 * length (it_chains t))" by (simp add: it_num_def)
  then have u: "unat ?num = 2 * length (it_chains t)" using n by (simp add: unat_of_nat_small del: of_nat_mult)
  then have nz: "?num \<noteq> 0" using it_repE(5) [OF r] by (metis length_greater_0_conv mult_is_0 not_gr_zero unat_0 zero_neq_numeral)
  have fl: "fold (fold f) css = fold f (concat css)" for f :: "u32 \<times> addr \<Rightarrow> chain list \<Rightarrow> chain list" and css
    by (induction css) auto
  have *: "concat ?e = []" by simp
  note m = chain_moves [OF nz, of ?e "concat (it_chains t)", unfolded fl [symmetric], simplified]
  have l: "it_chains (it_expand t) = fold (fold (chain_move ?num)) (it_chains t) ?e" by (simp add: it_expand_def Let_def)
  have ix: "it_index (it_expand t) k = unat (k mod ?num)" for k
    using m by (simp add: it_index_def it_num_def l)
  show ?thesis
  proof (rule it_repI [of _ "concat (it_chains t)"])
    show "0 < length (it_chains (it_expand t))" "length (it_chains (it_expand t)) \<le> 2 ^ 22"
      using m u n it_repE(5) [OF r] l by auto
    show "mset (concat (it_chains (it_expand t))) = mset (concat (it_chains t))" using m l by simp
    show "it_index (it_expand t) (fst e) = i" if "i < length (it_chains (it_expand t))" "e \<in> set (it_chains (it_expand t) ! i)" for i e
      using m that ix l by auto
    show "it_size (it_expand t) = of_nat (length (concat (it_chains t)))"
      using it_repE(7) [OF r] by (simp add: it_expand_def Let_def)
  qed (use it_repE(1,3,4) [OF r] in simp_all)
qed

lemma chain_upd_rep:
  assumes r: "it_rep t M" and c: "\<And>e. e \<in> set c' \<Longrightarrow> it_index t (fst e) = it_index t k"
    and m: "mset c' + mset A = mset (it_chains t ! it_index t k) + mset B" "mset es + mset A = mset (concat (it_chains t)) + mset B"
    and d: "distinct (map fst es)" "length es \<le> 2 ^ 20" "sz = of_nat (length es)" "\<And>k v. M' k = Some v \<longleftrightarrow> (k, v) \<in> set es"
  shows "it_rep (t\<lparr>it_chains := (it_chains t)[it_index t k := c'], it_size := sz\<rparr>) M'"
proof -
  let ?i = "it_index t k"
  let ?t = "t\<lparr>it_chains := (it_chains t)[?i := c'], it_size := sz\<rparr>"
  note ch = it_rep_chain(2) [OF r, of k] and e = it_repE [OF r]
  have ix: "it_index ?t = it_index t" by (simp add: it_index_upd)
  have "mset (concat ((it_chains t)[?i := c'])) + mset (it_chains t ! ?i) + mset A + mset B = mset es + mset (it_chains t ! ?i) + mset A + mset B"
    using mset_concat_update [OF ch, of c'] m by (metis (no_types, lifting) add.assoc add.commute)
  then have "mset (concat (it_chains ?t)) = mset es" by simp
  then show ?thesis
  proof (rule it_repI [rotated 3])
    show "it_index ?t (fst x) = j" if "j < length (it_chains ?t)" "x \<in> set (it_chains ?t ! j)" for j x
      using that e(2) [of j x] c [of x] unfolding ix by (cases "j = ?i") auto
  qed (use e(5,6) d in simp_all)
qed

lemma sint_of_nat_small: "n < 2 ^ 31 \<Longrightarrow> sint (of_nat n :: u32) = int n"
  using int_word_sint [where ?'a = 32, of "int n"] by simp

lemma load_bound: "\<lbrakk>3 * int a < 4 * int (Suc b); b < 1048576\<rbrakk> \<Longrightarrow> a \<le> 2097152"
  by simp

lemma it_put_rep:
  assumes r: "it_rep t M" and room: "it_room t"
  shows "fst (it_put t k v) = value_of (M k)" "it_rep (snd (it_put t k v)) (M(k \<mapsto> v))"
proof -
  let ?i = "it_index t k" and ?all = "concat (it_chains t)"
  let ?c = "it_chains t ! ?i"
  note ch = it_rep_chain [OF r, of k] and e = it_repE [OF r]
  have cs: "it_index t (fst x) = ?i" if "x \<in> set ?c" for x using e(2) [OF ch(2) that] .
  have len: "length ?all < 2 ^ 20" using room e(4,7) unat_of_nat_small [of "length ?all"]
    by (simp add: it_room_def word_less_nat_alt del: length_concat)
  show "fst (it_put t k v) = value_of (M k)"
    using ch(1) by (simp add: it_put_def Let_def split: option.splits)
  show "it_rep (snd (it_put t k v)) (M(k \<mapsto> v))"
  proof (cases "M k")
    case (Some old)
    then obtain xs ys where split: "?all = xs @ (k, old) # ys" using e(1) by (metis split_list)
    let ?es = "xs @ (k, v) # ys"
    have cs': "it_index t (fst x) = ?i" if "x \<in> set (chain_set ?c k v)" for x
      using chain_keys(1) [OF that] cs by blast
    have "it_rep (t\<lparr>it_chains := (it_chains t)[?i := chain_set ?c k v], it_size := it_size t\<rparr>) (M(k \<mapsto> v))"
    proof (rule chain_upd_rep [OF r cs', where A = "[(k, old)]" and B = "[(k, v)]" and es = ?es])
      show "mset (chain_set ?c k v) + mset [(k, old)] = mset ?c + mset [(k, v)]"
        using chain_set_mset [of ?c k old v] Some ch(1) by simp
      show "(M(k \<mapsto> v)) k' = Some v' \<longleftrightarrow> (k', v') \<in> set ?es" for k' v'
        using e(1) [of k' v'] e(3) unfolding split by (auto simp: rev_image_eqI)
    qed (use e(3,4,7) split in auto)
    then show ?thesis using Some ch(1) by (simp add: it_put_def Let_def)
  next
    case None
    let ?t = "t\<lparr>it_chains := (it_chains t)[?i := ?c @ [(k, v)]], it_size := it_size t + 1\<rparr>"
    have "k \<notin> fst ` set ?all" using None r by (simp add: it_rep_def map_of_eq_None_iff del: set_concat)
    then have "(M(k \<mapsto> v)) k' = Some v' \<longleftrightarrow> (k', v') \<in> set ((k, v) # ?all)" "distinct (map fst ((k, v) # ?all))" for k' v'
      using e(1) [of k' v'] e(3) by (cases "k' = k"; force simp del: set_concat)+
    then have rep: "it_rep ?t (M(k \<mapsto> v))"
      by (intro chain_upd_rep [OF r, where A = "[]" and B = "[(k, v)]" and es = "(k, v) # ?all"])
         (use cs e(7) len in \<open>auto simp del: length_concat set_concat\<close>)
    have "it_rep (it_expand ?t) (M(k \<mapsto> v))" if x: "exceeds_load (it_size ?t) (it_num ?t)"
    proof (rule it_expand_rep [OF rep])
      have "it_size ?t = of_nat (Suc (length ?all))" "it_num ?t = of_nat (length (it_chains t))"
        using e(7) by (simp_all add: it_num_def del: length_concat)
      then have "3 * int (length (it_chains t)) < 4 * int (Suc (length ?all))"
        using x len e(6) by (simp add: exceeds_load_def sint_of_nat_small del: length_concat of_nat_Suc)
      from load_bound [OF this] show "length (it_chains ?t) \<le> 2 ^ 21" using len by simp
    qed
    then show ?thesis using rep None ch(1) by (simp add: it_put_def Let_def)
  qed
qed

lemma it_remove_rep:
  assumes r: "it_rep t M"
  shows "fst (it_remove t k) = value_of (M k)" "it_rep (snd (it_remove t k)) (M(k := None))"
proof -
  let ?i = "it_index t k" and ?all = "concat (it_chains t)"
  let ?c = "it_chains t ! ?i"
  note ch = it_rep_chain [OF r, of k] and e = it_repE [OF r]
  show "fst (it_remove t k) = value_of (M k)"
    using ch(1) by (simp add: it_remove_def Let_def split: option.splits)
  show "it_rep (snd (it_remove t k)) (M(k := None))"
  proof (cases "M k")
    case (Some old)
    then obtain xs ys where split: "?all = xs @ (k, old) # ys" using e(1) by (metis split_list)
    note del = chain_del_mset [of ?c k old]
    have cs': "it_index t (fst x) = ?i" if "x \<in> set (chain_del ?c k)" for x
      using chain_keys(2) [OF that] e(2) [OF ch(2)] by blast
    have "it_rep (t\<lparr>it_chains := (it_chains t)[?i := chain_del ?c k], it_size := it_size t - 1\<rparr>) (M(k := None))"
    proof (rule chain_upd_rep [OF r cs', where A = "[(k, old)]" and B = "[]" and es = "xs @ ys"])
      show "mset (chain_del ?c k) + mset [(k, old)] = mset ?c + mset []" using del Some ch(1) by simp
      show "(M(k := None)) k' = Some v' \<longleftrightarrow> (k', v') \<in> set (xs @ ys)" for k' v'
        using e(1) [of k' v'] e(3) unfolding split by (auto simp: rev_image_eqI)
    qed (use e(3,4,7) split in auto)
    then show ?thesis using Some ch(1) by (simp add: it_remove_def Let_def)
  next
    case None
    then have "M(k := None) = M" by auto
    then show ?thesis using None ch(1) r by (simp add: it_remove_def Let_def)
  qed
qed

lemma it_init_rep: "it_rep it_init Map.empty"
  by (rule it_repI [of _ "[]"]) (auto simp: it_init_def INITIAL_BUCKETS_NUM_def)

lemma it_get_first_rep:
  assumes "it_rep t M" "M \<noteq> Map.empty"
  shows "\<exists>k. M k = Some (it_get_first t)"
proof -
  have "concat cs \<noteq> [] \<Longrightarrow> first_entry cs = snd (hd (concat cs))" for cs :: "chain list"
    by (induction cs rule: first_entry.induct) auto
  moreover have ne: "concat (it_chains t) \<noteq> []" "it_size t \<noteq> 0"
    using assms it_rep_size(2) [OF assms(1)] by (auto simp: it_rep_def simp del: concat_eq_Nil_conv)
  ultimately have "it_get_first t = snd (hd (concat (it_chains t)))" by (simp add: it_get_first_def)
  then show ?thesis using it_repE(1) [OF assms(1), of "fst (hd (concat (it_chains t)))"] ne(1)
    by (metis hd_in_set surjective_pairing)
qed

text \<open>The chains are another provider of the contract that the tables in memory satisfy.\<close>

interpretation idm: ptr_map it_rep "\<lambda>t k. Some (it_get t k)" "\<lambda>_. \<lambda>t k v. Some (it_put t k v)" "\<lambda>t k. Some (it_remove t k)" "\<lambda>_. it_room"
proof (unfold_locales, goal_cases)
  case (1 s M k)
  then show ?case by (simp add: it_get_rep)
next
  case (2 s M a k v)
  then show ?case using it_put_rep [OF 2, of k v] by (metis prod.collapse)
next
  case (3 s M k)
  then show ?case using it_remove_rep [OF 3, of k] by (metis prod.collapse)
qed

end
