(* ===== verification/Process.thy ===== *)
theory Process
  imports Thread Id_Map Page_Release
begin

text \<open>
  Processes, \<^verbatim>\<open>src/src/task/process.c\<close>: creation, \<^verbatim>\<open>fork\<close>, \<^verbatim>\<open>wait\<close>, \<^verbatim>\<open>exit\<close> and
  destruction, over the threads, the scheduler and the address space of the other theories, with the parts of
  \<^verbatim>\<open>src/src/task/scheduler.c\<close> that create the first processes and reclaim dead ones. The addresses that
  \<^verbatim>\<open>kmalloc\<close> returns for control blocks are arguments. \<open>None\<close> means that a lock is held by another
  thread. The page directory of a process is its frame, \<^verbatim>\<open>page_directory_entries / PAGE_SIZE\<close>.
\<close>

section \<open>State\<close>

datatype process_status = PROCESS_NORMAL | PROCESS_EXIT | PROCESS_EXIT_ZOMBIE

text \<open>A queue of \<^verbatim>\<open>wait_node_t\<close> is the list of its nodes; \<open>task\<close> is the scheduler node of the waiting thread.\<close>

record wait_node_t =
  task :: addr
  target_pid :: u32

record pcb_t =
  pid :: u32
  process_name :: "u8 list"
  parent :: addr
  process_status :: process_status
  process_threads :: id_table
  user_thread_stack_indexes :: bitmap_t
  is_kernel_process :: bool
  exit_code :: u32
  children_processes :: id_table
  exit_children_processes :: id_table
  exit_wait_queue :: "wait_node_t list"
  wait_any_exit_queue :: "wait_node_t list"
  waiting_threads_count :: u32
  page_dir :: nat
  page_dir_lock :: yieldlock_t
  process_lock :: yieldlock_t

record kernel =
  k_threads :: threads
  pcbs :: "addr \<Rightarrow> pcb_t"
  process_id_pool :: id_pool_t
  processes_map :: id_table
  processes_map_lock :: yieldlock_t
  main_process :: addr
  init_process :: addr
  kernel_clean_node :: addr

abbreviation k_vm :: "kernel \<Rightarrow> vm" where "k_vm k \<equiv> t_vm (k_threads k)"
abbreviation k_sched :: "kernel \<Rightarrow> sched" where "k_sched k \<equiv> t_sched (k_threads k)"

definition upd_pcb :: "addr \<Rightarrow> (pcb_t \<Rightarrow> pcb_t) \<Rightarrow> kernel \<Rightarrow> kernel" where
  "upd_pcb p f k = k\<lparr>pcbs := (pcbs k)(p := f (pcbs k p))\<rparr>"

definition set_vm :: "vm \<Rightarrow> kernel \<Rightarrow> kernel" where
  "set_vm v k = k\<lparr>k_threads := (k_threads k)\<lparr>t_vm := v\<rparr>\<rparr>"

text \<open>
  A new scheduler state. When a switch has selected another process, \<^verbatim>\<open>process_switch\<close> has loaded its
  page directory.
\<close>

definition set_sched :: "sched \<Rightarrow> kernel \<Rightarrow> kernel" where
  "set_sched s k =
     (let k' = k\<lparr>k_threads := (k_threads k)\<lparr>t_sched := s\<rparr>\<rparr>
      in if current_dir s \<noteq> current_dir (k_sched k)
         then set_vm (switch_page_dir (page_dir (pcbs k (current_dir s))) (k_vm k)) k' else k')"

definition on_sched :: "(sched \<Rightarrow> sched kres) \<Rightarrow> kernel \<Rightarrow> kernel kres option" where
  "on_sched f k = Some (kbind (f (k_sched k)) (\<lambda>s. Inr (set_sched s k)))"

definition on_sched_lock :: "(sched \<Rightarrow> sched kres option) \<Rightarrow> kernel \<Rightarrow> kernel kres option" where
  "on_sched_lock f k = obind (f (k_sched k)) (\<lambda>s. Some (Inr (set_sched s k)))"

definition on_vm :: "(vm \<Rightarrow> vm kres) \<Rightarrow> kernel \<Rightarrow> kernel kres option" where
  "on_vm f k = Some (kbind (f (k_vm k)) (\<lambda>v. Inr (set_vm v k)))"

definition lock_process :: "addr \<Rightarrow> kernel \<Rightarrow> kernel kres option" where
  "lock_process p k =
     (let (ok, l) = yieldlock_trylock (process_lock (pcbs k p))
      in if ok then Some (Inr (upd_pcb p (\<lambda>c. c\<lparr>process_lock := l\<rparr>) k)) else None)"

definition unlock_process :: "addr \<Rightarrow> kernel \<Rightarrow> kernel" where
  "unlock_process p = upd_pcb p (\<lambda>c. c\<lparr>process_lock := yieldlock_unlock (process_lock c)\<rparr>)"

definition the_crt_process :: "kernel \<Rightarrow> addr kres option" where
  "the_crt_process k = Some (get_crt_process (k_sched k))"

definition the_crt_thread :: "kernel \<Rightarrow> addr kres option" where
  "the_crt_thread k = Some (get_crt_thread (k_sched k))"

definition oassert :: "bool \<Rightarrow> string \<Rightarrow> 'a kres option \<Rightarrow> 'a kres option" where
  "oassert c what r = (if c then r else Some (Inl (Assert_failed what)))"

section \<open>Creating processes\<close>

definition PROCESS_NUM :: u32 where "PROCESS_NUM = 1024"
definition MAX_PROCESS_NUM :: u32 where "MAX_PROCESS_NUM = 16384"
definition USER_PRCOESS_THREDS_MAX :: u32 where "USER_PRCOESS_THREDS_MAX = 4096"
definition THREAD_DEFAULT_PRIORITY :: u32 where "THREAD_DEFAULT_PRIORITY = 10"

definition init_process_manager :: "(u32 \<Rightarrow> u32 list option) \<Rightarrow> kernel \<Rightarrow> kernel kres" where
  "init_process_manager kmalloc k =
     kbind (id_pool_init kmalloc (process_id_pool k) PROCESS_NUM MAX_PROCESS_NUM) (\<lambda>pool.
       Inr (k\<lparr>process_id_pool := pool\<rparr>))"

definition zero_bitmap :: bitmap_t where
  "zero_bitmap = \<lparr>bitarray = [], alloc_array = False, arraysize = 0, totalbits = 0\<rparr>"

definition zero_pcb :: pcb_t where
  "zero_pcb = \<lparr>pid = 0, process_name = [], parent = NULL, process_status = PROCESS_NORMAL,
     process_threads = \<lparr>it_size = 0, it_chains = []\<rparr>, user_thread_stack_indexes = zero_bitmap, is_kernel_process = False,
     exit_code = 0, children_processes = \<lparr>it_size = 0, it_chains = []\<rparr>, exit_children_processes = \<lparr>it_size = 0, it_chains = []\<rparr>,
     exit_wait_queue = [], wait_any_exit_queue = [], waiting_threads_count = 0, page_dir = 0,
     page_dir_lock = \<lparr>hold = 0\<rparr>, process_lock = \<lparr>hold = 0\<rparr>\<rparr>"

text \<open>\<^verbatim>\<open>"process-%u"\<close>.\<close>

definition default_process_name :: "u32 \<Rightarrow> u8 list" where
  "default_process_name i = [112, 114, 111, 99, 101, 115, 115, 45] @ dec_text (unat i)"

text \<open>
  \<open>a_pcb\<close> is the new control block, \<open>kmalloc\<close> and \<open>raw\<close> supply the bitmap. The result is the process, or null
  when there is no id left.
\<close>

definition create_process ::
  "(u32 \<Rightarrow> u32 list option) \<Rightarrow> bitmap_t \<Rightarrow> addr \<Rightarrow> u8 list option \<Rightarrow> bool \<Rightarrow> kernel \<Rightarrow> (addr \<times> kernel) kres option" where
  "create_process kmalloc raw a_pcb nm is_kernel k =
     (let k = upd_pcb a_pcb (\<lambda>_. zero_pcb) k
      in case id_pool_allocate_id (\<lambda>p. p) (process_id_pool k) of
           None \<Rightarrow> None
         | Some (None, pool) \<Rightarrow> Some (Inr (NULL, k\<lparr>process_id_pool := pool\<rparr>))
         | Some (Some i, pool) \<Rightarrow>
             let k = k\<lparr>process_id_pool := pool\<rparr>;
                 k = upd_pcb a_pcb (\<lambda>c. c\<lparr>pid := i,
                       process_name := (case nm of Some n \<Rightarrow> n | None \<Rightarrow> default_process_name i),
                       parent := NULL, process_status := PROCESS_NORMAL, process_threads := it_init\<rparr>) k
             in obind (Some (bitmap_create kmalloc raw None USER_PRCOESS_THREDS_MAX)) (\<lambda>b.
                let k = upd_pcb a_pcb (\<lambda>c. c\<lparr>user_thread_stack_indexes := b, is_kernel_process := is_kernel,
                       exit_code := 0, children_processes := it_init, exit_children_processes := it_init,
                       exit_wait_queue := [], wait_any_exit_queue := [], waiting_threads_count := 0\<rparr>) k
                in obind (Some (clone_crt_page_dir (k_vm k))) (\<lambda>(dir, v).
                     Some (Inr (a_pcb, upd_pcb a_pcb (\<lambda>c. c\<lparr>page_dir := dir,
                       page_dir_lock := yieldlock_init (page_dir_lock c),
                       process_lock := yieldlock_init (process_lock c)\<rparr>) (set_vm v k))))))"

definition add_new_process :: "addr \<Rightarrow> kernel \<Rightarrow> kernel kres option" where
  "add_new_process p k =
     (let (ok, l) = yieldlock_trylock (processes_map_lock k)
      in if ok then
           let k = k\<lparr>processes_map_lock := l\<rparr>;
               k = k\<lparr>processes_map := snd (it_put (processes_map k) (pid (pcbs k p)) p)\<rparr>
           in Some (Inr (k\<lparr>processes_map_lock := yieldlock_unlock (processes_map_lock k)\<rparr>))
         else None)"

definition create_and_add_process ::
  "(u32 \<Rightarrow> u32 list option) \<Rightarrow> bitmap_t \<Rightarrow> addr \<Rightarrow> u8 list option \<Rightarrow> bool \<Rightarrow> kernel \<Rightarrow> (addr \<times> kernel) kres option" where
  "create_and_add_process kmalloc raw a_pcb nm is_kernel k =
     obind (create_process kmalloc raw a_pcb nm is_kernel k) (\<lambda>(p, k).
     obind (add_new_process p k) (\<lambda>k. Some (Inr (p, k))))"

section \<open>Threads and children of a process\<close>

definition add_process_thread :: "addr \<Rightarrow> addr \<Rightarrow> kernel \<Rightarrow> kernel kres option" where
  "add_process_thread p thread k =
     (let k = k\<lparr>k_threads := put_tcb thread (\<lambda>t. t\<lparr>process := p\<rparr>) (k_threads k)\<rparr>
      in obind (lock_process p k) (\<lambda>k.
           Some (Inr (unlock_process p
             (upd_pcb p (\<lambda>c. c\<lparr>process_threads := snd (it_put (process_threads c) (thread_id (tcbs (k_sched k) thread)) thread)\<rparr>) k)))))"

definition remove_process_thread :: "addr \<Rightarrow> addr \<Rightarrow> kernel \<Rightarrow> kernel kres option" where
  "remove_process_thread p thread k =
     obind (lock_process p k) (\<lambda>k.
       let (remove_thread, t) = it_remove (process_threads (pcbs k p)) (thread_id (tcbs (k_sched k) thread));
           k = upd_pcb p (\<lambda>c. c\<lparr>process_threads := t\<rparr>) k
       in oassert (remove_thread = thread) ''remove_thread == new_thread''
            (let k = k\<lparr>k_threads := put_tcb thread (\<lambda>t. t\<lparr>process := NULL\<rparr>) (k_threads k)\<rparr>;
                 index = user_stack_index (tcbs (k_sched k) thread);
                 k = (if sint index \<ge> 0
                      then upd_pcb p (\<lambda>c. c\<lparr>user_thread_stack_indexes := bitmap_clear_bit (user_thread_stack_indexes c) index\<rparr>) k
                      else k)
             in Some (Inr (unlock_process p k))))"

definition add_child_process :: "addr \<Rightarrow> addr \<Rightarrow> kernel \<Rightarrow> kernel kres option" where
  "add_child_process p child k =
     obind (lock_process p k) (\<lambda>k.
       Some (Inr (unlock_process p
         (upd_pcb p (\<lambda>c. c\<lparr>children_processes := snd (it_put (children_processes c) (pid (pcbs k child)) child)\<rparr>) k))))"

text \<open>A call of \<^verbatim>\<open>init_thread\<close> or \<^verbatim>\<open>fork_crt_thread\<close> on the threads of the kernel.\<close>

definition on_threads :: "(threads \<Rightarrow> ('a \<times> threads) kres option) \<Rightarrow> kernel \<Rightarrow> ('a \<times> kernel) kres option" where
  "on_threads f k = obind (f (k_threads k)) (\<lambda>(r, t). Some (Inr (r, k\<lparr>k_threads := t\<rparr>)))"

definition create_new_kernel_thread ::
  "u32 \<Rightarrow> u32 \<Rightarrow> addr \<Rightarrow> addr \<Rightarrow> u8 list option \<Rightarrow> u32 \<Rightarrow> kernel \<Rightarrow> (addr \<times> kernel) kres option" where
  "create_new_kernel_thread kernel_thread switch_to_user_mode a_tcb p nm func k =
     obind (on_threads (init_thread kernel_thread switch_to_user_mode a_tcb NULL nm func THREAD_DEFAULT_PRIORITY False) k)
       (\<lambda>(new_thread, k). obind (add_process_thread p new_thread k) (\<lambda>k. Some (Inr (new_thread, k))))"

section \<open>Fork\<close>

definition process_fork ::
  "u32 \<Rightarrow> (u32 \<Rightarrow> u32 list option) \<Rightarrow> bitmap_t \<Rightarrow> addr \<Rightarrow> addr \<Rightarrow> kernel \<Rightarrow> (u32 \<times> kernel) kres option" where
  "process_fork syscall_fork_exit kmalloc raw a_pcb a_tcb k =
     obind (create_process kmalloc raw a_pcb None False k) (\<lambda>(new_process, k).
     obind (the_crt_process k) (\<lambda>parent_process.
     obind (add_child_process parent_process new_process k) (\<lambda>k.
     let k = upd_pcb new_process (\<lambda>c. c\<lparr>parent := parent_process\<rparr>) k
     in obind (on_threads (fork_crt_thread syscall_fork_exit a_tcb) k) (\<lambda>(new_thread, k).
        oassert (new_thread \<noteq> NULL) ''new_thread != NULL''
          (obind (add_process_thread new_process new_thread k) (\<lambda>k.
           obind (add_new_process new_process k) (\<lambda>k.
           let index = user_stack_index (tcbs (k_sched k) new_thread);
               k = upd_pcb new_process (\<lambda>c. c\<lparr>user_thread_stack_indexes := bitmap_set_bit (user_thread_stack_indexes c) index\<rparr>) k
           in obind (on_sched (add_thread_node_to_schedule (crt_node_ptr (tcbs (k_sched k) new_thread))) k) (\<lambda>k.
                Some (Inr (pid (pcbs k new_process), k))))))))))"

section \<open>Waiting for a child\<close>

text \<open>
  The loop of \<^verbatim>\<open>process_wait\<close>, one pass at a time, entered with the lock of the process held. \<open>counted\<close> is
  the local variable \<^verbatim>\<open>counted_waiter\<close>; \<^verbatim>\<open>in_queue\<close> is false at the start of every pass. A pass ends with
  the result -1, with the child that has been found, or with the thread blocked and another one running.
\<close>

datatype wait_end = Wait_fails | Wait_found addr | Wait_blocks

definition uncount_waiter :: "bool \<Rightarrow> addr \<Rightarrow> kernel \<Rightarrow> kernel kres option" where
  "uncount_waiter counted p k =
     (if counted then
        oassert (waiting_threads_count (pcbs k p) > 0) ''process->waiting_threads_count > 0''
          (Some (Inr (upd_pcb p (\<lambda>c. c\<lparr>waiting_threads_count := waiting_threads_count c - 1\<rparr>) k)))
      else Some (Inr k))"

text \<open>The removal of an exited child, \<^verbatim>\<open>pid\<close> 0 standing for any. The child is null when there is none.\<close>

definition take_exited :: "addr \<Rightarrow> u32 \<Rightarrow> kernel \<Rightarrow> (addr \<times> kernel) kres option" where
  "take_exited p target k =
     (let exit_children = exit_children_processes (pcbs k p)
      in if sint (it_size exit_children) > 0 then
           if target = 0 then
             let child = it_get_first exit_children
             in oassert (child \<noteq> NULL) ''child != NULL''
                  (let (child, t) = it_remove exit_children (pid (pcbs k child))
                   in oassert (child \<noteq> NULL) ''child != NULL''
                        (Some (Inr (child, upd_pcb p (\<lambda>c. c\<lparr>exit_children_processes := t\<rparr>) k))))
           else
             let (child, t) = it_remove exit_children target
             in Some (Inr (child, upd_pcb p (\<lambda>c. c\<lparr>exit_children_processes := t\<rparr>) k))
         else Some (Inr (NULL, k)))"

definition join_wait_queue :: "addr \<Rightarrow> u32 \<Rightarrow> addr \<Rightarrow> kernel \<Rightarrow> kernel kres option" where
  "join_wait_queue p target node k =
     (let my_node = \<lparr>task = node, target_pid = target\<rparr>
      in if target = 0 then
           Some (Inr (upd_pcb p (\<lambda>c. c\<lparr>wait_any_exit_queue := my_node # wait_any_exit_queue c\<rparr>) k))
         else
           let wait_child = it_get (children_processes (pcbs k p)) target
           in obind (lock_process wait_child k) (\<lambda>k.
                Some (Inr (unlock_process wait_child
                  (upd_pcb wait_child (\<lambda>c. c\<lparr>exit_wait_queue := my_node # exit_wait_queue c\<rparr>) k)))))"

definition process_wait_pass :: "addr \<Rightarrow> u32 \<Rightarrow> addr \<Rightarrow> bool \<Rightarrow> kernel \<Rightarrow> (wait_end \<times> bool \<times> kernel) kres option" where
  "process_wait_pass p target node counted k =
     (if it_size (children_processes (pcbs k p)) = 0 \<or>
         (sint target > 0 \<and> it_get (children_processes (pcbs k p)) target = NULL)
      then obind (uncount_waiter counted p k) (\<lambda>k. Some (Inr (Wait_fails, counted, unlock_process p k)))
      else
        obind (take_exited p target k) (\<lambda>(child, k).
          if child \<noteq> NULL then Some (Inr (Wait_found child, counted, k))
          else
            let k = (if counted then k
                     else upd_pcb p (\<lambda>c. c\<lparr>waiting_threads_count := waiting_threads_count c + 1\<rparr>) k)
            in obind (join_wait_queue p target node k) (\<lambda>k.
               obind (on_sched (\<lambda>s. Inr (schedule_mark_thread_block s)) k) (\<lambda>k.
               obind (on_sched (\<lambda>s. kbind (schedule_thread_yield s) (\<lambda>(_, s). Inr s)) (unlock_process p k)) (\<lambda>k.
                 Some (Inr (Wait_blocks, True, k)))))))"

text \<open>
  A store of the kernel to a user address. A page that is not mapped is mapped by the page fault handler (write
  access of the supervisor, not present: error code 2), and the store is repeated.
\<close>

definition kernel_store :: "u32 \<Rightarrow> u32 \<Rightarrow> vm \<Rightarrow> vm kres" where
  "kernel_store a w s =
     (case walk s a of None \<Rightarrow> kbind (pagefault_handler True [] 2 a s) (vwrite a w) | Some _ \<Rightarrow> vwrite a w s)"

text \<open>
  What follows the loop: the child leaves the table of children, its exit code is stored, and it is handed to
  the clean-up thread. \<open>node\<close> is the list node allocated for it.
\<close>

definition process_wait_reap :: "addr \<Rightarrow> addr \<Rightarrow> addr \<Rightarrow> bool \<Rightarrow> addr \<Rightarrow> kernel \<Rightarrow> kernel kres option" where
  "process_wait_reap node p child counted status_ptr k =
     oassert (child \<noteq> NULL) ''child != NULL''
       (let (removed, t) = it_remove (children_processes (pcbs k p)) (pid (pcbs k child));
            k = upd_pcb p (\<lambda>c. c\<lparr>children_processes := t\<rparr>) k
        in oassert (removed = child) ''removed == child''
             (obind (if status_ptr \<noteq> NULL then on_vm (kernel_store status_ptr (exit_code (pcbs k child))) k else Some (Inr k)) (\<lambda>k.
              obind (uncount_waiter counted p k) (\<lambda>k.
                on_sched_lock (add_dead_process node child) (unlock_process p k)))))"

text \<open>
  The first part of \<^verbatim>\<open>process_wait\<close> up to its first block or its return: the value returned, or \<open>None\<close> when
  the caller has blocked. A blocked caller that runs again continues with \<open>process_wait_resume\<close>, which takes the
  lock and makes the next pass.
\<close>

definition process_wait_from :: "addr \<Rightarrow> addr \<Rightarrow> u32 \<Rightarrow> addr \<Rightarrow> addr \<Rightarrow> bool \<Rightarrow> kernel \<Rightarrow> (int option \<times> kernel) kres option" where
  "process_wait_from node p target status_ptr thread_node counted k =
     obind (lock_process p k) (\<lambda>k.
     obind (process_wait_pass p target thread_node counted k) (\<lambda>(e, counted, k).
       case e of
         Wait_fails \<Rightarrow> Some (Inr (Some (- 1), k))
       | Wait_blocks \<Rightarrow> Some (Inr (None, k))
       | Wait_found child \<Rightarrow> obind (process_wait_reap node p child counted status_ptr k) (\<lambda>k. Some (Inr (Some 0, k)))))"

definition process_wait :: "addr \<Rightarrow> u32 \<Rightarrow> addr \<Rightarrow> kernel \<Rightarrow> (int option \<times> kernel) kres option" where
  "process_wait node target status_ptr k =
     oassert (sint target \<ge> 0) ''pid >= 0''
       (obind (the_crt_process k) (\<lambda>p.
        obind (Some (get_crt_thread_node (k_sched k))) (\<lambda>thread_node.
          process_wait_from node p target status_ptr thread_node False k)))"

definition process_wait_resume :: "addr \<Rightarrow> addr \<Rightarrow> u32 \<Rightarrow> addr \<Rightarrow> addr \<Rightarrow> kernel \<Rightarrow> (int option \<times> kernel) kres option" where
  "process_wait_resume node p target status_ptr thread_node k =
     process_wait_from node p target status_ptr thread_node True k"

section \<open>Exit\<close>

fun clear_threads :: "addr \<Rightarrow> addr list \<Rightarrow> kernel \<Rightarrow> kernel kres option" where
  "clear_threads crt [] k = Some (Inr k)"
| "clear_threads crt (t # ts) k =
     (if t \<noteq> crt then
        obind (on_sched (remove_thread_from_current_queue t) k) (\<lambda>k.
        obind (on_sched_lock (add_dead_tasks (crt_node_ptr (tcbs (k_sched k) t))) k) (\<lambda>k.
          clear_threads crt ts (k\<lparr>k_threads := put_tcb t (\<lambda>t. t\<lparr>status := TASK_DEAD\<rparr>) (k_threads k)\<rparr>)))
      else clear_threads crt ts k)"

definition clear_crt_process_other_thread_locked :: "kernel \<Rightarrow> kernel kres option" where
  "clear_crt_process_other_thread_locked k =
     obind (the_crt_process k) (\<lambda>p.
     obind (the_crt_thread k) (\<lambda>crt.
     obind (clear_threads crt (it_values (process_threads (pcbs k p))) k) (\<lambda>k.
       Some (Inr (upd_pcb p (\<lambda>c. c\<lparr>process_threads := snd (it_put it_init (thread_id (tcbs (k_sched k) crt)) crt),
                                  user_thread_stack_indexes := bitmap_clear (user_thread_stack_indexes c)\<rparr>) k)))))"

definition release_crt_process_resources_locked :: "kernel \<Rightarrow> kernel kres option" where
  "release_crt_process_resources_locked k =
     obind (the_crt_process k) (\<lambda>p.
       on_vm release_user_space_pages
         (upd_pcb p (\<lambda>c. c\<lparr>process_threads := it_destroy (process_threads c),
              exit_children_processes := it_destroy (exit_children_processes c),
              children_processes := it_destroy (children_processes c)\<rparr>) k))"

text \<open>
  The two loops that hand the children to the init process, \<open>None\<close> if they never end. The first moves living
  and exited children alike; the second sees the exited ones again.
\<close>

partial_function (option) move_children :: "addr \<Rightarrow> addr \<Rightarrow> (addr \<Rightarrow> pcb_t) \<Rightarrow> (addr \<Rightarrow> pcb_t) kres option" where
  "move_children p ini P =
     (if sint (it_size (children_processes (P p))) > 0 then
        let child = it_get_first (children_processes (P p))
        in if child = NULL then Some (Inl (Assert_failed ''child != NULL''))
           else
             let (child, t) = it_remove (children_processes (P p)) (pid (P child)); P = P(p := (P p)\<lparr>children_processes := t\<rparr>)
             in if child = NULL then Some (Inl (Assert_failed ''child != NULL''))
                else
                  let P = P(child := (P child)\<lparr>parent := ini\<rparr>);
                      P = P(ini := (P ini)\<lparr>children_processes := snd (it_put (children_processes (P ini)) (pid (P child)) child)\<rparr>)
                  in move_children p ini P
      else Some (Inr P))"

partial_function (option) move_exited :: "addr \<Rightarrow> addr \<Rightarrow> (addr \<Rightarrow> pcb_t) \<Rightarrow> (addr \<Rightarrow> pcb_t) kres option" where
  "move_exited p ini P =
     (if sint (it_size (exit_children_processes (P p))) > 0 then
        let child = it_get_first (exit_children_processes (P p))
        in if child = NULL then Some (Inl (Assert_failed ''child != NULL''))
           else
             let (child, t) = it_remove (exit_children_processes (P p)) (pid (P child)); P = P(p := (P p)\<lparr>exit_children_processes := t\<rparr>)
             in if child = NULL then Some (Inl (Assert_failed ''child != NULL''))
                else
                  let P = P(child := (P child)\<lparr>parent := ini\<rparr>);
                      P = P(ini := (P ini)\<lparr>children_processes := snd (it_put (children_processes (P ini)) (pid (P child)) child)\<rparr>);
                      P = P(ini := (P ini)\<lparr>exit_children_processes := snd (it_put (exit_children_processes (P ini)) (pid (P child)) child)\<rparr>)
                  in move_exited p ini P
      else Some (Inr P))"

text \<open>The loops that empty a queue of waiting threads.\<close>

fun wake_waiters :: "u32 \<Rightarrow> wait_node_t list \<Rightarrow> sched \<Rightarrow> sched kres" where
  "wake_waiters target [] s = Inr s"
| "wake_waiters target (w # ws) s =
     kassert (target_pid w = target) ''target_pid'' (kbind (add_thread_node_to_schedule (task w) s) (wake_waiters target ws))"

definition wake_any :: "addr \<Rightarrow> kernel \<Rightarrow> kernel kres option" where
  "wake_any p k =
     obind (on_sched (wake_waiters 0 (wait_any_exit_queue (pcbs k p))) k) (\<lambda>k.
       Some (Inr (upd_pcb p (\<lambda>c. c\<lparr>wait_any_exit_queue := []\<rparr>) k)))"

definition wake_own :: "addr \<Rightarrow> kernel \<Rightarrow> kernel kres option" where
  "wake_own p k =
     obind (on_sched (wake_waiters (pid (pcbs k p)) (exit_wait_queue (pcbs k p))) k) (\<lambda>k.
       Some (Inr (upd_pcb p (\<lambda>c. c\<lparr>exit_wait_queue := []\<rparr>) k)))"

definition exit_clear_threads :: "addr \<Rightarrow> kernel \<Rightarrow> kernel kres option" where
  "exit_clear_threads p k =
     obind (lock_process p k) (\<lambda>k.
       if waiting_threads_count (pcbs k p) > 0 then Some (Inl (Panic ''process_exit: other thread is waiting in process_wait''))
       else
         obind (if sint (it_size (process_threads (pcbs k p))) > 1 then clear_crt_process_other_thread_locked k else Some (Inr k)) (\<lambda>k.
           Some (Inr (unlock_process p k))))"

definition exit_reparent :: "addr \<Rightarrow> kernel \<Rightarrow> kernel kres option" where
  "exit_reparent p k =
     (let ini = init_process k
      in obind (lock_process ini k) (\<lambda>k.
         obind (lock_process p k) (\<lambda>k.
         obind (move_children p ini (pcbs k)) (\<lambda>P.
         obind (move_exited p ini P) (\<lambda>P.
         obind (wake_any ini (k\<lparr>pcbs := P\<rparr>)) (\<lambda>k.
           Some (Inr (unlock_process ini (unlock_process p k)))))))))"

definition exit_release :: "addr \<Rightarrow> addr \<Rightarrow> u32 \<Rightarrow> kernel \<Rightarrow> kernel kres option" where
  "exit_release p thread code k =
     obind (lock_process p k) (\<lambda>k.
       let (removed_thread, t) = it_remove (process_threads (pcbs k p)) (thread_id (tcbs (k_sched k) thread));
           k = upd_pcb p (\<lambda>c. c\<lparr>process_threads := t\<rparr>) k
       in oassert (removed_thread = thread) ''removed_thread == thread''
            (obind (release_crt_process_resources_locked
                      (upd_pcb p (\<lambda>c. c\<lparr>exit_code := code, process_status := PROCESS_EXIT\<rparr>) k)) (\<lambda>k.
               Some (Inr (unlock_process p (k\<lparr>k_threads := put_tcb thread (\<lambda>t. t\<lparr>process := NULL\<rparr>) (k_threads k)\<rparr>))))))"

text \<open>
  An id table allocates its entries on the kernel heap, whose pages the page fault handler maps at their first use. Here
  \<^verbatim>\<open>thread->process\<close> is null already, so the handler, which takes \<^verbatim>\<open>get_crt_thread()->process->page_dir_lock\<close> in
  \<^verbatim>\<open>map_page_with_frame\<close>, faults on the null page itself: the call survives only if the memory for the entry lies in
  pages that are mapped already. \<open>heap_mapped\<close> says whether it does.
\<close>

definition null_page_fault :: kpanic where "null_page_fault = Panic ''Segmentation Fault! Null pointer dereference''"

definition exit_notify :: "bool \<Rightarrow> addr \<Rightarrow> addr \<Rightarrow> kernel \<Rightarrow> kernel kres option" where
  "exit_notify heap_mapped p par k =
     obind (lock_process par k) (\<lambda>k.
     obind (lock_process p k) (\<lambda>k.
       if \<not> heap_mapped then Some (Inl null_page_fault)
       else
         obind (wake_own p (upd_pcb par (\<lambda>c. c\<lparr>exit_children_processes := snd (it_put (exit_children_processes c) (pid (pcbs k p)) p)\<rparr>) k)) (\<lambda>k.
         obind (wake_any par k) (\<lambda>k.
           Some (Inr (unlock_process par (unlock_process p k)))))))"

text \<open>\<^verbatim>\<open>process_exit\<close>, up to the switch to the next thread, from which it does not return.\<close>

definition process_exit :: "bool \<Rightarrow> u32 \<Rightarrow> kernel \<Rightarrow> kernel kres option" where
  "process_exit heap_mapped code k =
     obind (the_crt_process k) (\<lambda>p.
     obind (the_crt_thread k) (\<lambda>thread.
     let par = parent (pcbs k p)
     in oassert (par \<noteq> NULL) ''parent != NULL''
          (oassert (init_process k \<noteq> NULL) ''init_process != NULL''
            (oassert (p \<noteq> init_process k) ''process != get_init_process()''
              (let k = set_sched ((k_sched k)\<lparr>interrupts := False\<rparr>) k
               in obind (exit_clear_threads p k) (\<lambda>k.
                  obind (exit_reparent p k) (\<lambda>k.
                  obind (exit_release p thread code k) (\<lambda>k.
                  obind (exit_notify heap_mapped p par k) (\<lambda>k.
                    on_sched_lock schedule_thread_exit k)))))))))"

text \<open>The clean-up of an exited process; the result names the control block passed to \<^verbatim>\<open>kfree\<close>.\<close>

definition destroy_process :: "addr \<Rightarrow> kernel \<Rightarrow> (addr \<times> kernel) kres option" where
  "destroy_process p k =
     obind (on_vm (release_phy_frame (page_dir (pcbs k p))) k) (\<lambda>k.
       Some (Inr (p, k\<lparr>process_id_pool := id_pool_free_id (process_id_pool k) (pid (pcbs k p))\<rparr>)))"

end
