(* ===== verification/Process_Exit.thy ===== *)
theory Process_Exit
  imports Process
begin

text \<open>
  The end of a process: the tables of children, the waiting threads, and what \<^verbatim>\<open>process_exit\<close> leaves to the
  parent, to the init process and to the scheduler.
\<close>

section \<open>Locks and records\<close>

lemma upd_pcb_simps [simp]:
  "k_threads (upd_pcb p f k) = k_threads k" "init_process (upd_pcb p f k) = init_process k"
  "process_id_pool (upd_pcb p f k) = process_id_pool k" "processes_map (upd_pcb p f k) = processes_map k"
  "processes_map_lock (upd_pcb p f k) = processes_map_lock k" "main_process (upd_pcb p f k) = main_process k"
  "pcbs (upd_pcb p f k) = (pcbs k)(p := f (pcbs k p))"
  by (simp_all add: upd_pcb_def)

lemma upd_pcb_upd [simp]: "upd_pcb p f (upd_pcb p g k) = upd_pcb p (\<lambda>c. f (g c)) k"
  by (simp add: upd_pcb_def)

abbreviation lock_free :: "addr \<Rightarrow> kernel \<Rightarrow> bool" where
  "lock_free p k \<equiv> hold (process_lock (pcbs k p)) = LOCKED_NO"

definition held :: "pcb_t \<Rightarrow> pcb_t" where "held c = c\<lparr>process_lock := \<lparr>hold = LOCKED_YES\<rparr>\<rparr>"

lemma lock_process_free: "lock_free p k \<Longrightarrow> lock_process p k = Some (Inr (upd_pcb p held k))"
  by (cases "process_lock (pcbs k p)") (simp add: lock_process_def yieldlock_defs held_def upd_pcb_def)

lemma lock_process_held: "\<not> lock_free p k \<Longrightarrow> lock_process p k = None"
  by (simp add: lock_process_def yieldlock_defs)

lemma unlock_process_upd: "unlock_process p k = upd_pcb p (\<lambda>c. c\<lparr>process_lock := \<lparr>hold = LOCKED_NO\<rparr>\<rparr>) k"
proof -
  have "yieldlock_unlock l = \<lparr>hold = LOCKED_NO\<rparr>" for l by (cases l) (simp add: yieldlock_unlock_def)
  then show ?thesis by (simp add: unlock_process_def)
qed

lemma oassert_simps [simp]: "oassert True w r = r" "oassert False w r = Some (Inl (Assert_failed w))"
  by (simp_all add: oassert_def)

section \<open>Tables of children\<close>

text \<open>Ids are far below the bound that the tables can hold.\<close>

definition small_ids :: "(u32 \<Rightarrow> addr option) \<Rightarrow> bool" where
  "small_ids M \<longleftrightarrow> (\<forall>i\<in>dom M. unat i < 2 ^ 19)"

definition names_pids :: "(addr \<Rightarrow> pcb_t) \<Rightarrow> (u32 \<Rightarrow> addr option) \<Rightarrow> bool" where
  "names_pids P M \<longleftrightarrow> (\<forall>i v. M i = Some v \<longrightarrow> v \<noteq> NULL \<and> pid (P v) = i)"

lemma card_small: "small_ids M \<Longrightarrow> card (dom M) \<le> 2 ^ 19"
proof -
  assume "small_ids M"
  then have sub: "unat ` dom M \<subseteq> {..<2 ^ 19}" by (auto simp: small_ids_def)
  have "inj_on unat (dom M)" by (rule inj_onI, erule unsigned_word_eqI)
  then have "card (dom M) = card (unat ` dom M)" by (simp add: card_image)
  also have "\<dots> \<le> card {..<2 ^ 19 :: nat}" using sub by (intro card_mono) auto
  finally show ?thesis by simp
qed

lemma small_room: "\<lbrakk>it_rep t M; small_ids M\<rbrakk> \<Longrightarrow> it_room t"
  using it_rep_size(1) [of t M] card_small [of M] by (simp add: it_room_def word_less_nat_alt)

lemma small_upd [simp]: "\<lbrakk>small_ids M; unat i < 2 ^ 19\<rbrakk> \<Longrightarrow> small_ids (M(i \<mapsto> v))"
  by (auto simp: small_ids_def)

lemma it_size_pos:
  assumes "it_rep t M" "small_ids M"
  shows "sint (it_size t) > 0 \<longleftrightarrow> M \<noteq> Map.empty"
proof -
  have u: "unat (it_size t) \<le> 2 ^ 19" using it_rep_size(1) [OF assms(1)] card_small [OF assms(2)] by simp
  then have "sint (of_nat (unat (it_size t)) :: u32) = int (unat (it_size t))" by (intro sint_of_nat_small) simp
  then have "sint (it_size t) = int (unat (it_size t))" by simp
  then show ?thesis using it_rep_size(2) [OF assms(1)] by (simp del: of_nat_unat add: unat_gt_0)
qed

text \<open>The children \<open>M\<close> of \<open>p\<close> have been handed to \<open>ini\<close>; only parents and tables have changed.\<close>

definition same_pcb :: "pcb_t \<Rightarrow> pcb_t \<Rightarrow> bool" where
  "same_pcb c c' \<longleftrightarrow>
     c'\<lparr>parent := NULL, children_processes := it_init, exit_children_processes := it_init\<rparr> =
     c\<lparr>parent := NULL, children_processes := it_init, exit_children_processes := it_init\<rparr>"

lemma same_pcb_refl [simp]: "same_pcb c c"
  by (simp add: same_pcb_def)

lemma same_pcb_trans: "\<lbrakk>same_pcb c c'; same_pcb c' c''\<rbrakk> \<Longrightarrow> same_pcb c c''"
  by (simp add: same_pcb_def)

lemma same_pcb_upd [simp]:
  "same_pcb c (c'\<lparr>parent := x\<rparr>) = same_pcb c c'" "same_pcb c (c'\<lparr>children_processes := t\<rparr>) = same_pcb c c'"
  "same_pcb c (c'\<lparr>exit_children_processes := t\<rparr>) = same_pcb c c'"
  by (simp_all add: same_pcb_def)

lemma same_pcb_fields:
  assumes "same_pcb c c'"
  shows "pid c' = pid c" "process_lock c' = process_lock c" "process_threads c' = process_threads c" "exit_code c' = exit_code c"
    "process_status c' = process_status c" "exit_wait_queue c' = exit_wait_queue c" "wait_any_exit_queue c' = wait_any_exit_queue c"
    "waiting_threads_count c' = waiting_threads_count c" "page_dir c' = page_dir c" "page_dir_lock c' = page_dir_lock c"
  using arg_cong [OF assms [unfolded same_pcb_def], of pid] arg_cong [OF assms [unfolded same_pcb_def], of process_lock]
    arg_cong [OF assms [unfolded same_pcb_def], of process_threads] arg_cong [OF assms [unfolded same_pcb_def], of exit_code]
    arg_cong [OF assms [unfolded same_pcb_def], of process_status] arg_cong [OF assms [unfolded same_pcb_def], of exit_wait_queue]
    arg_cong [OF assms [unfolded same_pcb_def], of wait_any_exit_queue] arg_cong [OF assms [unfolded same_pcb_def], of waiting_threads_count]
    arg_cong [OF assms [unfolded same_pcb_def], of page_dir] arg_cong [OF assms [unfolded same_pcb_def], of page_dir_lock] by simp_all

lemma ran_split: "M i = Some c \<Longrightarrow> ran M = insert c (ran (M(i := None)))"
  by (auto simp: ran_def) (metis option.inject)

lemma move_children_ok:
  assumes pi: "p \<noteq> ini"
  shows "\<lbrakk>it_rep (children_processes (P p)) M; small_ids M; names_pids P M; it_rep (children_processes (P ini)) N; small_ids N;
     card (dom M) = n\<rbrakk> \<Longrightarrow>
    \<exists>P'. move_children p ini P = Some (Inr P') \<and> it_rep (children_processes (P' p)) Map.empty \<and>
      it_rep (children_processes (P' ini)) (N ++ M) \<and> small_ids (N ++ M) \<and> (\<forall>q. same_pcb (P q) (P' q)) \<and>
      (\<forall>q. exit_children_processes (P' q) = exit_children_processes (P q)) \<and>
      (\<forall>q. parent (P' q) = (if q \<in> ran M then ini else parent (P q))) \<and>
      (\<forall>q. q \<noteq> p \<longrightarrow> q \<noteq> ini \<longrightarrow> children_processes (P' q) = children_processes (P q))"
proof (induction n arbitrary: P M N)
  case 0
  have "finite (dom M)" using 0(1) by (auto simp: it_rep_def finite_dom_map_of)
  then have e: "M = Map.empty" using 0(6) by simp
  then have "move_children p ini P = Some (Inr P)" using it_size_pos [OF 0(1,2)] by (subst move_children.simps) simp
  then show ?case using 0 e by (intro exI [of _ P]) (simp add: small_ids_def)
next
  case (Suc n)
  have fin: "finite (dom M)" using Suc.prems(1) by (auto simp: it_rep_def finite_dom_map_of)
  then have ne: "M \<noteq> Map.empty" using Suc.prems(6) by auto
  let ?c = "it_get_first (children_processes (P p))"
  from it_get_first_rep [OF Suc.prems(1) ne] obtain i where i: "M i = Some ?c" by blast
  then have c: "?c \<noteq> NULL" "pid (P ?c) = i" using Suc.prems(3) by (auto simp: names_pids_def)
  obtain t where rm: "it_remove (children_processes (P p)) i = (?c, t)" "it_rep t (M(i := None))"
    using it_remove_rep [OF Suc.prems(1), of i] i by (metis prod.collapse value_of_simps(2))
  define P1 where "P1 = P(p := (P p)\<lparr>children_processes := t\<rparr>)"
  define P2 where "P2 = P1(?c := (P1 ?c)\<lparr>parent := ini\<rparr>)"
  define P3 where "P3 = P2(ini := (P2 ini)\<lparr>children_processes := snd (it_put (children_processes (P2 ini)) (pid (P2 ?c)) ?c)\<rparr>)"
  have step: "move_children p ini P = move_children p ini P3"
    using it_size_pos [OF Suc.prems(1,2)] ne c rm(1)
    by (subst move_children.simps) (simp add: P3_def P2_def P1_def Let_def del: fun_upd_apply)
  have pid: "pid (P2 q) = pid (P q)" for q by (simp add: P2_def P1_def)
  have ch2: "children_processes (P2 ini) = children_processes (P ini)" "children_processes (P2 p) = t" using pi by (auto simp: P2_def P1_def)
  have si: "unat i < 2 ^ 19" using i Suc.prems(2) by (auto simp: small_ids_def)
  have r: "it_rep (children_processes (P3 p)) (M(i := None))" using rm(2) ch2(2) pi by (simp add: P3_def)
  have rn: "it_rep (children_processes (P3 ini)) (N(i \<mapsto> ?c))"
    using it_put_rep(2) [OF Suc.prems(4) small_room [OF Suc.prems(4,5)]] ch2(1) c(2) pid by (simp add: P3_def)
  have sm: "small_ids (M(i := None))" using Suc.prems(2) by (auto simp: small_ids_def)
  have np: "names_pids P3 (M(i := None))" using Suc.prems(3) by (auto simp: names_pids_def P3_def pid)
  have cd: "card (dom (M(i := None))) = n" using Suc.prems(6) i fin by (simp add: domI)
  have "\<exists>P'. move_children p ini P3 = Some (Inr P') \<and> it_rep (children_processes (P' p)) Map.empty \<and>
      it_rep (children_processes (P' ini)) (N(i \<mapsto> ?c) ++ M(i := None)) \<and> small_ids (N(i \<mapsto> ?c) ++ M(i := None)) \<and> (\<forall>q. same_pcb (P3 q) (P' q)) \<and>
      (\<forall>q. exit_children_processes (P' q) = exit_children_processes (P3 q)) \<and>
      (\<forall>q. parent (P' q) = (if q \<in> ran (M(i := None)) then ini else parent (P3 q))) \<and>
      (\<forall>q. q \<noteq> p \<longrightarrow> q \<noteq> ini \<longrightarrow> children_processes (P' q) = children_processes (P3 q))"
    by (rule Suc.IH [OF r sm np rn small_upd [OF Suc.prems(5) si] cd])
  then obtain P' where P': "move_children p ini P3 = Some (Inr P')" "it_rep (children_processes (P' p)) Map.empty"
      "it_rep (children_processes (P' ini)) (N(i \<mapsto> ?c) ++ M(i := None))" "small_ids (N(i \<mapsto> ?c) ++ M(i := None))"
      "\<And>q. same_pcb (P3 q) (P' q)" "\<And>q. exit_children_processes (P' q) = exit_children_processes (P3 q)"
      "\<And>q. parent (P' q) = (if q \<in> ran (M(i := None)) then ini else parent (P3 q))"
      "\<And>q. \<lbrakk>q \<noteq> p; q \<noteq> ini\<rbrakk> \<Longrightarrow> children_processes (P' q) = children_processes (P3 q)" by blast
  have "N(i \<mapsto> ?c) ++ M(i := None) = N ++ M" using i by (auto simp: map_add_def fun_eq_iff split: option.splits)
  moreover have "same_pcb (P q) (P3 q)" for q by (simp add: P3_def P2_def P1_def)
  then have "same_pcb (P q) (P' q)" for q using same_pcb_trans P'(5) by blast
  moreover have "exit_children_processes (P3 q) = exit_children_processes (P q)" for q by (simp add: P3_def P2_def P1_def)
  moreover have "parent (P3 q) = (if q = ?c then ini else parent (P q))" for q by (simp add: P3_def P2_def P1_def)
  moreover have "ran M = insert ?c (ran (M(i := None)))" using i by (rule ran_split)
  moreover have "children_processes (P3 q) = children_processes (P q)" if "q \<noteq> p" "q \<noteq> ini" for q
    using that by (simp add: P3_def P2_def P1_def)
  ultimately show ?case using P' step by (intro exI [of _ P']) auto
qed

lemma move_exited_ok:
  assumes pi: "p \<noteq> ini"
  shows "\<lbrakk>it_rep (exit_children_processes (P p)) E; small_ids E; names_pids P E; it_rep (children_processes (P ini)) N; small_ids N;
     it_rep (exit_children_processes (P ini)) F; small_ids F; card (dom E) = n\<rbrakk> \<Longrightarrow>
    \<exists>P'. move_exited p ini P = Some (Inr P') \<and> it_rep (exit_children_processes (P' p)) Map.empty \<and>
      it_rep (children_processes (P' ini)) (N ++ E) \<and> it_rep (exit_children_processes (P' ini)) (F ++ E) \<and>
      small_ids (N ++ E) \<and> small_ids (F ++ E) \<and> (\<forall>q. same_pcb (P q) (P' q)) \<and>
      (\<forall>q. parent (P' q) = (if q \<in> ran E then ini else parent (P q))) \<and>
      (\<forall>q. q \<noteq> ini \<longrightarrow> children_processes (P' q) = children_processes (P q)) \<and>
      (\<forall>q. q \<noteq> p \<longrightarrow> q \<noteq> ini \<longrightarrow> exit_children_processes (P' q) = exit_children_processes (P q))"
proof (induction n arbitrary: P E N F)
  case 0
  have "finite (dom E)" using 0(1) by (auto simp: it_rep_def finite_dom_map_of)
  then have e: "E = Map.empty" using 0(8) by simp
  then have "move_exited p ini P = Some (Inr P)" using it_size_pos [OF 0(1,2)] by (subst move_exited.simps) simp
  then show ?case using 0 e by (intro exI [of _ P]) (simp add: small_ids_def)
next
  case (Suc n)
  have fin: "finite (dom E)" using Suc.prems(1) by (auto simp: it_rep_def finite_dom_map_of)
  then have ne: "E \<noteq> Map.empty" using Suc.prems(8) by auto
  let ?c = "it_get_first (exit_children_processes (P p))"
  from it_get_first_rep [OF Suc.prems(1) ne] obtain i where i: "E i = Some ?c" by blast
  then have c: "?c \<noteq> NULL" "pid (P ?c) = i" using Suc.prems(3) by (auto simp: names_pids_def)
  obtain t where rm: "it_remove (exit_children_processes (P p)) i = (?c, t)" "it_rep t (E(i := None))"
    using it_remove_rep [OF Suc.prems(1), of i] i by (metis prod.collapse value_of_simps(2))
  define P1 where "P1 = P(p := (P p)\<lparr>exit_children_processes := t\<rparr>)"
  define P2 where "P2 = P1(?c := (P1 ?c)\<lparr>parent := ini\<rparr>)"
  define P3 where "P3 = P2(ini := (P2 ini)\<lparr>children_processes := snd (it_put (children_processes (P2 ini)) (pid (P2 ?c)) ?c)\<rparr>)"
  define P4 where "P4 = P3(ini := (P3 ini)\<lparr>exit_children_processes := snd (it_put (exit_children_processes (P3 ini)) (pid (P3 ?c)) ?c)\<rparr>)"
  have step: "move_exited p ini P = move_exited p ini P4"
    using it_size_pos [OF Suc.prems(1,2)] ne c rm(1)
    by (subst move_exited.simps) (simp add: P4_def P3_def P2_def P1_def Let_def del: fun_upd_apply)
  have pid: "pid (P2 q) = pid (P q)" "pid (P3 q) = pid (P q)" "pid (P4 q) = pid (P q)" for q by (simp_all add: P4_def P3_def P2_def P1_def)
  have t2: "children_processes (P2 ini) = children_processes (P ini)" "exit_children_processes (P2 p) = t"
    "exit_children_processes (P3 ini) = exit_children_processes (P ini)" using pi by (auto simp: P3_def P2_def P1_def)
  have si: "unat i < 2 ^ 19" using i Suc.prems(2) by (auto simp: small_ids_def)
  have r: "it_rep (exit_children_processes (P4 p)) (E(i := None))" using rm(2) t2(2) pi by (simp add: P4_def P3_def)
  have rn: "it_rep (children_processes (P4 ini)) (N(i \<mapsto> ?c))"
    using it_put_rep(2) [OF Suc.prems(4) small_room [OF Suc.prems(4,5)]] t2(1) c(2) pid by (simp add: P4_def P3_def)
  have rf: "it_rep (exit_children_processes (P4 ini)) (F(i \<mapsto> ?c))"
    using it_put_rep(2) [OF Suc.prems(6) small_room [OF Suc.prems(6,7)]] t2(3) c(2) pid by (simp add: P4_def)
  have sm: "small_ids (E(i := None))" using Suc.prems(2) by (auto simp: small_ids_def)
  have np: "names_pids P4 (E(i := None))" using Suc.prems(3) by (auto simp: names_pids_def pid)
  have cd: "card (dom (E(i := None))) = n" using Suc.prems(8) i fin by (simp add: domI)
  from Suc.IH [OF r sm np rn small_upd [OF Suc.prems(5) si] rf small_upd [OF Suc.prems(7) si] cd]
  obtain P' where P': "move_exited p ini P4 = Some (Inr P')" "it_rep (exit_children_processes (P' p)) Map.empty"
      "it_rep (children_processes (P' ini)) (N(i \<mapsto> ?c) ++ E(i := None))" "it_rep (exit_children_processes (P' ini)) (F(i \<mapsto> ?c) ++ E(i := None))"
      "small_ids (N(i \<mapsto> ?c) ++ E(i := None))" "small_ids (F(i \<mapsto> ?c) ++ E(i := None))" "\<And>q. same_pcb (P4 q) (P' q)"
      "\<And>q. parent (P' q) = (if q \<in> ran (E(i := None)) then ini else parent (P4 q))"
      "\<And>q. q \<noteq> ini \<Longrightarrow> children_processes (P' q) = children_processes (P4 q)"
      "\<And>q. \<lbrakk>q \<noteq> p; q \<noteq> ini\<rbrakk> \<Longrightarrow> exit_children_processes (P' q) = exit_children_processes (P4 q)" by blast
  have "X(i \<mapsto> ?c) ++ E(i := None) = X ++ E" for X using i by (auto simp: map_add_def fun_eq_iff split: option.splits)
  moreover have "same_pcb (P q) (P4 q)" for q by (simp add: P4_def P3_def P2_def P1_def)
  then have "same_pcb (P q) (P' q)" for q using same_pcb_trans P'(7) by blast
  moreover have "parent (P4 q) = (if q = ?c then ini else parent (P q))" for q by (simp add: P4_def P3_def P2_def P1_def)
  moreover have "ran E = insert ?c (ran (E(i := None)))" using i by (rule ran_split)
  moreover have "children_processes (P4 q) = children_processes (P q)" if "q \<noteq> ini" for q
    using that by (simp add: P4_def P3_def P2_def P1_def)
  moreover have "exit_children_processes (P4 q) = exit_children_processes (P q)" if "q \<noteq> p" "q \<noteq> ini" for q
    using that by (simp add: P4_def P3_def P2_def P1_def)
  ultimately show ?case using P' step by (intro exI [of _ P']) auto
qed

section \<open>Waking the waiting threads\<close>

lemma wake_waiters_ok:
  "\<lbrakk>sched_base T s Q R; \<And>w. w \<in> set ws \<Longrightarrow> target_pid w = target \<and> task w \<in> T \<and> (\<forall>q. task w \<notin> set (Q q)) \<and> status (tcb_of s (task w)) = TASK_WAITING;
    distinct (map task ws)\<rbrakk> \<Longrightarrow>
   \<exists>s'. wake_waiters target ws s = Inr s' \<and> sched_base T s' (Q(Ready_tasks := Q Ready_tasks @ map task ws)) R \<and>
     sched_same ((\<lambda>w. ptr (sched.nodes s (task w))) ` set ws) s s' \<and> (\<forall>w\<in>set ws. status (tcb_of s' (task w)) = TASK_READY)"
proof (induction ws arbitrary: s Q)
  case Nil
  then show ?case by simp
next
  case (Cons w ws)
  let ?n = "task w"
  have w: "target_pid w = target" "?n \<in> T" "\<And>q. ?n \<notin> set (Q q)" "status (tcb_of s ?n) \<noteq> TASK_DEAD" using Cons.prems(2) [of w] by auto
  from add_thread_base [OF Cons.prems(1) w(2-4)] obtain s1 where
    s1: "add_thread_node_to_schedule ?n s = Inr s1" "sched_base T s1 (Q(Ready_tasks := Q Ready_tasks @ [?n])) R"
      "sched_same {ptr (sched.nodes s ?n)} s s1" "status (tcb_of s1 ?n) = TASK_READY" by blast
  have pt: "ptr (sched.nodes s1 a) = ptr (sched.nodes s a)" for a using s1(3) by (simp add: sched_same_def sched_frame_def)
  have tok: "thread_ok s n" if "n \<in> T" for n using Cons.prems(1) that by (simp add: sched_base_def)
  have other: "tcbs s1 (ptr (sched.nodes s n)) = tcbs s (ptr (sched.nodes s n))" if "n \<in> T" "n \<noteq> ?n" for n
    using s1(3) thread_ok_inj [OF tok [OF that(1)] tok [OF w(2)]] that(2) by (auto simp: sched_same_def)
  have "\<exists>s'. wake_waiters target ws s1 = Inr s' \<and>
      sched_base T s' ((Q(Ready_tasks := Q Ready_tasks @ [?n]))(Ready_tasks := (Q(Ready_tasks := Q Ready_tasks @ [?n])) Ready_tasks @ map task ws)) R \<and>
      sched_same ((\<lambda>w. ptr (sched.nodes s1 (task w))) ` set ws) s1 s' \<and> (\<forall>w\<in>set ws. status (tcb_of s' (task w)) = TASK_READY)"
  proof (rule Cons.IH [OF s1(2)])
    fix v assume v: "v \<in> set ws"
    then have "task v \<in> task ` set ws" by blast
    then have "task v \<noteq> ?n" using Cons.prems(3) by auto
    then show "target_pid v = target \<and> task v \<in> T \<and> (\<forall>q. task v \<notin> set ((Q(Ready_tasks := Q Ready_tasks @ [?n])) q)) \<and>
        status (tcb_of s1 (task v)) = TASK_WAITING"
      using Cons.prems(2) [of v] v other [of "task v"] pt by auto
  qed (use Cons.prems(3) in simp)
  then obtain s' where s': "wake_waiters target ws s1 = Inr s'" "sched_base T s' (Q(Ready_tasks := Q Ready_tasks @ map task (w # ws))) R"
      "sched_same ((\<lambda>w. ptr (sched.nodes s (task w))) ` set ws) s1 s'" "\<forall>w\<in>set ws. status (tcb_of s' (task w)) = TASK_READY"
    unfolding pt by auto
  let ?A = "(\<lambda>w. ptr (sched.nodes s (task w))) ` set (w # ws)"
  have "ptr (sched.nodes s ?n) \<noteq> ptr (sched.nodes s (task v))" if v: "v \<in> set ws" for v
  proof -
    have "task v \<in> task ` set ws" using v by blast
    then have "task v \<noteq> ?n" using Cons.prems(3) by auto
    moreover have "task v \<in> T" using Cons.prems(2) [of v] v by simp
    ultimately show ?thesis using thread_ok_inj [OF tok tok, of "task v" ?n] w(2) by metis
  qed
  then have "ptr (sched.nodes s ?n) \<notin> (\<lambda>w. ptr (sched.nodes s (task w))) ` set ws" by blast
  then have "tcb_of s' ?n = tcb_of s1 ?n" using s'(3) pt by (simp add: sched_same_def sched_frame_def)
  then have rd: "\<forall>v\<in>set (w # ws). status (tcb_of s' (task v)) = TASK_READY" using s1(4) s'(4) by simp
  have "sched_same ?A s s1" "sched_same ?A s1 s'" using s1(3) s'(3) by (auto simp: sched_same_def)
  then have ss: "sched_same ?A s s'" by (rule sched_same_trans)
  have "wake_waiters target (w # ws) s = Inr s'" using s1(1) s'(1) w(1) by simp
  then show ?case using s'(2) ss rd by blast
qed

section \<open>The parts of exit\<close>

definition with_sched :: "sched \<Rightarrow> kernel \<Rightarrow> kernel" where
  "with_sched s k = k\<lparr>k_threads := (k_threads k)\<lparr>t_sched := s\<rparr>\<rparr>"

lemma with_sched_simps [simp]:
  "k_sched (with_sched s k) = s" "k_vm (with_sched s k) = k_vm k" "pcbs (with_sched s k) = pcbs k"
  "init_process (with_sched s k) = init_process k" "process_id_pool (with_sched s k) = process_id_pool k"
  by (simp_all add: with_sched_def)

lemma with_sched_upd:
  "with_sched s (upd_pcb p f k) = upd_pcb p f (with_sched s k)" "with_sched s (with_sched s' k) = with_sched s k"
  by (simp_all add: with_sched_def upd_pcb_def)

lemma set_sched_same: "current_dir s = current_dir (k_sched k) \<Longrightarrow> set_sched s k = with_sched s k"
  by (simp add: set_sched_def with_sched_def Let_def)

lemma lock_value: "lock_free p k \<Longrightarrow> process_lock (pcbs k p) = \<lparr>hold = LOCKED_NO\<rparr>"
  by (cases "process_lock (pcbs k p)") simp

lemma relock: "lock_free p k \<Longrightarrow> unlock_process p (upd_pcb p held k) = k"
proof -
  assume l: "lock_free p k"
  have "(held (pcbs k p))\<lparr>process_lock := \<lparr>hold = LOCKED_NO\<rparr>\<rparr> = pcbs k p"
    using lock_value [OF l] by (simp add: held_def)
  then show ?thesis by (simp add: unlock_process_upd upd_pcb_def)
qed

lemma exit_clear_single:
  assumes "lock_free p k" "waiting_threads_count (pcbs k p) = 0" "it_rep (process_threads (pcbs k p)) [t \<mapsto> th]"
  shows "exit_clear_threads p k = Some (Inr k)"
proof -
  have "unat (it_size (process_threads (pcbs k p))) = 1" using it_rep_size(1) [OF assms(3)] by simp
  then have "it_size (process_threads (pcbs k p)) = 1" by (metis unat_1 unsigned_word_eqI)
  then show ?thesis using assms(1,2) relock [OF assms(1)] by (simp add: exit_clear_threads_def lock_process_free held_def)
qed

lemma same_pcb_unlock:
  assumes "same_pcb (held c) c'" "process_lock c = \<lparr>hold = LOCKED_NO\<rparr>"
  shows "same_pcb c (c'\<lparr>process_lock := \<lparr>hold = LOCKED_NO\<rparr>\<rparr>)"
  using assms by (cases c; cases c') (simp add: same_pcb_def held_def)

definition tables_ok :: "kernel \<Rightarrow> addr \<Rightarrow> (u32 \<Rightarrow> addr option) \<Rightarrow> (u32 \<Rightarrow> addr option) \<Rightarrow> bool" where
  "tables_ok k q C X \<longleftrightarrow>
     it_rep (children_processes (pcbs k q)) C \<and> it_rep (exit_children_processes (pcbs k q)) X \<and>
     small_ids C \<and> small_ids X \<and> names_pids (pcbs k) C \<and> names_pids (pcbs k) X"

text \<open>The threads of a queue are blocked, in no queue of the scheduler, and wait for \<open>target\<close>.\<close>

definition waiting_ok :: "addr set \<Rightarrow> sched \<Rightarrow> (queue_ref \<Rightarrow> addr list) \<Rightarrow> u32 \<Rightarrow> wait_node_t list \<Rightarrow> bool" where
  "waiting_ok T s Q target ws \<longleftrightarrow>
     (\<forall>w\<in>set ws. target_pid w = target \<and> task w \<in> T \<and> (\<forall>q. task w \<notin> set (Q q)) \<and> status (tcb_of s (task w)) = TASK_WAITING) \<and>
     distinct (map task ws)"

abbreviation tcbs_of :: "sched \<Rightarrow> wait_node_t list \<Rightarrow> addr set" where
  "tcbs_of s ws \<equiv> (\<lambda>w. ptr (sched.nodes s (task w))) ` set ws"

lemma wake_any_ok:
  assumes b: "sched_base T (k_sched k) Q R" and w: "waiting_ok T (k_sched k) Q 0 (wait_any_exit_queue (pcbs k p))"
  shows "\<exists>s. wake_any p k = Some (Inr (upd_pcb p (\<lambda>c. c\<lparr>wait_any_exit_queue := []\<rparr>) (with_sched s k))) \<and>
    sched_base T s (Q(Ready_tasks := Q Ready_tasks @ map task (wait_any_exit_queue (pcbs k p)))) R \<and>
    sched_same (tcbs_of (k_sched k) (wait_any_exit_queue (pcbs k p))) (k_sched k) s"
proof -
  have "\<And>w. w \<in> set (wait_any_exit_queue (pcbs k p)) \<Longrightarrow>
      target_pid w = 0 \<and> task w \<in> T \<and> (\<forall>q. task w \<notin> set (Q q)) \<and> status (tcb_of (k_sched k) (task w)) = TASK_WAITING"
    "distinct (map task (wait_any_exit_queue (pcbs k p)))" using w by (auto simp: waiting_ok_def)
  from wake_waiters_ok [OF b this] obtain s where s: "wake_waiters 0 (wait_any_exit_queue (pcbs k p)) (k_sched k) = Inr s"
    "sched_base T s (Q(Ready_tasks := Q Ready_tasks @ map task (wait_any_exit_queue (pcbs k p)))) R"
    "sched_same (tcbs_of (k_sched k) (wait_any_exit_queue (pcbs k p))) (k_sched k) s" by blast
  have "set_sched s k = with_sched s k" using s(3) by (intro set_sched_same) (simp add: sched_same_def)
  then have "wake_any p k = Some (Inr (upd_pcb p (\<lambda>c. c\<lparr>wait_any_exit_queue := []\<rparr>) (with_sched s k)))"
    using s(1) by (simp add: wake_any_def on_sched_def)
  then show ?thesis using s(2,3) by blast
qed

lemma wake_own_ok:
  assumes b: "sched_base T (k_sched k) Q R" and w: "waiting_ok T (k_sched k) Q (pid (pcbs k p)) (exit_wait_queue (pcbs k p))"
  shows "\<exists>s. wake_own p k = Some (Inr (upd_pcb p (\<lambda>c. c\<lparr>exit_wait_queue := []\<rparr>) (with_sched s k))) \<and>
    sched_base T s (Q(Ready_tasks := Q Ready_tasks @ map task (exit_wait_queue (pcbs k p)))) R \<and>
    sched_same (tcbs_of (k_sched k) (exit_wait_queue (pcbs k p))) (k_sched k) s"
proof -
  have "\<And>w. w \<in> set (exit_wait_queue (pcbs k p)) \<Longrightarrow>
      target_pid w = pid (pcbs k p) \<and> task w \<in> T \<and> (\<forall>q. task w \<notin> set (Q q)) \<and> status (tcb_of (k_sched k) (task w)) = TASK_WAITING"
    "distinct (map task (exit_wait_queue (pcbs k p)))" using w by (auto simp: waiting_ok_def)
  from wake_waiters_ok [OF b this] obtain s where s: "wake_waiters (pid (pcbs k p)) (exit_wait_queue (pcbs k p)) (k_sched k) = Inr s"
    "sched_base T s (Q(Ready_tasks := Q Ready_tasks @ map task (exit_wait_queue (pcbs k p)))) R"
    "sched_same (tcbs_of (k_sched k) (exit_wait_queue (pcbs k p))) (k_sched k) s" by blast
  have "set_sched s k = with_sched s k" using s(3) by (intro set_sched_same) (simp add: sched_same_def)
  then have "wake_own p k = Some (Inr (upd_pcb p (\<lambda>c. c\<lparr>exit_wait_queue := []\<rparr>) (with_sched s k)))"
    using s(1) by (simp add: wake_own_def on_sched_def)
  then show ?thesis using s(2,3) by blast
qed

text \<open>What is left of the control blocks when \<open>ini\<close> has taken over the children of \<open>p\<close>.\<close>

definition adopted :: "addr \<Rightarrow> addr \<Rightarrow> (u32 \<Rightarrow> addr option) \<Rightarrow> (u32 \<Rightarrow> addr option) \<Rightarrow> (u32 \<Rightarrow> addr option) \<Rightarrow> (u32 \<Rightarrow> addr option) \<Rightarrow>
    (addr \<Rightarrow> pcb_t) \<Rightarrow> (addr \<Rightarrow> pcb_t) \<Rightarrow> bool" where
  "adopted p ini C X N F P P' \<longleftrightarrow>
     it_rep (children_processes (P' p)) Map.empty \<and> it_rep (exit_children_processes (P' p)) Map.empty \<and>
     it_rep (children_processes (P' ini)) (N ++ C ++ X) \<and> it_rep (exit_children_processes (P' ini)) (F ++ X) \<and>
     small_ids (F ++ X) \<and> (\<forall>q. same_pcb (P q) (P' q)) \<and>
     (\<forall>q. parent (P' q) = (if q \<in> ran C \<union> ran X then ini else parent (P q))) \<and>
     (\<forall>q. q \<noteq> p \<longrightarrow> q \<noteq> ini \<longrightarrow> children_processes (P' q) = children_processes (P q) \<and>
        exit_children_processes (P' q) = exit_children_processes (P q))"

lemma moves_adopt:
  assumes pi: "p \<noteq> ini" and tp: "it_rep (children_processes (P p)) C" "it_rep (exit_children_processes (P p)) X"
      "small_ids C" "small_ids X" "names_pids P C" "names_pids P X"
    and ti: "it_rep (children_processes (P ini)) N" "it_rep (exit_children_processes (P ini)) F" "small_ids N" "small_ids F"
  shows "\<exists>P1 P2. move_children p ini P = Some (Inr P1) \<and> move_exited p ini P1 = Some (Inr P2) \<and> adopted p ini C X N F P P2"
proof -
  from move_children_ok [OF pi tp(1,3,5) ti(1,3) refl] obtain P1 where
    m: "move_children p ini P = Some (Inr P1)" "it_rep (children_processes (P1 p)) Map.empty" "it_rep (children_processes (P1 ini)) (N ++ C)"
      "small_ids (N ++ C)" "\<And>q. same_pcb (P q) (P1 q)" "\<And>q. exit_children_processes (P1 q) = exit_children_processes (P q)"
      "\<And>q. parent (P1 q) = (if q \<in> ran C then ini else parent (P q))"
      "\<And>q. \<lbrakk>q \<noteq> p; q \<noteq> ini\<rbrakk> \<Longrightarrow> children_processes (P1 q) = children_processes (P q)" by blast
  have np: "names_pids P1 X" using tp(6) same_pcb_fields(1) [OF m(5)] by (simp add: names_pids_def)
  have ex: "it_rep (exit_children_processes (P1 p)) X" "it_rep (exit_children_processes (P1 ini)) F" using tp(2) ti(2) m(6) by simp_all
  from move_exited_ok [OF pi ex(1) tp(4) np m(3,4) ex(2) ti(4) refl] obtain P2 where
    e: "move_exited p ini P1 = Some (Inr P2)" "it_rep (exit_children_processes (P2 p)) Map.empty"
      "it_rep (children_processes (P2 ini)) (N ++ C ++ X)" "it_rep (exit_children_processes (P2 ini)) (F ++ X)" "small_ids (F ++ X)"
      "\<And>q. same_pcb (P1 q) (P2 q)" "\<And>q. parent (P2 q) = (if q \<in> ran X then ini else parent (P1 q))"
      "\<And>q. q \<noteq> ini \<Longrightarrow> children_processes (P2 q) = children_processes (P1 q)"
      "\<And>q. \<lbrakk>q \<noteq> p; q \<noteq> ini\<rbrakk> \<Longrightarrow> exit_children_processes (P2 q) = exit_children_processes (P1 q)" by blast
  have "adopted p ini C X N F P P2"
    unfolding adopted_def using m(2) e(2-5) e(8) [OF pi] same_pcb_trans [OF m(5) e(6)] m(6,7,8) e(7,8,9) by auto
  then show ?thesis using m(1) e(1) by blast
qed

lemma queue_lock_swap:
  "c\<lparr>wait_any_exit_queue := ws, process_lock := l\<rparr> = c\<lparr>process_lock := l, wait_any_exit_queue := ws\<rparr>"
  by simp

lemma same_pcb_queue: "same_pcb c c' \<Longrightarrow> same_pcb (c\<lparr>wait_any_exit_queue := ws\<rparr>) (c'\<lparr>wait_any_exit_queue := ws\<rparr>)"
  by (cases c; cases c') (simp add: same_pcb_def)

definition no_any_waiters :: "addr \<Rightarrow> (addr \<Rightarrow> pcb_t) \<Rightarrow> addr \<Rightarrow> pcb_t" where
  "no_any_waiters q P = P(q := (P q)\<lparr>wait_any_exit_queue := []\<rparr>)"

lemma exit_reparent_ok:
  assumes pi: "p \<noteq> ini" and ini: "init_process k = ini" and lf: "lock_free p k" "lock_free ini k"
    and tp: "tables_ok k p C X" and ti: "tables_ok k ini N F"
    and b: "sched_base T (k_sched k) Q R" and w: "waiting_ok T (k_sched k) Q 0 (wait_any_exit_queue (pcbs k ini))"
  shows "\<exists>P s. exit_reparent p k = Some (Inr ((with_sched s k)\<lparr>pcbs := P\<rparr>)) \<and>
    adopted p ini C X N F (no_any_waiters ini (pcbs k)) P \<and>
    sched_base T s (Q(Ready_tasks := Q Ready_tasks @ map task (wait_any_exit_queue (pcbs k ini)))) R \<and>
    sched_same (tcbs_of (k_sched k) (wait_any_exit_queue (pcbs k ini))) (k_sched k) s"
proof -
  let ?k2 = "upd_pcb p held (upd_pcb ini held k)"
  let ?P0 = "(pcbs k)(ini := held (pcbs k ini), p := held (pcbs k p))"
  have P0: "pcbs ?k2 = ?P0" using pi by (simp add: fun_upd_def fun_eq_iff)
  have h: "children_processes (?P0 q) = children_processes (pcbs k q)" "exit_children_processes (?P0 q) = exit_children_processes (pcbs k q)"
    "pid (?P0 q) = pid (pcbs k q)" "parent (?P0 q) = parent (pcbs k q)" "wait_any_exit_queue (?P0 q) = wait_any_exit_queue (pcbs k q)" for q
    by (simp_all add: held_def)
  have "\<exists>P1 P2. move_children p ini ?P0 = Some (Inr P1) \<and> move_exited p ini P1 = Some (Inr P2) \<and> adopted p ini C X N F ?P0 P2"
    using tp ti unfolding tables_ok_def names_pids_def by (intro moves_adopt [OF pi]; simp only: h names_pids_def; blast)
  then obtain P1 P2 where m: "move_children p ini ?P0 = Some (Inr P1)" "move_exited p ini P1 = Some (Inr P2)" "adopted p ini C X N F ?P0 P2" by blast
  have sp: "same_pcb (?P0 q) (P2 q)" for q using m(3) unfolding adopted_def by blast
  have wq: "wait_any_exit_queue (P2 ini) = wait_any_exit_queue (pcbs k ini)" using same_pcb_fields(7) [OF sp [of ini]] h(5) [of ini] by simp
  from wake_any_ok [where k = "?k2\<lparr>pcbs := P2\<rparr>" and p = ini and T = T and Q = Q and R = R] b w wq obtain s where
    s: "wake_any ini (?k2\<lparr>pcbs := P2\<rparr>) = Some (Inr (upd_pcb ini (\<lambda>c. c\<lparr>wait_any_exit_queue := []\<rparr>) (with_sched s (?k2\<lparr>pcbs := P2\<rparr>))))"
      "sched_base T s (Q(Ready_tasks := Q Ready_tasks @ map task (wait_any_exit_queue (pcbs k ini)))) R"
      "sched_same (tcbs_of (k_sched k) (wait_any_exit_queue (pcbs k ini))) (k_sched k) s" by auto
  define P3 where "P3 = P2(ini := (P2 ini)\<lparr>process_lock := \<lparr>hold = LOCKED_NO\<rparr>, wait_any_exit_queue := []\<rparr>,
      p := (P2 p)\<lparr>process_lock := \<lparr>hold = LOCKED_NO\<rparr>\<rparr>)"
  have "lock_process ini k = Some (Inr (upd_pcb ini held k))" "lock_process p (upd_pcb ini held k) = Some (Inr ?k2)"
    using lf pi by (simp_all add: lock_process_free)
  then have "exit_reparent p k = Some (Inr (unlock_process ini (unlock_process p (upd_pcb ini (\<lambda>c. c\<lparr>wait_any_exit_queue := []\<rparr>) (with_sched s (?k2\<lparr>pcbs := P2\<rparr>))))))"
    using m(1,2) s(1) P0 by (simp add: exit_reparent_def ini Let_def del: upd_pcb_simps)
  also have "\<dots> = Some (Inr ((with_sched s k)\<lparr>pcbs := P3\<rparr>))"
    using pi by (simp add: unlock_process_upd upd_pcb_def with_sched_def P3_def fun_upd_twist queue_lock_swap)
  finally have run: "exit_reparent p k = Some (Inr ((with_sched s k)\<lparr>pcbs := P3\<rparr>))" .
  have f3: "children_processes (P3 q) = children_processes (P2 q)" "exit_children_processes (P3 q) = exit_children_processes (P2 q)"
    "parent (P3 q) = parent (P2 q)" for q by (simp_all add: P3_def)
  have sp3: "same_pcb (no_any_waiters ini (pcbs k) q) (P3 q)" for q
  proof -
    have "same_pcb (held (pcbs k p)) (P2 p)" "same_pcb (held (pcbs k ini)) (P2 ini)" using sp [of p] sp [of ini] pi by simp_all
    then have "same_pcb (pcbs k p) (P3 p)" "same_pcb ((pcbs k ini)\<lparr>wait_any_exit_queue := []\<rparr>) (P3 ini)"
      using same_pcb_unlock lock_value [OF lf(1)] lock_value [OF lf(2)] pi same_pcb_queue [OF same_pcb_unlock [of "pcbs k ini" "P2 ini"], of "[]"]
      by (simp_all add: P3_def)
    then show ?thesis using sp [of q] by (auto simp: no_any_waiters_def P3_def pi)
  qed
  have "adopted p ini C X N F (no_any_waiters ini (pcbs k)) P3"
    using m(3) sp3 unfolding adopted_def f3 h no_any_waiters_def by simp
  then show ?thesis using run s(2,3) by blast
qed

definition exited :: "u32 \<Rightarrow> pcb_t \<Rightarrow> pcb_t \<Rightarrow> bool" where
  "exited code c c' \<longleftrightarrow> exit_code c' = code \<and> process_status c' = PROCESS_EXIT \<and> pid c' = pid c \<and> parent c' = parent c \<and>
     process_lock c' = process_lock c \<and> exit_wait_queue c' = exit_wait_queue c \<and> wait_any_exit_queue c' = wait_any_exit_queue c \<and>
     page_dir c' = page_dir c \<and> page_dir_lock c' = page_dir_lock c"

lemma exit_release_ok:
  assumes lf: "lock_free p k" and th: "it_rep (process_threads (pcbs k p)) [thread_id (tcbs (k_sched k) thread) \<mapsto> thread]"
    and crt: "get_crt_process (k_sched k) = Inr p" and v: "release_user_space_pages (k_vm k) = Inr v"
  shows "\<exists>c. exit_release p thread code k = Some (Inr (k\<lparr>k_threads := (k_threads k)\<lparr>t_vm := v, t_sched := upd_tcb thread (\<lambda>t. t\<lparr>process := NULL\<rparr>) (k_sched k)\<rparr>,
      pcbs := (pcbs k)(p := c)\<rparr>)) \<and> exited code (pcbs k p) c"
proof -
  obtain t where t: "it_remove (process_threads (pcbs k p)) (thread_id (tcbs (k_sched k) thread)) = (thread, t)"
    using it_remove_rep(1) [OF th] by (metis fun_upd_same prod.collapse value_of_simps(2))
  let ?c = "(held (pcbs k p))\<lparr>exit_code := code, process_status := PROCESS_EXIT, process_threads := it_destroy t,
      exit_children_processes := it_destroy (exit_children_processes (pcbs k p)), children_processes := it_destroy (children_processes (pcbs k p)),
      process_lock := \<lparr>hold = LOCKED_NO\<rparr>\<rparr>"
  have "exit_release p thread code k = Some (Inr (k\<lparr>k_threads := (k_threads k)\<lparr>t_vm := v, t_sched := upd_tcb thread (\<lambda>t. t\<lparr>process := NULL\<rparr>) (k_sched k)\<rparr>,
      pcbs := (pcbs k)(p := ?c)\<rparr>))"
    using lock_process_free [OF lf] t crt v
    by (simp add: exit_release_def held_def release_crt_process_resources_locked_def the_crt_process_def on_vm_def set_vm_def
        put_tcb_def unlock_process_upd upd_pcb_def)
  moreover have "exited code (pcbs k p) ?c" using lock_value [OF lf] by (simp add: exited_def held_def)
  ultimately show ?thesis by blast
qed

lemma sched_same_mono: "\<lbrakk>sched_same A s s'; A \<subseteq> B\<rbrakk> \<Longrightarrow> sched_same B s s'"
  by (auto simp: sched_same_def)

lemma sched_same_ptr: "sched_same A s s' \<Longrightarrow> ptr (sched.nodes s' a) = ptr (sched.nodes s a)"
  by (simp add: sched_same_def sched_frame_def)

lemma untouched:
  assumes b: "sched_base T s Q R" and w: "task ` set ws \<subseteq> T" and m: "m \<in> T" "m \<notin> task ` set ws" and s: "sched_same (tcbs_of s ws) s s'"
  shows "tcb_of s' m = tcb_of s m"
proof -
  have tok: "thread_ok s n" if "n \<in> T" for n using b that by (simp add: sched_base_def)
  have "ptr (sched.nodes s m) \<noteq> ptr (sched.nodes s (task y))" if y: "y \<in> set ws" for y
  proof -
    have "m \<noteq> task y" "task y \<in> T" using m(2) w y by auto
    then show ?thesis using thread_ok_inj [OF tok tok] m(1) by blast
  qed
  then have "ptr (sched.nodes s m) \<notin> tcbs_of s ws" by blast
  then show ?thesis using s sched_same_ptr [OF s] by (simp add: sched_same_def)
qed

lemma waiting_tasks: "waiting_ok T s Q t ws \<Longrightarrow> task ` set ws \<subseteq> T"
  by (auto simp: waiting_ok_def)

lemma waiting_after:
  assumes b: "sched_base T s Q R" and w: "waiting_ok T s Q t ws" "waiting_ok T s Q t' vs" "task ` set ws \<inter> task ` set vs = {}"
    and s: "sched_same (tcbs_of s vs) s s'"
  shows "waiting_ok T s' (Q(Ready_tasks := Q Ready_tasks @ map task vs)) t ws"
proof -
  have "tcb_of s' (task x) = tcb_of s (task x)" if x: "x \<in> set ws" for x
    using w x by (intro untouched [OF b waiting_tasks [OF w(2)] _ _ s]) (auto simp: waiting_ok_def)
  moreover have "task x \<notin> set (map task vs)" if "x \<in> set ws" for x using w(3) that by auto
  ultimately show ?thesis using w(1) by (auto simp: waiting_ok_def)
qed

lemma exit_notify_ok:
  assumes pp: "p \<noteq> par" and lf: "lock_free p k" "lock_free par k"
    and rep: "it_rep (exit_children_processes (pcbs k par)) X" "small_ids X"
    and b: "sched_base T (k_sched k) Q R" and w: "waiting_ok T (k_sched k) Q (pid (pcbs k p)) (exit_wait_queue (pcbs k p))"
      "waiting_ok T (k_sched k) Q 0 (wait_any_exit_queue (pcbs k par))"
      "task ` set (wait_any_exit_queue (pcbs k par)) \<inter> task ` set (exit_wait_queue (pcbs k p)) = {}"
  shows "\<exists>c s. exit_notify True p par k = Some (Inr ((with_sched s k)\<lparr>pcbs := (pcbs k)(p := (pcbs k p)\<lparr>exit_wait_queue := []\<rparr>, par := c)\<rparr>)) \<and>
    it_rep (exit_children_processes c) (X(pid (pcbs k p) \<mapsto> p)) \<and> wait_any_exit_queue c = [] \<and>
    children_processes c = children_processes (pcbs k par) \<and> parent c = parent (pcbs k par) \<and> pid c = pid (pcbs k par) \<and>
    process_lock c = process_lock (pcbs k par) \<and> page_dir_lock c = page_dir_lock (pcbs k par) \<and>
    sched_base T s (Q(Ready_tasks := Q Ready_tasks @ map task (exit_wait_queue (pcbs k p)) @ map task (wait_any_exit_queue (pcbs k par)))) R \<and>
    sched_same (tcbs_of (k_sched k) (exit_wait_queue (pcbs k p)) \<union> tcbs_of (k_sched k) (wait_any_exit_queue (pcbs k par))) (k_sched k) s"
proof -
  let ?ws = "exit_wait_queue (pcbs k p)" and ?vs = "wait_any_exit_queue (pcbs k par)"
  let ?t = "snd (it_put (exit_children_processes (pcbs k par)) (pid (pcbs k p)) p)"
  let ?k2 = "upd_pcb par (\<lambda>c. c\<lparr>exit_children_processes := ?t\<rparr>) (upd_pcb p held (upd_pcb par held k))"
  have f: "pid (pcbs ?k2 p) = pid (pcbs k p)" "exit_wait_queue (pcbs ?k2 p) = ?ws" "wait_any_exit_queue (pcbs ?k2 par) = ?vs" "k_sched ?k2 = k_sched k"
    using pp by (simp_all add: held_def)
  from wake_own_ok [where k = ?k2 and p = p, unfolded f, OF b w(1)] obtain s1 where
    s1: "wake_own p ?k2 = Some (Inr (upd_pcb p (\<lambda>c. c\<lparr>exit_wait_queue := []\<rparr>) (with_sched s1 ?k2)))"
      "sched_base T s1 (Q(Ready_tasks := Q Ready_tasks @ map task ?ws)) R" "sched_same (tcbs_of (k_sched k) ?ws) (k_sched k) s1" by blast
  let ?k3 = "upd_pcb p (\<lambda>c. c\<lparr>exit_wait_queue := []\<rparr>) (with_sched s1 ?k2)"
  have f3: "wait_any_exit_queue (pcbs ?k3 par) = ?vs" "k_sched ?k3 = s1" using pp f by simp_all
  have w2: "waiting_ok T s1 (Q(Ready_tasks := Q Ready_tasks @ map task ?ws)) 0 ?vs" by (rule waiting_after [OF b w(2,1,3) s1(3)])
  from wake_any_ok [where k = ?k3 and p = par, unfolded f3, OF s1(2) w2] obtain s2 where
    s2: "wake_any par ?k3 = Some (Inr (upd_pcb par (\<lambda>c. c\<lparr>wait_any_exit_queue := []\<rparr>) (with_sched s2 ?k3)))"
      "sched_base T s2 (Q(Ready_tasks := Q Ready_tasks @ map task ?ws @ map task ?vs)) R" "sched_same (tcbs_of s1 ?vs) s1 s2" by auto
  let ?c = "(pcbs k par)\<lparr>exit_children_processes := ?t, wait_any_exit_queue := [], process_lock := \<lparr>hold = LOCKED_NO\<rparr>\<rparr>"
  have lk: "(pcbs k p)\<lparr>exit_wait_queue := [], process_lock := \<lparr>hold = LOCKED_NO\<rparr>\<rparr> = (pcbs k p)\<lparr>exit_wait_queue := []\<rparr>"
    using lock_value [OF lf(1)] by simp
  have l: "lock_process par k = Some (Inr (upd_pcb par held k))" "lock_process p (upd_pcb par held k) = Some (Inr (upd_pcb p held (upd_pcb par held k)))"
    using lf pp by (simp_all add: lock_process_free)
  let ?kk = "upd_pcb p held (upd_pcb par held k)"
  have k2: "upd_pcb par (\<lambda>c. c\<lparr>exit_children_processes := snd (it_put (exit_children_processes c) (pid (pcbs ?kk p)) p)\<rparr>) ?kk = ?k2"
    using pp by (simp add: upd_pcb_def held_def)
  have "exit_notify True p par k = Some (Inr (unlock_process par (unlock_process p (upd_pcb par (\<lambda>c. c\<lparr>wait_any_exit_queue := []\<rparr>) (with_sched s2 ?k3)))))"
    unfolding exit_notify_def l obind_simps not_True_eq_False if_False k2 s1(1) s2(1) ..
  also have "\<dots> = Some (Inr ((with_sched s2 k)\<lparr>pcbs := (pcbs k)(p := (pcbs k p)\<lparr>exit_wait_queue := []\<rparr>, par := ?c)\<rparr>))"
  proof -
    let ?f = "unlock_process par (unlock_process p (upd_pcb par (\<lambda>c. c\<lparr>wait_any_exit_queue := []\<rparr>) (with_sched s2 ?k3)))"
    have sw: "upd_pcb par f (upd_pcb p g k') = upd_pcb p g (upd_pcb par f k')" for f g k' using pp by (simp add: upd_pcb_def fun_upd_twist)
    have f: "?f = upd_pcb p (\<lambda>c. (held c)\<lparr>exit_wait_queue := [], process_lock := \<lparr>hold = LOCKED_NO\<rparr>\<rparr>)
        (upd_pcb par (\<lambda>c. (held c)\<lparr>exit_children_processes := ?t, wait_any_exit_queue := [], process_lock := \<lparr>hold = LOCKED_NO\<rparr>\<rparr>) (with_sched s2 k))"
      by (simp add: unlock_process_upd with_sched_upd sw del: upd_pcb_simps)
    show ?thesis unfolding f using pp lk by (simp add: upd_pcb_def held_def with_sched_def fun_upd_twist)
  qed
  finally have run: "exit_notify True p par k = Some (Inr ((with_sched s2 k)\<lparr>pcbs := (pcbs k)(p := (pcbs k p)\<lparr>exit_wait_queue := []\<rparr>, par := ?c)\<rparr>))" .
  have "tcbs_of s1 ?vs = tcbs_of (k_sched k) ?vs" using sched_same_ptr [OF s1(3)] by simp
  then have "sched_same (tcbs_of (k_sched k) ?vs) s1 s2" using s2(3) by simp
  then have "sched_same (tcbs_of (k_sched k) ?ws \<union> tcbs_of (k_sched k) ?vs) (k_sched k) s2"
    by (rule sched_same_trans [OF sched_same_mono [OF s1(3) Un_upper1] sched_same_mono [OF _ Un_upper2]])
  moreover have "it_rep (exit_children_processes ?c) (X(pid (pcbs k p) \<mapsto> p))"
    using it_put_rep(2) [OF rep(1) small_room [OF rep]] by simp
  ultimately show ?thesis using run s2(2) lock_value [OF lf(2)] by (intro exI [of _ ?c] exI [of _ s2]) simp
qed

section \<open>Exit as a whole\<close>

lemma process_null_tcb [simp]:
  "status (tcbs (upd_tcb a (\<lambda>t. t\<lparr>process := x\<rparr>) s) b) = status (tcbs s b)"
  "crt_queue (tcbs (upd_tcb a (\<lambda>t. t\<lparr>process := x\<rparr>) s) b) = crt_queue (tcbs s b)"
  "crt_node_ptr (tcbs (upd_tcb a (\<lambda>t. t\<lparr>process := x\<rparr>) s) b) = crt_node_ptr (tcbs s b)"
  by (simp_all add: upd_tcb_def)

lemma process_null_base [simp]:
  "sched_base T (upd_tcb a (\<lambda>t. t\<lparr>process := x\<rparr>) s) Q R = sched_base T s Q R"
  "waiting_ok T (upd_tcb a (\<lambda>t. t\<lparr>process := x\<rparr>) s) Q t ws = waiting_ok T s Q t ws"
proof -
  let ?u = "upd_tcb a (\<lambda>t. t\<lparr>process := x\<rparr>) s"
  have q: "queues_rep T ?u Q R = queues_rep T s Q R" by (simp add: queues_rep_def)
  have nd: "sched.nodes ?u = sched.nodes s" "main_thread_node ?u = main_thread_node s" "crt_thread_node ?u = crt_thread_node s" by simp_all
  show "sched_base T ?u Q R = sched_base T s Q R" "waiting_ok T ?u Q t ws = waiting_ok T s Q t ws"
    unfolding sched_base_def thread_ok_def waiting_ok_def q nd process_null_tcb by (rule refl)+
qed

text \<open>
  The running thread \<open>thread\<close> is the only one of the process \<open>p\<close>; \<open>C\<close>, \<open>X\<close> are the children and the exited
  children of \<open>p\<close>, \<open>N\<close>, \<open>F\<close> those of the init process, \<open>Y\<close> the exited children of the parent.
\<close>

definition woken_by_exit :: "kernel \<Rightarrow> addr \<Rightarrow> wait_node_t list" where
  "woken_by_exit k p =
     wait_any_exit_queue (pcbs k (init_process k)) @ exit_wait_queue (pcbs k p) @
     (if parent (pcbs k p) = init_process k then [] else wait_any_exit_queue (pcbs k (parent (pcbs k p))))"

definition exit_threads_ok :: "addr set \<Rightarrow> (queue_ref \<Rightarrow> addr list) \<Rightarrow> addr list \<Rightarrow> kernel \<Rightarrow> addr \<Rightarrow> bool" where
  "exit_threads_ok T Q R k p \<longleftrightarrow>
     (let s = k_sched k; thread = ptr (sched.nodes s (crt_thread_node s)) in
      sched_ok T s Q R \<and> crt_thread_node s \<noteq> main_thread_node s \<and> status (tcbs s thread) = TASK_RUNNING \<and>
      hold (dead_resource_lock s) = LOCKED_NO \<and> (\<forall>m\<in>set (Q Dead_cv). status (tcb_of s m) = TASK_WAITING) \<and>
      process (tcbs s thread) = p \<and> p \<noteq> NULL \<and> it_rep (process_threads (pcbs k p)) [thread_id (tcbs s thread) \<mapsto> thread] \<and>
      waiting_threads_count (pcbs k p) = 0 \<and>
      waiting_ok T s Q 0 (wait_any_exit_queue (pcbs k (init_process k))) \<and> waiting_ok T s Q (pid (pcbs k p)) (exit_wait_queue (pcbs k p)) \<and>
      waiting_ok T s Q 0 (wait_any_exit_queue (pcbs k (parent (pcbs k p)))) \<and> distinct (map task (woken_by_exit k p)))"

definition exit_family_ok :: "kernel \<Rightarrow> addr \<Rightarrow> (u32 \<Rightarrow> addr option) \<Rightarrow> (u32 \<Rightarrow> addr option) \<Rightarrow> (u32 \<Rightarrow> addr option) \<Rightarrow> (u32 \<Rightarrow> addr option) \<Rightarrow>
    (u32 \<Rightarrow> addr option) \<Rightarrow> bool" where
  "exit_family_ok k p C X N F Y \<longleftrightarrow>
     (let ini = init_process k; par = parent (pcbs k p) in
      par \<noteq> NULL \<and> ini \<noteq> NULL \<and> p \<noteq> ini \<and> p \<noteq> par \<and> lock_free p k \<and> lock_free par k \<and> lock_free ini k \<and>
      tables_ok k p C X \<and> tables_ok k ini N F \<and> it_rep (exit_children_processes (pcbs k par)) Y \<and> small_ids Y \<and> unat (pid (pcbs k p)) < 2 ^ 19 \<and>
      p \<notin> ran C \<union> ran X \<and> par \<notin> ran C \<union> ran X)"

text \<open>All locks of the kernel: those of the control blocks, of the table of all processes, of the kernel stacks, of the two id
  pools and of the dead resources.\<close>

definition kernel_locks :: "kernel \<Rightarrow> (addr \<Rightarrow> yieldlock_t \<times> yieldlock_t) \<times> yieldlock_t list" where
  "kernel_locks k =
     (\<lambda>q. (process_lock (pcbs k q), page_dir_lock (pcbs k q)),
      [processes_map_lock k, kernel_stack_slots_lock (k_threads k), lock (process_id_pool k), lock (thread_id_pool (k_threads k)),
       dead_resource_lock (k_sched k)])"

text \<open>What the first steps of an exit leave for the parent and the scheduler.\<close>

definition exit_announced :: "u32 \<Rightarrow> addr \<Rightarrow> (u32 \<Rightarrow> addr option) \<Rightarrow> (u32 \<Rightarrow> addr option) \<Rightarrow>
    (u32 \<Rightarrow> addr option) \<Rightarrow> (u32 \<Rightarrow> addr option) \<Rightarrow> (u32 \<Rightarrow> addr option) \<Rightarrow> kernel \<Rightarrow> kernel \<Rightarrow> bool" where
  "exit_announced code p C X N F Y k k' \<longleftrightarrow>
     (let ini = init_process k; par = parent (pcbs k p) in
      exit_code (pcbs k' p) = code \<and> process_status (pcbs k' p) = PROCESS_EXIT \<and> pid (pcbs k' p) = pid (pcbs k p) \<and>
      it_rep (exit_children_processes (pcbs k' par)) ((if par = ini then F ++ X else Y)(pid (pcbs k p) \<mapsto> p)) \<and>
      it_rep (children_processes (pcbs k' ini)) (N ++ C ++ X) \<and> (par \<noteq> ini \<longrightarrow> it_rep (exit_children_processes (pcbs k' ini)) (F ++ X)) \<and>
      (\<forall>q\<in>ran C \<union> ran X. parent (pcbs k' q) = ini) \<and> lock_free p k' \<and> lock_free par k' \<and> lock_free ini k' \<and>
      kernel_locks k' = kernel_locks k)"

lemma exit_until_notify:
  assumes th: "exit_threads_ok T Q R k p" and fam: "exit_family_ok k p C X N F Y" and fr: "release_user_space_pages (k_vm k) = Inr v"
    and s0: "s0 = (k_sched k)\<lparr>interrupts := False\<rparr>"
  shows "\<exists>k1 k2 k3. exit_clear_threads p (with_sched s0 k) = Some (Inr (with_sched s0 k)) \<and> exit_reparent p (with_sched s0 k) = Some (Inr k1) \<and>
     exit_release p (ptr (sched.nodes (k_sched k) (crt_thread_node (k_sched k)))) code k1 = Some (Inr k2) \<and>
     exit_notify True p (parent (pcbs k p)) k2 = Some (Inr k3) \<and> exit_notify False p (parent (pcbs k p)) k2 = Some (Inl null_page_fault) \<and> k_vm k3 = v \<and> exit_announced code p C X N F Y k k3 \<and>
     sched_base T (k_sched k3) (Q(Ready_tasks := Q Ready_tasks @ map task (woken_by_exit k p))) R \<and>
     crt_thread_node (k_sched k3) = crt_thread_node (k_sched k) \<and> main_thread_node (k_sched k3) = main_thread_node (k_sched k) \<and>
     dead_resource_lock (k_sched k3) = dead_resource_lock (k_sched k) \<and>
     (\<forall>m\<in>T. m \<notin> task ` set (woken_by_exit k p) \<longrightarrow> status (tcb_of (k_sched k3) m) = status (tcb_of (k_sched k) m))"
proof -
  let ?s = "k_sched k" and ?k0 = "with_sched s0 k"
  let ?n = "crt_thread_node ?s" and ?ini = "init_process k" and ?par = "parent (pcbs k p)"
  let ?th = "ptr (sched.nodes ?s ?n)"
  let ?wi = "wait_any_exit_queue (pcbs k ?ini)" and ?wp = "exit_wait_queue (pcbs k p)" and ?wr = "wait_any_exit_queue (pcbs k ?par)"
  note t = th [unfolded exit_threads_ok_def Let_def]
  note f = fam [unfolded exit_family_ok_def Let_def]
  have b0: "sched_base T (k_sched ?k0) Q R" using t s0 by (simp add: sched_ok_def)
  have w0: "waiting_ok T (k_sched ?k0) Q 0 ?wi" "waiting_ok T (k_sched ?k0) Q (pid (pcbs k p)) ?wp" "waiting_ok T (k_sched ?k0) Q 0 ?wr"
    using t s0 by (simp_all add: waiting_ok_def)
  have cl: "exit_clear_threads p ?k0 = Some (Inr ?k0)" using f t by (intro exit_clear_single) auto
  have tab: "tables_ok ?k0 p C X" "tables_ok ?k0 ?ini N F" using f by (auto simp: tables_ok_def)
  from exit_reparent_ok [where k = ?k0 and ini = ?ini and p = p, OF _ _ _ _ tab b0] w0(1) f obtain P s1 where
    r: "exit_reparent p ?k0 = Some (Inr ((with_sched s1 ?k0)\<lparr>pcbs := P\<rparr>))" "adopted p ?ini C X N F (no_any_waiters ?ini (pcbs k)) P"
      "sched_base T s1 (Q(Ready_tasks := Q Ready_tasks @ map task ?wi)) R" "sched_same (tcbs_of s0 ?wi) s0 s1" by auto
  let ?k1 = "(with_sched s1 ?k0)\<lparr>pcbs := P\<rparr>" and ?Q1 = "Q(Ready_tasks := Q Ready_tasks @ map task ?wi)"
  have sp: "same_pcb (no_any_waiters ?ini (pcbs k) q) (P q)" for q using r(2) by (simp add: adopted_def)
  have par1: "parent (P q) = (if q \<in> ran C \<union> ran X then ?ini else parent (pcbs k q))" for q using r(2) by (simp add: adopted_def no_any_waiters_def)
  note fp = same_pcb_fields [OF sp]
  have nT: "?n \<in> T" "?n \<notin> task ` set ?wi" using t by (auto simp: sched_ok_def sched_base_def waiting_ok_def)
  have tn: "tcbs s1 ?th = tcbs ?s ?th" "crt_thread_node s1 = ?n" "ptr (sched.nodes s1 ?n) = ?th"
    using untouched [OF b0 waiting_tasks [OF w0(1)] nT, of s1] r(4) sched_same_ptr [OF r(4)] by (simp_all add: s0 sched_same_def)
  have n0: "?n \<noteq> NULL" "?th \<noteq> NULL" using t by (auto simp: sched_ok_def sched_base_def thread_ok_def)
  have rel: "lock_free p ?k1" "it_rep (process_threads (pcbs ?k1 p)) [thread_id (tcbs (k_sched ?k1) ?th) \<mapsto> ?th]"
      "get_crt_process (k_sched ?k1) = Inr p" "release_user_space_pages (k_vm ?k1) = Inr v"
    using t f fr tn n0 fp(2,3) [of p] by (simp_all add: no_any_waiters_def get_crt_process_def get_crt_thread_def)
  from exit_release_ok [OF rel] obtain c where
    c: "exit_release p ?th code ?k1 = Some (Inr (?k1\<lparr>k_threads := (k_threads ?k1)\<lparr>t_vm := v, t_sched := upd_tcb ?th (\<lambda>t. t\<lparr>process := NULL\<rparr>) (k_sched ?k1)\<rparr>,
        pcbs := (pcbs ?k1)(p := c)\<rparr>))" "exited code (pcbs ?k1 p) c" by blast
  define k2 where "k2 = ?k1\<lparr>k_threads := (k_threads ?k1)\<lparr>t_vm := v, t_sched := upd_tcb ?th (\<lambda>t. t\<lparr>process := NULL\<rparr>) (k_sched ?k1)\<rparr>, pcbs := (pcbs ?k1)(p := c)\<rparr>"
  have k2: "k_vm k2 = v" "k_sched k2 = upd_tcb ?th (\<lambda>t. t\<lparr>process := NULL\<rparr>) s1" "pcbs k2 = P(p := c)" by (simp_all add: k2_def)
  have fam': "p \<noteq> ?par" "p \<noteq> ?ini" using f by auto
  have cf: "pid c = pid (pcbs k p)" "exit_wait_queue c = ?wp" "hold (process_lock c) = LOCKED_NO" "exit_code c = code" "process_status c = PROCESS_EXIT"
    using c(2) fp(1,2,6) [of p] f by (simp_all add: exited_def no_any_waiters_def)
  let ?wr' = "if ?par = ?ini then [] else ?wr" and ?Y = "if ?par = ?ini then F ++ X else Y"
  have k2p: "pid (pcbs k2 p) = pid (pcbs k p)" "exit_wait_queue (pcbs k2 p) = ?wp" "wait_any_exit_queue (pcbs k2 ?par) = ?wr'"
    using cf(1,2) fp(7) [of ?par] fam' by (simp_all add: k2 no_any_waiters_def)
  have lf2: "lock_free p k2" "lock_free ?par k2" "lock_free ?ini k2"
    using cf(3) fp(2) [of ?par] fp(2) [of ?ini] f by (simp_all add: k2 no_any_waiters_def)
  have rep2: "it_rep (exit_children_processes (pcbs k2 ?par)) ?Y" "small_ids ?Y"
    using r(2) f by (auto simp: k2 adopted_def no_any_waiters_def)
  have "distinct (map task (woken_by_exit k p))" using t by blast
  then have "distinct (map task ?wi @ map task ?wp @ map task ?wr')" unfolding woken_by_exit_def map_append .
  then have dj: "task ` set ?wp \<inter> task ` set ?wi = {}" "task ` set ?wr' \<inter> task ` set ?wi = {}" "task ` set ?wr' \<inter> task ` set ?wp = {}"
    unfolding distinct_append set_append set_map by blast+
  have b2: "sched_base T (k_sched k2) ?Q1 R" using r(3) by (simp add: k2)
  have wr': "waiting_ok T (k_sched ?k0) Q 0 ?wr'" using w0(3) by (simp add: waiting_ok_def)
  have w2: "waiting_ok T (k_sched k2) ?Q1 (pid (pcbs k p)) ?wp" "waiting_ok T (k_sched k2) ?Q1 0 ?wr'"
    unfolding k2 process_null_base using waiting_after [OF b0 w0(2,1) dj(1), of s1] waiting_after [OF b0 wr' w0(1) dj(2), of s1] r(4)
    by simp_all
  from exit_notify_ok [where k = k2 and p = p and par = ?par, unfolded k2p, OF fam'(1) lf2(1,2) rep2 b2 w2 dj(3)] obtain d s3 where
    n: "exit_notify True p ?par k2 = Some (Inr ((with_sched s3 k2)\<lparr>pcbs := (pcbs k2)(p := (pcbs k2 p)\<lparr>exit_wait_queue := []\<rparr>, ?par := d)\<rparr>))"
      "it_rep (exit_children_processes d) (?Y(pid (pcbs k p) \<mapsto> p))" "children_processes d = children_processes (pcbs k2 ?par)"
      "parent d = parent (pcbs k2 ?par)" "process_lock d = process_lock (pcbs k2 ?par)" "page_dir_lock d = page_dir_lock (pcbs k2 ?par)"
      "sched_base T s3 (?Q1(Ready_tasks := ?Q1 Ready_tasks @ map task ?wp @ map task ?wr')) R"
      "sched_same (tcbs_of (k_sched k2) ?wp \<union> tcbs_of (k_sched k2) ?wr') (k_sched k2) s3" by auto
  let ?k3 = "(with_sched s3 k2)\<lparr>pcbs := (pcbs k2)(p := (pcbs k2 p)\<lparr>exit_wait_queue := []\<rparr>, ?par := d)\<rparr>"
  have nf: "exit_notify False p ?par k2 = Some (Inl null_page_fault)"
    using lf2(1,2) fam'(1) by (simp add: exit_notify_def lock_process_free)
  have lk: "process_lock (P q) = process_lock (pcbs k q)" "page_dir_lock (P q) = page_dir_lock (pcbs k q)" for q
    using fp(2,10) [of q] by (simp_all add: no_any_waiters_def)
  have lc: "process_lock c = process_lock (pcbs k p)" "page_dir_lock c = page_dir_lock (pcbs k p)" using c(2) lk [of p] by (simp_all add: exited_def)
  have ds: "dead_resource_lock s3 = dead_resource_lock ?s" using n(8) r(4) by (simp add: k2 sched_same_def s0)
  have "kernel_locks ?k3 = kernel_locks k"
    using n(5,6) fam' lk lc ds by (auto simp: kernel_locks_def k2_def with_sched_def fun_eq_iff s0)
  then have "exit_announced code p C X N F Y k ?k3"
    using n(2-5) cf fam' f lf2 par1 r(2) unfolding exit_announced_def Let_def
    by (auto simp: k2 adopted_def no_any_waiters_def)
  moreover have "sched_base T s3 (Q(Ready_tasks := Q Ready_tasks @ map task (woken_by_exit k p))) R"
    using n(7) by (simp add: woken_by_exit_def)
  moreover have "crt_thread_node s3 = ?n" "main_thread_node s3 = main_thread_node ?s" "dead_resource_lock s3 = dead_resource_lock ?s"
    using n(8) tn(2) r(4) by (simp_all add: k2 sched_same_def sched_frame_def s0)
  moreover have "status (tcb_of s3 m) = status (tcb_of ?s m)" if m: "m \<in> T" "m \<notin> task ` set (woken_by_exit k p)" for m
  proof -
    have mm: "m \<notin> task ` set ?wi" "m \<notin> task ` set (?wp @ ?wr')" using m(2) unfolding woken_by_exit_def set_append by blast+
    have "task ` set (?wp @ ?wr') \<subseteq> T" using waiting_tasks [OF w2(1)] waiting_tasks [OF w2(2)] unfolding set_append by blast
    moreover have "sched_same (tcbs_of (k_sched k2) (?wp @ ?wr')) (k_sched k2) s3" using n(8) unfolding set_append image_Un .
    ultimately have "tcb_of s3 m = tcb_of (k_sched k2) m" using untouched [OF b2 _ m(1) mm(2)] by blast
    moreover have "tcb_of s1 m = tcb_of s0 m" 
      by (rule untouched [OF b0 [unfolded with_sched_simps] waiting_tasks [OF w0(1)] m(1) mm(1) r(4)])
    moreover have "status (tcb_of (k_sched k2) m) = status (tcb_of s1 m)" unfolding k2 process_null_tcb by simp
    ultimately show ?thesis by (simp add: s0)
  qed
  ultimately show ?thesis using cl r(1) c(1) n(1) nf k2(1) unfolding k2_def [symmetric]
    by (intro exI [of _ ?k1] exI [of _ k2] exI [of _ ?k3]) simp
qed


lemma set_sched_simps [simp]:
  "k_sched (set_sched s k) = s" "pcbs (set_sched s k) = pcbs k" "init_process (set_sched s k) = init_process k"
  "frame_ref (k_vm (set_sched s k)) = frame_ref (k_vm k)"
  by (simp_all add: set_sched_def Let_def set_vm_def switch_page_dir_def frame_ref_def fun_eq_iff)

lemma process_exit_lemma:
  assumes th: "exit_threads_ok T Q R k p" and fam: "exit_family_ok k p C X N F Y" and fr: "frames_counted (k_vm k)"
    and R2: "R2 = rr_queue (main_thread_node (k_sched k)) False (crt_thread_node (k_sched k))
               (Q Ready_tasks @ map task (woken_by_exit k p) @ take 1 (Q Dead_cv))"
  shows "(\<exists>k'. process_exit True code k = Some (Inr k') \<and> exit_announced code p C X N F Y k k' \<and>
     sched_ok T (k_sched k') (Q(Dead_tasks := Q Dead_tasks @ [crt_thread_node (k_sched k)], Dead_cv := tl (Q Dead_cv), Ready_tasks := tl R2)) R \<and>
     crt_thread_node (k_sched k') = hd R2 \<and> status (tcb_of (k_sched k') (hd R2)) = TASK_RUNNING \<and>
     (\<forall>f. frame_ref (k_vm k') f = frame_ref (k_vm k) f - (uses (k_vm k) user_pages f + table_uses (k_vm k) user_tables f))) \<and>
   process_exit False code k = Some (Inl null_page_fault)"
proof -
  let ?s = "k_sched k" and ?off = "(k_sched k)\<lparr>interrupts := False\<rparr>" and ?n = "crt_thread_node (k_sched k)"
  note t = th [unfolded exit_threads_ok_def Let_def] and f = fam [unfolded exit_family_ok_def Let_def]
  from user_space_released_lemma [OF fr] obtain v where
    v: "release_user_space_pages (k_vm k) = Inr v" "\<And>f. frame_ref v f = frame_ref (k_vm k) f - (uses (k_vm k) user_pages f + table_uses (k_vm k) user_tables f)"
    by blast
  from exit_until_notify [OF th fam v(1) refl, of code] obtain k1 k2 k3 where
    r: "exit_clear_threads p (with_sched ?off k) = Some (Inr (with_sched ?off k))" "exit_reparent p (with_sched ?off k) = Some (Inr k1)"
      "exit_release p (ptr (sched.nodes ?s ?n)) code k1 = Some (Inr k2)" "exit_notify True p (parent (pcbs k p)) k2 = Some (Inr k3)"
      "exit_notify False p (parent (pcbs k p)) k2 = Some (Inl null_page_fault)"
    and k3: "k_vm k3 = v" "exit_announced code p C X N F Y k k3" "sched_base T (k_sched k3) (Q(Ready_tasks := Q Ready_tasks @ map task (woken_by_exit k p))) R"
      "crt_thread_node (k_sched k3) = ?n" "main_thread_node (k_sched k3) = main_thread_node ?s" "dead_resource_lock (k_sched k3) = dead_resource_lock ?s"
    and st: "\<And>m. \<lbrakk>m \<in> T; m \<notin> task ` set (woken_by_exit k p)\<rbrakk> \<Longrightarrow> status (tcb_of (k_sched k3) m) = status (tcb_of ?s m)"
    by blast
  let ?Q = "Q(Ready_tasks := Q Ready_tasks @ map task (woken_by_exit k p))"
  have wk: "\<forall>w\<in>set (woken_by_exit k p). status (tcb_of ?s (task w)) = TASK_WAITING \<and> (\<forall>q. task w \<notin> set (Q q))"
    using t by (auto simp: woken_by_exit_def waiting_ok_def)
  have nw: "?n \<notin> task ` set (woken_by_exit k p)" using wk t by auto
  have nT: "?n \<in> T" using t by (simp add: sched_ok_def sched_base_def)
  have sn: "status (tcb_of (k_sched k3) ?n) = TASK_RUNNING" using st [OF nT nw] t by simp
  have ok: "sched_ok T (k_sched k3) ?Q R" using k3(3,4) t nw by (auto simp: sched_ok_def)
  have cv: "status (tcb_of (k_sched k3) m) = TASK_WAITING" if m: "m \<in> set (?Q Dead_cv)" for m
  proof -
    have "m \<in> T" using m t by (auto simp: sched_ok_def sched_base_def queues_rep_def)
    moreover have "m \<notin> task ` set (woken_by_exit k p)" using wk m by auto
    ultimately show ?thesis using st t m by auto
  qed
  have pre: "crt_thread_node (k_sched k3) \<noteq> main_thread_node (k_sched k3)" "status (tcb_of (k_sched k3) (crt_thread_node (k_sched k3))) = TASK_RUNNING"
    "hold (dead_resource_lock (k_sched k3)) = LOCKED_NO" "R2 = rr_queue (main_thread_node (k_sched k3)) False (crt_thread_node (k_sched k3)) (?Q Ready_tasks @ take 1 (?Q Dead_cv))"
    using t sn R2 by (simp_all add: k3)
  have "\<exists>s'. schedule_thread_exit (k_sched k3) = Some (Inr s') \<and>
      sched_ok T s' (?Q(Dead_tasks := ?Q Dead_tasks @ [?n], Dead_cv := tl (?Q Dead_cv), Ready_tasks := tl R2)) R \<and>
      crt_thread_node s' = hd R2 \<and> status (tcb_of s' (hd R2)) = TASK_RUNNING \<and> dead_resource_lock s' = dead_resource_lock (k_sched k3)"
    by (rule schedule_thread_exit_lemma [OF ok pre(1,2,3) _ pre(4), unfolded k3(4)]) (rule cv)
  then obtain s' where
    s': "schedule_thread_exit (k_sched k3) = Some (Inr s')" "sched_ok T s' (?Q(Dead_tasks := ?Q Dead_tasks @ [?n], Dead_cv := tl (?Q Dead_cv), Ready_tasks := tl R2)) R"
      "crt_thread_node s' = hd R2" "status (tcb_of s' (hd R2)) = TASK_RUNNING" "dead_resource_lock s' = dead_resource_lock (k_sched k3)"
    by (elim exE conjE)
  have crt: "the_crt_process k = Some (Inr p)" "the_crt_thread k = Some (Inr (ptr (sched.nodes ?s ?n)))"
    using t by (auto simp: the_crt_process_def the_crt_thread_def get_crt_process_def get_crt_thread_def sched_ok_def sched_base_def thread_ok_def)
  have run: "process_exit True code k = Some (Inr (set_sched s' k3))" "process_exit False code k = Some (Inl null_page_fault)"
    using f r s'(1) unfolding process_exit_def crt obind_simps Let_def by (simp_all add: set_sched_same on_sched_lock_def)
  have eq: "?Q(Dead_tasks := ?Q Dead_tasks @ [?n], Dead_cv := tl (?Q Dead_cv), Ready_tasks := tl R2) =
      Q(Dead_tasks := Q Dead_tasks @ [?n], Dead_cv := tl (Q Dead_cv), Ready_tasks := tl R2)" by (simp add: fun_eq_iff)
  have "kernel_locks (set_sched s' k3) = kernel_locks k3" using s'(5) by (simp add: kernel_locks_def set_sched_def set_vm_def Let_def)
  then have "exit_announced code p C X N F Y k (set_sched s' k3)" using k3(2) by (simp add: exit_announced_def)
  then show ?thesis using run s'(2-4) v(2) k3(1) unfolding eq by (intro conjI exI [of _ "set_sched s' k3"]) simp_all
qed



text \<open>
  A small family for the witnesses: the running process 7 at \<open>0x500\<close> with one child, 9 at \<open>0x700\<close>; its parent, 5 at \<open>0x600\<close>,
  has a thread that waits for it; the init process is at \<open>0x400\<close>.
\<close>

definition demo_family :: "addr \<Rightarrow> pcb_t" where
  "demo_family a =
     (if a = 0x500 then zero_pcb\<lparr>pid := 7, parent := 0x600, process_threads := snd (it_put it_init 3 40), children_processes := snd (it_put it_init 9 0x700),
          exit_children_processes := it_init, exit_wait_queue := [\<lparr>task = 64, target_pid = 7\<rparr>]\<rparr>
      else if a = 0x600 then zero_pcb\<lparr>pid := 5, children_processes := snd (it_put it_init 7 0x500), exit_children_processes := it_init\<rparr>
      else if a = 0x700 then zero_pcb\<lparr>pid := 9, parent := 0x500\<rparr>
      else zero_pcb\<lparr>pid := 2, children_processes := it_init, exit_children_processes := it_init\<rparr>)"

definition demo_family_tcb :: "addr \<Rightarrow> tcb_t" where
  "demo_family_tcb t = (demo_tcb t)\<lparr>thread_id := 3, status := (if t = 40 then TASK_RUNNING else if t = 72 then TASK_WAITING else TASK_READY)\<rparr>"

definition demo_kernel :: kernel where
  "demo_kernel = \<lparr>k_threads = (demo_threads (demo_sched\<lparr>tcbs := demo_family_tcb\<rparr>))\<lparr>t_vm := demo_user_vm\<rparr>,
     pcbs = demo_family, process_id_pool = thread_id_pool (demo_threads demo_sched), processes_map = it_init, processes_map_lock = \<lparr>hold = LOCKED_NO\<rparr>,
     main_process = 0x300, init_process = 0x400, kernel_clean_node = 0\<rparr>"


lemma demo_kernel_simps [simp]:
  "k_sched demo_kernel = demo_sched\<lparr>tcbs := demo_family_tcb\<rparr>" "k_vm demo_kernel = demo_user_vm" "pcbs demo_kernel = demo_family"
  "init_process demo_kernel = 0x400"
  by (simp_all add: demo_kernel_def demo_threads_def)

lemma demo_family_tables [simp]: "it_rep (snd (it_put it_init i a)) [i \<mapsto> a]" "it_rep it_init Map.empty"
  using it_put_rep(2) [OF it_init_rep] it_init_rep by (simp_all add: it_room_def it_init_def)

lemma demo_family_ok: "sched_ok {16, 32, 48, 64} (demo_sched\<lparr>tcbs := demo_family_tcb\<rparr>) demo_queues []"
  by (auto simp: sched_ok_def sched_base_def queues_rep_def demo_sched_def demo_queues_def demo_family_tcb_def demo_tcb_def thread_ok_def dll_def)


end
