(* ===== verification/Process_Fork.thy ===== *)
theory Process_Fork
  imports Thread_Fork Page_Clone Process_Exit
begin

text \<open>
  \<^verbatim>\<open>process_fork\<close> of \<^verbatim>\<open>src/src/task/process.c\<close> as a whole, over the copied address space (\<open>Page_Clone\<close>), the
  copied thread (\<open>Thread_Fork\<close>), the id tables and the ready queue.
\<close>

section \<open>A new process\<close>

definition new_pcb :: "u32 \<Rightarrow> u8 list option \<Rightarrow> bool \<Rightarrow> bitmap_t \<Rightarrow> nat \<Rightarrow> pcb_t" where
  "new_pcb i nm ker b D = zero_pcb\<lparr>pid := i, process_name := (case nm of Some n \<Rightarrow> n | None \<Rightarrow> default_process_name i), process_threads := it_init,
     user_thread_stack_indexes := b, is_kernel_process := ker, children_processes := it_init, exit_children_processes := it_init,
     page_dir := D, page_dir_lock := \<lparr>hold = LOCKED_NO\<rparr>, process_lock := \<lparr>hold = LOCKED_NO\<rparr>\<rparr>"

lemma stack_bitmap:
  assumes "kmalloc 512 = Some arr"
  shows "\<exists>b. bitmap_create kmalloc raw None USER_PRCOESS_THREDS_MAX = Inr b \<and> wf_bitmap b \<and> set_bits b = {} \<and> totalbits b = 4096"
proof -
  let ?b = "raw\<lparr>bitarray := replicate 128 0 @ drop 128 arr, alloc_array := True, arraysize := 128, totalbits := 4096\<rparr>"
  have "bitmap_create kmalloc raw None USER_PRCOESS_THREDS_MAX = Inr ?b"
    using assms by (simp add: bitmap_create_def bitmap_init_def Let_def USER_PRCOESS_THREDS_MAX_def)
  moreover have "set_bits ?b = {}" by (auto simp: set_bits_def nth_append)
  ultimately show ?thesis by (auto simp: wf_bitmap_def)
qed

lemma init_unlocks: "yieldlock_init l = \<lparr>hold = LOCKED_NO\<rparr>"
  by (cases l) (simp add: yieldlock_init_def)

lemma create_process_ok:
  assumes wfp: "wf_pool (process_id_pool k)" and ids: "\<not> {..<pool_capacity (process_id_pool k)} \<subseteq> pool_ids (process_id_pool k)"
    and mem: "kmalloc 512 = Some arr" and cl: "clone_crt_page_dir (k_vm k) = Inr (D, t)"
  shows "\<exists>i pool b. create_process kmalloc raw a nm ker k = Some (Inr (a, (set_vm t k)\<lparr>process_id_pool := pool, pcbs := (pcbs k)(a := new_pcb i nm ker b D)\<rparr>)) \<and>
    unat i \<notin> pool_ids (process_id_pool k) \<and> pool_ids pool = insert (unat i) (pool_ids (process_id_pool k)) \<and>
    wf_bitmap b \<and> set_bits b = {} \<and> totalbits b = 4096"
proof -
  from ids obtain i pool where al: "id_pool_alloc (process_id_pool k) = Some (i, pool)"
    using ip.alloc_None [OF wfp] by (cases "id_pool_alloc (process_id_pool k)") auto
  note i = ip.alloc_fresh [OF wfp al] ip.alloc_used [OF wfp al]
  from stack_bitmap [where raw = raw and kmalloc = kmalloc, OF mem] obtain b where
    b: "bitmap_create kmalloc raw None USER_PRCOESS_THREDS_MAX = Inr b" "wf_bitmap b" "set_bits b = {}" "totalbits b = 4096" by blast
  have "id_pool_allocate_id (\<lambda>p. p) (process_id_pool (upd_pcb a (\<lambda>_. zero_pcb) k)) = Some (Some i, pool)"
    using id_pool_allocate_id_eq [OF wfp] al by (simp add: upd_pcb_def)
  then have "create_process kmalloc raw a nm ker k = Some (Inr (a, (set_vm t k)\<lparr>process_id_pool := pool, pcbs := (pcbs k)(a := new_pcb i nm ker b D)\<rparr>))"
    using b(1) cl by (simp add: create_process_def Let_def upd_pcb_def set_vm_def new_pcb_def zero_pcb_def init_unlocks)
  then show ?thesis using i b by blast
qed

lemma add_child_process_free:
  assumes "lock_free p k"
  shows "add_child_process p ch k =
    Some (Inr (upd_pcb p (\<lambda>c. c\<lparr>children_processes := snd (it_put (children_processes c) (pid (pcbs k ch)) ch)\<rparr>) k))"
proof -
  have "(pcbs k p)\<lparr>children_processes := x, process_lock := \<lparr>hold = LOCKED_NO\<rparr>\<rparr> = (pcbs k p)\<lparr>children_processes := x\<rparr>" for x
    using lock_value [OF assms] by (cases "pcbs k p") simp
  then show ?thesis using lock_process_free [OF assms] by (simp add: add_child_process_def unlock_process_upd upd_pcb_def held_def)
qed

lemma add_process_thread_free:
  assumes "lock_free p k"
  shows "add_process_thread p th k = Some (Inr (upd_pcb p (\<lambda>c. c\<lparr>process_threads := snd (it_put (process_threads c) (thread_id (tcbs (k_sched k) th)) th)\<rparr>)
    (k\<lparr>k_threads := put_tcb th (\<lambda>t. t\<lparr>process := p\<rparr>) (k_threads k)\<rparr>)))"
proof -
  let ?k = "k\<lparr>k_threads := put_tcb th (\<lambda>t. t\<lparr>process := p\<rparr>) (k_threads k)\<rparr>"
  have l: "lock_free p ?k" using assms by simp
  have "(pcbs k p)\<lparr>process_threads := x, process_lock := \<lparr>hold = LOCKED_NO\<rparr>\<rparr> = (pcbs k p)\<lparr>process_threads := x\<rparr>" for x
    using lock_value [OF assms] by (cases "pcbs k p") simp
  then show ?thesis using lock_process_free [OF l]
    by (simp add: add_process_thread_def unlock_process_upd upd_pcb_def held_def put_tcb_def upd_tcb_def)
qed

lemma add_new_process_free:
  assumes "hold (processes_map_lock k) = LOCKED_NO"
  shows "add_new_process p k = Some (Inr (k\<lparr>processes_map := snd (it_put (processes_map k) (pid (pcbs k p)) p)\<rparr>))"
proof -
  have "(processes_map_lock k)\<lparr>hold := LOCKED_NO\<rparr> = processes_map_lock k" using assms by simp
  then show ?thesis using assms by (simp add: add_new_process_def yieldlock_defs LOCKED_NO_def)
qed

section \<open>A new thread in the scheduler\<close>

lemma add_thread_tcbs:
  "add_thread_node_to_schedule n s = Inr s' \<Longrightarrow> tcbs s' = (tcbs s)(ptr (sched.nodes s n) := make_ready (tcb_of s n))"
  by (auto simp: add_thread_node_to_schedule_def queue_append_def set_queue_def interrupt_disable_def interrupt_restore_def upd_tcb_def
      kbind_Inr_iff split: if_splits)

lemma sched_ok_new_thread:
  assumes ok: "sched_ok T s Q P" and n: "n \<notin> T" "n \<notin> set P" "n \<noteq> NULL" and a: "a \<noteq> NULL" "\<And>x. x \<in> T \<Longrightarrow> ptr (sched.nodes s x) \<noteq> a"
    and card: "card T + 1 < 2 ^ 31" and t: "crt_node_ptr t = n"
  shows "sched_ok (insert n T) (s\<lparr>sched.nodes := (sched.nodes s)(n := \<lparr>ptr = a, prev = NULL, nxt = NULL\<rparr>), tcbs := (tcbs s)(a := t)\<rparr>) Q P"
proof -
  let ?h = "(sched.nodes s)(n := \<lparr>ptr = a, prev = NULL, nxt = NULL\<rparr>)"
  let ?s = "s\<lparr>sched.nodes := ?h, tcbs := (tcbs s)(a := t)\<rparr>"
  have base: "sched_base T s Q P" and rep: "queues_rep T s Q P" using ok by (auto simp: sched_ok_def sched_base_def)
  have QT: "set (Q q) \<subseteq> T" for q using rep by (cases "q = No_queue") (auto simp: queues_rep_def)
  have h: "?h x = sched.nodes s x" if "x \<in> T" for x using that n(1) by auto
  have same: "tcb_of ?s x = tcb_of s x" if "x \<in> T" for x using h [OF that] a(2) [OF that] by simp
  have "dll ?h (queues s q) (Q q)" if "q \<noteq> No_queue" for q
    using rep that n(1) QT [of q] by (subst dll_cong [where h = "sched.nodes s"]) (auto simp: queues_rep_def)
  moreover have "dll ?h (dead_processes s) P"
    using rep n(2) by (subst dll_cong [where h = "sched.nodes s"]) (auto simp: queues_rep_def)
  ultimately have "queues_rep (insert n T) ?s Q P" using rep card n QT by (auto simp: queues_rep_def)
  moreover have "thread_ok ?s x" if "x \<in> insert n T" for x
    using that base n(3) a t same h unfolding sched_base_def thread_ok_def by (cases "x = n") auto
  moreover have "crt_queue (tcb_of ?s x) = Ready_tasks \<and> (x \<noteq> main_thread_node s \<longrightarrow> status (tcb_of ?s x) = TASK_READY)" if "x \<in> set (Q Ready_tasks)" for x
    using base same [of x] that QT [of Ready_tasks] unfolding sched_base_def by auto
  moreover have c: "crt_thread_node s \<in> T" using base by (simp add: sched_base_def)
  ultimately show ?thesis using base ok same [OF c] unfolding sched_ok_def sched_base_def by auto
qed

section \<open>The address space after the copy\<close>

lemma table_frame_iff: "vm_ok s \<Longrightarrow> table_frame s f \<longleftrightarrow> f \<in> table_frames s"
  using cr3_table [of s] by (auto simp: table_frame_def table_frames_def vm_ok_def)

text \<open>What the copy leaves of the state that a new thread needs.\<close>

lemma clone_keeps:
  assumes r: "clone_ready s" and c: "cloning D M user_tables s t" "\<not> pte_present (phys t (table_of s 1023) 1021)"
  shows "table_frames t = table_frames s" "frame_ref s h \<noteq> 0 \<Longrightarrow> frame_ref t h \<noteq> 0"
    "\<lbrakk>frame_ref s h \<noteq> 0; h \<notin> table_frames s\<rbrakk> \<Longrightarrow> phys t h = phys s h" "dir_index v \<noteq> 769 \<Longrightarrow> walk t v = walk s v"
    "frame_ref t D \<noteq> 0" "D \<notin> table_frames t" "i \<in> live s user_tables \<Longrightarrow> frame_ref t (M i) \<noteq> 0 \<and> M i \<notin> table_frames t"
    "card (free_frames s) \<le> card (free_frames t) + card (live s user_tables) + 1"
proof -
  note d = clone_readyD [OF r] and b = cloning_base [OF r order_refl c(1)] and fr = cloning_fresh [OF c(1)]
  have cr: "cr3 t = cr3 s" using c(1) by (simp add: cloning_def)
  show tf: "table_frames t = table_frames s" using b(1) cr by (intro table_frames_cong) simp_all
  show rf: "frame_ref s h \<noteq> 0 \<Longrightarrow> frame_ref t h \<noteq> 0" using fr(3) by simp
  show "\<lbrakk>frame_ref s h \<noteq> 0; h \<notin> table_frames s\<rbrakk> \<Longrightarrow> phys t h = phys s h"
  proof -
    assume h: "frame_ref s h \<noteq> 0" "h \<notin> table_frames s"
    then have "h \<noteq> table_of s 1023" "h \<notin> table_of s ` live s user_tables" using d(2) by (auto simp: table_frames_def)
    then show "phys t h = phys s h" using h(1) c(1) unfolding cloning_def by blast
  qed
  show "dir_index v \<noteq> 769 \<Longrightarrow> walk t v = walk s v" using clone_view(1) [OF r c refl disjI1 [OF cr]] .
  show "frame_ref t D \<noteq> 0" using c(1) by (simp add: cloning_def)
  show "D \<notin> table_frames t" using free_not_table [OF d(1) fr(1)] tf by simp
  show "i \<in> live s user_tables \<Longrightarrow> frame_ref t (M i) \<noteq> 0 \<and> M i \<notin> table_frames t"
    using fr(2) free_not_table [OF d(1)] tf c(1) by (auto simp: cloning_def)
  have "free_frames s \<subseteq> free_frames t \<union> insert D (M ` live s user_tables)"
  proof
    fix h assume h: "h \<in> free_frames s"
    have "uses s user_pages h = 0" using d(5) [of h] h by (auto simp: free_frames_def)
    then show "h \<in> free_frames t \<union> insert D (M ` live s user_tables)"
      using h c(1) unfolding cloning_def user_pages_div by (simp add: free_frames_def)
  qed
  then have "card (free_frames s) \<le> card (free_frames t \<union> insert D (M ` live s user_tables))" by (intro card_mono) simp_all
  also have "\<dots> \<le> card (free_frames t) + card (insert D (M ` live s user_tables))" by (rule card_Un_le)
  also have "card (insert D (M ` live s user_tables)) \<le> card (live s user_tables) + 1"
    using card_image_le [of "live s user_tables" M] by (simp add: card_insert_if)
  finally show "card (free_frames s) \<le> card (free_frames t) + card (live s user_tables) + 1" by simp
qed

text \<open>A state that differs from the copy only by kernel pages shows the child what it shows the parent.\<close>

lemma child_view:
  assumes r: "clone_ready s" and c: "cloning D M user_tables s t" "\<not> pte_present (phys t (table_of s 1023) 1021)"
    and q: "cr3 q = cr3 t" "phys q (cr3 t) = phys t (cr3 t)" "\<And>h. \<lbrakk>frame_ref t h \<noteq> 0; h \<notin> table_frames t\<rbrakk> \<Longrightarrow> phys q h = phys t h"
    and u: "dir_index v \<in> user_tables \<Longrightarrow> walk q v = walk t v" and v: "dir_index v \<noteq> 769"
  shows "walk (switch_page_dir D q) v = walk q v"
proof -
  note k = clone_keeps [OF r c] and b = cloning_base [OF r order_refl c(1)]
  let ?i = "dir_index v" and ?c = "switch_page_dir D"
  have D: "phys q D = phys t D" using q(3) k(5,6) by simp
  have pd: "phys t D ?i = new_pde D M user_tables s ?i" using c(1) dir_index_less [of v] by (simp add: cloning_def)
  show ?thesis
  proof (cases "?i \<in> user_tables")
    case True
    have "walk (?c q) v = walk (?c t) v"
    proof (rule walk_phys)
      assume p: "pte_present (pde (?c t) ?i)"
      from child_table [OF c(1) dir_index_less p] True v have T: "table_of (?c t) ?i = M ?i" "?i \<in> live s user_tables" by auto
      show "phys (?c q) (table_of (?c t) ?i) (table_index v) = phys (?c t) (table_of (?c t) ?i) (table_index v)"
        unfolding T(1) using q(3) k(7) [OF T(2)] by (simp add: child_fields)
    qed (simp add: child_fields D)
    also have "\<dots> = walk s v" using clone_view(1) [OF r c child_fields(1) disjI2 [OF child_fields(2)] v] .
    finally show ?thesis using u [OF True] k(4) [OF v] by simp
  next
    case False
    have "phys q D ?i = pde q ?i" using D pd new_pde_cases(1) [OF False v] q(1,2) b(1) by simp
    then show ?thesis by (intro walk_phys) (simp_all add: child_fields)
  qed
qed

section \<open>The copied thread over the copied address space\<close>

lemma threads_ok_clone:
  assumes ok: "threads_ok s" and r: "clone_ready (t_vm s)" and c: "cloning D M user_tables (t_vm s) t" "\<not> pte_present (phys t (table_of (t_vm s) 1023) 1021)"
  shows "threads_ok (s\<lparr>t_vm := t\<rparr>)"
proof -
  note b = cloning_base [OF r order_refl c(1)] and k = clone_keeps(4) [OF r c]
  have "walk t (slot_base i + of_nat (4096 * j)) = walk (t_vm s) (slot_base i + of_nat (4096 * j))" if "i < 21845" "j < 3" for i j
    by (rule k) (rule slot_page(3) [OF that])
  from this [of _ 0] this [of _ 1] this [of _ 2] ok b(1,3) show ?thesis by (simp add: threads_ok_def)
qed

lemma stack_copied_clone:
  assumes m: "stack_mapped a p q s" and c: "stack_copied a t entry b v" and w: "walk t a = Some p" "walk t (a + 4096) = Some q"
    and ph: "phys t p = phys s p" "phys t q = phys s q"
  shows "stack_copied a s entry b v"
  unfolding stack_copied_def
proof (intro allI impI)
  fix j :: nat
  assume j: "j < 2048"
  note m = m [unfolded stack_mapped_def]
  have "vread t (a + of_nat (4 * j)) = vread s (a + of_nat (4 * j))"
    using stack_word [of a t p q j] stack_word [of a s p q j] m w ph j by simp
  then show "vread v (b + of_nat (4 * j)) = (if j = 2029 then Inr entry else vread s (a + of_nat (4 * j)))"
    using c j unfolding stack_copied_def by simp
qed

lemma fork_thread_cloned:
  assumes ok: "threads_ok s" and ids: "\<not> {..<pool_capacity (thread_id_pool s)} \<subseteq> pool_ids (thread_id_pool s)" and fs: "free_slot s"
    and r: "clone_ready (t_vm s)" and c: "cloning D M user_tables (t_vm s) t" "\<not> pte_present (phys t (table_of (t_vm s) 1023) 1021)"
    and fr: "card (live (t_vm s) user_tables) + 3 \<le> card (free_frames (t_vm s))" and a: "a \<noteq> NULL"
    and crt: "get_crt_thread (t_sched s) = Inr crt" and m: "stack_mapped (kernel_stack (tcbs (t_sched s) crt)) p q (t_vm s)"
  shows "\<exists>s' k i. fork_crt_thread entry a (s\<lparr>t_vm := t\<rparr>) = Some (Inr (a, s')) \<and> threads_ok s' \<and> unat i \<notin> pool_ids (thread_id_pool s) \<and>
    t_sched s' = (t_sched s)\<lparr>sched.nodes := (sched.nodes (t_sched s))(schedule_node a := \<lparr>ptr = a, prev = NULL, nxt = NULL\<rparr>),
      tcbs := (tcbs (t_sched s))(a := forked_tcb a i k (tcbs (t_sched s) crt))\<rparr> \<and>
    stack_copied (kernel_stack (tcbs (t_sched s) crt)) (t_vm s) entry (slot_base k + 4096) (t_vm s') \<and>
    (\<forall>v. dir_index v \<in> user_tables \<longrightarrow> walk (t_vm s') v = walk (t_vm s) v) \<and>
    (\<forall>v. dir_index v \<noteq> 769 \<longrightarrow> walk (switch_page_dir D (t_vm s')) v = walk (t_vm s') v) \<and>
    (\<forall>h. frame_ref (t_vm s) h \<noteq> 0 \<longrightarrow> h \<notin> table_frames (t_vm s) \<longrightarrow> phys (t_vm s') h = phys (t_vm s) h)"
proof -
  note kp = clone_keeps [OF r c] and mm = m [unfolded stack_mapped_def]
  let ?S = "kernel_stack (tcbs (t_sched s) crt)"
  have mt: "stack_mapped ?S p q t" using mm kp(1,2,4) by (simp add: stack_mapped_def)
  have pq: "phys t p = phys (t_vm s) p" "phys t q = phys (t_vm s) q" using kp(3) mm by simp_all
  have ft: "2 \<le> card (free_frames t)" using kp(8) fr by linarith
  from fork_crt_thread_ok [OF threads_ok_clone [OF ok r c], of a crt p q entry] ids fs ft a crt mt obtain s' k i where
    f: "fork_crt_thread entry a (s\<lparr>t_vm := t\<rparr>) = Some (Inr (a, s'))" "threads_ok s'" "unat i \<notin> pool_ids (thread_id_pool s)" "k < 21845"
      "t_sched s' = (t_sched s)\<lparr>sched.nodes := (sched.nodes (t_sched s))(schedule_node a := \<lparr>ptr = a, prev = NULL, nxt = NULL\<rparr>),
        tcbs := (tcbs (t_sched s))(a := forked_tcb a i k (tcbs (t_sched s) crt))\<rparr>"
      "stack_copied ?S t entry (slot_base k + 4096) (t_vm s')" "cr3 (t_vm s') = cr3 t" "phys (t_vm s') (cr3 t) = phys t (cr3 t)"
      "\<And>v. \<lbrakk>dir_index v \<noteq> 769; \<not> same_page v (slot_base k + 4096); \<not> same_page v (slot_base k + 8192)\<rbrakk> \<Longrightarrow> walk (t_vm s') v = walk t v"
      "\<And>h. \<lbrakk>frame_ref t h \<noteq> 0; h \<notin> table_frames t\<rbrakk> \<Longrightarrow> phys (t_vm s') h = phys t h"
    by (auto simp: free_slot_def)
  have uw: "walk (t_vm s') v = walk t v" if "dir_index v \<in> user_tables" for v
    using that slot_page(4) [OF f(4), of 1] slot_page(4) [OF f(4), of 2] by (intro f(9)) (auto simp: same_page_def)
  have "walk (switch_page_dir D (t_vm s')) v = walk (t_vm s') v" if "dir_index v \<noteq> 769" for v
    by (rule child_view [OF r c f(7,8,10) uw that])
  moreover have "stack_copied ?S (t_vm s) entry (slot_base k + 4096) (t_vm s')"
    using mt by (intro stack_copied_clone [OF m f(6) _ _ pq]) (simp_all add: stack_mapped_def)
  ultimately show ?thesis using f(1-3,5,10) uw kp(1-4) by (intro exI [of _ s'] exI [of _ k] exI [of _ i]) auto
qed

section \<open>Fork\<close>

text \<open>
  The running thread \<open>crt\<close> of the process \<open>p\<close>, whose kernel stack is in the frames \<open>u\<close> and \<open>w\<close>, can fork: there are ids, a stack slot
  and frames, the locks are free, and the tables, which stand for the children \<open>C\<close> and for all processes \<open>R\<close>, have room.
\<close>

definition fork_ready :: "addr set \<Rightarrow> (queue_ref \<Rightarrow> addr list) \<Rightarrow> addr list \<Rightarrow> kernel \<Rightarrow> addr \<Rightarrow> addr \<Rightarrow> nat \<Rightarrow> nat \<Rightarrow>
    (u32 \<Rightarrow> addr option) \<Rightarrow> (u32 \<Rightarrow> addr option) \<Rightarrow> bool" where
  "fork_ready T Q P k p crt u w C R \<longleftrightarrow>
     sched_ok T (k_sched k) Q P \<and> card T + 1 < 2 ^ 31 \<and> get_crt_process (k_sched k) = Inr p \<and> get_crt_thread (k_sched k) = Inr crt \<and>
     status (tcbs (k_sched k) crt) = TASK_RUNNING \<and> threads_ok (k_threads k) \<and> free_slot (k_threads k) \<and>
     \<not> {..<pool_capacity (thread_id_pool (k_threads k))} \<subseteq> pool_ids (thread_id_pool (k_threads k)) \<and>
     clone_ready (k_vm k) \<and> card (live (k_vm k) user_tables) + 3 \<le> card (free_frames (k_vm k)) \<and>
     stack_mapped (kernel_stack (tcbs (k_sched k) crt)) u w (k_vm k) \<and>
     wf_pool (process_id_pool k) \<and> \<not> {..<pool_capacity (process_id_pool k)} \<subseteq> pool_ids (process_id_pool k) \<and>
     lock_free p k \<and> hold (processes_map_lock k) = LOCKED_NO \<and>
     it_rep (children_processes (pcbs k p)) C \<and> it_room (children_processes (pcbs k p)) \<and> it_rep (processes_map k) R \<and> it_room (processes_map k)"

text \<open>The memory that \<^verbatim>\<open>kmalloc\<close> returned for the two control blocks is not in use.\<close>

definition fresh_blocks :: "addr set \<Rightarrow> addr list \<Rightarrow> kernel \<Rightarrow> addr \<Rightarrow> addr \<Rightarrow> addr \<Rightarrow> bool" where
  "fresh_blocks T P k p a_pcb a_tcb \<longleftrightarrow>
     a_pcb \<noteq> p \<and> a_tcb \<noteq> NULL \<and> schedule_node a_tcb \<noteq> NULL \<and> schedule_node a_tcb \<notin> T \<and> schedule_node a_tcb \<notin> set P \<and>
     (\<forall>x\<in>T. ptr (sched.nodes (k_sched k) x) \<noteq> a_tcb)"

text \<open>The control block of the child at the end of \<^verbatim>\<open>process_fork\<close>.\<close>

definition child_pcb :: "u32 \<Rightarrow> u32 \<Rightarrow> bitmap_t \<Rightarrow> nat \<Rightarrow> addr \<Rightarrow> addr \<Rightarrow> u32 \<Rightarrow> pcb_t" where
  "child_pcb i tid b D p a_tcb index = (new_pcb i None False b D)\<lparr>parent := p, process_threads := snd (it_put it_init tid a_tcb),
     user_thread_stack_indexes := bitmap_set_bit b index\<rparr>"

text \<open>The parts of \<^verbatim>\<open>process_fork\<close> put together: \<open>sc0\<close> is the scheduler when the new thread belongs to the new process, \<open>sc\<close> when it is ready.\<close>

definition new_thread_sched :: "addr \<Rightarrow> tcb_t \<Rightarrow> sched \<Rightarrow> sched" where
  "new_thread_sched a t s = s\<lparr>sched.nodes := (sched.nodes s)(schedule_node a := \<lparr>ptr = a, prev = NULL, nxt = NULL\<rparr>), tcbs := (tcbs s)(a := t)\<rparr>"

lemma new_thread_scheduled:
  assumes ok: "sched_ok T s Q P" and card: "card T + 1 < 2 ^ 31"
    and fb: "a \<noteq> NULL" "schedule_node a \<noteq> NULL" "schedule_node a \<notin> T" "schedule_node a \<notin> set P" "\<And>x. x \<in> T \<Longrightarrow> ptr (sched.nodes s x) \<noteq> a"
    and t: "crt_node_ptr t = schedule_node a" "status t \<noteq> TASK_DEAD"
  shows "\<exists>sc. add_thread_node_to_schedule (schedule_node a) (new_thread_sched a t s) = Inr sc \<and>
    sched_ok (insert (schedule_node a) T) sc (Q(Ready_tasks := Q Ready_tasks @ [schedule_node a])) P \<and>
    crt_thread_node sc = crt_thread_node s \<and> current_dir sc = current_dir s \<and> tcbs sc = (tcbs s)(a := make_ready t)"
proof -
  let ?n = "schedule_node a" and ?s = "new_thread_sched a t s"
  have so: "sched_ok (insert ?n T) ?s Q P" unfolding new_thread_sched_def by (rule sched_ok_new_thread) (use assms in auto)
  have QT: "?n \<notin> set (Q q)" for q
    using ok fb(3) by (cases "q = No_queue") (auto simp: sched_ok_def sched_base_def queues_rep_def)
  have "\<exists>sc. add_thread_node_to_schedule ?n ?s = Inr sc \<and> sched_base (insert ?n T) sc (Q(Ready_tasks := Q Ready_tasks @ [?n])) P \<and>
      sched_same {ptr (sched.nodes ?s ?n)} ?s sc \<and> status (tcb_of sc ?n) = TASK_READY"
    by (rule add_thread_base) (use so QT t in \<open>auto simp: sched_ok_def new_thread_sched_def\<close>)
  then obtain sc where sc: "add_thread_node_to_schedule ?n ?s = Inr sc"
    "sched_base (insert ?n T) sc (Q(Ready_tasks := Q Ready_tasks @ [?n])) P" "sched_same {ptr (sched.nodes ?s ?n)} ?s sc" by blast
  have sf: "crt_thread_node sc = crt_thread_node s" "current_dir sc = current_dir s" "\<And>x. ptr (sched.nodes sc x) = ptr (sched.nodes ?s x)"
    using sc(3) by (auto simp: sched_same_def sched_frame_def new_thread_sched_def)
  have tc: "tcbs sc = (tcbs s)(a := make_ready t)" using add_thread_tcbs [OF sc(1)] by (simp add: new_thread_sched_def)
  have ct: "crt_thread_node s \<in> T" using ok by (simp add: sched_ok_def sched_base_def)
  then have "sched_ok (insert ?n T) sc (Q(Ready_tasks := Q Ready_tasks @ [?n])) P"
    using sc(2) so fb(3,5) unfolding sched_ok_def sf(1) by (auto simp: sf(3) tc new_thread_sched_def)
  then show ?thesis using sc(1) sf(1,2) tc by blast
qed

lemma process_fork_steps:
  assumes c: "create_process kmalloc raw a_pcb None False k =
      Some (Inr (a_pcb, (set_vm t k)\<lparr>process_id_pool := pool, pcbs := (pcbs k)(a_pcb := new_pcb i None False b D)\<rparr>))"
    and p: "get_crt_process (k_sched k) = Inr p" "lock_free p k" "hold (processes_map_lock k) = LOCKED_NO" "a_pcb \<noteq> p" "a_tcb \<noteq> NULL"
    and f: "fork_crt_thread entry a_tcb ((k_threads k)\<lparr>t_vm := t\<rparr>) = Some (Inr (a_tcb, s'))" "t_sched s' = new_thread_sched a_tcb th0 (k_sched k)"
      "crt_node_ptr th0 = schedule_node a_tcb"
    and sc: "add_thread_node_to_schedule (schedule_node a_tcb) (new_thread_sched a_tcb (th0\<lparr>process := a_pcb\<rparr>) (k_sched k)) = Inr sc"
      "current_dir sc = current_dir (k_sched k)"
  shows "process_fork entry kmalloc raw a_pcb a_tcb k = Some (Inr (i, k\<lparr>k_threads := s'\<lparr>t_sched := sc\<rparr>, process_id_pool := pool,
      processes_map := snd (it_put (processes_map k) i a_pcb),
      pcbs := (pcbs k)(p := (pcbs k p)\<lparr>children_processes := snd (it_put (children_processes (pcbs k p)) i a_pcb)\<rparr>,
        a_pcb := child_pcb i (thread_id th0) b D p a_tcb (user_stack_index th0))\<rparr>))"
proof -
  let ?N = "new_pcb i None False b D" and ?sc0 = "new_thread_sched a_tcb (th0\<lparr>process := a_pcb\<rparr>) (k_sched k)"
  let ?g = "\<lambda>c. c\<lparr>children_processes := snd (it_put (children_processes c) i a_pcb)\<rparr>"
  define k1 where "k1 = (set_vm t k)\<lparr>process_id_pool := pool, pcbs := (pcbs k)(a_pcb := ?N)\<rparr>"
  define k3 where "k3 = upd_pcb a_pcb (\<lambda>c. c\<lparr>parent := p\<rparr>) (upd_pcb p ?g k1)"
  define k5 where "k5 = upd_pcb a_pcb (\<lambda>c. c\<lparr>process_threads := snd (it_put (process_threads c) (thread_id th0) a_tcb)\<rparr>)
      (k3\<lparr>k_threads := s'\<lparr>t_sched := ?sc0\<rparr>\<rparr>)"
  define k7 where "k7 = upd_pcb a_pcb (\<lambda>c. c\<lparr>user_thread_stack_indexes := bitmap_set_bit (user_thread_stack_indexes c) (user_stack_index th0)\<rparr>)
      (k5\<lparr>processes_map := snd (it_put (processes_map k) i a_pcb)\<rparr>)"
  have N: "pid ?N = i" "process_lock ?N = \<lparr>hold = LOCKED_NO\<rparr>" by (simp_all add: new_pcb_def)
  have k1: "k_sched k1 = k_sched k" "k_threads k1 = (k_threads k)\<lparr>t_vm := t\<rparr>" "pcbs k1 = (pcbs k)(a_pcb := ?N)" by (simp_all add: k1_def set_vm_def)
  have pc: "the_crt_process k1 = Some (Inr p)" using p(1) k1(1) by (simp add: the_crt_process_def)
  have ch: "add_child_process p a_pcb k1 = Some (Inr (upd_pcb p ?g k1))"
    using add_child_process_free [where p = p and k = k1 and ch = a_pcb] p(2,4) by (simp add: k1(3) N)
  have th3: "k_threads k3 = (k_threads k)\<lparr>t_vm := t\<rparr>" "processes_map k3 = processes_map k" "processes_map_lock k3 = processes_map_lock k"
    "lock_free a_pcb k3" using p(4) by (simp_all add: k3_def upd_pcb_def k1_def set_vm_def N)
  have fk: "on_threads (fork_crt_thread entry a_tcb) k3 = Some (Inr (a_tcb, k3\<lparr>k_threads := s'\<rparr>))"
    using f(1) by (simp add: on_threads_def th3(1))
  have sc0: "put_tcb a_tcb (\<lambda>t. t\<lparr>process := a_pcb\<rparr>) s' = s'\<lparr>t_sched := ?sc0\<rparr>" "tcbs (t_sched s') a_tcb = th0"
    by (simp_all add: put_tcb_def upd_tcb_def f(2) new_thread_sched_def)
  have at: "add_process_thread a_pcb a_tcb (k3\<lparr>k_threads := s'\<rparr>) = Some (Inr k5)"
    using add_process_thread_free [where p = a_pcb and k = "k3\<lparr>k_threads := s'\<rparr>" and th = a_tcb] th3(4) by (simp add: k5_def sc0)
  have k5: "processes_map k5 = processes_map k" "hold (processes_map_lock k5) = LOCKED_NO" "pid (pcbs k5 a_pcb) = i" "k_sched k5 = ?sc0"
    using th3(2,3) p(3,4) by (simp_all add: k5_def k3_def upd_pcb_def k1_def N)
  have np: "add_new_process a_pcb k5 = Some (Inr (k5\<lparr>processes_map := snd (it_put (processes_map k) i a_pcb)\<rparr>))"
    using add_new_process_free [OF k5(2), of a_pcb] k5(1,3) by simp
  have sk: "tcbs (k_sched k5) a_tcb = th0\<lparr>process := a_pcb\<rparr>" "k_sched k7 = ?sc0" "current_dir ?sc0 = current_dir (k_sched k)"
    using k5(4) by (simp_all add: k7_def upd_pcb_def new_thread_sched_def)
  have as: "on_sched (add_thread_node_to_schedule (schedule_node a_tcb)) k7 = Some (Inr (with_sched sc k7))"
    using sc set_sched_same [of sc k7] by (simp add: on_sched_def sk)
  have "process_fork entry kmalloc raw a_pcb a_tcb k = Some (Inr (i, with_sched sc k7))"
    unfolding process_fork_def Let_def c [folded k1_def] obind_simps prod.case pc ch k3_def [symmetric] fk at np
    using p(5) as k5(3) by (simp add: oassert_def sk f(3) k7_def [symmetric] at np) (simp add: k7_def upd_pcb_def sk f(3) new_thread_sched_def)
  moreover have "with_sched sc k7 = k\<lparr>k_threads := s'\<lparr>t_sched := sc\<rparr>, process_id_pool := pool,
    processes_map := snd (it_put (processes_map k) i a_pcb),
    pcbs := (pcbs k)(p := (pcbs k p)\<lparr>children_processes := snd (it_put (children_processes (pcbs k p)) i a_pcb)\<rparr>,
      a_pcb := child_pcb i (thread_id th0) b D p a_tcb (user_stack_index th0))\<rparr>"
    using p(4) by (simp add: with_sched_def k7_def k5_def k3_def k1_def upd_pcb_def set_vm_def child_pcb_def new_pcb_def fun_upd_twist)
  ultimately show ?thesis by simp
qed

lemma child_pcb_facts:
  assumes "wf_bitmap b" "set_bits b = {}" "totalbits b = 4096"
  shows "pid (child_pcb i tid b D p a x) = i" "parent (child_pcb i tid b D p a x) = p" "process_status (child_pcb i tid b D p a x) = PROCESS_NORMAL"
    "page_dir (child_pcb i tid b D p a x) = D" "it_rep (process_threads (child_pcb i tid b D p a x)) [tid \<mapsto> a]"
    "it_rep (children_processes (child_pcb i tid b D p a x)) Map.empty"
    "set_bits (user_thread_stack_indexes (child_pcb i tid b D p a x)) = (if unat x < 4096 then {unat x} else {})"
  using it_put_rep(2) [OF it_init_rep, of tid a] it_init_rep set_bits_set_bit [OF assms(1), of x] assms(2,3)
  by (simp_all add: child_pcb_def new_pcb_def zero_pcb_def it_room_def it_init_def)

text \<open>C5: fork duplicates the calling process. The call returns the fresh id of a new process to the caller, which keeps running; the new process
  is its child and is entered among all processes; it has one thread, ready to run, with the user stack of the caller and a copy of the caller's
  kernel stack, word by word except for the address it starts at, so that it returns to the same place in the same program. The
  child's own page directory shows it every user page of the parent and all of the kernel's memory, its new stack included, and no page of
  the parent has changed.\<close>

theorem process_fork_duplicates:
  assumes r: "fork_ready T Q P k p crt u w C R" and fb: "fresh_blocks T P k p a_pcb a_tcb" and mem: "kmalloc 512 = Some arr"
  shows "\<exists>i k'. process_fork entry kmalloc raw a_pcb a_tcb k = Some (Inr (i, k')) \<and> unat i \<notin> pool_ids (process_id_pool k) \<and>
    it_rep (children_processes (pcbs k' p)) (C(i \<mapsto> a_pcb)) \<and> it_rep (processes_map k') (R(i \<mapsto> a_pcb)) \<and>
    sched_ok (insert (schedule_node a_tcb) T) (k_sched k') (Q(Ready_tasks := Q Ready_tasks @ [schedule_node a_tcb])) P \<and>
    crt_thread_node (k_sched k') = crt_thread_node (k_sched k) \<and>
    (let c = pcbs k' a_pcb; t = tcbs (k_sched k') a_tcb; t0 = tcbs (k_sched k) crt
     in pid c = i \<and> parent c = p \<and> process_status c = PROCESS_NORMAL \<and> it_rep (process_threads c) [thread_id t \<mapsto> a_tcb] \<and>
        it_rep (children_processes c) Map.empty \<and>
        set_bits (user_thread_stack_indexes c) = (if unat (user_stack_index t0) < 4096 then {unat (user_stack_index t0)} else {}) \<and>
        status t = TASK_READY \<and> process t = a_pcb \<and> user_stack t = user_stack t0 \<and> kernel_esp t = kernel_stack t + 8088 \<and>
        stack_copied (kernel_stack t0) (k_vm k) entry (kernel_stack t) (k_vm k') \<and>
        (\<forall>v. dir_index v \<in> {1..<768} \<longrightarrow> walk (k_vm k') v = walk (k_vm k) v) \<and>
        (\<forall>v. dir_index v \<noteq> 769 \<longrightarrow> walk (switch_page_dir (page_dir c) (k_vm k')) v = walk (k_vm k') v)) \<and>
    (\<forall>h. frame_ref (k_vm k) h \<noteq> 0 \<longrightarrow> h \<notin> table_frames (k_vm k) \<longrightarrow> phys (k_vm k') h = phys (k_vm k) h)"
proof -
  note r = r [unfolded fork_ready_def] and fb = fb [unfolded fresh_blocks_def]
  let ?S = "k_sched k" and ?c = "tcbs (k_sched k) crt"
  have "clone_ready (k_vm k)" using r by blast
  from clone_result [OF this] obtain D t M where
    t: "clone_crt_page_dir (k_vm k) = Inr (D, t)" "cloning D M user_tables (k_vm k) t" "\<not> pte_present (phys t (table_of (k_vm k) 1023) 1021)" by blast
  from create_process_ok [of k kmalloc arr D t raw a_pcb None False] r mem t(1) obtain i pool b where
    c: "create_process kmalloc raw a_pcb None False k = Some (Inr (a_pcb, (set_vm t k)\<lparr>process_id_pool := pool, pcbs := (pcbs k)(a_pcb := new_pcb i None False b D)\<rparr>))"
      "unat i \<notin> pool_ids (process_id_pool k)" and b: "wf_bitmap b" "set_bits b = {}" "totalbits b = 4096" by blast
  from fork_thread_cloned [of "k_threads k" D M t a_tcb crt u w entry] r fb t(2,3) obtain s' sl tid where
    f: "fork_crt_thread entry a_tcb ((k_threads k)\<lparr>t_vm := t\<rparr>) = Some (Inr (a_tcb, s'))"
      "t_sched s' = new_thread_sched a_tcb (forked_tcb a_tcb tid sl ?c) ?S"
      "stack_copied (kernel_stack ?c) (k_vm k) entry (slot_base sl + 4096) (t_vm s')"
      "\<forall>v. dir_index v \<in> user_tables \<longrightarrow> walk (t_vm s') v = walk (k_vm k) v"
      "\<forall>v. dir_index v \<noteq> 769 \<longrightarrow> walk (switch_page_dir D (t_vm s')) v = walk (t_vm s') v"
      "\<forall>h. frame_ref (k_vm k) h \<noteq> 0 \<longrightarrow> h \<notin> table_frames (k_vm k) \<longrightarrow> phys (t_vm s') h = phys (k_vm k) h"
    unfolding new_thread_sched_def by blast
  define th where "th = forked_tcb a_tcb tid sl ?c"
  have th: "crt_node_ptr th = schedule_node a_tcb" "thread_id th = tid" "user_stack_index th = user_stack_index ?c" "status th = TASK_RUNNING"
    "user_stack th = user_stack ?c" "kernel_stack th = slot_base sl + 4096" "kernel_esp th = kernel_stack th + 8088"
    using r by (simp_all add: th_def forked_tcb_def)
  from new_thread_scheduled [of T ?S Q P a_tcb "th\<lparr>process := a_pcb\<rparr>"] r fb th obtain sc where
    sc: "add_thread_node_to_schedule (schedule_node a_tcb) (new_thread_sched a_tcb (th\<lparr>process := a_pcb\<rparr>) ?S) = Inr sc"
      "sched_ok (insert (schedule_node a_tcb) T) sc (Q(Ready_tasks := Q Ready_tasks @ [schedule_node a_tcb])) P"
      "crt_thread_node sc = crt_thread_node ?S" "current_dir sc = current_dir ?S" "tcbs sc = (tcbs ?S)(a_tcb := make_ready (th\<lparr>process := a_pcb\<rparr>))" by auto
  define k' where "k' = k\<lparr>k_threads := s'\<lparr>t_sched := sc\<rparr>, process_id_pool := pool, processes_map := snd (it_put (processes_map k) i a_pcb),
    pcbs := (pcbs k)(p := (pcbs k p)\<lparr>children_processes := snd (it_put (children_processes (pcbs k p)) i a_pcb)\<rparr>,
      a_pcb := child_pcb i tid b D p a_tcb (user_stack_index ?c))\<rparr>"
  have run: "process_fork entry kmalloc raw a_pcb a_tcb k = Some (Inr (i, k'))"
    using process_fork_steps [OF c(1) _ _ _ _ _ f(1) f(2) [folded th_def] th(1) sc(1,4), of p] r fb unfolding k'_def th(2,3) by simp
  have k': "k_sched k' = sc" "k_vm k' = t_vm s'" "pcbs k' a_pcb = child_pcb i tid b D p a_tcb (user_stack_index ?c)"
    "children_processes (pcbs k' p) = snd (it_put (children_processes (pcbs k p)) i a_pcb)" "processes_map k' = snd (it_put (processes_map k) i a_pcb)"
    using fb by (auto simp: k'_def)
  have tables: "it_rep (children_processes (pcbs k' p)) (C(i \<mapsto> a_pcb))" "it_rep (processes_map k') (R(i \<mapsto> a_pcb))"
    unfolding k'(4,5) using r it_put_rep(2) by blast+
  have tt: "tcbs sc a_tcb = make_ready (th\<lparr>process := a_pcb\<rparr>)" unfolding sc(5) by simp
  have mr: "status (make_ready (th\<lparr>process := a_pcb\<rparr>)) = TASK_READY" "process (make_ready (th\<lparr>process := a_pcb\<rparr>)) = a_pcb"
    "thread_id (make_ready (th\<lparr>process := a_pcb\<rparr>)) = tid" "user_stack (make_ready (th\<lparr>process := a_pcb\<rparr>)) = user_stack ?c"
    "kernel_stack (make_ready (th\<lparr>process := a_pcb\<rparr>)) = slot_base sl + 4096" "kernel_esp (make_ready (th\<lparr>process := a_pcb\<rparr>)) = slot_base sl + 4096 + 8088"
    using th by (simp_all add: make_ready_def)
  note cp = child_pcb_facts [OF b, of i tid D p a_tcb "user_stack_index ?c"]
  show ?thesis
    unfolding Let_def using run c(2) tables sc(2,3) f(3-6) cp mr
    by (intro exI [of _ i] exI [of _ k']) (simp only: k' tt simp_thms)
qed

section \<open>A process that forks\<close>

text \<open>
  Thread 40 of the process at \<open>0x500\<close> runs on the stack slot 0, in the frames 6 and 7; the process has one user page, in frame 5.
\<close>

definition demo_fork_vm :: vm where
  "demo_fork_vm =
     \<lparr>phys = (\<lambda>f i. if f = 2 then (if i = 8 then 0x4007 else if i = 769 then 0x2003 else if i = 1023 then 0x3003
                       else if 896 \<le> i \<and> i < 960 then set_entry 0 False (i - 796) else 0)
                     else if f = 4 \<and> i = 0 then 0x5005 else if f = 100 \<and> i = 1 then 0x6003 else if f = 100 \<and> i = 2 then 0x7003 else 0),
      cr3 = 2, phy_frames_array = map (\<lambda>i. if i < 200 then 1 else 0) [0..<8192], last_allocated_index = 300\<rparr>"

lemma demo_fork_vm_simps:
  "cr3 demo_fork_vm = 2" "frames_ok demo_fork_vm" "frame_ref demo_fork_vm f = (if f < 200 then 1 else 0)"
  "pte_present (phys demo_fork_vm 2 i) \<longleftrightarrow> i = 8 \<or> i = 769 \<or> i = 1023 \<or> 896 \<le> i \<and> i < 960"
  "pte_frame (phys demo_fork_vm 2 8) = 4" "pte_frame (phys demo_fork_vm 2 769) = 2" "pte_frame (phys demo_fork_vm 2 1023) = 3"
  "896 \<le> i \<and> i < 960 \<Longrightarrow> pte_frame (phys demo_fork_vm 2 i) = i - 796"
  "pte_present (phys demo_fork_vm 4 j) \<longleftrightarrow> j = 0" "pte_frame (phys demo_fork_vm 4 0) = 5"
  "pte_present (phys demo_fork_vm 100 j) \<longleftrightarrow> j = 1 \<or> j = 2" "pte_frame (phys demo_fork_vm 100 1) = 6" "pte_frame (phys demo_fork_vm 100 2) = 7"
  "f \<notin> {2, 4, 100} \<Longrightarrow> \<not> pte_present (phys demo_fork_vm f j)"
proof -
  have "pte_present 0x4007" "pte_present 0x2003" "pte_present 0x3003" "pte_present 0x5005" "pte_present 0x6003" "pte_present 0x7003" "\<not> pte_present 0"
    "pte_frame 0x4007 = 4" "pte_frame 0x2003 = 2" "pte_frame 0x3003 = 3" "pte_frame 0x5005 = 5" "pte_frame 0x6003 = 6" "pte_frame 0x7003 = 7"
    by (simp_all add: pte_present_def pte_frame_def)
  note entries = this set_entry_fields demo_fork_vm_def frame_ref_def frames_ok_def PHY_FRAMES_def
  show "cr3 demo_fork_vm = 2" "frames_ok demo_fork_vm" "frame_ref demo_fork_vm f = (if f < 200 then 1 else 0)"
    "pte_present (phys demo_fork_vm 2 i) \<longleftrightarrow> i = 8 \<or> i = 769 \<or> i = 1023 \<or> 896 \<le> i \<and> i < 960"
    "pte_frame (phys demo_fork_vm 2 8) = 4" "pte_frame (phys demo_fork_vm 2 769) = 2" "pte_frame (phys demo_fork_vm 2 1023) = 3"
    "896 \<le> i \<and> i < 960 \<Longrightarrow> pte_frame (phys demo_fork_vm 2 i) = i - 796"
    "pte_present (phys demo_fork_vm 4 j) \<longleftrightarrow> j = 0" "pte_frame (phys demo_fork_vm 4 0) = 5"
    "pte_present (phys demo_fork_vm 100 j) \<longleftrightarrow> j = 1 \<or> j = 2" "pte_frame (phys demo_fork_vm 100 1) = 6" "pte_frame (phys demo_fork_vm 100 2) = 7"
    "f \<notin> {2, 4, 100} \<Longrightarrow> \<not> pte_present (phys demo_fork_vm f j)"
    by (auto simp: entries)
qed

lemma demo_fork_vm_ok: "vm_ok demo_fork_vm"
proof -
  have t: "table_of demo_fork_vm i = (if i = 8 then 4 else if i = 769 then 2 else if i = 1023 then 3 else i - 796)" if "pte_present (pde demo_fork_vm i)" for i
    using that demo_fork_vm_simps(8) [of i] by (auto simp: demo_fork_vm_simps(1,4-7))
  have "table_of demo_fork_vm i \<noteq> table_of demo_fork_vm j" if "i \<noteq> j" "pte_present (pde demo_fork_vm i)" "pte_present (pde demo_fork_vm j)" for i j
    using that t [OF that(2)] t [OF that(3)] by (auto simp: demo_fork_vm_simps(1,4) split: if_splits)
  moreover have "frame_ref demo_fork_vm (table_of demo_fork_vm i) \<noteq> 0" if "pte_present (pde demo_fork_vm i)" for i
    using that unfolding t [OF that] by (auto simp: demo_fork_vm_simps(1,3,4))
  ultimately show ?thesis by (simp add: vm_ok_def rec_ok_def demo_fork_vm_simps(1-6))
qed

lemma demo_fork_slots:
  assumes "k < 21845" "j < 3"
  shows "walk demo_fork_vm (slot_base k + of_nat (4096 * j)) = (if k = 0 \<and> j \<noteq> 0 then Some (5 + j) else None)"
proof -
  let ?a = "slot_base k + of_nat (4096 * j)"
  note d = slot_page(4,5) [OF assms] and n = page_number(2,3) [of ?a]
  have u: "unat ?a div 4096 = 917504 + (3 * k + j)" unfolding slot_page(1) [OF assms] by simp
  have f: "pte_frame (phys demo_fork_vm 2 (dir_index ?a)) = dir_index ?a - 796" using d by (intro demo_fork_vm_simps(8)) simp
  show ?thesis
  proof (cases "dir_index ?a = 896")
    case True
    then have "917504 + (3 * k + j) = 896 * 1024 + table_index ?a" using n u div_mult_mod_eq [of "unat ?a div 4096" 1024] by metis
    then have t: "table_index ?a = 3 * k + j" by simp
    have "3 * k + j = 1 \<longleftrightarrow> k = 0 \<and> j = 1" "3 * k + j = 2 \<longleftrightarrow> k = 0 \<and> j = 2" using assms(2) by arith+
    then show ?thesis using True f assms(2) unfolding walk_def Let_def t by (auto simp: demo_fork_vm_simps demo_fork_vm_simps(12) [simplified])
  next
    case False
    then have "k \<noteq> 0" using n assms unfolding u by auto
    moreover have "\<not> pte_present (phys demo_fork_vm (dir_index ?a - 796) (table_index ?a))" using False d by (intro demo_fork_vm_simps(14)) auto
    ultimately show ?thesis using f by (simp add: walk_def Let_def demo_fork_vm_simps(1))
  qed
qed

lemma demo_fork_clone:
  "clone_ready demo_fork_vm" "card (live demo_fork_vm user_tables) + 3 \<le> card (free_frames demo_fork_vm)" "walk demo_fork_vm 0x2000000 = Some 5"
  "5 \<notin> table_frames demo_fork_vm" "6 \<notin> table_frames demo_fork_vm" "7 \<notin> table_frames demo_fork_vm"
proof -
  have l: "live demo_fork_vm user_tables = {8}" by (auto simp: demo_fork_vm_simps)
  have fr: "free_frames demo_fork_vm = {200..<8192}" by (auto simp: free_frames_def demo_fork_vm_simps PHY_FRAMES_def)
  show c: "card (live demo_fork_vm user_tables) + 3 \<le> card (free_frames demo_fork_vm)" unfolding l fr by simp
  have "maps demo_fork_vm k f \<longleftrightarrow> k = 8192 \<and> f = 5" if "k \<in> user_pages" for k f
  proof -
    have "k div 1024 = 8 \<and> k mod 1024 = 0 \<longleftrightarrow> k = 8192" using div_mult_mod_eq [of k 1024] by auto
    moreover have "k div 1024 < 768" using user_page_table [OF that] by simp
    ultimately show ?thesis by (auto simp: maps_def demo_fork_vm_simps)
  qed
  then have "{k\<in>user_pages. maps demo_fork_vm k f} = (if f = 5 then {8192} else {})" for f by auto
  then have "uses demo_fork_vm user_pages f = (if f = 5 then 1 else 0)" for f unfolding uses_def by simp
  then show "clone_ready demo_fork_vm" using demo_fork_vm_ok c by (simp add: clone_ready_def demo_fork_vm_simps)
  show "walk demo_fork_vm 0x2000000 = Some 5" by (simp add: walk_def dir_index_def table_index_def demo_fork_vm_simps)
  show "5 \<notin> table_frames demo_fork_vm" "6 \<notin> table_frames demo_fork_vm" "7 \<notin> table_frames demo_fork_vm"
    using demo_fork_vm_simps(8) by (fastforce simp: table_frames_def demo_fork_vm_simps(1,4-7))+
qed

definition demo_fork_kernel :: kernel where
  "demo_fork_kernel = demo_kernel\<lparr>k_threads := (k_threads demo_kernel)\<lparr>t_vm := demo_fork_vm,
     kernel_stack_slots := \<lparr>bitarray = [1, 0], alloc_array = True, arraysize = 2, totalbits = 40\<rparr>\<rparr>\<rparr>"

lemma demo_fork_threads:
  "threads_ok (k_threads demo_fork_kernel)" "free_slot (k_threads demo_fork_kernel)"
  "\<not> {..<pool_capacity (thread_id_pool (k_threads demo_fork_kernel))} \<subseteq> pool_ids (thread_id_pool (k_threads demo_fork_kernel))"
proof -
  let ?b = "\<lparr>bitarray = [1, 0], alloc_array = True, arraysize = 2, totalbits = 40\<rparr>" and ?s = "k_threads demo_fork_kernel"
  have f: "t_vm ?s = demo_fork_vm" "kernel_stack_slots ?s = ?b" "thread_id_pool ?s = thread_id_pool (demo_threads demo_sched)"
    "kernel_stack_slots_lock ?s = \<lparr>hold = LOCKED_NO\<rparr>"
    by (simp_all add: demo_fork_kernel_def demo_kernel_def demo_threads_def)
  have "[1 :: u32, 0] ! j = (if j = 0 then 1 else 0)" if "j < 2" for j using that by (auto simp: less_Suc_eq numeral_2_eq_2)
  then have b: "wf_bitmap ?b" "scan_limit ?b = 40" "set_bits ?b = {0}"
    by (auto simp: wf_bitmap_def scan_limit_def set_bits_def bit_1_iff split: if_splits)
  show "threads_ok ?s"
    unfolding threads_ok_def f using b demo_fork_slots [of _ 0] demo_fork_slots [of _ 1] demo_fork_slots [of _ 2] demo_fork_vm_ok
      threads_okD [OF demo_threads_ok(1) [of demo_sched]] by (simp add: demo_fork_vm_simps)
  have "\<not> {..<40} \<subseteq> {0 :: nat}" using subsetD [of "{..<40}" "{0 :: nat}" 1] by fastforce
  then show "free_slot ?s" unfolding free_slot_def f b .
  show "\<not> {..<pool_capacity (thread_id_pool ?s)} \<subseteq> pool_ids (thread_id_pool ?s)" unfolding f by (rule demo_threads_ok(4))
qed

lemma demo_fork_ready: "fork_ready {16, 32, 48, 64} demo_queues [] demo_fork_kernel 0x500 40 6 7 [9 \<mapsto> 0x700] Map.empty"
proof -
  let ?k = demo_fork_kernel
  have f: "k_sched ?k = demo_sched\<lparr>tcbs := demo_family_tcb\<rparr>" "k_vm ?k = demo_fork_vm" "pcbs ?k = demo_family"
    "processes_map ?k = it_init" "processes_map_lock ?k = \<lparr>hold = LOCKED_NO\<rparr>" "process_id_pool ?k = thread_id_pool (demo_threads demo_sched)"
    by (simp_all add: demo_fork_kernel_def demo_kernel_def demo_threads_def)
  have s: "kernel_stack (demo_family_tcb 40) = 0xE0001000" "status (demo_family_tcb 40) = TASK_RUNNING"
    "get_crt_process (demo_sched\<lparr>tcbs := demo_family_tcb\<rparr>) = Inr 0x500" "get_crt_thread (demo_sched\<lparr>tcbs := demo_family_tcb\<rparr>) = Inr 40"
    by (simp_all add: demo_family_tcb_def demo_tcb_def get_crt_process_def get_crt_thread_def demo_sched_def)
  have m: "stack_mapped 0xE0001000 6 7 demo_fork_vm"
    using demo_fork_slots [of 0 1] demo_fork_slots [of 0 2] demo_fork_clone
    by (simp add: stack_mapped_def slot_base_def page_aligned_def dir_index_def demo_fork_vm_simps)
  have r: "it_room it_init" "it_room (snd (it_put it_init 9 0x700))" unfolding it_room_def by code_simp+
  show ?thesis
    unfolding fork_ready_def f using demo_family_ok demo_fork_threads demo_fork_clone(1,2) s m r demo_threads_ok(4) [of demo_sched]
      threads_okD [OF demo_threads_ok(1) [of demo_sched]]
    by (simp add: demo_family_def zero_pcb_def LOCKED_NO_def)
qed

theorem process_fork_duplicates_witness:
  "\<exists>i k'. process_fork 0xC0100080 (\<lambda>n. Some (replicate (unat n div 4) 0)) demo_bits 0x900 0xA00 demo_fork_kernel = Some (Inr (i, k')) \<and>
     parent (pcbs k' 0x900) = 0x500 \<and> it_rep (children_processes (pcbs k' 0x500)) [9 \<mapsto> 0x700, i \<mapsto> 0x900] \<and>
     walk (switch_page_dir (page_dir (pcbs k' 0x900)) (k_vm k')) 0x2000000 = Some 5 \<and> phys (k_vm k') 5 = phys (k_vm demo_fork_kernel) 5"
proof -
  let ?k = demo_fork_kernel
  have f: "k_vm ?k = demo_fork_vm" "k_sched ?k = demo_sched\<lparr>tcbs := demo_family_tcb\<rparr>"
    by (simp_all add: demo_fork_kernel_def demo_kernel_def demo_threads_def)
  have b: "fresh_blocks {16, 32, 48, 64} [] ?k 0x500 0x900 0xA00" by (simp add: fresh_blocks_def f(2) schedule_node_def demo_sched_def)
  have d: "dir_index 0x2000000 = 8" "frame_ref demo_fork_vm 5 \<noteq> 0" by (simp_all add: dir_index_def demo_fork_vm_simps)
  from process_fork_duplicates [OF demo_fork_ready b, of "\<lambda>n. Some (replicate (unat n div 4) 0)" _ "0xC0100080" demo_bits]
  show ?thesis unfolding Let_def f(1) using d demo_fork_clone(3,4) by fastforce
qed

end
