(* ===== verification/Process_Wait.thy ===== *)
theory Process_Wait
  imports Process_Exit
begin

text \<open>
  \<^verbatim>\<open>process_wait\<close>: an exited child is reaped, and a caller that finds none is queued where the exit of the child
  looks for it.
\<close>

section \<open>Waiting\<close>

lemma add_dead_process_ok:
  assumes base: "sched_base T s Q P" and node: "node \<noteq> NULL" "node \<notin> T" "node \<notin> set P" and room: "length P + 1 < 2 ^ 32"
    and lock: "hold (dead_resource_lock s) = LOCKED_NO" and w: "\<And>n. n \<in> set (Q Dead_cv) \<Longrightarrow> status (tcb_of s n) = TASK_WAITING"
  shows "\<exists>s'. add_dead_process node c s = Some (Inr s') \<and>
    sched_base T s' (Q(Dead_cv := tl (Q Dead_cv), Ready_tasks := Q Ready_tasks @ take 1 (Q Dead_cv))) (P @ [node]) \<and>
    ptr (sched.nodes s' node) = c \<and> crt_thread_node s' = crt_thread_node s \<and> current_dir s' = current_dir s \<and> hold (dead_resource_lock s') = LOCKED_NO"
proof -
  have rep: "queues_rep T s Q P" using base by (simp add: sched_base_def)
  let ?h = "set_ptr node c (sched.nodes s)"
  have "dll ?h (dead_processes s) P" using rep node(3) by (subst dll_cong [where h = "sched.nodes s"]) (auto simp: queues_rep_def set_ptr_def)
  from linked_list_append_dll [OF this node(1,3) room] obtain h l where
    a: "linked_list_append ?h (dead_processes s) node = Inr (h, l)" "dll h l (P @ [node])" "nodes_frame (insert node (set P)) ?h h" by blast
  have pt: "ptr (h x) = (if x = node then c else ptr (sched.nodes s x))" for x using a(3) by (simp add: nodes_frame_def set_ptr_def)
  have hq: "h x = sched.nodes s x" if "x \<in> T" for x
    using a(3) that node(2) rep by (auto simp: nodes_frame_def set_ptr_def queues_rep_def)
  let ?s = "s\<lparr>dead_resource_lock := (dead_resource_lock s)\<lparr>hold := LOCKED_YES\<rparr>, sched.nodes := h, dead_processes := l\<rparr>"
  have "dll h (queues s q) (Q q)" if "q \<noteq> No_queue" for q
    using rep that hq by (subst dll_cong [where h = "sched.nodes s"]) (auto simp: queues_rep_def)
  then have r1: "queues_rep T ?s Q (P @ [node])" using rep a(2) node(2) by (auto simp: queues_rep_def)
  have QT: "set (Q q) \<subseteq> T" for q using rep by (cases "q = No_queue") (auto simp: queues_rep_def)
  have b1: "sched_base T ?s Q (P @ [node])" using base r1 hq QT [of Ready_tasks] by (auto simp: sched_base_def thread_ok_def subset_iff)
  have w1: "status (tcb_of ?s n) = TASK_WAITING" if "n \<in> set (Q Dead_cv)" for n using w [OF that] that QT [of Dead_cv] hq [of n] by auto
  from cond_var_notify_base [where cv = Dead_cv, OF b1 _ _ w1] obtain s' where
    s': "cond_var_notify Dead_cv ?s = Inr s'" "sched_base T s' (Q(Dead_cv := tl (Q Dead_cv), Ready_tasks := Q Ready_tasks @ take 1 (Q Dead_cv))) (P @ [node])"
      "sched_same (ptr ` sched.nodes ?s ` set (take 1 (Q Dead_cv))) ?s s'" by auto
  have "add_dead_process node c s = Some (Inr (s'\<lparr>dead_resource_lock := yieldlock_unlock (dead_resource_lock s')\<rparr>))"
    using lock a(1) s'(1) by (simp add: add_dead_process_def with_dead_lock_def yieldlock_trylock_def atomic_exchange_def linked_list_append_ele_def)
  moreover have "ptr (sched.nodes s' node) = c" using sched_same_ptr [OF s'(3)] pt by simp
  ultimately show ?thesis using s'(2,3) by (simp add: sched_same_def yieldlock_unlock_def)
qed

text \<open>The running thread of \<open>p\<close> may call \<^verbatim>\<open>process_wait\<close>; \<open>C\<close>, \<open>X\<close> are the children and the exited children.\<close>

definition wait_ok :: "addr set \<Rightarrow> (queue_ref \<Rightarrow> addr list) \<Rightarrow> addr list \<Rightarrow> kernel \<Rightarrow> addr \<Rightarrow> (u32 \<Rightarrow> addr option) \<Rightarrow> (u32 \<Rightarrow> addr option) \<Rightarrow> bool" where
  "wait_ok T Q R k p C X \<longleftrightarrow>
     sched_ok T (k_sched k) Q R \<and> get_crt_process (k_sched k) = Inr p \<and> lock_free p k \<and> tables_ok k p C X \<and> X \<subseteq>\<^sub>m C"

lemma wait_passes:
  assumes "it_rep t C" "small_ids C" "target = 0 \<or> C target = Some c" "c \<noteq> NULL" "C \<noteq> Map.empty"
  shows "\<not> (it_size t = 0 \<or> (sint target > 0 \<and> it_get t target = NULL))"
  using it_rep_size(2) [OF assms(1)] assms(3-5) it_get_rep [OF assms(1), of target] by auto

lemma take_exited_ok:
  assumes x: "it_rep (exit_children_processes (pcbs k p)) X" "small_ids X" "names_pids (pcbs k) X"
    and t: "target = 0 \<and> X \<noteq> Map.empty \<or> target \<noteq> 0 \<and> X target \<noteq> None"
  shows "\<exists>child t. take_exited p target k = Some (Inr (child, upd_pcb p (\<lambda>c. c\<lparr>exit_children_processes := t\<rparr>) k)) \<and> child \<noteq> NULL \<and>
    X (pid (pcbs k child)) = Some child \<and> (target \<noteq> 0 \<longrightarrow> pid (pcbs k child) = target) \<and> it_rep t (X(pid (pcbs k child) := None))"
proof -
  let ?e = "exit_children_processes (pcbs k p)"
  have ne: "X \<noteq> Map.empty" "sint (it_size ?e) > 0" using t it_size_pos [OF x(1,2)] by auto
  obtain i child where c: "X i = Some child" "i = (if target = 0 then pid (pcbs k (it_get_first ?e)) else target)"
  proof (cases "target = 0")
    case True
    from it_get_first_rep [OF x(1) ne(1)] obtain j where j: "X j = Some (it_get_first ?e)" by blast
    then have "pid (pcbs k (it_get_first ?e)) = j" using x(3) unfolding names_pids_def by blast
    then have "j = (if target = 0 then pid (pcbs k (it_get_first ?e)) else target)" using True by simp
    then show ?thesis using that j by blast
  qed (use t that in auto)
  have pid: "child \<noteq> NULL" "pid (pcbs k child) = i" using c(1) x(3) by (auto simp: names_pids_def)
  obtain u where u: "it_remove ?e i = (child, u)" "it_rep u (X(i := None))"
    using it_remove_rep [OF x(1), of i] c(1) by (metis prod.collapse value_of_simps(2))
  have "it_get_first ?e \<noteq> NULL" using it_get_first_rep [OF x(1) ne(1)] x(3) by (auto simp: names_pids_def)
  then have "take_exited p target k = Some (Inr (child, upd_pcb p (\<lambda>c. c\<lparr>exit_children_processes := u\<rparr>) k))"
    using ne(2) u(1) pid(1) c(2) by (cases "target = 0") (simp_all add: take_exited_def Let_def)
  then show ?thesis using u(2) pid c by auto
qed


lemma process_wait_from_reaps:
  assumes ok: "wait_ok T Q R k p C X" and t: "target = 0 \<and> X \<noteq> Map.empty \<or> target \<noteq> 0 \<and> X target \<noteq> None"
    and node: "node \<noteq> NULL" "node \<notin> T" "node \<notin> set R" and room: "length R + 1 < 2 ^ 32"
    and lock: "hold (dead_resource_lock (k_sched k)) = LOCKED_NO" and w: "\<And>n. n \<in> set (Q Dead_cv) \<Longrightarrow> status (tcb_of (k_sched k) n) = TASK_WAITING"
    and st: "status_ptr \<noteq> NULL \<Longrightarrow> \<forall>x. \<exists>v. kernel_store status_ptr x (k_vm k) = Inr v" and cnt: "counted \<longrightarrow> waiting_threads_count (pcbs k p) > 0"
  shows "\<exists>k' child. process_wait_from node p target status_ptr tn counted k = Some (Inr (Some 0, k')) \<and>
    X (pid (pcbs k child)) = Some child \<and> (target \<noteq> 0 \<longrightarrow> pid (pcbs k child) = target) \<and>
    it_rep (children_processes (pcbs k' p)) (C(pid (pcbs k child) := None)) \<and>
    it_rep (exit_children_processes (pcbs k' p)) (X(pid (pcbs k child) := None)) \<and>
    waiting_threads_count (pcbs k' p) = waiting_threads_count (pcbs k p) - (if counted then 1 else 0) \<and> lock_free p k' \<and>
    (if status_ptr = NULL then k_vm k' = k_vm k else kernel_store status_ptr (exit_code (pcbs k child)) (k_vm k) = Inr (k_vm k')) \<and>
    sched_base T (k_sched k') (Q(Dead_cv := tl (Q Dead_cv), Ready_tasks := Q Ready_tasks @ take 1 (Q Dead_cv))) (R @ [node]) \<and>
    ptr (sched.nodes (k_sched k') node) = child \<and> crt_thread_node (k_sched k') = crt_thread_node (k_sched k)"
proof -
  let ?k1 = "upd_pcb p held k"
  have pc: "pid (pcbs ?k1 q) = pid (pcbs k q)" for q by (simp add: held_def)
  have kp: "children_processes (pcbs ?k1 p) = children_processes (pcbs k p)" "exit_children_processes (pcbs ?k1 p) = exit_children_processes (pcbs k p)"
    by (simp_all add: held_def)
  have tab: "it_rep (children_processes (pcbs ?k1 p)) C" "it_rep (exit_children_processes (pcbs ?k1 p)) X" "small_ids C" "small_ids X"
    "names_pids (pcbs ?k1) X" and sub: "X \<subseteq>\<^sub>m C" and lf: "lock_free p k" and b: "sched_base T (k_sched k) Q R"
    using ok unfolding wait_ok_def tables_ok_def sched_ok_def kp names_pids_def pc by blast+
  from take_exited_ok [OF tab(2,4,5) t] obtain child u where
    te: "take_exited p target ?k1 = Some (Inr (child, upd_pcb p (\<lambda>c. c\<lparr>exit_children_processes := u\<rparr>) ?k1))" "child \<noteq> NULL"
      "X (pid (pcbs ?k1 child)) = Some child" "target \<noteq> 0 \<longrightarrow> pid (pcbs ?k1 child) = target" "it_rep u (X(pid (pcbs ?k1 child) := None))" by blast
  let ?i = "pid (pcbs k child)"
  have Ci: "C ?i = Some child" using te(3) sub unfolding pc by (auto simp: map_le_def dom_def)
  have ps: "\<not> (it_size (children_processes (pcbs ?k1 p)) = 0 \<or> (sint target > 0 \<and> it_get (children_processes (pcbs ?k1 p)) target = NULL))"
    by (rule wait_passes [OF tab(1,3) _ te(2)]) (use Ci te(4) pc in auto)
  let ?k2 = "upd_pcb p (\<lambda>c. c\<lparr>exit_children_processes := u\<rparr>) ?k1"
  have pass: "process_wait_pass p target tn counted ?k1 = Some (Inr (Wait_found child, counted, ?k2))"
    unfolding process_wait_pass_def if_not_P [OF ps] te(1) using te(2) by simp
  obtain t where rm: "it_remove (children_processes (pcbs k p)) ?i = (child, t)" "it_rep t (C(?i := None))"
    using it_remove_rep [OF tab(1) [unfolded kp], of ?i] Ci by (metis prod.collapse value_of_simps(2))
  obtain v where v: "(if status_ptr \<noteq> NULL then on_vm (kernel_store status_ptr (exit_code (pcbs k child))) k2 else Some (Inr k2)) = Some (Inr (set_vm v k2))"
      "if status_ptr = NULL then v = k_vm k else kernel_store status_ptr (exit_code (pcbs k child)) (k_vm k) = Inr v"
    if "k_vm k2 = k_vm k" for k2
  proof (cases "status_ptr = NULL")
    case True
    then show ?thesis using that [of "k_vm k"] by (simp add: set_vm_def)
  next
    case False
    from st [OF False] obtain v where "kernel_store status_ptr (exit_code (pcbs k child)) (k_vm k) = Inr v" by blast
    then show ?thesis using that [of v] False by (simp add: on_vm_def)
  qed
  let ?f = "\<lambda>c. c\<lparr>exit_children_processes := u, children_processes := t\<rparr>"
  let ?g = "\<lambda>c. if counted then c\<lparr>waiting_threads_count := waiting_threads_count c - 1\<rparr> else c"
  let ?k3 = "upd_pcb p (\<lambda>c. (held c)\<lparr>exit_children_processes := u, children_processes := t\<rparr>) k"
  let ?k4 = "upd_pcb p ?g (set_vm v ?k3)"
  let ?k5 = "unlock_process p ?k4"
  from add_dead_process_ok [OF b node room lock w, of child] obtain s' where
    s': "add_dead_process node child (k_sched k) = Some (Inr s')"
      "sched_base T s' (Q(Dead_cv := tl (Q Dead_cv), Ready_tasks := Q Ready_tasks @ take 1 (Q Dead_cv))) (R @ [node])"
      "ptr (sched.nodes s' node) = child" "crt_thread_node s' = crt_thread_node (k_sched k)" "current_dir s' = current_dir (k_sched k)" by blast
  have k5: "k_sched ?k5 = k_sched k" by (simp add: unlock_process_upd set_vm_def)
  have e3: "exit_code (pcbs ?k3 child) = exit_code (pcbs k child)" by (simp add: held_def)
  have vm3: "(if status_ptr \<noteq> NULL then on_vm (kernel_store status_ptr (exit_code (pcbs ?k3 child))) ?k3 else Some (Inr ?k3)) = Some (Inr (set_vm v ?k3))"
    unfolding e3 by (rule v(1)) simp
  have un: "uncount_waiter counted p (set_vm v ?k3) = Some (Inr ?k4)"
    using cnt by (cases counted) (simp_all add: uncount_waiter_def set_vm_def upd_pcb_def held_def)
  have k3: "upd_pcb p (\<lambda>c. c\<lparr>children_processes := t\<rparr>) ?k2 = ?k3" by simp
  have rm2: "it_remove (children_processes (pcbs ?k2 p)) (pid (pcbs ?k2 child)) = (child, t)" using rm(1) by (cases "child = p") (simp_all add: held_def)
  have "process_wait_reap node p child counted status_ptr ?k2 = on_sched_lock (add_dead_process node child) ?k5"
    unfolding process_wait_reap_def rm2 using te(2) by (simp only: oassert_simps Let_def prod.case k3 vm3 obind_simps un simp_thms)
  then have "process_wait_reap node p child counted status_ptr ?k2 = Some (Inr (set_sched s' ?k5))"
    using s'(1) k5 by (simp add: on_sched_lock_def)
  then have run: "process_wait_from node p target status_ptr tn counted k = Some (Inr (Some 0, set_sched s' ?k5))"
    unfolding process_wait_from_def lock_process_free [OF lf] obind_simps pass by simp
  have vm5: "k_vm (set_sched s' ?k5) = v" using s'(5) k5 by (simp add: set_sched_def Let_def unlock_process_upd set_vm_def)
  have p5: "pcbs (set_sched s' ?k5) p = (?g ((held (pcbs k p))\<lparr>exit_children_processes := u, children_processes := t\<rparr>))\<lparr>process_lock := \<lparr>hold = LOCKED_NO\<rparr>\<rparr>"
    by (simp add: unlock_process_upd set_vm_def)
  have q5: "children_processes (pcbs (set_sched s' ?k5) p) = t" "exit_children_processes (pcbs (set_sched s' ?k5) p) = u" "lock_free p (set_sched s' ?k5)"
    "waiting_threads_count (pcbs (set_sched s' ?k5) p) = waiting_threads_count (pcbs k p) - (if counted then 1 else 0)"
    unfolding p5 by (simp_all add: held_def)
  define k' where "k' = set_sched s' ?k5"
  have "k_sched k' = s'" by (simp add: k'_def)
  then show ?thesis using run te(3,4,5) [unfolded pc] rm(2) v(2) [OF refl] s'(2-4) q5 vm5 unfolding k'_def [symmetric]
    by (intro exI [of _ k'] exI [of _ child]) simp
qed


lemma process_wait_from_fails:
  assumes lf: "lock_free p k" and t: "it_rep (children_processes (pcbs k p)) C" and f: "C = Map.empty \<or> sint target > 0 \<and> C target = None"
  shows "process_wait_from node p target status_ptr tn False k = Some (Inr (Some (- 1), k))"
proof -
  have "it_size (children_processes (pcbs k p)) = 0 \<or> (sint target > 0 \<and> it_get (children_processes (pcbs k p)) target = NULL)"
    using f it_rep_size(2) [OF t] it_get_rep [OF t, of target] by auto
  then have "process_wait_pass p target tn False (upd_pcb p held k) = Some (Inr (Wait_fails, False, k))"
    using relock [OF lf] by (auto simp: process_wait_pass_def held_def uncount_waiter_def)
  then show ?thesis by (simp add: process_wait_from_def lock_process_free [OF lf])
qed

lemma take_exited_none:
  assumes x: "it_rep (exit_children_processes (pcbs k p)) X" "small_ids X" and t: "if target = 0 then X = Map.empty else X target = None"
  shows "\<exists>t. take_exited p target k = Some (Inr (NULL, upd_pcb p (\<lambda>c. c\<lparr>exit_children_processes := t\<rparr>) k)) \<and> it_rep t X"
proof (cases "X = Map.empty")
  case True
  then have "take_exited p target k = Some (Inr (NULL, k))" using it_size_pos [OF x] by (simp add: take_exited_def Let_def)
  moreover have "upd_pcb p (\<lambda>c. c\<lparr>exit_children_processes := exit_children_processes (pcbs k p)\<rparr>) k = k" by (simp add: upd_pcb_def)
  ultimately show ?thesis using x(1) by metis
next
  case False
  then have n: "target \<noteq> 0" "X target = None" using t by (auto split: if_splits)
  obtain u where u: "it_remove (exit_children_processes (pcbs k p)) target = (NULL, u)" "it_rep u (X(target := None))"
    using it_remove_rep [OF x(1), of target] n(2) by (metis prod.collapse value_of_simps(1))
  have "X(target := None) = X" using n(2) by auto
  then show ?thesis using u n False it_size_pos [OF x] by (auto simp: take_exited_def Let_def)
qed

text \<open>The queue that a thread joins which waits for \<open>target\<close>; \<open>c\<close> is the child with that id.\<close>

definition joined :: "u32 \<Rightarrow> addr \<Rightarrow> addr \<Rightarrow> addr \<Rightarrow> (addr \<Rightarrow> pcb_t) \<Rightarrow> (addr \<Rightarrow> pcb_t) \<Rightarrow> bool" where
  "joined target p c n P P' \<longleftrightarrow>
     (if target = 0 then wait_any_exit_queue (P' p) = \<lparr>task = n, target_pid = 0\<rparr> # wait_any_exit_queue (P p)
      else exit_wait_queue (P' c) = \<lparr>task = n, target_pid = target\<rparr> # exit_wait_queue (P c))"

lemma join_wait_queue_ok:
  assumes c: "target = 0 \<or> it_get (children_processes (pcbs k p)) target = c \<and> lock_free c k \<and> c \<noteq> p"
  shows "\<exists>P. join_wait_queue p target n k = Some (Inr (k\<lparr>pcbs := P\<rparr>)) \<and> joined target p c n (pcbs k) P \<and>
    (\<forall>q. process_lock (P q) = process_lock (pcbs k q) \<and> children_processes (P q) = children_processes (pcbs k q) \<and>
       exit_children_processes (P q) = exit_children_processes (pcbs k q) \<and> waiting_threads_count (P q) = waiting_threads_count (pcbs k q))"
proof (cases "target = 0")
  case True
  then show ?thesis
    by (intro exI [of _ "(pcbs k)(p := (pcbs k p)\<lparr>wait_any_exit_queue := \<lparr>task = n, target_pid = 0\<rparr> # wait_any_exit_queue (pcbs k p)\<rparr>)"])
       (simp add: join_wait_queue_def upd_pcb_def joined_def)
next
  case False
  let ?P = "(pcbs k)(c := (pcbs k c)\<lparr>exit_wait_queue := \<lparr>task = n, target_pid = target\<rparr> # exit_wait_queue (pcbs k c), process_lock := \<lparr>hold = LOCKED_NO\<rparr>\<rparr>)"
  have lf: "lock_free c k" using c False by simp
  have "join_wait_queue p target n k = Some (Inr (k\<lparr>pcbs := ?P\<rparr>))"
    using c False lock_process_free [OF lf] by (simp add: join_wait_queue_def Let_def upd_pcb_def unlock_process_upd held_def)
  then show ?thesis using False lock_value [OF lf] by (intro exI [of _ ?P]) (simp add: joined_def)
qed


lemma block_and_switch:
  assumes ok: "sched_ok T (k_sched k) Q R" and st: "status (tcb_of (k_sched k) (crt_thread_node (k_sched k))) = TASK_RUNNING"
    and R2: "R2 = rr_queue (main_thread_node (k_sched k)) False (crt_thread_node (k_sched k)) (Q Ready_tasks)"
  shows "\<exists>s s'. on_sched (\<lambda>s. Inr (schedule_mark_thread_block s)) k = Some (Inr (with_sched s k)) \<and>
    (\<forall>P. on_sched (\<lambda>s. kbind (schedule_thread_yield s) (\<lambda>(_, s). Inr s)) ((with_sched s k)\<lparr>pcbs := P\<rparr>) = Some (Inr (set_sched s' ((with_sched s k)\<lparr>pcbs := P\<rparr>)))) \<and>
    sched_ok T s' (Q(Ready_tasks := tl R2)) R \<and> crt_thread_node s' = hd R2 \<and> status (tcb_of s' (hd R2)) = TASK_RUNNING"
proof -
  let ?s = "schedule_mark_thread_block (k_sched k)" and ?n = "crt_thread_node (k_sched k)"
  let ?si = "?s\<lparr>interrupts := False\<rparr>"
  have base: "sched_base T (k_sched k) Q R" and nT: "?n \<in> T" "?n \<notin> set (Q Ready_tasks)" using ok by (auto simp: sched_ok_def sched_base_def)
  have "sched_base T ?s Q R" unfolding schedule_mark_thread_block_def by (rule sched_base_upd [OF base nT(1)]) (use nT in auto)
  then have b: "sched_base T ?si Q R" by simp
  have f: "crt_thread_node ?si = ?n" "main_thread_node ?si = main_thread_node (k_sched k)" "status (tcb_of ?si ?n) = TASK_WAITING"
    by (simp_all add: schedule_mark_thread_block_def)
  have "\<exists>s'. do_context_switch ?si = Inr s' \<and> sched_ok T s' (Q(Ready_tasks := tl R2)) R \<and> crt_thread_node s' = hd R2 \<and>
      status (tcb_of s' (hd R2)) = TASK_RUNNING \<and> interrupts s' = interrupts ?si"
    by (rule switch_away [OF b]) (use f nT R2 in auto)
  then obtain s' where s': "do_context_switch ?si = Inr s'" "sched_ok T s' (Q(Ready_tasks := tl R2)) R" "crt_thread_node s' = hd R2"
    "status (tcb_of s' (hd R2)) = TASK_RUNNING" by blast
  have "set_sched ?s k = with_sched ?s k" by (rule set_sched_same) (simp add: schedule_mark_thread_block_def)
  then have "on_sched (\<lambda>s. Inr (schedule_mark_thread_block s)) k = Some (Inr (with_sched ?s k))" by (simp add: on_sched_def)
  moreover have "on_sched (\<lambda>s. kbind (schedule_thread_yield s) (\<lambda>(_, s). Inr s)) ((with_sched ?s k)\<lparr>pcbs := P\<rparr>) =
      Some (Inr (set_sched s' ((with_sched ?s k)\<lparr>pcbs := P\<rparr>)))" for P
    using s'(1) by (simp add: on_sched_def schedule_thread_yield_def interrupt_disable_def)
  ultimately show ?thesis using s'(2-4) by blast
qed

lemma process_wait_from_blocks:
  assumes ok: "wait_ok T Q R k p C X" and ne: "C \<noteq> Map.empty" and nx: "if target = 0 then X = Map.empty else X target = None"
    and c: "target = 0 \<or> C target = Some c \<and> lock_free c k \<and> c \<noteq> p"
    and st: "status (tcb_of (k_sched k) (crt_thread_node (k_sched k))) = TASK_RUNNING"
    and R2: "R2 = rr_queue (main_thread_node (k_sched k)) False (crt_thread_node (k_sched k)) (Q Ready_tasks)"
  shows "\<exists>k'. process_wait_from node p target status_ptr n counted k = Some (Inr (None, k')) \<and>
    joined target p c n (pcbs k) (pcbs k') \<and> it_rep (children_processes (pcbs k' p)) C \<and> it_rep (exit_children_processes (pcbs k' p)) X \<and>
    waiting_threads_count (pcbs k' p) = waiting_threads_count (pcbs k p) + (if counted then 0 else 1) \<and>
    (\<forall>q. lock_free q k \<longrightarrow> lock_free q k') \<and>
    sched_ok T (k_sched k') (Q(Ready_tasks := tl R2)) R \<and> crt_thread_node (k_sched k') = hd R2 \<and> status (tcb_of (k_sched k') (hd R2)) = TASK_RUNNING"
proof -
  let ?k1 = "upd_pcb p held k"
  have kp: "children_processes (pcbs ?k1 p) = children_processes (pcbs k p)" "exit_children_processes (pcbs ?k1 p) = exit_children_processes (pcbs k p)"
    by (simp_all add: held_def)
  have tab: "it_rep (children_processes (pcbs ?k1 p)) C" "it_rep (exit_children_processes (pcbs ?k1 p)) X" "small_ids C" "small_ids X" "names_pids (pcbs k) C"
    and lf: "lock_free p k" and so: "sched_ok T (k_sched k) Q R" using ok unfolding wait_ok_def tables_ok_def kp by blast+
  have gc: "target = 0 \<or> it_get (children_processes (pcbs k p)) target = c \<and> c \<noteq> NULL"
    using c it_get_rep [OF tab(1) [unfolded kp], of target] tab(5) by (auto simp: names_pids_def)
  have ps: "\<not> (it_size (children_processes (pcbs ?k1 p)) = 0 \<or> (sint target > 0 \<and> it_get (children_processes (pcbs ?k1 p)) target = NULL))"
    using it_rep_size(2) [OF tab(1)] ne gc unfolding kp by auto
  from take_exited_none [OF tab(2,4) nx] obtain t where
    te: "take_exited p target ?k1 = Some (Inr (NULL, upd_pcb p (\<lambda>c. c\<lparr>exit_children_processes := t\<rparr>) ?k1))" "it_rep t X" by blast
  let ?g = "\<lambda>c. (held c)\<lparr>exit_children_processes := t, waiting_threads_count := waiting_threads_count c + (if counted then 0 else 1)\<rparr>"
  let ?k2 = "upd_pcb p (\<lambda>c. c\<lparr>exit_children_processes := t\<rparr>) ?k1" and ?k3 = "upd_pcb p ?g k"
  have k3: "(if counted then ?k2 else upd_pcb p (\<lambda>c. c\<lparr>waiting_threads_count := waiting_threads_count c + 1\<rparr>) ?k2) = ?k3"
    by (cases counted) (simp_all add: upd_pcb_def held_def)
  have g: "process_lock (pcbs ?k3 q) = (if q = p then \<lparr>hold = LOCKED_YES\<rparr> else process_lock (pcbs k q))"
    "children_processes (pcbs ?k3 q) = children_processes (pcbs k q)" "exit_wait_queue (pcbs ?k3 q) = exit_wait_queue (pcbs k q)"
    "wait_any_exit_queue (pcbs ?k3 q) = wait_any_exit_queue (pcbs k q)" "exit_children_processes (pcbs ?k3 p) = t"
    "waiting_threads_count (pcbs ?k3 p) = waiting_threads_count (pcbs k p) + (if counted then 0 else 1)" for q by (simp_all add: held_def)
  have "target = 0 \<or> it_get (children_processes (pcbs ?k3 p)) target = c \<and> lock_free c ?k3 \<and> c \<noteq> p" unfolding g using c gc by auto
  from join_wait_queue_ok [OF this, of n] obtain P where
    P: "join_wait_queue p target n ?k3 = Some (Inr (?k3\<lparr>pcbs := P\<rparr>))" "joined target p c n (pcbs ?k3) P"
      "\<And>q. process_lock (P q) = process_lock (pcbs ?k3 q) \<and> children_processes (P q) = children_processes (pcbs ?k3 q) \<and>
       exit_children_processes (P q) = exit_children_processes (pcbs ?k3 q) \<and> waiting_threads_count (P q) = waiting_threads_count (pcbs ?k3 q)" by blast
  let ?k4 = "?k3\<lparr>pcbs := P\<rparr>"
  have sk: "k_sched ?k4 = k_sched k" by simp
  from block_and_switch [where k = ?k4 and R = R and T = T and Q = Q, unfolded sk, OF so st R2] obtain s s' where
    b: "on_sched (\<lambda>s. Inr (schedule_mark_thread_block s)) ?k4 = Some (Inr (with_sched s ?k4))"
      "\<And>P. on_sched (\<lambda>s. kbind (schedule_thread_yield s) (\<lambda>(_, s). Inr s)) ((with_sched s ?k4)\<lparr>pcbs := P\<rparr>) = Some (Inr (set_sched s' ((with_sched s ?k4)\<lparr>pcbs := P\<rparr>)))"
      "sched_ok T s' (Q(Ready_tasks := tl R2)) R" "crt_thread_node s' = hd R2" "status (tcb_of s' (hd R2)) = TASK_RUNNING" by blast
  let ?P = "P(p := (P p)\<lparr>process_lock := \<lparr>hold = LOCKED_NO\<rparr>\<rparr>)"
  have un: "unlock_process p (with_sched s ?k4) = (with_sched s ?k4)\<lparr>pcbs := ?P\<rparr>" by (simp add: unlock_process_upd upd_pcb_def with_sched_def)
  define k' where "k' = set_sched s' ((with_sched s ?k4)\<lparr>pcbs := ?P\<rparr>)"
  have k': "k_sched k' = s'" "pcbs k' = ?P" by (simp_all add: k'_def)
  have "process_wait_pass p target n counted ?k1 = Some (Inr (Wait_blocks, True, k'))"
    unfolding process_wait_pass_def if_not_P [OF ps] te(1) using P(1) b(1) b(2) [of ?P] un
    by (simp only: obind_simps prod.case simp_thms if_False Let_def k3 k'_def)
  then have "process_wait_from node p target status_ptr n counted k = Some (Inr (None, k'))"
    by (simp add: process_wait_from_def lock_process_free [OF lf])
  moreover have "joined target p c n (pcbs k) ?P" using P(2) unfolding joined_def g by auto
  moreover have "\<forall>q. lock_free q k \<longrightarrow> hold (process_lock (?P q)) = LOCKED_NO" using P(3) g(1) by simp
  moreover have "children_processes (?P p) = children_processes (pcbs k p)" "exit_children_processes (?P p) = t"
    "waiting_threads_count (?P p) = waiting_threads_count (pcbs k p) + (if counted then 0 else 1)"
    using P(3) [of p] unfolding g by simp_all
  ultimately show ?thesis using tab(1) te(2) b(3-5) unfolding kp k'(1) [symmetric] k'(2) [symmetric]
    by (intro exI [of _ k']) simp
qed


lemma process_wait_unfold:
  assumes "wait_ok T Q R k p C X" "sint target \<ge> 0"
  shows "process_wait node target status_ptr k = process_wait_from node p target status_ptr (crt_thread_node (k_sched k)) False k"
proof -
  have "crt_thread_node (k_sched k) \<noteq> NULL" using assms(1) by (auto simp: wait_ok_def sched_ok_def sched_base_def thread_ok_def)
  then show ?thesis using assms by (simp add: process_wait_def the_crt_process_def wait_ok_def get_crt_thread_node_def)
qed

text \<open>C6: \<^verbatim>\<open>process_wait\<close> reaps an exited child at once. When the child with the given id has exited, or the id is 0 and some
  child has, the call returns 0: exactly that child leaves both tables of the caller, its exit code is what is stored at the
  address given, unless that is null, and its control block is queued for the clean-up thread, which is made ready if it waits. The
  lock is free again and the caller goes on running.\<close>

theorem process_wait_reaps:
  assumes "wait_ok T Q R k p C X" "sint target \<ge> 0" "target = 0 \<and> X \<noteq> Map.empty \<or> target \<noteq> 0 \<and> X target \<noteq> None"
    and "node \<noteq> NULL" "node \<notin> T" "node \<notin> set R" "length R + 1 < 2 ^ 32"
    and "hold (dead_resource_lock (k_sched k)) = LOCKED_NO" "\<And>n. n \<in> set (Q Dead_cv) \<Longrightarrow> status (tcb_of (k_sched k) n) = TASK_WAITING"
    and "status_ptr \<noteq> NULL \<Longrightarrow> \<forall>x. \<exists>v. kernel_store status_ptr x (k_vm k) = Inr v"
  shows "\<exists>k' child. process_wait node target status_ptr k = Some (Inr (Some 0, k')) \<and>
    X (pid (pcbs k child)) = Some child \<and> (target \<noteq> 0 \<longrightarrow> pid (pcbs k child) = target) \<and>
    it_rep (children_processes (pcbs k' p)) (C(pid (pcbs k child) := None)) \<and>
    it_rep (exit_children_processes (pcbs k' p)) (X(pid (pcbs k child) := None)) \<and> lock_free p k' \<and>
    (if status_ptr = NULL then k_vm k' = k_vm k else kernel_store status_ptr (exit_code (pcbs k child)) (k_vm k) = Inr (k_vm k')) \<and>
    sched_base T (k_sched k') (Q(Dead_cv := tl (Q Dead_cv), Ready_tasks := Q Ready_tasks @ take 1 (Q Dead_cv))) (R @ [node]) \<and>
    ptr (sched.nodes (k_sched k') node) = child \<and> crt_thread_node (k_sched k') = crt_thread_node (k_sched k)"
proof -
  have "False \<longrightarrow> waiting_threads_count (pcbs k p) > 0" by simp
  from process_wait_from_reaps [OF assms(1,3-10) this, of "crt_thread_node (k_sched k)"] obtain k' child where
    r: "process_wait_from node p target status_ptr (crt_thread_node (k_sched k)) False k = Some (Inr (Some 0, k'))"
      "X (pid (pcbs k child)) = Some child" "target \<noteq> 0 \<longrightarrow> pid (pcbs k child) = target"
      "it_rep (children_processes (pcbs k' p)) (C(pid (pcbs k child) := None))"
      "it_rep (exit_children_processes (pcbs k' p)) (X(pid (pcbs k child) := None))" "lock_free p k'"
      "if status_ptr = NULL then k_vm k' = k_vm k else kernel_store status_ptr (exit_code (pcbs k child)) (k_vm k) = Inr (k_vm k')"
      "sched_base T (k_sched k') (Q(Dead_cv := tl (Q Dead_cv), Ready_tasks := Q Ready_tasks @ take 1 (Q Dead_cv))) (R @ [node])"
      "ptr (sched.nodes (k_sched k') node) = child" "crt_thread_node (k_sched k') = crt_thread_node (k_sched k)" by metis
  show ?thesis unfolding process_wait_unfold [OF assms(1,2)] by (rule exI [of _ k'], rule exI [of _ child]) (intro conjI r)
qed

text \<open>The parent of \<open>demo_family\<close> runs; its child 7 has exited with code 42.\<close>

definition demo_reaper :: kernel where
  "demo_reaper = demo_kernel\<lparr>k_threads := (k_threads demo_kernel)\<lparr>t_sched := demo_sched\<lparr>tcbs := \<lambda>t. (demo_tcb t)\<lparr>process := 0x600\<rparr>\<rparr>\<rparr>,
     pcbs := demo_family(0x600 := (demo_family 0x600)\<lparr>exit_children_processes := snd (it_put it_init 7 0x500)\<rparr>,
                         0x500 := (demo_family 0x500)\<lparr>exit_code := 42\<rparr>)\<rparr>"

lemma demo_reaper_wait_ok: "wait_ok {16, 32, 48} demo_queues [] demo_reaper 0x600 [7 \<mapsto> 0x500] [7 \<mapsto> 0x500]"
  unfolding wait_ok_def
proof (intro conjI)
  show "sched_ok {16, 32, 48} (k_sched demo_reaper) demo_queues []"
    by (auto simp: demo_reaper_def sched_ok_def sched_base_def queues_rep_def demo_sched_def demo_queues_def demo_tcb_def thread_ok_def dll_def)
qed (simp_all add: demo_reaper_def get_crt_process_def get_crt_thread_def demo_sched_def demo_family_def zero_pcb_def tables_ok_def small_ids_def names_pids_def LOCKED_NO_def)

theorem process_wait_reaps_witness:
  "\<exists>k'. process_wait 0x90 7 0x2000004 demo_reaper = Some (Inr (Some 0, k')) \<and>
     it_rep (children_processes (pcbs k' 0x600)) Map.empty \<and> phys (k_vm k') 5 (word_index 0x2000004) = 42"
proof -
  have w: "walk demo_user_vm 0x2000004 = Some 5" by (simp add: walk_def dir_index_def table_index_def demo_user_vm_simps)
  have vm: "k_vm demo_reaper = demo_user_vm" by (simp add: demo_reaper_def)
  have c: "hold (dead_resource_lock (k_sched demo_reaper)) = LOCKED_NO" "pid (pcbs demo_reaper 0x500) = 7" "exit_code (pcbs demo_reaper 0x500) = 42"
    by (simp_all add: demo_reaper_def demo_sched_def demo_family_def)
  have "\<exists>k' child. process_wait 0x90 7 0x2000004 demo_reaper = Some (Inr (Some 0, k')) \<and> [7 \<mapsto> 0x500] (pid (pcbs demo_reaper child)) = Some child \<and>
    ((7 :: u32) \<noteq> 0 \<longrightarrow> pid (pcbs demo_reaper child) = 7) \<and>
    it_rep (children_processes (pcbs k' 0x600)) ([7 \<mapsto> 0x500](pid (pcbs demo_reaper child) := None)) \<and>
    it_rep (exit_children_processes (pcbs k' 0x600)) ([7 \<mapsto> 0x500](pid (pcbs demo_reaper child) := None)) \<and> lock_free 0x600 k' \<and>
    (if (0x2000004 :: u32) = NULL then k_vm k' = k_vm demo_reaper
     else kernel_store 0x2000004 (exit_code (pcbs demo_reaper child)) (k_vm demo_reaper) = Inr (k_vm k')) \<and>
    sched_base {16, 32, 48} (k_sched k') (demo_queues(Dead_cv := tl (demo_queues Dead_cv), Ready_tasks := demo_queues Ready_tasks @ take 1 (demo_queues Dead_cv))) ([] @ [0x90]) \<and>
    ptr (sched.nodes (k_sched k') 0x90) = child \<and> crt_thread_node (k_sched k') = crt_thread_node (k_sched demo_reaper)"
    by (rule process_wait_reaps [OF demo_reaper_wait_ok]) (simp_all add: c vm kernel_store_def w vwrite_def demo_queues_def)
  then show ?thesis using c by (auto simp: vm kernel_store_def w vwrite_def set_phys_def split: if_splits
      dest!: arg_cong [where f = "\<lambda>v. phys v 5 (word_index 0x2000004)"])
qed


text \<open>C7: \<^verbatim>\<open>process_wait\<close> without an exited child to reap. If the caller has no child with the given id, or none at all, it
  returns -1 at once and nothing has changed. Otherwise the caller is at the head of the right queue, that of the child waited for
  or, for id 0, that of its own process, is counted as a waiting thread and leaves the processor to the next ready thread; the lock
  is free, so that the exit of the child can find it there, and no table has changed.\<close>

theorem process_wait_blocks:
  assumes "wait_ok T Q R k p C X" "sint target \<ge> 0" "if target = 0 then X = Map.empty else X target = None"
    and "target \<noteq> 0 \<Longrightarrow> C target = Some c \<Longrightarrow> lock_free c k \<and> c \<noteq> p"
    and "status (tcb_of (k_sched k) (crt_thread_node (k_sched k))) = TASK_RUNNING"
    and "R2 = rr_queue (main_thread_node (k_sched k)) False (crt_thread_node (k_sched k)) (Q Ready_tasks)"
  shows "(C = Map.empty \<or> target \<noteq> 0 \<and> C target = None \<longrightarrow> process_wait node target status_ptr k = Some (Inr (Some (- 1), k))) \<and>
    (target = 0 \<and> C \<noteq> Map.empty \<or> target \<noteq> 0 \<and> C target = Some c \<longrightarrow>
      (\<exists>k'. process_wait node target status_ptr k = Some (Inr (None, k')) \<and> joined target p c (crt_thread_node (k_sched k)) (pcbs k) (pcbs k') \<and>
        it_rep (children_processes (pcbs k' p)) C \<and> it_rep (exit_children_processes (pcbs k' p)) X \<and>
        waiting_threads_count (pcbs k' p) = waiting_threads_count (pcbs k p) + 1 \<and> lock_free p k' \<and>
        sched_ok T (k_sched k') (Q(Ready_tasks := tl R2)) R \<and> crt_thread_node (k_sched k') = hd R2 \<and>
        status (tcb_of (k_sched k') (hd R2)) = TASK_RUNNING))"
proof (intro conjI impI)
  have lf: "lock_free p k" and t: "it_rep (children_processes (pcbs k p)) C" using assms(1) by (simp_all add: wait_ok_def tables_ok_def)
  assume c: "C = Map.empty \<or> target \<noteq> 0 \<and> C target = None"
  have "target \<noteq> 0 \<Longrightarrow> sint target > 0" using assms(2) signed_word_eqI [of target 0] by (auto simp: order_less_le)
  then show "process_wait node target status_ptr k = Some (Inr (Some (- 1), k))"
    unfolding process_wait_unfold [OF assms(1,2)] using c by (intro process_wait_from_fails [OF lf t]) auto
next
  assume c: "target = 0 \<and> C \<noteq> Map.empty \<or> target \<noteq> 0 \<and> C target = Some c"
  then have ne: "C \<noteq> Map.empty" and d: "target = 0 \<or> C target = Some c \<and> lock_free c k \<and> c \<noteq> p" using assms(4) by auto
  have lf: "lock_free p k" using assms(1) by (simp add: wait_ok_def)
  from process_wait_from_blocks [OF assms(1) ne assms(3) d assms(5,6), where n = "crt_thread_node (k_sched k)" and counted = False]
  obtain k' where "process_wait_from node p target status_ptr (crt_thread_node (k_sched k)) False k = Some (Inr (None, k'))"
      "joined target p c (crt_thread_node (k_sched k)) (pcbs k) (pcbs k')" "it_rep (children_processes (pcbs k' p)) C"
      "it_rep (exit_children_processes (pcbs k' p)) X" "waiting_threads_count (pcbs k' p) = waiting_threads_count (pcbs k p) + (if False then 0 else 1)"
      "\<forall>q. lock_free q k \<longrightarrow> lock_free q k'" "sched_ok T (k_sched k') (Q(Ready_tasks := tl R2)) R" "crt_thread_node (k_sched k') = hd R2"
      "status (tcb_of (k_sched k') (hd R2)) = TASK_RUNNING" by metis
  then show "\<exists>k'. process_wait node target status_ptr k = Some (Inr (None, k')) \<and> joined target p c (crt_thread_node (k_sched k)) (pcbs k) (pcbs k') \<and>
        it_rep (children_processes (pcbs k' p)) C \<and> it_rep (exit_children_processes (pcbs k' p)) X \<and>
        waiting_threads_count (pcbs k' p) = waiting_threads_count (pcbs k p) + 1 \<and> lock_free p k' \<and>
        sched_ok T (k_sched k') (Q(Ready_tasks := tl R2)) R \<and> crt_thread_node (k_sched k') = hd R2 \<and>
        status (tcb_of (k_sched k') (hd R2)) = TASK_RUNNING"
    unfolding process_wait_unfold [OF assms(1,2)] using lf by (intro exI [of _ k']) simp
qed

text \<open>The same parent before its child has exited.\<close>

definition demo_waiter :: kernel where
  "demo_waiter = demo_reaper\<lparr>pcbs := demo_family\<rparr>"

lemma demo_waiter_wait_ok: "wait_ok {16, 32, 48} demo_queues [] demo_waiter 0x600 [7 \<mapsto> 0x500] Map.empty"
  using demo_reaper_wait_ok unfolding wait_ok_def
  by (simp add: demo_waiter_def demo_reaper_def demo_family_def zero_pcb_def tables_ok_def small_ids_def names_pids_def LOCKED_NO_def)

theorem process_wait_blocks_witness:
  "\<exists>k'. process_wait 0x90 7 0 demo_waiter = Some (Inr (None, k')) \<and>
     exit_wait_queue (pcbs k' 0x500) = [\<lparr>task = 32, target_pid = 7\<rparr>, \<lparr>task = 64, target_pid = 7\<rparr>] \<and> crt_thread_node (k_sched k') = 48"
proof -
  have s: "k_sched demo_waiter = demo_sched\<lparr>tcbs := \<lambda>t. (demo_tcb t)\<lparr>process := 0x600\<rparr>\<rparr>" "pcbs demo_waiter = demo_family"
    by (simp_all add: demo_waiter_def demo_reaper_def)
  have r: "[48] = rr_queue (main_thread_node (k_sched demo_waiter)) False (crt_thread_node (k_sched demo_waiter)) (demo_queues Ready_tasks)"
    by (simp add: s rr_queue_def demo_queues_def)
  have q: "exit_wait_queue (demo_family 0x500) = [\<lparr>task = 64, target_pid = 7\<rparr>]" "lock_free 0x500 demo_waiter" "crt_thread_node demo_sched = 32"
    by (simp_all add: demo_family_def s zero_pcb_def LOCKED_NO_def demo_sched_def)
  from process_wait_blocks [OF demo_waiter_wait_ok _ _ _ _ r, of 7 "0x500" "0x90" 0] show ?thesis
    using q by (simp add: s joined_def demo_sched_def demo_tcb_def) blast
qed

end
