(* ===== verification/Task_Boot.thy ===== *)
theory Task_Boot
  imports Process
begin

text \<open>
  The rest of \<^verbatim>\<open>src/src/task/scheduler.c\<close>: the start of multitasking with the idle thread, the
  clean-up thread and the init process, and one round of the clean-up thread, which destroys what
  \<^verbatim>\<open>add_dead_tasks\<close> and \<^verbatim>\<open>add_dead_process\<close> have queued.
\<close>

section \<open>Start\<close>

definition cond_var_init :: "queue_ref \<Rightarrow> sched \<Rightarrow> sched" where
  "cond_var_init cv s = s\<lparr>queues := (queues s)(cv := linked_list_init (queues s cv))\<rparr>"

definition get_init_process :: "kernel \<Rightarrow> addr kres" where
  "get_init_process k = kassert (init_process k \<noteq> NULL) ''init_process != NULL'' (Inr (init_process k))"

definition schedule_thread_normal_exit :: "sched kres" where
  "schedule_thread_normal_exit = Inl (Panic ''should not be here!!! in thread normal exit'')"

text \<open>What the code needs of its environment: the entry points of threads and the answers of the allocator.\<close>

record boot_env =
  e_kernel_thread :: u32
  e_switch_to_user_mode :: u32
  e_kmalloc :: "u32 \<Rightarrow> u32 list option"
  e_raw :: bitmap_t
  e_pcb :: addr
  e_tcb :: addr
  e_tcb2 :: addr

definition init_queues :: "sched \<Rightarrow> sched" where
  "init_queues s =
     (let s = s\<lparr>interrupts := False\<rparr>;
          s = s\<lparr>queues := (queues s)(Ready_tasks := linked_list_init (queues s Ready_tasks),
                 Dead_tasks := linked_list_init (queues s Dead_tasks))\<rparr>;
          s = s\<lparr>dead_processes := linked_list_init (dead_processes s),
                dead_resource_lock := yieldlock_init (dead_resource_lock s)\<rparr>
      in cond_var_init Dead_cv s)"

text \<open>
  \<^verbatim>\<open>init_scheduler\<close> up to the jump into the main thread; \<open>kernel_main_thread\<close> is that function's address and
  \<open>nm_process\<close>, \<open>nm_thread\<close> the two names.
\<close>

definition init_scheduler :: "boot_env \<Rightarrow> u32 \<Rightarrow> u8 list \<Rightarrow> u8 list \<Rightarrow> kernel \<Rightarrow> kernel kres option" where
  "init_scheduler e kernel_main_thread nm_process nm_thread k =
     (let k = k\<lparr>k_threads := (k_threads k)\<lparr>t_sched := init_queues (k_sched k)\<rparr>, processes_map := it_init,
                processes_map_lock := yieldlock_init (processes_map_lock k)\<rparr>
      in obind (create_and_add_process (e_kmalloc e) (e_raw e) (e_pcb e) (Some nm_process) True k) (\<lambda>(p, k).
         let k = k\<lparr>main_process := p\<rparr>
         in oassert (p \<noteq> NULL) ''main_process != NULL''
              (obind (create_new_kernel_thread (e_kernel_thread e) (e_switch_to_user_mode e) (e_tcb e) p (Some nm_thread)
                        kernel_main_thread k) (\<lambda>(t, k).
                 let n = crt_node_ptr (tcbs (k_sched k) t)
                 in Some (Inr (k\<lparr>k_threads := (k_threads k)\<lparr>t_sched := (k_sched k)\<lparr>main_thread_node := n, crt_thread_node := n\<rparr>\<rparr>\<rparr>))))))"

text \<open>\<^verbatim>\<open>kernel_main_thread\<close> up to its idle loop, which leaves the state alone.\<close>

definition kernel_main_thread :: "boot_env \<Rightarrow> u32 \<Rightarrow> u32 \<Rightarrow> u8 list \<Rightarrow> u8 list \<Rightarrow> kernel \<Rightarrow> kernel kres option" where
  "kernel_main_thread e kernel_clean_thread kernel_init_thread nm_clean nm_init k =
     obind (create_new_kernel_thread (e_kernel_thread e) (e_switch_to_user_mode e) (e_tcb e) (main_process k) (Some nm_clean)
              kernel_clean_thread k) (\<lambda>(t, k).
     let k = k\<lparr>kernel_clean_node := crt_node_ptr (tcbs (k_sched k) t)\<rparr>
     in obind (on_sched (add_thread_node_to_schedule (kernel_clean_node k)) k) (\<lambda>k.
        obind (create_and_add_process (e_kmalloc e) (e_raw e) (e_pcb e) None True k) (\<lambda>(p, k).
        let k = k\<lparr>init_process := p\<rparr>
        in oassert (p \<noteq> NULL) ''init_process != NULL''
             (obind (create_new_kernel_thread (e_kernel_thread e) (e_switch_to_user_mode e) (e_tcb2 e) p (Some nm_init)
                       kernel_init_thread k) (\<lambda>(t, k).
              obind (on_sched (add_thread_node_to_schedule (crt_node_ptr (tcbs (k_sched k) t))) k) (\<lambda>k.
                Some (Inr (set_sched ((k_sched k)\<lparr>interrupts := True, multi_task_enabled := True\<rparr>) k))))))))"

section \<open>The clean-up thread\<close>

definition set_nodes :: "node_heap \<Rightarrow> kernel \<Rightarrow> kernel" where
  "set_nodes h k = k\<lparr>k_threads := (k_threads k)\<lparr>t_sched := sched.nodes_update (\<lambda>_. h) (k_sched k)\<rparr>\<rparr>"

text \<open>The loops over the two lists; the results collect the addresses passed to \<^verbatim>\<open>kfree\<close>.\<close>

partial_function (option) clean_tasks :: "addr list \<Rightarrow> linked_list_t \<Rightarrow> kernel \<Rightarrow> (addr list \<times> kernel) kres option" where
  "clean_tasks freed clearing_tasks k =
     (if list_size clearing_tasks > 0 then
        let hd = head clearing_tasks
        in case linked_list_remove (sched.nodes (k_sched k)) clearing_tasks hd of
             Inl e \<Rightarrow> Some (Inl e)
           | Inr (h, clearing_tasks) \<Rightarrow>
               case destroy_thread (ptr (h hd)) (k_threads (set_nodes h k)) of
                 None \<Rightarrow> None
               | Some (Inl e) \<Rightarrow> Some (Inl e)
               | Some (Inr (a, t)) \<Rightarrow> clean_tasks (freed @ [a]) clearing_tasks (k\<lparr>k_threads := t\<rparr>)
      else Some (Inr (freed, k)))"

partial_function (option) clean_processes :: "addr list \<Rightarrow> linked_list_t \<Rightarrow> kernel \<Rightarrow> (addr list \<times> kernel) kres option" where
  "clean_processes freed clearing_processes k =
     (if list_size clearing_processes > 0 then
        let hd = head clearing_processes
        in case linked_list_remove (sched.nodes (k_sched k)) clearing_processes hd of
             Inl e \<Rightarrow> Some (Inl e)
           | Inr (h, clearing_processes) \<Rightarrow>
               case destroy_process (ptr (h hd)) (set_nodes h k) of
                 None \<Rightarrow> None
               | Some (Inl e) \<Rightarrow> Some (Inl e)
               | Some (Inr (a, k)) \<Rightarrow> clean_processes (freed @ [a, hd]) clearing_processes k
      else Some (Inr (freed, k)))"

text \<open>One round after \<^verbatim>\<open>cond_var_wait\<close> has returned with the lock held; \<open>l1\<close>, \<open>l2\<close> are the local lists.\<close>

definition kernel_clean_round :: "linked_list_t \<Rightarrow> linked_list_t \<Rightarrow> kernel \<Rightarrow> (addr list \<times> kernel) kres option" where
  "kernel_clean_round l1 l2 k =
     (let s = k_sched k; (clearing_tasks, q) = linked_list_move l1 (queues s Dead_tasks);
          s = s\<lparr>queues := (queues s)(Dead_tasks := q)\<rparr>;
          (clearing_processes, r) = linked_list_move l2 (dead_processes s);
          s = s\<lparr>dead_processes := r, dead_resource_lock := yieldlock_unlock (dead_resource_lock s)\<rparr>
      in obind (clean_tasks [] clearing_tasks (set_sched s k)) (\<lambda>(freed, k).
           clean_processes freed clearing_processes k))"

end
