(* ===== verification/Process_Exec.thy ===== *)
theory Process_Exec
  imports Process User_Stack Elf Ext2_Fs
begin

text \<open>
  \<^verbatim>\<open>process_exec\<close> and \<^verbatim>\<open>create_new_user_thread\<close> of \<^verbatim>\<open>src/src/task/process.c\<close>, with the string arrays of
  \<^verbatim>\<open>src/src/utils/string.c\<close>. Next to the state of the kernel there is the memory as the current address space
  shows it, byte by byte: user pages that are not mapped yet are filled with zeros by the fault handler at their first
  use, so they read as zero. The addresses that \<^verbatim>\<open>kmalloc\<close> returns are arguments.
\<close>

section \<open>String arrays\<close>

text \<open>\<open>as\<close> are the addresses allocated for the copies, one for each string that is not null.\<close>

fun copy_strs :: "addr \<Rightarrow> addr \<Rightarrow> nat \<Rightarrow> nat \<Rightarrow> addr list \<Rightarrow> byte_mem \<Rightarrow> byte_mem kres option" where
  "copy_strs arr src i 0 as m = Some (Inr m)"
| "copy_strs arr src i (Suc n) as m =
     (let s = load32 m (src + of_nat (4 * i))
      in if s = NULL then copy_strs arr src (Suc i) n as (store32 m (arr + of_nat (4 * i)) NULL)
         else
           obind (strcpy_with_len m (hd as) s) (\<lambda>(_, m).
             copy_strs arr src (Suc i) n (tl as) (store32 m (arr + of_nat (4 * i)) (hd as))))"

definition copy_str_array :: "addr \<Rightarrow> addr list \<Rightarrow> nat \<Rightarrow> addr \<Rightarrow> byte_mem \<Rightarrow> (addr \<times> byte_mem) kres option" where
  "copy_str_array arr as num str_array m =
     (if str_array = NULL then Some (Inr (NULL, m))
      else obind (copy_strs arr str_array 0 num as m) (\<lambda>m. Some (Inr (arr, m))))"

text \<open>The addresses passed to \<^verbatim>\<open>kfree\<close>, in order.\<close>

definition destroy_str_array :: "byte_mem \<Rightarrow> nat \<Rightarrow> addr \<Rightarrow> addr list" where
  "destroy_str_array m num str_array =
     (if str_array = NULL then []
      else map (\<lambda>i. load32 m (str_array + of_nat (4 * i))) [0..<num] @ [str_array])"

section \<open>Exec\<close>

text \<open>The string at an address, as the file system functions read it.\<close>

definition read_str :: "byte_mem \<Rightarrow> addr \<Rightarrow> u8 list kres option" where
  "read_str m a = obind (strlen m a) (\<lambda>n. Some (Inr (mem_bytes m a (unat n))))"

definition user_area :: "addr \<Rightarrow> bool" where
  "user_area a \<longleftrightarrow> 0x400000 \<le> a \<and> a < 0xC0000000"

definition forget_user :: "byte_mem \<Rightarrow> byte_mem" where
  "forget_user m = (\<lambda>a. if user_area a then 0 else m a)"

text \<open>The assignments to the members of the interrupt frame at \<open>base\<close>.\<close>

definition store_frame :: "addr \<Rightarrow> (nat \<times> u32) list \<Rightarrow> byte_mem \<Rightarrow> byte_mem" where
  "store_frame base ws m = fold (\<lambda>(i, w) m. store32 m (base + of_nat (4 * i)) w) ws m"

text \<open>A call that failed, or the address of the interrupt frame from which the processor enters the program.\<close>

datatype exec_end = Exec_fails | Exec_enters addr

record exec_env =
  x_buf :: addr
  x_args :: addr
  x_strs :: "addr list"
  x_path :: addr
  x_return :: u32

text \<open>The stack index that \<^verbatim>\<open>bitmap_alloc_first_free\<close> gives, under the lock of the process.\<close>

definition alloc_stack_index :: "addr \<Rightarrow> kernel \<Rightarrow> (u32 option \<times> kernel) kres option" where
  "alloc_stack_index p k =
     obind (lock_process p k) (\<lambda>k.
       case bitmap_alloc_first_free (user_thread_stack_indexes (pcbs k p)) of
         None \<Rightarrow> Some (Inr (None, unlock_process p k))
       | Some (index, b) \<Rightarrow>
           Some (Inr (Some index, unlock_process p (upd_pcb p (\<lambda>c. c\<lparr>user_thread_stack_indexes := b\<rparr>) k))))"

definition on_tcb :: "addr \<Rightarrow> (tcb_t \<Rightarrow> tcb_t) \<Rightarrow> kernel \<Rightarrow> kernel" where
  "on_tcb t f k = k\<lparr>k_threads := put_tcb t f (k_threads k)\<rparr>"

definition set_thread_name :: "addr \<Rightarrow> u8 list \<Rightarrow> kernel \<Rightarrow> kernel" where
  "set_thread_name t nm k = k\<lparr>k_threads := (k_threads k)\<lparr>thread_name := (thread_name (k_threads k))(t := nm)\<rparr>\<rparr>"

text \<open>The second half, from the new user stack on.\<close>

definition exec_image :: "exec_env \<Rightarrow> addr \<Rightarrow> addr \<Rightarrow> u8 list \<Rightarrow> nat \<Rightarrow> addr \<Rightarrow> kernel \<Rightarrow> byte_mem \<Rightarrow> (exec_end \<times> kernel \<times> byte_mem) kres option" where
  "exec_image e p t path argc args k m =
     obind (alloc_stack_index p k) (\<lambda>(r, k).
       case r of
         None \<Rightarrow> Some (Inr (Exec_fails, k, m))
       | Some stack_index \<Rightarrow>
           let user_stack_top = USER_STACK_TOP - stack_index * USER_STACK_SIZE;
               k = on_tcb t (\<lambda>c. c\<lparr>user_stack_index := stack_index, user_stack := user_stack_top\<rparr>) k
           in obind (on_vm (map_page (user_stack_top - PAGE_SIZE)) k) (\<lambda>k.
              let stack = kernel_stack (tcbs (k_sched k) t);
                  esp = stack + KERNEL_STACK_SIZE - (INTERRUPT_STACK_SIZE + SWITCH_STACK_SIZE);
                  k = on_tcb t (\<lambda>c. c\<lparr>kernel_esp := esp\<rparr>) k;
                  k = set_thread_name t path (upd_pcb p (\<lambda>c. c\<lparr>process_name := path\<rparr>) k)
              in obind (prepare_user_stack esp user_stack_top argc args (x_return e) m) (\<lambda>(_, m).
                 obind (Some (load_elf (x_buf e) m)) (\<lambda>(r, m).
                   case r of
                     None \<Rightarrow> Some (Inl (Panic ''Failed to load elf file''))
                   | Some entry_addr \<Rightarrow>
                       let is = stack + KERNEL_STACK_SIZE - INTERRUPT_STACK_SIZE;
                           m = store_frame is (user_frame entry_addr) m
                       in Some (Inr (Exec_enters is, set_sched ((k_sched k)\<lparr>interrupts := False\<rparr>) k, m))))))"

definition process_exec ::
  "exec_env \<Rightarrow> disks \<Rightarrow> ext2 \<Rightarrow> addr \<Rightarrow> nat \<Rightarrow> addr \<Rightarrow> kernel \<Rightarrow> byte_mem \<Rightarrow> (exec_end \<times> kernel \<times> byte_mem) kres option" where
  "process_exec e ds fs path argc argv k m =
     obind (read_str m path) (\<lambda>name.
     obind (Some (stat_file ds fs name)) (\<lambda>st.
       case st of
         None \<Rightarrow> Some (Inr (Exec_fails, k, m))
       | Some sz \<Rightarrow>
           oassert (sz \<noteq> 0) ''size != 0''
             (obind (Some (read_file ds fs name 0 sz)) (\<lambda>content.
                case content of
                  None \<Rightarrow> Some (Inr (Exec_fails, k, m))
                | Some bs \<Rightarrow>
                    let m = store_bytes m (x_buf e) bs
                    in if of_nat (length bs) \<noteq> sz then Some (Inr (Exec_fails, k, m))
                       else
                         let k = set_sched ((k_sched k)\<lparr>interrupts := False\<rparr>) k
                         in obind (the_crt_process k) (\<lambda>p.
                            obind (the_crt_thread k) (\<lambda>t.
                            obind (lock_process p k) (\<lambda>k.
                            obind (clear_crt_process_other_thread_locked k) (\<lambda>k.
                            let k = unlock_process p k
                            in obind (copy_str_array (x_args e) (x_strs e) argc argv m) (\<lambda>(args, m).
                               obind (strcpy_with_len m (x_path e) path) (\<lambda>(_, m).
                               obind (on_vm release_user_space_pages k) (\<lambda>k.
                                 exec_image e p t name argc args k (forget_user m))))))))))))"

section \<open>A new user thread\<close>

text \<open>The result is the thread, or null when every stack of the process is in use; \<open>mem\<close> is the memory that the
  address space of a state shows.\<close>

definition create_new_user_thread ::
  "u32 \<Rightarrow> u32 \<Rightarrow> u32 \<Rightarrow> addr \<Rightarrow> addr \<Rightarrow> u8 list option \<Rightarrow> u32 \<Rightarrow> nat \<Rightarrow> addr \<Rightarrow> kernel \<Rightarrow> (kernel \<Rightarrow> byte_mem) \<Rightarrow>
     (addr \<times> kernel \<times> byte_mem) kres option" where
  "create_new_user_thread kernel_thread switch_to_user_mode return_addr a_tcb p nm user_function argc argv k mem =
     obind (on_threads (init_thread kernel_thread switch_to_user_mode a_tcb NULL nm user_function THREAD_DEFAULT_PRIORITY True) k)
       (\<lambda>(new_thread, k).
     obind (add_process_thread p new_thread k) (\<lambda>k.
     obind (alloc_stack_index p k) (\<lambda>(r, k).
       case r of
         None \<Rightarrow> Some (Inr (NULL, k, mem k))
       | Some stack_index \<Rightarrow>
           let user_stack_top = USER_STACK_TOP - stack_index * USER_STACK_SIZE;
               k = on_tcb new_thread (\<lambda>c. c\<lparr>user_stack_index := stack_index, user_stack := user_stack_top\<rparr>) k
           in obind (on_vm (map_page (user_stack_top - PAGE_SIZE)) k) (\<lambda>k.
              obind (prepare_user_stack (kernel_esp (tcbs (k_sched k) new_thread)) user_stack_top argc argv return_addr (mem k))
                (\<lambda>(_, m). Some (Inr (new_thread, k, m)))))))"

end
