(* ===== verification/Descriptors.thy ===== *)
theory Descriptors
  imports Prelude
begin

unbundle bit_operations_syntax

text \<open>
  The segment descriptors and the task state segment, \<^verbatim>\<open>src/src/mem/gdt.c\<close>. The addresses of the two static
  objects are arguments; the instructions that load them into the processor, \<^verbatim>\<open>load_gdt\<close> and \<^verbatim>\<open>refresh_tss\<close>, are
  assembly code and are not modelled.
\<close>

section \<open>Constants\<close>

definition FLAG_G_4K :: u8 where "FLAG_G_4K = push_bit 3 1"
definition FLAG_D_32 :: u8 where "FLAG_D_32 = push_bit 2 1"
definition DESC_P :: u8 where "DESC_P = push_bit 7 1"
definition DESC_DPL_0 :: u8 where "DESC_DPL_0 = push_bit 5 0"
definition DESC_DPL_3 :: u8 where "DESC_DPL_3 = push_bit 5 3"
definition DESC_S_CODE :: u8 where "DESC_S_CODE = push_bit 4 1"
definition DESC_S_DATA :: u8 where "DESC_S_DATA = push_bit 4 1"
definition DESC_S_SYS :: u8 where "DESC_S_SYS = push_bit 4 0"
definition DESC_TYPE_CODE :: u8 where "DESC_TYPE_CODE = 0x8"
definition DESC_TYPE_DATA :: u8 where "DESC_TYPE_DATA = 0x2"
definition DESC_TYPE_TSS :: u8 where "DESC_TYPE_TSS = 0x9"
definition RPL3 :: u32 where "RPL3 = 3"
definition SELECTOR_K_CODE :: u32 where "SELECTOR_K_CODE = push_bit 3 1 + push_bit 2 0 + 0"
definition SELECTOR_K_DATA :: u32 where "SELECTOR_K_DATA = push_bit 3 2 + push_bit 2 0 + 0"
definition GDT_ENTRIES :: nat where "GDT_ENTRIES = 7"

lemmas gdt_consts = FLAG_G_4K_def FLAG_D_32_def DESC_P_def DESC_DPL_0_def DESC_DPL_3_def DESC_S_CODE_def DESC_S_DATA_def
  DESC_S_SYS_def DESC_TYPE_CODE_def DESC_TYPE_DATA_def DESC_TYPE_TSS_def RPL3_def SELECTOR_K_CODE_def SELECTOR_K_DATA_def GDT_ENTRIES_def

section \<open>State\<close>

record gdt_entry_t =
  limit_low :: u16
  base_low :: u16
  base_middle :: u8
  access :: u8
  attributes :: u8
  base_high :: u8

record tss_entry_t =
  prev_tss :: u32
  tss_esp0 :: u32
  tss_ss0 :: u32
  tss_esp1 :: u32
  tss_ss1 :: u32
  tss_esp2 :: u32
  tss_ss2 :: u32
  tss_cr3 :: u32
  tss_eip :: u32
  tss_eflags :: u32
  tss_general :: "u32 list"
  tss_es :: u32
  tss_cs :: u32
  tss_ss :: u32
  tss_ds :: u32
  tss_fs :: u32
  tss_gs :: u32
  tss_ldt :: u32
  tss_trap :: u16
  iomap_base :: u16

text \<open>\<open>tss_general\<close> holds the eight fields \<^verbatim>\<open>eax\<close> to \<^verbatim>\<open>edi\<close>.\<close>

record descriptors =
  gdt_entries :: "gdt_entry_t list"
  gdt_limit :: u16
  gdt_base :: u32
  tss_entry :: tss_entry_t

definition TSS_SIZE :: u32 where "TSS_SIZE = 25 * 4 + 2 * 2"
definition GDT_ENTRY_SIZE :: u32 where "GDT_ENTRY_SIZE = 8"

definition zero_tss :: tss_entry_t where
  "zero_tss = \<lparr>prev_tss = 0, tss_esp0 = 0, tss_ss0 = 0, tss_esp1 = 0, tss_ss1 = 0, tss_esp2 = 0, tss_ss2 = 0, tss_cr3 = 0,
     tss_eip = 0, tss_eflags = 0, tss_general = replicate 8 0, tss_es = 0, tss_cs = 0, tss_ss = 0, tss_ds = 0, tss_fs = 0, tss_gs = 0,
     tss_ldt = 0, tss_trap = 0, iomap_base = 0\<rparr>"

section \<open>Operations\<close>

text \<open>All callers pass an index below \<^verbatim>\<open>GDT_ENTRIES\<close>.\<close>

definition gdt_gate :: "u32 \<Rightarrow> u32 \<Rightarrow> u8 \<Rightarrow> u8 \<Rightarrow> gdt_entry_t" where
  "gdt_gate base limit acc flags =
     \<lparr>limit_low = ucast (limit AND 0xFFFF), base_low = ucast (base AND 0xFFFF), base_middle = ucast (drop_bit 16 base AND 0xFF),
      access = acc, attributes = ucast (drop_bit 16 limit AND 0x0F) OR (push_bit 4 flags AND 0xF0), base_high = ucast (drop_bit 24 base AND 0xFF)\<rparr>"

definition gdt_set_gate :: "nat \<Rightarrow> u32 \<Rightarrow> u32 \<Rightarrow> u8 \<Rightarrow> u8 \<Rightarrow> descriptors \<Rightarrow> descriptors" where
  "gdt_set_gate num base limit acc flags s = s\<lparr>gdt_entries := (gdt_entries s)[num := gdt_gate base limit acc flags]\<rparr>"

definition write_tss :: "u32 \<Rightarrow> nat \<Rightarrow> u16 \<Rightarrow> u32 \<Rightarrow> descriptors \<Rightarrow> descriptors" where
  "write_tss a_tss num ss0 esp0 s =
     (let d = SELECTOR_K_DATA OR RPL3;
          t = zero_tss\<lparr>tss_ss0 := ucast ss0, tss_esp0 := esp0, iomap_base := ucast TSS_SIZE, tss_cs := SELECTOR_K_CODE OR RPL3,
                tss_gs := d, tss_fs := d, tss_es := d, tss_ds := d, tss_ss := d\<rparr>
      in gdt_set_gate num a_tss (TSS_SIZE - 1) (DESC_P OR DESC_DPL_0 OR DESC_S_SYS OR DESC_TYPE_TSS) 0 (s\<lparr>tss_entry := t\<rparr>))"

definition init_gdt :: "u32 \<Rightarrow> u32 \<Rightarrow> descriptors \<Rightarrow> descriptors" where
  "init_gdt a_gdt a_tss s =
     (let s = s\<lparr>gdt_limit := ucast (GDT_ENTRY_SIZE * of_nat GDT_ENTRIES - 1), gdt_base := a_gdt\<rparr>;
          s = gdt_set_gate 0 0 0 0 0 s;
          s = gdt_set_gate 1 0 0xFFFFF (DESC_P OR DESC_DPL_0 OR DESC_S_CODE OR DESC_TYPE_CODE) (FLAG_G_4K OR FLAG_D_32) s;
          s = gdt_set_gate 2 0 0xFFFFF (DESC_P OR DESC_DPL_0 OR DESC_S_DATA OR DESC_TYPE_DATA) (FLAG_G_4K OR FLAG_D_32) s;
          s = gdt_set_gate 3 0 0xFFFFF (DESC_P OR DESC_DPL_0 OR DESC_S_DATA OR DESC_TYPE_DATA) (FLAG_G_4K OR FLAG_D_32) s;
          s = gdt_set_gate 4 0 0xBFFFF (DESC_P OR DESC_DPL_3 OR DESC_S_CODE OR DESC_TYPE_CODE) (FLAG_G_4K OR FLAG_D_32) s;
          s = gdt_set_gate 5 0 0xBFFFF (DESC_P OR DESC_DPL_3 OR DESC_S_DATA OR DESC_TYPE_DATA) (FLAG_G_4K OR FLAG_D_32) s
      in write_tss a_tss 6 0x10 0 s)"

definition update_tss_esp :: "u32 \<Rightarrow> descriptors \<Rightarrow> descriptors" where
  "update_tss_esp esp s = s\<lparr>tss_entry := (tss_entry s)\<lparr>tss_esp0 := esp\<rparr>\<rparr>"

section \<open>What the processor reads\<close>

definition desc_base :: "gdt_entry_t \<Rightarrow> u32" where
  "desc_base e = ucast (base_low e) OR push_bit 16 (ucast (base_middle e)) OR push_bit 24 (ucast (base_high e))"

definition desc_limit :: "gdt_entry_t \<Rightarrow> u32" where
  "desc_limit e = ucast (limit_low e) OR push_bit 16 (ucast (attributes e AND 0x0F))"

definition desc_flags :: "gdt_entry_t \<Rightarrow> u8" where "desc_flags e = drop_bit 4 (attributes e)"
definition desc_present :: "gdt_entry_t \<Rightarrow> bool" where "desc_present e \<longleftrightarrow> bit (access e) 7"
definition desc_dpl :: "gdt_entry_t \<Rightarrow> u8" where "desc_dpl e = drop_bit 5 (access e) AND 3"
definition desc_type :: "gdt_entry_t \<Rightarrow> u8" where "desc_type e = access e AND 0x1F"

text \<open>The highest address of a segment; with the flag \<^verbatim>\<open>FLAG_G_4K\<close> the limit counts pages.\<close>

definition desc_last :: "gdt_entry_t \<Rightarrow> u32" where
  "desc_last e = desc_base e + (if bit (desc_flags e) 3 then push_bit 12 (desc_limit e) OR 0xFFF else desc_limit e)"

lemma and_low_masks:
  "w AND 0xFFFF = take_bit 16 w" "w AND 0xFF = take_bit 8 w" "w AND 0x0F = take_bit 4 w" "w AND 3 = take_bit 2 w" for w :: "'a::len word"
  by (simp_all add: take_bit_eq_mask mask_eq_exp_minus_1)

lemma and_high_mask: "w AND 0xF0 = push_bit 4 (drop_bit 4 w)" for w :: u8
proof -
  have "push_bit 4 (drop_bit 4 w) = w AND push_bit 4 (mask 4)"
    by (rule bit_word_eqI) (auto simp: bit_simps)
  then show ?thesis by (simp add: mask_eq_exp_minus_1 push_bit_eq_mult)
qed

lemma gate_base: "desc_base (gdt_gate b l a f) = b"
proof (rule bit_word_eqI)
  fix n assume "n < LENGTH(32)"
  moreover have "n < 16 \<or> 16 \<le> n \<and> n < 24 \<or> 24 \<le> n" by linarith
  ultimately show "bit (desc_base (gdt_gate b l a f)) n = bit b n"
    by (elim disjE conjE) (auto simp: desc_base_def gdt_gate_def bit_simps and_low_masks)
qed

lemma gate_limit: "desc_limit (gdt_gate b l a f) = take_bit 20 l"
  by (rule bit_word_eqI) (auto simp: desc_limit_def gdt_gate_def bit_simps and_low_masks and_high_mask)

lemma gate_flags: "desc_flags (gdt_gate b l a f) = take_bit 4 f"
  by (rule bit_word_eqI) (auto simp: desc_flags_def gdt_gate_def bit_simps and_low_masks and_high_mask)

lemma gate_access: "access (gdt_gate b l a f) = a"
  by (simp add: gdt_gate_def)

lemmas gate_reads = gate_base gate_limit gate_flags gate_access




end
