(* ===== verification/Interrupts.thy ===== *)
theory Interrupts
  imports Descriptors Scheduler
begin

unbundle bit_operations_syntax

text \<open>
  Interrupt handling: the gate table, the dispatcher and the interrupt controllers, \<^verbatim>\<open>src/src/interrupt/interrupt.c\<close>, and the
  handlers registered by \<^verbatim>\<open>time.c\<close>, \<^verbatim>\<open>protect_fault.c\<close> and \<^verbatim>\<open>disk_read.c\<close>. The entry points \<^verbatim>\<open>isr0\<close> to
  \<^verbatim>\<open>isr47\<close> and \<^verbatim>\<open>syscall_entry\<close> are assembly code; their addresses are arguments.
\<close>

section \<open>State\<close>

definition IDT_GATE_ATTR_DPL0 :: u8 where "IDT_GATE_ATTR_DPL0 = push_bit 7 1 + push_bit 5 0 + 0xE"
definition IDT_GATE_ATTR_DPL3 :: u8 where "IDT_GATE_ATTR_DPL3 = push_bit 7 1 + push_bit 5 3 + 0xE"
definition PROTECT_FAULT_NUM :: nat where "PROTECT_FAULT_NUM = 13"
definition IRQ0_INT_NUM :: nat where "IRQ0_INT_NUM = 32"
definition SYSCALL_INT_NUM :: nat where "SYSCALL_INT_NUM = 0x80"

record idt_entry_t =
  idt_base_low :: u16
  sel :: u16
  always0 :: u8
  idt_flags :: u8
  idt_base_high :: u16

record isr_params_t =
  reg_ds :: u32
  reg_edi :: u32
  reg_esi :: u32
  reg_ebp :: u32
  reg_esp :: u32
  reg_ebx :: u32
  reg_edx :: u32
  reg_ecx :: u32
  reg_eax :: u32
  int_num :: u32
  error_code :: u32
  reg_eip :: u32
  reg_cs :: u32
  reg_eflags :: u32
  user_esp :: u32
  user_ss :: u32

text \<open>
  A handler acts on the rest of the machine, \<open>'s\<close>; \<open>None\<close> is the null pointer. \<open>io\<close> is the sequence of bytes sent to
  ports, in order.
\<close>

type_synonym 's isr_t = "isr_params_t \<Rightarrow> 's \<Rightarrow> 's kres"

record 's interrupts_state =
  idt_entries :: "idt_entry_t list"
  idt_limit :: u16
  idt_base :: u32
  interrupt_handlers :: "'s isr_t option list"
  in_irq_context :: bool
  io :: "(u16 \<times> u8) list"
  sti_flag :: bool

section \<open>Operations\<close>

definition io_outb :: "u16 \<Rightarrow> u8 \<Rightarrow> 's interrupts_state \<Rightarrow> 's interrupts_state" where
  "io_outb port v s = s\<lparr>io := io s @ [(port, v)]\<rparr>"

definition idt_gate :: "u32 \<Rightarrow> u16 \<Rightarrow> u8 \<Rightarrow> idt_entry_t" where
  "idt_gate base sl attrs =
     \<lparr>idt_base_low = ucast (base AND 0xFFFF), sel = sl, always0 = 0, idt_flags = attrs, idt_base_high = ucast (drop_bit 16 base AND 0xFFFF)\<rparr>"

definition set_idt_gate :: "nat \<Rightarrow> u32 \<Rightarrow> u16 \<Rightarrow> u8 \<Rightarrow> 's interrupts_state \<Rightarrow> 's interrupts_state" where
  "set_idt_gate num base sl attrs s = s\<lparr>idt_entries := (idt_entries s)[num := idt_gate base sl attrs]\<rparr>"

definition init_pic :: "'s interrupts_state \<Rightarrow> 's interrupts_state" where
  "init_pic s =
     fold (\<lambda>(p, v). io_outb p v)
       [(0x20, 0x11), (0x21, 0x20), (0x21, 0x04), (0x21, 0x01),
        (0xA0, 0x11), (0xA1, 0x28), (0xA1, 0x02), (0xA1, 0x01), (0x21, 0x0), (0xA1, 0x0)] s"

definition zero_gate :: idt_entry_t where
  "zero_gate = \<lparr>idt_base_low = 0, sel = 0, always0 = 0, idt_flags = 0, idt_base_high = 0\<rparr>"

text \<open>\<open>isr n\<close> is the address of the entry point \<^verbatim>\<open>isrn\<close>; the 48 calls are written as one loop.\<close>

definition init_idt :: "(nat \<Rightarrow> u32) \<Rightarrow> u32 \<Rightarrow> u32 \<Rightarrow> 's interrupts_state \<Rightarrow> 's interrupts_state" where
  "init_idt isr syscall_entry a_idt s =
     (let s = s\<lparr>idt_limit := 8 * 256 - 1, idt_base := a_idt, idt_entries := replicate 256 zero_gate, interrupt_handlers := replicate 256 None\<rparr>;
          s = fold (\<lambda>n. set_idt_gate n (isr n) (ucast SELECTOR_K_CODE) IDT_GATE_ATTR_DPL0) [0..<48] s;
          s = set_idt_gate SYSCALL_INT_NUM syscall_entry (ucast SELECTOR_K_CODE) IDT_GATE_ATTR_DPL3 s
      in (init_pic s)\<lparr>sti_flag := True\<rparr>)"

definition register_interrupt_handler :: "nat \<Rightarrow> 's isr_t \<Rightarrow> 's interrupts_state \<Rightarrow> 's interrupts_state" where
  "register_interrupt_handler n handler s = s\<lparr>interrupt_handlers := (interrupt_handlers s)[n := Some handler]\<rparr>"

definition enable_interrupt :: "'s interrupts_state \<Rightarrow> 's interrupts_state" where "enable_interrupt s = s\<lparr>sti_flag := True\<rparr>"
definition disable_interrupt :: "'s interrupts_state \<Rightarrow> 's interrupts_state" where "disable_interrupt s = s\<lparr>sti_flag := False\<rparr>"
definition is_in_irq_context :: "'s interrupts_state \<Rightarrow> bool" where "is_in_irq_context s = in_irq_context s"

text \<open>The bytes that end a hardware interrupt, sent before its handler runs.\<close>

definition acknowledge :: "int \<Rightarrow> 's interrupts_state \<Rightarrow> 's interrupts_state" where
  "acknowledge n s =
     (if n \<ge> 32 \<and> n < int SYSCALL_INT_NUM
      then (io_outb 0x20 0x20 (if n \<ge> 40 then io_outb 0xA0 0x20 s else s))\<lparr>in_irq_context := True\<rparr>
      else s)"

definition isr_handler :: "isr_params_t \<Rightarrow> 's interrupts_state \<Rightarrow> 's \<Rightarrow> ('s interrupts_state \<times> 's) kres" where
  "isr_handler regs s m =
     (let n = sint (int_num regs); s = acknowledge n s
      in case interrupt_handlers s ! nat n of
           Some h \<Rightarrow> kbind (h regs m) (\<lambda>m. Inr (if in_irq_context s then s\<lparr>in_irq_context := False\<rparr> else s, m))
         | None \<Rightarrow> Inl (Panic ''unknown interrupt''))"

text \<open>\<^verbatim>\<open>isr_common_stub\<close>: the dispatcher, then the end of the time slice.\<close>

definition isr_common_stub :: "isr_params_t \<Rightarrow> 's interrupts_state \<Rightarrow> ('s \<Rightarrow> 's kres) \<Rightarrow> 's \<Rightarrow> ('s interrupts_state \<times> 's) kres" where
  "isr_common_stub regs s sched m = kbind (isr_handler regs s m) (\<lambda>(s, m). kbind (sched m) (\<lambda>m. Inr (s, m)))"

section \<open>The registered handlers\<close>

definition getTick :: "sched \<Rightarrow> u32" where "getTick s = tick s"

text \<open>Null when the division faults. \<open>h\<close> is \<^verbatim>\<open>timer_callback\<close>.\<close>

definition init_timer :: "'s isr_t \<Rightarrow> u32 \<Rightarrow> 's interrupts_state \<Rightarrow> 's interrupts_state option" where
  "init_timer h frequency s =
     (let s = register_interrupt_handler IRQ0_INT_NUM h s
      in if frequency = 0 then None
         else
           let divisor = 1193180 div frequency; s = io_outb 0x43 0x36 s;
               l = ucast (divisor AND 0xFF); h = ucast (drop_bit 8 divisor AND 0xFF);
               s = io_outb 0x40 l s
           in Some (io_outb 0x40 h s))"

definition protect_fault_handler :: "'s isr_t" where "protect_fault_handler regs m = Inl (Panic ''protect fault!!!!!'')"

definition init_protect_fault :: "'s interrupts_state \<Rightarrow> 's interrupts_state" where
  "init_protect_fault = register_interrupt_handler PROTECT_FAULT_NUM protect_fault_handler"

definition hd_interrupt_handler :: "'s isr_t" where "hd_interrupt_handler regs m = Inr m"

definition init_hard_disk_interrupt :: "'s interrupts_state \<Rightarrow> 's interrupts_state" where
  "init_hard_disk_interrupt = register_interrupt_handler 46 hd_interrupt_handler"

section \<open>What the processor reads\<close>

definition gate_offset :: "idt_entry_t \<Rightarrow> u32" where
  "gate_offset e = ucast (idt_base_low e) OR push_bit 16 (ucast (idt_base_high e))"

definition gate_present :: "idt_entry_t \<Rightarrow> bool" where "gate_present e \<longleftrightarrow> bit (idt_flags e) 7"
definition gate_dpl :: "idt_entry_t \<Rightarrow> u8" where "gate_dpl e = drop_bit 5 (idt_flags e) AND 3"

lemma gate_offset_idt: "gate_offset (idt_gate b sl a) = b"
proof (rule bit_word_eqI)
  fix n assume "n < LENGTH(32)"
  then show "bit (gate_offset (idt_gate b sl a)) n = bit b n"
    by (cases "n < 16") (auto simp: gate_offset_def idt_gate_def bit_simps and_low_masks)
qed

lemma set_gates:
  "\<lbrakk>n \<le> 256; idt_entries s = replicate 256 g\<rbrakk> \<Longrightarrow> idt_entries (fold (\<lambda>i. set_idt_gate i (f i) sl a) [0..<n] s) =
     map (\<lambda>i. if i < n then idt_gate (f i) sl a else g) [0..<256]"
proof (induction n)
  case 0
  then show ?case by (simp add: map_replicate_const del: upt_rec_numeral)
next
  case (Suc n)
  then show ?case by (auto simp: set_idt_gate_def list_eq_iff_nth_eq nth_list_update simp del: upt_rec_numeral)
qed


lemma init_pic_idt [simp]: "idt_entries (init_pic s) = idt_entries s" "interrupt_handlers (init_pic s) = interrupt_handlers s"
  by (simp_all add: init_pic_def io_outb_def)

lemma init_idt_gates:
  "idt_entries (init_idt isr se a s) =
     (map (\<lambda>i. if i < 48 then idt_gate (isr i) 8 0x8E else zero_gate) [0..<256])[128 := idt_gate se 8 0xEE]"
proof -
  let ?s = "s\<lparr>idt_limit := 8 * 256 - 1, idt_base := a, idt_entries := replicate 256 zero_gate, interrupt_handlers := replicate 256 None\<rparr>"
  have "idt_entries (fold (\<lambda>n. set_idt_gate n (isr n) 8 0x8E) [0..<48] ?s) =
      map (\<lambda>i. if i < 48 then idt_gate (isr i) 8 0x8E else zero_gate) [0..<256]"
    by (rule set_gates) simp_all
  then show ?thesis
    by (simp add: init_idt_def Let_def SYSCALL_INT_NUM_def IDT_GATE_ATTR_DPL0_def IDT_GATE_ATTR_DPL3_def SELECTOR_K_CODE_def
        set_idt_gate_def [of 128] del: upt_rec_numeral)
qed

text \<open>C35: The interrupt table that \<^verbatim>\<open>init_idt\<close> builds, as the processor reads it. Exceptions and hardware interrupts, vectors 0
  to 47, enter their own entry point in the kernel code segment and cannot be raised by an \<^verbatim>\<open>int\<close> instruction of a user
  program; the system call vector \<open>0x80\<close> enters \<^verbatim>\<open>syscall_entry\<close> and is the only one open to privilege level 3; no other
  vector is present.\<close>

theorem init_idt_opens_syscall_only:
  assumes "v < 256"
  shows "let g = idt_entries (init_idt isr syscall_entry a_idt s) ! v in
    (gate_present g \<longleftrightarrow> v < 48 \<or> v = 0x80) \<and> (gate_present g \<longrightarrow> sel g = ucast SELECTOR_K_CODE \<and>
      gate_offset g = (if v = 0x80 then syscall_entry else isr v) \<and> gate_dpl g = (if v = 0x80 then 3 else 0))"
proof -
  have "idt_entries (init_idt isr syscall_entry a_idt s) ! v =
      (if v = 0x80 then idt_gate syscall_entry 8 0xEE else if v < 48 then idt_gate (isr v) 8 0x8E else zero_gate)"
    using assms by (simp add: init_idt_gates nth_list_update del: upt_rec_numeral)
  moreover have "sel (idt_gate b 8 a) = 8" "idt_flags (idt_gate b 8 a) = a" "idt_flags zero_gate = 0" for b a
    by (simp_all add: idt_gate_def zero_gate_def)
  ultimately show ?thesis
    by (simp add: Let_def gate_offset_idt gate_present_def gate_dpl_def SELECTOR_K_CODE_def)
qed

definition demo_irq :: "nat interrupts_state" where
  "demo_irq = \<lparr>idt_entries = [], idt_limit = 0, idt_base = 0, interrupt_handlers = [], in_irq_context = False, io = [], sti_flag = False\<rparr>"

theorem init_idt_opens_syscall_only_witness:
  "let g = idt_entries (init_idt (\<lambda>n. of_nat (0x1000 + 16 * n)) 0x2000 0x3000 demo_irq) ! 128 in
     gate_present g \<and> gate_offset g = 0x2000 \<and> gate_dpl g = 3"
  using init_idt_opens_syscall_only [of 128 "\<lambda>n. of_nat (0x1000 + 16 * n)" "0x2000" "0x3000" demo_irq] by (simp add: Let_def)

text \<open>\<^verbatim>\<open>isr_handler\<close>. An interrupt with a registered handler runs exactly that handler on the saved registers. For a hardware
  interrupt the end-of-interrupt byte has gone to the master controller by then, and before that to the slave if the line is one of
  the slave's, vectors 40 to 47; an exception sends nothing. When the handler has returned, the kernel is no longer marked as being in
  an interrupt. Without a handler the kernel halts.\<close>

lemma isr_handler_dispatches:
  assumes "unat (int_num regs) = n" "n < 48" "length (interrupt_handlers s) = 256"
  shows "isr_handler regs s m =
    (case interrupt_handlers s ! n of
       None \<Rightarrow> Inl (Panic ''unknown interrupt'')
     | Some h \<Rightarrow> kbind (h regs m) (\<lambda>m'. Inr (s\<lparr>in_irq_context := False,
           io := io s @ (if n \<ge> 40 then [(0xA0, 0x20)] else []) @ (if n \<ge> 32 then [(0x20, 0x20)] else [])\<rparr>, m')))"
proof -
  have i: "sint (int_num regs) = int n"
  proof -
    have "uint (int_num regs) = int n" using assms(1) by (metis of_nat_unat)
    then show ?thesis using assms(2) by (simp add: sint_uint signed_take_bit_int_eq_self)
  qed
  have a: "acknowledge (int n) s = (if n \<ge> 32 then s\<lparr>in_irq_context := True,
      io := io s @ (if n \<ge> 40 then [(0xA0, 0x20)] else []) @ [(0x20, 0x20)]\<rparr> else s)"
    using assms(2) by (auto simp: acknowledge_def io_outb_def SYSCALL_INT_NUM_def)
  show ?thesis unfolding isr_handler_def i Let_def a
    using assms(2) by (auto split: option.splits simp: fun_eq_iff intro!: arg_cong [where f = "kbind _"])
qed


text \<open>
  The divisor fits the 16 bits of the timer channel for every frequency from 19 on; the two bytes sent are its halves. For the
  frequency 50 of the kernel they are \<open>0x37\<close> and \<open>0x5D\<close>.
\<close>

lemma init_timer_divisor:
  assumes "unat f \<ge> 19"
  shows "\<exists>s'. init_timer h f s = Some s' \<and> (\<exists>lo hi. io s' = io s @ [(0x43, 0x36), (0x40, lo), (0x40, hi)] \<and>
    unat lo + 256 * unat hi = 1193180 div unat f)"
proof -
  let ?d = "1193180 div f"
  have d: "unat ?d = 1193180 div unat f" by (simp add: unat_div)
  have f0: "f \<noteq> 0" using assms by auto
  have "1193180 div unat f \<le> 1193180 div 19" using assms by (intro div_le_mono2) simp_all
  then have small: "unat ?d < 65536" unfolding d by simp
  have byte: "unat (ucast (w AND 0xFF) :: u8) = unat w mod 256" for w :: u32
  proof -
    have "unat (ucast (w AND 0xFF) :: u8) = take_bit 8 (unat w)"
      unfolding and_low_masks by (simp add: unsigned_ucast_eq unsigned_take_bit_eq)
    then show ?thesis by (simp add: take_bit_eq_mod)
  qed
  have lo: "unat (ucast (?d AND 0xFF) :: u8) = unat ?d mod 256" by (rule byte)
  have "unat (drop_bit 8 ?d) = unat ?d div 256" by (simp add: drop_bit_eq_div unat_div)
  then have hi: "unat (ucast (drop_bit 8 ?d AND 0xFF) :: u8) = unat ?d div 256"
    unfolding byte using small by (simp add: less_mult_imp_div_less)
  have "unat ?d mod 256 + 256 * (unat ?d div 256) = unat ?d" using mod_mult_div_eq by blast
  then show ?thesis using f0 lo hi d
    by (simp add: init_timer_def Let_def io_outb_def register_interrupt_handler_def)
qed

end
