(* ===== verification/Format_Out.thy ===== *)
theory Format_Out
  imports Stdlib
begin

text \<open>
  Formatted output one character at a time. The kernel's screen driver (\<^verbatim>\<open>src/src/monitor/monitor.c\<close>) and the
  user library (\<^verbatim>\<open>src/user/src/user_sys/user_io.c\<close>) have the same routines and differ only in what they do
  with a character: \<open>emit c\<close> is that step, \<open>rd s a\<close> the byte at address \<open>a\<close> in state \<open>s\<close>.
\<close>

section \<open>Routines\<close>

text \<open>The loop that fills the array \<^verbatim>\<open>itoc\<close>: at most 30 digits, the lowest first.\<close>

fun itoc :: "(u32 \<Rightarrow> u8) \<Rightarrow> u32 \<Rightarrow> nat \<Rightarrow> u32 \<Rightarrow> u8 list" where
  "itoc ch b 0 num = []"
| "itoc ch b (Suc i) num = (if num = 0 then [] else ch (num mod b) # itoc ch b i (num div b))"

text \<open>The second loop, from the last digit down to the first.\<close>

definition emit_digits :: "(u8 \<Rightarrow> 's \<Rightarrow> 's) \<Rightarrow> u8 list \<Rightarrow> 's \<Rightarrow> 's" where
  "emit_digits emit ds s = fold (\<lambda>c s. if c \<noteq> 0 then emit c s else s) (rev ds) s"

definition dec_ch :: "u32 \<Rightarrow> u8" where "dec_ch r = ucast (r + 48)"
definition hex_ch :: "u32 \<Rightarrow> u8" where "hex_ch r = (if r < 10 then ucast (r + 48) else ucast (r - 10 + 97))"

definition write_udec :: "(u8 \<Rightarrow> 's \<Rightarrow> 's) \<Rightarrow> u32 \<Rightarrow> 's \<Rightarrow> 's" where
  "write_udec emit num s = (if num = 0 then emit 48 s else emit_digits emit (itoc dec_ch 10 30 num) s)"

definition write_dec :: "(u8 \<Rightarrow> 's \<Rightarrow> 's) \<Rightarrow> u32 \<Rightarrow> 's \<Rightarrow> 's" where
  "write_dec emit num s =
     (if num = 0 then emit 48 s
      else let (s, unum) = (if sint num < 0 then (emit 45 s, - num) else (s, num))
           in emit_digits emit (itoc dec_ch 10 30 unum) s)"

definition write_hex :: "(u8 \<Rightarrow> 's \<Rightarrow> 's) \<Rightarrow> u32 \<Rightarrow> 's \<Rightarrow> 's" where
  "write_hex emit num s = (if num = 0 then emit 48 s else emit_digits emit (itoc hex_ch 16 30 num) s)"

text \<open>\<open>None\<close>: the string has no end.\<close>

partial_function (option) write_str :: "('s \<Rightarrow> addr \<Rightarrow> u8) \<Rightarrow> (u8 \<Rightarrow> 's \<Rightarrow> 's) \<Rightarrow> addr \<Rightarrow> u32 \<Rightarrow> 's \<Rightarrow> 's option" where
  "write_str rd emit str i s =
     (if rd s (str + i) = 0 then Some s else write_str rd emit str (i + 1) (emit (rd s (str + i)) s))"

text \<open>One directive, \<open>fa\<close> the address of the character behind the percent sign; \<open>args\<close> are the argument words.\<close>

definition format_directive ::
  "('s \<Rightarrow> addr \<Rightarrow> u8) \<Rightarrow> (u8 \<Rightarrow> 's \<Rightarrow> 's) \<Rightarrow> (nat \<Rightarrow> u32) \<Rightarrow> nat \<Rightarrow> addr \<Rightarrow> 's \<Rightarrow> ('s \<times> nat) option" where
  "format_directive rd emit args a fa s =
     (let c = rd s fa
      in if c = 100 then Some (write_dec emit (args a) s, a + 1)
         else if c = 117 then Some (write_udec emit (args a) s, a + 1)
         else if c = 120 \<or> c = 88 then Some (write_hex emit (args a) s, a + 1)
         else if c = 115 then
           (if args a = NULL then Some (fold emit null_text s, a + 1)
            else map_option (\<lambda>s. (s, a + 1)) (write_str rd emit (args a) 0 s))
         else if c = 99 then Some (emit (ucast (args a)) s, a + 1)
         else if c = 37 then Some (emit 37 s, a)
         else let s = emit 37 s in Some (emit (rd s fa) s, a))"

partial_function (option) format_loop ::
  "('s \<Rightarrow> addr \<Rightarrow> u8) \<Rightarrow> (u8 \<Rightarrow> 's \<Rightarrow> 's) \<Rightarrow> (nat \<Rightarrow> u32) \<Rightarrow> addr \<Rightarrow> u32 \<Rightarrow> nat \<Rightarrow> 's \<Rightarrow> 's option" where
  "format_loop rd emit args format i a s =
     (if rd s (format + i) = 0 then Some s
      else if rd s (format + i) = 37 then
        (if rd s (format + (i + 1)) = 0 then Some s
         else case format_directive rd emit args a (format + (i + 1)) s of
                None \<Rightarrow> None
              | Some (s, a) \<Rightarrow> format_loop rd emit args format (i + 2) a s)
      else format_loop rd emit args format (i + 1) a (emit (rd s (format + i)) s))"

section \<open>The digits are those of the number\<close>

lemma itoc_digits:
  "\<lbrakk>unat num < b ^ n; 2 \<le> b; b < 256; num \<noteq> 0\<rbrakk> \<Longrightarrow> itoc ch (of_nat b) n num = rev (map (\<lambda>d. ch (of_nat d)) (digits b (unat num)))"
proof (induction n arbitrary: num)
  case (Suc n)
  have b: "unat (of_nat b :: u32) = b" using Suc.prems(3) by (intro unat_of_nat_small) simp
  have d: "unat (num div of_nat b) = unat num div b" "unat (num mod of_nat b) = unat num mod b" by (simp_all add: unat_div unat_mod b)
  have m: "num mod of_nat b = of_nat (unat num mod b)" using d(2) by (metis word_of_nat_eq_iff word_unat_eq_iff unsigned_of_nat of_nat_unat ucast_id)
  show ?case
  proof (cases "unat num < b")
    case True
    then have "num div of_nat b = 0" using d(1) by (simp add: unat_eq_zero [symmetric] del: unat_eq_zero)
    moreover have "itoc ch (of_nat b) n 0 = []" by (cases n) simp_all
    moreover have "digits b 0 = []" "0 < unat num" using Suc.prems(4) by (simp_all add: digits.simps [of b 0] unat_gt_0)
    ultimately show ?thesis using True Suc.prems m by (simp add: digits.simps [of b "unat num"])
  next
    case False
    then have "num div of_nat b \<noteq> 0" using d(1) Suc.prems(2) by (metis div_greater_zero_iff not_less not_gr_zero unat_0 zero_less_numeral less_le_trans)
    moreover have "unat num div b < b ^ n" using Suc.prems(1) by (simp add: less_mult_imp_div_less mult.commute)
    ultimately show ?thesis using Suc.IH [of "num div of_nat b"] Suc.prems False d(1) m
      by (simp add: digits.simps [of b "unat num"])
  qed
qed (simp add: unat_eq_zero)

section \<open>What the routines print\<close>

text \<open>The meaning of a format string: as for \<^verbatim>\<open>sprintf\<close>, but hexadecimal numbers have no prefix.\<close>

definition hex_plain :: "nat \<Rightarrow> u8 list" where
  "hex_plain n = (if n = 0 then [48] else map hex_digit (digits 16 n))"

fun text_of :: "(nat \<Rightarrow> u32) \<Rightarrow> (nat \<Rightarrow> u8 list) \<Rightarrow> nat \<Rightarrow> u8 list \<Rightarrow> u8 list" where
  "text_of args strs a [] = []"
| "text_of args strs a [c] = (if c = 37 then [] else [c])"
| "text_of args strs a (c # d # cs) =
     (if c \<noteq> 37 then c # text_of args strs a (d # cs)
      else if d = 100 then int_text (args a) @ text_of args strs (a + 1) cs
      else if d = 117 then dec_text (unat (args a)) @ text_of args strs (a + 1) cs
      else if d = 120 \<or> d = 88 then hex_plain (unat (args a)) @ text_of args strs (a + 1) cs
      else if d = 115 then (if args a = NULL then null_text else strs a) @ text_of args strs (a + 1) cs
      else if d = 99 then ucast (args a) # text_of args strs (a + 1) cs
      else if d = 37 then 37 # text_of args strs a cs
      else 37 # d # text_of args strs a cs)"

lemma emit_digits_fold: "0 \<notin> set ds \<Longrightarrow> emit_digits emit (rev ds) s = fold emit ds s"
proof -
  assume "0 \<notin> set ds"
  then have "fold (\<lambda>c s. if c \<noteq> 0 then emit c s else s) ds s = fold emit ds s"
    by (induction ds arbitrary: s) auto
  then show ?thesis by (simp add: emit_digits_def)
qed

lemma ch_all:
  "\<forall>d\<in>set [0..<10]. dec_ch (of_nat d) = dec_char d \<and> dec_char d \<noteq> 0"
  "\<forall>d\<in>set [0..<16]. hex_ch (of_nat d) = hex_digit d \<and> hex_digit d \<noteq> 0"
  by code_simp+

lemma dec_ch_eq: "d < 10 \<Longrightarrow> dec_ch (of_nat d) = dec_char d \<and> dec_char d \<noteq> 0"
  using bspec [OF ch_all(1), of d] by (simp only: set_upt atLeastLessThan_iff le0 simp_thms)

lemma hex_ch_eq: "d < 16 \<Longrightarrow> hex_ch (of_nat d) = hex_digit d \<and> hex_digit d \<noteq> 0"
  using bspec [OF ch_all(2), of d] by (simp only: set_upt atLeastLessThan_iff le0 simp_thms)

lemma write_udec_fold: "write_udec emit num s = fold emit (dec_text (unat num)) s"
proof (cases "num = 0")
  case False
  have d: "d < 10" if "d \<in> set (digits 10 (unat num))" for d using digits_less [OF _ that] by simp
  have "unat num < 10 ^ 30" using unat_u32_less [of num] by simp
  from itoc_digits [OF this _ _ False, of dec_ch] have "itoc dec_ch 10 30 num = rev (map (\<lambda>d. dec_ch (of_nat d)) (digits 10 (unat num)))" by simp
  also have "\<dots> = rev (map dec_char (digits 10 (unat num)))" using d dec_ch_eq by simp
  finally show ?thesis using False d dec_ch_eq
    by (subst write_udec_def) (auto simp: dec_text_def unat_eq_zero intro!: emit_digits_fold)
qed (simp add: write_udec_def dec_text_def)

lemma write_dec_fold: "write_dec emit num s = fold emit (int_text num) s"
  using write_udec_fold [of emit num s] write_udec_fold [of emit "- num" "emit 45 s"]
  by (auto simp: write_dec_def write_udec_def int_text_def split: if_splits)

lemma write_hex_fold: "write_hex emit num s = fold emit (hex_plain (unat num)) s"
proof (cases "num = 0")
  case False
  have d: "d < 16" if "d \<in> set (digits 16 (unat num))" for d using digits_less [OF _ that] by simp
  have "unat num < 16 ^ 30" using unat_u32_less [of num] by simp
  from itoc_digits [OF this _ _ False, of hex_ch] have "itoc hex_ch 16 30 num = rev (map (\<lambda>d. hex_ch (of_nat d)) (digits 16 (unat num)))" by simp
  also have "\<dots> = rev (map hex_digit (digits 16 (unat num)))" using d hex_ch_eq by simp
  finally show ?thesis using False d hex_ch_eq
    by (subst write_hex_def) (auto simp: hex_plain_def unat_eq_zero intro!: emit_digits_fold)
qed (simp add: write_hex_def hex_plain_def)

text \<open>The format and the string arguments stand in \<open>F\<close>.\<close>

definition readable ::
  "addr set \<Rightarrow> byte_mem \<Rightarrow> (nat \<Rightarrow> u32) \<Rightarrow> (nat \<Rightarrow> u8 list) \<Rightarrow> addr \<Rightarrow> u32 \<Rightarrow> nat \<Rightarrow> u8 list \<Rightarrow> bool" where
  "readable F m args strs format i a fmt \<longleftrightarrow>
     cstr m (format + i) fmt \<and> region (format + i) (Suc (length fmt)) \<subseteq> F \<and>
     (\<forall>k\<in>set (string_args a fmt). args k \<noteq> NULL \<longrightarrow>
        cstr m (args k) (strs k) \<and> region (args k) (Suc (length (strs k))) \<subseteq> F)"

text \<open>
  The interface of a device that takes characters: \<open>fits n s\<close> says that \<open>n\<close> more characters can be taken, and
  taking them leaves the bytes in \<open>F\<close> readable as they were.
\<close>

locale text_sink =
  fixes rd :: "'s \<Rightarrow> addr \<Rightarrow> u8" and emit :: "u8 \<Rightarrow> 's \<Rightarrow> 's" and F :: "addr set" and fits :: "nat \<Rightarrow> 's \<Rightarrow> bool"
  assumes emit_rd: "\<lbrakk>fits (Suc n) s; x \<in> F\<rbrakk> \<Longrightarrow> rd (emit c s) x = rd s x"
    and emit_fits: "fits (Suc n) s \<Longrightarrow> fits n (emit c s)"
begin

lemma emits:
  assumes "fits (length cs + n) s"
  shows "fits n (fold emit cs s) \<and> (\<forall>x\<in>F. rd (fold emit cs s) x = rd s x)"
  using assms
proof (induction cs arbitrary: s)
  case (Cons c cs)
  then show ?case using Cons.IH [of "emit c s"] emit_rd emit_fits by auto
qed simp

lemma write_str_fold:
  assumes "cstr (rd s) (str + i) bs" "region (str + i) (Suc (length bs)) \<subseteq> F" "fits (length bs + n) s"
  shows "write_str rd emit str i s = Some (fold emit bs s)"
  using assms
proof (induction bs arbitrary: i s)
  case Nil
  then show ?case by (subst write_str.simps) simp
next
  case (Cons b bs)
  have r: "rd (emit b s) x = rd s x" if "x \<in> F" for x using emit_rd that Cons.prems(3) by simp
  have F: "region (str + (i + 1)) (Suc (length bs)) \<subseteq> F" "str + i \<in> F"
    using Cons.prems(2) region_Suc [of "str + i"] by (auto simp: add.assoc)
  have "cstr (rd (emit b s)) (str + (i + 1)) bs"
    using Cons.prems(1) F(1) r by (subst cstr_cong [where m = "rd s"]) (auto simp: add.assoc)
  then show ?case using Cons.IH F Cons.prems(1,3) emit_fits by (subst write_str.simps) simp
qed

lemma readable_step:
  assumes r: "readable F (rd s) args strs format i a (pre @ fmt)" and F: "\<And>x. x \<in> F \<Longrightarrow> rd s' x = rd s x"
    and sub: "set (string_args a' fmt) \<subseteq> set (string_args a (pre @ fmt))"
  shows "readable F (rd s') args strs format (i + of_nat (length pre)) a' fmt"
proof -
  note r = r [unfolded readable_def]
  have reg: "region (format + (i + of_nat (length pre))) (Suc (length fmt)) \<subseteq> F"
    using r region_append [of "format + i" "length pre" "Suc (length fmt)"] by (auto simp: ac_simps)
  have "cstr (rd s) (format + (i + of_nat (length pre))) fmt"
    using r cstr_append [of "rd s" "format + i" pre fmt] by (simp add: ac_simps)
  then have "cstr (rd s') (format + (i + of_nat (length pre))) fmt"
    using reg F by (subst cstr_cong [where m = "rd s"]) auto
  moreover have "cstr (rd s') (args k) (strs k)" if "cstr (rd s) (args k) (strs k)" "region (args k) (Suc (length (strs k))) \<subseteq> F" for k
    using that F by (subst cstr_cong [where m = "rd s"]) auto
  ultimately show ?thesis using r reg sub unfolding readable_def by blast
qed

lemma format_loop_fold:
  assumes "readable F (rd s) args strs format i a fmt" "fits (length (text_of args strs a fmt) + n) s"
  shows "format_loop rd emit args format i a s = Some (fold emit (text_of args strs a fmt) s)"
  using assms
proof (induction args strs a fmt arbitrary: i s rule: text_of.induct)
  case (1 args strs a)
  then show ?case by (subst format_loop.simps) (simp add: readable_def)
next
  case (2 args strs a c)
  then have c: "rd s (format + i) = c" "c \<noteq> 0" "rd s (format + (i + 1)) = 0" "format + (i + 1) \<in> F"
    using region_Suc [of "format + i" "Suc 0"] by (auto simp: readable_def add.assoc region_Suc)
  show ?case
  proof (cases "c = 37")
    case False
    then have "rd (emit c s) (format + (i + 1)) = 0" using c(3,4) emit_rd 2 by simp
    then have "format_loop rd emit args format (i + 1) a (emit c s) = Some (emit c s)" by (subst format_loop.simps) simp
    then show ?thesis using c False by (subst format_loop.simps) simp
  qed (use c in \<open>subst format_loop.simps, simp\<close>)
next
  case (3 args strs a c d cs)
  have c: "rd s (format + i) = c" "c \<noteq> 0" "rd s (format + (i + 1)) = d" "d \<noteq> 0" "format + (i + 1) \<in> F"
    using 3(9) region_Suc [of "format + i" "Suc (Suc (length cs))"] region_Suc [of "format + i + 1" "Suc (length cs)"]
    by (auto simp: readable_def add.assoc)
  show ?case
  proof (cases "c = 37")
    case False
    have e: "rd (emit c s) x = rd s x" if "x \<in> F" for x using emit_rd that 3(10) False by simp
    have "readable F (rd (emit c s)) args strs format (i + 1) a (d # cs)"
      using readable_step [of s args strs format i a "[c]" "d # cs" "emit c s" a] 3(9) e False by simp
    then show ?thesis using 3(1) [OF False] 3(10) emit_fits c False by (subst format_loop.simps) simp
  next
    case True
    have go: ?thesis
      if dir: "format_directive rd emit args a (format + (i + 1)) s = Some (fold emit tx s, a')"
        and tx: "text_of args strs a (c # d # cs) = tx @ text_of args strs a' cs"
        and sub: "set (string_args a' cs) \<subseteq> set (string_args a (c # d # cs))"
        and IH: "\<And>i s. \<lbrakk>readable F (rd s) args strs format i a' cs; fits (length (text_of args strs a' cs) + n) s\<rbrakk> \<Longrightarrow>
          format_loop rd emit args format i a' s = Some (fold emit (text_of args strs a' cs) s)" for tx a'
    proof -
      have "fits (length tx + (length (text_of args strs a' cs) + n)) s" using 3(10) unfolding tx by (simp add: add.assoc)
      from emits [OF this] have e: "fits (length (text_of args strs a' cs) + n) (fold emit tx s)"
        "\<And>x. x \<in> F \<Longrightarrow> rd (fold emit tx s) x = rd s x" by auto
      have "readable F (rd (fold emit tx s)) args strs format (i + 2) a' cs"
        using readable_step [of s args strs format i a "[c, d]" cs "fold emit tx s" a'] 3(9) e(2) sub by simp
      from IH [OF this e(1)] show ?thesis using dir c True unfolding tx by (subst format_loop.simps) simp
    qed
    consider "d = 100" | "d = 117" | "d = 120 \<or> d = 88" | "d = 115" | "d = 99" | "d = 37" | "d \<notin> {100, 117, 120, 88, 115, 99, 37}" by blast
    then show ?thesis
    proof cases
      case 1
      then show ?thesis using go [of "int_text (args a)" "a + 1"] 3(2) True c by (simp add: format_directive_def Let_def write_dec_fold)
    next
      case 2
      then show ?thesis using go [of "dec_text (unat (args a))" "a + 1"] 3(3) True c by (simp add: format_directive_def Let_def write_udec_fold)
    next
      case 3
      then show ?thesis using go [of "hex_plain (unat (args a))" "a + 1"] "3.IH"(4) True c by (auto simp: format_directive_def Let_def write_hex_fold)
    next
      case 4
      show ?thesis
      proof (cases "args a = NULL")
        case True
        then show ?thesis using go [of null_text "a + 1"] "3.IH"(5) \<open>c = 37\<close> 4 c by (auto simp: format_directive_def Let_def)
      next
        case False
        have "a \<in> set (string_args a (c # d # cs))" using \<open>c = 37\<close> 4 by simp
        then have "cstr (rd s) (args a) (strs a)" "region (args a) (Suc (length (strs a))) \<subseteq> F"
          using "3.prems"(1) False unfolding readable_def by blast+
        moreover have "fits (length (strs a) + (length (text_of args strs (a + 1) cs) + n)) s"
          using "3.prems"(2) False \<open>c = 37\<close> 4 by (simp add: add.assoc)
        ultimately have "write_str rd emit (args a) 0 s = Some (fold emit (strs a) s)" using write_str_fold by simp
        then show ?thesis using go [of "strs a" "a + 1"] "3.IH"(5) \<open>c = 37\<close> 4 c False by (auto simp: format_directive_def Let_def)
      qed
    next
      case 5
      then show ?thesis using go [of "[ucast (args a)]" "a + 1"] "3.IH"(6) True c by (simp add: format_directive_def Let_def)
    next
      case 6
      show ?thesis
        by (rule go [of "[37]" a, OF _ _ _ "3.IH"(7)]) (use True 6 c in \<open>simp_all add: format_directive_def Let_def\<close>)
    next
      case 7
      have "rd (emit 37 s) (format + (i + 1)) = d" using emit_rd "3.prems"(2) True 7 c by simp
      then show ?thesis
        by (intro go [of "[37, d]" a, OF _ _ _ "3.IH"(8)]) (use True 7 c in \<open>simp_all add: format_directive_def Let_def\<close>)
    qed
  qed
qed

end

end
