(* ===== verification/Monitor.thy ===== *)
theory Monitor
  imports Format_Out Sync
begin

text \<open>
  The text screen, \<^verbatim>\<open>src/src/monitor/monitor.c\<close>, and the messages of a halted kernel,
  \<^verbatim>\<open>src/src/common/secure.c\<close>: 25 lines of 80 cells of video memory, a cursor and the two registers of the
  video controller that hold its position.
\<close>

section \<open>State and operations\<close>

definition VGA_WIDTH :: int where "VGA_WIDTH = 80"
definition VGA_HEIGHT :: int where "VGA_HEIGHT = 25"

text \<open>\<open>(COLOR_BLACK << 4) | (COLOR_WHITE & 0x0F)\<close>\<close>

definition defult_color :: u16 where "defult_color = push_bit 4 0 OR (7 AND 0x0F)"

text \<open>
  \<open>video_memory\<close> is indexed by cells; \<open>ports\<close> records the values sent to the ports, the latest first.
  \<open>k_mem\<close> is the memory that strings are read from.
\<close>

record monitor =
  video_memory :: "int \<Rightarrow> u16"
  cursor_x :: u16
  cursor_y :: u16
  ports :: "(u16 \<times> u8) list"
  monitor_lock :: yieldlock_t
  k_mem :: byte_mem

definition outb :: "u16 \<Rightarrow> u8 \<Rightarrow> monitor \<Rightarrow> monitor" where
  "outb port v s = s\<lparr>ports := (port, v) # ports s\<rparr>"

definition monitor_init :: "monitor \<Rightarrow> monitor" where
  "monitor_init s = s\<lparr>monitor_lock := yieldlock_init (monitor_lock s)\<rparr>"

definition get_cursor_offset :: "monitor \<Rightarrow> u16" where
  "get_cursor_offset s = of_int (sint (cursor_y s) * VGA_WIDTH + sint (cursor_x s))"

definition mov_cursor :: "monitor \<Rightarrow> monitor" where
  "mov_cursor s =
     (let pos = of_int (sint (cursor_y s) * VGA_WIDTH + sint (cursor_x s)) :: u16;
          s = outb 0x3D4 14 s; s = outb 0x3D5 (ucast (drop_bit 8 pos)) s;
          s = outb 0x3D4 15 s
      in outb 0x3D5 (ucast pos) s)"

text \<open>\<^verbatim>\<open>(defult_color << 8) | c\<close> with the signed character \<^verbatim>\<open>c\<close>.\<close>

definition cell :: "u8 \<Rightarrow> u16" where
  "cell c = push_bit 8 defult_color OR scast c"

definition blank :: u16 where "blank = push_bit 8 defult_color OR 32"

definition scroll_screen :: "monitor \<Rightarrow> monitor" where
  "scroll_screen s =
     (if sint (cursor_y s) < VGA_HEIGHT then s
      else
        let v = fold (\<lambda>i v. v(i := v (i + VGA_WIDTH))) (map int [0..<nat ((VGA_HEIGHT - 1) * VGA_WIDTH)]) (video_memory s);
            v = fold (\<lambda>i v. v(i := blank)) (map int [nat ((VGA_HEIGHT - 1) * VGA_WIDTH)..<nat (VGA_HEIGHT * VGA_WIDTH)]) v
        in mov_cursor (s\<lparr>video_memory := v, cursor_y := of_int (VGA_HEIGHT - 1), cursor_x := 0\<rparr>))"

definition monitor_print_char :: "u8 \<Rightarrow> monitor \<Rightarrow> monitor" where
  "monitor_print_char c s =
     (let s =
        (if c = 0x08 \<and> sint (cursor_x s) > 0 then s\<lparr>cursor_x := cursor_x s - 1\<rparr>
         else if c = 0x09 then s\<lparr>cursor_x := (cursor_x s + 8) AND NOT (8 - 1)\<rparr>
         else if c = 10 then s\<lparr>cursor_x := 0, cursor_y := cursor_y s + 1\<rparr>
         else if c = 13 then s\<lparr>cursor_x := 0\<rparr>
         else
           let offset = sint (get_cursor_offset s)
           in s\<lparr>video_memory := (video_memory s)(offset := cell c), cursor_x := cursor_x s + 1\<rparr>);
        s = (if sint (cursor_x s) \<ge> VGA_WIDTH then s\<lparr>cursor_x := 0, cursor_y := cursor_y s + 1\<rparr> else s)
      in mov_cursor (scroll_screen s))"

definition monitor_clear_nolock :: "monitor \<Rightarrow> monitor" where
  "monitor_clear_nolock s =
     mov_cursor (s\<lparr>video_memory := fold (\<lambda>i v. v(i := blank)) (map int [0..<nat (VGA_WIDTH * VGA_HEIGHT)]) (video_memory s),
       cursor_x := 0, cursor_y := 0\<rparr>)"

text \<open>\<open>None\<close>: the lock is held by another thread, or a string has no end.\<close>

definition with_monitor_lock :: "(monitor \<Rightarrow> monitor option) \<Rightarrow> monitor \<Rightarrow> monitor option" where
  "with_monitor_lock body s =
     (let (ok, l) = yieldlock_trylock (monitor_lock s)
      in if ok then
           map_option (\<lambda>s. s\<lparr>monitor_lock := yieldlock_unlock (monitor_lock s)\<rparr>) (body (s\<lparr>monitor_lock := l\<rparr>))
         else None)"

definition monitor_clear :: "monitor \<Rightarrow> monitor option" where
  "monitor_clear = with_monitor_lock (\<lambda>s. Some (monitor_clear_nolock s))"

definition monitor_write_str :: "addr \<Rightarrow> monitor \<Rightarrow> monitor option" where
  "monitor_write_str str = write_str k_mem monitor_print_char str 0"

definition monitor_print :: "addr \<Rightarrow> monitor \<Rightarrow> monitor option" where
  "monitor_print str = with_monitor_lock (monitor_write_str str)"

definition monitor_print_panic :: "addr \<Rightarrow> monitor \<Rightarrow> monitor option" where
  "monitor_print_panic str = monitor_write_str str"

definition monitor_write_dec :: "u32 \<Rightarrow> monitor \<Rightarrow> monitor" where
  "monitor_write_dec = write_dec monitor_print_char"

definition monitor_write_udec :: "u32 \<Rightarrow> monitor \<Rightarrow> monitor" where
  "monitor_write_udec = write_udec monitor_print_char"

definition monitor_write_hex :: "u32 \<Rightarrow> monitor \<Rightarrow> monitor" where
  "monitor_write_hex = write_hex monitor_print_char"

definition monitor_printf_args_nolock :: "addr \<Rightarrow> (nat \<Rightarrow> u32) \<Rightarrow> monitor \<Rightarrow> monitor option" where
  "monitor_printf_args_nolock format args = format_loop k_mem monitor_print_char args format 0 0"

definition monitor_printf_args :: "addr \<Rightarrow> (nat \<Rightarrow> u32) \<Rightarrow> monitor \<Rightarrow> monitor option" where
  "monitor_printf_args format args = with_monitor_lock (monitor_printf_args_nolock format args)"

definition monitor_printf :: "addr \<Rightarrow> (nat \<Rightarrow> u32) \<Rightarrow> monitor \<Rightarrow> monitor option" where
  "monitor_printf format args = monitor_printf_args format args"

definition monitor_printf_panic :: "addr \<Rightarrow> (nat \<Rightarrow> u32) \<Rightarrow> monitor \<Rightarrow> monitor option" where
  "monitor_printf_panic format args = monitor_printf_args_nolock format args"

text \<open>
  What \<^verbatim>\<open>Panic\<close> and \<^verbatim>\<open>panic_spin\<close> print before they halt: no lock is taken. The addresses are those of the
  string literals of the code.
\<close>

definition panic_output :: "addr \<Rightarrow> addr \<Rightarrow> addr \<Rightarrow> (nat \<Rightarrow> u32) \<Rightarrow> monitor \<Rightarrow> monitor option" where
  "panic_output kernel_panic system_halted message args s =
     Option.bind (monitor_print_panic kernel_panic s) (\<lambda>s.
     Option.bind (monitor_printf_args_nolock message args s) (monitor_print_panic system_halted))"

definition panic_spin_output :: "addr list \<Rightarrow> u32 list \<Rightarrow> monitor \<Rightarrow> monitor option" where
  "panic_spin_output formats words s =
     fold (\<lambda>(f, w) r. Option.bind r (monitor_printf_panic f (\<lambda>_. w))) (zip formats words) (Some s)"

section \<open>The screen\<close>

text \<open>The cursor is in one of the 25 times 80 cells.\<close>

definition on_screen :: "monitor \<Rightarrow> bool" where
  "on_screen s \<longleftrightarrow> unat (cursor_x s) < 80 \<and> unat (cursor_y s) < 25"

definition screen_cells :: "int set" where "screen_cells = {0..<2000}"

text \<open>\<open>s'\<close> differs from \<open>s\<close> only on the screen, and its memory of strings and its lock are those of \<open>s\<close>.\<close>

definition screen_frame :: "monitor \<Rightarrow> monitor \<Rightarrow> bool" where
  "screen_frame s s' \<longleftrightarrow>
     (\<forall>i. i \<notin> screen_cells \<longrightarrow> video_memory s' i = video_memory s i) \<and> k_mem s' = k_mem s \<and> monitor_lock s' = monitor_lock s"

lemma sint_of_int_u16: "\<lbrakk>- 32768 \<le> n; n < 32768\<rbrakk> \<Longrightarrow> sint (of_int n :: u16) = n"
  using int_word_sint [where ?'a = 16, of n] by simp

lemma sint_u16_small: "unat (w :: u16) < 32768 \<Longrightarrow> sint w = int (unat w)"
proof -
  assume "unat w < 32768"
  then have "sint (of_int (int (unat w)) :: u16) = int (unat w)" by (intro sint_of_int_u16) linarith+
  moreover have "of_int (int (unat w)) = w" by simp
  ultimately show ?thesis by (simp only:)
qed

lemma unat_succ16: "unat (w :: u16) < 65535 \<Longrightarrow> unat (w + 1) = unat w + 1"
  by (simp add: unat_word_ariths)

lemma unat_add16: "unat (w :: u16) < 60000 \<Longrightarrow> unat (w + 8) = unat w + 8"
  by (simp add: unat_word_ariths)

lemma mov_cursor_simps [simp]:
  "video_memory (mov_cursor s) = video_memory s" "cursor_x (mov_cursor s) = cursor_x s" "cursor_y (mov_cursor s) = cursor_y s"
  "k_mem (mov_cursor s) = k_mem s" "monitor_lock (mov_cursor s) = monitor_lock s"
  by (simp_all add: mov_cursor_def outb_def Let_def)

lemma screen_frame_refl [simp]: "screen_frame s s"
  by (simp add: screen_frame_def)

lemma screen_frame_trans: "\<lbrakk>screen_frame s s'; screen_frame s' s''\<rbrakk> \<Longrightarrow> screen_frame s s''"
  by (simp add: screen_frame_def)

lemma fold_upd_other: "i \<notin> set is \<Longrightarrow> fold (\<lambda>j v. v(j := f j v)) is v i = v i"
  by (induction "is" arbitrary: v) auto

lemma scroll_cells: "nat ((VGA_HEIGHT - 1) * VGA_WIDTH) = 1920" "nat (VGA_HEIGHT * VGA_WIDTH) = 2000" "nat (VGA_WIDTH * VGA_HEIGHT) = 2000"
  by (simp_all add: VGA_HEIGHT_def VGA_WIDTH_def)

text \<open>The end of \<open>monitor_print_char\<close>, from the test for the right edge on.\<close>

definition line_end :: "monitor \<Rightarrow> monitor" where
  "line_end s =
     (let s = (if sint (cursor_x s) \<ge> VGA_WIDTH then s\<lparr>cursor_x := 0, cursor_y := cursor_y s + 1\<rparr> else s)
      in mov_cursor (scroll_screen s))"

lemma scroll_frame: "screen_frame s (scroll_screen s)"
proof -
  have "fold (\<lambda>i v. v(i := blank)) (map int [1920..<2000]) v j = v j" if "j \<notin> screen_cells" for j and v :: "int \<Rightarrow> u16"
    using that by (intro fold_upd_other) (auto simp: screen_cells_def)
  moreover have "fold (\<lambda>i v. v(i := v (i + VGA_WIDTH))) (map int [0..<1920]) v j = v j" if "j \<notin> screen_cells" for j and v :: "int \<Rightarrow> u16"
    using that by (intro fold_upd_other) (auto simp: screen_cells_def)
  ultimately show ?thesis
    by (simp add: scroll_screen_def screen_frame_def scroll_cells Let_def del: upt_rec_numeral)
qed

lemma line_end_ok:
  assumes "unat (cursor_x s) < 88" "unat (cursor_y s) \<le> 25" "unat (cursor_y s) < 25 \<or> unat (cursor_x s) < 80"
  shows "on_screen (line_end s) \<and> screen_frame s (line_end s)"
proof -
  define s1 where "s1 = (if sint (cursor_x s) \<ge> VGA_WIDTH then s\<lparr>cursor_x := 0, cursor_y := cursor_y s + 1\<rparr> else s)"
  have sx: "sint (cursor_x s) = int (unat (cursor_x s))" using assms(1) by (simp add: sint_u16_small)
  have 1: "unat (cursor_x s1) < 80" "unat (cursor_y s1) \<le> 25" "screen_frame s s1"
    using assms unat_succ16 [of "cursor_y s"] sx by (auto simp: s1_def VGA_WIDTH_def screen_frame_def simp del: of_nat_unat)
  have sy: "sint (cursor_y s1) = int (unat (cursor_y s1))" using 1(2) by (simp add: sint_u16_small)
  have "on_screen (mov_cursor (scroll_screen s1))"
    using 1(1,2) sy by (auto simp: on_screen_def scroll_screen_def VGA_HEIGHT_def Let_def simp del: of_nat_unat)
  moreover have "screen_frame s1 (mov_cursor (scroll_screen s1))"
    using scroll_frame [of s1] by (simp add: screen_frame_def)
  ultimately show ?thesis using screen_frame_trans [OF 1(3)] by (simp add: line_end_def s1_def [symmetric] Let_def)
qed

text \<open>The first part of \<open>monitor_print_char\<close>.\<close>

definition char_step :: "u8 \<Rightarrow> monitor \<Rightarrow> monitor" where
  "char_step c s =
    (if c = 0x08 \<and> sint (cursor_x s) > 0 then s\<lparr>cursor_x := cursor_x s - 1\<rparr>
     else if c = 0x09 then s\<lparr>cursor_x := (cursor_x s + 8) AND NOT (8 - 1)\<rparr>
     else if c = 10 then s\<lparr>cursor_x := 0, cursor_y := cursor_y s + 1\<rparr>
     else if c = 13 then s\<lparr>cursor_x := 0\<rparr>
     else
       let offset = sint (get_cursor_offset s)
       in s\<lparr>video_memory := (video_memory s)(offset := cell c), cursor_x := cursor_x s + 1\<rparr>)"

lemma print_char_split: "monitor_print_char c s = line_end (char_step c s)"
  by (simp only: monitor_print_char_def line_end_def char_step_def Let_def)

lemma cursor_cell:
  assumes "on_screen s"
  shows "sint (cursor_x s) = int (unat (cursor_x s))"
    "sint (get_cursor_offset s) = int (unat (cursor_y s)) * 80 + int (unat (cursor_x s))"
    "int (unat (cursor_y s)) * 80 + int (unat (cursor_x s)) \<in> screen_cells"
proof -
  have xy: "unat (cursor_x s) < 80" "unat (cursor_y s) < 25" using assms by (auto simp: on_screen_def)
  have sx: "sint (cursor_x s) = int (unat (cursor_x s))" "sint (cursor_y s) = int (unat (cursor_y s))"
    using xy by (simp_all add: sint_u16_small)
  show "sint (cursor_x s) = int (unat (cursor_x s))" by (fact sx)
  show "sint (get_cursor_offset s) = int (unat (cursor_y s)) * 80 + int (unat (cursor_x s))"
    unfolding get_cursor_offset_def sx VGA_WIDTH_def by (rule sint_of_int_u16) (use xy in linarith)+
  show "int (unat (cursor_y s)) * 80 + int (unat (cursor_x s)) \<in> screen_cells"
    unfolding screen_cells_def atLeastLessThan_iff using xy by linarith
qed

lemma tab_stops: "\<forall>n\<in>set [0..<80]. unat ((of_nat n + 8 :: u16) AND NOT 7) = (n div 8 + 1) * 8"
  by code_simp

lemma tab_stop: "unat (w :: u16) < 80 \<Longrightarrow> unat ((w + 8) AND NOT 7) = (unat w div 8 + 1) * 8"
  using bspec [OF tab_stops, of "unat w"] by (simp del: upt_rec_numeral)

lemma char_step_ok:
  assumes "on_screen s"
  shows "unat (cursor_x (char_step c s)) < 88" "unat (cursor_y (char_step c s)) \<le> 25"
    "unat (cursor_y (char_step c s)) < 25 \<or> unat (cursor_x (char_step c s)) < 80" "screen_frame s (char_step c s)"
proof -
  have xy: "unat (cursor_x s) < 80" "unat (cursor_y s) < 25" using assms by (auto simp: on_screen_def)
  have dec: "unat (cursor_x s - 1) < 80" if "0 < unat (cursor_x s)"
    using that xy(1) by (simp add: unat_minus_one unat_gt_0)
  note f = cursor_cell [OF assms] dec unat_succ16 [of "cursor_y s"] unat_succ16 [of "cursor_x s"] tab_stop [OF xy(1)]
  show "unat (cursor_x (char_step c s)) < 88" "unat (cursor_y (char_step c s)) \<le> 25"
    "unat (cursor_y (char_step c s)) < 25 \<or> unat (cursor_x (char_step c s)) < 80" "screen_frame s (char_step c s)"
    using xy f by (auto simp: char_step_def screen_frame_def Let_def simp del: of_nat_unat)
qed

lemma monitor_print_char_ok:
  assumes "on_screen s"
  shows "on_screen (monitor_print_char c s) \<and> screen_frame s (monitor_print_char c s)"
  using line_end_ok [OF char_step_ok(1-3) [OF assms]] screen_frame_trans [OF char_step_ok(4) [OF assms]]
  by (auto simp: print_char_split)

section \<open>Printing\<close>

lemma print_chars_ok:
  "on_screen s \<Longrightarrow> on_screen (fold monitor_print_char cs s) \<and> screen_frame s (fold monitor_print_char cs s)"
proof (induction cs arbitrary: s)
  case (Cons c cs)
  then show ?case using monitor_print_char_ok [OF Cons.prems, of c] screen_frame_trans by fastforce
qed simp

interpretation mon: text_sink k_mem monitor_print_char UNIV "\<lambda>_. on_screen"
  by unfold_locales (use monitor_print_char_ok in \<open>auto simp: screen_frame_def\<close>)

section \<open>A terminal\<close>

text \<open>
  What the screen promises: lines of cells and a position. A character goes to the position, the position moves on,
  and when it leaves the last line the first line disappears and an empty one is added.
\<close>

type_synonym terminal = "u16 list list \<times> nat \<times> nat"

fun term_step :: "u8 \<Rightarrow> terminal \<Rightarrow> terminal" where
  "term_step c (rows, x, y) =
     (if c = 8 \<and> x > 0 then (rows, x - 1, y)
      else if c = 9 then (rows, (x div 8 + 1) * 8, y)
      else if c = 10 then (rows, 0, y + 1)
      else if c = 13 then (rows, 0, y)
      else (rows[y := (rows ! y)[x := cell c]], x + 1, y))"

fun term_end :: "terminal \<Rightarrow> terminal" where
  "term_end (rows, x, y) =
     (let (x, y) = (if x \<ge> 80 then (0, y + 1) else (x, y))
      in if y \<ge> 25 then (tl rows @ [replicate 80 blank], 0, 24) else (rows, x, y))"

definition term_putc :: "u8 \<Rightarrow> terminal \<Rightarrow> terminal" where
  "term_putc c t = term_end (term_step c t)"

definition screen_row :: "(int \<Rightarrow> u16) \<Rightarrow> nat \<Rightarrow> u16 list" where
  "screen_row v r = map (\<lambda>c. v (int (80 * r + c))) [0..<80]"

definition screen_of :: "monitor \<Rightarrow> terminal" where
  "screen_of s = (map (screen_row (video_memory s)) [0..<25], unat (cursor_x s), unat (cursor_y s))"

lemma scroll_fold: "fold (\<lambda>i v. v(i := v (i + VGA_WIDTH))) (map int [0..<n]) v j = (if 0 \<le> j \<and> j < int n then v (j + 80) else v j)"
  by (induction n arbitrary: j) (auto simp: VGA_WIDTH_def)

lemma blank_fold: "fold (\<lambda>i v. v(i := b)) (map int [k..<n]) v j = (if int k \<le> j \<and> j < int n then b else v j)"
  by (induction n) (auto simp: fold_upd_other)

lemma scroll_rows:
  assumes "\<not> sint (cursor_y s) < VGA_HEIGHT"
  shows "map (screen_row (video_memory (scroll_screen s))) [0..<25] = tl (map (screen_row (video_memory s)) [0..<25]) @ [replicate 80 blank]"
proof -
  let ?v = "video_memory (scroll_screen s)"
  have v: "?v j = (if 1920 \<le> j \<and> j < 2000 then blank else if 0 \<le> j \<and> j < 1920 then video_memory s (j + 80) else video_memory s j)" for j
    using assms by (simp add: scroll_screen_def Let_def scroll_cells scroll_fold blank_fold del: upt_rec_numeral)
  have "screen_row ?v r = screen_row (video_memory s) (Suc r)" if "r < 24" for r
    using that by (simp add: screen_row_def v algebra_simps del: upt_rec_numeral)
  moreover have "screen_row ?v 24 = replicate 80 blank"
    by (rule nth_equalityI) (simp_all add: screen_row_def v del: upt_rec_numeral)
  moreover have u: "[0..<25] = [0..<24] @ [24]" "[0..<25] = 0 # map Suc [0..<24]" by code_simp+
  have "tl (map (screen_row (video_memory s)) [0..<25]) = map (\<lambda>r. screen_row (video_memory s) (Suc r)) [0..<24]"
    unfolding u(2) by (simp add: comp_def del: upt_rec_numeral)
  moreover have "map (screen_row ?v) [0..<25] = map (screen_row ?v) [0..<24] @ [screen_row ?v 24]"
    unfolding u(1) by (simp del: upt_rec_numeral)
  ultimately show ?thesis by (simp cong: map_cong del: upt_rec_numeral)
qed

lemma line_end_terminal:
  assumes "unat (cursor_x s) < 88" "unat (cursor_y s) \<le> 25" "unat (cursor_y s) < 25 \<or> unat (cursor_x s) < 80"
  shows "screen_of (line_end s) = term_end (screen_of s)"
proof -
  define s1 where "s1 = (if sint (cursor_x s) \<ge> VGA_WIDTH then s\<lparr>cursor_x := 0, cursor_y := cursor_y s + 1\<rparr> else s)"
  have sx: "sint (cursor_x s) = int (unat (cursor_x s))" using assms(1) by (simp add: sint_u16_small)
  have 1: "unat (cursor_y s1) \<le> 25" "video_memory s1 = video_memory s"
    "(unat (cursor_x s1), unat (cursor_y s1)) =
       (if unat (cursor_x s) \<ge> 80 then (0, unat (cursor_y s) + 1) else (unat (cursor_x s), unat (cursor_y s)))"
    using assms unat_succ16 [of "cursor_y s"] sx by (auto simp: s1_def VGA_WIDTH_def simp del: of_nat_unat)
  have sy: "sint (cursor_y s1) = int (unat (cursor_y s1))" using 1(1) by (simp add: sint_u16_small)
  have l: "line_end s = mov_cursor (scroll_screen s1)" by (simp add: line_end_def s1_def Let_def)
  show ?thesis
  proof (cases "unat (cursor_y s1) = 25")
    case True
    then have n: "\<not> sint (cursor_y s1) < VGA_HEIGHT" using sy by (simp add: VGA_HEIGHT_def del: of_nat_unat)
    then have "unat (cursor_x (scroll_screen s1)) = 0" "unat (cursor_y (scroll_screen s1)) = 24"
      by (simp_all add: scroll_screen_def Let_def VGA_HEIGHT_def)
    then show ?thesis using scroll_rows [OF n] 1 True unfolding l
      by (auto simp: screen_of_def simp del: upt_rec_numeral of_nat_unat split: if_splits)
  next
    case False
    then have "scroll_screen s1 = s1" using 1(1) sy by (simp add: scroll_screen_def VGA_HEIGHT_def del: of_nat_unat)
    then show ?thesis using 1 False unfolding l
      by (auto simp: screen_of_def simp del: upt_rec_numeral of_nat_unat split: if_splits)
  qed
qed

lemma row_update:
  assumes "r < 25" "x < 80" "y < 25"
  shows "screen_row (v(int y * 80 + int x := c)) r = (if r = y then (screen_row v r)[x := c] else screen_row v r)"
proof (rule nth_equalityI)
  fix i assume "i < length (screen_row (v(int y * 80 + int x := c)) r)"
  then have i: "i < 80" by (simp add: screen_row_def)
  have "(80 * n + k) div 80 = n" "(80 * n + k) mod 80 = k" if "k < 80" for n k :: nat using that by simp_all
  then have "80 * r + i = 80 * y + x \<longleftrightarrow> r = y \<and> i = x" using i assms(2) by metis
  then have "int (80 * r + i) = int y * 80 + int x \<longleftrightarrow> r = y \<and> i = x" by linarith
  then show "screen_row (v(int y * 80 + int x := c)) r ! i = (if r = y then (screen_row v r)[x := c] else screen_row v r) ! i"
    using i by (auto simp: screen_row_def nth_list_update simp del: upt_rec_numeral of_nat_add of_nat_mult)
qed (simp add: screen_row_def)

lemma print_char_terminal:
  assumes "on_screen s"
  shows "screen_of (monitor_print_char c s) = term_putc c (screen_of s)"
proof -
  have xy: "unat (cursor_x s) < 80" "unat (cursor_y s) < 25" using assms by (auto simp: on_screen_def)
  note cc = cursor_cell [OF assms]
  have upd: "map (screen_row ((video_memory s)(int (unat (cursor_y s)) * 80 + int (unat (cursor_x s)) := cell c))) [0..<25] =
      (map (screen_row (video_memory s)) [0..<25])
        [unat (cursor_y s) := (map (screen_row (video_memory s)) [0..<25] ! unat (cursor_y s))[unat (cursor_x s) := cell c]]"
    by (rule nth_equalityI)
       (use row_update [OF _ xy] xy in \<open>simp_all add: nth_list_update del: upt_rec_numeral of_nat_unat\<close>)
  have dec: "unat (cursor_x s - 1) = unat (cursor_x s) - 1" if "0 < unat (cursor_x s)"
    using that by (simp add: unat_minus_one unat_gt_0)
  note f = cc dec unat_succ16 [of "cursor_y s"] unat_succ16 [of "cursor_x s"] tab_stop [OF xy(1)]
  have "screen_of (char_step c s) = term_step c (screen_of s)"
    using xy f upd by (auto simp: char_step_def screen_of_def Let_def simp del: of_nat_unat upt_rec_numeral)
  then show ?thesis using line_end_terminal [OF char_step_ok(1-3) [OF assms]] by (simp add: print_char_split term_putc_def)
qed

lemma print_chars_terminal: "on_screen s \<Longrightarrow> screen_of (fold monitor_print_char cs s) = fold term_putc cs (screen_of s)"
proof (induction cs arbitrary: s)
  case (Cons c cs)
  then show ?case using monitor_print_char_ok [OF Cons.prems, of c] print_char_terminal [OF Cons.prems, of c] by simp
qed simp

lemma with_free_lock:
  assumes "hold (monitor_lock s) = LOCKED_NO" "body (s\<lparr>monitor_lock := (monitor_lock s)\<lparr>hold := LOCKED_YES\<rparr>\<rparr>) = Some t"
    and "monitor_lock t = (monitor_lock s)\<lparr>hold := LOCKED_YES\<rparr>"
  shows "with_monitor_lock body s = Some (t\<lparr>monitor_lock := monitor_lock s\<rparr>)"
proof -
  have "(monitor_lock s)\<lparr>hold := 0\<rparr> = monitor_lock s" using assms(1) by (simp add: LOCKED_NO_def)
  then show ?thesis using assms by (simp add: with_monitor_lock_def yieldlock_defs)
qed

section \<open>Properties\<close>

text \<open>C33: the cursor never leaves the screen. Printing any characters from a state with the cursor in one of the 25
lines of 80 cells leaves it in one of them, and changes no video memory outside these 2000 cells; clearing the screen
puts the cursor there from any state.\<close>

theorem cursor_stays_on_screen:
  "(on_screen s \<longrightarrow> on_screen (fold monitor_print_char cs s) \<and>
      (\<forall>i. i < 0 \<or> 2000 \<le> i \<longrightarrow> video_memory (fold monitor_print_char cs s) i = video_memory s i)) \<and>
   on_screen (monitor_clear_nolock s)"
  using print_chars_ok [of s cs]
  by (auto simp: screen_frame_def screen_cells_def monitor_clear_nolock_def on_screen_def [of "mov_cursor _"])

text \<open>C32: the kernel's \<^verbatim>\<open>printf\<close> works as a terminal. With the screen lock free and the cursor on the screen, a call
with a format string and the string arguments it names ends; the screen is then what a terminal of 25 lines of 80 cells
shows after the characters of the formatted text, line ends, tabs, backspaces and scrolling included, and the lock is
free again.\<close>

theorem monitor_printf_is_terminal:
  assumes "on_screen s" "hold (monitor_lock s) = LOCKED_NO" "readable UNIV (k_mem s) args strs format 0 0 fmt"
  shows "\<exists>s'. monitor_printf format args s = Some s' \<and>
    screen_of s' = fold term_putc (text_of args strs 0 fmt) (screen_of s) \<and> on_screen s' \<and> monitor_lock s' = monitor_lock s"
proof -
  let ?s = "s\<lparr>monitor_lock := (monitor_lock s)\<lparr>hold := LOCKED_YES\<rparr>\<rparr>" and ?cs = "text_of args strs 0 fmt"
  let ?t = "fold monitor_print_char ?cs ?s"
  have on: "on_screen ?s" using assms(1) by (simp add: on_screen_def)
  have "monitor_printf_args_nolock format args ?s = Some ?t"
    using mon.format_loop_fold [of ?s args strs format 0 0 fmt] assms(3) on by (simp add: monitor_printf_args_nolock_def)
  moreover have "on_screen ?t \<and> screen_frame ?s ?t" using print_chars_ok [OF on] .
  ultimately have "monitor_printf format args s = Some (?t\<lparr>monitor_lock := monitor_lock s\<rparr>)"
    unfolding monitor_printf_def monitor_printf_args_def
    by (intro with_free_lock [OF assms(2)]) (simp_all add: screen_frame_def)
  moreover have "screen_of (?t\<lparr>monitor_lock := monitor_lock s\<rparr>) = fold term_putc ?cs (screen_of s)"
    using print_chars_terminal [OF on, of ?cs] by (simp add: screen_of_def)
  ultimately show ?thesis using \<open>on_screen ?t \<and> screen_frame ?s ?t\<close> by (simp add: on_screen_def)
qed

text \<open>A blank screen, and the format \<^verbatim>\<open>n=%d\<close> in memory.\<close>

definition demo_monitor :: monitor where
  "demo_monitor = \<lparr>video_memory = (\<lambda>_. 0), cursor_x = 79, cursor_y = 24, ports = [], monitor_lock = \<lparr>hold = 0\<rparr>,
     k_mem = (\<lambda>_. 0)(0x100 := 110, 0x101 := 61, 0x102 := 37, 0x103 := 100)\<rparr>"

lemma demo_on_screen: "on_screen demo_monitor"
  by (simp add: on_screen_def demo_monitor_def)

theorem cursor_stays_on_screen_witness:
  "on_screen demo_monitor \<and> on_screen (fold monitor_print_char [65, 10, 9] demo_monitor)"
  using cursor_stays_on_screen [of demo_monitor "[65, 10, 9]"] demo_on_screen by blast

theorem monitor_printf_is_terminal_witness:
  "\<exists>s'. monitor_printf 0x100 (\<lambda>_. 5) demo_monitor = Some s' \<and> screen_of s' = fold term_putc [110, 61, 53] (screen_of demo_monitor)"
proof -
  have "readable UNIV (k_mem demo_monitor) (\<lambda>_. 5) (\<lambda>_. []) 0x100 0 0 [110, 61, 37, 100]"
    by (simp add: readable_def demo_monitor_def)
  moreover have "text_of (\<lambda>_. 5) (\<lambda>_. []) 0 [110, 61, 37, 100] = [110, 61, 53]"
    by (simp add: int_text_def dec_text_def digits.simps [of 10 5] digits.simps [of 10 0] dec_char_def)
  ultimately show ?thesis
    using monitor_printf_is_terminal [OF demo_on_screen, of "\<lambda>_. 5" "\<lambda>_. []" "0x100" "[110, 61, 37, 100]"]
    by (auto simp: demo_monitor_def LOCKED_NO_def)
qed

end
