(* ===== verification/Video.thy ===== *)
theory Video
  imports Monitor
begin

unbundle bit_operations_syntax

text \<open>
  The graphics driver, \<^verbatim>\<open>src/src/driver/video.c\<close>. The driver talks to the display controller; what it says is kept as a trace of
  events, and what the controller answers, to a port read or to a read of its memory window, is a function of the trace so far, an
  argument of the definitions.
\<close>

section \<open>State\<close>

definition VGA_MISC_WRITE :: u16 where "VGA_MISC_WRITE = 0x3C2"
definition VGA_SEQ_INDEX :: u16 where "VGA_SEQ_INDEX = 0x3C4"
definition VGA_SEQ_DATA :: u16 where "VGA_SEQ_DATA = 0x3C5"
definition VGA_CRTC_INDEX :: u16 where "VGA_CRTC_INDEX = 0x3D4"
definition VGA_CRTC_DATA :: u16 where "VGA_CRTC_DATA = 0x3D5"
definition VGA_GC_INDEX :: u16 where "VGA_GC_INDEX = 0x3CE"
definition VGA_GC_DATA :: u16 where "VGA_GC_DATA = 0x3CF"
definition VGA_AC_INDEX :: u16 where "VGA_AC_INDEX = 0x3C0"
definition VGA_INSTAT :: u16 where "VGA_INSTAT = 0x3DA"
definition VGA_DAC_WRITE :: u16 where "VGA_DAC_WRITE = 0x3C8"
definition VGA_DAC_DATA :: u16 where "VGA_DAC_DATA = 0x3C9"
definition VGA_FONT_BYTES :: nat where "VGA_FONT_BYTES = 256 * 32"
definition VIDEO_MODE_TEXT :: u32 where "VIDEO_MODE_TEXT = 3"
definition VIDEO_MODE_13H :: u32 where "VIDEO_MODE_13H = 0x13"
definition VIDEO_WIDTH_13H :: nat where "VIDEO_WIDTH_13H = 320"
definition VIDEO_HEIGHT_13H :: nat where "VIDEO_HEIGHT_13H = 200"

lemmas vga_ports = VGA_MISC_WRITE_def VGA_SEQ_INDEX_def VGA_SEQ_DATA_def VGA_CRTC_INDEX_def VGA_CRTC_DATA_def VGA_GC_INDEX_def
  VGA_GC_DATA_def VGA_AC_INDEX_def VGA_INSTAT_def VGA_DAC_WRITE_def VGA_DAC_DATA_def

text \<open>A byte sent to a port, a port read, and bytes stored from an offset of the window at \<^verbatim>\<open>VGA_MEMORY_13H\<close> on.\<close>

datatype vga_event = Out u16 u8 | In u16 | Store nat "u8 list"

record video =
  trace :: "vga_event list"
  current_mode :: u32
  saved_text_font :: "u8 list"
  text_font_saved :: bool
  v_monitor :: monitor

definition mode_13h_regs :: "u8 list" where
  "mode_13h_regs =
    [0x63,
     0x03, 0x01, 0x0F, 0x00, 0x0E,
     0x5F, 0x4F, 0x50, 0x82, 0x54, 0x80, 0xBF, 0x1F,
     0x00, 0x41, 0x00, 0x00, 0x00, 0x00, 0x00, 0x00,
     0x9C, 0x0E, 0x8F, 0x28, 0x40, 0x96, 0xB9, 0xA3, 0xFF,
     0x00, 0x00, 0x00, 0x00, 0x00, 0x40, 0x05, 0x0F, 0xFF,
     0x00, 0x01, 0x02, 0x03, 0x04, 0x05, 0x06, 0x07,
     0x08, 0x09, 0x0A, 0x0B, 0x0C, 0x0D, 0x0E, 0x0F,
     0x41, 0x00, 0x0F, 0x00, 0x00]"

definition mode_text_regs :: "u8 list" where
  "mode_text_regs =
    [0x67,
     0x03, 0x00, 0x03, 0x00, 0x02,
     0x5F, 0x4F, 0x50, 0x82, 0x55, 0x81, 0xBF, 0x1F,
     0x00, 0x4F, 0x0D, 0x0E, 0x00, 0x00, 0x00, 0x00,
     0x9C, 0x0E, 0x8F, 0x28, 0x1F, 0x96, 0xB9, 0xA3, 0xFF,
     0x00, 0x00, 0x00, 0x00, 0x00, 0x10, 0x0E, 0x00, 0xFF,
     0x00, 0x01, 0x02, 0x03, 0x04, 0x05, 0x14, 0x07,
     0x38, 0x39, 0x3A, 0x3B, 0x3C, 0x3D, 0x3E, 0x3F,
     0x0C, 0x00, 0x0F, 0x08, 0x00]"

definition text_palette :: "u8 list list" where
  "text_palette =
    [[0x00, 0x00, 0x00], [0x00, 0x00, 0x2A], [0x00, 0x2A, 0x00], [0x00, 0x2A, 0x2A],
     [0x2A, 0x00, 0x00], [0x2A, 0x00, 0x2A], [0x2A, 0x15, 0x00], [0x2A, 0x2A, 0x2A],
     [0x15, 0x15, 0x15], [0x15, 0x15, 0x3F], [0x15, 0x3F, 0x15], [0x15, 0x3F, 0x3F],
     [0x3F, 0x15, 0x15], [0x3F, 0x15, 0x3F], [0x3F, 0x3F, 0x15], [0x3F, 0x3F, 0x3F]]"

section \<open>Operations\<close>

definition say :: "vga_event list \<Rightarrow> video \<Rightarrow> video" where
  "say es s = s\<lparr>trace := trace s @ es\<rparr>"

definition select_font_plane :: "video \<Rightarrow> video" where
  "select_font_plane =
     say [Out VGA_SEQ_INDEX 0x02, Out VGA_SEQ_DATA 0x04, Out VGA_SEQ_INDEX 0x04, Out VGA_SEQ_DATA 0x06,
          Out VGA_GC_INDEX 0x04, Out VGA_GC_DATA 0x02, Out VGA_GC_INDEX 0x05, Out VGA_GC_DATA 0x00,
          Out VGA_GC_INDEX 0x06, Out VGA_GC_DATA 0x04]"

definition save_text_font :: "(vga_event list \<Rightarrow> nat \<Rightarrow> u8) \<Rightarrow> video \<Rightarrow> video" where
  "save_text_font window s =
     (if text_font_saved s then s
      else
        let s = select_font_plane s
        in s\<lparr>saved_text_font := map (window (trace s)) [0..<VGA_FONT_BYTES], text_font_saved := True\<rparr>)"

definition restore_text_font :: "video \<Rightarrow> video" where
  "restore_text_font s =
     (if \<not> text_font_saved s then s else say [Store 0 (saved_text_font s)] (select_font_plane s))"

definition palette_events :: "u8 \<Rightarrow> u8 \<Rightarrow> u8 \<Rightarrow> u8 \<Rightarrow> vga_event list" where
  "palette_events i r g b = [Out VGA_DAC_WRITE i, Out VGA_DAC_DATA r, Out VGA_DAC_DATA g, Out VGA_DAC_DATA b]"

definition restore_text_palette :: "video \<Rightarrow> video" where
  "restore_text_palette s =
     fold (\<lambda>i. say (palette_events (of_nat i) (text_palette ! i ! 0) (text_palette ! i ! 1) (text_palette ! i ! 2))) [0..<16] s"

text \<open>The loop that writes \<open>n\<close> registers through an index port and a data port.\<close>

definition write_indexed :: "u16 \<Rightarrow> u16 \<Rightarrow> (nat \<Rightarrow> u8) \<Rightarrow> nat \<Rightarrow> video \<Rightarrow> video" where
  "write_indexed ix dat f n = fold (\<lambda>i. say [Out ix (of_nat i), Out dat (f i)]) [0..<n]"

text \<open>The unlocked value of a CRTC register.\<close>

definition crtc_value :: "u8 list \<Rightarrow> nat \<Rightarrow> u8" where
  "crtc_value regs i =
     (let value = regs ! i
      in if i = 0x03 then value OR 0x80 else if i = 0x11 then value AND NOT 0x80 else value)"

definition write_registers :: "(vga_event list \<Rightarrow> u16 \<Rightarrow> u8) \<Rightarrow> u8 list \<Rightarrow> video \<Rightarrow> video" where
  "write_registers port regs s =
     (let s = say [Out VGA_MISC_WRITE (regs ! 0)] s;
          regs = drop 1 regs; s = write_indexed VGA_SEQ_INDEX VGA_SEQ_DATA (\<lambda>i. regs ! i) 5 s;
          regs = drop 5 regs;
          s = say [Out VGA_CRTC_INDEX 0x03] s;
          v = port (trace s) VGA_CRTC_DATA; s = say [In VGA_CRTC_DATA, Out VGA_CRTC_DATA (v OR 0x80), Out VGA_CRTC_INDEX 0x11] s;
          v = port (trace s) VGA_CRTC_DATA; s = say [In VGA_CRTC_DATA, Out VGA_CRTC_DATA (v AND NOT 0x80)] s;
          s = write_indexed VGA_CRTC_INDEX VGA_CRTC_DATA (crtc_value regs) 25 s;
          regs = drop 25 regs; s = write_indexed VGA_GC_INDEX VGA_GC_DATA (\<lambda>i. regs ! i) 9 s;
          regs = drop 9 regs;
          s = fold (\<lambda>i. say [In VGA_INSTAT, Out VGA_AC_INDEX (of_nat i), Out VGA_AC_INDEX (regs ! i)]) [0..<21] s
      in say [In VGA_INSTAT, Out VGA_AC_INDEX 0x20] s)"

text \<open>\<open>None\<close>: the lock of the monitor is held.\<close>

definition video_set_mode ::
  "(vga_event list \<Rightarrow> u16 \<Rightarrow> u8) \<Rightarrow> (vga_event list \<Rightarrow> nat \<Rightarrow> u8) \<Rightarrow> u32 \<Rightarrow> video \<Rightarrow> video kres option" where
  "video_set_mode port window mode s =
     (if mode = VIDEO_MODE_13H then
        let s = (if current_mode s = VIDEO_MODE_TEXT then save_text_font window s else s);
            s = write_registers port mode_13h_regs s;
            s = say [Store 0 (replicate (VIDEO_WIDTH_13H * VIDEO_HEIGHT_13H) 0)] s
        in Some (Inr (s\<lparr>current_mode := mode\<rparr>))
      else if mode = VIDEO_MODE_TEXT then
        let s = write_registers port mode_text_regs s;
            s = restore_text_font s;
            s = write_registers port mode_text_regs s;
            s = restore_text_palette s;
            s = s\<lparr>current_mode := mode\<rparr>
        in case monitor_clear (v_monitor s) of None \<Rightarrow> None | Some m \<Rightarrow> Some (Inr (s\<lparr>v_monitor := m\<rparr>))
      else Some (Inl (Panic ''unsupported video mode %u'')))"

definition video_set_palette :: "u32 \<Rightarrow> u32 \<Rightarrow> u32 \<Rightarrow> u32 \<Rightarrow> video \<Rightarrow> video" where
  "video_set_palette index r g b s =
     (if index \<ge> 256 then s
      else say (palette_events (ucast index) (ucast (r AND 0x3F)) (ucast (g AND 0x3F)) (ucast (b AND 0x3F))) s)"

text \<open>\<open>mem\<close> is the memory the buffer is read from.\<close>

definition video_blit :: "(addr \<Rightarrow> u8) \<Rightarrow> addr \<Rightarrow> u32 \<Rightarrow> u32 \<Rightarrow> video \<Rightarrow> int \<times> video" where
  "video_blit mem buffer width height s =
     (if current_mode s \<noteq> VIDEO_MODE_13H then (- 1, s)
      else if buffer = NULL \<or> width \<noteq> of_nat VIDEO_WIDTH_13H \<or> height \<noteq> of_nat VIDEO_HEIGHT_13H then (- 1, s)
      else (0, say [Store 0 (map (\<lambda>i. mem (buffer + of_nat i)) [0..<VIDEO_WIDTH_13H * VIDEO_HEIGHT_13H])] s))"

section \<open>The registers of the controller\<close>

text \<open>
  What a trace means to the display controller: four register files behind index and data ports, the attribute controller, whose
  single port takes an index and a value by turns and is reset by reading the status port, and the palette. While bit 7 of CRTC
  register \<open>0x11\<close> is set, registers 0 to 7 ignore writes.
\<close>

record vga =
  misc_reg :: u8
  seq_ix :: u8
  seq_reg :: "u8 \<Rightarrow> u8"
  crtc_ix :: u8
  crtc_reg :: "u8 \<Rightarrow> u8"
  gc_ix :: u8
  gc_reg :: "u8 \<Rightarrow> u8"
  ac_takes_value :: bool
  ac_ix :: u8
  ac_reg :: "u8 \<Rightarrow> u8"
  dac_pos :: nat
  dac :: "nat \<Rightarrow> u8"

fun vga_step :: "vga_event \<Rightarrow> vga \<Rightarrow> vga" where
  "vga_step (In p) d = (if p = 0x3DA then d\<lparr>ac_takes_value := False\<rparr> else d)"
| "vga_step (Store _ _) d = d"
| "vga_step (Out p v) d =
     (if p = 0x3C2 then d\<lparr>misc_reg := v\<rparr>
      else if p = 0x3C4 then d\<lparr>seq_ix := v\<rparr> else if p = 0x3C5 then d\<lparr>seq_reg := (seq_reg d)(seq_ix d := v)\<rparr>
      else if p = 0x3D4 then d\<lparr>crtc_ix := v\<rparr>
      else if p = 0x3D5 then
        (if crtc_ix d < 8 \<and> bit (crtc_reg d 0x11) 7 then d else d\<lparr>crtc_reg := (crtc_reg d)(crtc_ix d := v)\<rparr>)
      else if p = 0x3CE then d\<lparr>gc_ix := v\<rparr> else if p = 0x3CF then d\<lparr>gc_reg := (gc_reg d)(gc_ix d := v)\<rparr>
      else if p = 0x3C0 then
        (if ac_takes_value d then d\<lparr>ac_reg := (ac_reg d)(ac_ix d AND 0x1F := v), ac_takes_value := False\<rparr>
         else d\<lparr>ac_ix := v, ac_takes_value := True\<rparr>)
      else if p = 0x3C8 then d\<lparr>dac_pos := 3 * unat v\<rparr>
      else if p = 0x3C9 then d\<lparr>dac := (dac d)(dac_pos d := v), dac_pos := dac_pos d + 1\<rparr> else d)"

abbreviation vga_run :: "vga_event list \<Rightarrow> vga \<Rightarrow> vga" where "vga_run \<equiv> fold vga_step"

lemma trace_say [simp]: "trace (say es s) = trace s @ es"
  by (simp add: say_def)


abbreviation pairs :: "u16 \<Rightarrow> u16 \<Rightarrow> (nat \<Rightarrow> u8) \<Rightarrow> nat \<Rightarrow> vga_event list" where
  "pairs ix dat f n \<equiv> concat (map (\<lambda>i. [Out ix (of_nat i), Out dat (f i)]) [0..<n])"

lemma fold_say: "trace (fold (\<lambda>i. say (g i)) xs s) = trace s @ concat (map g xs)"
  by (induction xs arbitrary: s) simp_all

lemma trace_write_indexed [simp]: "trace (write_indexed ix dat f n s) = trace s @ pairs ix dat f n"
  by (simp add: write_indexed_def fold_say)

text \<open>The registers below \<open>n\<close> hold the values of \<open>f\<close>.\<close>

definition reg_upto :: "nat \<Rightarrow> (nat \<Rightarrow> u8) \<Rightarrow> (u8 \<Rightarrow> u8) \<Rightarrow> u8 \<Rightarrow> u8" where
  "reg_upto n f r j = (if unat j < n then f (unat j) else r j)"

lemma upto_0 [simp]: "reg_upto 0 f r = r"
  by (simp add: reg_upto_def fun_eq_iff)

lemma unat_u8: "n < 256 \<Longrightarrow> unat (of_nat n :: u8) = n"
  by (simp add: of_nat_inverse)

lemma upto_step [simp]: "n < 256 \<Longrightarrow> (reg_upto n f r)(of_nat n := f n) = reg_upto (Suc n) f r"
proof (rule ext)
  fix j :: u8 assume n: "n < 256"
  show "((reg_upto n f r)(of_nat n := f n)) j = reg_upto (Suc n) f r j"
  proof (cases "j = of_nat n")
    case True
    then show ?thesis using unat_u8 [OF n] by (simp add: reg_upto_def)
  next
    case False
    moreover have "of_nat (unat j) = j" by simp
    ultimately have "unat j \<noteq> n" by metis
    then show ?thesis using False by (simp add: reg_upto_def)
  qed
qed

lemma upto_nth: "\<lbrakk>i < n; n \<le> 256\<rbrakk> \<Longrightarrow> reg_upto n f r (of_nat i) = f i"
  using unat_u8 [of i] by (simp add: reg_upto_def)

lemma seq_loop:
  "n \<le> 256 \<Longrightarrow> vga_run (pairs VGA_SEQ_INDEX VGA_SEQ_DATA f n) d =
     d\<lparr>seq_ix := (if n = 0 then seq_ix d else of_nat (n - 1)), seq_reg := reg_upto n f (seq_reg d)\<rparr>"
  by (induction n) (simp_all add: vga_ports)

lemma gc_loop:
  "n \<le> 256 \<Longrightarrow> vga_run (pairs VGA_GC_INDEX VGA_GC_DATA f n) d =
     d\<lparr>gc_ix := (if n = 0 then gc_ix d else of_nat (n - 1)), gc_reg := reg_upto n f (gc_reg d)\<rparr>"
  by (induction n) (simp_all add: vga_ports)

lemma crtc_loop:
  assumes "\<not> bit (crtc_reg d 0x11) 7" "\<not> bit (f 0x11) 7"
  shows "n \<le> 256 \<Longrightarrow> vga_run (pairs VGA_CRTC_INDEX VGA_CRTC_DATA f n) d =
     d\<lparr>crtc_ix := (if n = 0 then crtc_ix d else of_nat (n - 1)), crtc_reg := reg_upto n f (crtc_reg d)\<rparr>"
proof (induction n)
  case (Suc n)
  have "\<not> bit (reg_upto n f (crtc_reg d) 0x11) 7" using assms by (simp add: reg_upto_def)
  then show ?case using Suc by (simp add: vga_ports)
qed simp

lemma ac_loop:
  "n \<le> 32 \<Longrightarrow> vga_run (concat (map (\<lambda>i. [In VGA_INSTAT, Out VGA_AC_INDEX (of_nat i), Out VGA_AC_INDEX (f i)]) [0..<n])) d =
     d\<lparr>ac_ix := (if n = 0 then ac_ix d else of_nat (n - 1)), ac_takes_value := (if n = 0 then ac_takes_value d else False),
       ac_reg := reg_upto n f (ac_reg d)\<rparr>"
proof (induction n)
  case (Suc n)
  have "(of_nat n :: u8) AND 0x1F = of_nat n"
  proof -
    have "take_bit 5 (of_nat n :: u8) = of_nat n" using Suc.prems
      by (intro unsigned_word_eqI [where ?'a = nat]) (simp add: unsigned_take_bit_eq take_bit_nat_eq_self unat_u8)
    then show ?thesis by (simp add: take_bit_eq_mask mask_eq_exp_minus_1)
  qed
  then show ?case using Suc by (simp add: vga_ports)
qed simp


text \<open>All register files hold the table \<open>regs\<close>, with the CRTC unlocked, and the display is switched on.\<close>

definition programmed :: "u8 list \<Rightarrow> vga \<Rightarrow> bool" where
  "programmed regs d \<longleftrightarrow> misc_reg d = regs ! 0 \<and> (\<forall>i<5. seq_reg d (of_nat i) = regs ! (1 + i)) \<and>
     (\<forall>i<25. crtc_reg d (of_nat i) = crtc_value (drop 6 regs) i) \<and> (\<forall>i<9. gc_reg d (of_nat i) = regs ! (31 + i)) \<and>
     (\<forall>i<21. ac_reg d (of_nat i) = regs ! (40 + i)) \<and> ac_ix d = 0x20"

lemma write_registers_run:
  assumes "length regs = 61"
  shows "programmed regs (vga_run (trace (write_registers port regs s)) d)"
    "dac (vga_run (trace (write_registers port regs s)) d) = dac (vga_run (trace s) d)"
proof -
  let ?f = "crtc_value (drop 6 regs)"
  have f: "\<not> bit (?f 0x11) 7" by (simp add: crtc_value_def bit_simps)
  have step: "vga_run (xs @ ys) e = vga_run ys (vga_run xs e)" for xs ys e by simp
  obtain v w where t: "trace (write_registers port regs s) =
      trace s @ [Out VGA_MISC_WRITE (regs ! 0)] @ pairs VGA_SEQ_INDEX VGA_SEQ_DATA (\<lambda>i. drop 1 regs ! i) 5 @
      [Out VGA_CRTC_INDEX 0x03, In VGA_CRTC_DATA, Out VGA_CRTC_DATA v, Out VGA_CRTC_INDEX 0x11, In VGA_CRTC_DATA, Out VGA_CRTC_DATA (w AND NOT 0x80)] @
      pairs VGA_CRTC_INDEX VGA_CRTC_DATA ?f 25 @ pairs VGA_GC_INDEX VGA_GC_DATA (\<lambda>i. drop 31 regs ! i) 9 @
      concat (map (\<lambda>i. [In VGA_INSTAT, Out VGA_AC_INDEX (of_nat i), Out VGA_AC_INDEX (drop 40 regs ! i)]) [0..<21]) @
      [In VGA_INSTAT, Out VGA_AC_INDEX 0x20]"
    by (simp add: write_registers_def Let_def fold_say del: upt_rec_numeral)
  let ?d1 = "vga_run (pairs VGA_SEQ_INDEX VGA_SEQ_DATA (\<lambda>i. drop 1 regs ! i) 5) (vga_step (Out VGA_MISC_WRITE (regs ! 0)) (vga_run (trace s) d))"
  let ?d2 = "vga_run [Out VGA_CRTC_INDEX 0x03, In VGA_CRTC_DATA, Out VGA_CRTC_DATA v, Out VGA_CRTC_INDEX 0x11, In VGA_CRTC_DATA, Out VGA_CRTC_DATA (w AND NOT 0x80)] ?d1"
  have u: "\<not> bit (crtc_reg ?d2 0x11) 7" by (simp add: vga_ports bit_simps)
  have s1: "?d1 = (vga_step (Out VGA_MISC_WRITE (regs ! 0)) (vga_run (trace s) d))
      \<lparr>seq_ix := (if (5::nat) = 0 then seq_ix (vga_step (Out VGA_MISC_WRITE (regs ! 0)) (vga_run (trace s) d)) else of_nat (5 - 1)),
       seq_reg := reg_upto 5 (\<lambda>i. drop 1 regs ! i) (seq_reg (vga_step (Out VGA_MISC_WRITE (regs ! 0)) (vga_run (trace s) d)))\<rparr>"
    by (rule seq_loop) simp
  define d2 where "d2 = ?d2"
  have d1: "misc_reg ?d1 = regs ! 0" "dac ?d1 = dac (vga_run (trace s) d)"
      "\<exists>q. seq_reg ?d1 = reg_upto 5 (\<lambda>i. drop 1 regs ! i) q"
    unfolding s1 by (auto simp: vga_ports)
  have d2: "misc_reg d2 = regs ! 0" "dac d2 = dac (vga_run (trace s) d)" "\<exists>q. seq_reg d2 = reg_upto 5 (\<lambda>i. drop 1 regs ! i) q"
    using d1 unfolding d2_def by (simp_all add: vga_ports del: upt_rec_numeral)
  have r: "vga_run (trace (write_registers port regs s)) d =
      vga_run [In VGA_INSTAT, Out VGA_AC_INDEX 0x20] (vga_run (concat (map (\<lambda>i. [In VGA_INSTAT, Out VGA_AC_INDEX (of_nat i), Out VGA_AC_INDEX (drop 40 regs ! i)]) [0..<21]))
        (vga_run (pairs VGA_GC_INDEX VGA_GC_DATA (\<lambda>i. drop 31 regs ! i) 9) (vga_run (pairs VGA_CRTC_INDEX VGA_CRTC_DATA ?f 25) d2)))"
    unfolding t d2_def by (simp only: step fold_simps id_apply o_apply)
  have gl: "vga_run (pairs VGA_GC_INDEX VGA_GC_DATA (\<lambda>i. drop 31 regs ! i) 9) e =
      e\<lparr>gc_ix := (if (9 :: nat) = 0 then gc_ix e else of_nat (9 - 1)), gc_reg := reg_upto 9 (\<lambda>i. drop 31 regs ! i) (gc_reg e)\<rparr>" for e
    by (rule gc_loop) simp
  have al: "vga_run (concat (map (\<lambda>i. [In VGA_INSTAT, Out VGA_AC_INDEX (of_nat i), Out VGA_AC_INDEX (drop 40 regs ! i)]) [0..<21])) e =
      e\<lparr>ac_ix := (if (21 :: nat) = 0 then ac_ix e else of_nat (21 - 1)), ac_takes_value := (if (21 :: nat) = 0 then ac_takes_value e else False),
        ac_reg := reg_upto 21 (\<lambda>i. drop 40 regs ! i) (ac_reg e)\<rparr>" for e
    by (rule ac_loop) simp
  have c: "vga_run (pairs VGA_CRTC_INDEX VGA_CRTC_DATA ?f 25) d2 =
      d2\<lparr>crtc_ix := (if (25 :: nat) = 0 then crtc_ix d2 else of_nat (25 - 1)), crtc_reg := reg_upto 25 ?f (crtc_reg d2)\<rparr>"
    by (rule crtc_loop [where f = "crtc_value (drop 6 regs)", OF u [folded d2_def] f]) simp
  have "programmed regs (vga_run (trace (write_registers port regs s)) d) \<and> dac (vga_run (trace (write_registers port regs s)) d) = dac (vga_run (trace s) d)"
    unfolding r c gl al using d2 assms by (auto simp: vga_ports programmed_def upto_nth)
  then show "programmed regs (vga_run (trace (write_registers port regs s)) d)"
    "dac (vga_run (trace (write_registers port regs s)) d) = dac (vga_run (trace s) d)" by blast+
qed


lemma palette_run:
  "n < 256 \<Longrightarrow> vga_run (palette_events (of_nat n) r g b) e = e\<lparr>dac_pos := 3 * n + 3, dac := (dac e)(3 * n := r, 3 * n + 1 := g, 3 * n + 2 := b)\<rparr>"
  by (simp add: palette_events_def vga_ports unat_u8)

lemma palette_loop:
  assumes "n \<le> 256"
  shows "dac (vga_run (concat (map (\<lambda>i. palette_events (of_nat i) (p i 0) (p i 1) (p i 2)) [0..<n])) d) =
     (\<lambda>k. if k < 3 * n then p (k div 3) (k mod 3) else dac d k)"
  using assms
proof (induction n)
  case (Suc n)
  let ?q = "\<lambda>n k. if k < 3 * n then p (k div 3) (k mod 3) else dac d k"
  have q: "((?q n)(3 * n := p n 0, 3 * n + 1 := p n 1, 3 * n + 2 := p n 2)) = ?q (Suc n)"
  proof
    fix k
    have "k < 3 * n \<or> k = 3 * n \<or> k = 3 * n + 1 \<or> k = 3 * n + 2 \<or> 3 * Suc n \<le> k" by arith
    moreover have "(3 * n + 1) div 3 = n" "(3 * n + 1) mod 3 = 1" "(3 * n + 2) div 3 = n" "(3 * n + 2) mod 3 = 2" by presburger+
    ultimately show "((?q n)(3 * n := p n 0, 3 * n + 1 := p n 1, 3 * n + 2 := p n 2)) k = ?q (Suc n) k" by (elim disjE) auto
  qed
  have "n < 256" using Suc.prems by simp
  note st = palette_run [OF this, of "p n 0" "p n 1" "p n 2"]
  have ih: "dac (vga_run (concat (map (\<lambda>i. palette_events (of_nat i) (p i 0) (p i 1) (p i 2)) [0..<n])) d) = ?q n" using Suc by simp
  show ?case unfolding upt_Suc_append [OF le0] map_append concat_append fold_append o_apply list.map concat.simps append_Nil2 st
    using q ih by simp
qed simp

text \<open>Programming the palette leaves the other registers alone.\<close>

lemma palette_programmed:
  assumes "\<And>i. i < n \<Longrightarrow> g i = palette_events (a i) (r i) (h i) (b i)"
  shows "programmed regs (vga_run (concat (map g [0..<n])) d) = programmed regs d"
  using assms
proof (induction n)
  case (Suc n)
  have "programmed regs (vga_run (palette_events i r g b) e) = programmed regs e" for i r g b e
    by (simp add: palette_events_def vga_ports programmed_def)
  then show ?case using Suc by simp
qed simp

lemma say_fields [simp]:
  "current_mode (say es s) = current_mode s" "saved_text_font (say es s) = saved_text_font s" "text_font_saved (say es s) = text_font_saved s"
  "v_monitor (say es s) = v_monitor s"
  by (simp_all add: say_def)

lemma fold_say_fields [simp]:
  "current_mode (fold (\<lambda>i. say (g i)) xs s) = current_mode s" "saved_text_font (fold (\<lambda>i. say (g i)) xs s) = saved_text_font s"
  "text_font_saved (fold (\<lambda>i. say (g i)) xs s) = text_font_saved s" "v_monitor (fold (\<lambda>i. say (g i)) xs s) = v_monitor s"
  by (induction xs arbitrary: s) simp_all

lemma write_registers_fields [simp]:
  "current_mode (write_registers port regs s) = current_mode s" "saved_text_font (write_registers port regs s) = saved_text_font s"
  "text_font_saved (write_registers port regs s) = text_font_saved s" "v_monitor (write_registers port regs s) = v_monitor s"
  by (simp_all add: write_registers_def Let_def write_indexed_def del: upt_rec_numeral)

lemma write_registers_trace: "\<exists>es. trace (write_registers port regs s) = trace s @ es"
  by (simp add: write_registers_def Let_def fold_say del: upt_rec_numeral)

lemma regs_length: "length mode_13h_regs = 61" "length mode_text_regs = 61"
  by (simp_all add: mode_13h_regs_def mode_text_regs_def)



definition demo_video :: video where
  "demo_video = \<lparr>trace = [], current_mode = 0x13, saved_text_font = [7], text_font_saved = True,
     v_monitor = \<lparr>video_memory = (\<lambda>_. 0), cursor_x = 0, cursor_y = 0, ports = [], monitor_lock = \<lparr>hold = LOCKED_NO\<rparr>, k_mem = (\<lambda>_. 0)\<rparr>\<rparr>"


end
