(* ===== verification/User_Io.thy ===== *)
theory User_Io
  imports Format_Out
begin

text \<open>
  Input and output of user programs, \<^verbatim>\<open>src/user/src/user_sys/user_io.c\<close>, and the shell, \<^verbatim>\<open>src/user/src/user_file/shell.c\<close>.
  The memory of the process is a byte memory; the addresses of the static buffer and of string literals are arguments. System calls are events: the strings passed to \<^verbatim>\<open>syscall_print\<close> are kept in
  \<open>console\<close>, the characters that \<^verbatim>\<open>syscall_read_char\<close> will deliver in \<open>keys\<close>.
\<close>

section \<open>Output\<close>

record user_io =
  u_mem :: byte_mem
  u_pos :: u32
  console :: "u8 list list"
  keys :: "u8 list"

text \<open>\<^verbatim>\<open>buf[pos++] = c\<close>, which does not look at the size of \<^verbatim>\<open>buf\<close>.\<close>

definition u_putc :: "addr \<Rightarrow> u8 \<Rightarrow> user_io \<Rightarrow> user_io" where
  "u_putc a_buf c s = s\<lparr>u_mem := (u_mem s)(a_buf + u_pos s := c), u_pos := u_pos s + 1\<rparr>"

definition user_write_str :: "addr \<Rightarrow> addr \<Rightarrow> user_io \<Rightarrow> user_io option" where
  "user_write_str a_buf str = write_str u_mem (u_putc a_buf) str 0"

definition user_write_dec :: "addr \<Rightarrow> u32 \<Rightarrow> user_io \<Rightarrow> user_io" where "user_write_dec a_buf = write_dec (u_putc a_buf)"
definition user_write_udec :: "addr \<Rightarrow> u32 \<Rightarrow> user_io \<Rightarrow> user_io" where "user_write_udec a_buf = write_udec (u_putc a_buf)"
definition user_write_hex :: "addr \<Rightarrow> u32 \<Rightarrow> user_io \<Rightarrow> user_io" where "user_write_hex a_buf = write_hex (u_putc a_buf)"

definition format_to_buf :: "addr \<Rightarrow> addr \<Rightarrow> (nat \<Rightarrow> u32) \<Rightarrow> user_io \<Rightarrow> user_io option" where
  "format_to_buf a_buf format args = format_loop u_mem (u_putc a_buf) args format 0 0"

text \<open>The kernel reads the string up to its end; \<open>None\<close> if it has none.\<close>

definition syscall_print :: "addr \<Rightarrow> user_io \<Rightarrow> user_io option" where
  "syscall_print str s =
     map_option (\<lambda>n. s\<lparr>console := console s @ [map (\<lambda>i. u_mem s (str + of_nat i)) [0..<unat n]]\<rparr>) (strlen_loop (u_mem s) str 0)"

text \<open>\<^verbatim>\<open>"print contents are too long"\<close>\<close>

definition too_long :: "u8 list" where
  "too_long = [112, 114, 105, 110, 116, 32, 99, 111, 110, 116, 101, 110, 116, 115, 32, 97, 114, 101, 32, 116, 111, 111, 32, 108, 111, 110, 103]"

definition user_printf :: "addr \<Rightarrow> addr \<Rightarrow> (nat \<Rightarrow> u32) \<Rightarrow> user_io \<Rightarrow> user_io option" where
  "user_printf a_buf str args s =
     (case format_to_buf a_buf str args s of
        None \<Rightarrow> None
      | Some s \<Rightarrow>
          let s = (if sint (u_pos s) \<ge> 500 then s\<lparr>u_mem := (u_mem s)(a_buf + 499 := 0), console := console s @ [too_long]\<rparr>
                   else s\<lparr>u_mem := (u_mem s)(a_buf + u_pos s := 0)\<rparr>)
          in map_option (\<lambda>s. s\<lparr>u_pos := 0\<rparr>) (syscall_print a_buf s))"

section \<open>Input\<close>

text \<open>\<open>a_pc\<close> is the address of the literal \<^verbatim>\<open>"%c"\<close>. \<open>None\<close>: the call waits for a key.\<close>

partial_function (option) readline_loop :: "addr \<Rightarrow> addr \<Rightarrow> addr \<Rightarrow> u32 \<Rightarrow> user_io \<Rightarrow> user_io option" where
  "readline_loop a_buf a_pc str i s =
     (case keys s of
        [] \<Rightarrow> None
      | c # ks \<Rightarrow>
          Option.bind (user_printf a_buf a_pc (\<lambda>_. scast c) (s\<lparr>keys := ks, u_mem := (u_mem s)(str + i := c)\<rparr>)) (\<lambda>s.
            if u_mem s (str + i) = 10 \<or> u_mem s (str + i) = 13 then Some (s\<lparr>u_mem := (u_mem s)(str + i := 0)\<rparr>)
            else readline_loop a_buf a_pc str (i + 1) s))"

definition readline :: "addr \<Rightarrow> addr \<Rightarrow> addr \<Rightarrow> user_io \<Rightarrow> user_io option" where
  "readline a_buf a_pc str = readline_loop a_buf a_pc str 0"

section \<open>The shell\<close>

definition is_blank :: "u8 \<Rightarrow> bool" where "is_blank c \<longleftrightarrow> c = 32 \<or> c = 9 \<or> c = 10 \<or> c = 13"

partial_function (option) skip_blanks :: "byte_mem \<Rightarrow> addr \<Rightarrow> addr option" where
  "skip_blanks m p = (if is_blank (m p) then skip_blanks m (p + 1) else Some p)"

partial_function (option) skip_word :: "byte_mem \<Rightarrow> addr \<Rightarrow> addr option" where
  "skip_word m p = (if m p \<noteq> 0 \<and> \<not> is_blank (m p) then skip_word m (p + 1) else Some p)"

text \<open>
  The array \<^verbatim>\<open>argv\<close> is the list of the pointers stored in it before the final null pointer; the code does not look at its size,
  64, while it stores them.
\<close>

partial_function (option) parse_loop :: "byte_mem \<Rightarrow> addr \<Rightarrow> addr list \<Rightarrow> (addr list \<times> byte_mem) option" where
  "parse_loop m p argv =
     (if m p \<noteq> 0 then
        Option.bind (skip_blanks m p) (\<lambda>p.
          if m p = 0 then Some (argv, m)
          else
            Option.bind (skip_word m p) (\<lambda>e.
              if m e \<noteq> 0 then parse_loop (m(e := 0)) (e + 1) (argv @ [p])
              else parse_loop m e (argv @ [p])))
      else Some (argv, m))"

definition parse_cmd :: "addr \<Rightarrow> byte_mem \<Rightarrow> (addr list \<times> byte_mem) option" where
  "parse_cmd cmd m = parse_loop m cmd []"

text \<open>
  The system calls of \<^verbatim>\<open>run_program\<close> in the parent and in the child, by the result of \<^verbatim>\<open>syscall_fork\<close>; \<open>ret\<close> is what a failed
  \<^verbatim>\<open>syscall_exec\<close> returns. A pointer to a local variable is not shown.
\<close>

datatype user_call = Call_print "u8 list" | Call_wait u32 | Call_exec addr nat "addr list" | Call_exit u32

definition fork_failed :: "u8 list" where
  "fork_failed = [102, 111, 114, 107, 32, 102, 97, 105, 108, 101, 100, 33, 10]"

definition run_program :: "u32 \<Rightarrow> u32 \<Rightarrow> addr list \<Rightarrow> user_call list" where
  "run_program pid ret argv =
     (let argc = length argv
      in if sint pid < 0 then [Call_print fork_failed]
         else if sint pid > 0 then [Call_wait pid]
         else [Call_exec (hd (argv @ [NULL])) argc argv, Call_exit ret])"

text \<open>One round of the shell; \<open>a_prompt\<close> is the address of the literal \<^verbatim>\<open>"my_os_shell> "\<close>. An empty line makes no calls.\<close>

definition shell_round :: "addr \<Rightarrow> addr \<Rightarrow> addr \<Rightarrow> addr \<Rightarrow> u32 \<Rightarrow> u32 \<Rightarrow> user_io \<Rightarrow> (user_call list \<times> user_io) option" where
  "shell_round a_buf a_pc a_prompt command_line pid ret s =
     Option.bind (user_printf a_buf a_prompt (\<lambda>_. 0) s) (\<lambda>s.
     Option.bind (readline a_buf a_pc command_line s) (\<lambda>s.
     Option.bind (parse_cmd command_line (u_mem s)) (\<lambda>(argv, m).
       Some (if argv = [] then [] else run_program pid ret argv, s\<lparr>u_mem := m\<rparr>))))"

section \<open>The words of a line\<close>

text \<open>The reference: maximal runs of characters that are not blank.\<close>

function words :: "u8 list \<Rightarrow> u8 list list" where
  "words cs =
     (case dropWhile is_blank cs of
        [] \<Rightarrow> []
      | c # ds \<Rightarrow> takeWhile (\<lambda>x. \<not> is_blank x) (c # ds) # words (dropWhile (\<lambda>x. \<not> is_blank x) (c # ds)))"
  by pat_completeness auto
termination
proof (relation "measure length")
  fix cs x ds assume e: "dropWhile is_blank cs = x # ds"
  have "length (dropWhile is_blank cs) \<le> length cs" by (rule length_dropWhile_le)
  moreover have "\<not> is_blank x" using e by (metis hd_dropWhile list.distinct(1) list.sel(1))
  then have "length (dropWhile (\<lambda>y. \<not> is_blank y) (x # ds)) \<le> length ds" by (simp add: length_dropWhile_le)
  ultimately show "(dropWhile (\<lambda>y. \<not> is_blank y) (x # ds), cs) \<in> measure length" using e by simp
qed simp

declare words.simps [simp del]


lemma blank_0 [simp]: "\<not> is_blank 0"
  by (simp add: is_blank_def)

lemma skip_blanks_cstr: "cstr m p bs \<Longrightarrow> skip_blanks m p = Some (p + of_nat (length (takeWhile is_blank bs)))"
proof (induction bs arbitrary: p)
  case Nil
  then show ?case by (subst skip_blanks.simps) simp
next
  case (Cons b bs)
  then show ?case using Cons.IH [of "p + 1"] by (subst skip_blanks.simps) (simp add: algebra_simps)
qed

lemma skip_word_cstr: "cstr m p bs \<Longrightarrow> skip_word m p = Some (p + of_nat (length (takeWhile (\<lambda>x. \<not> is_blank x) bs)))"
proof (induction bs arbitrary: p)
  case Nil
  then show ?case by (subst skip_word.simps) simp
next
  case (Cons b bs)
  then show ?case using Cons.IH [of "p + 1"] by (subst skip_word.simps) (simp add: algebra_simps)
qed

lemma cstr_head: "cstr m p bs \<Longrightarrow> m p = hd (bs @ [0])"
  by (cases bs) simp_all

text \<open>The shape of a line that has a word.\<close>

lemma line_cases:
  obtains (none) "dropWhile is_blank bs = []"
  | (word) bl w r where "bs = bl @ w @ r" "bl = takeWhile is_blank bs" "w = takeWhile (\<lambda>x. \<not> is_blank x) (w @ r)" "w \<noteq> []"
      "words bs = w # words r" "r = [] \<or> is_blank (hd r)" "\<not> is_blank (hd w)"
proof (cases "dropWhile is_blank bs")
  case (Cons c ds)
  let ?w = "takeWhile (\<lambda>x. \<not> is_blank x) (c # ds)" and ?r = "dropWhile (\<lambda>x. \<not> is_blank x) (c # ds)"
  have c: "\<not> is_blank c" using Cons by (metis hd_dropWhile list.distinct(1) list.sel(1))
  have "bs = takeWhile is_blank bs @ ?w @ ?r" using Cons by (metis takeWhile_dropWhile_id)
  moreover have "?w = takeWhile (\<lambda>x. \<not> is_blank x) (?w @ ?r)" by (simp only: takeWhile_dropWhile_id)
  moreover have "words bs = ?w # words ?r" using Cons by (subst words.simps) simp
  moreover have "?r = [] \<or> is_blank (hd ?r)" using hd_dropWhile [of "\<lambda>x. \<not> is_blank x" "c # ds"] by blast
  ultimately show ?thesis using word [of "takeWhile is_blank bs" ?w ?r] c by simp
qed (rule none)

lemma words_blank: "is_blank b \<Longrightarrow> words (b # bs) = words bs"
  by (subst words.simps, subst (2) words.simps) simp

lemma region_after:
  assumes "j + k \<le> 4294967296"
  shows "region p j \<inter> region (p + of_nat j) k = {}"
proof -
  have "p + of_nat x \<noteq> p + of_nat j + of_nat y" if "x < j" "y < k" for x y
  proof
    assume "p + of_nat x = p + of_nat j + of_nat y"
    then have "(of_nat x :: u32) = of_nat (j + y)" by (simp add: algebra_simps)
    then have "x = j + y" using that assms unat_of_nat_small [of x] unat_of_nat_small [of "j + y"] by simp
    then show False using that by simp
  qed
  then show ?thesis by (auto simp: region_def)
qed

lemma cstr_cut:
  assumes "cstr m p (w @ r)" "m' (p + of_nat (length w)) = 0" "\<And>x. x \<in> region p (length w) \<Longrightarrow> m' x = m x"
  shows "cstr m' p w"
  using assms
proof (induction w arbitrary: p)
  case (Cons b w)
  have "cstr m' (p + 1) w"
    by (rule Cons.IH) (use Cons.prems in \<open>auto simp: region_Suc algebra_simps\<close>)
  then show ?case using Cons.prems by (simp add: region_Suc)
qed simp

lemma parse_loop_words:
  "\<lbrakk>cstr m p bs; length bs < 4294967295\<rbrakk> \<Longrightarrow>
   \<exists>av m'. parse_loop m p argv = Some (argv @ av, m') \<and> list_all2 (cstr m') av (words bs) \<and> (\<forall>x. x \<notin> region p (length bs) \<longrightarrow> m' x = m x)"
proof (induction "length bs" arbitrary: bs m p argv rule: less_induct)
  case less
  show ?case
  proof (cases bs rule: line_cases)
    case none
    then have "words bs = []" by (subst words.simps) (simp del: dropWhile_eq_Nil_conv)
    moreover have "m (p + of_nat (length (takeWhile is_blank bs))) = 0"
      using cstr_append [of m p bs "[]"] less.prems(1) none by (simp add: takeWhile_eq_all_conv [THEN iffD2])
    then have "parse_loop m p argv = Some (argv, m)"
      using skip_blanks_cstr [OF less.prems(1)] by (subst parse_loop.simps) simp
    ultimately show ?thesis by (intro exI [of _ "[]"] exI [of _ m]) simp
  next
    case (word bl w r)
    let ?q = "p + of_nat (length bl)" let ?e = "?q + of_nat (length w)"
    have cw: "cstr m ?q (w @ r)" using less.prems(1) word(1) cstr_append [of m p bl "w @ r"] by simp
    have cr: "cstr m ?e r" using cstr_append [OF cw] .
    have "bs \<noteq> []" using word(1,4) by simp
    then have ne: "m p \<noteq> 0" using less.prems(1) by (cases bs) auto
    have q0: "m ?q \<noteq> 0" using cw word(4) by (cases w) auto
    have sb: "skip_blanks m p = Some ?q" using skip_blanks_cstr [OF less.prems(1)] word(2) by simp
    have sw: "skip_word m ?q = Some ?e" using skip_word_cstr [OF cw] word(3) by simp
    have len: "length bs = length bl + length w + length r" using word(1) by simp
    show ?thesis
    proof (cases r)
      case Nil
      then have e0: "m ?e = 0" using cr by simp
      then have "parse_loop m p argv = Some (argv @ [?q], m)"
        using ne sb q0 sw by (subst parse_loop.simps) (simp add: parse_loop.simps [of m ?e])
      moreover have "cstr m ?q w" using cw Nil by simp
      moreover have "words r = []" using Nil by (subst words.simps) simp
      ultimately show ?thesis using word(5) by (intro exI [of _ "[?q]"] exI [of _ m]) simp
    next
      case (Cons b r')
      let ?m = "m(?e := 0)" and ?n = "length bl + length w"
      have b: "is_blank b" "b \<noteq> 0" "m ?e = b" using word(6) Cons cr by auto
      have en: "?e = p + of_nat ?n" by simp
      have dj: "region p ?n \<inter> region ?e (Suc (length r')) = {}" "region ?e 1 \<inter> region (?e + 1) (Suc (length r')) = {}"
        using region_after [of ?n "Suc (length r')" p] region_after [of 1 "Suc (length r')" ?e] less.prems(2) len Cons unfolding en by simp_all
      have e1: "?e \<notin> region (?e + 1) (Suc (length r'))" using dj(2) by (auto simp: region_Suc)
      have "cstr ?m (?e + 1) r'" using cr Cons cstr_upd [OF e1, of m 0] by simp
      then obtain av m' where r: "parse_loop ?m (?e + 1) (argv @ [?q]) = Some ((argv @ [?q]) @ av, m')" "list_all2 (cstr m') av (words r')"
          "\<forall>x. x \<notin> region (?e + 1) (length r') \<longrightarrow> m' x = ?m x"
        using less.hyps [of r' ?m "?e + 1" "argv @ [?q]"] less.prems(2) len Cons by auto
      have run: "parse_loop m p argv = Some (argv @ ?q # av, m')"
        using ne sb q0 sw b r(1) by (subst parse_loop.simps) simp
      have sub: "region (?e + 1) (length r') \<subseteq> region ?e (Suc (length r'))" by (auto simp: region_Suc)
      have "region ?q (length w) \<subseteq> region p ?n" using region_append [of p "length bl" "length w"] by auto
      moreover have "?e \<in> region ?e (Suc (length r'))" by (simp add: region_Suc)
      ultimately have "m' x = m x" if "x \<in> region ?q (length w)" for x
      proof -
        have "x \<notin> region ?e (Suc (length r'))" using that dj(1) \<open>region ?q (length w) \<subseteq> region p ?n\<close> by blast
        then have "x \<noteq> ?e" "x \<notin> region (?e + 1) (length r')" using sub \<open>?e \<in> region ?e (Suc (length r'))\<close> by blast+
        then show ?thesis using r(3) by simp
      qed
      moreover have "m' ?e = 0" using r(3) e1 region_mono [of "length r'" "Suc (length r')" "?e + 1"] by auto
      ultimately have cq: "cstr m' ?q w" by (intro cstr_cut [OF cw])
      have rg: "region p (length bs) = region p ?n \<union> region ?e (Suc (length r'))" using region_append [of p ?n "Suc (length r')"] len Cons en by (simp add: add.assoc)
      have "m' x = m x" if "x \<notin> region p (length bs)" for x
        using that r(3) sub \<open>?e \<in> region ?e (Suc (length r'))\<close> unfolding rg by auto
      then show ?thesis using run r(2) cq word(5) words_blank [OF b(1), of r'] Cons
        by (intro exI [of _ "?q # av"] exI [of _ m']) simp
    qed
  qed
qed


text \<open>C37: The shell splits a command line into its words. For a zero-terminated line, \<^verbatim>\<open>parse_cmd\<close> ends and stores as many argument
  pointers as the line has maximal runs of characters other than space, tab, newline and carriage return; each of them then points at
  a zero-terminated copy of its word, in place and in order, and no byte outside the line has changed.\<close>

theorem parse_cmd_splits:
  assumes "cstr m cmd line" "length line < 4294967295"
  shows "\<exists>argv m'. parse_cmd cmd m = Some (argv, m') \<and> length argv = length (words line) \<and>
    (\<forall>i<length argv. cstr m' (argv ! i) (words line ! i)) \<and> (\<forall>x. x \<notin> region cmd (length line) \<longrightarrow> m' x = m x)"
  using parse_loop_words [OF assms, of "[]"] by (auto simp: parse_cmd_def list_all2_conv_all_nth)

definition demo_line :: "u8 list" where "demo_line = [32, 108, 115, 9, 32, 97, 10]"

definition demo_line_mem :: byte_mem where
  "demo_line_mem = (\<lambda>_. 0)(0x100 := 32, 0x101 := 108, 0x102 := 115, 0x103 := 9, 0x104 := 32, 0x105 := 97, 0x106 := 10)"

theorem parse_cmd_splits_witness:
  "\<exists>argv m'. parse_cmd 0x100 demo_line_mem = Some (argv, m') \<and> length argv = 2 \<and> cstr m' (argv ! 0) [108, 115] \<and> cstr m' (argv ! 1) [97]"
proof -
  have w: "words demo_line = [[108, 115], [97]]"
    by (simp add: demo_line_def words.simps [of "[32, 108, 115, 9, 32, 97, 10]"] words.simps [of "[9, 32, 97, 10]"] words.simps [of "[10]"] is_blank_def)
  have "cstr demo_line_mem 0x100 demo_line" by (simp add: demo_line_def demo_line_mem_def)
  moreover have "length demo_line < 4294967295" by (simp add: demo_line_def)
  ultimately obtain argv m' where
    r: "parse_cmd 0x100 demo_line_mem = Some (argv, m')" "length argv = 2" "\<forall>i<length argv. cstr m' (argv ! i) ([[108, 115], [97]] ! i)"
    using parse_cmd_splits [of demo_line_mem "0x100" demo_line] unfolding w by auto
  then show ?thesis using r(3) [rule_format, of 0] r(3) [rule_format, of 1] by simp
qed

section \<open>Formatted output\<close>

interpretation uio: text_sink u_mem "u_putc a_buf" F "\<lambda>n s. region (a_buf + u_pos s) n \<inter> F = {}" for a_buf F
  by unfold_locales (auto simp: u_putc_def region_Suc algebra_simps)

lemma u_putc_fold:
  "length cs \<le> 4294967296 \<Longrightarrow> u_pos (fold (u_putc a) cs s) = u_pos s + of_nat (length cs) \<and> console (fold (u_putc a) cs s) = console s \<and>
     (\<forall>i<length cs. u_mem (fold (u_putc a) cs s) (a + u_pos s + of_nat i) = cs ! i) \<and>
     (\<forall>x. x \<notin> region (a + u_pos s) (length cs) \<longrightarrow> u_mem (fold (u_putc a) cs s) x = u_mem s x)"
proof (induction cs arbitrary: s)
  case (Cons c cs)
  let ?s = "u_putc a c s"
  have ih: "u_pos (fold (u_putc a) cs ?s) = u_pos ?s + of_nat (length cs)" "console (fold (u_putc a) cs ?s) = console ?s"
    "\<And>i. i < length cs \<Longrightarrow> u_mem (fold (u_putc a) cs ?s) (a + u_pos ?s + of_nat i) = cs ! i"
    "\<And>x. x \<notin> region (a + u_pos ?s) (length cs) \<Longrightarrow> u_mem (fold (u_putc a) cs ?s) x = u_mem ?s x" using Cons.IH [of ?s] Cons.prems by auto
  have p: "u_pos ?s = u_pos s + 1" "console ?s = console s" "u_mem ?s = (u_mem s)(a + u_pos s := c)" by (simp_all add: u_putc_def)
  have d: "a + u_pos s \<notin> region (a + u_pos s + 1) (length cs)"
    using region_after [of 1 "length cs" "a + u_pos s"] Cons.prems by (auto simp: region_Suc)
  have "u_mem (fold (u_putc a) cs ?s) (a + u_pos s + of_nat i) = (c # cs) ! i" if "i < Suc (length cs)" for i
  proof (cases i)
    case 0
    then show ?thesis using ih(4) [of "a + u_pos s"] d by (simp add: p add.assoc)
  next
    case (Suc j)
    then show ?thesis using ih(3) [of j] that by (simp add: p algebra_simps)
  qed
  moreover have "u_mem (fold (u_putc a) cs ?s) x = u_mem s x" if "x \<notin> region (a + u_pos s) (Suc (length cs))" for x
    using ih(4) [of x] that by (simp add: p region_Suc add.assoc)
  ultimately show ?case using ih(1,2) by (simp add: p)
qed simp


lemma cstr_map: "cstr m a bs \<Longrightarrow> map (\<lambda>i. m (a + of_nat i)) [0..<length bs] = bs"
proof (induction bs arbitrary: a)
  case (Cons b bs)
  have "map (\<lambda>i. m (a + of_nat i)) [0..<Suc (length bs)] = m a # map (\<lambda>i. m (a + of_nat (Suc i))) [0..<length bs]"
    by (subst upt_conv_Cons) (simp_all add: map_Suc_upt [symmetric] del: upt_Suc of_nat_Suc)
  moreover have "map (\<lambda>i. m (a + of_nat (Suc i))) [0..<length bs] = bs" using Cons by (simp add: add.assoc [symmetric])
  ultimately show ?case using Cons.prems by (simp del: upt_Suc)
qed simp

lemma syscall_print_cstr:
  assumes "cstr (u_mem s) a bs" "length bs < 4294967296"
  shows "syscall_print a s = Some (s\<lparr>console := console s @ [bs]\<rparr>)"
  using strlen_loop_cstr [of "u_mem s" a 0 bs] cstr_map [OF assms(1)] assms by (simp add: syscall_print_def unat_of_nat_small)

lemma cstr_bytes:
  "\<lbrakk>\<And>i. i < length bs \<Longrightarrow> m (a + of_nat i) = bs ! i; 0 \<notin> set bs; m (a + of_nat (length bs)) = 0\<rbrakk> \<Longrightarrow> cstr m a bs"
proof (induction bs arbitrary: a)
  case (Cons b bs)
  have "cstr m (a + 1) bs"
  proof (rule Cons.IH)
    show "m (a + 1 + of_nat i) = bs ! i" if "i < length bs" for i using Cons.prems(1) [of "Suc i"] that by (simp add: algebra_simps)
  qed (use Cons.prems in \<open>simp_all add: algebra_simps\<close>)
  then show ?case using Cons.prems(1) [of 0] Cons.prems(2) by simp
qed simp

text \<open>What \<^verbatim>\<open>format_to_buf\<close> leaves, and the terminated text at the start of the buffer.\<close>

lemma format_to_buf_stores:
  assumes "readable F (u_mem s) args strs format 0 0 fmt" "u_pos s = 0" "t = text_of args strs 0 fmt"
    and "region a_buf (length t) \<inter> F = {}" "length t < 2 ^ 31"
  shows "\<exists>s'. format_to_buf a_buf format args s = Some s' \<and> u_pos s' = of_nat (length t) \<and> sint (u_pos s') = int (length t) \<and> console s' = console s \<and>
    (\<forall>i<length t. u_mem s' (a_buf + of_nat i) = t ! i) \<and> (\<forall>x. x \<notin> region a_buf (length t) \<longrightarrow> u_mem s' x = u_mem s x)"
proof -
  let ?s = "fold (u_putc a_buf) t s"
  have "format_to_buf a_buf format args s = Some ?s"
    using uio.format_loop_fold [of F s args strs format 0 0 fmt a_buf 0] assms by (simp add: format_to_buf_def)
  moreover have "sint (of_nat (length t) :: u32) = int (length t)"
    using assms(5) by (simp add: sint_uint unsigned_of_nat take_bit_nat_eq_self signed_take_bit_int_eq_self)
  ultimately show ?thesis using u_putc_fold [of t a_buf s] assms(2,5) by auto
qed

lemma cstr_terminated:
  assumes m: "\<forall>i<length t. m (a + of_nat i) = t ! i" and z: "0 \<notin> set t" and n: "n \<le> length t" "length t < 2 ^ 31"
  shows "cstr (m(a + of_nat n := 0)) a (take n t)" "\<lbrakk>i < length t; i \<noteq> n\<rbrakk> \<Longrightarrow> (m(a + of_nat n := 0)) (a + of_nat i) = t ! i"
proof -
  have inj: "a + of_nat i \<noteq> a + of_nat n" if "i < length t" "i \<noteq> n" for i
  proof
    assume "a + of_nat i = a + of_nat n"
    then have "unat (of_nat i :: u32) = unat (of_nat n :: u32)" by simp
    then show False using that n unat_of_nat_small [of i] unat_of_nat_small [of n] by simp
  qed
  then show o: "\<lbrakk>i < length t; i \<noteq> n\<rbrakk> \<Longrightarrow> (m(a + of_nat n := 0)) (a + of_nat i) = t ! i" for i
    using m by (metis fun_upd_other)
  have l: "length (take n t) = n" using n by simp
  show "cstr (m(a + of_nat n := 0)) a (take n t)"
  proof (rule cstr_bytes)
    show "(m(a + of_nat n := 0)) (a + of_nat i) = take n t ! i" if "i < length (take n t)" for i using o [of i] that l n by simp
    show "0 \<notin> set (take n t)" using z by (meson in_set_takeD)
  qed (simp only: l fun_upd_same)
qed



definition demo_user_io :: user_io where
  "demo_user_io = \<lparr>u_mem = (\<lambda>_. 0)(0x100 := 110, 0x101 := 61, 0x102 := 37, 0x103 := 100), u_pos = 0, console = [], keys = []\<rparr>"


end
