(* ===== verification/User_Lib.thy ===== *)
theory User_Lib
  imports Stdlib
begin

text \<open>
  \<^verbatim>\<open>sprintf\<close> of the user library, \<^verbatim>\<open>src/user/src/user_sys/stdlib.c\<close>. Its text is that of the kernel's, but it runs on the
  user copies of the string routines, which return early on null pointers where those of the kernel stop the machine.
\<close>

definition user_copy_out :: "byte_mem \<Rightarrow> addr \<Rightarrow> addr \<Rightarrow> u32 \<Rightarrow> nat \<Rightarrow> (byte_mem \<times> u32 \<times> nat) option" where
  "user_copy_out m src dst w a = map_option (\<lambda>(len, m). (m, w + len, a)) (user_strcpy_with_len m (dst + w) src)"

definition user_sprintf_directive ::
  "u8 list \<Rightarrow> (nat \<Rightarrow> u32) \<Rightarrow> addr \<Rightarrow> addr \<Rightarrow> byte_mem \<Rightarrow> u32 \<Rightarrow> nat \<Rightarrow> addr \<Rightarrow> (byte_mem \<times> u32 \<times> nat) option" where
  "user_sprintf_directive raw args buf dst m w a fa =
     (let c = m fa in
      if c = 100 then user_copy_out (snd (user_int2str raw m buf (args a))) buf dst w (a + 1)
      else if c = 117 then user_copy_out (snd (user_uint2str raw m buf (args a))) buf dst w (a + 1)
      else if c = 120 \<or> c = 88 then user_copy_out (snd (user_int2hex raw m buf (args a))) buf dst w (a + 1)
      else if c = 115 then
        (if args a = NULL then Some (copy_from m (dst + w) [40, 110, 117, 108, 108, 41, 0] 0, w + 6, a + 1)
         else user_copy_out m (args a) dst w (a + 1))
      else if c = 99 then Some (m(dst + w := ucast (args a)), w + 1, a + 1)
      else if c = 37 then Some (m(dst + w := 37), w + 1, a)
      else let m = m(dst + w := 37) in Some (m(dst + (w + 1) := m fa), w + 2, a))"

partial_function (option) user_sprintf_loop ::
  "u8 list \<Rightarrow> (nat \<Rightarrow> u32) \<Rightarrow> addr \<Rightarrow> addr \<Rightarrow> addr \<Rightarrow> byte_mem \<Rightarrow> u32 \<Rightarrow> u32 \<Rightarrow> nat \<Rightarrow> byte_mem option" where
  "user_sprintf_loop raw args buf dst format m i w a =
     (if m (format + i) = 0 then Some (m(dst + w := 0))
      else
        (let m = user_memset m buf 0 20
         in if m (format + i) = 37 then
              (if m (format + (i + 1)) = 0 then Some (m(dst + w := 0))
               else
                 (case user_sprintf_directive raw args buf dst m w a (format + (i + 1)) of
                    None \<Rightarrow> None
                  | Some (m, w, a) \<Rightarrow> user_sprintf_loop raw args buf dst format m (i + 2) w a))
            else user_sprintf_loop raw args buf dst format (m(dst + w := m (format + i))) (i + 1) (w + 1) a))"

definition user_sprintf :: "u8 list \<Rightarrow> (nat \<Rightarrow> u32) \<Rightarrow> addr \<Rightarrow> byte_mem \<Rightarrow> addr \<Rightarrow> addr \<Rightarrow> byte_mem option" where
  "user_sprintf raw args buf m dst format = user_sprintf_loop raw args buf dst format m 0 0 0"

section \<open>Agreement with the kernel\<close>

lemma numbers_agree:
  "int2str raw m dst n = Inr r \<Longrightarrow> user_int2str raw m dst n = r"
  "uint2str raw m dst n = Inr r \<Longrightarrow> user_uint2str raw m dst n = r"
  "int2hex raw m dst n = Inr r \<Longrightarrow> user_int2hex raw m dst n = r"
  by (auto simp: int2str_def user_int2str_def uint2str_def user_uint2str_def int2hex_def user_int2hex_def kassert_def Let_def
      split: if_splits prod.splits)

lemma copy_out_agrees: "copy_out m src dst w a = Some (Inr r) \<Longrightarrow> user_copy_out m src dst w a = Some r"
  by (auto simp: copy_out_def user_copy_out_def strcpy_with_len_def user_strcpy_with_len_def split: if_splits)

lemma copy_number_agrees:
  assumes "copy_number x buf dst w a = Some (Inr r)" "\<And>y. x = Inr y \<Longrightarrow> u = y"
  shows "user_copy_out (snd u) buf dst w a = Some r"
proof (cases x)
  case (Inr y)
  then show ?thesis using assms copy_out_agrees [of "snd y" buf dst w a r] by (cases y) (simp add: copy_number_def)
qed (use assms in \<open>simp add: copy_number_def\<close>)

lemma directive_agrees:
  assumes d: "sprintf_directive raw args buf dst m w a fa = Some (Inr r)"
  shows "user_sprintf_directive raw args buf dst m w a fa = Some r"
proof -
  note nums = copy_number_agrees [where x = "int2str raw m buf (args a)" and u = "user_int2str raw m buf (args a)" and r = r, OF _ numbers_agree(1)]
    copy_number_agrees [where x = "uint2str raw m buf (args a)" and u = "user_uint2str raw m buf (args a)" and r = r, OF _ numbers_agree(2)]
    copy_number_agrees [where x = "int2hex raw m buf (args a)" and u = "user_int2hex raw m buf (args a)" and r = r, OF _ numbers_agree(3)]
  consider (i) "m fa = 100" | (u) "m fa = 117" | (x) "m fa = 120 \<or> m fa = 88" | (s) "m fa = 115"
    | (o) "m fa \<notin> {100, 117, 120, 88, 115}" by auto
  then show ?thesis
  proof cases
    case s
    then show ?thesis using d copy_out_agrees
      by (cases "args a = NULL") (auto simp: sprintf_directive_def user_sprintf_directive_def kassert_def split: if_splits)
  next
    case o
    then show ?thesis using d by (auto simp: sprintf_directive_def user_sprintf_directive_def Let_def split: if_splits)
  qed (use d nums in \<open>auto simp: sprintf_directive_def user_sprintf_directive_def\<close>)
qed

lemma memset_agrees: "memset m dest v n = Inr m' \<Longrightarrow> user_memset m dest v n = m'"
  by (auto simp: memset_def user_memset_def kassert_def split: if_splits)

lemma sprintf_loop_agrees:
  "sprintf_loop raw args buf dst format m i w a = Some r \<Longrightarrow>
     (\<forall>m'. r = Inr m' \<longrightarrow> user_sprintf_loop raw args buf dst format m i w a = Some m')"
proof (rule sprintf_loop.raw_induct [where P = "\<lambda>raw args buf dst format m i w a r.
    \<forall>m'. r = Inr m' \<longrightarrow> user_sprintf_loop raw args buf dst format m i w a = Some m'"], goal_cases)
  case (1 loop raw args buf dst format m i w a r)
  note ih = 1(2) and step = 1(3)
  show ?case
  proof (intro allI impI)
    fix m'
    assume r: "r = Inr m'"
    show "user_sprintf_loop raw args buf dst format m i w a = Some m'"
    proof (cases "m (format + i) = 0")
      case True
      then show ?thesis using step r by (subst user_sprintf_loop.simps) simp
    next
      case False
      obtain n where n: "memset m buf 0 20 = Inr n" using step r False by (auto split: sum.splits)
      note st = step [simplified n r, simplified] and un = memset_agrees [OF n]
      show ?thesis
      proof (cases "n (format + i) = 37 \<and> n (format + (i + 1)) \<noteq> 0")
        case True
        then obtain x where x: "sprintf_directive raw args buf dst n w a (format + (i + 1)) = Some (Inr x)"
          using st False by (auto split: option.splits sum.splits)
        then show ?thesis using st False True ih r directive_agrees [OF x]
          by (subst user_sprintf_loop.simps) (auto simp: un Let_def split: prod.splits)
      next
        case False2: False
        then show ?thesis using st False ih r by (subst user_sprintf_loop.simps) (auto simp: un Let_def split: if_splits)
      qed
    qed
  qed
qed assumption

text \<open>\<^verbatim>\<open>sprintf\<close> of the user library agrees with that of the kernel: wherever the kernel's returns, on any format, arguments and
  memory, the user's returns too and leaves the same memory. Where the kernel's stops the machine the two differ.\<close>

lemma user_sprintf_agrees:
  "sprintf raw args buf m dst format = Some (Inr m') \<Longrightarrow> user_sprintf raw args buf m dst format = Some m'"
  using sprintf_loop_agrees by (simp add: sprintf_def user_sprintf_def)

end
