(* ===== verification/Syscall.thy ===== *)
theory Syscall
  imports Process_Wait Process_Exec Keyboard Interrupts Video User_Io
begin

text \<open>
  System calls: the wrappers of the user library (\<^verbatim>\<open>src/user/src/user_sys/syscall.c\<close> with the triggers of
  \<^verbatim>\<open>syscall_trigger.asm\<close>), the entry and the return of the kernel (\<^verbatim>\<open>src/src/syscall/syscall_wrapper.asm\<close>) and the
  dispatcher with its thirteen calls, \<^verbatim>\<open>src/src/syscall/syscall_impl.c\<close>, over the process manager, the keyboard, the
  screen, the video driver and the file system. Memory that the kernel allocates for a call is given by addresses in \<open>sys_env\<close>.
\<close>

section \<open>The machine\<close>

record machine =
  m_kernel :: kernel
  m_kbd :: kbd
  m_video :: video
  m_disks :: disks
  m_fs :: ext2

record sys_env =
  e_fork_exit :: u32
  e_kmalloc :: "u32 \<Rightarrow> u32 list option"
  e_bitmap :: bitmap_t
  e_pcb :: addr
  e_tcb :: addr
  e_wait_node :: addr
  e_heap_mapped :: bool
  e_exec :: exec_env
  e_port :: "vga_event list \<Rightarrow> u16 \<Rightarrow> u8"
  e_window :: "vga_event list \<Rightarrow> nat \<Rightarrow> u8"

text \<open>
  How a call ends: it returns a value, the calling thread is blocked and another one runs, the thread is gone, or the
  processor enters a new program from the interrupt frame at an address, with the memory it then sees.
\<close>

datatype sys_end = Returns u32 | Waits | Leaves | Enters addr byte_mem

type_synonym sys_result = "(sys_end \<times> machine) kres option"

text \<open>
  The bytes that the current address space shows; a user page that is not mapped yet will be filled with zeros. A byte that the
  kernel stores to a user address may be in a page that the fault handler has to map first.
\<close>

definition shown_bytes :: "vm \<Rightarrow> byte_mem" where
  "shown_bytes s a = (case walk s a of None \<Rightarrow> 0 | Some f \<Rightarrow> ucast (drop_bit (8 * unat (a AND 3)) (phys s f (word_index a))))"

definition set_byte :: "u32 \<Rightarrow> nat \<Rightarrow> u8 \<Rightarrow> u32" where
  "set_byte w i b = (w AND NOT (push_bit (8 * i) 0xFF)) OR push_bit (8 * i) (ucast b)"

definition poke_byte :: "addr \<Rightarrow> u8 \<Rightarrow> vm \<Rightarrow> vm kres" where
  "poke_byte a b s = kbind (vread s a) (\<lambda>w. vwrite a (set_byte w (unat (a AND 3)) b) s)"

definition store_byte :: "addr \<Rightarrow> u8 \<Rightarrow> vm \<Rightarrow> vm kres" where
  "store_byte a b s =
     (case walk s a of None \<Rightarrow> kbind (pagefault_handler True [] 2 a s) (poke_byte a b) | Some _ \<Rightarrow> poke_byte a b s)"

definition m_bytes :: "machine \<Rightarrow> byte_mem" where
  "m_bytes m = shown_bytes (t_vm (k_threads (m_kernel m)))"

text \<open>The keyboard driver works on the scheduler of the kernel.\<close>

definition on_kbd :: "(kbd \<Rightarrow> ('a \<times> kbd) kres) \<Rightarrow> machine \<Rightarrow> ('a \<times> machine) kres" where
  "on_kbd f m =
     kbind (f ((m_kbd m)\<lparr>kbd.k_sched := t_sched (k_threads (m_kernel m))\<rparr>)) (\<lambda>(r, kb).
       Inr (r, m\<lparr>m_kbd := kb, m_kernel := set_sched (kbd.k_sched kb) (m_kernel m)\<rparr>))"

definition on_screen_text :: "(monitor \<Rightarrow> monitor option) \<Rightarrow> machine \<Rightarrow> machine option" where
  "on_screen_text f m =
     map_option (\<lambda>mo. m\<lparr>m_video := (m_video m)\<lparr>v_monitor := mo\<rparr>\<rparr>) (f ((v_monitor (m_video m))\<lparr>k_mem := m_bytes m\<rparr>))"

section \<open>The calls\<close>

definition syscall_exit_impl :: "sys_env \<Rightarrow> u32 \<Rightarrow> machine \<Rightarrow> sys_result" where
  "syscall_exit_impl e exit_num m =
     obind (process_exit (e_heap_mapped e) exit_num (m_kernel m)) (\<lambda>k. Some (Inr (Leaves, m\<lparr>m_kernel := k\<rparr>)))"

definition syscall_fork_impl :: "sys_env \<Rightarrow> machine \<Rightarrow> sys_result" where
  "syscall_fork_impl e m =
     obind (process_fork (e_fork_exit e) (e_kmalloc e) (e_bitmap e) (e_pcb e) (e_tcb e) (m_kernel m)) (\<lambda>(new_pid, k).
       Some (Inr (Returns new_pid, m\<lparr>m_kernel := k\<rparr>)))"

definition syscall_exec_impl :: "sys_env \<Rightarrow> addr \<Rightarrow> u32 \<Rightarrow> addr \<Rightarrow> machine \<Rightarrow> sys_result" where
  "syscall_exec_impl e file_path argc argv m =
     obind (process_exec (e_exec e) (m_disks m) (m_fs m) file_path (unat argc) argv (m_kernel m) (m_bytes m)) (\<lambda>(r, k, mem).
       case r of
         Exec_fails \<Rightarrow> Some (Inr (Returns (- 1), m\<lparr>m_kernel := k\<rparr>))
       | Exec_enters frame \<Rightarrow> Some (Inr (Enters frame mem, m\<lparr>m_kernel := k\<rparr>)))"

definition syscall_print_impl :: "addr \<Rightarrow> machine \<Rightarrow> sys_result" where
  "syscall_print_impl str m = map_option (\<lambda>m. Inr (Returns 0, m)) (on_screen_text (monitor_print str) m)"

definition syscall_read_char_impl :: "machine \<Rightarrow> sys_result" where
  "syscall_read_char_impl m =
     Some (kbind (on_kbd read_wait_pass m) (\<lambda>(c, m).
       Inr (case c of Some c \<Rightarrow> Returns (ucast c) | None \<Rightarrow> Waits, m)))"

definition syscall_wait_impl :: "sys_env \<Rightarrow> u32 \<Rightarrow> addr \<Rightarrow> machine \<Rightarrow> sys_result" where
  "syscall_wait_impl e target status_ptr m =
     obind (process_wait (e_wait_node e) target status_ptr (m_kernel m)) (\<lambda>(r, k).
       Some (Inr (case r of Some v \<Rightarrow> Returns (of_int v) | None \<Rightarrow> Waits, m\<lparr>m_kernel := k\<rparr>)))"

text \<open>The lines that \<^verbatim>\<open>ext2_fs_list_dir\<close> prints: \<^verbatim>\<open>"Name\t\tSize\n"\<close>, then \<^verbatim>\<open>"%s\t\t%d\n"\<close> for each file.\<close>

definition dir_head :: "u8 list" where "dir_head = [78, 97, 109, 101, 9, 9, 83, 105, 122, 101, 10]"

definition dir_line :: "u8 list \<times> u32 \<Rightarrow> u8 list" where
  "dir_line f = fst f @ [9, 9] @ int_text (snd f) @ [10]"

fun print_lines :: "u8 list list \<Rightarrow> monitor \<Rightarrow> monitor option" where
  "print_lines [] s = Some s"
| "print_lines (l # ls) s =
     (case with_monitor_lock (\<lambda>s. Some (fold monitor_print_char l s)) s of None \<Rightarrow> None | Some s \<Rightarrow> print_lines ls s)"

definition syscall_listdir_impl :: "machine \<Rightarrow> sys_result" where
  "syscall_listdir_impl m =
     (case list_dir (m_disks m) (m_fs m) of
        Inl p \<Rightarrow> Some (Inl p)
      | Inr files \<Rightarrow> map_option (\<lambda>m. Inr (Returns 0, m)) (on_screen_text (print_lines (dir_head # map dir_line files)) m))"

definition syscall_get_ticks_impl :: "machine \<Rightarrow> sys_result" where
  "syscall_get_ticks_impl m = Some (Inr (Returns (getTick (t_sched (k_threads (m_kernel m)))), m))"

definition syscall_video_set_mode_impl :: "sys_env \<Rightarrow> u32 \<Rightarrow> machine \<Rightarrow> sys_result" where
  "syscall_video_set_mode_impl e mode m =
     obind (video_set_mode (e_port e) (e_window e) mode (m_video m)) (\<lambda>v. Some (Inr (Returns 0, m\<lparr>m_video := v\<rparr>)))"

definition syscall_video_blit_impl :: "addr \<Rightarrow> u32 \<Rightarrow> u32 \<Rightarrow> machine \<Rightarrow> sys_result" where
  "syscall_video_blit_impl buf width height m =
     (let (r, v) = video_blit (m_bytes m) buf width height (m_video m)
      in Some (Inr (Returns (of_int r), m\<lparr>m_video := v\<rparr>)))"

definition syscall_video_set_palette_impl :: "u32 \<Rightarrow> u32 \<Rightarrow> u32 \<Rightarrow> u32 \<Rightarrow> machine \<Rightarrow> sys_result" where
  "syscall_video_set_palette_impl index r g b m =
     Some (Inr (Returns 0, m\<lparr>m_video := video_set_palette index r g b (m_video m)\<rparr>))"

text \<open>The event is stored at the address that the program gives: \<^verbatim>\<open>key\<close>, \<^verbatim>\<open>character\<close>, \<^verbatim>\<open>is_make\<close>, one byte each.\<close>

definition store_event :: "addr \<Rightarrow> keyboard_event_t \<Rightarrow> machine \<Rightarrow> machine kres" where
  "store_event a ev m =
     kbind (store_byte a (key ev) (t_vm (k_threads (m_kernel m)))) (\<lambda>v.
     kbind (store_byte (a + 1) (character ev) v) (\<lambda>v.
     kbind (store_byte (a + 2) (if is_make ev then 1 else 0) v) (\<lambda>v. Inr (m\<lparr>m_kernel := set_vm v (m_kernel m)\<rparr>))))"

definition syscall_poll_keyboard_event_impl :: "addr \<Rightarrow> machine \<Rightarrow> sys_result" where
  "syscall_poll_keyboard_event_impl event m =
     Some (kbind (on_kbd read_keyboard_char_right_now m) (\<lambda>(ev, m).
       case ev of
         None \<Rightarrow> Inr (Returns 0, m)
       | Some ev \<Rightarrow> kbind (store_event event ev m) (\<lambda>m. Inr (Returns 1, m))))"

definition syscall_get_key_state_impl :: "u32 \<Rightarrow> machine \<Rightarrow> sys_result" where
  "syscall_get_key_state_impl k m =
     Some (kbind (on_kbd (get_key_state k) m) (\<lambda>(make, m). Inr (Returns (if make then 1 else 0), m)))"

section \<open>The dispatcher\<close>

definition SYSCALL_EXIT_NUM :: u32 where "SYSCALL_EXIT_NUM = 0"
definition SYSCALL_FORK_NUM :: u32 where "SYSCALL_FORK_NUM = 1"
definition SYSCALL_EXEC_NUM :: u32 where "SYSCALL_EXEC_NUM = 2"
definition SYSCALL_LISTDIR_NUM :: u32 where "SYSCALL_LISTDIR_NUM = 7"
definition SYSCALL_PRINT_NUM :: u32 where "SYSCALL_PRINT_NUM = 8"
definition SYSCALL_WAIT_NUM :: u32 where "SYSCALL_WAIT_NUM = 9"
definition SYSCALL_READ_CHAR_NUM :: u32 where "SYSCALL_READ_CHAR_NUM = 11"
definition SYSCALL_GET_TICKS_NUM :: u32 where "SYSCALL_GET_TICKS_NUM = 13"
definition SYSCALL_VIDEO_SET_MODE_NUM :: u32 where "SYSCALL_VIDEO_SET_MODE_NUM = 14"
definition SYSCALL_VIDEO_BLIT_NUM :: u32 where "SYSCALL_VIDEO_BLIT_NUM = 15"
definition SYSCALL_VIDEO_SET_PALETTE_NUM :: u32 where "SYSCALL_VIDEO_SET_PALETTE_NUM = 16"
definition SYSCALL_POLL_KEYBOARD_EVENT_NUM :: u32 where "SYSCALL_POLL_KEYBOARD_EVENT_NUM = 17"
definition SYSCALL_GET_KEY_STATE_NUM :: u32 where "SYSCALL_GET_KEY_STATE_NUM = 18"

lemmas syscall_nums = SYSCALL_EXIT_NUM_def SYSCALL_FORK_NUM_def SYSCALL_EXEC_NUM_def SYSCALL_LISTDIR_NUM_def SYSCALL_PRINT_NUM_def
  SYSCALL_WAIT_NUM_def SYSCALL_READ_CHAR_NUM_def SYSCALL_GET_TICKS_NUM_def SYSCALL_VIDEO_SET_MODE_NUM_def SYSCALL_VIDEO_BLIT_NUM_def
  SYSCALL_VIDEO_SET_PALETTE_NUM_def SYSCALL_POLL_KEYBOARD_EVENT_NUM_def SYSCALL_GET_KEY_STATE_NUM_def

definition syscall_handler :: "sys_env \<Rightarrow> isr_params_t \<Rightarrow> machine \<Rightarrow> sys_result" where
  "syscall_handler e r m =
     (let n = reg_eax r
      in if n = SYSCALL_EXIT_NUM then syscall_exit_impl e (reg_ecx r) m
         else if n = SYSCALL_FORK_NUM then syscall_fork_impl e m
         else if n = SYSCALL_EXEC_NUM then syscall_exec_impl e (reg_ecx r) (reg_edx r) (reg_ebx r) m
         else if n = SYSCALL_PRINT_NUM then syscall_print_impl (reg_ecx r) m
         else if n = SYSCALL_READ_CHAR_NUM then syscall_read_char_impl m
         else if n = SYSCALL_WAIT_NUM then syscall_wait_impl e (reg_ecx r) (reg_edx r) m
         else if n = SYSCALL_LISTDIR_NUM then syscall_listdir_impl m
         else if n = SYSCALL_GET_TICKS_NUM then syscall_get_ticks_impl m
         else if n = SYSCALL_VIDEO_SET_MODE_NUM then syscall_video_set_mode_impl e (reg_ecx r) m
         else if n = SYSCALL_VIDEO_BLIT_NUM then syscall_video_blit_impl (reg_ecx r) (reg_edx r) (reg_ebx r) m
         else if n = SYSCALL_VIDEO_SET_PALETTE_NUM then
           syscall_video_set_palette_impl (reg_ecx r) (reg_edx r) (reg_ebx r) (reg_esi r) m
         else if n = SYSCALL_POLL_KEYBOARD_EVENT_NUM then syscall_poll_keyboard_event_impl (reg_ecx r) m
         else if n = SYSCALL_GET_KEY_STATE_NUM then syscall_get_key_state_impl (reg_ecx r) m
         else Some (Inl (Panic ''wrong syscall num !!!'')))"

text \<open>
  \<^verbatim>\<open>syscall_entry\<close>: interrupts are enabled, the handler is called with the registers that have been pushed, and the
  return restores all of them but \<^verbatim>\<open>eax\<close>, which keeps the value of the handler.
\<close>

definition syscall_entry :: "sys_env \<Rightarrow> isr_params_t \<Rightarrow> machine \<Rightarrow> (sys_end \<times> isr_params_t \<times> machine) kres option" where
  "syscall_entry e r m =
     (let k = m_kernel m
      in obind (syscall_handler e r (m\<lparr>m_kernel := set_sched ((t_sched (k_threads k))\<lparr>interrupts := True\<rparr>) k\<rparr>)) (\<lambda>(w, m).
           Some (Inr (w, case w of Returns v \<Rightarrow> r\<lparr>reg_eax := v\<rparr> | _ \<Rightarrow> r, m))))"

section \<open>The user side\<close>

text \<open>The wrappers of the user library with their arguments.\<close>

datatype user_syscall =
    Sys_fork
  | Sys_print addr
  | Sys_exit u32
  | Sys_exec addr u32 addr
  | Sys_read_char
  | Sys_wait u32 addr
  | Sys_listdir addr
  | Sys_get_ticks
  | Sys_video_set_mode u32
  | Sys_video_blit addr u32 u32
  | Sys_video_set_palette u32 u32 u32 u32
  | Sys_poll_keyboard_event addr
  | Sys_get_key_state u32

text \<open>The registers at the trap, starting from those of the caller: the number in \<^verbatim>\<open>eax\<close>, the arguments in \<^verbatim>\<open>ecx\<close>, \<^verbatim>\<open>edx\<close>,
  \<^verbatim>\<open>ebx\<close> and \<^verbatim>\<open>esi\<close>.\<close>

fun trigger_syscall :: "user_syscall \<Rightarrow> isr_params_t \<Rightarrow> isr_params_t" where
  "trigger_syscall Sys_fork r = r\<lparr>reg_eax := 1\<rparr>"
| "trigger_syscall (Sys_print str) r = r\<lparr>reg_eax := 8, reg_ecx := str\<rparr>"
| "trigger_syscall (Sys_exit n) r = r\<lparr>reg_eax := 0, reg_ecx := n\<rparr>"
| "trigger_syscall (Sys_exec file_path argc argv) r = r\<lparr>reg_eax := 2, reg_ecx := file_path, reg_edx := argc, reg_ebx := argv\<rparr>"
| "trigger_syscall Sys_read_char r = r\<lparr>reg_eax := 11\<rparr>"
| "trigger_syscall (Sys_wait target status_ptr) r = r\<lparr>reg_eax := 9, reg_ecx := target, reg_edx := status_ptr\<rparr>"
| "trigger_syscall (Sys_listdir dir) r = r\<lparr>reg_eax := 7, reg_ecx := dir\<rparr>"
| "trigger_syscall Sys_get_ticks r = r\<lparr>reg_eax := 13\<rparr>"
| "trigger_syscall (Sys_video_set_mode mode) r = r\<lparr>reg_eax := 14, reg_ecx := mode\<rparr>"
| "trigger_syscall (Sys_video_blit buf width height) r = r\<lparr>reg_eax := 15, reg_ecx := buf, reg_edx := width, reg_ebx := height\<rparr>"
| "trigger_syscall (Sys_video_set_palette i cr cg cb) r =
     r\<lparr>reg_eax := 16, reg_ecx := i, reg_edx := cr, reg_ebx := cg, reg_esi := cb\<rparr>"
| "trigger_syscall (Sys_poll_keyboard_event event) r = r\<lparr>reg_eax := 17, reg_ecx := event\<rparr>"
| "trigger_syscall (Sys_get_key_state k) r = r\<lparr>reg_eax := 18, reg_ecx := k\<rparr>"

section \<open>Calls reach their implementation\<close>

text \<open>What each call means, without numbers and registers.\<close>

fun syscall_meaning :: "sys_env \<Rightarrow> user_syscall \<Rightarrow> machine \<Rightarrow> sys_result" where
  "syscall_meaning e Sys_fork = syscall_fork_impl e"
| "syscall_meaning e (Sys_print str) = syscall_print_impl str"
| "syscall_meaning e (Sys_exit n) = syscall_exit_impl e n"
| "syscall_meaning e (Sys_exec file_path argc argv) = syscall_exec_impl e file_path argc argv"
| "syscall_meaning e Sys_read_char = syscall_read_char_impl"
| "syscall_meaning e (Sys_wait target status_ptr) = syscall_wait_impl e target status_ptr"
| "syscall_meaning e (Sys_listdir dir) = syscall_listdir_impl"
| "syscall_meaning e Sys_get_ticks = syscall_get_ticks_impl"
| "syscall_meaning e (Sys_video_set_mode mode) = syscall_video_set_mode_impl e mode"
| "syscall_meaning e (Sys_video_blit buf width height) = syscall_video_blit_impl buf width height"
| "syscall_meaning e (Sys_video_set_palette i cr cg cb) = syscall_video_set_palette_impl i cr cg cb"
| "syscall_meaning e (Sys_poll_keyboard_event event) = syscall_poll_keyboard_event_impl event"
| "syscall_meaning e (Sys_get_key_state k) = syscall_get_key_state_impl k"

lemma handler_meaning: "syscall_handler e (trigger_syscall c r) m = syscall_meaning e c m"
  by (cases c) (simp_all add: syscall_handler_def syscall_nums)

definition dispatched :: "u32 list" where "dispatched = [0, 1, 2, 7, 8, 9, 11, 13, 14, 15, 16, 17, 18]"

lemma handler_unknown: "reg_eax r \<notin> set dispatched \<Longrightarrow> syscall_handler e r m = Some (Inl (Panic ''wrong syscall num !!!''))"
  by (simp add: syscall_handler_def syscall_nums dispatched_def)

lemma set_sched_fields [simp]: "t_sched (k_threads (set_sched s k)) = s"
  by (simp add: set_sched_def set_vm_def Let_def)

text \<open>C10: the calling convention. Whatever wrapper of the user library a program calls, with any arguments, the kernel runs, with interrupts
  enabled, the implementation of this call on these arguments; when it returns a value, the program finds it in \<^verbatim>\<open>eax\<close> and every other
  register as it was at the trap. A number that no wrapper uses stops the kernel, whatever process it comes from.\<close>

theorem syscall_reaches_impl:
  "syscall_entry e (trigger_syscall c r) m =
     obind (syscall_meaning e c (m\<lparr>m_kernel := set_sched ((t_sched (k_threads (m_kernel m)))\<lparr>interrupts := True\<rparr>) (m_kernel m)\<rparr>))
       (\<lambda>(w, m'). Some (Inr (w, case w of Returns v \<Rightarrow> (trigger_syscall c r)\<lparr>reg_eax := v\<rparr> | _ \<Rightarrow> trigger_syscall c r, m'))) \<and>
   (reg_eax r \<notin> range (\<lambda>c. reg_eax (trigger_syscall c r)) \<longrightarrow>
      syscall_entry e r m = Some (Inl (Panic ''wrong syscall num !!!'')))"
proof -
  have num: "reg_eax (trigger_syscall c r) = n \<Longrightarrow> n \<in> range (\<lambda>c. reg_eax (trigger_syscall c r))" for n c by auto
  have "set dispatched \<subseteq> range (\<lambda>c. reg_eax (trigger_syscall c r))"
    using num [of Sys_fork] num [of "Sys_print 0"] num [of "Sys_exit 0"] num [of "Sys_exec 0 0 0"] num [of Sys_read_char] num [of "Sys_wait 0 0"]
      num [of "Sys_listdir 0"] num [of Sys_get_ticks] num [of "Sys_video_set_mode 0"] num [of "Sys_video_blit 0 0 0"]
      num [of "Sys_video_set_palette 0 0 0 0"] num [of "Sys_poll_keyboard_event 0"] num [of "Sys_get_key_state 0"]
    by (simp add: dispatched_def)
  then have "reg_eax r \<notin> range (\<lambda>c. reg_eax (trigger_syscall c r)) \<Longrightarrow> reg_eax r \<notin> set dispatched" by blast
  then show ?thesis using handler_unknown [of r e] by (simp add: syscall_entry_def Let_def handler_meaning)
qed


section \<open>Output of a program\<close>

lemma monitor_print_shows:
  assumes "cstr (k_mem s) str t" "on_screen s" "hold (monitor_lock s) = LOCKED_NO"
  shows "\<exists>s'. monitor_print str s = Some s' \<and> screen_of s' = fold term_putc t (screen_of s) \<and> on_screen s' \<and>
    monitor_lock s' = monitor_lock s"
proof -
  let ?s = "s\<lparr>monitor_lock := (monitor_lock s)\<lparr>hold := LOCKED_YES\<rparr>\<rparr>" and ?t = "fold monitor_print_char t"
  have on: "on_screen ?s" using assms(2) by (simp add: on_screen_def)
  have "monitor_write_str str ?s = Some (?t ?s)"
    using mon.write_str_fold [of ?s str 0 t] assms(1) on by (simp add: monitor_write_str_def)
  moreover have fr: "on_screen (?t ?s) \<and> screen_frame ?s (?t ?s)" using print_chars_ok [OF on] .
  ultimately have "monitor_print str s = Some ((?t ?s)\<lparr>monitor_lock := monitor_lock s\<rparr>)"
    unfolding monitor_print_def by (intro with_free_lock [OF assms(3)]) (simp_all add: screen_frame_def)
  moreover have "screen_of ((?t ?s)\<lparr>monitor_lock := monitor_lock s\<rparr>) = fold term_putc t (screen_of s)"
    using print_chars_terminal [OF on, of t] by (simp add: screen_of_def)
  ultimately show ?thesis using fr by (simp add: on_screen_def)
qed

definition enter_kernel :: "machine \<Rightarrow> machine" where
  "enter_kernel m = m\<lparr>m_kernel := set_sched ((t_sched (k_threads (m_kernel m)))\<lparr>interrupts := True\<rparr>) (m_kernel m)\<rparr>"

lemma enter_kernel_simps [simp]:
  "m_kbd (enter_kernel m) = m_kbd m" "m_video (enter_kernel m) = m_video m" "m_disks (enter_kernel m) = m_disks m" "m_fs (enter_kernel m) = m_fs m"
  "t_vm (k_threads (m_kernel (enter_kernel m))) = t_vm (k_threads (m_kernel m))" "m_bytes (enter_kernel m) = m_bytes m"
  by (simp_all add: enter_kernel_def set_sched_def Let_def m_bytes_def)

lemma entry_meaning:
  "syscall_entry e (trigger_syscall c r) m = obind (syscall_meaning e c (enter_kernel m))
       (\<lambda>(w, m'). Some (Inr (w, case w of Returns v \<Rightarrow> (trigger_syscall c r)\<lparr>reg_eax := v\<rparr> | _ \<Rightarrow> trigger_syscall c r, m')))"
  by (simp add: syscall_entry_def Let_def handler_meaning enter_kernel_def)


section \<open>Bytes of the address space\<close>

definition byte_at :: "u32 \<Rightarrow> nat \<Rightarrow> u8" where "byte_at w i = ucast (drop_bit (8 * i) w)"

lemma bit_set_byte:
  assumes "i < 4" "k < 32"
  shows "bit (set_byte w i b) k = (if 8 * i \<le> k \<and> k < 8 * i + 8 then bit b (k - 8 * i) else bit w k)"
proof -
  have m: "(0xFF :: u32) = mask 8" by (simp add: mask_eq_exp_minus_1)
  have "bit b (k - 8 * i) \<Longrightarrow> k < 8 * i + 8" using bit_imp_le_length [of b "k - 8 * i"] by simp
  then show ?thesis using assms unfolding set_byte_def m by (auto simp: bit_simps)
qed

lemma byte_at_set: "\<lbrakk>i < 4; j < 4\<rbrakk> \<Longrightarrow> byte_at (set_byte w i b) j = (if i = j then b else byte_at w j)"
proof (rule bit_word_eqI)
  fix n
  assume a: "i < 4" "j < 4" "n < LENGTH(8)"
  then have "8 * i \<le> 8 * j + n \<and> 8 * j + n < 8 * i + 8 \<longleftrightarrow> i = j" by auto
  then show "bit (byte_at (set_byte w i b) j) n = bit (if i = j then b else byte_at w j) n"
    using a bit_set_byte [of i "8 * j + n" w b] by (simp add: byte_at_def bit_simps)
qed

text \<open>A mapped page whose frame is no page table; two addresses are the same byte when they show the same place of the same frame.\<close>

definition data_page :: "vm \<Rightarrow> addr \<Rightarrow> bool" where
  "data_page s a \<longleftrightarrow> (\<exists>f. walk s a = Some f \<and> f \<noteq> cr3 s \<and> (\<forall>i<1024. pte_present (pde s i) \<longrightarrow> f \<noteq> table_of s i))"

definition same_byte :: "vm \<Rightarrow> addr \<Rightarrow> addr \<Rightarrow> bool" where
  "same_byte s a x \<longleftrightarrow> walk s x = walk s a \<and> unat x mod 4096 = unat a mod 4096"

lemma and_3: "unat ((a :: u32) AND 3) = unat a mod 4"
proof -
  have "a AND 3 = take_bit 2 a" by (simp add: take_bit_eq_mask mask_eq_exp_minus_1)
  then show ?thesis by (simp add: unsigned_take_bit_eq take_bit_nat_def)
qed

lemma page_place: "unat a mod 4096 = unat b mod 4096 \<longleftrightarrow> word_index a = word_index b \<and> unat a mod 4 = unat b mod 4"
proof -
  have e: "unat x mod 4096 = 4 * word_index x + unat x mod 4" for x :: u32
    using mod_mult2_eq [of "unat x" 4 1024] by (simp add: word_index_def)
  show ?thesis
  proof
    assume h: "unat a mod 4096 = unat b mod 4096"
    have "word_index x = unat x mod 4096 div 4" "unat x mod 4 = unat x mod 4096 mod 4" for x :: u32 using e [of x] by simp_all
    then show "word_index a = word_index b \<and> unat a mod 4 = unat b mod 4" by (metis h)
  qed (simp add: e)
qed

lemma shown_byte_at: "shown_bytes s a = (case walk s a of None \<Rightarrow> 0 | Some f \<Rightarrow> byte_at (phys s f (word_index a)) (unat a mod 4))"
  by (simp add: shown_bytes_def byte_at_def and_3 split: option.splits)

lemma store_byte_ok:
  assumes "data_page s a"
  shows "\<exists>s'. store_byte a b s = Inr s' \<and> walk s' = walk s \<and> (\<forall>x. data_page s' x = data_page s x) \<and> (\<forall>x y. same_byte s' x y = same_byte s x y) \<and>
    (\<forall>x. shown_bytes s' x = (if same_byte s a x then b else shown_bytes s x))"
proof -
  obtain f where f: "walk s a = Some f" "f \<noteq> cr3 s" "\<And>i. i < 1024 \<Longrightarrow> pte_present (pde s i) \<Longrightarrow> f \<noteq> table_of s i"
    using assms by (auto simp: data_page_def)
  let ?w = "set_byte (phys s f (word_index a)) (unat a mod 4) b"
  let ?s = "set_phys f (word_index a) ?w s"
  have st: "store_byte a b s = Inr ?s" using f(1) by (simp add: store_byte_def poke_byte_def vread_def vwrite_def and_3)
  have w: "walk ?s x = walk s x" for x
  proof (rule walk_phys)
    show "phys ?s (cr3 ?s) (dir_index x) = pde s (dir_index x)" using f(2) by simp
    have "pte_present (pde s (dir_index x)) \<Longrightarrow> table_of s (dir_index x) \<noteq> f" using f(3) dir_index_less by metis
    then show "pte_present (pde s (dir_index x)) \<Longrightarrow> phys ?s (table_of s (dir_index x)) (table_index x) = phys s (table_of s (dir_index x)) (table_index x)"
      by simp
  qed
  have dp: "data_page ?s x = data_page s x" for x using f(2) by (simp add: data_page_def w)
  have sb: "same_byte ?s x y = same_byte s x y" for x y unfolding same_byte_def w ..
  have "shown_bytes ?s x = (if same_byte s a x then b else shown_bytes s x)" for x
  proof (cases "walk s x = Some f")
    case True
    have "unat x mod 4 < 4" "unat a mod 4 < 4" by simp_all
    then show ?thesis using True f(1) unfolding shown_byte_at [of ?s] w
      by (auto simp: same_byte_def page_place byte_at_set shown_byte_at)
  next
    case False
    then show ?thesis using f(1) unfolding shown_byte_at w by (auto simp: same_byte_def split: option.splits)
  qed
  then show ?thesis using st w dp sb by blast
qed

section \<open>Keyboard events of a program\<close>

lemma poll_ok:
  assumes "crt_thread_node s \<noteq> NULL" "ptr (sched.nodes s (crt_thread_node s)) \<noteq> NULL" "kbd.k_sched kb = s" "ring (keyboard_queue kb) evs"
  shows "\<exists>q. read_keyboard_char_right_now kb = Inr (if evs = [] then None else Some (hd evs), kb\<lparr>keyboard_queue := q\<rparr>) \<and> ring q (tl evs)"
proof -
  have l: "\<exists>i s1. lock_irqsave s = Inr (i, s1) \<and> unlock_irqrestore i s1 = Inr s"
    using assms(1,2) by (cases "interrupts s")
      (auto simp: lock_irqsave_def unlock_irqrestore_def disable_preempt_def enable_preempt_def get_crt_thread_def upd_tcb_def interrupt_disable_def)
  have kb: "kb\<lparr>kbd.k_sched := s\<rparr> = kb" using assms(3) by simp
  show ?thesis
  proof (cases evs)
    case Nil
    then show ?thesis using l assms(3,4) ring.deq_Nil [of "keyboard_queue kb"] kb
      by (intro exI [of _ "keyboard_queue kb"]) (auto simp: read_keyboard_char_right_now_def)
  next
    case (Cons ev evs')
    then obtain q where q: "dequeue (keyboard_queue kb) = Some (ev, q)" "ring q evs'" using ring.deq_Cons assms(4) by metis
    have "kb\<lparr>keyboard_queue := q, kbd.k_sched := s\<rparr> = kb\<lparr>keyboard_queue := q\<rparr>" using assms(3) by simp
    then show ?thesis using l assms(3) q Cons by (intro exI [of _ q]) (auto simp: read_keyboard_char_right_now_def)
  qed
qed

lemma store_event_ok:
  assumes "data_page (t_vm (k_threads (m_kernel m))) a" "data_page (t_vm (k_threads (m_kernel m))) (a + 1)"
    "data_page (t_vm (k_threads (m_kernel m))) (a + 2)"
  shows "\<exists>m'. store_event a ev m = Inr m' \<and> m_kbd m' = m_kbd m \<and> m_video m' = m_video m \<and> m_disks m' = m_disks m \<and> m_fs m' = m_fs m \<and>
    m_bytes m' a = key ev \<and> m_bytes m' (a + 1) = character ev \<and> m_bytes m' (a + 2) = (if is_make ev then 1 else 0) \<and>
    (\<forall>x. (\<forall>i\<in>{0, 1, 2}. \<not> same_byte (t_vm (k_threads (m_kernel m))) (a + i) x) \<longrightarrow> m_bytes m' x = m_bytes m x)"
proof -
  let ?v = "t_vm (k_threads (m_kernel m))" and ?k = "if is_make ev then 1 else (0 :: u8)"
  obtain v1 where v1: "store_byte a (key ev) ?v = Inr v1" "\<And>x. data_page v1 x = data_page ?v x" "\<And>x y. same_byte v1 x y = same_byte ?v x y"
    "\<And>x. shown_bytes v1 x = (if same_byte ?v a x then key ev else shown_bytes ?v x)" using store_byte_ok [OF assms(1), of "key ev"] by auto
  obtain v2 where v2: "store_byte (a + 1) (character ev) v1 = Inr v2" "\<And>x. data_page v2 x = data_page ?v x" "\<And>x y. same_byte v2 x y = same_byte ?v x y"
    "\<And>x. shown_bytes v2 x = (if same_byte ?v (a + 1) x then character ev else shown_bytes v1 x)"
    using store_byte_ok [of v1 "a + 1" "character ev"] assms(2) v1(2,3) by auto
  obtain v3 where v3: "store_byte (a + 2) ?k v2 = Inr v3" "\<And>x. shown_bytes v3 x = (if same_byte ?v (a + 2) x then ?k else shown_bytes v2 x)"
    using store_byte_ok [of v2 "a + 2" ?k] assms(3) v2(2,3) by auto
  have self: "same_byte ?v x x" for x by (simp add: same_byte_def)
  have d: "\<not> same_byte ?v x y" if "unat x mod 4096 \<noteq> unat y mod 4096" for x y using that by (simp add: same_byte_def)
  have n: "unat (a + 1) mod 4096 = (unat a + 1) mod 4096" "unat (a + 2) mod 4096 = (unat a + 2) mod 4096"
    by (simp_all add: unat_word_ariths mod_mod_cancel)
  have ne: "unat a mod 4096 \<noteq> unat (a + 1) mod 4096" "unat a mod 4096 \<noteq> unat (a + 2) mod 4096" "unat (a + 1) mod 4096 \<noteq> unat (a + 2) mod 4096"
    unfolding n using mod_Suc [of "unat a" 4096] mod_Suc [of "unat a + 1" 4096] by (simp_all split: if_splits)
  have b: "m_bytes (m\<lparr>m_kernel := set_vm v3 (m_kernel m)\<rparr>) = shown_bytes v3" by (simp add: m_bytes_def set_vm_def)
  have r: "store_event a ev m = Inr (m\<lparr>m_kernel := set_vm v3 (m_kernel m)\<rparr>)" using v1(1) v2(1) v3(1) by (simp add: store_event_def)
  have "shown_bytes v3 a = key ev" "shown_bytes v3 (a + 1) = character ev" "shown_bytes v3 (a + 2) = ?k"
    using d ne by (simp_all add: v3(2) v2(4) v1(4) self)
  moreover have "shown_bytes v3 x = m_bytes m x" if "\<forall>i\<in>{0, 1, 2}. \<not> same_byte ?v (a + i) x" for x
    using that by (simp add: v3(2) v2(4) v1(4) m_bytes_def)
  ultimately show ?thesis using r b by (intro exI [of _ "m\<lparr>m_kernel := set_vm v3 (m_kernel m)\<rparr>"]) simp
qed

lemma set_sched_id: "s = t_sched (k_threads k) \<Longrightarrow> set_sched s k = k"
  by (simp add: set_sched_def)

text \<open>C12: polling the keyboard. A program that asks for an event gets 0 and unchanged memory when there is none; otherwise it gets 1, and the three
  bytes at the address it gave are the key, the character and the direction of the oldest event, which leaves the buffer; no other
  byte of its memory changes.\<close>

theorem syscall_poll_delivers:
  assumes "ring (keyboard_queue (m_kbd m)) evs" "s = t_sched (k_threads (m_kernel m))"
    and "crt_thread_node s \<noteq> NULL" "ptr (sched.nodes s (crt_thread_node s)) \<noteq> NULL"
    and "\<forall>i\<in>{0, 1, 2}. data_page (t_vm (k_threads (m_kernel m))) (a + i)"
  shows "\<exists>v m'. syscall_entry e (trigger_syscall (Sys_poll_keyboard_event a) r) m = Some (Inr (Returns v, r\<lparr>reg_eax := v, reg_ecx := a\<rparr>, m')) \<and>
    ring (keyboard_queue (m_kbd m')) (tl evs) \<and> m_video m' = m_video m \<and>
    (case evs of
       [] \<Rightarrow> v = 0 \<and> m_bytes m' = m_bytes m
     | ev # _ \<Rightarrow> v = 1 \<and> m_bytes m' a = key ev \<and> m_bytes m' (a + 1) = character ev \<and> m_bytes m' (a + 2) = (if is_make ev then 1 else 0) \<and>
         (\<forall>x. (\<forall>i\<in>{0, 1, 2}. \<not> same_byte (t_vm (k_threads (m_kernel m))) (a + i) x) \<longrightarrow> m_bytes m' x = m_bytes m x))"
proof -
  let ?m = "enter_kernel m"
  let ?s = "t_sched (k_threads (m_kernel ?m))"
  let ?kb = "(m_kbd ?m)\<lparr>kbd.k_sched := ?s\<rparr>"
  have s: "?s = s\<lparr>interrupts := True\<rparr>" by (simp add: enter_kernel_def assms(2))
  obtain q where q: "read_keyboard_char_right_now ?kb = Inr (if evs = [] then None else Some (hd evs), ?kb\<lparr>keyboard_queue := q\<rparr>)" "ring q (tl evs)"
    using poll_ok [of ?s ?kb evs] assms(1,3,4) by (auto simp: s)
  define n where "n = ?m\<lparr>m_kbd := ?kb\<lparr>keyboard_queue := q\<rparr>\<rparr>"
  have o: "on_kbd read_keyboard_char_right_now ?m = Inr (if evs = [] then None else Some (hd evs), n)"
    using q(1) by (simp add: on_kbd_def n_def set_sched_id)
  have nv: "t_vm (k_threads (m_kernel n)) = t_vm (k_threads (m_kernel m))" "m_bytes n = m_bytes m" "m_video n = m_video m" "ring (keyboard_queue (m_kbd n)) (tl evs)"
    using q(2) by (simp_all add: n_def m_bytes_def)
  show ?thesis
  proof (cases evs)
    case Nil
    then show ?thesis using o nv unfolding entry_meaning
      by (intro exI [of _ 0] exI [of _ n]) (simp add: syscall_poll_keyboard_event_impl_def)
  next
    case (Cons ev evs')
    obtain m' where m': "store_event a ev n = Inr m'" "m_kbd m' = m_kbd n" "m_video m' = m_video n"
      "m_bytes m' a = key ev" "m_bytes m' (a + 1) = character ev" "m_bytes m' (a + 2) = (if is_make ev then 1 else 0)"
      "\<forall>x. (\<forall>i\<in>{0, 1, 2}. \<not> same_byte (t_vm (k_threads (m_kernel n))) (a + i) x) \<longrightarrow> m_bytes m' x = m_bytes n x"
      using store_event_ok [of n a ev] assms(5) unfolding nv(1) by auto
    have "syscall_entry e (trigger_syscall (Sys_poll_keyboard_event a) r) m = Some (Inr (Returns 1, r\<lparr>reg_eax := 1, reg_ecx := a\<rparr>, m'))"
      using o m'(1) Cons unfolding entry_meaning by (simp add: syscall_poll_keyboard_event_impl_def)
    then show ?thesis using m'(2-7) nv Cons by (intro exI [of _ 1] exI [of _ m']) simp
  qed
qed

section \<open>A small machine\<close>

text \<open>The text \<^verbatim>\<open>Hi\<close> stands at 32 MB in the memory of the running process, and one key press is in the buffer.\<close>

definition demo_machine :: machine where
  "demo_machine = \<lparr>m_kernel = set_vm (demo_user_vm\<lparr>phys := (phys demo_user_vm)(5 := (\<lambda>_. 0)(0 := 0x6948))\<rparr>) demo_kernel,
     m_kbd = demo_kbd\<lparr>keyboard_queue := snd (enqueue \<lparr>key = 30, character = 97, is_make = True\<rparr> (keyboard_queue demo_kbd))\<rparr>,
     m_video = demo_video, m_disks = (\<lambda>_ _. 0),
     m_fs = \<lparr>current_superblock = dec_superblock (replicate 512 0), current_dir_inode = 0\<rparr>\<rparr>"

definition demo_sys_env :: sys_env where
  "demo_sys_env = \<lparr>e_fork_exit = 0, e_kmalloc = (\<lambda>n. Some (replicate (unat n div 4) 0)), e_bitmap = zero_bitmap, e_pcb = 0x900, e_tcb = 0xA00,
     e_wait_node = 0xB00, e_heap_mapped = True, e_exec = \<lparr>x_buf = 0xC0900000, x_args = 0xC0A00000, x_strs = [], x_path = 0xC0B00000, x_return = 0\<rparr>,
     e_port = (\<lambda>_ _. 0), e_window = (\<lambda>_ _. 0)\<rparr>"

definition demo_regs :: isr_params_t where
  "demo_regs = \<lparr>reg_ds = 0x23, reg_edi = 0, reg_esi = 0, reg_ebp = 0, reg_esp = 0, reg_ebx = 0, reg_edx = 0, reg_ecx = 0, reg_eax = 3, int_num = 0,
     error_code = 0, reg_eip = 0, reg_cs = 0x1B, reg_eflags = 0x200, user_esp = 0, user_ss = 0x23\<rparr>"

lemma demo_machine_vm [simp]:
  "t_vm (k_threads (m_kernel demo_machine)) = demo_user_vm\<lparr>phys := (phys demo_user_vm)(5 := (\<lambda>_. 0)(0 := 0x6948))\<rparr>"
  "t_sched (k_threads (m_kernel demo_machine)) = demo_sched\<lparr>tcbs := demo_family_tcb\<rparr>" "m_video demo_machine = demo_video"
  by (simp_all add: demo_machine_def set_vm_def)

lemma demo_machine_walk:
  "walk (t_vm (k_threads (m_kernel demo_machine))) 0x2000000 = Some 5" "walk (t_vm (k_threads (m_kernel demo_machine))) 0x2000001 = Some 5"
  "walk (t_vm (k_threads (m_kernel demo_machine))) 0x2000002 = Some 5"
  by (simp_all add: walk_def demo_user_vm_simps Let_def dir_index_def table_index_def)

lemma demo_machine_bytes: "m_bytes demo_machine 0x2000000 = 72" "m_bytes demo_machine 0x2000001 = 105" "m_bytes demo_machine 0x2000002 = 0"
  unfolding m_bytes_def shown_byte_at demo_machine_walk by (simp_all add: word_index_def byte_at_def)

theorem syscall_reaches_impl_witness:
  "syscall_entry demo_sys_env demo_regs demo_machine = Some (Inl (Panic ''wrong syscall num !!!''))"
proof -
  have "reg_eax (trigger_syscall c demo_regs) \<noteq> 3" for c by (cases c) simp_all
  then have "reg_eax demo_regs \<notin> range (\<lambda>c. reg_eax (trigger_syscall c demo_regs))" by (auto simp: demo_regs_def)
  then show ?thesis using syscall_reaches_impl [where r = demo_regs and e = demo_sys_env and m = demo_machine] by blast
qed


theorem syscall_poll_delivers_witness:
  "\<exists>m'. syscall_entry demo_sys_env (trigger_syscall (Sys_poll_keyboard_event 0x2000000) demo_regs) demo_machine =
      Some (Inr (Returns 1, demo_regs\<lparr>reg_eax := 1, reg_ecx := 0x2000000\<rparr>, m')) \<and>
     m_bytes m' 0x2000000 = 30 \<and> m_bytes m' 0x2000001 = 97 \<and> m_bytes m' 0x2000002 = 1"
proof -
  let ?ev = "\<lparr>key = 30, character = 97, is_make = True\<rparr>" and ?v = "t_vm (k_threads (m_kernel demo_machine))"
  let ?s = "t_sched (k_threads (m_kernel demo_machine))"
  have "ring (keyboard_queue demo_kbd) []" unfolding demo_kbd_def by (rule init_keyboard_ring)
  then have rg: "ring (keyboard_queue (m_kbd demo_machine)) [?ev]"
    using ring.enq_room [of "keyboard_queue demo_kbd" "[]" ?ev] by (auto simp: demo_machine_def KEYBOARD_BUF_SIZE_def)
  have c: "cr3 ?v = 2" "pte_present (pde ?v i) \<Longrightarrow> table_of ?v i \<noteq> 5" for i by (auto simp: demo_user_vm_simps)
  have dp: "\<forall>i\<in>{0, 1, 2}. data_page ?v (0x2000000 + i)"
    using c demo_machine_walk by (auto simp: data_page_def)
  have "crt_thread_node ?s \<noteq> NULL" "ptr (sched.nodes ?s (crt_thread_node ?s)) \<noteq> NULL" by (simp_all add: demo_sched_def)
  from syscall_poll_delivers [where m = demo_machine and e = demo_sys_env and r = demo_regs, OF rg refl this dp]
  show ?thesis by auto
qed

end
