(* ===== verification/Spec2Isabelle.thy ===== *)
theory Spec2Isabelle
  imports Id_Pool Kheap_Inv Hash_Table Keyboard Disk_Image Simple_Fs Elf User_Stack Page_Clone Process_Fork Process_Wait Task_Boot Process_Exec Descriptors Interrupts Video User_Io User_Lib Syscall
begin

text \<open>
  \<^bold>\<open>A verification development for a small 32-bit x86 kernel.\<close>

  The repository holds a kernel (\<^verbatim>\<open>src/src\<close>), the programs and the library that run in user mode on
  top of it (\<^verbatim>\<open>src/user/src\<close>) and the tools that build its disk image (\<^verbatim>\<open>src/user/fs\<close>).
  After the boot loader has entered protected mode, the kernel sets up paging, its heap and its
  drivers, starts the scheduler with an idle and a clean-up thread, and runs the first user program from the
  file system. From then on everything happens in interrupt handlers: the timer preempts threads, the
  keyboard fills a buffer and wakes readers, page faults map pages on demand or copy pages
  shared by \<^verbatim>\<open>fork\<close>, and system calls reach the process manager and the file system.

  \<^bold>\<open>The theories and the code they model.\<close> Interfaces are locales in the theories whose name
  ends in \<open>_Spec\<close>; each is interpreted on the model of the code in the theory of its provider.

  \<^item> \<open>Prelude\<close>: the types shared by all theories (\<open>u8\<close>, \<open>u32\<close>, addresses), the result type
    \<open>kres\<close> of code that can stop the kernel (\<^verbatim>\<open>Panic\<close> and \<^verbatim>\<open>Assert\<close> of
    \<^verbatim>\<open>src/src/include/common/secure.h\<close>) with its sequencing \<open>kbind\<close> and \<open>kassert\<close>, and lemmas on
    words and lists.
  \<^item> \<open>Bitmap\<close> (\<^verbatim>\<open>utils/bit_map.c\<close>), \<open>Id_Alloc_Spec\<close>, \<open>Id_Pool\<close> (\<^verbatim>\<open>utils/id_pool.c\<close>): the first
    free bit of the words equals the first free position of the bit sequence; ids handed out are fresh.
  \<^item> \<open>Sync\<close> (\<^verbatim>\<open>sync/yieldlock.c\<close>, \<^verbatim>\<open>sync/spinlock.c\<close>): mutual exclusion as an invariant of a step
    relation of contending threads; nested interrupt-saving locks restore the flag.
  \<^item> \<open>Node_Seq_Spec\<close>, \<open>Linked_List\<close> (\<^verbatim>\<open>utils/linked_list.c\<close>): doubly linked lists over an explicit
    node store with frames, so that several lists share the store.
  \<^item> \<open>Ordered_Array\<close> (\<^verbatim>\<open>utils/ordered_array.c\<close>), \<open>Kheap\<close>, \<open>Heap_Spec\<close>, \<open>Kheap_Inv\<close>
    (\<^verbatim>\<open>mem/kheap.c\<close>): the heap is tiled by blocks with headers and footers, no two holes are adjacent, the
    index lists exactly the holes in order of size; allocation, growth, page alignment and release keep
    this, and a client that allocates and frees never gets overlapping blocks.
  \<^item> \<open>Ptr_Map_Spec\<close>, \<open>Hash_Table\<close> (\<^verbatim>\<open>utils/hash_table.c\<close>): the chained table with its expansion is a
    finite map; destroying it frees every allocation exactly once.
  \<^item> \<open>Stdlib\<close> (\<^verbatim>\<open>common/stdlib.c\<close>, \<^verbatim>\<open>user_sys/stdlib.c\<close>): memory and string routines over a
    byte-addressed memory, number conversion, \<^verbatim>\<open>sprintf\<close> against a reference rendering.
  \<^item> \<open>Round_Robin_Spec\<close>, \<open>Scheduler\<close> (\<^verbatim>\<open>task/scheduler.c\<close>, \<^verbatim>\<open>interrupt/time.c\<close>,
    \<^verbatim>\<open>sync/cond_var.c\<close>): the queues of threads, the switch, preemption, blocking and exit.
  \<^item> \<open>Ref_Count_Spec\<close>, \<open>Page\<close>, \<open>Page_Cow\<close> (\<^verbatim>\<open>mem/page.c\<close>): physical memory, the walk of the
    processor through directory and tables, the recursive mapping through which the kernel edits them, frames
    with reference counts, mapping, release, page faults, copy on write.
  \<^item> \<open>Keyboard_Read\<close> (\<^verbatim>\<open>driver/keyboard_read.c\<close>), \<open>Bounded_Queue_Spec\<close>, \<open>Keyboard\<close>
    (\<^verbatim>\<open>driver/kerboard.c\<close>): the scancode decoder, the ring buffer, the interrupt handler that wakes the
    readers, the blocking read.
  \<^item> \<open>Disk_Codec\<close>, \<open>Hard_Disk\<close> (\<^verbatim>\<open>driver/hard_disk.c\<close>, \<^verbatim>\<open>driver/disk_io.asm\<close>), \<open>Ext2_Fs\<close>
    (\<^verbatim>\<open>fs/ext2_fs.c\<close>, \<^verbatim>\<open>fs/vfs.c\<close>), \<open>Fs_Tools\<close> (\<^verbatim>\<open>user/fs/mkfs.c\<close>,
    \<^verbatim>\<open>user/fs/fs_inject.c\<close>), \<open>Fs_Image\<close>: sectors and blocks, the on-disk structures as codecs, the
    invariant of an image; what the tools store is what the kernel reads.
  \<^item> \<open>Page_Release\<close>, \<open>Page_Clone\<close> (\<^verbatim>\<open>mem/page.c\<close>): a process that ends gives back every frame of its user space; the copy
    of an address space for \<^verbatim>\<open>fork\<close> shares all user pages, and a write on one side is never seen on the other.
  \<^item> \<open>Byte_Words\<close>, \<open>Elf\<close> (\<^verbatim>\<open>elf/elf.c\<close>): words in a byte-addressed memory; the program loader
    places every segment of a well-formed file and refuses other files.
  \<^item> \<open>Thread\<close>, \<open>Thread_Fork\<close>, \<open>User_Stack\<close> (\<^verbatim>\<open>task/thread.c\<close>): kernel stacks with guard pages, the frames of the
    first run, copying the running thread, and the arguments on the stack of a new program; creating and destroying a thread
    gives back every id, slot and frame.
  \<^item> \<open>Id_Map\<close> (\<^verbatim>\<open>utils/hash_table.c\<close> as the process manager uses it, keyed by ids), \<open>Process\<close>, \<open>Process_Exit\<close>,
    \<open>Process_Fork\<close>, \<open>Process_Wait\<close>, \<open>Process_Exec\<close> (\<^verbatim>\<open>task/process.c\<close>, \<^verbatim>\<open>utils/string.c\<close>), \<open>Task_Boot\<close>
    (the start of the scheduler and the clean-up thread of \<^verbatim>\<open>task/scheduler.c\<close>): creation, \<^verbatim>\<open>fork\<close>,
    \<^verbatim>\<open>exec\<close>, \<^verbatim>\<open>wait\<close> and \<^verbatim>\<open>exit\<close>. A process that exits hands its children to the init process, releases its
    memory, wakes the threads that wait for it and gives the processor away; \<^verbatim>\<open>wait\<close> takes an exited child exactly once or
    blocks; \<^verbatim>\<open>fork\<close> gives the caller a child with the same program, memory and stack, ready to run.
  \<^item> \<open>Format_Out\<close>, \<open>Monitor\<close> (\<^verbatim>\<open>monitor/monitor.c\<close>, \<^verbatim>\<open>common/secure.c\<close>): formatted output to a device that takes characters,
    a locale interpreted on the screen and on the buffer of the user library; the screen behaves as a terminal of 25 lines.
  \<^item> \<open>Descriptors\<close> (\<^verbatim>\<open>mem/gdt.c\<close>), \<open>Interrupts\<close> (\<^verbatim>\<open>interrupt/interrupt.c\<close>, \<^verbatim>\<open>time.c\<close>,
    \<^verbatim>\<open>protect_fault.c\<close>, \<^verbatim>\<open>disk_read.c\<close>): the tables the processor reads and what they allow user code to do; the
    dispatch of interrupts and the bytes sent to the interrupt controllers and the timer.
  \<^item> \<open>Video\<close> (\<^verbatim>\<open>driver/video.c\<close>): the driver as the events it sends, against a model of the registers of the card.
  \<^item> \<open>Simple_Fs\<close> (\<^verbatim>\<open>fs/simple_fs.c\<close>), \<open>Disk_Image\<close> (\<^verbatim>\<open>user/fs/write_disk_image.c\<close>): the read-only file system of the first
    disk format, and the tool that puts the files of a directory into an image; the kernel finds every one of them with its contents.
  \<^item> \<open>User_Io\<close> (\<^verbatim>\<open>user_sys/user_io.c\<close>, \<^verbatim>\<open>user_file/shell.c\<close>), \<open>User_Lib\<close> (\<^verbatim>\<open>sprintf\<close> of \<^verbatim>\<open>user_sys/stdlib.c\<close>):
    formatted output, the line reader and the command line of the shell.
  \<^item> \<open>Syscall\<close> (\<^verbatim>\<open>user_sys/syscall.c\<close>, \<^verbatim>\<open>syscall_trigger.asm\<close>, \<^verbatim>\<open>syscall/syscall_wrapper.asm\<close>,
    \<^verbatim>\<open>syscall/syscall_impl.c\<close>): the whole machine as one record, the trap, the dispatcher and the thirteen calls; every wrapper reaches
    its implementation with its arguments, what a program prints is what the screen shows, an event it polls is in its memory.

  \<^bold>\<open>Conventions.\<close> Machine integers are words of their width, so sums wrap as in the code. A
  function that can stop the kernel returns \<open>kres\<close>; one with a loop that may not end returns an
  \<open>option\<close> whose \<open>None\<close> is the endless loop, and the theorems show that the result is \<open>Some\<close>. Pointers are 32-bit
  addresses into typed stores, or into bytes where the code works on bytes. A critical section is one
  step when its lock is free; blocking loops are modelled as one pass, which ends with the result or
  with the thread blocked and the processor given away. Loops over the bits, words, blocks and sectors of a structure are
  structural recursions over the count the code uses. Addresses that \<^verbatim>\<open>kmalloc\<close> returns to the data
  structures are arguments of the operations; theorems assume only that they are fresh and not null.

  \<^bold>\<open>Not modelled.\<close> The boot loader, the stack switch and other single instructions in assembler, except the disk transfer loop, the
  interrupt stubs and the entry of system calls; \<^verbatim>\<open>main.c\<close>, which calls the initialisations in turn and holds heap tests that
  nothing calls; the example and test programs in \<^verbatim>\<open>user/src/user_file\<close> other than the shell. The contents of caches and of the
  translation buffer are not modelled: a walk always reads the tables.

  \<^bold>\<open>Plan.\<close> What would come next: \<^verbatim>\<open>process_exec\<close> as a whole, over the lemmas on its parts (the loader and the stack of arguments), a round of the clean-up thread, and the interleaving of several system calls.
\<close>

end
